(* ===== verification/Prelude.thy ===== *)
theory Prelude
  imports Main "HOL-Library.Word"
begin

unbundle bit_operations_syntax

text \<open>
  What every theory of the development shares: the Go integer types as words, byte
  strings with their big-endian encodings, and the outcome of a Go call. A Go function
  returns its values (\<open>Ok\<close>), returns a non-nil \<open>error\<close> (\<open>Err\<close>) or panics
  (\<open>Panic\<close>); the three are kept apart, because a panic kills the process where an
  error is handled by the caller.
\<close>

section \<open>Types\<close>

type_synonym byte = "8 word"
type_synonym u8 = "8 word"
type_synonym u32 = "32 word"
type_synonym u64 = "64 word"
type_synonym bytes = "byte list"
type_synonym address = "160 word"

datatype 'a res = Ok 'a | Err string | Panic string

named_theorems res_simps \<open>equations of the outcome combinators\<close>

fun bind_res :: "'a res \<Rightarrow> ('a \<Rightarrow> 'b res) \<Rightarrow> 'b res" where
  "bind_res (Ok x) f = f x"
| "bind_res (Err e) f = Err e"
| "bind_res (Panic e) f = Panic e"

declare bind_res.simps [res_simps]

lemma bind_res_Ok_iff [res_simps]:
  "bind_res m f = Ok y \<longleftrightarrow> (\<exists>x. m = Ok x \<and> f x = Ok y)"
  by (cases m) auto

lemma Ok_bind_res_iff: "Ok y = bind_res m f \<longleftrightarrow> (\<exists>x. m = Ok x \<and> f x = Ok y)"
  by (cases m) auto

lemma bind_resE:
  assumes "bind_res m f = Ok z"
  obtains x where "m = Ok x" "f x = Ok z"
  using assms by (cases m) auto

lemma bind_pairE:
  assumes "bind_res m (\<lambda>(x, y). g x y) = Ok z"
  obtains x y where "m = Ok (x, y)" "g x y = Ok z"
  using assms by (cases m) auto

lemma bind_tripleE:
  assumes "bind_res m (\<lambda>(x, y, w). g x y w) = Ok z"
  obtains x y w where "m = Ok (x, y, w)" "g x y w = Ok z"
  using assms by (cases m) auto

lemma bind_res_cong [fundef_cong]:
  "m = m' \<Longrightarrow> (\<And>x. m' = Ok x \<Longrightarrow> f x = g x) \<Longrightarrow> bind_res m f = bind_res m' g"
  by (cases m') auto

lemma bind_res_assoc: "bind_res (bind_res m f) g = bind_res m (\<lambda>x. bind_res (f x) g)"
  by (cases m) simp_all

text \<open>
  \<open>if cond { return err }\<close> and an indexing or slicing that panics out of range, as
  guards in front of the rest of a function.
\<close>

definition guard_err :: "bool \<Rightarrow> string \<Rightarrow> 'a res \<Rightarrow> 'a res" where
  "guard_err ok e k = (if ok then k else Err e)"

definition guard_panic :: "bool \<Rightarrow> string \<Rightarrow> 'a res \<Rightarrow> 'a res" where
  "guard_panic ok e k = (if ok then k else Panic e)"

lemma guard_err_simps [simp]:
  "guard_err True e k = k" "guard_err False e k = Err e"
  by (simp_all add: guard_err_def)

lemma guard_panic_simps [simp]:
  "guard_panic True e k = k" "guard_panic False e k = Panic e"
  by (simp_all add: guard_panic_def)

lemma guard_err_Ok [res_simps]: "guard_err c e k = Ok x \<longleftrightarrow> c \<and> k = Ok x"
  by (simp add: guard_err_def)

lemma guard_panic_Ok [res_simps]: "guard_panic c e k = Ok x \<longleftrightarrow> c \<and> k = Ok x"
  by (simp add: guard_panic_def)

text \<open>\<open>fmt.Errorf("msg: %w", err)\<close>.\<close>

fun wrap_err :: "(string \<Rightarrow> string) \<Rightarrow> 'a res \<Rightarrow> 'a res" where
  "wrap_err g (Ok x) = Ok x"
| "wrap_err g (Err e) = Err (g e)"
| "wrap_err g (Panic e) = Panic e"

lemma wrap_err_Ok [simp]: "wrap_err g r = Ok x \<longleftrightarrow> r = Ok x"
  by (cases r) auto

definition is_panic :: "'a res \<Rightarrow> bool" where
  "is_panic r = (case r of Panic _ \<Rightarrow> True | _ \<Rightarrow> False)"

lemma is_panic_simps [simp]:
  "\<not> is_panic (Ok x)" "\<not> is_panic (Err e)" "is_panic (Panic e)"
  by (simp_all add: is_panic_def)

lemma is_panic_bind: "is_panic (bind_res m f) \<longleftrightarrow> is_panic m \<or> (\<exists>x. m = Ok x \<and> is_panic (f x))"
  by (cases m) auto

lemma is_panic_wrap: "is_panic (wrap_err g r) \<longleftrightarrow> is_panic r"
  by (cases r) auto

lemma is_panic_guard: "is_panic (guard_err c e k) \<longleftrightarrow> c \<and> is_panic k"
  by (simp add: guard_err_def)

text \<open>Go slice indexing \<open>xs[i]\<close>: a panic when \<open>i\<close> is out of range.\<close>

definition index_res :: "'a list \<Rightarrow> nat \<Rightarrow> 'a res" where
  "index_res xs i = (if i < length xs then Ok (xs ! i) else Panic ''index out of range'')"

lemma index_res_Ok [res_simps]: "index_res xs i = Ok x \<longleftrightarrow> i < length xs \<and> x = xs ! i"
  by (auto simp: index_res_def)

lemma unat_bounds:
  "unat (b :: u8) < 256" "unat (w :: u32) < 2 ^ 32" "unat (d :: u64) < 2 ^ 64"
  using unsigned_less [of b, where 'a = nat] unsigned_less [of w, where 'a = nat]
    unsigned_less [of d, where 'a = nat] by simp_all

lemma or_exp_nat: "n < 2 ^ k \<Longrightarrow> 2 ^ k OR n = 2 ^ k + (n :: nat)"
proof -
  assume "n < 2 ^ k"
  then have n: "take_bit k n = n" by (simp add: take_bit_nat_eq_self)
  have "\<not> bit n k" using bit_take_bit_iff [of k n k] by (simp add: n)
  then have "2 ^ k AND n = 0" by (auto intro!: bit_eqI simp: bit_simps)
  then show ?thesis by (simp add: disjunctive_add_eq_or)
qed

section \<open>The length of a number in bits\<close>

text \<open>\<open>bits.Len64\<close> and \<open>big.Int.BitLen\<close>.\<close>

fun bits_len :: "nat \<Rightarrow> nat" where
  "bits_len n = (if n = 0 then 0 else Suc (bits_len (n div 2)))"

declare bits_len.simps [simp del]

lemma bits_len_0 [simp]: "bits_len 0 = 0" by (simp add: bits_len.simps)
lemma bits_len_double [simp]: "0 < n \<Longrightarrow> bits_len (2 * n) = Suc (bits_len n)"
  by (simp add: bits_len.simps [of "2 * n"])
lemma bits_len_double1 [simp]: "bits_len (Suc (2 * n)) = Suc (bits_len n)"
  by (simp add: bits_len.simps [of "Suc (2 * n)"])

lemma bits_len_pos: "0 < n \<Longrightarrow> 0 < bits_len n"
  by (simp add: bits_len.simps [of n])

lemma bits_len_eq_0 [simp]: "bits_len n = 0 \<longleftrightarrow> n = 0"
  by (simp add: bits_len.simps [of n])

lemma bits_len_eq_Suc: "bits_len n = Suc d \<longleftrightarrow> n \<noteq> 0 \<and> bits_len (n div 2) = d"
  by (simp add: bits_len.simps [of n])

lemma bits_len_iff: "bits_len n = Suc d \<longleftrightarrow> 2 ^ d \<le> n \<and> n < 2 ^ Suc d"
proof (induction d arbitrary: n)
  case 0
  show ?case by (auto simp: bits_len_eq_Suc)
next
  case (Suc d)
  have "bits_len n = Suc (Suc d) \<longleftrightarrow> n \<noteq> 0 \<and> bits_len (n div 2) = Suc d"
    by (rule bits_len_eq_Suc)
  also have "\<dots> \<longleftrightarrow> 2 ^ Suc d \<le> n \<and> n < 2 ^ Suc (Suc d)"
    by (auto simp: Suc less_eq_div_iff_mult_less_eq div_less_iff_less_mult)
  finally show ?case .
qed

lemma bits_len_less: "0 < n \<Longrightarrow> n < 2 ^ d \<Longrightarrow> bits_len n \<le> d"
proof (induction d arbitrary: n)
  case (Suc d)
  then show ?case
    by (cases "n div 2 = 0") (auto simp: bits_len.simps [of n] div_less_iff_less_mult)
qed simp

section \<open>Big-endian integers\<close>

text \<open>
  \<open>be_encode n x\<close> is the \<open>n\<close>-byte big-endian encoding of \<open>x\<close> (reduced modulo
  \<open>256 ^ n\<close>), as \<open>encoding/binary\<close>'s \<open>BigEndian.PutUintX\<close> and \<open>AppendUintX\<close>
  write it; \<open>be_decode\<close> reads a byte string back.
\<close>

fun be_encode :: "nat \<Rightarrow> nat \<Rightarrow> bytes" where
  "be_encode 0 x = []"
| "be_encode (Suc n) x = be_encode n (x div 256) @ [of_nat x]"

definition be_decode :: "bytes \<Rightarrow> nat" where
  "be_decode bs = foldl (\<lambda>acc b. acc * 256 + unat b) 0 bs"

lemma be_encode_numeral [simp]:
  "be_encode (numeral k) x = be_encode (pred_numeral k) (x div 256) @ [of_nat x]"
  by (simp only: numeral_eq_Suc be_encode.simps)

lemma length_be_encode [simp]: "length (be_encode n x) = n"
  by (induction n arbitrary: x) simp_all

lemma be_decode_Nil [simp]: "be_decode [] = 0"
  by (simp add: be_decode_def)

lemma be_decode_snoc [simp]: "be_decode (bs @ [b]) = be_decode bs * 256 + unat b"
  by (simp add: be_decode_def)

lemma be_decode_zeros [simp]: "be_decode (replicate n 0) = 0"
proof (induction n)
  case (Suc n)
  have "replicate (Suc n) (0 :: byte) = replicate n 0 @ [0]"
    by (simp add: replicate_append_same)
  with Suc show ?case by (simp del: replicate_Suc)
qed simp

lemma unat_of_nat_byte: "unat (of_nat x :: byte) = x mod 256"
  by (simp add: unat_of_nat)

lemma be_decode_encode: "be_decode (be_encode n x) = x mod 256 ^ n"
proof (induction n arbitrary: x)
  case (Suc n)
  have "x mod 256 ^ Suc n = x mod (256 * 256 ^ n)" by simp
  also have "\<dots> = 256 * (x div 256 mod 256 ^ n) + x mod 256"
    by (rule mod_mult2_eq)
  finally show ?case by (simp add: Suc unat_of_nat_byte)
qed simp

lemma be_decode_bound: "be_decode bs < 256 ^ length bs"
proof (induction bs rule: rev_induct)
  case (snoc b bs)
  have "unat b < 256" using unsigned_less [of b] by simp
  with snoc show ?case by simp
qed simp

lemma be_encode_decode: "be_encode (length bs) (be_decode bs) = bs"
proof (induction bs rule: rev_induct)
  case (snoc b bs)
  have b: "unat b < 256" using unsigned_less [of b] by simp
  have "(be_decode bs * 256 + unat b) div 256 = be_decode bs" using b by simp
  moreover have "(of_nat (be_decode bs * 256 + unat b) :: byte) = b"
  proof -
    have z: "(256 :: byte) = 0" by simp
    show ?thesis unfolding of_nat_add of_nat_mult of_nat_numeral z by simp
  qed
  ultimately show ?case using snoc by simp
qed simp

definition be32 :: "u32 \<Rightarrow> bytes" where "be32 w = be_encode 4 (unat w)"
definition be64 :: "u64 \<Rightarrow> bytes" where "be64 w = be_encode 8 (unat w)"
definition un32 :: "bytes \<Rightarrow> u32" where "un32 bs = of_nat (be_decode bs)"
definition un64 :: "bytes \<Rightarrow> u64" where "un64 bs = of_nat (be_decode bs)"

lemma length_be32 [simp]: "length (be32 w) = 4" by (simp add: be32_def)
lemma length_be64 [simp]: "length (be64 w) = 8" by (simp add: be64_def)

lemma un32_be32 [simp]: "un32 (be32 w) = w"
proof -
  have "unat w < 2 ^ 32" using unsigned_less [of w] by simp
  then have "unat w mod 256 ^ 4 = unat w" by simp
  then show ?thesis
    unfolding un32_def be32_def be_decode_encode by simp
qed

lemma un64_be64 [simp]: "un64 (be64 w) = w"
proof -
  have "unat w < 2 ^ 64" using unsigned_less [of w] by simp
  then have "unat w mod 256 ^ 8 = unat w" by simp
  then show ?thesis
    unfolding un64_def be64_def be_decode_encode by simp
qed

lemma be32_un32: "length bs = 4 \<Longrightarrow> be32 (un32 bs) = bs"
proof -
  assume l: "length bs = 4"
  have "be_decode bs < 2 ^ 32" using be_decode_bound [of bs] l by simp
  then have "unat (un32 bs) = be_decode bs" by (simp add: un32_def unat_of_nat)
  then show ?thesis using be_encode_decode [of bs] l by (simp add: be32_def del: be_encode_numeral)
qed

lemma be64_un64: "length bs = 8 \<Longrightarrow> be64 (un64 bs) = bs"
proof -
  assume l: "length bs = 8"
  have "be_decode bs < 2 ^ 64" using be_decode_bound [of bs] l by simp
  then have "unat (un64 bs) = be_decode bs" by (simp add: un64_def unat_of_nat)
  then show ?thesis using be_encode_decode [of bs] l by (simp add: be64_def del: be_encode_numeral)
qed

end
