(* ===== verification/ElectionInstr.thy ===== *)
theory ElectionInstr
  imports Prelude
begin

text \<open>
  The fallback instructions of the based election, after
  \<open>op-node/rollup/election/instructions.go\<close>. An election is a list of slots (the
  lookahead of an epoch), each with the address of its winner (the zero address while it
  has none) and its time. The instructions of the system configuration are run in order,
  each filling some of the slots that are still empty and paying for them with the
  operators' tickets.

  The slots and the operator addresses are parallel arrays; the loops over an index are
  recursions along both lists. The two RPC calls (the batched contract calls of
  \<open>batch.go\<close>) are the fields of \<open>election_env\<close>. A \<open>*big.Int\<close> is an \<open>int\<close>: the code
  subtracts in place, and no two operators share one \<open>big.Int\<close>, since the tickets come
  freshly decoded from one contract call.
\<close>

section \<open>Data\<close>

record election_winner =
  win_addr :: address
  win_time :: u64

type_synonym tickets = "address \<Rightarrow> int option"

text \<open>What the node asks the two chains: whether candidates pass the sequencer rules, and
  the random ticket holders for given slot times.\<close>

record election_env =
  check_seq_config :: "address list \<Rightarrow> bool list res"
  random_tickets :: "u64 list \<Rightarrow> (u64 \<times> address) list res"

definition NO_FALLBACK :: u8 where "NO_FALLBACK = 0"
definition CURRENT_PROPOSER :: u8 where "CURRENT_PROPOSER = 1"
definition CURRENT_PROPOSER_WITH_CONFIG :: u8 where "CURRENT_PROPOSER_WITH_CONFIG = 2"
definition NEXT_PROPOSER :: u8 where "NEXT_PROPOSER = 3"
definition NEXT_PROPOSER_WITH_CONFIG :: u8 where "NEXT_PROPOSER_WITH_CONFIG = 4"
definition RANDOM_TICKET_HOLDER :: u8 where "RANDOM_TICKET_HOLDER = 5"
definition PERMISSIONLESS :: u8 where "PERMISSIONLESS = 6"

lemmas instruction_codes =
  NO_FALLBACK_def CURRENT_PROPOSER_def CURRENT_PROPOSER_WITH_CONFIG_def NEXT_PROPOSER_def
  NEXT_PROPOSER_WITH_CONFIG_def RANDOM_TICKET_HOLDER_def PERMISSIONLESS_def

type_synonym election_result = "(election_winner list \<times> tickets) res"

text \<open>Put a slot back in front of the result of the rest of the loop.\<close>

definition cons_slot :: "election_winner \<Rightarrow> election_result \<Rightarrow> election_result" where
  "cons_slot w r = bind_res r (\<lambda>(ws, tk). Ok (w # ws, tk))"

section \<open>CURRENT\_PROPOSER\<close>

fun current_loop :: "election_winner list \<Rightarrow> address list \<Rightarrow> tickets \<Rightarrow> election_result" where
  "current_loop [] ops tk = Ok ([], tk)"
| "current_loop (w # ws) [] tk = Panic ''index out of range''"
| "current_loop (w # ws) (operator # ops) tk =
     (if win_addr w \<noteq> 0 then cons_slot w (current_loop ws ops tk)
      else case tk operator of
        None \<Rightarrow> Err ''failed to find tickets for operator''
      | Some n \<Rightarrow>
          if n > 0
          then cons_slot (w\<lparr>win_addr := operator\<rparr>) (current_loop ws ops (tk(operator \<mapsto> n - 1)))
          else cons_slot w (current_loop ws ops tk))"

definition ProcessCurrentProposerInstruction ::
    "election_winner list \<Rightarrow> address list \<Rightarrow> tickets \<Rightarrow> election_result" where
  "ProcessCurrentProposerInstruction ws ops tk =
     guard_err (length ws = length ops) ''invalid input lengths for this instruction''
       (current_loop ws ops tk)"

section \<open>NEXT\_PROPOSER\<close>

text \<open>The inner loop: the first of the later operators that holds a ticket, with its count.\<close>

fun find_next :: "address list \<Rightarrow> tickets \<Rightarrow> (address \<times> int) option res" where
  "find_next [] tk = Ok None"
| "find_next (operator # ops) tk =
     (case tk operator of
        None \<Rightarrow> Err ''failed to find tickets for operator''
      | Some n \<Rightarrow> if n > 0 then Ok (Some (operator, n)) else find_next ops tk)"

fun next_loop :: "election_winner list \<Rightarrow> address list \<Rightarrow> tickets \<Rightarrow> election_result" where
  "next_loop [] ops tk = Ok ([], tk)"
| "next_loop (w # ws) [] tk = Panic ''index out of range''"
| "next_loop (w # ws) (operator # ops) tk =
     (if win_addr w \<noteq> 0 then cons_slot w (next_loop ws ops tk)
      else case tk operator of
        None \<Rightarrow> Err ''failed to find tickets for operator''
      | Some n \<Rightarrow>
          if n = 0 then
            bind_res (find_next (take (length ws) ops) tk) (\<lambda>found.
              case found of
                None \<Rightarrow> cons_slot w (next_loop ws ops tk)
              | Some (a, m) \<Rightarrow>
                  cons_slot (w\<lparr>win_addr := a\<rparr>) (next_loop ws ops (tk(a \<mapsto> m - 1))))
          else cons_slot w (next_loop ws ops tk))"

definition ProcessNextProposerInstruction ::
    "election_winner list \<Rightarrow> address list \<Rightarrow> tickets \<Rightarrow> election_result" where
  "ProcessNextProposerInstruction ws ops tk =
     guard_err (length ws = length ops) ''invalid input lengths for this instruction''
       (next_loop ws ops tk)"

section \<open>RANDOM\_TICKET\_HOLDER\<close>

text \<open>The slots that still need a winner, and the slot a returned winner is written to: the
  first one with its timestamp.\<close>

definition open_times :: "election_winner list \<Rightarrow> u64 list" where
  "open_times ws = map win_time (filter (\<lambda>w. win_addr w = 0) ws)"

fun assign_at :: "u64 \<Rightarrow> address \<Rightarrow> election_winner list \<Rightarrow> election_winner list" where
  "assign_at t a [] = []"
| "assign_at t a (w # ws) =
     (if win_time w = t then w\<lparr>win_addr := a\<rparr> # ws else w # assign_at t a ws)"

fun assign_random :: "(u64 \<times> address) list \<Rightarrow> election_winner list \<Rightarrow> election_winner list" where
  "assign_random [] ws = ws"
| "assign_random ((t, a) # rs) ws =
     (if a = 0 then assign_random rs ws else assign_random rs (assign_at t a ws))"

definition ProcessRandomTicketInstruction ::
    "election_env \<Rightarrow> election_winner list \<Rightarrow> election_winner list res" where
  "ProcessRandomTicketInstruction env ws =
     bind_res (random_tickets env (open_times ws)) (\<lambda>rs. Ok (assign_random rs ws))"

section \<open>The instructions with a configuration check\<close>

text \<open>
  The second half of both instructions: the answers \<open>checks\<close> and the candidates \<open>cands\<close> are
  indexed with the number of the slot. Either index may be out of range, which panics.
\<close>

fun apply_checked ::
    "nat \<Rightarrow> election_winner list \<Rightarrow> bool list \<Rightarrow> address list \<Rightarrow> tickets \<Rightarrow> election_result" where
  "apply_checked i [] checks cands tk = Ok ([], tk)"
| "apply_checked i (w # ws) checks cands tk =
     (if win_addr w \<noteq> 0 then cons_slot w (apply_checked (Suc i) ws checks cands tk)
      else bind_res (index_res checks i) (\<lambda>passed.
        if \<not> passed then cons_slot w (apply_checked (Suc i) ws checks cands tk)
        else bind_res (index_res cands i) (\<lambda>cand.
          case tk cand of
            None \<Rightarrow> Err ''failed to find tickets for operator''
          | Some n \<Rightarrow>
              if n > 0
              then cons_slot (w\<lparr>win_addr := cand\<rparr>)
                     (apply_checked (Suc i) ws checks cands (tk(cand \<mapsto> n - 1)))
              else cons_slot w (apply_checked (Suc i) ws checks cands tk))))"

fun current_candidates :: "election_winner list \<Rightarrow> address list \<Rightarrow> address list res" where
  "current_candidates [] ops = Ok []"
| "current_candidates (w # ws) [] =
     (if win_addr w \<noteq> 0 then bind_res (current_candidates ws []) (\<lambda>r. Ok (0 # r))
      else Panic ''index out of range'')"
| "current_candidates (w # ws) (operator # ops) =
     bind_res (current_candidates ws ops)
       (\<lambda>r. Ok ((if win_addr w \<noteq> 0 then 0 else operator) # r))"

definition ProcessCurrentProposerWithConfigInstruction ::
    "election_env \<Rightarrow> election_winner list \<Rightarrow> address list \<Rightarrow> tickets \<Rightarrow> election_result" where
  "ProcessCurrentProposerWithConfigInstruction env ws ops tk =
     guard_err (length ws = length ops) ''invalid input lengths for this instruction''
       (bind_res (current_candidates ws ops) (\<lambda>cands.
        bind_res (check_seq_config env cands) (\<lambda>checks.
        apply_checked 0 ws checks cands tk)))"

text \<open>
  The candidates of the next-proposer variant: a slot that already has a winner is skipped
  and contributes \<^emph>\<open>no\<close> entry, so the list is shorter than the slots.
\<close>

fun next_candidates ::
    "election_winner list \<Rightarrow> address list \<Rightarrow> tickets \<Rightarrow> address list res" where
  "next_candidates [] ops tk = Ok []"
| "next_candidates (w # ws) [] tk =
     (if win_addr w \<noteq> 0 then next_candidates ws [] tk else Panic ''index out of range'')"
| "next_candidates (w # ws) (operator # ops) tk =
     (if win_addr w \<noteq> 0 then next_candidates ws ops tk
      else case tk operator of
        None \<Rightarrow> Err ''failed to find tickets for operator''
      | Some n \<Rightarrow>
          if n = 0 then
            bind_res (find_next (take (length ws) ops) tk) (\<lambda>found.
              bind_res (next_candidates ws ops tk) (\<lambda>r.
                Ok ((case found of None \<Rightarrow> 0 | Some (a, m) \<Rightarrow> a) # r)))
          else bind_res (next_candidates ws ops tk) (\<lambda>r. Ok (0 # r)))"

definition ProcessNextProposerWithConfigInstruction ::
    "election_env \<Rightarrow> election_winner list \<Rightarrow> address list \<Rightarrow> tickets \<Rightarrow> election_result" where
  "ProcessNextProposerWithConfigInstruction env ws ops tk =
     guard_err (length ws = length ops) ''invalid input lengths for this instruction''
       (bind_res (next_candidates ws ops tk) (\<lambda>cands.
        bind_res (check_seq_config env cands) (\<lambda>checks.
        apply_checked 0 ws checks cands tk)))"

section \<open>The instruction loop\<close>

definition run_instruction ::
    "election_env \<Rightarrow> u8 \<Rightarrow> address list \<Rightarrow> election_winner list \<times> tickets \<Rightarrow> election_result" where
  "run_instruction env instr ops st = (case st of (ws, tk) \<Rightarrow>
     if instr = NO_FALLBACK then Err ''fallback list contained NO_FALLBACK instruction''
     else if instr = CURRENT_PROPOSER then ProcessCurrentProposerInstruction ws ops tk
     else if instr = CURRENT_PROPOSER_WITH_CONFIG then
       ProcessCurrentProposerWithConfigInstruction env ws ops tk
     else if instr = NEXT_PROPOSER then ProcessNextProposerInstruction ws ops tk
     else if instr = NEXT_PROPOSER_WITH_CONFIG then
       ProcessNextProposerWithConfigInstruction env ws ops tk
     else if instr = RANDOM_TICKET_HOLDER then
       bind_res (ProcessRandomTicketInstruction env ws) (\<lambda>ws'. Ok (ws', tk))
     else if instr = PERMISSIONLESS then Ok (ws, tk)
     else Err ''unknown fallback instruction'')"

fun HandleInstructions ::
    "election_env \<Rightarrow> u8 list \<Rightarrow> election_winner list \<Rightarrow> address list \<Rightarrow> tickets \<Rightarrow> election_result" where
  "HandleInstructions env [] ws ops tk = Ok (ws, tk)"
| "HandleInstructions env (instr # instrs) ws ops tk =
     bind_res (run_instruction env instr ops (ws, tk))
       (\<lambda>(ws', tk'). HandleInstructions env instrs ws' ops tk')"

section \<open>What an instruction may do: the contract\<close>

text \<open>
  \<open>slot_le\<close>: a slot keeps its time, and its winner once it has one. \<open>award\<close>: the slots are
  kept in this sense, and every slot an operator wins is paid for with one of its tickets.
\<close>

definition slot_le :: "election_winner \<Rightarrow> election_winner \<Rightarrow> bool" where
  "slot_le w w' \<longleftrightarrow> win_time w' = win_time w \<and> (win_addr w \<noteq> 0 \<longrightarrow> w' = w)"

abbreviation slots_le :: "election_winner list \<Rightarrow> election_winner list \<Rightarrow> bool" where
  "slots_le \<equiv> list_all2 slot_le"

definition wins :: "address \<Rightarrow> election_winner list \<Rightarrow> nat" where
  "wins a ws = length (filter (\<lambda>w. win_addr w = a) ws)"

definition balance :: "tickets \<Rightarrow> address \<Rightarrow> int" where
  "balance tk a = (case tk a of None \<Rightarrow> 0 | Some n \<Rightarrow> n)"

definition award ::
    "election_winner list \<Rightarrow> tickets \<Rightarrow> election_winner list \<Rightarrow> tickets \<Rightarrow> bool" where
  "award ws tk ws' tk' \<longleftrightarrow> slots_le ws ws' \<and> dom tk' = dom tk \<and>
     (\<forall>a. a \<noteq> 0 \<longrightarrow> int (wins a ws') + balance tk' a = int (wins a ws) + balance tk a) \<and>
     (\<forall>a. 0 \<le> balance tk a \<longrightarrow> 0 \<le> balance tk' a)"

lemma slot_le_refl [simp]: "slot_le w w"
  by (simp add: slot_le_def)

lemma slot_le_trans: "slot_le u v \<Longrightarrow> slot_le v w \<Longrightarrow> slot_le u w"
  by (auto simp: slot_le_def)

lemma slot_le_fill [simp]: "win_addr w = 0 \<Longrightarrow> slot_le w (w\<lparr>win_addr := a\<rparr>)"
  by (simp add: slot_le_def)

lemma slots_le_refl [simp]: "slots_le ws ws"
  by (simp add: list_all2_refl)

lemma slots_le_trans: "slots_le us vs \<Longrightarrow> slots_le vs ws \<Longrightarrow> slots_le us ws"
  by (rule list_all2_trans [OF slot_le_trans])

lemma slots_le_times: "slots_le ws ws' \<Longrightarrow> map win_time ws' = map win_time ws"
  by (induction rule: list_all2_induct) (auto simp: slot_le_def)

lemma slots_le_nth:
  "slots_le ws ws' \<Longrightarrow> i < length ws \<Longrightarrow> win_addr (ws ! i) \<noteq> 0 \<Longrightarrow> ws' ! i = ws ! i"
  by (drule list_all2_nthD) (auto simp: slot_le_def)

lemma wins_simps [simp]:
  "wins a [] = 0"
  "wins a (w # ws) = (if win_addr w = a then Suc (wins a ws) else wins a ws)"
  by (simp_all add: wins_def)

lemma balance_upd: "balance (tk(a \<mapsto> n)) b = (if a = b then n else balance tk b)"
  by (simp add: balance_def)

lemma balance_Some: "tk a = Some n \<Longrightarrow> balance tk a = n"
  by (simp add: balance_def)

lemma award_refl [simp]: "award ws tk ws tk"
  by (simp add: award_def)

lemma award_trans: "award ws tk ws' tk' \<Longrightarrow> award ws' tk' ws'' tk'' \<Longrightarrow> award ws tk ws'' tk''"
  unfolding award_def by (auto intro: slots_le_trans)

lemma award_skip: "award ws tk ws' tk' \<Longrightarrow> award (w # ws) tk (w # ws') tk'"
  by (auto simp: award_def)

lemma award_pay:
  assumes "win_addr w = 0" "tk a = Some n" "n > 0"
    and aw: "award ws (tk(a \<mapsto> n - 1)) ws' tk'"
  shows "award (w # ws) tk (w\<lparr>win_addr := a\<rparr> # ws') tk'"
proof -
  have d: "dom tk' = dom tk" and s: "slots_le ws ws'"
    using aw assms(2) by (auto simp: award_def)
  have cons: "int (wins b (w\<lparr>win_addr := a\<rparr> # ws')) + balance tk' b
      = int (wins b (w # ws)) + balance tk b" if "b \<noteq> 0" for b
  proof -
    have "int (wins b ws') + balance tk' b = int (wins b ws) + balance (tk(a \<mapsto> n - 1)) b"
      using aw that by (simp add: award_def)
    then show ?thesis
      using that assms(1) balance_Some [of tk a n, OF assms(2)] by (auto simp: balance_upd)
  qed
  have "0 \<le> balance tk' b" if "0 \<le> balance tk b" for b
  proof -
    have "0 \<le> balance (tk(a \<mapsto> n - 1)) b" using that assms(3) by (simp add: balance_upd)
    then show ?thesis using aw by (simp add: award_def)
  qed
  then show ?thesis using cons d s assms(1) by (auto simp: award_def)
qed

lemma cons_slot_Ok [res_simps]:
  "cons_slot w r = Ok (ws', tk') \<longleftrightarrow> (\<exists>ws1. r = Ok (ws1, tk') \<and> ws' = w # ws1)"
  by (cases r) (auto simp: cons_slot_def)

text \<open>The interface of an instruction, and what follows from its laws alone.\<close>

locale slot_instruction =
  fixes run :: "election_winner list \<Rightarrow> address list \<Rightarrow> tickets \<Rightarrow> election_result"
  assumes run_slots: "run ws ops tk = Ok (ws', tk') \<Longrightarrow> slots_le ws ws'"
begin

lemma run_length: "run ws ops tk = Ok (ws', tk') \<Longrightarrow> length ws' = length ws"
  by (drule run_slots) (simp add: list_all2_lengthD)

lemma run_times: "run ws ops tk = Ok (ws', tk') \<Longrightarrow> map win_time ws' = map win_time ws"
  by (rule slots_le_times [OF run_slots])

lemma run_keeps_winner:
  "run ws ops tk = Ok (ws', tk') \<Longrightarrow> i < length ws \<Longrightarrow> win_addr (ws ! i) \<noteq> 0 \<Longrightarrow> ws' ! i = ws ! i"
  by (rule slots_le_nth [OF run_slots])

end

locale ticket_instruction =
  fixes run :: "election_winner list \<Rightarrow> address list \<Rightarrow> tickets \<Rightarrow> election_result"
  assumes run_award: "run ws ops tk = Ok (ws', tk') \<Longrightarrow> award ws tk ws' tk'"

sublocale ticket_instruction \<subseteq> slot_instruction run
  by unfold_locales (auto dest: run_award simp: award_def)

context ticket_instruction
begin

lemma wins_paid:
  "run ws ops tk = Ok (ws', tk') \<Longrightarrow> a \<noteq> 0 \<Longrightarrow>
   int (wins a ws') - int (wins a ws) = balance tk a - balance tk' a"
  by (drule run_award) (auto simp: award_def algebra_simps)

lemma wins_bounded:
  "run ws ops tk = Ok (ws', tk') \<Longrightarrow> a \<noteq> 0 \<Longrightarrow> 0 \<le> balance tk a \<Longrightarrow>
   int (wins a ws') \<le> int (wins a ws) + balance tk a"
  by (drule run_award) (force simp: award_def)

end

end
