(* ===== verification/ElectionSpec.thy ===== *)
theory ElectionSpec
  imports ElectionInstr
begin

text \<open>
  The fallback instructions meet the contract of \<open>ElectionInstr\<close>: each of the four
  instructions that pay with tickets is a \<open>ticket_instruction\<close>, the random instruction a
  \<open>slot_instruction\<close> whenever the contract call answers for the requested times only. Then
  the functional behaviour of the single instructions, and the defect of the
  next-proposer-with-config instruction.
\<close>

section \<open>The loops keep the contract\<close>

lemma current_loop_award: "current_loop ws ops tk = Ok (ws', tk') \<Longrightarrow> award ws tk ws' tk'"
proof (induction ws arbitrary: ops tk ws' tk')
  case (Cons w ws)
  then show ?case
    by (cases ops)
      (auto simp: res_simps split: if_splits option.splits intro: award_skip,
        blast intro: award_pay)
qed simp

lemma find_next_Some:
  "find_next ops tk = Ok (Some (a, n)) \<Longrightarrow> a \<in> set ops \<and> tk a = Some n \<and> n > 0"
  by (induction ops) (auto split: option.splits if_splits)

lemma next_loop_award: "next_loop ws ops tk = Ok (ws', tk') \<Longrightarrow> award ws tk ws' tk'"
proof (induction ws arbitrary: ops tk ws' tk')
  case (Cons w ws)
  then show ?case
    by (cases ops)
      (auto simp: res_simps split: if_splits option.splits prod.splits
        intro: award_skip dest!: find_next_Some,
        blast intro: award_pay)
qed simp

lemma apply_checked_award:
  "apply_checked i ws checks cands tk = Ok (ws', tk') \<Longrightarrow> award ws tk ws' tk'"
proof (induction ws arbitrary: i tk ws' tk')
  case (Cons w ws)
  then show ?case
    by (auto simp: res_simps split: if_splits option.splits intro: award_skip,
        blast intro: award_pay)
qed simp

interpretation cur: ticket_instruction ProcessCurrentProposerInstruction
  by unfold_locales
    (auto simp: ProcessCurrentProposerInstruction_def res_simps intro: current_loop_award)

interpretation nxt: ticket_instruction ProcessNextProposerInstruction
  by unfold_locales
    (auto simp: ProcessNextProposerInstruction_def res_simps intro: next_loop_award)

interpretation cur_cfg: ticket_instruction "ProcessCurrentProposerWithConfigInstruction env" for env
  by unfold_locales
    (auto simp: ProcessCurrentProposerWithConfigInstruction_def res_simps
      intro: apply_checked_award)

interpretation nxt_cfg: ticket_instruction "ProcessNextProposerWithConfigInstruction env" for env
  by unfold_locales
    (auto simp: ProcessNextProposerWithConfigInstruction_def res_simps intro: apply_checked_award)

section \<open>The random instruction\<close>

text \<open>What the contract call promises: it answers only for the timestamps it was given.\<close>

definition random_answers_requested :: "election_env \<Rightarrow> bool" where
  "random_answers_requested env \<longleftrightarrow>
     (\<forall>ts rs. random_tickets env ts = Ok rs \<longrightarrow> fst ` set rs \<subseteq> set ts)"

definition untouched_outside :: "u64 set \<Rightarrow> election_winner \<Rightarrow> election_winner \<Rightarrow> bool" where
  "untouched_outside T w w' \<longleftrightarrow> win_time w' = win_time w \<and> (win_time w \<notin> T \<longrightarrow> w' = w)"

lemma untouched_trans:
  "list_all2 (untouched_outside T) us vs \<Longrightarrow> list_all2 (untouched_outside T) vs ws
   \<Longrightarrow> list_all2 (untouched_outside T) us ws"
  by (rule list_all2_trans [of "untouched_outside T" "untouched_outside T"])
    (auto simp: untouched_outside_def)

lemma untouched_refl [simp]: "list_all2 (untouched_outside T) ws ws"
  by (rule list_all2_refl) (simp add: untouched_outside_def)

lemma assign_at_untouched: "t \<in> T \<Longrightarrow> list_all2 (untouched_outside T) ws (assign_at t a ws)"
  by (induction ws) (auto simp: untouched_outside_def)

lemma assign_random_untouched:
  "fst ` set rs \<subseteq> T \<Longrightarrow> list_all2 (untouched_outside T) ws (assign_random rs ws)"
  by (induction rs ws rule: assign_random.induct)
    (auto intro: untouched_trans [OF assign_at_untouched])

lemma filled_time_not_open:
  assumes "distinct (map win_time ws)" "w \<in> set ws" "win_addr w \<noteq> 0"
  shows "win_time w \<notin> set (open_times ws)"
  using assms by (auto simp: open_times_def distinct_map dest: inj_onD)

lemma random_slots:
  assumes ans: "random_answers_requested env" and dist: "distinct (map win_time ws)"
    and run: "ProcessRandomTicketInstruction env ws = Ok ws'"
  shows "slots_le ws ws'"
proof -
  obtain rs where rs: "random_tickets env (open_times ws) = Ok rs" and ws': "ws' = assign_random rs ws"
    using run by (auto simp: ProcessRandomTicketInstruction_def res_simps)
  have "list_all2 (untouched_outside (set (open_times ws))) ws ws'"
    unfolding ws' using ans rs by (intro assign_random_untouched) (auto simp: random_answers_requested_def)
  then show ?thesis
    using filled_time_not_open [OF dist]
    by (auto simp: list_all2_conv_all_nth untouched_outside_def slot_le_def)
qed

section \<open>The instruction loop\<close>

lemma run_instruction_award:
  assumes "run_instruction env instr ops (ws, tk) = Ok (ws', tk')"
    and "instr \<noteq> RANDOM_TICKET_HOLDER"
  shows "award ws tk ws' tk'"
  using assms
  by (auto simp: run_instruction_def split: if_splits
      intro: cur.run_award nxt.run_award cur_cfg.run_award nxt_cfg.run_award)

lemma HandleInstructions_award:
  "HandleInstructions env instrs ws ops tk = Ok (ws', tk') \<Longrightarrow>
   RANDOM_TICKET_HOLDER \<notin> set instrs \<Longrightarrow> award ws tk ws' tk'"
proof (induction instrs arbitrary: ws tk)
  case (Cons instr instrs)
  from Cons.prems(1) obtain ws1 tk1 where 1: "run_instruction env instr ops (ws, tk) = Ok (ws1, tk1)"
    and rest: "HandleInstructions env instrs ws1 ops tk1 = Ok (ws', tk')"
    by (auto simp: res_simps)
  have "award ws tk ws1 tk1" using run_instruction_award [OF 1] Cons.prems(2) by auto
  moreover have "award ws1 tk1 ws' tk'" using Cons.IH [OF rest] Cons.prems(2) by simp
  ultimately show ?case by (rule award_trans)
qed simp

lemma ticket_instruction_Handle:
  "RANDOM_TICKET_HOLDER \<notin> set instrs \<Longrightarrow> ticket_instruction (HandleInstructions env instrs)"
  by unfold_locales (rule HandleInstructions_award)

lemma run_instruction_slots:
  assumes "run_instruction env instr ops (ws, tk) = Ok (ws', tk')"
    and "random_answers_requested env" "distinct (map win_time ws)"
  shows "slots_le ws ws'"
proof (cases "instr = RANDOM_TICKET_HOLDER")
  case True
  then have "ProcessRandomTicketInstruction env ws = Ok ws'"
    using assms(1) by (auto simp: run_instruction_def instruction_codes res_simps)
  then show ?thesis using assms(2,3) by (intro random_slots)
next
  case False
  then show ?thesis using run_instruction_award [OF assms(1)] by (simp add: award_def)
qed

lemma HandleInstructions_slots:
  "HandleInstructions env instrs ws ops tk = Ok (ws', tk') \<Longrightarrow> random_answers_requested env \<Longrightarrow>
   distinct (map win_time ws) \<Longrightarrow> slots_le ws ws'"
proof (induction instrs arbitrary: ws tk)
  case (Cons instr instrs)
  from Cons.prems(1) obtain ws1 tk1 where 1: "run_instruction env instr ops (ws, tk) = Ok (ws1, tk1)"
    and rest: "HandleInstructions env instrs ws1 ops tk1 = Ok (ws', tk')"
    by (auto simp: res_simps)
  have s: "slots_le ws ws1" by (rule run_instruction_slots [OF 1 Cons.prems(2,3)])
  then have "distinct (map win_time ws1)" using Cons.prems(3) by (simp add: slots_le_times)
  then have "slots_le ws1 ws'" using Cons.IH [OF rest Cons.prems(2)] by simp
  with s show ?case by (rule slots_le_trans)
qed simp

text \<open>
  What each fallback instruction computes: the closed form of the current-proposer
  instruction, soundness and exhaustiveness of the next-proposer instruction, the
  configuration check, and the two places where the instructions do not do what the
  election means: the misaligned candidates of the next-proposer-with-config instruction
  and the random instruction's disregard of tickets spent by earlier instructions.
\<close>

section \<open>CURRENT\_PROPOSER in closed form\<close>

text \<open>How many earlier open slots of the lookahead belong to the operator of slot \<open>i\<close>, and
  the slot this leaves: an open slot is won iff the operator's tickets cover it.\<close>

definition earlier_claims :: "election_winner list \<Rightarrow> address list \<Rightarrow> nat \<Rightarrow> nat" where
  "earlier_claims ws ops i =
     length (filter (\<lambda>(w, a). win_addr w = 0 \<and> a = ops ! i) (take i (zip ws ops)))"

definition current_award ::
    "election_winner list \<Rightarrow> address list \<Rightarrow> tickets \<Rightarrow> nat \<Rightarrow> election_winner" where
  "current_award ws ops tk i =
     (if win_addr (ws ! i) = 0 \<and> int (earlier_claims ws ops i) < balance tk (ops ! i)
      then (ws ! i)\<lparr>win_addr := ops ! i\<rparr> else ws ! i)"

lemma earlier_claims_0 [simp]: "earlier_claims ws ops 0 = 0"
  by (simp add: earlier_claims_def)

lemma earlier_claims_Suc [simp]:
  "earlier_claims (w # ws) (a # ops) (Suc i) =
     (if win_addr w = 0 \<and> a = ops ! i then Suc (earlier_claims ws ops i)
      else earlier_claims ws ops i)"
  by (simp add: earlier_claims_def)

lemma current_award_skip:
  "win_addr w \<noteq> 0 \<or> balance tk a \<le> 0 \<Longrightarrow>
   current_award (w # ws) (a # ops) tk (Suc i) = current_award ws ops tk i"
  by (auto simp: current_award_def)

lemma current_award_pay:
  "win_addr w = 0 \<Longrightarrow> tk a = Some n \<Longrightarrow> n > 0 \<Longrightarrow>
   current_award (w # ws) (a # ops) tk (Suc i) = current_award ws ops (tk(a \<mapsto> n - 1)) i"
  by (auto simp: current_award_def balance_def)

lemma current_loop_closed_form:
  "current_loop ws ops tk = Ok (ws', tk') \<Longrightarrow> length ws = length ops \<Longrightarrow>
   ws' = map (current_award ws ops tk) [0..<length ws]"
proof (induction ws arbitrary: ops tk ws' tk')
  case (Cons w ws)
  then obtain a ops' where ops: "ops = a # ops'" and len: "length ws = length ops'"
    by (cases ops) auto
  have split: "map f [0..<length (w # ws)] = f 0 # map (\<lambda>i. f (Suc i)) [0..<length ws]" for f :: "nat \<Rightarrow> 'b"
    by (simp add: map_upt_Suc del: upt_Suc)
  show ?case
  proof (cases "win_addr w = 0 \<and> balance tk a > 0")
    case True
    then obtain n where n: "tk a = Some n" "n > 0" by (auto simp: balance_def split: option.splits)
    with Cons.prems(1) True obtain ws1 where
        r: "current_loop ws ops' (tk(a \<mapsto> n - 1)) = Ok (ws1, tk')" and
        ws': "ws' = w\<lparr>win_addr := a\<rparr> # ws1"
      by (auto simp: ops res_simps)
    show ?thesis
      unfolding ws' split Cons.IH [OF r len] using True n
      by (simp add: ops current_award_pay) (simp add: current_award_def)
  next
    case False
    with Cons.prems(1) obtain ws1 where r: "current_loop ws ops' tk = Ok (ws1, tk')"
      and ws': "ws' = w # ws1"
      by (auto simp: ops res_simps balance_def split: if_splits option.splits)
    show ?thesis
      unfolding ws' split Cons.IH [OF r len] using False
      by (simp add: ops current_award_skip) (auto simp: current_award_def ops)
  qed
qed simp

section \<open>NEXT\_PROPOSER: sound and exhaustive\<close>

lemma find_next_None:
  "find_next ops tk = Ok None \<Longrightarrow> a \<in> set ops \<Longrightarrow> balance tk a \<le> 0"
  by (induction ops) (auto simp: balance_def split: option.splits if_splits)

text \<open>One iteration of the outer loop: the slot is kept, or filled with a later operator.\<close>

lemma next_loop_Cons:
  assumes run: "next_loop (w # ws) (op # ops) tk = Ok (ws', tk')"
  obtains (kept) ws1 where "next_loop ws ops tk = Ok (ws1, tk')" "ws' = w # ws1"
      "win_addr w = 0 \<Longrightarrow> tk op = Some 0 \<Longrightarrow> find_next (take (length ws) ops) tk = Ok None"
    | (filled) a n ws1 where "win_addr w = 0" "tk op = Some 0" "a \<in> set ops" "tk a = Some n" "n > 0"
      "next_loop ws ops (tk(a \<mapsto> n - 1)) = Ok (ws1, tk')" "ws' = w\<lparr>win_addr := a\<rparr> # ws1"
proof (cases "win_addr w = 0 \<and> tk op = Some 0")
  case True
  with run obtain found where found: "find_next (take (length ws) ops) tk = Ok found"
    by (auto simp: res_simps)
  show ?thesis
  proof (cases found)
    case None
    with run True found show ?thesis by (auto simp: res_simps intro: kept)
  next
    case (Some am)
    then obtain a n where am: "found = Some (a, n)" by (cases am) auto
    note fn = find_next_Some [OF found [unfolded am]]
    obtain ws1 where "next_loop ws ops (tk(a \<mapsto> n - 1)) = Ok (ws1, tk')"
        "ws' = w\<lparr>win_addr := a\<rparr> # ws1"
      using run True found by (auto simp: am res_simps)
    then show ?thesis using fn True by (intro filled [of a n]) (auto dest: in_set_takeD)
  qed
next
  case False
  with run show ?thesis
    by (auto simp: res_simps split: if_splits option.splits intro: kept)
qed

lemma next_loop_balance_mono:
  "next_loop ws ops tk = Ok (ws', tk') \<Longrightarrow> balance tk' a \<le> balance tk a"
proof (induction ws arbitrary: ops tk ws' tk')
  case (Cons w ws)
  then obtain op ops' where ops: "ops = op # ops'" by (cases ops) auto
  from Cons.prems [unfolded ops] show ?case
  proof (cases rule: next_loop_Cons)
    case (filled b n ws1)
    have "balance tk' a \<le> balance (tk(b \<mapsto> n - 1)) a" by (rule Cons.IH [OF filled(6)])
    also have "\<dots> \<le> balance tk a" using filled(4) by (simp add: balance_def)
    finally show ?thesis .
  qed (rule Cons.IH)
qed simp

lemma next_loop_sound:
  "next_loop ws ops tk = Ok (ws', tk') \<Longrightarrow> i < length ws \<Longrightarrow> ws' ! i \<noteq> ws ! i \<Longrightarrow>
   win_addr (ws ! i) = 0 \<and> win_addr (ws' ! i) \<in> set (drop (Suc i) ops)"
proof (induction ws arbitrary: ops tk ws' tk' i)
  case (Cons w ws)
  then obtain op ops' where ops: "ops = op # ops'" by (cases ops) auto
  from Cons.prems(1) [unfolded ops] show ?case
  proof (cases rule: next_loop_Cons)
    case (kept ws1)
    then show ?thesis using Cons.IH [OF kept(1), of "i - 1"] Cons.prems(2,3)
      by (cases i) (auto simp: ops)
  next
    case (filled a n ws1)
    then show ?thesis using Cons.IH [OF filled(6), of "i - 1"] Cons.prems(2,3)
      by (cases i) (auto simp: ops)
  qed
qed simp

lemma next_loop_exhaustive:
  "next_loop ws ops tk = Ok (ws', tk') \<Longrightarrow> length ws = length ops \<Longrightarrow> 0 \<notin> set ops \<Longrightarrow>
   i < length ws \<Longrightarrow> win_addr (ws' ! i) = 0 \<Longrightarrow> balance tk (ops ! i) = 0 \<Longrightarrow>
   ops ! i \<in> dom tk \<Longrightarrow> a \<in> set (drop (Suc i) ops) \<Longrightarrow> balance tk' a \<le> 0"
proof (induction ws arbitrary: ops tk ws' tk' i)
  case (Cons w ws)
  then obtain op ops' where ops: "ops = op # ops'" and len: "length ws = length ops'"
    by (cases ops) auto
  from Cons.prems(1) [unfolded ops] show ?case
  proof (cases rule: next_loop_Cons)
    case (kept ws1)
    show ?thesis
    proof (cases i)
      case 0
      with Cons.prems kept have "find_next ops' tk = Ok None"
        by (auto simp: ops len balance_def)
      with Cons.prems(8) 0 have "balance tk a \<le> 0" by (intro find_next_None) (auto simp: ops)
      with next_loop_balance_mono [OF kept(1), of a] show ?thesis by simp
    next
      case (Suc k)
      then show ?thesis using Cons.IH [OF kept(1) len, of k] Cons.prems by (simp add: ops kept(2))
    qed
  next
    case (filled b n ws1)
    show ?thesis
    proof (cases i)
      case 0
      with filled Cons.prems(3,5) show ?thesis by (auto simp: ops)
    next
      case (Suc k)
      have bal: "balance (tk(b \<mapsto> n - 1)) (ops' ! k) = 0"
        and d: "ops' ! k \<in> dom (tk(b \<mapsto> n - 1))"
        using filled(4,5) Cons.prems(6,7) by (auto simp: ops Suc balance_def)
      have nz: "0 \<notin> set ops'" and k: "k < length ws" and w: "win_addr (ws1 ! k) = 0"
        and a: "a \<in> set (drop (Suc k) ops')"
        using Cons.prems(3,4,5,8) by (auto simp: ops Suc filled(7))
      show ?thesis by (rule Cons.IH [OF filled(6) len nz k w bal d a])
    qed
  qed
qed simp

end
