(* ===== verification/ElectionGuarantees.thy ===== *)
theory ElectionGuarantees
  imports ElectionSpec
begin

text \<open>
  The batched contract calls behind the instructions, after the constructors in
  \<open>op-node/batch-contracts/src\<close>: the sequencer-rule check, the ticket accounting and the
  random ticket draw. With them \<open>election_env\<close> gets a concrete instance, and the two
  hypotheses on it (answers parallel to the candidates, no answer for a time that was not
  asked) become lemmas. The token ledger and the sequencer rules are the chain's state:
  parameters.
\<close>

type_synonym u256 = "256 word"

definition BatchCheckSeqConfig :: "(address \<Rightarrow> bool) \<Rightarrow> address list \<Rightarrow> bool list" where
  "BatchCheckSeqConfig checkSequencerRules addrs =
     map (\<lambda>a. if a = 0 then False else checkSequencerRules a) addrs"

definition BatchTicketAccounting :: "(address \<Rightarrow> u256) \<Rightarrow> address list \<Rightarrow> u256 list" where
  "BatchTicketAccounting balanceOf addrs = map balanceOf addrs"

record ticket_ledger =
  led_tokenId :: nat
  led_ownerOf :: "nat \<Rightarrow> address"
  led_balanceOf :: "address \<Rightarrow> u256"

text \<open>
  The draw for one timestamp: \<open>h\<close> is the hash of a timestamp with the block's randomness.
  \<open>bal\<close> and \<open>seen\<close> are the contract's two mappings. A checked subtraction or a modulo by
  zero reverts the call.
\<close>

definition random_pick ::
    "ticket_ledger \<Rightarrow> (u64 \<Rightarrow> nat) \<Rightarrow> u64 \<Rightarrow> (address \<Rightarrow> u256) \<Rightarrow> (address \<Rightarrow> bool) \<Rightarrow>
     (address \<times> (address \<Rightarrow> u256) \<times> (address \<Rightarrow> bool)) res" where
  "random_pick led h t bal seen =
     guard_err (led_tokenId led \<noteq> 0) ''revert''
     (let owner = led_ownerOf led (h t mod led_tokenId led + 1) in
      if owner = 0 then Ok (0, bal, seen)
      else if \<not> seen owner then
        guard_err (led_balanceOf led owner \<noteq> 0) ''revert''
          (Ok (owner, bal(owner := led_balanceOf led owner - 1), seen(owner := True)))
      else
        let winner = (if bal owner = 0 then 0 else owner) in
        Ok (winner, bal(winner := bal winner - 1), seen))"

fun random_draw ::
    "ticket_ledger \<Rightarrow> (u64 \<Rightarrow> nat) \<Rightarrow> u64 list \<Rightarrow> (address \<Rightarrow> u256) \<Rightarrow> (address \<Rightarrow> bool) \<Rightarrow>
     (u64 \<times> address) list res" where
  "random_draw led h [] bal seen = Ok []"
| "random_draw led h (t # ts) bal seen =
     bind_res (random_pick led h t bal seen) (\<lambda>(winner, bal', seen').
     bind_res (random_draw led h ts bal' seen') (\<lambda>r. Ok ((t, winner) # r)))"

definition BatchRandomTicketInstruction ::
    "ticket_ledger \<Rightarrow> (u64 \<Rightarrow> nat) \<Rightarrow> u64 list \<Rightarrow> (u64 \<times> address) list res" where
  "BatchRandomTicketInstruction led h ts = random_draw led h ts (\<lambda>_. 0) (\<lambda>_. False)"

definition chain_env ::
    "(address \<Rightarrow> bool) \<Rightarrow> ticket_ledger \<Rightarrow> (u64 \<Rightarrow> nat) \<Rightarrow> election_env" where
  "chain_env rules led h =
     \<lparr>check_seq_config = (\<lambda>as. Ok (BatchCheckSeqConfig rules as)),
      random_tickets = BatchRandomTicketInstruction led h\<rparr>"

section \<open>What the contracts promise\<close>

definition drawn :: "address \<Rightarrow> (u64 \<times> address) list \<Rightarrow> nat" where
  "drawn a rs = length (filter (\<lambda>r. snd r = a) rs)"

lemma drawn_simps [simp]:
  "drawn a [] = 0" "drawn a (r # rs) = (if snd r = a then Suc (drawn a rs) else drawn a rs)"
  by (simp_all add: drawn_def)

lemma unat_minus_one_nz: "(x :: u256) \<noteq> 0 \<Longrightarrow> Suc (unat (x - 1)) = unat x"
  by (metis Suc_pred' unat_gt_0 unat_minus_one)

definition available :: "ticket_ledger \<Rightarrow> (address \<Rightarrow> u256) \<Rightarrow> (address \<Rightarrow> bool) \<Rightarrow> address \<Rightarrow> nat" where
  "available led bal seen a = unat (if seen a then bal a else led_balanceOf led a)"

lemma random_pick_available:
  "random_pick led h t bal seen = Ok (w, bal', seen') \<Longrightarrow> a \<noteq> 0 \<Longrightarrow>
   available led bal' seen' a + (if w = a then 1 else 0) \<le> available led bal seen a"
  by (auto simp: random_pick_def Let_def available_def guard_err_def unat_minus_one_nz
      split: if_splits)

text \<open>A holder wins at most as many slots of one draw as it has tickets.\<close>

lemma random_draw_available:
  "random_draw led h ts bal seen = Ok rs \<Longrightarrow> a \<noteq> 0 \<Longrightarrow> drawn a rs \<le> available led bal seen a"
proof (induction ts arbitrary: bal seen rs)
  case (Cons t ts)
  from Cons.prems(1) obtain w bal' seen' r where
      p: "random_pick led h t bal seen = Ok (w, bal', seen')" and
      r: "random_draw led h ts bal' seen' = Ok r" and rs: "rs = (t, w) # r"
    by (auto simp: res_simps)
  show ?case
    using random_pick_available [OF p Cons.prems(2)] Cons.IH [OF r Cons.prems(2)]
    by (auto simp: rs split: if_splits)
qed simp

lemma random_draw_times:
  "random_draw led h ts bal seen = Ok rs \<Longrightarrow> map fst rs = ts"
  by (induction ts arbitrary: bal seen rs) (auto simp: res_simps)

lemma random_draw_set: "random_draw led h ts bal seen = Ok rs \<Longrightarrow> fst ` set rs = set ts"
  by (drule random_draw_times) (metis list.set_map)

lemma chain_env_answers_requested [simp]: "random_answers_requested (chain_env rules led h)"
  by (auto simp: random_answers_requested_def chain_env_def BatchRandomTicketInstruction_def
      dest: random_draw_set)

lemma chain_env_checks [simp]:
  "check_seq_config (chain_env rules led h) as = Ok (BatchCheckSeqConfig rules as)"
  by (simp add: chain_env_def)

lemma BatchCheckSeqConfig_simps [simp]:
  "length (BatchCheckSeqConfig rules as) = length as"
  "i < length as \<Longrightarrow> BatchCheckSeqConfig rules as ! i \<longleftrightarrow> as ! i \<noteq> 0 \<and> rules (as ! i)"
  by (auto simp: BatchCheckSeqConfig_def)

section \<open>The configuration check\<close>

lemma is_panic_cons_slot [simp]: "is_panic (cons_slot w r) = is_panic r"
  by (cases r) (auto simp: cons_slot_def)

text \<open>A slot filled by the second half has passed the check and is its own candidate.\<close>

lemma apply_checked_sound:
  "apply_checked i ws checks cands tk = Ok (ws', tk') \<Longrightarrow> j < length ws \<Longrightarrow> ws' ! j \<noteq> ws ! j \<Longrightarrow>
   i + j < length checks \<and> checks ! (i + j) \<and> i + j < length cands \<and>
   win_addr (ws' ! j) = cands ! (i + j)"
proof (induction ws arbitrary: i tk ws' tk' j)
  case (Cons w ws)
  from Cons.prems(1) obtain w' ws1 tk1 where
      rest: "apply_checked (Suc i) ws checks cands tk1 = Ok (ws1, tk')" and ws': "ws' = w' # ws1"
      and hd: "w' = w \<or> i < length checks \<and> checks ! i \<and> i < length cands \<and> win_addr w' = cands ! i"
    by (auto simp: res_simps split: if_splits option.splits)
  show ?case
    using hd Cons.IH [OF rest, of "j - 1"] Cons.prems(2,3) by (cases j) (auto simp: ws')
qed simp

text \<open>With answers and candidates for every slot no index is out of range; with too few of
  them, and the last slot open, one is.\<close>

lemma apply_checked_no_panic:
  "i + length ws \<le> length checks \<Longrightarrow> i + length ws \<le> length cands \<Longrightarrow>
   \<not> is_panic (apply_checked i ws checks cands tk)"
  by (induction ws arbitrary: i tk) (auto simp: index_res_def split: option.splits)

lemma apply_checked_panics:
  "ws \<noteq> [] \<Longrightarrow> win_addr (last ws) = 0 \<Longrightarrow> length checks < i + length ws \<Longrightarrow>
   (\<And>k. k < length checks \<Longrightarrow> checks ! k \<Longrightarrow> k < length cands \<and> cands ! k \<in> dom tk) \<Longrightarrow>
   is_panic (apply_checked i ws checks cands tk)"
proof (induction ws arbitrary: i tk)
  case (Cons w ws)
  show ?case
  proof (cases "ws = []")
    case True
    with Cons.prems show ?thesis by (auto simp: index_res_def)
  next
    case False
    have step: "is_panic (apply_checked (Suc i) ws checks cands tk1)" if "dom tk \<subseteq> dom tk1" for tk1
      using that Cons.prems False by (intro Cons.IH) (auto, blast)
    have "is_panic (apply_checked (Suc i) ws checks cands tk)" by (rule step) simp
    moreover have "is_panic (apply_checked (Suc i) ws checks cands (tk(a \<mapsto> n)))" for a n
      by (rule step) auto
    ultimately show ?thesis
      using Cons.prems(4) [of i] by (auto simp: index_res_def dom_def split: option.splits)
  qed
qed simp

lemma next_candidates_length:
  "next_candidates ws ops tk = Ok cands \<Longrightarrow> length cands = wins 0 ws"
proof (induction ws arbitrary: ops cands)
  case (Cons w ws)
  then show ?case by (cases ops) (auto simp: res_simps split: if_splits option.splits)
qed simp

lemma next_candidates_dom:
  "next_candidates ws ops tk = Ok cands \<Longrightarrow> a \<in> set cands \<Longrightarrow> a \<noteq> 0 \<Longrightarrow> a \<in> dom tk"
proof (induction ws arbitrary: ops cands)
  case (Cons w ws)
  then show ?case
    by (cases ops)
      (auto simp: res_simps split: if_splits option.splits dest!: find_next_Some; blast)+
qed simp

lemma current_candidates_eq:
  "length ws = length ops \<Longrightarrow> current_candidates ws ops =
     Ok (map2 (\<lambda>w a. if win_addr w \<noteq> 0 then 0 else a) ws ops)"
  by (induction ws ops rule: list_induct2) auto

lemma wins_less: "w \<in> set ws \<Longrightarrow> win_addr w \<noteq> a \<Longrightarrow> wins a ws < length ws"
  unfolding wins_def by (rule length_filter_less)

text \<open>
  The guarantees of the instruction loop, stated over the model of
  \<open>instructions.go\<close>, each with a concrete run that satisfies its hypotheses.
\<close>

section \<open>Sample elections\<close>

definition open_slot :: "u64 \<Rightarrow> election_winner" where
  "open_slot t = \<lparr>win_addr = 0, win_time = t\<rparr>"

definition sample_ledger :: ticket_ledger where
  "sample_ledger = \<lparr>led_tokenId = 2, led_ownerOf = (\<lambda>i. if i = 1 then 11 else 12),
     led_balanceOf = (\<lambda>a. if a = 11 \<or> a = 12 then 1 else 0)\<rparr>"

definition sample_env :: election_env where
  "sample_env = chain_env (\<lambda>a. a = 12) sample_ledger unat"

definition sample_tickets :: tickets where
  "sample_tickets = [11 \<mapsto> 1, 12 \<mapsto> 1]"

lemmas sample_defs = open_slot_def sample_ledger_def sample_tickets_def

lemma sample_env_answers [simp]: "random_answers_requested sample_env"
  by (simp add: sample_env_def)

lemma sample_check [simp]:
  "check_seq_config sample_env as = Ok (map (\<lambda>a. a = 12) as)"
  by (auto simp: sample_env_def BatchCheckSeqConfig_def)

lemma sample_random [simp]:
  "random_tickets sample_env ts = BatchRandomTicketInstruction sample_ledger unat ts"
  by (simp add: sample_env_def chain_env_def)

lemmas run_simps = run_instruction_def instruction_codes ProcessCurrentProposerInstruction_def
  ProcessNextProposerInstruction_def ProcessRandomTicketInstruction_def
  ProcessCurrentProposerWithConfigInstruction_def ProcessNextProposerWithConfigInstruction_def
  BatchRandomTicketInstruction_def random_pick_def open_times_def cons_slot_def index_res_def
  wins_def balance_def sample_defs

section \<open>Slots and tickets\<close>

text \<open>C2: Running the fallback instructions never takes a slot away from its winner and
  never changes the number of slots or their times: whatever the instruction list, if the
  random draw answers only for the times it was asked and the slots have distinct times.\<close>

theorem handle_keeps_winners:
  assumes "HandleInstructions env instrs ws ops tk = Ok (ws', tk')"
    and "random_answers_requested env" and "distinct (map win_time ws)"
  shows "map win_time ws' = map win_time ws \<and>
    (\<forall>i < length ws. win_addr (ws ! i) \<noteq> 0 \<longrightarrow> ws' ! i = ws ! i)"
  using HandleInstructions_slots [OF assms] by (auto dest: slots_le_times slots_le_nth)

theorem handle_keeps_winners_witness:
  "\<exists>ws' tk'. HandleInstructions sample_env [1, 5] [\<lparr>win_addr = 9, win_time = 4\<rparr>, open_slot 5] [11, 12]
       sample_tickets = Ok (ws', tk') \<and> ws' ! 0 = \<lparr>win_addr = 9, win_time = 4\<rparr>"
proof -
  obtain ws' tk' where run: "HandleInstructions sample_env [1, 5]
      [\<lparr>win_addr = 9, win_time = 4\<rparr>, open_slot 5] [11, 12] sample_tickets = Ok (ws', tk')"
    by (simp add: run_simps)
  show ?thesis
    using run handle_keeps_winners [OF run sample_env_answers] by (simp add: open_slot_def)
qed

text \<open>C1: The ticket instructions conserve tickets: over any instruction list without the
  random draw, the slots an operator gains are exactly the tickets it loses, and no operator
  ends with more slots than it started with plus the tickets it held.\<close>

theorem handle_pays_tickets:
  assumes "HandleInstructions env instrs ws ops tk = Ok (ws', tk')"
    and "RANDOM_TICKET_HOLDER \<notin> set instrs" and "a \<noteq> 0" and "0 \<le> balance tk a"
  shows "int (wins a ws') - int (wins a ws) = balance tk a - balance tk' a \<and>
    0 \<le> balance tk' a \<and> int (wins a ws') \<le> int (wins a ws) + balance tk a"
  using ticket_instruction.wins_paid [OF ticket_instruction_Handle, OF assms(2,1,3)]
    HandleInstructions_award [OF assms(1,2)] assms(4)
  by (auto simp: award_def)

theorem handle_pays_tickets_witness:
  "\<exists>ws' tk'. HandleInstructions sample_env [1, 3] [open_slot 4, open_slot 5, open_slot 6] [11, 11, 12]
       sample_tickets = Ok (ws', tk') \<and> int (wins 11 ws') \<le> 1"
proof -
  obtain ws' tk' where run: "HandleInstructions sample_env [1, 3]
      [open_slot 4, open_slot 5, open_slot 6] [11, 11, 12] sample_tickets = Ok (ws', tk')"
    by (simp add: run_simps)
  have "int (wins 11 ws') \<le> 1"
    using handle_pays_tickets [OF run, of 11] by (simp add: instruction_codes sample_defs balance_def)
  with run show ?thesis by blast
qed

text \<open>CURRENT\_PROPOSER in closed form: an open slot is won, by its own operator, exactly
  when the operator's tickets exceed the number of its earlier open slots; every other slot
  is left as it was.\<close>

theorem current_proposer_closed_form:
  assumes "ProcessCurrentProposerInstruction ws ops tk = Ok (ws', tk')"
  shows "ws' = map (current_award ws ops tk) [0..<length ws]"
  using assms current_loop_closed_form
  by (auto simp: ProcessCurrentProposerInstruction_def res_simps)

theorem current_proposer_closed_form_witness:
  "\<exists>ws' tk'. ProcessCurrentProposerInstruction [open_slot 4, open_slot 5] [11, 11] sample_tickets
       = Ok (ws', tk') \<and>
     ws' = map (current_award [open_slot 4, open_slot 5] [11, 11] sample_tickets) [0, 1]"
proof -
  obtain ws' tk' where run: "ProcessCurrentProposerInstruction [open_slot 4, open_slot 5] [11, 11]
      sample_tickets = Ok (ws', tk')"
    by (simp add: run_simps)
  show ?thesis using run current_proposer_closed_form [OF run] by (simp add: upt_rec)
qed

text \<open>C23: NEXT\_PROPOSER is sound and exhaustive: a slot it fills was open and goes to an
  operator later in the lookahead, and where it leaves a slot of an operator without tickets
  open, no later operator has a ticket left at the end.\<close>

theorem next_proposer_sound_exhaustive:
  assumes run: "ProcessNextProposerInstruction ws ops tk = Ok (ws', tk')"
    and z: "0 \<notin> set ops" and i: "i < length ws"
  shows "(ws' ! i \<noteq> ws ! i \<longrightarrow>
      win_addr (ws ! i) = 0 \<and> win_addr (ws' ! i) \<in> set (drop (Suc i) ops)) \<and>
    (win_addr (ws' ! i) = 0 \<and> tk (ops ! i) = Some 0 \<longrightarrow>
      (\<forall>a \<in> set (drop (Suc i) ops). balance tk' a \<le> 0))"
proof -
  have l: "next_loop ws ops tk = Ok (ws', tk')" and len: "length ws = length ops"
    using run by (auto simp: ProcessNextProposerInstruction_def res_simps)
  show ?thesis
    using next_loop_sound [OF l i] next_loop_exhaustive [OF l len z i] balance_Some [of tk "ops ! i" 0]
    by blast
qed

theorem next_proposer_sound_exhaustive_witness:
  "\<exists>ws' tk'. ProcessNextProposerInstruction [open_slot 4, open_slot 5] [13, 12]
       [12 \<mapsto> 1, 13 \<mapsto> 0] = Ok (ws', tk') \<and> win_addr (ws' ! 0) \<in> {12}"
proof -
  obtain ws' tk' where run: "ProcessNextProposerInstruction [open_slot 4, open_slot 5] [13, 12]
      [12 \<mapsto> 1, 13 \<mapsto> 0] = Ok (ws', tk')" and w: "ws' ! 0 \<noteq> [open_slot 4, open_slot 5] ! 0"
    by (simp add: run_simps)
  show ?thesis using run w next_proposer_sound_exhaustive [OF run, of 0] by simp
qed

text \<open>CURRENT\_PROPOSER\_WITH\_CONFIG only elects an operator for its own slot, and only
  when the sequencer rules accept it.\<close>

theorem current_with_config_checked:
  assumes run: "ProcessCurrentProposerWithConfigInstruction env ws ops tk = Ok (ws', tk')"
    and i: "i < length ws" and new: "ws' ! i \<noteq> ws ! i"
  shows "win_addr (ws' ! i) = ops ! i \<and>
    (\<exists>cands checks. check_seq_config env cands = Ok checks \<and> cands ! i = ops ! i \<and> checks ! i)"
proof -
  from run have len: "length ws = length ops"
    by (simp add: ProcessCurrentProposerWithConfigInstruction_def res_simps)
  define cands where "cands = map2 (\<lambda>w a. if win_addr w \<noteq> 0 then 0 else a) ws ops"
  from run obtain checks where c: "check_seq_config env cands = Ok checks"
    and a: "apply_checked 0 ws checks cands tk = Ok (ws', tk')"
    by (auto simp: ProcessCurrentProposerWithConfigInstruction_def res_simps
        current_candidates_eq [OF len] cands_def)
  have "win_addr (ws ! i) = 0"
    using new i slots_le_nth [OF _ i] apply_checked_award [OF a] by (auto simp: award_def)
  then have "cands ! i = ops ! i" using i len by (simp add: cands_def)
  then show ?thesis using apply_checked_sound [OF a i new] c by auto
qed

theorem current_with_config_checked_witness:
  "\<exists>ws' tk'. ProcessCurrentProposerWithConfigInstruction sample_env [open_slot 4, open_slot 5] [11, 12]
       sample_tickets = Ok (ws', tk') \<and> win_addr (ws' ! 1) = 12"
proof -
  obtain ws' tk' where run: "ProcessCurrentProposerWithConfigInstruction sample_env
      [open_slot 4, open_slot 5] [11, 12] sample_tickets = Ok (ws', tk')"
    and w: "ws' ! 1 \<noteq> [open_slot 4, open_slot 5] ! 1"
    by (simp add: run_simps)
  show ?thesis using run w current_with_config_checked [OF run, of 1] by simp
qed

text \<open>C24: NEXT\_PROPOSER\_WITH\_CONFIG crashes the node as soon as it has work to do after
  another instruction: if some slot already has a winner and the last slot has none, then the
  candidates are fewer than the slots, and the loop indexes the answers out of range. (The
  check contract answers once per candidate, and never accepts the zero address.)\<close>

theorem next_with_config_panics:
  assumes cands: "next_candidates ws ops tk = Ok cands" and len: "length ws = length ops"
    and filled: "w \<in> set ws" "win_addr w \<noteq> 0" and last: "win_addr (last ws) = 0"
  shows "is_panic (ProcessNextProposerWithConfigInstruction (chain_env rules led h) ws ops tk)"
proof -
  let ?checks = "BatchCheckSeqConfig rules cands"
  have ne: "ws \<noteq> []" using filled by auto
  have short: "length ?checks < 0 + length ws"
    using wins_less [OF filled] next_candidates_length [OF cands] by simp
  have "is_panic (apply_checked 0 ws ?checks cands tk)"
    by (rule apply_checked_panics [OF ne last short])
      (use next_candidates_dom [OF cands nth_mem] in auto)
  then show ?thesis
    using cands len by (simp add: ProcessNextProposerWithConfigInstruction_def)
qed

theorem next_with_config_panics_witness:
  "is_panic (ProcessNextProposerWithConfigInstruction (chain_env (\<lambda>_. True) sample_ledger unat)
     [\<lparr>win_addr = 11, win_time = 4\<rparr>, open_slot 5, open_slot 6] [11, 13, 12] [12 \<mapsto> 1, 13 \<mapsto> 0])"
  by (rule next_with_config_panics [where cands = "[12, 0]" and w = "\<lparr>win_addr = 11, win_time = 4\<rparr>"])
    (simp_all add: run_simps)

text \<open>The random draw does not know of the tickets that earlier instructions have spent:
  after CURRENT\_PROPOSER and RANDOM\_TICKET\_HOLDER an operator with a single ticket can hold
  two slots, although each instruction alone respects the tickets.\<close>

theorem random_draw_overspends:
  "\<exists>ws' tk'. HandleInstructions sample_env [CURRENT_PROPOSER, RANDOM_TICKET_HOLDER]
       [open_slot 4, open_slot 6] [11, 13] [11 \<mapsto> 1, 13 \<mapsto> 0] = Ok (ws', tk') \<and>
     wins 11 ws' = 2 \<and> led_balanceOf sample_ledger 11 = 1"
  by (simp add: run_simps)

text \<open>One random draw alone never awards a holder more slots than its tickets.\<close>

theorem random_draw_within_balance:
  assumes "BatchRandomTicketInstruction led h ts = Ok rs" and "a \<noteq> 0"
  shows "map fst rs = ts \<and> drawn a rs \<le> unat (led_balanceOf led a)"
  using random_draw_available [OF assms(1) [unfolded BatchRandomTicketInstruction_def] assms(2)]
    random_draw_times [OF assms(1) [unfolded BatchRandomTicketInstruction_def]]
  by (simp add: available_def)

theorem random_draw_within_balance_witness:
  "\<exists>rs. BatchRandomTicketInstruction sample_ledger unat [4, 6, 7] = Ok rs \<and> drawn 11 rs \<le> 1"
proof -
  obtain rs where run: "BatchRandomTicketInstruction sample_ledger unat [4, 6, 7] = Ok rs"
    by (simp add: run_simps)
  show ?thesis using run random_draw_within_balance [OF run, of 11] by (simp add: sample_defs)
qed

end
