(* ===== verification/ElectionStore.thy ===== *)
theory ElectionStore
  imports ElectionInstr
begin

text \<open>
  The node's view of the election, after \<open>op-node/rollup/election_client/state.go\<close> and
  \<open>client.go\<close>: a map from slot time to winner that is fed by the deriver's events, read by the
  derivation pipeline and the sequencer, and pruned as the chain finalizes. The map's pointers
  are to records nobody changes once they are in an event, so they are the records.
\<close>

section \<open>Model\<close>

record election_store =
  electionWinnersMap :: "u64 \<Rightarrow> election_winner option"
  latestWinner :: "election_winner option"

datatype election_event =
    ElectionWinnerEvent "election_winner list"
  | ElectionWinnerOutdatedEvent u64
  | ElectionErrorEvent string
  | OtherEvent

definition zero_winner :: election_winner where
  "zero_winner = \<lparr>win_addr = 0, win_time = 0\<rparr>"

definition NewElectionStore :: election_store where
  "NewElectionStore = \<lparr>electionWinnersMap = (\<lambda>_. None), latestWinner = None\<rparr>"

definition GetElectionWinner :: "election_store \<Rightarrow> u64 \<Rightarrow> election_winner" where
  "GetElectionWinner s t = (case electionWinnersMap s t of None \<Rightarrow> zero_winner | Some w \<Rightarrow> w)"

definition GetLastWinnerInCurrentEpoch :: "election_store \<Rightarrow> election_winner" where
  "GetLastWinnerInCurrentEpoch s = (case latestWinner s of None \<Rightarrow> zero_winner | Some w \<Rightarrow> w)"

fun store_all :: "election_winner list \<Rightarrow> (u64 \<Rightarrow> election_winner option) \<Rightarrow> u64 \<Rightarrow> election_winner option" where
  "store_all [] m = m"
| "store_all (w # ws) m = store_all ws (m(win_time w \<mapsto> w))"

definition StoreElectionWinners :: "election_store \<Rightarrow> election_winner list \<Rightarrow> election_store" where
  "StoreElectionWinners s ws =
     (if ws = [] then s
      else
        let s' = s\<lparr>electionWinnersMap := store_all ws (electionWinnersMap s)\<rparr>;
            newLatest = last ws in
        (case latestWinner s of
           None \<Rightarrow> s'\<lparr>latestWinner := Some newLatest\<rparr>
         | Some l \<Rightarrow> if win_time newLatest > win_time l then s'\<lparr>latestWinner := Some newLatest\<rparr> else s'))"

definition RemoveOutdatedElectionWinners :: "election_store \<Rightarrow> u64 \<Rightarrow> election_store" where
  "RemoveOutdatedElectionWinners s t =
     s\<lparr>electionWinnersMap := (\<lambda>k. if k < t then None else electionWinnersMap s k)\<rparr>"

text \<open>The event handler: the state and whether the event was handled.\<close>

fun store_OnEvent :: "election_store \<Rightarrow> election_event \<Rightarrow> election_store \<times> bool" where
  "store_OnEvent s (ElectionWinnerEvent ws) = (StoreElectionWinners s ws, True)"
| "store_OnEvent s (ElectionWinnerOutdatedEvent t) = (RemoveOutdatedElectionWinners s t, True)"
| "store_OnEvent s _ = (s, False)"

fun store_run :: "election_store \<Rightarrow> election_event list \<Rightarrow> election_store" where
  "store_run s [] = s"
| "store_run s (e # es) = store_run (fst (store_OnEvent s e)) es"

section \<open>Specification: the schedule an event history defines\<close>

text \<open>The last winner a list names for a time, and the schedule that a history of events
  defines: the latest event about a time decides.\<close>

definition last_at :: "election_winner list \<Rightarrow> u64 \<Rightarrow> election_winner option" where
  "last_at ws t = find (\<lambda>w. win_time w = t) (rev ws)"

fun scheduled :: "election_event list \<Rightarrow> u64 \<Rightarrow> election_winner option" where
  "scheduled [] t = None"
| "scheduled (e # history) t =
     (case e of
        ElectionWinnerEvent ws \<Rightarrow>
          (case last_at ws t of Some w \<Rightarrow> Some w | None \<Rightarrow> scheduled history t)
      | ElectionWinnerOutdatedEvent T \<Rightarrow> if t < T then None else scheduled history t
      | _ \<Rightarrow> scheduled history t)"

text \<open>
  The interface the pipeline relies on: what a lookup returns after storing winners and after
  pruning. A provider that keeps these laws implements the schedule.
\<close>

locale winner_provider =
  fixes fresh :: 's
    and handle :: "'s \<Rightarrow> election_event \<Rightarrow> 's"
    and lookup :: "'s \<Rightarrow> u64 \<Rightarrow> election_winner option"
  assumes lookup_fresh: "lookup fresh t = None"
    and lookup_store: "lookup (handle s (ElectionWinnerEvent ws)) t =
          (case last_at ws t of Some w \<Rightarrow> Some w | None \<Rightarrow> lookup s t)"
    and lookup_expire: "lookup (handle s (ElectionWinnerOutdatedEvent T)) t =
          (if t < T then None else lookup s t)"
    and lookup_error: "lookup (handle s (ElectionErrorEvent err)) t = lookup s t"
    and lookup_other: "lookup (handle s OtherEvent) t = lookup s t"
begin

lemma lookup_run_from:
  assumes "\<And>t. lookup s t = scheduled past t"
  shows "lookup (foldl handle s es) t = scheduled (rev es @ past) t"
  using assms
proof (induction es arbitrary: s past)
  case (Cons e es)
  have "lookup (handle s e) u = scheduled (e # past) u" for u
    by (cases e) (simp_all add: lookup_store lookup_expire lookup_error lookup_other Cons.prems
        split: option.split)
  from Cons.IH [OF this] show ?case by simp
qed simp

lemma lookup_run: "lookup (foldl handle fresh es) t = scheduled (rev es) t"
  using lookup_run_from [of fresh "[]" es t] by (simp add: lookup_fresh)

end

section \<open>The store implements it\<close>

lemma store_all_find: "store_all ws m t = (case last_at ws t of Some w \<Rightarrow> Some w | None \<Rightarrow> m t)"
proof (induction ws arbitrary: m)
  case (Cons w ws)
  have app: "find P (xs @ [x]) = (case find P xs of Some y \<Rightarrow> Some y | None \<Rightarrow> if P x then Some x else None)"
    for P :: "election_winner \<Rightarrow> bool" and xs x
    by (induction xs) auto
  show ?case using Cons.IH by (auto simp: last_at_def app split: option.splits)
qed (simp add: last_at_def)

lemma map_StoreElectionWinners:
  "electionWinnersMap (StoreElectionWinners s ws) = store_all ws (electionWinnersMap s)"
  by (simp add: StoreElectionWinners_def Let_def split: option.splits)

interpretation store: winner_provider NewElectionStore "\<lambda>s e. fst (store_OnEvent s e)" electionWinnersMap
  by unfold_locales
    (simp_all add: NewElectionStore_def map_StoreElectionWinners store_all_find
      RemoveOutdatedElectionWinners_def)

lemma store_run_foldl: "store_run s es = foldl (\<lambda>s e. fst (store_OnEvent s e)) s es"
  by (induction es arbitrary: s) simp_all

lemma last_at_time: "last_at ws t = Some w \<Longrightarrow> win_time w = t \<and> w \<in> set ws"
  unfolding last_at_def by (auto simp: find_Some_iff) (metis nth_mem set_rev length_rev)

lemma last_at_unique:
  "distinct (map win_time ws) \<Longrightarrow> w \<in> set ws \<Longrightarrow> last_at ws (win_time w) = Some w"
proof -
  assume d: "distinct (map win_time ws)" and w: "w \<in> set ws"
  have "last_at ws (win_time w) \<noteq> None" using w by (auto simp: last_at_def find_None_iff)
  then obtain v where v: "last_at ws (win_time w) = Some v" by auto
  with last_at_time [OF v] d w show ?thesis by (auto simp: distinct_map dest: inj_onD)
qed

lemma scheduled_time: "scheduled h t = Some w \<Longrightarrow> win_time w = t"
  by (induction h) (auto split: election_event.splits option.splits if_splits dest: last_at_time)

definition latest_time :: "election_store \<Rightarrow> nat" where
  "latest_time s = (case latestWinner s of None \<Rightarrow> 0 | Some w \<Rightarrow> unat (win_time w))"

lemma store_OnEvent_latest_mono: "latest_time s \<le> latest_time (fst (store_OnEvent s e))"
  by (cases e)
    (auto simp: latest_time_def StoreElectionWinners_def RemoveOutdatedElectionWinners_def Let_def
      word_less_nat_alt split: option.splits)

section \<open>Guarantees\<close>

text \<open>C22: The store implements the schedule of its event history: after any sequence of events
  a lookup returns the winner named by the latest event about that time, and the zero winner if
  there is none or the time has been pruned since.\<close>

theorem store_lookup_schedule:
  "GetElectionWinner (store_run NewElectionStore es) t =
     (case scheduled (rev es) t of None \<Rightarrow> zero_winner | Some w \<Rightarrow> w)"
  by (simp add: GetElectionWinner_def store_run_foldl store.lookup_run)

text \<open>The latest winner known to the store never moves back in time, over any sequence of
  events: pruning does not touch it and an older epoch does not replace it.\<close>

theorem store_latest_monotone:
  "latest_time (store_run s es) \<le> latest_time (store_run s (es @ es'))"
proof -
  have step: "latest_time u \<le> latest_time (store_run u fs)" for u fs
    by (induction fs arbitrary: u) (auto intro: order_trans [OF store_OnEvent_latest_mono])
  have "store_run s (es @ es') = store_run (store_run s es) es'"
    by (induction es arbitrary: s) simp_all
  then show ?thesis using step by simp
qed

end
