(* ===== verification/Eth.thy ===== *)
theory Eth
  imports Prelude
begin

text \<open>
  The block references of \<open>op-service/eth/id.go\<close> and the number formatting used for RPC
  block tags.
\<close>

type_synonym hash = "256 word"

text \<open>The 32 bytes of a hash.\<close>

definition hash_bytes :: "hash \<Rightarrow> bytes" where
  "hash_bytes h = be_encode 32 (unat h)"

text \<open>The 20 bytes of an address, and \<open>common.BytesToAddress\<close>.\<close>

definition address_bytes :: "address \<Rightarrow> bytes" where "address_bytes a = be_encode 20 (unat a)"

definition BytesToAddress :: "bytes \<Rightarrow> address" where "BytesToAddress bs = of_nat (be_decode bs)"

lemma address_roundtrip: "BytesToAddress (address_bytes a) = a"
proof -
  have "unat a < 256 ^ 20" using unsigned_less [of a, where 'a = nat] by simp
  then show ?thesis unfolding BytesToAddress_def address_bytes_def be_decode_encode by simp
qed

lemma address_bytes_length: "length (address_bytes a) = 20"
  unfolding address_bytes_def by (rule length_be_encode)

definition BytesToHash :: "bytes \<Rightarrow> hash" where "BytesToHash bs = of_nat (be_decode bs)"

lemma hash_roundtrip: "BytesToHash (hash_bytes h) = h"
proof -
  have "unat h < 256 ^ 32" using unsigned_less [of h, where 'a = nat] by simp
  then show ?thesis unfolding BytesToHash_def hash_bytes_def be_decode_encode by simp
qed

lemma hash_bytes_length: "length (hash_bytes h) = 32"
  unfolding hash_bytes_def by (rule length_be_encode)

record block_id =
  id_hash :: hash
  id_number :: u64

record l1_block_ref =
  l1_hash :: hash
  l1_number :: u64
  l1_parentHash :: hash
  l1_time :: u64

record l2_block_ref =
  l2_hash :: hash
  l2_number :: u64
  l2_parentHash :: hash
  l2_time :: u64
  l2_l1Origin :: block_id
  l2_sequenceNumber :: u64

definition zero_block_id :: block_id where
  "zero_block_id = \<lparr>id_hash = 0, id_number = 0\<rparr>"

definition zero_l1_ref :: l1_block_ref where
  "zero_l1_ref = \<lparr>l1_hash = 0, l1_number = 0, l1_parentHash = 0, l1_time = 0\<rparr>"

definition zero_l2_ref :: l2_block_ref where
  "zero_l2_ref = \<lparr>l2_hash = 0, l2_number = 0, l2_parentHash = 0, l2_time = 0,
     l2_l1Origin = zero_block_id, l2_sequenceNumber = 0\<rparr>"

definition l1_ID :: "l1_block_ref \<Rightarrow> block_id" where
  "l1_ID r = \<lparr>id_hash = l1_hash r, id_number = l1_number r\<rparr>"

definition l2_ID :: "l2_block_ref \<Rightarrow> block_id" where
  "l2_ID r = \<lparr>id_hash = l2_hash r, id_number = l2_number r\<rparr>"

text \<open>The parent's identifier: the number saturates at 0.\<close>

definition l1_ParentID :: "l1_block_ref \<Rightarrow> block_id" where
  "l1_ParentID r = \<lparr>id_hash = l1_parentHash r,
     id_number = (if l1_number r > 0 then l1_number r - 1 else l1_number r)\<rparr>"

definition l2_ParentID :: "l2_block_ref \<Rightarrow> block_id" where
  "l2_ParentID r = \<lparr>id_hash = l2_parentHash r,
     id_number = (if l2_number r > 0 then l2_number r - 1 else l2_number r)\<rparr>"

text \<open>\<open>fmt.Sprintf("0x%x", n)\<close>.\<close>

definition hex_digit :: "nat \<Rightarrow> char" where
  "hex_digit d = ''0123456789abcdef'' ! d"

fun hex_digits :: "nat \<Rightarrow> string" where
  "hex_digits n = (if n < 16 then [hex_digit n] else hex_digits (n div 16) @ [hex_digit (n mod 16)])"

declare hex_digits.simps [simp del]

definition fmt_hex :: "u64 \<Rightarrow> string" where
  "fmt_hex n = ''0x'' @ hex_digits (unat n)"

end
