(* ===== verification/ElectionDeriver.thy ===== *)
theory ElectionDeriver
  imports ElectionGuarantees ElectionStore Eth
begin

text \<open>
  The deriver of the election, after \<open>op-node/rollup/election/election.go\<close> and
  \<open>election_deriver.go\<close>: it watches the L1 and L2 heads, and when the last slot of the elected
  epoch has been built on both, it elects the winners of the next epoch from the beacon
  chain's lookahead, the L2 ticket balances and the fallback list of the L1 system
  configuration.

  \<open>chain_view\<close> gathers the RPC calls (beacon client, L2 and L1 nodes) at the level of their
  decoded results; the ABI packing and unpacking in \<open>batch.go\<close> is the business of the ABI
  library. \<open>log.Crit\<close> of go-ethereum exits the process, which is a panic here.
\<close>

section \<open>Electing an epoch\<close>

record validator =
  val_pubkey :: bytes
  val_slot :: u64

record chain_view =
  GetLookahead :: "u64 \<Rightarrow> validator list res"
  GetEpochNumber :: "u64 \<Rightarrow> u64 res"
  GetTimeFromSlot :: "u64 \<Rightarrow> u64 res"
  GetBatchTicketAccounting :: "address list \<Rightarrow> string \<Rightarrow> int list res"
  GetElectionFallbackList :: "string \<Rightarrow> u8 list res"
  GetBatchCheckSeqConfig :: "address list \<Rightarrow> string \<Rightarrow> bool list res"
  GetBatchRandomTicketInstruction :: "u64 list \<Rightarrow> string \<Rightarrow> (u64 \<times> address) list res"

text \<open>\<open>common.BytesToAddress(validator.Pubkey[:20])\<close>; the key has 48 bytes.\<close>

definition operator_address :: "validator \<Rightarrow> address" where
  "operator_address v = of_nat (be_decode (take 20 (val_pubkey v)))"

text \<open>Filling the ticket map: the first count of an operator is kept.\<close>

fun build_tickets :: "nat \<Rightarrow> address list \<Rightarrow> int list \<Rightarrow> tickets \<Rightarrow> tickets res" where
  "build_tickets i [] counts tk = Ok tk"
| "build_tickets i (a # as) counts tk =
     (if tk a \<noteq> None then build_tickets (Suc i) as counts tk
      else bind_res (index_res counts i)
             (\<lambda>n. build_tickets (Suc i) as counts (tk(a \<mapsto> n))))"

fun init_winners :: "chain_view \<Rightarrow> validator list \<Rightarrow> election_winner list res" where
  "init_winners cv [] = Ok []"
| "init_winners cv (v # vs) =
     bind_res (GetTimeFromSlot cv (val_slot v)) (\<lambda>t.
     bind_res (init_winners cv vs) (\<lambda>ws. Ok (\<lparr>win_addr = 0, win_time = t\<rparr> # ws)))"

definition env_at :: "chain_view \<Rightarrow> string \<Rightarrow> string \<Rightarrow> election_env" where
  "env_at cv l2Block l1Block =
     \<lparr>check_seq_config = (\<lambda>as. GetBatchCheckSeqConfig cv as l1Block),
      random_tickets = (\<lambda>ts. GetBatchRandomTicketInstruction cv ts l2Block)\<rparr>"

text \<open>
  The ticket counts are used before the error of the call that fetched them is looked at; on
  an error they are an empty slice.
\<close>

definition GetWinnersAtEpoch ::
    "chain_view \<Rightarrow> u64 \<Rightarrow> string \<Rightarrow> string \<Rightarrow> election_winner list res" where
  "GetWinnersAtEpoch cv epoch l2Block l1Block =
     bind_res (GetLookahead cv epoch) (\<lambda>validators.
     let ops = map operator_address validators in
     (case GetBatchTicketAccounting cv ops l2Block of
        Panic p \<Rightarrow> Panic p
      | Err e \<Rightarrow> bind_res (build_tickets 0 ops [] Map.empty) (\<lambda>tk. Err e)
      | Ok counts \<Rightarrow>
          bind_res (build_tickets 0 ops counts Map.empty) (\<lambda>tk.
          (case GetElectionFallbackList cv l1Block of
             Panic p \<Rightarrow> Panic p
           | Err e \<Rightarrow> Panic ''os.Exit''
           | Ok fallback \<Rightarrow>
               bind_res (init_winners cv validators) (\<lambda>ws.
               bind_res (HandleInstructions (env_at cv l2Block l1Block) fallback ws ops tk)
                 (\<lambda>(ws', tk'). Ok ws'))))))"

section \<open>The deriver\<close>

definition L1BlockTime :: u64 where "L1BlockTime = 12"

record election_deriver =
  ed_l2Finalized :: l2_block_ref
  ed_l2Unsafe :: l2_block_ref
  ed_l1Unsafe :: l1_block_ref
  ed_electionWinners :: "(election_winner list \<times> u64) list"
  ed_lastSlotTime :: u64

datatype deriver_event =
    L1UnsafeEvent l1_block_ref
  | PendingSafeUpdateEvent l2_block_ref
  | ForkchoiceUpdateEvent l2_block_ref
  | OtherDeriverEvent

definition NewElectionDeriver :: election_deriver where
  "NewElectionDeriver = \<lparr>ed_l2Finalized = zero_l2_ref, ed_l2Unsafe = zero_l2_ref,
     ed_l1Unsafe = zero_l1_ref, ed_electionWinners = [], ed_lastSlotTime = 0\<rparr>"

text \<open>The number of leading entries to drop: one more than the index of the last entry of an
  earlier epoch.\<close>

fun clear_start :: "nat \<Rightarrow> (election_winner list \<times> u64) list \<Rightarrow> u64 \<Rightarrow> nat \<Rightarrow> nat" where
  "clear_start i [] newEpoch start = start"
| "clear_start i (e # es) newEpoch start =
     clear_start (Suc i) es newEpoch (if snd e < newEpoch then i + 1 else start)"

definition record_winners ::
    "election_deriver \<Rightarrow> election_winner list \<Rightarrow> u64 \<Rightarrow> election_deriver res" where
  "record_winners ed ws newEpoch =
     (let stored = ed_electionWinners ed @ [(ws, newEpoch)];
          start = clear_start 0 stored newEpoch 0;
          kept = (if start > 0 then drop start stored else stored) in
      guard_panic (ws \<noteq> []) ''index out of range''
        (Ok (ed\<lparr>ed_electionWinners := kept, ed_lastSlotTime := win_time (last ws)\<rparr>)))"

definition ProcessNewBlock ::
    "chain_view \<Rightarrow> election_deriver \<Rightarrow> (election_event list \<times> election_deriver) res" where
  "ProcessNewBlock cv ed =
     (let l1 = ed_l1Unsafe ed; l2 = ed_l2Unsafe ed; lastSlot = ed_lastSlotTime ed in
      if l2 = zero_l2_ref then Ok ([], ed)
      else if l1 = zero_l1_ref then Ok ([], ed)
      else if l1_time l1 < lastSlot then Ok ([], ed)
      else if lastSlot \<noteq> 0 \<and> l2_time l2 < lastSlot then Ok ([], ed)
      else if lastSlot \<noteq> 0 \<and> l2_time l2 \<noteq> lastSlot then Ok ([], ed)
      else
        let missed = (lastSlot \<noteq> 0 \<and> l1_time l1 \<noteq> lastSlot);
            lastBlockNumberInEpoch = (if missed then l1_number l1 - 1 else l1_number l1);
            nextEpochTime = (if missed then l1_time l1 else l1_time l1 + L1BlockTime) in
        (case GetEpochNumber cv nextEpochTime of
           Panic p \<Rightarrow> Panic p
         | Err e \<Rightarrow> Ok ([ElectionErrorEvent e], ed)
         | Ok newEpoch \<Rightarrow>
             (case GetWinnersAtEpoch cv newEpoch (fmt_hex (l2_number l2)) (fmt_hex lastBlockNumberInEpoch) of
                Panic p \<Rightarrow> Panic p
              | Err e \<Rightarrow> Ok ([ElectionErrorEvent e], ed)
              | Ok ws \<Rightarrow>
                  bind_res (record_winners ed ws newEpoch)
                    (\<lambda>ed'. Ok ([ElectionWinnerEvent ws], ed')))))"

fun deriver_OnEvent ::
    "chain_view \<Rightarrow> election_deriver \<Rightarrow> deriver_event \<Rightarrow> (bool \<times> election_event list \<times> election_deriver) res" where
  "deriver_OnEvent cv ed (L1UnsafeEvent l1) =
     bind_res (ProcessNewBlock cv (ed\<lparr>ed_l1Unsafe := l1\<rparr>)) (\<lambda>(out, ed'). Ok (True, out, ed'))"
| "deriver_OnEvent cv ed (PendingSafeUpdateEvent l2) =
     bind_res (ProcessNewBlock cv (ed\<lparr>ed_l2Unsafe := l2\<rparr>)) (\<lambda>(out, ed'). Ok (True, out, ed'))"
| "deriver_OnEvent cv ed (ForkchoiceUpdateEvent fin) =
     (if l2_number fin > l2_number (ed_l2Finalized ed)
      then Ok (True, [ElectionWinnerOutdatedEvent (l2_time fin)], ed\<lparr>ed_l2Finalized := fin\<rparr>)
      else Ok (True, [], ed))"
| "deriver_OnEvent cv ed OtherDeriverEvent = Ok (False, [], ed)"

text \<open>\<open>GetElectionWinners\<close>: the stored winners of an epoch, the last entry deciding; a nil
  slice counts as not stored.\<close>

definition GetElectionWinners :: "election_deriver \<Rightarrow> u64 \<Rightarrow> election_winner list res" where
  "GetElectionWinners ed epoch =
     (case find (\<lambda>e. snd e = epoch) (rev (ed_electionWinners ed)) of
        Some (ws, _) \<Rightarrow> guard_err (ws \<noteq> []) ''no stored election winners for requested epoch'' (Ok ws)
      | None \<Rightarrow> Err ''no stored election winners for requested epoch'')"

text \<open>A run of the deriver, with all it emits.\<close>

fun deriver_run ::
    "chain_view \<Rightarrow> election_deriver \<Rightarrow> deriver_event list \<Rightarrow> (election_event list \<times> election_deriver) res" where
  "deriver_run cv ed [] = Ok ([], ed)"
| "deriver_run cv ed (e # es) =
     bind_res (deriver_OnEvent cv ed e) (\<lambda>(handled, out, ed').
     bind_res (deriver_run cv ed' es) (\<lambda>(out', ed''). Ok (out @ out', ed'')))"

end
