(* ===== verification/ElectionDeriverProps.thy ===== *)
theory ElectionDeriverProps
  imports ElectionDeriver
begin

text \<open>
  The deriver's guarantees: the winners of an epoch respect the ticket balances it was given,
  an election is recorded, announced and readable under its epoch, the deriver is silent until
  the elected epoch is over, and the finalized head only moves forward. Also the places where
  a failing call brings the node down instead of being reported.
\<close>

section \<open>Electing an epoch\<close>

lemma build_tickets_spec:
  "i + length as \<le> length counts \<Longrightarrow>
   build_tickets i as counts tk =
     Ok (\<lambda>a. case tk a of Some n \<Rightarrow> Some n | None \<Rightarrow> map_of (zip as (drop i counts)) a)"
proof (induction as arbitrary: i tk)
  case Nil
  show ?case by (simp add: fun_eq_iff split: option.split)
next
  case (Cons a as)
  have d: "drop i counts = counts ! i # drop (Suc i) counts"
    using Cons.prems by (simp add: Cons_nth_drop_Suc)
  show ?case
  proof (cases "tk a")
    case None
    with Cons show ?thesis by (auto simp: index_res_def d fun_eq_iff split: option.split)
  next
    case (Some n)
    with Cons show ?thesis by (auto simp: d fun_eq_iff split: option.split)
  qed
qed

lemma init_winners_open:
  "init_winners cv vs = Ok ws \<Longrightarrow>
   length ws = length vs \<and> (\<forall>w \<in> set ws. win_addr w = 0) \<and>
   (\<forall>i < length vs. GetTimeFromSlot cv (val_slot (vs ! i)) = Ok (win_time (ws ! i)))"
proof (induction vs arbitrary: ws)
  case (Cons v vs)
  then show ?case by (auto simp: res_simps less_Suc_eq_0_disj)
qed simp

lemma wins_open: "(\<forall>w \<in> set ws. win_addr w = 0) \<Longrightarrow> a \<noteq> 0 \<Longrightarrow> wins a ws = 0"
  by (induction ws) auto

text \<open>What an election was computed from.\<close>

lemma GetWinnersAtEpoch_Ok:
  assumes "GetWinnersAtEpoch cv epoch l2b l1b = Ok ws'"
  obtains vs counts tk fallback ws tk' where
    "GetLookahead cv epoch = Ok vs"
    "GetBatchTicketAccounting cv (map operator_address vs) l2b = Ok counts"
    "build_tickets 0 (map operator_address vs) counts Map.empty = Ok tk"
    "GetElectionFallbackList cv l1b = Ok fallback" "init_winners cv vs = Ok ws"
    "HandleInstructions (env_at cv l2b l1b) fallback ws (map operator_address vs) tk = Ok (ws', tk')"
proof -
  from assms obtain vs where vs: "GetLookahead cv epoch = Ok vs"
    by (auto simp: GetWinnersAtEpoch_def Let_def res_simps)
  with assms obtain counts where counts: "GetBatchTicketAccounting cv (map operator_address vs) l2b = Ok counts"
    by (cases "GetBatchTicketAccounting cv (map operator_address vs) l2b")
      (auto simp: GetWinnersAtEpoch_def Let_def res_simps)
  with assms vs obtain tk where tk: "build_tickets 0 (map operator_address vs) counts Map.empty = Ok tk"
    by (auto simp: GetWinnersAtEpoch_def Let_def res_simps)
  with assms vs counts obtain fallback where fb: "GetElectionFallbackList cv l1b = Ok fallback"
    by (cases "GetElectionFallbackList cv l1b") (auto simp: GetWinnersAtEpoch_def Let_def)
  with assms vs counts tk show ?thesis
    by (auto simp: GetWinnersAtEpoch_def Let_def res_simps intro!: that)
qed


definition sample_key :: "byte \<Rightarrow> bytes" where
  "sample_key a = replicate 19 0 @ [a] @ replicate 28 0"

definition sample_view :: chain_view where
  "sample_view = \<lparr>GetLookahead = (\<lambda>e. Ok [\<lparr>val_pubkey = sample_key 11, val_slot = 1\<rparr>,
        \<lparr>val_pubkey = sample_key 12, val_slot = 2\<rparr>]),
     GetEpochNumber = (\<lambda>t. Ok 1), GetTimeFromSlot = (\<lambda>s. Ok (12 * s)),
     GetBatchTicketAccounting = (\<lambda>as b. Ok [1, 0]),
     GetElectionFallbackList = (\<lambda>b. Ok [1, 3]),
     GetBatchCheckSeqConfig = (\<lambda>as b. Ok (map (\<lambda>_. True) as)),
     GetBatchRandomTicketInstruction = (\<lambda>ts b. Ok [])\<rparr>"

lemma take_sample_key: "take 20 (sample_key a) = replicate 19 0 @ [a]"
  by (simp add: sample_key_def)

lemma sample_operators [simp]:
  "operator_address \<lparr>val_pubkey = sample_key 11, val_slot = s\<rparr> = 11"
  "operator_address \<lparr>val_pubkey = sample_key 12, val_slot = s\<rparr> = 12"
  by (simp_all add: operator_address_def take_sample_key)

lemma sample_epoch: "GetWinnersAtEpoch sample_view e b2 b1 =
    Ok [\<lparr>win_addr = 11, win_time = 12\<rparr>, \<lparr>win_addr = 0, win_time = 24\<rparr>]"
  by (simp add: GetWinnersAtEpoch_def Let_def env_at_def run_simps sample_view_def index_res_def)


text \<open>A failing ticket-accounting call brings the node down: the counts are indexed before
  the error is looked at, so with any validator in the lookahead the error is never returned.\<close>

theorem ticket_accounting_error_panics:
  assumes "GetLookahead cv epoch = Ok (v # vs)"
    and "GetBatchTicketAccounting cv (map operator_address (v # vs)) l2b = Err e"
  shows "is_panic (GetWinnersAtEpoch cv epoch l2b l1b)"
  using assms by (simp add: GetWinnersAtEpoch_def index_res_def)

theorem ticket_accounting_error_panics_witness:
  "is_panic (GetWinnersAtEpoch (sample_view\<lparr>GetBatchTicketAccounting := (\<lambda>as b. Err ''rpc'')\<rparr>) 1 ''0x1'' ''0x1'')"
  by (rule ticket_accounting_error_panics) (simp_all add: sample_view_def)

section \<open>Recording an election\<close>

lemma clear_start_snoc:
  "clear_start i (es @ [e]) n s = (if snd e < n then i + length es + 1 else clear_start i es n s)"
  by (induction es arbitrary: i s) auto

text \<open>What is kept: the entries after the last one of an earlier epoch.\<close>

lemma kept_suffix:
  "drop (clear_start 0 es n 0) es = rev (takeWhile (\<lambda>e. \<not> snd e < n) (rev es))"
proof (induction es rule: rev_induct)
  case (snoc e es)
  have "clear_start 0 es n 0 \<le> length es"
  proof (induction es rule: rev_induct)
    case (snoc f fs)
    then show ?case by (auto simp: clear_start_snoc)
  qed simp
  with snoc show ?case by (auto simp: clear_start_snoc)
qed simp

definition stored_from :: "election_deriver \<Rightarrow> u64 \<Rightarrow> bool" where
  "stored_from ed n \<longleftrightarrow> (\<forall>e \<in> set (ed_electionWinners ed). n \<le> snd e)"

lemma record_winners_Ok:
  assumes "record_winners ed ws n = Ok ed'"
  shows "ws \<noteq> [] \<and> GetElectionWinners ed' n = Ok ws \<and> stored_from ed' n \<and>
    ed_lastSlotTime ed' = win_time (last ws) \<and> ed_l1Unsafe ed' = ed_l1Unsafe ed \<and>
    ed_l2Unsafe ed' = ed_l2Unsafe ed \<and> ed_l2Finalized ed' = ed_l2Finalized ed"
proof -
  let ?es = "ed_electionWinners ed @ [(ws, n)]"
  let ?kept = "rev (takeWhile (\<lambda>e. \<not> snd e < n) (rev ?es))"
  have ws: "ws \<noteq> []" and ed': "ed' = ed\<lparr>ed_electionWinners := ?kept, ed_lastSlotTime := win_time (last ws)\<rparr>"
    using assms by (auto simp: record_winners_def Let_def res_simps kept_suffix [symmetric]
        simp del: rev_append split: if_splits)
  have "rev ?kept = (ws, n) # takeWhile (\<lambda>e. \<not> snd e < n) (rev (ed_electionWinners ed))"
    by simp
  then have "GetElectionWinners ed' n = Ok ws"
    using ws by (simp add: GetElectionWinners_def ed')
  moreover have "stored_from ed' n"
    by (auto simp: stored_from_def ed' not_less dest: set_takeWhileD)
  ultimately show ?thesis using ws by (simp add: ed')
qed

text \<open>The cases of \<open>ProcessNewBlock\<close>: silent, reporting an error, or electing an epoch; in the
  last two the elected epoch is over on both chains.\<close>

definition epoch_over :: "election_deriver \<Rightarrow> bool" where
  "epoch_over ed \<longleftrightarrow> ed_l2Unsafe ed \<noteq> zero_l2_ref \<and> ed_l1Unsafe ed \<noteq> zero_l1_ref \<and>
     (ed_lastSlotTime ed \<noteq> 0 \<longrightarrow>
        ed_lastSlotTime ed \<le> l1_time (ed_l1Unsafe ed) \<and> l2_time (ed_l2Unsafe ed) = ed_lastSlotTime ed)"

lemma ProcessNewBlock_cases:
  assumes "ProcessNewBlock cv ed = Ok (out, ed')"
  obtains (silent) "out = []" "ed' = ed"
    | (error) e where "out = [ElectionErrorEvent e]" "ed' = ed" "epoch_over ed"
    | (elect) n ws l2b l1b where "epoch_over ed" "out = [ElectionWinnerEvent ws]"
        "GetWinnersAtEpoch cv n l2b l1b = Ok ws" "record_winners ed ws n = Ok ed'"
proof (cases "epoch_over ed")
  case False
  then show ?thesis using assms silent
    by (auto simp: ProcessNewBlock_def Let_def epoch_over_def not_less split: if_splits)
next
  case True
  then have "ed_l2Unsafe ed \<noteq> zero_l2_ref" "ed_l1Unsafe ed \<noteq> zero_l1_ref"
    "\<not> l1_time (ed_l1Unsafe ed) < ed_lastSlotTime ed"
    "\<not> (ed_lastSlotTime ed \<noteq> 0 \<and> l2_time (ed_l2Unsafe ed) < ed_lastSlotTime ed)"
    "\<not> (ed_lastSlotTime ed \<noteq> 0 \<and> l2_time (ed_l2Unsafe ed) \<noteq> ed_lastSlotTime ed)"
    by (auto simp: epoch_over_def)
  with assms True show ?thesis
    unfolding ProcessNewBlock_def Let_def
    by (simp only: if_False if_True cong: if_cong)
      (auto simp: res_simps split: res.splits intro: error elect)
qed


definition sample_l1 :: l1_block_ref where
  "sample_l1 = \<lparr>l1_hash = 5, l1_number = 7, l1_parentHash = 4, l1_time = 12\<rparr>"

definition sample_l2 :: l2_block_ref where
  "sample_l2 = \<lparr>l2_hash = 6, l2_number = 9, l2_parentHash = 3, l2_time = 12,
     l2_l1Origin = zero_block_id, l2_sequenceNumber = 0\<rparr>"

definition sample_deriver :: election_deriver where
  "sample_deriver = NewElectionDeriver\<lparr>ed_l1Unsafe := sample_l1, ed_l2Unsafe := sample_l2\<rparr>"

lemma sample_heads [simp]: "sample_l1 \<noteq> zero_l1_ref" "sample_l2 \<noteq> zero_l2_ref"
  by (simp_all add: sample_l1_def zero_l1_ref_def sample_l2_def zero_l2_ref_def)

lemma sample_epoch_number [simp]: "GetEpochNumber sample_view t = Ok 1"
  by (simp add: sample_view_def)

lemma sample_process:
  "ProcessNewBlock sample_view sample_deriver =
     Ok ([ElectionWinnerEvent [\<lparr>win_addr = 11, win_time = 12\<rparr>, \<lparr>win_addr = 0, win_time = 24\<rparr>]],
       sample_deriver\<lparr>ed_electionWinners := [([\<lparr>win_addr = 11, win_time = 12\<rparr>, \<lparr>win_addr = 0, win_time = 24\<rparr>], 1)],
         ed_lastSlotTime := 24\<rparr>)"
  by (simp add: ProcessNewBlock_def sample_deriver_def NewElectionDeriver_def Let_def sample_epoch
      record_winners_def)


text \<open>The deriver and the store agree: once the store has handled what the deriver emitted, a
  lookup at each slot time of the new epoch returns the winner the deriver has on record, and no
  slot of the epoch is later than the store's latest winner (for slots in ascending order).\<close>

theorem deriver_store_agree:
  assumes run: "ProcessNewBlock cv ed = Ok ([ElectionWinnerEvent ws], ed')"
    and asc: "sorted_wrt (<) (map win_time ws)"
  shows "\<exists>n. GetElectionWinners ed' n = Ok ws \<and>
    (\<forall>w \<in> set ws. GetElectionWinner (store_run s [ElectionWinnerEvent ws]) (win_time w) = w \<and>
      win_time w \<le> win_time (GetLastWinnerInCurrentEpoch (store_run s [ElectionWinnerEvent ws])))"
proof -
  obtain n where n: "GetElectionWinners ed' n = Ok ws" and ne: "ws \<noteq> []"
    using run
    by (cases rule: ProcessNewBlock_cases) (auto dest: record_winners_Ok)
  have dist: "distinct (map win_time ws)" using asc by (simp add: strict_sorted_iff)
  have "GetElectionWinner (store_run s [ElectionWinnerEvent ws]) (win_time w) = w" if "w \<in> set ws" for w
    using last_at_unique [OF dist that]
    by (simp add: GetElectionWinner_def map_StoreElectionWinners store_all_find)
  moreover have "win_time w \<le> win_time (last ws)" if "w \<in> set ws" for w
    using asc that by (induction ws) (auto simp: less_imp_le)
  then have "win_time w \<le> win_time (GetLastWinnerInCurrentEpoch (store_run s [ElectionWinnerEvent ws]))"
    if "w \<in> set ws" for w
    using ne that by (fastforce simp: GetLastWinnerInCurrentEpoch_def StoreElectionWinners_def Let_def
        split: option.splits)
  ultimately show ?thesis using n by blast
qed

theorem deriver_store_agree_witness:
  "\<exists>ws ed'. ProcessNewBlock sample_view sample_deriver = Ok ([ElectionWinnerEvent ws], ed') \<and>
     (\<exists>n. GetElectionWinners ed' n = Ok ws)"
  using deriver_store_agree [OF sample_process] sample_process by auto

section \<open>Runs\<close>

lemma deriver_OnEvent_finalized:
  assumes "deriver_OnEvent cv ed e = Ok (handled, out, ed')"
  shows "l2_number (ed_l2Finalized ed) \<le> l2_number (ed_l2Finalized ed') \<and>
    (\<forall>t. ElectionWinnerOutdatedEvent t \<in> set out \<longrightarrow>
       t = l2_time (ed_l2Finalized ed') \<and> l2_number (ed_l2Finalized ed) < l2_number (ed_l2Finalized ed'))"
proof -
  have p: "ed_l2Finalized ed2 = ed_l2Finalized ed1 \<and> (\<forall>t. ElectionWinnerOutdatedEvent t \<notin> set out)"
    if "ProcessNewBlock cv ed1 = Ok (out, ed2)" for ed1 ed2 out
    using that by (cases rule: ProcessNewBlock_cases) (auto dest: record_winners_Ok)
  show ?thesis
    using assms by (cases e) (auto simp: res_simps not_less dest!: p split: if_splits)
qed

lemma deriver_run_finalized:
  "deriver_run cv ed es = Ok (out, ed') \<Longrightarrow> l2_number (ed_l2Finalized ed) \<le> l2_number (ed_l2Finalized ed')"
proof (induction es arbitrary: ed out)
  case (Cons e es)
  from Cons.prems obtain h o1 ed1 o2 where 1: "deriver_OnEvent cv ed e = Ok (h, o1, ed1)"
    and 2: "deriver_run cv ed1 es = Ok (o2, ed')"
    by (auto simp: res_simps)
  from deriver_OnEvent_finalized [OF 1] Cons.IH [OF 2] show ?case by (meson order_trans)
qed simp

text \<open>The finalized head of the deriver never moves backwards, over any run; a pruning event is
  emitted only by an event that moves it forward, and it carries the new head's time.\<close>

theorem finalized_monotone:
  assumes "deriver_run cv ed (es @ [e]) = Ok (out, ed')"
  shows "l2_number (ed_l2Finalized ed) \<le> l2_number (ed_l2Finalized ed') \<and>
    (\<exists>out1 ed1 h out2. deriver_run cv ed es = Ok (out1, ed1) \<and>
       deriver_OnEvent cv ed1 e = Ok (h, out2, ed') \<and> out = out1 @ out2 \<and>
       (\<forall>t. ElectionWinnerOutdatedEvent t \<in> set out2 \<longrightarrow>
          t = l2_time (ed_l2Finalized ed') \<and> l2_number (ed_l2Finalized ed1) < l2_number (ed_l2Finalized ed')))"
proof -
  have snoc: "\<exists>out1 ed1 h out2. deriver_run cv d es = Ok (out1, ed1) \<and>
      deriver_OnEvent cv ed1 e = Ok (h, out2, ed') \<and> ou = out1 @ out2"
    if "deriver_run cv d (es @ [e]) = Ok (ou, ed')" for d ou
    using that
  proof (induction es arbitrary: d ou)
    case (Cons f fs)
    from Cons.prems obtain h1 o1 d1 o2 where 1: "deriver_OnEvent cv d f = Ok (h1, o1, d1)"
      and 2: "deriver_run cv d1 (fs @ [e]) = Ok (o2, ed')" and "ou = o1 @ o2"
      by (auto simp: res_simps)
    with Cons.IH [OF 2] show ?case by fastforce
  qed (auto simp: res_simps)
  from snoc [OF assms] obtain out1 ed1 h out2 where
      "deriver_run cv ed es = Ok (out1, ed1)" "deriver_OnEvent cv ed1 e = Ok (h, out2, ed')"
      "out = out1 @ out2" by blast
  then show ?thesis
    using deriver_run_finalized [OF assms] deriver_OnEvent_finalized by blast
qed

theorem finalized_monotone_witness:
  "\<exists>out ed'. deriver_run sample_view NewElectionDeriver [ForkchoiceUpdateEvent sample_l2] = Ok (out, ed') \<and>
     ElectionWinnerOutdatedEvent 12 \<in> set out \<and> l2_number (ed_l2Finalized NewElectionDeriver) \<le> l2_number (ed_l2Finalized ed')"
proof -
  obtain out ed' where run: "deriver_run sample_view NewElectionDeriver ([] @ [ForkchoiceUpdateEvent sample_l2]) = Ok (out, ed')"
    and o: "ElectionWinnerOutdatedEvent 12 \<in> set out"
    by (simp add: NewElectionDeriver_def zero_l2_ref_def sample_l2_def)
  show ?thesis using run o finalized_monotone [OF run] by simp
qed

text \<open>While the elected epoch is not over the deriver waits: a head event that leaves the
  L1 head before the last slot, or the L2 head off the last slot, emits nothing and changes
  nothing but the head.\<close>

theorem deriver_waits:
  assumes "\<not> epoch_over ed"
  shows "ProcessNewBlock cv ed = Ok ([], ed)"
  using assms by (auto simp: ProcessNewBlock_def Let_def epoch_over_def not_less)

theorem deriver_waits_witness:
  "ProcessNewBlock sample_view (sample_deriver\<lparr>ed_lastSlotTime := 24\<rparr>) =
     Ok ([], sample_deriver\<lparr>ed_lastSlotTime := 24\<rparr>)"
  by (rule deriver_waits) (simp add: epoch_over_def sample_deriver_def sample_l1_def NewElectionDeriver_def)

text \<open>An epoch without validators crashes the node: electing it succeeds with no winners, and
  the time of the last winner is then read out of an empty slice.\<close>

theorem empty_lookahead_panics:
  assumes "epoch_over ed"
    and "\<And>t. GetEpochNumber cv t = Ok n" and "GetLookahead cv n = Ok []"
    and "\<And>b. GetBatchTicketAccounting cv [] b = Ok []" and "\<And>b. GetElectionFallbackList cv b = Ok []"
  shows "is_panic (ProcessNewBlock cv ed)"
proof -
  have "GetWinnersAtEpoch cv n l2b l1b = Ok []" for l2b l1b
    using assms(3-5) by (simp add: GetWinnersAtEpoch_def)
  with assms(1,2) show ?thesis
    by (auto simp: ProcessNewBlock_def Let_def epoch_over_def record_winners_def)
qed

theorem empty_lookahead_panics_witness:
  "is_panic (ProcessNewBlock (sample_view\<lparr>GetLookahead := (\<lambda>e. Ok []),
     GetBatchTicketAccounting := (\<lambda>as b. Ok []), GetElectionFallbackList := (\<lambda>b. Ok [])\<rparr>) sample_deriver)"
  by (rule empty_lookahead_panics [where n = 1])
    (simp_all add: sample_view_def epoch_over_def sample_deriver_def NewElectionDeriver_def)

end
