(* ===== verification/CannonMips.thy ===== *)
theory CannonMips
  imports Prelude "HOL-Library.Signed_Division"
begin

text \<open>
  The MIPS32 instructions of Cannon, the fault-proof virtual machine, after
  \<open>cannon/mipsevm/exec/mips_instructions.go\<close> and \<open>cannon/mipsevm/state.go\<close>: the ALU and
  the unaligned loads and stores, and the handlers that move the program counter and write
  registers. Go's \<open>uint32\<close> is \<open>32 word\<close>; \<open>x << k\<close> and \<open>x >> k\<close> are
  \<open>shl\<close> and \<open>shr\<close>, which like Go's give 0 for a count of 32 and more. The register file
  \<open>[32]uint32\<close> is a function on \<open>5 word\<close>: an index masked with \<open>0x1F\<close> is always in
  range, and the writes that take an unmasked index are guarded. A Go runtime panic (division
  by zero) and an explicit \<open>panic\<close> are \<open>Panic\<close>.
\<close>

section \<open>State\<close>

record cpu_scalars =
  cpu_PC :: u32
  cpu_NextPC :: u32
  cpu_LO :: u32
  cpu_HI :: u32

type_synonym registers = "5 word \<Rightarrow> u32"

definition shl :: "u32 \<Rightarrow> u32 \<Rightarrow> u32" where "shl x k = push_bit (unat k) x"
definition shr :: "u32 \<Rightarrow> u32 \<Rightarrow> u32" where "shr x k = drop_bit (unat k) x"

definition get_reg :: "registers \<Rightarrow> u32 \<Rightarrow> u32" where
  "get_reg regs i = regs (ucast i)"

definition set_reg :: "registers \<Rightarrow> u32 \<Rightarrow> u32 \<Rightarrow> registers" where
  "set_reg regs i v = regs(ucast i := v)"

definition VmStatus :: "bool \<Rightarrow> u8 \<Rightarrow> u8" where
  "VmStatus exited exitCode =
     (if \<not> exited then 3 else if exitCode = 0 then 0 else if exitCode = 1 then 1 else 2)"

section \<open>Instruction fields and the ALU\<close>

definition insn_opcode :: "u32 \<Rightarrow> u32" where "insn_opcode insn = shr insn 26"
definition insn_fun :: "u32 \<Rightarrow> u32" where "insn_fun insn = insn AND 0x3f"

definition SignExtend :: "u32 \<Rightarrow> u32 \<Rightarrow> u32" where
  "SignExtend dat idx =
     (let isSigned = (shr dat (idx - 1) \<noteq> 0);
          signed = shl (shl 1 (32 - idx) - 1) idx;
          mask = shl 1 idx - 1
      in if isSigned then (dat AND mask) OR signed else dat AND mask)"

definition SignExtendImmediate :: "u32 \<Rightarrow> u32" where
  "SignExtendImmediate insn = SignExtend (insn AND 0xFFFF) 16"

text \<open>The loop of clz and clo: the value shrinks while its top bit is set.\<close>

lemma top_bit_iff: "(rs :: u32) AND 0x80000000 \<noteq> 0 \<longleftrightarrow> bit rs 31"
  using and_exp_eq_0_iff_not_bit [of rs 31] by simp

lemma unat_shl_1: "bit rs 31 \<Longrightarrow> unat (shl rs 1) = 2 * unat rs - 2 ^ 32 \<and> 2 ^ 31 \<le> unat (rs :: u32)"
proof -
  assume b: "bit rs 31"
  have ge: "2 ^ 31 \<le> unat rs"
  proof (rule ccontr)
    assume "\<not> 2 ^ 31 \<le> unat rs"
    then have "\<not> bit (unat rs) 31" by (simp add: bit_nat_def)
    with b show False by (simp add: bit_unsigned_iff)
  qed
  have lt: "unat rs < 2 ^ 32" by (rule unat_bounds)
  have "unat (shl rs 1) = (2 * unat rs) mod 2 ^ 32"
    by (simp add: shl_def push_bit_eq_mult unat_word_ariths mult.commute)
  also have "\<dots> = 2 * unat rs - 2 ^ 32"
    using ge lt by (simp add: mod_if)
  finally show ?thesis using ge by simp
qed

function count_ones :: "u32 \<Rightarrow> u32 \<Rightarrow> u32" where
  "count_ones i rs = (if rs AND 0x80000000 \<noteq> 0 then count_ones (i + 1) (shl rs 1) else i)"
  by pat_completeness auto
termination
proof (relation "measure (\<lambda>(i, rs). unat rs)")
  fix i rs :: u32
  assume "rs AND 0x80000000 \<noteq> 0"
  then have "bit rs 31" by (simp add: top_bit_iff)
  from unat_shl_1 [OF this] unat_bounds(2) [of rs] have "unat (shl rs 1) < unat rs" by auto
  then show "((i + 1, shl rs 1), (i, rs)) \<in> measure (\<lambda>(i, rs). unat rs)" by simp
qed simp

declare count_ones.simps [simp del]

text \<open>The arithmetic of \<open>SPECIAL\<close> and of the immediate instructions mapped to it.\<close>

definition special_fun :: "u32 \<Rightarrow> u32 \<Rightarrow> u32" where
  "special_fun opcode fun' =
     (if opcode = 8 then 0x20 else if opcode = 9 then 0x21 else if opcode = 0xA then 0x2A
      else if opcode = 0xB then 0x2B else if opcode = 0xC then 0x24 else if opcode = 0xD then 0x25
      else if opcode = 0xE then 0x26 else fun')"

definition execute_special :: "u32 \<Rightarrow> u32 \<Rightarrow> u32 \<Rightarrow> u32 \<Rightarrow> u32 res" where
  "execute_special insn fun' rs rt =
     (let shamt = shr insn 6 AND 0x1F in
      if fun' = 0x00 then Ok (shl rt shamt)
      else if fun' = 0x02 then Ok (shr rt shamt)
      else if fun' = 0x03 then Ok (SignExtend (shr rt shamt) (32 - shamt))
      else if fun' = 0x04 then Ok (shl rt (rs AND 0x1F))
      else if fun' = 0x06 then Ok (shr rt (rs AND 0x1F))
      else if fun' = 0x07 then
        let shamt' = rs AND 0x1F in Ok (SignExtend (shr rt shamt') (32 - shamt'))
      else if fun' \<in> {0x08, 0x09, 0x0a, 0x0b, 0x0c, 0x0f, 0x10, 0x11, 0x12, 0x13, 0x18, 0x19, 0x1a, 0x1b}
        then Ok rs
      else if fun' = 0x20 \<or> fun' = 0x21 then Ok (rs + rt)
      else if fun' = 0x22 \<or> fun' = 0x23 then Ok (rs - rt)
      else if fun' = 0x24 then Ok (rs AND rt)
      else if fun' = 0x25 then Ok (rs OR rt)
      else if fun' = 0x26 then Ok (rs XOR rt)
      else if fun' = 0x27 then Ok (NOT (rs OR rt))
      else if fun' = 0x2a then Ok (if sint rs < sint rt then 1 else 0)
      else if fun' = 0x2b then Ok (if rs < rt then 1 else 0)
      else Panic ''invalid instruction'')"

text \<open>\<open>SPECIAL2\<close>, \<open>lui\<close> and the memory instructions.\<close>

definition execute_other :: "u32 \<Rightarrow> u32 \<Rightarrow> u32 \<Rightarrow> u32 \<Rightarrow> u32 \<Rightarrow> u32 res" where
  "execute_other opcode fun' rs rt mem =
     (if opcode = 0x1C then
        (if fun' = 0x2 then Ok (word_of_int (sint rs * sint rt))
         else if fun' = 0x20 \<or> fun' = 0x21 then
           Ok (count_ones 0 (if fun' = 0x20 then NOT rs else rs))
         else Panic ''invalid instruction'')
      else if opcode = 0x0F then Ok (shl rt 16)
      else if opcode = 0x20 then Ok (SignExtend (shr mem (24 - (rs AND 3) * 8) AND 0xFF) 8)
      else if opcode = 0x21 then Ok (SignExtend (shr mem (16 - (rs AND 2) * 8) AND 0xFFFF) 16)
      else if opcode = 0x22 then
        (let val = shl mem ((rs AND 3) * 8); mask = shl 0xFFFFFFFF ((rs AND 3) * 8)
         in Ok ((rt AND NOT mask) OR val))
      else if opcode = 0x23 then Ok mem
      else if opcode = 0x24 then Ok (shr mem (24 - (rs AND 3) * 8) AND 0xFF)
      else if opcode = 0x25 then Ok (shr mem (16 - (rs AND 2) * 8) AND 0xFFFF)
      else if opcode = 0x26 then
        (let val = shr mem (24 - (rs AND 3) * 8); mask = shr 0xFFFFFFFF (24 - (rs AND 3) * 8)
         in Ok ((rt AND NOT mask) OR val))
      else if opcode = 0x28 then
        (let val = shl (rt AND 0xFF) (24 - (rs AND 3) * 8);
             mask = 0xFFFFFFFF XOR shl 0xFF (24 - (rs AND 3) * 8)
         in Ok ((mem AND mask) OR val))
      else if opcode = 0x29 then
        (let val = shl (rt AND 0xFFFF) (16 - (rs AND 2) * 8);
             mask = 0xFFFFFFFF XOR shl 0xFFFF (16 - (rs AND 2) * 8)
         in Ok ((mem AND mask) OR val))
      else if opcode = 0x2a then
        (let val = shr rt ((rs AND 3) * 8); mask = shr 0xFFFFFFFF ((rs AND 3) * 8)
         in Ok ((mem AND NOT mask) OR val))
      else if opcode = 0x2b then Ok rt
      else if opcode = 0x2e then
        (let val = shl rt (24 - (rs AND 3) * 8); mask = shl 0xFFFFFFFF (24 - (rs AND 3) * 8)
         in Ok ((mem AND NOT mask) OR val))
      else Panic ''invalid instruction'')"

definition ExecuteMipsInstruction ::
    "u32 \<Rightarrow> u32 \<Rightarrow> u32 \<Rightarrow> u32 \<Rightarrow> u32 \<Rightarrow> u32 \<Rightarrow> u32 res" where
  "ExecuteMipsInstruction insn opcode fun' rs rt mem =
     (if opcode = 0 \<or> (8 \<le> opcode \<and> opcode < 0xF)
      then execute_special insn (special_fun opcode fun') rs rt
      else execute_other opcode fun' rs rt mem)"

section \<open>Program counter and register write-back\<close>

type_synonym cpu_state = "cpu_scalars \<times> registers"

definition HandleBranch ::
    "cpu_scalars \<Rightarrow> registers \<Rightarrow> u32 \<Rightarrow> u32 \<Rightarrow> u32 \<Rightarrow> u32 \<Rightarrow> cpu_state res" where
  "HandleBranch cpu regs opcode insn rtReg rs =
     guard_panic (cpu_NextPC cpu = cpu_PC cpu + 4) ''branch in delay slot''
     (let rt = get_reg regs rtReg;
          rtv = shr insn 16 AND 0x1F;
          shouldBranch =
            (if opcode = 4 \<or> opcode = 5 then (rs = rt \<and> opcode = 4) \<or> (rs \<noteq> rt \<and> opcode = 5)
             else if opcode = 6 then sint rs \<le> 0
             else if opcode = 7 then sint rs > 0
             else if opcode = 1 then (if rtv = 0 then sint rs < 0 else if rtv = 1 then sint rs \<ge> 0 else False)
             else False);
          prevPC = cpu_PC cpu
      in Ok (cpu\<lparr>cpu_PC := cpu_NextPC cpu,
               cpu_NextPC := (if shouldBranch then prevPC + 4 + shl (SignExtend (insn AND 0xFFFF) 16) 2
                              else cpu_NextPC cpu + 4)\<rparr>, regs))"

text \<open>The effect of the HI/LO instructions on the scalars, and the value they produce.\<close>

definition hilo_op :: "cpu_scalars \<Rightarrow> u32 \<Rightarrow> u32 \<Rightarrow> u32 \<Rightarrow> (cpu_scalars \<times> u32) res" where
  "hilo_op cpu fun' rs rt =
     (if fun' = 0x10 then Ok (cpu, cpu_HI cpu)
      else if fun' = 0x11 then Ok (cpu\<lparr>cpu_HI := rs\<rparr>, 0)
      else if fun' = 0x12 then Ok (cpu, cpu_LO cpu)
      else if fun' = 0x13 then Ok (cpu\<lparr>cpu_LO := rs\<rparr>, 0)
      else if fun' = 0x18 then
        (let acc = (scast rs :: u64) * scast rt
         in Ok (cpu\<lparr>cpu_HI := ucast (drop_bit 32 acc), cpu_LO := ucast acc\<rparr>, 0))
      else if fun' = 0x19 then
        (let acc = (ucast rs :: u64) * ucast rt
         in Ok (cpu\<lparr>cpu_HI := ucast (drop_bit 32 acc), cpu_LO := ucast acc\<rparr>, 0))
      else if fun' = 0x1a then
        guard_panic (rt \<noteq> 0) ''integer divide by zero''
          (Ok (cpu\<lparr>cpu_HI := word_of_int (sint rs smod sint rt),
                 cpu_LO := word_of_int (sint rs sdiv sint rt)\<rparr>, 0))
      else if fun' = 0x1b then
        guard_panic (rt \<noteq> 0) ''integer divide by zero''
          (Ok (cpu\<lparr>cpu_HI := rs mod rt, cpu_LO := rs div rt\<rparr>, 0))
      else Ok (cpu, 0))"

definition HandleHiLo ::
    "cpu_scalars \<Rightarrow> registers \<Rightarrow> u32 \<Rightarrow> u32 \<Rightarrow> u32 \<Rightarrow> u32 \<Rightarrow> cpu_state res" where
  "HandleHiLo cpu regs fun' rs rt storeReg =
     bind_res (hilo_op cpu fun' rs rt) (\<lambda>(cpu', val).
     guard_panic (storeReg < 32) ''index out of range''
     (let regs' = (if storeReg \<noteq> 0 then set_reg regs storeReg val else regs)
      in Ok (cpu'\<lparr>cpu_PC := cpu_NextPC cpu', cpu_NextPC := cpu_NextPC cpu' + 4\<rparr>, regs')))"

definition HandleJump :: "cpu_scalars \<Rightarrow> registers \<Rightarrow> u32 \<Rightarrow> u32 \<Rightarrow> cpu_state res" where
  "HandleJump cpu regs linkReg dest =
     guard_panic (cpu_NextPC cpu = cpu_PC cpu + 4) ''jump in delay slot''
     (let prevPC = cpu_PC cpu;
          cpu' = cpu\<lparr>cpu_PC := cpu_NextPC cpu, cpu_NextPC := dest\<rparr>
      in guard_panic (linkReg < 32) ''index out of range''
           (Ok (cpu', if linkReg \<noteq> 0 then set_reg regs linkReg (prevPC + 8) else regs)))"

definition HandleRd :: "cpu_scalars \<Rightarrow> registers \<Rightarrow> u32 \<Rightarrow> u32 \<Rightarrow> bool \<Rightarrow> cpu_state res" where
  "HandleRd cpu regs storeReg val conditional =
     guard_panic (storeReg < 32) ''invalid register''
     (let regs' = (if storeReg \<noteq> 0 \<and> conditional then set_reg regs storeReg val else regs)
      in Ok (cpu\<lparr>cpu_PC := cpu_NextPC cpu, cpu_NextPC := cpu_NextPC cpu + 4\<rparr>, regs'))"

end
