(* ===== verification/CannonMemory.thy ===== *)
theory CannonMemory
  imports CannonMips
begin

text \<open>
  The memory of Cannon, after \<open>cannon/mipsevm/memory/memory.go\<close> and \<open>page.go\<close>: 4 KiB pages
  allocated on first write, a two-entry cache of recently used pages, and a Merkle tree over the
  whole 32-bit address space whose inner nodes are memoised, page by page below and in the map
  \<open>nodes\<close> above, and invalidated by writes.

  Pages are shared by pointer between \<open>pages\<close> and \<open>lastPage\<close>, so they live in a heap
  \<open>mem_heap\<close> and a \<open>*CachedPage\<close> is a reference into it, \<open>None\<close> the nil pointer. A page
  \<open>[4096]byte\<close> is a function on \<open>12 word\<close>; the \<open>Cache\<close> and \<open>Ok\<close> arrays are functions on
  \<open>nat\<close> used below 128. The \<open>pages\<close> map is an association list with distinct keys; Go
  iterates it in an unspecified order, which \<open>Serialize\<close> takes as an argument. \<open>nodes\<close> has
  three states per index: absent (\<open>None\<close>), present and nil (\<open>Some None\<close>), present with a hash.
  Generalised indices are \<open>nat\<close>: the code panics beyond 28 bits. Keccak is the parameter \<open>kk\<close>.
\<close>

section \<open>Data\<close>

type_synonym hash = bytes
type_synonym page = "12 word \<Rightarrow> byte"

record cached_page =
  pg_data :: page
  pg_cache :: "nat \<Rightarrow> hash"
  pg_ok :: "nat \<Rightarrow> bool"

record memory =
  mem_nodes :: "nat \<Rightarrow> hash option option"
  mem_pages :: "(u32 \<times> nat) list"
  mem_lastPageKeys :: "u32 \<times> u32"
  mem_lastPage :: "nat option \<times> nat option"
  mem_heap :: "cached_page list"

definition HashPair :: "(bytes \<Rightarrow> hash) \<Rightarrow> hash \<Rightarrow> hash \<Rightarrow> hash" where
  "HashPair kk left right = kk (left @ right)"

fun zeroHashes :: "(bytes \<Rightarrow> hash) \<Rightarrow> nat \<Rightarrow> hash" where
  "zeroHashes kk 0 = replicate 32 0"
| "zeroHashes kk (Suc n) = HashPair kk (zeroHashes kk n) (zeroHashes kk n)"

text \<open>The loop \<open>for k > 0 { f[k] = v; k >>= 1 }\<close> that both invalidations and the page
  allocation run from a leaf to the root.\<close>

function set_path :: "'a \<Rightarrow> (nat \<Rightarrow> 'a) \<Rightarrow> nat \<Rightarrow> nat \<Rightarrow> 'a" where
  "set_path v f k = (if k = 0 then f else set_path v (f(k := v)) (k div 2))"
  by pat_completeness auto
termination by (relation "measure (\<lambda>(v, f, k). k)") auto

declare set_path.simps [simp del]

definition page_slice :: "page \<Rightarrow> nat \<Rightarrow> nat \<Rightarrow> bytes res" where
  "page_slice p a b =
     guard_panic (a \<le> b \<and> b \<le> 4096) ''slice bounds out of range''
       (Ok (map (\<lambda>i. p (of_nat i)) [a..<b]))"

definition page_write :: "page \<Rightarrow> nat \<Rightarrow> bytes \<Rightarrow> page" where
  "page_write p a bs = (\<lambda>k. if a \<le> unat k \<and> unat k < a + length bs then bs ! (unat k - a) else p k)"

section \<open>Cached pages\<close>

definition new_page :: cached_page where
  "new_page = \<lparr>pg_data = (\<lambda>_. 0), pg_cache = (\<lambda>_. replicate 32 0), pg_ok = (\<lambda>_. False)\<rparr>"

definition page_Invalidate :: "cached_page \<Rightarrow> u32 \<Rightarrow> cached_page res" where
  "page_Invalidate p pageAddr =
     guard_panic (pageAddr < 0x1000) ''invalid page addr''
       (Ok (p\<lparr>pg_ok := set_path False (pg_ok p) (unat (shr (0x1000 OR pageAddr) 6))\<rparr>))"

definition page_InvalidateFull :: "cached_page \<Rightarrow> cached_page" where
  "page_InvalidateFull p = p\<lparr>pg_ok := (\<lambda>_. False)\<rparr>"

definition page_fill :: "nat \<Rightarrow> hash \<Rightarrow> cached_page \<Rightarrow> cached_page" where
  "page_fill j h p =
     (if pg_ok p j then p
      else p\<lparr>pg_cache := (pg_cache p)(j := h), pg_ok := (pg_ok p)(j := True)\<rparr>)"

definition page_bottom_step :: "(bytes \<Rightarrow> hash) \<Rightarrow> nat \<Rightarrow> cached_page \<Rightarrow> cached_page" where
  "page_bottom_step kk i p =
     page_fill (64 + i div 64) (kk (map (\<lambda>n. pg_data p (of_nat n)) [i..<i + 64])) p"

definition page_layer_step :: "(bytes \<Rightarrow> hash) \<Rightarrow> nat \<Rightarrow> cached_page \<Rightarrow> cached_page" where
  "page_layer_step kk i p = page_fill (i div 2) (HashPair kk (pg_cache p i) (pg_cache p (i + 1))) p"

definition page_MerkleRoot :: "(bytes \<Rightarrow> hash) \<Rightarrow> cached_page \<Rightarrow> cached_page \<times> hash" where
  "page_MerkleRoot kk p =
     (let p1 = fold (page_bottom_step kk) (map (\<lambda>i. 64 * i) [0..<64]) p;
          p2 = fold (page_layer_step kk) (map (\<lambda>j. 2 * j) (rev [1..<64])) p1
      in (p2, pg_cache p2 1))"

definition page_MerkleizeSubtree ::
    "(bytes \<Rightarrow> hash) \<Rightarrow> cached_page \<Rightarrow> nat \<Rightarrow> (cached_page \<times> hash) res" where
  "page_MerkleizeSubtree kk p gindex =
     (let p' = fst (page_MerkleRoot kk p) in
      if gindex \<ge> 128 then
        guard_panic (gindex < 256) ''gindex too deep''
          (let nodeIndex = gindex mod 128 in
           bind_res (page_slice (pg_data p') (nodeIndex * 32) (nodeIndex * 32 + 32)) (\<lambda>h. Ok (p', h)))
      else Ok (p', pg_cache p' gindex))"

section \<open>Page table\<close>

definition NewMemory :: memory where
  "NewMemory = \<lparr>mem_nodes = (\<lambda>_. None), mem_pages = [],
     mem_lastPageKeys = (0xFFFFFFFF, 0xFFFFFFFF), mem_lastPage = (None, None), mem_heap = []\<rparr>"

definition PageCount :: "memory \<Rightarrow> nat" where
  "PageCount m = length (mem_pages m)"

definition UsageRaw :: "memory \<Rightarrow> nat" where
  "UsageRaw m = PageCount m * 4096"

definition deref :: "memory \<Rightarrow> nat option \<Rightarrow> cached_page res" where
  "deref m p = (case p of None \<Rightarrow> Panic ''nil pointer dereference'' | Some r \<Rightarrow> index_res (mem_heap m) r)"

definition put_page :: "memory \<Rightarrow> nat option \<Rightarrow> cached_page \<Rightarrow> memory" where
  "put_page m p cp = (case p of None \<Rightarrow> m | Some r \<Rightarrow> m\<lparr>mem_heap := (mem_heap m)[r := cp]\<rparr>)"

fun map_put :: "'k \<Rightarrow> 'v \<Rightarrow> ('k \<times> 'v) list \<Rightarrow> ('k \<times> 'v) list" where
  "map_put k v [] = [(k, v)]"
| "map_put k v ((k', v') # xs) = (if k = k' then (k, v) # xs else (k', v') # map_put k v xs)"

definition pageLookup :: "memory \<Rightarrow> u32 \<Rightarrow> memory \<times> nat option \<times> bool" where
  "pageLookup m pageIndex =
     (if pageIndex = fst (mem_lastPageKeys m) then (m, fst (mem_lastPage m), True)
      else if pageIndex = snd (mem_lastPageKeys m) then (m, snd (mem_lastPage m), True)
      else case map_of (mem_pages m) pageIndex of
        None \<Rightarrow> (m, None, False)
      | Some r \<Rightarrow>
          (m\<lparr>mem_lastPageKeys := (pageIndex, fst (mem_lastPageKeys m)),
             mem_lastPage := (Some r, fst (mem_lastPage m))\<rparr>, Some r, True))"

definition AllocPage :: "memory \<Rightarrow> u32 \<Rightarrow> memory \<times> nat option" where
  "AllocPage m pageIndex =
     (let r = length (mem_heap m);
          k = unat ((push_bit 20 1 :: u64) OR ucast pageIndex)
      in (m\<lparr>mem_heap := mem_heap m @ [new_page],
            mem_pages := map_put pageIndex r (mem_pages m),
            mem_nodes := set_path (Some None) (mem_nodes m) k\<rparr>, Some r))"

section \<open>Words\<close>

definition Invalidate :: "memory \<Rightarrow> u32 \<Rightarrow> memory res" where
  "Invalidate m addr =
     guard_panic (addr AND 3 = 0) ''unaligned memory access''
     (case pageLookup m (shr addr 12) of (m1, p, ok) \<Rightarrow>
        if \<not> ok then Ok m1
        else bind_res (deref m1 p) (\<lambda>cp.
          let prevValid = pg_ok cp 1 in
          bind_res (page_Invalidate cp (addr AND 0xFFF)) (\<lambda>cp'.
          let m2 = put_page m1 p cp';
              gindex = unat (drop_bit 12 ((push_bit 32 1 :: u64) OR ucast addr))
          in if \<not> prevValid then Ok m2
             else Ok (m2\<lparr>mem_nodes := set_path (Some None) (mem_nodes m2) gindex\<rparr>))))"

definition SetMemory :: "memory \<Rightarrow> u32 \<Rightarrow> u32 \<Rightarrow> memory res" where
  "SetMemory m addr v =
     guard_panic (addr AND 3 = 0) ''unaligned memory access''
     (let pageIndex = shr addr 12; pageAddr = unat (addr AND 0xFFF) in
      case pageLookup m pageIndex of (m1, p, ok) \<Rightarrow>
      bind_res (if \<not> ok then Ok (AllocPage m1 pageIndex)
                else bind_res (Invalidate m1 addr) (\<lambda>m2. Ok (m2, p))) (\<lambda>(m2, p).
      bind_res (deref m2 p) (\<lambda>cp.
      guard_panic (pageAddr + 4 \<le> 4096) ''slice bounds out of range''
        (Ok (put_page m2 p (cp\<lparr>pg_data := page_write (pg_data cp) pageAddr (be32 v)\<rparr>))))))"

definition GetMemory :: "memory \<Rightarrow> u32 \<Rightarrow> (memory \<times> u32) res" where
  "GetMemory m addr =
     guard_panic (addr AND 3 = 0) ''unaligned memory access''
     (case pageLookup m (shr addr 12) of (m1, p, ok) \<Rightarrow>
        if \<not> ok then Ok (m1, 0)
        else bind_res (deref m1 p) (\<lambda>cp.
          let pageAddr = unat (addr AND 0xFFF) in
          bind_res (page_slice (pg_data cp) pageAddr (pageAddr + 4)) (\<lambda>bs. Ok (m1, un32 bs))))"

section \<open>The Merkle tree\<close>

text \<open>Index 0 has no children of its own: were it present and nil, Go would recurse without
  end and die of stack exhaustion. Every other index gets deeper with each call.\<close>

function MerkleizeSubtree ::
    "(bytes \<Rightarrow> hash) \<Rightarrow> memory \<Rightarrow> nat \<Rightarrow> (memory \<times> hash) res" where
  "MerkleizeSubtree kk m gindex =
     (let l = bits_len gindex in
      guard_panic (l \<le> 28) ''gindex too deep''
      (if l > 20 then
         let depthIntoPage = l - 1 - 20;
             pageIndex = (gindex div 2 ^ depthIntoPage) mod 2 ^ 20
         in case map_of (mem_pages m) (of_nat pageIndex) of
              Some r \<Rightarrow>
                let pageGindex = 2 ^ depthIntoPage + gindex mod 2 ^ depthIntoPage in
                bind_res (deref m (Some r)) (\<lambda>cp.
                bind_res (page_MerkleizeSubtree kk cp pageGindex) (\<lambda>(cp', h).
                Ok (put_page m (Some r) cp', h)))
            | None \<Rightarrow> Ok (m, zeroHashes kk (28 - l))
       else
         case mem_nodes m gindex of
           None \<Rightarrow> Ok (m, zeroHashes kk (28 - l))
         | Some (Some h) \<Rightarrow> Ok (m, h)
         | Some None \<Rightarrow>
             if gindex = 0 then Panic ''stack overflow''
             else
               bind_res (MerkleizeSubtree kk m (2 * gindex)) (\<lambda>(m1, left).
               bind_res (MerkleizeSubtree kk m1 (2 * gindex + 1)) (\<lambda>(m2, right).
               let r = HashPair kk left right in
               Ok (m2\<lparr>mem_nodes := (mem_nodes m2)(gindex := Some (Some r))\<rparr>, r)))))"
  by pat_completeness auto
termination
  by (relation "measure (\<lambda>(kk, m, g). 28 - bits_len g)") auto

declare MerkleizeSubtree.simps [simp del]

definition MerkleRoot :: "(bytes \<Rightarrow> hash) \<Rightarrow> memory \<Rightarrow> (memory \<times> hash) res" where
  "MerkleRoot kk m = MerkleizeSubtree kk m 1"

function traverseBranch ::
    "(bytes \<Rightarrow> hash) \<Rightarrow> memory \<Rightarrow> nat \<Rightarrow> u32 \<Rightarrow> nat \<Rightarrow> (memory \<times> hash list) res" where
  "traverseBranch kk m parent addr depth =
     (if depth = 27 then
        bind_res (MerkleizeSubtree kk m parent) (\<lambda>(m', h). Ok (m', [h]))
      else if depth > 27 then Panic ''traversed too deep''
      else
        let right = (addr AND push_bit (31 - depth) 1 \<noteq> 0);
            self = (if right then 2 * parent + 1 else 2 * parent);
            sibling = (if right then 2 * parent else 2 * parent + 1)
        in bind_res (traverseBranch kk m self addr (depth + 1)) (\<lambda>(m1, proof).
           bind_res (MerkleizeSubtree kk m1 sibling) (\<lambda>(m2, siblingNode).
           Ok (m2, proof @ [siblingNode]))))"
  by pat_completeness auto
termination by (relation "measure (\<lambda>(kk, m, parent, addr, depth). 28 - depth)") auto

declare traverseBranch.simps [simp del]

definition MerkleProof :: "(bytes \<Rightarrow> hash) \<Rightarrow> memory \<Rightarrow> u32 \<Rightarrow> (memory \<times> bytes) res" where
  "MerkleProof kk m addr =
     bind_res (traverseBranch kk m 1 addr 0) (\<lambda>(m', proof).
     guard_panic (28 \<le> length proof) ''index out of range''
       (Ok (m', concat (take 28 proof))))"

section \<open>Ranges, serialisation and copies\<close>

text \<open>
  An \<open>io.Reader\<close> is the list of what its successive calls of \<open>Read\<close> deliver: bytes, at most as
  many as the buffer holds, and possibly an error; a reader that has delivered all reports the
  end of file. \<open>SetMemoryRange\<close> returns the reader's error, if any, beside the changed memory.
\<close>

datatype io_err = EOF | IOErr string

type_synonym reader = "(bytes \<times> io_err option) list"

function SetMemoryRange :: "memory \<Rightarrow> u32 \<Rightarrow> reader \<Rightarrow> (memory \<times> io_err option) res" where
  "SetMemoryRange m addr r =
     (let pageIndex = shr addr 12; pageAddr = unat (addr AND 0xFFF) in
      case pageLookup m pageIndex of (m1, p, ok) \<Rightarrow>
      let (m2, p) = (if \<not> ok then AllocPage m1 pageIndex else (m1, p)) in
      bind_res (deref m2 p) (\<lambda>cp.
      let (data, err, r') = (case r of [] \<Rightarrow> ([], Some EOF, []) | (d, e) # r' \<Rightarrow> (d, e, r'));
          data = take (4096 - pageAddr) data;
          cp' = page_InvalidateFull cp;
          m3 = put_page m2 p (cp'\<lparr>pg_data := page_write (pg_data cp') pageAddr data\<rparr>)
      in case err of
           Some EOF \<Rightarrow> Ok (m3, None)
         | Some (IOErr e) \<Rightarrow> Ok (m3, Some (IOErr e))
         | None \<Rightarrow> (if r = [] then Ok (m3, None)
                      else SetMemoryRange m3 (addr + of_nat (length data)) r')))"
  by pat_completeness auto
termination
  by (relation "measure (\<lambda>(m, addr, r). length r)") (auto split: list.splits)

declare SetMemoryRange.simps [simp del]

text \<open>One call of \<open>Read\<close> on the reader of \<open>ReadMemoryRange\<close>: the state is the next address
  and the remaining count.\<close>

definition memReader_Read ::
    "memory \<Rightarrow> u32 \<Rightarrow> u32 \<Rightarrow> nat \<Rightarrow> (memory \<times> u32 \<times> u32 \<times> bytes \<times> io_err option) res" where
  "memReader_Read m addr count destLen =
     (if count = 0 then Ok (m, addr, count, [], Some EOF)
      else
        let endAddr = addr + count;
            pageIndex = shr addr 12;
            start = addr AND 0xFFF;
            end' = (if pageIndex = shr endAddr 12 then endAddr AND 0xFFF else 0x1000)
        in case pageLookup m pageIndex of (m1, p, ok) \<Rightarrow>
           bind_res
             (if ok then
                bind_res (deref m1 p) (\<lambda>cp. page_slice (pg_data cp) (unat start) (unat end'))
              else Ok (replicate (unat (end' - start)) 0)) (\<lambda>src.
           let data = take destLen src; n = of_nat (length data)
           in Ok (m1, addr + n, count - n, data, None)))"

definition page_bytes :: "page \<Rightarrow> bytes" where
  "page_bytes p = map (\<lambda>i. p (of_nat i)) [0..<4096]"

text \<open>The order in which Go visits the pages map is \<open>order\<close>, some ordering of its keys.\<close>

definition mem_Serialize :: "u32 list \<Rightarrow> memory \<Rightarrow> bytes res" where
  "mem_Serialize order m =
     foldl (\<lambda>acc k. bind_res acc (\<lambda>out.
         bind_res (deref m (map_of (mem_pages m) k)) (\<lambda>cp.
         Ok (out @ be32 k @ page_bytes (pg_data cp)))))
       (Ok (be32 (of_nat (PageCount m)))) order"

definition read_u32 :: "bytes \<Rightarrow> (u32 \<times> bytes) res" where
  "read_u32 bs =
     (if bs = [] then Err ''EOF'' else if length bs < 4 then Err ''unexpected EOF''
      else Ok (un32 (take 4 bs), drop 4 bs))"

fun mem_Deserialize_pages :: "nat \<Rightarrow> memory \<Rightarrow> bytes \<Rightarrow> (memory \<times> bytes) res" where
  "mem_Deserialize_pages 0 m bs = Ok (m, bs)"
| "mem_Deserialize_pages (Suc n) m bs =
     bind_res (read_u32 bs) (\<lambda>(pageIndex, bs).
     case AllocPage m pageIndex of (m1, p) \<Rightarrow>
     bind_res (deref m1 p) (\<lambda>cp.
     guard_err (4096 \<le> length bs) (if bs = [] then ''EOF'' else ''unexpected EOF'')
       (mem_Deserialize_pages n
          (put_page m1 p (cp\<lparr>pg_data := page_write (pg_data cp) 0 (take 4096 bs)\<rparr>))
          (drop 4096 bs))))"

definition mem_Deserialize :: "memory \<Rightarrow> bytes \<Rightarrow> (memory \<times> bytes) res" where
  "mem_Deserialize m bs =
     bind_res (read_u32 bs) (\<lambda>(pageCount, bs). mem_Deserialize_pages (unat pageCount) m bs)"

definition copy_step :: "memory \<Rightarrow> memory \<Rightarrow> u32 \<Rightarrow> memory" where
  "copy_step m out k =
     (case AllocPage out k of (out', p) \<Rightarrow>
      case deref m (map_of (mem_pages m) k) of
        Ok cp \<Rightarrow> put_page out' p (new_page\<lparr>pg_data := pg_data cp\<rparr>)
      | _ \<Rightarrow> out')"

definition mem_Copy :: "u32 list \<Rightarrow> memory \<Rightarrow> memory" where
  "mem_Copy order m = foldl (copy_step m) NewMemory order"

end
