(* ===== verification/CannonMerkle.thy ===== *)
theory CannonMerkle
  imports CannonMemory
begin

unbundle bit_operations_syntax

text \<open>
  The reference Merkle tree of a memory and the coherence of the cached page hashes with it:
  paths in the tree of generalised indices, the hash of a subtree as a function of its leaves,
  and the proof that filling a page's cache computes it and that invalidating one address
  leaves no stale entry.
\<close>

section \<open>Paths\<close>

definition on_path :: "nat \<Rightarrow> nat \<Rightarrow> bool" where
  "on_path x k \<longleftrightarrow> 0 < x \<and> (\<exists>i. x = k div 2 ^ i)"

lemma on_path_0 [simp]: "\<not> on_path x 0" by (auto simp: on_path_def)

lemma on_path_self: "0 < k \<Longrightarrow> on_path k k"
  unfolding on_path_def by (intro conjI exI [of _ 0]) auto

lemma on_path_unfold: "on_path x k \<longleftrightarrow> 0 < k \<and> (x = k \<or> on_path x (k div 2))"
proof
  assume "on_path x k"
  then obtain i where i: "0 < x" "x = k div 2 ^ i" by (auto simp: on_path_def)
  show "0 < k \<and> (x = k \<or> on_path x (k div 2))"
  proof (cases i)
    case (Suc n)
    then have "x = k div 2 div 2 ^ n" using i(2) by (simp add: div_mult2_eq)
    then have "on_path x (k div 2)" using i(1) unfolding on_path_def by blast
    moreover have "0 < k" using i by (cases "k = 0") auto
    ultimately show ?thesis by blast
  qed (use i in auto)
next
  assume k: "0 < k \<and> (x = k \<or> on_path x (k div 2))"
  show "on_path x k"
  proof (cases "x = k")
    case False
    then obtain i where "0 < x" "x = k div 2 div 2 ^ i" using k by (auto simp: on_path_def)
    then show ?thesis unfolding on_path_def by (intro conjI exI [of _ "Suc i"]) (simp_all add: div_mult2_eq)
  qed (use k on_path_self in blast)
qed

lemma set_path_apply: "set_path v f k x = (if on_path x k then v else f x)"
proof (induction v f k rule: set_path.induct)
  case (1 v f k)
  show ?case
  proof (cases "k = 0")
    case False
    have "set_path v f k x = set_path v (f(k := v)) (k div 2) x"
      using False by (simp add: set_path.simps [of v f k])
    also have "\<dots> = (if on_path x (k div 2) then v else (f(k := v)) x)"
      by (rule 1) (rule False)
    finally show ?thesis using False by (simp add: on_path_unfold [of x k])
  qed (simp add: set_path.simps [of v f 0])
qed

section \<open>The hash of a subtree\<close>

fun tree_hash :: "(bytes \<Rightarrow> hash) \<Rightarrow> (nat \<Rightarrow> bytes) \<Rightarrow> nat \<Rightarrow> nat \<Rightarrow> hash" where
  "tree_hash kk leaf 0 g = leaf g"
| "tree_hash kk leaf (Suc d) g =
     HashPair kk (tree_hash kk leaf d (2 * g)) (tree_hash kk leaf d (2 * g + 1))"

lemma tree_hash_cong:
  "(\<And>k. k < 2 ^ d \<Longrightarrow> leaf (g * 2 ^ d + k) = leaf' (g' * 2 ^ d + k)) \<Longrightarrow>
   tree_hash kk leaf d g = tree_hash kk leaf' d g'"
proof (induction d arbitrary: g g')
  case (Suc d)
  have "leaf (2 * g * 2 ^ d + k) = leaf' (2 * g' * 2 ^ d + k)" if "k < 2 ^ d" for k
    using Suc.prems [of k] that by (simp add: mult_ac)
  moreover have "leaf (Suc (2 * g) * 2 ^ d + k) = leaf' (Suc (2 * g') * 2 ^ d + k)" if "k < 2 ^ d" for k
    using Suc.prems [of "2 ^ d + k"] that by (simp add: algebra_simps)
  ultimately have "tree_hash kk leaf d (2 * g) = tree_hash kk leaf' d (2 * g')"
    "tree_hash kk leaf d (Suc (2 * g)) = tree_hash kk leaf' d (Suc (2 * g'))"
    by (blast intro: Suc.IH)+
  then show ?case by simp
qed simp

lemma tree_hash_zero:
  "(\<And>k. k < 2 ^ d \<Longrightarrow> leaf (g * 2 ^ d + k) = replicate 32 0) \<Longrightarrow> tree_hash kk leaf d g = zeroHashes kk d"
proof -
  have z: "tree_hash kk (\<lambda>_. replicate 32 0) d 0 = zeroHashes kk d"
    by (induction d) (simp_all add: tree_hash_cong [of _ _ "Suc 0" _ 0])
  assume "\<And>k. k < 2 ^ d \<Longrightarrow> leaf (g * 2 ^ d + k) = replicate 32 0"
  then show ?thesis
    using tree_hash_cong [of d leaf g "\<lambda>_. replicate 32 0" 0 kk] z by simp
qed

section \<open>Pages\<close>

definition page_leaf :: "page \<Rightarrow> nat \<Rightarrow> bytes" where
  "page_leaf p i = map (\<lambda>n. p (of_nat n)) [32 * (i - 128)..<32 * (i - 128) + 32]"

definition page_hash :: "(bytes \<Rightarrow> hash) \<Rightarrow> page \<Rightarrow> nat \<Rightarrow> hash" where
  "page_hash kk p j = tree_hash kk (page_leaf p) (8 - bits_len j) j"

lemma page_hash_pair:
  assumes "0 < j" "j < 128"
  shows "page_hash kk p j = HashPair kk (page_hash kk p (2 * j)) (page_hash kk p (2 * j + 1))"
proof -
  have "bits_len j \<le> 7" using assms bits_len_less [of j 7] by simp
  then have "8 - bits_len j = Suc (8 - bits_len (2 * j))" using assms(1) by simp
  then show ?thesis using assms(1) by (simp add: page_hash_def)
qed

lemma page_hash_leaf: "128 \<le> j \<Longrightarrow> j < 256 \<Longrightarrow> page_hash kk p j = page_leaf p j"
  using bits_len_iff [of j 7] by (simp add: page_hash_def)

definition page_coh :: "(bytes \<Rightarrow> hash) \<Rightarrow> cached_page \<Rightarrow> bool" where
  "page_coh kk cp \<longleftrightarrow> (\<forall>j. 0 < j \<longrightarrow> j < 128 \<longrightarrow> pg_ok cp j \<longrightarrow>
     pg_cache cp j = page_hash kk (pg_data cp) j)"

lemma page_coh_new [simp]: "page_coh kk new_page"
  by (simp add: page_coh_def new_page_def)

lemma page_coh_cleared: "(\<And>j. \<not> pg_ok cp j) \<Longrightarrow> page_coh kk cp"
  by (simp add: page_coh_def)

lemma page_fill_simps [simp]:
  "pg_data (page_fill j h p) = pg_data p"
  "pg_ok (page_fill j h p) i \<longleftrightarrow> i = j \<or> pg_ok p i"
  by (auto simp: page_fill_def)

lemma page_fill_coh:
  assumes "page_coh kk p" "\<not> pg_ok p j \<Longrightarrow> h = page_hash kk (pg_data p) j"
  shows "page_coh kk (page_fill j h p)"
  using assms by (auto simp: page_coh_def page_fill_def)

lemma map_of_nat_split:
  "map f [a..<64 + a] = map f [a..<32 + a] @ map f [32 + a..<64 + a :: nat]"
  using upt_add_eq_append [of a "32 + a" 32] by simp

lemma page_bottom_step_coh:
  assumes "page_coh kk p" "i < 64"
  shows "page_coh kk (page_bottom_step kk (64 * i) p)"
proof -
  have "page_hash kk (pg_data p) (64 + i) = kk (map (\<lambda>n. pg_data p (of_nat n)) [64 * i..<64 + 64 * i])"
    unfolding map_of_nat_split using assms(2) page_hash_pair [of "64 + i" kk "pg_data p"]
    by (simp add: page_hash_leaf page_leaf_def HashPair_def add.commute)
  with assms show ?thesis
    by (auto simp: page_bottom_step_def add.commute intro!: page_fill_coh)
qed

lemma page_bottom_coh:
  "page_coh kk p \<Longrightarrow> \<forall>i \<in> set is. i < 64 \<Longrightarrow>
   (let p' = fold (page_bottom_step kk) (map (\<lambda>i. 64 * i) is) p in
      page_coh kk p' \<and> pg_data p' = pg_data p \<and>
      (\<forall>j. pg_ok p' j \<longleftrightarrow> pg_ok p j \<or> (\<exists>i \<in> set is. j = 64 + i)))"
proof (induction "is" arbitrary: p)
  case (Cons i "is")
  have "page_coh kk (page_bottom_step kk (64 * i) p)"
    using Cons.prems by (simp add: page_bottom_step_coh)
  from Cons.IH [OF this] Cons.prems(2) show ?case
    by (auto simp: Let_def) (auto simp: page_bottom_step_def)
qed simp

lemma page_layer_coh:
  "page_coh kk p \<Longrightarrow> n \<le> 64 \<Longrightarrow> \<forall>j. n \<le> j \<longrightarrow> j < 128 \<longrightarrow> pg_ok p j \<Longrightarrow>
   (let p' = fold (page_layer_step kk) (map (\<lambda>j. 2 * j) (rev [1..<n])) p in
      page_coh kk p' \<and> pg_data p' = pg_data p \<and> (\<forall>j. 1 \<le> j \<longrightarrow> j < 128 \<longrightarrow> pg_ok p' j))"
proof (induction n arbitrary: p)
  case (Suc n)
  show ?case
  proof (cases n)
    case (Suc k)
    let ?p = "page_layer_step kk (2 * n) p"
    have "pg_cache p (2 * n) = page_hash kk (pg_data p) (2 * n)"
      "pg_cache p (2 * n + 1) = page_hash kk (pg_data p) (2 * n + 1)"
      using Suc.prems \<open>n = Suc k\<close> by (auto simp: page_coh_def)
    then have "page_coh kk ?p"
      using Suc.prems \<open>n = Suc k\<close> page_hash_pair [of n kk "pg_data p"]
      by (auto simp: page_layer_step_def intro!: page_fill_coh)
    moreover have "pg_ok ?p j" if "n \<le> j" "j < 128" for j
      using Suc.prems(3) that by (cases "j = n") (simp_all add: page_layer_step_def)
    moreover have "pg_data ?p = pg_data p"
      by (simp add: page_layer_step_def)
    ultimately show ?thesis
      using Suc.IH [of ?p] Suc.prems(2) \<open>n = Suc k\<close> by (simp add: Let_def)
  qed (use Suc.prems in simp)
qed simp

lemma page_MerkleRoot_coh:
  assumes "page_coh kk p"
  shows "page_coh kk (fst (page_MerkleRoot kk p))"
    and "pg_data (fst (page_MerkleRoot kk p)) = pg_data p"
    and "1 \<le> j \<Longrightarrow> j < 128 \<Longrightarrow> pg_ok (fst (page_MerkleRoot kk p)) j"
proof -
  define p1 where "p1 = fold (page_bottom_step kk) (map (\<lambda>i. 64 * i) [0..<64]) p"
  have p1: "page_coh kk p1" "pg_data p1 = pg_data p" "\<forall>i < 64. pg_ok p1 (64 + i)"
    using page_bottom_coh [OF assms, of "[0..<64]"] unfolding p1_def Let_def by auto
  have "\<forall>j. 64 \<le> j \<longrightarrow> j < 128 \<longrightarrow> pg_ok p1 j"
  proof (intro allI impI)
    fix j :: nat assume "64 \<le> j" "j < 128"
    then have "j = 64 + (j - 64)" "j - 64 < 64" by simp_all
    with p1(3) show "pg_ok p1 j" by metis
  qed
  from page_layer_coh [OF p1(1) order_refl this] p1(2)
  show "page_coh kk (fst (page_MerkleRoot kk p))"
    "pg_data (fst (page_MerkleRoot kk p)) = pg_data p"
    "1 \<le> j \<Longrightarrow> j < 128 \<Longrightarrow> pg_ok (fst (page_MerkleRoot kk p)) j"
    unfolding page_MerkleRoot_def p1_def [symmetric] by (auto simp: Let_def)
qed

lemma page_MerkleizeSubtree_ok:
  assumes "page_coh kk p" "0 < g" "g < 256"
  shows "page_MerkleizeSubtree kk p g = Ok (fst (page_MerkleRoot kk p), page_hash kk (pg_data p) g)"
proof (cases "g < 128")
  case True
  then show ?thesis
    using page_MerkleRoot_coh [OF assms(1)] assms(2)
    by (auto simp: page_MerkleizeSubtree_def page_coh_def Let_def)
next
  case False
  then obtain i where i: "g = 128 + i" "i < 128" using assms(3) by (metis add_less_cancel_left le_Suc_ex not_less numeral_Bit0)
  then show ?thesis
    using page_MerkleRoot_coh [OF assms(1)]
    by (simp add: page_MerkleizeSubtree_def Let_def page_slice_def page_hash_leaf page_leaf_def mult.commute)
qed

section \<open>Writes into a page\<close>

lemma div_pow_Suc: "(x :: nat) div 2 ^ Suc e = x div 2 div 2 ^ e"
  by (simp add: div_mult2_eq)

lemma div_pow_add: "k < 2 ^ d \<Longrightarrow> (g * 2 ^ d + k) div 2 ^ d = (g :: nat)"
  by simp

lemma aligned_div:
  assumes "(a :: nat) mod 4 = 0" "a \<le> n" "n < a + 4"
  shows "n div 32 = a div 32"
proof -
  obtain k where k: "a = 4 * k" using assms(1) by (metis mod_0_imp_dvd dvdE)
  then obtain m where m: "n = 4 * k + m" "m < 4" using assms(2,3) by (metis add_less_cancel_left le_iff_add)
  then have "n div 4 = a div 4" using k by simp
  then show ?thesis using div_mult2_eq [of n 4 8] div_mult2_eq [of a 4 8] by simp
qed

lemma page_leaf_write:
  assumes "a mod 4 = 0" "length bs = 4" "128 \<le> i" "i < 256" "i \<noteq> 128 + a div 32"
  shows "page_leaf (page_write p a bs) i = page_leaf p i"
proof -
  have "page_write p a bs (of_nat n) = p (of_nat n)"
    if "n \<in> set [32 * (i - 128)..<32 * (i - 128) + 32]" for n
  proof -
    have n: "n < 4096" "n div 32 = i - 128" using that assms(4) by auto
    have u: "unat (of_nat n :: 12 word) = n" using n(1) by (simp add: unat_of_nat)
    have "\<not> (a \<le> n \<and> n < a + 4)" using aligned_div [OF assms(1), of n] n(2) assms(3,5) by auto
    then show ?thesis using assms(2) by (auto simp: page_write_def u)
  qed
  then show ?thesis by (simp add: page_leaf_def)
qed

lemma page_hash_write:
  assumes "a mod 4 = 0" "length bs = 4" "0 < j" "j < 128" "\<not> on_path j (64 + a div 64)"
  shows "page_hash kk (page_write p a bs) j = page_hash kk p j"
proof -
  define d where "d = 8 - bits_len j"
  have l: "bits_len j \<le> 7" "0 < bits_len j"
    using assms(3,4) bits_len_less [of j 7] by (simp_all add: bits_len_pos)
  then obtain b where b: "bits_len j = Suc b" by (cases "bits_len j") auto
  have j: "2 ^ b \<le> j" "j < 2 ^ Suc b" and d: "d = 7 - b" "b \<le> 6" "0 < d"
    using b l bits_len_iff [of j b] by (auto simp: d_def)
  have p2: "(2 :: nat) ^ b * 2 ^ d = 128" using d power_add [of "2 :: nat" b d] by simp
  have "2 ^ b * 2 ^ d \<le> j * 2 ^ d" "Suc j * 2 ^ d \<le> 2 ^ Suc b * 2 ^ d"
    using j by (intro mult_le_mono1; simp)+
  then have lo: "128 \<le> j * 2 ^ d" and hi: "j * 2 ^ d + 2 ^ d \<le> 256"
    using p2 by (simp_all add: mult.assoc)
  have "page_leaf (page_write p a bs) (j * 2 ^ d + k) = page_leaf p (j * 2 ^ d + k)" if k: "k < 2 ^ d" for k
  proof (rule page_leaf_write [OF assms(1,2)])
    show "128 \<le> j * 2 ^ d + k" "j * 2 ^ d + k < 256" using lo hi k by auto
    show "j * 2 ^ d + k \<noteq> 128 + a div 32"
    proof
      assume e: "j * 2 ^ d + k = 128 + a div 32"
      have "j = (128 + a div 32) div 2 ^ d" using div_pow_add [OF k, of j] e by simp
      also have "\<dots> = (128 + a div 32) div 2 div 2 ^ (d - 1)"
        using d div_pow_Suc [of "128 + a div 32" "d - 1"] by (simp only: Suc_diff_1)
      also have "(128 + a div 32) div 2 = 64 + a div 64" by (simp add: div_mult2_eq [symmetric])
      finally show False using assms(3,5) by (auto simp: on_path_def)
    qed
  qed
  then show ?thesis unfolding page_hash_def d_def [symmetric] by (rule tree_hash_cong)
qed

lemma unat_shr: "unat (shr x k) = unat x div 2 ^ unat k"
  unfolding shr_def unat_drop_bit_eq by (simp add: drop_bit_eq_div)

lemma page_Invalidate_ok:
  assumes "a < 0x1000"
  shows "page_Invalidate p a = Ok (p\<lparr>pg_ok := set_path False (pg_ok p) (64 + unat a div 64)\<rparr>)"
proof -
  have "unat a < 2 ^ 12" using assms by (simp add: word_less_nat_alt)
  then have "unat (0x1000 OR a) = 4096 + unat a"
    using or_exp_nat [of "unat a" 12] by (simp add: unsigned_or_eq)
  then have "unat (shr (0x1000 OR a) 6) = 64 + unat a div 64"
    by (simp add: unat_shr)
  then show ?thesis using assms
    by (simp add: page_Invalidate_def)
qed

lemma page_write_coh:
  assumes "page_coh kk p" "a mod 4 = 0" "length bs = 4"
  shows "page_coh kk (p\<lparr>pg_ok := set_path False (pg_ok p) (64 + a div 64),
    pg_data := page_write (pg_data p) a bs\<rparr>)"
  using assms by (auto simp: page_coh_def set_path_apply page_hash_write)

end
