(* ===== verification/CannonPages.thy ===== *)
theory CannonPages
  imports CannonMerkle
begin

unbundle bit_operations_syntax

text \<open>
  The page table: the well-formedness of a memory (no two pages share a cached page, the lookup
  cache agrees with the page map), its contents as a function of the address, and the effect of
  the word operations on both. The locale \<open>word_store\<close> is what the users of a word memory rely
  on; \<open>GetMemory\<close> and \<open>SetMemory\<close> are interpreted in it.
\<close>

section \<open>Contents\<close>

definition page_at :: "memory \<Rightarrow> u32 \<Rightarrow> page" where
  "page_at m k = (case map_of (mem_pages m) k of None \<Rightarrow> (\<lambda>_. 0) | Some r \<Rightarrow> pg_data (mem_heap m ! r))"

definition mem_byte :: "memory \<Rightarrow> u32 \<Rightarrow> byte" where
  "mem_byte m a = page_at m (shr a 12) (ucast a)"

definition mem_word :: "memory \<Rightarrow> u32 \<Rightarrow> u32" where
  "mem_word m a = un32 [mem_byte m a, mem_byte m (a + 1), mem_byte m (a + 2), mem_byte m (a + 3)]"

section \<open>Well-formedness\<close>

definition cache_entry_ok :: "(u32 \<times> nat) list \<Rightarrow> u32 \<Rightarrow> nat option \<Rightarrow> bool" where
  "cache_entry_ok ps k p \<longleftrightarrow> k = 0xFFFFFFFF \<or> (p \<noteq> None \<and> map_of ps k = p)"

definition cache_ok :: "memory \<Rightarrow> bool" where
  "cache_ok m \<longleftrightarrow>
     cache_entry_ok (mem_pages m) (fst (mem_lastPageKeys m)) (fst (mem_lastPage m)) \<and>
     cache_entry_ok (mem_pages m) (snd (mem_lastPageKeys m)) (snd (mem_lastPage m))"

definition pages_ok :: "memory \<Rightarrow> bool" where
  "pages_ok m \<longleftrightarrow> distinct (map fst (mem_pages m)) \<and> distinct (map snd (mem_pages m)) \<and>
     (\<forall>(k, r) \<in> set (mem_pages m). k < 0x100000 \<and> r < length (mem_heap m))"

definition mem_wf :: "memory \<Rightarrow> bool" where
  "mem_wf m \<longleftrightarrow> pages_ok m \<and> cache_ok m"

lemma map_of_map_put: "map_of (map_put k v xs) = (map_of xs)(k \<mapsto> v)"
  by (induction k v xs rule: map_put.induct) auto

lemma map_put_new: "map_of xs k = None \<Longrightarrow> map_put k v xs = xs @ [(k, v)]"
  by (induction k v xs rule: map_put.induct) (auto split: if_splits)

lemma pages_okD:
  assumes "pages_ok m" "map_of (mem_pages m) k = Some r"
  shows "k < 0x100000" "r < length (mem_heap m)"
  using assms map_of_SomeD [OF assms(2)] by (auto simp: pages_ok_def)

lemma pages_ok_inj:
  "pages_ok m \<Longrightarrow> map_of (mem_pages m) k = Some r \<Longrightarrow> map_of (mem_pages m) k' = Some r \<Longrightarrow> k = k'"
  by (auto simp: pages_ok_def dest!: map_of_SomeD)
    (metis distinct_map fst_conv inj_onD snd_conv prod.inject)

text \<open>\<open>same_pages\<close>: the memories differ at most in their lookup caches.\<close>

definition same_pages :: "memory \<Rightarrow> memory \<Rightarrow> bool" where
  "same_pages m m' \<longleftrightarrow> mem_pages m' = mem_pages m \<and> mem_heap m' = mem_heap m \<and> mem_nodes m' = mem_nodes m"

lemma same_pages_refl [simp]: "same_pages m m" by (simp add: same_pages_def)

lemma page_key_bound: "shr a 12 < 0x100000" and page_key_ne: "shr a 12 \<noteq> 0xFFFFFFFF"
proof -
  have "unat (shr a 12) < 0x100000" using unat_bounds(2) [of a] by (simp add: unat_shr)
  then show "shr a 12 < 0x100000" by (simp add: word_less_nat_alt)
  then show "shr a 12 \<noteq> 0xFFFFFFFF" by auto
qed

lemma pageLookup_ok:
  assumes "mem_wf m" "k \<noteq> 0xFFFFFFFF"
  shows "\<exists>m1. pageLookup m k = (m1, map_of (mem_pages m) k, map_of (mem_pages m) k \<noteq> None) \<and>
    same_pages m m1 \<and> mem_wf m1"
proof (cases "k = fst (mem_lastPageKeys m) \<or> k = snd (mem_lastPageKeys m)")
  case True
  have "k = fst (mem_lastPageKeys m) \<Longrightarrow> fst (mem_lastPage m) = map_of (mem_pages m) k"
    "k = fst (mem_lastPageKeys m) \<Longrightarrow> map_of (mem_pages m) k \<noteq> None"
    "k = snd (mem_lastPageKeys m) \<Longrightarrow> snd (mem_lastPage m) = map_of (mem_pages m) k"
    "k = snd (mem_lastPageKeys m) \<Longrightarrow> map_of (mem_pages m) k \<noteq> None"
    using assms unfolding mem_wf_def cache_ok_def cache_entry_ok_def by metis+
  with True assms(1) show ?thesis
    unfolding pageLookup_def by (cases "k = fst (mem_lastPageKeys m)") (simp_all only: if_True if_False, auto)
next
  case False
  show ?thesis
  proof (cases "map_of (mem_pages m) k")
    case None
    then show ?thesis using False assms by (simp add: pageLookup_def)
  next
    case (Some r)
    then show ?thesis using False assms
      by (auto simp: pageLookup_def same_pages_def mem_wf_def pages_ok_def cache_ok_def cache_entry_ok_def)
  qed
qed

section \<open>Reading and writing words\<close>

lemma low_bits: "unat (addr AND 0xFFF) = unat addr mod 4096" for addr :: u32
proof -
  have "addr AND 0xFFF = take_bit 12 addr" by (simp add: take_bit_eq_mask mask_numeral)
  then show ?thesis by (simp add: take_bit_eq_mod unat_mod)
qed

lemma aligned_iff: "addr AND 3 = 0 \<longleftrightarrow> unat addr mod 4 = 0" for addr :: u32
proof -
  have "addr AND 3 = take_bit 2 addr" by (simp add: take_bit_eq_mask mask_numeral)
  then have "unat (addr AND 3) = unat addr mod 4" by (simp add: take_bit_eq_mod unat_mod)
  then show ?thesis by (metis unat_eq_zero)
qed

lemma aligned_add:
  assumes "unat addr mod 4 = 0" "i < 4"
  shows "unat (addr + of_nat i) = unat addr + i" "shr (addr + of_nat i) 12 = shr addr 12"
    "unat addr mod 4096 + 4 \<le> 4096" "unat (addr + of_nat i) mod 4096 = unat addr mod 4096 + i"
proof -
  obtain q where q: "unat addr = 4 * q" using assms(1) by (metis mod_0_imp_dvd dvdE)
  have lt: "4 * q + i < 2 ^ 32" using unat_bounds(2) [of addr] assms(2) by (simp add: q)
  then show u: "unat (addr + of_nat i) = unat addr + i"
    using assms(2) by (simp add: unat_word_ariths unat_of_nat q)
  have m: "unat addr mod 4096 = 4 * (q mod 1024)"
    using mult_mod_right [of 4 q 1024] by (simp add: q)
  have qb: "q mod 1024 < 1024" by simp
  then show b: "unat addr mod 4096 + 4 \<le> 4096" unfolding m by linarith
  have e: "unat addr + i = 4096 * (q div 1024) + (4 * (q mod 1024) + i)"
    using div_mult_mod_eq [of q 1024] unfolding q by linarith
  have s: "4 * (q mod 1024) + i < 4096" using qb assms(2) by linarith
  have "(unat addr + i) div 4096 = q div 1024" unfolding e using s by simp
  moreover have "unat addr div 4096 = q div 1024"
    using div_mult2_eq [of "4 * q" 4 1024] by (simp add: q)
  ultimately show "shr (addr + of_nat i) 12 = shr addr 12"
    by (simp add: word_unat_eq_iff unat_shr u)
  show "unat (addr + of_nat i) mod 4096 = unat addr mod 4096 + i"
    unfolding u m e using s by simp
qed

lemma page_at_same: "same_pages m m' \<Longrightarrow> page_at m' = page_at m"
  by (rule ext) (simp add: same_pages_def page_at_def cong: option.case_cong)

lemma mem_byte_same: "same_pages m m' \<Longrightarrow> mem_byte m' = mem_byte m"
  by (rule ext) (simp add: mem_byte_def page_at_same)

lemma ucast_12: "(ucast a :: 12 word) = of_nat (unat (a AND 0xFFF))" for a :: u32
  by (simp add: word_unat_eq_iff unsigned_ucast_eq unat_of_nat low_bits take_bit_eq_mod)

lemma unat_ucast_12: "unat (ucast a :: 12 word) = unat a mod 4096" for a :: u32
  by (simp add: unsigned_ucast_eq take_bit_eq_mod)

lemma mem_word_page:
  assumes "addr AND 3 = 0" "map_of (mem_pages m) (shr addr 12) = Some r"
  shows "mem_word m addr = un32 (map (\<lambda>i. pg_data (mem_heap m ! r) (of_nat i))
     [unat (addr AND 0xFFF)..<unat (addr AND 0xFFF) + 4])"
proof -
  let ?a = "unat (addr AND 0xFFF)"
  have al: "unat addr mod 4 = 0" using assms(1) by (simp add: aligned_iff)
  have b: "mem_byte m (addr + of_nat i) = pg_data (mem_heap m ! r) (of_nat (?a + i))" if "i < 4" for i
    using aligned_add [OF al that] assms(2)
    by (simp add: mem_byte_def page_at_def ucast_12 low_bits)
  have "[?a..<?a + 4] = [?a, ?a + 1, ?a + 2, ?a + 3]"
    by (simp add: upt_rec)
  then show ?thesis using b [of 0] b [of 1] b [of 2] b [of 3] by (simp add: mem_word_def)
qed

lemma mem_word_none:
  assumes "addr AND 3 = 0" "map_of (mem_pages m) (shr addr 12) = None"
  shows "mem_word m addr = 0"
proof -
  have al: "unat addr mod 4 = 0" using assms(1) by (simp add: aligned_iff)
  have b: "mem_byte m (addr + of_nat i) = 0" if "i < 4" for i
    using aligned_add [OF al that] assms(2) by (simp add: mem_byte_def page_at_def)
  show ?thesis using b [of 0] b [of 1] b [of 2] b [of 3]
    by (simp add: mem_word_def un32_def be_decode_def)
qed

lemma deref_Some [simp]: "r < length (mem_heap m) \<Longrightarrow> deref m (Some r) = Ok (mem_heap m ! r)"
  by (simp add: deref_def index_res_def)

lemma low_bound: "addr AND 3 = 0 \<Longrightarrow> unat (addr AND 0xFFF) + 4 \<le> 4096" for addr :: u32
  using aligned_add(3) [of addr 0] by (simp add: aligned_iff low_bits)

lemma GetMemory_ok:
  assumes "mem_wf m" "addr AND 3 = 0"
  shows "\<exists>m1. GetMemory m addr = Ok (m1, mem_word m addr) \<and> same_pages m m1 \<and> mem_wf m1"
proof -
  obtain m1 where m1: "pageLookup m (shr addr 12) =
      (m1, map_of (mem_pages m) (shr addr 12), map_of (mem_pages m) (shr addr 12) \<noteq> None)"
    and s: "same_pages m m1" "mem_wf m1"
    using pageLookup_ok [OF assms(1) page_key_ne] by blast
  show ?thesis
  proof (cases "map_of (mem_pages m) (shr addr 12)")
    case None
    then show ?thesis using m1 s assms(2) by (simp add: GetMemory_def mem_word_none)
  next
    case (Some r)
    then have "r < length (mem_heap m1)" "mem_heap m1 = mem_heap m"
      using s pages_okD assms(1) by (auto simp: same_pages_def mem_wf_def)
    then show ?thesis using m1 s assms(2) Some low_bound [OF assms(2)]
      by (simp add: GetMemory_def Let_def page_slice_def mem_word_page)
  qed
qed

lemma GetMemory_unaligned: "addr AND 3 \<noteq> 0 \<Longrightarrow> GetMemory m addr = Panic ''unaligned memory access''"
  by (simp add: GetMemory_def)

lemma SetMemory_unaligned: "addr AND 3 \<noteq> 0 \<Longrightarrow> SetMemory m addr v = Panic ''unaligned memory access''"
  by (simp add: SetMemory_def)

text \<open>The effect of \<open>SetMemory\<close> on the page it writes to, when it exists and when it is new.\<close>

definition page_gindex :: "u32 \<Rightarrow> nat" where
  "page_gindex k = 2 ^ 20 + unat k"

lemma gindex_Invalidate:
  "unat (drop_bit 12 ((push_bit 32 1 :: u64) OR ucast addr)) = page_gindex (shr addr 12)"
proof -
  have "take_bit 64 (unat addr) = unat addr"
    using unat_bounds(2) [of addr] by (intro take_bit_nat_eq_self) simp
  then have "unat ((push_bit 32 1 :: u64) OR ucast addr) = 2 ^ 32 OR unat addr"
    by (simp add: unsigned_or_eq unsigned_ucast_eq)
  also have "\<dots> = 2 ^ 32 + unat addr" using unat_bounds(2) by (rule or_exp_nat)
  finally show ?thesis
    unfolding unat_drop_bit_eq by (simp add: drop_bit_eq_div page_gindex_def unat_shr)
qed

lemma gindex_Alloc: "k < 0x100000 \<Longrightarrow> unat ((push_bit 20 1 :: u64) OR ucast k) = page_gindex k"
proof -
  assume "k < 0x100000"
  then have lt: "unat k < 2 ^ 20" by (simp add: word_less_nat_alt)
  have "take_bit 64 (unat k) = unat k"
    using lt by (intro take_bit_nat_eq_self) simp
  then have "unat ((push_bit 20 1 :: u64) OR ucast k) = 2 ^ 20 OR unat k"
    by (simp add: unsigned_or_eq unsigned_ucast_eq)
  also have "\<dots> = 2 ^ 20 + unat k" using lt by (rule or_exp_nat)
  finally show ?thesis by (simp add: page_gindex_def)
qed

lemmas gindex_simps = gindex_Invalidate [simplified] gindex_Alloc [simplified]

definition written :: "cached_page \<Rightarrow> u32 \<Rightarrow> u32 \<Rightarrow> cached_page" where
  "written cp addr v =
     cp\<lparr>pg_ok := set_path False (pg_ok cp) (64 + unat (addr AND 0xFFF) div 64),
        pg_data := page_write (pg_data cp) (unat (addr AND 0xFFF)) (be32 v)\<rparr>"

lemma SetMemory_existing:
  assumes "mem_wf m" "addr AND 3 = 0" "map_of (mem_pages m) (shr addr 12) = Some r"
  shows "\<exists>m'. SetMemory m addr v = Ok m' \<and> mem_wf m' \<and> mem_pages m' = mem_pages m \<and>
    mem_heap m' = (mem_heap m)[r := written (mem_heap m ! r) addr v] \<and>
    mem_nodes m' = (if pg_ok (mem_heap m ! r) 1
      then set_path (Some None) (mem_nodes m) (page_gindex (shr addr 12)) else mem_nodes m)"
proof -
  obtain m1 where m1: "pageLookup m (shr addr 12) = (m1, Some r, True)"
    and s: "same_pages m m1" "mem_wf m1"
    using pageLookup_ok [OF assms(1) page_key_ne [of addr]] assms(3) by auto
  have "map_of (mem_pages m1) (shr addr 12) = Some r" using s(1) assms(3) by (simp add: same_pages_def)
  then obtain m2 where m2: "pageLookup m1 (shr addr 12) = (m2, Some r, True)"
    and s2: "same_pages m1 m2" "mem_wf m2"
    using pageLookup_ok [OF s(2) page_key_ne [of addr]] by auto
  have eqs: "mem_pages m2 = mem_pages m" "mem_heap m2 = mem_heap m" "mem_nodes m2 = mem_nodes m"
    using s(1) s2(1) by (simp_all add: same_pages_def)
  have r: "r < length (mem_heap m)" using pages_okD(2) assms(1,3) by (auto simp: mem_wf_def)
  have lt: "addr AND 0xFFF < 0x1000" using low_bound [OF assms(2)] by (simp add: word_less_nat_alt)
  show ?thesis
    using m1 m2 s2(2) eqs r assms(2) lt low_bound [OF assms(2)]
    by (cases "pg_ok (mem_heap m ! r) 1")
      (simp_all add: SetMemory_def Invalidate_def Let_def put_page_def page_Invalidate_ok gindex_simps
        written_def mem_wf_def pages_ok_def cache_ok_def)
qed

lemma SetMemory_new:
  assumes "mem_wf m" "addr AND 3 = 0" "map_of (mem_pages m) (shr addr 12) = None"
  shows "\<exists>m'. SetMemory m addr v = Ok m' \<and> mem_wf m' \<and>
    mem_pages m' = mem_pages m @ [(shr addr 12, length (mem_heap m))] \<and>
    mem_heap m' = mem_heap m @
      [new_page\<lparr>pg_data := page_write (\<lambda>_. 0) (unat (addr AND 0xFFF)) (be32 v)\<rparr>] \<and>
    mem_nodes m' = set_path (Some None) (mem_nodes m) (page_gindex (shr addr 12))"
proof -
  obtain m1 where m1: "pageLookup m (shr addr 12) = (m1, None, False)"
    and s: "same_pages m m1" "mem_wf m1"
    using pageLookup_ok [OF assms(1) page_key_ne [of addr]] assms(3) by auto
  let ?ps = "mem_pages m @ [(shr addr 12, length (mem_heap m))]"
  have eqs: "mem_pages m1 = mem_pages m" "mem_heap m1 = mem_heap m" "mem_nodes m1 = mem_nodes m"
    using s(1) by (simp_all add: same_pages_def)
  have put: "map_put (shr addr 12) (length (mem_heap m)) (mem_pages m) = ?ps"
    using assms(3) by (rule map_put_new)
  have ce: "cache_entry_ok ?ps k p" if "cache_entry_ok (mem_pages m) k p" for k p
    using that assms(3) by (auto simp: cache_entry_ok_def map_add_def split: option.split)
  have snd: "length (mem_heap m) \<notin> snd ` set (mem_pages m)"
    using assms(1) by (auto simp: mem_wf_def pages_ok_def)
  have "shr addr 12 \<notin> fst ` set (mem_pages m)"
    using assms(3) by (simp add: map_of_eq_None_iff)
  then have wf: "mem_wf m2"
    if "length (mem_heap m2) = Suc (length (mem_heap m))" "mem_pages m2 = ?ps"
      "mem_lastPageKeys m2 = mem_lastPageKeys m1" "mem_lastPage m2 = mem_lastPage m1" for m2
    using s(2) eqs ce snd that assms(1) page_key_bound [of addr]
    by (auto simp: mem_wf_def cache_ok_def pages_ok_def)
  show ?thesis
    using m1 eqs assms(2) low_bound [OF assms(2)] wf
    by (simp add: SetMemory_def Let_def AllocPage_def put_page_def put gindex_simps page_key_bound
        nth_append list_update_append new_page_def)
qed

section \<open>Contents after a write\<close>

lemma page_at_written:
  assumes "mem_pages m' = mem_pages m" "mem_heap m' = (mem_heap m)[r := cp]"
    "pages_ok m" "map_of (mem_pages m) k = Some r"
  shows "page_at m' = (page_at m)(k := pg_data cp)"
proof (rule ext)
  fix k'
  show "page_at m' k' = ((page_at m)(k := pg_data cp)) k'"
  proof (cases "map_of (mem_pages m) k'")
    case None
    then show ?thesis using assms(1,4) by (auto simp: page_at_def)
  next
    case (Some r')
    have "k' = k" if "r' = r" using pages_ok_inj [OF assms(3,4)] Some that by simp
    then show ?thesis using assms(1,2,4) Some pages_okD(2) [OF assms(3,4)]
      by (cases "r' = r") (auto simp: page_at_def)
  qed
qed

lemma page_at_appended:
  assumes "mem_pages m' = mem_pages m @ [(k, length (mem_heap m))]" "mem_heap m' = mem_heap m @ [cp]"
    "pages_ok m" "map_of (mem_pages m) k = None"
  shows "page_at m' = (page_at m)(k := pg_data cp)"
proof (rule ext)
  fix k'
  show "page_at m' k' = ((page_at m)(k := pg_data cp)) k'"
    using assms(1,2,4) pages_okD(2) [OF assms(3), of k']
    by (auto simp: page_at_def nth_append map_add_def split: option.split)
qed

lemma page_at_none: "map_of (mem_pages m) k = None \<Longrightarrow> page_at m k = (\<lambda>_. 0)"
  by (simp add: page_at_def)

lemma page_at_some: "map_of (mem_pages m) k = Some r \<Longrightarrow> page_at m k = pg_data (mem_heap m ! r)"
  by (simp add: page_at_def)

lemma mem_byte_write:
  assumes "addr AND 3 = 0"
    and "page_at m' = (page_at m)(shr addr 12 :=
      page_write (page_at m (shr addr 12)) (unat (addr AND 0xFFF)) (be32 v))"
  shows "mem_byte m' a = (if unat (a - addr) < 4 then be32 v ! unat (a - addr) else mem_byte m a)"
proof (cases "unat (a - addr) < 4")
  case True
  define i where "i = unat (a - addr)"
  have a: "a = addr + of_nat i" by (simp add: i_def)
  have al: "unat addr mod 4 = 0" using assms(1) by (simp add: aligned_iff)
  show ?thesis using aligned_add [OF al, of i] True assms(2)
    by (simp add: mem_byte_def page_write_def unat_ucast_12 low_bits flip: a i_def)
next
  case False
  have al: "unat addr mod 4 = 0" using assms(1) by (simp add: aligned_iff)
  show ?thesis
  proof (cases "shr a 12 = shr addr 12")
    case True
    have "\<not> (unat addr mod 4096 \<le> unat a mod 4096 \<and> unat a mod 4096 < unat addr mod 4096 + 4)"
    proof
      assume r: "unat addr mod 4096 \<le> unat a mod 4096 \<and> unat a mod 4096 < unat addr mod 4096 + 4"
      have "unat a div 4096 = unat addr div 4096" using True by (simp add: word_unat_eq_iff unat_shr)
      then have "unat addr \<le> unat a" "unat a < unat addr + 4"
        using r div_mult_mod_eq [of "unat a" 4096] div_mult_mod_eq [of "unat addr" 4096] by linarith+
      then have "unat (a - addr) < 4" by (simp add: unat_sub word_le_nat_alt)
      with False show False by simp
    qed
    then have "\<not> (unat addr mod 4096 \<le> unat (ucast a :: 12 word) \<and>
        unat (ucast a :: 12 word) < unat addr mod 4096 + length (be32 v))"
      unfolding unat_ucast_12 by simp
    then show ?thesis using False True assms(2)
      by (simp only: mem_byte_def page_write_def low_bits fun_upd_same if_False)
  next
    case False2: False
    then show ?thesis using False assms(2) by (simp add: mem_byte_def)
  qed
qed

lemma SetMemory_page_at:
  assumes "mem_wf m" "addr AND 3 = 0"
  shows "\<exists>m'. SetMemory m addr v = Ok m' \<and> mem_wf m' \<and>
    page_at m' = (page_at m)(shr addr 12 :=
      page_write (page_at m (shr addr 12)) (unat (addr AND 0xFFF)) (be32 v))"
proof (cases "map_of (mem_pages m) (shr addr 12)")
  case None
  from SetMemory_new [OF assms None, of v] obtain m' where
    "SetMemory m addr v = Ok m'" "mem_wf m'"
    "mem_pages m' = mem_pages m @ [(shr addr 12, length (mem_heap m))]"
    "mem_heap m' = mem_heap m @
      [new_page\<lparr>pg_data := page_write (\<lambda>_. 0) (unat (addr AND 0xFFF)) (be32 v)\<rparr>]"
    by blast
  with page_at_appended [OF this(3,4)] None assms(1) show ?thesis
    by (simp add: mem_wf_def page_at_none)
next
  case (Some r)
  from SetMemory_existing [OF assms Some, of v] obtain m' where
    "SetMemory m addr v = Ok m'" "mem_wf m'" "mem_pages m' = mem_pages m"
    "mem_heap m' = (mem_heap m)[r := written (mem_heap m ! r) addr v]"
    by blast
  with page_at_written [OF this(3,4)] Some assms(1) show ?thesis
    by (simp add: mem_wf_def page_at_some written_def)
qed

lemma SetMemory_ok:
  assumes "mem_wf m" "addr AND 3 = 0"
  shows "\<exists>m'. SetMemory m addr v = Ok m' \<and> mem_wf m' \<and>
    (\<forall>a. mem_byte m' a = (if unat (a - addr) < 4 then be32 v ! unat (a - addr) else mem_byte m a))"
  using SetMemory_page_at [OF assms, of v] mem_byte_write [OF assms(2)] by blast

text \<open>Words at aligned addresses: a write changes one of them.\<close>

lemma be32_list: "be32 v = [be32 v ! 0, be32 v ! 1, be32 v ! 2, be32 v ! 3]"
  by (rule nth_equalityI) (auto simp: less_Suc_eq numeral_eq_Suc)

lemma aligned_diff:
  fixes addr b :: u32
  assumes "addr AND 3 = 0" "b AND 3 = 0" "i < 4" "b \<noteq> addr"
  shows "\<not> unat (b + of_nat i - addr) < 4"
proof
  assume lt: "unat (b + of_nat i - addr) < 4"
  obtain j where j: "j < 4" "b + of_nat i - addr = of_nat j"
    using that [of "unat (b + of_nat i - addr)"] lt by (simp only: of_nat_unat ucast_id)
  then have e: "b + of_nat i = addr + of_nat j" by (metis diff_add_cancel add.commute)
  have al: "unat b mod 4 = 0" "unat addr mod 4 = 0" using assms(1,2) by (simp_all add: aligned_iff)
  have "unat b + i = unat addr + j"
    using aligned_add(1) [OF al(1) assms(3)] aligned_add(1) [OF al(2) j(1)] unfolding e by simp
  moreover obtain p q where "unat b = 4 * p" "unat addr = 4 * q"
    using assms(1,2) unfolding aligned_iff by (metis mod_0_imp_dvd dvdE)
  ultimately have "unat b = unat addr" using assms(3) j(1) by presburger
  with assms(4) show False by (simp add: word_unat_eq_iff)
qed

lemma mem_word_write:
  assumes "addr AND 3 = 0" "b AND 3 = 0"
    and "\<And>a. mem_byte m' a = (if unat (a - addr) < 4 then be32 v ! unat (a - addr) else mem_byte m a)"
  shows "mem_word m' b = (if b = addr then v else mem_word m b)"
proof (cases "b = addr")
  case True
  then have "mem_word m' b = un32 [be32 v ! 0, be32 v ! 1, be32 v ! 2, be32 v ! 3]"
    by (simp add: mem_word_def assms(3))
  also have "\<dots> = un32 (be32 v)" by (simp only: be32_list [symmetric])
  finally have "mem_word m' b = un32 (be32 v)" .
  with True show ?thesis by simp
next
  case False
  then show ?thesis
    using aligned_diff [OF assms(1,2) _ False, of 0] aligned_diff [OF assms(1,2) _ False, of 1]
      aligned_diff [OF assms(1,2) _ False, of 2] aligned_diff [OF assms(1,2) _ False, of 3]
    by (simp add: mem_word_def assms(3))
qed

section \<open>A store of words\<close>

text \<open>
  What the instructions rely on: over the states that satisfy \<open>inv\<close>, at aligned addresses, a
  read returns the word \<open>val\<close> and changes nothing that can be read, and a write changes that
  word only. A program of reads and writes then returns what it returns on a plain array of
  words, the function \<open>flat\<close>.
\<close>

datatype word_op = Rd u32 | Wr u32 u32

fun op_addr :: "word_op \<Rightarrow> u32" where
  "op_addr (Rd a) = a"
| "op_addr (Wr a v) = a"

fun flat :: "(u32 \<Rightarrow> u32) \<Rightarrow> word_op list \<Rightarrow> (u32 \<Rightarrow> u32) \<times> u32 list" where
  "flat f [] = (f, [])"
| "flat f (Rd a # ops) = (let (f', out) = flat f ops in (f', f a # out))"
| "flat f (Wr a v # ops) = flat (f(a := v)) ops"

fun run_words ::
    "('m \<Rightarrow> u32 \<Rightarrow> ('m \<times> u32) res) \<Rightarrow> ('m \<Rightarrow> u32 \<Rightarrow> u32 \<Rightarrow> 'm res) \<Rightarrow> 'm \<Rightarrow> word_op list \<Rightarrow>
     ('m \<times> u32 list) res" where
  "run_words rd wr m [] = Ok (m, [])"
| "run_words rd wr m (Rd a # ops) =
     bind_res (rd m a) (\<lambda>(m1, v). bind_res (run_words rd wr m1 ops) (\<lambda>(m2, out). Ok (m2, v # out)))"
| "run_words rd wr m (Wr a v # ops) = bind_res (wr m a v) (\<lambda>m1. run_words rd wr m1 ops)"

locale word_store =
  fixes rd :: "'m \<Rightarrow> u32 \<Rightarrow> ('m \<times> u32) res"
    and wr :: "'m \<Rightarrow> u32 \<Rightarrow> u32 \<Rightarrow> 'm res"
    and inv :: "'m \<Rightarrow> bool"
    and val :: "'m \<Rightarrow> u32 \<Rightarrow> u32"
  assumes rd_law: "inv m \<Longrightarrow> a AND 3 = 0 \<Longrightarrow> \<exists>m1. rd m a = Ok (m1, val m a) \<and> inv m1 \<and> val m1 = val m"
    and wr_law: "inv m \<Longrightarrow> a AND 3 = 0 \<Longrightarrow>
      \<exists>m1. wr m a v = Ok m1 \<and> inv m1 \<and> (\<forall>b. b AND 3 = 0 \<longrightarrow> val m1 b = (if b = a then v else val m b))"
begin

lemma run_words_flat:
  "inv m \<Longrightarrow> \<forall>op \<in> set ops. op_addr op AND 3 = 0 \<Longrightarrow> \<forall>b. b AND 3 = 0 \<longrightarrow> val m b = f b \<Longrightarrow>
   \<exists>m1. run_words rd wr m ops = Ok (m1, snd (flat f ops)) \<and> inv m1 \<and>
     (\<forall>b. b AND 3 = 0 \<longrightarrow> val m1 b = fst (flat f ops) b)"
proof (induction ops arbitrary: m f)
  case (Cons op ops)
  show ?case
  proof (cases op)
    case (Rd a)
    then have al: "a AND 3 = 0" using Cons.prems(2) by simp
    obtain m1 where m1: "rd m a = Ok (m1, val m a)" "inv m1" "val m1 = val m"
      using rd_law [OF Cons.prems(1) al] by blast
    obtain m2 where m2: "run_words rd wr m1 ops = Ok (m2, snd (flat f ops))" "inv m2"
        "\<forall>b. b AND 3 = 0 \<longrightarrow> val m2 b = fst (flat f ops) b"
      using Cons.IH [OF m1(2), of f] Cons.prems(2,3) m1(3) by auto
    show ?thesis using m1(1) m2 Cons.prems(3) al Rd
      by (auto simp: case_prod_beta Let_def)
  next
    case (Wr a v)
    then have al: "a AND 3 = 0" using Cons.prems(2) by simp
    obtain m1 where m1: "wr m a v = Ok m1" "inv m1"
        "\<forall>b. b AND 3 = 0 \<longrightarrow> val m1 b = (if b = a then v else val m b)"
      using wr_law [OF Cons.prems(1) al] by blast
    have "\<exists>m2. run_words rd wr m1 ops = Ok (m2, snd (flat (f(a := v)) ops)) \<and> inv m2 \<and>
        (\<forall>b. b AND 3 = 0 \<longrightarrow> val m2 b = fst (flat (f(a := v)) ops) b)"
      by (rule Cons.IH) (use m1 Cons.prems in auto)
    then show ?thesis using m1(1) Wr by auto
  qed
qed auto

end

lemma mem_word_same: "same_pages m m' \<Longrightarrow> mem_word m' = mem_word m"
  by (rule ext) (simp add: mem_word_def mem_byte_same)

interpretation cannon_mem: word_store GetMemory SetMemory mem_wf mem_word
proof unfold_locales
  fix m a assume "mem_wf m" "(a :: u32) AND 3 = 0"
  from GetMemory_ok [OF this] mem_word_same
  show "\<exists>m1. GetMemory m a = Ok (m1, mem_word m a) \<and> mem_wf m1 \<and> mem_word m1 = mem_word m" by blast
next
  fix m a v assume h: "mem_wf m" "(a :: u32) AND 3 = 0"
  from SetMemory_ok [OF this, of v] mem_word_write [OF h(2)]
  show "\<exists>m1. SetMemory m a v = Ok m1 \<and> mem_wf m1 \<and>
      (\<forall>b. b AND 3 = 0 \<longrightarrow> mem_word m1 b = (if b = a then v else mem_word m b))" by blast
qed

lemma NewMemory_wf [simp]: "mem_wf NewMemory"
  by (simp add: NewMemory_def mem_wf_def pages_ok_def cache_ok_def cache_entry_ok_def)

lemma mem_byte_NewMemory [simp]: "mem_byte NewMemory a = 0"
  by (simp add: NewMemory_def mem_byte_def page_at_def)

lemma mem_word_NewMemory [simp]: "mem_word NewMemory a = 0"
  by (simp add: mem_word_def un32_def be_decode_def)

text \<open>C26: The paged memory with its two-entry page cache is a flat array of words: any program of
  aligned reads and writes that starts from the empty memory returns, for every read, the word
  last written at that address, or 0; it never panics.\<close>

theorem memory_is_flat_array:
  assumes "\<forall>op \<in> set ops. op_addr op AND 3 = 0"
  shows "\<exists>m. run_words GetMemory SetMemory NewMemory ops = Ok (m, snd (flat (\<lambda>_. 0) ops)) \<and> mem_wf m"
  using cannon_mem.run_words_flat [OF NewMemory_wf assms, of "\<lambda>_. 0"] by auto

theorem memory_is_flat_array_witness:
  "\<exists>m. run_words GetMemory SetMemory NewMemory [Wr 0x1000 7, Wr 0x2000 8, Rd 0x1000, Wr 0x1000 9, Rd 0x1000, Rd 4]
     = Ok (m, [7, 9, 0])"
  using memory_is_flat_array [of "[Wr 0x1000 7, Wr 0x2000 8, Rd 0x1000, Wr 0x1000 9, Rd 0x1000, Rd 4]"]
  by auto

end
