(* ===== verification/CannonRoot.thy ===== *)
theory CannonRoot
  imports CannonPages
begin

unbundle bit_operations_syntax

text \<open>
  The memoised Merkle tree above the pages: the invariant that ties every cached node to the
  contents of the memory, its preservation by every operation, and what it gives: the root the
  code reports is the root of the full tree over the 32-bit address space, and the proofs it
  emits verify against that root.
\<close>

section \<open>The reference tree\<close>

text \<open>The 32-byte leaf with generalised index \<open>i\<close>, and the root of a memory with contents \<open>f\<close>.\<close>

definition chunk :: "(u32 \<Rightarrow> byte) \<Rightarrow> nat \<Rightarrow> bytes" where
  "chunk f i = map (\<lambda>k. f (of_nat (32 * (i - 2 ^ 27) + k))) [0..<32]"

definition ref_root :: "(bytes \<Rightarrow> hash) \<Rightarrow> (u32 \<Rightarrow> byte) \<Rightarrow> hash" where
  "ref_root kk f = tree_hash kk (chunk f) 27 1"

definition mem_leaf :: "memory \<Rightarrow> nat \<Rightarrow> bytes" where
  "mem_leaf m i = page_leaf (page_at m (of_nat (i div 128 mod 2 ^ 20))) (128 + i mod 128)"

definition node_hash :: "(bytes \<Rightarrow> hash) \<Rightarrow> memory \<Rightarrow> nat \<Rightarrow> hash" where
  "node_hash kk m g = tree_hash kk (mem_leaf m) (28 - bits_len g) g"

lemma div_mod_128: "(128 * q + j) div 128 = q + j div 128 \<and> (128 * q + j) mod 128 = (j :: nat) mod 128"
  by simp

lemma mod_small_128: "r < 128 \<Longrightarrow> (q * 128 + r) div 128 = (q :: nat)" "r < 128 \<Longrightarrow> (q * 128 + r) mod 128 = (r :: nat)"
  by simp_all

lemma mem_leaf_chunk:
  assumes "2 ^ 27 \<le> i" "i < 2 ^ 28"
  shows "mem_leaf m i = chunk (mem_byte m) i"
proof -
  define j where "j = i - 2 ^ 27"
  have i: "i = 2 ^ 27 + j" "j < 2 ^ 27" using assms by (simp_all add: j_def)
  have "i div 128 = 1048576 + j div 128" "i mod 128 = j mod 128"
    using i(1) div_mod_128 [of 1048576 j] by simp_all
  then have d: "i div 128 mod 2 ^ 20 = j div 128" "i mod 128 = j mod 128"
    using i(2) by (simp_all add: less_mult_imp_div_less)
  have b: "mem_byte m (of_nat (32 * j + k)) = page_at m (of_nat (j div 128)) (of_nat (32 * (j mod 128) + k))"
    if "k < 32" for k
  proof -
    have e: "32 * j + k = 4096 * (j div 128) + (32 * (j mod 128) + k)"
      using div_mult_mod_eq [of j 128] by linarith
    have s: "32 * (j mod 128) + k < 4096" using that mod_less_divisor [of 128 j] by linarith
    have lt: "32 * j + k < 2 ^ 32" using i(2) that by simp
    then have u: "unat (of_nat (32 * j + k) :: u32) = 32 * j + k" by (simp add: unat_of_nat del: of_nat_add of_nat_mult)
    have n_mod: "(32 * j + k) mod 4096 = 32 * (j mod 128) + k" unfolding e using s by simp
    have "shr (of_nat (32 * j + k)) 12 = (of_nat (j div 128) :: u32)"
      using i(2) s by (simp add: word_unat_eq_iff unat_shr u del: of_nat_add of_nat_mult)
         (simp add: e unat_of_nat less_mult_imp_div_less)
    moreover have "(ucast (of_nat (32 * j + k) :: u32) :: 12 word) = of_nat (32 * (j mod 128) + k)"
      unfolding word_unat_eq_iff unat_ucast_12 u n_mod using s by (simp add: unat_of_nat del: of_nat_add of_nat_mult)
    ultimately show ?thesis by (simp only: mem_byte_def)
  qed
  show ?thesis
  proof (rule nth_equalityI)
    fix k assume "k < length (mem_leaf m i)"
    then have "k < 32" by (simp add: mem_leaf_def page_leaf_def)
    with b [of k] show "mem_leaf m i ! k = chunk (mem_byte m) i ! k"
      unfolding mem_leaf_def chunk_def d j_def [symmetric]
      by (simp add: page_leaf_def del: of_nat_add of_nat_mult)
  qed (simp add: mem_leaf_def page_leaf_def chunk_def)
qed

lemma node_hash_root: "node_hash kk m 1 = ref_root kk (mem_byte m)"
proof -
  have "bits_len 1 = 1" by (simp add: bits_len.simps)
  then have e: "28 - bits_len 1 = 27" by simp
  show ?thesis unfolding node_hash_def ref_root_def e
    by (rule tree_hash_cong) (simp add: mem_leaf_chunk)
qed

lemma node_hash_pair:
  assumes "0 < g" "bits_len g < 28"
  shows "node_hash kk m g = HashPair kk (node_hash kk m (2 * g)) (node_hash kk m (2 * g + 1))"
proof -
  have "28 - bits_len g = Suc (28 - bits_len (2 * g))" using assms by simp
  then show ?thesis using assms(1) by (simp add: node_hash_def)
qed

text \<open>Below the 21st level the tree is the tree of one page.\<close>

lemma node_hash_page:
  assumes "page < 2 ^ 20" "d \<le> 7" "o' < 2 ^ d"
  shows "node_hash kk m ((2 ^ 20 + page) * 2 ^ d + o') = page_hash kk (page_at m (of_nat page)) (2 ^ d + o')"
proof -
  let ?g = "(2 ^ 20 + page) * 2 ^ d + o'"
  have up: "Suc (2 ^ 20 + page) * 2 ^ d \<le> 2 ^ 21 * 2 ^ d"
    using assms(1) by (intro mult_le_mono1) simp
  have "2 ^ (20 + d) \<le> ?g" by (simp add: power_add add_mult_distrib)
  moreover have "?g < Suc (2 ^ 20 + page) * 2 ^ d"
    by (subst mult_Suc) (use assms(3) in linarith)
  from this up have "?g < 2 ^ 21 * 2 ^ d" by (rule less_le_trans)
  then have "?g < 2 ^ Suc (20 + d)" by (simp add: power_add)
  ultimately have "2 ^ (20 + d) \<le> ?g \<and> ?g < 2 ^ Suc (20 + d)" by blast
  then have l: "bits_len ?g = Suc (20 + d)" by (simp only: bits_len_iff)
  have l2: "bits_len (2 ^ d + o') = Suc d" using assms(3) by (simp add: bits_len_iff)
  have e: "28 - Suc (20 + d) = 7 - d" "8 - Suc d = 7 - d" by simp_all
  have p: "(2 :: nat) ^ d * 2 ^ (7 - d) = 128" using assms(2) by (simp flip: power_add)
  have lf: "mem_leaf m (?g * 2 ^ (7 - d) + k) = page_leaf (page_at m (of_nat page)) ((2 ^ d + o') * 2 ^ (7 - d) + k)"
    if "k < 2 ^ (7 - d)" for k
  proof -
    have s: "o' * 2 ^ (7 - d) + k < 128"
    proof -
      have "Suc o' * 2 ^ (7 - d) \<le> 2 ^ d * 2 ^ (7 - d)" using assms(3) by (intro mult_le_mono1) simp
      then show ?thesis using that p by simp
    qed
    have i: "?g * 2 ^ (7 - d) + k = (2 ^ 20 + page) * 128 + (o' * 2 ^ (7 - d) + k)"
      unfolding p [symmetric] by (simp add: algebra_simps)
    have q: "(?g * 2 ^ (7 - d) + k) div 128 = 2 ^ 20 + page"
      "(?g * 2 ^ (7 - d) + k) mod 128 = o' * 2 ^ (7 - d) + k"
      unfolding i using s mod_small_128 by blast+
    have "(2 ^ d + o') * 2 ^ (7 - d) + k = 128 + (o' * 2 ^ (7 - d) + k)"
      unfolding p [symmetric] by (simp add: algebra_simps)
    then show ?thesis using assms(1) by (simp only: mem_leaf_def q) (simp add: mod_if)
  qed
  show ?thesis unfolding node_hash_def page_hash_def l l2 e by (rule tree_hash_cong) (rule lf)
qed

section \<open>Coherence\<close>

text \<open>
  A node of the upper tree is absent only above no page, and when it holds a hash, that is the
  hash of its subtree and the roots of all pages below it are valid too. The early return of
  \<open>Invalidate\<close> rests on the last part.
\<close>

definition node_ok :: "(bytes \<Rightarrow> hash) \<Rightarrow> memory \<Rightarrow> nat \<Rightarrow> bool" where
  "node_ok kk m g \<longleftrightarrow>
     (mem_nodes m g = None \<longrightarrow> (\<forall>k. map_of (mem_pages m) k \<noteq> None \<longrightarrow> \<not> on_path g (page_gindex k))) \<and>
     (\<forall>h. mem_nodes m g = Some (Some h) \<longrightarrow> h = node_hash kk m g \<and>
        (\<forall>k r. map_of (mem_pages m) k = Some r \<longrightarrow> on_path g (page_gindex k) \<longrightarrow> pg_ok (mem_heap m ! r) 1))"

definition mem_coh :: "(bytes \<Rightarrow> hash) \<Rightarrow> memory \<Rightarrow> bool" where
  "mem_coh kk m \<longleftrightarrow> mem_wf m \<and>
     (\<forall>k r. map_of (mem_pages m) k = Some r \<longrightarrow> page_coh kk (mem_heap m ! r)) \<and>
     (\<forall>g. 0 < g \<longrightarrow> bits_len g \<le> 20 \<longrightarrow> node_ok kk m g)"

definition merk_ext :: "memory \<Rightarrow> memory \<Rightarrow> bool" where
  "merk_ext m m' \<longleftrightarrow> mem_pages m' = mem_pages m \<and> mem_lastPageKeys m' = mem_lastPageKeys m \<and>
     mem_lastPage m' = mem_lastPage m \<and> length (mem_heap m') = length (mem_heap m) \<and>
     (\<forall>r < length (mem_heap m). pg_data (mem_heap m' ! r) = pg_data (mem_heap m ! r) \<and>
        (pg_ok (mem_heap m ! r) 1 \<longrightarrow> pg_ok (mem_heap m' ! r) 1))"

lemma mem_coh_wf: "mem_coh kk m \<Longrightarrow> mem_wf m" by (simp add: mem_coh_def)

lemma merk_ext_refl [simp]: "merk_ext m m" by (simp add: merk_ext_def)

lemma merk_ext_trans: "merk_ext m m1 \<Longrightarrow> merk_ext m1 m2 \<Longrightarrow> merk_ext m m2"
  by (simp add: merk_ext_def)

lemma merk_ext_wf: "merk_ext m m' \<Longrightarrow> mem_wf m \<Longrightarrow> mem_wf m'"
  by (simp add: merk_ext_def mem_wf_def pages_ok_def cache_ok_def)

lemma merk_ext_page_at: "merk_ext m m' \<Longrightarrow> pages_ok m \<Longrightarrow> page_at m' = page_at m"
  by (rule ext) (auto simp: merk_ext_def page_at_def dest: pages_okD split: option.split)

lemma node_hash_cong: "page_at m' = page_at m \<Longrightarrow> node_hash kk m' g = node_hash kk m g"
  unfolding node_hash_def by (rule tree_hash_cong) (simp add: mem_leaf_def)

lemma merk_ext_mem_byte: "merk_ext m m' \<Longrightarrow> mem_wf m \<Longrightarrow> mem_byte m' = mem_byte m"
  by (rule ext) (simp add: mem_byte_def merk_ext_page_at mem_wf_def)

lemma node_ok_ext:
  assumes "merk_ext m m'" "mem_wf m" "node_ok kk m g" "mem_nodes m' g = mem_nodes m g"
  shows "node_ok kk m' g"
proof -
  have p: "pages_ok m" using assms(2) by (simp add: mem_wf_def)
  have "node_hash kk m' g = node_hash kk m g"
    by (rule node_hash_cong) (rule merk_ext_page_at [OF assms(1) p])
  moreover have "pg_ok (mem_heap m' ! r) 1"
    if "map_of (mem_pages m) k = Some r" "pg_ok (mem_heap m ! r) 1" for k r
    using assms(1) that pages_okD(2) [OF p that(1)] by (simp add: merk_ext_def)
  ultimately show ?thesis using assms by (auto simp: node_ok_def merk_ext_def)
qed

lemma bits_len_page: "k < 0x100000 \<Longrightarrow> bits_len (page_gindex k) = 21"
  using bits_len_iff [of "page_gindex k" 20] by (simp add: page_gindex_def word_less_nat_alt)

lemma on_path_split:
  assumes "on_path g q" "g \<noteq> q"
  shows "on_path (2 * g) q \<or> on_path (2 * g + 1) q"
proof -
  obtain i where i: "0 < g" "g = q div 2 ^ i" using assms(1) by (auto simp: on_path_def)
  then obtain j where j: "i = Suc j" using assms(2) by (cases i) auto
  have "g = q div 2 ^ j div 2" using i(2) j div_mult2_eq [of q "2 ^ j" 2] by (simp add: mult.commute)
  then have "q div 2 ^ j = 2 * g \<or> q div 2 ^ j = 2 * g + 1" by linarith
  then show ?thesis using i(1) unfolding on_path_def by (metis add_gr_0 mult_pos_pos zero_less_numeral)
qed

lemma bits_len_on_path: "on_path g q \<Longrightarrow> bits_len g \<le> bits_len q \<and> (bits_len g = bits_len q \<longrightarrow> g = q)"
proof (induction q rule: bits_len.induct)
  case (1 q)
  show ?case
  proof (cases "g = q")
    case False
    then have "0 < q" "on_path g (q div 2)" using 1(2) on_path_unfold [of g q] by auto
    then show ?thesis using 1(1) bits_len.simps [of q] by auto
  qed simp
qed

lemma page_leaf_zero: "page_leaf (\<lambda>_. 0) i = replicate 32 0"
  by (simp add: page_leaf_def map_replicate_const)

lemma page_hash_zero: "0 < j \<Longrightarrow> page_hash kk (\<lambda>_. 0) j = zeroHashes kk (8 - bits_len j)"
  unfolding page_hash_def by (rule tree_hash_zero) (rule page_leaf_zero)

lemma page_gindex_of_nat: "n < 2 ^ 20 \<Longrightarrow> page_gindex (of_nat n) = 2 ^ 20 + n"
  by (simp add: page_gindex_def unat_of_nat)

text \<open>The page of a leaf below a node of the upper tree is below that node.\<close>

lemma leaf_on_path:
  assumes "0 < g" "bits_len g \<le> 21" "o' < 2 ^ (28 - bits_len g)"
  defines "q \<equiv> (g * 2 ^ (28 - bits_len g) + o') div 128"
  shows "on_path g q" "page_gindex (of_nat (q mod 2 ^ 20)) = q"
proof -
  obtain b where b: "bits_len g = Suc b" using assms(1) by (metis bits_len_eq_0 not0_implies_Suc not_gr0)
  have g: "2 ^ b \<le> g" "g < 2 ^ Suc b" using b bits_len_iff [of g b] by simp_all
  have e: "28 - bits_len g = 7 + (20 - b)" using b assms(2) by simp
  have "g = (g * 2 ^ (28 - bits_len g) + o') div 2 ^ (28 - bits_len g)" using assms(3) by simp
  also have "\<dots> = q div 2 ^ (20 - b)"
    unfolding e q_def power_add by (simp add: div_mult2_eq)
  finally have gq: "g = q div 2 ^ (20 - b)" .
  then show "on_path g q" using assms(1) by (auto simp: on_path_def)
  have p: "(2 :: nat) ^ b * 2 ^ (20 - b) = 2 ^ 20" using b assms(2) by (simp flip: power_add)
  have "2 ^ b * 2 ^ (20 - b) \<le> g * 2 ^ (20 - b)" using g(1) by simp
  also have "\<dots> \<le> q" unfolding gq by (rule div_times_less_eq_dividend)
  finally have q1: "2 ^ 20 \<le> q" using p by simp
  have "q < Suc g * 2 ^ (20 - b)" unfolding gq by (simp add: dividend_less_div_times)
  also have "\<dots> \<le> 2 ^ Suc b * 2 ^ (20 - b)" using g(2) by (intro mult_le_mono1) simp
  finally have q2: "q < 2 ^ 21" using p by simp
  have qm: "q mod 2 ^ 20 = q - 2 ^ 20" using q1 q2 by (simp add: mod_if)
  show "page_gindex (of_nat (q mod 2 ^ 20)) = q"
    unfolding qm using q1 q2 page_gindex_of_nat [of "q - 2 ^ 20"] by (simp del: of_nat_diff)
qed

text \<open>An absent node is above no page, so its subtree is all zero.\<close>

lemma node_hash_absent:
  assumes "pages_ok m" "0 < g" "bits_len g \<le> 21"
    and none: "\<forall>k. map_of (mem_pages m) k \<noteq> None \<longrightarrow> \<not> on_path g (page_gindex k)"
  shows "node_hash kk m g = zeroHashes kk (28 - bits_len g)"
  unfolding node_hash_def
proof (rule tree_hash_zero)
  fix o' assume o': "o' < (2 :: nat) ^ (28 - bits_len g)"
  from leaf_on_path [OF assms(2,3) o'] none
  have "map_of (mem_pages m) (of_nat ((g * 2 ^ (28 - bits_len g) + o') div 128 mod 2 ^ 20)) = None"
    by metis
  then show "mem_leaf m (g * 2 ^ (28 - bits_len g) + o') = replicate 32 0"
    unfolding mem_leaf_def by (simp add: page_at_none page_leaf_zero)
qed

text \<open>A change to one page is seen only by the nodes above it.\<close>

lemma node_hash_other:
  assumes "page_at m' = (page_at m)(k := p)" "0 < g" "bits_len g \<le> 21" "\<not> on_path g (page_gindex k)"
  shows "node_hash kk m' g = node_hash kk m g"
  unfolding node_hash_def
proof (rule tree_hash_cong)
  fix o' assume o': "o' < (2 :: nat) ^ (28 - bits_len g)"
  from leaf_on_path [OF assms(2,3) o'] assms(4)
  have "of_nat ((g * 2 ^ (28 - bits_len g) + o') div 128 mod 2 ^ 20) \<noteq> k" by metis
  then show "mem_leaf m' (g * 2 ^ (28 - bits_len g) + o') = mem_leaf m (g * 2 ^ (28 - bits_len g) + o')"
    unfolding mem_leaf_def assms(1) by simp
qed

lemma page_gindex_decomp:
  assumes "20 < bits_len g" "bits_len g \<le> 28"
  shows "g = (2 ^ 20 + (g div 2 ^ (bits_len g - 21)) mod 2 ^ 20) * 2 ^ (bits_len g - 21) + g mod 2 ^ (bits_len g - 21)"
    and "bits_len (2 ^ (bits_len g - 21) + g mod 2 ^ (bits_len g - 21)) = bits_len g - 20"
proof -
  define d where "d = bits_len g - 21"
  have l: "bits_len g = Suc (20 + d)" using assms by (simp add: d_def)
  then have g: "2 ^ (20 + d) \<le> g" "g < 2 ^ Suc (20 + d)" using bits_len_iff by blast+
  have "2 ^ 20 \<le> g div 2 ^ d" "g div 2 ^ d < 2 ^ 21"
    using g by (simp_all add: power_add less_eq_div_iff_mult_less_eq div_less_iff_less_mult)
  then have "2 ^ 20 + g div 2 ^ d mod 2 ^ 20 = g div 2 ^ d" by (simp add: mod_if)
  then show "g = (2 ^ 20 + (g div 2 ^ (bits_len g - 21)) mod 2 ^ 20) * 2 ^ (bits_len g - 21) + g mod 2 ^ (bits_len g - 21)"
    unfolding d_def [symmetric] by (simp add: div_mult_mod_eq)
  show "bits_len (2 ^ (bits_len g - 21) + g mod 2 ^ (bits_len g - 21)) = bits_len g - 20"
    unfolding d_def [symmetric] l by (simp add: bits_len_iff)
qed

lemma nth_list_update_if: "i < length xs \<Longrightarrow> xs[j := x] ! i = (if i = j then x else xs ! i)"
  by auto

lemma mem_coh_put_page:
  assumes "mem_coh kk m" "map_of (mem_pages m) k = Some r" "page_coh kk cp"
    "pg_data cp = pg_data (mem_heap m ! r)" "pg_ok cp 1"
  shows "mem_coh kk (put_page m (Some r) cp)" "merk_ext m (put_page m (Some r) cp)"
proof -
  have wf: "mem_wf m" using assms(1) by (rule mem_coh_wf)
  show ext: "merk_ext m (put_page m (Some r) cp)"
    using assms(4,5) by (auto simp: merk_ext_def put_page_def nth_list_update_if)
  have r: "r < length (mem_heap m)" using wf assms(2) pages_okD by (auto simp: mem_wf_def)
  have "node_ok kk (put_page m (Some r) cp) g" if "0 < g" "bits_len g \<le> 20" for g
    using assms(1) that by (intro node_ok_ext [OF ext wf]) (simp_all add: mem_coh_def put_page_def)
  moreover have "page_coh kk (mem_heap (put_page m (Some r) cp) ! r')"
    if "map_of (mem_pages m) k' = Some r'" for k' r'
    using assms(1,3) that by (cases "r' = r") (auto simp: put_page_def mem_coh_def r)
  ultimately show "mem_coh kk (put_page m (Some r) cp)"
    using merk_ext_wf [OF ext wf] by (simp add: mem_coh_def put_page_def)
qed

lemma MerkleizeSubtree_page:
  assumes "mem_coh kk m" "20 < bits_len g" "bits_len g \<le> 28"
  shows "\<exists>m'. MerkleizeSubtree kk m g = Ok (m', node_hash kk m g) \<and> mem_coh kk m' \<and> merk_ext m m' \<and>
    (\<forall>k r. map_of (mem_pages m) k = Some r \<longrightarrow> on_path g (page_gindex k) \<longrightarrow> pg_ok (mem_heap m' ! r) 1)"
proof -
  define d where "d = bits_len g - 21"
  define page where "page = g div 2 ^ d mod 2 ^ 20"
  define o' where "o' = g mod 2 ^ d"
  have o: "o' < 2 ^ d" "page < 2 ^ 20" "d \<le> 7" using assms(3) by (simp_all add: o'_def page_def d_def)
  have g: "g = (2 ^ 20 + page) * 2 ^ d + o'" and lp: "bits_len (2 ^ d + o') = bits_len g - 20"
    using page_gindex_decomp [OF assms(2,3)] by (simp_all add: d_def [symmetric] page_def o'_def)
  have nh: "node_hash kk m g = page_hash kk (page_at m (of_nat page)) (2 ^ d + o')"
    using node_hash_page [OF o(2,3,1)] g by simp
  have j: "0 < 2 ^ d + o'" "2 ^ d + o' < 256"
  proof -
    have "(2 :: nat) ^ d \<le> 2 ^ 7" using o(3) by (intro power_increasing) simp_all
    with o(1) show "2 ^ d + o' < 256" by simp
  qed simp
  have run: "MerkleizeSubtree kk m g =
      (case map_of (mem_pages m) (of_nat page) of
         Some r \<Rightarrow> bind_res (deref m (Some r)) (\<lambda>cp.
           bind_res (page_MerkleizeSubtree kk cp (2 ^ d + o')) (\<lambda>(cp', h). Ok (put_page m (Some r) cp', h)))
       | None \<Rightarrow> Ok (m, zeroHashes kk (28 - bits_len g)))"
    using assms(2,3)
    by (simp add: MerkleizeSubtree.simps [of kk m g] Let_def page_def o'_def d_def diff_diff_left
        cong: option.case_cong)
  have key: "k = of_nat page" if "map_of (mem_pages m) k = Some r" "on_path g (page_gindex k)" for k r
  proof -
    have kb: "k < 0x100000" using assms(1) that(1) pages_okD(1) by (auto simp: mem_coh_def mem_wf_def)
    have "bits_len g = 21" "g = page_gindex k"
      using bits_len_on_path [OF that(2)] bits_len_page [OF kb] assms(2) by auto
    then have "page = unat k" using kb
      by (simp add: page_def d_def page_gindex_def word_less_nat_alt mod_if)
    then show ?thesis by simp
  qed
  show ?thesis
  proof (cases "map_of (mem_pages m) (of_nat page)")
    case None
    then have "node_hash kk m g = zeroHashes kk (28 - bits_len g)"
      using nh j(1) lp assms(2,3) by (simp add: page_at_none page_hash_zero)
    then show ?thesis using run None assms(1) key by auto
  next
    case (Some r)
    define cp where "cp = mem_heap m ! r"
    have r: "r < length (mem_heap m)" using assms(1) Some pages_okD by (auto simp: mem_coh_def mem_wf_def)
    have pc: "page_coh kk cp" using assms(1) Some by (simp add: mem_coh_def cp_def)
    define cp' where "cp' = fst (page_MerkleRoot kk cp)"
    have cp': "page_coh kk cp'" "pg_data cp' = pg_data cp" "pg_ok cp' 1"
      using page_MerkleRoot_coh [OF pc] by (simp_all add: cp'_def)
    have "MerkleizeSubtree kk m g = Ok (put_page m (Some r) cp', node_hash kk m g)"
      using run Some r page_MerkleizeSubtree_ok [OF pc j] nh by (simp add: cp_def cp'_def page_at_some)
    moreover have "pg_ok (mem_heap (put_page m (Some r) cp') ! r') 1"
      if "map_of (mem_pages m) k = Some r'" "on_path g (page_gindex k)" for k r'
      using key [OF that] that(1) Some cp'(3) r by (simp add: put_page_def)
    ultimately show ?thesis
      using mem_coh_put_page [OF assms(1) Some cp'(1)] cp'(2,3) by (auto simp: cp_def)
  qed
qed

lemma mem_coh_set_node:
  assumes "mem_coh kk m" "0 < g" "bits_len g \<le> 20"
    and ok: "\<forall>k r. map_of (mem_pages m) k = Some r \<longrightarrow> on_path g (page_gindex k) \<longrightarrow> pg_ok (mem_heap m ! r) 1"
  defines "m' \<equiv> m\<lparr>mem_nodes := (mem_nodes m)(g := Some (Some (node_hash kk m g)))\<rparr>"
  shows "mem_coh kk m'" "merk_ext m m'"
proof -
  show ext: "merk_ext m m'" by (simp add: merk_ext_def m'_def)
  have wf: "mem_wf m" using assms(1) by (rule mem_coh_wf)
  have "node_ok kk m' g'" if "0 < g'" "bits_len g' \<le> 20" for g'
  proof (cases "g' = g")
    case True
    then show ?thesis
      using ok node_hash_cong [OF merk_ext_page_at [OF ext], of kk g] wf
      by (simp add: node_ok_def m'_def mem_wf_def)
  next
    case False
    show ?thesis
      by (rule node_ok_ext [OF ext wf]) (use assms(1) that False in \<open>simp_all add: mem_coh_def m'_def\<close>)
  qed
  then show "mem_coh kk m'"
    using assms(1) merk_ext_wf [OF ext wf] by (simp add: mem_coh_def m'_def)
qed

lemma MerkleizeSubtree_ok:
  "mem_coh kk m \<Longrightarrow> 0 < g \<Longrightarrow> bits_len g \<le> 28 \<Longrightarrow>
   \<exists>m'. MerkleizeSubtree kk m g = Ok (m', node_hash kk m g) \<and> mem_coh kk m' \<and> merk_ext m m' \<and>
    (\<forall>k r. map_of (mem_pages m) k = Some r \<longrightarrow> on_path g (page_gindex k) \<longrightarrow> pg_ok (mem_heap m' ! r) 1)"
proof (induction "28 - bits_len g" arbitrary: m g rule: less_induct)
  case less
  note coh = less.prems(1)
  have wf: "mem_wf m" using coh by (rule mem_coh_wf)
  show ?case
  proof (cases "20 < bits_len g")
    case True
    then show ?thesis using MerkleizeSubtree_page [OF coh] less.prems(3) by blast
  next
    case low: False
    have nok: "node_ok kk m g" using coh less.prems(2) low by (simp add: mem_coh_def)
    show ?thesis
    proof (cases "mem_nodes m g")
      case None
      then have none: "\<forall>k. map_of (mem_pages m) k \<noteq> None \<longrightarrow> \<not> on_path g (page_gindex k)"
        using nok by (simp add: node_ok_def)
      then have "node_hash kk m g = zeroHashes kk (28 - bits_len g)"
        using wf less.prems(2) low by (intro node_hash_absent) (simp_all add: mem_wf_def)
      moreover have "MerkleizeSubtree kk m g = Ok (m, zeroHashes kk (28 - bits_len g))"
        using None low less.prems(3) by (simp add: MerkleizeSubtree.simps [of kk m g])
      ultimately show ?thesis using none coh by auto
    next
      case (Some n)
      show ?thesis
      proof (cases n)
        case (Some h)
        then have "MerkleizeSubtree kk m g = Ok (m, h)"
          using \<open>mem_nodes m g = Some n\<close> low less.prems(3) by (simp add: MerkleizeSubtree.simps [of kk m g])
        then show ?thesis using nok coh \<open>mem_nodes m g = Some n\<close> Some by (auto simp: node_ok_def)
      next
        case nil: None
        have ih: "28 - bits_len (2 * g) < 28 - bits_len g" "28 - bits_len (2 * g + 1) < 28 - bits_len g"
          using low less.prems(2) by simp_all
        have lens: "0 < 2 * g" "bits_len (2 * g) \<le> 28" "0 < 2 * g + 1" "bits_len (2 * g + 1) \<le> 28"
          using low less.prems(2) by simp_all
        from less.hyps [OF ih(1) coh lens(1,2)] obtain m1 where m1:
          "MerkleizeSubtree kk m (2 * g) = Ok (m1, node_hash kk m (2 * g))" "mem_coh kk m1" "merk_ext m m1"
          "\<forall>k r. map_of (mem_pages m) k = Some r \<longrightarrow> on_path (2 * g) (page_gindex k) \<longrightarrow> pg_ok (mem_heap m1 ! r) 1"
          by blast
        from less.hyps [OF ih(2) m1(2) lens(3,4)] obtain m2 where m2:
          "MerkleizeSubtree kk m1 (2 * g + 1) = Ok (m2, node_hash kk m1 (2 * g + 1))" "mem_coh kk m2"
          "merk_ext m1 m2"
          "\<forall>k r. map_of (mem_pages m1) k = Some r \<longrightarrow> on_path (2 * g + 1) (page_gindex k) \<longrightarrow>
             pg_ok (mem_heap m2 ! r) 1"
          by blast
        have ext: "merk_ext m m2" using m1(3) m2(3) by (rule merk_ext_trans)
        have nh: "node_hash kk m1 x = node_hash kk m x" "node_hash kk m2 x = node_hash kk m x" for x
          using merk_ext_page_at [OF m1(3)] merk_ext_page_at [OF ext] wf
          by (auto simp: mem_wf_def intro!: node_hash_cong)
        have pages: "mem_pages m1 = mem_pages m" "mem_pages m2 = mem_pages m"
          using m1(3) ext by (simp_all add: merk_ext_def)
        have ok: "pg_ok (mem_heap m2 ! r) 1"
          if k: "map_of (mem_pages m) k = Some r" "on_path g (page_gindex k)" for k r
        proof -
          have kb: "k < 0x100000" "r < length (mem_heap m)" using k(1) wf pages_okD by (auto simp: mem_wf_def)
          have "g \<noteq> page_gindex k" using low bits_len_page [OF kb(1)] by auto
          then consider "on_path (2 * g) (page_gindex k)" | "on_path (2 * g + 1) (page_gindex k)"
            using on_path_split [OF k(2)] by blast
          then show ?thesis
          proof cases
            case 1
            then have "pg_ok (mem_heap m1 ! r) 1" using m1(4) k(1) by blast
            then show ?thesis using m2(3) kb(2) m1(3) by (simp add: merk_ext_def)
          next
            case 2
            then show ?thesis using m2(4) k(1) pages by auto
          qed
        qed
        define m3 where "m3 = m2\<lparr>mem_nodes := (mem_nodes m2)(g := Some (Some (node_hash kk m2 g)))\<rparr>"
        have m3: "mem_coh kk m3" "merk_ext m2 m3"
          using mem_coh_set_node [OF m2(2) less.prems(2)] low ok pages unfolding m3_def by auto
        have "MerkleizeSubtree kk m g = Ok (m3, node_hash kk m g)"
          using \<open>mem_nodes m g = Some n\<close> nil low less.prems(2,3) m1(1) m2(1) node_hash_pair [of g kk m]
          by (simp add: MerkleizeSubtree.simps [of kk m g] nh m3_def Let_def)
        then show ?thesis
          using m3 merk_ext_trans [OF ext m3(2)] ok by (auto simp: m3_def)
      qed
    qed
  qed
qed

lemma MerkleRoot_ok:
  assumes "mem_coh kk m"
  shows "\<exists>m'. MerkleRoot kk m = Ok (m', ref_root kk (mem_byte m)) \<and> mem_coh kk m' \<and> merk_ext m m'"
proof -
  have l: "bits_len 1 \<le> 28" by (simp add: bits_len.simps)
  show ?thesis
    using MerkleizeSubtree_ok [OF assms zero_less_one l] unfolding MerkleRoot_def node_hash_root by blast
qed

section \<open>Every operation keeps the tree coherent\<close>

lemma mem_coh_same:
  assumes "mem_coh kk m" "same_pages m m'" "mem_wf m'"
  shows "mem_coh kk m'"
proof -
  have "node_ok kk m' g" if "node_ok kk m g" for g
    using that assms(2) node_hash_cong [OF page_at_same [OF assms(2)], of kk g]
    by (auto simp: node_ok_def same_pages_def)
  with assms show ?thesis by (simp add: mem_coh_def same_pages_def)
qed

lemma GetMemory_coh:
  assumes "mem_coh kk m" "addr AND 3 = 0"
  shows "\<exists>m1. GetMemory m addr = Ok (m1, mem_word m addr) \<and> mem_coh kk m1 \<and> mem_byte m1 = mem_byte m"
  using GetMemory_ok [OF mem_coh_wf [OF assms(1)] assms(2)] mem_coh_same [OF assms(1)] mem_byte_same by blast

lemma page_coh_written:
  assumes "page_coh kk cp" "addr AND 3 = 0"
  shows "page_coh kk (written cp addr v)"
proof -
  have "unat (addr AND 0xFFF) mod 4 = 0"
    using assms(2) mod_mod_cancel [of 4 4096 "unat addr"] by (simp add: aligned_iff low_bits)
  with page_write_coh [OF assms(1), of "unat (addr AND 0xFFF)" "be32 v"] show ?thesis
    by (simp add: written_def)
qed

lemma pg_data_written: "pg_data (written cp addr v) = page_write (pg_data cp) (unat (addr AND 0xFFF)) (be32 v)"
  by (simp add: written_def)

lemma SetMemory_coh_existing:
  assumes coh: "mem_coh kk m" and al: "addr AND 3 = 0" and pg: "map_of (mem_pages m) (shr addr 12) = Some r"
    and m': "mem_wf m'" "mem_pages m' = mem_pages m"
      "mem_heap m' = (mem_heap m)[r := written (mem_heap m ! r) addr v]"
      "mem_nodes m' = (if pg_ok (mem_heap m ! r) 1
        then set_path (Some None) (mem_nodes m) (page_gindex (shr addr 12)) else mem_nodes m)"
  shows "mem_coh kk m'"
proof -
  let ?k = "shr addr 12"
  have p: "pages_ok m" using coh by (simp add: mem_coh_def mem_wf_def)
  have r: "r < length (mem_heap m)" using pages_okD(2) [OF p pg] .
  have pa: "page_at m' = (page_at m)(?k := pg_data (written (mem_heap m ! r) addr v))"
    by (rule page_at_written [OF m'(2,3) p pg])
  have other: "r' \<noteq> r" if "map_of (mem_pages m) k' = Some r'" "k' \<noteq> ?k" for k' r'
    using pages_ok_inj [OF p pg] that by blast
  have "page_coh kk (mem_heap m' ! r')" if "map_of (mem_pages m) k' = Some r'" for k' r'
  proof (cases "r' = r")
    case True
    then show ?thesis using coh pg page_coh_written [OF _ al] m'(3) r by (simp add: mem_coh_def)
  next
    case False
    then show ?thesis using coh that m'(3) by (simp add: mem_coh_def)
  qed
  moreover have "node_ok kk m' g" if g: "0 < g" "bits_len g \<le> 20" for g
  proof (cases "on_path g (page_gindex ?k)")
    case on: True
    have nok: "node_ok kk m g" using coh g by (simp add: mem_coh_def)
    have "mem_nodes m' g = Some None"
    proof (cases "pg_ok (mem_heap m ! r) 1")
      case True
      then show ?thesis using m'(4) on by (simp add: set_path_apply)
    next
      case False
      then have "mem_nodes m g \<noteq> None" "\<nexists>h. mem_nodes m g = Some (Some h)"
        using nok on pg unfolding node_ok_def by (blast, metis option.distinct(1))
      then show ?thesis using m'(4) False by (cases "mem_nodes m g") auto
    qed
    then show ?thesis by (simp add: node_ok_def)
  next
    case off: False
    then have "mem_nodes m' g = mem_nodes m g" using m'(4) by (simp add: set_path_apply)
    moreover have "node_hash kk m' g = node_hash kk m g"
      using node_hash_other [OF pa g(1) _ off] g(2) by simp
    moreover have "node_ok kk m g" using coh g by (simp add: mem_coh_def)
    moreover have "mem_heap m' ! r' = mem_heap m ! r'"
      if "map_of (mem_pages m) k' = Some r'" "on_path g (page_gindex k')" for k' r'
    proof -
      have "k' \<noteq> ?k" using that(2) off by auto
      then have "r' \<noteq> r" using other [OF that(1)] by blast
      then show ?thesis using m'(3) by simp
    qed
    ultimately show ?thesis using m'(2) unfolding node_ok_def by metis
  qed
  ultimately show ?thesis using m'(1,2) by (simp add: mem_coh_def)
qed

lemma SetMemory_coh_new:
  assumes coh: "mem_coh kk m" and pg: "map_of (mem_pages m) k = None"
    and m': "mem_wf m'" "mem_pages m' = mem_pages m @ [(k, length (mem_heap m))]"
      "mem_heap m' = mem_heap m @ [cp]" "page_coh kk cp"
      "mem_nodes m' = set_path (Some None) (mem_nodes m) (page_gindex k)"
  shows "mem_coh kk m'"
proof -
  have p: "pages_ok m" using coh by (simp add: mem_coh_def mem_wf_def)
  have pa: "page_at m' = (page_at m)(k := pg_data cp)"
    by (rule page_at_appended [OF m'(2,3) p pg])
  have look: "map_of (mem_pages m') = (map_of (mem_pages m))(k \<mapsto> length (mem_heap m))"
    using pg by (auto simp: m'(2) map_add_def fun_eq_iff split: option.split)
  have old: "mem_heap m' ! r' = mem_heap m ! r'" if "map_of (mem_pages m) k' = Some r'" for k' r'
    using pages_okD(2) [OF p that] by (simp add: m'(3) nth_append)
  have "page_coh kk (mem_heap m' ! r')" if "map_of (mem_pages m') k' = Some r'" for k' r'
    using that coh m'(4) old [of k' r'] by (auto simp: look m'(3) mem_coh_def split: if_splits)
  moreover have "node_ok kk m' g" if g: "0 < g" "bits_len g \<le> 20" for g
  proof (cases "on_path g (page_gindex k)")
    case True
    then show ?thesis using m'(5) by (simp add: node_ok_def set_path_apply)
  next
    case off: False
    then have "mem_nodes m' g = mem_nodes m g" using m'(5) by (simp add: set_path_apply)
    moreover have "node_hash kk m' g = node_hash kk m g"
      using node_hash_other [OF pa g(1) _ off] g(2) by simp
    moreover have "node_ok kk m g" using coh g by (simp add: mem_coh_def)
    ultimately show ?thesis using off old unfolding node_ok_def look by (auto split: if_splits)
  qed
  ultimately show ?thesis using m'(1) by (simp add: mem_coh_def)
qed

lemma SetMemory_coh:
  assumes "mem_coh kk m" "addr AND 3 = 0"
  shows "\<exists>m'. SetMemory m addr v = Ok m' \<and> mem_coh kk m' \<and>
    (\<forall>a. mem_byte m' a = (if unat (a - addr) < 4 then be32 v ! unat (a - addr) else mem_byte m a))"
proof -
  have wf: "mem_wf m" using assms(1) by (rule mem_coh_wf)
  obtain m' where m': "SetMemory m addr v = Ok m'"
    "\<forall>a. mem_byte m' a = (if unat (a - addr) < 4 then be32 v ! unat (a - addr) else mem_byte m a)"
    using SetMemory_ok [OF wf assms(2)] by blast
  have "mem_coh kk m'"
  proof (cases "map_of (mem_pages m) (shr addr 12)")
    case None
    have "page_coh kk (new_page\<lparr>pg_data := page_write (\<lambda>_. 0) (unat (addr AND 0xFFF)) (be32 v)\<rparr>)"
      by (rule page_coh_cleared) (simp add: new_page_def)
    then show ?thesis
      using SetMemory_new [OF wf assms(2) None, of v] SetMemory_coh_new [OF assms(1) None] m'(1) by auto
  next
    case (Some r)
    then show ?thesis
      using SetMemory_existing [OF wf assms(2) Some, of v] SetMemory_coh_existing [OF assms Some] m'(1)
      by (metis res.inject(1))
  qed
  with m' show ?thesis by blast
qed

end
