(* ===== verification/CannonProof.thy ===== *)
theory CannonProof
  imports CannonRoot
begin

unbundle bit_operations_syntax

text \<open>
  The Merkle proofs that a step carries to the chain, and the guarantees of the memory as a
  whole: for any program of reads, writes, root computations and proofs, the roots are the
  reference roots, and every proof verifies.
\<close>

section \<open>Verification of a branch\<close>

text \<open>The check of the on-chain verifier: from the leaf with generalised index \<open>g\<close> up, hashing
  with one sibling per level, on the side that the index says.\<close>

definition hash_up :: "(bytes \<Rightarrow> hash) \<Rightarrow> nat \<Rightarrow> hash \<Rightarrow> hash \<Rightarrow> hash" where
  "hash_up kk g h s = (if odd g then HashPair kk s h else HashPair kk h s)"

fun verify_path :: "(bytes \<Rightarrow> hash) \<Rightarrow> nat \<Rightarrow> hash \<Rightarrow> hash list \<Rightarrow> hash" where
  "verify_path kk g h [] = h"
| "verify_path kk g h (s # ss) = verify_path kk (g div 2) (hash_up kk g h s) ss"

lemma verify_path_snoc:
  "verify_path kk g h (ss @ [s]) = hash_up kk (g div 2 ^ length ss) (verify_path kk g h ss) s"
  by (induction ss arbitrary: g h) (simp_all add: div_mult2_eq)

text \<open>The index of the ancestor at depth \<open>d\<close> of the leaf that holds \<open>addr\<close>.\<close>

definition anc :: "u32 \<Rightarrow> nat \<Rightarrow> nat" where
  "anc addr d = 2 ^ d + unat addr div 2 ^ (32 - d)"

lemma div_pow_Suc2: "(x :: nat) div 2 ^ Suc e = x div 2 ^ e div 2"
  by (simp only: power_Suc2 div_mult2_eq)

lemma anc_Suc:
  assumes "d < 27"
  shows "anc addr (Suc d) = 2 * anc addr d + (if bit addr (31 - d) then 1 else 0)"
proof -
  have "32 - d = Suc (31 - d)" using assms by simp
  then have e: "unat addr div 2 ^ (32 - d) = unat addr div 2 ^ (31 - d) div 2"
    by (simp only: div_pow_Suc2)
  have "bit addr (31 - d) = bit (unat addr) (31 - d)" by (simp add: bit_unsigned_iff)
  also have "\<dots> = odd (unat addr div 2 ^ (31 - d))" by (rule bit_iff_odd)
  finally have o: "bit addr (31 - d) = odd (unat addr div 2 ^ (31 - d))" .
  have "x = 2 * (x div 2) + (if odd x then 1 else 0)" for x :: nat by presburger
  from this [of "unat addr div 2 ^ (31 - d)"] show ?thesis
    unfolding anc_def o e by simp
qed

lemma anc_bound: "d \<le> 27 \<Longrightarrow> bits_len (anc addr d) = Suc d"
proof -
  assume d: "d \<le> 27"
  have "unat addr < 2 ^ d * 2 ^ (32 - d)"
    using d unat_bounds(2) [of addr] by (simp flip: power_add)
  then have "unat addr div 2 ^ (32 - d) < 2 ^ d" by (simp add: div_less_iff_less_mult)
  then show ?thesis by (simp add: bits_len_iff anc_def)
qed

lemma anc_pos [simp]: "0 < anc addr d" by (simp add: anc_def)

lemma anc_27_div: "d \<le> 27 \<Longrightarrow> anc addr 27 div 2 ^ (27 - d) = anc addr d"
proof (induction "27 - d" arbitrary: d)
  case (Suc n)
  then have d: "d < 27" "27 - d = Suc (27 - Suc d)" by simp_all
  have "anc addr 27 div 2 ^ (27 - d) = anc addr 27 div 2 ^ (27 - Suc d) div 2"
    unfolding d(2) by (rule div_pow_Suc2)
  also have "\<dots> = anc addr (Suc d) div 2" using Suc(1) [of "Suc d"] Suc(2) d(1) by simp
  also have "\<dots> = anc addr d" using anc_Suc [OF d(1)] by simp
  finally show ?case .
qed simp

lemma traverseBranch_ok:
  "mem_coh kk m \<Longrightarrow> d \<le> 27 \<Longrightarrow>
   \<exists>m' sibs. traverseBranch kk m (anc addr d) addr d = Ok (m', node_hash kk m (anc addr 27) # sibs) \<and>
     length sibs = 27 - d \<and> (\<forall>s \<in> set sibs. \<exists>g. 0 < g \<and> bits_len g \<le> 28 \<and> s = node_hash kk m g) \<and>
     verify_path kk (anc addr 27) (node_hash kk m (anc addr 27)) sibs = node_hash kk m (anc addr d) \<and>
     mem_coh kk m' \<and> merk_ext m m'"
proof (induction "27 - d" arbitrary: d)
  case 0
  then have d: "d = 27" by simp
  have "bits_len (anc addr 27) \<le> 28" using anc_bound [of 27] by simp
  from MerkleizeSubtree_ok [OF 0(2) anc_pos this] show ?case
    by (auto simp: d traverseBranch.simps [of kk m _ addr 27])
next
  case (Suc n)
  then have d: "d < 27" by simp
  let ?b = "bit addr (31 - d)"
  let ?sib = "if ?b then 2 * anc addr d else 2 * anc addr d + 1"
  have self: "(if ?b then 2 * anc addr d + 1 else 2 * anc addr d) = anc addr (Suc d)"
    using anc_Suc [OF d, of addr] by simp
  have nd: "n = 27 - Suc d" "Suc d \<le> 27" using Suc(2) d by simp_all
  from Suc(1) [OF nd(1) Suc(3) nd(2)] obtain m1 sibs where m1:
    "traverseBranch kk m (anc addr (Suc d)) addr (Suc d) = Ok (m1, node_hash kk m (anc addr 27) # sibs)"
    "length sibs = 27 - Suc d" "\<forall>s \<in> set sibs. \<exists>g. 0 < g \<and> bits_len g \<le> 28 \<and> s = node_hash kk m g"
    "verify_path kk (anc addr 27) (node_hash kk m (anc addr 27)) sibs = node_hash kk m (anc addr (Suc d))"
    "mem_coh kk m1" "merk_ext m m1"
    by blast
  have sl: "0 < ?sib" "bits_len ?sib = Suc (Suc d)"
    using anc_bound [of d addr] d by (auto simp: bits_len_eq_Suc)
  then have "bits_len ?sib \<le> 28" using d by simp
  from MerkleizeSubtree_ok [OF m1(5) sl(1) this] obtain m2 where m2:
    "MerkleizeSubtree kk m1 ?sib = Ok (m2, node_hash kk m1 ?sib)" "mem_coh kk m2" "merk_ext m1 m2"
    by blast
  have wf: "pages_ok m" using Suc(3) by (simp add: mem_coh_def mem_wf_def)
  have nh: "node_hash kk m1 ?sib = node_hash kk m ?sib"
    by (rule node_hash_cong) (rule merk_ext_page_at [OF m1(6) wf])
  have run: "traverseBranch kk m (anc addr d) addr d =
      Ok (m2, (node_hash kk m (anc addr 27) # sibs) @ [node_hash kk m ?sib])"
    using d m1(1) m2(1) self nh
    by (cases ?b)
      (simp_all add: traverseBranch.simps [of kk m "anc addr d" addr d] and_exp_eq_0_iff_not_bit Let_def)
  have "anc addr 27 div 2 ^ length sibs = anc addr (Suc d)"
    using anc_27_div [of "Suc d"] d m1(2) by simp
  then have "verify_path kk (anc addr 27) (node_hash kk m (anc addr 27)) (sibs @ [node_hash kk m ?sib]) =
      hash_up kk (anc addr (Suc d)) (node_hash kk m (anc addr (Suc d))) (node_hash kk m ?sib)"
    by (simp only: verify_path_snoc m1(4))
  also have "\<dots> = node_hash kk m (anc addr d)"
    using node_hash_pair [of "anc addr d" kk m] anc_bound [of d addr] d anc_Suc [OF d, of addr]
    by (simp add: hash_up_def)
  finally have vp: "verify_path kk (anc addr 27) (node_hash kk m (anc addr 27)) (sibs @ [node_hash kk m ?sib]) =
      node_hash kk m (anc addr d)" .
  have "\<forall>s \<in> set (sibs @ [node_hash kk m ?sib]). \<exists>g. 0 < g \<and> bits_len g \<le> 28 \<and> s = node_hash kk m g"
    using m1(3) sl \<open>bits_len ?sib \<le> 28\<close> by auto
  then show ?case
    using run vp m1(2) m2(2) merk_ext_trans [OF m1(6) m2(3)] d
    by (intro exI [of _ m2] exI [of _ "sibs @ [node_hash kk m ?sib]"]) simp
qed

section \<open>The memory as a whole\<close>

datatype mem_op = OpGet u32 | OpSet u32 u32 | OpRoot | OpProof u32
datatype mem_out = OutWord u32 | OutRoot hash

fun op_aligned :: "mem_op \<Rightarrow> bool" where
  "op_aligned (OpGet a) = (a AND 3 = 0)"
| "op_aligned (OpSet a v) = (a AND 3 = 0)"
| "op_aligned _ = True"

fun mem_run :: "(bytes \<Rightarrow> hash) \<Rightarrow> memory \<Rightarrow> mem_op list \<Rightarrow> (memory \<times> mem_out list) res" where
  "mem_run kk m [] = Ok (m, [])"
| "mem_run kk m (OpGet a # ops) = bind_res (GetMemory m a) (\<lambda>(m1, v).
     bind_res (mem_run kk m1 ops) (\<lambda>(m2, out). Ok (m2, OutWord v # out)))"
| "mem_run kk m (OpSet a v # ops) = bind_res (SetMemory m a v) (\<lambda>m1. mem_run kk m1 ops)"
| "mem_run kk m (OpRoot # ops) = bind_res (MerkleRoot kk m) (\<lambda>(m1, h).
     bind_res (mem_run kk m1 ops) (\<lambda>(m2, out). Ok (m2, OutRoot h # out)))"
| "mem_run kk m (OpProof a # ops) = bind_res (MerkleProof kk m a) (\<lambda>(m1, _). mem_run kk m1 ops)"

text \<open>The same program on plain contents \<open>f\<close>, the roots computed from scratch.\<close>

definition store_word :: "(u32 \<Rightarrow> byte) \<Rightarrow> u32 \<Rightarrow> u32 \<Rightarrow> u32 \<Rightarrow> byte" where
  "store_word f addr v = (\<lambda>a. if unat (a - addr) < 4 then be32 v ! unat (a - addr) else f a)"

fun ref_run :: "(bytes \<Rightarrow> hash) \<Rightarrow> (u32 \<Rightarrow> byte) \<Rightarrow> mem_op list \<Rightarrow> (u32 \<Rightarrow> byte) \<times> mem_out list" where
  "ref_run kk f [] = (f, [])"
| "ref_run kk f (OpGet a # ops) =
     (let (f', out) = ref_run kk f ops in (f', OutWord (un32 [f a, f (a + 1), f (a + 2), f (a + 3)]) # out))"
| "ref_run kk f (OpSet a v # ops) = ref_run kk (store_word f a v) ops"
| "ref_run kk f (OpRoot # ops) = (let (f', out) = ref_run kk f ops in (f', OutRoot (ref_root kk f) # out))"
| "ref_run kk f (OpProof a # ops) = ref_run kk f ops"

lemma length_node_hash:
  assumes "\<And>b. length (kk b) = 32"
  shows "length (node_hash kk m g) = 32"
proof -
  have "length (tree_hash kk (mem_leaf m) d g) = 32" for d
    by (cases d) (simp_all add: mem_leaf_def page_leaf_def HashPair_def assms)
  then show ?thesis by (simp add: node_hash_def)
qed

lemma MerkleProof_ok:
  assumes "mem_coh kk m"
  shows "\<exists>m' sibs. MerkleProof kk m addr = Ok (m', chunk (mem_byte m) (anc addr 27) @ concat sibs) \<and>
    length sibs = 27 \<and> (\<forall>s \<in> set sibs. \<exists>g. 0 < g \<and> bits_len g \<le> 28 \<and> s = node_hash kk m g) \<and>
    verify_path kk (anc addr 27) (chunk (mem_byte m) (anc addr 27)) sibs = ref_root kk (mem_byte m) \<and>
    mem_coh kk m' \<and> merk_ext m m'"
proof -
  have a0: "anc addr 0 = 1" using unat_bounds(2) [of addr] by (simp add: anc_def)
  have l27: "bits_len (anc addr 27) = 28" using anc_bound [of 27 addr] by simp
  then have "2 ^ 27 \<le> anc addr 27" "anc addr 27 < 2 ^ 28"
    using bits_len_iff [of "anc addr 27" 27] by simp_all
  then have leaf: "node_hash kk m (anc addr 27) = chunk (mem_byte m) (anc addr 27)"
    by (simp add: node_hash_def l27 mem_leaf_chunk)
  show ?thesis
    using traverseBranch_ok [OF assms, of 0 addr] unfolding a0 node_hash_root leaf
    by (auto simp: MerkleProof_def)
qed

lemma mem_run_ok:
  "mem_coh kk m \<Longrightarrow> \<forall>op \<in> set ops. op_aligned op \<Longrightarrow>
   \<exists>m'. mem_run kk m ops = Ok (m', snd (ref_run kk (mem_byte m) ops)) \<and> mem_coh kk m' \<and>
     mem_byte m' = fst (ref_run kk (mem_byte m) ops)"
proof (induction ops arbitrary: m)
  case (Cons op ops)
  have ops: "\<forall>op \<in> set ops. op_aligned op" using Cons.prems(2) by simp
  have wf: "mem_wf m" using Cons.prems(1) by (rule mem_coh_wf)
  show ?case
  proof (cases op)
    case (OpGet a)
    then obtain m1 where m1: "GetMemory m a = Ok (m1, mem_word m a)" "mem_coh kk m1" "mem_byte m1 = mem_byte m"
      using GetMemory_coh [OF Cons.prems(1), of a] Cons.prems(2) by auto
    from Cons.IH [OF m1(2) ops] m1 OpGet show ?thesis
      by (auto simp: case_prod_beta Let_def mem_word_def)
  next
    case (OpSet a v)
    then obtain m1 where m1: "SetMemory m a v = Ok m1" "mem_coh kk m1"
      "\<forall>b. mem_byte m1 b = (if unat (b - a) < 4 then be32 v ! unat (b - a) else mem_byte m b)"
      using SetMemory_coh [OF Cons.prems(1), of a v] Cons.prems(2) by auto
    have "mem_byte m1 = store_word (mem_byte m) a v"
      unfolding store_word_def by (rule ext) (rule m1(3) [rule_format])
    with Cons.IH [OF m1(2) ops] m1(1) OpSet show ?thesis by auto
  next
    case OpRoot
    then obtain m1 where m1: "MerkleRoot kk m = Ok (m1, ref_root kk (mem_byte m))" "mem_coh kk m1" "merk_ext m m1"
      using MerkleRoot_ok [OF Cons.prems(1)] by blast
    from Cons.IH [OF m1(2) ops] m1 merk_ext_mem_byte [OF m1(3) wf] OpRoot show ?thesis
      by (auto simp: case_prod_beta Let_def)
  next
    case (OpProof a)
    then obtain m1 out where m1: "MerkleProof kk m a = Ok (m1, out)" "mem_coh kk m1" "merk_ext m m1"
      using MerkleProof_ok [OF Cons.prems(1), of a] by blast
    from Cons.IH [OF m1(2) ops] m1 merk_ext_mem_byte [OF m1(3) wf] OpProof show ?thesis
      by auto
  qed
qed simp

lemma NewMemory_coh [simp]: "mem_coh kk NewMemory"
  by (simp add: mem_coh_def) (simp add: NewMemory_def node_ok_def)

text \<open>C25: The incremental Merkle tree is exact: for any program of aligned reads, aligned writes,
  root computations and proof extractions that starts from the empty memory, nothing panics and
  every root the code reports is the root, computed from scratch, of the tree over the whole
  address space with the bytes written so far, for any hash function.\<close>

theorem merkle_root_exact:
  assumes "\<forall>op \<in> set ops. op_aligned op"
  shows "\<exists>m. mem_run kk NewMemory ops = Ok (m, snd (ref_run kk (\<lambda>_. 0) ops)) \<and>
    mem_byte m = fst (ref_run kk (\<lambda>_. 0) ops)"
proof -
  have "mem_byte NewMemory = (\<lambda>_. 0)" by (rule ext) simp
  then show ?thesis using mem_run_ok [OF NewMemory_coh assms, of kk] by auto
qed

theorem merkle_root_exact_witness:
  "\<exists>m. mem_run (take 32) NewMemory [OpSet 0x40 5, OpRoot, OpSet 0x1000 6, OpProof 0x40, OpRoot, OpGet 0x40] =
     Ok (m, [OutRoot (ref_root (take 32) (store_word (\<lambda>_. 0) 0x40 5)),
             OutRoot (ref_root (take 32) (store_word (store_word (\<lambda>_. 0) 0x40 5) 0x1000 6)),
             OutWord 5])"
  using merkle_root_exact [of "[OpSet 0x40 5, OpRoot, OpSet 0x1000 6, OpProof 0x40, OpRoot, OpGet 0x40]" "take 32"]
  by (auto simp: store_word_def be32_def un32_def be_decode_def)

text \<open>C19: Every Merkle proof verifies: for a memory that any program of operations has produced and
  a 32-byte hash function, the proof for an address is the 32-byte chunk of memory that holds the
  address followed by 27 sibling hashes of 32 bytes, and hashing the chunk up with the siblings
  gives the root that \<open>MerkleRoot\<close> reports for that memory.\<close>

theorem merkle_proof_verifies:
  assumes "\<forall>op \<in> set ops. op_aligned op" and "\<And>b. length (kk b) = 32"
    and "mem_run kk NewMemory ops = Ok (m, out)"
  shows "\<exists>m1 m2 sibs root. MerkleProof kk m addr = Ok (m1, chunk (mem_byte m) (2 ^ 27 + unat addr div 32) @ concat sibs) \<and>
    length sibs = 27 \<and> list_all (\<lambda>s. length s = 32) sibs \<and> MerkleRoot kk m = Ok (m2, root) \<and>
    verify_path kk (2 ^ 27 + unat addr div 32) (chunk (mem_byte m) (2 ^ 27 + unat addr div 32)) sibs = root"
proof -
  have coh: "mem_coh kk m" using mem_run_ok [OF NewMemory_coh assms(1), of kk] assms(3) by auto
  have a: "anc addr 27 = 2 ^ 27 + unat addr div 32" by (simp add: anc_def)
  from MerkleProof_ok [OF coh, of addr, unfolded a] obtain m1 sibs where p:
    "MerkleProof kk m addr = Ok (m1, chunk (mem_byte m) (2 ^ 27 + unat addr div 32) @ concat sibs)"
    "length sibs = 27" "\<forall>s \<in> set sibs. \<exists>g. 0 < g \<and> bits_len g \<le> 28 \<and> s = node_hash kk m g"
    "verify_path kk (2 ^ 27 + unat addr div 32) (chunk (mem_byte m) (2 ^ 27 + unat addr div 32)) sibs =
       ref_root kk (mem_byte m)"
    by blast
  have "list_all (\<lambda>s. length s = 32) sibs"
    using p(3) length_node_hash [of kk m, OF assms(2)] by (auto simp: list_all_iff)
  moreover obtain m2 where "MerkleRoot kk m = Ok (m2, ref_root kk (mem_byte m))"
    using MerkleRoot_ok [OF coh] by blast
  ultimately show ?thesis using p(1,2,4) by blast
qed

theorem merkle_proof_verifies_witness:
  "\<exists>m m1 m2 sibs root. mem_run (\<lambda>_. replicate 32 7) NewMemory [OpSet 0x40 5] = Ok (m, []) \<and>
    MerkleProof (\<lambda>_. replicate 32 7) m 0x44 = Ok (m1, chunk (mem_byte m) (2 ^ 27 + 2) @ concat sibs) \<and>
    length sibs = 27 \<and> MerkleRoot (\<lambda>_. replicate 32 7) m = Ok (m2, root) \<and>
    verify_path (\<lambda>_. replicate 32 7) (2 ^ 27 + 2) (chunk (mem_byte m) (2 ^ 27 + 2)) sibs = root"
proof -
  have al: "\<forall>op \<in> set [OpSet 0x40 5]. op_aligned op" by simp
  have out: "snd (ref_run kk f [OpSet 0x40 5]) = []" for kk f by simp
  obtain m where run: "mem_run (\<lambda>_. replicate 32 7) NewMemory [OpSet 0x40 5] = Ok (m, [])"
    using mem_run_ok [OF NewMemory_coh al, of "\<lambda>_. replicate 32 7", unfolded out] by blast
  have len: "length ((\<lambda>_. replicate 32 7) b) = 32" for b :: bytes by simp
  have u: "unat (0x44 :: u32) div 32 = 2" by simp
  from run merkle_proof_verifies [of "[OpSet 0x40 5]" "\<lambda>_. replicate 32 7" m "[]" "0x44", OF al len run, unfolded u] show ?thesis by blast
qed

end
