(* ===== verification/CannonRange.thy ===== *)
theory CannonRange
  imports CannonProof
begin

unbundle bit_operations_syntax

text \<open>
  The bulk operations on a memory: loading a range from a reader, reading a range back, and the
  round trip of the binary serialisation. Loading a range does not invalidate the upper tree;
  the last section shows the stale root this gives.
\<close>

section \<open>Loading a range\<close>

definition write_bytes :: "(u32 \<Rightarrow> byte) \<Rightarrow> u32 \<Rightarrow> bytes \<Rightarrow> u32 \<Rightarrow> byte" where
  "write_bytes f addr bs = (\<lambda>a. if unat (a - addr) < length bs then bs ! unat (a - addr) else f a)"

text \<open>What a reader delivers to a range load at \<open>addr\<close>, each call limited by the end of the
  page it writes to, and the error it ends with, the end of the file not being one.\<close>

fun delivered :: "u32 \<Rightarrow> reader \<Rightarrow> bytes" where
  "delivered addr [] = []"
| "delivered addr ((d, e) # r) =
     (let data = take (4096 - unat (addr AND 0xFFF)) d
      in data @ (case e of None \<Rightarrow> delivered (addr + of_nat (length data)) r | Some _ \<Rightarrow> []))"

fun reader_err :: "reader \<Rightarrow> io_err option" where
  "reader_err [] = None"
| "reader_err ((d, e) # r) = (case e of None \<Rightarrow> reader_err r | Some EOF \<Rightarrow> None | Some x \<Rightarrow> Some x)"

lemma AllocPage_fresh:
  assumes "mem_wf m" "map_of (mem_pages m) k = None" "k < 0x100000"
  shows "\<exists>m1. AllocPage m k = (m1, Some (length (mem_heap m))) \<and> mem_wf m1 \<and>
    mem_pages m1 = mem_pages m @ [(k, length (mem_heap m))] \<and> mem_heap m1 = mem_heap m @ [new_page] \<and>
    mem_nodes m1 = set_path (Some None) (mem_nodes m) (page_gindex k) \<and> page_at m1 = page_at m"
proof -
  let ?ps = "mem_pages m @ [(k, length (mem_heap m))]"
  define m1 where "m1 = fst (AllocPage m k)"
  have m1: "AllocPage m k = (m1, Some (length (mem_heap m)))"
    "mem_pages m1 = ?ps" "mem_heap m1 = mem_heap m @ [new_page]"
    "mem_nodes m1 = set_path (Some None) (mem_nodes m) (page_gindex k)"
    "mem_lastPageKeys m1 = mem_lastPageKeys m" "mem_lastPage m1 = mem_lastPage m"
    using assms(3) map_put_new [OF assms(2)]
    by (simp_all add: m1_def AllocPage_def gindex_simps Let_def)
  have ce: "cache_entry_ok ?ps key p" if "cache_entry_ok (mem_pages m) key p" for key p
    using that assms(2) by (auto simp: cache_entry_ok_def map_add_def split: option.split)
  have "length (mem_heap m) \<notin> snd ` set (mem_pages m)" "k \<notin> fst ` set (mem_pages m)"
    using assms(1,2) by (auto simp: mem_wf_def pages_ok_def map_of_eq_None_iff)
  then have "mem_wf m1"
    using assms(1,3) ce by (auto simp: mem_wf_def cache_ok_def pages_ok_def m1)
  moreover have "page_at m1 = page_at m"
    using page_at_appended [OF m1(2,3) _ assms(2)] assms(1,2)
    by (auto simp: mem_wf_def fun_eq_iff page_at_none new_page_def)
  ultimately show ?thesis using m1 by auto
qed

text \<open>The page of an address, allocated if need be.\<close>

lemma lookup_or_alloc:
  assumes "mem_wf m" "k < 0x100000"
  shows "\<exists>m1 p ok m2 r. pageLookup m k = (m1, p, ok) \<and>
    (if \<not> ok then AllocPage m1 k else (m1, p)) = (m2, Some r) \<and> mem_wf m2 \<and>
    map_of (mem_pages m2) k = Some r \<and> page_at m2 = page_at m \<and>
    (map_of (mem_pages m) k \<noteq> None \<longrightarrow> same_pages m m2)"
proof -
  have ne: "k \<noteq> 0xFFFFFFFF" using assms(2) by auto
  obtain m1 where m1: "pageLookup m k = (m1, map_of (mem_pages m) k, map_of (mem_pages m) k \<noteq> None)"
    "same_pages m m1" "mem_wf m1"
    using pageLookup_ok [OF assms(1) ne] by blast
  have ps: "mem_pages m1 = mem_pages m" using m1(2) by (simp add: same_pages_def)
  show ?thesis
  proof (cases "map_of (mem_pages m) k")
    case None
    then obtain m2 where "AllocPage m1 k = (m2, Some (length (mem_heap m1)))" "mem_wf m2"
      "mem_pages m2 = mem_pages m1 @ [(k, length (mem_heap m1))]" "page_at m2 = page_at m1"
      using AllocPage_fresh [OF m1(3) _ assms(2)] ps by auto
    then show ?thesis using m1 None ps page_at_same [OF m1(2)] by (auto simp: map_add_def)
  next
    case (Some r)
    then show ?thesis using m1 ps page_at_same [OF m1(2)] by auto
  qed
qed

lemma put_page_data:
  assumes "mem_wf m" "map_of (mem_pages m) k = Some r"
  shows "mem_wf (put_page m (Some r) cp)" "page_at (put_page m (Some r) cp) = (page_at m)(k := pg_data cp)"
proof -
  show "mem_wf (put_page m (Some r) cp)"
    using assms(1) by (simp add: mem_wf_def pages_ok_def cache_ok_def put_page_def)
  show "page_at (put_page m (Some r) cp) = (page_at m)(k := pg_data cp)"
    by (rule page_at_written) (use assms in \<open>simp_all add: put_page_def mem_wf_def\<close>)
qed

lemma write_bytes_append:
  assumes "length xs + length ys \<le> 2 ^ 32"
  shows "write_bytes (write_bytes f addr xs) (addr + of_nat (length xs)) ys = write_bytes f addr (xs @ ys)"
proof (rule ext)
  fix a
  let ?n = "length xs"
  define i where "i = unat (a - addr)"
  have a: "a = addr + of_nat i" by (simp add: i_def)
  have i: "i < 2 ^ 32" unfolding i_def by (rule unat_bounds)
  have d: "a - (addr + of_nat ?n) = of_nat i - of_nat ?n" by (simp add: a)
  show "write_bytes (write_bytes f addr xs) (addr + of_nat ?n) ys a = write_bytes f addr (xs @ ys) a"
  proof (cases "?n \<le> i")
    case True
    then have "unat (a - (addr + of_nat ?n)) = i - ?n"
      unfolding d using i by (simp add: unat_of_nat flip: of_nat_diff)
    with True show ?thesis by (auto simp: write_bytes_def nth_append simp flip: i_def)
  next
    case False
    have "\<not> unat (a - (addr + of_nat ?n)) < length ys"
    proof
      assume l: "unat (a - (addr + of_nat ?n)) < length ys"
      define j where "j = unat (a - (addr + of_nat ?n))"
      have "(of_nat i :: u32) = of_nat (j + ?n)"
        unfolding j_def d of_nat_add by (simp add: algebra_simps)
      then have "take_bit 32 i = take_bit 32 (j + ?n)"
        unfolding word_of_nat_eq_iff by simp
      moreover have "j + ?n < 2 ^ 32" using l assms by (simp add: j_def)
      ultimately have "i = j + ?n" using i by (simp only: take_bit_nat_eq_self)
      with False show False by simp
    qed
    with False show ?thesis by (auto simp: write_bytes_def nth_append simp flip: i_def)
  qed
qed

lemma unat_page: "unat a = 4096 * unat (shr a 12) + unat (a AND 0xFFF)"
  by (simp add: unat_shr low_bits)

lemma page_decomp_unique:
  assumes "unat a = 4096 * q + r" "r < 4096"
  shows "unat (shr a 12) = q" "unat (a AND 0xFFF) = r"
  using assms by (simp_all add: unat_shr low_bits)

lemma in_page_range:
  assumes "n + unat (addr AND 0xFFF) \<le> 4096"
  shows "unat (a - addr) < n \<longleftrightarrow> shr a 12 = shr addr 12 \<and> unat (addr AND 0xFFF) \<le> unat (a AND 0xFFF) \<and>
     unat (a AND 0xFFF) < unat (addr AND 0xFFF) + n"
    and "unat (a - addr) < n \<Longrightarrow> unat (a - addr) = unat (a AND 0xFFF) - unat (addr AND 0xFFF)"
proof -
  have fwd: "shr a 12 = shr addr 12 \<and> unat (a AND 0xFFF) = unat (addr AND 0xFFF) + unat (a - addr)"
    if l: "unat (a - addr) < n"
  proof -
    define i where "i = unat (a - addr)"
    have a: "a = addr + of_nat i" by (simp add: i_def)
    have b: "unat (addr AND 0xFFF) + i < 4096" using l assms by (simp add: i_def)
    have ub: "unat (shr addr 12) \<le> 1048575" using page_key_bound [of addr] by (simp add: word_less_nat_alt)
    have "unat addr + i = 4096 * unat (shr addr 12) + (unat (addr AND 0xFFF) + i)"
      using unat_page [of addr] by simp
    moreover from this have "unat addr + i < 4294967296" using ub b by linarith
    then have "unat a = unat addr + i"
      unfolding a using b by (simp add: unat_word_ariths unat_of_nat)
    ultimately have e: "unat a = 4096 * unat (shr addr 12) + (unat (addr AND 0xFFF) + i)" by simp
    from page_decomp_unique [OF e b] show ?thesis
      by (simp add: i_def word_unat_eq_iff [of "shr a 12"])
  qed
  have bwd: "unat (a - addr) < n"
    if h: "shr a 12 = shr addr 12" "unat (addr AND 0xFFF) \<le> unat (a AND 0xFFF)"
      "unat (a AND 0xFFF) < unat (addr AND 0xFFF) + n"
  proof -
    have "unat addr \<le> unat a" using unat_page [of a] unat_page [of addr] h(1,2) by simp
    then have "unat (a - addr) = unat a - unat addr" by (simp add: unat_sub word_le_nat_alt)
    then show ?thesis using unat_page [of a] unat_page [of addr] h by simp
  qed
  show "unat (a - addr) < n \<longleftrightarrow> shr a 12 = shr addr 12 \<and> unat (addr AND 0xFFF) \<le> unat (a AND 0xFFF) \<and>
     unat (a AND 0xFFF) < unat (addr AND 0xFFF) + n"
    using fwd bwd by auto
  show "unat (a - addr) = unat (a AND 0xFFF) - unat (addr AND 0xFFF)" if "unat (a - addr) < n"
    using fwd [OF that] by simp
qed

lemma mem_byte_page_write:
  assumes "page_at m' = (page_at m)(shr addr 12 :=
      page_write (page_at m (shr addr 12)) (unat (addr AND 0xFFF)) bs)"
    and "length bs + unat (addr AND 0xFFF) \<le> 4096"
  shows "mem_byte m' = write_bytes (mem_byte m) addr bs"
proof (rule ext)
  fix a :: u32
  have u: "unat (ucast a :: 12 word) = unat (a AND 0xFFF)" by (simp add: unat_ucast_12 low_bits)
  show "mem_byte m' a = write_bytes (mem_byte m) addr bs a"
    using in_page_range [OF assms(2), of a] assms(1)
    by (auto simp: mem_byte_def write_bytes_def page_write_def u)
qed

definition range_step :: "memory \<Rightarrow> u32 \<Rightarrow> bytes \<Rightarrow> memory res" where
  "range_step m addr data =
     (case pageLookup m (shr addr 12) of (m1, p, ok) \<Rightarrow>
      case (if \<not> ok then AllocPage m1 (shr addr 12) else (m1, p)) of (m2, p) \<Rightarrow>
      bind_res (deref m2 p) (\<lambda>cp. Ok (put_page m2 p ((page_InvalidateFull cp)\<lparr>pg_data :=
        page_write (pg_data cp) (unat (addr AND 0xFFF)) (take (4096 - unat (addr AND 0xFFF)) data)\<rparr>))))"

lemma SetMemoryRange_Nil:
  "SetMemoryRange m addr [] = bind_res (range_step m addr []) (\<lambda>m3. Ok (m3, None))"
proof -
  obtain m1 p ok where l: "pageLookup m (shr addr 12) = (m1, p, ok)" by (metis prod_cases3)
  obtain m2 q where a: "(if \<not> ok then AllocPage m1 (shr addr 12) else (m1, p)) = (m2, q)" by fastforce
  show ?thesis
    unfolding SetMemoryRange.simps [of m addr "[]"] range_step_def Let_def l prod.case a
    by (cases "deref m2 q") (simp_all add: page_InvalidateFull_def)
qed

lemma SetMemoryRange_Cons:
  "SetMemoryRange m addr ((d, e) # r) = bind_res (range_step m addr d) (\<lambda>m3.
     case e of None \<Rightarrow> SetMemoryRange m3 (addr + of_nat (length (take (4096 - unat (addr AND 0xFFF)) d))) r
     | Some EOF \<Rightarrow> Ok (m3, None) | Some (IOErr x) \<Rightarrow> Ok (m3, Some (IOErr x)))"
proof -
  obtain m1 p ok where l: "pageLookup m (shr addr 12) = (m1, p, ok)" by (metis prod_cases3)
  obtain m2 q where a: "(if \<not> ok then AllocPage m1 (shr addr 12) else (m1, p)) = (m2, q)" by fastforce
  show ?thesis
    unfolding SetMemoryRange.simps [of m addr "(d, e) # r"] range_step_def Let_def l prod.case a
    by (cases "deref m2 q") (simp_all add: page_InvalidateFull_def del: length_take split: option.split io_err.split)
qed

lemma low_lt: "unat (addr AND 0xFFF) < 4096" for addr :: u32
  by (simp add: low_bits)

lemma range_step_ok:
  assumes "mem_wf m"
  shows "\<exists>m3. range_step m addr data = Ok m3 \<and> mem_wf m3 \<and>
    mem_byte m3 = write_bytes (mem_byte m) addr (take (4096 - unat (addr AND 0xFFF)) data) \<and>
    (map_of (mem_pages m) (shr addr 12) \<noteq> None \<longrightarrow>
       mem_nodes m3 = mem_nodes m \<and> mem_pages m3 = mem_pages m)"
proof -
  obtain m1 p ok m2 r where m2: "pageLookup m (shr addr 12) = (m1, p, ok)"
    "(if \<not> ok then AllocPage m1 (shr addr 12) else (m1, p)) = (m2, Some r)" "mem_wf m2"
    "map_of (mem_pages m2) (shr addr 12) = Some r" "page_at m2 = page_at m"
    "map_of (mem_pages m) (shr addr 12) \<noteq> None \<longrightarrow> same_pages m m2"
    using lookup_or_alloc [OF assms page_key_bound] by blast
  have r: "r < length (mem_heap m2)" using m2(3,4) pages_okD by (auto simp: mem_wf_def)
  let ?data = "take (4096 - unat (addr AND 0xFFF)) data"
  define cp where "cp = (page_InvalidateFull (mem_heap m2 ! r))\<lparr>pg_data :=
     page_write (pg_data (mem_heap m2 ! r)) (unat (addr AND 0xFFF)) ?data\<rparr>"
  have run: "range_step m addr data = Ok (put_page m2 (Some r) cp)"
    unfolding range_step_def m2(1) prod.case m2(2) using r by (simp add: cp_def)
  have len: "length ?data + unat (addr AND 0xFFF) \<le> 4096" using low_lt [of addr] by simp
  have "page_at (put_page m2 (Some r) cp) = (page_at m)(shr addr 12 :=
      page_write (page_at m (shr addr 12)) (unat (addr AND 0xFFF)) ?data)"
    using put_page_data(2) [OF m2(3,4), of cp] m2(5) page_at_some [OF m2(4)] by (simp add: cp_def)
  from mem_byte_page_write [OF this len]
  show ?thesis
    using run put_page_data(1) [OF m2(3,4), of cp] m2(6) by (auto simp: put_page_def same_pages_def)
qed

lemma SetMemoryRange_ok:
  "mem_wf m \<Longrightarrow> length (delivered addr r) \<le> 2 ^ 32 \<Longrightarrow>
   \<exists>m'. SetMemoryRange m addr r = Ok (m', reader_err r) \<and> mem_wf m' \<and>
     mem_byte m' = write_bytes (mem_byte m) addr (delivered addr r)"
proof (induction r arbitrary: m addr)
  case Nil
  from range_step_ok [OF Nil(1), of addr "[]"] show ?case by (auto simp: SetMemoryRange_Nil)
next
  case (Cons c r)
  obtain d e where c: "c = (d, e)" by (cases c)
  let ?d = "take (4096 - unat (addr AND 0xFFF)) d"
  obtain m3 where m3: "range_step m addr d = Ok m3" "mem_wf m3"
    "mem_byte m3 = write_bytes (mem_byte m) addr ?d"
    using range_step_ok [OF Cons.prems(1), of addr d] by blast
  show ?case
  proof (cases e)
    case None
    let ?a = "addr + of_nat (length ?d)"
    have len: "length ?d + length (delivered ?a r) \<le> 2 ^ 32"
      using Cons.prems(2) by (simp add: c None Let_def del: length_take)
    then obtain m' where "SetMemoryRange m3 ?a r = Ok (m', reader_err r)" "mem_wf m'"
      "mem_byte m' = write_bytes (mem_byte m3) ?a (delivered ?a r)"
      using Cons.IH [OF m3(2), of ?a] by auto
    then show ?thesis using m3(1,3) write_bytes_append [OF len, of "mem_byte m" addr]
      by (simp add: SetMemoryRange_Cons c None Let_def del: length_take)
  next
    case (Some x)
    then show ?thesis using m3 by (cases x) (auto simp: SetMemoryRange_Cons c Let_def)
  qed
qed

text \<open>Loading a range from a reader stores exactly the delivered bytes, in order from the start
  address and wrapping around the address space, allocates the pages it needs, leaves every other
  byte alone and reports the reader's error unless it is the end of the file.\<close>

theorem SetMemoryRange_writes:
  assumes "mem_wf m" "length (delivered addr r) \<le> 2 ^ 32"
  shows "\<exists>m'. SetMemoryRange m addr r = Ok (m', reader_err r) \<and> mem_wf m' \<and>
    mem_byte m' = write_bytes (mem_byte m) addr (delivered addr r)"
  using assms by (rule SetMemoryRange_ok)

theorem SetMemoryRange_writes_witness:
  "\<exists>m'. SetMemoryRange NewMemory 0xFFFFFFFF [([1, 2], None), ([3], Some (IOErr ''x''))] =
      Ok (m', Some (IOErr ''x'')) \<and> mem_byte m' 0xFFFFFFFF = 1 \<and> mem_byte m' 0 = 3"
  using SetMemoryRange_writes [of NewMemory "0xFFFFFFFF" "[([1, 2], None), ([3], Some (IOErr ''x''))]"]
  by (auto simp: write_bytes_def)

section \<open>Reading a range\<close>

lemma word_page: "a = 0x1000 * shr a 12 + (a AND 0xFFF)"
proof -
  have "of_nat (unat a) = (of_nat (4096 * unat (shr a 12) + unat (a AND 0xFFF)) :: u32)"
    using unat_page [of a] by simp
  then show ?thesis by simp
qed

lemma offset_diff: "x = p + l \<Longrightarrow> x + c = p + e \<Longrightarrow> e - l = (c :: u32)"
  by (auto simp: add.assoc)

lemma read_span:
  fixes a c :: u32
  assumes "c \<noteq> 0"
  defines "e \<equiv> (if shr a 12 = shr (a + c) 12 then (a + c) AND 0xFFF else 0x1000)"
  shows "e - (a AND 0xFFF) \<noteq> 0" "e - (a AND 0xFFF) \<le> c"
proof -
  have "e - (a AND 0xFFF) \<noteq> 0 \<and> e - (a AND 0xFFF) \<le> c"
  proof (cases "shr a 12 = shr (a + c) 12")
    case True
    have "e - (a AND 0xFFF) = c"
      by (rule offset_diff [OF word_page [of a]])
        (use word_page [of "a + c"] True in \<open>simp only: e_def if_True simp_thms\<close>)
    then show ?thesis using assms(1) by simp
  next
    case False
    have lo: "unat (a AND 0xFFF) < 4096" by (rule low_lt)
    have e: "unat (e - (a AND 0xFFF)) = 4096 - unat (a AND 0xFFF)"
      using False lo by (simp add: e_def unat_sub word_le_nat_alt)
    have "4096 - unat (a AND 0xFFF) \<le> unat c"
    proof (rule ccontr)
      assume "\<not> 4096 - unat (a AND 0xFFF) \<le> unat c"
      then have "unat c + unat (a AND 0xFFF) < 4096" by simp
      then have "shr (a + c) 12 = shr a 12"
        using in_page_range(1) [of "Suc (unat c)" a "a + c"] by simp
      with False show False by simp
    qed
    then show ?thesis using e lo by (auto simp: word_le_nat_alt)
  qed
  then show "e - (a AND 0xFFF) \<noteq> 0" "e - (a AND 0xFFF) \<le> c" by blast+
qed

lemma memReader_Read_progress:
  assumes "memReader_Read m a c (Suc k) = Ok (m', a', c', data, None)"
  shows "0 < length data" "length data \<le> unat c" "c' = c - of_nat (length data)" "a' = a + of_nat (length data)"
    "unat c' < unat c"
proof -
  define e where "e = (if shr a 12 = shr (a + c) 12 then (a + c) AND 0xFFF else 0x1000)"
  obtain m1 p ok where l: "pageLookup m (shr a 12) = (m1, p, ok)" by (metis prod_cases3)
  have c: "c \<noteq> 0" using assms by (auto simp: memReader_Read_def)
  have span: "e - (a AND 0xFFF) \<noteq> 0" "e - (a AND 0xFFF) \<le> c"
    using read_span [OF c, of a] by (simp_all add: e_def)
  obtain src where src: "(if ok then bind_res (deref m1 p) (\<lambda>cp. page_slice (pg_data cp) (unat (a AND 0xFFF)) (unat e))
      else Ok (replicate (unat (e - (a AND 0xFFF))) 0)) = Ok src"
    and out: "data = take (Suc k) src" "c' = c - of_nat (length data)" "a' = a + of_nat (length data)"
    using assms c l unfolding memReader_Read_def Let_def e_def [symmetric]
    by (auto simp: res_simps simp del: length_take)
  have "length src = unat (e - (a AND 0xFFF))"
  proof (cases ok)
    case True
    then have "length src = unat e - unat (a AND 0xFFF)" "unat (a AND 0xFFF) \<le> unat e"
      using src by (auto simp: res_simps page_slice_def)
    then show ?thesis by (simp add: unat_sub word_le_nat_alt)
  qed (use src in auto)
  then have s: "0 < length src" "length src \<le> unat c"
    using span by (simp_all add: word_le_nat_alt unat_gt_0)
  then show d: "0 < length data" "length data \<le> unat c" using out(1) by auto
  show "c' = c - of_nat (length data)" "a' = a + of_nat (length data)" by (fact out)+
  have "unat (of_nat (length data) :: u32) = length data"
    using d(2) unat_bounds(2) [of c] by (simp add: unat_of_nat)
  then show "unat c' < unat c" unfolding out(2) using d
    by (cases data) (simp_all add: unat_sub word_le_nat_alt)
qed

text \<open>Reading until the end of the file through a buffer of 512 bytes, as \<open>io.ReadAll\<close> and
  \<open>io.Copy\<close> do with the reader of \<open>ReadMemoryRange\<close>.\<close>

function read_all :: "memory \<Rightarrow> u32 \<Rightarrow> u32 \<Rightarrow> (memory \<times> bytes) res" where
  "read_all m addr count =
     (case memReader_Read m addr count 512 of
        Ok (m1, addr', count', data, None) \<Rightarrow>
          bind_res (read_all m1 addr' count') (\<lambda>(m2, rest). Ok (m2, data @ rest))
      | Ok (m1, addr', count', data, Some e) \<Rightarrow> Ok (m1, data)
      | Err e \<Rightarrow> Err e
      | Panic e \<Rightarrow> Panic e)"
  by pat_completeness auto
termination
proof (relation "measure (\<lambda>(m, addr, count). unat count)")
  fix m addr count x m1 y addr' z count' w data v
  assume "memReader_Read m addr count 512 = Ok x" "(m1, y) = x" "(addr', z) = y" "(count', w) = z"
    "(data, v) = w" "v = None"
  then have "memReader_Read m addr count (Suc 511) = Ok (m1, addr', count', data, None)" by auto
  from memReader_Read_progress(5) [OF this]
  show "((m1, addr', count'), m, addr, count) \<in> measure (\<lambda>(m, addr, count). unat count)" by simp
qed simp

declare read_all.simps [simp del]

definition mem_bytes :: "(u32 \<Rightarrow> byte) \<Rightarrow> u32 \<Rightarrow> nat \<Rightarrow> bytes" where
  "mem_bytes f addr n = map (\<lambda>i. f (addr + of_nat i)) [0..<n]"

lemma length_mem_bytes [simp]: "length (mem_bytes f addr n) = n"
  by (simp add: mem_bytes_def)

lemma take_mem_bytes: "take k (mem_bytes f addr n) = mem_bytes f addr (min k n)"
  by (simp add: mem_bytes_def take_map min_def)

lemma mem_bytes_add: "mem_bytes f addr (n + k) = mem_bytes f addr n @ mem_bytes f (addr + of_nat n) k"
proof -
  have "[0..<n + k] = [0..<n] @ map (\<lambda>i. i + n) [0..<k]"
    using upt_add_eq_append [of 0 n k] by (simp add: map_add_upt add.commute)
  then show ?thesis by (simp add: mem_bytes_def add_ac)
qed

text \<open>Within one page the bytes of the memory are a slice of the page.\<close>

lemma mem_bytes_page:
  assumes "unat (addr AND 0xFFF) + n \<le> 4096"
  shows "mem_bytes (mem_byte m) addr n =
    map (\<lambda>i. page_at m (shr addr 12) (of_nat i)) [unat (addr AND 0xFFF)..<unat (addr AND 0xFFF) + n]"
proof -
  have "mem_byte m (addr + of_nat i) = page_at m (shr addr 12) (of_nat (unat (addr AND 0xFFF) + i))"
    if "i < n" for i
  proof -
    have u: "unat (addr + of_nat i - addr) = i"
      using that assms by (simp add: unat_of_nat)
    have "unat (addr + of_nat i - addr) < n" using u that by simp
    from in_page_range [of n addr "addr + of_nat i"] this u assms
    have "shr (addr + of_nat i) 12 = shr addr 12"
      "unat ((addr + of_nat i) AND 0xFFF) = unat (addr AND 0xFFF) + i"
      by (auto simp: add.commute)
    then show ?thesis by (simp only: mem_byte_def ucast_12)
  qed
  then show ?thesis
    by (intro nth_equalityI) (simp_all add: mem_bytes_def)
qed

lemma memReader_Read_ok:
  assumes "mem_wf m" "c \<noteq> 0" "unat a + unat c < 2 ^ 32"
  shows "\<exists>m1 n. memReader_Read m a c (Suc k) = Ok (m1, a + of_nat n, c - of_nat n, mem_bytes (mem_byte m) a n, None) \<and>
    same_pages m m1 \<and> mem_wf m1"
proof -
  define e where "e = (if shr a 12 = shr (a + c) 12 then (a + c) AND 0xFFF else 0x1000)"
  have ac: "unat (a + c) = unat a + unat c" using assms(3) by (simp add: unat_word_ariths)
  have le: "unat (a AND 0xFFF) \<le> unat e" and e4: "unat e \<le> 4096"
  proof -
    show "unat (a AND 0xFFF) \<le> unat e"
    proof (cases "shr a 12 = shr (a + c) 12")
      case True
      then show ?thesis using ac unat_page [of a] unat_page [of "a + c"] by (simp add: e_def)
    next
      case False
      then show ?thesis using low_lt [of a] by (simp add: e_def)
    qed
    show "unat e \<le> 4096" using low_lt [of "a + c"] by (simp add: e_def)
  qed
  obtain m1 where m1: "pageLookup m (shr a 12) =
      (m1, map_of (mem_pages m) (shr a 12), map_of (mem_pages m) (shr a 12) \<noteq> None)"
    "same_pages m m1" "mem_wf m1"
    using pageLookup_ok [OF assms(1) page_key_ne] by blast
  let ?n = "unat e - unat (a AND 0xFFF)"
  have n: "unat (e - (a AND 0xFFF)) = ?n" using le by (simp add: unat_sub word_le_nat_alt)
  have bytes: "mem_bytes (mem_byte m) a ?n =
      map (\<lambda>i. page_at m (shr a 12) (of_nat i)) [unat (a AND 0xFFF)..<unat e]"
    using mem_bytes_page [of a ?n m] le e4 by simp
  define src where "src = mem_bytes (mem_byte m) a ?n"
  have src: "(if map_of (mem_pages m) (shr a 12) \<noteq> None
      then bind_res (deref m1 (map_of (mem_pages m) (shr a 12)))
        (\<lambda>cp. page_slice (pg_data cp) (unat (a AND 0xFFF)) (unat e))
      else Ok (replicate (unat (e - (a AND 0xFFF))) 0)) = Ok src"
  proof (cases "map_of (mem_pages m) (shr a 12)")
    case None
    then have "src = replicate ?n 0"
      unfolding src_def bytes by (simp add: page_at_none map_replicate_const)
    then show ?thesis using None n by simp
  next
    case (Some r)
    have h: "mem_heap m1 = mem_heap m" using m1(2) by (simp add: same_pages_def)
    have "r < length (mem_heap m1)" using Some assms(1) pages_okD by (auto simp: mem_wf_def h)
    then show ?thesis using Some h le e4 unfolding src_def bytes
      by (simp add: page_slice_def page_at_some)
  qed
  let ?d = "take (Suc k) src"
  have "memReader_Read m a c (Suc k) = Ok (m1, a + of_nat (length ?d), c - of_nat (length ?d), ?d, None)"
    using assms(2) unfolding memReader_Read_def Let_def e_def [symmetric] m1(1) prod.case src
    by (simp del: length_take)
  moreover have "?d = mem_bytes (mem_byte m) a (length ?d)"
    by (simp add: src_def take_mem_bytes min.commute)
  ultimately show ?thesis using m1(2,3) by metis
qed

lemma read_all_0: "read_all m a 0 = Ok (m, [])"
  by (subst read_all.simps) (simp add: memReader_Read_def)

lemma read_all_ok:
  "mem_wf m \<Longrightarrow> unat a + unat c < 2 ^ 32 \<Longrightarrow>
   \<exists>m1. read_all m a c = Ok (m1, mem_bytes (mem_byte m) a (unat c)) \<and> same_pages m m1 \<and> mem_wf m1"
proof (induction "unat c" arbitrary: m a c rule: less_induct)
  case less
  show ?case
  proof (cases "c = 0")
    case True
    then show ?thesis using less.prems
      by (intro exI [of _ m]) (simp add: read_all_0 mem_bytes_def)
  next
    case False
    from memReader_Read_ok [OF less.prems(1) False less.prems(2), of 511] obtain m1 n where r:
      "memReader_Read m a c 512 = Ok (m1, a + of_nat n, c - of_nat n, mem_bytes (mem_byte m) a n, None)"
      and m1: "same_pages m m1" "mem_wf m1"
      by auto
    have p: "memReader_Read m a c (Suc 511) = Ok (m1, a + of_nat n, c - of_nat n, mem_bytes (mem_byte m) a n, None)"
      using r by simp
    have n: "n \<le> unat c" "unat (c - of_nat n) < unat c"
      using memReader_Read_progress(2,5) [OF p] by simp_all
    have un: "unat (of_nat n :: u32) = n"
      using n(1) unat_bounds(2) [of c] by (simp add: unat_of_nat)
    have uc: "unat (c - of_nat n) = unat c - n"
      using n(1) un by (simp add: unat_sub word_le_nat_alt)
    have ua: "unat (a + of_nat n) = unat a + n"
      using un n(1) less.prems(2) by (simp add: unat_word_ariths)
    from less.hyps [OF n(2) m1(2), of "a + of_nat n"] ua uc n(1) less.prems(2)
    obtain m2 where m2: "read_all m1 (a + of_nat n) (c - of_nat n) =
        Ok (m2, mem_bytes (mem_byte m1) (a + of_nat n) (unat (c - of_nat n)))" "same_pages m1 m2" "mem_wf m2"
      by auto
    have "mem_bytes (mem_byte m) a (unat c) =
        mem_bytes (mem_byte m) a n @ mem_bytes (mem_byte m) (a + of_nat n) (unat c - n)"
      using mem_bytes_add [of "mem_byte m" a n "unat c - n"] n(1) by simp
    then show ?thesis using r m2 m1(1) mem_byte_same [OF m1(1)] uc
      by (simp add: read_all.simps [of m a c] same_pages_def)
  qed
qed

text \<open>A range that wraps around the address space and ends in the page it starts in, before its
  start, makes the slice expression of the reader panic when that page exists.\<close>

lemma read_all_wrap_panics:
  assumes "mem_wf m" "map_of (mem_pages m) (shr a 12) \<noteq> None" "c \<noteq> 0"
    and "shr (a + c) 12 = shr a 12" "unat ((a + c) AND 0xFFF) < unat (a AND 0xFFF)"
  shows "read_all m a c = Panic ''slice bounds out of range''"
proof -
  obtain r where r: "map_of (mem_pages m) (shr a 12) = Some r" using assms(2) by blast
  obtain m1 where m1: "pageLookup m (shr a 12) = (m1, Some r, True)" "same_pages m m1"
    using pageLookup_ok [OF assms(1) page_key_ne [of a]] r by auto
  have "r < length (mem_heap m1)" using r m1(2) assms(1) pages_okD by (auto simp: mem_wf_def same_pages_def)
  then have "memReader_Read m a c 512 = Panic ''slice bounds out of range''"
    using assms(3-5) m1(1) by (simp add: memReader_Read_def Let_def page_slice_def not_le)
  then show ?thesis by (simp add: read_all.simps [of m a c])
qed

section \<open>Stale roots\<close>

lemma MerkleizeSubtree_caches:
  assumes "MerkleizeSubtree kk m g = Ok (m', h)" "bits_len g \<le> 20" "mem_nodes m g \<noteq> None"
  shows "mem_nodes m' g = Some (Some h)"
  using assms by (subst (asm) MerkleizeSubtree.simps)
    (auto simp: Let_def res_simps split: option.splits if_splits)

lemma MerkleizeSubtree_cached:
  "mem_nodes m g = Some (Some h) \<Longrightarrow> bits_len g \<le> 20 \<Longrightarrow> MerkleizeSubtree kk m g = Ok (m, h)"
  by (simp add: MerkleizeSubtree.simps [of kk m g])

text \<open>Loading a range over a page that exists leaves the cached upper tree alone: after a write
  and a root computation, a load that changes the memory is followed by the old root. The
  invalidation in \<open>SetMemoryRange\<close> is incomplete; it is sound only while no root has been
  computed, as when a program is loaded.\<close>

theorem SetMemoryRange_stale_root:
  "\<exists>m1 m2 m3 h. SetMemory NewMemory 0 v = Ok m1 \<and> MerkleRoot kk m1 = Ok (m2, h) \<and>
     h = ref_root kk (mem_byte m2) \<and> SetMemoryRange m2 0 [([b], None)] = Ok (m3, None) \<and>
     mem_byte m3 = (mem_byte m2)(0 := b) \<and> MerkleRoot kk m3 = Ok (m3, h)"
proof -
  have b1: "bits_len 1 \<le> 20" by (simp add: bits_len.simps)
  obtain m1 where m1: "SetMemory NewMemory 0 v = Ok m1" "mem_coh kk m1"
    using SetMemory_coh [OF NewMemory_coh, of 0 v kk] by auto
  have "map_of (mem_pages NewMemory) (shr 0 12) = None" by (simp add: NewMemory_def)
  from SetMemory_new [OF NewMemory_wf _ this, of v] m1(1)
  have pg: "mem_pages m1 = [(0, 0)]" and "mem_nodes m1 = set_path (Some None) (\<lambda>_. None) (page_gindex 0)"
    by (auto simp: NewMemory_def shr_def)
  moreover have "on_path 1 (page_gindex 0)"
    unfolding on_path_def page_gindex_def by (intro conjI exI [of _ 20]) simp_all
  ultimately have n1: "mem_nodes m1 1 \<noteq> None" by (simp add: set_path_apply)
  obtain m2 where m2: "MerkleRoot kk m1 = Ok (m2, ref_root kk (mem_byte m1))" "mem_coh kk m2" "merk_ext m1 m2"
    using MerkleRoot_ok [OF m1(2)] by blast
  have n2: "mem_nodes m2 1 = Some (Some (ref_root kk (mem_byte m1)))"
    using MerkleizeSubtree_caches [OF _ b1 n1] m2(1) by (simp add: MerkleRoot_def)
  have wf2: "mem_wf m2" and mb: "mem_byte m2 = mem_byte m1"
    using m2(2,3) mem_coh_wf merk_ext_mem_byte mem_coh_wf [OF m1(2)] by blast+
  have pg2: "mem_pages m2 = [(0, 0)]" using m2(3) pg by (simp add: merk_ext_def)
  have low: "unat ((0 :: u32) AND 0xFFF) = 0" "shr 0 12 = 0" "unat ((1 :: u32) AND 0xFFF) = 1" "shr 1 12 = 0"
    by (simp_all add: shr_def low_bits)
  obtain m' where m': "range_step m2 0 [b] = Ok m'" "mem_wf m'" "mem_nodes m' = mem_nodes m2"
      "mem_pages m' = mem_pages m2" "mem_byte m' = write_bytes (mem_byte m2) 0 [b]"
    using range_step_ok [OF wf2, of 0 "[b]"] pg2 low by auto
  obtain m3 where m3: "range_step m' 1 [] = Ok m3" "mem_nodes m3 = mem_nodes m'"
      "mem_byte m3 = write_bytes (mem_byte m') 1 []"
    using range_step_ok [OF m'(2), of 1 "[]"] m'(4) pg2 low by auto
  have "SetMemoryRange m2 0 [([b], None)] = Ok (m3, None)"
    using m'(1) m3(1) low by (simp add: SetMemoryRange_Cons SetMemoryRange_Nil)
  moreover have "mem_byte m3 = (mem_byte m2)(0 := b)"
    unfolding m3(3) m'(5) by (auto simp: write_bytes_def fun_eq_iff unat_eq_zero)
  moreover have "MerkleRoot kk m3 = Ok (m3, ref_root kk (mem_byte m1))"
    unfolding MerkleRoot_def using n2 m'(3) m3(2) b1 by (intro MerkleizeSubtree_cached) simp_all
  ultimately show ?thesis using m1(1) m2(1) mb by metis
qed

end
