(* ===== verification/CannonCodec.thy ===== *)
theory CannonCodec
  imports CannonRange "HOL-Library.Multiset"
begin

unbundle bit_operations_syntax

text \<open>
  The binary format of a memory and its copies: whatever order Go visits the page map in, the
  serialised memory reads back as a memory with the same contents whose Merkle tree is coherent,
  and so does the copy.
\<close>

section \<open>Pages as byte strings\<close>

lemma length_page_bytes [simp]: "length (page_bytes p) = 4096"
  by (simp add: page_bytes_def)

lemma page_write_page_bytes: "page_write q 0 (page_bytes p) = p"
proof (rule ext)
  fix k :: "12 word"
  have "unat k < 4096" using unsigned_less [of k, where 'a = nat] by simp
  then show "page_write q 0 (page_bytes p) k = p k" by (simp add: page_write_def page_bytes_def)
qed

definition enc_page :: "memory \<Rightarrow> u32 \<Rightarrow> bytes" where
  "enc_page m k = be32 k @ page_bytes (page_at m k)"

definition page_keys :: "memory \<Rightarrow> u32 list" where
  "page_keys m = map fst (mem_pages m)"

lemma length_pages_bound:
  assumes "pages_ok m"
  shows "length (mem_pages m) \<le> 2 ^ 20"
proof -
  have inj: "inj_on unat A" for A :: "u32 set"
    by (rule inj_onI) (simp add: word_unat_eq_iff)
  have "distinct (page_keys m)" using assms by (simp add: page_keys_def pages_ok_def)
  then have "distinct (map unat (page_keys m))" using inj distinct_map by blast
  moreover have "set (map unat (page_keys m)) \<subseteq> {..<2 ^ 20}"
    using assms by (auto simp: page_keys_def pages_ok_def word_less_nat_alt)
  ultimately have "length (map unat (page_keys m)) \<le> card {..<2 ^ 20 :: nat}"
    by (metis card_mono distinct_card finite_lessThan)
  then show ?thesis by (simp add: page_keys_def)
qed

lemma key_lookup:
  assumes "pages_ok m" "k \<in> set (page_keys m)"
  shows "\<exists>r. map_of (mem_pages m) k = Some r \<and> r < length (mem_heap m)"
  using assms pages_okD(2) [OF assms(1)] unfolding page_keys_def
  by (metis image_set map_of_eq_None_iff not_None_eq)

lemma mem_Serialize_eq:
  assumes "pages_ok m" "set order \<subseteq> set (page_keys m)"
  shows "mem_Serialize order m = Ok (be32 (of_nat (PageCount m)) @ concat (map (enc_page m) order))"
proof -
  have "foldl (\<lambda>acc k. bind_res acc (\<lambda>out. bind_res (deref m (map_of (mem_pages m) k)) (\<lambda>cp.
      Ok (out @ be32 k @ page_bytes (pg_data cp))))) (Ok out) order = Ok (out @ concat (map (enc_page m) order))"
    if "set order \<subseteq> set (page_keys m)" for out
    using that
  proof (induction order arbitrary: out)
    case (Cons k order)
    obtain r where "map_of (mem_pages m) k = Some r" "r < length (mem_heap m)"
      using key_lookup [OF assms(1)] Cons.prems by auto
    then show ?case using Cons by (simp add: enc_page_def page_at_some)
  qed simp
  then show ?thesis using assms(2) by (simp add: mem_Serialize_def)
qed

section \<open>Adding pages\<close>

text \<open>A page allocated under a new key and filled.\<close>

lemma add_page_ok:
  assumes "mem_coh kk m" "map_of (mem_pages m) k = None" "k < 0x100000"
  shows "\<exists>m1 r. AllocPage m k = (m1, Some r) \<and> deref m1 (Some r) = Ok new_page \<and>
    mem_coh kk (put_page m1 (Some r) (new_page\<lparr>pg_data := p\<rparr>)) \<and>
    page_at (put_page m1 (Some r) (new_page\<lparr>pg_data := p\<rparr>)) = (page_at m)(k := p) \<and>
    page_keys (put_page m1 (Some r) (new_page\<lparr>pg_data := p\<rparr>)) = page_keys m @ [k]"
proof -
  obtain m1 where m1: "AllocPage m k = (m1, Some (length (mem_heap m)))" "mem_wf m1"
    "mem_pages m1 = mem_pages m @ [(k, length (mem_heap m))]" "mem_heap m1 = mem_heap m @ [new_page]"
    "mem_nodes m1 = set_path (Some None) (mem_nodes m) (page_gindex k)"
    using AllocPage_fresh [OF mem_coh_wf [OF assms(1)] assms(2,3)] by blast
  let ?r = "length (mem_heap m)"
  let ?cp = "new_page\<lparr>pg_data := p\<rparr>"
  let ?m' = "put_page m1 (Some ?r) ?cp"
  have heap: "mem_heap ?m' = mem_heap m @ [?cp]" by (simp add: put_page_def m1(4))
  have pages: "mem_pages ?m' = mem_pages m @ [(k, ?r)]" by (simp add: put_page_def m1(3))
  have key: "map_of (mem_pages m1) k = Some ?r" using assms(2) by (simp add: m1(3) map_add_def)
  have coh: "mem_coh kk ?m'"
    by (rule SetMemory_coh_new [OF assms(1,2) put_page_data(1) [OF m1(2) key] pages heap])
      (simp_all add: page_coh_def new_page_def put_page_def m1(5))
  have "page_at ?m' = (page_at m)(k := p)"
    using page_at_appended [OF pages heap _ assms(2)] mem_coh_wf [OF assms(1)] by (simp add: mem_wf_def)
  then show ?thesis using m1(1,4) coh by (auto simp: page_keys_def pages)
qed

lemma read_u32_be32: "read_u32 (be32 w @ bs) = Ok (w, bs)"
  by (simp add: read_u32_def) (simp add: be32_def)

lemma Deserialize_pages_ok:
  "mem_coh kk m0 \<Longrightarrow> distinct ks \<Longrightarrow> \<forall>k \<in> set ks. k < 0x100000 \<and> map_of (mem_pages m0) k = None \<Longrightarrow>
   \<exists>m'. mem_Deserialize_pages (length ks) m0 (concat (map (enc_page m) ks) @ rest) = Ok (m', rest) \<and>
     mem_coh kk m' \<and> page_at m' = (\<lambda>k. if k \<in> set ks then page_at m k else page_at m0 k) \<and>
     page_keys m' = page_keys m0 @ ks"
proof (induction ks arbitrary: m0)
  case (Cons k ks)
  obtain m1 r where m1: "AllocPage m0 k = (m1, Some r)" "deref m1 (Some r) = Ok new_page"
    and c: "mem_coh kk (put_page m1 (Some r) (new_page\<lparr>pg_data := page_at m k\<rparr>))"
      "page_at (put_page m1 (Some r) (new_page\<lparr>pg_data := page_at m k\<rparr>)) = (page_at m0)(k := page_at m k)"
      "page_keys (put_page m1 (Some r) (new_page\<lparr>pg_data := page_at m k\<rparr>)) = page_keys m0 @ [k]"
    using add_page_ok [OF Cons.prems(1), of k "page_at m k"] Cons.prems(3) by auto
  let ?m2 = "put_page m1 (Some r) (new_page\<lparr>pg_data := page_at m k\<rparr>)"
  have "map_of (mem_pages ?m2) k' = None" if "k' \<in> set ks" for k'
    using that Cons.prems(2,3) c(3) unfolding page_keys_def map_of_eq_None_iff
    by (metis (no_types, lifting) distinct.simps(2) image_set list.set_intros(2) map_of_eq_None_iff
        set_append Un_iff empty_iff list.set(1) set_ConsD)
  then obtain m' where m': "mem_Deserialize_pages (length ks) ?m2 (concat (map (enc_page m) ks) @ rest) = Ok (m', rest)"
    "mem_coh kk m'" "page_at m' = (\<lambda>k'. if k' \<in> set ks then page_at m k' else page_at ?m2 k')"
    "page_keys m' = page_keys ?m2 @ ks"
    using Cons.IH [OF c(1)] Cons.prems(2,3) by auto
  have "mem_Deserialize_pages (length (k # ks)) m0 (concat (map (enc_page m) (k # ks)) @ rest) = Ok (m', rest)"
    using m1 m'(1) by (simp add: enc_page_def read_u32_be32 page_write_page_bytes)
  then show ?case using m'(2-4) c(2,3) Cons.prems(2) by (auto simp: fun_eq_iff)
qed auto

lemma mem_byte_cong: "page_at m' = page_at m \<Longrightarrow> mem_byte m' = mem_byte m"
  by (simp add: mem_byte_def fun_eq_iff)

lemma NewMemory_pages [simp]: "mem_pages NewMemory = []" "page_keys NewMemory = []"
  by (simp_all add: NewMemory_def page_keys_def)

lemma page_at_missing: "k \<notin> set (page_keys m) \<Longrightarrow> page_at m k = (\<lambda>_. 0)"
  by (rule page_at_none) (simp add: page_keys_def map_of_eq_None_iff)

lemma keys_order:
  assumes "pages_ok m" "mset order = mset (page_keys m)"
  shows "set order = set (page_keys m)" "distinct order" "length order = PageCount m"
    "\<forall>k \<in> set order. k < 0x100000"
proof -
  show s: "set order = set (page_keys m)" using mset_eq_setD [OF assms(2)] .
  show "distinct order"
    using assms mset_eq_imp_distinct_iff [OF assms(2)] by (simp add: page_keys_def pages_ok_def)
  show "length order = PageCount m"
    using mset_eq_length [OF assms(2)] by (simp add: page_keys_def PageCount_def)
  show "\<forall>k \<in> set order. k < 0x100000"
    unfolding s using assms(1) by (auto simp: page_keys_def pages_ok_def)
qed

lemma mem_roundtrip:
  assumes "mem_wf m" "mset order = mset (page_keys m)"
  shows "\<exists>bs. mem_Serialize order m = Ok bs \<and> (\<forall>rest. \<exists>m'. mem_Deserialize NewMemory (bs @ rest) = Ok (m', rest) \<and>
    mem_coh kk m' \<and> mem_byte m' = mem_byte m \<and> page_keys m' = order)"
proof -
  have p: "pages_ok m" using assms(1) by (simp add: mem_wf_def)
  note ord = keys_order [OF p assms(2)]
  let ?bs = "be32 (of_nat (PageCount m)) @ concat (map (enc_page m) order)"
  have ser: "mem_Serialize order m = Ok ?bs" by (rule mem_Serialize_eq [OF p]) (simp add: ord(1))
  have n: "unat (of_nat (PageCount m) :: u32) = length order"
    using length_pages_bound [OF p] by (simp add: ord(3) PageCount_def unat_of_nat)
  have "\<exists>m'. mem_Deserialize NewMemory (?bs @ rest) = Ok (m', rest) \<and> mem_coh kk m' \<and>
      mem_byte m' = mem_byte m \<and> page_keys m' = order" for rest
  proof -
  obtain m' where m': "mem_Deserialize_pages (length order) NewMemory (concat (map (enc_page m) order) @ rest) = Ok (m', rest)"
    "mem_coh kk m'" "page_at m' = (\<lambda>k. if k \<in> set order then page_at m k else page_at NewMemory k)"
    "page_keys m' = page_keys NewMemory @ order"
    using Deserialize_pages_ok [OF NewMemory_coh ord(2), of m rest kk] ord(4) by auto
  have "page_at m' = page_at m"
    unfolding m'(3) by (rule ext) (simp add: ord(1) page_at_missing)
  then show ?thesis
    using m'(1,2,4) n mem_byte_cong [of m' m] by (auto simp: mem_Deserialize_def read_u32_be32)
  qed
  with ser show ?thesis by blast
qed

section \<open>Copies\<close>

lemma copy_pages_ok:
  "pages_ok m \<Longrightarrow> mem_coh kk m0 \<Longrightarrow> distinct ks \<Longrightarrow> set ks \<subseteq> set (page_keys m) \<Longrightarrow>
   set ks \<inter> set (page_keys m0) = {} \<Longrightarrow>
   mem_coh kk (foldl (copy_step m) m0 ks) \<and>
   page_at (foldl (copy_step m) m0 ks) = (\<lambda>k. if k \<in> set ks then page_at m k else page_at m0 k) \<and>
   page_keys (foldl (copy_step m) m0 ks) = page_keys m0 @ ks"
proof (induction ks arbitrary: m0)
  case (Cons k ks)
  have k: "k \<in> set (page_keys m)" "map_of (mem_pages m0) k = None"
    using Cons.prems(4,5) by (auto simp: page_keys_def map_of_eq_None_iff)
  obtain r where r: "map_of (mem_pages m) k = Some r" "r < length (mem_heap m)"
    using key_lookup [OF Cons.prems(1) k(1)] by blast
  have kb: "k < 0x100000" using pages_okD(1) [OF Cons.prems(1) r(1)] .
  obtain m1 r' where m1: "AllocPage m0 k = (m1, Some r')"
    "mem_coh kk (put_page m1 (Some r') (new_page\<lparr>pg_data := page_at m k\<rparr>))"
    "page_at (put_page m1 (Some r') (new_page\<lparr>pg_data := page_at m k\<rparr>)) = (page_at m0)(k := page_at m k)"
    "page_keys (put_page m1 (Some r') (new_page\<lparr>pg_data := page_at m k\<rparr>)) = page_keys m0 @ [k]"
    using add_page_ok [OF Cons.prems(2) k(2) kb, of "page_at m k"] by blast
  let ?m2 = "put_page m1 (Some r') (new_page\<lparr>pg_data := page_at m k\<rparr>)"
  have step: "copy_step m m0 k = ?m2"
    using m1(1) r by (simp add: copy_step_def page_at_some)
  have "set ks \<inter> set (page_keys ?m2) = {}" using Cons.prems(3,5) m1(4) by auto
  from Cons.IH [OF Cons.prems(1) m1(2) _ _ this] Cons.prems(3,4) show ?case
    using m1(3,4) by (auto simp: step fun_eq_iff)
qed (simp add: fun_eq_iff)

lemma mem_Copy_ok:
  assumes "mem_wf m" "mset order = mset (page_keys m)"
  shows "mem_coh kk (mem_Copy order m) \<and> mem_byte (mem_Copy order m) = mem_byte m \<and>
    page_keys (mem_Copy order m) = order"
proof -
  have p: "pages_ok m" using assms(1) by (simp add: mem_wf_def)
  note ord = keys_order [OF p assms(2)]
  have c: "mem_coh kk (mem_Copy order m)" "page_keys (mem_Copy order m) = order"
    "page_at (mem_Copy order m) = (\<lambda>k. if k \<in> set order then page_at m k else page_at NewMemory k)"
    using copy_pages_ok [OF p NewMemory_coh ord(2)] ord(1) by (auto simp: mem_Copy_def)
  have "page_at (mem_Copy order m) = page_at m"
    unfolding c(3) by (rule ext) (simp add: ord(1) page_at_missing)
  with c mem_byte_cong show ?thesis by blast
qed

section \<open>Guarantees\<close>

text \<open>C27: Serialising a memory and reading the bytes back, in front of whatever follows them, gives
  a memory with the same contents and the same pages whose Merkle root is the root of the
  original, for every order in which Go may visit the page map; copying gives such a memory too.\<close>

theorem memory_roundtrip:
  assumes "mem_coh kk m" "mset order = mset (page_keys m)"
  shows "\<exists>bs. mem_Serialize order m = Ok bs \<and>
    (\<exists>m' m1 m2 m3 root. mem_Deserialize NewMemory (bs @ rest) = Ok (m', rest) \<and>
      mem_byte m' = mem_byte m \<and> page_keys m' = order \<and>
      MerkleRoot kk m = Ok (m1, root) \<and> MerkleRoot kk m' = Ok (m2, root) \<and>
      mem_byte (mem_Copy order m) = mem_byte m \<and> MerkleRoot kk (mem_Copy order m) = Ok (m3, root))"
proof -
  have wf: "mem_wf m" using assms(1) by (rule mem_coh_wf)
  obtain bs m' where s: "mem_Serialize order m = Ok bs"
    and m': "mem_Deserialize NewMemory (bs @ rest) = Ok (m', rest)" "mem_coh kk m'" "mem_byte m' = mem_byte m"
      "page_keys m' = order"
    using mem_roundtrip [OF wf assms(2), of kk] by blast
  have c: "mem_coh kk (mem_Copy order m)" "mem_byte (mem_Copy order m) = mem_byte m"
    using mem_Copy_ok [OF wf assms(2), of kk] by blast+
  obtain m1 m2 m3 where "MerkleRoot kk m = Ok (m1, ref_root kk (mem_byte m))"
    "MerkleRoot kk m' = Ok (m2, ref_root kk (mem_byte m))"
    "MerkleRoot kk (mem_Copy order m) = Ok (m3, ref_root kk (mem_byte m))"
    using MerkleRoot_ok [OF assms(1)] MerkleRoot_ok [OF m'(2)] MerkleRoot_ok [OF c(1)]
    unfolding m'(3) c(2) by blast
  with s m' c(2) show ?thesis by blast
qed

theorem memory_roundtrip_witness:
  "\<exists>m bs m'. SetMemory NewMemory 0x2000 5 = Ok m \<and> mem_Serialize [2] m = Ok bs \<and>
     mem_Deserialize NewMemory (bs @ [9]) = Ok (m', [9]) \<and> mem_byte m' = mem_byte m"
proof -
  obtain m where m: "SetMemory NewMemory 0x2000 5 = Ok m" "mem_coh (\<lambda>b. b) m"
    using SetMemory_coh [OF NewMemory_coh, of "0x2000" 5 "\<lambda>b. b"] by auto
  have "map_of (mem_pages NewMemory) (shr 0x2000 12) = None" by simp
  from SetMemory_new [OF NewMemory_wf _ this, of 5] m(1)
  have "page_keys m = [2]" by (auto simp: page_keys_def shr_def)
  then show ?thesis using m memory_roundtrip [OF m(2), of "[2]" "[9]"] by auto
qed

end
