(* ===== verification/CannonExec.thy ===== *)
theory CannonExec
  imports CannonCodec
begin

unbundle bit_operations_syntax

text \<open>
  What the two Cannon VMs share, after \<open>cannon/mipsevm/exec\<close>: the tracker that records the Merkle
  proof of the memory access of a step, the pre-image reader, the call-stack tracker, the system
  calls, and the execution of one ordinary instruction. The external pre-image oracle is a
  parameter \<open>po\<close>, from keys to pre-images; hints and the output written to the standard streams
  are recorded in the order they are produced. \<open>kk\<close> is Keccak, \<open>lookup\<close> the symbol table.
\<close>

section \<open>Trackers\<close>

record mem_tracker =
  mt_last :: u32
  mt_enabled :: bool
  mt_proof :: bytes
  mt_proof2 :: bytes

definition NewMemoryTracker :: mem_tracker where
  "NewMemoryTracker = \<lparr>mt_last = 0, mt_enabled = False,
     mt_proof = replicate (28 * 32) 0, mt_proof2 = replicate (28 * 32) 0\<rparr>"

definition tracker_Reset :: "bool \<Rightarrow> mem_tracker \<Rightarrow> mem_tracker" where
  "tracker_Reset enableProof mt = mt\<lparr>mt_enabled := enableProof, mt_last := 0xFFFFFFFF\<rparr>"

definition TrackMemAccess ::
    "(bytes \<Rightarrow> hash) \<Rightarrow> mem_tracker \<Rightarrow> memory \<Rightarrow> u32 \<Rightarrow> (mem_tracker \<times> memory) res" where
  "TrackMemAccess kk mt m effAddr =
     (if mt_enabled mt \<and> mt_last mt \<noteq> effAddr then
        guard_panic (mt_last mt = 0xFFFFFFFF) ''unexpected different mem access''
          (bind_res (MerkleProof kk m effAddr) (\<lambda>(m', proof).
             Ok (mt\<lparr>mt_last := effAddr, mt_proof := proof\<rparr>, m')))
      else Ok (mt, m))"

definition TrackMemAccess2 ::
    "(bytes \<Rightarrow> hash) \<Rightarrow> mem_tracker \<Rightarrow> memory \<Rightarrow> u32 \<Rightarrow> (mem_tracker \<times> memory) res" where
  "TrackMemAccess2 kk mt m effAddr =
     guard_panic (\<not> (mt_enabled mt \<and> mt_last mt + 4 \<noteq> effAddr)) ''unexpected disjointed mem access''
       (bind_res (MerkleProof kk m effAddr) (\<lambda>(m', proof).
          Ok (mt\<lparr>mt_last := effAddr, mt_proof2 := proof\<rparr>, m')))"

record preimage_reader =
  pr_totalSize :: nat
  pr_requests :: nat
  pr_last :: bytes
  pr_key :: bytes
  pr_offset :: u32
  pr_hints :: "bytes list"

definition NewTrackingPreimageOracleReader :: preimage_reader where
  "NewTrackingPreimageOracleReader = \<lparr>pr_totalSize = 0, pr_requests = 0, pr_last = [],
     pr_key = replicate 32 0, pr_offset = 0, pr_hints = []\<rparr>"

definition preimage_Reset :: "preimage_reader \<Rightarrow> preimage_reader" where
  "preimage_Reset p = p\<lparr>pr_offset := 0xFFFFFFFF\<rparr>"

definition preimage_Hint :: "preimage_reader \<Rightarrow> bytes \<Rightarrow> preimage_reader" where
  "preimage_Hint p v = p\<lparr>pr_hints := pr_hints p @ [v]\<rparr>"

definition GetPreimage :: "(bytes \<Rightarrow> bytes) \<Rightarrow> preimage_reader \<Rightarrow> bytes \<Rightarrow> preimage_reader \<times> bytes" where
  "GetPreimage po p k =
     (let p1 = p\<lparr>pr_requests := pr_requests p + 1\<rparr>; preimage = po k
      in (p1\<lparr>pr_totalSize := pr_totalSize p1 + length preimage\<rparr>, preimage))"

text \<open>The result is a 32-byte array and the number of bytes of it that were filled.\<close>

definition ReadPreimage ::
    "(bytes \<Rightarrow> bytes) \<Rightarrow> preimage_reader \<Rightarrow> bytes \<Rightarrow> u32 \<Rightarrow> (preimage_reader \<times> bytes \<times> u32) res" where
  "ReadPreimage po p key offset =
     (let (p1, preimage) =
        (if key \<noteq> pr_key p then
           case GetPreimage po (p\<lparr>pr_key := key\<rparr>) key of (p', dat) \<Rightarrow>
             let preimage = be64 (of_nat (length dat)) @ dat in (p'\<lparr>pr_last := preimage\<rparr>, preimage)
         else (p, pr_last p));
          p2 = p1\<lparr>pr_offset := offset\<rparr>
      in guard_panic (offset < of_nat (length preimage)) ''Preimage offset out-of-bounds''
           (guard_panic (unat offset \<le> length preimage) ''slice bounds out of range''
             (let src = take 32 (drop (unat offset) preimage)
              in Ok (p2, src @ replicate (32 - length src) 0, of_nat (length src)))))"

text \<open>Symbols, sorted by start, and the call stack that debugging keeps.\<close>

type_synonym symbol = "string \<times> u32 \<times> u32"

definition LookupSymbol :: "symbol list \<Rightarrow> u32 \<Rightarrow> string" where
  "LookupSymbol syms addr =
     (if syms = [] then ''!unknown''
      else
        let i = length (takeWhile (\<lambda>(_, start, _). \<not> start > addr) syms)
        in if i = 0 then ''!start''
           else case syms ! (i - 1) of (name, start, sz) \<Rightarrow>
             if start + sz < addr then ''!gap'' else name)"

datatype stack_tracker = NoopStack | TraceStack "u32 list" "u32 list"

fun PushStack :: "stack_tracker \<Rightarrow> u32 \<Rightarrow> u32 \<Rightarrow> stack_tracker" where
  "PushStack NoopStack caller target = NoopStack"
| "PushStack (TraceStack stk callers) caller target = TraceStack (stk @ [target]) (callers @ [caller])"

text \<open>The search for the frame to snap back to, from index \<open>i - 1\<close> down.\<close>

fun snap_index :: "(u32 \<Rightarrow> string) \<Rightarrow> u32 list \<Rightarrow> string \<Rightarrow> nat \<Rightarrow> nat option" where
  "snap_index lookup stk fn 0 = None"
| "snap_index lookup stk fn (Suc i) =
     (if lookup (stk ! i) = fn then Some i else snap_index lookup stk fn i)"

fun PopStack :: "(u32 \<Rightarrow> string) \<Rightarrow> u32 \<Rightarrow> stack_tracker \<Rightarrow> stack_tracker" where
  "PopStack lookup pc NoopStack = NoopStack"
| "PopStack lookup pc (TraceStack stk callers) =
     (if stk \<noteq> [] then
        let fn = lookup pc; topFn = lookup (last stk) in
        if fn \<noteq> topFn then
          (case snap_index lookup stk fn (length stk) of
             Some i \<Rightarrow> TraceStack (take i stk) (take i callers)
           | None \<Rightarrow> TraceStack stk callers)
        else TraceStack (butlast stk) (butlast callers)
      else TraceStack stk callers)"

section \<open>System calls\<close>

definition GetSyscallArgs :: "registers \<Rightarrow> u32 \<times> u32 \<times> u32 \<times> u32 \<times> u32" where
  "GetSyscallArgs regs = (get_reg regs 2, get_reg regs 4, get_reg regs 5, get_reg regs 6, get_reg regs 7)"

definition HEAP_END :: u32 where "HEAP_END = 0x60000000"
definition PROGRAM_BREAK :: u32 where "PROGRAM_BREAK = 0x40000000"
definition SysErrorSignal :: u32 where "SysErrorSignal = 0xFFFFFFFF"
definition MipsEBADF :: u32 where "MipsEBADF = 0x9"
definition MipsEINVAL :: u32 where "MipsEINVAL = 0x16"
definition MipsEAGAIN :: u32 where "MipsEAGAIN = 0xb"
definition MipsETIMEDOUT :: u32 where "MipsETIMEDOUT = 0x91"

definition HandleSysMmap :: "u32 \<Rightarrow> u32 \<Rightarrow> u32 \<Rightarrow> u32 \<times> u32 \<times> u32" where
  "HandleSysMmap a0 a1 heap =
     (let sz = (if a1 AND 0xFFF \<noteq> 0 then a1 + (0x1000 - (a1 AND 0xFFF)) else a1) in
      if a0 = 0 then
        let newHeap = heap + sz in
        if newHeap > HEAP_END \<or> newHeap < heap \<or> sz < a1
        then (SysErrorSignal, MipsEINVAL, heap) else (heap, 0, newHeap)
      else (a0, 0, heap))"

text \<open>What a read system call yields: the two result registers, the new pre-image offset,
  whether memory was updated and where.\<close>

record sys_io =
  io_mem :: memory
  io_mt :: mem_tracker
  io_pr :: preimage_reader
  io_out :: "(u32 \<times> bytes) list"

definition HandleSysRead ::
    "(bytes \<Rightarrow> hash) \<Rightarrow> (bytes \<Rightarrow> bytes) \<Rightarrow> u32 \<Rightarrow> u32 \<Rightarrow> u32 \<Rightarrow> bytes \<Rightarrow> u32 \<Rightarrow> sys_io \<Rightarrow>
     (sys_io \<times> u32 \<times> u32 \<times> u32 \<times> bool \<times> u32) res" where
  "HandleSysRead kk po a0 a1 a2 preimageKey preimageOffset io =
     (if a0 = 0 then Ok (io, 0, 0, preimageOffset, False, 0)
      else if a0 = 5 then
        let effAddr = a1 AND 0xFFFFFFFC in
        bind_res (TrackMemAccess kk (io_mt io) (io_mem io) effAddr) (\<lambda>(mt, m1).
        bind_res (GetMemory m1 effAddr) (\<lambda>(m2, mem).
        bind_res (ReadPreimage po (io_pr io) preimageKey preimageOffset) (\<lambda>(pr, dat, datLen).
        let alignment = a1 AND 3;
            space = 4 - alignment;
            datLen = (if space < datLen then space else datLen);
            datLen = (if a2 < datLen then a2 else datLen);
            outMem = be32 mem;
            n = unat datLen; al = unat alignment;
            outMem' = take al outMem @ take n dat @ drop (al + n) outMem
        in bind_res (SetMemory m2 effAddr (un32 outMem')) (\<lambda>m3.
           Ok (io\<lparr>io_mem := m3, io_mt := mt, io_pr := pr\<rparr>, datLen, 0, preimageOffset + datLen, True, effAddr)))))
      else if a0 = 3 then Ok (io, a2, 0, preimageOffset, False, 0)
      else Ok (io, 0xFFFFFFFF, MipsEBADF, preimageOffset, False, 0))"

text \<open>The hints that are complete, without their length prefixes, and the incomplete rest.\<close>

function split_hints :: "bytes \<Rightarrow> bytes list \<times> bytes" where
  "split_hints lastHint =
     (if 4 \<le> length lastHint \<and> un32 (take 4 lastHint) \<le> of_nat (length (drop 4 lastHint)) then
        let hintLen = unat (un32 (take 4 lastHint));
            hint = take hintLen (drop 4 lastHint);
            (hints, rest) = split_hints (drop (4 + hintLen) lastHint)
        in (hint # hints, rest)
      else ([], lastHint))"
  by pat_completeness auto
termination by (relation "measure length") auto

declare split_hints.simps [simp del]

definition HandleSysWrite ::
    "(bytes \<Rightarrow> hash) \<Rightarrow> u32 \<Rightarrow> u32 \<Rightarrow> u32 \<Rightarrow> bytes \<Rightarrow> bytes \<Rightarrow> u32 \<Rightarrow> sys_io \<Rightarrow>
     (sys_io \<times> u32 \<times> u32 \<times> bytes \<times> bytes \<times> u32) res" where
  "HandleSysWrite kk a0 a1 a2 lastHint preimageKey preimageOffset io =
     (if a0 = 1 \<or> a0 = 2 then
        bind_res (read_all (io_mem io) a1 a2) (\<lambda>(m1, dat).
        Ok (io\<lparr>io_mem := m1, io_out := io_out io @ [(a0, dat)]\<rparr>, a2, 0, lastHint, preimageKey, preimageOffset))
      else if a0 = 4 then
        bind_res (read_all (io_mem io) a1 a2) (\<lambda>(m1, hintData).
        case split_hints (lastHint @ hintData) of (hints, rest) \<Rightarrow>
        Ok (io\<lparr>io_mem := m1, io_pr := foldl preimage_Hint (io_pr io) hints\<rparr>,
            a2, 0, rest, preimageKey, preimageOffset))
      else if a0 = 6 then
        let effAddr = a1 AND 0xFFFFFFFC in
        bind_res (TrackMemAccess kk (io_mt io) (io_mem io) effAddr) (\<lambda>(mt, m1).
        bind_res (GetMemory m1 effAddr) (\<lambda>(m2, mem).
        let alignment = a1 AND 3;
            space = 4 - alignment;
            a2' = (if space < a2 then space else a2);
            n = unat a2'; al = unat alignment;
            key1 = drop n preimageKey @ drop (length preimageKey - n) preimageKey;
            key2 = take (32 - n) key1 @ take n (drop al (be32 mem))
        in Ok (io\<lparr>io_mem := m2, io_mt := mt\<rparr>, a2', 0, lastHint, key2, 0)))
      else Ok (io, 0xFFFFFFFF, MipsEBADF, lastHint, preimageKey, preimageOffset))"

definition HandleSysFcntl :: "u32 \<Rightarrow> u32 \<Rightarrow> u32 \<times> u32" where
  "HandleSysFcntl a0 a1 =
     (if a1 = 3 then
        (if a0 = 0 \<or> a0 = 5 \<or> a0 = 3 then (0, 0)
         else if a0 = 1 \<or> a0 = 2 \<or> a0 = 6 \<or> a0 = 4 then (1, 0)
         else (0xFFFFFFFF, MipsEBADF))
      else (0xFFFFFFFF, MipsEINVAL))"

definition HandleSyscallUpdates :: "cpu_scalars \<Rightarrow> registers \<Rightarrow> u32 \<Rightarrow> u32 \<Rightarrow> cpu_state" where
  "HandleSyscallUpdates cpu regs v0 v1 =
     (cpu\<lparr>cpu_PC := cpu_NextPC cpu, cpu_NextPC := cpu_NextPC cpu + 4\<rparr>, set_reg (set_reg regs 2 v0) 7 v1)"

section \<open>One ordinary instruction\<close>

definition GetInstructionDetails :: "u32 \<Rightarrow> memory \<Rightarrow> (memory \<times> u32 \<times> u32 \<times> u32) res" where
  "GetInstructionDetails pc m =
     bind_res (GetMemory m pc) (\<lambda>(m1, insn). Ok (m1, insn, insn_opcode insn, insn_fun insn))"

record core =
  co_cpu :: cpu_scalars
  co_regs :: registers
  co_mem :: memory
  co_mt :: mem_tracker
  co_st :: stack_tracker

text \<open>A handler of the program counter and the registers, run on the core.\<close>

definition on_cpu :: "core \<Rightarrow> cpu_state res \<Rightarrow> core res" where
  "on_cpu c r = bind_res r (\<lambda>(cpu, regs). Ok (c\<lparr>co_cpu := cpu, co_regs := regs\<rparr>))"

definition operand_rt :: "registers \<Rightarrow> u32 \<Rightarrow> u32 \<Rightarrow> u32" where
  "operand_rt regs insn opcode =
     (let rtReg = shr insn 16 AND 0x1F in
      if opcode = 0 \<or> opcode = 0x1c then get_reg regs rtReg
      else if opcode < 0x20 then
        (if opcode = 0xC \<or> opcode = 0xD \<or> opcode = 0xe then insn AND 0xFFFF
         else SignExtend (insn AND 0xFFFF) 16)
      else if opcode \<ge> 0x28 \<or> opcode = 0x22 \<or> opcode = 0x26 then get_reg regs rtReg
      else 0)"

definition dest_reg :: "u32 \<Rightarrow> u32 \<Rightarrow> u32" where
  "dest_reg insn opcode =
     (if opcode = 0 \<or> opcode = 0x1c then shr insn 11 AND 0x1F else shr insn 16 AND 0x1F)"

text \<open>The memory fetch of the I-type instructions: the effective address added to \<open>rs\<close>, the word
  there, and the address to store to, all ones when there is none.\<close>

definition core_fetch ::
    "(bytes \<Rightarrow> hash) \<Rightarrow> core \<Rightarrow> u32 \<Rightarrow> u32 \<Rightarrow> u32 \<Rightarrow> u32 \<Rightarrow> (core \<times> u32 \<times> u32 \<times> u32 \<times> u32) res" where
  "core_fetch kk c insn opcode rs rdReg =
     (if opcode \<ge> 0x20 then
        let rs' = rs + SignExtend (insn AND 0xFFFF) 16; addr = rs' AND 0xFFFFFFFC in
        bind_res (TrackMemAccess kk (co_mt c) (co_mem c) addr) (\<lambda>(mt, m1).
        bind_res (GetMemory m1 addr) (\<lambda>(m2, mem).
        Ok (c\<lparr>co_mem := m2, co_mt := mt\<rparr>, rs', mem,
            if opcode \<ge> 0x28 then addr else 0xFFFFFFFF, if opcode \<ge> 0x28 then 0 else rdReg)))
      else Ok (c, rs, 0, 0xFFFFFFFF, rdReg))"

text \<open>The instructions of the \<open>SPECIAL\<close> group that do not store their ALU result: jumps through
  registers, conditional moves and HI/LO.\<close>

definition core_special ::
    "(u32 \<Rightarrow> string) \<Rightarrow> core \<Rightarrow> u32 \<Rightarrow> u32 \<Rightarrow> u32 \<Rightarrow> u32 \<Rightarrow> core res" where
  "core_special lookup c fun' rs rt rdReg =
     (if fun' = 8 then
        let c1 = c\<lparr>co_st := PopStack lookup (cpu_PC (co_cpu c)) (co_st c)\<rparr>
        in on_cpu c1 (HandleJump (co_cpu c1) (co_regs c1) 0 rs)
      else if fun' = 9 then
        let c1 = c\<lparr>co_st := PushStack (co_st c) (cpu_PC (co_cpu c)) rs\<rparr>
        in on_cpu c1 (HandleJump (co_cpu c1) (co_regs c1) rdReg rs)
      else if fun' = 0xa then on_cpu c (HandleRd (co_cpu c) (co_regs c) rdReg rs (rt = 0))
      else if fun' = 0xb then on_cpu c (HandleRd (co_cpu c) (co_regs c) rdReg rs (rt \<noteq> 0))
      else on_cpu c (HandleHiLo (co_cpu c) (co_regs c) fun' rs rt rdReg))"

definition ExecMipsCoreStepLogic ::
    "(bytes \<Rightarrow> hash) \<Rightarrow> (u32 \<Rightarrow> string) \<Rightarrow> core \<Rightarrow> u32 \<Rightarrow> u32 \<Rightarrow> u32 \<Rightarrow> (core \<times> bool \<times> u32) res" where
  "ExecMipsCoreStepLogic kk lookup c insn opcode fun' =
     (if opcode = 2 \<or> opcode = 3 then
        let linkReg = (if opcode = 3 then 31 else 0);
            target = (cpu_NextPC (co_cpu c) AND 0xF0000000) OR shl (insn AND 0x03FFFFFF) 2;
            c1 = c\<lparr>co_st := PushStack (co_st c) (cpu_PC (co_cpu c)) target\<rparr>
        in bind_res (on_cpu c1 (HandleJump (co_cpu c1) (co_regs c1) linkReg target)) (\<lambda>c'. Ok (c', False, 0))
      else
        let rtReg = shr insn 16 AND 0x1F;
            rs = get_reg (co_regs c) (shr insn 21 AND 0x1F);
            rt = operand_rt (co_regs c) insn opcode;
            rdReg = dest_reg insn opcode
        in if (opcode \<ge> 4 \<and> opcode < 8) \<or> opcode = 1 then
             bind_res (on_cpu c (HandleBranch (co_cpu c) (co_regs c) opcode insn rtReg rs)) (\<lambda>c'. Ok (c', False, 0))
           else
             bind_res (core_fetch kk c insn opcode rs rdReg) (\<lambda>(c1, rs, mem, storeAddr, rdReg).
             bind_res (ExecuteMipsInstruction insn opcode fun' rs rt mem) (\<lambda>val.
             if opcode = 0 \<and> fun' \<ge> 8 \<and> fun' < 0x1c \<and> (fun' < 0xc \<or> fun' \<ge> 0x10) then
               bind_res (core_special lookup c1 fun' rs rt rdReg) (\<lambda>c'. Ok (c', False, 0))
             else if storeAddr \<noteq> 0xFFFFFFFF then
               bind_res (TrackMemAccess kk (co_mt c1) (co_mem c1) storeAddr) (\<lambda>(mt, m2).
               bind_res (SetMemory m2 storeAddr val) (\<lambda>m3.
               let c2 = c1\<lparr>co_mem := m3, co_mt := mt\<rparr> in
               bind_res (on_cpu c2 (HandleRd (co_cpu c2) (co_regs c2) rdReg val True)) (\<lambda>c'.
               Ok (c', True, storeAddr))))
             else
               bind_res (on_cpu c1 (HandleRd (co_cpu c1) (co_regs c1) rdReg val True)) (\<lambda>c'. Ok (c', False, 0)))))"

end
