(* ===== verification/CannonMipsProps.thy ===== *)
theory CannonMipsProps
  imports CannonMips
begin

unbundle bit_operations_syntax

text \<open>
  The ALU against its mathematical meaning: sign extension, arithmetic shifts, leading-bit
  counts, products and quotients, and the byte-wise meaning of the unaligned memory
  instructions.
\<close>

section \<open>Bits\<close>

lemma shl_1_minus_1: "shl 1 k - 1 = mask (unat k)"
  by (simp add: shl_def mask_eq_exp_minus_1 push_bit_eq_mult)

lemma bit_shl [simp]: "bit (shl x k) n \<longleftrightarrow> unat k \<le> n \<and> n < 32 \<and> bit x (n - unat k)"
  by (auto simp: shl_def bit_simps)

lemma bit_shr [simp]: "bit (shr x k) n \<longleftrightarrow> bit x (unat k + n)"
  by (simp add: shr_def bit_drop_bit_eq)

lemma bit_u32_less: "bit (x :: u32) n \<Longrightarrow> n < 32"
  by (drule bit_imp_le_length) simp

lemma shr_eq_0_iff: "shr x k = 0 \<longleftrightarrow> (\<forall>n. unat k \<le> n \<longrightarrow> \<not> bit x n)"
proof -
  have "shr x k = 0 \<longleftrightarrow> (\<forall>m. \<not> bit x (unat k + m))"
    by (simp add: bit_eq_iff [of "shr x k"]) (use bit_u32_less in fastforce)
  then show ?thesis by (auto simp: le_iff_add)
qed

lemma masks: "(0xFF :: u32) = mask 8" "(0xFFFF :: u32) = mask 16" "(0xFFFFFFFF :: u32) = mask 32"
  "(3 :: u32) = mask 2" "(0x1F :: u32) = mask 5" "(0x3F :: u32) = mask 6"
  by (simp_all add: mask_eq_exp_minus_1)

lemma unat_32_minus: "idx \<le> (32 :: u32) \<Longrightarrow> unat (32 - idx) = 32 - unat idx"
  by (simp add: unat_sub)

lemma bit_SignExtend:
  assumes idx: "0 < idx" "idx \<le> 32" and small: "shr dat idx = 0"
  shows "bit (SignExtend dat idx) n \<longleftrightarrow> n < 32 \<and> bit dat (min n (unat idx - 1))"
proof -
  have i: "0 < unat idx" "unat idx \<le> 32" using idx by (simp_all add: word_le_nat_alt unat_gt_0)
  have idx1: "unat (idx - 1) = unat idx - 1"
    using i by (simp add: unat_minus_one unat_eq_zero [symmetric])
  have hi: "\<not> bit dat m" if "unat idx \<le> m" for m
    using small that by (simp add: shr_eq_0_iff)
  have sgn: "shr dat (idx - 1) \<noteq> 0 \<longleftrightarrow> bit dat (unat idx - 1)"
  proof -
    have "n = unat idx - 1" if "unat idx - 1 \<le> n" "bit dat n" for n
    proof -
      have "n < unat idx" using hi [of n] that(2) by (meson not_le)
      then show ?thesis using that(1) by simp
    qed
    then show ?thesis by (auto simp: shr_eq_0_iff idx1)
  qed
  show ?thesis
    unfolding SignExtend_def Let_def sgn shl_1_minus_1
    using i hi unat_32_minus [OF idx(2)]
    by (auto simp: bit_simps min_def not_le not_less dest: bit_u32_less)
qed

text \<open>Sign extension: for a value of \<open>idx\<close> bits, with \<open>idx\<close> from 1 to 32, the result read as
  a signed 32-bit number is the value read as a signed \<open>idx\<close>-bit number.\<close>

theorem SignExtend_signed:
  assumes "0 < idx" "idx \<le> 32" and "shr dat idx = 0"
  shows "sint (SignExtend dat idx) = signed_take_bit (unat idx - 1) (uint dat)"
proof (rule bit_eqI)
  fix n
  have i: "0 < unat idx" "unat idx \<le> 32" using assms by (simp_all add: word_le_nat_alt unat_gt_0)
  have "min (min 31 n) (unat idx - 1) = min n (unat idx - 1)" using i by auto
  then show "bit (sint (SignExtend dat idx)) n \<longleftrightarrow> bit (signed_take_bit (unat idx - 1) (uint dat)) n"
    using i by (auto simp: bit_simps bit_SignExtend [OF assms] min.commute dest: bit_u32_less)
qed

theorem SignExtend_signed_witness:
  "sint (SignExtend 0x80 8) = -128 \<and> shr 0x80 8 = 0"
proof -
  have h: "shr 0x80 8 = 0" by (simp add: shr_def)
  show ?thesis using SignExtend_signed [of 8 "0x80"] h by simp
qed

lemma SignExtend_shr:
  assumes "k < 32"
  shows "SignExtend (shr x k) (32 - k) = signed_drop_bit (unat k) x"
proof -
  have k: "unat k < 32" using assms by (simp add: word_less_nat_alt)
  have u: "unat (32 - k) = 32 - unat k" using assms by (intro unat_32_minus) (simp add: less_imp_le)
  have pos: "0 < 32 - k" using assms u k by (simp add: word_less_nat_alt)
  have le: "32 - k \<le> 32" using u by (simp add: word_le_nat_alt)
  have z: "shr (shr x k) (32 - k) = 0"
    using k by (auto simp: shr_eq_0_iff u dest: bit_u32_less)
  show ?thesis
  proof (rule bit_word_eqI)
    fix n assume "n < LENGTH(32)"
    then show "bit (SignExtend (shr x k) (32 - k)) n \<longleftrightarrow> bit (signed_drop_bit (unat k) x) n"
      using k by (auto simp: bit_SignExtend [OF pos le z] bit_simps u min_def)
  qed
qed

lemma and_mask_less_u32: "n < 32 \<Longrightarrow> (x :: u32) AND mask n < 2 ^ n"
  by (simp add: and_mask_less_size word_size)

lemma shamt_less: "(x :: u32) AND 0x1F < 32"
  using and_mask_less_u32 [of 5 x] by (simp add: masks(5))

text \<open>The right shifts sra and srav are the arithmetic shift of their operand, for every shift
  amount the instruction can encode.\<close>

theorem sra_arithmetic_shift:
  "execute_special insn 0x03 rs rt = Ok (signed_drop_bit (unat (shr insn 6 AND 0x1F)) rt) \<and>
   execute_special insn 0x07 rs rt = Ok (signed_drop_bit (unat (rs AND 0x1F)) rt)"
  by (simp add: execute_special_def Let_def SignExtend_shr shamt_less)

section \<open>Leading bits\<close>

lemma count_ones_spec:
  "\<exists>k \<le> 32. count_ones i rs = i + of_nat k \<and> (\<forall>j < k. bit rs (31 - j)) \<and> (k < 32 \<longrightarrow> \<not> bit rs (31 - k))"
proof (induction i rs rule: count_ones.induct)
  case (1 i rs)
  show ?case
  proof (cases "bit rs 31")
    case False
    then show ?thesis by (intro exI [of _ 0]) (simp add: count_ones.simps [of i rs] top_bit_iff)
  next
    case True
    then obtain k where k: "k \<le> 32" "count_ones (i + 1) (shl rs 1) = i + 1 + of_nat k"
        "\<forall>j < k. bit (shl rs 1) (31 - j)" "k < 32 \<longrightarrow> \<not> bit (shl rs 1) (31 - k)"
      using 1 by (auto simp: top_bit_iff)
    have k31: "k \<le> 31"
    proof (rule ccontr)
      assume "\<not> k \<le> 31"
      then have "bit (shl rs 1) (31 - 31)" using k(3) by (metis not_le_imp_less)
      then show False by simp
    qed
    have "bit rs (31 - j)" if "j < Suc k" for j
      using that True k(3) k31 by (cases j) auto
    moreover have "Suc k < 32 \<longrightarrow> \<not> bit rs (31 - Suc k)"
      using k(4) k31 by auto
    ultimately show ?thesis
      using True k(2) k31
      by (intro exI [of _ "Suc k"]) (simp add: count_ones.simps [of i rs] top_bit_iff)
  qed
qed

lemma count_ones_takeWhile:
  "count_ones i rs = i + of_nat (length (takeWhile (\<lambda>j. bit rs (31 - j)) [0..<32]))"
proof -
  obtain k where k: "k \<le> 32" "count_ones i rs = i + of_nat k" "\<forall>j < k. bit rs (31 - j)"
      "k < 32 \<longrightarrow> \<not> bit rs (31 - k)"
    using count_ones_spec by blast
  have s: "[0..<32] = [0..<k] @ [k..<32]"
    using k(1) upt_add_eq_append [of 0 k "32 - k"] by simp
  have e: "takeWhile (\<lambda>j. bit rs (31 - j)) [k..<32] = []"
    using k(4) by (cases "k < 32") (simp_all add: upt_conv_Cons)
  have "takeWhile (\<lambda>j. bit rs (31 - j)) ([0..<k] @ [k..<32]) =
      [0..<k] @ takeWhile (\<lambda>j. bit rs (31 - j)) [k..<32]"
    using k(3) by (intro takeWhile_append2) simp
  then have "takeWhile (\<lambda>j. bit rs (31 - j)) [0..<32] = [0..<k]"
    unfolding s e by simp
  with k(2) show ?thesis by simp
qed

text \<open>clz and clo count the leading zeros and ones: the result is the length of the longest
  run of zero (one) bits from bit 31 down, 32 when every bit is such. In particular the loop ends.\<close>

theorem clz_clo_count:
  "ExecuteMipsInstruction insn 0x1C 0x20 rs rt mem =
     Ok (of_nat (length (takeWhile (\<lambda>j. \<not> bit rs (31 - j)) [0..<32]))) \<and>
   ExecuteMipsInstruction insn 0x1C 0x21 rs rt mem =
     Ok (of_nat (length (takeWhile (\<lambda>j. bit rs (31 - j)) [0..<32])))"
proof -
  have "takeWhile (\<lambda>j. \<not> bit rs (31 - j)) [0..<32] = takeWhile (\<lambda>j. bit (NOT rs) (31 - j)) [0..<32]"
    by (rule takeWhile_cong) (auto simp: bit_simps)
  then show ?thesis
    using count_ones_takeWhile [of 0 rs] count_ones_takeWhile [of 0 "NOT rs"]
    by (simp add: ExecuteMipsInstruction_def execute_other_def)
qed

section \<open>Products and quotients\<close>

lemma uint_mult_64: "uint ((ucast rs :: u64) * ucast rt) = uint rs * uint (rt :: u32)" for rs :: u32
proof -
  have "uint rs < 2 ^ 32" "uint rt < 2 ^ 32" using uint_lt2p [of rs] uint_lt2p [of rt] by simp_all
  then have "uint rs * uint rt < 2 ^ 32 * 2 ^ 32" by (intro mult_strict_mono) auto
  moreover have "uint rs mod 2 ^ 64 = uint rs" "uint rt mod 2 ^ 64 = uint rt"
    using uint_lt2p [of rs] uint_lt2p [of rt] by simp_all
  ultimately show ?thesis by (simp add: uint_word_ariths unsigned_ucast_eq take_bit_eq_mod)
qed

lemma sint_range_u32: "- (2 ^ 31) \<le> sint (x :: u32)" "sint (x :: u32) < 2 ^ 31"
  using sint_ge [of x] sint_lt [of x] by simp_all

lemma sint_of_int_u64: "sint (word_of_int i :: u64) = signed_take_bit 63 i"
  by (simp add: signed_of_int)

lemma sint_mult_64: "sint ((scast rs :: u64) * scast rt) = sint rs * sint (rt :: u32)" for rs :: u32
proof -
  have b: "\<bar>sint rs\<bar> \<le> 2 ^ 31" "\<bar>sint rt\<bar> \<le> 2 ^ 31"
    using sint_range_u32 [of rs] sint_range_u32 [of rt] by linarith+
  have "\<bar>sint rs * sint rt\<bar> \<le> 2 ^ 31 * 2 ^ 31"
    unfolding abs_mult by (rule mult_mono) (use b in auto)
  then have r: "- (2 ^ 63) \<le> sint rs * sint rt" "sint rs * sint rt < 2 ^ 63" by simp_all
  have "sint ((scast rs :: u64) * scast rt) = sint (word_of_int (sint rs * sint rt) :: u64)"
    by (simp only: scast_eq of_int_mult)
  also have "\<dots> = signed_take_bit 63 (sint rs * sint rt)" by (rule sint_of_int_u64)
  also have "\<dots> = sint rs * sint rt"
    using r by (intro signed_take_bit_int_eq_self) auto
  finally show ?thesis .
qed

text \<open>mult and multu leave the exact 64-bit product in HI and LO: read as one signed
  (unsigned) number the two registers are the product of the operands.\<close>

theorem mult_exact_product:
  "(\<exists>hi lo. hilo_op cpu 0x18 rs rt = Ok (cpu\<lparr>cpu_HI := hi, cpu_LO := lo\<rparr>, 0) \<and>
     sint (word_cat hi lo :: u64) = sint rs * sint rt) \<and>
   (\<exists>hi lo. hilo_op cpu 0x19 rs rt = Ok (cpu\<lparr>cpu_HI := hi, cpu_LO := lo\<rparr>, 0) \<and>
     uint (word_cat hi lo :: u64) = uint rs * uint rt)"
proof -
  have cat: "word_cat (ucast (drop_bit 32 acc) :: u32) (ucast acc :: u32) = (acc :: u64)" for acc
    by (rule bit_word_eqI) (auto simp: bit_simps)
  show ?thesis
    by (rule conjI; rule exI [of _ "ucast (drop_bit 32 ((scast rs :: u64) * scast rt))"]
          exI [of _ "ucast (drop_bit 32 ((ucast rs :: u64) * ucast rt))"];
        rule exI [of _ "ucast ((scast rs :: u64) * scast rt)"]
          exI [of _ "ucast ((ucast rs :: u64) * ucast rt)"])
      (simp_all add: hilo_op_def Let_def cat sint_mult_64 uint_mult_64)
qed

lemma sdiv_bounds: "\<bar>(a :: int) sdiv b\<bar> \<le> \<bar>a\<bar>"
proof (cases "b = 0")
  case False
  then have "\<bar>a\<bar> div \<bar>b\<bar> \<le> \<bar>a\<bar> div 1" by (intro zdiv_mono2) auto
  moreover have "0 \<le> \<bar>a\<bar> div \<bar>b\<bar>" using False by (simp add: pos_imp_zdiv_nonneg_iff)
  ultimately have "\<bar>sgn a * sgn b\<bar> * (\<bar>a\<bar> div \<bar>b\<bar>) \<le> \<bar>a\<bar>"
    by (auto simp: abs_mult abs_sgn_eq)
  with \<open>0 \<le> \<bar>a\<bar> div \<bar>b\<bar>\<close> show ?thesis by (simp add: signed_divide_int_def abs_mult)
qed (simp add: signed_divide_int_def)

lemma smod_bounds:
  "(b :: int) \<noteq> 0 \<Longrightarrow> \<bar>a smod b\<bar> < \<bar>b\<bar> \<and> (a smod b = 0 \<or> sgn (a smod b) = sgn a)"
proof -
  assume b: "b \<noteq> 0"
  then have r: "0 \<le> \<bar>a\<bar> mod \<bar>b\<bar>" "\<bar>a\<bar> mod \<bar>b\<bar> < \<bar>b\<bar>" by simp_all
  then show ?thesis
    by (auto simp: signed_modulo_int_def abs_mult sgn_mult sgn_if)
qed

lemma overflowing_divisor:
  "(t :: int) = -1" if "t \<noteq> 0" "r \<le> 0" "\<bar>r\<bar> < \<bar>t\<bar>" "2 ^ 31 * t + r = - (2 ^ 31)"
proof (rule ccontr)
  assume "t \<noteq> -1"
  with that(1) consider "t \<le> -2" | "t \<ge> 1" by linarith
  then show False using that(2-4) by cases simp_all
qed

lemma sint_of_int_u32: "- (2 ^ 31) \<le> i \<Longrightarrow> i < 2 ^ 31 \<Longrightarrow> sint (word_of_int i :: u32) = i"
  by (simp add: signed_of_int signed_take_bit_int_eq_self)

text \<open>div truncates towards zero as MIPS does: unless the quotient overflows, the registers
  satisfy dividend = LO * divisor + HI, the remainder is smaller than the divisor and has the
  sign of the dividend. The overflowing case leaves the dividend and 0. Division by zero panics
  the VM, for div and divu alike.\<close>

theorem div_truncates:
  "if rt = 0 then hilo_op cpu 0x1a rs rt = Panic ''integer divide by zero'' \<and>
       hilo_op cpu 0x1b rs rt = Panic ''integer divide by zero''
   else \<exists>hi lo. hilo_op cpu 0x1a rs rt = Ok (cpu\<lparr>cpu_HI := hi, cpu_LO := lo\<rparr>, 0) \<and>
     (if sint rs = - (2 ^ 31) \<and> sint rt = -1 then lo = rs \<and> hi = 0
      else sint lo * sint rt + sint hi = sint rs \<and> \<bar>sint hi\<bar> < \<bar>sint rt\<bar> \<and>
        (hi = 0 \<or> sgn (sint hi) = sgn (sint rs)))"
proof (cases "rt = 0")
  case True
  then show ?thesis by (simp add: hilo_op_def)
next
  case rt: False
  then have rt': "sint rt \<noteq> 0" by (simp add: signed_eq_0_iff)
  let ?q = "sint rs sdiv sint rt" and ?r = "sint rs smod sint rt"
  have run: "hilo_op cpu 0x1a rs rt = Ok (cpu\<lparr>cpu_HI := word_of_int ?r, cpu_LO := word_of_int ?q\<rparr>, 0)"
    using rt by (simp add: hilo_op_def)
  have r: "sint (word_of_int ?r :: u32) = ?r"
    using smod_bounds [OF rt', of "sint rs"] sint_range_u32 [of rt] by (intro sint_of_int_u32) linarith+
  have "\<exists>hi lo. hilo_op cpu 0x1a rs rt = Ok (cpu\<lparr>cpu_HI := hi, cpu_LO := lo\<rparr>, 0) \<and>
     (if sint rs = - (2 ^ 31) \<and> sint rt = -1 then lo = rs \<and> hi = 0
      else sint lo * sint rt + sint hi = sint rs \<and> \<bar>sint hi\<bar> < \<bar>sint rt\<bar> \<and>
        (hi = 0 \<or> sgn (sint hi) = sgn (sint rs)))"
  proof (cases "sint rs = - (2 ^ 31) \<and> sint rt = -1")
    case True
    then have "?q = 2 ^ 31" "?r = 0" by (simp_all add: signed_divide_int_def signed_modulo_int_def)
    moreover have "(word_of_int (2 ^ 31) :: u32) = rs"
    proof -
      have "rs = word_of_int (sint rs)" by simp
      also have "\<dots> = word_of_int (2 ^ 31)" using True by simp
      finally show ?thesis by simp
    qed
    ultimately show ?thesis using run True by auto
  next
    case False
    have le: "\<bar>?q\<bar> \<le> 2 ^ 31" using sdiv_bounds [of "sint rs" "sint rt"] sint_range_u32 [of rs] by linarith
    have "?q \<noteq> 2 ^ 31"
    proof
      assume q: "?q = 2 ^ 31"
      then have a: "sint rs = - (2 ^ 31)"
        using sdiv_bounds [of "sint rs" "sint rt"] sint_range_u32 [of rs] by linarith
      have e: "2 ^ 31 * sint rt + ?r = sint rs"
        using sdiv_mult_smod_eq [of "sint rs" "sint rt"] unfolding q .
      have "?r \<le> 0" "\<bar>?r\<bar> < \<bar>sint rt\<bar>"
        using smod_bounds [OF rt', of "sint rs"] a by (auto simp: sgn_if split: if_splits)
      then have "sint rt = -1" using e rt' unfolding a by (intro overflowing_divisor) auto
      with a False show False by simp
    qed
    with le have "sint (word_of_int ?q :: u32) = ?q" by (intro sint_of_int_u32) linarith+
    then have "sint (word_of_int ?q :: u32) * sint rt + sint (word_of_int ?r :: u32) = sint rs"
      by (simp add: r sdiv_mult_smod_eq)
    then show ?thesis
      using run False r smod_bounds [OF rt', of "sint rs"]
      by (intro exI [of _ "word_of_int ?r"] exI [of _ "word_of_int ?q"]) auto
  qed
  with rt show ?thesis by (simp only: if_False)
qed

section \<open>Bytes of a word\<close>

lemma and_3_eq: "(x :: u32) AND 3 = take_bit 2 x"
  by (simp add: take_bit_eq_mask mask_numeral)

lemma and_3_cases: obtains "(x :: u32) AND 3 = 0" | "x AND 3 = 1" | "x AND 3 = 2" | "x AND 3 = 3"
proof -
  have "unat (x AND 3) < 4"
    using take_bit_nat_less_exp [of 2 "unat x"] by (simp add: and_3_eq unsigned_take_bit_eq)
  then consider "unat (x AND 3) = unat (0 :: u32)" | "unat (x AND 3) = unat (1 :: u32)"
    | "unat (x AND 3) = unat (2 :: u32)" | "unat (x AND 3) = unat (3 :: u32)"
    by (simp, linarith)
  then show ?thesis using that unfolding word_unat_eq_iff by cases blast+
qed

lemma and_3_add3: "(x + 3) AND 3 = ((x AND 3) + 3) AND (3 :: u32)"
proof -
  have "unat ((y + 3) AND 3) = (unat y + 3) mod 4" for y :: u32
    by (simp add: and_3_eq unsigned_take_bit_eq take_bit_eq_mod unat_word_ariths mod_mod_cancel)
  moreover have "unat (x AND 3) = unat x mod 4"
    by (simp add: and_3_eq unsigned_take_bit_eq take_bit_eq_mod unat_mod)
  ultimately show ?thesis by (simp add: word_unat_eq_iff mod_add_left_eq)
qed

lemma disj_less4: "(i :: nat) < 4 \<longleftrightarrow> i = 0 \<or> i = 1 \<or> i = 2 \<or> i = 3" by auto

definition word_byte :: "u32 \<Rightarrow> nat \<Rightarrow> byte" where
  "word_byte w i = ucast (drop_bit (24 - 8 * i) w)"

definition word_bytes :: "u32 \<Rightarrow> bytes" where
  "word_bytes w = map (word_byte w) [0..<4]"

lemma length_word_bytes [simp]: "length (word_bytes w) = 4"
  by (simp add: word_bytes_def)

lemma nth_word_bytes [simp]: "i < 4 \<Longrightarrow> word_bytes w ! i = word_byte w i"
  by (simp add: word_bytes_def)

lemma and_2_of_3: "x AND 2 = (x AND 3) AND (2 :: u32)"
  by (simp add: and.assoc)

lemma bit_lwl:
  "bit ((rt AND NOT (shl 0xFFFFFFFF k)) OR shl m k) n \<longleftrightarrow>
     n < 32 \<and> (if unat k \<le> n then bit m (n - unat k) else bit rt n)"
  unfolding masks(3) by (auto simp: bit_simps dest: bit_u32_less)

lemma bit_lwr:
  "bit ((rt AND NOT (shr 0xFFFFFFFF k)) OR shr m k) n \<longleftrightarrow>
     n < 32 \<and> (if unat k + n < 32 then bit m (unat k + n) else bit rt n)"
  unfolding masks(3) by (auto simp: bit_simps dest: bit_u32_less)

text \<open>The unaligned load pair lwl, lwr at any address assembles the four bytes that start
  there: with \<open>m0\<close> the aligned word that holds the address and \<open>m1\<close> the next one, the register ends
  as the 32 bits of \<open>m0\<close>, \<open>m1\<close> that begin at the byte offset, whatever it held before.\<close>

theorem lwl_lwr_unaligned:
  "\<exists>v w. ExecuteMipsInstruction insn 0x22 f rs rt m0 = Ok v \<and>
     ExecuteMipsInstruction insn 0x26 f (rs + 3) v (if rs AND 3 = 0 then m0 else m1) = Ok w \<and>
     w = ucast (drop_bit (32 - 8 * unat (rs AND 3)) (word_cat m0 m1 :: u64))"
  by (rule and_3_cases [of rs])
   (auto intro!: bit_word_eqI simp: ExecuteMipsInstruction_def execute_other_def and_3_add3 [of rs]
       bit_lwl bit_lwr Let_def bit_unsigned_iff bit_drop_bit_eq bit_word_cat_iff simp del: bit_shl bit_shr)

lemma bit_store:
  "0xFFFFFFFF XOR shl (mask l) k = NOT (shl (mask l) k)"
  unfolding masks(3) by (rule bit_word_eqI) (auto simp: bit_simps)

lemma bit_subword:
  "bit ((m AND NOT (shl (mask l) k)) OR shl (rt AND mask l) k) n \<longleftrightarrow>
     n < 32 \<and> (if unat k \<le> n \<and> n < unat k + l then bit rt (n - unat k) else bit m n)"
  by (auto simp: bit_simps dest: bit_u32_less)

lemma unat_byte_shift:
  "unat (24 - ((rs :: u32) AND 3) * 8) = 24 - 8 * unat (rs AND 3) \<and> unat (rs AND 3) < 4"
  by (rule and_3_cases [of rs]) simp_all

lemma bit_word_byte [simp]: "bit (word_byte w i) n \<longleftrightarrow> n < 8 \<and> bit w (24 - 8 * i + n)"
  by (simp add: word_byte_def bit_simps)

lemma byte_store_load:
  "\<exists>w. ExecuteMipsInstruction insn 0x28 f rs rt m = Ok w \<and>
     word_bytes w = (word_bytes m)[unat (rs AND 3) := ucast rt] \<and>
     ExecuteMipsInstruction insn 0x24 f rs rt' w = Ok (ucast (ucast rt :: byte)) \<and>
     ExecuteMipsInstruction insn 0x20 f rs rt' w = Ok (scast (ucast rt :: byte))"
proof -
  let ?k = "24 - (rs AND 3) * 8"
  let ?w = "(m AND NOT (shl (mask 8) ?k)) OR shl (rt AND mask 8) ?k"
  have k: "unat ?k = 24 - 8 * unat (rs AND 3)" "unat (rs AND 3) < 4"
    using unat_byte_shift by blast+
  have st: "ExecuteMipsInstruction insn 0x28 f rs rt m = Ok ?w"
    by (simp add: ExecuteMipsInstruction_def execute_other_def Let_def masks(1) bit_store)
  have byte: "word_byte ?w i = (if i = unat (rs AND 3) then ucast rt else word_byte m i)" if "i < 4" for i
    using that k(2)
    by (intro bit_word_eqI) (auto simp: bit_subword k(1) bit_unsigned_iff)
  have bytes: "word_bytes ?w = (word_bytes m)[unat (rs AND 3) := ucast rt]"
    using k(2) by (intro nth_equalityI) (auto simp: byte nth_list_update)
  have ld: "shr ?w ?k AND mask 8 = ucast (ucast rt :: byte)"
    using k by (intro bit_word_eqI) (auto simp: bit_subword bit_and_iff bit_mask_iff bit_unsigned_iff)
  have z: "shr (ucast (ucast rt :: byte)) 8 = 0"
    by (simp add: shr_eq_0_iff bit_unsigned_iff)
  have sx: "SignExtend (ucast (ucast rt :: byte)) 8 = scast (ucast rt :: byte)"
    by (intro bit_word_eqI) (auto simp: bit_SignExtend [OF _ _ z] bit_unsigned_iff bit_signed_iff min_def)
  show ?thesis
    using st bytes
    by (intro exI [of _ ?w]) (simp add: ExecuteMipsInstruction_def execute_other_def masks(1) ld sx)
qed

lemma unat_half_shift:
  "unat (16 - ((rs :: u32) AND 2) * 8) = 16 - 8 * unat (rs AND 2) \<and> (unat (rs AND 2) = 0 \<or> unat (rs AND 2) = 2)"
  unfolding and_2_of_3 [of rs] by (rule and_3_cases [of rs]) simp_all

lemma half_store_load:
  "\<exists>w. ExecuteMipsInstruction insn 0x29 f rs rt m = Ok w \<and>
     word_bytes w = (word_bytes m)[unat (rs AND 2) := word_byte rt 2,
       unat (rs AND 2) + 1 := word_byte rt 3] \<and>
     ExecuteMipsInstruction insn 0x25 f rs rt' w = Ok (ucast (ucast rt :: 16 word)) \<and>
     ExecuteMipsInstruction insn 0x21 f rs rt' w = Ok (scast (ucast rt :: 16 word))"
proof -
  let ?k = "16 - (rs AND 2) * 8"
  let ?w = "(m AND NOT (shl (mask 16) ?k)) OR shl (rt AND mask 16) ?k"
  have k: "unat ?k = 16 - 8 * unat (rs AND 2)" "unat (rs AND 2) = 0 \<or> unat (rs AND 2) = 2"
    using unat_half_shift by blast+
  have st: "ExecuteMipsInstruction insn 0x29 f rs rt m = Ok ?w"
    by (simp add: ExecuteMipsInstruction_def execute_other_def Let_def masks(2) bit_store)
  have byte: "word_byte ?w i = (if i = unat (rs AND 2) then word_byte rt 2
      else if i = unat (rs AND 2) + 1 then word_byte rt 3 else word_byte m i)" if "i < 4" for i
    using that k(2)
    by (intro bit_word_eqI) (auto simp: bit_subword k(1) disj_less4)
  have bytes: "word_bytes ?w = (word_bytes m)[unat (rs AND 2) := word_byte rt 2,
      unat (rs AND 2) + 1 := word_byte rt 3]"
    using k(2) by (intro nth_equalityI) (auto simp: byte nth_list_update)
  have ld: "shr ?w ?k AND mask 16 = ucast (ucast rt :: 16 word)"
    using k by (intro bit_word_eqI) (auto simp: bit_subword bit_and_iff bit_mask_iff bit_unsigned_iff)
  have z: "shr (ucast (ucast rt :: 16 word)) 16 = 0"
    by (simp add: shr_eq_0_iff bit_unsigned_iff)
  have sx: "SignExtend (ucast (ucast rt :: 16 word)) 16 = scast (ucast rt :: 16 word)"
    by (intro bit_word_eqI) (auto simp: bit_SignExtend [OF _ _ z] bit_unsigned_iff bit_signed_iff min_def)
  show ?thesis
    using st bytes
    by (intro exI [of _ ?w]) (simp add: ExecuteMipsInstruction_def execute_other_def masks(2) ld sx)
qed
text \<open>The byte and half-word stores change exactly the addressed bytes of the word they are
  merged into, and the loads at the same address, signed and unsigned, give the stored value back.\<close>

theorem subword_store_load:
  "(\<exists>w. ExecuteMipsInstruction insn 0x28 f rs rt m = Ok w \<and>
     word_bytes w = (word_bytes m)[unat (rs AND 3) := ucast rt] \<and>
     ExecuteMipsInstruction insn 0x24 f rs rt' w = Ok (ucast (ucast rt :: byte)) \<and>
     ExecuteMipsInstruction insn 0x20 f rs rt' w = Ok (scast (ucast rt :: byte))) \<and>
   (\<exists>w. ExecuteMipsInstruction insn 0x29 f rs rt m = Ok w \<and>
     word_bytes w = (word_bytes m)[unat (rs AND 2) := word_byte rt 2,
       unat (rs AND 2) + 1 := word_byte rt 3] \<and>
     ExecuteMipsInstruction insn 0x25 f rs rt' w = Ok (ucast (ucast rt :: 16 word)) \<and>
     ExecuteMipsInstruction insn 0x21 f rs rt' w = Ok (scast (ucast rt :: 16 word)))"
  by (intro conjI byte_store_load half_store_load)

end
