(* ===== verification/CannonExecProps.thy ===== *)
theory CannonExecProps
  imports CannonExec CannonMipsProps
begin

unbundle bit_operations_syntax

text \<open>
  What the shared parts of the VMs preserve: the coherence of the memory, and the validity of the
  recorded access proof against the memory \<open>f\<close> as it was when the step began. Every access is
  tracked before the step writes, so \<open>pre\<close> holds up to the write and \<open>post\<close> after it. Then the
  meaning of the system calls for the guest.
\<close>

section \<open>Proof validity\<close>

definition proof_valid :: "(bytes \<Rightarrow> hash) \<Rightarrow> (u32 \<Rightarrow> byte) \<Rightarrow> u32 \<Rightarrow> bytes \<Rightarrow> bool" where
  "proof_valid kk f addr proof \<longleftrightarrow>
     (\<exists>sibs. proof = chunk f (2 ^ 27 + unat addr div 32) @ concat sibs \<and> length sibs = 27 \<and>
        (\<forall>s \<in> set sibs. length s = 32) \<and>
        verify_path kk (2 ^ 27 + unat addr div 32) (chunk f (2 ^ 27 + unat addr div 32)) sibs = ref_root kk f)"

definition hash_size :: "(bytes \<Rightarrow> hash) \<Rightarrow> bool" where
  "hash_size kk \<longleftrightarrow> (\<forall>b. length (kk b) = 32)"

lemma MerkleProof_valid:
  assumes "hash_size kk" "mem_coh kk m"
  shows "\<exists>m' proof. MerkleProof kk m addr = Ok (m', proof) \<and> proof_valid kk (mem_byte m) addr proof \<and>
    mem_coh kk m' \<and> mem_byte m' = mem_byte m"
proof -
  have a: "anc addr 27 = 2 ^ 27 + unat addr div 32" by (simp add: anc_def)
  obtain m' sibs where p:
    "MerkleProof kk m addr = Ok (m', chunk (mem_byte m) (2 ^ 27 + unat addr div 32) @ concat sibs)"
    "length sibs = 27" "\<forall>s \<in> set sibs. \<exists>g. 0 < g \<and> bits_len g \<le> 28 \<and> s = node_hash kk m g"
    "verify_path kk (2 ^ 27 + unat addr div 32) (chunk (mem_byte m) (2 ^ 27 + unat addr div 32)) sibs =
       ref_root kk (mem_byte m)" "mem_coh kk m'" "merk_ext m m'"
    using MerkleProof_ok [OF assms(2), of addr] unfolding a by blast
  have "\<forall>s \<in> set sibs. length s = 32"
    using p(3) length_node_hash [of kk m] assms(1) by (auto simp: hash_size_def)
  then have "proof_valid kk (mem_byte m) addr (chunk (mem_byte m) (2 ^ 27 + unat addr div 32) @ concat sibs)"
    unfolding proof_valid_def using p(2,4) by blast
  with p(1,5) merk_ext_mem_byte [OF p(6) mem_coh_wf [OF assms(2)]] show ?thesis by blast
qed

definition track_inv :: "(bytes \<Rightarrow> hash) \<Rightarrow> (u32 \<Rightarrow> byte) \<Rightarrow> mem_tracker \<Rightarrow> bool" where
  "track_inv kk f mt \<longleftrightarrow>
     (mt_enabled mt \<longrightarrow> mt_last mt = 0xFFFFFFFF \<or> proof_valid kk f (mt_last mt) (mt_proof mt))"

definition pre :: "(bytes \<Rightarrow> hash) \<Rightarrow> (u32 \<Rightarrow> byte) \<Rightarrow> memory \<Rightarrow> mem_tracker \<Rightarrow> bool" where
  "pre kk f m mt \<longleftrightarrow> hash_size kk \<and> mem_coh kk m \<and> mem_byte m = f \<and> track_inv kk f mt"

definition post :: "(bytes \<Rightarrow> hash) \<Rightarrow> (u32 \<Rightarrow> byte) \<Rightarrow> memory \<Rightarrow> mem_tracker \<Rightarrow> bool" where
  "post kk f m mt \<longleftrightarrow> hash_size kk \<and> mem_coh kk m \<and> track_inv kk f mt"

lemma pre_post: "pre kk f m mt \<Longrightarrow> post kk f m mt"
  by (simp add: pre_def post_def)

lemma TrackMemAccess_pre:
  assumes "pre kk f m mt" "TrackMemAccess kk mt m a = Ok (mt', m')"
  shows "pre kk f m' mt'" "mt_enabled mt' = mt_enabled mt"
proof -
  obtain m1 p where p: "MerkleProof kk m a = Ok (m1, p)" "proof_valid kk f a p" "mem_coh kk m1" "mem_byte m1 = f"
    using MerkleProof_valid [of kk m a] assms(1) by (auto simp: pre_def)
  show "pre kk f m' mt'" "mt_enabled mt' = mt_enabled mt"
    using assms p by (auto simp: TrackMemAccess_def pre_def track_inv_def res_simps split: if_splits)
qed

lemma GetMemory_pre:
  assumes "pre kk f m mt" "GetMemory m a = Ok (m', v)"
  shows "pre kk f m' mt" "v = un32 [f a, f (a + 1), f (a + 2), f (a + 3)]"
proof -
  have "a AND 3 = 0" using assms(2) GetMemory_unaligned [of a m] by (cases "a AND 3 = 0") auto
  from GetMemory_coh [OF _ this, of kk m] assms show "pre kk f m' mt" "v = un32 [f a, f (a + 1), f (a + 2), f (a + 3)]"
    by (auto simp: pre_def mem_word_def)
qed

lemma SetMemory_post:
  assumes "post kk f m mt" "SetMemory m a v = Ok m'"
  shows "post kk f m' mt"
    "mem_byte m' = (\<lambda>b. if unat (b - a) < 4 then be32 v ! unat (b - a) else mem_byte m b)"
proof -
  have "a AND 3 = 0" using assms(2) SetMemory_unaligned [of a m v] by (cases "a AND 3 = 0") auto
  from SetMemory_coh [OF _ this, of kk m v] assms
  show "post kk f m' mt" "mem_byte m' = (\<lambda>b. if unat (b - a) < 4 then be32 v ! unat (b - a) else mem_byte m b)"
    by (auto simp: post_def)
qed

lemma memReader_Read_same:
  assumes "mem_wf m" "memReader_Read m a c dl = Ok (m', a', c', data, e)"
  shows "same_pages m m' \<and> mem_wf m'"
proof -
  obtain m1 p ok where l: "pageLookup m (shr a 12) = (m1, p, ok)" by (metis prod_cases3)
  have "same_pages m m1 \<and> mem_wf m1" using pageLookup_ok [OF assms(1) page_key_ne [of a]] l by auto
  moreover have "m' = m \<or> m' = m1"
    using assms(2) l by (auto simp: memReader_Read_def Let_def res_simps split: if_splits)
  ultimately show ?thesis using assms(1) by auto
qed

lemma read_all_same:
  "read_all m a c = Ok (m', dat) \<Longrightarrow> mem_wf m \<Longrightarrow> same_pages m m' \<and> mem_wf m'"
proof (induction m a c arbitrary: m' dat rule: read_all.induct)
  case (1 m a c)
  obtain m1 a1 c1 data e where r: "memReader_Read m a c 512 = Ok (m1, a1, c1, data, e)"
    using 1(2) by (subst (asm) read_all.simps) (auto split: res.splits prod.splits option.splits)
  have s: "same_pages m m1" "mem_wf m1" using memReader_Read_same [OF 1(3) r] by blast+
  show ?case
  proof (cases e)
    case None
    then obtain m2 rest where m2: "read_all m1 a1 c1 = Ok (m2, rest)" "m' = m2"
      using 1(2) r by (subst (asm) read_all.simps) (auto simp: res_simps)
    have "same_pages m1 m2 \<and> mem_wf m2"
      by (rule 1(1) [OF r refl refl refl refl _ m2(1) s(2)]) (rule None)
    then show ?thesis using s(1) m2(2) by (auto simp: same_pages_def)
  next
    case (Some x)
    then show ?thesis using 1(2) r s by (subst (asm) read_all.simps) auto
  qed
qed

lemma read_all_pre:
  assumes "pre kk f m mt" "read_all m a c = Ok (m', dat)"
  shows "pre kk f m' mt"
proof -
  have "same_pages m m' \<and> mem_wf m'"
    using read_all_same [OF assms(2)] mem_coh_wf [of kk m] assms(1) by (simp add: pre_def)
  then show ?thesis using assms(1) mem_coh_same [of kk m m'] mem_byte_same [of m m'] by (simp add: pre_def)
qed

section \<open>System calls keep the invariants\<close>

lemma HandleSysRead_post:
  assumes "HandleSysRead kk po a0 a1 a2 key off io = Ok (io', v0, v1, off', upd, addr)"
    and "pre kk f (io_mem io) (io_mt io)"
  shows "post kk f (io_mem io') (io_mt io')" "mt_enabled (io_mt io') = mt_enabled (io_mt io)" "io_out io' = io_out io"
proof -
  have "post kk f (io_mem io') (io_mt io') \<and> mt_enabled (io_mt io') = mt_enabled (io_mt io) \<and> io_out io' = io_out io"
  proof (cases "a0 = 5")
    case True
    obtain mt m1 m2 mem pr dat datLen where s:
      "TrackMemAccess kk (io_mt io) (io_mem io) (a1 AND 0xFFFFFFFC) = Ok (mt, m1)"
      "GetMemory m1 (a1 AND 0xFFFFFFFC) = Ok (m2, mem)"
      "ReadPreimage po (io_pr io) key off = Ok (pr, dat, datLen)"
      using assms(1) True by (auto simp: HandleSysRead_def Let_def res_simps)
    obtain w m3 where m3: "SetMemory m2 (a1 AND 0xFFFFFFFC) w = Ok m3"
      "io' = io\<lparr>io_mem := m3, io_mt := mt, io_pr := pr\<rparr>"
      using assms(1) True s by (auto simp: HandleSysRead_def Let_def res_simps)
    have "pre kk f m2 mt" "mt_enabled mt = mt_enabled (io_mt io)"
      using TrackMemAccess_pre [OF assms(2) s(1)] GetMemory_pre [OF _ s(2)] by blast+
    then show ?thesis using SetMemory_post [OF pre_post m3(1)] m3(2) by simp
  next
    case False
    then have "io' = io" using assms(1) by (auto simp: HandleSysRead_def split: if_splits)
    then show ?thesis using pre_post [OF assms(2)] by simp
  qed
  then show "post kk f (io_mem io') (io_mt io')" "mt_enabled (io_mt io') = mt_enabled (io_mt io)" "io_out io' = io_out io"
    by blast+
qed

lemma HandleSysWrite_pre:
  assumes "HandleSysWrite kk a0 a1 a2 hint key off io = Ok (io', v0, v1, hint', key', off')"
    and "pre kk f (io_mem io) (io_mt io)"
  shows "pre kk f (io_mem io') (io_mt io')" "mt_enabled (io_mt io') = mt_enabled (io_mt io)"
    "length key = 32 \<longrightarrow> length key' = 32"
proof -
  have "pre kk f (io_mem io') (io_mt io') \<and> mt_enabled (io_mt io') = mt_enabled (io_mt io) \<and>
    (length key = 32 \<longrightarrow> length key' = 32)"
  proof (cases "a0 = 6")
    case True
    obtain mt m1 m2 mem where s:
      "TrackMemAccess kk (io_mt io) (io_mem io) (a1 AND 0xFFFFFFFC) = Ok (mt, m1)"
      "GetMemory m1 (a1 AND 0xFFFFFFFC) = Ok (m2, mem)" "io' = io\<lparr>io_mem := m2, io_mt := mt\<rparr>"
      using assms(1) True by (auto simp: HandleSysWrite_def Let_def res_simps)
    have k: "unat (a1 AND 3) < 4" using unat_byte_shift by blast
    define n where "n = unat (if 4 - (a1 AND 3) < a2 then 4 - (a1 AND 3) else a2)"
    have sp: "unat (4 - (a1 AND 3)) = 4 - unat (a1 AND 3)"
      using k by (simp add: unat_sub word_le_nat_alt)
    have n: "n \<le> 4 - unat (a1 AND 3)" using sp by (auto simp: n_def word_less_nat_alt)
    have key': "key' = take (32 - n) (drop n key @ drop (length key - n) key) @ take n (drop (unat (a1 AND 3)) (be32 mem))"
      using assms(1) True s(1,2) by (auto simp: HandleSysWrite_def Let_def res_simps n_def)
    have "length key = 32 \<longrightarrow> length key' = 32" using n k by (auto simp: key' min_def)
    moreover have "pre kk f m2 mt" "mt_enabled mt = mt_enabled (io_mt io)"
      using TrackMemAccess_pre [OF assms(2) s(1)] GetMemory_pre [OF _ s(2)] by blast+
    ultimately show ?thesis using s(3) by simp
  next
    case False
    show ?thesis
    proof (cases "a0 = 1 \<or> a0 = 2 \<or> a0 = 4")
      case True
      then obtain m1 dat where r: "read_all (io_mem io) a1 a2 = Ok (m1, dat)" "io_mem io' = m1" "io_mt io' = io_mt io"
        "key' = key"
        using assms(1) by (auto simp: HandleSysWrite_def res_simps case_prod_beta)
      show ?thesis using read_all_pre [OF assms(2) r(1)] r by simp
    next
      case False2: False
      then have "io' = io" "key' = key" using assms(1) False by (auto simp: HandleSysWrite_def split: if_splits)
      then show ?thesis using assms(2) by simp
    qed
  qed
  then show "pre kk f (io_mem io') (io_mt io')" "mt_enabled (io_mt io') = mt_enabled (io_mt io)"
    "length key = 32 \<longrightarrow> length key' = 32" by blast+
qed

section \<open>The zero register\<close>

lemma set_reg_0: "r < 32 \<Longrightarrow> r \<noteq> 0 \<Longrightarrow> set_reg regs r v 0 = regs 0"
proof -
  assume r: "r < 32" "r \<noteq> 0"
  then have "unat r < 32" "unat r \<noteq> 0" by (simp_all add: word_less_nat_alt unat_eq_zero)
  then have "unat (ucast r :: 5 word) \<noteq> 0" by (simp add: unsigned_ucast_eq take_bit_eq_mod)
  then have "(ucast r :: 5 word) \<noteq> 0" by (metis unat_0)
  then show ?thesis by (simp add: set_reg_def)
qed

lemma HandleRd_zero: "HandleRd cpu regs r v c = Ok (cpu', regs') \<Longrightarrow> regs' 0 = regs 0"
  by (auto simp: HandleRd_def Let_def res_simps set_reg_0)

lemma HandleJump_zero: "HandleJump cpu regs l d = Ok (cpu', regs') \<Longrightarrow> regs' 0 = regs 0"
  by (auto simp: HandleJump_def Let_def res_simps set_reg_0)

lemma HandleBranch_zero: "HandleBranch cpu regs oc insn rtReg rs = Ok (cpu', regs') \<Longrightarrow> regs' = regs"
  by (auto simp: HandleBranch_def Let_def res_simps)

lemma HandleHiLo_zero: "HandleHiLo cpu regs f rs rt r = Ok (cpu', regs') \<Longrightarrow> regs' 0 = regs 0"
  by (auto simp: HandleHiLo_def Let_def res_simps set_reg_0)

lemma HandleSyscallUpdates_zero: "HandleSyscallUpdates cpu regs v0 v1 = (cpu', regs') \<Longrightarrow> regs' 0 = regs 0"
  by (auto simp: HandleSyscallUpdates_def set_reg_0)

lemmas zero_lemmas = HandleRd_zero HandleJump_zero HandleBranch_zero HandleHiLo_zero

section \<open>One instruction keeps the invariants\<close>

definition core_pre :: "(bytes \<Rightarrow> hash) \<Rightarrow> (u32 \<Rightarrow> byte) \<Rightarrow> core \<Rightarrow> bool" where
  "core_pre kk f c \<longleftrightarrow> pre kk f (co_mem c) (co_mt c)"

definition core_post :: "(bytes \<Rightarrow> hash) \<Rightarrow> (u32 \<Rightarrow> byte) \<Rightarrow> core \<Rightarrow> core \<Rightarrow> bool" where
  "core_post kk f c c' \<longleftrightarrow> post kk f (co_mem c') (co_mt c') \<and> mt_enabled (co_mt c') = mt_enabled (co_mt c) \<and>
     co_regs c' 0 = co_regs c 0"

lemma on_cpu_post:
  assumes "on_cpu c1 r = Ok c'" "\<And>cpu' regs'. r = Ok (cpu', regs') \<Longrightarrow> regs' 0 = co_regs c1 0"
    and "post kk f (co_mem c1) (co_mt c1)" "mt_enabled (co_mt c1) = mt_enabled (co_mt c)" "co_regs c1 0 = co_regs c 0"
  shows "core_post kk f c c'"
proof -
  obtain cpu' regs' where "r = Ok (cpu', regs')" "c' = c1\<lparr>co_cpu := cpu', co_regs := regs'\<rparr>"
    using assms(1) by (auto simp: on_cpu_def res_simps)
  with assms(2-5) show ?thesis by (simp add: core_post_def)
qed

lemma core_fetch_pre:
  assumes "core_fetch kk c insn oc rs rd = Ok (c1, rs', mem, sa, rd')" "core_pre kk f c"
  shows "core_pre kk f c1" "mt_enabled (co_mt c1) = mt_enabled (co_mt c)" "co_regs c1 = co_regs c" "co_cpu c1 = co_cpu c"
proof -
  have "core_pre kk f c1 \<and> mt_enabled (co_mt c1) = mt_enabled (co_mt c) \<and> co_regs c1 = co_regs c \<and> co_cpu c1 = co_cpu c"
  proof (cases "oc \<ge> 0x20")
    case True
    obtain mt m1 m2 where s: "TrackMemAccess kk (co_mt c) (co_mem c) (rs' AND 0xFFFFFFFC) = Ok (mt, m1)"
      "GetMemory m1 (rs' AND 0xFFFFFFFC) = Ok (m2, mem)" "c1 = c\<lparr>co_mem := m2, co_mt := mt\<rparr>"
      using assms(1) True by (auto simp: core_fetch_def Let_def res_simps)
    have "pre kk f m2 mt" "mt_enabled mt = mt_enabled (co_mt c)"
      using TrackMemAccess_pre [OF _ s(1)] GetMemory_pre [OF _ s(2)] assms(2) by (auto simp: core_pre_def)
    then show ?thesis using s(3) by (simp add: core_pre_def)
  next
    case False
    then show ?thesis using assms by (simp add: core_fetch_def)
  qed
  then show "core_pre kk f c1" "mt_enabled (co_mt c1) = mt_enabled (co_mt c)" "co_regs c1 = co_regs c" "co_cpu c1 = co_cpu c"
    by blast+
qed

lemma core_special_post:
  assumes "core_special lookup c1 fun' rs rt rd = Ok c'"
    and "post kk f (co_mem c1) (co_mt c1)" "mt_enabled (co_mt c1) = mt_enabled (co_mt c)" "co_regs c1 0 = co_regs c 0"
  shows "core_post kk f c c'"
  using assms unfolding core_special_def Let_def
  by (auto split: if_splits elim!: on_cpu_post dest: zero_lemmas)

lemma ExecMipsCoreStepLogic_post:
  assumes run: "ExecMipsCoreStepLogic kk lookup c insn oc fun' = Ok (c', upd, addr)" and pre: "core_pre kk f c"
  shows "core_post kk f c c'"
proof -
  have p: "post kk f (co_mem c) (co_mt c)" using pre pre_post by (simp add: core_pre_def)
  consider (jump) "oc = 2 \<or> oc = 3" | (branch) "oc \<noteq> 2" "oc \<noteq> 3" "(4 \<le> oc \<and> oc < 8) \<or> oc = 1"
    | (rest) "oc \<noteq> 2" "oc \<noteq> 3" "\<not> ((4 \<le> oc \<and> oc < 8) \<or> oc = 1)" by blast
  then show ?thesis
  proof cases
    case jump
    then obtain st l d where r: "on_cpu (c\<lparr>co_st := st\<rparr>) (HandleJump (co_cpu c) (co_regs c) l d) = Ok c'"
      using run by (auto simp: ExecMipsCoreStepLogic_def Let_def res_simps)
    show ?thesis by (rule on_cpu_post [OF r]) (auto simp: p dest: HandleJump_zero)
  next
    case branch
    then obtain rtReg rs where r: "on_cpu c (HandleBranch (co_cpu c) (co_regs c) oc insn rtReg rs) = Ok c'"
      using run by (auto simp: ExecMipsCoreStepLogic_def Let_def res_simps)
    show ?thesis by (rule on_cpu_post [OF r]) (auto simp: p dest: HandleBranch_zero)
  next
    case rest
    obtain c1 rs mem sa rd val where s:
      "core_fetch kk c insn oc (get_reg (co_regs c) (shr insn 21 AND 0x1F)) (dest_reg insn oc) = Ok (c1, rs, mem, sa, rd)"
      "ExecuteMipsInstruction insn oc fun' rs (operand_rt (co_regs c) insn oc) mem = Ok val"
      and t: "(if oc = 0 \<and> fun' \<ge> 8 \<and> fun' < 0x1c \<and> (fun' < 0xc \<or> fun' \<ge> 0x10) then
               bind_res (core_special lookup c1 fun' rs (operand_rt (co_regs c) insn oc) rd) (\<lambda>c'. Ok (c', False, 0))
             else if sa \<noteq> 0xFFFFFFFF then
               bind_res (TrackMemAccess kk (co_mt c1) (co_mem c1) sa) (\<lambda>(mt, m2).
               bind_res (SetMemory m2 sa val) (\<lambda>m3.
               let c2 = c1\<lparr>co_mem := m3, co_mt := mt\<rparr> in
               bind_res (on_cpu c2 (HandleRd (co_cpu c2) (co_regs c2) rd val True)) (\<lambda>c'.
               Ok (c', True, sa))))
             else
               bind_res (on_cpu c1 (HandleRd (co_cpu c1) (co_regs c1) rd val True)) (\<lambda>c'. Ok (c', False, 0)))
          = Ok (c', upd, addr)"
      using run rest by (auto simp: ExecMipsCoreStepLogic_def Let_def bind_res_Ok_iff simp del: if_split)
    note f1 = core_fetch_pre [OF s(1) pre]
    have p1: "post kk f (co_mem c1) (co_mt c1)" using f1(1) pre_post by (simp add: core_pre_def)
    show ?thesis
    proof (cases "oc = 0 \<and> fun' \<ge> 8 \<and> fun' < 0x1c \<and> (fun' < 0xc \<or> fun' \<ge> 0x10)")
      case True
      then have "core_special lookup c1 fun' rs (operand_rt (co_regs c) insn oc) rd = Ok c'"
        using t by (simp add: res_simps)
      then show ?thesis by (rule core_special_post [OF _ p1]) (simp_all add: f1)
    next
      case nospec: False
      show ?thesis
      proof (cases "sa \<noteq> 0xFFFFFFFF")
        case True
        obtain mt m2 m3 where w: "TrackMemAccess kk (co_mt c1) (co_mem c1) sa = Ok (mt, m2)"
          "SetMemory m2 sa val = Ok m3"
          "on_cpu (c1\<lparr>co_mem := m3, co_mt := mt\<rparr>) (HandleRd (co_cpu c1) (co_regs c1) rd val True) = Ok c'"
          using t True unfolding if_not_P [OF nospec] by (auto simp: Let_def res_simps)
        have "pre kk f m2 mt" "mt_enabled mt = mt_enabled (co_mt c1)"
          using TrackMemAccess_pre [OF _ w(1)] f1(1) by (auto simp: core_pre_def)
        then have "post kk f m3 mt" using SetMemory_post(1) [OF pre_post w(2)] by blast
        then show ?thesis
          using f1 \<open>mt_enabled mt = _\<close> by (intro on_cpu_post [OF w(3)]) (auto dest: HandleRd_zero)
      next
        case False
        then have "on_cpu c1 (HandleRd (co_cpu c1) (co_regs c1) rd val True) = Ok c'"
          using t unfolding if_not_P [OF nospec] by (simp add: res_simps)
        then show ?thesis by (rule on_cpu_post) (auto simp: f1(2,3) p1 dest: HandleRd_zero)
      qed
    qed
  qed
qed

end
