(* ===== verification/CannonSyscallProps.thy ===== *)
theory CannonSyscallProps
  imports CannonExecProps
begin

unbundle bit_operations_syntax

text \<open>
  The system calls as the guest program sees them: reading a pre-image is reading the bytes of
  the length-prefixed pre-image in order, writing a key is shifting bytes into it, hints are
  framed messages, and mmap is a bump allocator with a bound.
\<close>

section \<open>Bytes within a word\<close>

lemma addr_split: "(a :: u32) = (a AND 0xFFFFFFFC) + (a AND 3)"
proof -
  have m: "(0xFFFFFFFC :: u32) = NOT 3" by simp
  have "(a AND NOT 3) + (a AND 3) = (a AND NOT 3) OR (a AND 3)"
    by (rule disjunctive_add_eq_or) (auto intro!: bit_word_eqI simp: bit_simps)
  also have "\<dots> = a" by (auto intro!: bit_word_eqI simp: bit_simps)
  finally show ?thesis unfolding m by simp
qed

lemma eff_aligned: "(a AND 0xFFFFFFFC) AND 3 = (0 :: u32)"
proof -
  have m: "(0xFFFFFFFC :: u32) = NOT 3" by simp
  show ?thesis unfolding m by (rule bit_word_eqI) (auto simp: bit_simps)
qed

lemma be32_nth:
  assumes "i < 4"
  shows "be32 (un32 [b0, b1, b2, b3]) ! i = [b0, b1, b2, b3] ! i"
  by (simp add: be32_un32)

text \<open>Replacing \<open>n\<close> bytes of an aligned word from offset \<open>al\<close> writes them at the address.\<close>

lemma splice_word:
  assumes "al < 4" "length dat = n" "al + n \<le> 4" "length W = 4" "\<And>i. i < 4 \<Longrightarrow> W ! i = f (eff + of_nat i)"
  shows "store_word f eff (un32 (take al W @ dat @ drop (al + n) W)) = write_bytes f (eff + of_nat al) dat"
proof (rule ext)
  fix a
  define i where "i = unat (a - eff)"
  have a: "a = eff + of_nat i" by (simp add: i_def)
  have i: "i < 2 ^ 32" unfolding i_def by (rule unat_bounds)
  let ?W = "take al W @ dat @ drop (al + n) W"
  have W: "be32 (un32 ?W) = ?W" using assms by (intro be32_un32) simp
  have d: "a - (eff + of_nat al) = of_nat i - of_nat al" by (simp add: a)
  show "store_word f eff (un32 ?W) a = write_bytes f (eff + of_nat al) dat a"
  proof (cases "al \<le> i")
    case True
    then have u: "unat (a - (eff + of_nat al)) = i - al"
      unfolding d using i by (simp add: unat_of_nat flip: of_nat_diff)
    have "?W ! i = (if i < al + n then dat ! (i - al) else W ! i)" if "i < 4"
      using True that assms by (auto simp: nth_append)
    then show ?thesis
      using True u assms(2,3) assms(5) [of i] unfolding store_word_def write_bytes_def i_def [symmetric] W
      by (auto simp: a)
  next
    case False
    have "\<not> unat (a - (eff + of_nat al)) < n"
    proof
      assume l: "unat (a - (eff + of_nat al)) < n"
      define j where "j = unat (a - (eff + of_nat al))"
      have "(of_nat i :: u32) = of_nat (j + al)"
        unfolding j_def d of_nat_add by (simp add: algebra_simps)
      then have "take_bit 32 i = take_bit 32 (j + al)"
        unfolding word_of_nat_eq_iff by simp
      moreover have "j + al < 2 ^ 32" using l assms(1,3) by (simp add: j_def)
      ultimately have "i = j + al" using i by (simp only: take_bit_nat_eq_self)
      with False show False by simp
    qed
    then show ?thesis
      using False assms(1,2,4) assms(5) [of i] unfolding store_word_def write_bytes_def i_def [symmetric] W
      by (auto simp: a nth_append)
  qed
qed

lemma SetMemory_store:
  assumes "mem_coh kk m" "addr AND 3 = 0"
  shows "\<exists>m'. SetMemory m addr v = Ok m' \<and> mem_coh kk m' \<and> mem_byte m' = store_word (mem_byte m) addr v"
  using SetMemory_coh [OF assms, of v] unfolding store_word_def fun_eq_iff by blast

section \<open>Pre-images\<close>

definition preimage_of :: "(bytes \<Rightarrow> bytes) \<Rightarrow> bytes \<Rightarrow> bytes" where
  "preimage_of po key = be64 (of_nat (length (po key))) @ po key"

definition reader_ok :: "(bytes \<Rightarrow> bytes) \<Rightarrow> preimage_reader \<Rightarrow> bool" where
  "reader_ok po p \<longleftrightarrow> pr_key p = replicate 32 0 \<or> pr_last p = preimage_of po (pr_key p)"

lemma ReadPreimage_ok:
  assumes "reader_ok po p" "key \<noteq> replicate 32 0" "unat off < length (preimage_of po key)"
    "length (preimage_of po key) < 2 ^ 32"
  shows "\<exists>p'. ReadPreimage po p key off = Ok (p', take 32 (drop (unat off) (preimage_of po key)) @
      replicate (32 - length (take 32 (drop (unat off) (preimage_of po key)))) 0,
      of_nat (min 32 (length (preimage_of po key) - unat off))) \<and>
    reader_ok po p' \<and> pr_key p' = key \<and> pr_offset p' = off"
proof -
  let ?pre = "preimage_of po key"
  have lt: "off < of_nat (length ?pre)"
    using assms(3,4) by (simp add: word_less_nat_alt unat_of_nat)
  show ?thesis
  proof (cases "key = pr_key p")
    case True
    then have "pr_last p = ?pre" using assms(1,2) by (simp add: reader_ok_def)
    then show ?thesis using True lt assms(1,3)
      by (simp add: ReadPreimage_def Let_def reader_ok_def min.commute)
  next
    case False
    then show ?thesis using lt assms(3)
      by (simp add: ReadPreimage_def GetPreimage_def Let_def reader_ok_def min.commute
          flip: preimage_of_def)
  qed
qed

lemma TrackMemAccess_first:
  assumes "hash_size kk" "mem_coh kk m" "mt_last mt = 0xFFFFFFFF"
  shows "\<exists>mt' m'. TrackMemAccess kk mt m a = Ok (mt', m') \<and> mem_coh kk m' \<and> mem_byte m' = mem_byte m"
  using MerkleProof_valid [OF assms(1,2), of a] assms(2,3) by (auto simp: TrackMemAccess_def)

text \<open>Reading the pre-image oracle: for a non-zero key, a read at \<open>a1\<close> of at most \<open>a2\<close> bytes copies
  to memory at \<open>a1\<close> the next bytes of the length-prefixed pre-image from the current offset, as many
  as fit the aligned word of \<open>a1\<close>, returns their number without error and advances the offset by it.
  No other byte of the memory changes, and an aligned request of a byte or more makes progress.\<close>

theorem preimage_read_copies:
  assumes "hash_size kk" "mem_coh kk (io_mem io)" "mt_last (io_mt io) = 0xFFFFFFFF" "reader_ok po (io_pr io)"
    and "key \<noteq> replicate 32 0" "unat off < length (preimage_of po key)" "length (preimage_of po key) < 2 ^ 32"
  shows "let n = min (unat a2) (min (4 - unat (a1 AND 3)) (length (preimage_of po key) - unat off)) in
    \<exists>io'. HandleSysRead kk po 5 a1 a2 key off io = Ok (io', of_nat n, 0, off + of_nat n, True, a1 AND 0xFFFFFFFC) \<and>
    mem_byte (io_mem io') = write_bytes (mem_byte (io_mem io)) a1 (take n (drop (unat off) (preimage_of po key))) \<and>
    mem_coh kk (io_mem io') \<and> reader_ok po (io_pr io') \<and> (a2 \<noteq> 0 \<longrightarrow> 0 < n)"
proof -
  let ?eff = "a1 AND 0xFFFFFFFC" and ?al = "unat (a1 AND 3)" and ?pre = "preimage_of po key"
  let ?f = "mem_byte (io_mem io)"
  define n where "n = min (unat a2) (min (4 - unat (a1 AND 3)) (length ?pre - unat off))"
  define rem where "rem = length ?pre - unat off"
  obtain mt m1 where t: "TrackMemAccess kk (io_mt io) (io_mem io) ?eff = Ok (mt, m1)" "mem_coh kk m1" "mem_byte m1 = ?f"
    using TrackMemAccess_first [OF assms(1-3), of ?eff] by blast
  obtain m2 where g: "GetMemory m1 ?eff = Ok (m2, mem_word m1 ?eff)" "mem_coh kk m2" "mem_byte m2 = ?f"
    using GetMemory_coh [OF t(2) eff_aligned [of a1]] t(3) by auto
  obtain pr where p: "ReadPreimage po (io_pr io) key off = Ok (pr, take 32 (drop (unat off) ?pre) @
      replicate (32 - length (take 32 (drop (unat off) ?pre))) 0, of_nat (min 32 rem))" "reader_ok po pr"
    using ReadPreimage_ok [OF assms(4-7)] unfolding rem_def by blast
  have k: "?al < 4" using unat_byte_shift by blast
  have sp: "unat (4 - (a1 AND 3)) = 4 - ?al" using k by (simp add: unat_sub word_le_nat_alt)
  have um: "unat (of_nat (min 32 rem) :: u32) = min 32 rem" by (simp add: unat_of_nat)
  define d1 :: u32 where "d1 = (if 4 - (a1 AND 3) < of_nat (min 32 rem) then 4 - (a1 AND 3) else of_nat (min 32 rem))"
  define d2 where "d2 = (if a2 < d1 then a2 else d1)"
  have d1: "unat d1 = min (4 - ?al) rem" using sp um k by (auto simp: d1_def word_less_nat_alt)
  have d2: "unat d2 = n" unfolding n_def rem_def [symmetric]
    using d1 by (auto simp: d2_def word_less_nat_alt)
  then have d2': "d2 = of_nat n" by (metis of_nat_unat ucast_id)
  have n: "?al + n \<le> 4" "n \<le> rem" using k by (auto simp: n_def rem_def)
  define dat where "dat = take n (drop (unat off) ?pre)"
  have dat: "take n (take 32 (drop (unat off) ?pre) @ replicate (32 - length (take 32 (drop (unat off) ?pre))) 0) = dat"
    "length dat = n"
    using n by (simp_all add: dat_def rem_def)
  let ?W = "be32 (mem_word m1 ?eff)"
  have W: "?W ! i = ?f (?eff + of_nat i)" if "i < 4" for i
    using that be32_nth [OF that] unfolding mem_word_def t(3)
    by (auto simp: disj_less4)
  have a1: "?eff + of_nat ?al = a1" using addr_split [of a1] by simp
  obtain m3 where m3: "SetMemory m2 ?eff (un32 (take ?al ?W @ dat @ drop (?al + n) ?W)) = Ok m3" "mem_coh kk m3"
    "mem_byte m3 = store_word ?f ?eff (un32 (take ?al ?W @ dat @ drop (?al + n) ?W))"
    using SetMemory_store [OF g(2) eff_aligned [of a1], of "un32 (take ?al ?W @ dat @ drop (?al + n) ?W)"]
    unfolding g(3) by blast
  have mb: "mem_byte m3 = write_bytes ?f a1 dat"
    unfolding m3(3) using splice_word [OF k dat(2) n(1) _ W] a1 by simp
  have run: "HandleSysRead kk po 5 a1 a2 key off io = Ok (io\<lparr>io_mem := m3, io_mt := mt, io_pr := pr\<rparr>,
      of_nat n, 0, off + of_nat n, True, ?eff)"
  proof -
    define dp where "dp = take 32 (drop (unat off) ?pre) @ replicate (32 - length (take 32 (drop (unat off) ?pre))) 0"
    have c: "((5 :: u32) = 0) = False" "((5 :: u32) = 5) = True" by simp_all
    show ?thesis
      unfolding HandleSysRead_def Let_def c if_True if_False t(1) bind_res.simps prod.case g(1)
        p(1) [folded dp_def] d1_def [symmetric] d2_def [symmetric] d2 dat(1) [folded dp_def] m3(1)
      by (simp only: d2')
  qed
  moreover have "a2 \<noteq> 0 \<longrightarrow> 0 < n"
    using assms(6) k by (auto simp: n_def unat_gt_0)
  ultimately show ?thesis unfolding Let_def n_def [symmetric]
    using mb m3(2) p(2) by (auto simp: dat_def)
qed

theorem preimage_read_copies_witness:
  "\<exists>io'. HandleSysRead (\<lambda>_. replicate 32 0) (\<lambda>_. [7, 8]) 5 1 9 (1 # replicate 31 0) 6
      \<lparr>io_mem = NewMemory, io_mt = tracker_Reset True NewMemoryTracker,
        io_pr = NewTrackingPreimageOracleReader, io_out = []\<rparr> = Ok (io', 3, 0, 9, True, 0) \<and>
    mem_byte (io_mem io') 1 = 0 \<and> mem_byte (io_mem io') 2 = 2 \<and> mem_byte (io_mem io') 3 = 7"
proof -
  have p: "preimage_of (\<lambda>_. [7, 8]) (1 # replicate 31 0) = [0, 0, 0, 0, 0, 0, 0, 2, 7, 8]"
    by (simp add: preimage_of_def be64_def)
  have ne: "(1 :: byte) # replicate 31 0 \<noteq> replicate 32 0"
    by (auto simp: list_eq_iff_nth_eq intro!: exI [of _ 0])
  have "write_bytes (\<lambda>_. 0) 1 [0, 2, 7] 1 = 0" "write_bytes (\<lambda>_. 0) 1 [0, 2, 7] 2 = 2"
    "write_bytes (\<lambda>_. 0) 1 [0, 2, 7] 3 = 7" "take 3 [0, 2, 7, 8] = [0, 2, 7 :: byte]"
    "mem_byte NewMemory = (\<lambda>_. 0)"
    by (simp_all add: write_bytes_def fun_eq_iff)
  then show ?thesis
    using preimage_read_copies [of "\<lambda>_. replicate 32 0"
        "\<lparr>io_mem = NewMemory, io_mt = tracker_Reset True NewMemoryTracker, io_pr = NewTrackingPreimageOracleReader, io_out = []\<rparr>"
        "\<lambda>_. [7, 8]" "1 # replicate 31 0" 6 9 1] NewMemory_coh ne
    by (auto simp: p Let_def hash_size_def tracker_Reset_def reader_ok_def NewTrackingPreimageOracleReader_def)
qed

lemma take_be32_word:
  assumes "al < 4" "n \<le> 4 - al"
  shows "take n (drop al (be32 (un32 [f eff, f (eff + 1), f (eff + 2), f (eff + 3)]))) =
    mem_bytes f (eff + of_nat al) n"
proof (rule nth_equalityI)
  fix i assume "i < length (take n (drop al (be32 (un32 [f eff, f (eff + 1), f (eff + 2), f (eff + 3)]))))"
  then have i: "i < n" by simp
  have j4: "be32 (un32 [f eff, f (eff + 1), f (eff + 2), f (eff + 3)]) ! j = f (eff + of_nat j)" if "j < 4" for j
    using that be32_nth [of j] by (auto simp: disj_less4)
  have "be32 (un32 [f eff, f (eff + 1), f (eff + 2), f (eff + 3)]) ! (al + i) = f (eff + of_nat (al + i))"
    by (rule j4) (use i assms in simp)
  then show "take n (drop al (be32 (un32 [f eff, f (eff + 1), f (eff + 2), f (eff + 3)]))) ! i =
      mem_bytes f (eff + of_nat al) n ! i"
    using i assms by (simp add: mem_bytes_def add.assoc)
qed (use assms in simp)

text \<open>Writing the pre-image key is a shift register: a write of \<open>a2\<close> bytes at \<open>a1\<close> takes the bytes
  that lie in the aligned word of \<open>a1\<close>, drops as many from the front of the 32-byte key, appends
  them in memory order, returns their number and resets the pre-image offset; the memory is not
  changed.\<close>

theorem preimage_key_shift:
  assumes "hash_size kk" "mem_coh kk (io_mem io)" "mt_last (io_mt io) = 0xFFFFFFFF" "length key = 32"
  shows "let n = min (unat a2) (4 - unat (a1 AND 3)) in
    \<exists>io'. HandleSysWrite kk 6 a1 a2 hint key off io =
        Ok (io', of_nat n, 0, hint, drop n key @ mem_bytes (mem_byte (io_mem io)) a1 n, 0) \<and>
      mem_byte (io_mem io') = mem_byte (io_mem io) \<and> io_out io' = io_out io \<and> mem_coh kk (io_mem io')"
proof -
  let ?eff = "a1 AND 0xFFFFFFFC" and ?al = "unat (a1 AND 3)" and ?f = "mem_byte (io_mem io)"
  define n where "n = min (unat a2) (4 - ?al)"
  obtain mt m1 where t: "TrackMemAccess kk (io_mt io) (io_mem io) ?eff = Ok (mt, m1)" "mem_coh kk m1" "mem_byte m1 = ?f"
    using TrackMemAccess_first [OF assms(1-3), of ?eff] by blast
  obtain m2 where g: "GetMemory m1 ?eff = Ok (m2, mem_word m1 ?eff)" "mem_coh kk m2" "mem_byte m2 = ?f"
    using GetMemory_coh [OF t(2) eff_aligned [of a1]] t(3) by auto
  have k: "?al < 4" using unat_byte_shift by blast
  have sp: "unat (4 - (a1 AND 3)) = 4 - ?al" using k by (simp add: unat_sub word_le_nat_alt)
  define d where "d = (if 4 - (a1 AND 3) < a2 then 4 - (a1 AND 3) else a2)"
  have d: "unat d = n" using sp by (auto simp: d_def n_def word_less_nat_alt)
  then have d': "d = of_nat n" by (metis of_nat_unat ucast_id)
  have a1: "?eff + of_nat ?al = a1" using addr_split [of a1] by simp
  have n: "n \<le> 4 - ?al" by (simp add: n_def)
  have bs: "take n (drop ?al (be32 (mem_word m1 ?eff))) = mem_bytes ?f a1 n"
    using take_be32_word [OF k n, of ?f ?eff] a1 by (simp add: mem_word_def t(3))
  have key: "take (32 - n) (drop n key @ drop (length key - n) key) = drop n key"
    using assms(4) n by simp
  have "HandleSysWrite kk 6 a1 a2 hint key off io = Ok (io\<lparr>io_mem := m2, io_mt := mt\<rparr>,
      of_nat n, 0, hint, drop n key @ mem_bytes ?f a1 n, 0)"
  proof -
    have c: "((6 :: u32) = 1 \<or> (6 :: u32) = 2) = False" "((6 :: u32) = 4) = False" "((6 :: u32) = 6) = True" by simp_all
    show ?thesis
      unfolding HandleSysWrite_def Let_def c if_True if_False t(1) bind_res.simps prod.case g(1)
        d_def [symmetric] d bs key by (simp only: d')
  qed
  then show ?thesis unfolding Let_def n_def [symmetric] using g(2,3) by auto
qed

theorem preimage_key_shift_witness:
  "\<exists>io'. HandleSysWrite (\<lambda>_. replicate 32 0) 6 2 9 [] (replicate 32 5) 7
      \<lparr>io_mem = NewMemory, io_mt = tracker_Reset True NewMemoryTracker,
        io_pr = NewTrackingPreimageOracleReader, io_out = []\<rparr> =
    Ok (io', 2, 0, [], replicate 30 5 @ [0, 0], 0)"
  using preimage_key_shift [of "\<lambda>_. replicate 32 0"
      "\<lparr>io_mem = NewMemory, io_mt = tracker_Reset True NewMemoryTracker, io_pr = NewTrackingPreimageOracleReader, io_out = []\<rparr>"
      "replicate 32 5" 9 2 "[]" 7] NewMemory_coh
  by (auto simp: Let_def hash_size_def tracker_Reset_def mem_bytes_def upt_rec)

section \<open>Output\<close>

text \<open>A write to the standard streams, or of hints, whose range wraps around the address space so that
  it ends in the page it starts in, before its start, panics when this page is present: the VM
  has no step for a memory that a guest program can reach.\<close>

lemma write_wrap_panics:
  assumes "mem_wf (io_mem io)" "map_of (mem_pages (io_mem io)) (shr a1 12) \<noteq> None" "a2 \<noteq> 0" "a0 = 1 \<or> a0 = 2 \<or> a0 = 4"
    and "shr (a1 + a2) 12 = shr a1 12" "unat ((a1 + a2) AND 0xFFF) < unat (a1 AND 0xFFF)"
  shows "HandleSysWrite kk a0 a1 a2 hint key off io = Panic ''slice bounds out of range''"
  using read_all_wrap_panics [OF assms(1-3,5,6)] assms(4) by (auto simp: HandleSysWrite_def)

section \<open>Hints\<close>

definition frame_hint :: "bytes \<Rightarrow> bytes" where
  "frame_hint h = be32 (of_nat (length h)) @ h"

lemma split_hints_frame:
  assumes "length (frame_hint h @ rest) < 2 ^ 32"
  shows "split_hints (frame_hint h @ rest) = (h # fst (split_hints rest), snd (split_hints rest))"
proof -
  have l: "length h < 2 ^ 32" "length h + length rest < 2 ^ 32"
    using assms by (simp_all add: frame_hint_def)
  have u: "un32 (take 4 (frame_hint h @ rest)) = of_nat (length h)" "drop 4 (frame_hint h @ rest) = h @ rest"
    "unat (of_nat (length h) :: u32) = length h"
    using l(1) by (simp_all add: frame_hint_def unat_of_nat)
  have le: "(of_nat (length h) :: u32) \<le> of_nat (length (h @ rest))"
    using l by (simp add: word_le_nat_alt unat_of_nat del: of_nat_add)
  have d: "drop (4 + length h) (frame_hint h @ rest) = rest" by (simp add: frame_hint_def)
  have c: "4 \<le> length (frame_hint h @ rest)" by (simp add: frame_hint_def)
  show ?thesis
    unfolding split_hints.simps [of "frame_hint h @ rest"] Let_def u d using c le
    by (simp add: case_prod_beta)
qed

text \<open>Splitting does not depend on how the stream is cut into writes.\<close>

lemma split_hints_append:
  "length (a @ b) < 2 ^ 32 \<Longrightarrow>
   split_hints (a @ b) = (fst (split_hints a) @ fst (split_hints (snd (split_hints a) @ b)),
     snd (split_hints (snd (split_hints a) @ b)))"
proof (induction a rule: split_hints.induct)
  case (1 a)
  let ?n = "unat (un32 (take 4 a))"
  show ?case
  proof (cases "4 \<le> length a \<and> un32 (take 4 a) \<le> of_nat (length (drop 4 a))")
    case False
    have "split_hints a = ([], a)" unfolding split_hints.simps [of a] if_not_P [OF False] ..
    then show ?thesis by simp
  next
    case True
    have lb: "length a < 2 ^ 32" using 1(2) by simp
    then have n: "?n \<le> length a - 4" using True by (simp add: word_le_nat_alt unat_of_nat)
    have sa: "split_hints a = (take ?n (drop 4 a) # fst (split_hints (drop (4 + ?n) a)), snd (split_hints (drop (4 + ?n) a)))"
      unfolding split_hints.simps [of a] if_P [OF True] Let_def case_prod_beta ..
    have "?n \<le> length (drop 4 (a @ b))" "length (drop 4 (a @ b)) < 2 ^ 32" using n 1(2) by auto
    then have "un32 (take 4 (a @ b)) \<le> of_nat (length (drop 4 (a @ b)))"
      unfolding word_le_nat_alt using True by (simp only: unat_of_nat take_bit_nat_eq_self) simp
    then have T2: "4 \<le> length (a @ b) \<and> un32 (take 4 (a @ b)) \<le> of_nat (length (drop 4 (a @ b)))"
      using True by simp
    have t4: "take 4 (a @ b) = take 4 a" using True by simp
    have "split_hints (a @ b) = (take ?n (drop 4 (a @ b)) # fst (split_hints (drop (4 + ?n) (a @ b))),
        snd (split_hints (drop (4 + ?n) (a @ b))))"
      unfolding split_hints.simps [of "a @ b"] if_P [OF T2] Let_def case_prod_beta by (simp only: t4)
    moreover have "take ?n (drop 4 (a @ b)) = take ?n (drop 4 a)" "drop (4 + ?n) (a @ b) = drop (4 + ?n) a @ b"
      using n conjunct1 [OF True] by auto
    moreover have "split_hints (drop (4 + ?n) a @ b) =
        (fst (split_hints (drop (4 + ?n) a)) @ fst (split_hints (snd (split_hints (drop (4 + ?n) a)) @ b)),
         snd (split_hints (snd (split_hints (drop (4 + ?n) a)) @ b)))"
      by (rule 1(1)) (use True 1(2) in auto)
    ultimately show ?thesis using sa by simp
  qed
qed

text \<open>Hints are framed messages: the guest's stream of length-prefixed hints, cut into two writes
  anywhere, is delivered as exactly these hints in order, with nothing left over.\<close>

theorem hints_delivered:
  assumes "concat (map frame_hint hs) = a @ b" "length (a @ b) < 2 ^ 32"
  shows "fst (split_hints a) @ fst (split_hints (snd (split_hints a) @ b)) = hs \<and>
    snd (split_hints (snd (split_hints a) @ b)) = []"
proof -
  have e: "split_hints [] = ([], [])" by (simp add: split_hints.simps)
  have all: "split_hints (concat (map frame_hint hs)) = (hs, [])"
    if "length (concat (map frame_hint hs)) < 2 ^ 32" for hs
    using that
  proof (induction hs)
    case (Cons h hs)
    then show ?case using split_hints_frame [of h "concat (map frame_hint hs)"] by simp
  qed (simp add: e)
  have "split_hints (a @ b) = (hs, [])"
    unfolding assms(1) [symmetric] by (rule all) (use assms in simp)
  then show ?thesis unfolding split_hints_append [OF assms(2)] by simp
qed

theorem hints_delivered_witness:
  "fst (split_hints [0, 0, 0, 1, 7, 0]) @ fst (split_hints (snd (split_hints [0, 0, 0, 1, 7, 0]) @ [0, 0, 2, 8, 9])) =
     [[7], [8, 9]]"
  using hints_delivered [of "[[7], [8, 9]]" "[0, 0, 0, 1, 7, 0]" "[0, 0, 2, 8, 9]"]
  by (simp add: frame_hint_def be32_def)

section \<open>Memory mapping\<close>

definition page_round :: "nat \<Rightarrow> nat" where
  "page_round n = (n + 4095) div 4096 * 4096"

lemma page_round_cases:
  "page_round n = (if n mod 4096 = 0 then n else n + (4096 - n mod 4096))"
proof -
  define q r where "q = n div 4096" and "r = n mod 4096"
  have n: "n = 4096 * q + r" and r: "r < 4096" by (simp_all add: q_def r_def)
  have "page_round n = (4096 * q + (r + 4095)) div 4096 * 4096" unfolding page_round_def n by (simp only: add.assoc)
  also have "\<dots> = 4096 * q + (r + 4095) div 4096 * 4096"
    by (subst div_mult_self4) (simp_all only: add_mult_distrib mult.commute, simp_all)
  also have "(r + 4095) div 4096 = (if r = 0 then 0 else 1)"
    using r by (cases "r = 0") (simp_all add: div_if)
  finally show ?thesis using n r by (simp add: r_def [symmetric])
qed

text \<open>mmap without a hint is a bump allocator: it succeeds exactly when the heap grown by the request,
  rounded up to whole pages, stays within the heap limit, computed without wrap-around; then it
  returns the old heap pointer and advances it by the rounded size. Otherwise it returns EINVAL
  and leaves the heap alone. With a hint it grants the hint and allocates nothing.\<close>

theorem mmap_bump_allocator:
  "HandleSysMmap a0 a1 heap =
     (if a0 \<noteq> 0 then (a0, 0, heap)
      else if unat heap + page_round (unat a1) \<le> unat HEAP_END
      then (heap, 0, of_nat (unat heap + page_round (unat a1)))
      else (SysErrorSignal, MipsEINVAL, heap))"
proof (cases "a0 = 0")
  case a0: True
  define sz where "sz = (if a1 AND 0xFFF \<noteq> 0 then a1 + (0x1000 - (a1 AND 0xFFF)) else a1)"
  have a1: "unat a1 < 4294967296" and h: "unat heap < 4294967296"
    using unat_bounds(2) [of a1] unat_bounds(2) [of heap] by simp_all
  have lo: "unat (a1 AND 0xFFF) = unat a1 mod 4096" by (rule low_bits)
  have z: "a1 AND 0xFFF = 0 \<longleftrightarrow> unat a1 mod 4096 = 0"
    using lo by (metis unat_eq_zero)
  have m: "unat a1 mod 4096 < 4096" by simp
  have "unat (0x1000 - (a1 AND 0xFFF)) = 4096 - unat a1 mod 4096"
    using lo m by (simp add: unat_sub word_le_nat_alt)
  then have sz: "unat sz = page_round (unat a1) mod 4294967296"
    using a1 z unfolding sz_def page_round_cases by (auto simp: unat_word_ariths)
  have ge: "unat a1 \<le> page_round (unat a1)" "page_round (unat a1) < unat a1 + 4096"
    using m by (auto simp: page_round_cases simp del: mod_less_divisor) 
  have E: "unat HEAP_END = 1610612736" by (simp add: HEAP_END_def)
  let ?p = "page_round (unat a1)"
  have "(heap + sz > HEAP_END \<or> heap + sz < heap \<or> sz < a1) \<longleftrightarrow> \<not> unat heap + ?p \<le> unat HEAP_END"
  proof (cases "?p < 4294967296")
    case True
    then have s: "unat sz = ?p" using sz by simp
    have nsz: "\<not> sz < a1" using s ge by (simp add: word_less_nat_alt)
    show ?thesis
    proof (cases "unat heap + ?p < 4294967296")
      case True
      then have "unat (heap + sz) = unat heap + ?p" using s by (simp add: unat_word_ariths)
      then show ?thesis using nsz by (auto simp: word_less_nat_alt)
    next
      case False
      then have "unat (heap + sz) = unat heap + ?p - 4294967296"
        using s h \<open>?p < 4294967296\<close> by (simp add: unat_word_ariths mod_if)
      then have "heap + sz < heap" using False h \<open>?p < 4294967296\<close> by (simp add: word_less_nat_alt)
      then show ?thesis using False E by simp
    qed
  next
    case False
    then have "unat sz = ?p - 4294967296" using sz ge a1 by (simp add: mod_if)
    then have "sz < a1" using False ge a1 by (simp add: word_less_nat_alt)
    then show ?thesis using False E by simp
  qed
  moreover have "heap + sz = of_nat (unat heap + ?p)"
  proof -
    have "sz = of_nat ?p" by (rule word_unat_eq_iff [THEN iffD2]) (simp add: sz unat_of_nat)
    then show ?thesis by simp
  qed
  ultimately show ?thesis using a0 unfolding HandleSysMmap_def Let_def sz_def [symmetric] by simp
qed (simp add: HandleSysMmap_def)

end
