(* ===== verification/BinCodec.thy ===== *)
theory BinCodec
  imports Prelude
begin

text \<open>
  The binary readers and writers of \<open>cannon/serialize\<close>. A reader takes the bytes that are left
  and returns a value and the rest, or the error of \<open>io.ReadFull\<close> and \<open>binary.Read\<close> when there
  are too few. The locale \<open>codec\<close> is what the formats built on them rely on: reading what was
  written, in front of anything, gives the value back and leaves the rest.
\<close>

section \<open>Readers\<close>

type_synonym 'a parser = "bytes \<Rightarrow> ('a \<times> bytes) res"

definition read_full :: "nat \<Rightarrow> bytes parser" where
  "read_full n bs =
     (if n \<le> length bs then Ok (take n bs, drop n bs)
      else if bs = [] then Err ''EOF'' else Err ''unexpected EOF'')"

definition map_parser :: "('a \<Rightarrow> 'b) \<Rightarrow> 'a parser \<Rightarrow> 'b parser" where
  "map_parser f p bs = bind_res (p bs) (\<lambda>(x, rest). Ok (f x, rest))"

definition read_uint8 :: "u8 parser" where
  "read_uint8 = map_parser hd (read_full 1)"

definition read_uint32 :: "u32 parser" where
  "read_uint32 = map_parser un32 (read_full 4)"

definition read_uint64 :: "u64 parser" where
  "read_uint64 = map_parser un64 (read_full 8)"

definition ReadHash :: "bytes parser" where
  "ReadHash = read_full 32"

definition ReadBool :: "bool parser" where
  "ReadBool bs = bind_res (read_uint8 bs) (\<lambda>(v, rest).
     if v = 0 then Ok (False, rest) else if v = 1 then Ok (True, rest)
     else Err ''invalid boolean value'')"

definition ReadBytes :: "bytes parser" where
  "ReadBytes bs = bind_res (read_uint32 bs) (\<lambda>(n, rest).
     if n = 0 then Ok ([], rest) else read_full (unat n) rest)"

text \<open>The loops that read a fixed number of items.\<close>

fun read_list :: "'a parser \<Rightarrow> nat \<Rightarrow> 'a list parser" where
  "read_list p 0 bs = Ok ([], bs)"
| "read_list p (Suc n) bs = bind_res (p bs) (\<lambda>(x, bs1).
     bind_res (read_list p n bs1) (\<lambda>(xs, bs2). Ok (x # xs, bs2)))"

section \<open>Writers\<close>

definition WriteBool :: "bool \<Rightarrow> bytes" where "WriteBool v = (if v then [1] else [0])"

definition WriteBytes :: "bytes \<Rightarrow> bytes" where "WriteBytes v = be32 (of_nat (length v)) @ v"

section \<open>Round trips\<close>

named_theorems codec_simps \<open>reading back what was written\<close>

locale codec =
  fixes enc :: "'a \<Rightarrow> bytes" and dec :: "'a parser" and ok :: "'a \<Rightarrow> bool"
  assumes dec_enc: "ok x \<Longrightarrow> dec (enc x @ rest) = Ok (x, rest)"
begin

lemma dec_enc_end:
  assumes "ok x"
  shows "dec (enc x) = Ok (x, [])"
  using dec_enc [OF assms, of "[]"] unfolding append_Nil2 .

text \<open>No encoding is a prefix of another, so encodings that start two equal byte strings are
  of the same value.\<close>

lemma enc_prefix_free:
  assumes "ok x" "ok y" "enc x @ r = enc y @ s"
  shows "x = y \<and> r = s"
proof -
  have "Ok (x, r) = Ok (y, s)"
    using dec_enc [OF assms(1), of r] dec_enc [OF assms(2), of s] assms(3) by (simp only: )
  then show ?thesis by simp
qed

lemma enc_inj:
  assumes "ok x" "ok y" "enc x = enc y"
  shows "x = y"
  using enc_prefix_free [OF assms(1,2), of "[]" "[]"] assms(3) by (simp only: )

lemma list_roundtrip:
  "\<forall>x \<in> set xs. ok x \<Longrightarrow> read_list dec (length xs) (concat (map enc xs) @ rest) = Ok (xs, rest)"
proof (induction xs)
  case (Cons x xs)
  then have "dec (enc x @ (concat (map enc xs) @ rest)) = Ok (x, concat (map enc xs) @ rest)"
    by (intro dec_enc) simp
  with Cons show ?case by simp
qed simp

lemma list_prefix_free:
  assumes "\<forall>x \<in> set xs. ok x" "\<forall>y \<in> set ys. ok y" "length xs = length ys"
    "concat (map enc xs) @ r = concat (map enc ys) @ s"
  shows "xs = ys \<and> r = s"
proof -
  have "Ok (xs, r) = Ok (ys, s)"
    using list_roundtrip [OF assms(1), of r] list_roundtrip [OF assms(2), of s] assms(3,4) by (simp only: )
  then show ?thesis by simp
qed

end

lemma read_full_append: "length xs = n \<Longrightarrow> read_full n (xs @ rest) = Ok (xs, rest)"
  by (simp add: read_full_def)

interpretation uint8: codec "\<lambda>v. [v]" read_uint8 "\<lambda>_. True"
  by unfold_locales (simp add: read_uint8_def map_parser_def read_full_def)

interpretation uint32: codec be32 read_uint32 "\<lambda>_. True"
  by unfold_locales (simp add: read_uint32_def map_parser_def read_full_append)

interpretation uint64: codec be64 read_uint64 "\<lambda>_. True"
  by unfold_locales (simp add: read_uint64_def map_parser_def read_full_append)

interpretation hash32: codec "\<lambda>h. h" ReadHash "\<lambda>h. length h = 32"
  by unfold_locales (simp add: ReadHash_def read_full_append)

interpretation bool_codec: codec WriteBool ReadBool "\<lambda>_. True"
proof unfold_locales
  fix x rest
  show "ReadBool (WriteBool x @ rest) = Ok (x, rest)"
    using uint8.dec_enc [of "if x then 1 else 0" rest] by (cases x) (simp_all add: ReadBool_def WriteBool_def)
qed

interpretation bytes_codec: codec WriteBytes ReadBytes "\<lambda>v. length v < 2 ^ 32"
proof unfold_locales
  fix x :: bytes and rest assume l: "length x < 2 ^ 32"
  then have n: "unat (of_nat (length x) :: u32) = length x" by (simp add: unat_of_nat)
  have z: "(of_nat (length x) :: u32) = 0 \<longleftrightarrow> x = []"
  proof -
    have "(of_nat (length x) :: u32) = 0 \<longleftrightarrow> unat (of_nat (length x) :: u32) = 0"
      by (simp only: unat_eq_zero)
    then show ?thesis unfolding n by simp
  qed
  have "read_uint32 (be32 (of_nat (length x)) @ x @ rest) = Ok (of_nat (length x), x @ rest)"
    by (rule uint32.dec_enc) simp
  then have "ReadBytes (WriteBytes x @ rest) =
      (if (of_nat (length x) :: u32) = 0 then Ok ([], x @ rest) else read_full (length x) (x @ rest))"
    by (simp only: ReadBytes_def WriteBytes_def append_assoc bind_res.simps prod.case n)
  then show "ReadBytes (WriteBytes x @ rest) = Ok (x, rest)"
    unfolding z by (simp add: read_full_append)
qed

lemmas [codec_simps] = uint8.dec_enc uint32.dec_enc uint64.dec_enc bool_codec.dec_enc
lemmas uint8_step [codec_simps] = uint8.dec_enc [simplified]

end
