(* ===== verification/CannonSingle.thy ===== *)
theory CannonSingle
  imports CannonExec BinCodec
begin

unbundle bit_operations_syntax

text \<open>
  The single-threaded Cannon VM, after \<open>cannon/mipsevm/singlethreaded\<close>: its state and the state
  commitment that is posted on chain, the binary format of the state, one step of execution, and
  the witness a step produces for the on-chain verifier. A \<open>common.Hash\<close> and a \<open>[32]byte\<close> are
  byte lists of length 32. The log and the debug information are left out.
\<close>

section \<open>State\<close>

record state1 =
  s_mem :: memory
  s_preimageKey :: bytes
  s_preimageOffset :: u32
  s_cpu :: cpu_scalars
  s_heap :: u32
  s_exitCode :: u8
  s_exited :: bool
  s_step :: u64
  s_regs :: registers
  s_lastHint :: bytes

definition CreateEmptyState :: state1 where
  "CreateEmptyState = \<lparr>s_mem = NewMemory, s_preimageKey = replicate 32 0, s_preimageOffset = 0,
     s_cpu = \<lparr>cpu_PC = 0, cpu_NextPC = 4, cpu_LO = 0, cpu_HI = 0\<rparr>, s_heap = 0, s_exitCode = 0,
     s_exited = False, s_step = 0, s_regs = (\<lambda>_. 0), s_lastHint = []\<rparr>"

definition CreateInitialState :: "u32 \<Rightarrow> u32 \<Rightarrow> state1" where
  "CreateInitialState pc heapStart =
     CreateEmptyState\<lparr>s_cpu := (s_cpu CreateEmptyState)\<lparr>cpu_PC := pc, cpu_NextPC := pc + 4\<rparr>, s_heap := heapStart\<rparr>"

definition s_VMStatus :: "state1 \<Rightarrow> u8" where
  "s_VMStatus s = VmStatus (s_exited s) (s_exitCode s)"

text \<open>\<open>for _, r := range s.Registers\<close>\<close>

definition regs_list :: "registers \<Rightarrow> u32 list" where
  "regs_list regs = map (\<lambda>i. regs (of_nat i)) [0..<32]"

definition AppendBoolToWitness :: "bytes \<Rightarrow> bool \<Rightarrow> bytes" where
  "AppendBoolToWitness witnessData boolVal = (if boolVal then witnessData @ [1] else witnessData @ [0])"

definition stateHashFromWitness :: "(bytes \<Rightarrow> hash) \<Rightarrow> bytes \<Rightarrow> hash res" where
  "stateHashFromWitness kk sw =
     guard_panic (length sw = 226) ''Invalid witness length''
       (let offset = 32 * 2 + 4 * 6;
            exitCode = sw ! offset;
            exited = sw ! (offset + 1)
        in Ok ((kk sw)[0 := VmStatus (exited = 1) exitCode]))"

definition StateHash :: "(bytes \<Rightarrow> hash) \<Rightarrow> bytes \<Rightarrow> hash res" where
  "StateHash kk sw =
     guard_err (length sw = 226) ''Invalid witness length'' (stateHashFromWitness kk sw)"

definition witness_fields :: "state1 \<Rightarrow> bytes" where
  "witness_fields s =
     (let out = s_preimageKey s;
          out = out @ be32 (s_preimageOffset s);
          out = out @ be32 (cpu_PC (s_cpu s));
          out = out @ be32 (cpu_NextPC (s_cpu s));
          out = out @ be32 (cpu_LO (s_cpu s));
          out = out @ be32 (cpu_HI (s_cpu s));
          out = out @ be32 (s_heap s);
          out = out @ [s_exitCode s];
          out = AppendBoolToWitness out (s_exited s);
          out = out @ be64 (s_step s)
      in out @ concat (map be32 (regs_list (s_regs s))))"

definition EncodeWitness :: "(bytes \<Rightarrow> hash) \<Rightarrow> state1 \<Rightarrow> (state1 \<times> bytes \<times> hash) res" where
  "EncodeWitness kk s =
     bind_res (MerkleRoot kk (s_mem s)) (\<lambda>(m, memRoot).
     let out = memRoot @ witness_fields s in
     bind_res (stateHashFromWitness kk out) (\<lambda>h. Ok (s\<lparr>s_mem := m\<rparr>, out, h)))"

text \<open>The binary format; \<open>order\<close> is the order in which the pages are visited.\<close>

definition s_Serialize :: "u32 list \<Rightarrow> state1 \<Rightarrow> bytes res" where
  "s_Serialize order s =
     bind_res (mem_Serialize order (s_mem s)) (\<lambda>m.
     Ok (m @ s_preimageKey s @ be32 (s_preimageOffset s) @ be32 (cpu_PC (s_cpu s)) @
       be32 (cpu_NextPC (s_cpu s)) @ be32 (cpu_LO (s_cpu s)) @ be32 (cpu_HI (s_cpu s)) @
       be32 (s_heap s) @ [s_exitCode s] @ WriteBool (s_exited s) @ be64 (s_step s) @
       concat (map be32 (regs_list (s_regs s))) @ WriteBytes (s_lastHint s)))"

definition regs_of_list :: "u32 list \<Rightarrow> registers" where
  "regs_of_list rs = (\<lambda>i. rs ! unat i)"

definition s_Deserialize :: "state1 parser" where
  "s_Deserialize bs =
     bind_res (mem_Deserialize NewMemory bs) (\<lambda>(mem, bs).
     bind_res (ReadHash bs) (\<lambda>(key, bs).
     bind_res (read_uint32 bs) (\<lambda>(off, bs).
     bind_res (read_uint32 bs) (\<lambda>(pc, bs).
     bind_res (read_uint32 bs) (\<lambda>(nextPC, bs).
     bind_res (read_uint32 bs) (\<lambda>(lo, bs).
     bind_res (read_uint32 bs) (\<lambda>(hi, bs).
     bind_res (read_uint32 bs) (\<lambda>(heap, bs).
     bind_res (read_uint8 bs) (\<lambda>(exitCode, bs).
     bind_res (ReadBool bs) (\<lambda>(exited, bs).
     bind_res (read_uint64 bs) (\<lambda>(st, bs).
     bind_res (read_list read_uint32 32 bs) (\<lambda>(regs, bs).
     bind_res (ReadBytes bs) (\<lambda>(hint, bs).
     Ok (\<lparr>s_mem = mem, s_preimageKey = key, s_preimageOffset = off,
          s_cpu = \<lparr>cpu_PC = pc, cpu_NextPC = nextPC, cpu_LO = lo, cpu_HI = hi\<rparr>, s_heap = heap,
          s_exitCode = exitCode, s_exited = exited, s_step = st, s_regs = regs_of_list regs,
          s_lastHint = hint\<rparr>, bs))))))))))))))"

section \<open>The instrumented VM\<close>

record inst1 =
  in_state :: state1
  in_mt :: mem_tracker
  in_st :: stack_tracker
  in_pr :: preimage_reader
  in_out :: "(u32 \<times> bytes) list"

definition NewInstrumentedState :: "state1 \<Rightarrow> inst1" where
  "NewInstrumentedState s = \<lparr>in_state = s, in_mt = NewMemoryTracker, in_st = NoopStack,
     in_pr = NewTrackingPreimageOracleReader, in_out = []\<rparr>"

definition InitDebug :: "bool \<Rightarrow> inst1 \<Rightarrow> inst1 res" where
  "InitDebug hasMeta i =
     guard_err hasMeta ''metadata is nil'' (Ok (i\<lparr>in_st := TraceStack [] []\<rparr>))"

definition in_io :: "inst1 \<Rightarrow> sys_io" where
  "in_io i = \<lparr>io_mem = s_mem (in_state i), io_mt = in_mt i, io_pr = in_pr i, io_out = in_out i\<rparr>"

definition set_io :: "sys_io \<Rightarrow> inst1 \<Rightarrow> inst1" where
  "set_io io i = i\<lparr>in_state := (in_state i)\<lparr>s_mem := io_mem io\<rparr>, in_mt := io_mt io,
     in_pr := io_pr io, in_out := io_out io\<rparr>"

definition finish_syscall :: "inst1 \<Rightarrow> u32 \<Rightarrow> u32 \<Rightarrow> inst1" where
  "finish_syscall i v0 v1 =
     (let s = in_state i; (cpu, regs) = HandleSyscallUpdates (s_cpu s) (s_regs s) v0 v1
      in i\<lparr>in_state := s\<lparr>s_cpu := cpu, s_regs := regs\<rparr>\<rparr>)"

definition handleSyscall :: "(bytes \<Rightarrow> hash) \<Rightarrow> (bytes \<Rightarrow> bytes) \<Rightarrow> inst1 \<Rightarrow> inst1 res" where
  "handleSyscall kk po i =
     (let s = in_state i in
      case GetSyscallArgs (s_regs s) of (syscallNum, a0, a1, a2, _) \<Rightarrow>
      if syscallNum = 4090 then
        (case HandleSysMmap a0 a1 (s_heap s) of (v0, v1, newHeap) \<Rightarrow>
           Ok (finish_syscall (i\<lparr>in_state := s\<lparr>s_heap := newHeap\<rparr>\<rparr>) v0 v1))
      else if syscallNum = 4045 then Ok (finish_syscall i PROGRAM_BREAK 0)
      else if syscallNum = 4120 then Ok (finish_syscall i 1 0)
      else if syscallNum = 4246 then
        Ok (i\<lparr>in_state := s\<lparr>s_exited := True, s_exitCode := ucast a0\<rparr>\<rparr>)
      else if syscallNum = 4003 then
        bind_res (HandleSysRead kk po a0 a1 a2 (s_preimageKey s) (s_preimageOffset s) (in_io i))
          (\<lambda>(io, v0, v1, newPreimageOffset, _, _).
          let i1 = set_io io i in
          Ok (finish_syscall (i1\<lparr>in_state := (in_state i1)\<lparr>s_preimageOffset := newPreimageOffset\<rparr>\<rparr>) v0 v1))
      else if syscallNum = 4004 then
        bind_res (HandleSysWrite kk a0 a1 a2 (s_lastHint s) (s_preimageKey s) (s_preimageOffset s) (in_io i))
          (\<lambda>(io, v0, v1, newLastHint, newPreimageKey, newPreimageOffset).
          let i1 = set_io io i in
          Ok (finish_syscall (i1\<lparr>in_state := (in_state i1)\<lparr>s_lastHint := newLastHint,
            s_preimageKey := newPreimageKey, s_preimageOffset := newPreimageOffset\<rparr>\<rparr>) v0 v1))
      else if syscallNum = 4055 then
        (case HandleSysFcntl a0 a1 of (v0, v1) \<Rightarrow> Ok (finish_syscall i v0 v1))
      else Ok (finish_syscall i 0 0))"

definition handleRMWOps :: "(bytes \<Rightarrow> hash) \<Rightarrow> inst1 \<Rightarrow> u32 \<Rightarrow> u32 \<Rightarrow> inst1 res" where
  "handleRMWOps kk i insn opcode =
     (let s = in_state i;
          base = get_reg (s_regs s) (shr insn 21 AND 0x1F);
          rtReg = shr insn 16 AND 0x1F;
          effAddr = (base + SignExtendImmediate insn) AND 0xFFFFFFFC
      in bind_res (TrackMemAccess kk (in_mt i) (s_mem s) effAddr) (\<lambda>(mt, m1).
         bind_res (GetMemory m1 effAddr) (\<lambda>(m2, mem).
         bind_res (if opcode = 0x30 then Ok (m2, mem)
                   else if opcode = 0x38 then
                     bind_res (SetMemory m2 effAddr (get_reg (s_regs s) rtReg)) (\<lambda>m3. Ok (m3, 1))
                   else Panic ''Invalid instruction passed to handleRMWOps'') (\<lambda>(m3, retVal).
         bind_res (HandleRd (s_cpu s) (s_regs s) rtReg retVal True) (\<lambda>(cpu, regs).
         Ok (i\<lparr>in_state := s\<lparr>s_mem := m3, s_cpu := cpu, s_regs := regs\<rparr>, in_mt := mt\<rparr>))))))"

definition core1 :: "inst1 \<Rightarrow> core" where
  "core1 i = \<lparr>co_cpu = s_cpu (in_state i), co_regs = s_regs (in_state i), co_mem = s_mem (in_state i),
     co_mt = in_mt i, co_st = in_st i\<rparr>"

definition set_core1 :: "core \<Rightarrow> inst1 \<Rightarrow> inst1" where
  "set_core1 c i = i\<lparr>in_state := (in_state i)\<lparr>s_cpu := co_cpu c, s_regs := co_regs c, s_mem := co_mem c\<rparr>,
     in_mt := co_mt c, in_st := co_st c\<rparr>"

definition mipsStep ::
    "(bytes \<Rightarrow> hash) \<Rightarrow> (bytes \<Rightarrow> bytes) \<Rightarrow> (u32 \<Rightarrow> string) \<Rightarrow> inst1 \<Rightarrow> inst1 res" where
  "mipsStep kk po lookup i =
     (if s_exited (in_state i) then Ok i
      else
        let i1 = i\<lparr>in_state := (in_state i)\<lparr>s_step := s_step (in_state i) + 1\<rparr>\<rparr>; s = in_state i1 in
        bind_res (GetInstructionDetails (cpu_PC (s_cpu s)) (s_mem s)) (\<lambda>(m, insn, opcode, fun').
        let i2 = i1\<lparr>in_state := s\<lparr>s_mem := m\<rparr>\<rparr> in
        if opcode = 0 \<and> fun' = 0xC then handleSyscall kk po i2
        else if opcode = 0x30 \<or> opcode = 0x38 then handleRMWOps kk i2 insn opcode
        else bind_res (ExecMipsCoreStepLogic kk lookup (core1 i2) insn opcode fun') (\<lambda>(c, _, _).
             Ok (set_core1 c i2))))"

record step_witness =
  wit_State :: bytes
  wit_StateHash :: hash
  wit_ProofData :: bytes
  wit_PreimageKey :: bytes
  wit_PreimageValue :: bytes
  wit_PreimageOffset :: u32

definition HasPreimage :: "step_witness \<Rightarrow> bool" where
  "HasPreimage w = (wit_PreimageKey w \<noteq> replicate 32 0)"

definition s_Step ::
    "(bytes \<Rightarrow> hash) \<Rightarrow> (bytes \<Rightarrow> bytes) \<Rightarrow> (u32 \<Rightarrow> string) \<Rightarrow> bool \<Rightarrow> inst1 \<Rightarrow> (inst1 \<times> step_witness option) res" where
  "s_Step kk po lookup proof i =
     (let i1 = i\<lparr>in_pr := preimage_Reset (in_pr i), in_mt := tracker_Reset proof (in_mt i)\<rparr> in
      bind_res
        (if proof then
           bind_res (MerkleProof kk (s_mem (in_state i1)) (cpu_PC (s_cpu (in_state i1)))) (\<lambda>(m, insnProof).
           bind_res (EncodeWitness kk ((in_state i1)\<lparr>s_mem := m\<rparr>)) (\<lambda>(s, encodedWitness, stateHash).
           Ok (i1\<lparr>in_state := s\<rparr>, Some \<lparr>wit_State = encodedWitness, wit_StateHash = stateHash,
             wit_ProofData = insnProof, wit_PreimageKey = replicate 32 0, wit_PreimageValue = [],
             wit_PreimageOffset = 0\<rparr>)))
         else Ok (i1, None)) (\<lambda>(i2, wit).
      bind_res (mipsStep kk po lookup i2) (\<lambda>i3.
      Ok (i3, case wit of None \<Rightarrow> None
        | Some w \<Rightarrow>
            let w1 = w\<lparr>wit_ProofData := wit_ProofData w @ mt_proof (in_mt i3)\<rparr> in
            Some (if pr_offset (in_pr i3) \<noteq> 0xFFFFFFFF then
                    w1\<lparr>wit_PreimageOffset := pr_offset (in_pr i3), wit_PreimageKey := pr_key (in_pr i3),
                       wit_PreimageValue := pr_last (in_pr i3)\<rparr>
                  else w1)))))"

end
