(* ===== verification/CannonMulti.thy ===== *)
theory CannonMulti
  imports CannonSingle
begin

unbundle bit_operations_syntax

text \<open>
  The multi-threaded Cannon VM, after \<open>cannon/mipsevm/multithreaded\<close>: threads on two stacks that
  the scheduler walks to and fro, futexes with a wake-up traversal, a load-linked reservation, and
  the witness of a step with the proof of the active thread. The current thread is the last of the
  active stack; a Go pointer to it is an update of that entry. Logging is left out.
\<close>

section \<open>Threads\<close>

definition FutexWaitPrivate :: u32 where "FutexWaitPrivate = 128"
definition FutexWakePrivate :: u32 where "FutexWakePrivate = 129"
definition FutexTimeoutSteps :: u64 where "FutexTimeoutSteps = 10000"
definition FutexNoTimeout :: u64 where "FutexNoTimeout = 0xFFFFFFFFFFFFFFFF"
definition FutexEmptyAddr :: u32 where "FutexEmptyAddr = 0xFFFFFFFF"
definition ValidCloneFlags :: u32 where
  "ValidCloneFlags = 0x100 OR 0x200 OR 0x400 OR 0x800 OR 0x40000 OR 0x10000"
definition SchedQuantum :: u64 where "SchedQuantum = 100000"
definition HZ :: u64 where "HZ = 10000000"

text \<open>\<open>EmptyThreadsRoot\<close>, the constant of the code.\<close>

definition EmptyThreadsRoot :: bytes where
  "EmptyThreadsRoot = [0xad, 0x32, 0x28, 0xb6, 0x76, 0xf7, 0xd3, 0xcd, 0x42, 0x84, 0xa5, 0x44,
     0x3f, 0x17, 0xf1, 0x96, 0x2b, 0x36, 0xe4, 0x91, 0xb3, 0x0a, 0x40, 0xb2, 0x40, 0x58, 0x49,
     0xe5, 0x97, 0xba, 0x5f, 0xb5]"

record thread =
  t_id :: u32
  t_exitCode :: u8
  t_exited :: bool
  t_futexAddr :: u32
  t_futexVal :: u32
  t_futexTimeoutStep :: u64
  t_cpu :: cpu_scalars
  t_regs :: registers

definition CreateEmptyThread :: thread where
  "CreateEmptyThread = \<lparr>t_id = 0, t_exitCode = 0, t_exited = False, t_futexAddr = FutexEmptyAddr,
     t_futexVal = 0, t_futexTimeoutStep = 0,
     t_cpu = \<lparr>cpu_PC = 0, cpu_NextPC = 4, cpu_LO = 0, cpu_HI = 0\<rparr>, t_regs = (\<lambda>_. 0)\<rparr>"

definition serializeThread :: "thread \<Rightarrow> bytes" where
  "serializeThread t =
     be32 (t_id t) @ [t_exitCode t] @ AppendBoolToWitness [] (t_exited t) @ be32 (t_futexAddr t) @
     be32 (t_futexVal t) @ be64 (t_futexTimeoutStep t) @ be32 (cpu_PC (t_cpu t)) @
     be32 (cpu_NextPC (t_cpu t)) @ be32 (cpu_LO (t_cpu t)) @ be32 (cpu_HI (t_cpu t)) @
     concat (map be32 (regs_list (t_regs t)))"

definition thread_Deserialize :: "thread parser" where
  "thread_Deserialize bs =
     bind_res (read_uint32 bs) (\<lambda>(tid, bs).
     bind_res (read_uint8 bs) (\<lambda>(exitCode, bs).
     bind_res (read_uint8 bs) (\<lambda>(exited, bs).
     bind_res (read_uint32 bs) (\<lambda>(futexAddr, bs).
     bind_res (read_uint32 bs) (\<lambda>(futexVal, bs).
     bind_res (read_uint64 bs) (\<lambda>(timeout, bs).
     bind_res (read_uint32 bs) (\<lambda>(pc, bs).
     bind_res (read_uint32 bs) (\<lambda>(nextPC, bs).
     bind_res (read_uint32 bs) (\<lambda>(lo, bs).
     bind_res (read_uint32 bs) (\<lambda>(hi, bs).
     bind_res (read_list read_uint32 32 bs) (\<lambda>(regs, bs).
     Ok (\<lparr>t_id = tid, t_exitCode = exitCode, t_exited = (exited \<noteq> 0), t_futexAddr = futexAddr,
          t_futexVal = futexVal, t_futexTimeoutStep = timeout,
          t_cpu = \<lparr>cpu_PC = pc, cpu_NextPC = nextPC, cpu_LO = lo, cpu_HI = hi\<rparr>,
          t_regs = regs_of_list regs\<rparr>, bs))))))))))))"

definition computeThreadRoot :: "(bytes \<Rightarrow> hash) \<Rightarrow> hash \<Rightarrow> thread \<Rightarrow> hash" where
  "computeThreadRoot kk prevStackRoot t = kk (prevStackRoot @ kk (serializeThread t))"

definition calculateThreadStackRoot :: "(bytes \<Rightarrow> hash) \<Rightarrow> thread list \<Rightarrow> hash" where
  "calculateThreadStackRoot kk stack = foldl (computeThreadRoot kk) EmptyThreadsRoot stack"

section \<open>State\<close>

record state2 =
  m_mem :: memory
  m_preimageKey :: bytes
  m_preimageOffset :: u32
  m_heap :: u32
  m_llActive :: bool
  m_llAddress :: u32
  m_llOwner :: u32
  m_exitCode :: u8
  m_exited :: bool
  m_step :: u64
  m_sinceSwitch :: u64
  m_wakeup :: u32
  m_traverseRight :: bool
  m_leftStack :: "thread list"
  m_rightStack :: "thread list"
  m_nextThreadId :: u32
  m_lastHint :: bytes

definition m_CreateEmptyState :: state2 where
  "m_CreateEmptyState = \<lparr>m_mem = NewMemory, m_preimageKey = replicate 32 0, m_preimageOffset = 0,
     m_heap = 0, m_llActive = False, m_llAddress = 0, m_llOwner = 0, m_exitCode = 0, m_exited = False,
     m_step = 0, m_sinceSwitch = 0, m_wakeup = FutexEmptyAddr, m_traverseRight = False,
     m_leftStack = [CreateEmptyThread], m_rightStack = [], m_nextThreadId = t_id CreateEmptyThread + 1,
     m_lastHint = []\<rparr>"

definition getActiveThreadStack :: "state2 \<Rightarrow> thread list" where
  "getActiveThreadStack s = (if m_traverseRight s then m_rightStack s else m_leftStack s)"

definition GetCurrentThread :: "state2 \<Rightarrow> thread res" where
  "GetCurrentThread s =
     (let activeStack = getActiveThreadStack s in
      guard_panic (activeStack \<noteq> []) ''Active thread stack is empty'' (Ok (last activeStack)))"

definition set_active :: "thread list \<Rightarrow> state2 \<Rightarrow> state2" where
  "set_active stk s =
     (if m_traverseRight s then s\<lparr>m_rightStack := stk\<rparr> else s\<lparr>m_leftStack := stk\<rparr>)"

text \<open>A write through the pointer to the current thread.\<close>

definition put_thread :: "thread \<Rightarrow> state2 \<Rightarrow> state2" where
  "put_thread t s = set_active (butlast (getActiveThreadStack s) @ [t]) s"

definition m_CreateInitialState :: "u32 \<Rightarrow> u32 \<Rightarrow> state2 res" where
  "m_CreateInitialState pc heapStart =
     bind_res (GetCurrentThread m_CreateEmptyState) (\<lambda>t.
     Ok ((put_thread (t\<lparr>t_cpu := (t_cpu t)\<lparr>cpu_PC := pc, cpu_NextPC := pc + 4\<rparr>\<rparr>) m_CreateEmptyState)
           \<lparr>m_heap := heapStart\<rparr>))"

definition m_GetPC :: "state2 \<Rightarrow> u32 res" where
  "m_GetPC s = bind_res (GetCurrentThread s) (\<lambda>t. Ok (cpu_PC (t_cpu t)))"

definition m_VMStatus :: "state2 \<Rightarrow> u8" where
  "m_VMStatus s = VmStatus (m_exited s) (m_exitCode s)"

definition ThreadCount :: "state2 \<Rightarrow> nat" where
  "ThreadCount s = length (m_leftStack s) + length (m_rightStack s)"

definition m_stateHashFromWitness :: "(bytes \<Rightarrow> hash) \<Rightarrow> bytes \<Rightarrow> hash res" where
  "m_stateHashFromWitness kk sw =
     guard_panic (length sw = 172) ''Invalid witness length''
       (Ok ((kk sw)[0 := VmStatus (sw ! 82 = 1) (sw ! 81)]))"

definition m_StateHash :: "(bytes \<Rightarrow> hash) \<Rightarrow> bytes \<Rightarrow> hash res" where
  "m_StateHash kk sw =
     guard_err (length sw = 172) ''Invalid witness length'' (m_stateHashFromWitness kk sw)"

definition m_witness_fields :: "(bytes \<Rightarrow> hash) \<Rightarrow> state2 \<Rightarrow> bytes" where
  "m_witness_fields kk s =
     (let out = m_preimageKey s @ be32 (m_preimageOffset s) @ be32 (m_heap s);
          out = AppendBoolToWitness out (m_llActive s);
          out = out @ be32 (m_llAddress s) @ be32 (m_llOwner s) @ [m_exitCode s];
          out = AppendBoolToWitness out (m_exited s);
          out = out @ be64 (m_step s) @ be64 (m_sinceSwitch s) @ be32 (m_wakeup s);
          leftStackRoot = calculateThreadStackRoot kk (m_leftStack s);
          rightStackRoot = calculateThreadStackRoot kk (m_rightStack s);
          out = AppendBoolToWitness out (m_traverseRight s)
      in out @ leftStackRoot @ rightStackRoot @ be32 (m_nextThreadId s))"

definition m_EncodeWitness :: "(bytes \<Rightarrow> hash) \<Rightarrow> state2 \<Rightarrow> (state2 \<times> bytes \<times> hash) res" where
  "m_EncodeWitness kk s =
     bind_res (MerkleRoot kk (m_mem s)) (\<lambda>(m, memRoot).
     let out = memRoot @ m_witness_fields kk s in
     bind_res (m_stateHashFromWitness kk out) (\<lambda>h. Ok (s\<lparr>m_mem := m\<rparr>, out, h)))"

definition EncodeThreadProof :: "(bytes \<Rightarrow> hash) \<Rightarrow> state2 \<Rightarrow> bytes res" where
  "EncodeThreadProof kk s =
     (let activeStack = getActiveThreadStack s in
      guard_panic (activeStack \<noteq> []) ''Invalid empty thread stack''
        (Ok (serializeThread (last activeStack) @ calculateThreadStackRoot kk (butlast activeStack))))"

definition m_Serialize :: "u32 list \<Rightarrow> state2 \<Rightarrow> bytes res" where
  "m_Serialize order s =
     bind_res (mem_Serialize order (m_mem s)) (\<lambda>m.
     Ok (m @ m_preimageKey s @ be32 (m_preimageOffset s) @ be32 (m_heap s) @ WriteBool (m_llActive s) @
       be32 (m_llAddress s) @ be32 (m_llOwner s) @ [m_exitCode s] @ WriteBool (m_exited s) @
       be64 (m_step s) @ be64 (m_sinceSwitch s) @ be32 (m_wakeup s) @ WriteBool (m_traverseRight s) @
       be32 (m_nextThreadId s) @
       be32 (of_nat (length (m_leftStack s))) @ concat (map serializeThread (m_leftStack s)) @
       be32 (of_nat (length (m_rightStack s))) @ concat (map serializeThread (m_rightStack s)) @
       WriteBytes (m_lastHint s)))"

definition m_Deserialize :: "state2 parser" where
  "m_Deserialize bs =
     bind_res (mem_Deserialize NewMemory bs) (\<lambda>(mem, bs).
     bind_res (ReadHash bs) (\<lambda>(key, bs).
     bind_res (read_uint32 bs) (\<lambda>(off, bs).
     bind_res (read_uint32 bs) (\<lambda>(heap, bs).
     bind_res (ReadBool bs) (\<lambda>(llActive, bs).
     bind_res (read_uint32 bs) (\<lambda>(llAddress, bs).
     bind_res (read_uint32 bs) (\<lambda>(llOwner, bs).
     bind_res (read_uint8 bs) (\<lambda>(exitCode, bs).
     bind_res (ReadBool bs) (\<lambda>(exited, bs).
     bind_res (read_uint64 bs) (\<lambda>(st, bs).
     bind_res (read_uint64 bs) (\<lambda>(since, bs).
     bind_res (read_uint32 bs) (\<lambda>(wakeup, bs).
     bind_res (ReadBool bs) (\<lambda>(right, bs).
     bind_res (read_uint32 bs) (\<lambda>(nextId, bs).
     bind_res (read_uint32 bs) (\<lambda>(leftSize, bs).
     bind_res (read_list thread_Deserialize (unat leftSize) bs) (\<lambda>(leftStack, bs).
     bind_res (read_uint32 bs) (\<lambda>(rightSize, bs).
     bind_res (read_list thread_Deserialize (unat rightSize) bs) (\<lambda>(rightStack, bs).
     bind_res (ReadBytes bs) (\<lambda>(hint, bs).
     Ok (\<lparr>m_mem = mem, m_preimageKey = key, m_preimageOffset = off, m_heap = heap,
          m_llActive = llActive, m_llAddress = llAddress, m_llOwner = llOwner, m_exitCode = exitCode,
          m_exited = exited, m_step = st, m_sinceSwitch = since, m_wakeup = wakeup,
          m_traverseRight = right, m_leftStack = leftStack, m_rightStack = rightStack,
          m_nextThreadId = nextId, m_lastHint = hint\<rparr>, bs))))))))))))))))))))"

section \<open>Scheduling\<close>

definition preemptThread :: "state2 \<Rightarrow> (state2 \<times> bool) res" where
  "preemptThread s =
     bind_res
       (if m_traverseRight s then
          guard_panic (m_rightStack s \<noteq> []) ''empty right thread stack''
            (Ok (s\<lparr>m_rightStack := butlast (m_rightStack s),
                   m_leftStack := m_leftStack s @ [last (m_rightStack s)]\<rparr>))
        else
          guard_panic (m_leftStack s \<noteq> []) ''empty left thread stack''
            (Ok (s\<lparr>m_leftStack := butlast (m_leftStack s),
                   m_rightStack := m_rightStack s @ [last (m_leftStack s)]\<rparr>))) (\<lambda>s1.
     let changeDirections = (getActiveThreadStack s1 = []);
         s2 = (if changeDirections then s1\<lparr>m_traverseRight := \<not> m_traverseRight s1\<rparr> else s1)
     in Ok (s2\<lparr>m_sinceSwitch := 0\<rparr>, changeDirections))"

definition pushThread :: "thread \<Rightarrow> state2 \<Rightarrow> state2" where
  "pushThread t s = (set_active (getActiveThreadStack s @ [t]) s)\<lparr>m_sinceSwitch := 0\<rparr>"

definition popThread :: "state2 \<Rightarrow> state2 res" where
  "popThread s =
     guard_panic (getActiveThreadStack s \<noteq> []) ''slice bounds out of range''
       (let s1 = set_active (butlast (getActiveThreadStack s)) s;
            s2 = (if getActiveThreadStack s1 = [] then s1\<lparr>m_traverseRight := \<not> m_traverseRight s1\<rparr> else s1)
        in Ok (s2\<lparr>m_sinceSwitch := 0\<rparr>))"

definition lastThreadRemaining :: "state2 \<Rightarrow> bool" where
  "lastThreadRemaining s \<longleftrightarrow> ThreadCount s = 1"

definition thread_syscall_updates :: "thread \<Rightarrow> u32 \<Rightarrow> u32 \<Rightarrow> thread" where
  "thread_syscall_updates t v0 v1 =
     (case HandleSyscallUpdates (t_cpu t) (t_regs t) v0 v1 of (cpu, regs) \<Rightarrow> t\<lparr>t_cpu := cpu, t_regs := regs\<rparr>)"

definition onWaitComplete :: "state2 \<Rightarrow> thread \<Rightarrow> bool \<Rightarrow> state2" where
  "onWaitComplete s t isTimedOut =
     (let t1 = t\<lparr>t_futexAddr := FutexEmptyAddr, t_futexVal := 0, t_futexTimeoutStep := 0\<rparr>;
          v0 = (if isTimedOut then SysErrorSignal else 0);
          v1 = (if isTimedOut then MipsETIMEDOUT else 0)
      in (put_thread (thread_syscall_updates t1 v0 v1) s)\<lparr>m_wakeup := FutexEmptyAddr\<rparr>)"

definition clearLLMemoryReservation :: "state2 \<Rightarrow> state2" where
  "clearLLMemoryReservation s = s\<lparr>m_llActive := False, m_llAddress := 0, m_llOwner := 0\<rparr>"

definition handleMemoryUpdate :: "u32 \<Rightarrow> state2 \<Rightarrow> state2" where
  "handleMemoryUpdate memAddr s = (if memAddr = m_llAddress s then clearLLMemoryReservation s else s)"

section \<open>The instrumented VM\<close>

text \<open>The stack tracker keeps one tracker per thread, made when it is first used; a thread that
  has none is one with an empty stack.\<close>

datatype threaded_tracker = NoopThreads | TraceThreads "u32 \<Rightarrow> stack_tracker"

definition NewThreadedStackTracker :: "bool \<Rightarrow> threaded_tracker res" where
  "NewThreadedStackTracker hasMeta =
     guard_err hasMeta ''metadata is nil'' (Ok (TraceThreads (\<lambda>_. TraceStack [] [])))"

fun getCurrentTracker :: "threaded_tracker \<Rightarrow> u32 \<Rightarrow> stack_tracker" where
  "getCurrentTracker NoopThreads tid = NoopStack"
| "getCurrentTracker (TraceThreads f) tid = f tid"

fun put_tracker :: "threaded_tracker \<Rightarrow> u32 \<Rightarrow> stack_tracker \<Rightarrow> threaded_tracker" where
  "put_tracker NoopThreads tid st = NoopThreads"
| "put_tracker (TraceThreads f) tid st = TraceThreads (f(tid := st))"

definition DropThread :: "threaded_tracker \<Rightarrow> u32 \<Rightarrow> threaded_tracker" where
  "DropThread tt tid = put_tracker tt tid (TraceStack [] [])"

record inst2 =
  n_state :: state2
  n_mt :: mem_tracker
  n_st :: threaded_tracker
  n_pr :: preimage_reader
  n_out :: "(u32 \<times> bytes) list"

definition m_NewInstrumentedState :: "state2 \<Rightarrow> inst2" where
  "m_NewInstrumentedState s = \<lparr>n_state = s, n_mt = NewMemoryTracker, n_st = NoopThreads,
     n_pr = NewTrackingPreimageOracleReader, n_out = []\<rparr>"

definition m_InitDebug :: "bool \<Rightarrow> inst2 \<Rightarrow> inst2 res" where
  "m_InitDebug hasMeta i = bind_res (NewThreadedStackTracker hasMeta) (\<lambda>tt. Ok (i\<lparr>n_st := tt\<rparr>))"

definition n_io :: "inst2 \<Rightarrow> sys_io" where
  "n_io i = \<lparr>io_mem = m_mem (n_state i), io_mt = n_mt i, io_pr = n_pr i, io_out = n_out i\<rparr>"

definition m_set_io :: "sys_io \<Rightarrow> inst2 \<Rightarrow> inst2" where
  "m_set_io io i = i\<lparr>n_state := (n_state i)\<lparr>m_mem := io_mem io\<rparr>, n_mt := io_mt io,
     n_pr := io_pr io, n_out := io_out io\<rparr>"

definition upd_state :: "(state2 \<Rightarrow> state2) \<Rightarrow> inst2 \<Rightarrow> inst2" where
  "upd_state f i = i\<lparr>n_state := f (n_state i)\<rparr>"

text \<open>A tracked load, and a tracked store with its effect on the reservation.\<close>

definition tracked_load :: "(bytes \<Rightarrow> hash) \<Rightarrow> inst2 \<Rightarrow> u32 \<Rightarrow> (inst2 \<times> u32) res" where
  "tracked_load kk i effAddr =
     bind_res (TrackMemAccess kk (n_mt i) (m_mem (n_state i)) effAddr) (\<lambda>(mt, m1).
     bind_res (GetMemory m1 effAddr) (\<lambda>(m2, mem).
     Ok (i\<lparr>n_state := (n_state i)\<lparr>m_mem := m2\<rparr>, n_mt := mt\<rparr>, mem)))"

definition set_and_update :: "inst2 \<Rightarrow> u32 \<Rightarrow> u32 \<Rightarrow> inst2 res" where
  "set_and_update i addr v =
     bind_res (SetMemory (m_mem (n_state i)) addr v) (\<lambda>m.
     Ok (i\<lparr>n_state := handleMemoryUpdate addr ((n_state i)\<lparr>m_mem := m\<rparr>)\<rparr>))"

section \<open>System calls\<close>

definition sys_clone :: "inst2 \<Rightarrow> thread \<Rightarrow> u32 \<Rightarrow> u32 \<Rightarrow> inst2 res" where
  "sys_clone i t a0 a1 =
     (let s = n_state i in
      if ValidCloneFlags \<noteq> a0 then Ok (i\<lparr>n_state := s\<lparr>m_exited := True, m_exitCode := 2\<rparr>\<rparr>)
      else
        let cpu = t_cpu t;
            newThread = \<lparr>t_id = m_nextThreadId s, t_exitCode = 0, t_exited = False,
              t_futexAddr = FutexEmptyAddr, t_futexVal = 0, t_futexTimeoutStep = 0,
              t_cpu = \<lparr>cpu_PC = cpu_NextPC cpu, cpu_NextPC = cpu_NextPC cpu + 4,
                       cpu_LO = cpu_LO cpu, cpu_HI = cpu_HI cpu\<rparr>,
              t_regs = set_reg (set_reg (set_reg (t_regs t) 29 a1) 2 0) 7 0\<rparr>;
            s1 = s\<lparr>m_nextThreadId := m_nextThreadId s + 1\<rparr>;
            s2 = put_thread (thread_syscall_updates t (m_nextThreadId s) 0) s1;
            s3 = pushThread newThread s2
        in Ok (i\<lparr>n_state := s3, n_st := put_tracker (n_st i) (t_id newThread)
                 (PushStack (getCurrentTracker (n_st i) (t_id newThread)) (cpu_PC cpu) (cpu_NextPC cpu))\<rparr>))"

definition sys_exit :: "state2 \<Rightarrow> thread \<Rightarrow> u32 \<Rightarrow> state2" where
  "sys_exit s t a0 =
     (let s1 = put_thread (t\<lparr>t_exited := True, t_exitCode := ucast a0\<rparr>) s in
      if lastThreadRemaining s1 then s1\<lparr>m_exited := True, m_exitCode := ucast a0\<rparr> else s1)"

definition finish_with :: "inst2 \<Rightarrow> thread \<Rightarrow> u32 \<Rightarrow> u32 \<Rightarrow> inst2" where
  "finish_with i t v0 v1 = upd_state (put_thread (thread_syscall_updates t v0 v1)) i"

definition yield_thread :: "inst2 \<Rightarrow> thread \<Rightarrow> inst2 res" where
  "yield_thread i t =
     bind_res (preemptThread (put_thread (thread_syscall_updates t 0 0) (n_state i))) (\<lambda>(s, _).
     Ok (i\<lparr>n_state := s\<rparr>))"

definition sys_futex :: "(bytes \<Rightarrow> hash) \<Rightarrow> inst2 \<Rightarrow> thread \<Rightarrow> u32 \<Rightarrow> u32 \<Rightarrow> u32 \<Rightarrow> u32 \<Rightarrow> inst2 res" where
  "sys_futex kk i t a0 a1 a2 a3 =
     (let effAddr = a0 AND 0xFFFFFFFC in
      if a1 = FutexWaitPrivate then
        bind_res (tracked_load kk i effAddr) (\<lambda>(i1, mem).
        if mem \<noteq> a2 then Ok (finish_with i1 t SysErrorSignal MipsEAGAIN)
        else
          let timeout = (if a3 = 0 then FutexNoTimeout else m_step (n_state i1) + FutexTimeoutSteps)
          in Ok (upd_state (put_thread (t\<lparr>t_futexAddr := effAddr, t_futexVal := a2,
                   t_futexTimeoutStep := timeout\<rparr>)) i1))
      else if a1 = FutexWakePrivate then
        bind_res (yield_thread (i\<lparr>n_state := (n_state i)\<lparr>m_wakeup := effAddr\<rparr>\<rparr>) t) (\<lambda>i1.
        Ok (upd_state (\<lambda>s. s\<lparr>m_traverseRight := (m_leftStack s = [])\<rparr>) i1))
      else Ok (finish_with i t SysErrorSignal MipsEINVAL))"

definition sys_clock_gettime :: "(bytes \<Rightarrow> hash) \<Rightarrow> inst2 \<Rightarrow> thread \<Rightarrow> u32 \<Rightarrow> u32 \<Rightarrow> inst2 res" where
  "sys_clock_gettime kk i t a0 a1 =
     (if a0 = 0 \<or> a0 = 1 then
        let st = m_step (n_state i);
            secs = (if a0 = 1 then ucast (st div HZ) else 0 :: u32);
            nsecs = (if a0 = 1 then ucast ((st mod HZ) * (1000000000 div HZ)) else 0 :: u32);
            effAddr = a1 AND 0xFFFFFFFC
        in bind_res (TrackMemAccess kk (n_mt i) (m_mem (n_state i)) effAddr) (\<lambda>(mt, m1).
           bind_res (set_and_update (i\<lparr>n_state := (n_state i)\<lparr>m_mem := m1\<rparr>, n_mt := mt\<rparr>) effAddr secs) (\<lambda>i1.
           bind_res (TrackMemAccess2 kk (n_mt i1) (m_mem (n_state i1)) (effAddr + 4)) (\<lambda>(mt2, m2).
           bind_res (set_and_update (i1\<lparr>n_state := (n_state i1)\<lparr>m_mem := m2\<rparr>, n_mt := mt2\<rparr>) (effAddr + 4) nsecs) (\<lambda>i2.
           Ok (finish_with i2 t 0 0)))))
      else Ok (finish_with i t SysErrorSignal MipsEINVAL))"

definition noop_syscalls :: "u32 list" where
  "noop_syscalls = [4091, 4240, 4218, 4195, 4206, 4194, 4338, 4006, 4200, 4215, 4288, 4085, 4298,
     4054, 4326, 4328, 4249, 4313, 4353, 4122, 4213, 4024, 4047, 4140, 4217, 4266, 4104, 4257, 4258, 4261]"

definition m_handleSyscall :: "(bytes \<Rightarrow> hash) \<Rightarrow> (bytes \<Rightarrow> bytes) \<Rightarrow> inst2 \<Rightarrow> inst2 res" where
  "m_handleSyscall kk po i =
     (let s = n_state i in
      bind_res (GetCurrentThread s) (\<lambda>t.
      case GetSyscallArgs (t_regs t) of (syscallNum, a0, a1, a2, a3) \<Rightarrow>
      if syscallNum = 4090 then
        (case HandleSysMmap a0 a1 (m_heap s) of (v0, v1, newHeap) \<Rightarrow>
           Ok (finish_with (i\<lparr>n_state := s\<lparr>m_heap := newHeap\<rparr>\<rparr>) t v0 v1))
      else if syscallNum = 4045 then Ok (finish_with i t PROGRAM_BREAK 0)
      else if syscallNum = 4120 then sys_clone i t a0 a1
      else if syscallNum = 4246 then
        Ok (i\<lparr>n_state := s\<lparr>m_exited := True, m_exitCode := ucast a0\<rparr>\<rparr>)
      else if syscallNum = 4003 then
        bind_res (HandleSysRead kk po a0 a1 a2 (m_preimageKey s) (m_preimageOffset s) (n_io i))
          (\<lambda>(io, v0, v1, newPreimageOffset, memUpdated, memAddr).
          let i1 = upd_state (\<lambda>s. s\<lparr>m_preimageOffset := newPreimageOffset\<rparr>) (m_set_io io i);
              i2 = (if memUpdated then upd_state (handleMemoryUpdate memAddr) i1 else i1)
          in Ok (finish_with i2 t v0 v1))
      else if syscallNum = 4004 then
        bind_res (HandleSysWrite kk a0 a1 a2 (m_lastHint s) (m_preimageKey s) (m_preimageOffset s) (n_io i))
          (\<lambda>(io, v0, v1, newLastHint, newPreimageKey, newPreimageOffset).
          Ok (finish_with (upd_state (\<lambda>s. s\<lparr>m_lastHint := newLastHint, m_preimageKey := newPreimageKey,
            m_preimageOffset := newPreimageOffset\<rparr>) (m_set_io io i)) t v0 v1))
      else if syscallNum = 4055 then
        (case HandleSysFcntl a0 a1 of (v0, v1) \<Rightarrow> Ok (finish_with i t v0 v1))
      else if syscallNum = 4222 then Ok (finish_with i t (t_id t) 0)
      else if syscallNum = 4001 then Ok (i\<lparr>n_state := sys_exit s t a0\<rparr>)
      else if syscallNum = 4238 then sys_futex kk i t a0 a1 a2 a3
      else if syscallNum = 4162 \<or> syscallNum = 4166 then yield_thread i t
      else if syscallNum = 4005 then Ok (finish_with i t SysErrorSignal MipsEBADF)
      else if syscallNum = 4263 then sys_clock_gettime kk i t a0 a1
      else if syscallNum = 4020 \<or> syscallNum \<in> set noop_syscalls then Ok (finish_with i t 0 0)
      else Panic ''unrecognized syscall''))"

section \<open>A step\<close>

definition m_handleRMWOps :: "(bytes \<Rightarrow> hash) \<Rightarrow> inst2 \<Rightarrow> u32 \<Rightarrow> u32 \<Rightarrow> inst2 res" where
  "m_handleRMWOps kk i insn opcode =
     bind_res (GetCurrentThread (n_state i)) (\<lambda>t.
     let base = get_reg (t_regs t) (shr insn 21 AND 0x1F);
         rtReg = shr insn 16 AND 0x1F;
         effAddr = (base + SignExtendImmediate insn) AND 0xFFFFFFFC
     in bind_res (tracked_load kk i effAddr) (\<lambda>(i1, mem).
        let s = n_state i1; threadId = t_id t in
        bind_res
          (if opcode = 0x30 then
             Ok (s\<lparr>m_llActive := True, m_llAddress := effAddr, m_llOwner := threadId\<rparr>, mem)
           else if opcode = 0x38 then
             (if m_llActive s \<and> m_llOwner s = threadId \<and> m_llAddress s = effAddr then
                let s1 = clearLLMemoryReservation s; rt = get_reg (t_regs t) rtReg in
                bind_res (SetMemory (m_mem s1) effAddr rt) (\<lambda>m. Ok (s1\<lparr>m_mem := m\<rparr>, 1))
              else Ok (s, 0))
           else Panic ''Invalid instruction passed to handleRMWOps'') (\<lambda>(s2, retVal).
        bind_res (HandleRd (t_cpu t) (t_regs t) rtReg retVal True) (\<lambda>(cpu, regs).
        Ok (i1\<lparr>n_state := put_thread (t\<lparr>t_cpu := cpu, t_regs := regs\<rparr>) s2\<rparr>)))))"

definition core2 :: "inst2 \<Rightarrow> thread \<Rightarrow> core" where
  "core2 i t = \<lparr>co_cpu = t_cpu t, co_regs = t_regs t, co_mem = m_mem (n_state i), co_mt = n_mt i,
     co_st = getCurrentTracker (n_st i) (t_id t)\<rparr>"

definition set_core2 :: "core \<Rightarrow> thread \<Rightarrow> inst2 \<Rightarrow> inst2" where
  "set_core2 c t i = i\<lparr>
     n_state := put_thread (t\<lparr>t_cpu := co_cpu c, t_regs := co_regs c\<rparr>) ((n_state i)\<lparr>m_mem := co_mem c\<rparr>),
     n_mt := co_mt c, n_st := put_tracker (n_st i) (t_id t) (co_st c)\<rparr>"

text \<open>One step of the wake-up traversal, at thread \<open>t\<close>.\<close>

definition wakeup_step :: "state2 \<Rightarrow> thread \<Rightarrow> state2 res" where
  "wakeup_step s t =
     (if m_wakeup s = t_futexAddr t then Ok (s\<lparr>m_wakeup := FutexEmptyAddr\<rparr>)
      else
        let traversingRight = m_traverseRight s in
        bind_res (preemptThread s) (\<lambda>(s1, changedDirections).
        Ok (if traversingRight \<and> changedDirections then s1\<lparr>m_wakeup := FutexEmptyAddr\<rparr> else s1)))"

text \<open>One step of a thread that is blocked on a futex.\<close>

definition blocked_step :: "(bytes \<Rightarrow> hash) \<Rightarrow> inst2 \<Rightarrow> thread \<Rightarrow> inst2 res" where
  "blocked_step kk i t =
     (if m_step (n_state i) > t_futexTimeoutStep t then Ok (upd_state (\<lambda>s. onWaitComplete s t True) i)
      else
        bind_res (tracked_load kk i (t_futexAddr t AND 0xFFFFFFFC)) (\<lambda>(i1, mem).
        if t_futexVal t = mem then
          bind_res (preemptThread (n_state i1)) (\<lambda>(s, _). Ok (i1\<lparr>n_state := s\<rparr>))
        else Ok (upd_state (\<lambda>s. onWaitComplete s t False) i1)))"

text \<open>The execution of the instruction at the program counter of the current thread.\<close>

definition insn_step ::
    "(bytes \<Rightarrow> hash) \<Rightarrow> (bytes \<Rightarrow> bytes) \<Rightarrow> (u32 \<Rightarrow> string) \<Rightarrow> inst2 \<Rightarrow> thread \<Rightarrow> inst2 res" where
  "insn_step kk po lookup i t =
     bind_res (GetInstructionDetails (cpu_PC (t_cpu t)) (m_mem (n_state i))) (\<lambda>(m, insn, opcode, fun').
     let i1 = i\<lparr>n_state := (n_state i)\<lparr>m_mem := m\<rparr>\<rparr> in
     if opcode = 0 \<and> fun' = 0xC then m_handleSyscall kk po i1
     else if opcode = 0x30 \<or> opcode = 0x38 then m_handleRMWOps kk i1 insn opcode
     else bind_res (ExecMipsCoreStepLogic kk lookup (core2 i1 t) insn opcode fun') (\<lambda>(c, memUpdated, memAddr).
          let i2 = set_core2 c t i1 in
          Ok (if memUpdated then upd_state (handleMemoryUpdate memAddr) i2 else i2)))"

definition m_mipsStep ::
    "(bytes \<Rightarrow> hash) \<Rightarrow> (bytes \<Rightarrow> bytes) \<Rightarrow> (u32 \<Rightarrow> string) \<Rightarrow> inst2 \<Rightarrow> inst2 res" where
  "m_mipsStep kk po lookup i =
     (if m_exited (n_state i) then Ok i
      else
        let i1 = upd_state (\<lambda>s. s\<lparr>m_step := m_step s + 1\<rparr>) i; s = n_state i1 in
        bind_res (GetCurrentThread s) (\<lambda>t.
        if m_wakeup s \<noteq> FutexEmptyAddr then
          bind_res (wakeup_step s t) (\<lambda>s1. Ok (i1\<lparr>n_state := s1\<rparr>))
        else if t_exited t then
          bind_res (popThread s) (\<lambda>s1. Ok (i1\<lparr>n_state := s1, n_st := DropThread (n_st i1) (t_id t)\<rparr>))
        else if t_futexAddr t \<noteq> FutexEmptyAddr then blocked_step kk i1 t
        else if m_sinceSwitch s \<ge> SchedQuantum then
          bind_res (preemptThread s) (\<lambda>(s1, _). Ok (i1\<lparr>n_state := s1\<rparr>))
        else insn_step kk po lookup (upd_state (\<lambda>s. s\<lparr>m_sinceSwitch := m_sinceSwitch s + 1\<rparr>) i1) t))"

definition m_Step ::
    "(bytes \<Rightarrow> hash) \<Rightarrow> (bytes \<Rightarrow> bytes) \<Rightarrow> (u32 \<Rightarrow> string) \<Rightarrow> bool \<Rightarrow> inst2 \<Rightarrow> (inst2 \<times> step_witness option) res" where
  "m_Step kk po lookup proof i =
     (let i1 = i\<lparr>n_pr := preimage_Reset (n_pr i), n_mt := tracker_Reset proof (n_mt i)\<rparr> in
      bind_res
        (if proof then
           bind_res (EncodeThreadProof kk (n_state i1)) (\<lambda>threadProof.
           bind_res (m_GetPC (n_state i1)) (\<lambda>pc.
           bind_res (MerkleProof kk (m_mem (n_state i1)) pc) (\<lambda>(m, insnProof).
           bind_res (m_EncodeWitness kk ((n_state i1)\<lparr>m_mem := m\<rparr>)) (\<lambda>(s, encodedWitness, stateHash).
           Ok (i1\<lparr>n_state := s\<rparr>, Some \<lparr>wit_State = encodedWitness, wit_StateHash = stateHash,
             wit_ProofData = threadProof @ insnProof, wit_PreimageKey = replicate 32 0,
             wit_PreimageValue = [], wit_PreimageOffset = 0\<rparr>)))))
         else Ok (i1, None)) (\<lambda>(i2, wit).
      bind_res (m_mipsStep kk po lookup i2) (\<lambda>i3.
      Ok (i3, case wit of None \<Rightarrow> None
        | Some w \<Rightarrow>
            let w1 = w\<lparr>wit_ProofData := wit_ProofData w @ mt_proof (n_mt i3) @ mt_proof2 (n_mt i3)\<rparr> in
            Some (if pr_offset (n_pr i3) \<noteq> 0xFFFFFFFF then
                    w1\<lparr>wit_PreimageOffset := pr_offset (n_pr i3), wit_PreimageKey := pr_key (n_pr i3),
                       wit_PreimageValue := pr_last (n_pr i3)\<rparr>
                  else w1)))))"

section \<open>Versioned states\<close>

datatype fpvm_state = SingleState state1 | MultiState state2

definition VersionSingleThreaded :: u8 where "VersionSingleThreaded = 0"
definition VersionMultiThreaded :: u8 where "VersionMultiThreaded = 1"

fun NewFromState :: "fpvm_state \<Rightarrow> u8 \<times> fpvm_state" where
  "NewFromState (SingleState s) = (VersionSingleThreaded, SingleState s)"
| "NewFromState (MultiState s) = (VersionMultiThreaded, MultiState s)"

fun fpvm_Serialize :: "u32 list \<Rightarrow> fpvm_state \<Rightarrow> bytes res" where
  "fpvm_Serialize order (SingleState s) = s_Serialize order s"
| "fpvm_Serialize order (MultiState s) = m_Serialize order s"

definition versioned_Serialize :: "u32 list \<Rightarrow> u8 \<times> fpvm_state \<Rightarrow> bytes res" where
  "versioned_Serialize order v = bind_res (fpvm_Serialize order (snd v)) (\<lambda>bs. Ok (fst v # bs))"

definition versioned_Deserialize :: "(u8 \<times> fpvm_state) parser" where
  "versioned_Deserialize bs =
     bind_res (read_uint8 bs) (\<lambda>(v, bs).
     if v = VersionSingleThreaded then
       bind_res (s_Deserialize bs) (\<lambda>(s, rest). Ok ((v, SingleState s), rest))
     else if v = VersionMultiThreaded then
       bind_res (m_Deserialize bs) (\<lambda>(s, rest). Ok ((v, MultiState s), rest))
     else Err ''unknown version'')"

end
