(* ===== verification/CannonSched.thy ===== *)
theory CannonSched
  imports CannonMulti
begin

unbundle bit_operations_syntax

text \<open>
  The scheduler of the multi-threaded VM. The two thread stacks are one row of threads, the left
  stack followed by the right one reversed, with a cursor between them: preemption moves the
  cursor and keeps the row, and every thread but the current one is alive. From this follow that
  the VM never runs out of threads, and that a wake-up traversal reaches every thread.
\<close>

section \<open>Fields\<close>

lemma put_thread_fields [simp]:
  "m_mem (put_thread t s) = m_mem s" "m_preimageKey (put_thread t s) = m_preimageKey s"
  "m_preimageOffset (put_thread t s) = m_preimageOffset s" "m_heap (put_thread t s) = m_heap s"
  "m_llActive (put_thread t s) = m_llActive s" "m_llAddress (put_thread t s) = m_llAddress s"
  "m_llOwner (put_thread t s) = m_llOwner s" "m_exitCode (put_thread t s) = m_exitCode s"
  "m_exited (put_thread t s) = m_exited s" "m_step (put_thread t s) = m_step s"
  "m_wakeup (put_thread t s) = m_wakeup s" "m_traverseRight (put_thread t s) = m_traverseRight s"
  "m_lastHint (put_thread t s) = m_lastHint s" "m_nextThreadId (put_thread t s) = m_nextThreadId s"
  by (simp_all add: put_thread_def set_active_def)

definition inactive_stack :: "state2 \<Rightarrow> thread list" where
  "inactive_stack s = (if m_traverseRight s then m_leftStack s else m_rightStack s)"

text \<open>The row of threads.\<close>

definition thread_row :: "state2 \<Rightarrow> thread list" where
  "thread_row s = m_leftStack s @ rev (m_rightStack s)"

lemma length_thread_row: "length (thread_row s) = ThreadCount s"
  by (simp add: thread_row_def ThreadCount_def)

lemma set_thread_row: "set (thread_row s) = set (getActiveThreadStack s) \<union> set (inactive_stack s)"
  by (auto simp: thread_row_def getActiveThreadStack_def inactive_stack_def)

lemma put_thread_stacks [simp]:
  "getActiveThreadStack (put_thread t s) = butlast (getActiveThreadStack s) @ [t]"
  "inactive_stack (put_thread t s) = inactive_stack s"
  by (simp_all add: put_thread_def set_active_def getActiveThreadStack_def inactive_stack_def)

lemma GetCurrentThread_Ok: "GetCurrentThread s = Ok t \<longleftrightarrow> getActiveThreadStack s \<noteq> [] \<and> t = last (getActiveThreadStack s)"
  by (auto simp: GetCurrentThread_def Let_def guard_panic_def)

section \<open>Well-formed thread stacks\<close>

definition sched_ok :: "state2 \<Rightarrow> bool" where
  "sched_ok s \<longleftrightarrow> getActiveThreadStack s \<noteq> [] \<and>
     (m_exited s \<or> list_all (\<lambda>t. \<not> t_exited t) (butlast (getActiveThreadStack s) @ inactive_stack s) \<and>
        (t_exited (last (getActiveThreadStack s)) \<longrightarrow>
           butlast (getActiveThreadStack s) @ inactive_stack s \<noteq> [] \<and> m_wakeup s = FutexEmptyAddr)) \<and>
     list_all (\<lambda>t. t_regs t 0 = 0) (getActiveThreadStack s @ inactive_stack s)"

text \<open>\<open>sched_ok\<close> with a current thread that is alive, as it is while an instruction runs.\<close>

definition sched_run :: "state2 \<Rightarrow> bool" where
  "sched_run s \<longleftrightarrow> getActiveThreadStack s \<noteq> [] \<and> list_all (\<lambda>t. \<not> t_exited t \<and> t_regs t 0 = 0)
     (getActiveThreadStack s @ inactive_stack s)"

lemma sched_run_ok: "sched_run s \<Longrightarrow> sched_ok s"
  by (auto simp: sched_run_def sched_ok_def list_all_iff dest: in_set_butlastD)

lemma sched_ok_run: "sched_ok s \<Longrightarrow> \<not> m_exited s \<Longrightarrow> \<not> t_exited (last (getActiveThreadStack s)) \<Longrightarrow> sched_run s"
  by (cases "getActiveThreadStack s" rule: rev_cases) (auto simp: sched_run_def sched_ok_def list_all_iff)

lemma sched_run_cong:
  "m_leftStack s' = m_leftStack s \<Longrightarrow> m_rightStack s' = m_rightStack s \<Longrightarrow>
   m_traverseRight s' = m_traverseRight s \<Longrightarrow> sched_run s' = sched_run s"
  by (simp add: sched_run_def getActiveThreadStack_def inactive_stack_def)

lemma sched_run_put:
  "sched_run s \<Longrightarrow> \<not> t_exited t \<Longrightarrow> t_regs t 0 = 0 \<Longrightarrow> sched_run (put_thread t s)"
  by (auto simp: sched_run_def list_all_iff dest: in_set_butlastD)

lemma sched_run_last:
  "sched_run s \<Longrightarrow> \<not> t_exited (last (getActiveThreadStack s)) \<and> t_regs (last (getActiveThreadStack s)) 0 = 0"
  by (auto simp: sched_run_def list_all_iff)

section \<open>Moving the cursor\<close>

lemma preemptThread_right:
  assumes "m_traverseRight s" "m_rightStack s = r @ [t]"
  shows "preemptThread s = Ok (s\<lparr>m_rightStack := r, m_leftStack := m_leftStack s @ [t],
    m_traverseRight := (r \<noteq> []), m_sinceSwitch := 0\<rparr>, r = [])"
  using assms by (cases "r = []") (auto simp: preemptThread_def Let_def getActiveThreadStack_def)

lemma preemptThread_left:
  assumes "\<not> m_traverseRight s" "m_leftStack s = l @ [t]"
  shows "preemptThread s = Ok (s\<lparr>m_leftStack := l, m_rightStack := m_rightStack s @ [t],
    m_traverseRight := (l = []), m_sinceSwitch := 0\<rparr>, l = [])"
  using assms by (cases "l = []") (auto simp: preemptThread_def Let_def getActiveThreadStack_def)

text \<open>A thread can always be preempted; the row stays, and the cursor finds a thread again.\<close>

lemma preemptThread_ok:
  assumes "getActiveThreadStack s \<noteq> []"
  shows "\<exists>s' ch. preemptThread s = Ok (s', ch) \<and> getActiveThreadStack s' \<noteq> [] \<and> thread_row s' = thread_row s \<and>
    s'\<lparr>m_leftStack := m_leftStack s, m_rightStack := m_rightStack s, m_traverseRight := m_traverseRight s,
       m_sinceSwitch := m_sinceSwitch s\<rparr> = s"
proof (cases "m_traverseRight s")
  case True
  obtain r t where r: "m_rightStack s = r @ [t]"
    using assms True by (cases "m_rightStack s" rule: rev_cases) (auto simp: getActiveThreadStack_def)
  then show ?thesis using preemptThread_right [OF True r] True
    by (auto simp: getActiveThreadStack_def thread_row_def)
next
  case False
  obtain l t where l: "m_leftStack s = l @ [t]"
    using assms False by (cases "m_leftStack s" rule: rev_cases) (auto simp: getActiveThreadStack_def)
  then show ?thesis using preemptThread_left [OF False l] False
    by (auto simp: getActiveThreadStack_def thread_row_def)
qed

lemma sched_run_row:
  "sched_run s \<longleftrightarrow> getActiveThreadStack s \<noteq> [] \<and> list_all (\<lambda>t. \<not> t_exited t \<and> t_regs t 0 = 0) (thread_row s)"
  by (auto simp: sched_run_def list_all_iff set_thread_row)

lemma preemptThread_run:
  assumes "sched_run s" "preemptThread s = Ok (s', ch)"
  shows "sched_run s' \<and> m_mem s' = m_mem s \<and> m_preimageKey s' = m_preimageKey s \<and> m_step s' = m_step s \<and>
    m_exited s' = m_exited s \<and> m_llActive s' = m_llActive s \<and> m_llAddress s' = m_llAddress s \<and>
    m_llOwner s' = m_llOwner s \<and> thread_row s' = thread_row s \<and> m_wakeup s' = m_wakeup s"
proof -
  obtain s1 ch1 where p: "preemptThread s = Ok (s1, ch1)" "getActiveThreadStack s1 \<noteq> []" "thread_row s1 = thread_row s"
    "s1\<lparr>m_leftStack := m_leftStack s, m_rightStack := m_rightStack s, m_traverseRight := m_traverseRight s,
       m_sinceSwitch := m_sinceSwitch s\<rparr> = s"
    using preemptThread_ok [of s] assms(1) by (auto simp: sched_run_def)
  have "s1 = s'" using p(1) assms(2) by simp
  moreover have "sched_run s1" using assms(1) p(2,3) by (simp add: sched_run_row)
  moreover have "m_mem s1 = m_mem s \<and> m_preimageKey s1 = m_preimageKey s \<and> m_step s1 = m_step s \<and>
    m_exited s1 = m_exited s \<and> m_llActive s1 = m_llActive s \<and> m_llAddress s1 = m_llAddress s \<and> m_llOwner s1 = m_llOwner s \<and>
    m_wakeup s1 = m_wakeup s"
    by (subst (1 2 3 4 5 6 7 8) p(4) [symmetric]) simp
  ultimately show ?thesis using p(3) by blast
qed

lemma popThread_ok:
  assumes "sched_ok s" "\<not> m_exited s" "t_exited (last (getActiveThreadStack s))"
  shows "\<exists>s'. popThread s = Ok s' \<and> sched_run s' \<and>
    s'\<lparr>m_leftStack := m_leftStack s, m_rightStack := m_rightStack s, m_traverseRight := m_traverseRight s,
       m_sinceSwitch := m_sinceSwitch s\<rparr> = s"
proof -
  have a: "getActiveThreadStack s \<noteq> []" "butlast (getActiveThreadStack s) @ inactive_stack s \<noteq> []"
    "list_all (\<lambda>t. \<not> t_exited t) (butlast (getActiveThreadStack s) @ inactive_stack s)"
    "list_all (\<lambda>t. t_regs t 0 = 0) (getActiveThreadStack s @ inactive_stack s)"
    using assms by (auto simp: sched_ok_def)
  show ?thesis
  proof (cases "m_traverseRight s")
    case True
    then show ?thesis using a
      by (auto simp: popThread_def Let_def set_active_def getActiveThreadStack_def inactive_stack_def sched_run_def
          list_all_iff dest: in_set_butlastD)
  next
    case False
    then show ?thesis using a
      by (auto simp: popThread_def Let_def set_active_def getActiveThreadStack_def inactive_stack_def sched_run_def
          list_all_iff dest: in_set_butlastD)
  qed
qed

lemma pushThread_run:
  "sched_run s \<Longrightarrow> \<not> t_exited t \<Longrightarrow> t_regs t 0 = 0 \<Longrightarrow> sched_run (pushThread t s)"
  by (auto simp: pushThread_def set_active_def sched_run_def getActiveThreadStack_def inactive_stack_def)

lemma pushThread_fields [simp]:
  "m_mem (pushThread t s) = m_mem s" "m_preimageKey (pushThread t s) = m_preimageKey s"
  "m_step (pushThread t s) = m_step s" "m_exited (pushThread t s) = m_exited s"
  "m_llActive (pushThread t s) = m_llActive s" "m_llAddress (pushThread t s) = m_llAddress s"
  "m_llOwner (pushThread t s) = m_llOwner s"
  by (simp_all add: pushThread_def set_active_def)

lemma sys_exit_ok:
  assumes "sched_run s" "m_wakeup s = FutexEmptyAddr"
  shows "sched_ok (sys_exit s (last (getActiveThreadStack s)) a0)"
proof -
  let ?s1 = "put_thread ((last (getActiveThreadStack s))\<lparr>t_exited := True, t_exitCode := ucast a0\<rparr>) s"
  have st: "getActiveThreadStack ?s1 \<noteq> []" "list_all (\<lambda>t. \<not> t_exited t) (butlast (getActiveThreadStack ?s1) @ inactive_stack ?s1)"
    "list_all (\<lambda>t. t_regs t 0 = 0) (getActiveThreadStack ?s1 @ inactive_stack ?s1)"
    using assms(1) by (auto simp: sched_run_def list_all_iff dest: in_set_butlastD)
  have cnt: "ThreadCount ?s1 = length (getActiveThreadStack ?s1) + length (inactive_stack ?s1)"
    unfolding ThreadCount_def getActiveThreadStack_def inactive_stack_def by auto
  show ?thesis
  proof (cases "lastThreadRemaining ?s1")
    case True
    then have "sys_exit s (last (getActiveThreadStack s)) a0 = ?s1\<lparr>m_exited := True, m_exitCode := ucast a0\<rparr>"
      by (simp only: sys_exit_def Let_def if_True)
    moreover have "getActiveThreadStack (?s1\<lparr>m_exited := True, m_exitCode := ucast a0\<rparr>) = getActiveThreadStack ?s1"
      "inactive_stack (?s1\<lparr>m_exited := True, m_exitCode := ucast a0\<rparr>) = inactive_stack ?s1"
      by (simp_all add: getActiveThreadStack_def inactive_stack_def)
    ultimately show ?thesis using st by (simp only: sched_ok_def) simp
  next
    case False
    then have e: "sys_exit s (last (getActiveThreadStack s)) a0 = ?s1"
      by (simp only: sys_exit_def Let_def if_False)
    have "ThreadCount ?s1 \<noteq> 1" using False by (simp only: lastThreadRemaining_def) simp
    then have "butlast (getActiveThreadStack ?s1) @ inactive_stack ?s1 \<noteq> []"
      unfolding cnt by (cases "butlast (getActiveThreadStack s)") auto
    then show ?thesis unfolding e using st assms(2) by (simp add: sched_ok_def)
  qed
qed

end
