(* ===== verification/CannonSingleProps.thy ===== *)
theory CannonSingleProps
  imports CannonSingle CannonSyscallProps
begin

unbundle bit_operations_syntax

text \<open>
  The single-threaded VM keeps its state well formed, and the witness of a step is sound: it
  commits to the state before the step, proves the instruction word and the word the step
  accesses against the committed memory root, and carries the pre-image the step read.
\<close>

section \<open>The oracle reader\<close>

lemma ReadPreimage_reader_ok:
  "ReadPreimage po p key off = Ok (p', dat, n) \<Longrightarrow> reader_ok po p \<Longrightarrow> reader_ok po p'"
  by (auto simp: ReadPreimage_def GetPreimage_def reader_ok_def preimage_of_def Let_def
      guard_panic_Ok split: if_splits)

lemma HandleSysRead_reader_ok:
  assumes "HandleSysRead kk po a0 a1 a2 key off io = Ok (io', v0, v1, off', upd, addr)" "reader_ok po (io_pr io)"
  shows "reader_ok po (io_pr io')"
proof (cases "a0 = 5")
  case True
  obtain mt m1 m2 mem pr dat n where s:
    "TrackMemAccess kk (io_mt io) (io_mem io) (a1 AND 0xFFFFFFFC) = Ok (mt, m1)"
    "GetMemory m1 (a1 AND 0xFFFFFFFC) = Ok (m2, mem)"
    "ReadPreimage po (io_pr io) key off = Ok (pr, dat, n)" "io_pr io' = pr"
    using assms(1) True by (auto simp: HandleSysRead_def Let_def res_simps)
  show ?thesis using ReadPreimage_reader_ok [OF s(3) assms(2)] s(4) by simp
next
  case False
  then show ?thesis using assms by (auto simp: HandleSysRead_def split: if_splits)
qed

lemma foldl_hint [simp]: "reader_ok po (foldl preimage_Hint p hs) = reader_ok po p"
  by (induction hs arbitrary: p) (simp_all add: preimage_Hint_def reader_ok_def)

lemma HandleSysWrite_reader_ok:
  assumes "HandleSysWrite kk a0 a1 a2 hint key off io = Ok (io', v0, v1, hint', key', off')" "reader_ok po (io_pr io)"
  shows "reader_ok po (io_pr io')"
  using assms by (auto simp: HandleSysWrite_def Let_def res_simps case_prod_beta split: if_splits)

section \<open>The step invariant\<close>

definition s_pre :: "(bytes \<Rightarrow> hash) \<Rightarrow> (bytes \<Rightarrow> bytes) \<Rightarrow> (u32 \<Rightarrow> byte) \<Rightarrow> inst1 \<Rightarrow> bool" where
  "s_pre kk po f i \<longleftrightarrow> pre kk f (s_mem (in_state i)) (in_mt i) \<and> s_regs (in_state i) 0 = 0 \<and>
     length (s_preimageKey (in_state i)) = 32 \<and> reader_ok po (in_pr i)"

definition s_post :: "(bytes \<Rightarrow> hash) \<Rightarrow> (bytes \<Rightarrow> bytes) \<Rightarrow> (u32 \<Rightarrow> byte) \<Rightarrow> inst1 \<Rightarrow> inst1 \<Rightarrow> bool" where
  "s_post kk po f i i' \<longleftrightarrow> post kk f (s_mem (in_state i')) (in_mt i') \<and> s_regs (in_state i') 0 = 0 \<and>
     length (s_preimageKey (in_state i')) = 32 \<and> reader_ok po (in_pr i') \<and>
     mt_enabled (in_mt i') = mt_enabled (in_mt i) \<and> s_step (in_state i') = s_step (in_state i)"

lemma s_pre_post: "s_pre kk po f i \<Longrightarrow> s_post kk po f i i"
  by (simp add: s_pre_def s_post_def pre_post)

lemma finish_syscall_post:
  "s_post kk po f i i' \<Longrightarrow> s_post kk po f i (finish_syscall i' v0 v1)"
  by (auto simp: s_post_def finish_syscall_def HandleSyscallUpdates_def set_reg_0 Let_def)

lemma handleSyscall_post:
  assumes run: "handleSyscall kk po i = Ok i'" and pre: "s_pre kk po f i"
  shows "s_post kk po f i i'"
proof -
  obtain n a0 a1 a2 a3 where args: "GetSyscallArgs (s_regs (in_state i)) = (n, a0, a1, a2, a3)"
    by (metis prod_cases5)
  have p: "pre kk f (io_mem (in_io i)) (io_mt (in_io i))" "reader_ok po (io_pr (in_io i))"
    using pre by (simp_all add: s_pre_def in_io_def)
  have post: "s_post kk po f i i" by (rule s_pre_post [OF pre])
  consider (rd) "n = 4003" | (wr) "n = 4004" | (other) "n \<noteq> 4003" "n \<noteq> 4004" by blast
  then show ?thesis
  proof cases
    case rd
    obtain io v0 v1 off upd addr where r:
      "HandleSysRead kk po a0 a1 a2 (s_preimageKey (in_state i)) (s_preimageOffset (in_state i)) (in_io i) =
         Ok (io, v0, v1, off, upd, addr)"
      "i' = finish_syscall ((set_io io i)\<lparr>in_state := (in_state (set_io io i))\<lparr>s_preimageOffset := off\<rparr>\<rparr>) v0 v1"
      using run rd args by (auto simp: handleSyscall_def Let_def res_simps)
    have "s_post kk po f i ((set_io io i)\<lparr>in_state := (in_state (set_io io i))\<lparr>s_preimageOffset := off\<rparr>\<rparr>)"
      using HandleSysRead_post [OF r(1) p(1)] HandleSysRead_reader_ok [OF r(1) p(2)] pre
      by (simp add: s_post_def s_pre_def set_io_def in_io_def)
    then show ?thesis unfolding r(2) by (rule finish_syscall_post)
  next
    case wr
    obtain io v0 v1 hint key off where r:
      "HandleSysWrite kk a0 a1 a2 (s_lastHint (in_state i)) (s_preimageKey (in_state i))
         (s_preimageOffset (in_state i)) (in_io i) = Ok (io, v0, v1, hint, key, off)"
      "i' = finish_syscall ((set_io io i)\<lparr>in_state := (in_state (set_io io i))\<lparr>s_lastHint := hint,
        s_preimageKey := key, s_preimageOffset := off\<rparr>\<rparr>) v0 v1"
      using run wr args by (auto simp: handleSyscall_def Let_def res_simps)
    have "s_post kk po f i ((set_io io i)\<lparr>in_state := (in_state (set_io io i))\<lparr>s_lastHint := hint,
        s_preimageKey := key, s_preimageOffset := off\<rparr>\<rparr>)"
      using HandleSysWrite_pre [OF r(1) p(1)] HandleSysWrite_reader_ok [OF r(1) p(2)] pre
      by (simp add: s_post_def s_pre_def set_io_def in_io_def pre_post)
    then show ?thesis unfolding r(2) by (rule finish_syscall_post)
  next
    case other
    have heap: "s_post kk po f i (i\<lparr>in_state := (in_state i)\<lparr>s_heap := h\<rparr>\<rparr>)"
      "s_post kk po f i (i\<lparr>in_state := (in_state i)\<lparr>s_exited := e, s_exitCode := c\<rparr>\<rparr>)" for h e c
      using post by (simp_all add: s_post_def)
    show ?thesis
      using run other args finish_syscall_post [OF post] finish_syscall_post [OF heap(1)] heap(2)
      by (auto simp: handleSyscall_def Let_def split: if_splits prod.splits)
  qed
qed

lemma handleRMWOps_post:
  assumes run: "handleRMWOps kk i insn oc = Ok i'" and pre: "s_pre kk po f i"
  shows "s_post kk po f i i'"
proof -
  define ea where "ea = (get_reg (s_regs (in_state i)) (shr insn 21 AND 0x1F) + SignExtendImmediate insn) AND 0xFFFFFFFC"
  obtain mt m1 m2 mem m3 v cpu regs where r:
    "TrackMemAccess kk (in_mt i) (s_mem (in_state i)) ea = Ok (mt, m1)" "GetMemory m1 ea = Ok (m2, mem)"
    "(if oc = 0x30 then Ok (m2, mem)
      else if oc = 0x38 then bind_res (SetMemory m2 ea (get_reg (s_regs (in_state i)) (shr insn 16 AND 0x1F))) (\<lambda>m3. Ok (m3, 1))
      else Panic ''Invalid instruction passed to handleRMWOps'') = Ok (m3, v)"
    "HandleRd (s_cpu (in_state i)) (s_regs (in_state i)) (shr insn 16 AND 0x1F) v True = Ok (cpu, regs)"
    "i' = i\<lparr>in_state := (in_state i)\<lparr>s_mem := m3, s_cpu := cpu, s_regs := regs\<rparr>, in_mt := mt\<rparr>"
    using run unfolding handleRMWOps_def Let_def ea_def [symmetric]
    by (elim bind_pairE) auto
  have m3: "m3 = m2 \<or> SetMemory m2 ea (get_reg (s_regs (in_state i)) (shr insn 16 AND 0x1F)) = Ok m3"
    using r(3) by (auto simp: res_simps split: if_splits)
  have "pre kk f m2 mt" "mt_enabled mt = mt_enabled (in_mt i)"
    using TrackMemAccess_pre [OF _ r(1)] GetMemory_pre [OF _ r(2)] pre by (auto simp: s_pre_def)
  moreover from this have "post kk f m3 mt" using m3 SetMemory_post(1) pre_post by blast
  ultimately show ?thesis using r(5) pre HandleRd_zero [OF r(4)] by (simp add: s_post_def s_pre_def)
qed

lemma core_step_post:
  assumes run: "ExecMipsCoreStepLogic kk lookup (core1 i) insn oc fn = Ok (c, upd, addr)" and pre: "s_pre kk po f i"
  shows "s_post kk po f i (set_core1 c i)"
proof -
  have "core_pre kk f (core1 i)" using pre by (simp add: core_pre_def core1_def s_pre_def)
  from ExecMipsCoreStepLogic_post [OF run this] show ?thesis
    using pre by (simp add: core_post_def s_post_def s_pre_def set_core1_def core1_def)
qed

lemma mipsStep_post:
  assumes run: "mipsStep kk po lookup i = Ok i'" and pre: "s_pre kk po f i"
  shows "post kk f (s_mem (in_state i')) (in_mt i') \<and> s_regs (in_state i') 0 = 0 \<and>
     length (s_preimageKey (in_state i')) = 32 \<and> reader_ok po (in_pr i') \<and>
     mt_enabled (in_mt i') = mt_enabled (in_mt i) \<and>
     (if s_exited (in_state i) then i' = i else s_step (in_state i') = s_step (in_state i) + 1)"
proof (cases "s_exited (in_state i)")
  case True
  then show ?thesis using run s_pre_post [OF pre] by (simp add: mipsStep_def s_post_def)
next
  case False
  define i1 where "i1 = i\<lparr>in_state := (in_state i)\<lparr>s_step := s_step (in_state i) + 1\<rparr>\<rparr>"
  define s where "s = in_state i1"
  have s: "s = (in_state i)\<lparr>s_step := s_step (in_state i) + 1\<rparr>" by (simp add: s_def i1_def)
  obtain m insn where g: "GetMemory (s_mem s) (cpu_PC (s_cpu s)) = Ok (m, insn)"
    using run False by (auto simp: mipsStep_def GetInstructionDetails_def Let_def res_simps s)
  define i2 where "i2 = i1\<lparr>in_state := s\<lparr>s_mem := m\<rparr>\<rparr>"
  have gd: "GetInstructionDetails (cpu_PC (s_cpu s)) (s_mem s) = Ok (m, insn, insn_opcode insn, insn_fun insn)"
    by (simp add: GetInstructionDetails_def g)
  have "pre kk f (s_mem s) (in_mt i)" using pre by (simp add: s_pre_def s)
  then have p2: "s_pre kk po f i2"
    using GetMemory_pre(1) [OF _ g] pre by (simp add: s_pre_def i2_def s i1_def)
  have run2: "(if insn_opcode insn = 0 \<and> insn_fun insn = 0xC then handleSyscall kk po i2
      else if insn_opcode insn = 0x30 \<or> insn_opcode insn = 0x38 then handleRMWOps kk i2 insn (insn_opcode insn)
      else bind_res (ExecMipsCoreStepLogic kk lookup (core1 i2) insn (insn_opcode insn) (insn_fun insn))
        (\<lambda>(c, _, _). Ok (set_core1 c i2))) = Ok i'"
    using run unfolding mipsStep_def if_not_P [OF False] Let_def i1_def [symmetric] s_def [symmetric]
      gd bind_res.simps prod.case i2_def [symmetric] .
  have "s_post kk po f i2 i'"
  proof (cases "insn_opcode insn = 0 \<and> insn_fun insn = 0xC")
    case True
    then show ?thesis using run2 handleSyscall_post [OF _ p2] by simp
  next
    case nosys: False
    show ?thesis
    proof (cases "insn_opcode insn = 0x30 \<or> insn_opcode insn = 0x38")
      case True
      then show ?thesis using run2 nosys handleRMWOps_post [OF _ p2] by auto
    next
      case False
      then show ?thesis using run2 nosys core_step_post [OF _ p2] by (auto simp: res_simps)
    qed
  qed
  then show ?thesis using False by (simp add: s_post_def i2_def s i1_def)
qed

section \<open>Step witnesses\<close>

definition s_inv :: "(bytes \<Rightarrow> hash) \<Rightarrow> (bytes \<Rightarrow> bytes) \<Rightarrow> inst1 \<Rightarrow> bool" where
  "s_inv kk po i \<longleftrightarrow> hash_size kk \<and> mem_coh kk (s_mem (in_state i)) \<and> s_regs (in_state i) 0 = 0 \<and>
     length (s_preimageKey (in_state i)) = 32 \<and> reader_ok po (in_pr i)"

lemma length_regs_list [simp]: "length (regs_list regs) = 32"
  by (simp add: regs_list_def)

lemma length_concat_be32 [simp]: "length (concat (map be32 xs)) = 4 * length xs"
  by (induction xs) simp_all

lemma length_witness_fields: "length (s_preimageKey s) = 32 \<Longrightarrow> length (witness_fields s) = 194"
  by (simp add: witness_fields_def AppendBoolToWitness_def Let_def)

lemma witness_status:
  assumes "length r = 32" "length (s_preimageKey s) = 32"
  shows "(r @ witness_fields s) ! 88 = s_exitCode s" "(r @ witness_fields s) ! 89 = (if s_exited s then 1 else 0)"
proof -
  have w: "r @ witness_fields s = (r @ s_preimageKey s @ be32 (s_preimageOffset s) @ be32 (cpu_PC (s_cpu s)) @
      be32 (cpu_NextPC (s_cpu s)) @ be32 (cpu_LO (s_cpu s)) @ be32 (cpu_HI (s_cpu s)) @ be32 (s_heap s)) @
      [s_exitCode s, if s_exited s then 1 else 0] @ be64 (s_step s) @ concat (map be32 (regs_list (s_regs s)))"
    by (simp add: witness_fields_def AppendBoolToWitness_def Let_def)
  show "(r @ witness_fields s) ! 88 = s_exitCode s" "(r @ witness_fields s) ! 89 = (if s_exited s then 1 else 0)"
    unfolding w using assms by (simp_all add: nth_append)
qed

lemma EncodeWitness_ok:
  assumes "hash_size kk" "mem_coh kk (s_mem s)" "length (s_preimageKey s) = 32"
  shows "\<exists>m'. EncodeWitness kk s = Ok (s\<lparr>s_mem := m'\<rparr>, ref_root kk (mem_byte (s_mem s)) @ witness_fields s,
      (kk (ref_root kk (mem_byte (s_mem s)) @ witness_fields s))[0 := s_VMStatus s]) \<and>
    mem_coh kk m' \<and> mem_byte m' = mem_byte (s_mem s)"
proof -
  let ?r = "ref_root kk (mem_byte (s_mem s))"
  obtain m' where m': "MerkleRoot kk (s_mem s) = Ok (m', ?r)" "mem_coh kk m'" "merk_ext (s_mem s) m'"
    using MerkleRoot_ok [OF assms(2)] by blast
  have r: "length ?r = 32"
    using length_node_hash [of kk "s_mem s" 1] assms(1) node_hash_root [of kk "s_mem s"]
    by (auto simp: hash_size_def)
  have l: "length (?r @ witness_fields s) = 226" using r length_witness_fields [OF assms(3)] by simp
  have "VmStatus ((?r @ witness_fields s) ! 89 = 1) ((?r @ witness_fields s) ! 88) = s_VMStatus s"
    using witness_status [OF r assms(3)] by (simp add: s_VMStatus_def)
  then have "stateHashFromWitness kk (?r @ witness_fields s) = Ok ((kk (?r @ witness_fields s))[0 := s_VMStatus s])"
    using l by (simp add: stateHashFromWitness_def)
  then have "EncodeWitness kk s = Ok (s\<lparr>s_mem := m'\<rparr>, ?r @ witness_fields s, (kk (?r @ witness_fields s))[0 := s_VMStatus s])"
    by (simp add: EncodeWitness_def m'(1) Let_def)
  then show ?thesis using m'(2) merk_ext_mem_byte [OF m'(3) mem_coh_wf [OF assms(2)]] by blast
qed


text \<open>The no-op at address 0 of an empty memory executes.\<close>

lemma nop_core: "\<exists>c'. ExecMipsCoreStepLogic kk lookup c 0 0 0 = Ok (c', False, 0)"
  by (simp add: ExecMipsCoreStepLogic_def core_fetch_def operand_rt_def dest_reg_def Let_def shr_def
      ExecuteMipsInstruction_def execute_special_def special_fun_def HandleRd_def on_cpu_def)

lemma nop_step:
  assumes "mem_coh kk (s_mem (in_state i))" "mem_byte (s_mem (in_state i)) = (\<lambda>_. 0)"
    "\<not> s_exited (in_state i)" "cpu_PC (s_cpu (in_state i)) = 0"
  shows "\<exists>i'. mipsStep kk po lookup i = Ok i'"
proof -
  obtain m where m: "GetMemory (s_mem (in_state i)) 0 = Ok (m, mem_word (s_mem (in_state i)) 0)"
    using GetMemory_coh [OF assms(1), of 0] by auto
  have w: "mem_word (s_mem (in_state i)) 0 = 0" by (simp add: mem_word_def assms(2) un32_def be_decode_def)
  define i1 where "i1 = i\<lparr>in_state := (in_state i)\<lparr>s_step := s_step (in_state i) + 1\<rparr>\<rparr>"
  have gd: "GetInstructionDetails (cpu_PC (s_cpu (in_state i1))) (s_mem (in_state i1)) = Ok (m, 0, 0, 0)"
    using m w assms(4) by (simp add: i1_def GetInstructionDetails_def insn_opcode_def insn_fun_def shr_def)
  define i2 where "i2 = i1\<lparr>in_state := (in_state i1)\<lparr>s_mem := m\<rparr>\<rparr>"
  have op: "((0 :: u32) = 0 \<and> (0 :: u32) = 0xC) = False" "((0 :: u32) = 0x30 \<or> (0 :: u32) = 0x38) = False"
    by simp_all
  obtain c' where c': "ExecMipsCoreStepLogic kk lookup (core1 i2) 0 0 0 = Ok (c', False, 0)"
    using nop_core by blast
  show ?thesis
    unfolding mipsStep_def if_not_P [OF assms(3)] Let_def i1_def [symmetric] gd bind_res.simps prod.case
      i2_def [symmetric] op if_False c' by blast
qed


end
