(* ===== verification/CannonState.thy ===== *)
theory CannonState
  imports CannonMulti CannonSingleProps
begin

unbundle bit_operations_syntax

text \<open>
  The binary format of the two VM states, with its version byte: reading back what was written
  gives a state that is equal up to the caches of its memory, hence has the same commitment. And
  the commitments bind: equal witnesses have equal fields.
\<close>

section \<open>Threads\<close>

lemma regs_of_list_list [simp]: "regs_of_list (regs_list regs) = regs"
proof
  fix i :: "5 word"
  have "unat i < 32" using unsigned_less [of i] by simp
  then show "regs_of_list (regs_list regs) i = regs i" by (simp add: regs_of_list_def regs_list_def)
qed

lemma regs_roundtrip [codec_simps]:
  "read_list read_uint32 32 (concat (map be32 (regs_list regs)) @ rest) = Ok (regs_list regs, rest)"
  using uint32.list_roundtrip [of "regs_list regs" rest] by simp

interpretation thread_codec: codec serializeThread thread_Deserialize "\<lambda>_. True"
proof unfold_locales
  fix t :: thread and rest
  show "thread_Deserialize (serializeThread t @ rest) = Ok (t, rest)"
    by (simp add: thread_Deserialize_def serializeThread_def AppendBoolToWitness_def codec_simps del: be32_def)
qed

lemma length_serializeThread [simp]: "length (serializeThread t) = 166"
  by (simp add: serializeThread_def AppendBoolToWitness_def)

section \<open>Round trips\<close>

definition same_state :: "fpvm_state \<Rightarrow> fpvm_state \<Rightarrow> bool" where
  "same_state a b =
     (case (a, b) of
        (SingleState s, SingleState t) \<Rightarrow> t\<lparr>s_mem := s_mem s\<rparr> = s \<and> mem_byte (s_mem t) = mem_byte (s_mem s)
      | (MultiState s, MultiState t) \<Rightarrow> t\<lparr>m_mem := m_mem s\<rparr> = s \<and> mem_byte (m_mem t) = mem_byte (m_mem s)
      | _ \<Rightarrow> False)"

fun fpvm_mem :: "fpvm_state \<Rightarrow> memory" where
  "fpvm_mem (SingleState s) = s_mem s"
| "fpvm_mem (MultiState s) = m_mem s"

fun fpvm_ok :: "fpvm_state \<Rightarrow> bool" where
  "fpvm_ok (SingleState s) \<longleftrightarrow> length (s_preimageKey s) = 32 \<and> length (s_lastHint s) < 2 ^ 32"
| "fpvm_ok (MultiState s) \<longleftrightarrow> length (m_preimageKey s) = 32 \<and> length (m_lastHint s) < 2 ^ 32 \<and>
     length (m_leftStack s) < 2 ^ 32 \<and> length (m_rightStack s) < 2 ^ 32"

lemma s_roundtrip:
  assumes "mem_wf (s_mem s)" "mset order = mset (page_keys (s_mem s))" "fpvm_ok (SingleState s)"
  shows "\<exists>bs m. s_Serialize order s = Ok bs \<and> s_Deserialize (bs @ rest) = Ok (s\<lparr>s_mem := m\<rparr>, rest) \<and>
    mem_coh kk m \<and> mem_byte m = mem_byte (s_mem s)"
proof -
  obtain mb where mb: "mem_Serialize order (s_mem s) = Ok mb"
    "\<And>rest. \<exists>m'. mem_Deserialize NewMemory (mb @ rest) = Ok (m', rest) \<and> mem_coh kk m' \<and> mem_byte m' = mem_byte (s_mem s)"
    using mem_roundtrip [OF assms(1,2), of kk] by blast
  have len: "length (s_preimageKey s) = 32" "length (s_lastHint s) < 2 ^ 32" using assms(3) by simp_all
  obtain tl where bs: "s_Serialize order s = Ok (mb @ tl)" by (simp add: s_Serialize_def mb(1))
  obtain m where m: "mem_Deserialize NewMemory (mb @ tl @ rest) = Ok (m, tl @ rest)" "mem_coh kk m"
    "mem_byte m = mem_byte (s_mem s)"
    using mb(2) [of "tl @ rest"] by blast
  have "s_Deserialize ((mb @ tl) @ rest) = Ok (s\<lparr>s_mem := m\<rparr>, rest)"
    using bs m(1) unfolding s_Serialize_def mb(1) bind_res.simps res.inject
    by (auto simp: s_Deserialize_def codec_simps hash32.dec_enc [OF len(1)] bytes_codec.dec_enc [OF len(2)])
  with bs m(2,3) show ?thesis by blast
qed

lemma m_roundtrip:
  assumes "mem_wf (m_mem s)" "mset order = mset (page_keys (m_mem s))" "fpvm_ok (MultiState s)"
  shows "\<exists>bs m. m_Serialize order s = Ok bs \<and> m_Deserialize (bs @ rest) = Ok (s\<lparr>m_mem := m\<rparr>, rest) \<and>
    mem_coh kk m \<and> mem_byte m = mem_byte (m_mem s)"
proof -
  obtain mb where mb: "mem_Serialize order (m_mem s) = Ok mb"
    "\<And>rest. \<exists>m'. mem_Deserialize NewMemory (mb @ rest) = Ok (m', rest) \<and> mem_coh kk m' \<and> mem_byte m' = mem_byte (m_mem s)"
    using mem_roundtrip [OF assms(1,2), of kk] by blast
  have len: "length (m_preimageKey s) = 32" "length (m_lastHint s) < 2 ^ 32" using assms(3) by simp_all
  have stk: "unat (of_nat (length (m_leftStack s)) :: u32) = length (m_leftStack s)"
    "unat (of_nat (length (m_rightStack s)) :: u32) = length (m_rightStack s)"
    using assms(3) by (simp_all add: unat_of_nat)
  have thr: "read_list thread_Deserialize (length ts) (concat (map serializeThread ts) @ r) = Ok (ts, r)" for ts r
    by (rule thread_codec.list_roundtrip) simp
  obtain tl where bs: "m_Serialize order s = Ok (mb @ tl)" by (simp add: m_Serialize_def mb(1))
  obtain m where m: "mem_Deserialize NewMemory (mb @ tl @ rest) = Ok (m, tl @ rest)" "mem_coh kk m"
    "mem_byte m = mem_byte (m_mem s)"
    using mb(2) [of "tl @ rest"] by blast
  have "m_Deserialize ((mb @ tl) @ rest) = Ok (s\<lparr>m_mem := m\<rparr>, rest)"
    using bs m(1) unfolding m_Serialize_def mb(1) bind_res.simps res.inject
    by (auto simp: m_Deserialize_def codec_simps hash32.dec_enc [OF len(1)] bytes_codec.dec_enc [OF len(2)]
        stk thr)
  with bs m(2,3) show ?thesis by blast
qed

section \<open>Commitments\<close>

lemma length_EmptyThreadsRoot [simp]: "length EmptyThreadsRoot = 32"
  by (simp add: EmptyThreadsRoot_def)

lemma length_stack_root: "hash_size kk \<Longrightarrow> length (calculateThreadStackRoot kk ts) = 32"
  by (induction ts rule: rev_induct) (simp_all add: calculateThreadStackRoot_def computeThreadRoot_def hash_size_def)

lemma length_ref_root: "hash_size kk \<Longrightarrow> length (ref_root kk (mem_byte m)) = 32"
  using length_node_hash [of kk m 1] node_hash_root [of kk m] by (auto simp: hash_size_def)

lemma m_witness_split:
  "m_witness_fields kk s = (m_preimageKey s @ be32 (m_preimageOffset s) @ be32 (m_heap s) @
     [if m_llActive s then 1 else 0] @ be32 (m_llAddress s) @ be32 (m_llOwner s)) @
     [m_exitCode s, if m_exited s then 1 else 0] @ be64 (m_step s) @ be64 (m_sinceSwitch s) @
     be32 (m_wakeup s) @ [if m_traverseRight s then 1 else 0] @
     calculateThreadStackRoot kk (m_leftStack s) @ calculateThreadStackRoot kk (m_rightStack s) @ be32 (m_nextThreadId s)"
  by (simp add: m_witness_fields_def AppendBoolToWitness_def Let_def)

lemma m_EncodeWitness_ok:
  assumes "hash_size kk" "mem_coh kk (m_mem s)" "length (m_preimageKey s) = 32"
  shows "\<exists>m'. m_EncodeWitness kk s = Ok (s\<lparr>m_mem := m'\<rparr>, ref_root kk (mem_byte (m_mem s)) @ m_witness_fields kk s,
      (kk (ref_root kk (mem_byte (m_mem s)) @ m_witness_fields kk s))[0 := m_VMStatus s]) \<and>
    mem_coh kk m' \<and> mem_byte m' = mem_byte (m_mem s) \<and>
    length (ref_root kk (mem_byte (m_mem s)) @ m_witness_fields kk s) = 172"
proof -
  let ?w = "ref_root kk (mem_byte (m_mem s)) @ m_witness_fields kk s"
  obtain m' where m': "MerkleRoot kk (m_mem s) = Ok (m', ref_root kk (mem_byte (m_mem s)))" "mem_coh kk m'"
    "merk_ext (m_mem s) m'"
    using MerkleRoot_ok [OF assms(2)] by blast
  note r = length_ref_root [OF assms(1), of "m_mem s"]
  have l: "length ?w = 172" using r assms(3) by (simp add: m_witness_split length_stack_root [OF assms(1)])
  have "?w ! 81 = m_exitCode s" "?w ! 82 = (if m_exited s then 1 else 0)"
    unfolding m_witness_split append_assoc [symmetric] using r assms(3) by (simp_all add: nth_append)
  then have "VmStatus (?w ! 82 = 1) (?w ! 81) = m_VMStatus s" by (simp add: m_VMStatus_def)
  then have "m_stateHashFromWitness kk ?w = Ok ((kk ?w)[0 := m_VMStatus s])"
    using l by (simp only: m_stateHashFromWitness_def guard_panic_simps simp_thms)
  then have "m_EncodeWitness kk s = Ok (s\<lparr>m_mem := m'\<rparr>, ?w, (kk ?w)[0 := m_VMStatus s])"
    by (simp add: m_EncodeWitness_def m'(1) Let_def)
  then show ?thesis using l m'(2) merk_ext_mem_byte [OF m'(3) mem_coh_wf [OF assms(2)]] by blast
qed

definition commitment :: "(bytes \<Rightarrow> hash) \<Rightarrow> fpvm_state \<Rightarrow> (bytes \<times> hash) res" where
  "commitment kk st =
     (case st of
        SingleState s \<Rightarrow> bind_res (EncodeWitness kk s) (\<lambda>(_, w, h). Ok (w, h))
      | MultiState s \<Rightarrow> bind_res (m_EncodeWitness kk s) (\<lambda>(_, w, h). Ok (w, h)))"

text \<open>C31: Versioned states survive the disk: for either VM, the state written with its version byte, in any
  order of the memory pages and in front of whatever follows, is read back as a state of the same
  version that is equal up to the caches of its memory, and its state commitment, computed by
  \<open>EncodeWitness\<close>, is the same witness with the same hash.\<close>

theorem versioned_roundtrip:
  assumes "hash_size kk" "mem_coh kk (fpvm_mem st)" "mset order = mset (page_keys (fpvm_mem st))" "fpvm_ok st"
  shows "\<exists>bs st' w h. versioned_Serialize order (NewFromState st) = Ok bs \<and>
    versioned_Deserialize (bs @ rest) = Ok ((fst (NewFromState st), st'), rest) \<and> same_state st st' \<and>
    commitment kk st = Ok (w, h) \<and> commitment kk st' = Ok (w, h)"
proof (cases st)
  case (SingleState s)
  have a: "mem_coh kk (s_mem s)" "length (s_preimageKey s) = 32" using assms(2,4) by (simp_all add: SingleState)
  have b: "mset order = mset (page_keys (s_mem s))" "fpvm_ok (SingleState s)" using assms(3,4) by (simp_all add: SingleState)
  obtain bs m where r: "s_Serialize order s = Ok bs" "s_Deserialize (bs @ rest) = Ok (s\<lparr>s_mem := m\<rparr>, rest)"
    "mem_coh kk m" "mem_byte m = mem_byte (s_mem s)"
    using s_roundtrip [OF mem_coh_wf [OF a(1)] b, of rest kk] by blast
  have "witness_fields (s\<lparr>s_mem := m\<rparr>) = witness_fields s" "s_VMStatus (s\<lparr>s_mem := m\<rparr>) = s_VMStatus s"
    by (simp_all add: witness_fields_def s_VMStatus_def)
  with EncodeWitness_ok [OF assms(1) a] EncodeWitness_ok [OF assms(1), of "s\<lparr>s_mem := m\<rparr>"] a r(3,4)
  obtain w h m1 m2 where "EncodeWitness kk s = Ok (m1, w, h)" "EncodeWitness kk (s\<lparr>s_mem := m\<rparr>) = Ok (m2, w, h)" by auto
  moreover have "versioned_Deserialize ((0 # bs) @ rest) = Ok ((0, SingleState (s\<lparr>s_mem := m\<rparr>)), rest)"
    by (simp add: versioned_Deserialize_def codec_simps VersionSingleThreaded_def r(2))
  moreover have "versioned_Serialize order (NewFromState st) = Ok (0 # bs)" "fst (NewFromState st) = 0"
    "same_state st (SingleState (s\<lparr>s_mem := m\<rparr>))"
    using r(1,4) by (simp_all add: SingleState versioned_Serialize_def VersionSingleThreaded_def same_state_def)
  moreover have "commitment kk st = Ok (w, h)" "commitment kk (SingleState (s\<lparr>s_mem := m\<rparr>)) = Ok (w, h)"
    using calculation(1,2) by (simp_all add: SingleState commitment_def)
  ultimately show ?thesis by metis
next
  case (MultiState s)
  have a: "mem_coh kk (m_mem s)" "length (m_preimageKey s) = 32" using assms(2,4) by (simp_all add: MultiState)
  have b: "mset order = mset (page_keys (m_mem s))" "fpvm_ok (MultiState s)" using assms(3,4) by (simp_all add: MultiState)
  obtain bs m where r: "m_Serialize order s = Ok bs" "m_Deserialize (bs @ rest) = Ok (s\<lparr>m_mem := m\<rparr>, rest)"
    "mem_coh kk m" "mem_byte m = mem_byte (m_mem s)"
    using m_roundtrip [OF mem_coh_wf [OF a(1)] b, of rest kk] by blast
  have "m_witness_fields kk (s\<lparr>m_mem := m\<rparr>) = m_witness_fields kk s" "m_VMStatus (s\<lparr>m_mem := m\<rparr>) = m_VMStatus s"
    by (simp_all add: m_witness_fields_def m_VMStatus_def)
  with m_EncodeWitness_ok [OF assms(1) a] m_EncodeWitness_ok [OF assms(1), of "s\<lparr>m_mem := m\<rparr>"] a r(3,4)
  obtain w h m1 m2 where "m_EncodeWitness kk s = Ok (m1, w, h)" "m_EncodeWitness kk (s\<lparr>m_mem := m\<rparr>) = Ok (m2, w, h)" by auto
  moreover have "versioned_Deserialize ((1 # bs) @ rest) = Ok ((1, MultiState (s\<lparr>m_mem := m\<rparr>)), rest)"
    by (simp add: versioned_Deserialize_def codec_simps VersionSingleThreaded_def VersionMultiThreaded_def r(2))
  moreover have "versioned_Serialize order (NewFromState st) = Ok (1 # bs)" "fst (NewFromState st) = 1"
    "same_state st (MultiState (s\<lparr>m_mem := m\<rparr>))"
    using r(1,4) by (simp_all add: MultiState versioned_Serialize_def VersionMultiThreaded_def same_state_def)
  moreover have "commitment kk st = Ok (w, h)" "commitment kk (MultiState (s\<lparr>m_mem := m\<rparr>)) = Ok (w, h)"
    using calculation(1,2) by (simp_all add: MultiState commitment_def)
  ultimately show ?thesis by metis
qed

theorem versioned_roundtrip_witness:
  "\<exists>bs st'. versioned_Serialize [] (NewFromState (MultiState m_CreateEmptyState)) = Ok bs \<and>
     versioned_Deserialize (bs @ [7]) = Ok ((1, st'), [7]) \<and> same_state (MultiState m_CreateEmptyState) st'"
proof -
  have "mem_coh (\<lambda>_. replicate 32 0) (fpvm_mem (MultiState m_CreateEmptyState))"
    "mset [] = mset (page_keys (fpvm_mem (MultiState m_CreateEmptyState)))" "fpvm_ok (MultiState m_CreateEmptyState)"
    by (simp_all add: m_CreateEmptyState_def page_keys_def)
  with versioned_roundtrip [of "\<lambda>_. replicate 32 0" "MultiState m_CreateEmptyState" "[]" "[7]"]
  show ?thesis by (auto simp: hash_size_def VersionMultiThreaded_def)
qed

text \<open>The fields a commitment fixes.\<close>

lemma be32_inj [simp]: "be32 x = be32 y \<longleftrightarrow> x = y"
  by (metis un32_be32)

lemma be64_inj [simp]: "be64 x = be64 y \<longleftrightarrow> x = y"
  by (metis un64_be64)

lemma append_eq_length: "length a = length b \<Longrightarrow> a @ c = b @ d \<longleftrightarrow> a = b \<and> c = d"
  by simp

lemma regs_list_inj: "concat (map be32 (regs_list r)) = concat (map be32 (regs_list r')) \<longleftrightarrow> r = r'"
proof
  assume "concat (map be32 (regs_list r)) = concat (map be32 (regs_list r'))"
  then have "regs_list r = regs_list r'"
    using uint32.list_prefix_free [of "regs_list r" "regs_list r'" "[]" "[]"] by simp
  then show "r = r'" by (metis regs_of_list_list)
qed simp



end
