(* ===== verification/CannonMultiProps.thy ===== *)
theory CannonMultiProps
  imports CannonSched CannonState
begin

unbundle bit_operations_syntax

text \<open>
  Every step of the multi-threaded VM keeps its state well formed, and its step witness is sound,
  including the proof of the active thread. In \<open>clock_gettime\<close> a step accesses two words: the
  second proof is valid against the memory after the first write.
\<close>

text \<open>The stacks do not depend on the other fields.\<close>

lemma active_fields [simp]:
  "getActiveThreadStack (s\<lparr>m_mem := x0\<rparr>) = getActiveThreadStack s"
  "getActiveThreadStack (s\<lparr>m_step := x1\<rparr>) = getActiveThreadStack s"
  "getActiveThreadStack (s\<lparr>m_sinceSwitch := x2\<rparr>) = getActiveThreadStack s"
  "getActiveThreadStack (s\<lparr>m_wakeup := x3\<rparr>) = getActiveThreadStack s"
  "getActiveThreadStack (s\<lparr>m_heap := x4\<rparr>) = getActiveThreadStack s"
  "getActiveThreadStack (s\<lparr>m_exited := x5\<rparr>) = getActiveThreadStack s"
  "getActiveThreadStack (s\<lparr>m_exitCode := x6\<rparr>) = getActiveThreadStack s"
  "getActiveThreadStack (s\<lparr>m_llActive := x7\<rparr>) = getActiveThreadStack s"
  "getActiveThreadStack (s\<lparr>m_llAddress := x8\<rparr>) = getActiveThreadStack s"
  "getActiveThreadStack (s\<lparr>m_llOwner := x9\<rparr>) = getActiveThreadStack s"
  "getActiveThreadStack (s\<lparr>m_preimageKey := x10\<rparr>) = getActiveThreadStack s"
  "getActiveThreadStack (s\<lparr>m_preimageOffset := x11\<rparr>) = getActiveThreadStack s"
  "getActiveThreadStack (s\<lparr>m_lastHint := x12\<rparr>) = getActiveThreadStack s"
  "getActiveThreadStack (s\<lparr>m_nextThreadId := x13\<rparr>) = getActiveThreadStack s"
  by (simp_all add: getActiveThreadStack_def)

lemma inactive_fields [simp]:
  "inactive_stack (s\<lparr>m_mem := x0\<rparr>) = inactive_stack s"
  "inactive_stack (s\<lparr>m_step := x1\<rparr>) = inactive_stack s"
  "inactive_stack (s\<lparr>m_sinceSwitch := x2\<rparr>) = inactive_stack s"
  "inactive_stack (s\<lparr>m_wakeup := x3\<rparr>) = inactive_stack s"
  "inactive_stack (s\<lparr>m_heap := x4\<rparr>) = inactive_stack s"
  "inactive_stack (s\<lparr>m_exited := x5\<rparr>) = inactive_stack s"
  "inactive_stack (s\<lparr>m_exitCode := x6\<rparr>) = inactive_stack s"
  "inactive_stack (s\<lparr>m_llActive := x7\<rparr>) = inactive_stack s"
  "inactive_stack (s\<lparr>m_llAddress := x8\<rparr>) = inactive_stack s"
  "inactive_stack (s\<lparr>m_llOwner := x9\<rparr>) = inactive_stack s"
  "inactive_stack (s\<lparr>m_preimageKey := x10\<rparr>) = inactive_stack s"
  "inactive_stack (s\<lparr>m_preimageOffset := x11\<rparr>) = inactive_stack s"
  "inactive_stack (s\<lparr>m_lastHint := x12\<rparr>) = inactive_stack s"
  "inactive_stack (s\<lparr>m_nextThreadId := x13\<rparr>) = inactive_stack s"
  by (simp_all add: inactive_stack_def)

lemma GetCurrentThread_cong:
  "getActiveThreadStack s' = getActiveThreadStack s \<Longrightarrow> GetCurrentThread s' = GetCurrentThread s"
  by (simp add: GetCurrentThread_def)

lemma sched_run_fields [simp]:
  "sched_run (s\<lparr>m_mem := x0\<rparr>) = sched_run s"
  "sched_run (s\<lparr>m_step := x1\<rparr>) = sched_run s"
  "sched_run (s\<lparr>m_sinceSwitch := x2\<rparr>) = sched_run s"
  "sched_run (s\<lparr>m_wakeup := x3\<rparr>) = sched_run s"
  "sched_run (s\<lparr>m_heap := x4\<rparr>) = sched_run s"
  "sched_run (s\<lparr>m_exited := x5\<rparr>) = sched_run s"
  "sched_run (s\<lparr>m_exitCode := x6\<rparr>) = sched_run s"
  "sched_run (s\<lparr>m_llActive := x7\<rparr>) = sched_run s"
  "sched_run (s\<lparr>m_llAddress := x8\<rparr>) = sched_run s"
  "sched_run (s\<lparr>m_llOwner := x9\<rparr>) = sched_run s"
  "sched_run (s\<lparr>m_preimageKey := x10\<rparr>) = sched_run s"
  "sched_run (s\<lparr>m_preimageOffset := x11\<rparr>) = sched_run s"
  "sched_run (s\<lparr>m_lastHint := x12\<rparr>) = sched_run s"
  "sched_run (s\<lparr>m_nextThreadId := x13\<rparr>) = sched_run s"
  by (simp_all add: sched_run_def)

section \<open>What a step keeps\<close>

definition track2 :: "(bytes \<Rightarrow> hash) \<Rightarrow> (u32 \<Rightarrow> byte) \<Rightarrow> mem_tracker \<Rightarrow> bool" where
  "track2 kk f mt \<longleftrightarrow> (\<exists>a v. proof_valid kk f a (mt_proof mt) \<and> mt_last mt = a + 4 \<and>
     proof_valid kk (store_word f a v) (a + 4) (mt_proof2 mt))"

definition m_post :: "(bytes \<Rightarrow> hash) \<Rightarrow> (bytes \<Rightarrow> bytes) \<Rightarrow> (u32 \<Rightarrow> byte) \<Rightarrow> inst2 \<Rightarrow> inst2 \<Rightarrow> bool" where
  "m_post kk po f i i' \<longleftrightarrow> hash_size kk \<and> mem_coh kk (m_mem (n_state i')) \<and>
     (track_inv kk f (n_mt i') \<or> track2 kk f (n_mt i')) \<and>
     length (m_preimageKey (n_state i')) = 32 \<and> reader_ok po (n_pr i') \<and>
     mt_enabled (n_mt i') = mt_enabled (n_mt i) \<and> m_step (n_state i') = m_step (n_state i) \<and>
     sched_ok (n_state i')"

text \<open>The invariant while an instruction runs: before its write, and after it.\<close>

definition m_run :: "(bytes \<Rightarrow> hash) \<Rightarrow> (bytes \<Rightarrow> bytes) \<Rightarrow> (u32 \<Rightarrow> byte) \<Rightarrow> bool \<Rightarrow> inst2 \<Rightarrow> inst2 \<Rightarrow> bool" where
  "m_run kk po f w i i' \<longleftrightarrow>
     (if w then post kk f (m_mem (n_state i')) (n_mt i') else pre kk f (m_mem (n_state i')) (n_mt i')) \<and>
     length (m_preimageKey (n_state i')) = 32 \<and> reader_ok po (n_pr i') \<and>
     mt_enabled (n_mt i') = mt_enabled (n_mt i) \<and> m_step (n_state i') = m_step (n_state i) \<and>
     sched_run (n_state i') \<and> m_wakeup (n_state i') = FutexEmptyAddr"

lemma m_run_written: "m_run kk po f w i i' \<Longrightarrow> m_run kk po f True i i'"
  by (auto simp: m_run_def pre_post split: if_splits)

lemma m_run_post: "m_run kk po f w i i' \<Longrightarrow> m_post kk po f i i'"
  by (drule m_run_written) (simp add: m_run_def m_post_def post_def sched_run_ok)

lemma m_run_pre: "m_run kk po f False i i' \<Longrightarrow> pre kk f (m_mem (n_state i')) (n_mt i')"
  by (simp add: m_run_def)

lemma m_run_current:
  "m_run kk po f w i i' \<Longrightarrow> GetCurrentThread (n_state i') = Ok t \<Longrightarrow> \<not> t_exited t \<and> t_regs t 0 = 0"
  using sched_run_last by (auto simp: m_run_def GetCurrentThread_Ok)

lemma thread_syscall_updates_simps [simp]:
  "t_exited (thread_syscall_updates t v0 v1) = t_exited t"
  "t_regs (thread_syscall_updates t v0 v1) 0 = t_regs t 0"
  "t_id (thread_syscall_updates t v0 v1) = t_id t"
  by (simp_all add: thread_syscall_updates_def HandleSyscallUpdates_def set_reg_0)

text \<open>Changes of the scalar fields, the heap for instance, do not matter.\<close>

lemma m_run_state:
  assumes "m_run kk po f w i i'" "m_mem s = m_mem (n_state i')" "m_preimageKey s = m_preimageKey (n_state i')"
    "m_step s = m_step (n_state i')" "m_leftStack s = m_leftStack (n_state i')" "m_rightStack s = m_rightStack (n_state i')"
    "m_traverseRight s = m_traverseRight (n_state i')" "m_wakeup s = m_wakeup (n_state i')"
  shows "m_run kk po f w i (i'\<lparr>n_state := s\<rparr>)"
  using assms sched_run_cong [of s "n_state i'"] by (simp add: m_run_def)

lemma handleMemoryUpdate_fields [simp]:
  "m_mem (handleMemoryUpdate a s) = m_mem s" "m_preimageKey (handleMemoryUpdate a s) = m_preimageKey s"
  "m_step (handleMemoryUpdate a s) = m_step s" "m_leftStack (handleMemoryUpdate a s) = m_leftStack s"
  "m_rightStack (handleMemoryUpdate a s) = m_rightStack s" "m_exited (handleMemoryUpdate a s) = m_exited s"
  "m_traverseRight (handleMemoryUpdate a s) = m_traverseRight s" "m_wakeup (handleMemoryUpdate a s) = m_wakeup s"
  by (simp_all add: handleMemoryUpdate_def clearLLMemoryReservation_def)

lemma m_run_update: "m_run kk po f w i i' \<Longrightarrow> m_run kk po f w i (upd_state (handleMemoryUpdate a) i')"
  unfolding upd_state_def by (rule m_run_state) simp_all

lemma m_run_put:
  "m_run kk po f w i i' \<Longrightarrow> \<not> t_exited t \<Longrightarrow> t_regs t 0 = 0 \<Longrightarrow> m_run kk po f w i (upd_state (put_thread t) i')"
  by (simp add: m_run_def upd_state_def sched_run_put)

lemma m_run_finish:
  "m_run kk po f w i i' \<Longrightarrow> \<not> t_exited t \<Longrightarrow> t_regs t 0 = 0 \<Longrightarrow> m_run kk po f w i (finish_with i' t v0 v1)"
  unfolding finish_with_def by (rule m_run_put) simp_all

lemma tracked_load_run:
  assumes "tracked_load kk i1 a = Ok (i2, v)" "m_run kk po f False i i1"
  shows "m_run kk po f False i i2" "v = un32 [f a, f (a + 1), f (a + 2), f (a + 3)]"
    "n_state i2 = (n_state i1)\<lparr>m_mem := m_mem (n_state i2)\<rparr>"
proof -
  obtain mt m1 m2 where t: "TrackMemAccess kk (n_mt i1) (m_mem (n_state i1)) a = Ok (mt, m1)"
    "GetMemory m1 a = Ok (m2, v)" "i2 = i1\<lparr>n_state := (n_state i1)\<lparr>m_mem := m2\<rparr>, n_mt := mt\<rparr>"
    using assms(1) unfolding tracked_load_def by (elim bind_pairE) auto
  have p: "pre kk f (m_mem (n_state i1)) (n_mt i1)" using assms(2) by (simp add: m_run_def)
  note tr = TrackMemAccess_pre [OF p t(1)]
  have "sched_run ((n_state i1)\<lparr>m_mem := m2\<rparr>) = sched_run (n_state i1)" by (rule sched_run_cong) simp_all
  then show "m_run kk po f False i i2" "v = un32 [f a, f (a + 1), f (a + 2), f (a + 3)]"
    "n_state i2 = (n_state i1)\<lparr>m_mem := m_mem (n_state i2)\<rparr>"
    using GetMemory_pre [OF tr(1) t(2)] tr(2) assms(2) by (simp_all add: m_run_def t(3))
qed

lemma set_and_update_run:
  assumes "set_and_update i1 a v = Ok i2" "m_run kk po f w i i1"
  shows "m_run kk po f True i i2" "mem_byte (m_mem (n_state i2)) = store_word (mem_byte (m_mem (n_state i1))) a v"
    "n_mt i2 = n_mt i1"
proof -
  obtain m where m: "SetMemory (m_mem (n_state i1)) a v = Ok m"
    "i2 = i1\<lparr>n_state := handleMemoryUpdate a ((n_state i1)\<lparr>m_mem := m\<rparr>)\<rparr>"
    using assms(1) unfolding set_and_update_def by (elim bind_resE) auto
  have r: "m_run kk po f True i i1" by (rule m_run_written [OF assms(2)])
  then have p: "post kk f (m_mem (n_state i1)) (n_mt i1)" by (simp add: m_run_def)
  have "sched_run (handleMemoryUpdate a ((n_state i1)\<lparr>m_mem := m\<rparr>)) = sched_run (n_state i1)"
    by (rule sched_run_cong) simp_all
  then show "m_run kk po f True i i2" "mem_byte (m_mem (n_state i2)) = store_word (mem_byte (m_mem (n_state i1))) a v"
    "n_mt i2 = n_mt i1"
    using r SetMemory_post [OF p m(1)] by (auto simp: m_run_def m(2) store_word_def fun_eq_iff)
qed

lemma preempt_run:
  assumes "m_run kk po f w i i1" "preemptThread (n_state i1) = Ok (s, ch)"
  shows "m_run kk po f w i (i1\<lparr>n_state := s\<rparr>)"
  using preemptThread_run [OF _ assms(2)] assms(1) by (auto simp: m_run_def)

section \<open>System calls\<close>

lemma sys_clone_post:
  assumes "sys_clone i1 t a0 a1 = Ok i2" "m_run kk po f False i i1" "GetCurrentThread (n_state i1) = Ok t"
  shows "m_post kk po f i i2"
proof (cases "ValidCloneFlags = a0")
  case True
  note c = m_run_current [OF assms(2,3)]
  obtain n s3 st where s: "i2 = i1\<lparr>n_state := s3, n_st := st\<rparr>" "s3 = pushThread n (put_thread
      (thread_syscall_updates t (m_nextThreadId (n_state i1)) 0) ((n_state i1)\<lparr>m_nextThreadId := m_nextThreadId (n_state i1) + 1\<rparr>))"
    "\<not> t_exited n" "t_regs n 0 = 0"
    using assms(1) True c by (auto simp: sys_clone_def Let_def set_reg_0)
  have r: "sched_run ((n_state i1)\<lparr>m_nextThreadId := m_nextThreadId (n_state i1) + 1\<rparr>)"
    using assms(2) sched_run_cong [of "(n_state i1)\<lparr>m_nextThreadId := m_nextThreadId (n_state i1) + 1\<rparr>" "n_state i1"]
    by (simp add: m_run_def)
  have "sched_run s3" unfolding s(2)
    by (intro pushThread_run sched_run_put r) (use c s(3,4) in simp_all)
  then show ?thesis using assms(2) s(1,2) pre_post by (simp add: m_run_def m_post_def sched_run_ok post_def pre_def)
next
  case False
  then have "i2 = i1\<lparr>n_state := (n_state i1)\<lparr>m_exited := True, m_exitCode := 2\<rparr>\<rparr>"
    using assms(1) by (simp add: sys_clone_def Let_def)
  moreover have "sched_run ((n_state i1)\<lparr>m_exited := True, m_exitCode := 2\<rparr>) = sched_run (n_state i1)"
    by (rule sched_run_cong) simp_all
  ultimately show ?thesis using assms(2) by (simp add: m_run_def m_post_def sched_run_ok pre_def)
qed

lemma yield_thread_run:
  assumes "yield_thread i1 t = Ok i2" "m_run kk po f w i (i1\<lparr>n_state := (n_state i1)\<lparr>m_wakeup := FutexEmptyAddr\<rparr>\<rparr>)"
    "\<not> t_exited t" "t_regs t 0 = 0"
  shows "\<exists>s. i2 = i1\<lparr>n_state := s\<rparr> \<and> m_mem s = m_mem (n_state i1) \<and> m_preimageKey s = m_preimageKey (n_state i1) \<and>
    m_step s = m_step (n_state i1) \<and> sched_run s \<and> m_exited s = m_exited (n_state i1)"
proof -
  obtain s ch where s: "preemptThread (put_thread (thread_syscall_updates t 0 0) (n_state i1)) = Ok (s, ch)"
    "i2 = i1\<lparr>n_state := s\<rparr>"
    using assms(1) unfolding yield_thread_def by (elim bind_pairE) auto
  have "sched_run (n_state i1)"
    using assms(2) sched_run_cong [of "(n_state i1)\<lparr>m_wakeup := FutexEmptyAddr\<rparr>" "n_state i1"] by (simp add: m_run_def)
  then have "sched_run (put_thread (thread_syscall_updates t 0 0) (n_state i1))"
    by (rule sched_run_put) (use assms(3,4) in simp_all)
  from preemptThread_run [OF this s(1)] s(2) show ?thesis by auto
qed

lemma sys_futex_post:
  assumes "sys_futex kk i1 t a0 a1 a2 a3 = Ok i2" "m_run kk po f False i i1" "GetCurrentThread (n_state i1) = Ok t"
  shows "m_post kk po f i i2"
proof -
  note c = m_run_current [OF assms(2,3)]
  consider (wait) "a1 = FutexWaitPrivate" | (wake) "a1 = FutexWakePrivate" "a1 \<noteq> FutexWaitPrivate"
    | (other) "a1 \<noteq> FutexWaitPrivate" "a1 \<noteq> FutexWakePrivate" by blast
  then show ?thesis
  proof cases
    case wait
    obtain i3 mem where l: "tracked_load kk i1 (a0 AND 0xFFFFFFFC) = Ok (i3, mem)"
      using assms(1) wait unfolding sys_futex_def Let_def by (auto elim!: bind_pairE)
    note r = tracked_load_run(1) [OF l assms(2)]
    show ?thesis
    proof (cases "mem = a2")
      case True
      then obtain t' where "i2 = upd_state (put_thread t') i3" "t_exited t' = t_exited t" "t_regs t' = t_regs t"
        using assms(1) wait l by (auto simp: sys_futex_def Let_def)
      then show ?thesis using m_run_post [OF m_run_put [OF r]] c by simp
    next
      case False
      then have "i2 = finish_with i3 t SysErrorSignal MipsEAGAIN"
        using assms(1) wait l by (simp add: sys_futex_def Let_def)
      then show ?thesis using m_run_post [OF m_run_finish [OF r]] c by simp
    qed
  next
    case wake
    define i0 where "i0 = i1\<lparr>n_state := (n_state i1)\<lparr>m_wakeup := a0 AND 0xFFFFFFFC\<rparr>\<rparr>"
    obtain i3 where y: "yield_thread i0 t = Ok i3"
      "i2 = upd_state (\<lambda>s. s\<lparr>m_traverseRight := (m_leftStack s = [])\<rparr>) i3"
      using assms(1) wake unfolding sys_futex_def Let_def i0_def by (auto elim!: bind_resE)
    have "m_run kk po f False i (i0\<lparr>n_state := (n_state i0)\<lparr>m_wakeup := FutexEmptyAddr\<rparr>\<rparr>)"
      using m_run_state [OF assms(2), of "(n_state i0)\<lparr>m_wakeup := FutexEmptyAddr\<rparr>"] assms(2)
      by (simp add: i0_def m_run_def)
    from yield_thread_run [OF y(1) this] c obtain s where s: "i3 = i0\<lparr>n_state := s\<rparr>" "m_mem s = m_mem (n_state i0)"
      "m_preimageKey s = m_preimageKey (n_state i0)" "m_step s = m_step (n_state i0)" "sched_run s" by auto
    have "thread_row (s\<lparr>m_traverseRight := (m_leftStack s = [])\<rparr>) = thread_row s" by (simp add: thread_row_def)
    moreover have "thread_row s \<noteq> []"
      using s(5) unfolding sched_run_row set_empty [symmetric] set_thread_row by simp
    then have "getActiveThreadStack (s\<lparr>m_traverseRight := (m_leftStack s = [])\<rparr>) \<noteq> []"
      by (auto simp: thread_row_def getActiveThreadStack_def)
    ultimately have "sched_run (s\<lparr>m_traverseRight := (m_leftStack s = [])\<rparr>)"
      using s(5) by (simp add: sched_run_row)
    then show ?thesis using assms(2) s y(2) by (simp add: m_run_def m_post_def i0_def upd_state_def sched_run_ok pre_def)
  next
    case other
    then have "i2 = finish_with i1 t SysErrorSignal MipsEINVAL"
      using assms(1) by (simp add: sys_futex_def Let_def)
    then show ?thesis using m_run_post [OF m_run_finish [OF assms(2)]] c by simp
  qed
qed

lemma TrackMemAccess_last:
  "TrackMemAccess kk mt m a = Ok (mt', m') \<Longrightarrow> mt_enabled mt \<Longrightarrow> mt_last mt' = a"
  by (auto simp: TrackMemAccess_def res_simps split: if_splits)

lemma aligned_not_ones: "a AND 3 = 0 \<Longrightarrow> a \<noteq> (0xFFFFFFFF :: u32)"
  by auto

lemma sys_clock_gettime_post:
  assumes "sys_clock_gettime kk i1 t a0 a1 = Ok i2" "m_run kk po f False i i1" "GetCurrentThread (n_state i1) = Ok t"
  shows "m_post kk po f i i2"
proof (cases "a0 = 0 \<or> a0 = 1")
  case True
  note c = m_run_current [OF assms(2,3)]
  let ?ea = "a1 AND 0xFFFFFFFC"
  obtain mt m1 i3 mt2 m2 i4 secs nsecs where s:
    "TrackMemAccess kk (n_mt i1) (m_mem (n_state i1)) ?ea = Ok (mt, m1)"
    "set_and_update (i1\<lparr>n_state := (n_state i1)\<lparr>m_mem := m1\<rparr>, n_mt := mt\<rparr>) ?ea secs = Ok i3"
    "TrackMemAccess2 kk (n_mt i3) (m_mem (n_state i3)) (?ea + 4) = Ok (mt2, m2)"
    "set_and_update (i3\<lparr>n_state := (n_state i3)\<lparr>m_mem := m2\<rparr>, n_mt := mt2\<rparr>) (?ea + 4) nsecs = Ok i4"
    "i2 = finish_with i4 t 0 0"
    using assms(1) True unfolding sys_clock_gettime_def Let_def if_P [OF True]
    by (elim bind_pairE bind_resE) auto
  define j1 where "j1 = i1\<lparr>n_state := (n_state i1)\<lparr>m_mem := m1\<rparr>, n_mt := mt\<rparr>"
  have p: "pre kk f (m_mem (n_state i1)) (n_mt i1)" using assms(2) by (simp add: m_run_def)
  note tr = TrackMemAccess_pre [OF p s(1)]
  have "sched_run ((n_state i1)\<lparr>m_mem := m1\<rparr>) = sched_run (n_state i1)" by (rule sched_run_cong) simp_all
  then have j1: "m_run kk po f False i j1" using tr assms(2) by (simp add: m_run_def j1_def)
  note u1 = set_and_update_run [OF s(2) [folded j1_def] j1]
  have mb: "mem_byte (m_mem (n_state i3)) = store_word f ?ea secs" "n_mt i3 = mt"
    using u1(2,3) tr(1) by (simp_all add: j1_def pre_def)
  have coh: "hash_size kk" "mem_coh kk (m_mem (n_state i3))" using u1(1) by (simp_all add: m_run_def post_def)
  obtain m' pr where pr: "MerkleProof kk (m_mem (n_state i3)) (?ea + 4) = Ok (m', pr)"
    "proof_valid kk (store_word f ?ea secs) (?ea + 4) pr" "mem_coh kk m'" "mem_byte m' = store_word f ?ea secs"
    using MerkleProof_valid [OF coh, of "?ea + 4"] unfolding mb(1) by blast
  have mt2: "mt2 = mt\<lparr>mt_last := ?ea + 4, mt_proof2 := pr\<rparr>" "m2 = m'"
    using s(3) by (auto simp: TrackMemAccess2_def pr(1) guard_panic_Ok mb(2))
  define j2 where "j2 = i3\<lparr>n_state := (n_state i3)\<lparr>m_mem := m2\<rparr>, n_mt := mt2\<rparr>"
  have sr: "sched_run ((n_state i3)\<lparr>m_mem := m2\<rparr>) = sched_run (n_state i3)" by (rule sched_run_cong) simp_all
  have dis: "m_run kk po f True i (j2\<lparr>n_mt := mt\<rparr>)"
    using u1(1) pr(3) mt2 tr sr by (simp add: m_run_def j2_def post_def pre_def mb(2))
  have "set_and_update (j2\<lparr>n_mt := mt\<rparr>) (?ea + 4) nsecs = Ok (i4\<lparr>n_mt := mt\<rparr>)"
    using s(4) [folded j2_def] by (auto simp: set_and_update_def res_simps)
  note u2 = set_and_update_run [OF this dis]
  have n4: "n_mt i4 = mt2" using s(4) by (auto simp: set_and_update_def res_simps)
  have "track_inv kk f mt2 \<or> track2 kk f mt2"
  proof (cases "mt_enabled mt")
    case True
    then have "mt_last mt = ?ea" using TrackMemAccess_last [OF s(1)] tr(2) by simp
    then have "proof_valid kk f ?ea (mt_proof mt)"
      using True tr(1) aligned_not_ones [OF eff_aligned] by (auto simp: pre_def track_inv_def)
    then show ?thesis using pr(2) by (auto simp: track2_def mt2(1))
  qed (simp add: track_inv_def mt2(1))
  then have "m_post kk po f i i4"
    using u2(1) n4 tr(2) by (simp add: m_run_def m_post_def post_def sched_run_ok mt2(1))
  moreover have "sched_run (n_state (finish_with i4 t 0 0))"
    using m_run_finish [OF u2(1), of t 0 0] c by (simp add: finish_with_def upd_state_def m_run_def)
  ultimately show ?thesis unfolding s(5) by (simp add: m_post_def finish_with_def upd_state_def sched_run_ok)
next
  case False
  then have "i2 = finish_with i1 t SysErrorSignal MipsEINVAL"
    using assms(1) by (simp add: sys_clock_gettime_def Let_def)
  then show ?thesis using m_run_post [OF m_run_finish [OF assms(2)]] m_run_current [OF assms(2,3)] by simp
qed

lemma m_handleSyscall_post:
  assumes run: "m_handleSyscall kk po i1 = Ok i2" and r1: "m_run kk po f False i i1"
  shows "m_post kk po f i i2"
proof -
  obtain t where t: "GetCurrentThread (n_state i1) = Ok t"
    using run by (auto simp: m_handleSyscall_def Let_def elim: bind_resE)
  note c = m_run_current [OF r1 t]
  obtain n a0 a1 a2 a3 where args: "GetSyscallArgs (t_regs t) = (n, a0, a1, a2, a3)"
    by (metis prod_cases5)
  have p: "pre kk f (io_mem (n_io i1)) (io_mt (n_io i1))" "reader_ok po (io_pr (n_io i1))"
    using r1 by (simp_all add: m_run_def n_io_def)
  have fin: "m_post kk po f i (finish_with j t v0 v1)" if "m_run kk po f w i j" for j w v0 v1
    using m_run_post [OF m_run_finish [OF that]] c by blast
  consider (rd) "n = 4003" | (wr) "n = 4004" | (clone) "n = 4120" | (futex) "n = 4238" | (clock) "n = 4263"
    | (yield) "n = 4162 \<or> n = 4166" | (exit) "n = 4001" | (exitgroup) "n = 4246" | (mmap) "n = 4090"
    | (other) "n \<notin> {4003, 4004, 4120, 4238, 4263, 4162, 4166, 4001, 4246, 4090}" by blast
  then show ?thesis
  proof cases
    case rd
    obtain io v0 v1 off upd addr where r:
      "HandleSysRead kk po a0 a1 a2 (m_preimageKey (n_state i1)) (m_preimageOffset (n_state i1)) (n_io i1) =
         Ok (io, v0, v1, off, upd, addr)"
      "i2 = finish_with (if upd then upd_state (handleMemoryUpdate addr)
         (upd_state (\<lambda>s. s\<lparr>m_preimageOffset := off\<rparr>) (m_set_io io i1))
         else upd_state (\<lambda>s. s\<lparr>m_preimageOffset := off\<rparr>) (m_set_io io i1)) t v0 v1"
      using run rd args t by (auto simp: m_handleSyscall_def Let_def res_simps)
    have "sched_run (n_state (upd_state (\<lambda>s. s\<lparr>m_preimageOffset := off\<rparr>) (m_set_io io i1))) = sched_run (n_state i1)"
      by (rule sched_run_cong) (simp_all add: upd_state_def m_set_io_def)
    then have "m_run kk po f True i (upd_state (\<lambda>s. s\<lparr>m_preimageOffset := off\<rparr>) (m_set_io io i1))"
      using HandleSysRead_post [OF r(1) p(1)] HandleSysRead_reader_ok [OF r(1) p(2)] r1
      by (simp add: m_run_def upd_state_def m_set_io_def n_io_def)
    from fin [OF this] fin [OF m_run_update [OF this]] show ?thesis unfolding r(2) by simp
  next
    case wr
    obtain io v0 v1 hint key off where r:
      "HandleSysWrite kk a0 a1 a2 (m_lastHint (n_state i1)) (m_preimageKey (n_state i1))
         (m_preimageOffset (n_state i1)) (n_io i1) = Ok (io, v0, v1, hint, key, off)"
      "i2 = finish_with (upd_state (\<lambda>s. s\<lparr>m_lastHint := hint, m_preimageKey := key,
            m_preimageOffset := off\<rparr>) (m_set_io io i1)) t v0 v1"
      using run wr args t by (auto simp: m_handleSyscall_def Let_def res_simps)
    have "sched_run (n_state (upd_state (\<lambda>s. s\<lparr>m_lastHint := hint, m_preimageKey := key, m_preimageOffset := off\<rparr>)
        (m_set_io io i1))) = sched_run (n_state i1)"
      by (rule sched_run_cong) (simp_all add: upd_state_def m_set_io_def)
    then have "m_run kk po f False i (upd_state (\<lambda>s. s\<lparr>m_lastHint := hint, m_preimageKey := key,
            m_preimageOffset := off\<rparr>) (m_set_io io i1))"
      using HandleSysWrite_pre [OF r(1) p(1)] HandleSysWrite_reader_ok [OF r(1) p(2)] r1
      by (simp add: m_run_def upd_state_def m_set_io_def n_io_def)
    then show ?thesis unfolding r(2) by (rule fin)
  next
    case clone
    then have "sys_clone i1 t a0 a1 = Ok i2" using run args t by (simp add: m_handleSyscall_def Let_def)
    then show ?thesis by (rule sys_clone_post [OF _ r1 t])
  next
    case futex
    then have "sys_futex kk i1 t a0 a1 a2 a3 = Ok i2" using run args t by (simp add: m_handleSyscall_def Let_def)
    then show ?thesis by (rule sys_futex_post [OF _ r1 t])
  next
    case clock
    then have "sys_clock_gettime kk i1 t a0 a1 = Ok i2" using run args t by (simp add: m_handleSyscall_def Let_def)
    then show ?thesis by (rule sys_clock_gettime_post [OF _ r1 t])
  next
    case yield
    then have y: "yield_thread i1 t = Ok i2" using run args t by (auto simp: m_handleSyscall_def Let_def)
    have "m_run kk po f False i (i1\<lparr>n_state := (n_state i1)\<lparr>m_wakeup := FutexEmptyAddr\<rparr>\<rparr>)"
      using r1 by (intro m_run_state) (simp_all add: m_run_def)
    from yield_thread_run [OF y this] c obtain s where s: "i2 = i1\<lparr>n_state := s\<rparr>" "m_mem s = m_mem (n_state i1)"
      "m_preimageKey s = m_preimageKey (n_state i1)" "m_step s = m_step (n_state i1)" "sched_run s" by auto
    then show ?thesis using r1 pre_post by (simp add: m_run_def m_post_def sched_run_ok post_def pre_def)
  next
    case exit
    then have "i2 = i1\<lparr>n_state := sys_exit (n_state i1) t a0\<rparr>" using run args t by (simp add: m_handleSyscall_def Let_def)
    moreover have "sched_ok (sys_exit (n_state i1) t a0)"
      using sys_exit_ok r1 t by (auto simp: m_run_def GetCurrentThread_Ok)
    moreover have "m_mem (sys_exit (n_state i1) t a0) = m_mem (n_state i1)"
      "m_preimageKey (sys_exit (n_state i1) t a0) = m_preimageKey (n_state i1)"
      "m_step (sys_exit (n_state i1) t a0) = m_step (n_state i1)" by (simp_all add: sys_exit_def Let_def)
    ultimately show ?thesis using r1 by (simp add: m_run_def m_post_def pre_def)
  next
    case exitgroup
    then have "i2 = i1\<lparr>n_state := (n_state i1)\<lparr>m_exited := True, m_exitCode := ucast a0\<rparr>\<rparr>"
      using run args t by (simp add: m_handleSyscall_def Let_def)
    then show ?thesis using m_run_post [OF m_run_state [OF r1]] by simp
  next
    case mmap
    then obtain v0 v1 h where "i2 = finish_with (i1\<lparr>n_state := (n_state i1)\<lparr>m_heap := h\<rparr>\<rparr>) t v0 v1"
      using run args t by (auto simp: m_handleSyscall_def Let_def split: prod.splits)
    then show ?thesis using fin [OF m_run_state [OF r1]] by simp
  next
    case other
    then show ?thesis using run args t fin [OF r1]
      by (auto simp: m_handleSyscall_def Let_def split: if_splits prod.splits)
  qed
qed

section \<open>Steps\<close>

lemma m_run_done: "m_run kk po f w i j \<Longrightarrow> GetCurrentThread (n_state j) = Ok t \<Longrightarrow> HandleRd (t_cpu t) (t_regs t) r v True = Ok (cpu, regs) \<Longrightarrow>
    m_run kk po f w i (upd_state (put_thread (t\<lparr>t_cpu := cpu, t_regs := regs\<rparr>)) j)"
  using m_run_current [of kk po f w i j t] HandleRd_zero [of "t_cpu t" "t_regs t" r v True cpu regs]
  by (intro m_run_put) simp_all

lemma m_handleRMWOps_post:
  assumes run: "m_handleRMWOps kk i1 insn oc = Ok i2" and r1: "m_run kk po f False i i1"
  shows "m_post kk po f i i2"
proof -
  obtain t where t: "GetCurrentThread (n_state i1) = Ok t"
    using run by (auto simp: m_handleRMWOps_def elim: bind_resE)
  define ea where "ea = (get_reg (t_regs t) (shr insn 21 AND 0x1F) + SignExtendImmediate insn) AND 0xFFFFFFFC"
  define rt where "rt = shr insn 16 AND 0x1F"
  note run' = run [unfolded m_handleRMWOps_def t bind_res.simps Let_def, folded ea_def rt_def]
  obtain j mem where l: "tracked_load kk i1 ea = Ok (j, mem)"
    using run' by (auto elim: bind_pairE)
  note r = tracked_load_run [OF l r1]
  have tj: "GetCurrentThread (n_state j) = Ok t"
    using t by (subst r(3)) (simp add: GetCurrentThread_Ok)
  obtain s2 v cpu regs where s: "(if oc = 0x30 then
             Ok ((n_state j)\<lparr>m_llActive := True, m_llAddress := ea, m_llOwner := t_id t\<rparr>, mem)
           else if oc = 0x38 then
             (if m_llActive (n_state j) \<and> m_llOwner (n_state j) = t_id t \<and> m_llAddress (n_state j) = ea then
                bind_res (SetMemory (m_mem (clearLLMemoryReservation (n_state j))) ea (get_reg (t_regs t) rt))
                  (\<lambda>m. Ok ((clearLLMemoryReservation (n_state j))\<lparr>m_mem := m\<rparr>, 1))
              else Ok (n_state j, 0))
           else Panic ''Invalid instruction passed to handleRMWOps'') = Ok (s2, v)"
    "HandleRd (t_cpu t) (t_regs t) rt v True = Ok (cpu, regs)"
    "i2 = upd_state (put_thread (t\<lparr>t_cpu := cpu, t_regs := regs\<rparr>)) (j\<lparr>n_state := s2\<rparr>)"
    using run' l unfolding bind_res.simps upd_state_def by (auto elim!: bind_pairE)
  have "m_run kk po f True i (j\<lparr>n_state := s2\<rparr>) \<and> GetCurrentThread s2 = GetCurrentThread (n_state j)"
  proof (cases "oc = 0x38 \<and> m_llActive (n_state j) \<and> m_llOwner (n_state j) = t_id t \<and> m_llAddress (n_state j) = ea")
    case True
    then obtain m where m: "SetMemory (m_mem (n_state j)) ea (get_reg (t_regs t) rt) = Ok m"
      "s2 = (clearLLMemoryReservation (n_state j))\<lparr>m_mem := m\<rparr>"
      using s(1) by (auto simp: res_simps clearLLMemoryReservation_def)
    have "sched_run s2 = sched_run (n_state j)"
      unfolding m(2) by (rule sched_run_cong) (simp_all add: clearLLMemoryReservation_def)
    then show ?thesis using m_run_written [OF r(1)] SetMemory_post(1) [OF _ m(1), of kk f "n_mt j"] m(2)
      by (simp add: m_run_def clearLLMemoryReservation_def GetCurrentThread_def)
  next
    case False
    then have "s2 = n_state j \<or> s2 = (n_state j)\<lparr>m_llActive := True, m_llAddress := ea, m_llOwner := t_id t\<rparr>"
      using s(1) by (auto split: if_splits)
    then show ?thesis using m_run_state [OF m_run_written [OF r(1)], of s2]
      by (auto simp: GetCurrentThread_def)
  qed
  then have "m_run kk po f True i (j\<lparr>n_state := s2\<rparr>)" "GetCurrentThread (n_state (j\<lparr>n_state := s2\<rparr>)) = Ok t"
    using tj by simp_all
  from m_run_post [OF m_run_done [OF this s(2)]] show ?thesis unfolding s(3) .
qed

lemma core2_step_post:
  assumes run: "ExecMipsCoreStepLogic kk lookup (core2 i1 t) insn oc fn = Ok (c, upd, addr)"
    and r1: "m_run kk po f False i i1" and t: "GetCurrentThread (n_state i1) = Ok t"
  shows "m_run kk po f True i (set_core2 c t i1)"
proof -
  note ct = m_run_current [OF r1 t]
  have "core_pre kk f (core2 i1 t)" using r1 by (simp add: core_pre_def core2_def m_run_def)
  from ExecMipsCoreStepLogic_post [OF run this] have p: "post kk f (co_mem c) (co_mt c)"
    "mt_enabled (co_mt c) = mt_enabled (n_mt i1)" "co_regs c 0 = 0"
    using ct by (simp_all add: core_post_def core2_def)
  have "sched_run ((n_state i1)\<lparr>m_mem := co_mem c\<rparr>) = sched_run (n_state i1)" by (rule sched_run_cong) simp_all
  then have "sched_run (put_thread (t\<lparr>t_cpu := co_cpu c, t_regs := co_regs c\<rparr>) ((n_state i1)\<lparr>m_mem := co_mem c\<rparr>))"
    using r1 ct p(3) by (intro sched_run_put) (simp_all add: m_run_def)
  then show ?thesis using p r1 by (simp add: m_run_def set_core2_def)
qed

lemma insn_step_post:
  assumes run: "insn_step kk po lookup i1 t = Ok i2" and r1: "m_run kk po f False i i1"
    and t: "GetCurrentThread (n_state i1) = Ok t"
  shows "m_post kk po f i i2"
proof -
  obtain m insn where g: "GetMemory (m_mem (n_state i1)) (cpu_PC (t_cpu t)) = Ok (m, insn)"
    using run by (auto simp: insn_step_def GetInstructionDetails_def res_simps)
  define j where "j = i1\<lparr>n_state := (n_state i1)\<lparr>m_mem := m\<rparr>\<rparr>"
  have gd: "GetInstructionDetails (cpu_PC (t_cpu t)) (m_mem (n_state i1)) = Ok (m, insn, insn_opcode insn, insn_fun insn)"
    by (simp add: GetInstructionDetails_def g)
  have "sched_run ((n_state i1)\<lparr>m_mem := m\<rparr>) = sched_run (n_state i1)" by (rule sched_run_cong) simp_all
  then have j: "m_run kk po f False i j" "GetCurrentThread (n_state j) = Ok t"
    using GetMemory_pre(1) [OF _ g] r1 t
    by (simp_all add: m_run_def j_def GetCurrentThread_Ok)
  note run' = run [unfolded insn_step_def gd bind_res.simps prod.case Let_def j_def [symmetric]]
  consider (sys) "insn_opcode insn = 0 \<and> insn_fun insn = 0xC"
    | (rmw) "\<not> (insn_opcode insn = 0 \<and> insn_fun insn = 0xC)" "insn_opcode insn = 0x30 \<or> insn_opcode insn = 0x38"
    | (core) "\<not> (insn_opcode insn = 0 \<and> insn_fun insn = 0xC)" "\<not> (insn_opcode insn = 0x30 \<or> insn_opcode insn = 0x38)"
    by blast
  then show ?thesis
  proof cases
    case sys
    show ?thesis by (rule m_handleSyscall_post [OF _ j(1)]) (use run' sys in simp)
  next
    case rmw
    show ?thesis by (rule m_handleRMWOps_post [OF _ j(1)]) (use run' rmw in auto)
  next
    case core
    obtain c upd addr where c: "ExecMipsCoreStepLogic kk lookup (core2 j t) insn (insn_opcode insn) (insn_fun insn) = Ok (c, upd, addr)"
      "i2 = (if upd then upd_state (handleMemoryUpdate addr) (set_core2 c t j) else set_core2 c t j)"
      using run' unfolding if_not_P [OF core(1)] if_not_P [OF core(2)] by (elim bind_tripleE) auto
    note r = core2_step_post [OF c(1) j]
    show ?thesis unfolding c(2) using m_run_post [OF r] m_run_post [OF m_run_update [OF r]] by simp
  qed
qed

lemma wakeup_step_ok:
  assumes "sched_run s" "GetCurrentThread s = Ok t" "wakeup_step s t = Ok s'"
  shows "sched_run s' \<and> m_mem s' = m_mem s \<and> m_preimageKey s' = m_preimageKey s \<and> m_step s' = m_step s"
proof (cases "m_wakeup s = t_futexAddr t")
  case True
  then have "s' = s\<lparr>m_wakeup := FutexEmptyAddr\<rparr>" using assms(3) by (simp add: wakeup_step_def)
  then show ?thesis using assms(1) sched_run_cong [of s' s] by simp
next
  case False
  then obtain s1 ch where s1: "preemptThread s = Ok (s1, ch)" "s' = s1 \<or> s' = s1\<lparr>m_wakeup := FutexEmptyAddr\<rparr>"
    using assms(3) unfolding wakeup_step_def if_not_P [OF False] Let_def by (auto elim!: bind_pairE)
  then show ?thesis using preemptThread_run [OF assms(1) s1(1)] sched_run_cong [of s' s1] by auto
qed

lemma blocked_step_post:
  assumes run: "blocked_step kk i1 t = Ok i2" and r1: "m_run kk po f False i i1" and t: "GetCurrentThread (n_state i1) = Ok t"
  shows "m_post kk po f i i2"
proof -
  note c = m_run_current [OF r1 t]
  have wait: "m_post kk po f i (upd_state (\<lambda>s. onWaitComplete s t b) j)" if "m_run kk po f False i j" for j b
  proof -
    obtain t' where t': "onWaitComplete (n_state j) t b = (put_thread t' (n_state j))\<lparr>m_wakeup := FutexEmptyAddr\<rparr>"
      "t_exited t' = t_exited t" "t_regs t' 0 = t_regs t 0"
      by (auto simp: onWaitComplete_def Let_def)
    have "m_run kk po f False i (upd_state (put_thread t') j)" using that c t'(2,3) by (intro m_run_put) simp_all
    from m_run_post [OF m_run_state [OF this, of "onWaitComplete (n_state j) t b"]] this
    show ?thesis by (simp add: upd_state_def t'(1) m_run_def)
  qed
  show ?thesis
  proof (cases "m_step (n_state i1) > t_futexTimeoutStep t")
    case True
    then show ?thesis using run wait [OF r1, of True] by (simp add: blocked_step_def)
  next
    case False
    obtain j mem where l: "tracked_load kk i1 (t_futexAddr t AND 0xFFFFFFFC) = Ok (j, mem)"
      using run unfolding blocked_step_def if_not_P [OF False] by (auto elim: bind_pairE)
    note r = tracked_load_run(1) [OF l r1]
    show ?thesis
    proof (cases "t_futexVal t = mem")
      case True
      then obtain s ch where "preemptThread (n_state j) = Ok (s, ch)" "i2 = j\<lparr>n_state := s\<rparr>"
        using run l unfolding blocked_step_def if_not_P [OF False] by (auto elim!: bind_pairE)
      then show ?thesis using m_run_post [OF preempt_run [OF r]] by simp
    next
      case False2: False
      then show ?thesis using run l False wait [OF r, of False] by (simp add: blocked_step_def)
    qed
  qed
qed

definition m_start :: "(bytes \<Rightarrow> hash) \<Rightarrow> (bytes \<Rightarrow> bytes) \<Rightarrow> (u32 \<Rightarrow> byte) \<Rightarrow> inst2 \<Rightarrow> bool" where
  "m_start kk po f i \<longleftrightarrow> pre kk f (m_mem (n_state i)) (n_mt i) \<and> length (m_preimageKey (n_state i)) = 32 \<and>
     reader_ok po (n_pr i) \<and> sched_ok (n_state i)"

lemma m_mipsStep_post:
  assumes run: "m_mipsStep kk po lookup i = Ok i'" and pre: "m_start kk po f i"
  shows "if m_exited (n_state i) then i' = i
    else m_post kk po f (upd_state (\<lambda>s. s\<lparr>m_step := m_step s + 1\<rparr>) i) i'"
proof (cases "m_exited (n_state i)")
  case True
  then show ?thesis using run by (simp add: m_mipsStep_def)
next
  case False
  define i1 where "i1 = upd_state (\<lambda>s. s\<lparr>m_step := m_step s + 1\<rparr>) i"
  let ?s = "n_state i1"
  obtain t where t: "GetCurrentThread ?s = Ok t"
    using run False by (auto simp: m_mipsStep_def Let_def i1_def elim: bind_resE)
  have lt: "t = last (getActiveThreadStack ?s)" using t by (simp add: GetCurrentThread_Ok)
  have so: "sched_ok ?s" "\<not> m_exited ?s"
    using pre False by (simp_all add: m_start_def i1_def upd_state_def sched_ok_def)
  have base: "pre kk f (m_mem ?s) (n_mt i1)" "length (m_preimageKey ?s) = 32" "reader_ok po (n_pr i1)"
    using pre by (simp_all add: m_start_def i1_def upd_state_def)
  note run' = run [unfolded m_mipsStep_def if_not_P [OF False] Let_def, folded i1_def, unfolded t bind_res.simps]
  have post: "m_post kk po f i1 (i1\<lparr>n_state := s\<rparr>)" if "sched_run s" "m_mem s = m_mem ?s" "m_preimageKey s = m_preimageKey ?s"
    "m_step s = m_step ?s" for s
    using that base by (simp add: m_post_def pre_def sched_run_ok)
  consider (wake) "m_wakeup ?s \<noteq> FutexEmptyAddr" | (dead) "m_wakeup ?s = FutexEmptyAddr" "t_exited t"
    | (live) "m_wakeup ?s = FutexEmptyAddr" "\<not> t_exited t" by blast
  then have "m_post kk po f i1 i'"
  proof cases
    case wake
    have sr: "sched_run ?s" by (rule sched_ok_run [OF so]) (use so wake in \<open>auto simp: sched_ok_def\<close>)
    obtain s1 where w: "wakeup_step ?s t = Ok s1" "i' = i1\<lparr>n_state := s1\<rparr>"
      using run' wake by (auto elim: bind_resE)
    then show ?thesis using post wakeup_step_ok [OF sr t w(1)] by simp
  next
    case dead
    obtain s1 where s1: "popThread ?s = Ok s1" "sched_run s1" "s1\<lparr>m_leftStack := m_leftStack ?s, m_rightStack := m_rightStack ?s,
        m_traverseRight := m_traverseRight ?s, m_sinceSwitch := m_sinceSwitch ?s\<rparr> = ?s"
      using popThread_ok [OF so] dead(2) lt by auto
    have "m_mem s1 = m_mem ?s \<and> m_preimageKey s1 = m_preimageKey ?s \<and> m_step s1 = m_step ?s"
      by (subst (1 2 3) s1(3) [symmetric]) simp
    moreover have "i' = i1\<lparr>n_state := s1, n_st := DropThread (n_st i1) (t_id t)\<rparr>"
      using run' dead s1(1) by simp
    ultimately show ?thesis using post [OF s1(2)] by (simp add: m_post_def)
  next
    case live
    have sr: "sched_run ?s" by (rule sched_ok_run [OF so]) (use live lt in simp)
    have r: "m_run kk po f False i1 i1" using base sr live by (simp add: m_run_def)
    have r': "m_run kk po f False i1 (upd_state (\<lambda>s. s\<lparr>m_sinceSwitch := m_sinceSwitch s + 1\<rparr>) i1)"
      unfolding upd_state_def by (rule m_run_state [OF r]) simp_all
    have t': "GetCurrentThread (n_state (upd_state (\<lambda>s. s\<lparr>m_sinceSwitch := m_sinceSwitch s + 1\<rparr>) i1)) = Ok t"
      using t by (simp add: upd_state_def GetCurrentThread_Ok)
    show ?thesis
    proof (cases "t_futexAddr t \<noteq> FutexEmptyAddr")
      case True
      then show ?thesis using run' live blocked_step_post [OF _ r t] by simp
    next
      case nofutex: False
      show ?thesis
      proof (cases "m_sinceSwitch ?s \<ge> SchedQuantum")
        case True
        then obtain s1 ch where "preemptThread ?s = Ok (s1, ch)" "i' = i1\<lparr>n_state := s1\<rparr>"
          using run' live nofutex by (auto elim: bind_pairE)
        then show ?thesis using m_run_post [OF preempt_run [OF r]] by simp
      next
        case False
        then show ?thesis using run' live nofutex insn_step_post [OF _ r' t'] by simp
      qed
    qed
  qed
  then show ?thesis using False by (simp add: i1_def)
qed

section \<open>Step witnesses\<close>

definition m_inv :: "(bytes \<Rightarrow> hash) \<Rightarrow> (bytes \<Rightarrow> bytes) \<Rightarrow> inst2 \<Rightarrow> bool" where
  "m_inv kk po i \<longleftrightarrow> hash_size kk \<and> mem_coh kk (m_mem (n_state i)) \<and>
     length (m_preimageKey (n_state i)) = 32 \<and> reader_ok po (n_pr i) \<and> sched_ok (n_state i)"


lemma nop_insn_step:
  assumes "mem_coh kk (m_mem (n_state i))" "mem_byte (m_mem (n_state i)) = (\<lambda>_. 0)" "cpu_PC (t_cpu t) = 0"
  shows "\<exists>i'. insn_step kk po lookup i t = Ok i'"
proof -
  obtain m where m: "GetMemory (m_mem (n_state i)) 0 = Ok (m, mem_word (m_mem (n_state i)) 0)"
    using GetMemory_coh [OF assms(1), of 0] by auto
  have w: "mem_word (m_mem (n_state i)) 0 = 0" by (simp add: mem_word_def assms(2) un32_def be_decode_def)
  have gd: "GetInstructionDetails (cpu_PC (t_cpu t)) (m_mem (n_state i)) = Ok (m, 0, 0, 0)"
    using m w assms(3) by (simp add: GetInstructionDetails_def insn_opcode_def insn_fun_def shr_def)
  define i2 where "i2 = i\<lparr>n_state := (n_state i)\<lparr>m_mem := m\<rparr>\<rparr>"
  have op: "((0 :: u32) = 0 \<and> (0 :: u32) = 0xC) = False" "((0 :: u32) = 0x30 \<or> (0 :: u32) = 0x38) = False"
    by simp_all
  obtain c' where c': "ExecMipsCoreStepLogic kk lookup (core2 i2 t) 0 0 0 = Ok (c', False, 0)"
    using nop_core by blast
  show ?thesis
    unfolding insn_step_def gd bind_res.simps prod.case Let_def i2_def [symmetric] op if_False c' by blast
qed

lemma nop_m_mipsStep:
  assumes "mem_coh kk (m_mem (n_state i))" "mem_byte (m_mem (n_state i)) = (\<lambda>_. 0)"
    and "GetCurrentThread (n_state i) = Ok CreateEmptyThread" "\<not> m_exited (n_state i)"
    "m_wakeup (n_state i) = FutexEmptyAddr" "m_sinceSwitch (n_state i) = 0"
  shows "\<exists>i'. m_mipsStep kk po lookup i = Ok i'"
proof -
  define i1 where "i1 = upd_state (\<lambda>s. s\<lparr>m_step := m_step s + 1\<rparr>) i"
  define i2 where "i2 = upd_state (\<lambda>s. s\<lparr>m_sinceSwitch := m_sinceSwitch s + 1\<rparr>) i1"
  have "\<exists>i'. insn_step kk po lookup i2 CreateEmptyThread = Ok i'"
    by (rule nop_insn_step) (use assms in \<open>simp_all add: i2_def i1_def upd_state_def CreateEmptyThread_def\<close>)
  moreover have "GetCurrentThread (n_state i1) = Ok CreateEmptyThread"
    using assms(3) by (simp add: i1_def upd_state_def GetCurrentThread_Ok)
  moreover have "(m_wakeup (n_state i1) \<noteq> FutexEmptyAddr) = False" "t_exited CreateEmptyThread = False"
    "(t_futexAddr CreateEmptyThread \<noteq> FutexEmptyAddr) = False" "(m_sinceSwitch (n_state i1) \<ge> SchedQuantum) = False"
    using assms(5,6) by (simp_all add: i1_def upd_state_def CreateEmptyThread_def SchedQuantum_def)
  ultimately show ?thesis
    unfolding m_mipsStep_def if_not_P [OF assms(4)] Let_def i1_def [symmetric] i2_def [symmetric]
    by (simp only: bind_res.simps if_False)
qed


end
