(* ===== verification/CannonWake.thy ===== *)
theory CannonWake
  imports CannonMultiProps
begin

text \<open>
  The wake-up traversal: after \<open>FUTEX_WAKE\<close> the scheduler walks to the left end of the row of
  threads and then all the way right, so that it meets every thread before it gives up.
\<close>

fun m_steps ::
    "(bytes \<Rightarrow> hash) \<Rightarrow> (bytes \<Rightarrow> bytes) \<Rightarrow> (u32 \<Rightarrow> string) \<Rightarrow> nat \<Rightarrow> inst2 \<Rightarrow> inst2 res" where
  "m_steps kk po lookup 0 i = Ok i"
| "m_steps kk po lookup (Suc n) i = bind_res (m_mipsStep kk po lookup i) (m_steps kk po lookup n)"

text \<open>What the traversal reaches: the wake-up signal is cleared, at a waiting thread if there is one
  in \<open>ts\<close>, and nothing but the cursor has moved.\<close>

definition woken :: "u32 \<Rightarrow> thread list \<Rightarrow> inst2 \<Rightarrow> inst2 \<Rightarrow> bool" where
  "woken a ts i i' \<longleftrightarrow> m_wakeup (n_state i') = FutexEmptyAddr \<and> thread_row (n_state i') = thread_row (n_state i) \<and>
     m_mem (n_state i') = m_mem (n_state i) \<and> getActiveThreadStack (n_state i') \<noteq> [] \<and>
     (if list_ex (\<lambda>t. t_futexAddr t = a) ts then t_futexAddr (last (getActiveThreadStack (n_state i'))) = a else True)"

lemma step_wakeup:
  assumes "\<not> m_exited (n_state i)" "m_wakeup (n_state i) \<noteq> FutexEmptyAddr" "getActiveThreadStack (n_state i) = r @ [t]"
  shows "m_mipsStep kk po lookup i =
    bind_res (wakeup_step ((n_state i)\<lparr>m_step := m_step (n_state i) + 1\<rparr>) t) (\<lambda>s. Ok (i\<lparr>n_state := s\<rparr>))"
proof -
  have "GetCurrentThread ((n_state i)\<lparr>m_step := m_step (n_state i) + 1\<rparr>) = Ok t"
    using assms(3) by (simp add: GetCurrentThread_Ok)
  then show ?thesis using assms(1,2) by (simp add: m_mipsStep_def Let_def upd_state_def)
qed

lemma step_found:
  assumes "\<not> m_exited (n_state i)" "m_wakeup (n_state i) = a" "a \<noteq> FutexEmptyAddr"
    "getActiveThreadStack (n_state i) = r @ [t]" "t_futexAddr t = a"
  shows "\<exists>i'. m_steps kk po lookup 1 i = Ok i' \<and> woken a ts i i'"
proof -
  let ?s = "(n_state i)\<lparr>m_step := m_step (n_state i) + 1, m_wakeup := FutexEmptyAddr\<rparr>"
  have "m_mipsStep kk po lookup i = Ok (i\<lparr>n_state := ?s\<rparr>)"
    using step_wakeup [OF assms(1) _ assms(4)] assms(2,3,5) by (simp add: wakeup_step_def)
  moreover have "thread_row ?s = thread_row (n_state i)" by (simp add: thread_row_def)
  ultimately show ?thesis using assms(4,5) by (simp add: woken_def)
qed

lemma walk_right:
  assumes "m_traverseRight (n_state i)" "m_rightStack (n_state i) = r" "r \<noteq> []" "\<not> m_exited (n_state i)"
    "m_wakeup (n_state i) = a" "a \<noteq> FutexEmptyAddr"
  shows "\<exists>k i'. k \<le> length r \<and> m_steps kk po lookup k i = Ok i' \<and> woken a r i i'"
  using assms
proof (induction r arbitrary: i rule: rev_induct)
  case (snoc t r)
  have act: "getActiveThreadStack (n_state i) = r @ [t]" using snoc.prems(1,2) by (simp add: getActiveThreadStack_def)
  show ?case
  proof (cases "t_futexAddr t = a")
    case True
    obtain i' where "m_steps kk po lookup 1 i = Ok i'" "woken a (r @ [t]) i i'"
      using step_found [OF snoc.prems(4-6) act True] by blast
    then show ?thesis by (intro exI [of _ 1] exI [of _ i']) simp
  next
    case False
    define s where "s = (n_state i)\<lparr>m_step := m_step (n_state i) + 1\<rparr>"
    define s1 where "s1 = s\<lparr>m_rightStack := r, m_leftStack := m_leftStack s @ [t], m_traverseRight := (r \<noteq> []), m_sinceSwitch := 0\<rparr>"
    have pre: "preemptThread s = Ok (s1, r = [])"
      unfolding s1_def by (rule preemptThread_right) (use snoc.prems(1,2) in \<open>simp_all add: s_def\<close>)
    have row: "thread_row s1 = thread_row (n_state i)"
      using snoc.prems(2) by (simp add: thread_row_def s1_def s_def)
    have step: "m_mipsStep kk po lookup i = Ok (i\<lparr>n_state := (if r = [] then s1\<lparr>m_wakeup := FutexEmptyAddr\<rparr> else s1)\<rparr>)"
      using step_wakeup [OF snoc.prems(4) _ act, of kk po lookup, folded s_def] snoc.prems(1,5,6) False pre
      by (simp add: wakeup_step_def s_def)
    show ?thesis
    proof (cases "r = []")
      case True
      have "thread_row (s1\<lparr>m_wakeup := FutexEmptyAddr\<rparr>) = thread_row (n_state i)" using row by (simp add: thread_row_def)
      moreover have "getActiveThreadStack s1 \<noteq> []" "m_mem s1 = m_mem (n_state i)"
        using True by (simp_all add: getActiveThreadStack_def s1_def s_def)
      ultimately have "woken a (r @ [t]) i (i\<lparr>n_state := s1\<lparr>m_wakeup := FutexEmptyAddr\<rparr>\<rparr>)"
        using True False by (simp add: woken_def)
      then show ?thesis using step True by (intro exI [of _ 1]) simp
    next
      case ne: False
      have "\<exists>k i'. k \<le> length r \<and> m_steps kk po lookup k (i\<lparr>n_state := s1\<rparr>) = Ok i' \<and> woken a r (i\<lparr>n_state := s1\<rparr>) i'"
        by (rule snoc.IH) (use ne snoc.prems in \<open>simp_all add: s1_def s_def\<close>)
      then obtain k i' where "k \<le> length r" "m_steps kk po lookup k (i\<lparr>n_state := s1\<rparr>) = Ok i'" "woken a r (i\<lparr>n_state := s1\<rparr>) i'"
        by blast
      moreover have "m_mem s1 = m_mem (n_state i)" by (simp add: s1_def s_def)
      ultimately show ?thesis using step ne row False
        by (intro exI [of _ "Suc k"] exI [of _ i']) (simp add: woken_def)
    qed
  qed
qed simp

lemma walk_left:
  assumes "\<not> m_traverseRight (n_state i)" "m_leftStack (n_state i) = l" "l \<noteq> []" "\<not> m_exited (n_state i)"
    "m_wakeup (n_state i) = a" "a \<noteq> FutexEmptyAddr"
  shows "\<exists>k i'. k \<le> length l + ThreadCount (n_state i) \<and> m_steps kk po lookup k i = Ok i' \<and>
    woken a (thread_row (n_state i)) i i'"
  using assms
proof (induction l arbitrary: i rule: rev_induct)
  case (snoc t l)
  have act: "getActiveThreadStack (n_state i) = l @ [t]" using snoc.prems(1,2) by (simp add: getActiveThreadStack_def)
  show ?case
  proof (cases "t_futexAddr t = a")
    case True
    obtain i' where "m_steps kk po lookup 1 i = Ok i'" "woken a (thread_row (n_state i)) i i'"
      using step_found [OF snoc.prems(4-6) act True] by blast
    then show ?thesis by (intro exI [of _ 1] exI [of _ i']) simp
  next
    case False
    define s where "s = (n_state i)\<lparr>m_step := m_step (n_state i) + 1\<rparr>"
    define s1 where "s1 = s\<lparr>m_leftStack := l, m_rightStack := m_rightStack s @ [t], m_traverseRight := (l = []), m_sinceSwitch := 0\<rparr>"
    have pre: "preemptThread s = Ok (s1, l = [])"
      unfolding s1_def by (rule preemptThread_left) (use snoc.prems(1,2) in \<open>simp_all add: s_def\<close>)
    have row: "thread_row s1 = thread_row (n_state i)" "ThreadCount s1 = ThreadCount (n_state i)"
      using snoc.prems(2) by (simp_all add: thread_row_def ThreadCount_def s1_def s_def)
    have mem: "m_mem s1 = m_mem (n_state i)" by (simp add: s1_def s_def)
    have step: "m_mipsStep kk po lookup i = Ok (i\<lparr>n_state := s1\<rparr>)"
      using step_wakeup [OF snoc.prems(4) _ act, of kk po lookup, folded s_def] snoc.prems(1,5,6) False pre
      by (simp add: wakeup_step_def s_def)
    have "\<exists>k i'. k \<le> length l + ThreadCount s1 \<and> m_steps kk po lookup k (i\<lparr>n_state := s1\<rparr>) = Ok i' \<and>
        woken a (thread_row s1) (i\<lparr>n_state := s1\<rparr>) i'"
    proof (cases "l = []")
      case True
      have r: "set (thread_row s1) = set (m_rightStack s1)" "length (m_rightStack s1) \<le> ThreadCount s1"
        using True by (auto simp: s1_def thread_row_def ThreadCount_def)
      have "\<exists>k i'. k \<le> length (m_rightStack s1) \<and> m_steps kk po lookup k (i\<lparr>n_state := s1\<rparr>) = Ok i' \<and>
          woken a (m_rightStack s1) (i\<lparr>n_state := s1\<rparr>) i'"
        by (rule walk_right) (use True snoc.prems in \<open>simp_all add: s1_def s_def\<close>)
      moreover have "list_ex P (thread_row s1) = list_ex P (m_rightStack s1)" for P
        using r(1) by (simp add: list_ex_iff)
      ultimately obtain k i' where "k \<le> length (m_rightStack s1)" "m_steps kk po lookup k (i\<lparr>n_state := s1\<rparr>) = Ok i'"
        "woken a (thread_row s1) (i\<lparr>n_state := s1\<rparr>) i'" unfolding woken_def by auto
      then show ?thesis using r(2) by (intro exI [of _ k] exI [of _ i']) simp
    next
      case ne: False
      have "\<exists>k i'. k \<le> length l + ThreadCount (n_state (i\<lparr>n_state := s1\<rparr>)) \<and>
          m_steps kk po lookup k (i\<lparr>n_state := s1\<rparr>) = Ok i' \<and>
          woken a (thread_row (n_state (i\<lparr>n_state := s1\<rparr>))) (i\<lparr>n_state := s1\<rparr>) i'"
        by (rule snoc.IH) (use ne snoc.prems in \<open>simp_all add: s1_def s_def\<close>)
      then show ?thesis by simp
    qed
    then obtain k i' where "k \<le> length l + ThreadCount s1" "m_steps kk po lookup k (i\<lparr>n_state := s1\<rparr>) = Ok i'"
      "woken a (thread_row s1) (i\<lparr>n_state := s1\<rparr>) i'" by blast
    then show ?thesis using step row mem
      by (intro exI [of _ "Suc k"] exI [of _ i']) (simp add: woken_def)
  qed
qed simp

text \<open>C29: A wake-up is never lost: \<open>FUTEX_WAKE\<close> succeeds, and within twice as many steps as there are
  threads the traversal it starts ends, with the memory and all threads unchanged; if any thread
  waits on the address, the traversal ends at such a thread, which is then the one to run.\<close>

theorem wakeup_reaches_waiter:
  assumes "sched_run (n_state i)" "\<not> m_exited (n_state i)" "GetCurrentThread (n_state i) = Ok t"
  shows "\<exists>i1 k i2. sys_futex kk i t a0 FutexWakePrivate a2 a3 = Ok i1 \<and> k \<le> 2 * ThreadCount (n_state i) \<and>
    m_steps kk po lookup k i1 = Ok i2 \<and> woken (a0 AND 0xFFFFFFFC) (thread_row (n_state i1)) i1 i2"
proof -
  let ?a = "a0 AND 0xFFFFFFFC"
  define j where "j = i\<lparr>n_state := (n_state i)\<lparr>m_wakeup := ?a\<rparr>\<rparr>"
  define s0 where "s0 = put_thread (thread_syscall_updates t 0 0) (n_state j)"
  have t: "\<not> t_exited t \<and> t_regs t 0 = 0"
    using sched_run_last [OF assms(1)] assms(3) by (auto simp: GetCurrentThread_Ok)
  have "sched_run (n_state j)" using assms(1) by (simp add: j_def)
  then have s0: "sched_run s0" unfolding s0_def by (rule sched_run_put) (use t in simp_all)
  obtain s1 ch where s1: "preemptThread s0 = Ok (s1, ch)"
    using preemptThread_ok [of s0] s0 by (auto simp: sched_run_def)
  note p = preemptThread_run [OF s0 s1]
  define s2 where "s2 = s1\<lparr>m_traverseRight := (m_leftStack s1 = [])\<rparr>"
  define i1 where "i1 = j\<lparr>n_state := s2\<rparr>"
  have y: "yield_thread j t = Ok (j\<lparr>n_state := s1\<rparr>)"
    unfolding yield_thread_def s0_def [symmetric] s1 by simp
  have c: "(FutexWakePrivate = FutexWaitPrivate) = False" by (simp add: FutexWakePrivate_def FutexWaitPrivate_def)
  have run: "sys_futex kk i t a0 FutexWakePrivate a2 a3 = Ok i1"
    unfolding sys_futex_def Let_def c if_False if_P [OF refl] j_def [symmetric] y
    by (simp add: upd_state_def i1_def s2_def)
  have "thread_row s0 \<noteq> []"
    using s0 unfolding sched_run_row set_empty [symmetric] set_thread_row by simp
  then have ne: "m_leftStack s1 = [] \<Longrightarrow> m_rightStack s1 \<noteq> []" using p by (auto simp: thread_row_def)
  have ex: "\<not> m_exited s2" "m_wakeup s2 = ?a" "?a \<noteq> FutexEmptyAddr"
    using p assms(2) aligned_not_ones [OF eff_aligned [of a0]]
    by (simp_all add: s2_def s0_def j_def FutexEmptyAddr_def)
  have cnt: "ThreadCount s2 = ThreadCount (n_state i)"
  proof -
    have "length (thread_row s2) = length (thread_row s0)" using p by (simp add: s2_def thread_row_def)
    also have "\<dots> = length (thread_row (n_state i))"
      using assms(1) by (auto simp: s0_def j_def thread_row_def put_thread_def set_active_def getActiveThreadStack_def sched_run_def)
    finally show ?thesis by (simp add: length_thread_row)
  qed
  have "\<exists>k i2. k \<le> 2 * ThreadCount s2 \<and> m_steps kk po lookup k i1 = Ok i2 \<and> woken ?a (thread_row s2) i1 i2"
  proof (cases "m_leftStack s1 = []")
    case True
    have "\<exists>k i2. k \<le> length (m_rightStack s1) \<and> m_steps kk po lookup k i1 = Ok i2 \<and> woken ?a (m_rightStack s1) i1 i2"
      by (rule walk_right) (use True ne ex in \<open>simp_all add: i1_def s2_def\<close>)
    moreover have "list_ex P (thread_row s2) = list_ex P (m_rightStack s1)" for P
      using True by (simp add: list_ex_iff thread_row_def s2_def)
    moreover have "length (m_rightStack s1) \<le> 2 * ThreadCount s2" by (simp add: ThreadCount_def s2_def)
    ultimately show ?thesis unfolding woken_def by (metis (no_types, lifting) order_trans)
  next
    case False
    have "\<exists>k i2. k \<le> length (m_leftStack s1) + ThreadCount (n_state i1) \<and> m_steps kk po lookup k i1 = Ok i2 \<and>
        woken ?a (thread_row (n_state i1)) i1 i2"
      by (rule walk_left) (use False ex in \<open>simp_all add: i1_def s2_def\<close>)
    moreover have "length (m_leftStack s1) + ThreadCount (n_state i1) \<le> 2 * ThreadCount s2"
      by (simp add: ThreadCount_def s2_def i1_def)
    moreover have "n_state i1 = s2" by (simp add: i1_def)
    ultimately show ?thesis by (metis (no_types, lifting) order_trans)
  qed
  then show ?thesis using run cnt unfolding i1_def by auto
qed

theorem wakeup_reaches_waiter_witness:
  "let t = CreateEmptyThread; w = t\<lparr>t_id := 1, t_futexAddr := 0x40\<rparr>;
       i = m_NewInstrumentedState (m_CreateEmptyState\<lparr>m_leftStack := [w, t]\<rparr>) in
   \<exists>i1 k i2. sys_futex (\<lambda>b. b) i t 0x41 FutexWakePrivate 1 0 = Ok i1 \<and> k \<le> 4 \<and>
     m_steps (\<lambda>b. b) (\<lambda>_. []) (\<lambda>_. []) k i1 = Ok i2 \<and> m_wakeup (n_state i2) = FutexEmptyAddr \<and>
     length (thread_row (n_state i2)) = 2"
proof -
  let ?t = CreateEmptyThread
  let ?i = "m_NewInstrumentedState (m_CreateEmptyState\<lparr>m_leftStack := [?t\<lparr>t_id := 1, t_futexAddr := 0x40\<rparr>, ?t]\<rparr>)"
  have "sched_run (n_state ?i)" "\<not> m_exited (n_state ?i)" "GetCurrentThread (n_state ?i) = Ok ?t" "ThreadCount (n_state ?i) = 2"
    by (simp_all add: m_NewInstrumentedState_def m_CreateEmptyState_def sched_run_def getActiveThreadStack_def
        inactive_stack_def CreateEmptyThread_def GetCurrentThread_Ok ThreadCount_def)
  note h = this
  obtain i1 k i2 where r: "sys_futex (\<lambda>b. b) ?i ?t 0x41 FutexWakePrivate 1 0 = Ok i1" "k \<le> 4"
    "m_steps (\<lambda>b. b) (\<lambda>_. []) (\<lambda>_. []) k i1 = Ok i2" "woken (0x41 AND 0xFFFFFFFC) (thread_row (n_state i1)) i1 i2"
    using wakeup_reaches_waiter [OF h(1-3), of "\<lambda>b. b" "0x41" 1 0 "\<lambda>_. []" "\<lambda>_. []"] h(4) by auto
  have "length (thread_row (n_state i1)) = 2"
    using r(1) by (auto simp: sys_futex_def FutexWakePrivate_def FutexWaitPrivate_def yield_thread_def preemptThread_def
        m_NewInstrumentedState_def m_CreateEmptyState_def put_thread_def set_active_def getActiveThreadStack_def Let_def
        upd_state_def thread_row_def)
  then have "m_wakeup (n_state i2) = FutexEmptyAddr \<and> length (thread_row (n_state i2)) = 2"
    using r(4) by (simp add: woken_def)
  with r(1-3) show ?thesis unfolding Let_def by blast
qed

end
