(* ===== verification/CannonReserve.thy ===== *)
theory CannonReserve
  imports CannonWake
begin

unbundle bit_operations_syntax

text \<open>
  Load-linked reservations of the multi-threaded VM: while a reservation lasts, no step of any
  thread, system calls included, changes the reserved word; so a store-conditional that succeeds
  replaces the very value its load-linked read.
\<close>

section \<open>What a step writes\<close>

definition word_at :: "(u32 \<Rightarrow> byte) \<Rightarrow> u32 \<Rightarrow> u32" where
  "word_at f a = un32 [f a, f (a + 1), f (a + 2), f (a + 3)]"

lemma word_at_mem: "word_at (mem_byte m) a = mem_word m a"
  by (simp add: word_at_def mem_word_def)

lemma word_at_store:
  assumes "a AND 3 = 0" "b AND 3 = 0" "b \<noteq> a"
  shows "word_at (store_word f a v) b = word_at f b"
proof -
  have "store_word f a v (b + of_nat i) = f (b + of_nat i)" if "i < 4" for i
    using aligned_diff [OF assms(1,2) that assms(3)] by (simp add: store_word_def)
  from this [of 0] this [of 1] this [of 2] this [of 3] show ?thesis by (simp add: word_at_def)
qed

text \<open>The memory after an operation that reports one updated word, or none.\<close>

definition touch :: "(u32 \<Rightarrow> byte) \<Rightarrow> (u32 \<Rightarrow> byte) \<Rightarrow> u32 \<Rightarrow> bool \<Rightarrow> bool" where
  "touch f g a u \<longleftrightarrow> (if u then a AND 3 = 0 \<and> (\<exists>v. g = store_word f a v) else g = f)"

lemma SetMemory_touch:
  assumes "pre kk f m mt" "SetMemory m a v = Ok m'"
  shows "a AND 3 = 0" "mem_byte m' = store_word f a v"
proof -
  show "a AND 3 = 0" using assms(2) SetMemory_unaligned [of a m v] by (cases "a AND 3 = 0") auto
  show "mem_byte m' = store_word f a v"
    using SetMemory_post(2) [OF pre_post [OF assms(1)] assms(2)] assms(1) by (auto simp: pre_def store_word_def fun_eq_iff)
qed

lemma HandleSysRead_touch:
  assumes "HandleSysRead kk po a0 a1 a2 key off io = Ok (io', v0, v1, off', upd, addr)"
    and "pre kk f (io_mem io) (io_mt io)"
  shows "touch f (mem_byte (io_mem io')) addr upd"
proof (cases "a0 = 5")
  case True
  obtain mt m1 m2 mem pr dat datLen where s:
    "TrackMemAccess kk (io_mt io) (io_mem io) (a1 AND 0xFFFFFFFC) = Ok (mt, m1)"
    "GetMemory m1 (a1 AND 0xFFFFFFFC) = Ok (m2, mem)"
    "ReadPreimage po (io_pr io) key off = Ok (pr, dat, datLen)"
    using assms(1) True by (auto simp: HandleSysRead_def Let_def res_simps)
  obtain w m3 where m3: "SetMemory m2 (a1 AND 0xFFFFFFFC) w = Ok m3" "io_mem io' = m3" "upd" "addr = a1 AND 0xFFFFFFFC"
    using assms(1) True s by (auto simp: HandleSysRead_def Let_def res_simps)
  have "pre kk f m2 mt" using TrackMemAccess_pre [OF assms(2) s(1)] GetMemory_pre [OF _ s(2)] by blast
  then show ?thesis using SetMemory_touch m3 by (auto simp: touch_def)
next
  case False
  then have "io' = io" "\<not> upd" using assms(1) by (auto simp: HandleSysRead_def split: if_splits)
  then show ?thesis using assms(2) by (simp add: touch_def pre_def)
qed

lemma core_touch:
  assumes run: "ExecMipsCoreStepLogic kk lookup c insn oc fun' = Ok (c', upd, addr)" and pre: "core_pre kk f c"
  shows "touch f (mem_byte (co_mem c')) addr upd"
proof -
  have f: "mem_byte (co_mem c) = f" using pre by (simp add: core_pre_def pre_def)
  have cpu: "co_mem c2 = co_mem c1" if "on_cpu c1 r = Ok c2" for c1 c2 r
    using that by (auto simp: on_cpu_def res_simps)
  consider (jump) "oc = 2 \<or> oc = 3" | (branch) "oc \<noteq> 2" "oc \<noteq> 3" "(4 \<le> oc \<and> oc < 8) \<or> oc = 1"
    | (rest) "oc \<noteq> 2" "oc \<noteq> 3" "\<not> ((4 \<le> oc \<and> oc < 8) \<or> oc = 1)" by blast
  then show ?thesis
  proof cases
    case jump
    then show ?thesis using run cpu f by (fastforce simp: ExecMipsCoreStepLogic_def Let_def res_simps touch_def)
  next
    case branch
    then show ?thesis using run cpu f by (auto simp: ExecMipsCoreStepLogic_def Let_def res_simps touch_def)
  next
    case rest
    obtain c1 rs mem sa rd val where s:
      "core_fetch kk c insn oc (get_reg (co_regs c) (shr insn 21 AND 0x1F)) (dest_reg insn oc) = Ok (c1, rs, mem, sa, rd)"
      "ExecuteMipsInstruction insn oc fun' rs (operand_rt (co_regs c) insn oc) mem = Ok val"
      and t: "(if oc = 0 \<and> fun' \<ge> 8 \<and> fun' < 0x1c \<and> (fun' < 0xc \<or> fun' \<ge> 0x10) then
               bind_res (core_special lookup c1 fun' rs (operand_rt (co_regs c) insn oc) rd) (\<lambda>c'. Ok (c', False, 0))
             else if sa \<noteq> 0xFFFFFFFF then
               bind_res (TrackMemAccess kk (co_mt c1) (co_mem c1) sa) (\<lambda>(mt, m2).
               bind_res (SetMemory m2 sa val) (\<lambda>m3.
               let c2 = c1\<lparr>co_mem := m3, co_mt := mt\<rparr> in
               bind_res (on_cpu c2 (HandleRd (co_cpu c2) (co_regs c2) rd val True)) (\<lambda>c'.
               Ok (c', True, sa))))
             else
               bind_res (on_cpu c1 (HandleRd (co_cpu c1) (co_regs c1) rd val True)) (\<lambda>c'. Ok (c', False, 0)))
          = Ok (c', upd, addr)"
      using run rest by (auto simp: ExecMipsCoreStepLogic_def Let_def bind_res_Ok_iff simp del: if_split)
    have p1: "core_pre kk f c1" by (rule core_fetch_pre(1) [OF s(1) pre])
    then have f1: "mem_byte (co_mem c1) = f" by (simp add: core_pre_def pre_def)
    have sp: "co_mem c2 = co_mem c1" if "core_special lookup c1 fun' rs rt rd = Ok c2" for c2 rt
      using that cpu unfolding core_special_def Let_def by (fastforce split: if_splits)
    show ?thesis
    proof (cases "oc = 0 \<and> fun' \<ge> 8 \<and> fun' < 0x1c \<and> (fun' < 0xc \<or> fun' \<ge> 0x10)")
      case True
      then show ?thesis using t sp f1 by (auto simp: res_simps touch_def)
    next
      case nospec: False
      show ?thesis
      proof (cases "sa \<noteq> 0xFFFFFFFF")
        case True
        obtain mt m2 m3 where w: "TrackMemAccess kk (co_mt c1) (co_mem c1) sa = Ok (mt, m2)"
          "SetMemory m2 sa val = Ok m3" "co_mem c' = m3" "upd" "addr = sa"
          using t True cpu unfolding if_not_P [OF nospec] by (fastforce simp: Let_def res_simps)
        have "pre kk f m2 mt" using TrackMemAccess_pre [OF _ w(1)] p1 by (auto simp: core_pre_def)
        then show ?thesis using SetMemory_touch w by (auto simp: touch_def)
      next
        case False
        then show ?thesis using t cpu f1 unfolding if_not_P [OF nospec] by (auto simp: res_simps touch_def)
      qed
    qed
  qed
qed

section \<open>Reservations through a step\<close>

text \<open>The reservation of \<open>s\<close>, if any, is that of \<open>s0\<close>, and the reserved word is that of \<open>f\<close>.\<close>

definition kept :: "(u32 \<Rightarrow> byte) \<Rightarrow> state2 \<Rightarrow> state2 \<Rightarrow> bool" where
  "kept f s0 s \<longleftrightarrow> (m_llActive s \<longrightarrow> m_llActive s0 \<and> m_llAddress s = m_llAddress s0 \<and> m_llOwner s = m_llOwner s0 \<and>
     word_at (mem_byte (m_mem s)) (m_llAddress s) = word_at f (m_llAddress s))"

lemma kept_same:
  "kept f s0 s \<Longrightarrow> m_llActive s' = m_llActive s \<Longrightarrow> m_llAddress s' = m_llAddress s \<Longrightarrow> m_llOwner s' = m_llOwner s \<Longrightarrow>
   mem_byte (m_mem s') = mem_byte (m_mem s) \<Longrightarrow> kept f s0 s'"
  by (auto simp: kept_def)

lemma kept_put: "kept f s0 s \<Longrightarrow> kept f s0 (put_thread t s)"
  by (rule kept_same) simp_all

lemma kept_write:
  assumes "kept f s0 s" "mem_byte (m_mem s') = store_word (mem_byte (m_mem s)) a v" "a AND 3 = 0"
    "m_llActive s0 \<longrightarrow> m_llAddress s0 AND 3 = 0" "m_llActive s' = m_llActive s" "m_llAddress s' = m_llAddress s"
    "m_llOwner s' = m_llOwner s"
  shows "kept f s0 (handleMemoryUpdate a s')"
proof (cases "a = m_llAddress s'")
  case True
  then show ?thesis by (simp add: kept_def handleMemoryUpdate_def clearLLMemoryReservation_def)
next
  case False
  have "word_at (store_word (mem_byte (m_mem s)) a v) (m_llAddress s) = word_at (mem_byte (m_mem s)) (m_llAddress s)"
    if "m_llActive s"
    using assms(1,3,4,6) False that by (intro word_at_store) (auto simp: kept_def)
  with False assms show ?thesis by (auto simp: kept_def handleMemoryUpdate_def)
qed

lemma kept_touch:
  assumes "kept f s0 s" "touch (mem_byte (m_mem s)) (mem_byte (m_mem s')) a u"
    "m_llActive s0 \<longrightarrow> m_llAddress s0 AND 3 = 0" "m_llActive s' = m_llActive s" "m_llAddress s' = m_llAddress s"
    "m_llOwner s' = m_llOwner s"
  shows "kept f s0 (if u then handleMemoryUpdate a s' else s')"
proof (cases u)
  case True
  then obtain v where "a AND 3 = 0" "mem_byte (m_mem s') = store_word (mem_byte (m_mem s)) a v"
    using assms(2) by (auto simp: touch_def)
  then show ?thesis using True kept_write [OF assms(1) _ _ assms(3-6)] by simp
next
  case False
  then show ?thesis using assms kept_same [OF assms(1), of s'] by (simp add: touch_def)
qed

lemma preempt_kept:
  "preemptThread s = Ok (s', ch) \<Longrightarrow> kept f s0 s \<Longrightarrow> kept f s0 s'"
  by (erule kept_same) (auto simp: preemptThread_def Let_def guard_panic_def split: if_splits)+

lemma finish_kept: "kept f s0 (n_state i) \<Longrightarrow> kept f s0 (n_state (finish_with i t v0 v1))"
  by (simp add: finish_with_def upd_state_def kept_put)

lemma tracked_load_kept:
  assumes "tracked_load kk i a = Ok (j, v)" "pre kk f (m_mem (n_state i)) (n_mt i)" "kept f s0 (n_state i)"
  shows "kept f s0 (n_state j)" "pre kk f (m_mem (n_state j)) (n_mt j)" "v = word_at f a"
    "n_state j = (n_state i)\<lparr>m_mem := m_mem (n_state j)\<rparr>"
proof -
  obtain mt m1 m2 where t: "TrackMemAccess kk (n_mt i) (m_mem (n_state i)) a = Ok (mt, m1)"
    "GetMemory m1 a = Ok (m2, v)" "j = i\<lparr>n_state := (n_state i)\<lparr>m_mem := m2\<rparr>, n_mt := mt\<rparr>"
    using assms(1) unfolding tracked_load_def by (elim bind_pairE) auto
  have "pre kk f m2 mt" "v = word_at f a"
    using TrackMemAccess_pre [OF assms(2) t(1)] GetMemory_pre [OF _ t(2)] by (auto simp: word_at_def)
  then show "kept f s0 (n_state j)" "pre kk f (m_mem (n_state j)) (n_mt j)" "v = word_at f a"
    "n_state j = (n_state i)\<lparr>m_mem := m_mem (n_state j)\<rparr>"
    using assms(2,3) by (auto simp: t(3) pre_def intro: kept_same)
qed

definition aligned_ll :: "state2 \<Rightarrow> bool" where
  "aligned_ll s \<longleftrightarrow> (m_llActive s \<longrightarrow> m_llAddress s AND 3 = 0)"

lemma sys_clone_kept:
  assumes "sys_clone i t a0 a1 = Ok j" "kept f s0 (n_state i)"
  shows "kept f s0 (n_state j)"
  using assms by (auto simp: sys_clone_def Let_def intro: kept_same split: if_splits)

lemma yield_kept:
  assumes "yield_thread i t = Ok j" "kept f s0 (n_state i)"
  shows "kept f s0 (n_state j)"
proof -
  obtain s ch where "preemptThread (put_thread (thread_syscall_updates t 0 0) (n_state i)) = Ok (s, ch)" "j = i\<lparr>n_state := s\<rparr>"
    using assms(1) unfolding yield_thread_def by (elim bind_pairE) auto
  then show ?thesis using preempt_kept kept_put [OF assms(2)] by simp
qed

lemma sys_futex_kept:
  assumes "sys_futex kk i t a0 a1 a2 a3 = Ok j" "pre kk f (m_mem (n_state i)) (n_mt i)" "kept f s0 (n_state i)"
  shows "kept f s0 (n_state j)"
proof -
  consider (wait) "a1 = FutexWaitPrivate" | (wake) "a1 = FutexWakePrivate" "a1 \<noteq> FutexWaitPrivate"
    | (other) "a1 \<noteq> FutexWaitPrivate" "a1 \<noteq> FutexWakePrivate" by blast
  then show ?thesis
  proof cases
    case wait
    obtain i3 mem where l: "tracked_load kk i (a0 AND 0xFFFFFFFC) = Ok (i3, mem)"
      using assms(1) wait unfolding sys_futex_def Let_def by (auto elim!: bind_pairE)
    note k = tracked_load_kept(1) [OF l assms(2,3)]
    have "j = finish_with i3 t SysErrorSignal MipsEAGAIN \<or> (\<exists>t'. j = upd_state (put_thread t') i3)"
      using assms(1) wait l by (auto simp: sys_futex_def Let_def split: if_splits)
    then show ?thesis using finish_kept [OF k] kept_put [OF k] by (auto simp: upd_state_def)
  next
    case wake
    obtain i3 where y: "yield_thread (i\<lparr>n_state := (n_state i)\<lparr>m_wakeup := a0 AND 0xFFFFFFFC\<rparr>\<rparr>) t = Ok i3"
      "j = upd_state (\<lambda>s. s\<lparr>m_traverseRight := (m_leftStack s = [])\<rparr>) i3"
      using assms(1) wake unfolding sys_futex_def Let_def by (auto elim!: bind_resE)
    have "kept f s0 ((n_state i)\<lparr>m_wakeup := a0 AND 0xFFFFFFFC\<rparr>)" by (rule kept_same [OF assms(3)]) simp_all
    then have "kept f s0 (n_state i3)" using yield_kept [OF y(1)] by simp
    then show ?thesis unfolding y(2) upd_state_def by (rule kept_same) simp_all
  next
    case other
    then have "j = finish_with i t SysErrorSignal MipsEINVAL" using assms(1) by (simp add: sys_futex_def Let_def)
    then show ?thesis using finish_kept [OF assms(3)] by simp
  qed
qed

lemma set_and_update_kept:
  assumes "set_and_update i a v = Ok j" "hash_size kk" "mem_coh kk (m_mem (n_state i))" "kept f s0 (n_state i)" "aligned_ll s0"
  shows "kept f s0 (n_state j)" "mem_coh kk (m_mem (n_state j))"
proof -
  obtain m where m: "SetMemory (m_mem (n_state i)) a v = Ok m"
    "j = i\<lparr>n_state := handleMemoryUpdate a ((n_state i)\<lparr>m_mem := m\<rparr>)\<rparr>"
    using assms(1) unfolding set_and_update_def by (elim bind_resE) auto
  have p: "pre kk (mem_byte (m_mem (n_state i))) (m_mem (n_state i)) NewMemoryTracker"
    using assms(2,3) by (simp add: pre_def track_inv_def NewMemoryTracker_def)
  have "kept f s0 (handleMemoryUpdate a ((n_state i)\<lparr>m_mem := m\<rparr>))"
    by (rule kept_write [OF assms(4)]) (use SetMemory_touch [OF p m(1)] assms(5) in \<open>simp_all add: aligned_ll_def\<close>)
  then show "kept f s0 (n_state j)" "mem_coh kk (m_mem (n_state j))"
    using SetMemory_post(1) [OF pre_post [OF p] m(1)] by (simp_all add: m(2) post_def)
qed

lemma sys_clock_gettime_kept:
  assumes "sys_clock_gettime kk i t a0 a1 = Ok j" "pre kk f (m_mem (n_state i)) (n_mt i)" "kept f s0 (n_state i)" "aligned_ll s0"
  shows "kept f s0 (n_state j)"
proof (cases "a0 = 0 \<or> a0 = 1")
  case True
  let ?ea = "a1 AND 0xFFFFFFFC"
  obtain mt m1 i3 mt2 m2 i4 secs nsecs where s:
    "TrackMemAccess kk (n_mt i) (m_mem (n_state i)) ?ea = Ok (mt, m1)"
    "set_and_update (i\<lparr>n_state := (n_state i)\<lparr>m_mem := m1\<rparr>, n_mt := mt\<rparr>) ?ea secs = Ok i3"
    "TrackMemAccess2 kk (n_mt i3) (m_mem (n_state i3)) (?ea + 4) = Ok (mt2, m2)"
    "set_and_update (i3\<lparr>n_state := (n_state i3)\<lparr>m_mem := m2\<rparr>, n_mt := mt2\<rparr>) (?ea + 4) nsecs = Ok i4"
    "j = finish_with i4 t 0 0"
    using assms(1) unfolding sys_clock_gettime_def Let_def if_P [OF True]
    by (elim bind_pairE bind_resE) auto
  have kk: "hash_size kk" using assms(2) by (simp add: pre_def)
  have p: "mem_coh kk m1" "mem_byte m1 = mem_byte (m_mem (n_state i))"
    using TrackMemAccess_pre(1) [OF assms(2) s(1)] assms(2) by (simp_all add: pre_def)
  have "kept f s0 (n_state (i\<lparr>n_state := (n_state i)\<lparr>m_mem := m1\<rparr>, n_mt := mt\<rparr>))"
    using p(2) by (auto intro: kept_same [OF assms(3)])
  note k = set_and_update_kept [OF s(2) kk _ this assms(4)]
  have k3: "kept f s0 (n_state i3)" "mem_coh kk (m_mem (n_state i3))" using k p(1) by simp_all
  obtain pr where pr: "MerkleProof kk (m_mem (n_state i3)) (?ea + 4) = Ok (m2, pr)"
    using s(3) by (auto simp: TrackMemAccess2_def guard_panic_Ok res_simps)
  have m2: "mem_coh kk m2" "mem_byte m2 = mem_byte (m_mem (n_state i3))"
    using MerkleProof_valid [OF kk k3(2), of "?ea + 4"] pr by auto
  have "kept f s0 (n_state (i3\<lparr>n_state := (n_state i3)\<lparr>m_mem := m2\<rparr>, n_mt := mt2\<rparr>))"
    using m2(2) by (auto intro: kept_same [OF k3(1)])
  from set_and_update_kept(1) [OF s(4) kk _ this assms(4)] m2(1) have "kept f s0 (n_state i4)" by simp
  then show ?thesis unfolding s(5) by (rule finish_kept)
next
  case False
  then have "j = finish_with i t SysErrorSignal MipsEINVAL"
    using assms(1) by (simp add: sys_clock_gettime_def Let_def)
  then show ?thesis using finish_kept [OF assms(3)] by simp
qed

lemma m_handleSyscall_kept:
  assumes run: "m_handleSyscall kk po i = Ok j" and pre: "pre kk f (m_mem (n_state i)) (n_mt i)"
    and k: "kept f s0 (n_state i)" and al: "aligned_ll s0"
  shows "kept f s0 (n_state j)"
proof -
  obtain t where t: "GetCurrentThread (n_state i) = Ok t"
    using run by (auto simp: m_handleSyscall_def Let_def elim: bind_resE)
  obtain n a0 a1 a2 a3 where args: "GetSyscallArgs (t_regs t) = (n, a0, a1, a2, a3)"
    by (metis prod_cases5)
  have p: "pre kk f (io_mem (n_io i)) (io_mt (n_io i))" using pre by (simp add: n_io_def)
  have f: "mem_byte (m_mem (n_state i)) = f" using pre by (simp add: pre_def)
  consider (rd) "n = 4003" | (wr) "n = 4004" | (clone) "n = 4120" | (futex) "n = 4238" | (clock) "n = 4263"
    | (yield) "n = 4162 \<or> n = 4166" | (exit) "n = 4001" | (exitgroup) "n = 4246" | (mmap) "n = 4090"
    | (other) "n \<notin> {4003, 4004, 4120, 4238, 4263, 4162, 4166, 4001, 4246, 4090}" by blast
  then show ?thesis
  proof cases
    case rd
    obtain io v0 v1 off upd addr where r:
      "HandleSysRead kk po a0 a1 a2 (m_preimageKey (n_state i)) (m_preimageOffset (n_state i)) (n_io i) =
         Ok (io, v0, v1, off, upd, addr)"
      "j = finish_with (if upd then upd_state (handleMemoryUpdate addr)
         (upd_state (\<lambda>s. s\<lparr>m_preimageOffset := off\<rparr>) (m_set_io io i))
         else upd_state (\<lambda>s. s\<lparr>m_preimageOffset := off\<rparr>) (m_set_io io i)) t v0 v1"
      using run rd args t by (auto simp: m_handleSyscall_def Let_def res_simps)
    define s' where "s' = (n_state i)\<lparr>m_mem := io_mem io, m_preimageOffset := off\<rparr>"
    have "kept f s0 (if upd then handleMemoryUpdate addr s' else s')"
      by (rule kept_touch [OF k])
        (use HandleSysRead_touch [OF r(1) p] al in \<open>simp_all add: s'_def f aligned_ll_def\<close>)
    then show ?thesis unfolding r(2) using finish_kept
      by (simp add: upd_state_def m_set_io_def s'_def split: if_splits)
  next
    case wr
    obtain io v0 v1 hint key off where r:
      "HandleSysWrite kk a0 a1 a2 (m_lastHint (n_state i)) (m_preimageKey (n_state i))
         (m_preimageOffset (n_state i)) (n_io i) = Ok (io, v0, v1, hint, key, off)"
      "j = finish_with (upd_state (\<lambda>s. s\<lparr>m_lastHint := hint, m_preimageKey := key,
            m_preimageOffset := off\<rparr>) (m_set_io io i)) t v0 v1"
      using run wr args t by (auto simp: m_handleSyscall_def Let_def res_simps)
    have "kept f s0 (n_state (upd_state (\<lambda>s. s\<lparr>m_lastHint := hint, m_preimageKey := key, m_preimageOffset := off\<rparr>) (m_set_io io i)))"
      by (rule kept_same [OF k]) (use HandleSysWrite_pre(1) [OF r(1) p] f in \<open>simp_all add: upd_state_def m_set_io_def pre_def\<close>)
    then show ?thesis unfolding r(2) by (rule finish_kept)
  next
    case clone
    then have "sys_clone i t a0 a1 = Ok j" using run args t by (simp add: m_handleSyscall_def Let_def)
    then show ?thesis by (rule sys_clone_kept [OF _ k])
  next
    case futex
    then have "sys_futex kk i t a0 a1 a2 a3 = Ok j" using run args t by (simp add: m_handleSyscall_def Let_def)
    then show ?thesis by (rule sys_futex_kept [OF _ pre k])
  next
    case clock
    then have "sys_clock_gettime kk i t a0 a1 = Ok j" using run args t by (simp add: m_handleSyscall_def Let_def)
    then show ?thesis by (rule sys_clock_gettime_kept [OF _ pre k al])
  next
    case yield
    then have "yield_thread i t = Ok j" using run args t by (auto simp: m_handleSyscall_def Let_def)
    then show ?thesis by (rule yield_kept [OF _ k])
  next
    case exit
    then have "j = i\<lparr>n_state := sys_exit (n_state i) t a0\<rparr>" using run args t by (simp add: m_handleSyscall_def Let_def)
    then show ?thesis using k by (auto simp: sys_exit_def Let_def intro: kept_same)
  next
    case exitgroup
    then have "j = i\<lparr>n_state := (n_state i)\<lparr>m_exited := True, m_exitCode := ucast a0\<rparr>\<rparr>"
      using run args t by (simp add: m_handleSyscall_def Let_def)
    then show ?thesis using k by (auto intro: kept_same)
  next
    case mmap
    then obtain v0 v1 h where j: "j = finish_with (i\<lparr>n_state := (n_state i)\<lparr>m_heap := h\<rparr>\<rparr>) t v0 v1"
      using run args t by (auto simp: m_handleSyscall_def Let_def split: prod.splits)
    have "kept f s0 (n_state (i\<lparr>n_state := (n_state i)\<lparr>m_heap := h\<rparr>\<rparr>))" using k by (auto intro: kept_same)
    then show ?thesis unfolding j by (rule finish_kept)
  next
    case other
    then show ?thesis using run args t finish_kept [OF k]
      by (auto simp: m_handleSyscall_def Let_def split: if_splits prod.splits)
  qed
qed

text \<open>A step in which the current thread executes a load-linked: it reserves the word of the effective
  address for itself, changes no memory, and finds the word in its destination register.\<close>

definition load_linked :: "inst2 \<Rightarrow> inst2 \<Rightarrow> bool" where
  "load_linked i j \<longleftrightarrow> (\<exists>t t' insn. GetCurrentThread (n_state i) = Ok t \<and> GetCurrentThread (n_state j) = Ok t' \<and>
     insn = mem_word (m_mem (n_state i)) (cpu_PC (t_cpu t)) \<and> insn_opcode insn = 0x30 \<and>
     m_llAddress (n_state j) = (get_reg (t_regs t) (shr insn 21 AND 0x1F) + SignExtendImmediate insn) AND 0xFFFFFFFC \<and>
     m_llOwner (n_state j) = t_id t \<and> mem_byte (m_mem (n_state j)) = mem_byte (m_mem (n_state i)) \<and>
     (shr insn 16 AND 0x1F = 0 \<or>
      get_reg (t_regs t') (shr insn 16 AND 0x1F) = mem_word (m_mem (n_state j)) (m_llAddress (n_state j))))"

lemma HandleRd_reg:
  "HandleRd cpu regs r v True = Ok (cpu', regs') \<Longrightarrow> r = 0 \<or> get_reg regs' r = v"
  by (cases "r = 0") (auto simp: HandleRd_def Let_def guard_panic_Ok get_reg_def set_reg_def)

lemma m_handleRMWOps_kept:
  assumes run: "m_handleRMWOps kk i insn oc = Ok j" and pre: "pre kk f (m_mem (n_state i)) (n_mt i)"
    and k: "kept f s0 (n_state i)" and al: "aligned_ll s0" and t: "GetCurrentThread (n_state i) = Ok t"
  shows "kept f s0 (n_state j) \<or>
    oc = 0x30 \<and> mem_byte (m_mem (n_state j)) = f \<and> m_llOwner (n_state j) = t_id t \<and>
    m_llAddress (n_state j) = (get_reg (t_regs t) (shr insn 21 AND 0x1F) + SignExtendImmediate insn) AND 0xFFFFFFFC \<and>
    (\<exists>t'. GetCurrentThread (n_state j) = Ok t' \<and>
      (shr insn 16 AND 0x1F = 0 \<or> get_reg (t_regs t') (shr insn 16 AND 0x1F) = word_at f (m_llAddress (n_state j))))"
proof -
  define ea where "ea = (get_reg (t_regs t) (shr insn 21 AND 0x1F) + SignExtendImmediate insn) AND 0xFFFFFFFC"
  define rt where "rt = shr insn 16 AND 0x1F"
  note run' = run [unfolded m_handleRMWOps_def t bind_res.simps Let_def, folded ea_def rt_def]
  obtain i1 mem where l: "tracked_load kk i ea = Ok (i1, mem)"
    using run' by (auto elim: bind_pairE)
  note r = tracked_load_kept [OF l pre k]
  have ne: "getActiveThreadStack (n_state i1) \<noteq> []"
    using t by (subst r(4)) (simp add: GetCurrentThread_Ok)
  obtain s2 v cpu regs where s: "(if oc = 0x30 then
             Ok ((n_state i1)\<lparr>m_llActive := True, m_llAddress := ea, m_llOwner := t_id t\<rparr>, mem)
           else if oc = 0x38 then
             (if m_llActive (n_state i1) \<and> m_llOwner (n_state i1) = t_id t \<and> m_llAddress (n_state i1) = ea then
                bind_res (SetMemory (m_mem (clearLLMemoryReservation (n_state i1))) ea (get_reg (t_regs t) rt))
                  (\<lambda>m. Ok ((clearLLMemoryReservation (n_state i1))\<lparr>m_mem := m\<rparr>, 1))
              else Ok (n_state i1, 0))
           else Panic ''Invalid instruction passed to handleRMWOps'') = Ok (s2, v)"
    "HandleRd (t_cpu t) (t_regs t) rt v True = Ok (cpu, regs)"
    "j = i1\<lparr>n_state := put_thread (t\<lparr>t_cpu := cpu, t_regs := regs\<rparr>) s2\<rparr>"
    using run' l unfolding bind_res.simps by (auto elim!: bind_pairE)
  show ?thesis
  proof (cases "oc = 0x30")
    case True
    then have s2: "s2 = (n_state i1)\<lparr>m_llActive := True, m_llAddress := ea, m_llOwner := t_id t\<rparr>" "v = mem"
      using s(1) by simp_all
    have "mem_byte (m_mem (n_state i1)) = f" using r(2) by (simp add: pre_def)
    moreover have "GetCurrentThread (n_state j) = Ok (t\<lparr>t_cpu := cpu, t_regs := regs\<rparr>)"
      by (simp add: s(3) GetCurrentThread_Ok)
    moreover have "rt = 0 \<or> get_reg regs rt = word_at f ea" using HandleRd_reg [OF s(2)] s2(2) r(3) by simp
    ultimately show ?thesis using True s2(1) s(3) unfolding ea_def [symmetric] rt_def [symmetric] by simp
  next
    case False
    have "kept f s0 s2"
    proof (cases "oc = 0x38 \<and> m_llActive (n_state i1) \<and> m_llOwner (n_state i1) = t_id t \<and> m_llAddress (n_state i1) = ea")
      case True
      then have "\<not> m_llActive s2" using s(1) by (auto simp: res_simps clearLLMemoryReservation_def)
      then show ?thesis by (simp add: kept_def)
    next
      case False2: False
      then have "s2 = n_state i1" using s(1) False by (auto split: if_splits)
      then show ?thesis using r(1) by simp
    qed
    then show ?thesis using kept_put by (simp add: s(3))
  qed
qed

lemma GetCurrentThread_fields [simp]:
  "GetCurrentThread (s\<lparr>m_mem := m\<rparr>) = GetCurrentThread s" "GetCurrentThread (s\<lparr>m_step := n\<rparr>) = GetCurrentThread s"
  "GetCurrentThread (s\<lparr>m_sinceSwitch := n\<rparr>) = GetCurrentThread s"
  by (simp_all add: GetCurrentThread_def)

lemma insn_step_kept:
  assumes run: "insn_step kk po lookup i t = Ok j" and pre: "pre kk f (m_mem (n_state i)) (n_mt i)"
    and k: "kept f s0 (n_state i)" and al: "aligned_ll s0" and t: "GetCurrentThread (n_state i) = Ok t"
  shows "kept f s0 (n_state j) \<or> load_linked i j \<and> mem_byte (m_mem (n_state j)) = f"
proof -
  have f: "mem_byte (m_mem (n_state i)) = f" using pre by (simp add: pre_def)
  obtain m insn where g: "GetMemory (m_mem (n_state i)) (cpu_PC (t_cpu t)) = Ok (m, insn)"
    using run by (auto simp: insn_step_def GetInstructionDetails_def res_simps)
  have insn: "insn = mem_word (m_mem (n_state i)) (cpu_PC (t_cpu t))"
    using GetMemory_pre(2) [OF pre g] by (simp add: mem_word_def f)
  define i1 where "i1 = i\<lparr>n_state := (n_state i)\<lparr>m_mem := m\<rparr>\<rparr>"
  have gd: "GetInstructionDetails (cpu_PC (t_cpu t)) (m_mem (n_state i)) = Ok (m, insn, insn_opcode insn, insn_fun insn)"
    by (simp add: GetInstructionDetails_def g)
  have p1: "pre kk f (m_mem (n_state i1)) (n_mt i1)" using GetMemory_pre(1) [OF pre g] by (simp add: i1_def)
  have k1: "kept f s0 (n_state i1)" by (rule kept_same [OF k]) (use p1 f in \<open>simp_all add: i1_def pre_def\<close>)
  have t1: "GetCurrentThread (n_state i1) = Ok t" using t by (simp add: i1_def)
  note run' = run [unfolded insn_step_def gd bind_res.simps prod.case Let_def i1_def [symmetric]]
  consider (sys) "insn_opcode insn = 0 \<and> insn_fun insn = 0xC"
    | (rmw) "\<not> (insn_opcode insn = 0 \<and> insn_fun insn = 0xC)" "insn_opcode insn = 0x30 \<or> insn_opcode insn = 0x38"
    | (core) "\<not> (insn_opcode insn = 0 \<and> insn_fun insn = 0xC)" "\<not> (insn_opcode insn = 0x30 \<or> insn_opcode insn = 0x38)"
    by blast
  then show ?thesis
  proof cases
    case sys
    then show ?thesis using run' m_handleSyscall_kept [OF _ p1 k1 al] by simp
  next
    case rmw
    then have r: "m_handleRMWOps kk i1 insn (insn_opcode insn) = Ok j" using run' by auto
    from m_handleRMWOps_kept [OF r p1 k1 al t1] show ?thesis
      using t f insn by (auto simp: load_linked_def word_at_mem [symmetric])
  next
    case core
    obtain c upd addr where c: "ExecMipsCoreStepLogic kk lookup (core2 i1 t) insn (insn_opcode insn) (insn_fun insn) = Ok (c, upd, addr)"
      "j = (if upd then upd_state (handleMemoryUpdate addr) (set_core2 c t i1) else set_core2 c t i1)"
      using run' unfolding if_not_P [OF core(1)] if_not_P [OF core(2)] by (elim bind_tripleE) auto
    have "core_pre kk f (core2 i1 t)" using p1 by (simp add: core_pre_def core2_def)
    note tc = core_touch [OF c(1) this]
    have f1: "mem_byte (m_mem (n_state i1)) = f" using p1 by (simp add: pre_def)
    have "kept f s0 (if upd then handleMemoryUpdate addr (n_state (set_core2 c t i1)) else n_state (set_core2 c t i1))"
      by (rule kept_touch [OF k1]) (use tc al f1 in \<open>simp_all add: set_core2_def aligned_ll_def\<close>)
    then show ?thesis unfolding c(2) by (simp add: upd_state_def split: if_splits)
  qed
qed

lemma m_mipsStep_kept:
  assumes run: "m_mipsStep kk po lookup i = Ok j" and pre: "pre kk f (m_mem (n_state i)) (n_mt i)"
    and al: "aligned_ll (n_state i)"
  shows "kept f (n_state i) (n_state j) \<or> load_linked i j \<and> mem_byte (m_mem (n_state j)) = f"
proof -
  have f: "mem_byte (m_mem (n_state i)) = f" using pre by (simp add: pre_def)
  have k0: "kept f (n_state i) (n_state i)" by (simp add: kept_def f)
  show ?thesis
  proof (cases "m_exited (n_state i)")
    case True
    then show ?thesis using run k0 by (simp add: m_mipsStep_def)
  next
    case False
    define i1 where "i1 = upd_state (\<lambda>s. s\<lparr>m_step := m_step s + 1\<rparr>) i"
    let ?s = "n_state i1"
    obtain t where t: "GetCurrentThread ?s = Ok t"
      using run False by (auto simp: m_mipsStep_def Let_def i1_def elim: bind_resE)
    note run' = run [unfolded m_mipsStep_def if_not_P [OF False] Let_def, folded i1_def, unfolded t bind_res.simps]
    have k1: "kept f (n_state i) ?s" by (auto simp: i1_def upd_state_def intro: kept_same [OF k0])
    have p1: "pre kk f (m_mem ?s) (n_mt i1)" using pre by (simp add: i1_def upd_state_def)
    have f1: "mem_byte (m_mem ?s) = f" using p1 by (simp add: pre_def)
    consider (wake) "m_wakeup ?s \<noteq> FutexEmptyAddr" | (dead) "m_wakeup ?s = FutexEmptyAddr" "t_exited t"
      | (blocked) "m_wakeup ?s = FutexEmptyAddr" "\<not> t_exited t" "t_futexAddr t \<noteq> FutexEmptyAddr"
      | (quantum) "m_wakeup ?s = FutexEmptyAddr" "\<not> t_exited t" "t_futexAddr t = FutexEmptyAddr" "m_sinceSwitch ?s \<ge> SchedQuantum"
      | (insn) "m_wakeup ?s = FutexEmptyAddr" "\<not> t_exited t" "t_futexAddr t = FutexEmptyAddr" "\<not> m_sinceSwitch ?s \<ge> SchedQuantum"
      by blast
    then show ?thesis
    proof cases
      case wake
      obtain s1 where w: "wakeup_step ?s t = Ok s1" "j = i1\<lparr>n_state := s1\<rparr>"
        using run' wake by (auto elim: bind_resE)
      have "kept f (n_state i) s1"
      proof (cases "m_wakeup ?s = t_futexAddr t")
        case True
        then show ?thesis using w(1) by (auto simp: wakeup_step_def intro: kept_same [OF k1])
      next
        case False
        then obtain s2 ch where s2: "preemptThread ?s = Ok (s2, ch)" "s1 = s2 \<or> s1 = s2\<lparr>m_wakeup := FutexEmptyAddr\<rparr>"
          using w(1) unfolding wakeup_step_def if_not_P [OF False] Let_def by (auto elim!: bind_pairE)
        then show ?thesis using kept_same [OF preempt_kept [OF s2(1) k1], of s1] by auto
      qed
      then show ?thesis using w(2) by simp
    next
      case dead
      then obtain s1 where s1: "popThread ?s = Ok s1" "n_state j = s1" using run' by (auto elim!: bind_resE)
      have "kept f (n_state i) s1"
        by (rule kept_same [OF k1]) (use s1(1) in \<open>auto simp: popThread_def Let_def set_active_def guard_panic_Ok split: if_splits\<close>)
      then show ?thesis using s1(2) by simp
    next
      case blocked
      then have b: "blocked_step kk i1 t = Ok j" using run' by simp
      have w: "kept f (n_state i) (onWaitComplete s t e)" if "kept f (n_state i) s" for s e
        using that by (auto simp: onWaitComplete_def Let_def intro: kept_same)
      show ?thesis
      proof (cases "m_step ?s > t_futexTimeoutStep t")
        case True
        then show ?thesis using b w [OF k1, of True] by (auto simp: blocked_step_def upd_state_def)
      next
        case False
        obtain i2 mem where l: "tracked_load kk i1 (t_futexAddr t AND 0xFFFFFFFC) = Ok (i2, mem)"
          using b unfolding blocked_step_def if_not_P [OF False] by (auto elim: bind_pairE)
        note k2 = tracked_load_kept(1) [OF l p1 k1]
        show ?thesis
        proof (cases "t_futexVal t = mem")
          case True
          then obtain s ch where "preemptThread (n_state i2) = Ok (s, ch)" "j = i2\<lparr>n_state := s\<rparr>"
            using b l unfolding blocked_step_def if_not_P [OF False] by (auto elim!: bind_pairE)
          then show ?thesis using preempt_kept [OF _ k2] by simp
        next
          case False2: False
          then show ?thesis using b l False w [OF k2, of False] by (auto simp: blocked_step_def upd_state_def)
        qed
      qed
    next
      case quantum
      then obtain s1 ch where "preemptThread ?s = Ok (s1, ch)" "j = i1\<lparr>n_state := s1\<rparr>"
        using run' by (auto elim: bind_pairE)
      then show ?thesis using preempt_kept [OF _ k1] by simp
    next
      case insn
      define i2 where "i2 = upd_state (\<lambda>s. s\<lparr>m_sinceSwitch := m_sinceSwitch s + 1\<rparr>) i1"
      have st: "insn_step kk po lookup i2 t = Ok j" using run' insn by (simp add: i2_def)
      have k2: "kept f (n_state i) (n_state i2)" by (auto simp: i2_def upd_state_def intro: kept_same [OF k1])
      have "pre kk f (m_mem (n_state i2)) (n_mt i2)" "GetCurrentThread (n_state i2) = Ok t"
        using p1 t by (simp_all add: i2_def upd_state_def)
      from insn_step_kept [OF st this(1) k2 al this(2)] show ?thesis
        by (simp add: load_linked_def i2_def i1_def upd_state_def)
    qed
  qed
qed

section \<open>Reservations through an execution\<close>

lemma m_Step_split:
  assumes inv: "m_inv kk po i" and run: "m_Step kk po lookup b i = Ok (j, w)"
  shows "\<exists>i2. m_mipsStep kk po lookup i2 = Ok j \<and> m_start kk po (mem_byte (m_mem (n_state i))) i2 \<and>
    n_state i2 = (n_state i)\<lparr>m_mem := m_mem (n_state i2)\<rparr>"
proof -
  define i1 where "i1 = i\<lparr>n_pr := preimage_Reset (n_pr i), n_mt := tracker_Reset b (n_mt i)\<rparr>"
  have kk: "hash_size kk" and coh: "mem_coh kk (m_mem (n_state i))" and key: "length (m_preimageKey (n_state i)) = 32"
    and so: "sched_ok (n_state i)" and rd: "reader_ok po (n_pr i)"
    using inv by (simp_all add: m_inv_def)
  have start: "m_start kk po (mem_byte (m_mem (n_state i))) (i1\<lparr>n_state := (n_state i)\<lparr>m_mem := m\<rparr>\<rparr>)"
    if "mem_coh kk m" "mem_byte m = mem_byte (m_mem (n_state i))" for m
    using that kk key so rd by (simp add: m_start_def pre_def track_inv_def i1_def tracker_Reset_def
        reader_ok_def preimage_Reset_def sched_ok_def)
  show ?thesis
  proof (cases b)
    case False
    then have "m_mipsStep kk po lookup i1 = Ok j"
      using run unfolding m_Step_def Let_def i1_def [symmetric] by (auto simp: res_simps)
    then show ?thesis using start [OF coh] by (intro exI [of _ i1]) (simp add: i1_def)
  next
    case True
    have si1: "n_state i1 = n_state i" by (simp add: i1_def)
    obtain tp pc m p where s: "EncodeThreadProof kk (n_state i) = Ok tp" "m_GetPC (n_state i) = Ok pc"
      "MerkleProof kk (m_mem (n_state i)) pc = Ok (m, p)"
      using run True unfolding m_Step_def Let_def i1_def [symmetric] si1 by (auto simp: res_simps)
    have m: "mem_coh kk m" "mem_byte m = mem_byte (m_mem (n_state i))"
      using MerkleProof_valid [OF kk coh, of pc] s(3) by auto
    obtain m' e h where m': "m_EncodeWitness kk ((n_state i)\<lparr>m_mem := m\<rparr>) = Ok ((n_state i)\<lparr>m_mem := m'\<rparr>, e, h)"
      "mem_coh kk m'" "mem_byte m' = mem_byte (m_mem (n_state i))"
      using m_EncodeWitness_ok [OF kk, of "(n_state i)\<lparr>m_mem := m\<rparr>"] m key by auto
    have "m_mipsStep kk po lookup (i1\<lparr>n_state := (n_state i)\<lparr>m_mem := m'\<rparr>\<rparr>) = Ok j"
      using run True unfolding m_Step_def Let_def i1_def [symmetric] si1 if_True s bind_res.simps prod.case m'(1)
      by (auto simp: res_simps)
    then show ?thesis using start [OF m'(2,3)] by (intro exI [of _ "i1\<lparr>n_state := (n_state i)\<lparr>m_mem := m'\<rparr>\<rparr>"]) simp
  qed
qed

lemma m_Step_kept:
  assumes inv: "m_inv kk po i" and al: "aligned_ll (n_state i)" and run: "m_Step kk po lookup b i = Ok (j, w)"
  shows "m_inv kk po j" "kept (mem_byte (m_mem (n_state i))) (n_state i) (n_state j) \<or> load_linked i j"
    "aligned_ll (n_state j)"
proof -
  obtain i2 where i2: "m_mipsStep kk po lookup i2 = Ok j" "m_start kk po (mem_byte (m_mem (n_state i))) i2"
    "n_state i2 = (n_state i)\<lparr>m_mem := m_mem (n_state i2)\<rparr>"
    using m_Step_split [OF inv run] by blast
  have f: "mem_byte (m_mem (n_state i2)) = mem_byte (m_mem (n_state i))" using i2(2) by (simp add: m_start_def pre_def)
  have ll: "m_llActive (n_state i2) = m_llActive (n_state i)" "m_llAddress (n_state i2) = m_llAddress (n_state i)"
    "m_llOwner (n_state i2) = m_llOwner (n_state i)" "GetCurrentThread (n_state i2) = GetCurrentThread (n_state i)"
    by (subst i2(3), simp)+
  show "m_inv kk po j"
    using m_mipsStep_post [OF i2(1,2)] i2(2)
    by (cases "m_exited (n_state i2)") (simp_all add: m_post_def m_start_def pre_def m_inv_def)
  have "aligned_ll (n_state i2)" using al ll by (simp add: aligned_ll_def)
  then have "kept (mem_byte (m_mem (n_state i))) (n_state i2) (n_state j) \<or> load_linked i2 j"
    using m_mipsStep_kept [OF i2(1)] i2(2) by (auto simp: m_start_def)
  then show k: "kept (mem_byte (m_mem (n_state i))) (n_state i) (n_state j) \<or> load_linked i j"
    by (auto simp: kept_def ll load_linked_def f word_at_mem [symmetric])
  have "m_llAddress (n_state j) AND 3 = 0" if "load_linked i j"
    using that by (auto simp: load_linked_def and.assoc)
  then show "aligned_ll (n_state j)" using k al by (auto simp: aligned_ll_def kept_def)
qed

text \<open>An execution: one \<open>Step\<close> after the other, each with or without a proof.\<close>

fun m_exec :: "(bytes \<Rightarrow> hash) \<Rightarrow> (bytes \<Rightarrow> bytes) \<Rightarrow> (u32 \<Rightarrow> string) \<Rightarrow> bool list \<Rightarrow> inst2 \<Rightarrow> inst2 res" where
  "m_exec kk po lookup [] i = Ok i"
| "m_exec kk po lookup (b # bs) i = bind_res (m_Step kk po lookup b i) (\<lambda>(i', w). m_exec kk po lookup bs i')"

lemma m_exec_append:
  "m_exec kk po lookup (xs @ ys) i = bind_res (m_exec kk po lookup xs i) (m_exec kk po lookup ys)"
  by (induction xs arbitrary: i) (simp_all add: bind_res_assoc case_prod_unfold)

lemma m_exec_inv:
  "m_exec kk po lookup bs i = Ok j \<Longrightarrow> m_inv kk po i \<Longrightarrow> aligned_ll (n_state i) \<Longrightarrow> m_inv kk po j \<and> aligned_ll (n_state j)"
proof (induction bs arbitrary: i)
  case (Cons b bs)
  then obtain i' w where s: "m_Step kk po lookup b i = Ok (i', w)" "m_exec kk po lookup bs i' = Ok j"
    by (auto simp: res_simps)
  show ?case using Cons.IH [OF s(2)] m_Step_kept [OF Cons.prems(2,3) s(1)] by blast
qed simp

text \<open>C28: Store-conditional is atomic with its load-linked: if a run of steps from a well-formed state
  without reservation ends with one, some step of the run was a load-linked by the owning thread of
  the reserved address, and the word it read is still the word at that address - whatever the
  threads, the scheduler and the system calls did in between. (The store-conditional writes only
  while the reservation lasts.)\<close>

theorem sc_atomic:
  assumes "m_inv kk po i" "\<not> m_llActive (n_state i)" "m_exec kk po lookup bs i = Ok j" "m_llActive (n_state j)"
  shows "\<exists>k x y. k < length bs \<and> m_exec kk po lookup (take k bs) i = Ok x \<and> m_Step kk po lookup (bs ! k) x = Ok y \<and>
    load_linked x (fst y) \<and> m_llOwner (n_state (fst y)) = m_llOwner (n_state j) \<and>
    m_llAddress (n_state (fst y)) = m_llAddress (n_state j) \<and>
    mem_word (m_mem (n_state (fst y))) (m_llAddress (n_state j)) = mem_word (m_mem (n_state j)) (m_llAddress (n_state j))"
  using assms(3,4)
proof (induction bs arbitrary: j rule: rev_induct)
  case Nil
  then show ?case using assms(2) by simp
next
  case (snoc b bs)
  obtain x w where x: "m_exec kk po lookup bs i = Ok x" "m_Step kk po lookup b x = Ok (j, w)"
    using snoc.prems(1) by (auto simp: m_exec_append res_simps)
  have "aligned_ll (n_state i)" using assms(2) by (simp add: aligned_ll_def)
  then have ix: "m_inv kk po x" "aligned_ll (n_state x)" using m_exec_inv [OF x(1) assms(1)] by auto
  from m_Step_kept(2) [OF ix x(2)] show ?case
  proof
    assume "load_linked x j"
    then show ?thesis using x by (intro exI [of _ "length bs"] exI [of _ x] exI [of _ "(j, w)"]) simp
  next
    assume k: "kept (mem_byte (m_mem (n_state x))) (n_state x) (n_state j)"
    then have e: "m_llActive (n_state x)" "m_llAddress (n_state j) = m_llAddress (n_state x)"
      "m_llOwner (n_state j) = m_llOwner (n_state x)"
      "mem_word (m_mem (n_state j)) (m_llAddress (n_state j)) = mem_word (m_mem (n_state x)) (m_llAddress (n_state x))"
      using snoc.prems(2) by (auto simp: kept_def word_at_mem)
    obtain k y z where *: "k < length bs" "m_exec kk po lookup (take k bs) i = Ok y" "m_Step kk po lookup (bs ! k) y = Ok z"
      "load_linked y (fst z)" "m_llOwner (n_state (fst z)) = m_llOwner (n_state x)"
      "m_llAddress (n_state (fst z)) = m_llAddress (n_state x)"
      "mem_word (m_mem (n_state (fst z))) (m_llAddress (n_state x)) = mem_word (m_mem (n_state x)) (m_llAddress (n_state x))"
      using snoc.IH [OF x(1) e(1)] by blast
    show ?thesis by (intro exI [of _ k] exI [of _ y] exI [of _ z]) (use * e in \<open>simp add: nth_append\<close>)
  qed
qed

text \<open>A load-linked from address 64 of an otherwise empty memory.\<close>

lemma m_mipsStep_insn:
  assumes "GetCurrentThread (n_state i) = Ok t" "\<not> m_exited (n_state i)" "m_wakeup (n_state i) = FutexEmptyAddr"
    "\<not> t_exited t" "t_futexAddr t = FutexEmptyAddr" "\<not> m_sinceSwitch (n_state i) \<ge> SchedQuantum"
  shows "m_mipsStep kk po lookup i = insn_step kk po lookup
    (i\<lparr>n_state := (n_state i)\<lparr>m_step := m_step (n_state i) + 1, m_sinceSwitch := m_sinceSwitch (n_state i) + 1\<rparr>\<rparr>) t"
  using assms by (simp add: m_mipsStep_def Let_def upd_state_def)

lemma ll_insn_step:
  assumes "mem_coh kk (m_mem (n_state i))" "mem_word (m_mem (n_state i)) (cpu_PC (t_cpu t)) = 0xC0010040"
    "cpu_PC (t_cpu t) AND 3 = 0" "get_reg (t_regs t) 0 = 0" "\<not> mt_enabled (n_mt i)" "GetCurrentThread (n_state i) = Ok t"
  shows "\<exists>j. insn_step kk po lookup i t = Ok j \<and> m_llActive (n_state j)"
proof -
  obtain m where m: "GetMemory (m_mem (n_state i)) (cpu_PC (t_cpu t)) = Ok (m, 0xC0010040)" "mem_coh kk m"
    using GetMemory_coh [OF assms(1,3)] assms(2) by auto
  define i2 where "i2 = i\<lparr>n_state := (n_state i)\<lparr>m_mem := m\<rparr>\<rparr>"
  have d: "insn_opcode 0xC0010040 = 0x30" "shr (0xC0010040 :: u32) 21 AND 0x1F = 0" "shr (0xC0010040 :: u32) 16 AND 0x1F = 1"
    "SignExtendImmediate 0xC0010040 = 0x40" by code_simp+
  obtain m2 v where m2: "GetMemory m 0x40 = Ok (m2, v)" using GetMemory_coh [OF m(2), of "0x40"] by auto
  have "GetCurrentThread (n_state i2) = Ok t" using assms(6) by (simp add: i2_def)
  then have "\<exists>j. m_handleRMWOps kk i2 0xC0010040 0x30 = Ok j \<and> m_llActive (n_state j)"
    using m2 assms(4,5)
    by (simp add: m_handleRMWOps_def d tracked_load_def TrackMemAccess_def i2_def HandleRd_def guard_panic_def Let_def)
  then show ?thesis by (simp add: insn_step_def GetInstructionDetails_def m(1) d i2_def)
qed

theorem sc_atomic_witness:
  "\<exists>m j x y. SetMemory NewMemory 0 0xC0010040 = Ok m \<and>
    m_exec (\<lambda>_. replicate 32 7) (\<lambda>_. []) (\<lambda>_. []) [False] (m_NewInstrumentedState (m_CreateEmptyState\<lparr>m_mem := m\<rparr>)) = Ok j \<and>
    m_Step (\<lambda>_. replicate 32 7) (\<lambda>_. []) (\<lambda>_. []) False x = Ok y \<and> load_linked x (fst y) \<and>
    mem_word (m_mem (n_state (fst y))) (m_llAddress (n_state j)) = mem_word (m_mem (n_state j)) (m_llAddress (n_state j))"
proof -
  let ?kk = "\<lambda>_ :: bytes. replicate 32 (7 :: byte)"
  have p: "post ?kk (\<lambda>_. 0) NewMemory NewMemoryTracker"
    by (simp add: post_def hash_size_def track_inv_def NewMemoryTracker_def)
  obtain m where m: "SetMemory NewMemory 0 0xC0010040 = Ok m" using SetMemory_ok [of NewMemory 0 "0xC0010040"] by auto
  note post = SetMemory_post [OF p m]
  let ?i = "m_NewInstrumentedState (m_CreateEmptyState\<lparr>m_mem := m\<rparr>)"
  have inv: "m_inv ?kk (\<lambda>_. []) ?i"
    using post(1) by (simp add: m_inv_def hash_size_def m_NewInstrumentedState_def m_CreateEmptyState_def sched_ok_def post_def
        reader_ok_def NewTrackingPreimageOracleReader_def getActiveThreadStack_def inactive_stack_def CreateEmptyThread_def)
  have w: "mem_word m 0 = 0xC0010040"
  proof -
    have "un32 [be32 v ! 0, be32 v ! 1, be32 v ! 2, be32 v ! 3] = v" for v :: u32 by (metis un32_be32 be32_list)
    then show ?thesis by (simp add: mem_word_def post(2))
  qed
  let ?i1 = "?i\<lparr>n_pr := preimage_Reset (n_pr ?i), n_mt := tracker_Reset False (n_mt ?i)\<rparr>"
  have t: "GetCurrentThread (n_state ?i1) = Ok CreateEmptyThread" and s: "\<not> m_exited (n_state ?i1)"
    "m_wakeup (n_state ?i1) = FutexEmptyAddr" "\<not> m_sinceSwitch (n_state ?i1) \<ge> SchedQuantum"
    "\<not> t_exited CreateEmptyThread" "t_futexAddr CreateEmptyThread = FutexEmptyAddr"
    "cpu_PC (t_cpu CreateEmptyThread) = 0" "get_reg (t_regs CreateEmptyThread) 0 = 0"
    by (simp_all add: m_NewInstrumentedState_def m_CreateEmptyState_def GetCurrentThread_Ok getActiveThreadStack_def
        CreateEmptyThread_def SchedQuantum_def get_reg_def)
  obtain j where j: "m_mipsStep ?kk (\<lambda>_. []) (\<lambda>_. []) ?i1 = Ok j" "m_llActive (n_state j)"
    using ll_insn_step [of ?kk "?i1\<lparr>n_state := (n_state ?i1)\<lparr>m_step := m_step (n_state ?i1) + 1,
      m_sinceSwitch := m_sinceSwitch (n_state ?i1) + 1\<rparr>\<rparr>" CreateEmptyThread "\<lambda>_. []" "\<lambda>_. []"]
      m_mipsStep_insn [OF t s(1,2,4,5,3)] post(1) w t s
    by (auto simp: m_NewInstrumentedState_def post_def tracker_Reset_def)
  then have run: "m_exec ?kk (\<lambda>_. []) (\<lambda>_. []) [False] ?i = Ok j" by (simp add: m_Step_def)
  have "\<not> m_llActive (n_state ?i)" by (simp add: m_NewInstrumentedState_def m_CreateEmptyState_def)
  from sc_atomic [OF inv this run j(2)] show ?thesis using m run by force
qed

end
