(* ===== verification/DeriveFrame.thy ===== *)
theory DeriveFrame
  imports BinCodec
begin

unbundle bit_operations_syntax

text \<open>
  Frames, after \<open>op-node/rollup/derive/frame.go\<close> and \<open>params.go\<close>: the unit in which batch data
  travels in L1 transactions, its binary form, and the parser of a transaction's data. Wrapped
  errors keep their texts; the index that \<open>ParseFrames\<close> puts into its message is left out.
\<close>

section \<open>Frames\<close>

type_synonym u16 = "16 word"

definition MaxFrameLen :: nat where "MaxFrameLen = 1000000"
definition frameOverhead :: u64 where "frameOverhead = 200"
definition DerivationVersion0 :: byte where "DerivationVersion0 = 0"
definition DerivationVersion1 :: byte where "DerivationVersion1 = 1"
definition ChannelIDLength :: nat where "ChannelIDLength = 16"

record frame =
  f_ID :: bytes
  f_FrameNumber :: u16
  f_Data :: bytes
  f_IsLast :: bool

definition zero_frame :: frame where
  "zero_frame = \<lparr>f_ID = replicate ChannelIDLength 0, f_FrameNumber = 0, f_Data = [], f_IsLast = False\<rparr>"

definition frameSize :: "frame \<Rightarrow> u64" where
  "frameSize f = of_nat (length (f_Data f)) + frameOverhead"

definition be16 :: "u16 \<Rightarrow> bytes" where "be16 w = be_encode 2 (unat w)"
definition un16 :: "bytes \<Rightarrow> u16" where "un16 bs = of_nat (be_decode bs)"

definition read_uint16 :: "u16 parser" where
  "read_uint16 = map_parser un16 (read_full 2)"

definition MarshalBinary :: "frame \<Rightarrow> bytes" where
  "MarshalBinary f = f_ID f @ be16 (f_FrameNumber f) @ be32 (of_nat (length (f_Data f))) @ f_Data f @
     (if f_IsLast f then [1] else [0])"

definition eofAsUnexpectedMissing :: "string \<Rightarrow> string" where
  "eofAsUnexpectedMissing e = (if e = ''EOF'' then ''fully missing: unexpected EOF'' else e)"

definition UnmarshalBinary :: "frame parser" where
  "UnmarshalBinary bs =
     bind_res (wrap_err (\<lambda>e. ''reading channel_id: '' @ e) (read_full ChannelIDLength bs)) (\<lambda>(cid, bs).
     bind_res (wrap_err (\<lambda>e. ''reading frame_number: '' @ eofAsUnexpectedMissing e) (read_uint16 bs)) (\<lambda>(number, bs).
     bind_res (wrap_err (\<lambda>e. ''reading frame_data_length: '' @ eofAsUnexpectedMissing e) (read_uint32 bs))
       (\<lambda>(frameLength, bs).
     guard_err (unat frameLength \<le> MaxFrameLen) ''frame_data_length is too large''
    (bind_res (wrap_err (\<lambda>e. ''reading frame_data: '' @ eofAsUnexpectedMissing e) (read_full (unat frameLength) bs))
       (\<lambda>(dat, bs).
     bind_res (wrap_err (\<lambda>e. ''reading final byte (is_last): '' @ eofAsUnexpectedMissing e) (read_uint8 bs))
       (\<lambda>(isLastByte, bs).
     guard_err (isLastByte = 0 \<or> isLastByte = 1) ''invalid byte as is_last''
       (Ok (\<lparr>f_ID = cid, f_FrameNumber = number, f_Data = dat, f_IsLast = (isLastByte = 1)\<rparr>, bs))))))))"

section \<open>A frame in front of other bytes\<close>

lemma unat_u16: "unat (w :: u16) < 65536"
  using unsigned_less [of w, where 'a = nat] by simp

lemma length_be16 [simp]: "length (be16 w) = 2" by (simp add: be16_def)

lemma un16_be16 [simp]: "un16 (be16 w) = w"
proof -
  have "unat w mod 256 ^ 2 = unat w" using unat_u16 [of w] by simp
  then show ?thesis unfolding un16_def be16_def be_decode_encode by simp
qed

lemma be16_un16: "length bs = 2 \<Longrightarrow> be16 (un16 bs) = bs"
proof -
  assume l: "length bs = 2"
  have "be_decode bs < 2 ^ 16" using be_decode_bound [of bs] l by simp
  then have "unat (un16 bs) = be_decode bs" by (simp add: un16_def unat_of_nat)
  then show ?thesis using be_encode_decode [of bs] l by (simp add: be16_def del: be_encode_numeral)
qed

interpretation uint16: codec be16 read_uint16 "\<lambda>_. True"
  by unfold_locales (simp add: read_uint16_def map_parser_def read_full_append)

definition frame_ok :: "frame \<Rightarrow> bool" where
  "frame_ok f \<longleftrightarrow> length (f_ID f) = ChannelIDLength \<and> length (f_Data f) \<le> MaxFrameLen"

lemma data_length: "length d \<le> MaxFrameLen \<Longrightarrow> unat (of_nat (length d) :: u32) = length d"
  by (simp add: MaxFrameLen_def unat_of_nat)

lemma read_full_Ok: "read_full n bs = Ok (x, rest) \<longleftrightarrow> length x = n \<and> bs = x @ rest"
proof
  assume "read_full n bs = Ok (x, rest)"
  then show "length x = n \<and> bs = x @ rest" by (auto simp: read_full_def split: if_splits)
next
  assume "length x = n \<and> bs = x @ rest"
  then show "read_full n bs = Ok (x, rest)" by (auto simp: read_full_append)
qed

lemma read_uint16_Ok: "read_uint16 bs = Ok (w, rest) \<longleftrightarrow> bs = be16 w @ rest"
  by (auto simp: read_uint16_def map_parser_def res_simps read_full_Ok be16_un16)

lemma read_uint32_Ok: "read_uint32 bs = Ok (w, rest) \<longleftrightarrow> bs = be32 w @ rest"
  by (auto simp: read_uint32_def map_parser_def res_simps read_full_Ok be32_un32)

lemma read_uint8_Ok: "read_uint8 bs = Ok (b, rest) \<longleftrightarrow> bs = b # rest"
  by (cases bs) (auto simp: read_uint8_def map_parser_def res_simps read_full_Ok length_Suc_conv)

lemma UnmarshalBinary_Ok:
  "UnmarshalBinary bs = Ok (f, rest) \<longleftrightarrow> frame_ok f \<and> bs = MarshalBinary f @ rest"
proof
  assume "UnmarshalBinary bs = Ok (f, rest)"
  then obtain cid bs1 number bs2 len bs3 dat bs4 b where s:
    "bs = cid @ bs1" "length cid = ChannelIDLength" "bs1 = be16 number @ bs2" "bs2 = be32 len @ bs3"
    "unat len \<le> MaxFrameLen" "bs3 = dat @ bs4" "length dat = unat len" "bs4 = b # rest" "b = 0 \<or> b = 1"
    "f = \<lparr>f_ID = cid, f_FrameNumber = number, f_Data = dat, f_IsLast = (b = 1)\<rparr>"
    unfolding UnmarshalBinary_def
    by (elim bind_pairE) (auto simp: res_simps read_full_Ok read_uint16_Ok read_uint32_Ok read_uint8_Ok)
  have "(of_nat (length dat) :: u32) = len" using s(7) by simp
  then show "frame_ok f \<and> bs = MarshalBinary f @ rest" using s by (auto simp: frame_ok_def MarshalBinary_def)
next
  assume a: "frame_ok f \<and> bs = MarshalBinary f @ rest"
  then have l: "unat (of_nat (length (f_Data f)) :: u32) = length (f_Data f)" "length (f_Data f) \<le> MaxFrameLen"
    using data_length by (auto simp: frame_ok_def)
  have "read_full ChannelIDLength bs = Ok (f_ID f, drop ChannelIDLength bs)"
    "drop ChannelIDLength bs = be16 (f_FrameNumber f) @ be32 (of_nat (length (f_Data f))) @ f_Data f @
       (if f_IsLast f then [1] else [0]) @ rest"
    using a by (auto simp: MarshalBinary_def frame_ok_def read_full_Ok)
  then show "UnmarshalBinary bs = Ok (f, rest)"
    by (simp add: UnmarshalBinary_def uint16.dec_enc uint32.dec_enc read_full_append l uint8.dec_enc [simplified] guard_err_def)
qed

interpretation frame_codec: codec MarshalBinary UnmarshalBinary frame_ok
  by unfold_locales (simp add: UnmarshalBinary_Ok)

lemma MarshalBinary_length: "length (MarshalBinary f) = length (f_ID f) + 7 + length (f_Data f)"
  by (simp add: MarshalBinary_def)

section \<open>The frames of a transaction\<close>

text \<open>The loop of \<open>ParseFrames\<close>; every frame takes bytes, so it ends.\<close>

function parse_loop :: "bytes \<Rightarrow> frame list res" where
  "parse_loop buf =
     (if buf = [] then Ok []
      else bind_res (wrap_err (\<lambda>e. ''parsing frame: '' @ e) (UnmarshalBinary buf)) (\<lambda>(f, rest).
           bind_res (parse_loop rest) (\<lambda>fs. Ok (f # fs))))"
  by auto

termination
  by (relation "measure length") (auto simp: UnmarshalBinary_Ok MarshalBinary_length)

declare parse_loop.simps [simp del]

definition ParseFrames :: "bytes \<Rightarrow> frame list res" where
  "ParseFrames data =
     guard_err (data \<noteq> []) ''data array must not be empty''
    (guard_err (hd data = DerivationVersion0) ''invalid derivation format byte''
    (bind_res (parse_loop (tl data)) (\<lambda>frames.
     guard_err (frames \<noteq> []) ''was not able to find any frames'' (Ok frames))))"

lemma parse_loop_Ok:
  "parse_loop buf = Ok fs \<longleftrightarrow> list_all frame_ok fs \<and> buf = concat (map MarshalBinary fs)"
proof (induction fs arbitrary: buf)
  case Nil
  then show ?case by (subst parse_loop.simps) (auto simp: res_simps)
next
  case (Cons f fs)
  have ne: "MarshalBinary f \<noteq> []" using MarshalBinary_length [of f] by auto
  show ?case by (subst parse_loop.simps) (auto simp: res_simps UnmarshalBinary_Ok Cons ne)
qed

text \<open>C36: \<open>ParseFrames\<close> accepts exactly the data that some non-empty list of frames marshals to after
  the version byte, and returns those frames: nothing else parses, nothing is lost or left over, and
  no two frame lists share their bytes.\<close>

theorem parse_frames_exact:
  "ParseFrames data = Ok fs \<longleftrightarrow>
    fs \<noteq> [] \<and> list_all frame_ok fs \<and> data = DerivationVersion0 # concat (map MarshalBinary fs)"
  by (cases data) (auto simp: ParseFrames_def res_simps parse_loop_Ok)

end
