(* ===== verification/DeriveChannel.thy ===== *)
theory DeriveChannel
  imports DeriveFrame Eth
begin

text \<open>
  Channels, after \<open>op-node/rollup/derive/channel.go\<close>: the frames of one stream, buffered in
  whatever order L1 brings them, and read in order once the last of them is there. The map of
  buffered frames is an association list; its keys stay distinct, so its length is \<open>len\<close>.
\<close>

section \<open>Operations\<close>

record channel =
  ch_id :: bytes
  ch_openBlock :: l1_block_ref
  ch_size :: u64
  ch_closed :: bool
  ch_highestFrameNumber :: u16
  ch_endFrameNumber :: u16
  ch_inputs :: "(u64 \<times> frame) list"
  ch_highestL1InclusionBlock :: l1_block_ref

definition NewChannel :: "bytes \<Rightarrow> l1_block_ref \<Rightarrow> channel" where
  "NewChannel cid openBlock = \<lparr>ch_id = cid, ch_openBlock = openBlock, ch_size = 0, ch_closed = False,
     ch_highestFrameNumber = 0, ch_endFrameNumber = 0, ch_inputs = [],
     ch_highestL1InclusionBlock = zero_l1_ref\<rparr>"

text \<open>The loop that prunes: it subtracts the size of every buffered frame, deleted or not.\<close>

definition prune_frames :: "u16 \<Rightarrow> (u64 \<times> frame) list \<Rightarrow> u64 \<Rightarrow> (u64 \<times> frame) list \<times> u64" where
  "prune_frames endNumber inputs sz =
     (filter (\<lambda>(k, f). \<not> k \<ge> ucast endNumber) inputs,
      foldl (\<lambda>s (k, f). s - frameSize f) sz inputs)"

text \<open>The effect of a closing frame before the frame itself is buffered.\<close>

definition close_channel :: "frame \<Rightarrow> channel \<Rightarrow> channel" where
  "close_channel f ch =
     (let ch1 = ch\<lparr>ch_endFrameNumber := f_FrameNumber f, ch_closed := True\<rparr> in
      if ch_endFrameNumber ch1 < ch_highestFrameNumber ch1 then
        (case prune_frames (ch_endFrameNumber ch1) (ch_inputs ch1) (ch_size ch1) of (inputs, sz) \<Rightarrow>
           ch1\<lparr>ch_inputs := inputs, ch_size := sz, ch_highestFrameNumber := ch_endFrameNumber ch1\<rparr>)
      else ch1)"

definition AddFrame :: "channel \<Rightarrow> frame \<Rightarrow> l1_block_ref \<Rightarrow> channel res" where
  "AddFrame ch f l1InclusionBlock =
     guard_err (f_ID f = ch_id ch) ''frame id does not match channel id''
    (guard_err (\<not> (f_IsLast f \<and> ch_closed ch)) ''cannot add ending frame to a closed channel''
    (guard_err (map_of (ch_inputs ch) (ucast (f_FrameNumber f)) = None) ''duplicate frame''
    (guard_err (\<not> (ch_closed ch \<and> f_FrameNumber f \<ge> ch_endFrameNumber ch))
      ''frame number is greater than or equal to end frame number of a closed channel''
     (let ch2 = (if f_IsLast f then close_channel f ch else ch);
          ch3 = (if f_FrameNumber f > ch_highestFrameNumber ch2
                 then ch2\<lparr>ch_highestFrameNumber := f_FrameNumber f\<rparr> else ch2);
          ch4 = (if l1_number (ch_highestL1InclusionBlock ch3) < l1_number l1InclusionBlock
                 then ch3\<lparr>ch_highestL1InclusionBlock := l1InclusionBlock\<rparr> else ch3)
      in Ok (ch4\<lparr>ch_inputs := ch_inputs ch4 @ [(ucast (f_FrameNumber f), f)],
                 ch_size := ch_size ch4 + frameSize f\<rparr>)))))"

definition OpenBlockNumber :: "channel \<Rightarrow> u64" where
  "OpenBlockNumber ch = l1_number (ch_openBlock ch)"

definition frame_numbers :: "channel \<Rightarrow> u64 list" where
  "frame_numbers ch = map of_nat [0..<Suc (unat (ch_endFrameNumber ch))]"

definition IsReady :: "channel \<Rightarrow> bool" where
  "IsReady ch \<longleftrightarrow> ch_closed ch \<and> length (ch_inputs ch) = unat (ch_endFrameNumber ch) + 1 \<and>
     list_all (\<lambda>i. map_of (ch_inputs ch) i \<noteq> None) (frame_numbers ch)"

fun read_frames :: "(u64 \<times> frame) list \<Rightarrow> u64 list \<Rightarrow> bytes res" where
  "read_frames inputs [] = Ok []"
| "read_frames inputs (i # is) =
     (case map_of inputs i of
        None \<Rightarrow> Panic ''dev error in channel.Reader. Must be called after the channel is ready.''
      | Some f \<Rightarrow> bind_res (read_frames inputs is) (\<lambda>r. Ok (f_Data f @ r)))"

definition Reader :: "channel \<Rightarrow> bytes res" where
  "Reader ch = read_frames (ch_inputs ch) (frame_numbers ch)"

text \<open>What a caller that logs the errors of \<open>AddFrame\<close> and goes on is left with.\<close>

definition offer :: "channel \<Rightarrow> frame \<times> l1_block_ref \<Rightarrow> channel" where
  "offer ch p = (case AddFrame ch (fst p) (snd p) of Ok ch' \<Rightarrow> ch' | _ \<Rightarrow> ch)"

section \<open>The invariant of a channel\<close>

definition total_size :: "(u64 \<times> frame) list \<Rightarrow> nat" where
  "total_size inputs = sum_list (map (\<lambda>(k, f). length (f_Data f) + 200) inputs)"

text \<open>Keys are the numbers of the frames and distinct; no number exceeds the highest one recorded,
  nor the end of a closed channel, whose last frame is buffered. The size is that of the buffered
  frames while the channel is open, and never more.\<close>

definition ch_inv :: "channel \<Rightarrow> bool" where
  "ch_inv ch \<longleftrightarrow> distinct (map fst (ch_inputs ch)) \<and>
     (\<forall>(k, f) \<in> set (ch_inputs ch). k = ucast (f_FrameNumber f) \<and> f_ID f = ch_id ch \<and>
        f_FrameNumber f \<le> ch_highestFrameNumber ch \<and> (f_IsLast f \<longrightarrow> ch_closed ch)) \<and>
     (ch_closed ch \<longrightarrow> ch_highestFrameNumber ch = ch_endFrameNumber ch \<and>
        (\<exists>f. (ucast (ch_endFrameNumber ch), f) \<in> set (ch_inputs ch) \<and> f_IsLast f)) \<and>
     (\<exists>s \<le> total_size (ch_inputs ch). ch_size ch = of_nat s \<and> (\<not> ch_closed ch \<longrightarrow> s = total_size (ch_inputs ch)))"

lemma unat_ucast_u16 [simp]: "unat (ucast (a :: u16) :: u64) = unat a"
proof -
  have "take_bit 64 (unat a) = unat a"
    by (rule take_bit_nat_eq_self) (use unat_u16 [of a] in simp)
  then show ?thesis by (simp add: unsigned_ucast_eq)
qed

lemma ucast_u16 [simp]: "(ucast (a :: u16) :: u64) = ucast b \<longleftrightarrow> a = b"
  by (simp add: word_unat_eq_iff)

lemma ucast_u16_le [simp]: "(ucast (a :: u16) :: u64) \<le> ucast b \<longleftrightarrow> a \<le> b"
  "(ucast (a :: u16) :: u64) < ucast b \<longleftrightarrow> a < b"
  by (simp_all add: word_le_nat_alt word_less_nat_alt)

lemma prune_size:
  "foldl (\<lambda>s (k, f). s - frameSize f) z inputs = z - of_nat (total_size inputs)"
  by (induction inputs arbitrary: z) (auto simp: total_size_def frameSize_def frameOverhead_def algebra_simps)

lemma NewChannel_inv: "ch_inv (NewChannel cid ob)"
  by (auto simp: ch_inv_def NewChannel_def total_size_def)

lemma AddFrame_fields:
  assumes "AddFrame ch f l1 = Ok ch'" and c: "c = (if f_IsLast f then close_channel f ch else ch)"
  shows "ch_inputs ch' = ch_inputs c @ [(ucast (f_FrameNumber f), f)]" "ch_size ch' = ch_size c + frameSize f"
    "ch_closed ch' = ch_closed c" "ch_endFrameNumber ch' = ch_endFrameNumber c" "ch_id ch' = ch_id c"
    "ch_highestFrameNumber ch' =
      (if ch_highestFrameNumber c < f_FrameNumber f then f_FrameNumber f else ch_highestFrameNumber c)"
    "ch_openBlock ch' = ch_openBlock c"
proof -
  define c3 where "c3 = (if f_FrameNumber f > ch_highestFrameNumber c then c\<lparr>ch_highestFrameNumber := f_FrameNumber f\<rparr> else c)"
  define c4 where "c4 = (if l1_number (ch_highestL1InclusionBlock c3) < l1_number l1
    then c3\<lparr>ch_highestL1InclusionBlock := l1\<rparr> else c3)"
  have 3: "ch_inputs c3 = ch_inputs c" "ch_size c3 = ch_size c" "ch_closed c3 = ch_closed c" "ch_id c3 = ch_id c"
    "ch_endFrameNumber c3 = ch_endFrameNumber c" "ch_openBlock c3 = ch_openBlock c" "ch_highestFrameNumber c3 =
      (if ch_highestFrameNumber c < f_FrameNumber f then f_FrameNumber f else ch_highestFrameNumber c)"
    by (simp_all add: c3_def)
  have 4: "ch_inputs c4 = ch_inputs c3" "ch_size c4 = ch_size c3" "ch_closed c4 = ch_closed c3" "ch_id c4 = ch_id c3"
    "ch_endFrameNumber c4 = ch_endFrameNumber c3" "ch_openBlock c4 = ch_openBlock c3"
    "ch_highestFrameNumber c4 = ch_highestFrameNumber c3"
    by (simp_all add: c4_def)
  have "ch' = c4\<lparr>ch_inputs := ch_inputs c4 @ [(ucast (f_FrameNumber f), f)], ch_size := ch_size c4 + frameSize f\<rparr>"
    using assms(1) unfolding AddFrame_def guard_err_Ok Let_def c [symmetric] c3_def [symmetric] c4_def [symmetric] by simp
  then show "ch_inputs ch' = ch_inputs c @ [(ucast (f_FrameNumber f), f)]" "ch_size ch' = ch_size c + frameSize f"
    "ch_closed ch' = ch_closed c" "ch_endFrameNumber ch' = ch_endFrameNumber c" "ch_id ch' = ch_id c"
    "ch_highestFrameNumber ch' =
      (if ch_highestFrameNumber c < f_FrameNumber f then f_FrameNumber f else ch_highestFrameNumber c)"
    "ch_openBlock ch' = ch_openBlock c"
    by (simp_all add: 3 4 del: if_split)
qed

lemma AddFrame_Ok_iff:
  "(\<exists>ch'. AddFrame ch f l1 = Ok ch') \<longleftrightarrow> f_ID f = ch_id ch \<and> \<not> (f_IsLast f \<and> ch_closed ch) \<and>
     map_of (ch_inputs ch) (ucast (f_FrameNumber f)) = None \<and> \<not> (ch_closed ch \<and> f_FrameNumber f \<ge> ch_endFrameNumber ch)"
  by (simp add: AddFrame_def guard_err_Ok Let_def)

lemma AddFrame_cases:
  assumes "AddFrame ch f l1 = Ok ch'"
  obtains (more) "\<not> f_IsLast f" "ch_closed ch \<longrightarrow> f_FrameNumber f < ch_endFrameNumber ch"
      "ch_inputs ch' = ch_inputs ch @ [(ucast (f_FrameNumber f), f)]" "ch_size ch' = ch_size ch + frameSize f"
      "ch_closed ch' = ch_closed ch" "ch_endFrameNumber ch' = ch_endFrameNumber ch"
      "ch_highestFrameNumber ch' =
        (if ch_highestFrameNumber ch < f_FrameNumber f then f_FrameNumber f else ch_highestFrameNumber ch)"
  | (close) "f_IsLast f" "\<not> ch_closed ch" "ch_highestFrameNumber ch \<le> f_FrameNumber f"
      "ch_inputs ch' = ch_inputs ch @ [(ucast (f_FrameNumber f), f)]" "ch_size ch' = ch_size ch + frameSize f"
      "ch_closed ch'" "ch_endFrameNumber ch' = f_FrameNumber f" "ch_highestFrameNumber ch' = f_FrameNumber f"
  | (prune) "f_IsLast f" "\<not> ch_closed ch" "f_FrameNumber f < ch_highestFrameNumber ch"
      "ch_inputs ch' = filter (\<lambda>(k, g). k < ucast (f_FrameNumber f)) (ch_inputs ch) @ [(ucast (f_FrameNumber f), f)]"
      "ch_size ch' = ch_size ch - of_nat (total_size (ch_inputs ch)) + frameSize f"
      "ch_closed ch'" "ch_endFrameNumber ch' = f_FrameNumber f" "ch_highestFrameNumber ch' = f_FrameNumber f"
proof -
  note x = AddFrame_fields [OF assms refl]
  have g: "\<not> (f_IsLast f \<and> ch_closed ch)" "ch_closed ch \<longrightarrow> f_FrameNumber f < ch_endFrameNumber ch"
    using AddFrame_Ok_iff [of ch f l1] assms by (auto simp: not_le)
  show ?thesis
  proof (cases "f_IsLast f")
    case False
    show ?thesis by (rule more) (use False x g in simp_all)
  next
    case True
    show ?thesis
    proof (cases "f_FrameNumber f < ch_highestFrameNumber ch")
      case le: True
      have "close_channel f ch = ch\<lparr>ch_endFrameNumber := f_FrameNumber f, ch_closed := True,
          ch_inputs := fst (prune_frames (f_FrameNumber f) (ch_inputs ch) (ch_size ch)),
          ch_size := snd (prune_frames (f_FrameNumber f) (ch_inputs ch) (ch_size ch)), ch_highestFrameNumber := f_FrameNumber f\<rparr>"
        using le by (simp add: close_channel_def case_prod_unfold)
      then show ?thesis using x True le g by (intro prune) (simp_all add: prune_frames_def prune_size not_le)
    next
      case False
      have "close_channel f ch = ch\<lparr>ch_endFrameNumber := f_FrameNumber f, ch_closed := True\<rparr>"
        using False by (simp add: close_channel_def)
      then show ?thesis using x True False g by (intro close) (auto simp: not_less intro: order_antisym)
    qed
  qed
qed

lemma AddFrame_id: "AddFrame ch f l1 = Ok ch' \<Longrightarrow> ch_id ch' = ch_id ch"
  "AddFrame ch f l1 = Ok ch' \<Longrightarrow> ch_openBlock ch' = ch_openBlock ch"
  by (auto simp: AddFrame_fields close_channel_def Let_def case_prod_unfold)

lemma AddFrame_inv:
  assumes "AddFrame ch f l1 = Ok ch'" "ch_inv ch"
  shows "ch_inv ch'"
proof -
  have new: "f_ID f = ch_id ch" "map_of (ch_inputs ch) (ucast (f_FrameNumber f)) = None"
    using assms(1) AddFrame_Ok_iff [of ch f l1] by auto
  then have nk: "ucast (f_FrameNumber f) \<notin> fst ` set (ch_inputs ch)" by (simp add: map_of_eq_None_iff)
  note id = AddFrame_id(1) [OF assms(1)]
  obtain s where s: "s \<le> total_size (ch_inputs ch)" "ch_size ch = of_nat s" "\<not> ch_closed ch \<longrightarrow> s = total_size (ch_inputs ch)"
    using assms(2) by (auto simp: ch_inv_def)
  have fs: "frameSize f = of_nat (length (f_Data f) + 200)" by (simp add: frameSize_def frameOverhead_def)
  have tot: "total_size (xs @ [(k, f)]) = total_size xs + (length (f_Data f) + 200)" for xs k
    by (simp add: total_size_def)
  from assms(1) show ?thesis
  proof (cases rule: AddFrame_cases)
    case more
    have "\<exists>s' \<le> total_size (ch_inputs ch'). ch_size ch' = of_nat s' \<and> (\<not> ch_closed ch' \<longrightarrow> s' = total_size (ch_inputs ch'))"
      using s more by (intro exI [of _ "s + (length (f_Data f) + 200)"]) (simp add: tot fs)
    then show ?thesis using assms(2) more new nk id
      unfolding ch_inv_def by (auto split: if_splits)
  next
    case close
    have "\<exists>s' \<le> total_size (ch_inputs ch'). ch_size ch' = of_nat s' \<and> (\<not> ch_closed ch' \<longrightarrow> s' = total_size (ch_inputs ch'))"
      using s close by (intro exI [of _ "s + (length (f_Data f) + 200)"]) (simp add: tot fs)
    then show ?thesis using assms(2) close new nk id
      unfolding ch_inv_def by (auto intro: order_trans)
  next
    case prune
    have "\<exists>s' \<le> total_size (ch_inputs ch'). ch_size ch' = of_nat s' \<and> (\<not> ch_closed ch' \<longrightarrow> s' = total_size (ch_inputs ch'))"
      using s prune by (intro exI [of _ "length (f_Data f) + 200"]) (simp add: tot fs)
    moreover have "distinct (map fst (filter (\<lambda>(k, g). k < ucast (f_FrameNumber f)) (ch_inputs ch)))"
      using assms(2) by (simp add: ch_inv_def distinct_map_filter)
    ultimately show ?thesis using assms(2) prune new nk id
      unfolding ch_inv_def by (auto simp: word_less_nat_alt word_le_nat_alt)
  qed
qed

lemma offer_inv: "ch_inv ch \<Longrightarrow> ch_inv (offer ch p)"
  using AddFrame_inv by (auto simp: offer_def split: res.splits)

lemma offers_inv: "ch_inv ch \<Longrightarrow> ch_inv (foldl offer ch ps)"
  by (induction ps arbitrary: ch) (simp_all add: offer_inv)

section \<open>Reassembly\<close>

text \<open>\<open>fs\<close> are the frames of channel \<open>cid\<close>, in order.\<close>

definition stream :: "bytes \<Rightarrow> frame list \<Rightarrow> bool" where
  "stream cid fs \<longleftrightarrow> fs \<noteq> [] \<and> length fs \<le> 65536 \<and>
     list_all (\<lambda>i. f_ID (fs ! i) = cid \<and> f_FrameNumber (fs ! i) = of_nat i \<and>
       (f_IsLast (fs ! i) \<longleftrightarrow> Suc i = length fs)) [0..<length fs]"

lemma stream_nth:
  assumes "stream cid fs" "i < length fs"
  shows "f_ID (fs ! i) = cid" "f_FrameNumber (fs ! i) = of_nat i" "f_IsLast (fs ! i) \<longleftrightarrow> Suc i = length fs"
    "unat (of_nat i :: u16) = i" "i < 65536"
proof -
  show *: "i < 65536" using assms by (simp add: stream_def)
  then show "unat (of_nat i :: u16) = i" by (simp add: unat_of_nat)
  show "f_ID (fs ! i) = cid" "f_FrameNumber (fs ! i) = of_nat i" "f_IsLast (fs ! i) \<longleftrightarrow> Suc i = length fs"
    using assms by (auto simp: stream_def list_all_iff)
qed

lemma ucast_of_nat_u16: "i < 65536 \<Longrightarrow> ucast (of_nat i :: u16) = (of_nat i :: u64)"
  by (simp add: word_unat_eq_iff) (simp add: unat_of_nat)

lemma stream_number:
  assumes "stream cid fs" "f \<in> set fs"
  shows "f = fs ! unat (f_FrameNumber f)" "unat (f_FrameNumber f) < length fs"
    "f_IsLast f \<longleftrightarrow> Suc (unat (f_FrameNumber f)) = length fs" "f_ID f = cid"
proof -
  obtain i where i: "i < length fs" "f = fs ! i" using assms(2) by (auto simp: in_set_conv_nth)
  note s = stream_nth [OF assms(1) i(1)]
  then have "unat (f_FrameNumber f) = i" by (simp add: i(2))
  then show "f = fs ! unat (f_FrameNumber f)" "unat (f_FrameNumber f) < length fs"
    "f_IsLast f \<longleftrightarrow> Suc (unat (f_FrameNumber f)) = length fs" "f_ID f = cid" using i s by simp_all
qed

text \<open>What the channel holds after the frames of \<open>G\<close>, a part of the stream.\<close>

definition holds :: "bytes \<Rightarrow> frame list \<Rightarrow> frame set \<Rightarrow> channel \<Rightarrow> bool" where
  "holds cid fs G ch \<longleftrightarrow> ch_id ch = cid \<and> distinct (map fst (ch_inputs ch)) \<and>
     set (ch_inputs ch) = (\<lambda>f. (ucast (f_FrameNumber f), f)) ` G \<and> (ch_closed ch \<longleftrightarrow> last fs \<in> G) \<and>
     (ch_closed ch \<longrightarrow> Suc (unat (ch_endFrameNumber ch)) = length fs) \<and> unat (ch_highestFrameNumber ch) < length fs"

lemma stream_last:
  assumes "stream cid fs" "f \<in> set fs"
  shows "f_IsLast f \<longleftrightarrow> f = last fs"
proof -
  have ne: "fs \<noteq> []" using assms(1) by (simp add: stream_def)
  then have l: "last fs = fs ! (length fs - 1)" "length fs - 1 < length fs" by (simp_all add: last_conv_nth)
  have "unat (f_FrameNumber (last fs)) = length fs - 1" using stream_nth(2,4) [OF assms(1) l(2)] l(1) by simp
  then show ?thesis using stream_number [OF assms] ne l(1)
    by (metis Suc_diff_1 diff_Suc_1 length_greater_0_conv)
qed

lemma holds_offer:
  assumes "stream cid fs" "G \<subseteq> set fs" "f \<in> set fs" "holds cid fs G ch"
  shows "holds cid fs (insert f G) (offer ch (f, l1))"
proof -
  note n = stream_number [OF assms(1,3)]
  have same: "g = f" if "g \<in> G" "f_FrameNumber g = f_FrameNumber f" for g
    using stream_number(1) [OF assms(1), of g] assms(2) n(1) that by auto
  have key: "map_of (ch_inputs ch) (ucast (f_FrameNumber f)) = None \<longleftrightarrow> f \<notin> G"
    using assms(4) same by (auto simp: holds_def map_of_eq_None_iff image_image)
  show ?thesis
  proof (cases "f \<in> G")
    case True
    then have "\<nexists>ch'. AddFrame ch f l1 = Ok ch'" using key by (simp add: AddFrame_Ok_iff)
    then have "offer ch (f, l1) = ch" by (auto simp: offer_def split: res.splits)
    then show ?thesis using True assms(4) by (simp add: insert_absorb)
  next
    case False
    have "\<not> (ch_closed ch \<and> (f_IsLast f \<or> f_FrameNumber f \<ge> ch_endFrameNumber ch))"
    proof
      assume a: "ch_closed ch \<and> (f_IsLast f \<or> f_FrameNumber f \<ge> ch_endFrameNumber ch)"
      then have "last fs \<in> G" "Suc (unat (ch_endFrameNumber ch)) = length fs" using assms(4) by (auto simp: holds_def)
      then have "f_IsLast f" using a n by (auto simp: word_le_nat_alt)
      then show False using stream_last [OF assms(1,3)] \<open>last fs \<in> G\<close> False by simp
    qed
    then obtain ch' where ch': "AddFrame ch f l1 = Ok ch'"
      using AddFrame_Ok_iff [of ch f l1] key False n(4) assms(4) by (auto simp: holds_def)
    have o: "offer ch (f, l1) = ch'" using ch' by (simp add: offer_def)
    have nk: "ucast (f_FrameNumber f) \<notin> fst ` set (ch_inputs ch)" using key False by (simp add: map_of_eq_None_iff)
    have hi: "unat (ch_highestFrameNumber ch) < length fs" using assms(4) by (simp add: holds_def)
    note lst = stream_last [OF assms(1,3)]
    from ch' have "holds cid fs (insert f G) ch'"
    proof (cases rule: AddFrame_cases)
      case more
      then show ?thesis using assms(4) nk lst AddFrame_id(1) [OF ch'] n(2) by (auto simp: holds_def)
    next
      case close
      then show ?thesis using assms(4) nk lst AddFrame_id(1) [OF ch'] n(2,3) by (auto simp: holds_def)
    next
      case prune
      then show ?thesis using n(3) hi by (simp add: word_less_nat_alt)
    qed
    then show ?thesis unfolding o .
  qed
qed

lemma holds_offers:
  assumes "stream cid fs"
  shows "fst ` set ps \<subseteq> set fs \<Longrightarrow> holds cid fs (fst ` set ps) (foldl offer (NewChannel cid ob) ps)"
proof (induction ps rule: rev_induct)
  case Nil
  have "0 < length fs" using assms by (simp add: stream_def)
  then show ?case by (simp add: holds_def NewChannel_def)
next
  case (snoc p ps)
  have "holds cid fs (insert (fst p) (fst ` set ps)) (offer (foldl offer (NewChannel cid ob) ps) (fst p, snd p))"
    using snoc by (intro holds_offer [OF assms]) auto
  then show ?case by simp
qed

lemma read_frames_nth:
  "\<forall>i \<in> set is. map_of inputs (of_nat i) = Some (g i) \<Longrightarrow>
   read_frames inputs (map of_nat is) = Ok (concat (map (\<lambda>i. f_Data (g i)) is))"
  by (induction "is") auto

lemma holds_lookup:
  assumes "stream cid fs" "holds cid fs G ch" "G \<subseteq> set fs" "i < length fs"
  shows "map_of (ch_inputs ch) (of_nat i) = (if fs ! i \<in> G then Some (fs ! i) else None)"
proof -
  note s = stream_nth [OF assms(1,4)]
  have k: "(of_nat i :: u64) = ucast (f_FrameNumber (fs ! i))" using s by (simp add: ucast_of_nat_u16)
  show ?thesis
  proof (cases "fs ! i \<in> G")
    case True
    then show ?thesis using assms(2) unfolding k by (auto simp: holds_def)
  next
    case False
    have "g = fs ! i" if "g \<in> G" "f_FrameNumber g = f_FrameNumber (fs ! i)" for g
      using stream_number(1) [OF assms(1), of g] that assms(3) s by auto
    then show ?thesis using False assms(2) unfolding k by (auto simp: holds_def map_of_eq_None_iff image_image)
  qed
qed

lemma holds_ready:
  assumes "stream cid fs" "holds cid fs G ch" "G \<subseteq> set fs"
  shows "IsReady ch \<longleftrightarrow> G = set fs" "G = set fs \<Longrightarrow> Reader ch = Ok (concat (map f_Data fs))"
proof -
  note lu = holds_lookup [OF assms]
  have ne: "fs \<noteq> []" using assms(1) by (simp add: stream_def)
  have nums: "frame_numbers ch = map of_nat [0..<length fs]" if "ch_closed ch"
    using that assms(2) by (simp add: frame_numbers_def holds_def del: upt_Suc)
  show r: "IsReady ch \<longleftrightarrow> G = set fs"
  proof
    assume "IsReady ch"
    then have "\<forall>i < length fs. fs ! i \<in> G"
      using lu nums by (auto simp: IsReady_def list_all_iff split: if_splits)
    then show "G = set fs" using assms(3) by (auto simp: in_set_conv_nth)
  next
    assume G: "G = set fs"
    then have c: "ch_closed ch" using assms(2) ne by (simp add: holds_def)
    have "distinct fs"
      using stream_nth(2,4) [OF assms(1)] by (auto simp: distinct_conv_nth) (metis)
    have "distinct (ch_inputs ch)" using assms(2) by (simp add: holds_def distinct_map)
    then have "length (ch_inputs ch) = card (set (ch_inputs ch))" by (simp only: distinct_card)
    also have "\<dots> = card G" using assms(2) by (simp add: holds_def card_image inj_on_def)
    also have "\<dots> = length fs" using G \<open>distinct fs\<close> by (simp add: distinct_card)
    finally have "length (ch_inputs ch) = unat (ch_endFrameNumber ch) + 1" using c assms(2) by (simp add: holds_def)
    then show "IsReady ch" using c G lu nums by (simp add: IsReady_def list_all_iff)
  qed
  assume G: "G = set fs"
  then have "Reader ch = Ok (concat (map (\<lambda>i. f_Data (fs ! i)) [0..<length fs]))"
    using lu nums r by (auto simp: Reader_def IsReady_def intro!: read_frames_nth)
  moreover have "map (\<lambda>i. f_Data (fs ! i)) [0..<length fs] = map f_Data fs"
    by (rule nth_equalityI) simp_all
  ultimately show "Reader ch = Ok (concat (map f_Data fs))" by simp
qed

text \<open>C33: Frames of a stream may reach their channel in any order and any number of times: the channel is
  ready exactly when every frame of the stream has arrived, and its reader then delivers the data of
  the frames in the order of their numbers, without a panic.\<close>

theorem channel_reassembles:
  assumes "stream cid fs" "fst ` set ps \<subseteq> set fs"
  shows "let ch = foldl offer (NewChannel cid ob) ps in
    IsReady ch = (fst ` set ps = set fs) \<and> (if IsReady ch then Reader ch = Ok (concat (map f_Data fs)) else True)"
  using holds_ready [OF assms(1) holds_offers [OF assms] assms(2)] by (simp add: Let_def)

theorem channel_reassembles_witness:
  "let a = \<lparr>f_ID = replicate 16 7, f_FrameNumber = 0, f_Data = [1, 2], f_IsLast = False\<rparr>;
       b = \<lparr>f_ID = replicate 16 7, f_FrameNumber = 1, f_Data = [3], f_IsLast = True\<rparr>;
       ch = foldl offer (NewChannel (replicate 16 7) zero_l1_ref) [(b, zero_l1_ref), (b, zero_l1_ref), (a, zero_l1_ref)]
   in IsReady ch \<and> Reader ch = Ok [1, 2, 3]"
proof -
  let ?a = "\<lparr>f_ID = replicate 16 7, f_FrameNumber = 0, f_Data = [1, 2], f_IsLast = False\<rparr>"
  let ?b = "\<lparr>f_ID = replicate 16 7, f_FrameNumber = 1, f_Data = [3], f_IsLast = True\<rparr>"
  have "stream (replicate 16 7) [?a, ?b]" by (simp add: stream_def upt_rec)
  from channel_reassembles [OF this, of "[(?b, zero_l1_ref), (?b, zero_l1_ref), (?a, zero_l1_ref)]" zero_l1_ref]
  show ?thesis by (auto simp: Let_def insert_commute)
qed

section \<open>Closing and pruning\<close>

text \<open>When a closing frame prunes, the recorded size forgets the frames that stay: it is the size of
  the closing frame alone, although every buffered frame below the end is still there.\<close>

theorem closing_prune_forgets:
  assumes "ch_inv ch" "AddFrame ch f l1 = Ok ch'" "f_IsLast f" "f_FrameNumber f < ch_highestFrameNumber ch"
  shows "ch_size ch' = frameSize f \<and>
    ch_inputs ch' = filter (\<lambda>(k, g). k < ucast (f_FrameNumber f)) (ch_inputs ch) @ [(ucast (f_FrameNumber f), f)]"
  using assms(2)
proof (cases rule: AddFrame_cases)
  case prune
  then have "ch_size ch = of_nat (total_size (ch_inputs ch))" using assms(1) by (auto simp: ch_inv_def)
  then show ?thesis using prune by simp
qed (use assms(3,4) in \<open>auto simp: not_le\<close>)

theorem closing_prune_forgets_witness:
  "let fr = \<lambda>n d l. \<lparr>f_ID = replicate 16 7, f_FrameNumber = n, f_Data = d, f_IsLast = l\<rparr>;
       ch = foldl offer (NewChannel (replicate 16 7) zero_l1_ref)
              [(fr 0 [1, 2, 3] False, zero_l1_ref), (fr 2 [4] False, zero_l1_ref)];
       ch' = offer ch (fr 1 [] True, zero_l1_ref)
   in ch_size ch' = 200 \<and> total_size (ch_inputs ch') = 403"
proof -
  let ?f = "\<lambda>n d l. \<lparr>f_ID = replicate 16 7, f_FrameNumber = n, f_Data = d, f_IsLast = l\<rparr>"
  define c where "c = foldl offer (NewChannel (replicate 16 7) zero_l1_ref)
    [(?f 0 [1, 2, 3] False, zero_l1_ref), (?f 2 [4] False, zero_l1_ref)]"
  have ch: "c = \<lparr>ch_id = replicate 16 7, ch_openBlock = zero_l1_ref, ch_size = 404, ch_closed = False,
     ch_highestFrameNumber = 2, ch_endFrameNumber = 0, ch_inputs = [(0, ?f 0 [1, 2, 3] False), (2, ?f 2 [4] False)],
     ch_highestL1InclusionBlock = zero_l1_ref\<rparr>"
    by (simp add: c_def offer_def AddFrame_def NewChannel_def frameSize_def frameOverhead_def Let_def guard_err_def zero_l1_ref_def)
  obtain ch' where ch': "AddFrame c (?f 1 [] True) zero_l1_ref = Ok ch'"
    using AddFrame_Ok_iff [of c "?f 1 [] True" zero_l1_ref] by (auto simp: ch)
  have "ch_inv c" unfolding c_def by (rule offers_inv) (rule NewChannel_inv)
  from closing_prune_forgets [OF this ch'] have "ch_size ch' = 200 \<and> total_size (ch_inputs ch') = 403"
    by (simp add: ch total_size_def frameSize_def frameOverhead_def)
  then show ?thesis using ch' unfolding Let_def c_def [symmetric] by (simp add: offer_def)
qed

end
