(* ===== verification/RollupConfig.thy ===== *)
theory RollupConfig
  imports Eth
begin

text \<open>
  The rollup configuration and the protocol parameters that depend on it: \<open>op-node/rollup/types.go\<close>
  (fork activation) and \<open>op-node/rollup/chain_spec.go\<close>. Of the configuration, the fields that the
  modelled code reads; a nil activation time is \<open>None\<close>.
\<close>

record rollup_config =
  rc_L2Time :: u64
  rc_BlockTime :: u64
  rc_MaxSequencerDrift :: u64
  rc_SeqWindowSize :: u64
  rc_ChannelTimeoutBedrock :: u64
  rc_RegolithTime :: "u64 option"
  rc_CanyonTime :: "u64 option"
  rc_DeltaTime :: "u64 option"
  rc_EcotoneTime :: "u64 option"
  rc_FjordTime :: "u64 option"
  rc_GraniteTime :: "u64 option"
  rc_HoloceneTime :: "u64 option"
  rc_InteropTime :: "u64 option"

definition fork_active :: "u64 option \<Rightarrow> u64 \<Rightarrow> bool" where
  "fork_active a t = (case a of None \<Rightarrow> False | Some s \<Rightarrow> t \<ge> s)"

definition IsRegolith :: "rollup_config \<Rightarrow> u64 \<Rightarrow> bool" where "IsRegolith c t = fork_active (rc_RegolithTime c) t"
definition IsCanyon :: "rollup_config \<Rightarrow> u64 \<Rightarrow> bool" where "IsCanyon c t = fork_active (rc_CanyonTime c) t"
definition IsDelta :: "rollup_config \<Rightarrow> u64 \<Rightarrow> bool" where "IsDelta c t = fork_active (rc_DeltaTime c) t"
definition IsEcotone :: "rollup_config \<Rightarrow> u64 \<Rightarrow> bool" where "IsEcotone c t = fork_active (rc_EcotoneTime c) t"
definition IsFjord :: "rollup_config \<Rightarrow> u64 \<Rightarrow> bool" where "IsFjord c t = fork_active (rc_FjordTime c) t"
definition IsGranite :: "rollup_config \<Rightarrow> u64 \<Rightarrow> bool" where "IsGranite c t = fork_active (rc_GraniteTime c) t"
definition IsHolocene :: "rollup_config \<Rightarrow> u64 \<Rightarrow> bool" where "IsHolocene c t = fork_active (rc_HoloceneTime c) t"
definition IsInterop :: "rollup_config \<Rightarrow> u64 \<Rightarrow> bool" where "IsInterop c t = fork_active (rc_InteropTime c) t"

definition activation_block :: "(rollup_config \<Rightarrow> u64 \<Rightarrow> bool) \<Rightarrow> rollup_config \<Rightarrow> u64 \<Rightarrow> bool" where
  "activation_block isf c t \<longleftrightarrow> isf c t \<and> t \<ge> rc_BlockTime c \<and> \<not> isf c (t - rc_BlockTime c)"

definition IsRegolithActivationBlock :: "rollup_config \<Rightarrow> u64 \<Rightarrow> bool" where
  "IsRegolithActivationBlock = activation_block IsRegolith"
definition IsCanyonActivationBlock :: "rollup_config \<Rightarrow> u64 \<Rightarrow> bool" where
  "IsCanyonActivationBlock = activation_block IsCanyon"
definition IsDeltaActivationBlock :: "rollup_config \<Rightarrow> u64 \<Rightarrow> bool" where
  "IsDeltaActivationBlock = activation_block IsDelta"
definition IsEcotoneActivationBlock :: "rollup_config \<Rightarrow> u64 \<Rightarrow> bool" where
  "IsEcotoneActivationBlock = activation_block IsEcotone"
definition IsFjordActivationBlock :: "rollup_config \<Rightarrow> u64 \<Rightarrow> bool" where
  "IsFjordActivationBlock = activation_block IsFjord"
definition IsGraniteActivationBlock :: "rollup_config \<Rightarrow> u64 \<Rightarrow> bool" where
  "IsGraniteActivationBlock = activation_block IsGranite"
definition IsHoloceneActivationBlock :: "rollup_config \<Rightarrow> u64 \<Rightarrow> bool" where
  "IsHoloceneActivationBlock = activation_block IsHolocene"
definition IsInteropActivationBlock :: "rollup_config \<Rightarrow> u64 \<Rightarrow> bool" where
  "IsInteropActivationBlock = activation_block IsInterop"

text \<open>The part of \<open>Check\<close> that compares activation times; it does not compare that of Interop.\<close>

definition checkFork :: "u64 option \<Rightarrow> u64 option \<Rightarrow> bool" where
  "checkFork a b = (case (a, b) of
     (None, None) \<Rightarrow> True
   | (None, Some _) \<Rightarrow> False
   | (Some _, None) \<Rightarrow> True
   | (Some x, Some y) \<Rightarrow> \<not> x > y)"

definition check_forks :: "rollup_config \<Rightarrow> bool" where
  "check_forks c \<longleftrightarrow> checkFork (rc_RegolithTime c) (rc_CanyonTime c) \<and> checkFork (rc_CanyonTime c) (rc_DeltaTime c) \<and>
     checkFork (rc_DeltaTime c) (rc_EcotoneTime c) \<and> checkFork (rc_EcotoneTime c) (rc_FjordTime c) \<and>
     checkFork (rc_FjordTime c) (rc_GraniteTime c) \<and> checkFork (rc_GraniteTime c) (rc_HoloceneTime c)"

section \<open>Parameters by time\<close>

definition ChannelTimeoutGranite :: u64 where "ChannelTimeoutGranite = 50"

definition MaxChannelBankSize :: "rollup_config \<Rightarrow> u64 \<Rightarrow> u64" where
  "MaxChannelBankSize c t = (if IsFjord c t then 1000000000 else 100000000)"

definition ChannelTimeout :: "rollup_config \<Rightarrow> u64 \<Rightarrow> u64" where
  "ChannelTimeout c t = (if IsGranite c t then ChannelTimeoutGranite else rc_ChannelTimeoutBedrock c)"

definition MaxRLPBytesPerChannel :: "rollup_config \<Rightarrow> u64 \<Rightarrow> u64" where
  "MaxRLPBytesPerChannel c t = (if IsFjord c t then 100000000 else 10000000)"

definition IsFeatMaxSequencerDriftConstant :: "rollup_config \<Rightarrow> u64 \<Rightarrow> bool" where
  "IsFeatMaxSequencerDriftConstant c t = IsFjord c t"

definition MaxSequencerDrift :: "rollup_config \<Rightarrow> u64 \<Rightarrow> u64" where
  "MaxSequencerDrift c t = (if IsFeatMaxSequencerDriftConstant c t then 1800 else rc_MaxSequencerDrift c)"

section \<open>Fork detection\<close>

datatype fork_name = Bedrock | Regolith | Canyon | Delta | Ecotone | Fjord | Granite | Holocene | Interop | NoFork

fun nextFork :: "fork_name \<Rightarrow> fork_name" where
  "nextFork Bedrock = Regolith" | "nextFork Regolith = Canyon" | "nextFork Canyon = Delta"
| "nextFork Delta = Ecotone" | "nextFork Ecotone = Fjord" | "nextFork Fjord = Granite"
| "nextFork Granite = Holocene" | "nextFork Holocene = Interop" | "nextFork Interop = NoFork"
| "nextFork NoFork = NoFork"

text \<open>The fork the chain spec records, \<open>None\<close> before its first block. Each check of the first
  block overrides the one before it.\<close>

definition detect_fork :: "rollup_config \<Rightarrow> u64 \<Rightarrow> fork_name" where
  "detect_fork c t =
     (let f = Bedrock;
          f = (if IsRegolith c t then Regolith else f);
          f = (if IsCanyon c t then Canyon else f);
          f = (if IsDelta c t then Delta else f);
          f = (if IsEcotone c t then Ecotone else f);
          f = (if IsFjord c t then Fjord else f);
          f = (if IsGranite c t then Granite else f);
          f = (if IsHolocene c t then Holocene else f)
      in if IsInterop c t then Interop else f)"

fun foundActivation :: "rollup_config \<Rightarrow> fork_name \<Rightarrow> u64 \<Rightarrow> bool" where
  "foundActivation c Regolith t = IsRegolithActivationBlock c t"
| "foundActivation c Canyon t = IsCanyonActivationBlock c t"
| "foundActivation c Delta t = IsDeltaActivationBlock c t"
| "foundActivation c Ecotone t = IsEcotoneActivationBlock c t"
| "foundActivation c Fjord t = IsFjordActivationBlock c t"
| "foundActivation c Granite t = IsGraniteActivationBlock c t"
| "foundActivation c Holocene t = IsHoloceneActivationBlock c t"
| "foundActivation c Interop t = IsInteropActivationBlock c t"
| "foundActivation c Bedrock t = False"
| "foundActivation c NoFork t = False"

definition CheckForkActivation :: "rollup_config \<Rightarrow> fork_name option \<Rightarrow> l2_block_ref \<Rightarrow> fork_name option" where
  "CheckForkActivation c cur block =
     (if cur = Some Interop then cur
      else case cur of
        None \<Rightarrow> Some (detect_fork c (l2_time block))
      | Some f \<Rightarrow> if foundActivation c (nextFork f) (l2_time block) then Some (nextFork f) else cur)"

section \<open>An example\<close>

text \<open>A configuration like a deployed one, for the examples of the components.\<close>

definition sample_config :: rollup_config where
  "sample_config = \<lparr>rc_L2Time = 0, rc_BlockTime = 2, rc_MaxSequencerDrift = 600, rc_SeqWindowSize = 3600,
     rc_ChannelTimeoutBedrock = 300, rc_RegolithTime = Some 0, rc_CanyonTime = Some 0, rc_DeltaTime = Some 0,
     rc_EcotoneTime = None, rc_FjordTime = None, rc_GraniteTime = None, rc_HoloceneTime = None, rc_InteropTime = None\<rparr>"

lemma sample_config_simps:
  "rc_BlockTime sample_config = 2" "rc_SeqWindowSize sample_config = 3600" "IsDelta sample_config t"
  "MaxSequencerDrift sample_config t = 600"
  by (simp_all add: sample_config_def IsDelta_def fork_active_def MaxSequencerDrift_def
      IsFeatMaxSequencerDriftConstant_def IsFjord_def)

end
