(* ===== verification/BatchTypes.thy ===== *)
theory BatchTypes
  imports RollupConfig DeriveFrame
begin

text \<open>
  Batches: \<open>op-node/rollup/derive/singular_batch.go\<close>, and \<open>SpanBatch\<close> of \<open>span_batch.go\<close> as the
  batch queue sees it. Hashes are byte strings of 32 here where the code compares prefixes of them,
  so a block reference's hash, a 256-bit word, is written out by \<open>hash_bytes\<close>.
\<close>

section \<open>Batches\<close>

record singular_batch =
  sb_ParentHash :: hash
  sb_EpochNum :: u64
  sb_EpochHash :: hash
  sb_Timestamp :: u64
  sb_Transactions :: "bytes list"

record span_batch_element =
  se_EpochNum :: u64
  se_Timestamp :: u64
  se_Transactions :: "bytes list"

record span_batch =
  sp_ParentCheck :: bytes
  sp_L1OriginCheck :: bytes
  sp_Batches :: "span_batch_element list"

datatype batch = SingularB singular_batch | SpanB span_batch

definition singularBatchToElement :: "singular_batch \<Rightarrow> span_batch_element" where
  "singularBatchToElement b =
     \<lparr>se_EpochNum = sb_EpochNum b, se_Timestamp = sb_Timestamp b, se_Transactions = sb_Transactions b\<rparr>"

text \<open>\<open>b.Batches[i]\<close>, a panic out of range, as the accessors use it.\<close>

definition span_element :: "span_batch \<Rightarrow> nat \<Rightarrow> span_batch_element res" where
  "span_element b i = index_res (sp_Batches b) i"

definition sp_GetTimestamp :: "span_batch \<Rightarrow> u64 res" where
  "sp_GetTimestamp b = bind_res (span_element b 0) (\<lambda>e. Ok (se_Timestamp e))"

definition GetStartEpochNum :: "span_batch \<Rightarrow> u64 res" where
  "GetStartEpochNum b = bind_res (span_element b 0) (\<lambda>e. Ok (se_EpochNum e))"

definition CheckOriginHash :: "span_batch \<Rightarrow> hash \<Rightarrow> bool" where
  "CheckOriginHash b h \<longleftrightarrow> sp_L1OriginCheck b = take 20 (hash_bytes h)"

definition CheckParentHash :: "span_batch \<Rightarrow> hash \<Rightarrow> bool" where
  "CheckParentHash b h \<longleftrightarrow> sp_ParentCheck b = take 20 (hash_bytes h)"

definition GetBlockCount :: "span_batch \<Rightarrow> nat" where
  "GetBlockCount b = length (sp_Batches b)"

text \<open>\<open>GetTimestamp\<close> of either kind.\<close>

fun GetTimestamp :: "batch \<Rightarrow> u64 res" where
  "GetTimestamp (SingularB b) = Ok (sb_Timestamp b)"
| "GetTimestamp (SpanB b) = sp_GetTimestamp b"

text \<open>\<open>GetSingularBatches\<close>: the search for the L1 origin starts where the last one ended.\<close>

fun find_origin :: "u64 \<Rightarrow> nat \<Rightarrow> l1_block_ref list \<Rightarrow> (nat \<times> l1_block_ref) option" where
  "find_origin num i [] = None"
| "find_origin num i (b # bs) = (if l1_number b = num then Some (i, b) else find_origin num (Suc i) bs)"

fun singular_loop :: "l1_block_ref list \<Rightarrow> u64 \<Rightarrow> nat \<Rightarrow> span_batch_element list \<Rightarrow> singular_batch list res" where
  "singular_loop l1Origins safeTime originIdx [] = Ok []"
| "singular_loop l1Origins safeTime originIdx (e # es) =
     (if se_Timestamp e \<le> safeTime then singular_loop l1Origins safeTime originIdx es
      else case find_origin (se_EpochNum e) originIdx (drop originIdx l1Origins) of
        None \<Rightarrow> Err ''unable to find L1 origin for the epoch number''
      | Some (i, origin) \<Rightarrow>
          bind_res (singular_loop l1Origins safeTime i es) (\<lambda>bs.
          Ok (\<lparr>sb_ParentHash = 0, sb_EpochNum = se_EpochNum e, sb_EpochHash = l1_hash origin,
               sb_Timestamp = se_Timestamp e, sb_Transactions = se_Transactions e\<rparr> # bs)))"

definition GetSingularBatches :: "span_batch \<Rightarrow> l1_block_ref list \<Rightarrow> l2_block_ref \<Rightarrow> singular_batch list res" where
  "GetSingularBatches b l1Origins l2SafeHead = singular_loop l1Origins (l2_time l2SafeHead) 0 (sp_Batches b)"

end
