(* ===== verification/DeriveOut.thy ===== *)
theory DeriveOut
  imports DeriveChannel BatchTypes
begin

text \<open>
  The producing side: compressors (\<open>derive/channel_compressor.go\<close> and \<open>op-batcher/compressor\<close>) and the
  channel that cuts compressed data into frames (\<open>derive/channel_out.go\<close>). The zlib and brotli writers
  are third-party code: a \<open>writer\<close> gives what each of their calls appends to the output buffer. The
  interface \<open>Compressor\<close> that a channel is made with is a record of functions, and the locale
  \<open>compressor_laws\<close> states what the channel relies on.
\<close>

section \<open>Channel compressors\<close>

datatype compression_algo = Zlib | Brotli | Brotli9 | Brotli10 | Brotli11

fun IsBrotli :: "compression_algo \<Rightarrow> bool" where
  "IsBrotli Zlib = False"
| "IsBrotli _ = True"

definition ChannelVersionBrotli :: byte where "ChannelVersionBrotli = 1"

record 'w writer =
  w_new :: 'w
  w_write :: "'w \<Rightarrow> bytes \<Rightarrow> 'w \<times> bytes"
  w_flush :: "'w \<Rightarrow> 'w \<times> bytes"
  w_close :: "'w \<Rightarrow> 'w \<times> bytes"

record 'w channel_compressor =
  cc_algo :: compression_algo
  cc_compressed :: bytes
  cc_writer :: 'w

definition NewChannelCompressor :: "(compression_algo \<Rightarrow> 'w writer) \<Rightarrow> compression_algo \<Rightarrow> 'w channel_compressor" where
  "NewChannelCompressor ws algo = \<lparr>cc_algo = algo,
     cc_compressed = (if IsBrotli algo then [ChannelVersionBrotli] else []), cc_writer = w_new (ws algo)\<rparr>"

definition cc_append :: "'w \<times> bytes \<Rightarrow> 'w channel_compressor \<Rightarrow> 'w channel_compressor" where
  "cc_append r c = c\<lparr>cc_compressed := cc_compressed c @ snd r, cc_writer := fst r\<rparr>"

definition cc_Write :: "(compression_algo \<Rightarrow> 'w writer) \<Rightarrow> 'w channel_compressor \<Rightarrow> bytes \<Rightarrow> 'w channel_compressor" where
  "cc_Write ws c p = cc_append (w_write (ws (cc_algo c)) (cc_writer c) p) c"

definition cc_Flush :: "(compression_algo \<Rightarrow> 'w writer) \<Rightarrow> 'w channel_compressor \<Rightarrow> 'w channel_compressor" where
  "cc_Flush ws c = cc_append (w_flush (ws (cc_algo c)) (cc_writer c)) c"

definition cc_Close :: "(compression_algo \<Rightarrow> 'w writer) \<Rightarrow> 'w channel_compressor \<Rightarrow> 'w channel_compressor" where
  "cc_Close ws c = cc_append (w_close (ws (cc_algo c)) (cc_writer c)) c"

definition cc_Reset :: "(compression_algo \<Rightarrow> 'w writer) \<Rightarrow> 'w channel_compressor \<Rightarrow> 'w channel_compressor" where
  "cc_Reset ws c = c\<lparr>cc_compressed := (if IsBrotli (cc_algo c) then [ChannelVersionBrotli] else []),
     cc_writer := w_new (ws (cc_algo c))\<rparr>"

definition cc_Len :: "'w channel_compressor \<Rightarrow> nat" where
  "cc_Len c = length (cc_compressed c)"

text \<open>\<open>io.ReadFull\<close> of \<open>n\<close> bytes from the buffer.\<close>

definition cc_Read :: "'w channel_compressor \<Rightarrow> nat \<Rightarrow> ('w channel_compressor \<times> bytes) res" where
  "cc_Read c n = bind_res (read_full n (cc_compressed c)) (\<lambda>(d, rest). Ok (c\<lparr>cc_compressed := rest\<rparr>, d))"

section \<open>The interface Compressor\<close>

text \<open>Errors of \<open>Write\<close> come with the state it leaves.\<close>

record 'c compressor =
  c_Write :: "'c \<Rightarrow> bytes \<Rightarrow> 'c \<times> string option"
  c_Close :: "'c \<Rightarrow> 'c"
  c_Read :: "'c \<Rightarrow> nat \<Rightarrow> ('c \<times> bytes) res"
  c_Reset :: "'c \<Rightarrow> 'c"
  c_Len :: "'c \<Rightarrow> nat"
  c_Flush :: "'c \<Rightarrow> 'c"
  c_FullErr :: "'c \<Rightarrow> string option"

definition ErrCompressorFull :: string where "ErrCompressorFull = ''compressor is full''"

text \<open>The ratio compressor; its threshold is the quotient of two floating-point numbers of the
  configuration and is taken as given.\<close>

record 'w ratio_compressor =
  rc_threshold :: u64
  rc_inputBytes :: nat
  rc_compressor :: "'w channel_compressor"

definition inputTargetReached :: "'w ratio_compressor \<Rightarrow> bool" where
  "inputTargetReached t \<longleftrightarrow> of_nat (rc_inputBytes t) \<ge> rc_threshold t"

definition rc_FullErr :: "'w ratio_compressor \<Rightarrow> string option" where
  "rc_FullErr t = (if inputTargetReached t then Some ErrCompressorFull else None)"

definition rc_Write :: "(compression_algo \<Rightarrow> 'w writer) \<Rightarrow> 'w ratio_compressor \<Rightarrow> bytes \<Rightarrow> 'w ratio_compressor \<times> string option" where
  "rc_Write ws t p =
     (case rc_FullErr t of Some e \<Rightarrow> (t, Some e)
      | None \<Rightarrow> (t\<lparr>rc_inputBytes := rc_inputBytes t + length p,
                    rc_compressor := cc_Write ws (rc_compressor t) p\<rparr>, None))"

definition RatioCompressor :: "(compression_algo \<Rightarrow> 'w writer) \<Rightarrow> 'w ratio_compressor compressor" where
  "RatioCompressor ws = \<lparr>c_Write = rc_Write ws,
     c_Close = (\<lambda>t. t\<lparr>rc_compressor := cc_Close ws (rc_compressor t)\<rparr>),
     c_Read = (\<lambda>t n. bind_res (cc_Read (rc_compressor t) n) (\<lambda>(c, d). Ok (t\<lparr>rc_compressor := c\<rparr>, d))),
     c_Reset = (\<lambda>t. t\<lparr>rc_compressor := cc_Reset ws (rc_compressor t), rc_inputBytes := 0\<rparr>),
     c_Len = (\<lambda>t. cc_Len (rc_compressor t)),
     c_Flush = (\<lambda>t. t\<lparr>rc_compressor := cc_Flush ws (rc_compressor t)\<rparr>),
     c_FullErr = rc_FullErr\<rparr>"

definition NewRatioCompressor :: "(compression_algo \<Rightarrow> 'w writer) \<Rightarrow> compression_algo \<Rightarrow> u64 \<Rightarrow> 'w ratio_compressor" where
  "NewRatioCompressor ws algo threshold =
     \<lparr>rc_threshold = threshold, rc_inputBytes = 0, rc_compressor = NewChannelCompressor ws algo\<rparr>"

text \<open>The shadow compressor compresses everything twice, to know how large the output can get.\<close>

definition safeCompressionOverhead :: u64 where "safeCompressionOverhead = 51"
definition CloseOverheadZlib :: u64 where "CloseOverheadZlib = 9"

record 'w shadow_compressor =
  sc_targetOutputSize :: u64
  sc_compressor :: "'w channel_compressor"
  sc_shadow :: "'w channel_compressor"
  sc_fullErr :: "string option"
  sc_bound :: u64

definition sc_Write :: "(compression_algo \<Rightarrow> 'w writer) \<Rightarrow> 'w shadow_compressor \<Rightarrow> bytes \<Rightarrow> 'w shadow_compressor \<times> string option" where
  "sc_Write ws t p =
     (case sc_fullErr t of Some e \<Rightarrow> (t, Some e)
      | None \<Rightarrow>
         let t1 = t\<lparr>sc_shadow := cc_Write ws (sc_shadow t) p\<rparr>;
             newBound = sc_bound t1 + of_nat (length p)
         in if newBound > sc_targetOutputSize t1 then
              let t2 = t1\<lparr>sc_shadow := cc_Flush ws (sc_shadow t1)\<rparr>;
                  newBound = of_nat (cc_Len (sc_shadow t2)) + CloseOverheadZlib
              in if newBound > sc_targetOutputSize t2 then
                   let t3 = t2\<lparr>sc_fullErr := Some ErrCompressorFull\<rparr> in
                   if cc_Len (sc_compressor t3) > 0 then (t3, sc_fullErr t3)
                   else (t3\<lparr>sc_bound := newBound, sc_compressor := cc_Write ws (sc_compressor t3) p\<rparr>, None)
                 else (t2\<lparr>sc_bound := newBound, sc_compressor := cc_Write ws (sc_compressor t2) p\<rparr>, None)
            else (t1\<lparr>sc_bound := newBound, sc_compressor := cc_Write ws (sc_compressor t1) p\<rparr>, None))"

definition ShadowCompressor :: "(compression_algo \<Rightarrow> 'w writer) \<Rightarrow> 'w shadow_compressor compressor" where
  "ShadowCompressor ws = \<lparr>c_Write = sc_Write ws,
     c_Close = (\<lambda>t. t\<lparr>sc_compressor := cc_Close ws (sc_compressor t)\<rparr>),
     c_Read = (\<lambda>t n. bind_res (cc_Read (sc_compressor t) n) (\<lambda>(c, d). Ok (t\<lparr>sc_compressor := c\<rparr>, d))),
     c_Reset = (\<lambda>t. t\<lparr>sc_compressor := cc_Reset ws (sc_compressor t), sc_shadow := cc_Reset ws (sc_shadow t),
                     sc_fullErr := None, sc_bound := safeCompressionOverhead\<rparr>),
     c_Len = (\<lambda>t. cc_Len (sc_compressor t)),
     c_Flush = (\<lambda>t. t\<lparr>sc_compressor := cc_Flush ws (sc_compressor t)\<rparr>),
     c_FullErr = sc_fullErr\<rparr>"

definition NewShadowCompressor :: "(compression_algo \<Rightarrow> 'w writer) \<Rightarrow> compression_algo \<Rightarrow> u64 \<Rightarrow> 'w shadow_compressor" where
  "NewShadowCompressor ws algo target = \<lparr>sc_targetOutputSize = target, sc_compressor = NewChannelCompressor ws algo,
     sc_shadow = NewChannelCompressor ws algo, sc_fullErr = None, sc_bound = safeCompressionOverhead\<rparr>"

text \<open>The compressor that stores: a zlib writer at level 0, flushed before each write.\<close>

record 'w non_compressor =
  nc_targetOutputSize :: u64
  nc_buf :: bytes
  nc_compress :: 'w
  nc_fullErr :: "string option"

definition nc_Write :: "'w writer \<Rightarrow> 'w non_compressor \<Rightarrow> bytes \<Rightarrow> 'w non_compressor \<times> string option" where
  "nc_Write zw t p =
     (case w_flush zw (nc_compress t) of (w1, o1) \<Rightarrow>
      case w_write zw w1 p of (w2, o2) \<Rightarrow>
      let t1 = t\<lparr>nc_buf := nc_buf t @ o1 @ o2, nc_compress := w2\<rparr> in
      (if of_nat (length (nc_buf t1)) > nc_targetOutputSize t1
       then t1\<lparr>nc_fullErr := Some ErrCompressorFull\<rparr> else t1, None))"

definition NonCompressor :: "'w writer \<Rightarrow> 'w non_compressor compressor" where
  "NonCompressor zw = \<lparr>c_Write = nc_Write zw,
     c_Close = (\<lambda>t. case w_close zw (nc_compress t) of (w, out) \<Rightarrow> t\<lparr>nc_buf := nc_buf t @ out, nc_compress := w\<rparr>),
     c_Read = (\<lambda>t n. bind_res (read_full n (nc_buf t)) (\<lambda>(d, rest). Ok (t\<lparr>nc_buf := rest\<rparr>, d))),
     c_Reset = (\<lambda>t. t\<lparr>nc_buf := [], nc_compress := w_new zw, nc_fullErr := None\<rparr>),
     c_Len = (\<lambda>t. length (nc_buf t)),
     c_Flush = (\<lambda>t. case w_flush zw (nc_compress t) of (w, out) \<Rightarrow> t\<lparr>nc_buf := nc_buf t @ out, nc_compress := w\<rparr>),
     c_FullErr = nc_fullErr\<rparr>"

definition NewNonCompressor :: "'w writer \<Rightarrow> u64 \<Rightarrow> 'w non_compressor" where
  "NewNonCompressor zw target = \<lparr>nc_targetOutputSize = target, nc_buf = [], nc_compress = w_new zw, nc_fullErr = None\<rparr>"

section \<open>The outgoing channel\<close>

definition FrameV0OverHeadSize :: u64 where "FrameV0OverHeadSize = 23"
definition ErrMaxFrameSizeTooSmall :: string where
  "ErrMaxFrameSizeTooSmall = ''maxSize is too small to fit the fixed frame overhead''"
definition ErrChannelOutAlreadyClosed :: string where "ErrChannelOutAlreadyClosed = ''channel-out already closed''"
definition ErrTooManyRLPBytes :: string where "ErrTooManyRLPBytes = ''batch would cause RLP bytes to go over limit''"

text \<open>The random identifier is an argument.\<close>

record 'c channel_out =
  co_id :: bytes
  co_frame :: u64
  co_rlpLength :: nat
  co_compress :: 'c
  co_closed :: bool

definition NewSingularChannelOut :: "bytes \<Rightarrow> 'c \<Rightarrow> 'c channel_out" where
  "NewSingularChannelOut random compress =
     \<lparr>co_id = random, co_frame = 0, co_rlpLength = 0, co_compress = compress, co_closed = False\<rparr>"

definition co_Reset :: "'c compressor \<Rightarrow> bytes \<Rightarrow> 'c channel_out \<Rightarrow> 'c channel_out" where
  "co_Reset cmp random co = co\<lparr>co_frame := 0, co_rlpLength := 0, co_compress := c_Reset cmp (co_compress co),
     co_closed := False, co_id := random\<rparr>"

text \<open>\<open>rlp\<close> is the RLP encoding of the batch's \<open>BatchData\<close>; an error comes with the state it leaves.\<close>

definition AddSingularBatch ::
    "'c compressor \<Rightarrow> rollup_config \<Rightarrow> (singular_batch \<Rightarrow> bytes) \<Rightarrow> singular_batch \<Rightarrow> 'c channel_out \<Rightarrow> 'c channel_out \<times> string option" where
  "AddSingularBatch cmp cfg rlp b co =
     (if co_closed co then (co, Some ErrChannelOutAlreadyClosed)
      else
        let buf = rlp b; maxRLPBytesPerChannel = MaxRLPBytesPerChannel cfg (sb_Timestamp b) in
        if co_rlpLength co + length buf > unat maxRLPBytesPerChannel then (co, Some ErrTooManyRLPBytes)
        else
          case c_Write cmp (co_compress co) buf of (c, err) \<Rightarrow>
          (co\<lparr>co_rlpLength := co_rlpLength co + length buf, co_compress := c\<rparr>, err))"

definition ReadyBytes :: "'c compressor \<Rightarrow> 'c channel_out \<Rightarrow> nat" where
  "ReadyBytes cmp co = c_Len cmp (co_compress co)"

definition co_Flush :: "'c compressor \<Rightarrow> 'c channel_out \<Rightarrow> 'c channel_out" where
  "co_Flush cmp co = co\<lparr>co_compress := c_Flush cmp (co_compress co)\<rparr>"

definition co_FullErr :: "'c compressor \<Rightarrow> 'c channel_out \<Rightarrow> string option" where
  "co_FullErr cmp co = c_FullErr cmp (co_compress co)"

definition co_Close :: "'c compressor \<Rightarrow> 'c channel_out \<Rightarrow> 'c channel_out res" where
  "co_Close cmp co =
     guard_err (\<not> co_closed co) ErrChannelOutAlreadyClosed
       (Ok (co\<lparr>co_closed := True, co_compress := c_Close cmp (co_compress co)\<rparr>))"

text \<open>\<open>createEmptyFrame\<close>, with the length of the data to be filled in.\<close>

definition createEmptyFrame :: "bytes \<Rightarrow> u64 \<Rightarrow> nat \<Rightarrow> bool \<Rightarrow> u64 \<Rightarrow> frame \<times> nat" where
  "createEmptyFrame cid frm readyBytes closed maxSize =
     (let maxDataSize = maxSize - FrameV0OverHeadSize in
      if maxDataSize \<ge> of_nat readyBytes then
        (\<lparr>f_ID = cid, f_FrameNumber = ucast frm, f_Data = [], f_IsLast = closed\<rparr>, readyBytes)
      else (\<lparr>f_ID = cid, f_FrameNumber = ucast frm, f_Data = [], f_IsLast = False\<rparr>, unat maxDataSize))"

text \<open>\<open>OutputFrame\<close> gives the bytes it writes to the buffer; the flag is the \<open>io.EOF\<close> of a last frame.\<close>

definition OutputFrame :: "'c compressor \<Rightarrow> u64 \<Rightarrow> 'c channel_out \<Rightarrow> ('c channel_out \<times> bytes \<times> u16 \<times> bool) res" where
  "OutputFrame cmp maxSize co =
     guard_err (\<not> maxSize < FrameV0OverHeadSize) ErrMaxFrameSizeTooSmall
     (case createEmptyFrame (co_id co) (co_frame co) (ReadyBytes cmp co) (co_closed co) maxSize of (f, n) \<Rightarrow>
      bind_res (c_Read cmp (co_compress co) n) (\<lambda>(c, dat).
      let f = f\<lparr>f_Data := dat\<rparr> in
      Ok (co\<lparr>co_compress := c, co_frame := co_frame co + 1\<rparr>, MarshalBinary f, f_FrameNumber f, f_IsLast f)))"

section \<open>Force-closing a channel\<close>

text \<open>The loop over all frame numbers up to the closing one. Its counter is a \<open>uint16\<close> and so always
  at most 65535; \<open>None\<close> is a loop that does not end.\<close>

partial_function (option) force_loop :: "bytes \<Rightarrow> u16 set \<Rightarrow> u16 \<Rightarrow> u16 \<Rightarrow> bytes \<Rightarrow> bytes option" where
  "force_loop cid have closeNumber i out =
     (if i \<le> closeNumber then
        force_loop cid have closeNumber (i + 1)
          (if i \<in> have then out
           else out @ MarshalBinary \<lparr>f_ID = cid, f_FrameNumber = i, f_Data = [], f_IsLast = False\<rparr>)
      else Some out)"

text \<open>The first loop: the number of the first closing frame, whether there is one, the numbers seen.\<close>

fun force_scan :: "bytes \<Rightarrow> frame list \<Rightarrow> u16 \<Rightarrow> bool \<Rightarrow> u16 set \<Rightarrow> (u16 \<times> bool \<times> u16 set) res" where
  "force_scan cid [] closeNumber closed have = Ok (closeNumber, closed, have)"
| "force_scan cid (f # fs) closeNumber closed have =
     (let closeNumber = (if \<not> closed \<and> f_IsLast f then f_FrameNumber f else closeNumber);
          closed = (closed \<or> f_IsLast f);
          have = insert (f_FrameNumber f) have
      in guard_err (f_ID f = cid) ''invalid ID in list'' (force_scan cid fs closeNumber closed have))"

definition ForceCloseTxData :: "frame list \<Rightarrow> bytes res option" where
  "ForceCloseTxData frames =
     (case frames of
        [] \<Rightarrow> Some (Err ''must provide at least one frame'')
      | f0 # _ \<Rightarrow>
          (case force_scan (f_ID f0) frames 0 False {} of
             Ok (closeNumber, closed, have) \<Rightarrow>
               if \<not> closed then
                 Some (Ok (DerivationVersion0 # MarshalBinary \<lparr>f_ID = f_ID f0, f_FrameNumber = 0, f_Data = [], f_IsLast = True\<rparr>))
               else map_option Ok (force_loop (f_ID f0) have closeNumber 0 [DerivationVersion0])
           | Err e \<Rightarrow> Some (Err e)
           | Panic e \<Rightarrow> Some (Panic e)))"

section \<open>What a channel relies on\<close>

text \<open>The buffer of compressed bytes behind a compressor: its length is what \<open>Len\<close> reports, and
  reading takes bytes from its front.\<close>

locale compressor_laws =
  fixes cmp :: "'c compressor" and content :: "'c \<Rightarrow> bytes"
  assumes Len_content: "c_Len cmp c = length (content c)"
    and Read_content: "n \<le> length (content c) \<Longrightarrow>
      \<exists>c'. c_Read cmp c n = Ok (c', take n (content c)) \<and> content c' = drop n (content c)"
begin

lemma OutputFrame_ok:
  assumes "co_closed co" "23 < maxSize" "length (content (co_compress co)) < 2 ^ 64"
  shows "\<exists>co' f. OutputFrame cmp maxSize co = Ok (co', MarshalBinary f, f_FrameNumber f, f_IsLast f) \<and>
    f_ID f = co_id co \<and> f_FrameNumber f = ucast (co_frame co) \<and>
    f_IsLast f = (length (content (co_compress co)) \<le> unat maxSize - 23) \<and>
    f_Data f = take (unat maxSize - 23) (content (co_compress co)) \<and>
    content (co_compress co') = drop (unat maxSize - 23) (content (co_compress co)) \<and>
    co_closed co' \<and> co_id co' = co_id co \<and> co_frame co' = co_frame co + 1"
proof -
  let ?b = "content (co_compress co)"
  have m: "unat (maxSize - 23) = unat maxSize - 23" using assms(2) by (simp add: unat_sub word_le_nat_alt word_less_nat_alt)
  have r: "unat (of_nat (length ?b) :: u64) = length ?b" using assms(3) by (simp add: unat_of_nat)
  define n where "n = min (length ?b) (unat maxSize - 23)"
  have le: "of_nat (length ?b) \<le> maxSize - 23 \<longleftrightarrow> length ?b \<le> unat maxSize - 23"
    unfolding word_le_nat_alt r m ..
  have cf: "createEmptyFrame (co_id co) (co_frame co) (ReadyBytes cmp co) (co_closed co) maxSize =
      (\<lparr>f_ID = co_id co, f_FrameNumber = ucast (co_frame co), f_Data = [],
        f_IsLast = (length ?b \<le> unat maxSize - 23)\<rparr>, n)"
    using assms(1) by (simp add: createEmptyFrame_def ReadyBytes_def Len_content Let_def FrameV0OverHeadSize_def le m n_def)
  obtain c' where c': "c_Read cmp (co_compress co) n = Ok (c', take n ?b)" "content c' = drop n ?b"
    using Read_content [of n "co_compress co"] by (auto simp: n_def)
  have ok: "(\<not> maxSize < FrameV0OverHeadSize) = True" using assms(2) by (simp add: FrameV0OverHeadSize_def)
  have n: "take n ?b = take (unat maxSize - 23) ?b" "drop n ?b = drop (unat maxSize - 23) ?b"
    by (simp_all add: n_def min_def)
  let ?f = "\<lparr>f_ID = co_id co, f_FrameNumber = ucast (co_frame co), f_Data = take n ?b,
    f_IsLast = (length ?b \<le> unat maxSize - 23)\<rparr>"
  have "OutputFrame cmp maxSize co = Ok (co\<lparr>co_compress := c', co_frame := co_frame co + 1\<rparr>, MarshalBinary ?f,
      f_FrameNumber ?f, f_IsLast ?f)"
    unfolding OutputFrame_def ok guard_err_simps cf prod.case c'(1) bind_res.simps Let_def by simp
  then show ?thesis using c'(2) n assms(1)
    by (intro exI [of _ "co\<lparr>co_compress := c', co_frame := co_frame co + 1\<rparr>"] exI [of _ ?f]) simp
qed

end

lemma cc_Read_content:
  "n \<le> length (cc_compressed c) \<Longrightarrow>
   cc_Read c n = Ok (c\<lparr>cc_compressed := drop n (cc_compressed c)\<rparr>, take n (cc_compressed c))"
  by (simp add: cc_Read_def read_full_def)

interpretation ratio: compressor_laws "RatioCompressor ws" "\<lambda>t. cc_compressed (rc_compressor t)"
  by unfold_locales (simp_all add: RatioCompressor_def cc_Len_def cc_Read_content)

interpretation shadow: compressor_laws "ShadowCompressor ws" "\<lambda>t. cc_compressed (sc_compressor t)"
  by unfold_locales (simp_all add: ShadowCompressor_def cc_Len_def cc_Read_content)

interpretation non: compressor_laws "NonCompressor zw" nc_buf
  by unfold_locales (simp_all add: NonCompressor_def read_full_def)

section \<open>Draining a closed channel\<close>

text \<open>Frames are taken with the given maximum sizes until the last one.\<close>

fun drain :: "'c compressor \<Rightarrow> u64 list \<Rightarrow> 'c channel_out \<Rightarrow> bytes list res" where
  "drain cmp [] co = Ok []"
| "drain cmp (m # ms) co = bind_res (OutputFrame cmp m co) (\<lambda>(co', bs, num, isLast).
     if isLast then Ok [bs] else bind_res (drain cmp ms co') (\<lambda>r. Ok (bs # r)))"

definition sizes_ok :: "u64 list \<Rightarrow> bool" where
  "sizes_ok ms \<longleftrightarrow> ms \<noteq> [] \<and> list_all (\<lambda>m. 23 < m \<and> unat m \<le> MaxFrameLen + 23) ms"

definition capacity :: "u64 list \<Rightarrow> nat" where
  "capacity ms = sum_list (map (\<lambda>m. unat m - 23) ms)"

lemma ucast_u64_u16: "ucast (of_nat k :: u64) = (of_nat k :: u16)"
  by transfer simp

lemma list_all_upt: "list_all P [0..<Suc n] \<longleftrightarrow> P 0 \<and> list_all (\<lambda>i. P (Suc i)) [0..<n]"
  unfolding list_all_iff set_upt by (auto simp: less_Suc_eq_0_disj)

lemma capacity_bound: "list_all (\<lambda>m. 23 < m \<and> unat m \<le> MaxFrameLen + 23) ms \<Longrightarrow> capacity ms \<le> MaxFrameLen * length ms"
  by (induction ms) (auto simp: capacity_def)

context compressor_laws
begin

lemma drain_frames:
  assumes "co_closed co" "list_all (\<lambda>m. 23 < m \<and> unat m \<le> MaxFrameLen + 23) ms" "ms \<noteq> []" "length ms \<le> 65536"
    and "length (content (co_compress co)) \<le> capacity ms" "co_frame co = of_nat k"
  shows "\<exists>fs. drain cmp ms co = Ok (map MarshalBinary fs) \<and> fs \<noteq> [] \<and> length fs \<le> length ms \<and>
    concat (map f_Data fs) = content (co_compress co) \<and>
    list_all (\<lambda>i. f_ID (fs ! i) = co_id co \<and> f_FrameNumber (fs ! i) = of_nat (k + i) \<and>
      (f_IsLast (fs ! i) \<longleftrightarrow> Suc i = length fs) \<and> length (f_Data (fs ! i)) \<le> MaxFrameLen) [0..<length fs]"
  using assms
proof (induction ms arbitrary: co k)
  case (Cons m ms)
  let ?b = "content (co_compress co)"
  have "length ?b \<le> MaxFrameLen * 65536"
    using capacity_bound [of "m # ms"] Cons.prems(2,4,5) by (simp add: MaxFrameLen_def)
  then have "length ?b < 2 ^ 64" by (simp add: MaxFrameLen_def)
  then obtain co' f where f: "OutputFrame cmp m co = Ok (co', MarshalBinary f, f_FrameNumber f, f_IsLast f)"
    "f_ID f = co_id co" "f_FrameNumber f = ucast (co_frame co)"
    "f_IsLast f = (length ?b \<le> unat m - 23)" "f_Data f = take (unat m - 23) ?b"
    "content (co_compress co') = drop (unat m - 23) ?b" "co_closed co'" "co_id co' = co_id co" "co_frame co' = co_frame co + 1"
    using OutputFrame_ok [of co m] Cons.prems by auto
  have num: "f_FrameNumber f = of_nat k" using f(3) Cons.prems(6) by (simp add: ucast_u64_u16)
  have dl: "length (f_Data f) \<le> MaxFrameLen" using f(5) Cons.prems(2) by auto
  show ?case
  proof (cases "f_IsLast f")
    case True
    then show ?thesis using f num dl by (intro exI [of _ "[f]"]) simp
  next
    case False
    then have more: "unat m - 23 < length ?b" using f(4) by simp
    have "length (content (co_compress co')) \<le> capacity ms"
      using Cons.prems(5) more by (simp add: f(6) capacity_def)
    moreover have "ms \<noteq> []" using Cons.prems(5) more by (auto simp: capacity_def)
    ultimately obtain fs where fs: "drain cmp ms co' = Ok (map MarshalBinary fs)" "fs \<noteq> []" "length fs \<le> length ms"
      "concat (map f_Data fs) = drop (unat m - 23) ?b"
      "list_all (\<lambda>i. f_ID (fs ! i) = co_id co \<and> f_FrameNumber (fs ! i) = of_nat (Suc k + i) \<and>
        (f_IsLast (fs ! i) \<longleftrightarrow> Suc i = length fs) \<and> length (f_Data (fs ! i)) \<le> MaxFrameLen) [0..<length fs]"
      using Cons.IH [of co' "Suc k"] Cons.prems f by auto
    have "list_all (\<lambda>i. f_ID ((f # fs) ! i) = co_id co \<and> f_FrameNumber ((f # fs) ! i) = of_nat (k + i) \<and>
        (f_IsLast ((f # fs) ! i) \<longleftrightarrow> Suc i = length (f # fs)) \<and> length (f_Data ((f # fs) ! i)) \<le> MaxFrameLen) [0..<length (f # fs)]"
      unfolding length_Cons list_all_upt using fs(2,5) f(2) num dl False by (simp add: add.commute add.left_commute)
    then show ?thesis using f(1,5) fs False by (intro exI [of _ "f # fs"]) simp
  qed
qed simp

end

end
