(* ===== verification/DeriveOutProps.thy ===== *)
theory DeriveOutProps
  imports DeriveOut
begin

text \<open>
  What leaves a channel comes back: the frames of a closed outgoing channel, through their binary
  form and the incoming channel, give the compressed bytes again. And the force-closing transaction
  of \<open>channel_out.go\<close>: when it is produced, what it contains and what it does to the channel.
\<close>

section \<open>Out and back in\<close>

lemma stream_frames_ok:
  assumes "stream cid fs" "length cid = 16" "list_all (\<lambda>i. length (f_Data (fs ! i)) \<le> MaxFrameLen) [0..<length fs]"
  shows "list_all frame_ok fs"
  using stream_nth(1) [OF assms(1)] assms(2,3)
  by (auto simp: list_all_length frame_ok_def ChannelIDLength_def list_all_iff)

text \<open>C20: A closed outgoing channel over the shadow compressor, drained with any frame sizes that have
  room for its data in at most 65536 frames, yields bytes that parse as frames from which the
  receiving channel rebuilds exactly the compressed data.\<close>

theorem channel_out_roundtrip:
  assumes "co_closed co" "co_frame co = 0" "length (co_id co) = 16" "sizes_ok ms" "length ms \<le> 65536"
    "length (cc_compressed (sc_compressor (co_compress co))) \<le> capacity ms"
  shows "\<exists>frames fs. drain (ShadowCompressor ws) ms co = Ok frames \<and>
    ParseFrames (DerivationVersion0 # concat frames) = Ok fs \<and>
    (let ch = foldl offer (NewChannel (co_id co) origin) (map (\<lambda>f. (f, origin)) fs) in
     IsReady ch \<and> Reader ch = Ok (cc_compressed (sc_compressor (co_compress co))))"
proof -
  let ?P = "\<lambda>fs i. f_ID (fs ! i) = co_id co \<and> f_FrameNumber (fs ! i) = of_nat (0 + i) \<and>
      (f_IsLast (fs ! i) \<longleftrightarrow> Suc i = length fs) \<and> length (f_Data (fs ! i)) \<le> MaxFrameLen"
  obtain fs where fs: "drain (ShadowCompressor ws) ms co = Ok (map MarshalBinary fs)" "fs \<noteq> []" "length fs \<le> length ms"
    "concat (map f_Data fs) = cc_compressed (sc_compressor (co_compress co))" "list_all (?P fs) [0..<length fs]"
    using shadow.drain_frames [of co ms 0 ws] assms by (auto simp: sizes_ok_def)
  have st: "stream (co_id co) fs" using fs(2,3,5) assms(5) by (auto simp: stream_def list_all_iff)
  have "list_all frame_ok fs"
    by (rule stream_frames_ok [OF st assms(3)]) (use fs(5) in \<open>auto simp: list_all_iff\<close>)
  then have parse: "ParseFrames (DerivationVersion0 # concat (map MarshalBinary fs)) = Ok fs"
    using fs(2) by (simp add: ParseFrames_def res_simps parse_loop_Ok)
  have "holds (co_id co) fs (set fs) (foldl offer (NewChannel (co_id co) origin) (map (\<lambda>f. (f, origin)) fs))"
    using holds_offers [OF st, of "map (\<lambda>f. (f, origin)) fs" origin] by (simp add: image_image)
  then show ?thesis using fs(1,4) parse holds_ready [OF st] by (auto simp: Let_def)
qed

definition store_writer :: "unit writer" where
  "store_writer = \<lparr>w_new = (), w_write = (\<lambda>w p. (w, p)), w_flush = (\<lambda>w. (w, [])), w_close = (\<lambda>w. (w, [0xff]))\<rparr>"

theorem channel_out_roundtrip_witness:
  "\<exists>co frames fs. co_Close (ShadowCompressor (\<lambda>_. store_writer))
      (NewSingularChannelOut (replicate 16 9) (fst (sc_Write (\<lambda>_. store_writer)
        (NewShadowCompressor (\<lambda>_. store_writer) Zlib 1000) [1, 2, 3]))) = Ok co \<and>
    drain (ShadowCompressor (\<lambda>_. store_writer)) [25, 25] co = Ok frames \<and>
    ParseFrames (DerivationVersion0 # concat frames) = Ok fs \<and>
    Reader (foldl offer (NewChannel (replicate 16 9) zero_l1_ref) (map (\<lambda>f. (f, zero_l1_ref)) fs)) = Ok [1, 2, 3, 0xff]"
proof -
  define co where "co = \<lparr>co_id = replicate 16 9, co_frame = 0, co_rlpLength = 0,
    co_compress = \<lparr>sc_targetOutputSize = 1000,
      sc_compressor = \<lparr>cc_algo = Zlib, cc_compressed = [1, 2, 3, 0xff :: byte], cc_writer = ()\<rparr>,
      sc_shadow = \<lparr>cc_algo = Zlib, cc_compressed = [1, 2, 3], cc_writer = ()\<rparr>, sc_fullErr = None, sc_bound = 54\<rparr>,
    co_closed = True\<rparr>"
  have "co_Close (ShadowCompressor (\<lambda>_. store_writer))
      (NewSingularChannelOut (replicate 16 9) (fst (sc_Write (\<lambda>_. store_writer)
        (NewShadowCompressor (\<lambda>_. store_writer) Zlib 1000) [1, 2, 3]))) = Ok co"
    by (simp add: co_def co_Close_def NewSingularChannelOut_def sc_Write_def NewShadowCompressor_def ShadowCompressor_def
        NewChannelCompressor_def cc_Write_def cc_Close_def cc_append_def store_writer_def safeCompressionOverhead_def Let_def)
  moreover have "sizes_ok [25, 25]" "capacity [25, 25] = 4" by (simp_all add: sizes_ok_def capacity_def MaxFrameLen_def)
  ultimately show ?thesis
    using channel_out_roundtrip [of co "[25, 25]" "\<lambda>_. store_writer" zero_l1_ref]
    by (auto simp: Let_def co_def)
qed

section \<open>Force-closing\<close>

definition empty_frame :: "bytes \<Rightarrow> u16 \<Rightarrow> frame" where
  "empty_frame cid n = \<lparr>f_ID = cid, f_FrameNumber = n, f_Data = [], f_IsLast = False\<rparr>"

lemma force_loop_end:
  "i \<le> Suc (unat n) \<Longrightarrow> n \<noteq> 65535 \<Longrightarrow> force_loop cid have n (of_nat i) out = Some (out @ concat (map
     (\<lambda>j. if (of_nat j :: u16) \<in> have then [] else MarshalBinary (empty_frame cid (of_nat j))) [i..<Suc (unat n)]))"
proof (induction "Suc (unat n) - i" arbitrary: i out)
  case 0
  then have i: "i = Suc (unat n)" by simp
  have "unat n \<noteq> unat (65535 :: u16)" using 0(3) unfolding word_unat_eq_iff .
  then have "unat n < 65535" using unat_u16 [of n] by simp
  then have "unat (of_nat i :: u16) = Suc (unat n)" unfolding i unat_of_nat by simp
  then have "\<not> (of_nat i :: u16) \<le> n" by (simp add: word_le_nat_alt)
  then show ?case using i by (subst force_loop.simps) simp
next
  case (Suc k)
  then have lt: "i < Suc (unat n)" by simp
  then have "unat (of_nat i :: u16) = i" using unat_u16 [of n] by (simp add: unat_of_nat)
  then have le: "(of_nat i :: u16) \<le> n" using lt by (simp add: word_le_nat_alt)
  have step: "[i..<Suc (unat n)] = i # [Suc i..<Suc (unat n)]" using lt by (rule upt_conv_Cons)
  have "(of_nat i :: u16) + 1 = of_nat (Suc i)" by simp
  then show ?case using le Suc.hyps(1) [of "Suc i"] Suc.hyps(2) Suc.prems(2) lt
    by (subst force_loop.simps) (simp add: step empty_frame_def del: upt_Suc of_nat_Suc)
qed

lemma force_loop_runs:
  assumes ret: "force_loop cid have n i out = Some r"
  shows "n \<noteq> 65535"
proof (rule force_loop.raw_induct [where P = "\<lambda>cid have n i out r. n \<noteq> 65535", OF _ ret])
  fix f cid "have" n i out r
  assume IH: "\<And>cid have n i out r. f cid have n i out = Some r \<Longrightarrow> n \<noteq> 65535"
    and step: "(if i \<le> n then f cid have n (i + 1)
      (if i \<in> have then out else out @ MarshalBinary \<lparr>f_ID = cid, f_FrameNumber = i, f_Data = [], f_IsLast = False\<rparr>)
      else Some out) = Some r"
  have "i \<le> 65535" using unat_u16 [of i] by (simp add: word_le_nat_alt)
  then show "n \<noteq> 65535" using IH step by (auto split: if_splits)
qed

lemma force_scan_ids:
  "list_all (\<lambda>f. f_ID f = cid) fs \<Longrightarrow> force_scan cid fs n c have =
    Ok (if c then n else case find f_IsLast fs of None \<Rightarrow> n | Some g \<Rightarrow> f_FrameNumber g,
        c \<or> list_ex f_IsLast fs, have \<union> f_FrameNumber ` set fs)"
  by (induction fs arbitrary: n c "have") (auto simp: Let_def split: option.splits)

text \<open>C37: When one of the given frames closes the channel, the force-closing transaction holds an empty
  frame for each number up to the closing one that is missing, in order - unless the closing number
  is 65535, the largest there is: then the \<open>uint16\<close> counter wraps around and \<open>ForceCloseTxData\<close>
  never returns.\<close>

theorem force_close_returns:
  assumes "list_all (\<lambda>f. f_ID f = f_ID (hd frames)) frames" "find f_IsLast frames = Some g"
  shows "ForceCloseTxData frames =
    (if f_FrameNumber g = 65535 then None
     else Some (Ok (DerivationVersion0 # concat (map (\<lambda>j. MarshalBinary (empty_frame (f_ID (hd frames)) j))
       (filter (\<lambda>j. j \<notin> f_FrameNumber ` set frames) (map of_nat [0..<Suc (unat (f_FrameNumber g))]))))))"
proof -
  obtain f0 fs where f0: "frames = f0 # fs" using assms(2) by (cases frames) auto
  have "list_ex f_IsLast frames" using assms(2) by (auto simp: find_Some_iff list_ex_length)
  then have sc: "force_scan (f_ID f0) frames 0 False {} = Ok (f_FrameNumber g, True, f_FrameNumber ` set frames)"
    using force_scan_ids [OF assms(1), of 0 False "{}"] assms(2) f0 by simp
  have d: "ForceCloseTxData frames = map_option Ok (force_loop (f_ID f0) (f_FrameNumber ` set frames) (f_FrameNumber g) 0 [DerivationVersion0])"
    using sc unfolding ForceCloseTxData_def f0 by simp
  show ?thesis
  proof (cases "f_FrameNumber g = 65535")
    case True
    then have "force_loop (f_ID f0) (f_FrameNumber ` set frames) (f_FrameNumber g) 0 [DerivationVersion0] = None"
      using force_loop_runs by (metis not_None_eq)
    then show ?thesis using True d by simp
  next
    case False
    have c: "concat (map (\<lambda>j. if (of_nat j :: u16) \<in> H then [] else MarshalBinary (empty_frame c (of_nat j))) js) =
      concat (map (\<lambda>j. MarshalBinary (empty_frame c j)) (filter (\<lambda>j. j \<notin> H) (map of_nat js)))" for H c js
      by (induction js) auto
    have "force_loop (f_ID f0) (f_FrameNumber ` set frames) (f_FrameNumber g) 0 [DerivationVersion0] =
      Some (DerivationVersion0 # concat (map (\<lambda>j. MarshalBinary (empty_frame (f_ID (hd frames)) j))
       (filter (\<lambda>j. j \<notin> f_FrameNumber ` set frames) (map of_nat [0..<Suc (unat (f_FrameNumber g))]))))"
      using force_loop_end [of 0 "f_FrameNumber g" "f_ID f0" "f_FrameNumber ` set frames" "[DerivationVersion0]"] False
      unfolding c f0 by (simp del: upt_Suc)
    then show ?thesis using False unfolding d by simp
  qed
qed

theorem force_close_returns_witness:
  "ForceCloseTxData [\<lparr>f_ID = replicate 16 5, f_FrameNumber = 65535, f_Data = [], f_IsLast = True\<rparr>] = None \<and>
   ForceCloseTxData [\<lparr>f_ID = replicate 16 5, f_FrameNumber = 1, f_Data = [], f_IsLast = True\<rparr>] =
     Some (Ok (0 # replicate 16 5 @ [0, 0, 0, 0, 0, 0, 0]))"
proof -
  let ?f = "\<lambda>n. \<lparr>f_ID = replicate 16 5, f_FrameNumber = n, f_Data = [], f_IsLast = True\<rparr>"
  have "ForceCloseTxData [?f 65535] = None" using force_close_returns [of "[?f 65535]" "?f 65535"] by simp
  moreover have "ForceCloseTxData [?f 1] = Some (Ok (0 # replicate 16 5 @ [0, 0, 0, 0, 0, 0, 0]))"
    using force_close_returns [of "[?f 1]" "?f 1"]
    by (simp add: upt_rec empty_frame_def MarshalBinary_def be16_def be32_def DerivationVersion0_def)
  ultimately show ?thesis by blast
qed

text \<open>When no frame closes the channel, the transaction is a closing frame with number 0. A channel that
  holds its frame 0 already rejects it as a duplicate, so it stays open.\<close>

theorem force_close_duplicate:
  assumes "frames \<noteq> []" "list_all (\<lambda>f. f_ID f = ch_id ch \<and> \<not> f_IsLast f) frames" "length (ch_id ch) = 16"
    "map_of (ch_inputs ch) 0 \<noteq> None"
  shows "\<exists>data f. ForceCloseTxData frames = Some (Ok data) \<and> ParseFrames data = Ok [f] \<and> f_IsLast f \<and> offer ch (f, origin) = ch"
proof -
  obtain f0 fs where f0: "frames = f0 # fs" using assms(1) by (cases frames) auto
  let ?f = "\<lparr>f_ID = ch_id ch, f_FrameNumber = 0, f_Data = [], f_IsLast = True\<rparr>"
  have "list_all (\<lambda>f. f_ID f = f_ID f0) frames" "\<not> list_ex f_IsLast frames" "f_ID f0 = ch_id ch"
    using assms(2) by (auto simp: f0 list_all_iff list_ex_iff)
  then have "ForceCloseTxData frames = Some (Ok (DerivationVersion0 # MarshalBinary ?f))"
    using force_scan_ids [of "f_ID f0" frames 0 False "{}"] unfolding ForceCloseTxData_def f0 by simp
  moreover have "ParseFrames (DerivationVersion0 # MarshalBinary ?f) = Ok [?f]"
    using assms(3) by (simp add: ParseFrames_def res_simps parse_loop_Ok frame_ok_def ChannelIDLength_def)
  moreover have "offer ch (?f, origin) = ch"
    using AddFrame_Ok_iff [of ch ?f origin] assms(4) by (auto simp: offer_def split: res.splits)
  ultimately show ?thesis by fastforce
qed

section \<open>The first block over the target\<close>

text \<open>The shadow compressor means to accept a first write of any size. With brotli it does not: its
  buffer holds the version byte from the start, so \<open>Len\<close> is never 0, and a first block over the
  target is refused, this time and, since the error sticks, every other time.\<close>

theorem shadow_brotli_refuses:
  assumes "IsBrotli algo" "t = NewShadowCompressor ws algo target"
    "target < safeCompressionOverhead + of_nat (length p)"
    "target < of_nat (cc_Len (cc_Flush ws (cc_Write ws (NewChannelCompressor ws algo) p))) + CloseOverheadZlib"
  shows "\<exists>t'. sc_Write ws t p = (t', Some ErrCompressorFull) \<and> cc_compressed (sc_compressor t') = [ChannelVersionBrotli] \<and>
    sc_Write ws t' q = (t', Some ErrCompressorFull)"
proof -
  have "cc_Len (NewChannelCompressor ws algo) > 0" using assms(1) by (simp add: cc_Len_def NewChannelCompressor_def)
  then show ?thesis
    using assms by (simp add: sc_Write_def NewShadowCompressor_def Let_def) (simp add: NewChannelCompressor_def)
qed

end
