(* ===== verification/DeriveBank.thy ===== *)
theory DeriveBank
  imports DeriveChannel RollupConfig "HOL-Library.AList"
begin

text \<open>
  Two stages of the derivation pipeline: the frame queue (\<open>op-node/rollup/derive/frame_queue.go\<close>) and
  the channel bank (\<open>channel_bank.go\<close>), with the errors of \<open>error.go\<close>. A stage holds the stage
  before it, as in the code; the first one, an interface in the code, is a state of any type with
  the functions \<open>next\<close> and \<open>orig\<close> (\<open>NextData\<close> and \<open>Origin\<close>). A call gives the new state and an
  error or a value. Logging and metrics are left out.
\<close>

section \<open>Errors\<close>

datatype derive_error =
    EOF | NotEnoughData | Temporary string | ResetError string | Critical string | OtherError string

type_synonym ('s, 'a) call = "'s \<times> (derive_error + 'a)"

section \<open>The frame queue\<close>

record 'p frame_queue =
  fq_frames :: "frame list"
  fq_prev :: 'p

definition NewFrameQueue :: "'p \<Rightarrow> 'p frame_queue" where
  "NewFrameQueue p = \<lparr>fq_frames = [], fq_prev = p\<rparr>"

definition fq_Origin :: "('p \<Rightarrow> l1_block_ref) \<Rightarrow> 'p frame_queue \<Rightarrow> l1_block_ref" where
  "fq_Origin orig fq = orig (fq_prev fq)"

definition fq_NextFrame :: "('p \<Rightarrow> ('p, bytes) call) \<Rightarrow> 'p frame_queue \<Rightarrow> ('p frame_queue, frame) call" where
  "fq_NextFrame next fq =
     (let (fq1, err) =
        (if fq_frames fq = [] then
           (case next (fq_prev fq) of
              (p, Inl e) \<Rightarrow> (fq\<lparr>fq_prev := p\<rparr>, Some e)
            | (p, Inr data) \<Rightarrow>
                (case ParseFrames data of
                   Ok new \<Rightarrow> (fq\<lparr>fq_prev := p, fq_frames := fq_frames fq @ new\<rparr>, None)
                 | _ \<Rightarrow> (fq\<lparr>fq_prev := p\<rparr>, None)))
         else (fq, None))
      in case err of Some e \<Rightarrow> (fq1, Inl e)
         | None \<Rightarrow>
           (case fq_frames fq1 of
              [] \<Rightarrow> (fq1, Inl NotEnoughData)
            | f # fs \<Rightarrow> (fq1\<lparr>fq_frames := fs\<rparr>, Inr f)))"

definition fq_Reset :: "'p frame_queue \<Rightarrow> ('p frame_queue, unit) call" where
  "fq_Reset fq = (fq\<lparr>fq_frames := []\<rparr>, Inl EOF)"

section \<open>The channel bank\<close>

record 'p channel_bank =
  cb_channels :: "(bytes \<times> channel) list"
  cb_channelQueue :: "bytes list"
  cb_prev :: "'p frame_queue"

definition NewChannelBank :: "'p frame_queue \<Rightarrow> 'p channel_bank" where
  "NewChannelBank p = \<lparr>cb_channels = [], cb_channelQueue = [], cb_prev = p\<rparr>"

definition cb_Origin :: "('p \<Rightarrow> l1_block_ref) \<Rightarrow> 'p channel_bank \<Rightarrow> l1_block_ref" where
  "cb_Origin orig cb = fq_Origin orig (cb_prev cb)"

text \<open>The pruning loop takes channels from the front of the queue.\<close>

fun prune_loop :: "u64 \<Rightarrow> u64 \<Rightarrow> bytes list \<Rightarrow> (bytes \<times> channel) list \<Rightarrow> (bytes list \<times> (bytes \<times> channel) list) res" where
  "prune_loop bound totalSize [] chs =
     (if totalSize > bound then Panic ''index out of range'' else Ok ([], chs))"
| "prune_loop bound totalSize (cid # q) chs =
     (if totalSize > bound then
        (case map_of chs cid of
           None \<Rightarrow> Panic ''nil pointer dereference''
         | Some ch \<Rightarrow> prune_loop bound (totalSize - ch_size ch) q (AList.delete cid chs))
      else Ok (cid # q, chs))"

definition bank_size :: "(bytes \<times> channel) list \<Rightarrow> u64" where
  "bank_size chs = foldl (\<lambda>s (k, ch). s + ch_size ch) 0 chs"

definition prune :: "rollup_config \<Rightarrow> ('p \<Rightarrow> l1_block_ref) \<Rightarrow> 'p channel_bank \<Rightarrow> 'p channel_bank res" where
  "prune cfg orig cb =
     bind_res (prune_loop (MaxChannelBankSize cfg (l1_time (cb_Origin orig cb))) (bank_size (cb_channels cb))
       (cb_channelQueue cb) (cb_channels cb)) (\<lambda>(q, chs).
     Ok (cb\<lparr>cb_channelQueue := q, cb_channels := chs\<rparr>))"

definition timed_out :: "rollup_config \<Rightarrow> l1_block_ref \<Rightarrow> channel \<Rightarrow> bool" where
  "timed_out cfg origin ch \<longleftrightarrow> OpenBlockNumber ch + ChannelTimeout cfg (l1_time origin) < l1_number origin"

definition IngestFrame :: "rollup_config \<Rightarrow> ('p \<Rightarrow> l1_block_ref) \<Rightarrow> frame \<Rightarrow> 'p channel_bank \<Rightarrow> 'p channel_bank res" where
  "IngestFrame cfg orig f cb =
     (let origin = cb_Origin orig cb;
          (currentCh, cb1) =
            (case map_of (cb_channels cb) (f_ID f) of
               Some ch \<Rightarrow> (ch, cb)
             | None \<Rightarrow>
                 let ch = NewChannel (f_ID f) origin in
                 (ch, cb\<lparr>cb_channels := AList.update (f_ID f) ch (cb_channels cb),
                         cb_channelQueue := cb_channelQueue cb @ [f_ID f]\<rparr>))
      in if timed_out cfg origin currentCh then Ok cb1
         else case AddFrame currentCh f origin of
             Ok ch \<Rightarrow> prune cfg orig (cb1\<lparr>cb_channels := AList.update (f_ID f) ch (cb_channels cb1)\<rparr>)
           | Err _ \<Rightarrow> Ok cb1
           | Panic e \<Rightarrow> Panic e)"

definition tryReadChannelAtIndex ::
    "rollup_config \<Rightarrow> ('p \<Rightarrow> l1_block_ref) \<Rightarrow> nat \<Rightarrow> 'p channel_bank \<Rightarrow> ('p channel_bank, bytes) call res" where
  "tryReadChannelAtIndex cfg orig i cb =
     bind_res (index_res (cb_channelQueue cb) i) (\<lambda>chanID.
     case map_of (cb_channels cb) chanID of
       None \<Rightarrow> Panic ''nil pointer dereference''
     | Some ch \<Rightarrow>
         if timed_out cfg (cb_Origin orig cb) ch \<or> \<not> IsReady ch then Ok (cb, Inl EOF)
         else bind_res (Reader ch) (\<lambda>data.
           Ok (cb\<lparr>cb_channels := AList.delete chanID (cb_channels cb),
                  cb_channelQueue := take i (cb_channelQueue cb) @ drop (Suc i) (cb_channelQueue cb)\<rparr>, Inr data)))"

text \<open>The loop of \<open>Read\<close> over the queue: the first channel that can be read.\<close>

fun read_loop :: "rollup_config \<Rightarrow> ('p \<Rightarrow> l1_block_ref) \<Rightarrow> nat list \<Rightarrow> 'p channel_bank \<Rightarrow> ('p channel_bank, bytes) call res" where
  "read_loop cfg orig [] cb = Ok (cb, Inl EOF)"
| "read_loop cfg orig (i # is) cb =
     bind_res (tryReadChannelAtIndex cfg orig i cb) (\<lambda>(cb', r).
     case r of Inr data \<Rightarrow> Ok (cb', Inr data) | Inl _ \<Rightarrow> read_loop cfg orig is cb')"

definition cb_Read :: "rollup_config \<Rightarrow> ('p \<Rightarrow> l1_block_ref) \<Rightarrow> 'p channel_bank \<Rightarrow> ('p channel_bank, bytes) call res" where
  "cb_Read cfg orig cb =
     (case cb_channelQueue cb of
        [] \<Rightarrow> Ok (cb, Inl EOF)
      | first # q \<Rightarrow>
          (case map_of (cb_channels cb) first of
             None \<Rightarrow> Panic ''nil pointer dereference''
           | Some ch \<Rightarrow>
               if timed_out cfg (cb_Origin orig cb) ch then
                 Ok (cb\<lparr>cb_channels := AList.delete first (cb_channels cb), cb_channelQueue := q\<rparr>, Inr [])
               else if \<not> IsCanyon cfg (l1_time (cb_Origin orig cb)) then tryReadChannelAtIndex cfg orig 0 cb
               else read_loop cfg orig [0..<length (cb_channelQueue cb)] cb))"

definition cb_NextData ::
    "rollup_config \<Rightarrow> ('p \<Rightarrow> l1_block_ref) \<Rightarrow> ('p \<Rightarrow> ('p, bytes) call) \<Rightarrow> 'p channel_bank \<Rightarrow> ('p channel_bank, bytes) call res" where
  "cb_NextData cfg orig next cb =
     bind_res (cb_Read cfg orig cb) (\<lambda>(cb1, r).
     case r of
       Inr data \<Rightarrow> Ok (cb1, Inr data)
     | Inl e \<Rightarrow>
         if e \<noteq> EOF then Ok (cb1, Inl e)
         else case fq_NextFrame next (cb_prev cb1) of (p, r) \<Rightarrow>
           let cb2 = cb1\<lparr>cb_prev := p\<rparr> in
           (case r of
              Inl e \<Rightarrow> Ok (cb2, Inl e)
            | Inr f \<Rightarrow> bind_res (IngestFrame cfg orig f cb2) (\<lambda>cb3. Ok (cb3, Inl NotEnoughData))))"

definition cb_Reset :: "'p channel_bank \<Rightarrow> ('p channel_bank, unit) call" where
  "cb_Reset cb = (cb\<lparr>cb_channels := [], cb_channelQueue := []\<rparr>, Inl EOF)"

section \<open>The invariant of the bank\<close>

text \<open>The queue lists each channel of the map once; each channel is filed under its identifier and well formed.\<close>

definition chans_ok :: "bytes list \<Rightarrow> (bytes \<times> channel) list \<Rightarrow> bool" where
  "chans_ok q chs \<longleftrightarrow> distinct q \<and> distinct (map fst chs) \<and> set q = dom (map_of chs) \<and>
     (\<forall>k ch. map_of chs k = Some ch \<longrightarrow> ch_id ch = k \<and> ch_inv ch)"

definition bank_ok :: "'p channel_bank \<Rightarrow> bool" where
  "bank_ok cb \<longleftrightarrow> chans_ok (cb_channelQueue cb) (cb_channels cb)"

lemma bank_size_sum: "bank_size chs = sum_list (map (\<lambda>(k, ch). ch_size ch) chs)"
proof -
  have "foldl (\<lambda>s (k, ch). s + ch_size ch) z chs = z + sum_list (map (\<lambda>(k, ch). ch_size ch) chs)" for z
    by (induction chs arbitrary: z) auto
  then show ?thesis by (simp add: bank_size_def)
qed

lemma bank_size_delete:
  "distinct (map fst chs) \<Longrightarrow> map_of chs k = Some ch \<Longrightarrow> bank_size (AList.delete k chs) = bank_size chs - ch_size ch"
proof (induction chs)
  case (Cons p chs)
  then show ?case by (cases p) (auto simp: bank_size_sum AList.delete_id)
qed simp

lemma bank_size_update:
  "map_of chs k = None \<Longrightarrow> bank_size (AList.update k ch chs) = bank_size chs + ch_size ch"
  by (induction chs) (auto simp: bank_size_sum split: if_splits)

lemma bank_size_update_old:
  "map_of chs k = Some old \<Longrightarrow> bank_size (AList.update k ch chs) = bank_size chs - ch_size old + ch_size ch"
  by (induction chs) (auto simp: bank_size_sum split: if_splits)

lemma chans_ok_delete:
  assumes "chans_ok (xs @ cid # ys) chs"
  shows "chans_ok (xs @ ys) (AList.delete cid chs)"
  using assms unfolding chans_ok_def
  by (auto simp: AList.delete_conv' AList.distinct_delete split: if_splits)

lemma chans_ok_lookup:
  assumes "chans_ok q chs" "cid \<in> set q"
  obtains ch where "map_of chs cid = Some ch"
  using assms unfolding chans_ok_def by blast

lemma prune_loop_ok:
  "chans_ok q chs \<Longrightarrow> \<exists>q' chs'. prune_loop bound (bank_size chs) q chs = Ok (q', chs') \<and> chans_ok q' chs' \<and>
     bank_size chs' \<le> bound \<and> (\<exists>n. q' = drop n q) \<and> (\<forall>cid \<in> set q'. map_of chs' cid = map_of chs cid)"
proof (induction q arbitrary: chs)
  case Nil
  then have "chs = []" by (cases chs) (auto simp: chans_ok_def)
  then show ?case using Nil by (simp add: bank_size_def)
next
  case (Cons cid q)
  show ?case
  proof (cases "bank_size chs > bound")
    case False
    then show ?thesis using Cons.prems by (auto simp: not_less intro: exI [of _ 0])
  next
    case True
    obtain ch where ch: "map_of chs cid = Some ch" using chans_ok_lookup [OF Cons.prems] by auto
    have ok: "chans_ok q (AList.delete cid chs)" using chans_ok_delete [of "[]" cid q chs] Cons.prems by simp
    have bs: "bank_size chs - ch_size ch = bank_size (AList.delete cid chs)"
      using bank_size_delete [OF _ ch] Cons.prems by (simp add: chans_ok_def)
    obtain q' chs' n where r: "prune_loop bound (bank_size (AList.delete cid chs)) q (AList.delete cid chs) = Ok (q', chs')"
      "chans_ok q' chs'" "bank_size chs' \<le> bound" "q' = drop n q"
      "\<forall>c \<in> set q'. map_of chs' c = map_of (AList.delete cid chs) c"
      using Cons.IH [OF ok] by blast
    have "cid \<notin> set q'" using Cons.prems r(4) by (auto simp: chans_ok_def dest: in_set_dropD)
    then have "\<forall>c \<in> set q'. map_of chs' c = map_of chs c" using r(5) by (auto simp: AList.delete_conv')
    then show ?thesis using True ch r bs by (intro exI [of _ q'] exI [of _ chs']) (auto intro: exI [of _ "Suc n"])
  qed
qed

lemma prune_ok:
  assumes "bank_ok cb"
  shows "\<exists>cb'. prune cfg orig cb = Ok cb' \<and> bank_ok cb' \<and> cb_prev cb' = cb_prev cb \<and>
    bank_size (cb_channels cb') \<le> MaxChannelBankSize cfg (l1_time (cb_Origin orig cb)) \<and>
    (\<exists>n. cb_channelQueue cb' = drop n (cb_channelQueue cb))"
  using prune_loop_ok [of "cb_channelQueue cb" "cb_channels cb" "MaxChannelBankSize cfg (l1_time (cb_Origin orig cb))"] assms
  by (auto simp: prune_def bank_ok_def)

lemma chans_ok_update:
  assumes "chans_ok q chs" "ch_id ch = k" "ch_inv ch" "map_of chs k \<noteq> None"
  shows "chans_ok q (AList.update k ch chs)"
  using assms unfolding chans_ok_def by (auto simp: AList.update_conv' AList.distinct_update split: if_splits)

lemma chans_ok_add:
  assumes "chans_ok q chs" "ch_id ch = k" "ch_inv ch" "map_of chs k = None"
  shows "chans_ok (q @ [k]) (AList.update k ch chs)"
  using assms unfolding chans_ok_def by (auto simp: AList.update_conv' AList.distinct_update split: if_splits)

text \<open>The channel a frame goes to, and the bank with it.\<close>

definition open_channel :: "('p \<Rightarrow> l1_block_ref) \<Rightarrow> frame \<Rightarrow> 'p channel_bank \<Rightarrow> channel \<times> 'p channel_bank" where
  "open_channel orig f cb =
     (case map_of (cb_channels cb) (f_ID f) of
        Some ch \<Rightarrow> (ch, cb)
      | None \<Rightarrow>
          let ch = NewChannel (f_ID f) (cb_Origin orig cb) in
          (ch, cb\<lparr>cb_channels := AList.update (f_ID f) ch (cb_channels cb),
                  cb_channelQueue := cb_channelQueue cb @ [f_ID f]\<rparr>))"

lemma IngestFrame_open:
  "IngestFrame cfg orig f cb = (case open_channel orig f cb of (ch, cb1) \<Rightarrow>
     if timed_out cfg (cb_Origin orig cb) ch then Ok cb1
     else case AddFrame ch f (cb_Origin orig cb) of
         Ok ch \<Rightarrow> prune cfg orig (cb1\<lparr>cb_channels := AList.update (f_ID f) ch (cb_channels cb1)\<rparr>)
       | Err _ \<Rightarrow> Ok cb1
       | Panic e \<Rightarrow> Panic e)"
  by (simp add: IngestFrame_def open_channel_def Let_def)

lemma NewChannel_id [simp]: "ch_id (NewChannel cid ob) = cid" "ch_size (NewChannel cid ob) = 0"
  by (simp_all add: NewChannel_def)

lemma open_channel_ok:
  assumes "bank_ok cb" "open_channel orig f cb = (ch, cb1)"
  shows "bank_ok cb1" "map_of (cb_channels cb1) (f_ID f) = Some ch" "ch_id ch = f_ID f" "ch_inv ch"
    "cb_prev cb1 = cb_prev cb" "bank_size (cb_channels cb1) = bank_size (cb_channels cb)"
    "cid \<noteq> f_ID f \<Longrightarrow> map_of (cb_channels cb1) cid = map_of (cb_channels cb) cid"
proof -
  have all: "bank_ok cb1 \<and> map_of (cb_channels cb1) (f_ID f) = Some ch \<and> ch_id ch = f_ID f \<and> ch_inv ch \<and>
    cb_prev cb1 = cb_prev cb \<and> bank_size (cb_channels cb1) = bank_size (cb_channels cb) \<and>
    (cid \<noteq> f_ID f \<longrightarrow> map_of (cb_channels cb1) cid = map_of (cb_channels cb) cid)"
  proof (cases "map_of (cb_channels cb) (f_ID f)")
    case None
    then have e: "ch = NewChannel (f_ID f) (cb_Origin orig cb)"
      "cb1 = cb\<lparr>cb_channels := AList.update (f_ID f) ch (cb_channels cb), cb_channelQueue := cb_channelQueue cb @ [f_ID f]\<rparr>"
      using assms(2) by (auto simp: open_channel_def Let_def)
    then show ?thesis
      using chans_ok_add [of "cb_channelQueue cb" "cb_channels cb" ch "f_ID f"] assms(1) None NewChannel_inv
      by (simp add: bank_ok_def AList.update_conv' bank_size_update)
  next
    case (Some c)
    then have "ch = c" "cb1 = cb" using assms(2) by (auto simp: open_channel_def)
    then show ?thesis using assms(1) Some by (auto simp: bank_ok_def chans_ok_def)
  qed
  then show "bank_ok cb1" "map_of (cb_channels cb1) (f_ID f) = Some ch" "ch_id ch = f_ID f" "ch_inv ch"
    "cb_prev cb1 = cb_prev cb" "bank_size (cb_channels cb1) = bank_size (cb_channels cb)"
    "cid \<noteq> f_ID f \<Longrightarrow> map_of (cb_channels cb1) cid = map_of (cb_channels cb) cid" by blast+
qed

lemma AddFrame_no_panic [simp]: "AddFrame ch f l1 \<noteq> Panic e"
  by (simp add: AddFrame_def guard_err_def Let_def)

lemma IngestFrame_ok:
  assumes "bank_ok cb"
  shows "\<exists>cb'. IngestFrame cfg orig f cb = Ok cb' \<and> bank_ok cb' \<and> cb_prev cb' = cb_prev cb"
proof -
  obtain ch cb1 where o: "open_channel orig f cb = (ch, cb1)" by (metis surj_pair)
  note ok = open_channel_ok [OF assms o]
  show ?thesis
  proof (cases "AddFrame ch f (cb_Origin orig cb)")
    case (Ok ch')
    have "bank_ok (cb1\<lparr>cb_channels := AList.update (f_ID f) ch' (cb_channels cb1)\<rparr>)"
      using chans_ok_update [of "cb_channelQueue cb1" "cb_channels cb1" ch' "f_ID f"] ok AddFrame_inv [OF Ok] AddFrame_id(1) [OF Ok]
      by (simp add: bank_ok_def)
    then show ?thesis using prune_ok [of "cb1\<lparr>cb_channels := AList.update (f_ID f) ch' (cb_channels cb1)\<rparr>" cfg orig] Ok ok
      by (auto simp: IngestFrame_open o)
  qed (use ok in \<open>simp_all add: IngestFrame_open o\<close>)
qed

lemma read_frames_ok: "list_all (\<lambda>i. map_of inputs i \<noteq> None) is \<Longrightarrow> \<exists>d. read_frames inputs is = Ok d"
  by (induction "is") auto

lemma Reader_ok: "IsReady ch \<Longrightarrow> \<exists>d. Reader ch = Ok d"
  using read_frames_ok by (auto simp: IsReady_def Reader_def)

lemma tryRead_ok:
  assumes "bank_ok cb" "i < length (cb_channelQueue cb)"
  shows "\<exists>cb' r. tryReadChannelAtIndex cfg orig i cb = Ok (cb', r) \<and> bank_ok cb' \<and> cb_prev cb' = cb_prev cb \<and>
    (r = Inl EOF \<and> cb' = cb \<or> (\<exists>d. r = Inr d))"
proof -
  let ?cid = "cb_channelQueue cb ! i"
  have q: "cb_channelQueue cb = take i (cb_channelQueue cb) @ ?cid # drop (Suc i) (cb_channelQueue cb)"
    by (rule id_take_nth_drop [OF assms(2)])
  obtain ch where ch: "map_of (cb_channels cb) ?cid = Some ch"
    using assms(1) nth_mem [OF assms(2)] by (auto simp: bank_ok_def elim: chans_ok_lookup)
  have "chans_ok (take i (cb_channelQueue cb) @ drop (Suc i) (cb_channelQueue cb)) (AList.delete ?cid (cb_channels cb))"
    by (rule chans_ok_delete) (use assms(1) q in \<open>simp add: bank_ok_def\<close>)
  then show ?thesis using assms ch Reader_ok [of ch]
    by (auto simp: tryReadChannelAtIndex_def index_res_def bank_ok_def)
qed

lemma read_loop_ok:
  assumes "bank_ok cb" "\<forall>i \<in> set is. i < length (cb_channelQueue cb)"
  shows "\<exists>cb' r. read_loop cfg orig is cb = Ok (cb', r) \<and> bank_ok cb' \<and> cb_prev cb' = cb_prev cb \<and>
    (r = Inl EOF \<and> cb' = cb \<or> (\<exists>d. r = Inr d))"
  using assms(2)
proof (induction "is")
  case (Cons i "is")
  obtain cb' r where t: "tryReadChannelAtIndex cfg orig i cb = Ok (cb', r)" "bank_ok cb'" "cb_prev cb' = cb_prev cb"
    "r = Inl EOF \<and> cb' = cb \<or> (\<exists>d. r = Inr d)"
    using tryRead_ok [OF assms(1), of i cfg orig] Cons.prems by auto
  then show ?case using Cons by auto
qed (simp add: assms(1))

lemma cb_Read_ok:
  assumes "bank_ok cb"
  shows "\<exists>cb' r. cb_Read cfg orig cb = Ok (cb', r) \<and> bank_ok cb' \<and> cb_prev cb' = cb_prev cb \<and>
    (r = Inl EOF \<and> cb' = cb \<or> (\<exists>d. r = Inr d))"
proof (cases "cb_channelQueue cb")
  case Nil
  then show ?thesis using assms by (simp add: cb_Read_def)
next
  case (Cons first q)
  then obtain ch where ch: "map_of (cb_channels cb) first = Some ch"
    using assms by (auto simp: bank_ok_def elim: chans_ok_lookup)
  have "chans_ok q (AList.delete first (cb_channels cb))"
    using chans_ok_delete [of "[]" first q "cb_channels cb"] assms Cons by (simp add: bank_ok_def)
  then show ?thesis
    using ch Cons assms tryRead_ok [OF assms, of 0 cfg orig] read_loop_ok [OF assms, of "[0..<length (cb_channelQueue cb)]" cfg orig]
    by (auto simp: cb_Read_def bank_ok_def simp del: upt_Suc)
qed

text \<open>C35: The channel bank never panics: from a well-formed bank, over any stage before it that itself
  returns, every call of \<open>NextData\<close> returns, and leaves the bank well formed - so neither the pruning
  loop runs off its queue, nor is a channel missing that the queue names, nor is one read that is
  not ready; and no error of the bank's own reaches the caller but that there is no data yet.\<close>

theorem bank_never_panics:
  assumes "bank_ok cb"
  shows "\<exists>cb' r. cb_NextData cfg orig next cb = Ok (cb', r) \<and> bank_ok cb' \<and>
    (case r of Inr _ \<Rightarrow> True | Inl e \<Rightarrow> e = NotEnoughData \<or> snd (fq_NextFrame next (cb_prev cb)) = Inl e)"
proof -
  obtain cb1 r where r: "cb_Read cfg orig cb = Ok (cb1, r)" "bank_ok cb1" "cb_prev cb1 = cb_prev cb"
    "r = Inl EOF \<and> cb1 = cb \<or> (\<exists>d. r = Inr d)"
    using cb_Read_ok [OF assms] by blast
  show ?thesis
  proof (cases r)
    case (Inr d)
    then show ?thesis using r by (simp add: cb_NextData_def)
  next
    case (Inl e)
    then have e: "e = EOF" "cb1 = cb" using r(4) by auto
    obtain p x where fq: "fq_NextFrame next (cb_prev cb) = (p, x)" by (metis surj_pair)
    have ok: "bank_ok (cb\<lparr>cb_prev := p\<rparr>)" using assms by (simp add: bank_ok_def)
    show ?thesis
    proof (cases x)
      case (Inl e')
      then show ?thesis using r(1) e fq ok \<open>r = Inl e\<close> by (simp add: cb_NextData_def)
    next
      case (Inr f)
      then show ?thesis using r(1) e fq IngestFrame_ok [OF ok, of cfg orig f] \<open>r = Inl e\<close> by (auto simp: cb_NextData_def)
    qed
  qed
qed

end
