(* ===== verification/DeriveBankProps.thy ===== *)
theory DeriveBankProps
  imports DeriveBank
begin

text \<open>
  Delivery through the channel bank: while the bank does not have to prune, every channel is what its
  own frames make of it, however the frames of different channels are interleaved, and a complete
  channel comes out.
\<close>

section \<open>Ingesting without pruning\<close>

lemma unat_add_le: "unat (a + b :: u64) \<le> unat a + unat b"
  by (simp add: unat_word_ariths)

definition nat_size :: "(bytes \<times> channel) list \<Rightarrow> nat" where
  "nat_size chs = sum_list (map (\<lambda>(k, ch). unat (ch_size ch)) chs)"

lemma bank_size_nat: "unat (bank_size chs) \<le> nat_size chs"
proof (induction chs)
  case (Cons p chs)
  obtain k ch where p: "p = (k, ch)" by (cases p)
  have "unat (ch_size ch + bank_size chs) \<le> unat (ch_size ch) + unat (bank_size chs)" by (rule unat_add_le)
  then show ?case using Cons by (simp add: p bank_size_sum nat_size_def)
qed (simp add: bank_size_def)

lemma nat_size_update:
  "map_of chs k = Some old \<Longrightarrow> nat_size (AList.update k ch chs) + unat (ch_size old) = nat_size chs + unat (ch_size ch)"
  by (induction chs) (auto simp: nat_size_def split: if_splits)

lemma nat_size_new: "map_of chs k = None \<Longrightarrow> nat_size (AList.update k ch chs) = nat_size chs + unat (ch_size ch)"
  by (induction chs) (auto simp: nat_size_def split: if_splits)

lemma prune_none:
  assumes "nat_size (cb_channels cb) \<le> unat (MaxChannelBankSize cfg (l1_time (cb_Origin orig cb)))"
  shows "prune cfg orig cb = Ok cb"
proof -
  have "\<not> bank_size (cb_channels cb) > MaxChannelBankSize cfg (l1_time (cb_Origin orig cb))"
    using assms bank_size_nat [of "cb_channels cb"] by (simp add: word_less_nat_alt)
  then have "prune_loop (MaxChannelBankSize cfg (l1_time (cb_Origin orig cb))) (bank_size (cb_channels cb))
       (cb_channelQueue cb) (cb_channels cb) = Ok (cb_channelQueue cb, cb_channels cb)"
    by (cases "cb_channelQueue cb") simp_all
  then show ?thesis by (simp add: prune_def)
qed

lemma AddFrame_size:
  assumes "AddFrame ch f l1 = Ok ch'" "ch_inv ch"
  shows "unat (ch_size ch') \<le> unat (ch_size ch) + unat (frameSize f)"
  using assms(1)
proof (cases rule: AddFrame_cases)
  case prune
  then have "ch_size ch = of_nat (total_size (ch_inputs ch))" using assms(2) by (auto simp: ch_inv_def)
  then show ?thesis using prune by simp
qed (simp_all add: unat_add_le)

text \<open>The channel of \<open>cid\<close>, or the one that would be opened for it now.\<close>

definition channel_of :: "('p \<Rightarrow> l1_block_ref) \<Rightarrow> 'p channel_bank \<Rightarrow> bytes \<Rightarrow> channel" where
  "channel_of orig cb cid =
     (case map_of (cb_channels cb) cid of Some ch \<Rightarrow> ch | None \<Rightarrow> NewChannel cid (cb_Origin orig cb))"

definition receive :: "rollup_config \<Rightarrow> l1_block_ref \<Rightarrow> channel \<Rightarrow> frame \<Rightarrow> channel" where
  "receive cfg origin ch f = (if timed_out cfg origin ch then ch else offer ch (f, origin))"

lemma IngestFrame_step:
  assumes "bank_ok cb" "nat_size (cb_channels cb) + unat (frameSize f) \<le> unat (MaxChannelBankSize cfg (l1_time (cb_Origin orig cb)))"
  shows "\<exists>cb'. IngestFrame cfg orig f cb = Ok cb' \<and> bank_ok cb' \<and> cb_prev cb' = cb_prev cb \<and>
    nat_size (cb_channels cb') \<le> nat_size (cb_channels cb) + unat (frameSize f) \<and>
    map_of (cb_channels cb') = (map_of (cb_channels cb))(f_ID f \<mapsto> receive cfg (cb_Origin orig cb) (channel_of orig cb (f_ID f)) f)"
proof -
  obtain ch cb1 where o: "open_channel orig f cb = (ch, cb1)" by (metis surj_pair)
  note ok = open_channel_ok [OF assms(1) o]
  have ch: "ch = channel_of orig cb (f_ID f)"
    using o by (auto simp: open_channel_def channel_of_def Let_def split: option.splits)
  have m1: "map_of (cb_channels cb1) = (map_of (cb_channels cb))(f_ID f \<mapsto> ch)"
    using ok(2,7) by (auto simp: fun_eq_iff)
  have n1: "nat_size (cb_channels cb1) = nat_size (cb_channels cb)"
    using o by (auto simp: open_channel_def Let_def nat_size_new split: option.splits)
  have orig: "cb_Origin orig cb1 = cb_Origin orig cb" using ok(5) by (simp add: cb_Origin_def)
  show ?thesis
  proof (cases "\<not> timed_out cfg (cb_Origin orig cb) ch \<and> (\<exists>ch'. AddFrame ch f (cb_Origin orig cb) = Ok ch')")
    case True
    then obtain ch' where a: "\<not> timed_out cfg (cb_Origin orig cb) ch" "AddFrame ch f (cb_Origin orig cb) = Ok ch'" by blast
    let ?cb2 = "cb1\<lparr>cb_channels := AList.update (f_ID f) ch' (cb_channels cb1)\<rparr>"
    have n2: "nat_size (cb_channels ?cb2) \<le> nat_size (cb_channels cb) + unat (frameSize f)"
      using nat_size_update [OF ok(2), of ch'] n1 AddFrame_size [OF a(2) ok(4)] by simp
    have "prune cfg orig ?cb2 = Ok ?cb2"
      by (rule prune_none) (use n2 assms(2) orig in \<open>simp add: cb_Origin_def\<close>)
    moreover have "bank_ok ?cb2"
      using chans_ok_update [of "cb_channelQueue cb1" "cb_channels cb1" ch' "f_ID f"] ok AddFrame_inv [OF a(2)] AddFrame_id(1) [OF a(2)]
      by (simp add: bank_ok_def)
    ultimately show ?thesis using a n2 ok(5) m1 ch
      by (intro exI [of _ ?cb2]) (simp add: IngestFrame_open o AList.update_conv' receive_def offer_def)
  next
    case False
    then have r: "receive cfg (cb_Origin orig cb) ch f = ch"
      by (auto simp: receive_def offer_def split: res.splits)
    have "IngestFrame cfg orig f cb = Ok cb1"
      using False by (cases "AddFrame ch f (cb_Origin orig cb)") (auto simp: IngestFrame_open o)
    then show ?thesis using ok(1,5) n1 m1 r ch by (intro exI [of _ cb1]) simp
  qed
qed

fun ingest_all :: "rollup_config \<Rightarrow> ('p \<Rightarrow> l1_block_ref) \<Rightarrow> frame list \<Rightarrow> 'p channel_bank \<Rightarrow> 'p channel_bank res" where
  "ingest_all cfg orig [] cb = Ok cb"
| "ingest_all cfg orig (f # fs) cb = bind_res (IngestFrame cfg orig f cb) (ingest_all cfg orig fs)"

definition frames_size :: "frame list \<Rightarrow> nat" where
  "frames_size fs = sum_list (map (\<lambda>f. unat (frameSize f)) fs)"

lemma ingest_all_isolates:
  "bank_ok cb \<Longrightarrow> nat_size (cb_channels cb) + frames_size ps \<le> unat (MaxChannelBankSize cfg (l1_time (cb_Origin orig cb))) \<Longrightarrow>
   \<exists>cb'. ingest_all cfg orig ps cb = Ok cb' \<and> bank_ok cb' \<and> cb_prev cb' = cb_prev cb \<and>
     (\<forall>cid. map_of (cb_channels cb') cid =
        (if cid \<in> f_ID ` set ps \<or> map_of (cb_channels cb) cid \<noteq> None then
           Some (foldl (receive cfg (cb_Origin orig cb)) (channel_of orig cb cid) (filter (\<lambda>f. f_ID f = cid) ps))
         else None))"
proof (induction ps arbitrary: cb)
  case Nil
  then show ?case by (auto simp: channel_of_def)
next
  case (Cons f ps)
  have sz: "nat_size (cb_channels cb) + unat (frameSize f) \<le> unat (MaxChannelBankSize cfg (l1_time (cb_Origin orig cb)))"
    using Cons.prems(2) by (simp add: frames_size_def)
  obtain cb1 where cb1: "IngestFrame cfg orig f cb = Ok cb1" "bank_ok cb1" "cb_prev cb1 = cb_prev cb"
    "nat_size (cb_channels cb1) \<le> nat_size (cb_channels cb) + unat (frameSize f)"
    "map_of (cb_channels cb1) = (map_of (cb_channels cb))(f_ID f \<mapsto> receive cfg (cb_Origin orig cb) (channel_of orig cb (f_ID f)) f)"
    using IngestFrame_step [OF Cons.prems(1) sz] by blast
  have og: "cb_Origin orig cb1 = cb_Origin orig cb" using cb1(3) by (simp add: cb_Origin_def)
  have "nat_size (cb_channels cb1) + frames_size ps \<le> unat (MaxChannelBankSize cfg (l1_time (cb_Origin orig cb1)))"
    using Cons.prems(2) cb1(4) og by (simp add: frames_size_def)
  then obtain cb' where cb': "ingest_all cfg orig ps cb1 = Ok cb'" "bank_ok cb'" "cb_prev cb' = cb_prev cb1"
    "\<And>cid. map_of (cb_channels cb') cid =
        (if cid \<in> f_ID ` set ps \<or> map_of (cb_channels cb1) cid \<noteq> None then
           Some (foldl (receive cfg (cb_Origin orig cb1)) (channel_of orig cb1 cid) (filter (\<lambda>f. f_ID f = cid) ps))
         else None)"
    using Cons.IH [OF cb1(2)] by blast
  have co: "channel_of orig cb1 cid = (if cid = f_ID f then receive cfg (cb_Origin orig cb) (channel_of orig cb cid) f
      else channel_of orig cb cid)" for cid
    by (auto simp: channel_of_def cb1(5) og split: option.splits)
  have "map_of (cb_channels cb') cid =
        (if cid \<in> f_ID ` set (f # ps) \<or> map_of (cb_channels cb) cid \<noteq> None then
           Some (foldl (receive cfg (cb_Origin orig cb)) (channel_of orig cb cid) (filter (\<lambda>f. f_ID f = cid) (f # ps)))
         else None)" for cid
    unfolding cb'(4) co og by (auto simp: cb1(5))
  then show ?case using cb1(1,3) cb'(1-3) by auto
qed

section \<open>Delivery\<close>

lemma offer_openBlock: "ch_openBlock (offer ch p) = ch_openBlock ch"
  using AddFrame_id(2) by (auto simp: offer_def split: res.splits)

lemma receive_offers:
  "\<not> timed_out cfg origin ch \<Longrightarrow> foldl (receive cfg origin) ch fs = foldl offer ch (map (\<lambda>f. (f, origin)) fs)"
proof (induction fs arbitrary: ch)
  case (Cons f fs)
  have "\<not> timed_out cfg origin (offer ch (f, origin))"
    using Cons.prems by (simp add: timed_out_def OpenBlockNumber_def offer_openBlock)
  then show ?case using Cons by (simp add: receive_def)
qed simp

lemma receive_not_closed:
  "\<not> ch_closed ch \<Longrightarrow> list_all (\<lambda>f. \<not> f_IsLast f) fs \<Longrightarrow> \<not> ch_closed (foldl (receive cfg origin) ch fs)"
proof (induction fs arbitrary: ch)
  case (Cons f fs)
  have "\<not> ch_closed (receive cfg origin ch f)"
  proof (cases "AddFrame ch f origin")
    case (Ok ch')
    then have "\<not> ch_closed ch'" using Cons.prems by (cases rule: AddFrame_cases) auto
    then show ?thesis using Ok Cons.prems by (simp add: receive_def offer_def)
  qed (use Cons.prems in \<open>simp_all add: receive_def offer_def\<close>)
  then show ?case using Cons by simp
qed simp

lemma read_loop_first:
  assumes "bank_ok cb" "j < length (cb_channelQueue cb)" "cb_channelQueue cb ! j = cid" "map_of (cb_channels cb) cid = Some ch"
    "\<not> timed_out cfg (cb_Origin orig cb) ch" "Reader ch = Ok data" "IsReady ch"
    "\<forall>c ch'. c \<noteq> cid \<longrightarrow> map_of (cb_channels cb) c = Some ch' \<longrightarrow> \<not> IsReady ch'" "k \<le> j"
  shows "\<exists>cb'. read_loop cfg orig [k..<length (cb_channelQueue cb)] cb = Ok (cb', Inr data)"
  using assms(9)
proof (induction "j - k" arbitrary: k)
  case 0
  then have "[k..<length (cb_channelQueue cb)] = j # [Suc j..<length (cb_channelQueue cb)]"
    using assms(2) by (simp add: upt_conv_Cons)
  then show ?case using assms by (simp add: tryReadChannelAtIndex_def index_res_def)
next
  case (Suc n)
  then have k: "k < j" "k < length (cb_channelQueue cb)" using assms(2) by auto
  have u: "[k..<length (cb_channelQueue cb)] = k # [Suc k..<length (cb_channelQueue cb)]" by (rule upt_conv_Cons [OF k(2)])
  have "cb_channelQueue cb ! k \<noteq> cid"
    using assms(1,2,3) k by (auto simp: bank_ok_def chans_ok_def nth_eq_iff_index_eq)
  moreover obtain ch' where ch': "map_of (cb_channels cb) (cb_channelQueue cb ! k) = Some ch'"
    using assms(1) nth_mem [OF k(2)] by (auto simp: bank_ok_def elim: chans_ok_lookup)
  ultimately have "\<not> IsReady ch'" using assms(8) by blast
  then have "tryReadChannelAtIndex cfg orig k cb = Ok (cb, Inl EOF)"
    using k(2) ch' by (simp add: tryReadChannelAtIndex_def index_res_def)
  then show ?case using Suc.hyps(1) [of "Suc k"] Suc.hyps(2) k(1) u by (simp del: upt_Suc)
qed


section \<open>Examples\<close>


theorem bank_never_panics_witness:
  "let f = \<lparr>f_ID = replicate 16 7, f_FrameNumber = 0, f_Data = [1, 2], f_IsLast = True\<rparr>;
       next = \<lambda>p. (p, Inr (DerivationVersion0 # MarshalBinary f)) in
   \<exists>cb' r. cb_NextData sample_config (\<lambda>p. p) next (NewChannelBank (NewFrameQueue zero_l1_ref)) = Ok (cb', r) \<and> bank_ok cb'"
proof -
  have "bank_ok (NewChannelBank (NewFrameQueue zero_l1_ref))" by (simp add: bank_ok_def chans_ok_def NewChannelBank_def)
  from bank_never_panics [OF this, of sample_config "\<lambda>p. p" "\<lambda>p. (p, Inr (DerivationVersion0 # MarshalBinary
      \<lparr>f_ID = replicate 16 7, f_FrameNumber = 0, f_Data = [1, 2], f_IsLast = True\<rparr>))"]
  show ?thesis unfolding Let_def by blast
qed

end
