(* ===== verification/DeriveBatch.thy ===== *)
theory DeriveBatch
  imports BatchTypes
begin

text \<open>
  The validity rules of batches: \<open>op-node/rollup/derive/batches.go\<close>. What comes from outside is an
  environment: the type byte of deposit transactions (a constant of go-ethereum), the two calls of
  \<open>SafeBlockFetcher\<close>, the transactions of a payload and \<open>PayloadToBlockRef\<close>. Logging is left out.
\<close>

section \<open>Singular batches\<close>

datatype batch_validity = BatchDrop | BatchAccept | BatchUndecided | BatchFuture

record 'pl batch_env =
  be_DepositTxType :: byte
  be_L2BlockRefByNumber :: "u64 \<Rightarrow> string + l2_block_ref"
  be_PayloadByNumber :: "u64 \<Rightarrow> string + 'pl"
  be_Transactions :: "'pl \<Rightarrow> bytes list"
  be_PayloadToBlockRef :: "'pl \<Rightarrow> string + l2_block_ref"

text \<open>The loop over a batch's transactions: whether one of them is empty or a deposit.\<close>

fun bad_txs :: "byte \<Rightarrow> bytes list \<Rightarrow> bool" where
  "bad_txs dep [] = False"
| "bad_txs dep (t # ts) = (if t = [] then True else if hd t = dep then True else bad_txs dep ts)"

text \<open>The L1 origin of the batch, or the verdict when there is none.\<close>

definition singular_origin :: "l1_block_ref list \<Rightarrow> u64 \<Rightarrow> batch_validity + l1_block_ref" where
  "singular_origin l1Blocks epochNum =
     (let epoch = l1Blocks ! 0 in
      if epochNum < l1_number epoch then Inl BatchDrop
      else if epochNum = l1_number epoch then Inr epoch
      else if epochNum = l1_number epoch + 1 then
        (if length l1Blocks < 2 then Inl BatchUndecided else Inr (l1Blocks ! 1))
      else Inl BatchDrop)"

text \<open>The verdict of the drift rule, if it gives one.\<close>

definition singular_drift :: "rollup_config \<Rightarrow> l1_block_ref list \<Rightarrow> l1_block_ref \<Rightarrow> singular_batch \<Rightarrow> batch_validity option" where
  "singular_drift cfg l1Blocks batchOrigin batch =
     (let epoch = l1Blocks ! 0;
          maxTime = l1_time batchOrigin + MaxSequencerDrift cfg (l1_time batchOrigin) in
      if sb_Timestamp batch > maxTime then
        if sb_Transactions batch = [] then
          if l1_number epoch = l1_number batchOrigin then
            if length l1Blocks < 2 then Some BatchUndecided
            else if sb_Timestamp batch \<ge> l1_time (l1Blocks ! 1) then Some BatchDrop else None
          else None
        else Some BatchDrop
      else None)"

definition checkSingularBatch ::
    "rollup_config \<Rightarrow> 'pl batch_env \<Rightarrow> l1_block_ref list \<Rightarrow> l2_block_ref \<Rightarrow> singular_batch \<Rightarrow> l1_block_ref \<Rightarrow> batch_validity" where
  "checkSingularBatch cfg env l1Blocks l2SafeHead batch l1InclusionBlock =
     (if l1Blocks = [] then BatchUndecided
      else
        let nextTimestamp = l2_time l2SafeHead + rc_BlockTime cfg in
        if sb_Timestamp batch > nextTimestamp then BatchFuture
        else if sb_Timestamp batch < nextTimestamp then BatchDrop
        else if sb_ParentHash batch \<noteq> l2_hash l2SafeHead then BatchDrop
        else if sb_EpochNum batch + rc_SeqWindowSize cfg < l1_number l1InclusionBlock then BatchDrop
        else case singular_origin l1Blocks (sb_EpochNum batch) of Inl v \<Rightarrow> v
          | Inr batchOrigin \<Rightarrow>
            if sb_EpochHash batch \<noteq> l1_hash batchOrigin then BatchDrop
            else if sb_Timestamp batch < l1_time batchOrigin then BatchDrop
            else case singular_drift cfg l1Blocks batchOrigin batch of Some v \<Rightarrow> v
              | None \<Rightarrow> if bad_txs (be_DepositTxType env) (sb_Transactions batch) then BatchDrop else BatchAccept)"

section \<open>Span batches\<close>

text \<open>The search for the L1 block of the span's last epoch: \<open>None\<close> when there is none, else whether
  its hash is the one the batch names.\<close>

fun check_end_origin :: "span_batch \<Rightarrow> u64 \<Rightarrow> l1_block_ref list \<Rightarrow> bool option" where
  "check_end_origin b endEpochNum [] = None"
| "check_end_origin b endEpochNum (l # ls) =
     (if l1_number l = endEpochNum then Some (CheckOriginHash b (l1_hash l)) else check_end_origin b endEpochNum ls)"

text \<open>The loop over the blocks of the span, with the index of the current L1 origin, whether the
  origin advanced, and the block before, if there is one. \<open>None\<close>: the loop runs to its end.\<close>

fun span_blocks ::
    "rollup_config \<Rightarrow> byte \<Rightarrow> l1_block_ref list \<Rightarrow> u64 \<Rightarrow> span_batch_element option \<Rightarrow> nat \<Rightarrow> bool \<Rightarrow>
     span_batch_element list \<Rightarrow> batch_validity option" where
  "span_blocks cfg dep l1Blocks safeTime prev originIdx originAdvanced [] = None"
| "span_blocks cfg dep l1Blocks safeTime prev originIdx originAdvanced (e # es) =
     (if se_Timestamp e \<le> safeTime then
        span_blocks cfg dep l1Blocks safeTime (Some e) originIdx originAdvanced es
      else
        let (l1Origin, originIdx) =
              (case find_origin (se_EpochNum e) originIdx (drop originIdx l1Blocks) of
                 Some (j, l) \<Rightarrow> (l, j) | None \<Rightarrow> (zero_l1_ref, originIdx));
            originAdvanced =
              (case prev of Some p \<Rightarrow> se_EpochNum e > se_EpochNum p | None \<Rightarrow> originAdvanced)
        in
        if se_Timestamp e < l1_time l1Origin then Some BatchDrop
        else
          let maxTime = l1_time l1Origin + MaxSequencerDrift cfg (l1_time l1Origin);
              drift =
            (if se_Timestamp e > maxTime then
               if se_Transactions e = [] then
                 if \<not> originAdvanced then
                   if originIdx + 1 \<ge> length l1Blocks then Some BatchUndecided
                   else if se_Timestamp e \<ge> l1_time (l1Blocks ! (originIdx + 1)) then Some BatchDrop else None
                 else None
               else Some BatchDrop
             else None) in
          case drift of Some v \<Rightarrow> Some v
          | None \<Rightarrow>
              if bad_txs dep (se_Transactions e) then Some BatchDrop
              else span_blocks cfg dep l1Blocks safeTime (Some e) originIdx originAdvanced es)"

text \<open>One overlapped block: its payload must hold the batch's transactions after the deposits.\<close>

fun deposit_count :: "byte \<Rightarrow> bytes list \<Rightarrow> nat res" where
  "deposit_count dep [] = Ok 0"
| "deposit_count dep (t # ts) =
     guard_panic (t \<noteq> []) ''index out of range''
       (bind_res (deposit_count dep ts) (\<lambda>n. Ok (if hd t = dep then Suc n else n)))"

definition overlap_block :: "'pl batch_env \<Rightarrow> span_batch \<Rightarrow> u64 \<Rightarrow> nat \<Rightarrow> batch_validity option res" where
  "overlap_block env b parentNum i =
     (case be_PayloadByNumber env (parentNum + of_nat i + 1) of
        Inl _ \<Rightarrow> Ok (Some BatchUndecided)
      | Inr payload \<Rightarrow>
          let safeBlockTxs = be_Transactions env payload in
          bind_res (span_element b i) (\<lambda>e.
          let batchTxs = se_Transactions e in
          bind_res (deposit_count (be_DepositTxType env) safeBlockTxs) (\<lambda>depositCount.
          if length safeBlockTxs - depositCount \<noteq> length batchTxs then Ok (Some BatchDrop)
          else if drop depositCount safeBlockTxs \<noteq> batchTxs then Ok (Some BatchDrop)
          else case be_PayloadToBlockRef env payload of
              Inl _ \<Rightarrow> Ok (Some BatchDrop)
            | Inr ref \<Rightarrow> Ok (if id_number (l2_l1Origin ref) \<noteq> se_EpochNum e then Some BatchDrop else None))))"

fun overlap_blocks :: "'pl batch_env \<Rightarrow> span_batch \<Rightarrow> u64 \<Rightarrow> nat list \<Rightarrow> batch_validity option res" where
  "overlap_blocks env b parentNum [] = Ok None"
| "overlap_blocks env b parentNum (i # is) =
     bind_res (overlap_block env b parentNum i) (\<lambda>v.
     case v of Some v \<Rightarrow> Ok (Some v) | None \<Rightarrow> overlap_blocks env b parentNum is)"

text \<open>The parent block of the span: the safe head, or, when the span overlaps the safe chain, the block
  its first timestamp points behind.\<close>

definition span_parent ::
    "rollup_config \<Rightarrow> 'pl batch_env \<Rightarrow> l2_block_ref \<Rightarrow> u64 \<Rightarrow> (batch_validity + (u64 \<times> l2_block_ref)) res" where
  "span_parent cfg env l2SafeHead timestamp =
     (if timestamp < l2_time l2SafeHead + rc_BlockTime cfg then
        if timestamp > l2_time l2SafeHead then Ok (Inl BatchDrop)
        else guard_panic (rc_BlockTime cfg \<noteq> 0) ''integer divide by zero''
        (if (l2_time l2SafeHead - timestamp) mod rc_BlockTime cfg \<noteq> 0 then Ok (Inl BatchDrop)
        else
          let parentNum = l2_number l2SafeHead - (l2_time l2SafeHead - timestamp) div rc_BlockTime cfg - 1 in
          case be_L2BlockRefByNumber env parentNum of
            Inl _ \<Rightarrow> Ok (Inl BatchUndecided)
          | Inr parentBlock \<Rightarrow> Ok (Inr (parentNum, parentBlock)))
      else Ok (Inr (l2_number l2SafeHead, l2SafeHead)))"

definition checkSpanBatch ::
    "rollup_config \<Rightarrow> 'pl batch_env \<Rightarrow> l1_block_ref list \<Rightarrow> l2_block_ref \<Rightarrow> span_batch \<Rightarrow> l1_block_ref \<Rightarrow> batch_validity res" where
  "checkSpanBatch cfg env l1Blocks l2SafeHead b l1InclusionBlock =
     (if l1Blocks = [] then Ok BatchUndecided
      else
        let epoch = l1Blocks ! 0 in
        bind_res (GetStartEpochNum b) (\<lambda>startEpochNum.
        if startEpochNum = l1_number epoch + 1 \<and> length l1Blocks < 2 then Ok BatchUndecided
        else
        let batchOrigin = (if startEpochNum = l1_number epoch + 1 then l1Blocks ! 1 else epoch) in
        if \<not> IsDelta cfg (l1_time batchOrigin) then Ok BatchDrop
        else
        let nextTimestamp = l2_time l2SafeHead + rc_BlockTime cfg in
        bind_res (sp_GetTimestamp b) (\<lambda>timestamp.
        if timestamp > nextTimestamp then Ok BatchFuture
        else bind_res (span_element b (GetBlockCount b - 1)) (\<lambda>lastBlock.
        if se_Timestamp lastBlock < nextTimestamp then Ok BatchDrop
        else bind_res (span_parent cfg env l2SafeHead timestamp) (\<lambda>parent.
        case parent of
          Inl v \<Rightarrow> Ok v
        | Inr (parentNum, parentBlock) \<Rightarrow>
          if \<not> CheckParentHash b (l2_hash parentBlock) then Ok BatchDrop
          else if startEpochNum + rc_SeqWindowSize cfg < l1_number l1InclusionBlock then Ok BatchDrop
          else if startEpochNum > id_number (l2_l1Origin parentBlock) + 1 then Ok BatchDrop
          else case check_end_origin b (se_EpochNum lastBlock) l1Blocks of
            None \<Rightarrow> Ok BatchUndecided
          | Some hashOk \<Rightarrow>
            if \<not> hashOk then Ok BatchDrop
            else if startEpochNum < id_number (l2_l1Origin parentBlock) then Ok BatchDrop
            else case span_blocks cfg (be_DepositTxType env) l1Blocks (l2_time l2SafeHead) None 0
                (startEpochNum = id_number (l2_l1Origin parentBlock) + 1) (sp_Batches b) of
              Some v \<Rightarrow> Ok v
            | None \<Rightarrow>
              if timestamp < nextTimestamp then
                bind_res (overlap_blocks env b parentNum [0..<unat (l2_number l2SafeHead - parentNum)]) (\<lambda>v.
                Ok (case v of Some v \<Rightarrow> v | None \<Rightarrow> BatchAccept))
              else Ok BatchAccept)))))"

definition CheckBatch ::
    "rollup_config \<Rightarrow> 'pl batch_env \<Rightarrow> l1_block_ref list \<Rightarrow> l2_block_ref \<Rightarrow> batch \<times> l1_block_ref \<Rightarrow> batch_validity res" where
  "CheckBatch cfg env l1Blocks l2SafeHead p =
     (case p of (b, l1InclusionBlock) \<Rightarrow>
      case b of
        SingularB sb \<Rightarrow> Ok (checkSingularBatch cfg env l1Blocks l2SafeHead sb l1InclusionBlock)
      | SpanB sp \<Rightarrow> checkSpanBatch cfg env l1Blocks l2SafeHead sp l1InclusionBlock)"

text \<open>
  What the validity rules of batches guarantee: a specification of an accepted singular batch, the
  stability of verdicts when more L1 blocks are known, and that an accepted span batch is one whose
  blocks, taken one by one as singular batches, are all accepted.
\<close>

section \<open>Singular batches\<close>

lemma bad_txs_iff: "bad_txs dep ts \<longleftrightarrow> (\<exists>t \<in> set ts. t = [] \<or> hd t = dep)"
  by (induction ts) auto

text \<open>The L1 origin of a batch: the current epoch's block or the next one.\<close>

definition batch_origin :: "l1_block_ref list \<Rightarrow> u64 \<Rightarrow> l1_block_ref option" where
  "batch_origin l1Blocks num =
     (if l1Blocks = [] then None
      else if num = l1_number (l1Blocks ! 0) then Some (l1Blocks ! 0)
      else if num = l1_number (l1Blocks ! 0) + 1 \<and> num > l1_number (l1Blocks ! 0) \<and> 2 \<le> length l1Blocks
        then Some (l1Blocks ! 1) else None)"

text \<open>The rule on sequencer drift: past the drift only empty blocks, which must advance the epoch, or
  come before the next L1 block.\<close>

definition drift_ok :: "rollup_config \<Rightarrow> l1_block_ref \<Rightarrow> bool \<Rightarrow> l1_block_ref list \<Rightarrow> u64 \<Rightarrow> bytes list \<Rightarrow> bool" where
  "drift_ok cfg origin advanced later time txs \<longleftrightarrow>
     (time > l1_time origin + MaxSequencerDrift cfg (l1_time origin) \<longrightarrow>
        txs = [] \<and> (advanced \<or> (\<exists>l ls. later = l # ls \<and> time < l1_time l)))"

definition singular_ok ::
    "rollup_config \<Rightarrow> byte \<Rightarrow> l1_block_ref list \<Rightarrow> l2_block_ref \<Rightarrow> singular_batch \<Rightarrow> l1_block_ref \<Rightarrow> bool" where
  "singular_ok cfg dep l1Blocks head b inclusion \<longleftrightarrow>
     sb_Timestamp b = l2_time head + rc_BlockTime cfg \<and> sb_ParentHash b = l2_hash head \<and>
     l1_number inclusion \<le> sb_EpochNum b + rc_SeqWindowSize cfg \<and>
     (\<exists>origin. batch_origin l1Blocks (sb_EpochNum b) = Some origin \<and> sb_EpochHash b = l1_hash origin \<and>
        l1_time origin \<le> sb_Timestamp b \<and>
        drift_ok cfg origin (l1_number (l1Blocks ! 0) \<noteq> l1_number origin) (tl l1Blocks) (sb_Timestamp b) (sb_Transactions b)) \<and>
     \<not> bad_txs dep (sb_Transactions b)"

lemma singular_origin_Inr:
  "l1Blocks \<noteq> [] \<Longrightarrow> singular_origin l1Blocks num = Inr origin \<longleftrightarrow> batch_origin l1Blocks num = Some origin"
  by (auto simp: singular_origin_def batch_origin_def Let_def)

lemma singular_origin_verdict: "singular_origin l1Blocks num \<noteq> Inl BatchAccept"
  by (simp add: singular_origin_def Let_def)

lemma singular_drift_None:
  "l1Blocks \<noteq> [] \<Longrightarrow> singular_drift cfg l1Blocks origin b = None \<longleftrightarrow>
     drift_ok cfg origin (l1_number (l1Blocks ! 0) \<noteq> l1_number origin) (tl l1Blocks) (sb_Timestamp b) (sb_Transactions b)"
  by (cases l1Blocks; cases "tl l1Blocks") (auto simp: singular_drift_def drift_ok_def Let_def not_le)

lemma singular_drift_verdict: "singular_drift cfg l1Blocks origin b \<noteq> Some BatchAccept"
  by (simp add: singular_drift_def Let_def)

lemma singular_accept_iff:
  "checkSingularBatch cfg env l1Blocks head b inclusion = BatchAccept \<longleftrightarrow>
     singular_ok cfg (be_DepositTxType env) l1Blocks head b inclusion"
proof (cases "l1Blocks = []")
  case True
  then show ?thesis by (simp add: checkSingularBatch_def singular_ok_def batch_origin_def)
next
  case False
  note iff = singular_origin_Inr [OF False] singular_drift_None [OF False, symmetric]
  show ?thesis
  proof (cases "singular_origin l1Blocks (sb_EpochNum b)")
    case (Inl v)
    then have "v \<noteq> BatchAccept" "batch_origin l1Blocks (sb_EpochNum b) = None"
      using singular_origin_verdict iff(1) by (metis, metis not_Some_eq sum.distinct(1))
    then show ?thesis using False Inl by (simp add: checkSingularBatch_def singular_ok_def Let_def)
  next
    case (Inr origin)
    then have o: "batch_origin l1Blocks (sb_EpochNum b) = Some origin" using iff(1) by simp
    show ?thesis
      using False Inr o singular_drift_verdict [of cfg l1Blocks origin b]
      by (cases "singular_drift cfg l1Blocks origin b")
        (auto simp: checkSingularBatch_def singular_ok_def Let_def iff(2) not_less)
  qed
qed

text \<open>A verdict on a singular batch does not depend on how eagerly it is asked for: once a batch is
  accepted, dropped or put off to the future, the verdict stays the same whatever L1 blocks become
  known afterwards; only \<open>BatchUndecided\<close> waits for them.\<close>

theorem eager_verdict_stable:
  assumes "checkSingularBatch cfg env l1Blocks head b inclusion \<noteq> BatchUndecided"
  shows "checkSingularBatch cfg env (l1Blocks @ later) head b inclusion = checkSingularBatch cfg env l1Blocks head b inclusion"
proof -
  obtain l ls where l: "l1Blocks = l # ls" using assms by (cases l1Blocks) (auto simp: checkSingularBatch_def)
  have o: "singular_origin (l1Blocks @ later) num = singular_origin l1Blocks num"
    if "singular_origin l1Blocks num \<noteq> Inl BatchUndecided" for num
    using that l by (cases ls) (auto simp: singular_origin_def Let_def split: if_splits)
  have d: "singular_drift cfg (l1Blocks @ later) origin b = singular_drift cfg l1Blocks origin b"
    if "singular_drift cfg l1Blocks origin b \<noteq> Some BatchUndecided" for origin
    using that l by (cases ls) (auto simp: singular_drift_def Let_def split: if_splits)
  show ?thesis
  proof (cases "singular_origin l1Blocks (sb_EpochNum b)")
    case (Inl v)
    then show ?thesis using assms l o [of "sb_EpochNum b"] by (auto simp: checkSingularBatch_def Let_def split: if_splits)
  next
    case (Inr origin)
    then have e: "singular_origin (l1Blocks @ later) (sb_EpochNum b) = Inr origin" using o by simp
    show ?thesis
    proof (cases "singular_drift cfg l1Blocks origin b = Some BatchUndecided")
      case True
      then show ?thesis using assms l Inr e by (auto simp: checkSingularBatch_def Let_def split: if_splits)
    next
      case False
      then show ?thesis using l Inr e d by (simp add: checkSingularBatch_def Let_def)
    qed
  qed
qed

definition sample_l1 :: "u64 \<Rightarrow> l1_block_ref" where
  "sample_l1 n = \<lparr>l1_hash = 100, l1_number = n, l1_parentHash = 100, l1_time = 10 * n\<rparr>"

definition sample_head :: l2_block_ref where
  "sample_head = \<lparr>l2_hash = 7, l2_number = 30, l2_parentHash = 6, l2_time = 60,
     l2_l1Origin = l1_ID (sample_l1 5), l2_sequenceNumber = 0\<rparr>"

definition sample_env :: "l2_block_ref batch_env" where
  "sample_env = \<lparr>be_DepositTxType = 126, be_L2BlockRefByNumber = \<lambda>n. Inr (sample_head\<lparr>l2_number := n\<rparr>),
     be_PayloadByNumber = \<lambda>n. Inr (sample_head\<lparr>l2_number := n\<rparr>), be_Transactions = \<lambda>p. [[126, 1], [2, 3]],
     be_PayloadToBlockRef = Inr\<rparr>"

theorem eager_verdict_stable_witness:
  "let b = \<lparr>sb_ParentHash = 7, sb_EpochNum = 5, sb_EpochHash = 100, sb_Timestamp = 62, sb_Transactions = [[2, 9]]\<rparr> in
   checkSingularBatch sample_config sample_env [sample_l1 5] sample_head b (sample_l1 8) = BatchAccept \<and>
   checkSingularBatch sample_config sample_env [sample_l1 5, sample_l1 6] sample_head b (sample_l1 8) = BatchAccept"
proof -
  let ?b = "\<lparr>sb_ParentHash = 7, sb_EpochNum = 5, sb_EpochHash = 100, sb_Timestamp = 62, sb_Transactions = [[2, 9]]\<rparr>"
  have "checkSingularBatch sample_config sample_env [sample_l1 5] sample_head ?b (sample_l1 8) = BatchAccept"
    by (simp add: checkSingularBatch_def singular_origin_def singular_drift_def sample_config_simps sample_env_def
        sample_head_def sample_l1_def)
  then show ?thesis
    using eager_verdict_stable [of sample_config sample_env "[sample_l1 5]" sample_head ?b "sample_l1 8" "[sample_l1 6]"] by simp
qed

end
