(* ===== verification/DeriveQueue.thy ===== *)
theory DeriveQueue
  imports DeriveBatch DeriveBank
begin

text \<open>
  The batch queue, after \<open>op-node/rollup/derive/batch_queue.go\<close>: it keeps the L1 blocks from the
  origin of the safe head on, orders the batches that come in, hands out singular batches one by one
  (those of a span from a cache) and makes up empty ones when the sequencing window is over. The
  stage before it is a state with the functions \<open>next\<close> (\<open>NextBatch\<close>) and \<open>orig\<close> (\<open>Origin\<close>).
\<close>

section \<open>State and operations\<close>

record 'p batch_queue =
  bq_prev :: 'p
  bq_origin :: l1_block_ref
  bq_l1Blocks :: "l1_block_ref list"
  bq_batches :: "(batch \<times> l1_block_ref) list"
  bq_nextSpan :: "singular_batch list"

definition NewBatchQueue :: "'p \<Rightarrow> 'p batch_queue" where
  "NewBatchQueue p = \<lparr>bq_prev = p, bq_origin = zero_l1_ref, bq_l1Blocks = [], bq_batches = [], bq_nextSpan = []\<rparr>"

definition popNextBatch :: "l2_block_ref \<Rightarrow> 'p batch_queue \<Rightarrow> ('p batch_queue \<times> singular_batch) res" where
  "popNextBatch parent bq =
     (case bq_nextSpan bq of
        [] \<Rightarrow> Panic ''popping non-existent span-batch, invalid state''
      | b # bs \<Rightarrow> Ok (bq\<lparr>bq_nextSpan := bs\<rparr>, b\<lparr>sb_ParentHash := l2_hash parent\<rparr>))"

definition bq_Reset :: "l1_block_ref \<Rightarrow> 'p batch_queue \<Rightarrow> ('p batch_queue, unit) call" where
  "bq_Reset base bq = (bq\<lparr>bq_origin := base, bq_batches := [], bq_l1Blocks := [base], bq_nextSpan := []\<rparr>, Inl EOF)"

definition AddBatch ::
    "rollup_config \<Rightarrow> 'pl batch_env \<Rightarrow> batch \<Rightarrow> l2_block_ref \<Rightarrow> 'p batch_queue \<Rightarrow> 'p batch_queue res" where
  "AddBatch cfg env b parent bq =
     guard_panic (bq_l1Blocks bq \<noteq> []) ''cannot add batch, no origin was prepared''
     (bind_res (CheckBatch cfg env (bq_l1Blocks bq) parent (b, bq_origin bq)) (\<lambda>validity.
      Ok (if validity = BatchDrop then bq else bq\<lparr>bq_batches := bq_batches bq @ [(b, bq_origin bq)]\<rparr>)))"

text \<open>The loop over the buffered batches: what remains of them, and why it stopped.\<close>

datatype loop_result = Exhausted | Found batch | Undecided

fun batch_loop ::
    "rollup_config \<Rightarrow> 'pl batch_env \<Rightarrow> l1_block_ref list \<Rightarrow> l2_block_ref \<Rightarrow> (batch \<times> l1_block_ref) list \<Rightarrow>
     ((batch \<times> l1_block_ref) list \<times> loop_result) res" where
  "batch_loop cfg env l1Blocks parent [] = Ok ([], Exhausted)"
| "batch_loop cfg env l1Blocks parent (b # bs) =
     bind_res (CheckBatch cfg env l1Blocks parent b) (\<lambda>v.
     case v of
       BatchFuture \<Rightarrow> bind_res (batch_loop cfg env l1Blocks parent bs) (\<lambda>(remaining, r). Ok (b # remaining, r))
     | BatchDrop \<Rightarrow> batch_loop cfg env l1Blocks parent bs
     | BatchAccept \<Rightarrow> Ok (bs, Found (fst b))
     | BatchUndecided \<Rightarrow> Ok (b # bs, Undecided))"

text \<open>What follows when no buffered batch is accepted: an empty batch, or the next epoch.\<close>

definition force_empty ::
    "rollup_config \<Rightarrow> bool \<Rightarrow> l2_block_ref \<Rightarrow> 'p batch_queue \<Rightarrow> ('p batch_queue, batch) call" where
  "force_empty cfg outOfData parent bq =
     (let epoch = bq_l1Blocks bq ! 0;
          nextTimestamp = l2_time parent + rc_BlockTime cfg;
          expiryEpoch = l1_number epoch + rc_SeqWindowSize cfg;
          forceEmptyBatches = ((expiryEpoch = l1_number (bq_origin bq) \<and> outOfData) \<or> expiryEpoch < l1_number (bq_origin bq));
          firstOfEpoch = (l1_number epoch = id_number (l2_l1Origin parent) + 1)
      in if \<not> forceEmptyBatches then (bq, Inl EOF)
         else if length (bq_l1Blocks bq) < 2 then (bq, Inl EOF)
         else if nextTimestamp < l1_time (bq_l1Blocks bq ! 1) \<or> firstOfEpoch then
           (bq, Inr (SingularB \<lparr>sb_ParentHash = l2_hash parent, sb_EpochNum = l1_number epoch,
              sb_EpochHash = l1_hash epoch, sb_Timestamp = nextTimestamp, sb_Transactions = []\<rparr>))
         else (bq\<lparr>bq_l1Blocks := tl (bq_l1Blocks bq)\<rparr>, Inl EOF))"

definition deriveNextBatch ::
    "rollup_config \<Rightarrow> 'pl batch_env \<Rightarrow> bool \<Rightarrow> l2_block_ref \<Rightarrow> 'p batch_queue \<Rightarrow> ('p batch_queue, batch) call res" where
  "deriveNextBatch cfg env outOfData parent bq =
     (if bq_l1Blocks bq = [] then Ok (bq, Inl (Critical ''cannot derive next batch, no origin was prepared''))
      else
        let epoch = bq_l1Blocks bq ! 0 in
        if l2_l1Origin parent \<noteq> l1_ID epoch \<and> id_number (l2_l1Origin parent) \<noteq> l1_number epoch - 1 then
          Ok (bq, Inl (ResetError ''buffered L1 chain epoch in batch queue does not match safe head origin''))
        else
          bind_res (batch_loop cfg env (bq_l1Blocks bq) parent (bq_batches bq)) (\<lambda>(remaining, r).
          let bq1 = bq\<lparr>bq_batches := remaining\<rparr> in
          case r of
            Undecided \<Rightarrow> Ok (bq1, Inl EOF)
          | Found b \<Rightarrow> Ok (bq1, Inr b)
          | Exhausted \<Rightarrow> Ok (force_empty cfg outOfData parent bq1)))"

text \<open>The L1 blocks when the epoch of the parent has advanced.\<close>

fun drop_to :: "u64 \<Rightarrow> l1_block_ref list \<Rightarrow> l1_block_ref list option" where
  "drop_to num [] = None"
| "drop_to num (l # ls) = (if num = l1_number l then Some (l # ls) else drop_to num ls)"

definition advance_epoch :: "u64 \<Rightarrow> l1_block_ref list \<Rightarrow> l1_block_ref list" where
  "advance_epoch num ls =
     (if ls \<noteq> [] \<and> num > l1_number (ls ! 0) then (case drop_to num ls of Some ls' \<Rightarrow> ls' | None \<Rightarrow> ls) else ls)"

text \<open>The origin of the stage before, when it is new.\<close>

definition advance_origin :: "l1_block_ref \<Rightarrow> bool \<Rightarrow> 'p batch_queue \<Rightarrow> 'p batch_queue" where
  "advance_origin prevOrigin originBehind bq =
     (if bq_origin bq \<noteq> prevOrigin then
        bq\<lparr>bq_origin := prevOrigin, bq_l1Blocks := (if \<not> originBehind then bq_l1Blocks bq @ [prevOrigin] else [])\<rparr>
      else bq)"

text \<open>A derived batch as the singular batch to hand out.\<close>

definition hand_out ::
    "l2_block_ref \<Rightarrow> batch \<Rightarrow> 'p batch_queue \<Rightarrow> ('p batch_queue, singular_batch \<times> bool) call res" where
  "hand_out parent b bq =
     (case b of
        SingularB sb \<Rightarrow> Ok (bq, Inr (sb, bq_nextSpan bq = []))
      | SpanB sp \<Rightarrow>
          (case GetSingularBatches sp (bq_l1Blocks bq) parent of
             Ok bs \<Rightarrow> bind_res (popNextBatch parent (bq\<lparr>bq_nextSpan := bs\<rparr>)) (\<lambda>(bq1, nextBatch).
                 Ok (bq1, Inr (nextBatch, bq_nextSpan bq1 = [])))
           | Err e \<Rightarrow> Ok (bq, Inl (Critical e))
           | Panic e \<Rightarrow> Panic e))"

text \<open>The batches of the stage before, up to the derivation.\<close>

definition load_batch ::
    "rollup_config \<Rightarrow> 'pl batch_env \<Rightarrow> ('p \<Rightarrow> ('p, batch) call) \<Rightarrow> bool \<Rightarrow> l2_block_ref \<Rightarrow> 'p batch_queue \<Rightarrow>
     ('p batch_queue \<times> (derive_error + bool)) res" where
  "load_batch cfg env next originBehind parent bq =
     (case next (bq_prev bq) of
        (p, Inl e) \<Rightarrow> Ok (bq\<lparr>bq_prev := p\<rparr>, if e = EOF then Inr True else Inl e)
      | (p, Inr b) \<Rightarrow>
          let bq1 = bq\<lparr>bq_prev := p\<rparr> in
          if \<not> originBehind then bind_res (AddBatch cfg env b parent bq1) (\<lambda>bq2. Ok (bq2, Inr False))
          else Ok (bq1, Inr False))"

definition bq_NextBatch ::
    "rollup_config \<Rightarrow> 'pl batch_env \<Rightarrow> ('p \<Rightarrow> l1_block_ref) \<Rightarrow> ('p \<Rightarrow> ('p, batch) call) \<Rightarrow> l2_block_ref \<Rightarrow> 'p batch_queue \<Rightarrow>
     ('p batch_queue, singular_batch \<times> bool) call res" where
  "bq_NextBatch cfg env orig next parent bq =
     (if bq_nextSpan bq \<noteq> [] \<and> sb_Timestamp (hd (bq_nextSpan bq)) = l2_time parent + rc_BlockTime cfg then
        bind_res (popNextBatch parent bq) (\<lambda>(bq1, nextBatch). Ok (bq1, Inr (nextBatch, bq_nextSpan bq1 = [])))
      else
        let bq0 = bq\<lparr>bq_nextSpan := []\<rparr>;
            originBehind = (l1_number (orig (bq_prev bq0)) < id_number (l2_l1Origin parent));
            bq1 = advance_origin (orig (bq_prev bq0)) originBehind bq0;
            bq2 = bq1\<lparr>bq_l1Blocks := advance_epoch (id_number (l2_l1Origin parent)) (bq_l1Blocks bq1)\<rparr>
        in bind_res (load_batch cfg env next originBehind parent bq2) (\<lambda>(bq3, r).
           case r of
             Inl e \<Rightarrow> Ok (bq3, Inl e)
           | Inr outOfData \<Rightarrow>
               if originBehind then Ok (bq3, Inl (if outOfData then EOF else NotEnoughData))
               else bind_res (deriveNextBatch cfg env outOfData parent bq3) (\<lambda>(bq4, r).
                 case r of
                   Inl e \<Rightarrow> Ok (bq4, Inl (if e = EOF then (if outOfData then EOF else NotEnoughData) else e))
                 | Inr b \<Rightarrow> hand_out parent b bq4)))"

end
