(* ===== verification/DeriveSpanAccept.thy ===== *)
theory DeriveSpanAccept
  imports DeriveQueue DeriveBatch
begin

text \<open>
  Accepting a span batch is accepting its blocks: the new blocks of an accepted span, handed out one
  by one as the batch queue does, are each accepted by the rules of singular batches on the chain
  that the ones before have extended.
\<close>

section \<open>Spans as they are derived\<close>

text \<open>\<open>RawSpanBatch.derive\<close> makes blocks whose times are \<open>BlockTime\<close> apart and whose epochs go up by at
  most one.\<close>

fun derived_from :: "rollup_config \<Rightarrow> u64 \<Rightarrow> u64 \<Rightarrow> span_batch_element list \<Rightarrow> bool" where
  "derived_from cfg t n [] = True"
| "derived_from cfg t n (e # es) \<longleftrightarrow>
     unat (se_Timestamp e) = unat t + unat (rc_BlockTime cfg) \<and>
     (se_EpochNum e = n \<or> unat (se_EpochNum e) = Suc (unat n)) \<and> derived_from cfg (se_Timestamp e) (se_EpochNum e) es"

definition span_derived :: "rollup_config \<Rightarrow> span_batch \<Rightarrow> bool" where
  "span_derived cfg b \<longleftrightarrow> (case sp_Batches b of [] \<Rightarrow> False
     | e # es \<Rightarrow> derived_from cfg (se_Timestamp e) (se_EpochNum e) es)"

definition consecutive :: "l1_block_ref list \<Rightarrow> bool" where
  "consecutive ls \<longleftrightarrow> list_all (\<lambda>i. unat (l1_number (ls ! i)) = unat (l1_number (ls ! 0)) + i) [0..<length ls]"

lemma consecutive_nth: "consecutive ls \<Longrightarrow> i < length ls \<Longrightarrow> unat (l1_number (ls ! i)) = unat (l1_number (ls ! 0)) + i"
  unfolding consecutive_def list_all_iff set_upt by (drule bspec [of _ _ i]) simp_all

lemma consecutive_inj:
  assumes "consecutive ls" "i < length ls" "j < length ls" "l1_number (ls ! i) = l1_number (ls ! j)"
  shows "i = j"
proof -
  have "unat (l1_number (ls ! 0)) + i = unat (l1_number (ls ! 0)) + j"
    unfolding consecutive_nth [OF assms(1,2), symmetric] consecutive_nth [OF assms(1,3), symmetric] assms(4) ..
  then show ?thesis by simp
qed

text \<open>The chain that grows by the batches: \<open>build\<close> makes the block of a batch on its parent.\<close>

definition builds :: "(l2_block_ref \<Rightarrow> singular_batch \<Rightarrow> l2_block_ref) \<Rightarrow> bool" where
  "builds build \<longleftrightarrow> (\<forall>h b. l2_time (build h b) = sb_Timestamp b \<and>
     l2_l1Origin (build h b) = \<lparr>id_hash = sb_EpochHash b, id_number = sb_EpochNum b\<rparr>)"

fun accepted_in_turn ::
    "rollup_config \<Rightarrow> 'pl batch_env \<Rightarrow> (l2_block_ref \<Rightarrow> singular_batch \<Rightarrow> l2_block_ref) \<Rightarrow> l1_block_ref list \<Rightarrow>
     l2_block_ref \<Rightarrow> l1_block_ref \<Rightarrow> singular_batch list \<Rightarrow> bool" where
  "accepted_in_turn cfg env build l1Blocks head inclusion [] = True"
| "accepted_in_turn cfg env build l1Blocks head inclusion (b # bs) =
     (let ls = advance_epoch (id_number (l2_l1Origin head)) l1Blocks;
          b' = b\<lparr>sb_ParentHash := l2_hash head\<rparr> in
      checkSingularBatch cfg env ls head b' inclusion = BatchAccept \<and>
      accepted_in_turn cfg env build ls (build head b') inclusion bs)"

section \<open>The blocks after the safe head\<close>

lemma find_origin_consecutive:
  assumes "consecutive ls" "k \<le> j" "j < length ls"
  shows "find_origin (l1_number (ls ! j)) k (drop k ls) = Some (j, ls ! j)"
  using assms(2)
proof (induction "j - k" arbitrary: k)
  case 0
  then have "drop k ls = ls ! j # drop (Suc j) ls" using assms(3) by (simp add: Cons_nth_drop_Suc)
  then show ?case using 0 by simp
next
  case (Suc n)
  have kj: "k < j" using Suc.hyps(2) by simp
  then have "drop k ls = ls ! k # drop (Suc k) ls" using assms(3) by (simp add: Cons_nth_drop_Suc)
  moreover have "l1_number (ls ! k) \<noteq> l1_number (ls ! j)"
    using consecutive_inj [OF assms(1), of k j] assms(3) kj by auto
  ultimately show ?case using Suc.hyps(1) [of "Suc k"] Suc.hyps(2) kj by simp
qed

lemma drop_to_consecutive:
  assumes "consecutive ls" "k \<le> j" "j < length ls"
  shows "drop_to (l1_number (ls ! j)) (drop k ls) = Some (drop j ls)"
  using assms(2)
proof (induction "j - k" arbitrary: k)
  case 0
  then have "drop k ls = ls ! j # drop (Suc j) ls" "k = j" using assms(3) by (simp_all add: Cons_nth_drop_Suc)
  then show ?case by simp
next
  case (Suc n)
  have kj: "k < j" using Suc.hyps(2) by simp
  then have "drop k ls = ls ! k # drop (Suc k) ls" using assms(3) by (simp add: Cons_nth_drop_Suc)
  moreover have "l1_number (ls ! j) \<noteq> l1_number (ls ! k)"
    using consecutive_inj [OF assms(1), of k j] assms(3) kj by auto
  ultimately show ?case using Suc.hyps(1) [of "Suc k"] Suc.hyps(2) kj by simp
qed

lemma advance_epoch_consecutive:
  assumes "consecutive ls" "k \<le> j" "j < length ls"
  shows "advance_epoch (l1_number (ls ! j)) (drop k ls) = drop j ls"
proof (cases "k = j")
  case True
  then show ?thesis using assms(3) by (simp add: advance_epoch_def)
next
  case False
  then have "unat (l1_number (ls ! k)) < unat (l1_number (ls ! j))"
    using assms consecutive_nth [OF assms(1), of k] consecutive_nth [OF assms(1), of j] by simp
  then show ?thesis using assms drop_to_consecutive [OF assms]
    by (simp add: advance_epoch_def word_less_nat_alt)
qed

lemma drift_None:
  "(if t > l1_time l + MaxSequencerDrift cfg (l1_time l) then
      if txs = [] then
        if \<not> adv then
          if j + 1 \<ge> length ls then Some BatchUndecided
          else if t \<ge> l1_time (ls ! (j + 1)) then Some BatchDrop else None
        else None
      else Some BatchDrop
    else None) = None \<longleftrightarrow> drift_ok cfg l adv (drop (j + 1) ls) t txs"
  by (cases "j + 1 < length ls") (auto simp: drift_ok_def not_le Cons_nth_drop_Suc [symmetric])

text \<open>The step for one new block: \<open>idx\<close> is where the origin of the block before it is.\<close>

lemma new_blocks_accepted:
  assumes "consecutive ls" "m < length ls" "builds build"
    and "unat (l1_number inclusion) \<le> unat start + unat (rc_SeqWindowSize cfg)" "unat (l1_number (ls ! m)) + unat (rc_SeqWindowSize cfg) < 2 ^ 64"
  shows "span_blocks cfg (be_DepositTxType env) ls safeTime prev idx adv es = None \<Longrightarrow>
    list_all (\<lambda>e. safeTime < se_Timestamp e \<and> se_EpochNum e \<le> l1_number (ls ! m)) es \<Longrightarrow>
    derived_from cfg (l2_time head) (l1_number (ls ! idx)) es \<Longrightarrow> k \<le> idx \<Longrightarrow> idx \<le> m \<Longrightarrow>
    id_number (l2_l1Origin head) = l1_number (ls ! idx) \<Longrightarrow> start \<le> l1_number (ls ! idx) \<or> list_all (\<lambda>e. start \<le> se_EpochNum e) es \<Longrightarrow>
    (case prev of Some p \<Rightarrow> se_EpochNum p = l1_number (ls ! idx)
     | None \<Rightarrow> es = [] \<or> adv = (se_EpochNum (hd es) \<noteq> l1_number (ls ! idx))) \<Longrightarrow>
    \<exists>bs. singular_loop ls safeTime idx es = Ok bs \<and> length bs = length es \<and>
      accepted_in_turn cfg env build (drop k ls) head inclusion bs"
proof (induction es arbitrary: prev idx adv head k)
  case (Cons e es)
  let ?n = "l1_number (ls ! idx)"
  have new: "\<not> se_Timestamp e \<le> safeTime" "se_EpochNum e \<le> l1_number (ls ! m)" using Cons.prems(2) by auto
  have ts: "unat (se_Timestamp e) = unat (l2_time head) + unat (rc_BlockTime cfg)"
    and ep: "se_EpochNum e = ?n \<or> unat (se_EpochNum e) = Suc (unat ?n)"
    and rest: "derived_from cfg (se_Timestamp e) (se_EpochNum e) es" using Cons.prems(3) by auto
  define j where "j = (if se_EpochNum e = ?n then idx else Suc idx)"
  have idx: "idx < length ls" using Cons.prems(5) assms(2) by simp
  have jm: "j \<le> m \<and> l1_number (ls ! j) = se_EpochNum e"
  proof (cases "se_EpochNum e = ?n")
    case True
    then show ?thesis using Cons.prems(5) by (simp add: j_def)
  next
    case False
    then have s: "unat (se_EpochNum e) = Suc (unat ?n)" using ep by simp
    have "unat (se_EpochNum e) \<le> unat (l1_number (ls ! m))" using new(2) by (simp add: word_le_nat_alt)
    then have "Suc idx \<le> m" using s consecutive_nth [OF assms(1) idx] consecutive_nth [OF assms(1,2)] by simp
    moreover from this have "unat (l1_number (ls ! Suc idx)) = unat (se_EpochNum e)"
      using s consecutive_nth [OF assms(1) idx] consecutive_nth [OF assms(1), of "Suc idx"] assms(2) by simp
    ultimately show ?thesis using False by (simp add: j_def word_unat_eq_iff)
  qed
  then have j: "j < length ls" "idx \<le> j" using assms(2) by (auto simp: j_def)
  have fo: "find_origin (se_EpochNum e) idx (drop idx ls) = Some (j, ls ! j)"
    using find_origin_consecutive [OF assms(1) j(2,1)] jm by simp
  define adv' where "adv' = (case prev of Some p \<Rightarrow> se_EpochNum e > se_EpochNum p | None \<Rightarrow> adv)"
  have adv': "adv' = (se_EpochNum e \<noteq> ?n)"
    using Cons.prems(8) ep by (cases prev) (auto simp: adv'_def word_less_nat_alt)
  have sb: "\<not> se_Timestamp e < l1_time (ls ! j)" "drift_ok cfg (ls ! j) adv' (drop (j + 1) ls) (se_Timestamp e) (se_Transactions e)"
    "\<not> bad_txs (be_DepositTxType env) (se_Transactions e)"
    "span_blocks cfg (be_DepositTxType env) ls safeTime (Some e) j adv' es = None"
    using Cons.prems(1) new(1) fo unfolding drift_None [symmetric]
    by (auto simp: adv'_def [symmetric] Let_def split: if_splits option.splits)
  define b where "b = \<lparr>sb_ParentHash = 0, sb_EpochNum = se_EpochNum e, sb_EpochHash = l1_hash (ls ! j),
    sb_Timestamp = se_Timestamp e, sb_Transactions = se_Transactions e\<rparr>"
  let ?b' = "b\<lparr>sb_ParentHash := l2_hash head\<rparr>"
  have adve: "advance_epoch (id_number (l2_l1Origin head)) (drop k ls) = drop idx ls"
    using advance_epoch_consecutive [OF assms(1) Cons.prems(4) idx] Cons.prems(6) by simp
  have di: "drop idx ls = ls ! idx # drop (Suc idx) ls" using idx by (simp add: Cons_nth_drop_Suc)
  have nowrap: "unat ?n + 1 < 2 ^ 64" if "se_EpochNum e \<noteq> ?n" using ep that unsigned_less [of "se_EpochNum e", where 'a = nat] by simp
  have origin: "batch_origin (drop idx ls) (se_EpochNum e) = Some (ls ! j)"
  proof (cases "se_EpochNum e = ?n")
    case True
    then show ?thesis by (simp add: batch_origin_def di j_def)
  next
    case False
    then have e: "unat (se_EpochNum e) = Suc (unat ?n)" using ep by simp
    then have "se_EpochNum e = ?n + 1" "?n < se_EpochNum e"
      using nowrap [OF False] by (simp_all add: word_unat_eq_iff unat_word_ariths word_less_nat_alt)
    moreover have "Suc idx < length ls" "j = Suc idx" using False j by (simp_all add: j_def)
    ultimately show ?thesis using False by (simp add: batch_origin_def di)
  qed
  have next': "se_Timestamp e = l2_time head + rc_BlockTime cfg"
    using ts unsigned_less [of "se_Timestamp e", where 'a = nat] by (simp add: word_unat_eq_iff unat_word_ariths)
  have "start \<le> se_EpochNum e" using Cons.prems(7) ep by (auto simp: word_le_nat_alt)
  then have window: "l1_number inclusion \<le> se_EpochNum e + rc_SeqWindowSize cfg"
    using assms(4,5) new(2) by (simp add: word_le_nat_alt unat_word_ariths)
  have dr: "drift_ok cfg (ls ! j) (l1_number (drop idx ls ! 0) \<noteq> l1_number (ls ! j)) (tl (drop idx ls)) (se_Timestamp e) (se_Transactions e)"
  proof (cases "se_EpochNum e = ?n")
    case True
    then show ?thesis using sb(2) jm adv' by (simp add: di j_def)
  next
    case False
    then have "adv'" "l1_number (drop idx ls ! 0) \<noteq> l1_number (ls ! j)" using adv' jm by (simp_all add: di)
    then show ?thesis using sb(2) by (simp add: drift_ok_def)
  qed
  have acc: "checkSingularBatch cfg env (drop idx ls) head ?b' inclusion = BatchAccept"
    unfolding singular_accept_iff singular_ok_def
    using next' window origin sb(1,3) dr by (simp add: b_def not_less)
  have hd: "l2_time (build head ?b') = se_Timestamp e" "id_number (l2_l1Origin (build head ?b')) = l1_number (ls ! j)"
    using assms(3) jm by (simp_all add: builds_def b_def)
  obtain bs where bs: "singular_loop ls safeTime j es = Ok bs" "length bs = length es"
    "accepted_in_turn cfg env build (drop idx ls) (build head ?b') inclusion bs"
    using Cons.IH [OF sb(4), of "build head ?b'" idx] Cons.prems(2,7) rest jm j(2) hd \<open>start \<le> se_EpochNum e\<close> by auto
  show ?case using new(1) fo bs acc adve by (intro exI [of _ "b # bs"]) (simp add: b_def [symmetric] Let_def)
qed simp

section \<open>The blocks before it\<close>

lemma derived_nth:
  "derived_from cfg t n es \<Longrightarrow> i < length es \<Longrightarrow>
     unat (se_Timestamp (es ! i)) = unat t + Suc i * unat (rc_BlockTime cfg)"
  by (induction es arbitrary: t n i) (auto simp: nth_Cons split: nat.split)

lemma derived_drop:
  "derived_from cfg t n es \<Longrightarrow> i < length es \<Longrightarrow>
     derived_from cfg (se_Timestamp (es ! i)) (se_EpochNum (es ! i)) (drop (Suc i) es)"
  by (induction es arbitrary: t n i) (auto simp: nth_Cons split: nat.split)

lemma derived_epoch_ge: "derived_from cfg t n es \<Longrightarrow> list_all (\<lambda>e. n \<le> se_EpochNum e) es"
proof (induction es arbitrary: t n)
  case (Cons e es)
  then have "n \<le> se_EpochNum e" by (auto simp: word_le_nat_alt)
  moreover have "list_all (\<lambda>x. se_EpochNum e \<le> se_EpochNum x) es" using Cons by auto
  ultimately show ?case by (auto simp: list_all_iff intro: order_trans)
qed simp

lemma derived_epoch_last: "derived_from cfg t n es \<Longrightarrow> list_all (\<lambda>e. se_EpochNum e \<le> se_EpochNum (last es)) es"
proof (induction es arbitrary: t n)
  case (Cons e es)
  show ?case
  proof (cases "es = []")
    case False
    have "se_EpochNum e \<le> se_EpochNum (last es)"
      using Cons.prems False derived_epoch_ge [of cfg "se_Timestamp e" "se_EpochNum e" es] by (auto simp: list_all_iff)
    then show ?thesis using Cons False by auto
  qed simp
qed simp

lemma span_blocks_skip:
  "list_all (\<lambda>e. se_Timestamp e \<le> safeTime) old \<Longrightarrow>
     span_blocks cfg dep ls safeTime prev idx adv (old @ es) =
     span_blocks cfg dep ls safeTime (if old = [] then prev else Some (last old)) idx adv es"
  by (induction old arbitrary: prev) auto

lemma singular_loop_skip:
  "list_all (\<lambda>e. se_Timestamp e \<le> safeTime) old \<Longrightarrow> singular_loop ls safeTime idx (old @ es) = singular_loop ls safeTime idx es"
  by (induction old) auto

section \<open>What acceptance says\<close>

lemma span_blocks_verdict: "span_blocks cfg dep ls safeTime prev idx adv es \<noteq> Some BatchAccept"
  by (induction es arbitrary: prev idx adv) (auto simp: Let_def split: if_splits option.splits prod.splits)

lemma overlap_block_verdict: "overlap_block env b n i \<noteq> Ok (Some BatchAccept)"
  by (auto simp: overlap_block_def Let_def split: sum.splits if_splits elim!: bind_resE)

lemma overlap_blocks_verdict: "overlap_blocks env b n is \<noteq> Ok (Some BatchAccept)"
  by (induction "is") (auto simp: overlap_block_verdict split: option.splits elim!: bind_resE)

lemma overlap_blocks_None:
  "overlap_blocks env b n is = Ok None \<Longrightarrow> i \<in> set is \<Longrightarrow> overlap_block env b n i = Ok None"
  by (induction "is") (auto split: option.splits elim!: bind_resE)

lemma overlap_block_None:
  "overlap_block env b n i = Ok None \<Longrightarrow> \<exists>payload e r. be_PayloadByNumber env (n + of_nat i + 1) = Inr payload \<and>
     span_element b i = Ok e \<and> be_PayloadToBlockRef env payload = Inr r \<and> id_number (l2_l1Origin r) = se_EpochNum e"
  by (auto simp: overlap_block_def Let_def split: sum.splits if_splits elim!: bind_resE)

lemma check_end_origin_Some: "check_end_origin b n ls = Some v \<Longrightarrow> \<exists>m < length ls. l1_number (ls ! m) = n"
  by (induction ls) (auto split: if_splits intro: exI [of _ 0] exI [of _ "Suc _"])

lemma span_parent_verdict: "span_parent cfg env head t \<noteq> Ok (Inl BatchAccept)"
  by (auto simp: span_parent_def Let_def res_simps split: sum.splits if_splits)

lemma checkSpanBatch_accept:
  assumes ok: "checkSpanBatch cfg env l1Blocks head b inclusion = Ok BatchAccept" and es: "sp_Batches b = e # es"
  obtains pn pb where "l1Blocks \<noteq> []" "se_Timestamp e \<le> l2_time head + rc_BlockTime cfg"
    "l2_time head + rc_BlockTime cfg \<le> se_Timestamp (last (e # es))"
    "span_parent cfg env head (se_Timestamp e) = Ok (Inr (pn, pb))"
    "l1_number inclusion \<le> se_EpochNum e + rc_SeqWindowSize cfg"
    "check_end_origin b (se_EpochNum (last (e # es))) l1Blocks = Some True"
    "id_number (l2_l1Origin pb) \<le> se_EpochNum e" "se_EpochNum e \<le> id_number (l2_l1Origin pb) + 1"
    "span_blocks cfg (be_DepositTxType env) l1Blocks (l2_time head) None 0
       (se_EpochNum e = id_number (l2_l1Origin pb) + 1) (e # es) = None"
    "se_Timestamp e < l2_time head + rc_BlockTime cfg \<Longrightarrow>
       overlap_blocks env b pn [0..<unat (l2_number head - pn)] = Ok None"
proof -
  have el: "span_element b 0 = Ok e" "span_element b (GetBlockCount b - 1) = Ok (last (e # es))"
    using es by (simp_all add: span_element_def index_res_def GetBlockCount_def last_conv_nth)
  note unf = checkSpanBatch_def GetStartEpochNum_def sp_GetTimestamp_def Let_def el bind_res.simps es
  note del = span_blocks.simps last.simps overlap_blocks.simps upt_rec
  obtain v where v: "span_parent cfg env head (se_Timestamp e) = Ok v"
    using ok unfolding unf by (cases "span_parent cfg env head (se_Timestamp e)") (simp_all split: if_split_asm del: del)
  obtain pn pb where p: "v = Inr (pn, pb)"
    using ok v span_parent_verdict [of cfg env head "se_Timestamp e"] unfolding unf v
    by (cases v) (auto split: if_split_asm simp del: del)
  have "l1Blocks \<noteq> []" "se_Timestamp e \<le> l2_time head + rc_BlockTime cfg"
    "l2_time head + rc_BlockTime cfg \<le> se_Timestamp (last (e # es))"
    "l1_number inclusion \<le> se_EpochNum e + rc_SeqWindowSize cfg"
    "check_end_origin b (se_EpochNum (last (e # es))) l1Blocks = Some True"
    "id_number (l2_l1Origin pb) \<le> se_EpochNum e" "se_EpochNum e \<le> id_number (l2_l1Origin pb) + 1"
    "span_blocks cfg (be_DepositTxType env) l1Blocks (l2_time head) None 0
       (se_EpochNum e = id_number (l2_l1Origin pb) + 1) (e # es) = None"
    "se_Timestamp e < l2_time head + rc_BlockTime cfg \<Longrightarrow>
       overlap_blocks env b pn [0..<unat (l2_number head - pn)] = Ok None"
    using ok overlap_blocks_verdict [of env b pn "[0..<unat (l2_number head - pn)]"]
      span_blocks_verdict [of cfg "be_DepositTxType env" l1Blocks "l2_time head" None 0
        "se_EpochNum e = id_number (l2_l1Origin pb) + 1" "e # es"]
    unfolding unf v p sum.case prod.case
    by (simp_all add: not_less split: if_split_asm option.split_asm bool.split_asm del: del)
      (erule bind_resE, simp split: option.split_asm)+
  then show thesis using v p by (intro that) simp_all
qed

section \<open>Old blocks and new blocks\<close>

lemma span_times:
  "derived_from cfg (se_Timestamp e) n es \<Longrightarrow> i < length (e # es) \<Longrightarrow>
     unat (se_Timestamp ((e # es) ! i)) = unat (se_Timestamp e) + i * unat (rc_BlockTime cfg)"
  using derived_nth [of cfg _ n es] by (cases i) auto

lemma span_rest:
  "derived_from cfg (se_Timestamp e) (se_EpochNum e) es \<Longrightarrow> i < length (e # es) \<Longrightarrow>
     derived_from cfg (se_Timestamp ((e # es) ! i)) (se_EpochNum ((e # es) ! i)) (drop (Suc i) (e # es))"
  using derived_drop [of cfg _ _ es] by (cases i) auto

lemma epoch_step: "a \<le> n \<Longrightarrow> n \<le> a + 1 \<Longrightarrow> n = a \<or> unat n = Suc (unat a)" for n a :: u64
  by (auto simp: word_le_nat_alt unat_word_ariths word_unat_eq_iff mod_Suc split: if_splits)

lemma epoch_next: "a \<le> n \<Longrightarrow> n \<le> a + 1 \<Longrightarrow> (n = a + 1) = (n \<noteq> a)" for n a :: u64
  using epoch_step [of a n] by (auto simp: word_unat_eq_iff unat_word_ariths word_le_nat_alt mod_Suc split: if_splits)

text \<open>The overlap of a span that starts in the safe chain ends at the safe head.\<close>

lemma overlap_ends_at_head:
  assumes par: "span_parent cfg env head t = Ok (Inr (pn, pb))" and lt: "t < l2_time head + rc_BlockTime cfg"
    and nowrap: "unat (l2_time head) + unat (rc_BlockTime cfg) < 2 ^ 64"
  obtains q where "unat (l2_number head - pn) = Suc q" "pn + of_nat q + 1 = l2_number head"
    "unat t + q * unat (rc_BlockTime cfg) = unat (l2_time head)"
proof -
  define d where "d = l2_time head - t"
  have le: "t \<le> l2_time head" and bt: "rc_BlockTime cfg \<noteq> 0" and dv: "d mod rc_BlockTime cfg = 0"
    and pn: "pn = l2_number head - d div rc_BlockTime cfg - 1"
    using par lt by (auto simp: span_parent_def Let_def res_simps d_def not_less split: if_split_asm sum.split_asm)
  let ?q = "unat (d div rc_BlockTime cfg)"
  have d: "unat d = unat (l2_time head) - unat t" "unat t \<le> unat (l2_time head)"
    using le by (simp_all add: d_def unat_sub word_le_nat_alt)
  have b0: "0 < unat (rc_BlockTime cfg)" using bt by (simp add: unat_gt_0)
  have "unat (d mod rc_BlockTime cfg) = 0" using dv by simp
  then have q: "?q * unat (rc_BlockTime cfg) = unat d" by (simp add: unat_mod unat_div)
      (metis add.right_neutral div_mult_mod_eq)
  have "?q \<le> unat d" using q b0 by (metis mult.right_neutral mult_le_mono2 Suc_leI One_nat_def)
  then have "Suc ?q < 2 ^ 64" using nowrap d b0 by simp
  then have "unat (d div rc_BlockTime cfg + 1) = Suc ?q" by (simp add: unat_word_ariths)
  moreover have "l2_number head - pn = d div rc_BlockTime cfg + 1" by (simp add: pn)
  ultimately have "unat (l2_number head - pn) = Suc ?q" by simp
  moreover have "pn + of_nat ?q + 1 = l2_number head" by (simp add: pn)
  ultimately show thesis using that q d by simp
qed

lemma derived_times_after:
  assumes "derived_from cfg t n es" "0 < rc_BlockTime cfg"
  shows "list_all (\<lambda>e. t < se_Timestamp e) es"
proof -
  have "0 < unat (rc_BlockTime cfg)" using assms(2) by (simp add: unat_gt_0)
  then have "t < se_Timestamp (es ! i)" if "i < length es" for i
    using derived_nth [OF assms(1) that] by (simp add: word_less_nat_alt)
  then show ?thesis by (simp add: list_all_length)
qed

text \<open>The payloads the node has are those of its chain: the one at the head's height has its origin.\<close>

definition honest_payloads :: "'pl batch_env \<Rightarrow> l2_block_ref \<Rightarrow> bool" where
  "honest_payloads env head \<longleftrightarrow> (case be_PayloadByNumber env (l2_number head) of Inl _ \<Rightarrow> True
     | Inr p \<Rightarrow> (case be_PayloadToBlockRef env p of Inl _ \<Rightarrow> True
        | Inr r \<Rightarrow> id_number (l2_l1Origin r) = id_number (l2_l1Origin head)))"

lemma accepted_split:
  assumes ok: "checkSpanBatch cfg env l1Blocks head b inclusion = Ok BatchAccept" and es: "sp_Batches b = e # es"
    and der: "derived_from cfg (se_Timestamp e) (se_EpochNum e) es" and bt: "0 < rc_BlockTime cfg"
    and nowrap: "unat (l2_time head) + unat (rc_BlockTime cfg) < 2 ^ 64" and honest: "honest_payloads env head"
  obtains n adv where "drop n (e # es) \<noteq> []" "list_all (\<lambda>x. se_Timestamp x \<le> l2_time head) (take n (e # es))"
    "derived_from cfg (l2_time head) (id_number (l2_l1Origin head)) (drop n (e # es))"
    "span_blocks cfg (be_DepositTxType env) l1Blocks (l2_time head)
       (if n = 0 then None else Some ((e # es) ! (n - 1))) 0 adv (drop n (e # es)) = None"
    "n = 0 \<Longrightarrow> adv = (se_EpochNum e \<noteq> id_number (l2_l1Origin head))"
    "n \<noteq> 0 \<Longrightarrow> se_EpochNum ((e # es) ! (n - 1)) = id_number (l2_l1Origin head)"
proof -
  let ?nx = "l2_time head + rc_BlockTime cfg" and ?o = "id_number (l2_l1Origin head)"
  have nx: "unat ?nx = unat (l2_time head) + unat (rc_BlockTime cfg)" using nowrap by (simp add: unat_word_ariths)
  have b0: "0 < unat (rc_BlockTime cfg)" using bt by (simp add: unat_gt_0)
  obtain pn pb where par: "span_parent cfg env head (se_Timestamp e) = Ok (Inr (pn, pb))"
    and first: "se_Timestamp e \<le> ?nx" and lst: "?nx \<le> se_Timestamp (last (e # es))"
    and ep: "id_number (l2_l1Origin pb) \<le> se_EpochNum e" "se_EpochNum e \<le> id_number (l2_l1Origin pb) + 1"
    and sb: "span_blocks cfg (be_DepositTxType env) l1Blocks (l2_time head) None 0
       (se_EpochNum e = id_number (l2_l1Origin pb) + 1) (e # es) = None"
    and ov: "se_Timestamp e < ?nx \<Longrightarrow> overlap_blocks env b pn [0..<unat (l2_number head - pn)] = Ok None"
    by (rule checkSpanBatch_accept [OF ok es]) blast
  show thesis
  proof (cases "se_Timestamp e < ?nx")
    case False
    then have ts: "se_Timestamp e = ?nx" and pb: "pb = head" using first par by (auto simp: span_parent_def)
    have "se_EpochNum e = ?o \<or> unat (se_EpochNum e) = Suc (unat ?o)" using epoch_step ep pb by simp
    moreover have "unat (se_Timestamp e) = unat (l2_time head) + unat (rc_BlockTime cfg)" unfolding ts nx ..
    ultimately have "derived_from cfg (l2_time head) ?o (e # es)" using der by simp
    moreover have "(se_EpochNum e = ?o + 1) = (se_EpochNum e \<noteq> ?o)" using epoch_next ep pb by simp
    ultimately show thesis using that [of 0 "se_EpochNum e \<noteq> ?o"] sb pb by simp
  next
    case True
    obtain q where q: "unat (l2_number head - pn) = Suc q" "pn + of_nat q + 1 = l2_number head"
      and qt: "unat (se_Timestamp e) + q * unat (rc_BlockTime cfg) = unat (l2_time head)"
      using overlap_ends_at_head [OF par True nowrap] by blast
    have "overlap_block env b pn q = Ok None" using ov [OF True] overlap_blocks_None [of env b pn _ q] q(1) by simp
    then have el: "q < length (e # es)" "se_EpochNum ((e # es) ! q) = ?o"
      using overlap_block_None [of env b pn q] honest q(2) es
      by (auto simp: span_element_def res_simps honest_payloads_def)
    have tq: "se_Timestamp ((e # es) ! q) = l2_time head"
      using span_times [OF der el(1)] qt by (simp add: word_unat_eq_iff)
    have "last (e # es) \<noteq> (e # es) ! q" using tq lst nx b0 by (auto simp: word_le_nat_alt simp del: last.simps)
    then have "Suc q \<noteq> length (e # es)" by (metis diff_Suc_1 last_conv_nth list.distinct(1))
    then have len: "Suc q < length (e # es)" using el(1) by simp
    have old: "list_all (\<lambda>x. se_Timestamp x \<le> l2_time head) (take (Suc q) (e # es))"
    proof (unfold list_all_length, intro allI impI)
      fix i assume "i < length (take (Suc q) (e # es))"
      then have "i \<le> q" "i < length (e # es)" by auto
      moreover from this have "i * unat (rc_BlockTime cfg) \<le> q * unat (rc_BlockTime cfg)" by (intro mult_le_mono1)
      ultimately have "unat (se_Timestamp ((e # es) ! i)) \<le> unat (l2_time head)"
        using span_times [OF der, of i] qt by linarith
      then show "se_Timestamp (take (Suc q) (e # es) ! i) \<le> l2_time head"
        using \<open>i \<le> q\<close> by (simp add: word_le_nat_alt del: take_Suc_Cons)
    qed
    have "span_blocks cfg (be_DepositTxType env) l1Blocks (l2_time head) None 0 adv (take (Suc q) (e # es) @ drop (Suc q) (e # es)) =
        span_blocks cfg (be_DepositTxType env) l1Blocks (l2_time head) (Some ((e # es) ! q)) 0 adv (drop (Suc q) (e # es))" for adv
      unfolding span_blocks_skip [OF old] using el(1) by (simp add: last_conv_nth)
    then show thesis using that [of "Suc q"] len old span_rest [OF der el(1)] tq el(2) sb
      by (simp del: span_blocks.simps drop_Suc_Cons take_Suc_Cons append_Cons)
  qed
qed

section \<open>Span batches refine singular batches\<close>

text \<open>C7: Accepting a span batch is accepting its blocks: when the rules of span batches accept a span, its
  blocks that are not yet in the safe chain come out as a non-empty list of singular batches, and each
  of them, on the chain that the ones before have extended and with the L1 blocks the queue keeps by
  then, is accepted by the rules of singular batches, which are not asked again when they are handed
  out.\<close>

theorem span_accept_refines_singular:
  assumes ok: "checkSpanBatch cfg env l1Blocks head b inclusion = Ok BatchAccept"
    and der: "span_derived cfg b" and cons: "consecutive l1Blocks"
    and first: "l1_number (l1Blocks ! 0) = id_number (l2_l1Origin head)"
    and build: "builds build" and honest: "honest_payloads env head"
    and bt: "0 < rc_BlockTime cfg" and nowrap: "unat (l2_time head) + unat (rc_BlockTime cfg) < 2 ^ 64"
    and window: "list_all (\<lambda>l. unat (l1_number l) + unat (rc_SeqWindowSize cfg) < 2 ^ 64) l1Blocks"
  shows "\<exists>bs. GetSingularBatches b l1Blocks head = Ok bs \<and> bs \<noteq> [] \<and>
    accepted_in_turn cfg env build l1Blocks head inclusion bs"
proof -
  obtain e es where es: "sp_Batches b = e # es" and d: "derived_from cfg (se_Timestamp e) (se_EpochNum e) es"
    using der by (auto simp: span_derived_def split: list.splits)
  let ?o = "id_number (l2_l1Origin head)"
  obtain n adv where new: "drop n (e # es) \<noteq> []" and old: "list_all (\<lambda>x. se_Timestamp x \<le> l2_time head) (take n (e # es))"
    and dn: "derived_from cfg (l2_time head) ?o (drop n (e # es))"
    and sb: "span_blocks cfg (be_DepositTxType env) l1Blocks (l2_time head)
       (if n = 0 then None else Some ((e # es) ! (n - 1))) 0 adv (drop n (e # es)) = None"
    and adv: "n = 0 \<Longrightarrow> adv = (se_EpochNum e \<noteq> ?o)" and pe: "n \<noteq> 0 \<Longrightarrow> se_EpochNum ((e # es) ! (n - 1)) = ?o"
    by (rule accepted_split [OF ok es d bt nowrap honest]) blast
  have win: "l1_number inclusion \<le> se_EpochNum e + rc_SeqWindowSize cfg"
    and "check_end_origin b (se_EpochNum (last (e # es))) l1Blocks = Some True"
    by (rule checkSpanBatch_accept [OF ok es], assumption)+
  then obtain m where m: "m < length l1Blocks" "l1_number (l1Blocks ! m) = se_EpochNum (last (e # es))"
    using check_end_origin_Some by blast
  have ge: "list_all (\<lambda>x. se_EpochNum e \<le> se_EpochNum x) (e # es)" using derived_epoch_ge [OF d] by simp
  have le: "list_all (\<lambda>x. se_EpochNum x \<le> l1_number (l1Blocks ! m)) (e # es)"
  proof (cases "es = []")
    case False
    then show ?thesis using derived_epoch_last [OF d] ge m(2) by (auto simp: list_all_iff)
  qed (use m(2) in simp)
  have wm: "unat (l1_number (l1Blocks ! m)) + unat (rc_SeqWindowSize cfg) < 2 ^ 64"
    using window m(1) by (simp add: list_all_length)
  have "unat (se_EpochNum e) \<le> unat (l1_number (l1Blocks ! m))" using le by (simp add: word_le_nat_alt)
  then have incl: "unat (l1_number inclusion) \<le> unat (se_EpochNum e) + unat (rc_SeqWindowSize cfg)"
    using win wm by (simp add: word_le_nat_alt unat_word_ariths)
  have nd: "list_all P (drop n (e # es))" if "list_all P (e # es)" for P
    using that in_set_dropD by (fastforce simp: list_all_iff)
  have after: "list_all (\<lambda>x. l2_time head < se_Timestamp x \<and> se_EpochNum x \<le> l1_number (l1Blocks ! m)) (drop n (e # es))"
    using derived_times_after [OF dn bt] nd [OF le] by (auto simp: list_all_iff)
  obtain bs where bs: "singular_loop l1Blocks (l2_time head) 0 (drop n (e # es)) = Ok bs"
    "length bs = length (drop n (e # es))" "accepted_in_turn cfg env build (drop 0 l1Blocks) head inclusion bs"
    using new_blocks_accepted [OF cons m(1) build incl wm sb after, where k = 0] dn first nd [OF ge] adv pe
    by (cases n) auto
  have "GetSingularBatches b l1Blocks head = singular_loop l1Blocks (l2_time head) 0 (take n (e # es) @ drop n (e # es))"
    by (simp only: GetSingularBatches_def es append_take_drop_id)
  then have "GetSingularBatches b l1Blocks head = Ok bs" by (simp only: singular_loop_skip [OF old] bs(1))
  moreover have "bs \<noteq> []" using bs(2) new by auto
  ultimately show ?thesis using bs(3) by auto
qed

text \<open>A span that starts at the safe head's block and goes on for two more.\<close>

definition sample_span :: span_batch where
  "sample_span = \<lparr>sp_ParentCheck = take 20 (hash_bytes 7), sp_L1OriginCheck = take 20 (hash_bytes 100),
     sp_Batches = [\<lparr>se_EpochNum = 5, se_Timestamp = 60, se_Transactions = [[2, 3]]\<rparr>,
       \<lparr>se_EpochNum = 5, se_Timestamp = 62, se_Transactions = [[2, 9]]\<rparr>,
       \<lparr>se_EpochNum = 6, se_Timestamp = 64, se_Transactions = []\<rparr>]\<rparr>"

definition sample_build :: "l2_block_ref \<Rightarrow> singular_batch \<Rightarrow> l2_block_ref" where
  "sample_build h b = \<lparr>l2_hash = l2_hash h + 1, l2_number = l2_number h + 1, l2_parentHash = l2_hash h, l2_time = sb_Timestamp b,
     l2_l1Origin = \<lparr>id_hash = sb_EpochHash b, id_number = sb_EpochNum b\<rparr>, l2_sequenceNumber = 0\<rparr>"

lemma sample_span_accepted:
  "checkSpanBatch sample_config sample_env [sample_l1 5, sample_l1 6] sample_head sample_span (sample_l1 8) = Ok BatchAccept"
proof -
  have "overlap_block sample_env sample_span n 0 = Ok None" for n
    by (simp add: overlap_block_def sample_env_def sample_span_def span_element_def index_res_def sample_head_def
        l1_ID_def sample_l1_def)
  moreover have "[0..<unat (l2_number sample_head - 29)] = [0]" by (simp add: sample_head_def)
  moreover have "span_parent sample_config sample_env sample_head 60 = Ok (Inr (29, sample_head\<lparr>l2_number := 29\<rparr>))"
    by (simp add: span_parent_def sample_config_simps sample_env_def sample_head_def)
  moreover have "be_DepositTxType sample_env = 126" "l2_time sample_head = 60" "id_number (l2_l1Origin sample_head) = 5"
    "sp_ParentCheck sample_span = take 20 (hash_bytes 7)" "sp_L1OriginCheck sample_span = take 20 (hash_bytes 100)"
    "sp_Batches sample_span = [\<lparr>se_EpochNum = 5, se_Timestamp = 60, se_Transactions = [[2, 3]]\<rparr>,
       \<lparr>se_EpochNum = 5, se_Timestamp = 62, se_Transactions = [[2, 9]]\<rparr>,
       \<lparr>se_EpochNum = 6, se_Timestamp = 64, se_Transactions = []\<rparr>]"
    "l2_hash (sample_head\<lparr>l2_number := 29\<rparr>) = 7"
    by (simp_all add: sample_env_def sample_head_def sample_span_def l1_ID_def sample_l1_def)
  ultimately show ?thesis
    by (simp add: checkSpanBatch_def GetStartEpochNum_def sp_GetTimestamp_def span_element_def index_res_def GetBlockCount_def
        sample_config_simps CheckParentHash_def CheckOriginHash_def sample_l1_def)
qed

theorem span_accept_refines_singular_witness:
  "\<exists>bs. GetSingularBatches sample_span [sample_l1 5, sample_l1 6] sample_head = Ok bs \<and> bs \<noteq> [] \<and>
    accepted_in_turn sample_config sample_env sample_build [sample_l1 5, sample_l1 6] sample_head (sample_l1 8) bs"
  by (rule span_accept_refines_singular [OF sample_span_accepted])
    (simp_all add: span_derived_def sample_span_def consecutive_def sample_l1_def sample_head_def l1_ID_def builds_def
      sample_build_def honest_payloads_def sample_env_def sample_config_simps)

end
