(* ===== verification/DeriveQueueProps.thy ===== *)
theory DeriveQueueProps
  imports DeriveSpanAccept
begin

text \<open>
  What the batch queue promises the stage after it: it never panics, and every batch it hands out is
  the next block of the safe head it was asked for, whether it came in as a singular batch, from a
  span, from the cache of a span, or was made up because the sequencing window is over.
\<close>

section \<open>The checks do not panic\<close>

text \<open>What is known of the inputs: spans as the codec derives them, and payloads whose transactions are
  not empty byte strings.\<close>

definition good_batch :: "rollup_config \<Rightarrow> batch \<Rightarrow> bool" where
  "good_batch cfg b = (case b of SingularB _ \<Rightarrow> True | SpanB sp \<Rightarrow> span_derived cfg sp)"

definition good_payloads :: "'pl batch_env \<Rightarrow> bool" where
  "good_payloads env \<longleftrightarrow> (\<forall>n p. be_PayloadByNumber env n = Inr p \<longrightarrow> [] \<notin> set (be_Transactions env p))"

lemma deposit_count_total: "[] \<notin> set ts \<Longrightarrow> \<exists>n. deposit_count dep ts = Ok n"
  by (induction ts) auto

lemma overlap_block_total:
  assumes "good_payloads env" "i < length (sp_Batches b)"
  shows "\<exists>v. overlap_block env b n i = Ok v"
proof (cases "be_PayloadByNumber env (n + of_nat i + 1)")
  case (Inr p)
  then obtain k where "deposit_count (be_DepositTxType env) (be_Transactions env p) = Ok k"
    using assms(1) deposit_count_total unfolding good_payloads_def by blast
  then show ?thesis using assms(2) Inr
    by (cases "be_PayloadToBlockRef env p") (simp_all add: overlap_block_def span_element_def index_res_def Let_def)
qed (simp add: overlap_block_def)

lemma overlap_blocks_total:
  "good_payloads env \<Longrightarrow> list_all (\<lambda>i. i < length (sp_Batches b)) is \<Longrightarrow> \<exists>v. overlap_blocks env b n is = Ok v"
proof (induction "is")
  case (Cons i "is")
  then obtain v where "overlap_block env b n i = Ok v" using overlap_block_total by fastforce
  then show ?case using Cons by (cases v) auto
qed simp

lemma span_parent_total: "0 < rc_BlockTime cfg \<Longrightarrow> \<exists>v. span_parent cfg env head t = Ok v"
  by (cases "rc_BlockTime cfg = 0") (auto simp: span_parent_def Let_def split: sum.split)

text \<open>A span that reaches past the safe head has a block for every overlapped one, and its first new
  block is the next one.\<close>

lemma overlap_in_span:
  assumes d: "derived_from cfg (se_Timestamp e) n es" and b0: "0 < rc_BlockTime cfg"
    and nowrap: "unat (l2_time head) + unat (rc_BlockTime cfg) < 2 ^ 64"
    and lst: "l2_time head + rc_BlockTime cfg \<le> se_Timestamp (last (e # es))"
    and q: "unat (se_Timestamp e) + q * unat (rc_BlockTime cfg) = unat (l2_time head)"
  shows "Suc q < length (e # es)"
proof -
  have b: "0 < unat (rc_BlockTime cfg)" using b0 by (simp add: unat_gt_0)
  have "unat (l2_time head) + unat (rc_BlockTime cfg) \<le> unat (se_Timestamp ((e # es) ! length es))"
    using lst nowrap by (simp add: word_le_nat_alt unat_word_ariths last_conv_nth del: last.simps)
  also have "\<dots> = unat (se_Timestamp e) + length es * unat (rc_BlockTime cfg)" using span_times [OF d] by simp
  finally have "Suc q * unat (rc_BlockTime cfg) \<le> length es * unat (rc_BlockTime cfg)" using q by simp
  then show ?thesis using b by (simp add: mult_le_cancel2 del: mult_Suc)
qed

lemma checkSpanBatch_total:
  assumes d: "span_derived cfg b" and b0: "0 < rc_BlockTime cfg"
    and nowrap: "unat (l2_time head) + unat (rc_BlockTime cfg) < 2 ^ 64" and good: "good_payloads env"
  shows "\<exists>v. checkSpanBatch cfg env l1Blocks head b inclusion = Ok v"
proof -
  obtain e es where es: "sp_Batches b = e # es" and d: "derived_from cfg (se_Timestamp e) (se_EpochNum e) es"
    using d by (auto simp: span_derived_def split: list.splits)
  have el: "span_element b 0 = Ok e" "span_element b (GetBlockCount b - 1) = Ok (last (e # es))"
    using es by (simp_all add: span_element_def index_res_def GetBlockCount_def last_conv_nth)
  note unf = checkSpanBatch_def GetStartEpochNum_def sp_GetTimestamp_def Let_def el bind_res.simps es
  note del = span_blocks.simps last.simps overlap_blocks.simps upt_rec
  obtain v where v: "span_parent cfg env head (se_Timestamp e) = Ok v" using span_parent_total [OF b0] by blast
  show ?thesis
  proof (cases "v")
    case (Inr p)
    obtain pn pb where p: "p = (pn, pb)" by fastforce
    have "\<exists>o'. overlap_blocks env b pn [0..<unat (l2_number head - pn)] = Ok o'"
      if lt: "se_Timestamp e < l2_time head + rc_BlockTime cfg" and l: "l2_time head + rc_BlockTime cfg \<le> se_Timestamp (last (e # es))"
    proof -
      obtain q where "unat (l2_number head - pn) = Suc q" "unat (se_Timestamp e) + q * unat (rc_BlockTime cfg) = unat (l2_time head)"
        using overlap_ends_at_head [OF _ lt nowrap] v Inr p by metis
      then have "Suc q < length (sp_Batches b)" "unat (l2_number head - pn) = Suc q"
        using overlap_in_span [OF d b0 nowrap l] es by simp_all
      then show ?thesis by (intro overlap_blocks_total [OF good]) (auto simp: list_all_iff)
    qed
    then show ?thesis unfolding unf v Inr p sum.case prod.case
      by (auto simp: not_less split: option.split simp del: del)
  next
    case (Inl w)
    show ?thesis unfolding unf v Inl sum.case by simp
  qed
qed

lemma CheckBatch_total:
  "good_batch cfg (fst b) \<Longrightarrow> 0 < rc_BlockTime cfg \<Longrightarrow> unat (l2_time head) + unat (rc_BlockTime cfg) < 2 ^ 64 \<Longrightarrow>
     good_payloads env \<Longrightarrow> \<exists>v. CheckBatch cfg env l1Blocks head b = Ok v"
  by (cases b; cases "fst b") (simp_all add: CheckBatch_def good_batch_def checkSpanBatch_total)

section \<open>The first new block of a span\<close>

lemma singular_loop_head:
  "singular_loop ls safeTime idx es = Ok bs \<Longrightarrow> i < length es \<Longrightarrow> safeTime < se_Timestamp (es ! i) \<Longrightarrow>
     list_all (\<lambda>e. se_Timestamp e \<le> safeTime) (take i es) \<Longrightarrow> \<exists>b bs'. bs = b # bs' \<and> sb_Timestamp b = se_Timestamp (es ! i)"
proof (induction es arbitrary: i)
  case (Cons e es)
  show ?case
  proof (cases i)
    case 0
    then show ?thesis using Cons.prems by (auto simp: not_le [symmetric] res_simps split: option.splits)
  qed (use Cons in auto)
qed simp

lemma span_hands_out_next:
  assumes ok: "checkSpanBatch cfg env ls head b inclusion = Ok BatchAccept" and d: "span_derived cfg b"
    and b0: "0 < rc_BlockTime cfg" and nowrap: "unat (l2_time head) + unat (rc_BlockTime cfg) < 2 ^ 64"
    and bs: "GetSingularBatches b ls head = Ok bs"
  shows "\<exists>b bs'. bs = b # bs' \<and> sb_Timestamp b = l2_time head + rc_BlockTime cfg"
proof -
  let ?nx = "l2_time head + rc_BlockTime cfg"
  obtain e es where es: "sp_Batches b = e # es" and d: "derived_from cfg (se_Timestamp e) (se_EpochNum e) es"
    using d by (auto simp: span_derived_def split: list.splits)
  have nx: "unat ?nx = unat (l2_time head) + unat (rc_BlockTime cfg)" using nowrap by (simp add: unat_word_ariths)
  have b: "0 < unat (rc_BlockTime cfg)" using b0 by (simp add: unat_gt_0)
  obtain pn pb where par: "span_parent cfg env head (se_Timestamp e) = Ok (Inr (pn, pb))"
    and first: "se_Timestamp e \<le> ?nx" and lst: "?nx \<le> se_Timestamp (last (e # es))"
    by (rule checkSpanBatch_accept [OF ok es]) blast
  obtain i where i: "i < length (e # es)" "unat (se_Timestamp e) + i * unat (rc_BlockTime cfg) = unat ?nx"
  proof (cases "se_Timestamp e < ?nx")
    case True
    then obtain q where q: "unat (se_Timestamp e) + q * unat (rc_BlockTime cfg) = unat (l2_time head)"
      using overlap_ends_at_head [OF par _ nowrap] by metis
    show thesis using that [of "Suc q"] overlap_in_span [OF d b0 nowrap lst q] q nx by simp
  next
    case False
    then show thesis using that [of 0] first by simp
  qed
  have t: "se_Timestamp ((e # es) ! i) = ?nx" using span_times [OF d i(1)] i(2) by (simp only: word_unat_eq_iff)
  have "list_all (\<lambda>x. se_Timestamp x \<le> l2_time head) (take i (e # es))"
  proof (unfold list_all_length, intro allI impI)
    fix k assume "k < length (take i (e # es))"
    then have k: "Suc k \<le> i" "k < length (e # es)" "k < i" by auto
    then have "Suc k * unat (rc_BlockTime cfg) \<le> i * unat (rc_BlockTime cfg)" by (intro mult_le_mono1)
    then have "unat (se_Timestamp ((e # es) ! k)) \<le> unat (l2_time head)"
      using span_times [OF d k(2)] i(2) nx by simp
    then show "se_Timestamp (take i (e # es) ! k) \<le> l2_time head" using k(3) by (simp add: word_le_nat_alt)
  qed
  moreover have "l2_time head < ?nx" using nx b by (simp add: word_less_nat_alt)
  ultimately show ?thesis
    using singular_loop_head [of ls "l2_time head" 0 "e # es" bs i] bs i(1) t es by (simp add: GetSingularBatches_def)
qed

section \<open>Handing out\<close>

definition good_queue :: "rollup_config \<Rightarrow> 'p batch_queue \<Rightarrow> bool" where
  "good_queue cfg bq = list_all (\<lambda>p. good_batch cfg (fst p)) (bq_batches bq)"

definition extends_head :: "rollup_config \<Rightarrow> l2_block_ref \<Rightarrow> singular_batch \<Rightarrow> bool" where
  "extends_head cfg parent b \<longleftrightarrow> sb_Timestamp b = l2_time parent + rc_BlockTime cfg \<and> sb_ParentHash b = l2_hash parent"

text \<open>A call of the queue that went well: the batches it keeps are good, and a batch it gives extends
  the parent and is flagged as the last one when no more of its span is cached.\<close>

definition queue_result ::
    "rollup_config \<Rightarrow> l2_block_ref \<Rightarrow> ('p batch_queue, singular_batch \<times> bool) call res \<Rightarrow> bool" where
  "queue_result cfg parent res = (case res of
     Ok (bq, Inl e) \<Rightarrow> good_queue cfg bq
   | Ok (bq, Inr (b, concluding)) \<Rightarrow> good_queue cfg bq \<and> extends_head cfg parent b \<and> concluding = (bq_nextSpan bq = [])
   | _ \<Rightarrow> False)"

lemma singular_loop_no_panic: "singular_loop ls safeTime idx es \<noteq> Panic e"
proof (induction es arbitrary: idx)
  case (Cons x xs)
  then show ?case by (auto split: option.split) (metis bind_res.simps res.distinct res.exhaust)
qed simp

lemma hand_out_result:
  assumes acc: "CheckBatch cfg env (bq_l1Blocks bq) parent (b, inclusion) = Ok BatchAccept" and g: "good_batch cfg b" "good_queue cfg bq"
    and b0: "0 < rc_BlockTime cfg" and nowrap: "unat (l2_time parent) + unat (rc_BlockTime cfg) < 2 ^ 64"
  shows "queue_result cfg parent (hand_out parent b bq)"
proof (cases b)
  case (SingularB sb)
  then have "extends_head cfg parent sb"
    using acc by (simp add: CheckBatch_def singular_accept_iff singular_ok_def extends_head_def)
  then show ?thesis using SingularB g(2) by (simp add: hand_out_def queue_result_def)
next
  case (SpanB sp)
  show ?thesis
  proof (cases "GetSingularBatches sp (bq_l1Blocks bq) parent")
    case (Ok bs)
    have "checkSpanBatch cfg env (bq_l1Blocks bq) parent sp inclusion = Ok BatchAccept" "span_derived cfg sp"
      using acc g(1) SpanB by (simp_all add: CheckBatch_def good_batch_def)
    then obtain x bs' where "bs = x # bs'" "sb_Timestamp x = l2_time parent + rc_BlockTime cfg"
      using span_hands_out_next [OF _ _ b0 nowrap Ok] by blast
    then show ?thesis using SpanB Ok g(2)
      by (simp add: hand_out_def popNextBatch_def queue_result_def good_queue_def extends_head_def)
  next
    case (Err e)
    then show ?thesis using SpanB g(2) by (simp add: hand_out_def queue_result_def)
  next
    case (Panic e)
    then show ?thesis using singular_loop_no_panic by (simp add: GetSingularBatches_def)
  qed
qed

lemma batch_loop_ok:
  assumes b0: "0 < rc_BlockTime cfg" and nowrap: "unat (l2_time parent) + unat (rc_BlockTime cfg) < 2 ^ 64"
    and good: "good_payloads env" and g: "list_all (\<lambda>p. good_batch cfg (fst p)) bs"
  obtains rem r where "batch_loop cfg env ls parent bs = Ok (rem, r)" "list_all (\<lambda>p. good_batch cfg (fst p)) rem"
    "\<And>b. r = Found b \<Longrightarrow> good_batch cfg b \<and> (\<exists>inclusion. CheckBatch cfg env ls parent (b, inclusion) = Ok BatchAccept)"
  using g
proof (induction bs arbitrary: thesis)
  case (Cons x xs)
  obtain rem r where ih: "batch_loop cfg env ls parent xs = Ok (rem, r)" "list_all (\<lambda>p. good_batch cfg (fst p)) rem"
    "\<And>b. r = Found b \<Longrightarrow> good_batch cfg b \<and> (\<exists>inclusion. CheckBatch cfg env ls parent (b, inclusion) = Ok BatchAccept)"
    using Cons.IH Cons.prems(2) by auto
  obtain v where v: "CheckBatch cfg env ls parent x = Ok v"
    using CheckBatch_total [OF _ b0 nowrap good] Cons.prems(2) by fastforce
  show ?case
  proof (cases v)
    case BatchFuture
    then show ?thesis using ih v Cons.prems(2) by (intro Cons.prems(1) [of "x # rem" r]) simp_all
  next
    case BatchAccept
    then show ?thesis using v Cons.prems(2) by (intro Cons.prems(1) [of xs "Found (fst x)"]) (auto intro: exI [of _ "snd x"])
  qed (use ih v Cons.prems in \<open>auto\<close>)
qed auto

lemma force_empty_result:
  assumes "good_queue cfg bq" "force_empty cfg outOfData parent bq = (bq', r)"
  shows "good_queue cfg bq' \<and> bq_nextSpan bq' = bq_nextSpan bq \<and> (case r of Inl e \<Rightarrow> True
    | Inr b \<Rightarrow> (\<exists>sb. b = SingularB sb \<and> extends_head cfg parent sb))"
  using assms unfolding force_empty_def Let_def
  by (auto simp: good_queue_def extends_head_def split: if_split_asm)

lemma deriveNextBatch_result:
  assumes b0: "0 < rc_BlockTime cfg" and nowrap: "unat (l2_time parent) + unat (rc_BlockTime cfg) < 2 ^ 64"
    and good: "good_payloads env" and g: "good_queue cfg bq"
  obtains bq' r where "deriveNextBatch cfg env outOfData parent bq = Ok (bq', r)" "good_queue cfg bq'"
    "\<And>b. r = Inr b \<Longrightarrow> queue_result cfg parent (hand_out parent b bq')"
proof (cases "bq_l1Blocks bq = [] \<or> l2_l1Origin parent \<noteq> l1_ID (bq_l1Blocks bq ! 0) \<and>
    id_number (l2_l1Origin parent) \<noteq> l1_number (bq_l1Blocks bq ! 0) - 1")
  case True
  then obtain e where "deriveNextBatch cfg env outOfData parent bq = Ok (bq, Inl e)"
    unfolding deriveNextBatch_def Let_def by (metis (full_types))
  then show thesis using g that by simp
next
  case False
  obtain rem r where l: "batch_loop cfg env (bq_l1Blocks bq) parent (bq_batches bq) = Ok (rem, r)"
    and rem: "list_all (\<lambda>p. good_batch cfg (fst p)) rem"
    and f: "\<And>b. r = Found b \<Longrightarrow> good_batch cfg b \<and>
      (\<exists>inclusion. CheckBatch cfg env (bq_l1Blocks bq) parent (b, inclusion) = Ok BatchAccept)"
    using batch_loop_ok [OF b0 nowrap good] g unfolding good_queue_def by metis
  let ?bq = "bq\<lparr>bq_batches := rem\<rparr>"
  have g1: "good_queue cfg ?bq" using rem by (simp add: good_queue_def)
  have dn: "deriveNextBatch cfg env outOfData parent bq = (case r of Undecided \<Rightarrow> Ok (?bq, Inl EOF) | Found b \<Rightarrow> Ok (?bq, Inr b)
      | Exhausted \<Rightarrow> Ok (force_empty cfg outOfData parent ?bq))"
    using False l by (auto simp: deriveNextBatch_def Let_def)
  show thesis
  proof (cases r)
    case Undecided
    then show thesis using g1 dn by (intro that [of ?bq "Inl EOF"]) simp_all
  next
    case (Found b)
    obtain inclusion where "CheckBatch cfg env (bq_l1Blocks ?bq) parent (b, inclusion) = Ok BatchAccept" using f Found by auto
    then have "queue_result cfg parent (hand_out parent b ?bq)" using f Found by (intro hand_out_result [OF _ _ g1 b0 nowrap]) auto
    then show thesis using g1 dn Found by (intro that [of ?bq "Inr b"]) simp_all
  next
    case Exhausted
    obtain bq' r' where fe: "force_empty cfg outOfData parent ?bq = (bq', r')" by fastforce
    note res = force_empty_result [OF g1 fe]
    have "queue_result cfg parent (hand_out parent b bq')" if "r' = Inr b" for b
      using res that by (auto simp: hand_out_def queue_result_def)
    then show thesis using dn fe res Exhausted by (intro that [of bq' r']) simp_all
  qed
qed

lemma drop_to_nonempty: "drop_to n ls = Some ls' \<Longrightarrow> ls' \<noteq> []"
  by (induction ls) (auto split: if_splits)

lemma advance_epoch_nonempty: "ls \<noteq> [] \<Longrightarrow> advance_epoch n ls \<noteq> []"
  by (auto simp: advance_epoch_def drop_to_nonempty split: option.split)

lemma load_batch_ok:
  assumes b0: "0 < rc_BlockTime cfg" and nowrap: "unat (l2_time parent) + unat (rc_BlockTime cfg) < 2 ^ 64"
    and good: "good_payloads env" and g: "good_queue cfg bq" and src: "\<And>p p' b. next p = (p', Inr b) \<Longrightarrow> good_batch cfg b"
    and l1: "behind \<or> bq_l1Blocks bq \<noteq> []"
  obtains bq' r where "load_batch cfg env next behind parent bq = Ok (bq', r)" "good_queue cfg bq'"
proof -
  obtain p r where n: "next (bq_prev bq) = (p, r)" by fastforce
  show thesis
  proof (cases r)
    case (Inl e)
    then show thesis using n g by (intro that [of "bq\<lparr>bq_prev := p\<rparr>"]) (simp_all add: load_batch_def good_queue_def)
  next
    case (Inr b)
    have gb: "good_batch cfg b" using src n Inr by simp
    obtain v where "CheckBatch cfg env (bq_l1Blocks bq) parent (b, bq_origin bq) = Ok v"
      using CheckBatch_total [OF _ b0 nowrap good, of "(b, bq_origin bq)"] gb by auto
    then have "load_batch cfg env next behind parent bq =
        Ok (if behind \<or> v = BatchDrop then bq\<lparr>bq_prev := p\<rparr>
            else bq\<lparr>bq_prev := p, bq_batches := bq_batches bq @ [(b, bq_origin bq)]\<rparr>, Inr False)"
      using n Inr l1 by (auto simp: load_batch_def AddBatch_def Let_def)
    then show thesis by (rule that) (use g gb in \<open>simp add: good_queue_def\<close>)
  qed
qed

lemma NextBatch_result:
  assumes "0 < rc_BlockTime cfg" "unat (l2_time parent) + unat (rc_BlockTime cfg) < 2 ^ 64" "good_payloads env"
    and "good_queue cfg bq" and "\<And>p p' b. next p = (p', Inr b) \<Longrightarrow> good_batch cfg b"
    and "bq_l1Blocks bq \<noteq> [] \<or> bq_origin bq \<noteq> orig (bq_prev bq)"
  shows "queue_result cfg parent (bq_NextBatch cfg env orig next parent bq)"
proof (cases "bq_nextSpan bq \<noteq> [] \<and> sb_Timestamp (hd (bq_nextSpan bq)) = l2_time parent + rc_BlockTime cfg")
  case True
  then show ?thesis using assms(4)
    by (cases "bq_nextSpan bq") (auto simp: bq_NextBatch_def popNextBatch_def queue_result_def good_queue_def extends_head_def)
next
  case False
  define behind where "behind = (l1_number (orig (bq_prev bq)) < id_number (l2_l1Origin parent))"
  define bq1 where "bq1 = advance_origin (orig (bq_prev bq)) behind (bq\<lparr>bq_nextSpan := []\<rparr>)"
  define bq2 where "bq2 = bq1\<lparr>bq_l1Blocks := advance_epoch (id_number (l2_l1Origin parent)) (bq_l1Blocks bq1)\<rparr>"
  have g2: "good_queue cfg bq2" using assms(4) by (simp add: bq2_def bq1_def advance_origin_def good_queue_def)
  have "behind \<or> bq_l1Blocks bq1 \<noteq> []" using assms(6) by (auto simp: bq1_def advance_origin_def)
  then have l2: "behind \<or> bq_l1Blocks bq2 \<noteq> []" using advance_epoch_nonempty by (auto simp: bq2_def)
  obtain bq3 r where ld: "load_batch cfg env next behind parent bq2 = Ok (bq3, r)" and g3: "good_queue cfg bq3"
    by (rule load_batch_ok [OF assms(1-3) g2 assms(5) l2])
  have unf: "bq_NextBatch cfg env orig next parent bq = bind_res (load_batch cfg env next behind parent bq2) (\<lambda>(bq3, r).
     case r of Inl e \<Rightarrow> Ok (bq3, Inl e)
     | Inr outOfData \<Rightarrow> if behind then Ok (bq3, Inl (if outOfData then EOF else NotEnoughData))
         else bind_res (deriveNextBatch cfg env outOfData parent bq3) (\<lambda>(bq4, r).
           case r of Inl e \<Rightarrow> Ok (bq4, Inl (if e = EOF then (if outOfData then EOF else NotEnoughData) else e))
           | Inr b \<Rightarrow> hand_out parent b bq4))"
    using False unfolding bq_NextBatch_def bq2_def bq1_def behind_def Let_def by auto
  show ?thesis
  proof (cases "\<exists>e. r = Inl e \<or> behind")
    case True
    then show ?thesis using g3 unfolding unf ld bind_res.simps by (auto simp: queue_result_def split: sum.split)
  next
    case False
    then obtain ood where r: "r = Inr ood" by (cases r) auto
    obtain bq4 r4 where dn: "deriveNextBatch cfg env ood parent bq3 = Ok (bq4, r4)" "good_queue cfg bq4"
      "\<And>b. r4 = Inr b \<Longrightarrow> queue_result cfg parent (hand_out parent b bq4)"
      using deriveNextBatch_result [OF assms(1-3) g3, where outOfData = ood] by metis
    then show ?thesis using False r unfolding unf ld by (cases r4) (auto simp: queue_result_def)
  qed
qed



end
