(* ===== verification/FaultPosition.thy ===== *)
theory FaultPosition
  imports Eth
begin

text \<open>
  Positions in the tree of a fault dispute game: \<open>op-challenger/game/fault/types/position.go\<close>. The
  index is a \<open>big.Int\<close> behind a pointer, \<open>None\<close> when it is nil; the depth is a \<open>uint64\<close>. A game
  of maximal depth \<open>D\<close> bisects a trace of \<open>2 ^ D\<close> states; a position stands for the state at its trace
  index.
\<close>

unbundle bit_operations_syntax

section \<open>Positions and moves\<close>

record position =
  pos_depth :: u64
  pos_index :: "int option"

definition NewPosition :: "u64 \<Rightarrow> int \<Rightarrow> position" where
  "NewPosition depth indexAtDepth = \<lparr>pos_depth = depth, pos_index = Some indexAtDepth\<rparr>"

definition bigMSB :: "int \<Rightarrow> u64" where
  "bigMSB x = (if x = 0 then 0 else of_nat (bits_len (nat \<bar>x\<bar>) - 1))"

definition NewPositionFromGIndex :: "int \<Rightarrow> position" where
  "NewPositionFromGIndex x =
     (let depth = bigMSB x;
          withoutMSB = not (push_bit (unat depth) 1)
      in NewPosition depth (x AND withoutMSB))"

definition IndexAtDepth :: "position \<Rightarrow> int" where
  "IndexAtDepth p = (case pos_index p of None \<Rightarrow> 0 | Some i \<Rightarrow> i)"

definition MoveRight :: "position \<Rightarrow> position" where
  "MoveRight p = \<lparr>pos_depth = pos_depth p, pos_index = Some (IndexAtDepth p + 1)\<rparr>"

text \<open>\<open>1 << newPosDepth\<close> is an \<open>int\<close>: zero from 64 on, which \<open>Mod\<close> panics on; \<open>Mod\<close> is Euclidean.\<close>

definition RelativeToAncestorAtDepth :: "position \<Rightarrow> u64 \<Rightarrow> position res" where
  "RelativeToAncestorAtDepth p ancestor =
     guard_err (ancestor \<le> pos_depth p) ''position depth is too small''
     (let newPosDepth = pos_depth p - ancestor;
          nodesAtDepth = sint (push_bit (unat newPosDepth) (1 :: u64))
      in guard_panic (nodesAtDepth \<noteq> 0) ''division by zero''
           (Ok (NewPosition newPosDepth (IndexAtDepth p mod \<bar>nodesAtDepth\<bar>))))"

definition IsRootPosition :: "position \<Rightarrow> bool" where
  "IsRootPosition p \<longleftrightarrow> pos_depth p = 0 \<and> IndexAtDepth p = 0"

definition lshIndex :: "position \<Rightarrow> u64 \<Rightarrow> int" where
  "lshIndex p amount = push_bit (unat amount) (IndexAtDepth p)"

definition TraceIndex :: "position \<Rightarrow> u64 \<Rightarrow> int res" where
  "TraceIndex p maxDepth =
     guard_panic (\<not> maxDepth < pos_depth p) ''maxDepth < p.depth''
     (let rd = maxDepth - pos_depth p;
          rhs = push_bit (unat rd) 1 - 1
      in Ok (lshIndex p rd OR rhs))"

text \<open>\<open>move\<close>, to the left or right child.\<close>

definition pos_move :: "bool \<Rightarrow> position \<Rightarrow> position" where
  "pos_move right p = \<lparr>pos_depth = pos_depth p + 1, pos_index = Some (lshIndex p 1 OR (if right then 1 else 0))\<rparr>"

definition parentIndexAtDepth :: "position \<Rightarrow> int" where
  "parentIndexAtDepth p = IndexAtDepth p div 2"

definition RightOf :: "position \<Rightarrow> position \<Rightarrow> bool" where
  "RightOf p parent \<longleftrightarrow> parentIndexAtDepth p \<noteq> IndexAtDepth parent"

definition pos_parent :: "position \<Rightarrow> position" where
  "pos_parent p = \<lparr>pos_depth = pos_depth p - 1, pos_index = Some (parentIndexAtDepth p)\<rparr>"

definition Attack :: "position \<Rightarrow> position" where
  "Attack p = pos_move False p"

definition Defend :: "position \<Rightarrow> position" where
  "Defend p = pos_move False (pos_move True (pos_parent p))"

definition ToGIndex :: "position \<Rightarrow> int" where
  "ToGIndex p = push_bit (unat (pos_depth p)) 1 OR IndexAtDepth p"

definition RootPosition :: position where
  "RootPosition = NewPositionFromGIndex 1"

section \<open>Arithmetic\<close>

text \<open>The disjunctions of the code are sums, because their arguments have no bits in common.\<close>

lemma shift_or: "0 \<le> m \<Longrightarrow> m < 2 ^ n \<Longrightarrow> push_bit n k OR m = k * 2 ^ n + (m :: int)"
proof -
  assume m: "0 \<le> m" "m < 2 ^ n"
  have "push_bit n k AND m = 0"
  proof (rule bit_eqI)
    fix i
    have "\<not> bit m i" if "n \<le> i"
      using m that bit_take_bit_iff [of n m i] take_bit_int_eq_self [OF m] by auto
    then show "bit (push_bit n k AND m) i = bit (0 :: int) i" by (auto simp: bit_simps)
  qed
  then show ?thesis by (simp add: disjunctive_add_eq_or [symmetric] push_bit_eq_mult)
qed

text \<open>A position of a game: its index is one of its level.\<close>

definition pos_ok :: "position \<Rightarrow> bool" where
  "pos_ok p \<longleftrightarrow> (case pos_index p of None \<Rightarrow> False | Some i \<Rightarrow> 0 \<le> i \<and> i < 2 ^ unat (pos_depth p))"

lemma pos_okD: "pos_ok p \<Longrightarrow> pos_index p = Some (IndexAtDepth p) \<and> 0 \<le> IndexAtDepth p \<and> IndexAtDepth p < 2 ^ unat (pos_depth p)"
  by (auto simp: pos_ok_def IndexAtDepth_def split: option.splits)

lemma pos_okI:
  "pos_index p \<noteq> None \<Longrightarrow> 0 \<le> IndexAtDepth p \<Longrightarrow> IndexAtDepth p < 2 ^ unat (pos_depth p) \<Longrightarrow> pos_ok p"
  by (auto simp: pos_ok_def IndexAtDepth_def)

lemma pos_index_move [simp]: "pos_index (Attack p) \<noteq> None" "pos_index (Defend p) \<noteq> None"
  by (simp_all add: Attack_def Defend_def pos_move_def)

lemma pos_eqI: "pos_ok p \<Longrightarrow> pos_ok q \<Longrightarrow> pos_depth p = pos_depth q \<Longrightarrow> IndexAtDepth p = IndexAtDepth q \<Longrightarrow> p = q"
  using pos_okD [of p] pos_okD [of q] by (simp add: position.equality)

lemma ToGIndex_sum: "pos_ok p \<Longrightarrow> ToGIndex p = 2 ^ unat (pos_depth p) + IndexAtDepth p"
  using shift_or [of "IndexAtDepth p" "unat (pos_depth p)" 1] pos_okD [of p] by (simp add: ToGIndex_def)

text \<open>The trace index, in arithmetic: the last leaf below the position.\<close>

definition trace_idx :: "nat \<Rightarrow> position \<Rightarrow> int" where
  "trace_idx D p = (IndexAtDepth p + 1) * 2 ^ (D - unat (pos_depth p)) - 1"

lemma TraceIndex_Ok: "pos_depth p \<le> D \<Longrightarrow> TraceIndex p D = Ok (trace_idx (unat D) p)"
proof -
  assume le: "pos_depth p \<le> D"
  then have "unat (D - pos_depth p) = unat D - unat (pos_depth p)" by (simp add: unat_sub)
  then show ?thesis using le shift_or [of "2 ^ (unat D - unat (pos_depth p)) - 1" "unat D - unat (pos_depth p)" "IndexAtDepth p"]
    by (simp add: TraceIndex_def Let_def lshIndex_def trace_idx_def push_bit_eq_mult [of _ 1] algebra_simps not_less)
qed

lemma unat_Suc_depth: "unat (d :: u64) < D \<Longrightarrow> D < 2 ^ 64 \<Longrightarrow> unat (d + 1) = Suc (unat d)"
  by (simp add: unat_word_ariths)

lemma IndexAtDepth_Some [simp]: "IndexAtDepth \<lparr>pos_depth = d, pos_index = Some i\<rparr> = i"
  by (simp add: IndexAtDepth_def)

lemma Attack_fields: "pos_depth (Attack p) = pos_depth p + 1" "IndexAtDepth (Attack p) = 2 * IndexAtDepth p"
  by (simp_all add: Attack_def pos_move_def lshIndex_def push_bit_eq_mult)

text \<open>Every position that a move leads to has an even index; there a defence goes right of it.\<close>

lemma Defend_fields:
  assumes "even (IndexAtDepth p)"
  shows "pos_depth (Defend p) = pos_depth p + 1" "IndexAtDepth (Defend p) = 2 * (IndexAtDepth p + 1)"
proof -
  have "push_bit 1 (IndexAtDepth p div 2) OR 1 = IndexAtDepth p + 1"
    using shift_or [of 1 1 "IndexAtDepth p div 2"] assms by simp
  then show "pos_depth (Defend p) = pos_depth p + 1" "IndexAtDepth (Defend p) = 2 * (IndexAtDepth p + 1)"
    by (simp_all add: Defend_def pos_move_def lshIndex_def pos_parent_def parentIndexAtDepth_def push_bit_eq_mult)
qed

lemma Attack_not_RightOf: "\<not> RightOf (Attack p) p"
  by (simp add: RightOf_def parentIndexAtDepth_def Attack_fields)

lemma Defend_RightOf: "even (IndexAtDepth p) \<Longrightarrow> RightOf (Defend p) p"
  by (simp add: RightOf_def parentIndexAtDepth_def Defend_fields)

lemma trace_idx_Attack:
  assumes "unat (pos_depth p) < D" "D < 2 ^ 64"
  shows "trace_idx D (Attack p) = IndexAtDepth p * 2 ^ (D - unat (pos_depth p)) + 2 ^ (D - Suc (unat (pos_depth p))) - 1"
proof -
  obtain k where k: "D - unat (pos_depth p) = Suc k" using assms(1) by (metis Suc_diff_Suc)
  then have "D - Suc (unat (pos_depth p)) = k" by simp
  then show ?thesis using k unat_Suc_depth [OF assms] by (simp add: trace_idx_def Attack_fields algebra_simps)
qed

lemma trace_idx_Defend:
  assumes "unat (pos_depth p) < D" "D < 2 ^ 64" "even (IndexAtDepth p)"
  shows "trace_idx D (Defend p) = trace_idx D p + 2 ^ (D - Suc (unat (pos_depth p)))"
proof -
  obtain k where k: "D - unat (pos_depth p) = Suc k" using assms(1) by (metis Suc_diff_Suc)
  then have "D - Suc (unat (pos_depth p)) = k" by simp
  then show ?thesis using k unat_Suc_depth [OF assms(1,2)]
    by (simp add: trace_idx_def Defend_fields [OF assms(3)] algebra_simps)
qed

section \<open>Generalized indices\<close>

lemma bits_len_gindex: "i < 2 ^ d \<Longrightarrow> bits_len (2 ^ d + i) = Suc d"
  by (simp add: bits_len_iff)

lemma and_not_top: "0 \<le> i \<Longrightarrow> i < 2 ^ d \<Longrightarrow> (2 ^ d + i) AND not (push_bit d 1) = (i :: int)"
proof -
  assume i: "0 \<le> i" "i < 2 ^ d"
  have b: "\<not> bit i d" using take_bit_int_eq_self [OF i] bit_take_bit_iff [of d i d] by auto
  have "2 ^ d + i = push_bit d 1 OR i" using shift_or [OF i, of 1] by simp
  then show ?thesis using b by (auto intro!: bit_eqI simp: bit_simps)
qed

lemma bigMSB_gindex: "0 \<le> i \<Longrightarrow> i < 2 ^ d \<Longrightarrow> bigMSB (2 ^ d + i) = of_nat d"
proof -
  assume i: "0 \<le> i" "i < 2 ^ d"
  then have "nat (2 ^ d + i) = 2 ^ d + nat i" by (simp add: nat_add_distrib nat_power_eq)
  moreover have "nat i < 2 ^ d" using i by (simp add: nat_less_iff)
  ultimately have "bits_len (nat (2 ^ d + i)) = Suc d" by (simp add: bits_len_gindex)
  moreover have "0 < 2 ^ d + i" using i(1) by (smt (verit) zero_less_power)
  ultimately show ?thesis by (simp add: bigMSB_def)
qed

lemma moves_ok:
  assumes "pos_ok p" "even (IndexAtDepth p)" "unat (pos_depth p) < 2 ^ 64 - 1"
  shows "pos_ok (Attack p) \<and> (pos_depth p \<noteq> 0 \<longrightarrow> pos_ok (Defend p))"
proof -
  let ?d = "unat (pos_depth p)" and ?i = "IndexAtDepth p"
  note ok = pos_okD [OF assms(1)]
  have d: "unat (pos_depth p + 1) = Suc ?d" using unat_Suc_depth [of "pos_depth p" "2 ^ 64 - 1"] assms(3) by simp
  have a: "pos_ok (Attack p)" using ok d by (intro pos_okI) (simp_all add: Attack_fields)
  have "pos_ok (Defend p)" if "pos_depth p \<noteq> 0"
  proof -
    have "0 < ?d" using that by (simp add: unat_gt_0)
    then have "even (2 ^ ?d :: int)" by simp
    then have "?i + 1 < 2 ^ ?d" using ok assms(2) by (metis add1_zle_eq even_add le_neq_trans odd_one)
    then show ?thesis using ok d Defend_fields [OF assms(2)] by (intro pos_okI) simp_all
  qed
  then show ?thesis using a by simp
qed

text \<open>Generalized indices name positions: reading the generalized index of a position of the tree gives
  the position back, and a move goes to an even index one level deeper - an attack to the left child
  of the position, a defence to the left child of its right sibling, with the generalized index
  \<open>2 g\<close> or \<open>2 (g + 1)\<close> that the dispute contract computes.\<close>

theorem position_gindex:
  assumes "pos_ok p" "even (IndexAtDepth p)" "unat (pos_depth p) < 2 ^ 64 - 1"
  shows "NewPositionFromGIndex (ToGIndex p) = p \<and> pos_ok (Attack p) \<and> ToGIndex (Attack p) = 2 * ToGIndex p \<and>
    (if pos_depth p = 0 then True else pos_ok (Defend p) \<and> ToGIndex (Defend p) = 2 * (ToGIndex p + 1))"
proof -
  let ?d = "unat (pos_depth p)" and ?i = "IndexAtDepth p"
  note ok = pos_okD [OF assms(1)] and mv = moves_ok [OF assms]
  have d: "unat (pos_depth p + 1) = Suc ?d" using unat_Suc_depth [of "pos_depth p" "2 ^ 64 - 1"] assms(3) by simp
  have msb: "bigMSB (2 ^ ?d + ?i) = pos_depth p" using bigMSB_gindex [of ?i ?d] ok by simp
  have "NewPositionFromGIndex (ToGIndex p) = NewPosition (pos_depth p) ?i"
    unfolding NewPositionFromGIndex_def Let_def ToGIndex_sum [OF assms(1)] msb using and_not_top [of ?i ?d] ok by simp
  then have "NewPositionFromGIndex (ToGIndex p) = p" using ok by (simp add: NewPosition_def position.equality)
  moreover have "ToGIndex (Attack p) = 2 * ToGIndex p"
    using ToGIndex_sum [of "Attack p"] ToGIndex_sum [OF assms(1)] d mv by (simp add: Attack_fields)
  moreover have "ToGIndex (Defend p) = 2 * (ToGIndex p + 1)" if "pos_depth p \<noteq> 0"
    using ToGIndex_sum [of "Defend p"] ToGIndex_sum [OF assms(1)] d mv that by (simp add: Defend_fields [OF assms(2)])
  ultimately show ?thesis using mv by simp
qed

theorem position_gindex_witness:
  "NewPositionFromGIndex (ToGIndex (NewPosition 2 2)) = NewPosition 2 2 \<and> ToGIndex (Defend (NewPosition 2 2)) = 14"
proof -
  have "pos_ok (NewPosition 2 2)" "even (IndexAtDepth (NewPosition 2 2))" "unat (pos_depth (NewPosition 2 2)) < 2 ^ 64 - 1"
    by (simp_all add: pos_ok_def NewPosition_def)
  from position_gindex [OF this] show ?thesis by (simp add: NewPosition_def ToGIndex_def)
qed

section \<open>Subgames\<close>

text \<open>A position seen from a subgame: for a subgame of fewer than 64 levels, the relative position
  is a position of the subgame, and its trace index there is what is left of the trace index in the
  whole game after the leaves of the subgames before; from 64 levels on the shift overflows and the
  function panics.\<close>

theorem relative_position:
  assumes "pos_ok p" "a \<le> pos_depth p" "pos_depth p \<le> D"
  shows "if unat (pos_depth p) - unat a < 64
    then \<exists>q. RelativeToAncestorAtDepth p a = Ok q \<and> pos_ok q \<and> pos_depth q = pos_depth p - a \<and>
      TraceIndex q (D - a) = Ok (trace_idx (unat D) p mod 2 ^ (unat D - unat a))
    else is_panic (RelativeToAncestorAtDepth p a)"
proof -
  let ?k = "unat (pos_depth p) - unat a" and ?i = "IndexAtDepth p"
  have k: "unat (pos_depth p - a) = ?k" using assms(2) by (simp add: unat_sub)
  have le: "unat a \<le> unat (pos_depth p)" "unat (pos_depth p) \<le> unat D" using assms by (simp_all add: word_le_nat_alt)
  show ?thesis
  proof (cases "?k < 64")
    case True
    have n: "\<bar>sint (push_bit ?k (1 :: u64))\<bar> = 2 ^ ?k"
    proof (cases "?k = 63")
      case False
      then have "(2 :: int) ^ ?k < 2 ^ 63" using True by (intro power_strict_increasing) auto
      then have "signed_take_bit 63 (2 ^ ?k :: int) = 2 ^ ?k" by (intro signed_take_bit_int_eq_self) (simp_all add: order_trans [OF _ zero_le_power])
      moreover have "uint (push_bit ?k (1 :: u64)) = 2 ^ ?k"
        unfolding unsigned_push_bit_eq take_bit_push_bit using True by (simp add: push_bit_eq_mult)
      ultimately have "sint (push_bit ?k (1 :: u64)) = 2 ^ ?k" by (simp add: sint_uint)
      then show ?thesis by simp
    qed simp
    define q where "q = NewPosition (pos_depth p - a) (?i mod 2 ^ ?k)"
    have nz: "sint (push_bit ?k (1 :: u64)) \<noteq> 0"
    proof
      assume "sint (push_bit ?k (1 :: u64)) = 0"
      then show False using n by simp
    qed
    have r: "RelativeToAncestorAtDepth p a = Ok q"
      using assms(2) n nz by (auto simp: RelativeToAncestorAtDepth_def Let_def k q_def)
    have ok: "pos_ok q" by (simp add: q_def pos_ok_def NewPosition_def k)
    have da: "unat (D - a) = unat D - unat a" using le by (simp add: unat_sub word_le_nat_alt)
    have dq: "pos_depth q \<le> D - a" using le da k by (simp add: q_def NewPosition_def word_le_nat_alt)
    define r where "r = unat D - unat (pos_depth p)"
    have e: "unat D - unat a - ?k = r" "unat D - unat a = ?k + r" using le by (simp_all add: r_def)
    have "trace_idx (unat D) p = (?i + 1) * 2 ^ r - 1" by (simp add: trace_idx_def r_def)
    moreover have "trace_idx (unat (D - a)) q = (?i mod 2 ^ ?k + 1) * 2 ^ r - 1"
      using e by (simp add: trace_idx_def q_def NewPosition_def k da)
    moreover have "((?i + 1) * 2 ^ r - 1) mod 2 ^ (?k + r) = (?i mod 2 ^ ?k + 1) * 2 ^ r - 1"
    proof -
      have "(?i + 1) * 2 ^ r - 1 = (?i mod 2 ^ ?k + 1) * 2 ^ r - 1 + (?i div 2 ^ ?k) * 2 ^ (?k + r)"
      proof -
        have "(?i mod 2 ^ ?k) * 2 ^ r + (?i div 2 ^ ?k) * 2 ^ (?k + r) = (?i mod 2 ^ ?k + ?i div 2 ^ ?k * 2 ^ ?k) * 2 ^ r"
          by (simp only: power_add distrib_right mult.assoc)
        also have "\<dots> = ?i * 2 ^ r" by (simp only: mod_div_mult_eq)
        finally show ?thesis by (simp only: distrib_right mult_1)
      qed
      moreover have "0 \<le> (?i mod 2 ^ ?k + 1) * 2 ^ r - 1"
        using pos_mod_sign [of "2 ^ ?k" ?i] mult_mono [of 1 "?i mod 2 ^ ?k + 1" 1 "2 ^ r"] by simp
      moreover have "(?i mod 2 ^ ?k + 1) * 2 ^ r \<le> 2 ^ ?k * 2 ^ r"
        by (intro mult_right_mono) (simp_all add: add1_zle_eq)
      ultimately show ?thesis by (simp only: mod_mult_self1 power_add) (intro mod_pos_pos_trivial, linarith, linarith)
    qed
    ultimately show ?thesis using True r ok dq e by (simp add: TraceIndex_Ok q_def NewPosition_def)
  next
    case False
    then have "(2 :: u64) ^ ?k = 0" by (simp add: exp_eq_zero_iff)
    then have "sint (push_bit ?k (1 :: u64)) = 0" by (simp only: push_bit_eq_mult mult_1 sint_0)
    then show ?thesis using False assms(2) unfolding RelativeToAncestorAtDepth_def Let_def k by (simp add: is_panic_def)
  qed
qed

theorem relative_position_witness:
  "\<exists>q. RelativeToAncestorAtDepth (NewPosition 5 19) 2 = Ok q \<and> TraceIndex q 4 = Ok 7"
proof -
  have "pos_ok (NewPosition 5 19)" "2 \<le> pos_depth (NewPosition 5 19)" "pos_depth (NewPosition 5 19) \<le> 6"
    by (simp_all add: pos_ok_def NewPosition_def)
  from relative_position [OF this] show ?thesis by (auto simp: NewPosition_def trace_idx_def)
qed

end
