(* ===== verification/FaultGame.thy ===== *)
theory FaultGame
  imports FaultPosition
begin

text \<open>
  Claims and the state of a fault dispute game: \<open>op-challenger/game/fault/types/types.go\<close>,
  \<open>game.go\<close> and \<open>actions.go\<close>. Keccak is a parameter. Pointers and times that are compared with the
  zero value only are written as options and numbers.
\<close>

section \<open>Claims\<close>

record clock =
  clk_Duration :: "64 word"
  clk_Timestamp :: int

record claim =
  c_Value :: hash
  c_Bond :: "int option"
  c_Position :: position
  c_CounteredBy :: address
  c_Claimant :: address
  c_Clock :: clock
  c_ContractIndex :: int
  c_ParentContractIndex :: int

definition zero_claim :: claim where
  "zero_claim = \<lparr>c_Value = 0, c_Bond = None, c_Position = \<lparr>pos_depth = 0, pos_index = None\<rparr>, c_CounteredBy = 0,
     c_Claimant = 0, c_Clock = \<lparr>clk_Duration = 0, clk_Timestamp = 0\<rparr>, c_ContractIndex = 0, c_ParentContractIndex = 0\<rparr>"

text \<open>\<open>big.Int.Bytes\<close>: the absolute value, without leading zeros.\<close>

definition big_Bytes :: "int \<Rightarrow> bytes" where
  "big_Bytes x = be_encode ((bits_len (nat \<bar>x\<bar>) + 7) div 8) (nat \<bar>x\<bar>)"

text \<open>\<open>Claim.ID\<close>.\<close>

definition claim_ID :: "(bytes \<Rightarrow> hash) \<Rightarrow> claim \<Rightarrow> hash" where
  "claim_ID kk c = kk (big_Bytes (ToGIndex (c_Position c)) @ hash_bytes (c_Value c) @ big_Bytes (c_ParentContractIndex c))"

definition IsRoot :: "claim \<Rightarrow> bool" where
  "IsRoot c = IsRootPosition (c_Position c)"

section \<open>The state of a game\<close>

record game_state =
  g_claims :: "claim list"
  g_claimIDs :: "hash set"
  g_depth :: u64

definition NewGameState :: "(bytes \<Rightarrow> hash) \<Rightarrow> claim list \<Rightarrow> u64 \<Rightarrow> game_state" where
  "NewGameState kk claims depth = \<lparr>g_claims = claims, g_claimIDs = claim_ID kk ` set claims, g_depth = depth\<rparr>"

definition AgreeWithClaimLevel :: "claim \<Rightarrow> bool \<Rightarrow> bool" where
  "AgreeWithClaimLevel c agreeWithRootClaim =
     (let isOddLevel = (pos_depth (c_Position c) mod 2 = 1) in
      if agreeWithRootClaim then \<not> isOddLevel else isOddLevel)"

definition IsDuplicate :: "(bytes \<Rightarrow> hash) \<Rightarrow> game_state \<Rightarrow> claim \<Rightarrow> bool" where
  "IsDuplicate kk g c \<longleftrightarrow> claim_ID kk c \<in> g_claimIDs g"

definition getParent :: "game_state \<Rightarrow> claim \<Rightarrow> claim option" where
  "getParent g c =
     (if IsRoot c then None
      else if c_ParentContractIndex c \<ge> int (length (g_claims g)) \<or> c_ParentContractIndex c < 0 then None
      else Some (g_claims g ! nat (c_ParentContractIndex c)))"

definition GetParent :: "game_state \<Rightarrow> claim \<Rightarrow> claim res" where
  "GetParent g c = (case getParent g c of None \<Rightarrow> Err ''claim not found in game state'' | Some p \<Rightarrow> Ok p)"

definition DefendsParent :: "game_state \<Rightarrow> claim \<Rightarrow> bool" where
  "DefendsParent g c = (case getParent g c of None \<Rightarrow> False | Some p \<Rightarrow> RightOf (c_Position c) (c_Position p))"

text \<open>\<open>time.Time.Sub\<close> saturates; durations add with wrap-around.\<close>

definition time_Sub :: "int \<Rightarrow> int \<Rightarrow> 64 word" where
  "time_Sub t u = of_int (max (- (2 ^ 63)) (min (2 ^ 63 - 1) (t - u)))"

definition ChessClock :: "int \<Rightarrow> claim \<Rightarrow> claim \<Rightarrow> 64 word" where
  "ChessClock now claim parent =
     (let duration = time_Sub now (clk_Timestamp (c_Clock claim)) in
      if parent \<noteq> zero_claim then clk_Duration (c_Clock parent) + duration else duration)"

definition game_ChessClock :: "game_state \<Rightarrow> int \<Rightarrow> claim \<Rightarrow> 64 word" where
  "game_ChessClock g now claim =
     ChessClock now claim (case getParent g claim of None \<Rightarrow> zero_claim | Some p \<Rightarrow> p)"

text \<open>The walk up to the claim with a trace index; \<open>None\<close> is a walk that does not end.\<close>

partial_function (option) AncestorWithTraceIndex :: "game_state \<Rightarrow> claim \<Rightarrow> int \<Rightarrow> claim option res option" where
  "AncestorWithTraceIndex g claim idx =
     (case TraceIndex (c_Position claim) (g_depth g) of
        Err e \<Rightarrow> Some (Err e)
      | Panic e \<Rightarrow> Some (Panic e)
      | Ok ti \<Rightarrow>
          if ti = idx then Some (Ok (Some claim))
          else if IsRoot claim then Some (Ok None)
          else (case getParent g claim of
              None \<Rightarrow> Some (Ok None)
            | Some p \<Rightarrow> AncestorWithTraceIndex g p idx))"

section \<open>Actions\<close>

datatype action_type = ActionTypeMove | ActionTypeStep | ActionTypeChallengeL2BlockNumber

record ('o, 'ch) action =
  a_Type :: action_type
  a_ParentClaim :: claim
  a_IsAttack :: bool
  a_Value :: hash
  a_PreState :: bytes
  a_ProofData :: bytes
  a_OracleData :: "'o option"
  a_Challenge :: "'ch option"

section \<open>Identifiers\<close>

text \<open>The identifier of a claim does not determine the claim: the generalized index and the parent
  index are written without their leading zeros and without a separator, so the bytes that are
  hashed can be cut in more than one way. Here a claim ten levels down under claim 7 and a claim two
  levels down under claim 263 have different values and the same identifier, whatever the hash.\<close>

theorem claim_ID_ambiguous:
  "\<exists>a b. claim_ID kk a = claim_ID kk b \<and>
     ToGIndex (c_Position a) = 0x602 \<and> c_ParentContractIndex a = 7 \<and>
     ToGIndex (c_Position b) = 6 \<and> c_ParentContractIndex b = 263 \<and> c_Value a \<noteq> c_Value b"
proof -
  let ?v = "0x0100000000000000000000000000000000000000000000000000000000000001 :: hash"
  let ?w = "0x0201000000000000000000000000000000000000000000000000000000000000 :: hash"
  let ?a = "zero_claim\<lparr>c_Value := ?v, c_Position := NewPosition 10 0x202, c_ParentContractIndex := 7\<rparr>"
  let ?b = "zero_claim\<lparr>c_Value := ?w, c_Position := NewPosition 2 2, c_ParentContractIndex := 263\<rparr>"
  have g: "ToGIndex (NewPosition 10 0x202) = 0x602" "ToGIndex (NewPosition 2 2) = 6"
    by (simp_all add: ToGIndex_def NewPosition_def)
  have l: "(bits_len 0x602 + 7) div 8 = 2" "(bits_len 6 + 7) div 8 = 1" "(bits_len 7 + 7) div 8 = 1" "(bits_len 263 + 7) div 8 = 2"
    by (simp_all add: bits_len.simps)
  have "big_Bytes 0x602 @ hash_bytes ?v @ big_Bytes 7 = big_Bytes 6 @ hash_bytes ?w @ big_Bytes 263"
    by (simp add: big_Bytes_def l hash_bytes_def)
  then have "claim_ID kk ?a = claim_ID kk ?b" by (simp add: claim_ID_def g)
  then show ?thesis using g by (intro exI [of _ ?a] exI [of _ ?b]) simp
qed

end
