(* ===== verification/FaultSolver.thy ===== *)
theory FaultSolver
  imports FaultGame
begin

text \<open>
  The honest challenger: \<open>op-challenger/game/fault/solver\<close> (\<open>honest_claims.go\<close>, \<open>solver.go\<close>,
  \<open>game_solver.go\<close>). The trace accessor, which computes the values of the disputed trace, is a record
  of functions; it can fail or panic at every call. Contexts and logging are left out.
  \<open>GetL2BlockNumberChallenge\<close> signals a valid block number by the error \<open>ErrL2BlockNumberValid\<close>, which
  is \<open>Ok None\<close> here; every other error is \<open>Err\<close>.
\<close>

section \<open>The trace\<close>

record ('o, 'ch) trace_accessor =
  ta_Get :: "game_state \<Rightarrow> claim \<Rightarrow> position \<Rightarrow> hash res"
  ta_GetStepData :: "game_state \<Rightarrow> claim \<Rightarrow> position \<Rightarrow> (bytes \<times> bytes \<times> 'o) res"
  ta_GetL2BlockNumberChallenge :: "game_state \<Rightarrow> 'ch option res"

section \<open>The tracker of honest claims\<close>

record tracker =
  ht_agreed :: "hash set"
  ht_counters :: "hash \<Rightarrow> claim option"

definition newHonestClaimTracker :: tracker where
  "newHonestClaimTracker = \<lparr>ht_agreed = {}, ht_counters = (\<lambda>_. None)\<rparr>"

definition AddHonestClaim :: "(bytes \<Rightarrow> hash) \<Rightarrow> claim \<Rightarrow> claim \<Rightarrow> tracker \<Rightarrow> tracker" where
  "AddHonestClaim kk parent claim t =
     (let t1 = t\<lparr>ht_agreed := insert (claim_ID kk claim) (ht_agreed t)\<rparr> in
      if parent \<noteq> zero_claim then t1\<lparr>ht_counters := (ht_counters t1)(claim_ID kk parent \<mapsto> claim)\<rparr> else t1)"

definition IsHonest :: "(bytes \<Rightarrow> hash) \<Rightarrow> tracker \<Rightarrow> claim \<Rightarrow> bool" where
  "IsHonest kk t claim \<longleftrightarrow> claim_ID kk claim \<in> ht_agreed t"

definition HonestCounter :: "(bytes \<Rightarrow> hash) \<Rightarrow> tracker \<Rightarrow> claim \<Rightarrow> claim option" where
  "HonestCounter kk t parent = ht_counters t (claim_ID kk parent)"

section \<open>Moves and steps\<close>

definition shouldCounter :: "(bytes \<Rightarrow> hash) \<Rightarrow> game_state \<Rightarrow> claim \<Rightarrow> tracker \<Rightarrow> bool res" where
  "shouldCounter kk game claim t =
     (if IsHonest kk t claim then Ok False
      else if IsRoot claim then Ok True
      else bind_res (wrap_err (\<lambda>e. ''no parent for claim: '' @ e) (GetParent game claim)) (\<lambda>parent.
        if IsHonest kk t parent then Ok True
        else case HonestCounter kk t parent of
            None \<Rightarrow> Ok False
          | Some counter \<Rightarrow>
              bind_res (TraceIndex (c_Position counter) (g_depth game)) (\<lambda>honestIdx.
              bind_res (TraceIndex (c_Position claim) (g_depth game)) (\<lambda>claimIdx.
              Ok (claimIdx \<le> honestIdx)))))"

definition agreeWithClaim :: "('o, 'ch) trace_accessor \<Rightarrow> game_state \<Rightarrow> claim \<Rightarrow> bool res" where
  "agreeWithClaim tr game claim =
     bind_res (ta_Get tr game claim (c_Position claim)) (\<lambda>ourValue. Ok (ourValue = c_Value claim))"

definition attack :: "('o, 'ch) trace_accessor \<Rightarrow> game_state \<Rightarrow> claim \<Rightarrow> claim option res" where
  "attack tr game claim =
     (let position = Attack (c_Position claim) in
      bind_res (wrap_err (\<lambda>e. ''attack claim: '' @ e) (ta_Get tr game claim position)) (\<lambda>value.
      Ok (Some (zero_claim\<lparr>c_Value := value, c_Position := position, c_ParentContractIndex := c_ContractIndex claim\<rparr>))))"

definition defend :: "('o, 'ch) trace_accessor \<Rightarrow> game_state \<Rightarrow> claim \<Rightarrow> claim option res" where
  "defend tr game claim =
     (if IsRoot claim then Ok None
      else
        let position = Defend (c_Position claim) in
        bind_res (wrap_err (\<lambda>e. ''defend claim: '' @ e) (ta_Get tr game claim position)) (\<lambda>value.
        Ok (Some (zero_claim\<lparr>c_Value := value, c_Position := position, c_ParentContractIndex := c_ContractIndex claim\<rparr>))))"

definition NextMove ::
    "(bytes \<Rightarrow> hash) \<Rightarrow> ('o, 'ch) trace_accessor \<Rightarrow> u64 \<Rightarrow> claim \<Rightarrow> game_state \<Rightarrow> tracker \<Rightarrow> claim option res" where
  "NextMove kk tr gameDepth claim game t =
     guard_err (pos_depth (c_Position claim) \<noteq> gameDepth) ''game depth reached''
     (bind_res (wrap_err (\<lambda>e. ''failed to determine if claim should be countered: '' @ e) (shouldCounter kk game claim t)) (\<lambda>counter.
      if \<not> counter then Ok None
      else bind_res (agreeWithClaim tr game claim) (\<lambda>agree.
        if agree then defend tr game claim else attack tr game claim)))"

record 'o step_data =
  sd_LeafClaim :: claim
  sd_IsAttack :: bool
  sd_PreState :: bytes
  sd_ProofData :: bytes
  sd_OracleData :: 'o

definition AttemptStep ::
    "(bytes \<Rightarrow> hash) \<Rightarrow> ('o, 'ch) trace_accessor \<Rightarrow> u64 \<Rightarrow> game_state \<Rightarrow> claim \<Rightarrow> tracker \<Rightarrow> 'o step_data option res" where
  "AttemptStep kk tr gameDepth game claim t =
     guard_err (pos_depth (c_Position claim) = gameDepth) ''cannot step on non-leaf claims''
     (bind_res (wrap_err (\<lambda>e. ''failed to determine if claim should be countered: '' @ e) (shouldCounter kk game claim t)) (\<lambda>counter.
      if \<not> counter then Ok None
      else bind_res (agreeWithClaim tr game claim) (\<lambda>claimCorrect.
        let position = (if \<not> claimCorrect then c_Position claim else MoveRight (c_Position claim)) in
        bind_res (ta_GetStepData tr game claim position) (\<lambda>(preState, proofData, oracleData).
        Ok (Some \<lparr>sd_LeafClaim = claim, sd_IsAttack = \<not> claimCorrect, sd_PreState = preState, sd_ProofData = proofData,
                  sd_OracleData = oracleData\<rparr>)))))"

section \<open>All actions\<close>

definition AgreeWithRootClaim :: "('o, 'ch) trace_accessor \<Rightarrow> game_state \<Rightarrow> bool res" where
  "AgreeWithRootClaim tr game = bind_res (index_res (g_claims game) 0) (\<lambda>root. agreeWithClaim tr game root)"

definition step_action :: "'o step_data \<Rightarrow> ('o, 'ch) action" where
  "step_action s = \<lparr>a_Type = ActionTypeStep, a_ParentClaim = sd_LeafClaim s, a_IsAttack = sd_IsAttack s, a_Value = 0,
     a_PreState = sd_PreState s, a_ProofData = sd_ProofData s, a_OracleData = Some (sd_OracleData s), a_Challenge = None\<rparr>"

definition move_action :: "claim \<Rightarrow> bool \<Rightarrow> hash \<Rightarrow> ('o, 'ch) action" where
  "move_action parent isAttack value = \<lparr>a_Type = ActionTypeMove, a_ParentClaim = parent, a_IsAttack = isAttack,
     a_Value = value, a_PreState = [], a_ProofData = [], a_OracleData = None, a_Challenge = None\<rparr>"

definition challenge_action :: "'ch \<Rightarrow> ('o, 'ch) action" where
  "challenge_action ch = \<lparr>a_Type = ActionTypeChallengeL2BlockNumber, a_ParentClaim = zero_claim, a_IsAttack = False,
     a_Value = 0, a_PreState = [], a_ProofData = [], a_OracleData = None, a_Challenge = Some ch\<rparr>"

definition calculateStep ::
    "(bytes \<Rightarrow> hash) \<Rightarrow> ('o, 'ch) trace_accessor \<Rightarrow> u64 \<Rightarrow> game_state \<Rightarrow> claim \<Rightarrow> tracker \<Rightarrow> ('o, 'ch) action option res" where
  "calculateStep kk tr gameDepth game claim t =
     (if c_CounteredBy claim \<noteq> 0 then Ok None
      else bind_res (AttemptStep kk tr gameDepth game claim t) (\<lambda>step.
        Ok (case step of None \<Rightarrow> None | Some s \<Rightarrow> Some (step_action s))))"

text \<open>\<open>calculateMove\<close> also updates the tracker.\<close>

definition calculateMove ::
    "(bytes \<Rightarrow> hash) \<Rightarrow> ('o, 'ch) trace_accessor \<Rightarrow> u64 \<Rightarrow> game_state \<Rightarrow> claim \<Rightarrow> tracker \<Rightarrow>
     (tracker \<times> ('o, 'ch) action option) res" where
  "calculateMove kk tr gameDepth game claim t =
     bind_res (wrap_err (\<lambda>e. ''failed to calculate next move: '' @ e) (NextMove kk tr gameDepth claim game t)) (\<lambda>move.
     case move of
       None \<Rightarrow> Ok (t, None)
     | Some m \<Rightarrow>
         let t1 = AddHonestClaim kk claim m t in
         if IsDuplicate kk game m then Ok (t1, None)
         else guard_panic (0 \<le> c_ParentContractIndex m) ''index out of range''
           (bind_res (index_res (g_claims game) (nat (c_ParentContractIndex m))) (\<lambda>parent.
            Ok (t1, Some (move_action parent (\<not> DefendsParent game m) (c_Value m))))))"

text \<open>The answer to one claim.\<close>

definition calculateAction ::
    "(bytes \<Rightarrow> hash) \<Rightarrow> ('o, 'ch) trace_accessor \<Rightarrow> u64 \<Rightarrow> game_state \<Rightarrow> claim \<Rightarrow> tracker \<Rightarrow>
     (tracker \<times> ('o, 'ch) action option) res" where
  "calculateAction kk tr gameDepth game claim t =
     (if pos_depth (c_Position claim) = g_depth game then
        bind_res (calculateStep kk tr gameDepth game claim t) (\<lambda>a. Ok (t, a))
      else calculateMove kk tr gameDepth game claim t)"

text \<open>The loop over the claims: the actions so far, and the error that ended it, if any.\<close>

fun actions_loop ::
    "(bytes \<Rightarrow> hash) \<Rightarrow> ('o, 'ch) trace_accessor \<Rightarrow> u64 \<Rightarrow> game_state \<Rightarrow> claim list \<Rightarrow> tracker \<Rightarrow>
     (('o, 'ch) action list \<times> string option) res" where
  "actions_loop kk tr gameDepth game [] t = Ok ([], None)"
| "actions_loop kk tr gameDepth game (claim # claims) t =
     (case calculateAction kk tr gameDepth game claim t of
        Panic e \<Rightarrow> Panic e
      | Err e \<Rightarrow> Ok ([], Some (''failed to determine response to claim: '' @ e))
      | Ok (t1, a) \<Rightarrow>
          bind_res (actions_loop kk tr gameDepth game claims t1) (\<lambda>(as, err).
          Ok (case a of None \<Rightarrow> as | Some x \<Rightarrow> x # as, err)))"

definition CalculateNextActions ::
    "(bytes \<Rightarrow> hash) \<Rightarrow> ('o, 'ch) trace_accessor \<Rightarrow> u64 \<Rightarrow> game_state \<Rightarrow> (('o, 'ch) action list \<times> string option) res" where
  "CalculateNextActions kk tr gameDepth game =
     (case AgreeWithRootClaim tr game of
        Panic e \<Rightarrow> Panic e
      | Err e \<Rightarrow> Ok ([], Some (''failed to determine if root claim is correct: '' @ e))
      | Ok agreeWithRootClaim \<Rightarrow>
          let t0 = newHonestClaimTracker;
              t = (if agreeWithRootClaim then AddHonestClaim kk zero_claim (g_claims game ! 0) t0 else t0);
              proceed = actions_loop kk tr gameDepth game (g_claims game) t
          in if agreeWithRootClaim then
               (case ta_GetL2BlockNumberChallenge tr game of
                  Panic e \<Rightarrow> Panic e
                | Err e \<Rightarrow> Ok ([], Some (''failed to determine L2 block validity: '' @ e))
                | Ok None \<Rightarrow> proceed
                | Ok (Some challenge) \<Rightarrow> Ok ([challenge_action challenge], None))
             else proceed)"

text \<open>
  The rules that every action of the honest challenger must keep, as the repository writes them down:
  \<open>op-challenger/game/fault/solver/rules.go\<close>. A rule gives an error, or panics; the trace provider is
  a function of the position. The walks up the claims are partial functions.
\<close>

definition challengerAddr :: address where
  "challengerAddr = word_rcat (replicate 20 (0xAA :: byte))"

type_synonym provider = "position \<Rightarrow> hash res"

definition claim_at :: "game_state \<Rightarrow> claim \<Rightarrow> claim res" where
  "claim_at game c = guard_panic (0 \<le> c_ContractIndex c) ''index out of range''
     (index_res (g_claims game) (nat (c_ContractIndex c)))"

definition parent_of :: "game_state \<Rightarrow> ('o, 'ch) action \<Rightarrow> claim res" where
  "parent_of game action = claim_at game (a_ParentClaim action)"

definition resultingPosition :: "game_state \<Rightarrow> ('o, 'ch) action \<Rightarrow> position res" where
  "resultingPosition game action =
     bind_res (parent_of game action) (\<lambda>parent. Ok (
       if a_Type action = ActionTypeStep then c_Position parent
       else if a_IsAttack action then Attack (c_Position parent)
       else Defend (c_Position parent)))"

definition parentMustExist :: "game_state \<Rightarrow> ('o, 'ch) action \<Rightarrow> unit res" where
  "parentMustExist game action =
     guard_err (\<not> (int (length (g_claims game)) \<le> c_ContractIndex (a_ParentClaim action) \<or>
         c_ContractIndex (a_ParentClaim action) < 0)) ''parent claim does not exist'' (Ok ())"

definition onlyStepAtMaxDepth :: "game_state \<Rightarrow> ('o, 'ch) action \<Rightarrow> unit res" where
  "onlyStepAtMaxDepth game action =
     (if a_Type action = ActionTypeStep then Ok ()
      else bind_res (parent_of game action) (\<lambda>parent.
        guard_err (\<not> pos_depth (c_Position parent) \<ge> g_depth game) ''parent at max depth but not a step'' (Ok ())))"

definition onlyMoveBeforeMaxDepth :: "game_state \<Rightarrow> ('o, 'ch) action \<Rightarrow> unit res" where
  "onlyMoveBeforeMaxDepth game action =
     (if a_Type action = ActionTypeMove then Ok ()
      else bind_res (parent_of game action) (\<lambda>parent.
        guard_err (\<not> pos_depth (c_Position parent) < g_depth game) ''parent not at max depth but not a move'' (Ok ())))"

definition doNotDuplicateExistingMoves :: "(bytes \<Rightarrow> hash) \<Rightarrow> game_state \<Rightarrow> ('o, 'ch) action \<Rightarrow> unit res" where
  "doNotDuplicateExistingMoves kk game action =
     bind_res (resultingPosition game action) (\<lambda>position.
     guard_err (\<not> IsDuplicate kk game (zero_claim\<lparr>c_Value := a_Value action, c_Position := position,
         c_ParentContractIndex := c_ContractIndex (a_ParentClaim action)\<rparr>)) ''creating duplicate claim'' (Ok ()))"

definition doNotStepAlreadyCounteredClaims :: "game_state \<Rightarrow> ('o, 'ch) action \<Rightarrow> unit res" where
  "doNotStepAlreadyCounteredClaims game action =
     bind_res (parent_of game action) (\<lambda>claim.
     guard_err (\<not> c_CounteredBy claim \<noteq> 0) ''attempting to step already countered claim'' (Ok ()))"

definition doNotDefendRootClaim :: "game_state \<Rightarrow> ('o, 'ch) action \<Rightarrow> unit res" where
  "doNotDefendRootClaim game action =
     bind_res (parent_of game action) (\<lambda>parent.
     guard_err (\<not> (IsRootPosition (c_Position parent) \<and> \<not> a_IsAttack action)) ''defending the root claim'' (Ok ()))"

definition doNotCounterSelf :: "game_state \<Rightarrow> ('o, 'ch) action \<Rightarrow> unit res" where
  "doNotCounterSelf game action =
     bind_res (parent_of game action) (\<lambda>claim.
     guard_err (\<not> c_Claimant claim = challengerAddr) ''countering own claim'' (Ok ()))"

text \<open>The walk of \<open>avoidPoisonedPrestate\<close>: the claim with the largest trace index left of the new claim.\<close>

definition better_prestate :: "u64 \<Rightarrow> int \<Rightarrow> int \<Rightarrow> claim \<Rightarrow> bool res" where
  "better_prestate maxDepth honestTraceIndex claimTraceIdx preStateClaim =
     (if claimTraceIdx < honestTraceIndex then
        if preStateClaim = zero_claim then Ok True
        else bind_res (TraceIndex (c_Position preStateClaim) maxDepth) (\<lambda>ti. Ok (claimTraceIdx > ti))
      else Ok False)"

partial_function (option) prestate_loop :: "game_state \<Rightarrow> int \<Rightarrow> claim \<Rightarrow> claim \<Rightarrow> claim res option" where
  "prestate_loop game honestTraceIndex claim preStateClaim =
     (case bind_res (TraceIndex (c_Position claim) (g_depth game)) (\<lambda>claimTraceIdx.
          better_prestate (g_depth game) honestTraceIndex claimTraceIdx preStateClaim) of
        Err e \<Rightarrow> Some (Err e)
      | Panic e \<Rightarrow> Some (Panic e)
      | Ok better \<Rightarrow>
          let preStateClaim = (if better then claim else preStateClaim) in
          if IsRoot claim then Some (Ok preStateClaim)
          else (case getParent game claim of
              None \<Rightarrow> Some (Err ''no parent of claim'')
            | Some parent \<Rightarrow> prestate_loop game honestTraceIndex parent preStateClaim))"

text \<open>A rule that walks may not return; the value is then \<open>None\<close>.\<close>

definition avoidPoisonedPrestate :: "game_state \<Rightarrow> ('o, 'ch) action \<Rightarrow> provider \<Rightarrow> unit res option" where
  "avoidPoisonedPrestate game action correctTrace =
     (if a_Type action = ActionTypeStep then Some (Ok ())
      else
        case bind_res (resultingPosition game action) (\<lambda>movePosition.
             bind_res (TraceIndex movePosition (g_depth game)) (\<lambda>honestTraceIndex.
             bind_res (parent_of game action) (\<lambda>claim. Ok (honestTraceIndex, claim)))) of
          Err e \<Rightarrow> Some (Err e)
        | Panic e \<Rightarrow> Some (Panic e)
        | Ok (honestTraceIndex, claim) \<Rightarrow>
            (case prestate_loop game honestTraceIndex claim zero_claim of
               None \<Rightarrow> None
             | Some r \<Rightarrow> Some (bind_res r (\<lambda>preStateClaim.
                 if preStateClaim = zero_claim then Ok ()
                 else bind_res (wrap_err (\<lambda>e. ''failed to get correct trace: '' @ e) (correctTrace (c_Position preStateClaim)))
                   (\<lambda>correctValue. guard_err (correctValue = c_Value preStateClaim) ''prestate poisoned'' (Ok ()))))))"

definition detectFailedStep :: "game_state \<Rightarrow> ('o, 'ch) action \<Rightarrow> provider \<Rightarrow> unit res option" where
  "detectFailedStep game action correctTrace =
     (if a_Type action \<noteq> ActionTypeStep then Some (Ok ())
      else case bind_res (resultingPosition game action) (\<lambda>position.
             if pos_depth position \<noteq> g_depth game then Ok None
             else bind_res (TraceIndex position (g_depth game)) (\<lambda>honestTraceIndex.
               bind_res (parent_of game action) (\<lambda>claim.
               Ok (Some (if \<not> a_IsAttack action then honestTraceIndex + 1 else honestTraceIndex, claim))))) of
          Err e \<Rightarrow> Some (Err e)
        | Panic e \<Rightarrow> Some (Panic e)
        | Ok None \<Rightarrow> Some (Ok ())
        | Ok (Some (poststateIndex, claim)) \<Rightarrow>
            (case AncestorWithTraceIndex game claim poststateIndex of
               None \<Rightarrow> None
             | Some r \<Rightarrow> Some (bind_res r (\<lambda>found. case found of
                   None \<Rightarrow> Err ''did not find required poststate''
                 | Some poststateClaim \<Rightarrow>
                     bind_res (wrap_err (\<lambda>e. ''failed to get correct trace: '' @ e) (correctTrace (c_Position poststateClaim)))
                       (\<lambda>correctValue.
                     let validStep = (correctValue = c_Value poststateClaim);
                         parentPostAgree = ((pos_depth (c_Position claim) - pos_depth (c_Position poststateClaim)) mod 2 = 0) in
                     guard_err (\<not> parentPostAgree = validStep) ''failed step'' (Ok ()))))))"

definition detectPoisonedStepPrestate ::
    "(bytes \<Rightarrow> hash) \<Rightarrow> game_state \<Rightarrow> ('o, 'ch) action \<Rightarrow> provider \<Rightarrow> unit res option" where
  "detectPoisonedStepPrestate kk game action correctTrace =
     (case bind_res (resultingPosition game action) (\<lambda>position.
             if pos_depth position \<noteq> g_depth game then Ok None
             else bind_res (TraceIndex position (g_depth game)) (\<lambda>honestTraceIndex.
               let prestateIndex = (if a_IsAttack action \<or> a_Type action = ActionTypeMove
                                    then honestTraceIndex - 1 else honestTraceIndex) in
               if prestateIndex < 0 then Ok None
               else bind_res (parent_of game action) (\<lambda>claim. Ok (Some (prestateIndex, claim))))) of
        Err e \<Rightarrow> Some (Err e)
      | Panic e \<Rightarrow> Some (Panic e)
      | Ok None \<Rightarrow> Some (Ok ())
      | Ok (Some (prestateIndex, claim)) \<Rightarrow>
          (case AncestorWithTraceIndex game claim prestateIndex of
             None \<Rightarrow> None
           | Some r \<Rightarrow> Some (bind_res r (\<lambda>found. case found of
                 None \<Rightarrow> Err ''no prestate available''
               | Some preStateClaim \<Rightarrow>
                   bind_res (wrap_err (\<lambda>e. ''failed to get correct trace: '' @ e) (correctTrace (c_Position preStateClaim)))
                     (\<lambda>correctValue.
                   guard_err (correctValue = c_Value preStateClaim) ''poisoned prestate''
                   (if a_Type action = ActionTypeStep then
                      guard_err (tl (hash_bytes (kk (a_PreState action))) = tl (hash_bytes (c_Value preStateClaim)))
                        ''prestate hash does not match expected prestate claim'' (Ok ())
                    else Ok ()))))))"

text \<open>\<open>checkRules\<close> joins the errors of all rules; here, whether there are none.\<close>

definition checkRules :: "(bytes \<Rightarrow> hash) \<Rightarrow> game_state \<Rightarrow> ('o, 'ch) action \<Rightarrow> provider \<Rightarrow> bool" where
  "checkRules kk game action correctTrace \<longleftrightarrow>
     list_all (\<lambda>r. r = Some (Ok ()))
       [Some (parentMustExist game action), Some (onlyStepAtMaxDepth game action), Some (onlyMoveBeforeMaxDepth game action),
        Some (doNotDuplicateExistingMoves kk game action), Some (doNotStepAlreadyCounteredClaims game action),
        Some (doNotDefendRootClaim game action), avoidPoisonedPrestate game action correctTrace,
        detectPoisonedStepPrestate kk game action correctTrace, detectFailedStep game action correctTrace,
        Some (doNotCounterSelf game action)]"

end
