(* ===== verification/FaultWalk.thy ===== *)
theory FaultWalk
  imports FaultSolver
begin

text \<open>
  The path from the root of a game to a claim: which ancestors bound the claim's part of the trace from
  the left and from the right. An ancestor that the path defends lies left of the claim, one that it
  attacks lies right of it; the nearest of each kind are the pre-state and post-state of the claim.
\<close>

section \<open>Legal games\<close>

text \<open>What the dispute contract lets through: every claim but the root attacks or defends an earlier
  claim above the maximal depth, and the root is not defended.\<close>

definition par :: "claim list \<Rightarrow> nat \<Rightarrow> nat" where
  "par cs i = nat (c_ParentContractIndex (cs ! i))"

definition pos_at :: "claim list \<Rightarrow> nat \<Rightarrow> position" where
  "pos_at cs i = c_Position (cs ! i)"

definition depth_at :: "claim list \<Rightarrow> nat \<Rightarrow> nat" where
  "depth_at cs i = unat (pos_depth (pos_at cs i))"

definition ti :: "nat \<Rightarrow> claim list \<Rightarrow> nat \<Rightarrow> int" where
  "ti D cs i = trace_idx D (pos_at cs i)"

definition legal_claim :: "nat \<Rightarrow> claim list \<Rightarrow> nat \<Rightarrow> bool" where
  "legal_claim D cs i \<longleftrightarrow> c_ContractIndex (cs ! i) = int i \<and>
     (if i = 0 then pos_at cs 0 = NewPosition 0 0
      else 0 \<le> c_ParentContractIndex (cs ! i) \<and> par cs i < i \<and> depth_at cs (par cs i) < D \<and>
        (pos_at cs i = Attack (pos_at cs (par cs i)) \<or>
         par cs i \<noteq> 0 \<and> pos_at cs i = Defend (pos_at cs (par cs i))))"

definition legal :: "nat \<Rightarrow> claim list \<Rightarrow> bool" where
  "legal D cs \<longleftrightarrow> cs \<noteq> [] \<and> D < 2 ^ 64 \<and> list_all (legal_claim D cs) [0..<length cs]"

lemma legalD: "legal D cs \<Longrightarrow> i < length cs \<Longrightarrow> legal_claim D cs i"
  unfolding legal_def list_all_iff by auto

lemma legal_root: "legal D cs \<Longrightarrow> pos_at cs 0 = NewPosition 0 0"
  using legalD [of D cs 0] by (auto simp: legal_def legal_claim_def)

lemma legal_par: "legal D cs \<Longrightarrow> i < length cs \<Longrightarrow> i \<noteq> 0 \<Longrightarrow> par cs i < i \<and> depth_at cs (par cs i) < D \<and>
    c_ParentContractIndex (cs ! i) = int (par cs i)"
  using legalD [of D cs i] by (simp add: legal_claim_def par_def)

lemma legal_index: "legal D cs \<Longrightarrow> i < length cs \<Longrightarrow> c_ContractIndex (cs ! i) = int i"
  using legalD [of D cs i] by (simp add: legal_claim_def)

definition attacks :: "claim list \<Rightarrow> nat \<Rightarrow> bool" where
  "attacks cs i \<longleftrightarrow> i \<noteq> 0 \<and> pos_at cs i = Attack (pos_at cs (par cs i))"

definition defends :: "claim list \<Rightarrow> nat \<Rightarrow> bool" where
  "defends cs i \<longleftrightarrow> i \<noteq> 0 \<and> par cs i \<noteq> 0 \<and> pos_at cs i = Defend (pos_at cs (par cs i))"

lemma legal_move: "legal D cs \<Longrightarrow> i < length cs \<Longrightarrow> i \<noteq> 0 \<Longrightarrow> attacks cs i \<or> defends cs i"
  using legalD [of D cs i] by (auto simp: legal_claim_def attacks_def defends_def)

text \<open>Well-formed positions: the index is even and of its level.\<close>

definition node_ok :: "nat \<Rightarrow> claim list \<Rightarrow> nat \<Rightarrow> bool" where
  "node_ok D cs i \<longleftrightarrow> pos_ok (pos_at cs i) \<and> even (IndexAtDepth (pos_at cs i)) \<and> depth_at cs i \<le> D \<and> (depth_at cs i = 0 \<longleftrightarrow> i = 0)"

lemma move_ok:
  assumes "pos_ok p" "even (IndexAtDepth p)" "unat (pos_depth p) < D" "D < 2 ^ 64"
  shows "pos_ok (Attack p)" "even (IndexAtDepth (Attack p))" "unat (pos_depth (Attack p)) = Suc (unat (pos_depth p))"
    "pos_depth p \<noteq> 0 \<Longrightarrow> pos_ok (Defend p)" "even (IndexAtDepth (Defend p))" "unat (pos_depth (Defend p)) = Suc (unat (pos_depth p))"
proof -
  have lt: "unat (pos_depth p) < 2 ^ 64 - 1" using assms(3,4) by simp
  show "pos_ok (Attack p)" "pos_depth p \<noteq> 0 \<Longrightarrow> pos_ok (Defend p)"
    using moves_ok [OF assms(1,2) lt] by auto
  show "even (IndexAtDepth (Attack p))" "even (IndexAtDepth (Defend p))"
    "unat (pos_depth (Attack p)) = Suc (unat (pos_depth p))" "unat (pos_depth (Defend p)) = Suc (unat (pos_depth p))"
    using unat_Suc_depth [OF assms(3,4)] by (simp_all add: Attack_fields Defend_fields [OF assms(2)])
qed

lemma legal_node: "legal D cs \<Longrightarrow> i < length cs \<Longrightarrow> node_ok D cs i"
proof (induction i rule: less_induct)
  case (less i)
  show ?case
  proof (cases "i = 0")
    case True
    then show ?thesis using legal_root [OF less.prems(1)] by (simp add: node_ok_def depth_at_def NewPosition_def pos_ok_def)
  next
    case False
    note p = legal_par [OF less.prems False]
    have ih: "node_ok D cs (par cs i)" using less.IH p less.prems by simp
    have D: "D < 2 ^ 64" using less.prems(1) by (simp add: legal_def)
    have lt: "unat (pos_depth (pos_at cs (par cs i))) < D" using p by (simp add: depth_at_def)
    note mv = move_ok [OF _ _ lt D]
    have "par cs i \<noteq> 0 \<Longrightarrow> pos_depth (pos_at cs (par cs i)) \<noteq> 0" using ih by (auto simp: node_ok_def depth_at_def)
    then show ?thesis using legal_move [OF less.prems False] False ih mv lt
      by (auto simp: node_ok_def depth_at_def attacks_def defends_def)
  qed
qed

lemma depth_Suc:
  assumes "legal D cs" "i < length cs" "i \<noteq> 0"
  shows "depth_at cs i = Suc (depth_at cs (par cs i))"
proof -
  note p = legal_par [OF assms]
  have "node_ok D cs (par cs i)" using legal_node [OF assms(1)] p assms(2) by simp
  moreover have "D < 2 ^ 64" using assms(1) by (simp add: legal_def)
  ultimately show ?thesis
    using legal_move [OF assms] move_ok(3,6) [of "pos_at cs (par cs i)" D] p
    by (auto simp: node_ok_def depth_at_def attacks_def defends_def)
qed

lemma TraceIndex_at: "legal (unat d) cs \<Longrightarrow> i < length cs \<Longrightarrow> TraceIndex (pos_at cs i) d = Ok (ti (unat d) cs i)"
  using legal_node [of "unat d" cs i] by (intro TraceIndex_Ok [THEN trans]) (simp_all add: node_ok_def depth_at_def ti_def word_le_nat_alt)

section \<open>The interval of a claim\<close>

text \<open>The claim's moves stay strictly between \<open>lo\<close> and \<open>hi\<close>.\<close>

definition lo :: "nat \<Rightarrow> position \<Rightarrow> int" where
  "lo D p = IndexAtDepth p * 2 ^ (D - unat (pos_depth p)) - 1"

definition hi :: "nat \<Rightarrow> position \<Rightarrow> int" where
  "hi D p = (IndexAtDepth p + 2) * 2 ^ (D - unat (pos_depth p)) - 1"

lemma lo_trace_hi: "lo D p < trace_idx D p" "trace_idx D p < hi D p"
  by (simp_all add: lo_def hi_def trace_idx_def algebra_simps)

lemma move_interval:
  assumes "unat (pos_depth p) < D" "D < 2 ^ 64" "even (IndexAtDepth p)"
  shows "lo D (Attack p) = lo D p" "hi D (Attack p) = trace_idx D p" "lo D (Defend p) = trace_idx D p" "hi D (Defend p) = hi D p"
proof -
  obtain k where k: "D - unat (pos_depth p) = Suc k" using assms(1) by (metis Suc_diff_Suc)
  then have k': "D - Suc (unat (pos_depth p)) = k" by simp
  note s = unat_Suc_depth [OF assms(1,2)]
  show "lo D (Attack p) = lo D p" "hi D (Attack p) = trace_idx D p" "lo D (Defend p) = trace_idx D p" "hi D (Defend p) = hi D p"
    using k k' s by (simp_all add: lo_def hi_def trace_idx_def Attack_fields Defend_fields [OF assms(3)] algebra_simps)
qed

text \<open>The nearest defended and the nearest attacked ancestor on the path to a claim.\<close>

inductive lbound :: "claim list \<Rightarrow> nat \<Rightarrow> nat \<Rightarrow> bool" for cs where
  lb_defend: "defends cs i \<Longrightarrow> lbound cs i (par cs i)"
| lb_attack: "attacks cs i \<Longrightarrow> lbound cs (par cs i) j \<Longrightarrow> lbound cs i j"

inductive rbound :: "claim list \<Rightarrow> nat \<Rightarrow> nat \<Rightarrow> bool" for cs where
  rb_attack: "attacks cs i \<Longrightarrow> rbound cs i (par cs i)"
| rb_defend: "defends cs i \<Longrightarrow> rbound cs (par cs i) j \<Longrightarrow> rbound cs i j"

text \<open>
  What the walks of the code find in a legal game: the claim that bounds a claim's part of the trace from
  the left or from the right, and, for a new claim, the claim that is its pre-state.
\<close>

section \<open>Trace indices of the bounds\<close>

lemma legal_depth: "legal D cs \<Longrightarrow> i < length cs \<Longrightarrow> unat (pos_depth (pos_at cs i)) \<le> D"
  using legal_node [of D cs i] by (simp add: node_ok_def depth_at_def)

lemma legal_even: "legal D cs \<Longrightarrow> i < length cs \<Longrightarrow> even (IndexAtDepth (pos_at cs i))"
  using legal_node [of D cs i] by (simp add: node_ok_def)

text \<open>The intervals may also be taken in a tree of fewer levels, the output roots of a split game.\<close>

lemma par_interval_at:
  assumes "legal D cs" "i < length cs" "depth_at cs i \<le> E" "E < 2 ^ 64"
  shows "attacks cs i \<Longrightarrow> lo E (pos_at cs i) = lo E (pos_at cs (par cs i)) \<and> hi E (pos_at cs i) = ti E cs (par cs i)"
    "defends cs i \<Longrightarrow> lo E (pos_at cs i) = ti E cs (par cs i) \<and> hi E (pos_at cs i) = hi E (pos_at cs (par cs i))"
proof -
  have i0: "i \<noteq> 0" if "attacks cs i \<or> defends cs i" using that by (auto simp: attacks_def defends_def)
  have m: "unat (pos_depth (pos_at cs (par cs i))) < E \<and> even (IndexAtDepth (pos_at cs (par cs i)))"
    if "i \<noteq> 0" using legal_par [OF assms(1,2) that] legal_even [OF assms(1), of "par cs i"] depth_Suc [OF assms(1,2) that] assms
    by (simp add: depth_at_def)
  show "attacks cs i \<Longrightarrow> lo E (pos_at cs i) = lo E (pos_at cs (par cs i)) \<and> hi E (pos_at cs i) = ti E cs (par cs i)"
    using move_interval(1,2) m i0 assms(4) by (auto simp: attacks_def ti_def)
  show "defends cs i \<Longrightarrow> lo E (pos_at cs i) = ti E cs (par cs i) \<and> hi E (pos_at cs i) = hi E (pos_at cs (par cs i))"
    using move_interval(3,4) m i0 assms(4) by (auto simp: defends_def ti_def)
qed

lemma par_interval:
  assumes "legal D cs" "i < length cs"
  shows "attacks cs i \<Longrightarrow> lo D (pos_at cs i) = lo D (pos_at cs (par cs i)) \<and> hi D (pos_at cs i) = ti D cs (par cs i)"
    "defends cs i \<Longrightarrow> lo D (pos_at cs i) = ti D cs (par cs i) \<and> hi D (pos_at cs i) = hi D (pos_at cs (par cs i))"
  using par_interval_at [OF assms, of D] legal_depth [OF assms] assms(1) by (simp_all add: depth_at_def legal_def)

lemma par_less: "legal D cs \<Longrightarrow> i < length cs \<Longrightarrow> attacks cs i \<or> defends cs i \<Longrightarrow> par cs i < i"
  using legal_par [of D cs i] by (auto simp: attacks_def defends_def)

lemma par_depth: "legal D cs \<Longrightarrow> i < length cs \<Longrightarrow> attacks cs i \<or> defends cs i \<Longrightarrow> depth_at cs (par cs i) < depth_at cs i"
  using depth_Suc [of D cs i] by (auto simp: attacks_def defends_def)

lemma lbound_ti_at: "lbound cs i j \<Longrightarrow> legal D cs \<Longrightarrow> i < length cs \<Longrightarrow> depth_at cs i \<le> E \<Longrightarrow> E < 2 ^ 64 \<Longrightarrow>
    j < i \<and> depth_at cs j < depth_at cs i \<and> ti E cs j = lo E (pos_at cs i)"
proof (induction rule: lbound.induct)
  case (lb_defend i)
  then show ?case using par_less par_interval_at(2) par_depth by simp
next
  case (lb_attack i j)
  then show ?case using par_less [of D cs i] par_interval_at(1) [of D cs i E] par_depth [of D cs i] by simp
qed

lemma rbound_ti_at: "rbound cs i j \<Longrightarrow> legal D cs \<Longrightarrow> i < length cs \<Longrightarrow> depth_at cs i \<le> E \<Longrightarrow> E < 2 ^ 64 \<Longrightarrow>
    j < i \<and> depth_at cs j < depth_at cs i \<and> ti E cs j = hi E (pos_at cs i)"
proof (induction rule: rbound.induct)
  case (rb_attack i)
  then show ?case using par_less par_interval_at(1) par_depth by simp
next
  case (rb_defend i j)
  then show ?case using par_less [of D cs i] par_interval_at(2) [of D cs i E] par_depth [of D cs i] by simp
qed

lemma lbound_ti: "lbound cs i j \<Longrightarrow> legal D cs \<Longrightarrow> i < length cs \<Longrightarrow> j < i \<and> ti D cs j = lo D (pos_at cs i)"
  using lbound_ti_at [of cs i j D D] legal_depth [of D cs i] by (simp add: depth_at_def legal_def)

lemma rbound_ti: "rbound cs i j \<Longrightarrow> legal D cs \<Longrightarrow> i < length cs \<Longrightarrow> j < i \<and> ti D cs j = hi D (pos_at cs i)"
  using rbound_ti_at [of cs i j D D] legal_depth [of D cs i] by (simp add: depth_at_def legal_def)

lemma lbound_exists: "legal D cs \<Longrightarrow> i < length cs \<Longrightarrow> (\<exists>j. lbound cs i j) \<or> lo D (pos_at cs i) = -1"
proof (induction i rule: less_induct)
  case (less i)
  show ?case
  proof (cases "i = 0")
    case True
    then show ?thesis using legal_root [OF less.prems(1)] by (simp add: lo_def NewPosition_def)
  next
    case False
    then consider "attacks cs i" | "defends cs i" using legal_move less.prems by blast
    then show ?thesis
    proof cases
      case 1
      then have "par cs i < i" using par_less less.prems by blast
      with less show ?thesis using lb_attack [OF 1] par_interval(1) [OF less.prems 1] by fastforce
    next
      case 2
      then show ?thesis using lb_defend by blast
    qed
  qed
qed

lemma rbound_exists: "legal D cs \<Longrightarrow> i < length cs \<Longrightarrow> i \<noteq> 0 \<Longrightarrow> \<exists>j. rbound cs i j"
proof (induction i rule: less_induct)
  case (less i)
  then consider "attacks cs i" | "defends cs i" using legal_move by blast
  then show ?case
  proof cases
    case 1
    then show ?thesis using rb_attack by blast
  next
    case 2
    then have "par cs i < i" "par cs i \<noteq> 0" using par_less less.prems by (blast, simp add: defends_def)
    then show ?thesis using less rb_defend [OF 2] by force
  qed
qed

section \<open>The walk to a trace index\<close>

abbreviation legal_game :: "game_state \<Rightarrow> bool" where
  "legal_game g \<equiv> legal (unat (g_depth g)) (g_claims g)"

lemma IsRoot_at: "legal D cs \<Longrightarrow> i < length cs \<Longrightarrow> IsRoot (cs ! i) \<longleftrightarrow> i = 0"
proof -
  assume l: "legal D cs" and i: "i < length cs"
  have d: "pos_depth (pos_at cs i) = 0 \<longleftrightarrow> i = 0" using legal_node [OF l i] by (simp add: node_ok_def depth_at_def unat_eq_zero)
  have r: "i = 0 \<Longrightarrow> IndexAtDepth (pos_at cs i) = 0" using legal_root [OF l] by (simp add: NewPosition_def)
  show "IsRoot (cs ! i) \<longleftrightarrow> i = 0" using d r by (auto simp: IsRoot_def IsRootPosition_def pos_at_def)
qed

lemma getParent_at:
  "legal_game g \<Longrightarrow> i < length (g_claims g) \<Longrightarrow>
   getParent g (g_claims g ! i) = (if i = 0 then None else Some (g_claims g ! par (g_claims g) i))"
  using legal_par [of "unat (g_depth g)" "g_claims g" i] IsRoot_at [of "unat (g_depth g)" "g_claims g" i]
  by (auto simp: getParent_def)

lemma TraceIndex_claim:
  "legal_game g \<Longrightarrow> i < length (g_claims g) \<Longrightarrow>
   TraceIndex (c_Position (g_claims g ! i)) (g_depth g) = Ok (ti (unat (g_depth g)) (g_claims g) i)"
  using TraceIndex_at [of "g_depth g" "g_claims g" i] by (simp add: pos_at_def)

lemma walk_step:
  assumes "legal_game g" "i < length (g_claims g)"
  shows "AncestorWithTraceIndex g (g_claims g ! i) x =
    (if ti (unat (g_depth g)) (g_claims g) i = x then Some (Ok (Some (g_claims g ! i)))
     else if i = 0 then Some (Ok None) else AncestorWithTraceIndex g (g_claims g ! par (g_claims g) i) x)"
  using TraceIndex_claim [OF assms] getParent_at [OF assms] IsRoot_at [OF assms]
  by (subst AncestorWithTraceIndex.simps) simp

lemma walk_self:
  "legal_game g \<Longrightarrow> i < length (g_claims g) \<Longrightarrow>
   AncestorWithTraceIndex g (g_claims g ! i) (ti (unat (g_depth g)) (g_claims g) i) = Some (Ok (Some (g_claims g ! i)))"
  by (simp add: walk_step)

lemma walk_par:
  assumes "legal_game g" "i < length (g_claims g)" "attacks (g_claims g) i \<or> defends (g_claims g) i"
    "x \<le> lo (unat (g_depth g)) (pos_at (g_claims g) i) \<or> hi (unat (g_depth g)) (pos_at (g_claims g) i) \<le> x"
  shows "AncestorWithTraceIndex g (g_claims g ! i) x = AncestorWithTraceIndex g (g_claims g ! par (g_claims g) i) x"
proof -
  have "i \<noteq> 0" using assms(3) by (auto simp: attacks_def defends_def)
  moreover have "ti (unat (g_depth g)) (g_claims g) i \<noteq> x"
    using assms(4) lo_trace_hi [of "unat (g_depth g)" "pos_at (g_claims g) i"] by (auto simp: ti_def)
  ultimately show ?thesis using walk_step [OF assms(1,2)] by simp
qed

lemma walk_lbound:
  "lbound (g_claims g) i j \<Longrightarrow> legal_game g \<Longrightarrow> i < length (g_claims g) \<Longrightarrow>
   AncestorWithTraceIndex g (g_claims g ! i) (lo (unat (g_depth g)) (pos_at (g_claims g) i)) = Some (Ok (Some (g_claims g ! j)))"
proof (induction rule: lbound.induct)
  case (lb_defend i)
  then have "par (g_claims g) i < length (g_claims g)" using par_less by fastforce
  with lb_defend show ?case using walk_par [of g i] walk_self [of g "par (g_claims g) i"] par_interval(2) by simp
next
  case (lb_attack i j)
  then have "par (g_claims g) i < length (g_claims g)" using par_less by fastforce
  with lb_attack show ?case using walk_par [of g i] par_interval(1) by simp
qed

lemma walk_rbound:
  "rbound (g_claims g) i j \<Longrightarrow> legal_game g \<Longrightarrow> i < length (g_claims g) \<Longrightarrow>
   AncestorWithTraceIndex g (g_claims g ! i) (hi (unat (g_depth g)) (pos_at (g_claims g) i)) = Some (Ok (Some (g_claims g ! j)))"
proof (induction rule: rbound.induct)
  case (rb_attack i)
  then have "par (g_claims g) i < length (g_claims g)" using par_less by fastforce
  with rb_attack show ?case using walk_par [of g i] walk_self [of g "par (g_claims g) i"] par_interval(1) by simp
next
  case (rb_defend i j)
  then have "par (g_claims g) i < length (g_claims g)" using par_less by fastforce
  with rb_defend show ?case using walk_par [of g i] par_interval(2) by simp
qed

section \<open>The walk to the pre-state of a new claim\<close>

lemma claim_not_zero: "legal D cs \<Longrightarrow> i < length cs \<Longrightarrow> cs ! i \<noteq> zero_claim"
  using legal_node [of D cs i] by (auto simp: node_ok_def pos_ok_def pos_at_def zero_claim_def)

text \<open>One round of the walk, with the best claim so far.\<close>

definition improves :: "game_state \<Rightarrow> int \<Rightarrow> nat \<Rightarrow> nat option \<Rightarrow> bool" where
  "improves g x i best \<longleftrightarrow> ti (unat (g_depth g)) (g_claims g) i < x \<and>
     (case best of None \<Rightarrow> True | Some b \<Rightarrow> ti (unat (g_depth g)) (g_claims g) b < ti (unat (g_depth g)) (g_claims g) i)"

definition best_claim :: "game_state \<Rightarrow> nat option \<Rightarrow> claim" where
  "best_claim g best = (case best of None \<Rightarrow> zero_claim | Some b \<Rightarrow> g_claims g ! b)"

lemma best_claim_simps [simp]: "best_claim g None = zero_claim" "best_claim g (Some i) = g_claims g ! i"
  by (simp_all add: best_claim_def)

lemma loop_step:
  assumes "legal_game g" "i < length (g_claims g)" "case best of None \<Rightarrow> True | Some b \<Rightarrow> b < length (g_claims g)"
  shows "prestate_loop g x (g_claims g ! i) (best_claim g best) =
    (let best' = if improves g x i best then Some i else best in
     if i = 0 then Some (Ok (best_claim g best'))
     else prestate_loop g x (g_claims g ! par (g_claims g) i) (best_claim g best'))"
proof -
  have b: "better_prestate (g_depth g) x (ti (unat (g_depth g)) (g_claims g) i) (best_claim g best) = Ok (improves g x i best)"
    using assms claim_not_zero [OF assms(1)] TraceIndex_claim [OF assms(1)]
    by (auto simp: better_prestate_def improves_def best_claim_def split: option.splits)
  show ?thesis
    using b TraceIndex_claim [OF assms(1,2)] getParent_at [OF assms(1,2)] IsRoot_at [OF assms(1,2)]
    by (subst prestate_loop.simps) (simp add: Let_def)
qed

lemma loop_keeps_best:
  assumes "legal_game g" "b < length (g_claims g)"
  shows "i < length (g_claims g) \<Longrightarrow>
    ti (unat (g_depth g)) (g_claims g) i \<le> ti (unat (g_depth g)) (g_claims g) b \<or> x \<le> ti (unat (g_depth g)) (g_claims g) i \<Longrightarrow>
    lo (unat (g_depth g)) (pos_at (g_claims g) i) \<le> ti (unat (g_depth g)) (g_claims g) b \<Longrightarrow>
    i = 0 \<or> x \<le> hi (unat (g_depth g)) (pos_at (g_claims g) i) \<Longrightarrow>
    prestate_loop g x (g_claims g ! i) (g_claims g ! b) = Some (Ok (g_claims g ! b))"
proof (induction i rule: less_induct)
  case (less i)
  let ?cs = "g_claims g" and ?D = "unat (g_depth g)"
  have n: "\<not> improves g x i (Some b)" using less.prems by (auto simp: improves_def)
  note st = loop_step [OF assms(1) less.prems(1), of "Some b" x]
  show ?case
  proof (cases "i = 0")
    case True
    then show ?thesis using st n assms(2) by (simp add: best_claim_def)
  next
    case False
    note p = legal_par [OF assms(1) less.prems(1) False]
    have pl: "par ?cs i < length ?cs" using p less.prems by simp
    note b = lo_trace_hi [of ?D "pos_at ?cs (par ?cs i)", folded ti_def]
    have "(ti ?D ?cs (par ?cs i) \<le> ti ?D ?cs b \<or> x \<le> ti ?D ?cs (par ?cs i)) \<and> lo ?D (pos_at ?cs (par ?cs i)) \<le> ti ?D ?cs b \<and>
        x \<le> hi ?D (pos_at ?cs (par ?cs i))"
      using legal_move [OF assms(1) less.prems(1) False] par_interval [OF assms(1) less.prems(1)] less.prems(2-4) b False by auto
    then have "prestate_loop g x (?cs ! par ?cs i) (g_claims g ! b) = Some (Ok (?cs ! b))"
      using less.IH [of "par ?cs i"] p pl by simp
    then show ?thesis using st n assms(2) False by simp
  qed
qed

text \<open>A defence of a claim has the claim as its pre-state.\<close>

lemma prestate_self:
  assumes "legal_game g" "i < length (g_claims g)" "ti (unat (g_depth g)) (g_claims g) i < x"
    "x \<le> hi (unat (g_depth g)) (pos_at (g_claims g) i)"
  shows "prestate_loop g x (g_claims g ! i) zero_claim = Some (Ok (g_claims g ! i))"
proof -
  have imp: "improves g x i None" using assms(3) by (simp add: improves_def)
  have nimp: "\<not> improves g x i (Some i)" by (simp add: improves_def)
  have "prestate_loop g x (g_claims g ! i) (best_claim g None) = prestate_loop g x (g_claims g ! i) (best_claim g (Some i))"
    using loop_step [OF assms(1,2), of None x] loop_step [OF assms(1,2), of "Some i" x] assms(2) imp nimp by simp
  also have "\<dots> = Some (Ok (g_claims g ! i))"
    using loop_keeps_best [OF assms(1,2,2), of x] assms(4) lo_trace_hi [of "unat (g_depth g)" "pos_at (g_claims g) i"]
    by (simp add: ti_def)
  finally show ?thesis by simp
qed

text \<open>An attack has the claim that bounds the attacked one from the left, if any.\<close>

lemma prestate_bound:
  assumes "legal_game g"
  shows "i < length (g_claims g) \<Longrightarrow> lo (unat (g_depth g)) (pos_at (g_claims g) i) < x \<Longrightarrow>
    x \<le> ti (unat (g_depth g)) (g_claims g) i \<Longrightarrow>
    \<exists>c. prestate_loop g x (g_claims g ! i) zero_claim = Some (Ok c) \<and>
      (c = zero_claim \<or> (\<exists>j. lbound (g_claims g) i j \<and> c = g_claims g ! j))"
proof (induction i rule: less_induct)
  case (less i)
  let ?cs = "g_claims g" and ?D = "unat (g_depth g)"
  have n: "\<not> improves g x i None" using less.prems by (simp add: improves_def)
  note st = loop_step [OF assms(1) less.prems(1), of None x]
  show ?case
  proof (cases "i = 0")
    case True
    then show ?thesis using st n by (simp add: best_claim_def)
  next
    case False
    note p = legal_par [OF assms(1) less.prems(1) False]
    have pl: "par ?cs i < length ?cs" using p less.prems by simp
    have s: "prestate_loop g x (?cs ! i) zero_claim = prestate_loop g x (?cs ! par ?cs i) zero_claim"
      using st n False by (simp add: best_claim_def)
    note b = lo_trace_hi(2) [of ?D "pos_at ?cs i", folded ti_def]
    from legal_move [OF assms(1) less.prems(1) False] show ?thesis
    proof
      assume a: "attacks ?cs i"
      then show ?thesis using less.IH [of "par ?cs i"] p pl less.prems par_interval(1) [OF assms less.prems(1) a] b s lb_attack [OF a]
        by fastforce
    next
      assume d: "defends ?cs i"
      then show ?thesis using prestate_self [OF assms pl, of x] less.prems par_interval(2) [OF assms less.prems(1) d] b s lb_defend [OF d]
        by force
    qed
  qed
qed

end
