(* ===== verification/FaultActions.thy ===== *)
theory FaultActions
  imports FaultWalk
begin

text \<open>
  A specification of the honest challenger, independent of its tracker: which claims of a game it would
  have made itself, which ones it counters and with what, for a correct trace \<open>v\<close>. And what makes it
  correct: the pre-states of its claims are right, and a leaf that it counters can be stepped.
\<close>

section \<open>The strategy\<close>

definition correct :: "(int \<Rightarrow> hash) \<Rightarrow> nat \<Rightarrow> claim list \<Rightarrow> nat \<Rightarrow> bool" where
  "correct v D cs i \<longleftrightarrow> c_Value (cs ! i) = v (ti D cs i)"

definition reply :: "(int \<Rightarrow> hash) \<Rightarrow> nat \<Rightarrow> claim list \<Rightarrow> nat \<Rightarrow> claim" where
  "reply v D cs i =
     (let p = (if correct v D cs i then Defend (pos_at cs i) else Attack (pos_at cs i)) in
      zero_claim\<lparr>c_Value := v (trace_idx D p), c_Position := p, c_ParentContractIndex := int i\<rparr>)"

text \<open>Is the claim honest, is it countered by the honest challenger?\<close>

function stance :: "(int \<Rightarrow> hash) \<Rightarrow> nat \<Rightarrow> claim list \<Rightarrow> nat \<Rightarrow> bool \<times> bool" where
  "stance v D cs i =
     (if i = 0 \<or> i \<le> par cs i then (correct v D cs 0, \<not> correct v D cs 0)
      else let p = par cs i; m = reply v D cs p in
        case stance v D cs p of (honest_p, counters_p) \<Rightarrow>
          let honest_i = (counters_p \<and> pos_at cs i = c_Position m \<and> c_Value (cs ! i) = c_Value m) in
          (honest_i, \<not> honest_i \<and> (honest_p \<or> counters_p \<and> ti D cs i \<le> trace_idx D (c_Position m))))"
  by auto
termination by (relation "measure (\<lambda>(v, D, cs, i). i)") auto

declare stance.simps [simp del]

definition honest :: "(int \<Rightarrow> hash) \<Rightarrow> nat \<Rightarrow> claim list \<Rightarrow> nat \<Rightarrow> bool" where
  "honest v D cs i = fst (stance v D cs i)"

definition counters :: "(int \<Rightarrow> hash) \<Rightarrow> nat \<Rightarrow> claim list \<Rightarrow> nat \<Rightarrow> bool" where
  "counters v D cs i = snd (stance v D cs i)"

lemma stance_0 [simp]: "honest v D cs 0 \<longleftrightarrow> correct v D cs 0" "counters v D cs 0 \<longleftrightarrow> \<not> correct v D cs 0"
  by (simp_all add: honest_def counters_def stance.simps [of v D cs 0])

lemma reply_sel [simp]:
  "c_Position (reply v D cs i) = (if correct v D cs i then Defend (pos_at cs i) else Attack (pos_at cs i))"
  "c_Value (reply v D cs i) = v (trace_idx D (c_Position (reply v D cs i)))"
  "c_ParentContractIndex (reply v D cs i) = int i"
  by (simp_all add: reply_def Let_def)

lemma stance_Suc:
  assumes "legal D cs" "i < length cs" "i \<noteq> 0"
  shows "honest v D cs i \<longleftrightarrow> counters v D cs (par cs i) \<and> pos_at cs i = c_Position (reply v D cs (par cs i)) \<and>
      c_Value (cs ! i) = c_Value (reply v D cs (par cs i))"
    and "counters v D cs i \<longleftrightarrow> \<not> honest v D cs i \<and> (honest v D cs (par cs i) \<or>
      counters v D cs (par cs i) \<and> ti D cs i \<le> trace_idx D (c_Position (reply v D cs (par cs i))))"
  using legal_par [OF assms] assms(3) stance.simps [of v D cs i]
  by (auto simp: honest_def counters_def Let_def split: prod.splits simp del: reply_sel)

lemma honest_not_counters: "legal D cs \<Longrightarrow> i < length cs \<Longrightarrow> honest v D cs i \<Longrightarrow> \<not> counters v D cs i"
  using stance_Suc(2) [of D cs i v] by (cases "i = 0") auto

lemma honest_correct: "legal D cs \<Longrightarrow> i < length cs \<Longrightarrow> honest v D cs i \<Longrightarrow> correct v D cs i"
  using stance_Suc(1) [of D cs i v] by (cases "i = 0") (auto simp: correct_def ti_def simp del: reply_sel(1))

lemma attacks_not_defends: "legal D cs \<Longrightarrow> i < length cs \<Longrightarrow> attacks cs i \<Longrightarrow> \<not> defends cs i"
  using legal_par [of D cs i] legal_even [of D cs "par cs i"] Attack_fields(2) [of "pos_at cs (par cs i)"]
    Defend_fields(2) [of "pos_at cs (par cs i)"] by (auto simp: attacks_def defends_def)

lemma attacksD: "attacks cs i \<Longrightarrow> legal D cs \<Longrightarrow> i < length cs \<Longrightarrow> i \<noteq> 0 \<and> \<not> defends cs i \<and> par cs i < length cs"
  using attacks_not_defends [of D cs i] par_less [of D cs i] by (simp add: attacks_def)

lemma defendsD: "defends cs i \<Longrightarrow> legal D cs \<Longrightarrow> i < length cs \<Longrightarrow> i \<noteq> 0 \<and> \<not> attacks cs i \<and> par cs i < length cs"
  using attacks_not_defends [of D cs i] par_less [of D cs i] by (auto simp: defends_def)

lemma attack_below_defend:
  assumes "legal D cs" "i < length cs" "unat (pos_depth (pos_at cs i)) < D"
  shows "trace_idx D (Attack (pos_at cs i)) < ti D cs i" "ti D cs i < trace_idx D (Defend (pos_at cs i))"
proof -
  have D: "D < 2 ^ 64" using assms(1) by (simp add: legal_def)
  note m = move_interval [OF assms(3) D legal_even [OF assms(1,2)]]
  show "trace_idx D (Attack (pos_at cs i)) < ti D cs i" "ti D cs i < trace_idx D (Defend (pos_at cs i))"
    using lo_trace_hi(2) [of D "Attack (pos_at cs i)"] lo_trace_hi(1) [of D "Defend (pos_at cs i)"] m by (simp_all add: ti_def)
qed

text \<open>How a claim that is countered, or an honest one, relates to its parent.\<close>

lemma counters_cases:
  assumes "legal D cs" "i < length cs" "i \<noteq> 0" "counters v D cs i"
  shows "honest v D cs (par cs i) \<or> counters v D cs (par cs i) \<and>
    (attacks cs i \<and> (correct v D cs (par cs i) \<or> \<not> correct v D cs i) \<or>
     defends cs i \<and> correct v D cs (par cs i) \<and> \<not> correct v D cs i)"
proof -
  let ?p = "par cs i"
  note s = stance_Suc [OF assms(1-3), of v]
  have p: "?p < length cs" "unat (pos_depth (pos_at cs ?p)) < D"
    using legal_par [OF assms(1-3)] assms(2) by (simp_all add: depth_at_def)
  have same: "correct v D cs ?p \<longrightarrow> defends cs i \<longrightarrow> \<not> correct v D cs i" "\<not> correct v D cs ?p \<longrightarrow> attacks cs i \<longrightarrow> \<not> correct v D cs i"
    if "counters v D cs ?p" using s assms(4) that by (auto simp: correct_def [of v D cs i] ti_def attacks_def defends_def)
  have nd: "\<not> defends cs i" if "\<not> correct v D cs ?p" "ti D cs i \<le> trace_idx D (c_Position (reply v D cs ?p))"
    using attack_below_defend [OF assms(1) p] that by (auto simp: defends_def ti_def)
  show ?thesis using s assms(4) same nd legal_move [OF assms(1-3)] by blast
qed

lemma honest_cases:
  assumes "legal D cs" "i < length cs" "i \<noteq> 0" "honest v D cs i"
  shows "counters v D cs (par cs i) \<and> (if correct v D cs (par cs i) then defends cs i else attacks cs i)"
proof -
  have "par cs i \<noteq> 0" if "correct v D cs (par cs i)" "counters v D cs (par cs i)" using that by (cases "par cs i = 0") auto
  then show ?thesis using stance_Suc(1) [OF assms(1-3), of v] assms(3,4) by (auto simp: attacks_def defends_def)
qed

section \<open>Pre-states are right\<close>

lemma lbound_correct:
  "lbound cs i j \<Longrightarrow> legal D cs \<Longrightarrow> i < length cs \<Longrightarrow> counters v D cs i \<or> honest v D cs i \<Longrightarrow> correct v D cs j"
proof (induction rule: lbound.induct)
  case (lb_defend i)
  then have i: "i \<noteq> 0" "\<not> attacks cs i" "par cs i < length cs" using defendsD by blast+
  then show ?case using lb_defend counters_cases [of D cs i v] honest_cases [of D cs i v] honest_correct [of D cs "par cs i" v]
    by (auto split: if_splits)
next
  case (lb_attack i j)
  then have i: "i \<noteq> 0" "\<not> defends cs i" "par cs i < length cs" using attacksD by blast+
  then have "counters v D cs (par cs i) \<or> honest v D cs (par cs i)"
    using lb_attack counters_cases [of D cs i v] honest_cases [of D cs i v] by auto
  then show ?case using lb_attack i by blast
qed

section \<open>Post-states make steps succeed\<close>

text \<open>A correct claim that is countered is stepped as a defence: its right bound is correct when the
  number of levels between them is odd, and wrong otherwise. For an honest claim it is the other way
  round, so that nobody can step it.\<close>

lemma rbound_parity:
  "rbound cs i j \<Longrightarrow> legal D cs \<Longrightarrow> i < length cs \<Longrightarrow> depth_at cs j < depth_at cs i \<and>
    (counters v D cs i \<and> correct v D cs i \<longrightarrow> (correct v D cs j \<longleftrightarrow> odd (depth_at cs i - depth_at cs j))) \<and>
    (honest v D cs i \<longrightarrow> (correct v D cs j \<longleftrightarrow> even (depth_at cs i - depth_at cs j)))"
proof (induction rule: rbound.induct)
  case (rb_attack i)
  then have i: "i \<noteq> 0" "\<not> defends cs i" "par cs i < length cs"
    using attacksD by blast+
  note d = depth_Suc [OF rb_attack(2,3) i(1)]
  have "counters v D cs i \<and> correct v D cs i \<Longrightarrow> correct v D cs (par cs i)"
    using rb_attack i counters_cases [of D cs i v] honest_correct [of D cs "par cs i" v] by blast
  moreover have "honest v D cs i \<Longrightarrow> \<not> correct v D cs (par cs i)"
    using rb_attack i honest_cases [of D cs i v] by (auto split: if_splits)
  ultimately show ?case using d by auto
next
  case (rb_defend i j)
  then have i: "i \<noteq> 0" "\<not> attacks cs i" "par cs i < length cs" using defendsD by blast+
  note d = depth_Suc [OF rb_defend(4,5) i(1)]
  note ih = rb_defend.IH [OF rb_defend(4) i(3)]
  have "counters v D cs i \<and> correct v D cs i \<Longrightarrow> honest v D cs (par cs i)"
    using rb_defend i counters_cases [of D cs i v] by blast
  moreover have "honest v D cs i \<Longrightarrow> counters v D cs (par cs i) \<and> correct v D cs (par cs i)"
    using rb_defend i honest_cases [of D cs i v] by (auto split: if_splits)
  moreover have "depth_at cs i - depth_at cs j = Suc (depth_at cs (par cs i) - depth_at cs j)"
    using d ih Suc_diff_le [of "depth_at cs j" "depth_at cs (par cs i)"] by linarith
  ultimately show ?case using d ih by auto
qed

text \<open>
  The solver computes the strategy: with its tracker of identifiers it answers every claim as the
  specification of \<open>FaultHonest\<close> does. The correct trace is an interface, a locale.
\<close>

section \<open>Identifiers that do not collide\<close>

text \<open>What an identifier stands for. The contract refuses a second claim with the same key.\<close>

definition claim_key :: "claim \<Rightarrow> position \<times> hash \<times> int" where
  "claim_key c = (c_Position c, c_Value c, c_ParentContractIndex c)"

text \<open>The claim that rule \<open>doNotDuplicateExistingMoves\<close> looks up for a step.\<close>

definition step_probe :: "claim list \<Rightarrow> nat \<Rightarrow> claim" where
  "step_probe cs i = zero_claim\<lparr>c_Position := pos_at cs i, c_ParentContractIndex := int i\<rparr>"

definition looked_up :: "(int \<Rightarrow> hash) \<Rightarrow> nat \<Rightarrow> claim list \<Rightarrow> claim list" where
  "looked_up v D cs = cs @ map (reply v D cs) [0..<length cs] @ map (step_probe cs) [0..<length cs]"

definition no_collisions :: "(bytes \<Rightarrow> hash) \<Rightarrow> claim list \<Rightarrow> bool" where
  "no_collisions kk xs \<longleftrightarrow> list_all (\<lambda>a. list_all (\<lambda>b. claim_ID kk a = claim_ID kk b \<longrightarrow> claim_key a = claim_key b) xs) xs"

lemma no_collisionsD: "no_collisions kk xs \<Longrightarrow> a \<in> set xs \<Longrightarrow> b \<in> set xs \<Longrightarrow> claim_ID kk a = claim_ID kk b \<longleftrightarrow> claim_key a = claim_key b"
  by (auto simp: no_collisions_def list_all_iff claim_key_def claim_ID_def)

lemma no_collisions_mono: "no_collisions kk ys \<Longrightarrow> set xs \<subseteq> set ys \<Longrightarrow> no_collisions kk xs"
  by (auto simp: no_collisions_def list_all_iff)

lemma looked_up_mem [simp]:
  "i < length cs \<Longrightarrow> cs ! i \<in> set (looked_up v D cs)"
  "i < length cs \<Longrightarrow> reply v D cs i \<in> set (looked_up v D cs)"
  "i < length cs \<Longrightarrow> step_probe cs i \<in> set (looked_up v D cs)"
  by (simp_all add: looked_up_def)

definition answered :: "(int \<Rightarrow> hash) \<Rightarrow> nat \<Rightarrow> claim list \<Rightarrow> nat \<Rightarrow> bool" where
  "answered v D cs i \<longleftrightarrow> list_ex (\<lambda>c. claim_key c = claim_key (reply v D cs i)) cs"

lemma answered_iff: "answered v D cs i \<longleftrightarrow> (\<exists>j < length cs. claim_key (cs ! j) = claim_key (reply v D cs i))"
  by (auto simp: answered_def list_ex_length)

section \<open>Replies\<close>

lemma reply_node:
  assumes "legal D cs" "i < length cs" "depth_at cs i < D" "i = 0 \<longrightarrow> \<not> correct v D cs 0"
  shows "pos_ok (c_Position (reply v D cs i)) \<and> even (IndexAtDepth (c_Position (reply v D cs i))) \<and>
    unat (pos_depth (c_Position (reply v D cs i))) = Suc (depth_at cs i)"
proof -
  have D: "D < 2 ^ 64" using assms(1) by (simp add: legal_def)
  note n = legal_node [OF assms(1,2), unfolded node_ok_def]
  have lt: "unat (pos_depth (pos_at cs i)) < D" using assms(3) by (simp add: depth_at_def)
  have "correct v D cs i \<longrightarrow> pos_depth (pos_at cs i) \<noteq> 0" using n assms(4) by (auto simp: depth_at_def unat_eq_zero)
  then show ?thesis using move_ok [OF _ _ lt D] n by (simp add: depth_at_def)
qed

lemma reply_not_root: "legal D cs \<Longrightarrow> i < length cs \<Longrightarrow> depth_at cs i < D \<Longrightarrow> i = 0 \<longrightarrow> \<not> correct v D cs 0 \<Longrightarrow> \<not> IsRoot (reply v D cs i)"
  using reply_node [of D cs i v] by (auto simp: IsRoot_def IsRootPosition_def unat_eq_zero simp del: reply_sel)

lemma counters_0: "counters v D cs i \<Longrightarrow> i = 0 \<longrightarrow> \<not> correct v D cs 0"
  by auto

text \<open>The claim of a game with the key of a reply is honest.\<close>

lemma key_reply_honest:
  assumes "legal D cs" "j < length cs" "i < length cs" "depth_at cs i < D" "counters v D cs i"
  shows "claim_key (cs ! j) = claim_key (reply v D cs i) \<longleftrightarrow> j \<noteq> 0 \<and> par cs j = i \<and> honest v D cs j"
proof -
  note r = reply_node [OF assms(1,3,4) counters_0 [OF assms(5)]]
  have "j \<noteq> 0" if "claim_key (cs ! j) = claim_key (reply v D cs i)"
    using that r legal_root [OF assms(1)] by (cases "j = 0") (auto simp: claim_key_def pos_at_def NewPosition_def simp del: reply_sel)
  moreover have "c_ParentContractIndex (cs ! j) = int (par cs j)" if "j \<noteq> 0" using legal_par [OF assms(1,2) that] by blast
  ultimately show ?thesis using stance_Suc(1) [OF assms(1,2), of v] assms(5)
    by (auto simp: claim_key_def pos_at_def simp del: reply_sel(1,2))
qed

text \<open>Only a child has the key of a step probe, and leaves have none.\<close>

lemma key_step_probe:
  assumes "legal D cs" "j < length cs" "i < length cs" "0 < D" "depth_at cs i = D"
  shows "claim_key (cs ! j) \<noteq> claim_key (step_probe cs i)"
proof
  assume k: "claim_key (cs ! j) = claim_key (step_probe cs i)"
  then have d: "depth_at cs j = D" using assms(5) by (simp add: claim_key_def step_probe_def depth_at_def pos_at_def)
  then have j: "j \<noteq> 0" using legal_node [OF assms(1,2)] assms(4) by (auto simp: node_ok_def)
  then have "par cs j = i" using k legal_par [OF assms(1,2)] by (simp add: claim_key_def step_probe_def)
  then show False using depth_Suc [OF assms(1,2) j] d assms(5) by simp
qed

section \<open>The actions of the strategy\<close>

definition step_position :: "(int \<Rightarrow> hash) \<Rightarrow> nat \<Rightarrow> claim list \<Rightarrow> nat \<Rightarrow> position" where
  "step_position v D cs i = (if correct v D cs i then MoveRight (pos_at cs i) else pos_at cs i)"

definition honest_action ::
    "('o, 'ch) trace_accessor \<Rightarrow> (int \<Rightarrow> hash) \<Rightarrow> game_state \<Rightarrow> nat \<Rightarrow> ('o, 'ch) action option" where
  "honest_action tr v g i =
     (let D = unat (g_depth g); cs = g_claims g in
      if \<not> counters v D cs i then None
      else if depth_at cs i < D then
        if answered v D cs i then None
        else Some (move_action (cs ! i) (\<not> correct v D cs i) (c_Value (reply v D cs i)))
      else if c_CounteredBy (cs ! i) \<noteq> 0 then None
      else (case ta_GetStepData tr g (cs ! i) (step_position v D cs i) of
          Ok (pre, pf, od) \<Rightarrow> Some (step_action \<lparr>sd_LeafClaim = cs ! i, sd_IsAttack = \<not> correct v D cs i, sd_PreState = pre,
              sd_ProofData = pf, sd_OracleData = od\<rparr>)
        | _ \<Rightarrow> None))"

definition honest_actions :: "('o, 'ch) trace_accessor \<Rightarrow> (int \<Rightarrow> hash) \<Rightarrow> game_state \<Rightarrow> ('o, 'ch) action list" where
  "honest_actions tr v g = List.map_filter (honest_action tr v g) [0..<length (g_claims g)]"

section \<open>Games\<close>

text \<open>A legal game whose claims have different keys, and in which identifiers do not collide.\<close>

definition game_ok :: "(bytes \<Rightarrow> hash) \<Rightarrow> (int \<Rightarrow> hash) \<Rightarrow> nat \<Rightarrow> game_state \<Rightarrow> bool" where
  "game_ok kk v D g \<longleftrightarrow> unat (g_depth g) = D \<and> legal D (g_claims g) \<and> 0 < D \<and> distinct (map claim_key (g_claims g)) \<and>
     g_claimIDs g = claim_ID kk ` set (g_claims g) \<and> no_collisions kk (looked_up v D (g_claims g))"

lemma game_okD: "game_ok kk v D g \<Longrightarrow> unat (g_depth g) = D \<and> legal D (g_claims g) \<and> 0 < D"
  by (simp add: game_ok_def)

lemma ID_key:
  "game_ok kk v D g \<Longrightarrow> a \<in> set (looked_up v D (g_claims g)) \<Longrightarrow> b \<in> set (looked_up v D (g_claims g)) \<Longrightarrow>
   claim_ID kk a = claim_ID kk b \<longleftrightarrow> claim_key a = claim_key b"
  unfolding game_ok_def using no_collisionsD by blast

lemma key_nth: "game_ok kk v D g \<Longrightarrow> i < length (g_claims g) \<Longrightarrow> j < length (g_claims g) \<Longrightarrow>
    claim_key (g_claims g ! i) = claim_key (g_claims g ! j) \<longleftrightarrow> i = j"
  using nth_eq_iff_index_eq [of "map claim_key (g_claims g)" i j] by (simp add: game_ok_def)

lemma ID_of_key: "claim_key c' = claim_key c \<Longrightarrow> claim_ID kk c' = claim_ID kk c"
  by (simp add: claim_key_def claim_ID_def)

lemma duplicate_iff:
  assumes "game_ok kk v D g" "c \<in> set (looked_up v D (g_claims g))" "claim_key c' = claim_key c"
  shows "IsDuplicate kk g c' \<longleftrightarrow> (\<exists>j < length (g_claims g). claim_key (g_claims g ! j) = claim_key c)"
proof -
  have "IsDuplicate kk g c' \<longleftrightarrow> (\<exists>x \<in> set (g_claims g). claim_ID kk c = claim_ID kk x)"
    using ID_of_key [OF assms(3), of kk] assms(1) by (auto simp: IsDuplicate_def game_ok_def image_iff)
  also have "\<dots> \<longleftrightarrow> (\<exists>x \<in> set (g_claims g). claim_key c = claim_key x)"
    using ID_key [OF assms(1,2)] by (simp add: looked_up_def)
  finally show ?thesis by (metis in_set_conv_nth)
qed

lemma duplicate_reply: "game_ok kk v D g \<Longrightarrow> i < length (g_claims g) \<Longrightarrow> claim_key c = claim_key (reply v D (g_claims g) i) \<Longrightarrow>
    IsDuplicate kk g c \<longleftrightarrow> answered v D (g_claims g) i"
  using duplicate_iff [of kk v D g "reply v D (g_claims g) i" c] by (simp add: answered_iff)

section \<open>The tracker\<close>

text \<open>After the claims before \<open>n\<close> the tracker knows the replies to them.\<close>

definition tracker_ok :: "(bytes \<Rightarrow> hash) \<Rightarrow> (int \<Rightarrow> hash) \<Rightarrow> nat \<Rightarrow> claim list \<Rightarrow> nat \<Rightarrow> tracker \<Rightarrow> bool" where
  "tracker_ok kk v D cs n t \<longleftrightarrow>
     ht_agreed t = claim_ID kk ` ((if correct v D cs 0 then {cs ! 0} else {}) \<union>
       reply v D cs ` {i. i < n \<and> depth_at cs i < D \<and> counters v D cs i}) \<and>
     (\<forall>j < length cs. HonestCounter kk t (cs ! j) =
       (if j < n \<and> depth_at cs j < D \<and> counters v D cs j then Some (reply v D cs j) else None))"

lemma IsHonest_tracker:
  assumes "game_ok kk v D g" "tracker_ok kk v D (g_claims g) n t" "n \<le> length (g_claims g)" "j \<le> n" "j < length (g_claims g)"
  shows "IsHonest kk t (g_claims g ! j) \<longleftrightarrow> honest v D (g_claims g) j"
proof -
  let ?cs = "g_claims g"
  have l: "legal D ?cs" "0 < length ?cs" using game_okD [OF assms(1)] assms(5) by auto
  have "IsHonest kk t (?cs ! j) \<longleftrightarrow> (correct v D ?cs 0 \<and> claim_key (?cs ! j) = claim_key (?cs ! 0)) \<or>
      (\<exists>i < n. depth_at ?cs i < D \<and> counters v D ?cs i \<and> claim_key (?cs ! j) = claim_key (reply v D ?cs i))"
    using assms ID_key [OF assms(1), of "?cs ! j" "?cs ! 0"] ID_key [OF assms(1), of "?cs ! j" "reply v D ?cs i" for i] l
    by (auto simp: IsHonest_def tracker_ok_def image_iff)
  also have "\<dots> \<longleftrightarrow> (correct v D ?cs 0 \<and> j = 0) \<or> (j \<noteq> 0 \<and> par ?cs j < n \<and> depth_at ?cs (par ?cs j) < D \<and>
      counters v D ?cs (par ?cs j) \<and> honest v D ?cs j)"
    using key_nth [OF assms(1,5) l(2)] key_reply_honest [OF l(1) assms(5)] assms(3) by (auto dest: less_le_trans)
  also have "\<dots> \<longleftrightarrow> honest v D ?cs j"
    using legal_par [OF l(1) assms(5)] honest_cases [OF l(1) assms(5)] assms(4) by (cases "j = 0") auto
  finally show ?thesis .
qed

lemma tracker_new: "legal D cs \<Longrightarrow> tracker_ok kk v D cs 0
    (if correct v D cs 0 then AddHonestClaim kk zero_claim (cs ! 0) newHonestClaimTracker else newHonestClaimTracker)"
  by (simp add: tracker_ok_def newHonestClaimTracker_def AddHonestClaim_def HonestCounter_def)

lemma tracker_skip: "tracker_ok kk v D cs n t \<Longrightarrow> \<not> (depth_at cs n < D \<and> counters v D cs n) \<Longrightarrow> tracker_ok kk v D cs (Suc n) t"
proof -
  assume t: "tracker_ok kk v D cs n t" and n: "\<not> (depth_at cs n < D \<and> counters v D cs n)"
  have "{i. i < Suc n \<and> depth_at cs i < D \<and> counters v D cs i} = {i. i < n \<and> depth_at cs i < D \<and> counters v D cs i}"
    using n by (auto simp: less_Suc_eq)
  then show ?thesis using t n by (auto simp: tracker_ok_def less_Suc_eq)
qed

lemma tracker_add:
  assumes "game_ok kk v D g" "n < length (g_claims g)" "tracker_ok kk v D (g_claims g) n t"
    "depth_at (g_claims g) n < D" "counters v D (g_claims g) n"
  shows "tracker_ok kk v D (g_claims g) (Suc n) (AddHonestClaim kk (g_claims g ! n) (reply v D (g_claims g) n) t)"
proof -
  let ?cs = "g_claims g"
  have s: "{i. i < Suc n \<and> depth_at ?cs i < D \<and> counters v D ?cs i} = insert n {i. i < n \<and> depth_at ?cs i < D \<and> counters v D ?cs i}"
    using assms(4,5) by (auto simp: less_Suc_eq)
  have nz: "?cs ! n \<noteq> zero_claim" using claim_not_zero [OF _ assms(2)] game_okD [OF assms(1)] by blast
  have id: "claim_ID kk (?cs ! j) = claim_ID kk (?cs ! n) \<longleftrightarrow> j = n" if "j < length ?cs" for j
    using ID_key [OF assms(1), of "?cs ! j" "?cs ! n"] key_nth [OF assms(1) that assms(2)] that assms(2) by simp
  show ?thesis using assms(3-5) s nz id by (auto simp: tracker_ok_def AddHonestClaim_def HonestCounter_def less_Suc_eq)
qed

section \<open>A correct trace\<close>

text \<open>What \<open>TraceAccessor\<close> promises of a game with one trace: the values of the trace, for every step a
  pre-state whose hash is, but for its status byte, the value before it, and no objection to the block
  number.\<close>

locale honest_trace =
  fixes kk :: "bytes \<Rightarrow> hash" and tr :: "('o, 'ch) trace_accessor" and v :: "int \<Rightarrow> hash" and D :: nat
  assumes get: "pos_ok p \<Longrightarrow> unat (pos_depth p) \<le> D \<Longrightarrow> ta_Get tr g c p = Ok (v (trace_idx D p))"
    and step_data: "pos_ok p \<Longrightarrow> unat (pos_depth p) = D \<Longrightarrow>
      \<exists>pre pf od. ta_GetStepData tr g c p = Ok (pre, pf, od) \<and>
        (0 < trace_idx D p \<longrightarrow> tl (hash_bytes (kk pre)) = tl (hash_bytes (v (trace_idx D p - 1))))"
    and block_valid: "g_claims g \<noteq> [] \<Longrightarrow> ta_GetL2BlockNumberChallenge tr g = Ok None"
begin

lemma TraceIndex_reply:
  assumes "game_ok kk v D g" "i < length (g_claims g)" "depth_at (g_claims g) i < D" "counters v D (g_claims g) i"
  shows "TraceIndex (c_Position (reply v D (g_claims g) i)) (g_depth g) = Ok (trace_idx D (c_Position (reply v D (g_claims g) i)))"
proof -
  have "pos_depth (c_Position (reply v D (g_claims g) i)) \<le> g_depth g"
    using reply_node [OF _ assms(2,3) counters_0 [OF assms(4)]] game_okD [OF assms(1)] assms(3)
    by (simp add: word_le_nat_alt del: reply_sel)
  then show ?thesis using TraceIndex_Ok game_okD [OF assms(1)] by metis
qed

lemma shouldCounter_tracker:
  assumes "game_ok kk v D g" "tracker_ok kk v D (g_claims g) n t" "n < length (g_claims g)"
  shows "shouldCounter kk g (g_claims g ! n) t = Ok (counters v D (g_claims g) n)"
proof -
  let ?cs = "g_claims g"
  have l: "legal_game g" "unat (g_depth g) = D" using game_okD [OF assms(1)] by auto
  note hon = IsHonest_tracker [OF assms(1,2) less_imp_le [OF assms(3)]]
  show ?thesis
  proof (cases "n = 0")
    case True
    then show ?thesis using hon [of n] assms(3) IsRoot_at [OF l(1) assms(3)] by (simp add: shouldCounter_def)
  next
    case False
    let ?p = "par ?cs n"
    have p: "?p < n" "?p < length ?cs" "depth_at ?cs ?p < D" using legal_par [OF l(1) assms(3) False] assms(3) l(2) by auto
    have gp: "GetParent g (?cs ! n) = Ok (?cs ! ?p)" using getParent_at [OF l(1) assms(3)] False by (simp add: GetParent_def)
    have hc: "HonestCounter kk t (?cs ! ?p) = (if counters v D ?cs ?p then Some (reply v D ?cs ?p) else None)"
      using assms(2) p by (simp add: tracker_ok_def)
    show ?thesis
      using hon [of n] hon [of ?p] p assms(3) IsRoot_at [OF l(1) assms(3)] False gp hc TraceIndex_claim [OF l(1) assms(3)]
        TraceIndex_reply [OF assms(1) p(2,3)] stance_Suc(2) [OF l(1) assms(3) False, of v] l(2)
      by (auto simp: shouldCounter_def simp del: reply_sel)
  qed
qed

lemma agree_correct: "game_ok kk v D g \<Longrightarrow> i < length (g_claims g) \<Longrightarrow> agreeWithClaim tr g (g_claims g ! i) = Ok (correct v D (g_claims g) i)"
  using get [of "pos_at (g_claims g) i" g] game_okD [of kk v D g] legal_node [of D "g_claims g" i]
  by (auto simp: agreeWithClaim_def correct_def ti_def pos_at_def node_ok_def depth_at_def)

lemma NextMove_tracker:
  assumes "game_ok kk v D g" "tracker_ok kk v D (g_claims g) n t" "n < length (g_claims g)" "depth_at (g_claims g) n < D"
  shows "NextMove kk tr (g_depth g) (g_claims g ! n) g t =
    Ok (if counters v D (g_claims g) n then Some (reply v D (g_claims g) n) else None)"
proof -
  let ?cs = "g_claims g" and ?r = "reply v D (g_claims g) n"
  have l: "legal D ?cs" "unat (g_depth g) = D" using game_okD [OF assms(1)] by auto
  have d: "pos_depth (c_Position (?cs ! n)) \<noteq> g_depth g" using assms(4) l(2) by (auto simp: depth_at_def pos_at_def)
  have i: "c_ContractIndex (?cs ! n) = int n" using legal_index [OF l(1) assms(3)] .
  have val: "ta_Get tr g (?cs ! n) (c_Position ?r) = Ok (c_Value ?r)" if "counters v D ?cs n"
    using get [of "c_Position ?r" g "?cs ! n"] reply_node [OF l(1) assms(3,4) counters_0 [OF that]] assms(4) by (simp del: reply_sel(1))
  have root: "IsRoot (?cs ! n) \<longleftrightarrow> n = 0" using IsRoot_at [OF l(1) assms(3)] .
  show ?thesis
    using d shouldCounter_tracker [OF assms(1-3)] agree_correct [OF assms(1,3)] val root i
    by (auto simp: NextMove_def defend_def attack_def Let_def pos_at_def reply_def)
qed

lemma calculateMove_tracker:
  assumes "game_ok kk v D g" "tracker_ok kk v D (g_claims g) n t" "n < length (g_claims g)" "depth_at (g_claims g) n < D"
  shows "\<exists>t'. calculateMove kk tr (g_depth g) g (g_claims g ! n) t = Ok (t', honest_action tr v g n) \<and>
    tracker_ok kk v D (g_claims g) (Suc n) t'"
proof (cases "counters v D (g_claims g) n")
  case False
  then show ?thesis using NextMove_tracker [OF assms] tracker_skip [OF assms(2)] game_okD [OF assms(1)]
    by (simp add: calculateMove_def honest_action_def)
next
  case True
  let ?cs = "g_claims g" and ?r = "reply v D (g_claims g) n"
  have l: "legal D ?cs" "unat (g_depth g) = D" using game_okD [OF assms(1)] by auto
  have "getParent g ?r = Some (?cs ! n)"
    using reply_not_root [OF l(1) assms(3,4) counters_0 [OF True]] assms(3) by (simp add: getParent_def)
  then have dp: "DefendsParent g ?r = correct v D ?cs n"
    using Defend_RightOf [OF legal_even [OF l(1) assms(3)]] Attack_not_RightOf [of "pos_at ?cs n"]
    by (simp add: DefendsParent_def pos_at_def)
  have dup: "IsDuplicate kk g ?r \<longleftrightarrow> answered v D ?cs n" using duplicate_reply [OF assms(1,3) refl] .
  show ?thesis
    using NextMove_tracker [OF assms] True tracker_add [OF assms(1,3,2,4) True] dp dup l(2) assms(3,4)
    by (simp add: calculateMove_def honest_action_def index_res_def Let_def del: reply_sel(1,2))
qed

lemma step_position_ok:
  assumes "game_ok kk v D g" "n < length (g_claims g)" "depth_at (g_claims g) n = D"
  shows "pos_ok (step_position v D (g_claims g) n) \<and> unat (pos_depth (step_position v D (g_claims g) n)) = D \<and>
    trace_idx D (step_position v D (g_claims g) n) =
      (if correct v D (g_claims g) n then ti D (g_claims g) n + 1 else ti D (g_claims g) n)"
proof -
  let ?p = "pos_at (g_claims g) n"
  have l: "legal D (g_claims g)" "0 < D" using game_okD [OF assms(1)] by auto
  have n: "pos_ok ?p" "even (IndexAtDepth ?p)" "unat (pos_depth ?p) = D"
    using legal_node [OF l(1) assms(2)] assms(3) by (auto simp: node_ok_def depth_at_def)
  have "even (2 ^ D :: int)" using l(2) by simp
  then have "IndexAtDepth ?p + 1 < 2 ^ D" using pos_okD [OF n(1)] n(2,3) by (metis add1_zle_eq even_add le_neq_trans odd_one)
  then have "pos_ok (MoveRight ?p)" using pos_okD [OF n(1)] n(3) by (intro pos_okI) (simp_all add: MoveRight_def)
  then show ?thesis using n by (simp add: step_position_def MoveRight_def ti_def trace_idx_def)
qed

lemma calculateStep_tracker:
  assumes "game_ok kk v D g" "tracker_ok kk v D (g_claims g) n t" "n < length (g_claims g)" "depth_at (g_claims g) n = D"
  shows "calculateStep kk tr (g_depth g) g (g_claims g ! n) t = Ok (honest_action tr v g n)"
proof -
  let ?cs = "g_claims g"
  have D: "unat (g_depth g) = D" using game_okD [OF assms(1)] by auto
  have d: "pos_depth (c_Position (?cs ! n)) = g_depth g" using assms(4) D by (simp add: depth_at_def pos_at_def word_unat_eq_iff)
  obtain pre pf od where s: "ta_GetStepData tr g (?cs ! n) (step_position v D ?cs n) = Ok (pre, pf, od)"
    using step_data step_position_ok [OF assms(1,3,4)] by blast
  then show ?thesis
    using d D shouldCounter_tracker [OF assms(1-3)] agree_correct [OF assms(1,3)] assms(4)
    by (auto simp: calculateStep_def AttemptStep_def honest_action_def step_position_def pos_at_def Let_def split: if_splits)
qed

lemma calculateAction_tracker:
  assumes "game_ok kk v D g" "tracker_ok kk v D (g_claims g) n t" "n < length (g_claims g)"
  shows "\<exists>t'. calculateAction kk tr (g_depth g) g (g_claims g ! n) t = Ok (t', honest_action tr v g n) \<and>
    tracker_ok kk v D (g_claims g) (Suc n) t'"
proof (cases "depth_at (g_claims g) n < D")
  case True
  then have "pos_depth (c_Position (g_claims g ! n)) \<noteq> g_depth g"
    using game_okD [OF assms(1)] by (auto simp: depth_at_def pos_at_def)
  then show ?thesis using calculateMove_tracker [OF assms True] by (simp add: calculateAction_def)
next
  case False
  have D: "unat (g_depth g) = D" using game_okD [OF assms(1)] by auto
  have e: "depth_at (g_claims g) n = D" using False legal_depth [of D "g_claims g" n] game_okD [OF assms(1)] assms(3) by (simp add: depth_at_def)
  then have "pos_depth (c_Position (g_claims g ! n)) = g_depth g" using D by (simp add: depth_at_def pos_at_def word_unat_eq_iff)
  then show ?thesis using calculateStep_tracker [OF assms e] tracker_skip [OF assms(2)] False by (simp add: calculateAction_def)
qed

lemma actions_loop_tracker:
  assumes "game_ok kk v D g"
  shows "tracker_ok kk v D (g_claims g) n t \<Longrightarrow> n \<le> length (g_claims g) \<Longrightarrow>
    actions_loop kk tr (g_depth g) g (drop n (g_claims g)) t =
      Ok (List.map_filter (honest_action tr v g) [n..<length (g_claims g)], None)"
proof (induction "length (g_claims g) - n" arbitrary: n t)
  case 0
  then show ?case by (simp add: map_filter_simps)
next
  case (Suc m)
  then have n: "n < length (g_claims g)" by simp
  obtain t' where t': "calculateAction kk tr (g_depth g) g (g_claims g ! n) t = Ok (t', honest_action tr v g n)"
      "tracker_ok kk v D (g_claims g) (Suc n) t'"
    using calculateAction_tracker [OF assms Suc.prems(1) n] by blast
  have "actions_loop kk tr (g_depth g) g (drop (Suc n) (g_claims g)) t' =
      Ok (List.map_filter (honest_action tr v g) [Suc n..<length (g_claims g)], None)"
    using Suc.hyps(1) [of "Suc n" t'] Suc.hyps(2) t'(2) n by simp
  then show ?case using t'(1) n
    by (simp add: Cons_nth_drop_Suc [symmetric] upt_conv_Cons map_filter_simps split: option.splits)
qed

lemma CalculateNextActions_strategy:
  assumes "game_ok kk v D g"
  shows "CalculateNextActions kk tr (g_depth g) g = Ok (honest_actions tr v g, None)"
proof -
  let ?cs = "g_claims g"
  have l: "legal D ?cs" "0 < length ?cs" using game_okD [OF assms] by (auto simp: legal_def)
  have a: "AgreeWithRootClaim tr g = Ok (correct v D ?cs 0)" using agree_correct [OF assms l(2)] l(2) by (simp add: AgreeWithRootClaim_def index_res_def)
  show ?thesis using a actions_loop_tracker [OF assms tracker_new [OF l(1)]] block_valid [of g] l(2)
    by (cases "correct v D ?cs 0") (simp_all add: CalculateNextActions_def honest_actions_def Let_def)
qed

end

end
