(* ===== verification/FaultKept.thy ===== *)
theory FaultKept
  imports FaultActions
begin

text \<open>
  The actions of the solver keep every rule of \<open>rules.go\<close>. Each rule is a lemma about one claim and the
  action of the strategy against it.
\<close>

text \<open>What a rule sees of the action against claim \<open>i\<close>.\<close>

definition acts_on :: "(int \<Rightarrow> hash) \<Rightarrow> nat \<Rightarrow> game_state \<Rightarrow> nat \<Rightarrow> ('o, 'ch) action \<Rightarrow> bool" where
  "acts_on v D g i a \<longleftrightarrow> i < length (g_claims g) \<and> counters v D (g_claims g) i \<and> a_ParentClaim a = g_claims g ! i \<and>
     a_IsAttack a = (\<not> correct v D (g_claims g) i) \<and>
     (if depth_at (g_claims g) i < D then a_Type a = ActionTypeMove \<and> a_Value a = c_Value (reply v D (g_claims g) i) \<and>
        \<not> answered v D (g_claims g) i
      else a_Type a = ActionTypeStep \<and> a_Value a = 0 \<and> c_CounteredBy (g_claims g ! i) = 0)"

lemma honest_action_acts: "game_ok kk v D g \<Longrightarrow> i < length (g_claims g) \<Longrightarrow> honest_action tr v g i = Some a \<Longrightarrow> acts_on v D g i a"
  using game_okD [of kk v D g]
  by (auto simp: honest_action_def acts_on_def move_action_def step_action_def Let_def split: if_splits res.splits simp del: reply_sel)

lemma acts_parent:
  assumes "game_ok kk v D g" "acts_on v D g i a"
  shows "parent_of g a = Ok (g_claims g ! i)" "c_ContractIndex (a_ParentClaim a) = int i"
proof -
  have i: "c_ContractIndex (g_claims g ! i) = int i" "i < length (g_claims g)"
    using legal_index [of D "g_claims g" i] game_okD [OF assms(1)] assms(2) by (auto simp: acts_on_def)
  then show "parent_of g a = Ok (g_claims g ! i)" "c_ContractIndex (a_ParentClaim a) = int i"
    using assms(2) by (auto simp: parent_of_def claim_at_def acts_on_def index_res_def)
qed

lemma acts_position:
  assumes "game_ok kk v D g" "acts_on v D g i a"
  shows "resultingPosition g a = Ok (if depth_at (g_claims g) i < D then c_Position (reply v D (g_claims g) i) else pos_at (g_claims g) i)"
  using acts_parent [OF assms] assms(2) by (auto simp: resultingPosition_def acts_on_def pos_at_def)

lemma acts_node:
  assumes "game_ok kk v D g" "acts_on v D g i a"
  shows "legal_game g" "unat (g_depth g) = D" "i < length (g_claims g)" "depth_at (g_claims g) i \<le> D"
    "pos_depth (pos_at (g_claims g) i) = g_depth g \<longleftrightarrow> depth_at (g_claims g) i = D"
proof -
  show g: "legal_game g" "unat (g_depth g) = D" "i < length (g_claims g)"
    using game_okD [OF assms(1)] assms(2) by (auto simp: acts_on_def)
  show "depth_at (g_claims g) i \<le> D" using legal_depth [OF g(1,3)] g(2) by (simp add: depth_at_def)
  show "pos_depth (pos_at (g_claims g) i) = g_depth g \<longleftrightarrow> depth_at (g_claims g) i = D"
    using g(2) by (auto simp: depth_at_def word_unat_eq_iff)
qed

lemma acts_counters: "acts_on v D g i a \<Longrightarrow> counters v D (g_claims g) i"
  by (simp add: acts_on_def)

section \<open>Rules that look at the parent\<close>

lemma rule_shape:
  assumes "game_ok kk v D g" "acts_on v D g i a"
  shows "parentMustExist g a = Ok ()" "onlyStepAtMaxDepth g a = Ok ()" "onlyMoveBeforeMaxDepth g a = Ok ()" "doNotDefendRootClaim g a = Ok ()"
proof -
  note p = acts_parent [OF assms] and n = acts_node [OF assms]
  have d: "\<not> g_depth g \<le> pos_depth (pos_at (g_claims g) i)" if "depth_at (g_claims g) i < D"
    using that n(2) by (simp add: depth_at_def word_le_nat_alt)
  have e: "\<not> pos_depth (pos_at (g_claims g) i) < g_depth g" if "\<not> depth_at (g_claims g) i < D"
    using that n(2) by (simp add: depth_at_def word_less_nat_alt)
  show "parentMustExist g a = Ok ()" using p n by (simp add: parentMustExist_def)
  show "onlyStepAtMaxDepth g a = Ok ()" using p d assms(2) by (auto simp: onlyStepAtMaxDepth_def acts_on_def pos_at_def split: if_splits)
  show "onlyMoveBeforeMaxDepth g a = Ok ()" using p e assms(2) by (auto simp: onlyMoveBeforeMaxDepth_def acts_on_def pos_at_def split: if_splits)
  have "IsRootPosition (pos_at (g_claims g) i) \<Longrightarrow> i = 0" using IsRoot_at [OF n(1,3)] by (simp add: IsRoot_def pos_at_def)
  then show "doNotDefendRootClaim g a = Ok ()" using p assms(2)
    by (cases "IsRootPosition (pos_at (g_claims g) i)") (auto simp: doNotDefendRootClaim_def acts_on_def pos_at_def)
qed

lemma rule_duplicate:
  assumes "game_ok kk v D g" "acts_on v D g i a"
  shows "doNotDuplicateExistingMoves kk g a = Ok ()"
proof -
  note n = acts_node [OF assms]
  let ?cs = "g_claims g"
  let ?c = "zero_claim\<lparr>c_Value := a_Value a, c_Position := (if depth_at ?cs i < D then c_Position (reply v D ?cs i) else pos_at ?cs i),
      c_ParentContractIndex := int i\<rparr>"
  have "\<not> IsDuplicate kk g ?c"
  proof (cases "depth_at ?cs i < D")
    case True
    then have "claim_key ?c = claim_key (reply v D ?cs i)" using assms(2) by (simp add: claim_key_def acts_on_def)
    then show ?thesis using duplicate_reply [OF assms(1) n(3)] assms(2) True by (simp add: acts_on_def)
  next
    case False
    then have k: "claim_key ?c = claim_key (step_probe ?cs i)" and d: "depth_at ?cs i = D"
      using assms(2) n(4) by (auto simp: claim_key_def acts_on_def step_probe_def zero_claim_def)
    show ?thesis
      using duplicate_iff [OF assms(1) looked_up_mem(3) [OF n(3)] k] key_step_probe [of D ?cs _ i] game_okD [OF assms(1)] n(3) d by auto
  qed
  then show ?thesis using acts_position [OF assms] acts_parent [OF assms] by (simp add: doNotDuplicateExistingMoves_def del: reply_sel)
qed

section \<open>Rules about pre-states and post-states\<close>

text \<open>A provider of the correct trace.\<close>

definition provides :: "(int \<Rightarrow> hash) \<Rightarrow> nat \<Rightarrow> provider \<Rightarrow> bool" where
  "provides v D pr \<longleftrightarrow> (\<forall>p. pos_ok p \<longrightarrow> unat (pos_depth p) \<le> D \<longrightarrow> pr p = Ok (v (trace_idx D p)))"

lemma provides_at: "provides v D pr \<Longrightarrow> legal D cs \<Longrightarrow> j < length cs \<Longrightarrow> pr (c_Position (cs ! j)) = Ok (v (ti D cs j))"
  using legal_node [of D cs j] by (simp add: provides_def node_ok_def depth_at_def pos_at_def ti_def)

lemma reply_interval:
  assumes "legal D cs" "i < length cs" "depth_at cs i < D"
  shows "lo D (c_Position (reply v D cs i)) = (if correct v D cs i then ti D cs i else lo D (pos_at cs i))"
    "hi D (c_Position (reply v D cs i)) = (if correct v D cs i then hi D (pos_at cs i) else ti D cs i)"
  using move_interval [of "pos_at cs i" D] assms legal_even [OF assms(1,2)] by (simp_all add: legal_def depth_at_def ti_def)

lemma rule_prestate:
  assumes "game_ok kk v D g" "acts_on v D g i a" "provides v D pr"
  shows "avoidPoisonedPrestate g a pr = Some (Ok ())"
proof (cases "depth_at (g_claims g) i < D")
  case False
  then show ?thesis using assms(2) by (simp add: avoidPoisonedPrestate_def acts_on_def)
next
  case True
  let ?cs = "g_claims g" and ?r = "reply v D (g_claims g) i"
  note n = acts_node [OF assms(1,2)] and p = acts_parent [OF assms(1,2)] and po = acts_position [OF assms(1,2)]
  have l: "legal D ?cs" using n by simp
  note c = acts_counters [OF assms(2)]
  let ?x = "trace_idx D (c_Position ?r)"
  have "pos_depth (c_Position ?r) \<le> g_depth g"
    using reply_node [OF l n(3) True counters_0 [OF c]] True n(2) by (simp add: word_le_nat_alt del: reply_sel)
  then have x: "TraceIndex (c_Position ?r) (g_depth g) = Ok ?x" using TraceIndex_Ok n(2) by metis
  have "\<exists>m. prestate_loop g ?x (?cs ! i) zero_claim = Some (Ok m) \<and> (m = zero_claim \<or> (\<exists>j < length ?cs. m = ?cs ! j \<and> correct v D ?cs j))"
  proof (cases "correct v D ?cs i")
    case True
    then show ?thesis using prestate_self [OF n(1,3), of ?x] lo_trace_hi [of D "c_Position ?r"] reply_interval [OF l n(3) \<open>depth_at ?cs i < D\<close>, of v] n
      by auto
  next
    case False
    obtain m where m: "prestate_loop g ?x (?cs ! i) zero_claim = Some (Ok m)" "m = zero_claim \<or> (\<exists>j. lbound ?cs i j \<and> m = ?cs ! j)"
      using prestate_bound [OF n(1,3), of ?x] lo_trace_hi [of D "c_Position ?r"] reply_interval [OF l n(3) True, of v] n(2) False by auto
    moreover have "j < length ?cs \<and> correct v D ?cs j" if "lbound ?cs i j" for j
      using lbound_correct [OF that l n(3), of v] lbound_ti [OF that l n(3)] c n(3) by auto
    ultimately show ?thesis by blast
  qed
  then obtain m where m: "prestate_loop g ?x (?cs ! i) zero_claim = Some (Ok m)"
    "m = zero_claim \<or> (\<exists>j < length ?cs. m = ?cs ! j \<and> correct v D ?cs j)" by blast
  have "pr (c_Position m) = Ok (c_Value m)" if "m \<noteq> zero_claim"
    using m(2) that provides_at [OF assms(3) l] by (auto simp: correct_def)
  then show ?thesis using po True p x m assms(2) by (simp add: avoidPoisonedPrestate_def acts_on_def del: reply_sel)
qed


text \<open>The claim that the contract takes as the pre-state of a step against \<open>i\<close>, or of a leaf below \<open>i\<close>.\<close>

lemma walk_pre:
  assumes "game_ok kk v D g" "acts_on v D g i a"
    "k = (if correct v D (g_claims g) i then ti D (g_claims g) i else lo D (pos_at (g_claims g) i))" "0 \<le> k"
  shows "\<exists>j < length (g_claims g). AncestorWithTraceIndex g (g_claims g ! i) k = Some (Ok (Some (g_claims g ! j))) \<and>
    correct v D (g_claims g) j \<and> ti D (g_claims g) j = k"
proof (cases "correct v D (g_claims g) i")
  case True
  then show ?thesis using walk_self [of g i] acts_node [OF assms(1,2)] assms(3) by auto
next
  case False
  note n = acts_node [OF assms(1,2)] and c = acts_counters [OF assms(2)]
  have l: "legal D (g_claims g)" using n by simp
  obtain j where j: "lbound (g_claims g) i j" using lbound_exists [OF l n(3)] assms(3,4) False by auto
  then show ?thesis using lbound_correct [OF j l n(3), of v] lbound_ti [OF j l n(3)] walk_lbound [OF j n(1,3)] c n(2,3) assms(3) False
    by (intro exI [of _ j]) auto
qed

lemma leaf_bounds: "unat (pos_depth p) = D \<Longrightarrow> lo D p = trace_idx D p - 1" "unat (pos_depth p) = D \<Longrightarrow> hi D p = trace_idx D p + 1"
  by (simp_all add: lo_def hi_def trace_idx_def)

lemma rule_step_prestate:
  assumes "game_ok kk v D g" "acts_on v D g i a" "provides v D pr"
    "a_Type a = ActionTypeStep \<Longrightarrow>
      let k = (if correct v D (g_claims g) i then ti D (g_claims g) i else ti D (g_claims g) i - 1) in
      0 \<le> k \<longrightarrow> tl (hash_bytes (kk (a_PreState a))) = tl (hash_bytes (v k))"
  shows "detectPoisonedStepPrestate kk g a pr = Some (Ok ())"
proof -
  let ?cs = "g_claims g" and ?r = "reply v D (g_claims g) i"
  define q where "q = (if depth_at ?cs i < D then c_Position ?r else pos_at ?cs i)"
  define k where "k = (if correct v D ?cs i then ti D ?cs i else lo D (pos_at ?cs i))"
  note n = acts_node [OF assms(1,2)] and p = acts_parent [OF assms(1,2)] and c = acts_counters [OF assms(2)]
  have po: "resultingPosition g a = Ok q" using acts_position [OF assms(1,2)] by (simp add: q_def)
  have l: "legal D ?cs" using n by simp
  show ?thesis
  proof (cases "pos_depth q = g_depth g")
    case False
    then show ?thesis using po by (simp add: detectPoisonedStepPrestate_def)
  next
    case True
    then have d: "unat (pos_depth q) = D" using n by simp
    have x: "TraceIndex q (g_depth g) = Ok (trace_idx D q)" using TraceIndex_Ok [of q "g_depth g"] True n(2) by simp
    have k: "(if a_IsAttack a \<or> a_Type a = ActionTypeMove then trace_idx D q - 1 else trace_idx D q) = k"
    proof (cases "depth_at ?cs i < D")
      case True
      then have "lo D q = k" using reply_interval(1) [OF l n(3) True, of v] by (simp add: q_def k_def del: reply_sel)
      then show ?thesis using True leaf_bounds(1) [OF d] assms(2) by (simp add: acts_on_def)
    next
      case False
      then show ?thesis using leaf_bounds(1) [OF d] assms(2) by (auto simp: acts_on_def q_def k_def ti_def)
    qed
    show ?thesis
    proof (cases "0 \<le> k")
      case False
      then show ?thesis using po x True by (simp add: detectPoisonedStepPrestate_def k Let_def)
    next
      case True
      obtain j where j: "j < length ?cs" "AncestorWithTraceIndex g (?cs ! i) k = Some (Ok (Some (?cs ! j)))" "correct v D ?cs j" "ti D ?cs j = k"
        using walk_pre [OF assms(1,2) k_def True] by blast
      have v: "c_Value (?cs ! j) = v k" "pr (c_Position (?cs ! j)) = Ok (v k)"
        using j provides_at [OF assms(3) l j(1)] by (simp_all add: correct_def)
      have "tl (hash_bytes (kk (a_PreState a))) = tl (hash_bytes (v k))" if "a_Type a = ActionTypeStep"
      proof -
        have "unat (pos_depth (pos_at ?cs i)) = D" using that assms(2) d by (auto simp: acts_on_def q_def split: if_splits)
        then have "k = (if correct v D ?cs i then ti D ?cs i else ti D ?cs i - 1)"
          using leaf_bounds(1) [of "pos_at ?cs i" D] by (simp add: k_def ti_def)
        then show ?thesis using assms(4) [OF that] True by (simp add: Let_def)
      qed
      then show ?thesis using po x \<open>pos_depth q = g_depth g\<close> True p j(2) v
        by (simp add: detectPoisonedStepPrestate_def k Let_def)
    qed
  qed
qed

lemma even_word: "(w :: u64) mod 2 = 0 \<longleftrightarrow> even (unat w)"
  by (simp add: word_unat_eq_iff unat_mod even_iff_mod_2_eq_zero)

lemma rule_step_succeeds:
  assumes "game_ok kk v D g" "acts_on v D g i a" "provides v D pr"
  shows "detectFailedStep g a pr = Some (Ok ())"
proof (cases "a_Type a = ActionTypeStep")
  case False
  then show ?thesis by (simp add: detectFailedStep_def)
next
  case True
  let ?cs = "g_claims g"
  note n = acts_node [OF assms(1,2)] and p = acts_parent [OF assms(1,2)] and c = acts_counters [OF assms(2)]
  have l: "legal D ?cs" using n by simp
  have d: "depth_at ?cs i = D" "\<not> depth_at ?cs i < D" using True assms(2) n(4) by (auto simp: acts_on_def split: if_splits)
  then have u: "unat (pos_depth (pos_at ?cs i)) = D" by (simp add: depth_at_def)
  have po: "resultingPosition g a = Ok (pos_at ?cs i)" using acts_position [OF assms(1,2)] d by simp
  have x: "TraceIndex (pos_at ?cs i) (g_depth g) = Ok (ti D ?cs i)" using TraceIndex_at [OF n(1,3)] n(2) by simp
  have i: "i \<noteq> 0" using d(1) legal_node [OF l n(3)] game_okD [OF assms(1)] by (auto simp: node_ok_def)
  have pd: "pos_depth (pos_at ?cs i) = g_depth g" using n(5) d(1) by blast
  show ?thesis
  proof (cases "correct v D ?cs i")
    case False
    have "pr (c_Position (?cs ! i)) = Ok (v (ti D ?cs i))" using provides_at [OF assms(3) l n(3)] .
    then show ?thesis using True False po x p pd assms(2) walk_self [OF n(1,3)] n(2)
      by (simp add: detectFailedStep_def acts_on_def correct_def)
  next
    case cor: True
    obtain j where j: "rbound ?cs i j" using rbound_exists [OF l n(3) i] by blast
    have jl: "j < length ?cs" using rbound_ti [OF j l n(3)] n(3) by simp
    note par = rbound_parity [OF j l n(3), of v]
    have h: "hi D (pos_at ?cs i) = ti D ?cs i + 1" using leaf_bounds(2) [OF u] by (simp add: ti_def)
    have w: "AncestorWithTraceIndex g (?cs ! i) (ti D ?cs i + 1) = Some (Ok (Some (?cs ! j)))"
      using walk_rbound [OF j n(1,3)] n(2) h by simp
    have "pos_depth (c_Position (?cs ! j)) \<le> pos_depth (c_Position (?cs ! i))"
      using par by (simp add: word_le_nat_alt depth_at_def pos_at_def)
    then have ev: "(pos_depth (c_Position (?cs ! i)) - pos_depth (c_Position (?cs ! j))) mod 2 = 0 \<longleftrightarrow> even (depth_at ?cs i - depth_at ?cs j)"
      unfolding even_word by (simp add: unat_sub depth_at_def pos_at_def)
    have "pr (c_Position (?cs ! j)) = Ok (v (ti D ?cs j))" using provides_at [OF assms(3) l jl] .
    moreover have "v (ti D ?cs j) = c_Value (?cs ! j) \<longleftrightarrow> odd (depth_at ?cs i - depth_at ?cs j)"
      using par c cor by (auto simp: correct_def)
    ultimately show ?thesis using True cor po x p pd w assms(2)
      by (simp add: detectFailedStep_def acts_on_def ev Let_def)
  qed
qed

section \<open>All rules\<close>

context honest_trace
begin

lemma action_pre_state:
  assumes "game_ok kk v D g" "i < length (g_claims g)" "honest_action tr v g i = Some a" "a_Type a = ActionTypeStep"
  shows "let k = (if correct v D (g_claims g) i then ti D (g_claims g) i else ti D (g_claims g) i - 1) in
    0 \<le> k \<longrightarrow> tl (hash_bytes (kk (a_PreState a))) = tl (hash_bytes (v k))"
proof -
  have d: "depth_at (g_claims g) i = D"
    using honest_action_acts [OF assms(1-3)] acts_node(4) [OF assms(1) honest_action_acts [OF assms(1-3)]] assms(4)
    by (auto simp: acts_on_def split: if_splits)
  note s = step_position_ok [OF assms(1,2) d]
  then show ?thesis
    using step_data [of "step_position v D (g_claims g) i" g "g_claims g ! i"] assms(3) d game_okD [OF assms(1)]
    by (auto simp: honest_action_def step_action_def Let_def split: if_splits)
qed

lemma rules_kept:
  assumes "game_ok kk v D g" "i < length (g_claims g)" "honest_action tr v g i = Some a" "provides v D pr"
    "c_Claimant (g_claims g ! i) = challengerAddr \<Longrightarrow> honest v D (g_claims g) i"
    "depth_at (g_claims g) i < D \<Longrightarrow> c_CounteredBy (g_claims g ! i) = 0"
  shows "checkRules kk g a pr"
proof -
  note a = honest_action_acts [OF assms(1-3)]
  note p = acts_parent [OF assms(1) a]
  have "c_CounteredBy (g_claims g ! i) = 0" using a assms(6) by (auto simp: acts_on_def split: if_splits)
  moreover have "c_Claimant (g_claims g ! i) \<noteq> challengerAddr"
    using assms(5) honest_not_counters [OF _ assms(2)] acts_counters [OF a] game_okD [OF assms(1)] by blast
  ultimately show ?thesis
    using rule_shape [OF assms(1) a] rule_duplicate [OF assms(1) a] rule_prestate [OF assms(1) a assms(4)] p
      rule_step_prestate [OF assms(1) a assms(4) action_pre_state [OF assms(1-3)]] rule_step_succeeds [OF assms(1) a assms(4)]
    by (simp add: checkRules_def doNotStepAlreadyCounteredClaims_def doNotCounterSelf_def)
qed

end

end
