(* ===== verification/FaultPlay.thy ===== *)
theory FaultPlay
  imports FaultKept
begin

text \<open>
  Playing a game: the honest challenger, as \<open>Agent.Act\<close> of \<open>op-challenger/game/fault/agent.go\<close> runs it,
  against players who may do whatever the dispute contract accepts. The contract is
  \<open>FaultDisputeGame.sol\<close>, restricted to one trace: which moves and steps it accepts. The virtual machine
  is abstract: from a right pre-state a step gives the next value of the trace, from a wrong one anything.
\<close>

section \<open>The contract\<close>

definition new_claim :: "claim list \<Rightarrow> nat \<Rightarrow> hash \<Rightarrow> bool \<Rightarrow> address \<Rightarrow> claim" where
  "new_claim cs i value isAttack who = zero_claim\<lparr>c_Value := value,
     c_Position := (if isAttack then Attack (pos_at cs i) else Defend (pos_at cs i)), c_Claimant := who,
     c_ContractIndex := int (length cs), c_ParentContractIndex := int i\<rparr>"

definition move_accepted :: "nat \<Rightarrow> claim list \<Rightarrow> nat \<Rightarrow> hash \<Rightarrow> bool \<Rightarrow> bool" where
  "move_accepted D cs i value isAttack \<longleftrightarrow> i < length cs \<and> depth_at cs i < D \<and> (isAttack \<or> i \<noteq> 0) \<and>
     list_all (\<lambda>c. claim_key c \<noteq> claim_key (new_claim cs i value isAttack 0)) cs"

text \<open>The claims that bound a step against leaf \<open>i\<close>, found by walking up, and what the step yields:
  \<open>r\<close> is the state that the machine computes from the submitted pre-state.\<close>

definition bound_claim :: "game_state \<Rightarrow> nat \<Rightarrow> int \<Rightarrow> claim option" where
  "bound_claim g i x = (case AncestorWithTraceIndex g (g_claims g ! i) x of Some (Ok (Some c)) \<Rightarrow> Some c | _ \<Rightarrow> None)"

definition step_result_ok :: "(int \<Rightarrow> hash) \<Rightarrow> game_state \<Rightarrow> nat \<Rightarrow> bool \<Rightarrow> hash \<Rightarrow> bool" where
  "step_result_ok v g i isAttack r =
     (let k = ti (unat (g_depth g)) (g_claims g) i;
          post = (if isAttack then k else k + 1);
          pre_right = (post = 0 \<or> (case bound_claim g i (post - 1) of None \<Rightarrow> False | Some c \<Rightarrow> c_Value c = v (post - 1)))
      in pre_right \<longrightarrow> r = v post)"

definition step_accepted :: "game_state \<Rightarrow> nat \<Rightarrow> bool \<Rightarrow> hash \<Rightarrow> bool" where
  "step_accepted g i isAttack r \<longleftrightarrow>
     i < length (g_claims g) \<and> depth_at (g_claims g) i = unat (g_depth g) \<and> c_CounteredBy (g_claims g ! i) = 0 \<and>
     (let k = ti (unat (g_depth g)) (g_claims g) i in
      case bound_claim g i (if isAttack then k else k + 1) of
        None \<Rightarrow> False
      | Some post \<Rightarrow> even (depth_at (g_claims g) i - unat (pos_depth (c_Position post))) \<noteq> (r = c_Value post))"

definition set_countered :: "claim list \<Rightarrow> nat \<Rightarrow> address \<Rightarrow> claim list" where
  "set_countered cs i who = cs[i := (cs ! i)\<lparr>c_CounteredBy := who\<rparr>]"

section \<open>Plays\<close>

text \<open>The claims in the contract, and the actions of the challenger that are on their way: they were
  computed for an earlier state of the game and are performed in any order.\<close>

type_synonym ('o, 'ch) play = "claim list \<times> ('o, 'ch) action list"

definition target :: "('o, 'ch) action \<Rightarrow> nat" where
  "target a = nat (c_ContractIndex (a_ParentClaim a))"

inductive play_step ::
    "(bytes \<Rightarrow> hash) \<Rightarrow> ('o, 'ch) trace_accessor \<Rightarrow> (int \<Rightarrow> hash) \<Rightarrow> u64 \<Rightarrow> ('o, 'ch) play \<Rightarrow> ('o, 'ch) play \<Rightarrow> bool"
  for kk tr v d where
  other_move: "move_accepted (unat d) cs i value att \<Longrightarrow> who \<noteq> challengerAddr \<Longrightarrow> who \<noteq> 0 \<Longrightarrow>
    play_step kk tr v d (cs, ps) (cs @ [new_claim cs i value att who], ps)"
| other_step: "g = NewGameState kk cs d \<Longrightarrow> step_accepted g i att r \<Longrightarrow> step_result_ok v g i att r \<Longrightarrow> who \<noteq> 0 \<Longrightarrow>
    play_step kk tr v d (cs, ps) (set_countered cs i who, ps)"
| act: "CalculateNextActions kk tr d (NewGameState kk cs d) = Ok (as, err) \<Longrightarrow>
    play_step kk tr v d (cs, ps) (cs, as)"
| perform_move: "a \<in> set ps \<Longrightarrow> a_Type a = ActionTypeMove \<Longrightarrow> move_accepted (unat d) cs (target a) (a_Value a) (a_IsAttack a) \<Longrightarrow>
    play_step kk tr v d (cs, ps) (cs @ [new_claim cs (target a) (a_Value a) (a_IsAttack a) challengerAddr], ps)"
| perform_step: "a \<in> set ps \<Longrightarrow> a_Type a = ActionTypeStep \<Longrightarrow> g = NewGameState kk cs d \<Longrightarrow>
    step_accepted g (target a) (a_IsAttack a) r \<Longrightarrow> step_result_ok v g (target a) (a_IsAttack a) r \<Longrightarrow>
    play_step kk tr v d (cs, ps) (set_countered cs (target a) challengerAddr, ps)"

text \<open>A game starts with its root, which the challenger only proposes when it is right.\<close>

definition start_claims :: "(int \<Rightarrow> hash) \<Rightarrow> nat \<Rightarrow> claim list \<Rightarrow> bool" where
  "start_claims v D cs \<longleftrightarrow> (case cs of [c] \<Rightarrow> c_Position c = NewPosition 0 0 \<and> c_ContractIndex c = 0 \<and> c_CounteredBy c = 0 \<and>
     (c_Claimant c = challengerAddr \<longrightarrow> correct v D cs 0) | _ \<Rightarrow> False)"

inductive plays ::
    "(bytes \<Rightarrow> hash) \<Rightarrow> ('o, 'ch) trace_accessor \<Rightarrow> (int \<Rightarrow> hash) \<Rightarrow> u64 \<Rightarrow> ('o, 'ch) play \<Rightarrow> bool"
  for kk tr v d where
  start: "start_claims v (unat d) cs \<Longrightarrow> plays kk tr v d (cs, [])"
| step: "plays kk tr v d s \<Longrightarrow> play_step kk tr v d s s' \<Longrightarrow> plays kk tr v d s'"

section \<open>What a longer game keeps\<close>

definition grows :: "claim list \<Rightarrow> claim list \<Rightarrow> bool" where
  "grows cs cs' \<longleftrightarrow> length cs \<le> length cs' \<and>
     list_all (\<lambda>j. claim_key (cs' ! j) = claim_key (cs ! j) \<and> c_ContractIndex (cs' ! j) = c_ContractIndex (cs ! j)) [0..<length cs]"

lemma growsD: "grows cs cs' \<Longrightarrow> j < length cs \<Longrightarrow> c_Position (cs' ! j) = c_Position (cs ! j) \<and> c_Value (cs' ! j) = c_Value (cs ! j) \<and>
    c_ParentContractIndex (cs' ! j) = c_ParentContractIndex (cs ! j) \<and> c_ContractIndex (cs' ! j) = c_ContractIndex (cs ! j) \<and> j < length cs'"
  by (auto simp: grows_def list_all_iff claim_key_def)

lemma grows_append: "grows cs (cs @ xs)"
  by (simp add: grows_def list_all_iff nth_append)

lemma grows_countered: "grows cs (set_countered cs i who)"
proof -
  have "claim_key (set_countered cs i who ! j) = claim_key (cs ! j) \<and> c_ContractIndex (set_countered cs i who ! j) = c_ContractIndex (cs ! j)"
    if "j < length cs" for j using that by (cases "j = i") (simp_all add: set_countered_def claim_key_def)
  then show ?thesis by (simp add: grows_def list_all_iff set_countered_def)
qed

lemma grows_refl: "grows cs cs"
  by (simp add: grows_def list_all_iff)

lemma grows_at:
  assumes "grows cs cs'" "j < length cs"
  shows "pos_at cs' j = pos_at cs j" "par cs' j = par cs j" "depth_at cs' j = depth_at cs j" "ti D cs' j = ti D cs j"
    "correct v D cs' j = correct v D cs j" "reply v D cs' j = reply v D cs j"
  using growsD [OF assms] by (simp_all add: pos_at_def par_def depth_at_def ti_def correct_def reply_def)

lemma grows_legal_claim: "grows cs cs' \<Longrightarrow> legal D cs \<Longrightarrow> j < length cs \<Longrightarrow> legal_claim D cs' j"
  using legalD [of D cs j] growsD [of cs cs' j] grows_at(1-3) [of cs cs' j] grows_at(1-3) [of cs cs' "par cs j"]
  by (cases "j = 0") (auto simp: legal_claim_def)

lemma grows_stance: "grows cs cs' \<Longrightarrow> legal D cs \<Longrightarrow> j < length cs \<Longrightarrow> stance v D cs' j = stance v D cs j"
proof (induction j rule: less_induct)
  case (less j)
  note g = grows_at [OF less.prems(1)]
  show ?case
  proof (cases "j = 0")
    case True
    then show ?thesis using g(5) [of 0 v D] less.prems by (simp add: stance.simps [of v D _ 0])
  next
    case False
    note p = legal_par [OF less.prems(2,3) False]
    have "stance v D cs' (par cs j) = stance v D cs (par cs j)" using less p by simp
    then show ?thesis
      using p False g [OF less.prems(3)] g(6) [of "par cs j" v D] growsD [OF less.prems(1,3)] less.prems(3)
      by (simp add: stance.simps [of v D cs' j] stance.simps [of v D cs j] Let_def del: reply_sel cong: if_cong)
  qed
qed

lemma grows_honest: "grows cs cs' \<Longrightarrow> legal D cs \<Longrightarrow> j < length cs \<Longrightarrow> honest v D cs' j = honest v D cs j"
  "grows cs cs' \<Longrightarrow> legal D cs \<Longrightarrow> j < length cs \<Longrightarrow> counters v D cs' j = counters v D cs j"
  by (simp_all add: honest_def counters_def grows_stance)

lemma grows_looked_up:
  assumes "grows cs cs'"
  shows "claim_key ` set (looked_up v D cs) \<subseteq> claim_key ` set (looked_up v D cs')"
proof -
  have "claim_key (cs ! j) \<in> claim_key ` set (looked_up v D cs') \<and> claim_key (reply v D cs j) \<in> claim_key ` set (looked_up v D cs') \<and>
      claim_key (step_probe cs j) \<in> claim_key ` set (looked_up v D cs')" if "j < length cs" for j
  proof -
    have j: "j < length cs'" "claim_key (cs' ! j) = claim_key (cs ! j)"
      using growsD [OF assms that] by (simp_all add: claim_key_def)
    have "step_probe cs' j = step_probe cs j" using grows_at(1) [OF assms that] by (simp add: step_probe_def)
    then show ?thesis using looked_up_mem [OF j(1), of v D] j(2) grows_at(6) [OF assms that, of v D] by (metis imageI)
  qed
  then show ?thesis by (auto simp: looked_up_def [of v D cs] in_set_conv_nth)
qed

lemma no_collisions_grow: "grows cs cs' \<Longrightarrow> no_collisions kk (looked_up v D cs') \<Longrightarrow> no_collisions kk (looked_up v D cs)"
proof -
  assume g: "grows cs cs'" and n: "no_collisions kk (looked_up v D cs')"
  have "claim_key a = claim_key b" if ab: "a \<in> set (looked_up v D cs)" "b \<in> set (looked_up v D cs)" "claim_ID kk a = claim_ID kk b" for a b
  proof -
    have "claim_key a \<in> claim_key ` set (looked_up v D cs')" "claim_key b \<in> claim_key ` set (looked_up v D cs')"
      using grows_looked_up [OF g, of v D] ab(1,2) by blast+
    then obtain a' b' where m: "a' \<in> set (looked_up v D cs')" "b' \<in> set (looked_up v D cs')" "claim_key a = claim_key a'" "claim_key b = claim_key b'"
      by blast
    have "claim_ID kk a' = claim_ID kk b'" using ID_of_key [OF m(3), of kk] ID_of_key [OF m(4), of kk] ab(3) by simp
    then show ?thesis using no_collisionsD [OF n m(1,2)] m(3,4) by simp
  qed
  then show ?thesis unfolding no_collisions_def list_all_iff by blast
qed

text \<open>
  What every play keeps: the game stays legal, the challenger's claims are honest, no honest claim is ever
  stepped, and the pending actions are replies of the strategy.
\<close>

section \<open>The contract keeps games legal\<close>

lemma challenger_nonzero: "challengerAddr \<noteq> 0"
  by code_simp

lemma pos_at_append: "j < length cs \<Longrightarrow> pos_at (cs @ xs) j = pos_at cs j \<and> par (cs @ xs) j = par cs j \<and> depth_at (cs @ xs) j = depth_at cs j"
  using grows_at(1-3) [OF grows_append] by blast

lemma new_claim_at:
  assumes "move_accepted D cs i val att"
  shows "legal_claim D (cs @ [new_claim cs i val att who]) (length cs)"
    "par (cs @ [new_claim cs i val att who]) (length cs) = i"
  using assms pos_at_append [of i cs "[new_claim cs i val att who]"]
  by (auto simp: legal_claim_def move_accepted_def new_claim_def par_def pos_at_def nth_append)

lemma legal_append:
  assumes "legal D cs" "move_accepted D cs i val att"
  shows "legal D (cs @ [new_claim cs i val att who])"
  using assms(1) grows_legal_claim [OF grows_append assms(1)] new_claim_at(1) [OF assms(2)]
  by (auto simp: legal_def list_all_iff less_Suc_eq)

lemma distinct_append:
  assumes "distinct (map claim_key cs)" "move_accepted D cs i val att"
  shows "distinct (map claim_key (cs @ [new_claim cs i val att who]))"
proof -
  have "claim_key (new_claim cs i val att who) = claim_key (new_claim cs i val att 0)" by (simp add: claim_key_def new_claim_def)
  then show ?thesis using assms by (auto simp: move_accepted_def list_all_iff)
qed

lemma legal_countered: "legal D cs \<Longrightarrow> legal D (set_countered cs i who)"
  using grows_legal_claim [OF grows_countered] by (auto simp: legal_def list_all_iff set_countered_def)

lemma distinct_countered: "distinct (map claim_key cs) \<Longrightarrow> distinct (map claim_key (set_countered cs i who))"
proof -
  have "map claim_key (set_countered cs i who) = map claim_key cs"
    using growsD [OF grows_countered, of _ cs i who] by (intro nth_equalityI) (simp_all add: set_countered_def claim_key_def)
  then show "distinct (map claim_key cs) \<Longrightarrow> distinct (map claim_key (set_countered cs i who))" by simp
qed

text \<open>The reply of the strategy becomes an honest claim.\<close>

lemma reply_becomes_honest:
  assumes "legal D cs" "move_accepted D cs i (c_Value (reply v D cs i)) (\<not> correct v D cs i)" "counters v D cs i"
  shows "honest v D (cs @ [new_claim cs i (c_Value (reply v D cs i)) (\<not> correct v D cs i) who]) (length cs)"
proof -
  let ?n = "new_claim cs i (c_Value (reply v D cs i)) (\<not> correct v D cs i) who"
  have i: "i < length cs" using assms(2) by (simp add: move_accepted_def)
  have l: "legal D (cs @ [?n])" by (rule legal_append [OF assms(1,2)])
  note g = grows_at(5,6) [OF grows_append i, of v D "[?n]"] and gc = grows_honest(2) [OF grows_append assms(1) i, of v "[?n]"]
  have len: "length cs < length (cs @ [?n])" "length cs \<noteq> 0" using i by auto
  have n: "c_Position ?n = c_Position (reply v D cs i)" "c_Value ?n = c_Value (reply v D cs i)" by (simp_all add: new_claim_def)
  show ?thesis
    unfolding stance_Suc(1) [OF l len] new_claim_at(2) [OF assms(2)] g gc pos_at_def using n assms(3) by (simp del: reply_sel)
qed

section \<open>Honest claims cannot be stepped\<close>

lemma honest_not_stepped:
  assumes "legal_game g" "0 < unat (g_depth g)" "honest v (unat (g_depth g)) (g_claims g) i"
    "step_accepted g i att r" "step_result_ok v g i att r"
  shows False
proof -
  let ?cs = "g_claims g" and ?D = "unat (g_depth g)"
  have i: "i < length ?cs" "depth_at ?cs i = ?D" using assms(4) by (auto simp: step_accepted_def)
  then have u: "unat (pos_depth (pos_at ?cs i)) = ?D" by (simp add: depth_at_def)
  have i0: "i \<noteq> 0" using i legal_node [OF assms(1) i(1)] assms(2) by (auto simp: node_ok_def)
  have cor: "c_Value (?cs ! i) = v (ti ?D ?cs i)" using honest_correct [OF assms(1) i(1) assms(3)] by (simp add: correct_def)
  have self: "bound_claim g i (ti ?D ?cs i) = Some (?cs ! i)" using walk_self [OF assms(1) i(1)] by (simp add: bound_claim_def)
  show False
  proof (cases att)
    case True
    have "ti ?D ?cs i = 0 \<or> (\<exists>c. bound_claim g i (ti ?D ?cs i - 1) = Some c \<and> c_Value c = v (ti ?D ?cs i - 1))"
    proof (cases "\<exists>j. lbound ?cs i j")
      case True
      then obtain j where j: "lbound ?cs i j" by blast
      have e: "lo ?D (pos_at ?cs i) = ti ?D ?cs i - 1" using leaf_bounds(1) [OF u] by (simp add: ti_def)
      then have "bound_claim g i (ti ?D ?cs i - 1) = Some (?cs ! j)" using walk_lbound [OF j assms(1) i(1)] by (simp add: bound_claim_def)
      moreover have "c_Value (?cs ! j) = v (ti ?D ?cs i - 1)"
        using lbound_correct [OF j assms(1) i(1)] assms(3) lbound_ti [OF j assms(1) i(1)] e by (simp add: correct_def)
      ultimately show ?thesis by blast
    next
      case False
      then show ?thesis using lbound_exists [OF assms(1) i(1)] leaf_bounds(1) [OF u] by (simp add: ti_def)
    qed
    then have "r = v (ti ?D ?cs i)" using assms(5) True by (auto simp: step_result_ok_def Let_def)
    then show False using assms(4) True self cor u by (simp add: step_accepted_def Let_def pos_at_def i(2))
  next
    case False
    obtain j where j: "rbound ?cs i j" using rbound_exists [OF assms(1) i(1) i0] by blast
    note jt = rbound_ti [OF j assms(1) i(1)] and par = rbound_parity [OF j assms(1) i(1), of v]
    have h: "hi ?D (pos_at ?cs i) = ti ?D ?cs i + 1" using leaf_bounds(2) [OF u] by (simp add: ti_def)
    have b: "bound_claim g i (ti ?D ?cs i + 1) = Some (?cs ! j)" using walk_rbound [OF j assms(1) i(1)] h by (simp add: bound_claim_def)
    have "r = v (ti ?D ?cs i + 1)" using assms(5) False self cor by (simp add: step_result_ok_def Let_def)
    moreover have "correct v ?D ?cs j \<longleftrightarrow> even (depth_at ?cs i - depth_at ?cs j)" using par assms(3) by blast
    moreover have "correct v ?D ?cs j \<longleftrightarrow> c_Value (?cs ! j) = v (ti ?D ?cs i + 1)" using jt h by (simp add: correct_def)
    moreover have "even (depth_at ?cs i - unat (pos_depth (c_Position (?cs ! j)))) \<noteq> (r = c_Value (?cs ! j))"
      using assms(4) False b i(2) by (simp add: step_accepted_def Let_def)
    ultimately show False by (auto simp: depth_at_def [of ?cs j] pos_at_def)
  qed
qed

section \<open>The invariant\<close>

definition pending_ok :: "(int \<Rightarrow> hash) \<Rightarrow> nat \<Rightarrow> claim list \<Rightarrow> ('o, 'ch) action \<Rightarrow> bool" where
  "pending_ok v D cs a \<longleftrightarrow> target a < length cs \<and> counters v D cs (target a) \<and>
     a_IsAttack a = (\<not> correct v D cs (target a)) \<and>
     (a_Type a = ActionTypeMove \<longrightarrow> a_Value a = c_Value (reply v D cs (target a)))"

definition claims_ok :: "(int \<Rightarrow> hash) \<Rightarrow> nat \<Rightarrow> claim list \<Rightarrow> bool" where
  "claims_ok v D cs \<longleftrightarrow> legal D cs \<and> distinct (map claim_key cs) \<and>
     list_all (\<lambda>i. (c_Claimant (cs ! i) = challengerAddr \<longrightarrow> honest v D cs i) \<and> (i \<noteq> 0 \<longrightarrow> c_Claimant (cs ! i) \<noteq> 0) \<and>
       (c_CounteredBy (cs ! i) \<noteq> 0 \<longrightarrow> depth_at cs i = D \<and> \<not> honest v D cs i)) [0..<length cs]"

lemma claims_okD: "claims_ok v D cs \<Longrightarrow> i < length cs \<Longrightarrow> (c_Claimant (cs ! i) = challengerAddr \<longrightarrow> honest v D cs i) \<and> (i \<noteq> 0 \<longrightarrow> c_Claimant (cs ! i) \<noteq> 0) \<and>
    (c_CounteredBy (cs ! i) \<noteq> 0 \<longrightarrow> depth_at cs i = D \<and> \<not> honest v D cs i)"
  by (simp add: claims_ok_def list_all_iff)

lemma pending_grows: "grows cs cs' \<Longrightarrow> legal D cs \<Longrightarrow> pending_ok v D cs a \<Longrightarrow> pending_ok v D cs' a"
  using grows_at(5,6) [of cs cs' "target a" v D] grows_honest(2) [of cs cs' D "target a" v] growsD [of cs cs' "target a"]
  by (auto simp: pending_ok_def simp del: reply_sel)

lemma claims_ok_append:
  assumes "claims_ok v D cs" "move_accepted D cs i val att"
    "who = challengerAddr \<Longrightarrow> honest v D (cs @ [new_claim cs i val att who]) (length cs)" "who \<noteq> 0"
  shows "claims_ok v D (cs @ [new_claim cs i val att who])"
proof -
  let ?cs' = "cs @ [new_claim cs i val att who]"
  have l: "legal D cs" "distinct (map claim_key cs)" using assms(1) by (auto simp: claims_ok_def)
  have old: "(c_Claimant (?cs' ! j) = challengerAddr \<longrightarrow> honest v D ?cs' j) \<and> (j \<noteq> 0 \<longrightarrow> c_Claimant (?cs' ! j) \<noteq> 0) \<and>
      (c_CounteredBy (?cs' ! j) \<noteq> 0 \<longrightarrow> depth_at ?cs' j = D \<and> \<not> honest v D ?cs' j)" if "j < length cs" for j
    using claims_okD [OF assms(1) that] grows_honest(1) [OF grows_append l(1) that] pos_at_append [OF that] that by (simp add: nth_append)
  have "c_Claimant (?cs' ! length cs) = who" "c_CounteredBy (?cs' ! length cs) = 0" by (simp_all add: new_claim_def zero_claim_def)
  then show ?thesis
    using legal_append [OF l(1) assms(2)] distinct_append [OF l(2) assms(2)] old assms(3,4)
    by (simp add: claims_ok_def list_all_iff less_Suc_eq)
qed

lemma claims_ok_countered:
  assumes "claims_ok v D cs" "i < length cs" "depth_at cs i = D" "\<not> honest v D cs i"
  shows "claims_ok v D (set_countered cs i who)"
proof -
  let ?cs' = "set_countered cs i who"
  have l: "legal D cs" "distinct (map claim_key cs)" using assms(1) by (auto simp: claims_ok_def)
  have "(c_Claimant (?cs' ! j) = challengerAddr \<longrightarrow> honest v D ?cs' j) \<and> (j \<noteq> 0 \<longrightarrow> c_Claimant (?cs' ! j) \<noteq> 0) \<and>
      (c_CounteredBy (?cs' ! j) \<noteq> 0 \<longrightarrow> depth_at ?cs' j = D \<and> \<not> honest v D ?cs' j)" if j: "j < length cs" for j
  proof -
    note h = grows_honest(1) [OF grows_countered l(1) j, of v i who] grows_at(3) [OF grows_countered j, of i who]
    show ?thesis using claims_okD [OF assms(1) j] assms(3,4) j unfolding h
      by (cases "j = i") (simp_all add: set_countered_def)
  qed
  then show ?thesis using legal_countered [OF l(1)] distinct_countered [OF l(2)] by (simp add: claims_ok_def list_all_iff set_countered_def)
qed

lemma game_ok_new:
  "claims_ok v (unat d) cs \<Longrightarrow> 0 < unat d \<Longrightarrow> no_collisions kk (looked_up v (unat d) cs) \<Longrightarrow> game_ok kk v (unat d) (NewGameState kk cs d)"
  by (simp add: game_ok_def NewGameState_def claims_ok_def)

lemma not_honest_step:
  assumes "claims_ok v (unat d) cs" "0 < unat d" "step_accepted (NewGameState kk cs d) i att r"
    "step_result_ok v (NewGameState kk cs d) i att r"
  shows "i < length cs \<and> depth_at cs i = unat d \<and> \<not> honest v (unat d) cs i"
proof -
  have "i < length cs \<and> depth_at cs i = unat d" using assms(3) by (simp add: step_accepted_def NewGameState_def)
  moreover have "legal (unat d) cs" using assms(1) by (simp add: claims_ok_def)
  ultimately show ?thesis using honest_not_stepped [OF _ _ _ assms(3,4)] assms(2) by (auto simp: NewGameState_def)
qed

text \<open>Pending actions are replies.\<close>

lemma pending_new:
  assumes "game_ok kk v D g" "a \<in> set (honest_actions tr v g)"
  shows "pending_ok v D (g_claims g) a"
proof -
  obtain i where i: "i < length (g_claims g)" "honest_action tr v g i = Some a"
    using assms(2) by (auto simp: honest_actions_def List.map_filter_def)
  note a = honest_action_acts [OF assms(1) i]
  have "target a = i" using acts_parent(2) [OF assms(1) a] by (simp add: target_def)
  then show ?thesis using a i(1) by (auto simp: pending_ok_def acts_on_def split: if_splits)
qed

context honest_trace
begin

lemma play_step_grows: "play_step kk' tr' v' d s s' \<Longrightarrow> grows (fst s) (fst s')"
  by (induction rule: play_step.induct) (auto simp: grows_append grows_countered grows_refl)

lemma play_step_ok:
  assumes "play_step kk tr v d s s'" "unat d = D" "0 < D" "no_collisions kk (looked_up v D (fst s))"
    "claims_ok v D (fst s) \<and> list_all (pending_ok v D (fst s)) (snd s)"
  shows "claims_ok v D (fst s') \<and> list_all (pending_ok v D (fst s')) (snd s')"
proof -
  have l: "legal D (fst s)" using assms(5) by (simp add: claims_ok_def)
  have pend: "list_all (pending_ok v D (fst s')) (snd s)"
    using assms(5) pending_grows [OF play_step_grows [OF assms(1)] l] by (auto simp: list_all_iff)
  show ?thesis
    using assms(1)
  proof cases
    case (other_move cs i val att who ps)
    then show ?thesis using claims_ok_append [of v D cs i val att who] assms(2,5) pend by simp
  next
    case (other_step g cs i att r who ps)
    then have "i < length cs \<and> depth_at cs i = D \<and> \<not> honest v D cs i"
      using not_honest_step [of v d cs kk i att r] assms(2,3,5) by simp
    then show ?thesis using claims_ok_countered [of v D cs i who] assms(5) pend other_step by simp
  next
    case (act cs as err ps)
    have g: "game_ok kk v D (NewGameState kk cs d)" using game_ok_new [of v d cs kk] assms act by simp
    then have "as = honest_actions tr v (NewGameState kk cs d)"
      using CalculateNextActions_strategy [OF g] act by (simp add: NewGameState_def)
    then have "list_all (pending_ok v D cs) as" using pending_new [OF g] by (auto simp: list_all_iff NewGameState_def)
    then show ?thesis using act assms(5) by simp
  next
    case (perform_move a ps cs)
    then have p: "pending_ok v D cs a" using assms(5) by (auto simp: list_all_iff)
    have "honest v D (cs @ [new_claim cs (target a) (a_Value a) (a_IsAttack a) challengerAddr]) (length cs)"
      using reply_becomes_honest [of D cs "target a" v challengerAddr] p perform_move l assms(2) by (simp add: pending_ok_def del: reply_sel)
    then show ?thesis using claims_ok_append [of v D cs "target a" "a_Value a" "a_IsAttack a" challengerAddr] challenger_nonzero perform_move assms(2,5) pend by simp
  next
    case (perform_step a ps g cs r)
    then have "target a < length cs \<and> depth_at cs (target a) = D \<and> \<not> honest v D cs (target a)"
      using not_honest_step [of v d cs kk "target a" "a_IsAttack a" r] assms(2,3,5) by simp
    then show ?thesis using claims_ok_countered [of v D cs "target a" challengerAddr] assms(5) pend perform_step by simp
  qed
qed

lemma start_ok: "start_claims v D cs \<Longrightarrow> D < 2 ^ 64 \<Longrightarrow> claims_ok v D cs"
  by (auto simp: start_claims_def claims_ok_def legal_def legal_claim_def pos_at_def split: list.splits)

lemma plays_ok:
  "plays kk tr v d s \<Longrightarrow> unat d = D \<Longrightarrow> 0 < D \<Longrightarrow> no_collisions kk (looked_up v D (fst s)) \<Longrightarrow>
   claims_ok v D (fst s) \<and> list_all (pending_ok v D (fst s)) (snd s)"
proof (induction rule: plays.induct)
  case (start cs)
  then show ?case using start_ok [of cs] unat_bounds(3) [of d] by simp
next
  case (step s s')
  note nc = no_collisions_grow [OF play_step_grows [OF step.hyps(2)] step.prems(3)]
  show ?case using play_step_ok [OF step.hyps(2) step.prems(1,2) nc step.IH [OF step.prems(1,2) nc]] .
qed

end

end
