(* ===== verification/FaultResolve.thy ===== *)
theory FaultResolve
  imports FaultWalk
begin

text \<open>
  How a game ends: \<open>op-dispute-mon/mon/transform/tree.go\<close> builds the tree of the claims and
  \<open>op-dispute-mon/mon/resolve.go\<close> resolves it from the leaves up. Pointers to claims are their places in
  the list.
\<close>

section \<open>The tree\<close>

record bidirectional_claim =
  bc_Claim :: claim
  bc_Children :: "nat list"

definition bidirectional :: "claim \<Rightarrow> bidirectional_claim" where
  "bidirectional c = \<lparr>bc_Claim = c, bc_Children = []\<rparr>"

text \<open>The loop of \<open>CreateBidirectionalTree\<close>, with the map from contract indices; a parent that is not in
  the map is a nil pointer.\<close>

fun tree_loop :: "claim list \<Rightarrow> (int \<Rightarrow> nat option) \<Rightarrow> bidirectional_claim list \<Rightarrow> bidirectional_claim list res" where
  "tree_loop [] m t = Ok t"
| "tree_loop (c # cs) m t =
     (let k = length t; m1 = m(c_ContractIndex c \<mapsto> k); t1 = t @ [bidirectional c] in
      if IsRoot c then tree_loop cs m1 t1
      else case m1 (c_ParentContractIndex c) of
          None \<Rightarrow> Panic ''nil pointer dereference''
        | Some p \<Rightarrow> tree_loop cs m1 (t1[p := (t1 ! p)\<lparr>bc_Children := bc_Children (t1 ! p) @ [k]\<rparr>]))"

definition CreateBidirectionalTree :: "claim list \<Rightarrow> bidirectional_claim list res" where
  "CreateBidirectionalTree claims = tree_loop claims Map.empty []"

section \<open>Resolution\<close>

datatype game_status = GameStatusInProgress | GameStatusChallengerWon | GameStatusDefenderWon

text \<open>The leftmost uncountered child so far, and who posted it.\<close>

definition better_counter :: "claim \<Rightarrow> address \<times> int option \<Rightarrow> address \<times> int option" where
  "better_counter child best =
     (if c_CounteredBy child \<noteq> 0 then best
      else case snd best of
          None \<Rightarrow> (c_Claimant child, Some (IndexAtDepth (c_Position child)))
        | Some l \<Rightarrow> if IndexAtDepth (c_Position child) < l then (c_Claimant child, Some (IndexAtDepth (c_Position child))) else best)"

definition counter_claimant :: "bidirectional_claim list \<Rightarrow> bidirectional_claim \<Rightarrow> address" where
  "counter_claimant t c = fst (fold (\<lambda>j. better_counter (bc_Claim (t ! j))) (bc_Children c) (c_CounteredBy (bc_Claim c), None))"

fun resolve_loop :: "nat \<Rightarrow> bidirectional_claim list \<Rightarrow> bidirectional_claim list" where
  "resolve_loop 0 t = t"
| "resolve_loop (Suc i) t =
     resolve_loop i (t[i := (t ! i)\<lparr>bc_Claim := (bc_Claim (t ! i))\<lparr>c_CounteredBy := counter_claimant t (t ! i)\<rparr>\<rparr>])"

text \<open>\<open>Resolve\<close>, with the resolved tree.\<close>

definition Resolve :: "bidirectional_claim list \<Rightarrow> game_status \<times> bidirectional_claim list" where
  "Resolve tree =
     (let t = resolve_loop (length tree) tree in
      (if t = [] \<or> c_CounteredBy (bc_Claim (t ! 0)) = 0 then GameStatusDefenderWon else GameStatusChallengerWon, t))"

section \<open>The tree of a legal game\<close>

definition children :: "claim list \<Rightarrow> nat \<Rightarrow> nat \<Rightarrow> nat list" where
  "children cs n i = filter (\<lambda>j. j \<noteq> 0 \<and> par cs j = i) [0..<n]"

definition tree_of :: "claim list \<Rightarrow> nat \<Rightarrow> bidirectional_claim list" where
  "tree_of cs n = map (\<lambda>i. \<lparr>bc_Claim = cs ! i, bc_Children = children cs n i\<rparr>) [0..<n]"

lemma tree_loop_legal:
  assumes "legal D cs"
  shows "n \<le> length cs \<Longrightarrow> tree_loop (drop n cs) (\<lambda>x. if 0 \<le> x \<and> x < int n then Some (nat x) else None) (tree_of cs n) = Ok (tree_of cs (length cs))"
proof (induction "length cs - n" arbitrary: n)
  case 0
  then show ?case by simp
next
  case (Suc k)
  then have n: "n < length cs" by simp
  have ih: "tree_loop (drop (Suc n) cs) (\<lambda>x. if 0 \<le> x \<and> x < int (Suc n) then Some (nat x) else None) (tree_of cs (Suc n)) =
      Ok (tree_of cs (length cs))"
    using Suc.hyps(1) [of "Suc n"] Suc.hyps(2) n by simp
  have m: "(\<lambda>x. if 0 \<le> x \<and> x < int n then Some (nat x) else None)(c_ContractIndex (cs ! n) \<mapsto> n) =
      (\<lambda>x. if 0 \<le> x \<and> x < int (Suc n) then Some (nat x) else None)"
    using legal_index [OF assms n] by (auto simp: fun_eq_iff)
  have new: "children cs (Suc n) i = (if n \<noteq> 0 \<and> par cs n = i then children cs n i @ [n] else children cs n i)" for i
    by (simp add: children_def)
  have "par cs j < n" if "j < n" "j \<noteq> 0" for j using legal_par [OF assms _ that(2)] that(1) n by fastforce
  then have "\<forall>j \<in> set [0..<n]. \<not> (j \<noteq> 0 \<and> par cs j = n)" by fastforce
  then have none: "children cs n n = []" unfolding children_def filter_empty_conv .
  show ?case
  proof (cases "n = 0")
    case True
    have "tree_of cs (Suc n) = tree_of cs n @ [bidirectional (cs ! n)]"
      using True new none by (simp add: tree_of_def bidirectional_def children_def)
    then show ?thesis using ih m n True IsRoot_at [OF assms n]
      unfolding Cons_nth_drop_Suc [OF n, symmetric] by (simp add: tree_of_def Let_def)
  next
    case False
    note p = legal_par [OF assms n False]
    let ?t = "tree_of cs n @ [bidirectional (cs ! n)]" and ?p = "par cs n"
    have l: "length (tree_of cs n) = n" by (simp add: tree_of_def)
    have "?t[?p := (?t ! ?p)\<lparr>bc_Children := bc_Children (?t ! ?p) @ [n]\<rparr>] = tree_of cs (Suc n)"
    proof (rule nth_equalityI)
      show "length (?t[?p := (?t ! ?p)\<lparr>bc_Children := bc_Children (?t ! ?p) @ [n]\<rparr>]) = length (tree_of cs (Suc n))"
        by (simp add: tree_of_def)
      fix i assume "i < length (?t[?p := (?t ! ?p)\<lparr>bc_Children := bc_Children (?t ! ?p) @ [n]\<rparr>])"
      then have "i \<le> n" using l by simp
      then show "?t[?p := (?t ! ?p)\<lparr>bc_Children := bc_Children (?t ! ?p) @ [n]\<rparr>] ! i = tree_of cs (Suc n) ! i"
        using p False new none l
        by (cases "i = ?p"; cases "i = n") (auto simp: tree_of_def nth_append bidirectional_def nth_Cons' simp del: upt_Suc)
    qed
    moreover have "(if 0 \<le> int ?p \<and> int ?p < int (Suc n) then Some (nat (int ?p)) else None) = Some ?p" using p by simp
    ultimately show ?thesis using ih m n False IsRoot_at [OF assms n] p l legal_index [OF assms n]
      by (simp add: Cons_nth_drop_Suc [symmetric] Let_def)
  qed
qed

lemma CreateBidirectionalTree_legal: "legal D cs \<Longrightarrow> CreateBidirectionalTree cs = Ok (tree_of cs (length cs))"
proof -
  have "(\<lambda>x. if 0 \<le> x \<and> x < int 0 then Some (nat x) else None) = Map.empty" by auto
  then show "legal D cs \<Longrightarrow> CreateBidirectionalTree cs = Ok (tree_of cs (length cs))"
    using tree_loop_legal [of D cs 0] by (simp add: CreateBidirectionalTree_def tree_of_def)
qed

section \<open>The resolved claims\<close>

definition pick :: "(nat \<Rightarrow> claim) \<Rightarrow> nat list \<Rightarrow> address \<Rightarrow> address" where
  "pick f js a = fst (fold (\<lambda>j. better_counter (f j)) js (a, None))"

lemma counter_claimant_pick: "counter_claimant t c = pick (\<lambda>j. bc_Claim (t ! j)) (bc_Children c) (c_CounteredBy (bc_Claim c))"
  by (simp add: counter_claimant_def pick_def)

lemma pick_cong: "(\<And>j. j \<in> set js \<Longrightarrow> f j = g j) \<Longrightarrow> pick f js a = pick g js a"
  unfolding pick_def by (intro arg_cong [where f = fst] fold_cong fun_cong [OF refl]) auto

lemma resolve_loop_spec:
  assumes "\<And>i j. i < length t \<Longrightarrow> j \<in> set (bc_Children (t ! i)) \<Longrightarrow> i < j"
  shows "m \<le> length t \<Longrightarrow> length (resolve_loop m t) = length t \<and> (\<forall>i. m \<le> i \<longrightarrow> resolve_loop m t ! i = t ! i) \<and>
    (\<forall>i < m. resolve_loop m t ! i = (t ! i)\<lparr>bc_Claim := (bc_Claim (t ! i))\<lparr>c_CounteredBy :=
      pick (\<lambda>j. bc_Claim (resolve_loop m t ! j)) (bc_Children (t ! i)) (c_CounteredBy (bc_Claim (t ! i)))\<rparr>\<rparr>)"
  using assms
proof (induction m arbitrary: t)
  case 0
  then show ?case by simp
next
  case (Suc m)
  define t1 where "t1 = t[m := (t ! m)\<lparr>bc_Claim := (bc_Claim (t ! m))\<lparr>c_CounteredBy := counter_claimant t (t ! m)\<rparr>\<rparr>]"
  have l: "length t1 = length t" and old: "\<And>i. i \<noteq> m \<Longrightarrow> t1 ! i = t ! i" by (simp_all add: t1_def)
  have ch: "bc_Children (t1 ! i) = bc_Children (t ! i)" for i
    using Suc.prems(1) by (cases "i = m") (simp_all add: t1_def)
  have new: "t1 ! m = (t ! m)\<lparr>bc_Claim := (bc_Claim (t ! m))\<lparr>c_CounteredBy := counter_claimant t (t ! m)\<rparr>\<rparr>"
    using Suc.prems(1) by (simp add: t1_def)
  have ih: "length (resolve_loop m t1) = length t1 \<and> (\<forall>i. m \<le> i \<longrightarrow> resolve_loop m t1 ! i = t1 ! i) \<and>
    (\<forall>i < m. resolve_loop m t1 ! i = (t1 ! i)\<lparr>bc_Claim := (bc_Claim (t1 ! i))\<lparr>c_CounteredBy :=
      pick (\<lambda>j. bc_Claim (resolve_loop m t1 ! j)) (bc_Children (t1 ! i)) (c_CounteredBy (bc_Claim (t1 ! i)))\<rparr>\<rparr>)"
    using Suc.IH [of t1] Suc.prems l ch by simp
  have "counter_claimant t (t ! m) = pick (\<lambda>j. bc_Claim (resolve_loop m t1 ! j)) (bc_Children (t ! m)) (c_CounteredBy (bc_Claim (t ! m)))"
    unfolding counter_claimant_pick
  proof (rule pick_cong)
    fix j assume "j \<in> set (bc_Children (t ! m))"
    then have "m < j" using Suc.prems by simp
    then show "bc_Claim (t ! j) = bc_Claim (resolve_loop m t1 ! j)" using ih old [of j] by simp
  qed
  moreover have "resolve_loop (Suc m) t = resolve_loop m t1" by (simp add: t1_def)
  ultimately show ?case using ih l old new by (auto simp: less_Suc_eq)
qed

text \<open>The resolved claims of a legal game are its claims, with the address that counters them.\<close>

definition resolved :: "claim list \<Rightarrow> nat \<Rightarrow> claim" where
  "resolved cs i = bc_Claim (snd (Resolve (tree_of cs (length cs))) ! i)"

lemma resolved_legal:
  assumes "legal D cs" "i < length cs"
  shows "resolved cs i = (cs ! i)\<lparr>c_CounteredBy := pick (resolved cs) (children cs (length cs) i) (c_CounteredBy (cs ! i))\<rparr>"
proof -
  let ?t = "tree_of cs (length cs)"
  have l: "length ?t = length cs" by (simp add: tree_of_def)
  have "a < b" if "a < length ?t" "b \<in> set (bc_Children (?t ! a))" for a b
    using that legal_par [OF assms(1), of b] by (auto simp: tree_of_def children_def)
  from resolve_loop_spec [OF this, where m = "length cs"] l
  have "resolve_loop (length cs) ?t ! i = (?t ! i)\<lparr>bc_Claim := (bc_Claim (?t ! i))\<lparr>c_CounteredBy :=
      pick (\<lambda>j. bc_Claim (resolve_loop (length cs) ?t ! j)) (bc_Children (?t ! i)) (c_CounteredBy (bc_Claim (?t ! i)))\<rparr>\<rparr>"
    using assms(2) by simp
  moreover have "(\<lambda>j. bc_Claim (resolve_loop (length cs) ?t ! j)) = resolved cs"
    by (simp add: fun_eq_iff resolved_def Resolve_def Let_def l)
  ultimately have "bc_Claim (resolve_loop (length cs) ?t ! i) =
      (cs ! i)\<lparr>c_CounteredBy := pick (resolved cs) (children cs (length cs) i) (c_CounteredBy (cs ! i))\<rparr>"
    using assms(2) by (simp add: tree_of_def)
  then show ?thesis by (simp add: resolved_def Resolve_def Let_def l)
qed

lemma Resolve_legal:
  assumes "legal D cs"
  shows "fst (Resolve (tree_of cs (length cs))) = (if c_CounteredBy (resolved cs 0) = 0 then GameStatusDefenderWon else GameStatusChallengerWon)"
proof -
  let ?t = "tree_of cs (length cs)"
  have l: "length ?t = length cs" "cs \<noteq> []" using assms by (simp_all add: tree_of_def legal_def)
  have "a < b" if "a < length ?t" "b \<in> set (bc_Children (?t ! a))" for a b
    using that legal_par [OF assms(1), of b] by (auto simp: tree_of_def children_def)
  from resolve_loop_spec [OF this, where m = "length cs"] have "length (resolve_loop (length cs) ?t) = length cs" using l by simp
  then have "resolve_loop (length cs) ?t \<noteq> []" using l(2) by auto
  then show ?thesis by (simp add: Resolve_def resolved_def Let_def l)
qed

section \<open>Who counters a claim\<close>

lemma better_counter_simps [simp]:
  "c_CounteredBy c \<noteq> 0 \<Longrightarrow> better_counter c best = best"
  "c_CounteredBy c = 0 \<Longrightarrow> better_counter c (a, None) = (c_Claimant c, Some (IndexAtDepth (c_Position c)))"
  "c_CounteredBy c = 0 \<Longrightarrow> better_counter c (a, Some l) =
    (if IndexAtDepth (c_Position c) < l then (c_Claimant c, Some (IndexAtDepth (c_Position c))) else (a, Some l))"
  by (simp_all add: better_counter_def)

lemma fold_better_countered:
  "(\<And>j. j \<in> set js \<Longrightarrow> c_CounteredBy (f j) \<noteq> 0) \<Longrightarrow> fold (\<lambda>j. better_counter (f j)) js best = best"
  by (induction js arbitrary: best) simp_all

lemma pick_countered: "(\<And>j. j \<in> set js \<Longrightarrow> c_CounteredBy (f j) \<noteq> 0) \<Longrightarrow> pick f js a = a"
  by (simp add: pick_def fold_better_countered)

text \<open>The best so far comes from an uncountered child, and no uncountered child is further left.\<close>

lemma fold_better_some:
  assumes "j0 \<in> set js" "c_CounteredBy (f j0) = 0"
  shows "\<exists>j \<in> set js. c_CounteredBy (f j) = 0 \<and> (\<forall>k \<in> set js. c_CounteredBy (f k) = 0 \<longrightarrow>
      IndexAtDepth (c_Position (f j)) \<le> IndexAtDepth (c_Position (f k))) \<and>
    fold (\<lambda>j. better_counter (f j)) js (a, None) = (c_Claimant (f j), Some (IndexAtDepth (c_Position (f j))))"
  using assms
proof (induction js arbitrary: j0 rule: rev_induct)
  case Nil
  then show ?case by simp
next
  case (snoc x js)
  show ?case
  proof (cases "\<exists>k \<in> set js. c_CounteredBy (f k) = 0")
    case False
    then have "fold (\<lambda>j. better_counter (f j)) js (a, None) = (a, None)" by (simp add: fold_better_countered)
    then show ?thesis using snoc.prems False by auto
  next
    case True
    then obtain j where j: "j \<in> set js" "c_CounteredBy (f j) = 0"
      "\<forall>k \<in> set js. c_CounteredBy (f k) = 0 \<longrightarrow> IndexAtDepth (c_Position (f j)) \<le> IndexAtDepth (c_Position (f k))"
      "fold (\<lambda>j. better_counter (f j)) js (a, None) = (c_Claimant (f j), Some (IndexAtDepth (c_Position (f j))))"
      using snoc.IH by blast
    show ?thesis
    proof (cases "c_CounteredBy (f x) = 0 \<and> IndexAtDepth (c_Position (f x)) < IndexAtDepth (c_Position (f j))")
      case True
      then show ?thesis using j by (intro bexI [of _ x]) force+
    next
      case False
      then show ?thesis using j by (cases "c_CounteredBy (f x) = 0"; intro bexI [of _ j]) auto
    qed
  qed
qed

lemma pick_uncountered:
  "j0 \<in> set js \<Longrightarrow> c_CounteredBy (f j0) = 0 \<Longrightarrow> \<exists>j \<in> set js. c_CounteredBy (f j) = 0 \<and> pick f js a = c_Claimant (f j) \<and>
    (\<forall>k \<in> set js. c_CounteredBy (f k) = 0 \<longrightarrow> IndexAtDepth (c_Position (f j)) \<le> IndexAtDepth (c_Position (f k)))"
  using fold_better_some [of j0 js f a] by (auto simp: pick_def)

end
