(* ===== verification/FaultWins.thy ===== *)
theory FaultWins
  imports FaultPlay FaultResolve
begin

text \<open>
  What the challenger achieves: the four checks of \<open>op-challenger/game/fault/solver/game_rules_test.go\<close>,
  for every play, once it has nothing left to do. The right side wins the game, no claim of the challenger
  is countered, it is paid the bond of every claim that it counters, and it never counters a claim twice.
\<close>

section \<open>Children\<close>

lemma children_iff: "j \<in> set (children cs (length cs) i) \<longleftrightarrow> j < length cs \<and> j \<noteq> 0 \<and> par cs j = i"
  by (auto simp: children_def)

lemma claims_ok_legal: "claims_ok v D cs \<Longrightarrow> legal D cs"
  by (simp add: claims_ok_def)

lemma resolved_fields:
  "legal D cs \<Longrightarrow> i < length cs \<Longrightarrow> c_Claimant (resolved cs i) = c_Claimant (cs ! i) \<and> c_Position (resolved cs i) = pos_at cs i"
  by (subst resolved_legal, assumption+, simp)+ (simp add: pos_at_def)

lemma resolved_countered:
  "legal D cs \<Longrightarrow> i < length cs \<Longrightarrow>
   c_CounteredBy (resolved cs i) = pick (resolved cs) (children cs (length cs) i) (c_CounteredBy (cs ! i))"
  by (subst resolved_legal) simp_all

lemma honest_key_unique:
  assumes "legal D cs" "distinct (map claim_key cs)" "j < length cs" "k < length cs" "j \<noteq> 0" "k \<noteq> 0"
    "honest v D cs j" "honest v D cs k" "par cs j = par cs k"
  shows "j = k"
proof -
  have "claim_key (cs ! j) = claim_key (cs ! k)"
    using stance_Suc(1) [OF assms(1,3,5), of v] stance_Suc(1) [OF assms(1,4,6), of v] assms(7-9)
      legal_par [OF assms(1,3,5)] legal_par [OF assms(1,4,6)] by (simp add: claim_key_def pos_at_def del: reply_sel)
  then show ?thesis using nth_eq_iff_index_eq [OF assms(2), of j k] assms(3,4) by simp
qed

section \<open>A game with nothing left to do\<close>

definition all_answered :: "(int \<Rightarrow> hash) \<Rightarrow> nat \<Rightarrow> claim list \<Rightarrow> bool" where
  "all_answered v D cs \<longleftrightarrow> list_all (\<lambda>i. counters v D cs i \<longrightarrow>
     (if depth_at cs i < D then answered v D cs i else c_CounteredBy (cs ! i) \<noteq> 0)) [0..<length cs]"

lemma all_answeredD: "all_answered v D cs \<Longrightarrow> i < length cs \<Longrightarrow> counters v D cs i \<Longrightarrow>
    (if depth_at cs i < D then answered v D cs i else c_CounteredBy (cs ! i) \<noteq> 0)"
  by (simp add: all_answered_def list_all_iff)

text \<open>Honest claims stand, countered ones fall.\<close>

lemma resolution:
  assumes "claims_ok v D cs" "all_answered v D cs"
  shows "i < length cs \<Longrightarrow> (honest v D cs i \<longrightarrow> c_CounteredBy (resolved cs i) = 0) \<and>
    (counters v D cs i \<longrightarrow> c_CounteredBy (resolved cs i) \<noteq> 0)"
proof (induction "length cs - i" arbitrary: i rule: less_induct)
  case less
  note l = claims_ok_legal [OF assms(1)] and i = less.prems
  have ih: "(honest v D cs j \<longrightarrow> c_CounteredBy (resolved cs j) = 0) \<and> (counters v D cs j \<longrightarrow> c_CounteredBy (resolved cs j) \<noteq> 0)"
    if "j \<in> set (children cs (length cs) i)" for j
  proof -
    have j: "j < length cs" "j \<noteq> 0" "par cs j = i" using that by (auto simp: children_iff)
    then have "i < j" using legal_par [OF l j(1,2)] by simp
    then show ?thesis using less.hyps [of j] j(1) by (simp add: diff_less_mono2)
  qed
  note r = resolved_countered [OF l i]
  show ?case
  proof (intro conjI impI)
    assume h: "honest v D cs i"
    have "counters v D cs j" if "j \<in> set (children cs (length cs) i)" for j
      using that stance_Suc [OF l, of j v] h honest_not_counters [OF l i] by (auto simp: children_iff)
    then have "pick (resolved cs) (children cs (length cs) i) (c_CounteredBy (cs ! i)) = c_CounteredBy (cs ! i)"
      using ih by (intro pick_countered) blast
    then show "c_CounteredBy (resolved cs i) = 0" using r claims_okD [OF assms(1) i] h by auto
  next
    assume c: "counters v D cs i"
    show "c_CounteredBy (resolved cs i) \<noteq> 0"
    proof (cases "depth_at cs i < D")
      case True
      then obtain j where j: "j < length cs" "claim_key (cs ! j) = claim_key (reply v D cs i)"
        using all_answeredD [OF assms(2) i c] by (auto simp: answered_iff)
      then have hj: "j \<noteq> 0" "par cs j = i" "honest v D cs j" using key_reply_honest [OF l j(1) i True c] by auto
      then have mem: "j \<in> set (children cs (length cs) i)" using j(1) by (simp add: children_iff)
      have "c_CounteredBy (resolved cs j) = 0" using ih [OF mem] hj by blast
      from pick_uncountered [where f = "resolved cs", OF mem this, of "c_CounteredBy (cs ! i)"]
      obtain k where "k \<in> set (children cs (length cs) i)"
        "pick (resolved cs) (children cs (length cs) i) (c_CounteredBy (cs ! i)) = c_Claimant (resolved cs k)" by blast
      then show ?thesis using r resolved_fields [OF l, of k] claims_okD [OF assms(1), of k] by (auto simp: children_iff)
    next
      case False
      have "children cs (length cs) i = []"
        using depth_Suc [OF l] legal_depth [OF l] False by (auto simp: children_def filter_empty_conv depth_at_def) (metis Suc_le_lessD)
      then show ?thesis using r all_answeredD [OF assms(2) i c] False by (simp add: pick_def)
    qed
  qed
qed

text \<open>An honest claim is the leftmost that counters its parent.\<close>

lemma honest_counters_parent:
  assumes "claims_ok v D cs" "all_answered v D cs" "j < length cs" "j \<noteq> 0" "honest v D cs j"
  shows "c_CounteredBy (resolved cs (par cs j)) = c_Claimant (cs ! j)"
proof -
  let ?i = "par cs j"
  note l = claims_ok_legal [OF assms(1)]
  note p = legal_par [OF l assms(3,4)]
  have i: "?i < length cs" using p assms(3) by simp
  have ci: "counters v D cs ?i" using honest_cases [OF l assms(3-5)] by simp
  have mem: "j \<in> set (children cs (length cs) ?i)" using assms(3,4) by (simp add: children_iff)
  have "c_CounteredBy (resolved cs j) = 0" using resolution [OF assms(1-3)] assms(5) by blast
  from pick_uncountered [where f = "resolved cs", OF mem this, of "c_CounteredBy (cs ! ?i)"]
  obtain k where k: "k \<in> set (children cs (length cs) ?i)" "c_CounteredBy (resolved cs k) = 0"
    "pick (resolved cs) (children cs (length cs) ?i) (c_CounteredBy (cs ! ?i)) = c_Claimant (resolved cs k)"
    "IndexAtDepth (c_Position (resolved cs k)) \<le> IndexAtDepth (c_Position (resolved cs j))"
    using mem \<open>c_CounteredBy (resolved cs j) = 0\<close> by blast
  have kl: "k < length cs" "k \<noteq> 0" "par cs k = ?i" using k(1) by (auto simp: children_iff)
  have d: "depth_at cs k = depth_at cs j" using depth_Suc [OF l kl(1,2)] depth_Suc [OF l assms(3,4)] kl(3) by simp
  have "IndexAtDepth (pos_at cs k) + 1 \<le> IndexAtDepth (pos_at cs j) + 1"
    using k(4) resolved_fields [OF l kl(1)] resolved_fields [OF l assms(3)] by simp
  from mult_right_mono [OF this, of "2 ^ (D - depth_at cs j)"] have "ti D cs k \<le> ti D cs j"
    unfolding ti_def trace_idx_def depth_at_def [symmetric] d by (rule diff_right_mono) simp
  also have "ti D cs j = trace_idx D (c_Position (reply v D cs ?i))"
    using stance_Suc(1) [OF l assms(3,4), of v] assms(5) by (simp add: ti_def)
  finally have "\<not> honest v D cs k \<Longrightarrow> counters v D cs k" using stance_Suc(2) [OF l kl(1,2), of v] ci kl(3) by simp
  then have "honest v D cs k" using resolution [OF assms(1,2) kl(1)] k(2) by blast
  then have "k = j" using honest_key_unique [OF l _ kl(1) assms(3) kl(2) assms(4) _ assms(5)] assms(1) kl(3) by (simp add: claims_ok_def)
  then show ?thesis using k(3) resolved_countered [OF l i] resolved_fields [OF l assms(3)] by simp
qed

section \<open>Plays\<close>

context honest_trace
begin

lemma quiet_all_answered:
  assumes "game_ok kk v D g" "CalculateNextActions kk tr (g_depth g) g = Ok ([], err)"
  shows "all_answered v D (g_claims g)"
proof -
  have "honest_actions tr v g = []" using CalculateNextActions_strategy [OF assms(1)] assms(2) by simp
  then have none: "honest_action tr v g i = None" if "i < length (g_claims g)" for i
    using that by (cases "honest_action tr v g i") (auto simp: honest_actions_def List.map_filter_def filter_empty_conv)
  have "if depth_at (g_claims g) i < D then answered v D (g_claims g) i else c_CounteredBy (g_claims g ! i) \<noteq> 0"
    if i: "i < length (g_claims g)" and c: "counters v D (g_claims g) i" for i
  proof (cases "depth_at (g_claims g) i < D")
    case True
    then show ?thesis using none [OF i] c game_okD [OF assms(1)] by (auto simp: honest_action_def Let_def split: if_splits)
  next
    case False
    have d: "depth_at (g_claims g) i = D"
      using False legal_depth [of D "g_claims g" i] game_okD [OF assms(1)] i by (simp add: depth_at_def)
    obtain x where "ta_GetStepData tr g (g_claims g ! i) (step_position v D (g_claims g) i) = Ok x"
      using step_data [of "step_position v D (g_claims g) i" g] step_position_ok [OF assms(1) i d] by blast
    then show ?thesis using none [OF i] c game_okD [OF assms(1)] d by (auto simp: honest_action_def Let_def split: if_splits prod.splits)
  qed
  then show ?thesis by (simp add: all_answered_def list_all_iff)
qed

lemma play_game_ok:
  assumes "plays kk tr v d (cs, ps)" "unat d = D" "0 < D" "no_collisions kk (looked_up v D cs)"
  shows "claims_ok v D cs" "game_ok kk v D (NewGameState kk cs d)"
proof -
  show c: "claims_ok v D cs" using plays_ok [OF assms(1-3)] assms(4) by simp
  show "game_ok kk v D (NewGameState kk cs d)" using game_ok_new [of v d cs kk] c assms(2-4) by simp
qed

lemma play_actions_keep_rules:
  assumes "plays kk tr v d (cs, ps)" "unat d = D" "0 < D" "no_collisions kk (looked_up v D cs)" "provides v D pr"
  shows "CalculateNextActions kk tr d (NewGameState kk cs d) = Ok (honest_actions tr v (NewGameState kk cs d), None) \<and>
    list_all (\<lambda>a. checkRules kk (NewGameState kk cs d) a pr) (honest_actions tr v (NewGameState kk cs d))"
proof -
  let ?g = "NewGameState kk cs d"
  note c = play_game_ok [OF assms(1-4)]
  have gc: "g_claims ?g = cs" "g_depth ?g = d" by (simp_all add: NewGameState_def)
  have "checkRules kk ?g a pr" if "i < length cs" "honest_action tr v ?g i = Some a" for i a
    using rules_kept [OF c(2) _ that(2) assms(5)] claims_okD [OF c(1) that(1)] that(1) gc by (auto simp: less_irrefl)
  then show ?thesis using CalculateNextActions_strategy [OF c(2)] gc
    by (auto simp: list_all_iff honest_actions_def List.map_filter_def)
qed

lemma play_outcome:
  assumes "plays kk tr v d (cs, ps)" "unat d = D" "0 < D" "no_collisions kk (looked_up v D cs)"
    "CalculateNextActions kk tr d (NewGameState kk cs d) = Ok ([], err)"
  shows "CreateBidirectionalTree cs = Ok (tree_of cs (length cs)) \<and>
    fst (Resolve (tree_of cs (length cs))) = (if c_Value (cs ! 0) = v (2 ^ D - 1) then GameStatusDefenderWon else GameStatusChallengerWon) \<and>
    list_all (\<lambda>i. c_Claimant (cs ! i) = challengerAddr \<longrightarrow> c_CounteredBy (resolved cs i) = 0 \<and>
      (i \<noteq> 0 \<longrightarrow> c_CounteredBy (resolved cs (par cs i)) = challengerAddr)) [0..<length cs]"
proof -
  note c = play_game_ok [OF assms(1-4)]
  have l: "legal D cs" "0 < length cs" using claims_ok_legal [OF c(1)] by (auto simp: legal_def)
  have aa: "all_answered v D cs" using quiet_all_answered [OF c(2), of err] assms(5) by (simp add: NewGameState_def)
  note res = resolution [OF c(1) aa]
  have "ti D cs 0 = 2 ^ D - 1" using legal_root [OF l(1)] by (simp add: ti_def trace_idx_def NewPosition_def)
  then have "c_CounteredBy (resolved cs 0) = 0 \<longleftrightarrow> c_Value (cs ! 0) = v (2 ^ D - 1)"
    using res [OF l(2)] by (auto simp: correct_def)
  then show ?thesis
    using CreateBidirectionalTree_legal [OF l(1)] Resolve_legal [OF l(1)] res claims_okD [OF c(1)] honest_counters_parent [OF c(1) aa]
    by (auto simp: list_all_iff)
qed

end

end
