(* ===== verification/FaultTrace.thy ===== *)
theory FaultTrace
  imports FaultActions
begin

text \<open>
  Where the values of a game come from: the accessor and the translated provider of
  \<open>op-challenger/game/fault/trace/access.go\<close> and \<open>translate.go\<close>, the alphabet provider
  (\<open>trace/alphabet\<close>) and the provider of output roots (\<open>trace/outputs/provider.go\<close>). Keccak and the
  rollup node are parameters. Step data carries the pre-image data of \<open>types.go\<close>.
\<close>

section \<open>Providers\<close>

record preimage_data =
  pd_IsLocal :: bool
  pd_OracleKey :: bytes
  pd_oracleData :: bytes
  pd_OracleOffset :: u32

text \<open>\<open>preimage.LocalKeyType\<close> is 1.\<close>

definition NewPreimageOracleData :: "bytes \<Rightarrow> bytes \<Rightarrow> u32 \<Rightarrow> preimage_data" where
  "NewPreimageOracleData key data offset = \<lparr>pd_IsLocal = (case key of [] \<Rightarrow> False | b # _ \<Rightarrow> b = 1),
     pd_OracleKey = key, pd_oracleData = data, pd_OracleOffset = offset\<rparr>"

text \<open>Slicing panics when the slice is too short.\<close>

definition GetIdent :: "preimage_data \<Rightarrow> int res" where
  "GetIdent p = guard_panic (1 \<le> length (pd_OracleKey p)) ''slice bounds out of range'' (Ok (int (be_decode (drop 1 (pd_OracleKey p)))))"

definition GetPreimageWithoutSize :: "preimage_data \<Rightarrow> bytes res" where
  "GetPreimageWithoutSize p = guard_panic (8 \<le> length (pd_oracleData p)) ''slice bounds out of range'' (Ok (drop 8 (pd_oracleData p)))"

definition GetPrecompileAddress :: "preimage_data \<Rightarrow> bytes res" where
  "GetPrecompileAddress p = guard_panic (28 \<le> length (pd_oracleData p)) ''slice bounds out of range'' (Ok (take 20 (drop 8 (pd_oracleData p))))"

definition GetPrecompileRequiredGas :: "preimage_data \<Rightarrow> u64 res" where
  "GetPrecompileRequiredGas p = guard_panic (36 \<le> length (pd_oracleData p)) ''slice bounds out of range''
     (Ok (un64 (take 8 (drop 28 (pd_oracleData p)))))"

definition GetPrecompileInput :: "preimage_data \<Rightarrow> bytes res" where
  "GetPrecompileInput p = guard_panic (36 \<le> length (pd_oracleData p)) ''slice bounds out of range'' (Ok (drop 36 (pd_oracleData p)))"

record ('o, 'ch) trace_provider =
  tp_Get :: "position \<Rightarrow> hash res"
  tp_GetStepData :: "position \<Rightarrow> (bytes \<times> bytes \<times> 'o) res"
  tp_AbsolutePreStateCommitment :: "hash res"
  tp_GetL2BlockNumberChallenge :: "'ch option res"

type_synonym ('o, 'ch) provider_selector = "game_state \<Rightarrow> claim \<Rightarrow> position \<Rightarrow> ('o, 'ch) trace_provider res"

definition NewAccessor :: "('o, 'ch) provider_selector \<Rightarrow> ('o, 'ch) trace_accessor" where
  "NewAccessor selector = \<lparr>
     ta_Get = (\<lambda>game ref pos. bind_res (selector game ref pos) (\<lambda>p. tp_Get p pos)),
     ta_GetStepData = (\<lambda>game ref pos. bind_res (selector game ref pos) (\<lambda>p. tp_GetStepData p pos)),
     ta_GetL2BlockNumberChallenge = (\<lambda>game. bind_res (index_res (g_claims game) 0) (\<lambda>root.
       bind_res (selector game root RootPosition) tp_GetL2BlockNumberChallenge))\<rparr>"

definition NewSimpleTraceAccessor :: "('o, 'ch) trace_provider \<Rightarrow> ('o, 'ch) trace_accessor" where
  "NewSimpleTraceAccessor trace = NewAccessor (\<lambda>_ _ _. Ok trace)"

definition Translate :: "('o, 'ch) trace_provider \<Rightarrow> u64 \<Rightarrow> ('o, 'ch) trace_provider" where
  "Translate p rootDepth = \<lparr>
     tp_Get = (\<lambda>pos. bind_res (RelativeToAncestorAtDepth pos rootDepth) (tp_Get p)),
     tp_GetStepData = (\<lambda>pos. bind_res (RelativeToAncestorAtDepth pos rootDepth) (tp_GetStepData p)),
     tp_AbsolutePreStateCommitment = tp_AbsolutePreStateCommitment p,
     tp_GetL2BlockNumberChallenge = tp_GetL2BlockNumberChallenge p\<rparr>"

section \<open>The alphabet\<close>

definition absolutePrestate :: bytes where
  "absolutePrestate = replicate 31 0 @ [0x60]"

definition absolutePrestateInt :: int where
  "absolutePrestateInt = int (be_decode absolutePrestate)"

definition hash_of_bytes :: "bytes \<Rightarrow> hash" where
  "hash_of_bytes bs = of_nat (be_decode bs)"

definition set_status :: "byte \<Rightarrow> hash \<Rightarrow> hash" where
  "set_status s h = hash_of_bytes (s # tl (hash_bytes h))"

definition alphabetStateHash :: "(bytes \<Rightarrow> hash) \<Rightarrow> bytes \<Rightarrow> hash" where
  "alphabetStateHash kk state = set_status 1 (kk state)"

text \<open>\<open>FillBytes\<close> panics when the number does not fit.\<close>

definition FillBytes32 :: "int \<Rightarrow> bytes res" where
  "FillBytes32 x = guard_panic (\<bar>x\<bar> < 2 ^ 256) ''math/big: buffer too small to fit value'' (Ok (be_encode 32 (nat \<bar>x\<bar>)))"

definition BuildAlphabetPreimage :: "int \<Rightarrow> int \<Rightarrow> bytes res" where
  "BuildAlphabetPreimage traceIndex claim =
     bind_res (FillBytes32 traceIndex) (\<lambda>a. bind_res (FillBytes32 claim) (\<lambda>b. Ok (a @ b)))"

text \<open>\<open>L2ClaimBlockNumberLocalIndex\<close> is 4; \<open>maxLen\<close> is a \<open>uint64\<close>, so 0 for 64 levels and more.\<close>

definition alphabet_GetStepData :: "int \<Rightarrow> u64 \<Rightarrow> position \<Rightarrow> (bytes \<times> bytes \<times> preimage_data) res" where
  "alphabet_GetStepData startingBlockNumber depth pos =
     bind_res (TraceIndex pos depth) (\<lambda>traceIndex.
     let key = 1 # replicate 23 0 @ be64 4;
         preimageData = NewPreimageOracleData key (big_Bytes startingBlockNumber) 0;
         maxLen = push_bit (unat depth) 1 :: u64
     in if traceIndex = 0 then Ok (absolutePrestate, [], preimageData)
        else guard_err (traceIndex \<le> uint maxLen) ''index is larger than the maximum index''
          (let initialTraceIndex = push_bit 4 startingBlockNumber;
               initialClaim = absolutePrestateInt + initialTraceIndex
           in bind_res (BuildAlphabetPreimage (initialTraceIndex + traceIndex) (initialClaim + traceIndex)) (\<lambda>pre.
              Ok (pre, [], preimageData))))"

definition alphabet_Get :: "(bytes \<Rightarrow> hash) \<Rightarrow> int \<Rightarrow> u64 \<Rightarrow> position \<Rightarrow> hash res" where
  "alphabet_Get kk startingBlockNumber depth i =
     guard_err (\<not> pos_depth i > depth) ''index is larger than the maximum index''
     (bind_res (TraceIndex i depth) (\<lambda>ti.
      bind_res (alphabet_GetStepData startingBlockNumber depth (NewPosition depth (ti + 1))) (\<lambda>(claimBytes, _, _).
      Ok (alphabetStateHash kk claimBytes))))"

definition NewAlphabetTraceProvider :: "(bytes \<Rightarrow> hash) \<Rightarrow> int \<Rightarrow> u64 \<Rightarrow> (preimage_data, 'ch) trace_provider" where
  "NewAlphabetTraceProvider kk startingBlockNumber depth = \<lparr>
     tp_Get = alphabet_Get kk startingBlockNumber depth,
     tp_GetStepData = alphabet_GetStepData startingBlockNumber depth,
     tp_AbsolutePreStateCommitment = Ok (set_status 3 (kk absolutePrestate)),
     tp_GetL2BlockNumberChallenge = Ok None\<rparr>"

section \<open>The alphabet is a correct trace\<close>

text \<open>The state before step \<open>t\<close>, for positive \<open>t\<close>, and the value of the trace after step \<open>n\<close>.\<close>

definition alphabet_state :: "int \<Rightarrow> int \<Rightarrow> bytes" where
  "alphabet_state s t = be_encode 32 (nat (16 * s + t)) @ be_encode 32 (nat (0x60 + 16 * s + t))"

definition alphabet_value :: "(bytes \<Rightarrow> hash) \<Rightarrow> int \<Rightarrow> int \<Rightarrow> hash" where
  "alphabet_value kk s n = alphabetStateHash kk (alphabet_state s (n + 1))"

lemma length_hash_bytes [simp]: "length (hash_bytes h) = 32"
  by (simp add: hash_bytes_def del: be_encode_numeral)

lemma hash_bytes_of: "length bs = 32 \<Longrightarrow> hash_bytes (hash_of_bytes bs) = bs"
proof -
  assume l: "length bs = 32"
  then have "be_decode bs < 2 ^ 256" using be_decode_bound [of bs] by simp
  then have "unat (hash_of_bytes bs) = be_decode bs" by (simp add: hash_of_bytes_def unat_of_nat)
  then show ?thesis using be_encode_decode [of bs] l by (simp add: hash_bytes_def del: be_encode_numeral)
qed

lemma tl_status: "tl (hash_bytes (set_status s h)) = tl (hash_bytes h)"
  unfolding set_status_def by (subst hash_bytes_of) simp_all

lemma absolutePrestateInt_96: "absolutePrestateInt = 0x60"
proof -
  have "be_decode (replicate 31 0 @ [0x60 :: byte]) = 96" unfolding be_decode_snoc be_decode_zeros by simp
  then show ?thesis by (simp add: absolutePrestateInt_def absolutePrestate_def)
qed

lemma alphabet_step:
  assumes "0 \<le> s" "16 * s < 2 ^ 255" "unat d < 64" "unat (pos_depth p) = unat d" "trace_idx (unat d) p = k" "0 \<le> k" "k \<le> 2 ^ unat d"
  shows "\<exists>pd. alphabet_GetStepData s d p = Ok (if k = 0 then absolutePrestate else alphabet_state s k, [], pd)"
proof -
  have t: "TraceIndex p d = Ok k" using TraceIndex_Ok [of p d] assms(4,5) by (simp add: word_le_nat_alt)
  have "uint (push_bit (unat d) 1 :: u64) = 2 ^ unat d"
    unfolding unsigned_push_bit_eq take_bit_push_bit using assms(3) by (simp add: push_bit_eq_mult)
  moreover have "(2 :: int) ^ unat d \<le> 2 ^ 64" using assms(3) by (intro power_increasing) auto
  then have "16 * s + k < 2 ^ 256 \<and> 0x60 + 16 * s + k < 2 ^ 256" using assms(2,7) by simp
  ultimately show ?thesis using t assms(1,6,7)
    by (simp add: alphabet_GetStepData_def Let_def push_bit_eq_mult absolutePrestateInt_96 BuildAlphabetPreimage_def FillBytes32_def
        alphabet_state_def algebra_simps del: be_encode_numeral)
qed

lemma trace_idx_bounds:
  assumes "pos_ok p" "unat (pos_depth p) \<le> D"
  shows "0 \<le> trace_idx D p" "trace_idx D p < 2 ^ D"
proof -
  note ok = pos_okD [OF assms(1)]
  have "2 ^ D = 2 ^ unat (pos_depth p) * (2 :: int) ^ (D - unat (pos_depth p))" using assms(2) by (simp flip: power_add)
  moreover have "(IndexAtDepth p + 1) * 2 ^ (D - unat (pos_depth p)) \<le> 2 ^ unat (pos_depth p) * (2 :: int) ^ (D - unat (pos_depth p))"
    using ok by (intro mult_right_mono) simp_all
  ultimately show "trace_idx D p < 2 ^ D" unfolding trace_idx_def by linarith
  have "1 * 1 \<le> (IndexAtDepth p + 1) * 2 ^ (D - unat (pos_depth p))" using ok by (intro mult_mono) simp_all
  then show "0 \<le> trace_idx D p" by (simp add: trace_idx_def)
qed

lemma alphabet_get:
  assumes "0 \<le> s" "16 * s < 2 ^ 255" "unat d < 64" "pos_ok p" "unat (pos_depth p) \<le> unat d"
  shows "alphabet_Get kk s d p = Ok (alphabet_value kk s (trace_idx (unat d) p))"
proof -
  let ?k = "trace_idx (unat d) p"
  note b = trace_idx_bounds [OF assms(4,5)]
  have le: "pos_depth p \<le> d" using assms(5) by (simp add: word_le_nat_alt)
  have "trace_idx (unat d) (NewPosition d x) = x" for x by (simp add: trace_idx_def NewPosition_def)
  then obtain pd where "alphabet_GetStepData s d (NewPosition d (?k + 1)) = Ok (alphabet_state s (?k + 1), [], pd)"
    using alphabet_step [OF assms(1-3), of "NewPosition d (?k + 1)" "?k + 1"] b by (auto simp: NewPosition_def)
  then show ?thesis using le TraceIndex_Ok [OF le] by (simp add: alphabet_Get_def alphabet_value_def not_less)
qed

abbreviation alphabet_accessor :: "(bytes \<Rightarrow> hash) \<Rightarrow> int \<Rightarrow> u64 \<Rightarrow> (preimage_data, 'ch) trace_accessor" where
  "alphabet_accessor kk s d \<equiv> NewSimpleTraceAccessor (NewAlphabetTraceProvider kk s d)"

lemma alphabet_honest:
  assumes "0 \<le> s" "16 * s < 2 ^ 255" "unat d < 64"
  shows "honest_trace kk (alphabet_accessor kk s d) (alphabet_value kk s) (unat d)"
proof
  fix p g c assume p: "pos_ok p" "unat (pos_depth p) \<le> unat d"
  show "ta_Get (alphabet_accessor kk s d) g c p = Ok (alphabet_value kk s (trace_idx (unat d) p))"
    using alphabet_get [OF assms p] by (simp add: NewSimpleTraceAccessor_def NewAccessor_def NewAlphabetTraceProvider_def)
next
  fix p g c assume p: "pos_ok p" "unat (pos_depth p) = unat d"
  note b = trace_idx_bounds [OF p(1) eq_imp_le [OF p(2)]]
  obtain pd where s: "alphabet_GetStepData s d p =
      Ok (if trace_idx (unat d) p = 0 then absolutePrestate else alphabet_state s (trace_idx (unat d) p), [], pd)"
    using alphabet_step [OF assms p(2) refl b(1)] b(2) by fastforce
  show "\<exists>pre pf od. ta_GetStepData (alphabet_accessor kk s d) g c p = Ok (pre, pf, od) \<and>
      (0 < trace_idx (unat d) p \<longrightarrow>
        tl (hash_bytes (kk pre)) = tl (hash_bytes (alphabet_value kk s (trace_idx (unat d) p - 1))))"
    using s by (auto simp: NewSimpleTraceAccessor_def NewAccessor_def NewAlphabetTraceProvider_def alphabet_value_def alphabetStateHash_def tl_status)
next
  fix g show "ta_GetL2BlockNumberChallenge (alphabet_accessor kk s d) g = Ok None" if "g_claims g \<noteq> []"
    using that by (simp add: NewSimpleTraceAccessor_def NewAccessor_def NewAlphabetTraceProvider_def index_res_def)
qed

text \<open>In particular for every starting block and every game of fewer than 64 levels.\<close>

lemma alphabet_block: "16 * uint (b :: u64) < 2 ^ 255"
proof -
  have "uint b < 2 ^ 64" using uint_lt2p [of b] by simp
  also have "(2 :: int) ^ 64 \<le> 2 ^ 251" by (rule power_increasing) simp_all
  finally show ?thesis by simp
qed

lemma depth6: "unat (ucast (k :: 6 word) :: u64) < 64"
proof -
  have "unat k < 64" using unsigned_less [of k, where 'a = nat] by simp
  then show ?thesis by (simp add: unsigned_ucast_eq take_bit_nat_eq_self)
qed


interpretation alphabet: honest_trace kk "alphabet_accessor kk (uint (b :: u64)) (ucast (k :: 6 word))" "alphabet_value kk (uint b)"
    "unat (ucast k :: u64)" for kk b k
  by (rule alphabet_honest [OF _ alphabet_block depth6]) simp

end
