(* ===== verification/FaultChallenger.thy ===== *)
theory FaultChallenger
  imports FaultWins FaultTrace
begin

text \<open>
  The properties of the challenger, and a small game on which they are checked: the alphabet trace, one
  level, and a root that claims a wrong value.
\<close>

section \<open>A small game\<close>

text \<open>A hash that tells the claims of the game apart.\<close>

definition sample_hash :: "bytes \<Rightarrow> hash" where
  "sample_hash bs = of_nat (unat (hd bs) * 65536 + length bs * 256 + unat (bs ! 32))"

definition sample_value :: "int \<Rightarrow> hash" where
  "sample_value = alphabet_value sample_hash 0"

definition sample_accessor :: "(preimage_data, unit) trace_accessor" where
  "sample_accessor = alphabet_accessor sample_hash 0 1"

definition sample_root :: claim where
  "sample_root = zero_claim\<lparr>c_Value := 5, c_Position := NewPosition 0 0, c_Claimant := 7\<rparr>"

definition sample_reply :: claim where
  "sample_reply = new_claim [sample_root] 0 (sample_value 0) True challengerAddr"

lemma sample_honest: "honest_trace sample_hash sample_accessor sample_value 1"
  using alphabet_honest [of 0 1 sample_hash] by (simp add: sample_accessor_def sample_value_def)

lemma sample_value_eq: "sample_value n = 0x0100000000000000000000000000000000000000000000000000000000004000" if "0 \<le> n" "n < 10"
proof -
  have "nat (n + 1) div 256 = 0" "nat (0x60 + (n + 1)) div 256 = 0" using that by auto
  then have "sample_hash (alphabet_state 0 (n + 1)) = 0x4000"
    by (simp add: sample_hash_def alphabet_state_def)
  then show ?thesis
    by (simp add: sample_value_def alphabet_value_def alphabetStateHash_def set_status_def hash_bytes_def hash_of_bytes_def be_decode_def)
qed

abbreviation sample_claims :: "claim list" where
  "sample_claims \<equiv> [sample_root, sample_reply]"

lemma sample_moves [simp]: "Attack (NewPosition 0 0) = NewPosition 1 0" "Defend (NewPosition 1 0) = NewPosition 2 2"
  by (simp_all add: NewPosition_def Attack_def Defend_def pos_parent_def parentIndexAtDepth_def pos_move_def lshIndex_def)

lemma sample_reply_eq: "sample_reply = zero_claim\<lparr>c_Value := sample_value 0, c_Position := NewPosition 1 0, c_Claimant := challengerAddr,
    c_ContractIndex := 1, c_ParentContractIndex := 0\<rparr>"
  by (simp add: sample_reply_def new_claim_def pos_at_def sample_root_def)

lemma sample_pos:
  "pos_at (sample_root # xs) 0 = NewPosition 0 0" "pos_at sample_claims (Suc 0) = NewPosition 1 0"
  "depth_at (sample_root # xs) 0 = 0" "depth_at sample_claims (Suc 0) = Suc 0" "par sample_claims (Suc 0) = 0"
  by (simp_all add: pos_at_def depth_at_def par_def sample_root_def sample_reply_eq NewPosition_def)

lemma sample_correct:
  "\<not> correct sample_value (Suc 0) (sample_root # xs) 0" "correct sample_value (Suc 0) sample_claims (Suc 0)"
  by (simp_all add: correct_def ti_def trace_idx_def sample_pos NewPosition_def sample_value_eq)
    (simp_all add: sample_root_def sample_reply_eq sample_value_eq)

lemma sample_replies:
  "reply sample_value (Suc 0) (sample_root # xs) 0 = zero_claim\<lparr>c_Value := sample_value 0, c_Position := NewPosition 1 0, c_ParentContractIndex := 0\<rparr>"
  "reply sample_value (Suc 0) sample_claims (Suc 0) = zero_claim\<lparr>c_Value := sample_value 2, c_Position := NewPosition 2 2, c_ParentContractIndex := 1\<rparr>"
proof -
  have "trace_idx (Suc 0) (NewPosition 1 0) = 0" "trace_idx (Suc 0) (NewPosition 2 2) = 2"
    by (simp_all add: trace_idx_def NewPosition_def)
  then show "reply sample_value (Suc 0) (sample_root # xs) 0 = zero_claim\<lparr>c_Value := sample_value 0, c_Position := NewPosition 1 0, c_ParentContractIndex := 0\<rparr>"
    "reply sample_value (Suc 0) sample_claims (Suc 0) = zero_claim\<lparr>c_Value := sample_value 2, c_Position := NewPosition 2 2, c_ParentContractIndex := 1\<rparr>"
    using sample_correct by (simp_all add: reply_def sample_pos)
qed

text \<open>The identifiers of the claims that are looked up.\<close>

lemma hash_bytes_last: "hash_bytes h ! 31 = of_nat (unat h)"
proof -
  have "be_encode 32 x = be_encode 31 (x div 256) @ [of_nat x]" for x
    by (subst be_encode_numeral) (simp del: be_encode_numeral)
  then show ?thesis by (simp add: hash_bytes_def nth_append del: be_encode_numeral)
qed

lemma sample_ID:
  assumes "claim_key c = (p, h, q)" "big_Bytes (ToGIndex p) = [b]" "big_Bytes q = bs" "unat b = x" "unat h mod 256 = y"
  shows "claim_ID sample_hash c = of_nat (x * 65536 + (33 + length bs) * 256 + y)"
proof -
  have "claim_ID sample_hash c = sample_hash (b # hash_bytes h @ bs)" using assms(1-3) by (auto simp: claim_ID_def claim_key_def)
  moreover have "unat ((b # hash_bytes h @ bs) ! 32) = y"
  proof -
    have "(b # hash_bytes h @ bs) ! 32 = hash_bytes h ! 31" by (simp add: nth_append nth_Cons')
    then show ?thesis unfolding hash_bytes_last using assms(5) by (simp only: unat_of_nat_byte)
  qed
  ultimately show ?thesis using assms(4) by (simp add: sample_hash_def del: of_nat_add of_nat_mult)
qed

lemma sample_bytes: "big_Bytes (ToGIndex (NewPosition 0 0)) = [1]" "big_Bytes (ToGIndex (NewPosition 1 0)) = [2]"
    "big_Bytes (ToGIndex (NewPosition 2 2)) = [6]" "big_Bytes 0 = []" "big_Bytes 1 = [1]"
proof -
  have l: "(bits_len 1 + 7) div 8 = 1" "(bits_len 2 + 7) div 8 = 1" "(bits_len 6 + 7) div 8 = 1"
    by (simp_all add: bits_len.simps)
  have g: "ToGIndex (NewPosition 0 0) = 1" "ToGIndex (NewPosition 1 0) = 2" "ToGIndex (NewPosition 2 2) = 6"
    by (simp_all add: ToGIndex_def NewPosition_def)
  have n: "nat \<bar>1\<bar> = 1" "nat \<bar>2\<bar> = 2" "nat \<bar>6\<bar> = 6" "nat \<bar>0\<bar> = 0" by simp_all
  show "big_Bytes (ToGIndex (NewPosition 0 0)) = [1]" "big_Bytes (ToGIndex (NewPosition 1 0)) = [2]"
    "big_Bytes (ToGIndex (NewPosition 2 2)) = [6]" "big_Bytes 0 = []" "big_Bytes 1 = [1]"
    unfolding big_Bytes_def g n l by simp_all
qed

lemma sample_keys:
  "claim_key sample_root = (NewPosition 0 0, 5, 0)" "claim_key sample_reply = (NewPosition 1 0, sample_value 0, 0)"
  "claim_key (reply sample_value (Suc 0) (sample_root # xs) 0) = (NewPosition 1 0, sample_value 0, 0)"
  "claim_key (reply sample_value (Suc 0) sample_claims (Suc 0)) = (NewPosition 2 2, sample_value 2, 1)"
  "claim_key (step_probe (sample_root # xs) 0) = (NewPosition 0 0, 0, 0)"
  "claim_key (step_probe sample_claims (Suc 0)) = (NewPosition 1 0, 0, 1)"
proof -
  show "claim_key sample_root = (NewPosition 0 0, 5, 0)" by (simp add: claim_key_def sample_root_def zero_claim_def)
  show "claim_key sample_reply = (NewPosition 1 0, sample_value 0, 0)" by (simp add: claim_key_def sample_reply_eq)
  show "claim_key (reply sample_value (Suc 0) (sample_root # xs) 0) = (NewPosition 1 0, sample_value 0, 0)"
    "claim_key (reply sample_value (Suc 0) sample_claims (Suc 0)) = (NewPosition 2 2, sample_value 2, 1)"
    by (simp_all only: claim_key_def sample_replies) simp_all
  show "claim_key (step_probe (sample_root # xs) 0) = (NewPosition 0 0, 0, 0)"
    "claim_key (step_probe sample_claims (Suc 0)) = (NewPosition 1 0, 0, 1)"
    by (simp_all only: claim_key_def step_probe_def sample_pos) (simp_all add: zero_claim_def)
qed

lemma sample_bytes_of: "unat (sample_value 0) mod 256 = 0" "unat (sample_value 2) mod 256 = 0"
  by (simp_all add: sample_value_eq)

lemma sample_IDs:
  "claim_ID sample_hash sample_root = of_nat 0x12105" "claim_ID sample_hash sample_reply = of_nat 0x22100"
  "claim_ID sample_hash (reply sample_value (Suc 0) (sample_root # xs) 0) = of_nat 0x22100"
  "claim_ID sample_hash (reply sample_value (Suc 0) sample_claims (Suc 0)) = of_nat 0x62200"
  "claim_ID sample_hash (step_probe (sample_root # xs) 0) = of_nat 0x12100"
  "claim_ID sample_hash (step_probe sample_claims (Suc 0)) = of_nat 0x22200"
  using sample_ID [OF sample_keys(1) sample_bytes(1,4), where x = 1 and y = 5]
    sample_ID [OF sample_keys(2) sample_bytes(2,4), where x = 2 and y = 0] sample_ID [OF sample_keys(3) sample_bytes(2,4), where x = 2 and y = 0]
    sample_ID [OF sample_keys(4) sample_bytes(3,5), where x = 6 and y = 0] sample_ID [OF sample_keys(5) sample_bytes(1,4), where x = 1 and y = 0]
    sample_ID [OF sample_keys(6) sample_bytes(2,5), where x = 2 and y = 0] sample_bytes_of
  by simp_all

lemma sample_no_collisions:
  "no_collisions sample_hash (looked_up sample_value (Suc 0) [sample_root])"
  "no_collisions sample_hash (looked_up sample_value (Suc 0) sample_claims)"
proof -
  have l: "looked_up sample_value (Suc 0) sample_claims = [sample_root, sample_reply, reply sample_value (Suc 0) sample_claims 0,
      reply sample_value (Suc 0) sample_claims (Suc 0), step_probe sample_claims 0, step_probe sample_claims (Suc 0)]"
    "looked_up sample_value (Suc 0) [sample_root] = [sample_root, reply sample_value (Suc 0) [sample_root] 0, step_probe [sample_root] 0]"
    by (simp_all add: looked_up_def)
  show "no_collisions sample_hash (looked_up sample_value (Suc 0) [sample_root])"
    "no_collisions sample_hash (looked_up sample_value (Suc 0) sample_claims)"
    unfolding l no_collisions_def by (simp_all only: list.pred_inject sample_IDs sample_keys) simp_all
qed

section \<open>A play of the small game\<close>

lemma sample_legal: "legal (Suc 0) [sample_root]" "legal (Suc 0) sample_claims"
proof -
  have i: "c_ContractIndex sample_root = 0" "c_ContractIndex sample_reply = 1" "c_ParentContractIndex sample_reply = 0"
    by (simp_all add: sample_root_def sample_reply_eq zero_claim_def)
  show "legal (Suc 0) [sample_root]" "legal (Suc 0) sample_claims"
    by (simp_all add: legal_def legal_claim_def sample_pos i)
qed

lemma sample_stance: "counters sample_value (Suc 0) (sample_root # xs) 0" "honest sample_value (Suc 0) sample_claims (Suc 0)"
proof -
  show c: "counters sample_value (Suc 0) (sample_root # xs) 0" for xs using sample_correct(1) [of xs] by simp
  have "c_Value sample_reply = sample_value 0" by (simp add: sample_reply_eq)
  then show "honest sample_value (Suc 0) sample_claims (Suc 0)"
    using stance_Suc(1) [OF sample_legal(2), of "Suc 0" sample_value] c [of "[sample_reply]"]
    by (simp add: sample_pos sample_replies del: reply_sel)
qed

lemma sample_game: "game_ok sample_hash sample_value (Suc 0) (NewGameState sample_hash [sample_root] 1)"
    "game_ok sample_hash sample_value (Suc 0) (NewGameState sample_hash sample_claims 1)"
  using sample_no_collisions sample_legal by (simp_all add: game_ok_def NewGameState_def sample_keys) (simp add: NewPosition_def)

definition sample_action :: "(preimage_data, unit) action" where
  "sample_action = move_action sample_root True (sample_value 0)"

lemma sample_honest_actions:
  "honest_actions sample_accessor sample_value (NewGameState sample_hash [sample_root] 1) = [sample_action]"
  "honest_actions sample_accessor sample_value (NewGameState sample_hash sample_claims 1) = []"
proof -
  have p: "NewPosition 0 0 \<noteq> NewPosition 1 0" by (simp add: NewPosition_def)
  have a: "\<not> answered sample_value (Suc 0) [sample_root] 0" "answered sample_value (Suc 0) sample_claims 0"
    using p by (simp_all add: answered_def sample_keys)
  have n: "\<not> counters sample_value (Suc 0) sample_claims (Suc 0)"
    using honest_not_counters [OF sample_legal(2), of "Suc 0" sample_value] sample_stance(2) by simp
  have "honest_action sample_accessor sample_value (NewGameState sample_hash [sample_root] 1) 0 = Some sample_action"
    using a(1) sample_correct(1) [of "[]"] sample_replies(1) [of "[]"]
    by (simp add: honest_action_def NewGameState_def sample_pos sample_action_def del: reply_sel)
  then show "honest_actions sample_accessor sample_value (NewGameState sample_hash [sample_root] 1) = [sample_action]"
    by (simp add: honest_actions_def NewGameState_def map_filter_simps)
  have "honest_action sample_accessor sample_value (NewGameState sample_hash sample_claims 1) 0 = None"
    "honest_action sample_accessor sample_value (NewGameState sample_hash sample_claims 1) (Suc 0) = None"
    using a(2) n sample_stance(1) [of "[sample_reply]"] by (simp_all add: honest_action_def NewGameState_def sample_pos)
  then show "honest_actions sample_accessor sample_value (NewGameState sample_hash sample_claims 1) = []"
    by (simp add: honest_actions_def NewGameState_def map_filter_simps)
qed

lemma sample_next:
  "CalculateNextActions sample_hash sample_accessor 1 (NewGameState sample_hash [sample_root] 1) = Ok ([sample_action], None)"
  "CalculateNextActions sample_hash sample_accessor 1 (NewGameState sample_hash sample_claims 1) = Ok ([], None)"
proof -
  have h: "honest_trace sample_hash sample_accessor sample_value (Suc 0)" using sample_honest by simp
  have d: "g_depth (NewGameState sample_hash cs 1) = 1" for cs by (simp add: NewGameState_def)
  show "CalculateNextActions sample_hash sample_accessor 1 (NewGameState sample_hash [sample_root] 1) = Ok ([sample_action], None)"
    "CalculateNextActions sample_hash sample_accessor 1 (NewGameState sample_hash sample_claims 1) = Ok ([], None)"
    using honest_trace.CalculateNextActions_strategy [OF h sample_game(1)]
      honest_trace.CalculateNextActions_strategy [OF h sample_game(2)] by (simp_all add: d sample_honest_actions)
qed

lemma sample_start: "plays sample_hash sample_accessor sample_value 1 ([sample_root], [])"
proof (rule plays.start)
  have "(7 :: address) \<noteq> challengerAddr" by code_simp
  then show "start_claims sample_value (unat 1) [sample_root]" by (simp add: start_claims_def sample_root_def zero_claim_def)
qed

lemma sample_play: "plays sample_hash sample_accessor sample_value 1 (sample_claims, [sample_action])"
proof -
  have s: "plays sample_hash sample_accessor sample_value 1 ([sample_root], [sample_action])"
    by (rule plays.step [OF sample_start play_step.act [OF sample_next(1)]])
  have a: "a_Type sample_action = ActionTypeMove" "target sample_action = 0" "a_Value sample_action = sample_value 0" "a_IsAttack sample_action"
    by (simp_all add: sample_action_def move_action_def target_def sample_root_def zero_claim_def)
  have k: "claim_key (new_claim [sample_root] 0 w True 0) = (NewPosition 1 0, w, 0)" "NewPosition 0 0 \<noteq> NewPosition 1 0" for w
    by (simp add: claim_key_def new_claim_def sample_pos) (simp add: NewPosition_def)
  have m: "move_accepted (unat 1) [sample_root] (target sample_action) (a_Value sample_action) (a_IsAttack sample_action)"
    using k by (simp add: move_accepted_def sample_pos sample_keys a)
  have "[sample_root] @ [new_claim [sample_root] (target sample_action) (a_Value sample_action) (a_IsAttack sample_action) challengerAddr] = sample_claims"
    by (simp add: a sample_reply_def)
  then show ?thesis using plays.step [OF s play_step.perform_move [OF _ a(1) m]] by simp
qed

section \<open>The properties\<close>

text \<open>C6: The solver computes the strategy: for a correct trace and a legal game in which identifiers do not
  collide, \<open>CalculateNextActions\<close> never fails, and its actions are those of a strategy that is defined
  without the tracker, by recursion along the parents of each claim. The game is answered claim by
  claim, in order: a move unless it has been made, a step unless the leaf has been stepped.\<close>

theorem solver_follows_strategy:
  assumes "honest_trace kk tr v D" "game_ok kk v D g"
  shows "CalculateNextActions kk tr (g_depth g) g = Ok (honest_actions tr v g, None)"
  by (rule honest_trace.CalculateNextActions_strategy [OF assms])

theorem solver_follows_strategy_witness:
  "CalculateNextActions sample_hash sample_accessor 1 (NewGameState sample_hash [sample_root] 1) =
    Ok (honest_actions sample_accessor sample_value (NewGameState sample_hash [sample_root] 1), None)"
proof -
  have "honest_trace sample_hash sample_accessor sample_value (Suc 0)" using sample_honest by simp
  from solver_follows_strategy [OF this sample_game(1)] show ?thesis by (simp add: NewGameState_def)
qed

text \<open>C5: The challenger keeps the rules: in every play, whatever the other players do and however the
  actions of the challenger are delayed, every action that it computes satisfies all ten rules of
  \<open>rules.go\<close>. In particular no new claim has a poisoned pre-state, and every step is one that the
  contract accepts.\<close>

theorem challenger_keeps_rules:
  assumes "honest_trace kk tr v (unat d)" "plays kk tr v d (cs, ps)" "0 < d" "no_collisions kk (looked_up v (unat d) cs)"
    "provides v (unat d) pr"
  shows "\<exists>as. CalculateNextActions kk tr d (NewGameState kk cs d) = Ok (as, None) \<and>
    list_all (\<lambda>a. checkRules kk (NewGameState kk cs d) a pr) as"
  using honest_trace.play_actions_keep_rules [OF assms(1,2) refl _ assms(4,5)] assms(3) by (auto simp: word_less_nat_alt)

theorem challenger_keeps_rules_witness:
  "checkRules sample_hash (NewGameState sample_hash [sample_root] 1) sample_action (\<lambda>p. Ok (sample_value (trace_idx 1 p)))"
proof -
  have "honest_trace sample_hash sample_accessor sample_value (unat 1)" "no_collisions sample_hash (looked_up sample_value (unat 1) [sample_root])"
    "provides sample_value (unat 1) (\<lambda>p. Ok (sample_value (trace_idx 1 p)))" "(0 :: u64) < 1"
    using sample_honest sample_no_collisions(1) by (simp_all add: provides_def)
  from challenger_keeps_rules [OF this(1) sample_start this(4) this(2,3)] show ?thesis by (simp add: sample_next)
qed

text \<open>C4: The honest challenger wins: in every play, once it has nothing left to do, resolving the claims
  gives the game to the side that is right - the root stands if and only if its value is the last of
  the trace -, no claim that the challenger made is countered, and the bond of every claim that it
  countered with one of its own goes to it.\<close>

theorem honest_challenger_wins:
  assumes "honest_trace kk tr v (unat d)" "plays kk tr v d (cs, ps)" "0 < d" "no_collisions kk (looked_up v (unat d) cs)"
    "CalculateNextActions kk tr d (NewGameState kk cs d) = Ok ([], err)"
  shows "\<exists>tree. CreateBidirectionalTree cs = Ok tree \<and>
    fst (Resolve tree) = (if c_Value (cs ! 0) = v (2 ^ unat d - 1) then GameStatusDefenderWon else GameStatusChallengerWon) \<and>
    list_all (\<lambda>i. if c_Claimant (cs ! i) = challengerAddr
        then c_CounteredBy (bc_Claim (snd (Resolve tree) ! i)) = 0 \<and>
          (if i = 0 then True else c_CounteredBy (bc_Claim (snd (Resolve tree) ! par cs i)) = challengerAddr)
        else True) [0..<length cs]"
  using honest_trace.play_outcome [OF assms(1,2) refl _ assms(4,5)] assms(3)
  by (auto simp: word_less_nat_alt resolved_def list_all_iff)

theorem honest_challenger_wins_witness:
  "\<exists>tree. CreateBidirectionalTree sample_claims = Ok tree \<and> fst (Resolve tree) = GameStatusChallengerWon"
proof -
  have "honest_trace sample_hash sample_accessor sample_value (unat 1)" "no_collisions sample_hash (looked_up sample_value (unat 1) sample_claims)"
    "(0 :: u64) < 1" using sample_honest sample_no_collisions(2) by simp_all
  from honest_challenger_wins [OF this(1) sample_play this(3,2) sample_next(2)]
  show ?thesis by (auto simp: sample_root_def sample_value_eq)
qed

text \<open>The challenger never counters a claim twice: at every moment of a play, the claims that it made
  answer different claims.\<close>

theorem counters_once:
  assumes "honest_trace kk tr v (unat d)" "plays kk tr v d (cs, ps)" "0 < d" "no_collisions kk (looked_up v (unat d) cs)"
  shows "distinct (map c_ParentContractIndex (filter (\<lambda>c. c_Claimant c = challengerAddr \<and> \<not> IsRoot c) cs))"
proof -
  have c: "claims_ok v (unat d) cs"
    using honest_trace.play_game_ok(1) [OF assms(1,2) refl _ assms(4)] assms(3) by (simp add: word_less_nat_alt)
  then have l: "legal (unat d) cs" and k: "distinct (map claim_key cs)" by (simp_all add: claims_ok_def)
  have "inj_on c_ParentContractIndex (set (filter (\<lambda>c. c_Claimant c = challengerAddr \<and> \<not> IsRoot c) cs))"
  proof (rule inj_onI)
    fix a b assume "a \<in> set (filter (\<lambda>c. c_Claimant c = challengerAddr \<and> \<not> IsRoot c) cs)"
      "b \<in> set (filter (\<lambda>c. c_Claimant c = challengerAddr \<and> \<not> IsRoot c) cs)" and e: "c_ParentContractIndex a = c_ParentContractIndex b"
    then obtain i j where i: "i < length cs" "a = cs ! i" "c_Claimant (cs ! i) = challengerAddr" "\<not> IsRoot (cs ! i)"
      and j: "j < length cs" "b = cs ! j" "c_Claimant (cs ! j) = challengerAddr" "\<not> IsRoot (cs ! j)" by (auto simp: in_set_conv_nth)
    have "par cs i = par cs j" using e i(2) j(2) by (simp add: par_def)
    then have "i = j"
      using honest_key_unique [OF l k i(1) j(1), of v] IsRoot_at [OF l i(1)] IsRoot_at [OF l j(1)] i j claims_okD [OF c] by blast
    then show "a = b" using i(2) j(2) by simp
  qed
  moreover have "distinct cs" using k by (simp add: distinct_map)
  ultimately show ?thesis by (simp add: distinct_map)
qed

theorem counters_once_witness:
  "distinct (map c_ParentContractIndex (filter (\<lambda>c. c_Claimant c = challengerAddr \<and> \<not> IsRoot c) sample_claims))"
proof -
  have "honest_trace sample_hash sample_accessor sample_value (unat 1)" "no_collisions sample_hash (looked_up sample_value (unat 1) sample_claims)"
    "(0 :: u64) < 1" using sample_honest sample_no_collisions(2) by simp_all
  from counters_once [OF this(1) sample_play this(3,2)] show ?thesis .
qed

end
