(* ===== verification/FaultSplit.thy ===== *)
theory FaultSplit
  imports FaultTrace
begin

text \<open>
  Split games: the top levels of the tree dispute output roots, the levels below one of its leaves the
  execution of one block. \<open>op-challenger/game/fault/trace/split/split.go\<close> finds the two output roots
  between which a position of a bottom game lies; \<open>trace/outputs\<close> (\<open>provider.go\<close>,
  \<open>split_adapter.go\<close>) gives the trace of output roots and the proposals that the bottom game is
  about. The rollup node and Keccak are parameters. The walks are partial functions.
\<close>

section \<open>The selector\<close>

partial_function (option) findAncestorAtDepth :: "game_state \<Rightarrow> claim \<Rightarrow> u64 \<Rightarrow> claim res option" where
  "findAncestorAtDepth game claim depth =
     (if pos_depth (c_Position claim) > depth then
        (case GetParent game claim of
           Err e \<Rightarrow> Some (Err (''failed to find ancestor at depth: '' @ e))
         | Panic e \<Rightarrow> Some (Panic e)
         | Ok parent \<Rightarrow> findAncestorAtDepth game parent depth)
      else Some (Ok claim))"

partial_function (option) findAncestorWithTraceIndex :: "game_state \<Rightarrow> claim \<Rightarrow> u64 \<Rightarrow> int \<Rightarrow> claim res option" where
  "findAncestorWithTraceIndex game candidate depth traceIdx =
     (case TraceIndex (c_Position candidate) depth of
        Err e \<Rightarrow> Some (Err e)
      | Panic e \<Rightarrow> Some (Panic e)
      | Ok t \<Rightarrow>
          if t = traceIdx then Some (Ok candidate)
          else (case GetParent game candidate of
              Err e \<Rightarrow> Some (Err (''failed to get parent of claim: '' @ e))
            | Panic e \<Rightarrow> Some (Panic e)
            | Ok parent \<Rightarrow> findAncestorWithTraceIndex game parent depth traceIdx))"

text \<open>The claims before and after the bottom game of a top leaf.\<close>

definition split_claims :: "game_state \<Rightarrow> u64 \<Rightarrow> claim \<Rightarrow> position \<Rightarrow> (claim \<times> claim) res option" where
  "split_claims game topDepth topLeaf pos =
     (case bind_res (TraceIndex pos (pos_depth pos)) (\<lambda>p. bind_res (TraceIndex (c_Position topLeaf) (pos_depth pos)) (\<lambda>l.
           bind_res (TraceIndex (c_Position topLeaf) topDepth) (\<lambda>k. Ok (p > l, k)))) of
        Err e \<Rightarrow> Some (Err e)
      | Panic e \<Rightarrow> Some (Panic e)
      | Ok (True, k) \<Rightarrow> map_option (\<lambda>r. bind_res (wrap_err (\<lambda>e. ''failed to find post claim: '' @ e) r) (\<lambda>post. Ok (topLeaf, post)))
            (findAncestorWithTraceIndex game topLeaf topDepth (k + 1))
      | Ok (False, k) \<Rightarrow>
          if k = 0 then Some (Ok (zero_claim, topLeaf))
          else map_option (\<lambda>r. bind_res (wrap_err (\<lambda>e. ''failed to find pre claim: '' @ e) r) (\<lambda>pre. Ok (pre, topLeaf)))
            (findAncestorWithTraceIndex game topLeaf topDepth (k - 1)))"

definition NewSplitProviderSelector ::
    "('o, 'ch) trace_provider \<Rightarrow> u64 \<Rightarrow> (u64 \<Rightarrow> claim \<Rightarrow> claim \<Rightarrow> ('o, 'ch) trace_provider res) \<Rightarrow>
     game_state \<Rightarrow> claim \<Rightarrow> position \<Rightarrow> ('o, 'ch) trace_provider res option" where
  "NewSplitProviderSelector topProvider topDepth bottomProviderCreator game ref pos =
     (if pos_depth pos \<le> topDepth then Some (Ok topProvider)
      else if pos_depth (c_Position ref) < topDepth then Some (Err ''reference claim is not deep enough'')
      else case findAncestorAtDepth game ref topDepth of
          None \<Rightarrow> None
        | Some (Err e) \<Rightarrow> Some (Err e)
        | Some (Panic e) \<Rightarrow> Some (Panic e)
        | Some (Ok topLeaf) \<Rightarrow>
            map_option (\<lambda>r. bind_res r (\<lambda>(pre, post).
                bind_res (bottomProviderCreator (g_depth game - topDepth - 1) pre post) (\<lambda>provider.
                Ok (Translate provider (topDepth + 1)))))
              (split_claims game topDepth topLeaf pos))"

section \<open>Output roots\<close>

record ('out, 'h) output_provider =
  op_prestate :: "hash res"
  op_prestateBlock :: u64
  op_poststateBlock :: u64
  op_gameDepth :: u64
  op_SafeHeadAtL1Block :: "u64 res"
  op_OutputAtBlock :: "u64 \<Rightarrow> 'out res"
  op_OutputRoot :: "'out \<Rightarrow> hash"
  op_HeaderByNumber :: "u64 \<Rightarrow> 'h res"

definition ClaimedBlockNumber :: "('out, 'h) output_provider \<Rightarrow> position \<Rightarrow> u64 res" where
  "ClaimedBlockNumber op pos =
     bind_res (TraceIndex pos (op_gameDepth op)) (\<lambda>traceIndex.
     guard_err (0 \<le> traceIndex \<and> traceIndex < 2 ^ 64) ''trace index is greater than max uint64''
     (let outputBlock = of_int traceIndex + op_prestateBlock op + 1 in
      Ok (if outputBlock > op_poststateBlock op then op_poststateBlock op else outputBlock)))"

definition HonestBlockNumber :: "('out, 'h) output_provider \<Rightarrow> position \<Rightarrow> u64 res" where
  "HonestBlockNumber op pos =
     bind_res (ClaimedBlockNumber op pos) (\<lambda>outputBlock.
     bind_res (wrap_err (\<lambda>e. ''failed to get safe head at L1 block: '' @ e) (op_SafeHeadAtL1Block op)) (\<lambda>maxSafeHead.
     Ok (if outputBlock > maxSafeHead then maxSafeHead else outputBlock)))"

definition outputAtBlock :: "('out, 'h) output_provider \<Rightarrow> u64 \<Rightarrow> hash res" where
  "outputAtBlock op block =
     bind_res (wrap_err (\<lambda>e. ''failed to fetch output at block: '' @ e) (op_OutputAtBlock op block)) (\<lambda>output.
     Ok (op_OutputRoot op output))"

definition output_Get :: "('out, 'h) output_provider \<Rightarrow> position \<Rightarrow> hash res" where
  "output_Get op pos = bind_res (HonestBlockNumber op pos) (outputAtBlock op)"

text \<open>\<open>GetL2BlockNumberChallenge\<close>; \<open>Ok None\<close> is \<open>ErrL2BlockNumberValid\<close>.\<close>

definition output_challenge :: "('out, 'h) output_provider \<Rightarrow> ('out \<times> 'h) option res" where
  "output_challenge op =
     bind_res (HonestBlockNumber op RootPosition) (\<lambda>outputBlock.
     bind_res (ClaimedBlockNumber op RootPosition) (\<lambda>claimedBlock.
     if claimedBlock = outputBlock then Ok None
     else bind_res (op_OutputAtBlock op outputBlock) (\<lambda>output.
       bind_res (wrap_err (\<lambda>e. ''failed to retrieve L2 block header: '' @ e) (op_HeaderByNumber op outputBlock)) (\<lambda>header.
       Ok (Some (output, header))))))"

definition NewOutputTraceProvider :: "('out, 'h) output_provider \<Rightarrow> ('o, 'out \<times> 'h) trace_provider" where
  "NewOutputTraceProvider op = \<lparr>tp_Get = output_Get op, tp_GetStepData = (\<lambda>_. Err ''GetStepData not supported''),
     tp_AbsolutePreStateCommitment = op_prestate op, tp_GetL2BlockNumberChallenge = output_challenge op\<rparr>"

section \<open>The proposals of a bottom game\<close>

record proposal =
  pr_L2BlockNumber :: u64
  pr_OutputRoot :: hash

definition FetchProposals :: "('out, 'h) output_provider \<Rightarrow> claim \<Rightarrow> claim \<Rightarrow> (proposal \<times> proposal) res" where
  "FetchProposals op pre post =
     bind_res
       (if pre = zero_claim then
          bind_res (wrap_err (\<lambda>e. ''failed to retrieve absolute prestate output root: '' @ e) (op_prestate op)) (\<lambda>root.
          Ok \<lparr>pr_L2BlockNumber = op_prestateBlock op, pr_OutputRoot = root\<rparr>)
        else
          bind_res (wrap_err (\<lambda>e. ''unable to calculate pre-claim block number: '' @ e) (HonestBlockNumber op (c_Position pre))) (\<lambda>n.
          Ok \<lparr>pr_L2BlockNumber = n, pr_OutputRoot = c_Value pre\<rparr>)) (\<lambda>agreed.
     bind_res (wrap_err (\<lambda>e. ''unable to calculate post-claim block number: '' @ e) (ClaimedBlockNumber op (c_Position post))) (\<lambda>n.
     Ok (agreed, \<lparr>pr_L2BlockNumber = n, pr_OutputRoot = c_Value post\<rparr>)))"

text \<open>\<open>localContextPreimage\<close>; \<open>FillBytes\<close> panics when a generalized index does not fit.\<close>

definition encodeClaim :: "claim \<Rightarrow> bytes res" where
  "encodeClaim c = bind_res (FillBytes32 (ToGIndex (c_Position c))) (\<lambda>g. Ok (hash_bytes (c_Value c) @ g))"

definition localContextPreimage :: "claim \<Rightarrow> claim \<Rightarrow> bytes res" where
  "localContextPreimage pre post =
     bind_res (if pre \<noteq> zero_claim then encodeClaim pre else Ok []) (\<lambda>data.
     bind_res (encodeClaim post) (\<lambda>e. Ok (data @ e)))"

definition CreateLocalContext :: "(bytes \<Rightarrow> hash) \<Rightarrow> claim \<Rightarrow> claim \<Rightarrow> hash res" where
  "CreateLocalContext kk pre post = bind_res (localContextPreimage pre post) (\<lambda>bs. Ok (kk bs))"

definition OutputRootSplitAdapter ::
    "(bytes \<Rightarrow> hash) \<Rightarrow> ('out, 'h) output_provider \<Rightarrow> (hash \<Rightarrow> u64 \<Rightarrow> proposal \<Rightarrow> proposal \<Rightarrow> ('o, 'ch) trace_provider res) \<Rightarrow>
     u64 \<Rightarrow> claim \<Rightarrow> claim \<Rightarrow> ('o, 'ch) trace_provider res" where
  "OutputRootSplitAdapter kk topProvider creator depth pre post =
     bind_res (CreateLocalContext kk pre post) (\<lambda>localContext.
     bind_res (FetchProposals topProvider pre post) (\<lambda>(agreed, disputed).
     creator localContext depth agreed disputed))"

section \<open>The claims around a bottom game\<close>

lemma GetParent_at:
  "legal_game g \<Longrightarrow> i < length (g_claims g) \<Longrightarrow> i \<noteq> 0 \<Longrightarrow> GetParent g (g_claims g ! i) = Ok (g_claims g ! par (g_claims g) i)"
  using getParent_at [of g i] by (simp add: GetParent_def)

lemma findAncestorAtDepth_legal:
  assumes "legal_game g"
  shows "i < length (g_claims g) \<Longrightarrow> unat t \<le> depth_at (g_claims g) i \<Longrightarrow>
    \<exists>j < length (g_claims g). depth_at (g_claims g) j = unat t \<and> findAncestorAtDepth g (g_claims g ! i) t = Some (Ok (g_claims g ! j)) \<and>
      lo (unat (g_depth g)) (pos_at (g_claims g) j) \<le> lo (unat (g_depth g)) (pos_at (g_claims g) i) \<and>
      hi (unat (g_depth g)) (pos_at (g_claims g) i) \<le> hi (unat (g_depth g)) (pos_at (g_claims g) j)"
proof (induction i rule: less_induct)
  case (less i)
  let ?cs = "g_claims g"
  have d: "pos_depth (c_Position (?cs ! i)) > t \<longleftrightarrow> unat t < depth_at ?cs i"
    by (simp add: depth_at_def pos_at_def word_less_nat_alt)
  show ?case
  proof (cases "unat t = depth_at ?cs i")
    case True
    have n: "\<not> pos_depth (c_Position (?cs ! i)) > t" unfolding d using True by simp
    have "findAncestorAtDepth g (?cs ! i) t = Some (Ok (?cs ! i))"
      by (subst findAncestorAtDepth.simps) (simp only: n if_False)
    then show ?thesis using True [symmetric] less.prems(1) by blast
  next
    case False
    then have lt: "unat t < depth_at ?cs i" using less.prems(2) by simp
    then have i: "i \<noteq> 0" using legal_node [OF assms less.prems(1)] by (auto simp: node_ok_def)
    note p = legal_par [OF assms less.prems(1) i] and s = depth_Suc [OF assms less.prems(1) i]
    have "findAncestorAtDepth g (?cs ! i) t = findAncestorAtDepth g (?cs ! par ?cs i) t"
      using lt [folded d] GetParent_at [OF assms less.prems(1) i] by (subst findAncestorAtDepth.simps) simp
    moreover have "par ?cs i < i" "par ?cs i < length ?cs" "unat t \<le> depth_at ?cs (par ?cs i)" using p s lt less.prems(1) by simp_all
    moreover have "lo (unat (g_depth g)) (pos_at ?cs (par ?cs i)) \<le> lo (unat (g_depth g)) (pos_at ?cs i) \<and>
        hi (unat (g_depth g)) (pos_at ?cs i) \<le> hi (unat (g_depth g)) (pos_at ?cs (par ?cs i))"
      using legal_move [OF assms less.prems(1) i] par_interval [OF assms less.prems(1)]
        lo_trace_hi [of "unat (g_depth g)" "pos_at ?cs (par ?cs i)", folded ti_def] by auto
    moreover obtain j where "j < length ?cs" "depth_at ?cs j = unat t" "findAncestorAtDepth g (?cs ! par ?cs i) t = Some (Ok (?cs ! j))"
      "lo (unat (g_depth g)) (pos_at ?cs j) \<le> lo (unat (g_depth g)) (pos_at ?cs (par ?cs i))"
      "hi (unat (g_depth g)) (pos_at ?cs (par ?cs i)) \<le> hi (unat (g_depth g)) (pos_at ?cs j)"
      using less.IH [OF \<open>par ?cs i < i\<close> \<open>par ?cs i < length ?cs\<close> \<open>unat t \<le> depth_at ?cs (par ?cs i)\<close>] by blast
    ultimately show ?thesis by (intro exI [of _ j]) (auto intro: order_trans)
  qed
qed

text \<open>Walking up the output roots.\<close>

lemma top_step:
  assumes "legal_game g" "i < length (g_claims g)" "depth_at (g_claims g) i \<le> unat t"
  shows "findAncestorWithTraceIndex g (g_claims g ! i) t x =
    (if ti (unat t) (g_claims g) i = x then Some (Ok (g_claims g ! i))
     else if i = 0 then Some (Err (''failed to get parent of claim: '' @ ''claim not found in game state''))
     else findAncestorWithTraceIndex g (g_claims g ! par (g_claims g) i) t x)"
proof -
  have "TraceIndex (c_Position (g_claims g ! i)) t = Ok (ti (unat t) (g_claims g) i)"
    using assms(3) TraceIndex_Ok [of "pos_at (g_claims g) i" t] by (simp add: depth_at_def ti_def pos_at_def word_le_nat_alt)
  then show ?thesis using GetParent_at [OF assms(1,2)] getParent_at [OF assms(1,2)]
    by (subst findAncestorWithTraceIndex.simps) (simp add: GetParent_def)
qed

lemma top_walk_par:
  assumes "legal_game g" "i < length (g_claims g)" "depth_at (g_claims g) i \<le> unat t" "attacks (g_claims g) i \<or> defends (g_claims g) i"
    "x \<le> lo (unat t) (pos_at (g_claims g) i) \<or> hi (unat t) (pos_at (g_claims g) i) \<le> x"
  shows "findAncestorWithTraceIndex g (g_claims g ! i) t x = findAncestorWithTraceIndex g (g_claims g ! par (g_claims g) i) t x"
proof -
  have "i \<noteq> 0" using assms(4) by (auto simp: attacks_def defends_def)
  moreover have "ti (unat t) (g_claims g) i \<noteq> x"
    using assms(5) lo_trace_hi [of "unat t" "pos_at (g_claims g) i"] by (auto simp: ti_def)
  ultimately show ?thesis using top_step [OF assms(1-3)] by simp
qed

lemma top_walk_self: "legal_game g \<Longrightarrow> i < length (g_claims g) \<Longrightarrow> depth_at (g_claims g) i \<le> unat t \<Longrightarrow>
    findAncestorWithTraceIndex g (g_claims g ! i) t (ti (unat t) (g_claims g) i) = Some (Ok (g_claims g ! i))"
  by (simp add: top_step)

lemma top_walk_lbound:
  "lbound (g_claims g) i j \<Longrightarrow> legal_game g \<Longrightarrow> i < length (g_claims g) \<Longrightarrow> depth_at (g_claims g) i \<le> unat t \<Longrightarrow>
   findAncestorWithTraceIndex g (g_claims g ! i) t (lo (unat t) (pos_at (g_claims g) i)) = Some (Ok (g_claims g ! j))"
proof (induction rule: lbound.induct)
  case (lb_defend i)
  have t: "unat t < 2 ^ 64" by (rule unat_bounds)
  have "par (g_claims g) i < length (g_claims g) \<and> depth_at (g_claims g) (par (g_claims g) i) \<le> unat t"
    using lb_defend par_less [of _ "g_claims g" i] par_depth [of _ "g_claims g" i] by fastforce
  with lb_defend show ?case
    using top_walk_par [of g i t] top_walk_self [of g "par (g_claims g) i" t] par_interval_at(2) [OF _ _ _ t] by simp
next
  case (lb_attack i j)
  have t: "unat t < 2 ^ 64" by (rule unat_bounds)
  have "par (g_claims g) i < length (g_claims g) \<and> depth_at (g_claims g) (par (g_claims g) i) \<le> unat t"
    using lb_attack par_less [of _ "g_claims g" i] par_depth [of _ "g_claims g" i] by fastforce
  with lb_attack show ?case using top_walk_par [of g i t] par_interval_at(1) [OF _ _ _ t] by simp
qed

lemma top_walk_rbound:
  "rbound (g_claims g) i j \<Longrightarrow> legal_game g \<Longrightarrow> i < length (g_claims g) \<Longrightarrow> depth_at (g_claims g) i \<le> unat t \<Longrightarrow>
   findAncestorWithTraceIndex g (g_claims g ! i) t (hi (unat t) (pos_at (g_claims g) i)) = Some (Ok (g_claims g ! j))"
proof (induction rule: rbound.induct)
  case (rb_attack i)
  have t: "unat t < 2 ^ 64" by (rule unat_bounds)
  have "par (g_claims g) i < length (g_claims g) \<and> depth_at (g_claims g) (par (g_claims g) i) \<le> unat t"
    using rb_attack par_less [of _ "g_claims g" i] par_depth [of _ "g_claims g" i] by fastforce
  with rb_attack show ?case
    using top_walk_par [of g i t] top_walk_self [of g "par (g_claims g) i" t] par_interval_at(1) [OF _ _ _ t] by simp
next
  case (rb_defend i j)
  have t: "unat t < 2 ^ 64" by (rule unat_bounds)
  have "par (g_claims g) i < length (g_claims g) \<and> depth_at (g_claims g) (par (g_claims g) i) \<le> unat t"
    using rb_defend par_less [of _ "g_claims g" i] par_depth [of _ "g_claims g" i] by fastforce
  with rb_defend show ?case using top_walk_par [of g i t] par_interval_at(2) [OF _ _ _ t] by simp
qed

section \<open>The neighbours of a position\<close>

text \<open>Where the challenger asks for values and step data when it looks at claim \<open>i\<close>.\<close>

definition queried :: "nat \<Rightarrow> claim list \<Rightarrow> nat \<Rightarrow> position \<Rightarrow> bool" where
  "queried D cs i pos \<longleftrightarrow> pos = pos_at cs i \<or>
     (if depth_at cs i < D then pos = Attack (pos_at cs i) \<or> pos = Defend (pos_at cs i) else pos = MoveRight (pos_at cs i))"

lemma queried_interval:
  assumes "legal D cs" "i < length cs" "queried D cs i pos"
  shows "lo D (pos_at cs i) < trace_idx D pos \<and> trace_idx D pos \<le> hi D (pos_at cs i) \<and> unat (pos_depth pos) \<le> D"
proof (cases "depth_at cs i < D")
  case True
  have D: "D < 2 ^ 64" using assms(1) by (simp add: legal_def)
  have lt: "unat (pos_depth (pos_at cs i)) < D" using True by (simp add: depth_at_def)
  note m = move_interval [OF lt D legal_even [OF assms(1,2)]] and b = lo_trace_hi [of D "pos_at cs i"]
    and f = Attack_fields(1) Defend_fields(1) [OF legal_even [OF assms(1,2)]] unat_Suc_depth [OF lt D]
  from assms(3) True consider "pos = pos_at cs i" | "pos = Attack (pos_at cs i)" | "pos = Defend (pos_at cs i)"
    by (auto simp: queried_def)
  then show ?thesis using m b f lt lo_trace_hi [of D pos] by cases auto
next
  case False
  then have d: "unat (pos_depth (pos_at cs i)) = D" using legal_depth [OF assms(1,2)] by (simp add: depth_at_def)
  then show ?thesis using assms(3) False lo_trace_hi [of D "pos_at cs i"]
    by (auto simp: queried_def MoveRight_def trace_idx_def lo_def hi_def)
qed

text \<open>Dividing out the levels below a position.\<close>

lemma top_index:
  assumes "t \<le> e" "e \<le> D"
  shows "x * 2 ^ (D - t) < (y + 1) * 2 ^ (D - e) \<longleftrightarrow> x * 2 ^ (e - t) < (y + 1 :: int)"
    "(y + 1) * 2 ^ (D - e) \<le> x * 2 ^ (D - t) \<longleftrightarrow> y + 1 \<le> x * (2 :: int) ^ (e - t)"
proof -
  have "D - t = (e - t) + (D - e)" using assms by simp
  then have e: "x * 2 ^ (D - t) = (x * 2 ^ (e - t)) * (2 :: int) ^ (D - e)" by (simp only: power_add mult.assoc)
  show "x * 2 ^ (D - t) < (y + 1) * 2 ^ (D - e) \<longleftrightarrow> x * 2 ^ (e - t) < (y + 1 :: int)"
    "(y + 1) * 2 ^ (D - e) \<le> x * 2 ^ (D - t) \<longleftrightarrow> y + 1 \<le> x * (2 :: int) ^ (e - t)"
    unfolding e by simp_all
qed

lemma div_exp_eq: "x * 2 ^ n \<le> y \<Longrightarrow> y < (x + 1) * 2 ^ n \<Longrightarrow> y div 2 ^ n = (x :: int)"
  by (rule int_div_pos_eq [where r = "y - x * 2 ^ n"]) (simp_all add: algebra_simps)

lemma leaf_at: "unat (pos_depth p) = t \<Longrightarrow> trace_idx t p = IndexAtDepth p"
    "unat (pos_depth p) = t \<Longrightarrow> lo t p = IndexAtDepth p - 1" "unat (pos_depth p) = t \<Longrightarrow> hi t p = IndexAtDepth p + 1"
  by (simp_all add: trace_idx_def lo_def hi_def)

text \<open>The claims that \<open>split_claims\<close> finds for a position below, or right of, top leaf \<open>l\<close>.\<close>

lemma split_claims_neighbours:
  assumes "legal_game g" "l < length (g_claims g)" "depth_at (g_claims g) l = unat t" "0 < unat t" "t < pos_depth pos"
    "lo (unat (g_depth g)) (pos_at (g_claims g) l) < trace_idx (unat (g_depth g)) pos"
    "trace_idx (unat (g_depth g)) pos \<le> hi (unat (g_depth g)) (pos_at (g_claims g) l)" "unat (pos_depth pos) \<le> unat (g_depth g)"
  shows "\<exists>pre post. split_claims g t (g_claims g ! l) pos = Some (Ok (pre, post)) \<and> post \<in> set (g_claims g) \<and>
    TraceIndex (c_Position post) t = Ok (IndexAtDepth pos div 2 ^ (unat (pos_depth pos) - unat t)) \<and>
    (if IndexAtDepth pos div 2 ^ (unat (pos_depth pos) - unat t) = 0 then pre = zero_claim
     else pre \<in> set (g_claims g) \<and> TraceIndex (c_Position pre) t = Ok (IndexAtDepth pos div 2 ^ (unat (pos_depth pos) - unat t) - 1))"
proof -
  let ?cs = "g_claims g" and ?D = "unat (g_depth g)" and ?e = "unat (pos_depth pos)"
  let ?y = "IndexAtDepth pos" and ?L = "pos_at ?cs l" and ?n = "unat (pos_depth pos) - unat t"
  define x where "x = IndexAtDepth ?L"
  have te: "unat t \<le> ?e" using assms(5) by (simp add: word_less_nat_alt)
  have dl: "unat (pos_depth ?L) = unat t" using assms(3) by (simp add: depth_at_def)
  have l0: "l \<noteq> 0" using assms(3,4) legal_node [OF assms(1,2)] by (auto simp: node_ok_def)
  have below: "x * 2 ^ ?n \<le> ?y" "?y < (x + 2) * 2 ^ ?n"
    using assms(6,7) top_index(1) [OF te assms(8), of x ?y] top_index(2) [OF te assms(8), of ?y "x + 2"]
    by (simp_all add: lo_def hi_def trace_idx_def dl x_def)
  have ti_at: "TraceIndex (c_Position (?cs ! j)) t = Ok (ti (unat t) ?cs j)" if "depth_at ?cs j \<le> unat t" for j
    using that TraceIndex_Ok [of "pos_at ?cs j" t] by (simp add: depth_at_def ti_def pos_at_def word_le_nat_alt)
  have k: "TraceIndex (c_Position (?cs ! l)) t = Ok x" "ti (unat t) ?cs l = x"
    using ti_at [of l] assms(3) leaf_at(1) [OF dl] by (simp_all add: ti_def x_def)
  have p: "TraceIndex pos (pos_depth pos) = Ok ?y" using TraceIndex_Ok [of pos "pos_depth pos"] by (simp add: trace_idx_def)
  have q: "TraceIndex (c_Position (?cs ! l)) (pos_depth pos) = Ok ((x + 1) * 2 ^ ?n - 1)"
    using TraceIndex_Ok [of ?L "pos_depth pos"] te dl by (simp add: trace_idx_def x_def pos_at_def word_le_nat_alt)
  have t64: "unat t < 2 ^ 64" by (rule unat_bounds)
  have mem: "?cs ! l \<in> set ?cs" using assms(2) by simp
  show ?thesis
  proof (cases "?y > (x + 1) * 2 ^ ?n - 1")
    case True
    moreover have "?y < (x + 1 + 1) * 2 ^ ?n" using below(2) by (simp only: add.assoc one_add_one)
    ultimately have y: "?y div 2 ^ ?n = x + 1" by (intro div_exp_eq) linarith+
    obtain j where j: "rbound ?cs l j" using rbound_exists [OF assms(1,2) l0] by blast
    note jt = rbound_ti_at [OF j assms(1,2) _ t64]
    have "findAncestorWithTraceIndex g (?cs ! l) t (x + 1) = Some (Ok (?cs ! j))"
      using top_walk_rbound [OF j assms(1,2), of t] assms(3) leaf_at(3) [OF dl] by (simp add: x_def)
    moreover have "TraceIndex (c_Position (?cs ! j)) t = Ok (x + 1)" "?cs ! j \<in> set ?cs"
      using jt ti_at [of j] assms(2,3) leaf_at(3) [OF dl] by (simp_all add: x_def)
    moreover have "x + 1 \<noteq> 0" using legal_node [OF assms(1,2)] pos_okD [of ?L] by (simp add: node_ok_def x_def)
    ultimately show ?thesis using True p q k(1) y mem by (simp add: split_claims_def)
  next
    case False
    then have y: "?y div 2 ^ ?n = x" using below by (intro div_exp_eq) simp_all
    show ?thesis
    proof (cases "x = 0")
      case True
      then show ?thesis using False p q k(1) y mem by (simp add: split_claims_def)
    next
      case nz: False
      have "lo (unat t) ?L \<noteq> -1" using nz leaf_at(2) [OF dl] by (simp add: x_def)
      have "lo ?D ?L \<noteq> -1" using nz by (simp add: lo_def x_def)
      then obtain j where j: "lbound ?cs l j" using lbound_exists [OF assms(1,2)] by blast
      note jt = lbound_ti_at [OF j assms(1,2) _ t64]
      have "findAncestorWithTraceIndex g (?cs ! l) t (x - 1) = Some (Ok (?cs ! j))"
        using top_walk_lbound [OF j assms(1,2), of t] assms(3) leaf_at(2) [OF dl] by (simp add: x_def)
      moreover have "TraceIndex (c_Position (?cs ! j)) t = Ok (x - 1)" "?cs ! j \<in> set ?cs"
        using jt ti_at [of j] assms(2,3) leaf_at(2) [OF dl] by (simp_all add: x_def)
      ultimately show ?thesis using False nz p q k(1) y mem by (simp add: split_claims_def)
    qed
  qed
qed

text \<open>C38: A split game disputes one block: wherever the challenger asks for a value of a bottom game, in a
  legal game, the selector returns, and it builds the provider of the bottom game from the two
  neighbouring output roots between which the position lies - claims of the game whose trace indices
  in the top game are the block of the position and the one before, or no claim before the first -,
  translated to the levels below the top game.\<close>

theorem split_disputes_one_block:
  assumes "legal_game g" "i < length (g_claims g)" "0 < t" "t \<le> pos_depth (c_Position (g_claims g ! i))"
    "queried (unat (g_depth g)) (g_claims g) i pos" "t < pos_depth pos"
  shows "\<exists>pre post k. NewSplitProviderSelector tp t creator g (g_claims g ! i) pos =
      Some (bind_res (creator (g_depth g - t - 1) pre post) (\<lambda>p. Ok (Translate p (t + 1)))) \<and>
    k = IndexAtDepth pos div 2 ^ (unat (pos_depth pos) - unat t) \<and>
    post \<in> set (g_claims g) \<and> TraceIndex (c_Position post) t = Ok k \<and>
    (if k = 0 then pre = zero_claim else pre \<in> set (g_claims g) \<and> TraceIndex (c_Position pre) t = Ok (k - 1))"
proof -
  let ?cs = "g_claims g" and ?D = "unat (g_depth g)"
  have d: "unat t \<le> depth_at ?cs i" using assms(4) by (simp add: depth_at_def pos_at_def word_le_nat_alt)
  have t0: "0 < unat t" using assms(3) by (simp add: word_less_nat_alt)
  obtain l where l: "l < length ?cs" "depth_at ?cs l = unat t" "findAncestorAtDepth g (?cs ! i) t = Some (Ok (?cs ! l))"
    "lo ?D (pos_at ?cs l) \<le> lo ?D (pos_at ?cs i)" "hi ?D (pos_at ?cs i) \<le> hi ?D (pos_at ?cs l)"
    using findAncestorAtDepth_legal [OF assms(1,2) d] by blast
  note q = queried_interval [OF assms(1,2,5)]
  have b: "lo ?D (pos_at ?cs l) < trace_idx ?D pos" "trace_idx ?D pos \<le> hi ?D (pos_at ?cs l)" "unat (pos_depth pos) \<le> ?D"
    using q l(4,5) by auto
  obtain pre post where "split_claims g t (?cs ! l) pos = Some (Ok (pre, post))" "post \<in> set ?cs"
    "TraceIndex (c_Position post) t = Ok (IndexAtDepth pos div 2 ^ (unat (pos_depth pos) - unat t))"
    "if IndexAtDepth pos div 2 ^ (unat (pos_depth pos) - unat t) = 0 then pre = zero_claim
     else pre \<in> set ?cs \<and> TraceIndex (c_Position pre) t = Ok (IndexAtDepth pos div 2 ^ (unat (pos_depth pos) - unat t) - 1)"
    using split_claims_neighbours [OF assms(1) l(1,2) t0 assms(6) b] by blast
  then show ?thesis using l(3) assms(4,6)
    by (intro exI [of _ pre] exI [of _ post] exI [of _ "IndexAtDepth pos div 2 ^ (unat (pos_depth pos) - unat t)"])
      (simp add: NewSplitProviderSelector_def not_less linorder_not_le [symmetric])
qed

theorem split_disputes_one_block_witness:
  "\<forall>tp creator. \<exists>pre post. NewSplitProviderSelector tp 1 creator
      \<lparr>g_claims = [zero_claim\<lparr>c_Position := NewPosition 0 0\<rparr>, zero_claim\<lparr>c_Position := NewPosition 1 0, c_ContractIndex := 1\<rparr>],
        g_claimIDs = {}, g_depth = 2\<rparr> (zero_claim\<lparr>c_Position := NewPosition 1 0, c_ContractIndex := 1\<rparr>) (NewPosition 2 2) =
      Some (bind_res (creator 0 pre post) (\<lambda>p. Ok (Translate p 2))) \<and>
    TraceIndex (c_Position pre) 1 = Ok 0 \<and> TraceIndex (c_Position post) 1 = Ok 1"
proof (intro allI)
  fix tp creator
  let ?r = "zero_claim\<lparr>c_Position := NewPosition 0 0\<rparr>" and ?c = "zero_claim\<lparr>c_Position := NewPosition 1 0, c_ContractIndex := 1\<rparr>"
  let ?g = "\<lparr>g_claims = [?r, ?c], g_claimIDs = {}, g_depth = 2\<rparr>"
  have m: "Attack (NewPosition 0 0) = NewPosition 1 0" "Defend (NewPosition 1 0) = NewPosition 2 2"
    by (simp_all add: NewPosition_def Attack_def Defend_def pos_parent_def parentIndexAtDepth_def pos_move_def lshIndex_def)
  have p: "pos_at [?r, ?c] 0 = NewPosition 0 0" "pos_at [?r, ?c] (Suc 0) = NewPosition 1 0" "par [?r, ?c] (Suc 0) = 0"
    "depth_at [?r, ?c] 0 = 0" "depth_at [?r, ?c] (Suc 0) = 1"
    by (simp_all add: pos_at_def par_def depth_at_def zero_claim_def NewPosition_def)
  have l: "legal_game ?g" by (simp add: legal_def legal_claim_def p m) (simp add: zero_claim_def)
  have q: "queried (unat (g_depth ?g)) (g_claims ?g) 1 (NewPosition 2 2)" by (simp add: queried_def p m)
  have d: "(0 :: u64) < 1" "1 \<le> pos_depth (c_Position (g_claims ?g ! 1))" "(1 :: u64) < pos_depth (NewPosition 2 2)" "1 < length (g_claims ?g)"
    by (simp_all add: NewPosition_def)
  have k: "IndexAtDepth (NewPosition 2 2) div 2 ^ (unat (pos_depth (NewPosition 2 2)) - unat (1 :: u64)) = 1"
    by (simp add: NewPosition_def)
  from split_disputes_one_block [OF l d(4,1,2) q d(3), of tp creator, unfolded k] show "\<exists>pre post. NewSplitProviderSelector tp 1 creator ?g ?c (NewPosition 2 2) =
      Some (bind_res (creator 0 pre post) (\<lambda>p. Ok (Translate p 2))) \<and>
    TraceIndex (c_Position pre) 1 = Ok 0 \<and> TraceIndex (c_Position post) 1 = Ok 1" by auto
qed

end
