(* ===== verification/DeriveSpanBits.thy ===== *)
theory DeriveSpanBits
  imports DeriveFrame
begin

unbundle bit_operations_syntax

text \<open>
  The low-level formats of a span batch: the variable-length integers of the standard library's
  \<open>encoding/binary\<close>, and the bit lists of \<open>op-node/rollup/derive/span_batch_util.go\<close>. A
  \<open>big.Int\<close> used as a bit list is a natural number, \<open>None\<close> the nil pointer. Writing to a buffer
  does not fail, so a writer gives its bytes. Sizes of buffers are bounded by the callers.
\<close>

definition MaxSpanBatchElementCount :: u64 where "MaxSpanBatchElementCount = 10000000"

definition ErrTooBigSpanBatchSize :: string where "ErrTooBigSpanBatchSize = ''span batch size limit reached''"

definition ErrEmptySpanBatch :: string where "ErrEmptySpanBatch = ''span-batch must not be empty''"

text \<open>The number of rounds of \<open>for i := 0; i < int(n); i++\<close>, with \<open>int\<close> of 64 bits.\<close>

definition rounds :: "u64 \<Rightarrow> nat" where
  "rounds n = (if n < 0x8000000000000000 then unat n else 0)"

lemma rounds_small: "n \<le> MaxSpanBatchElementCount \<Longrightarrow> rounds n = unat n"
  by (simp add: rounds_def MaxSpanBatchElementCount_def word_le_nat_alt word_less_nat_alt)

lemma count_word:
  assumes "k \<le> unat MaxSpanBatchElementCount"
  shows "unat (of_nat k :: u64) = k" "(of_nat k :: u64) \<le> MaxSpanBatchElementCount" "rounds (of_nat k) = k"
proof -
  have "k < 2 ^ 64" using assms by (simp add: MaxSpanBatchElementCount_def)
  then show u: "unat (of_nat k :: u64) = k" by (simp add: unat_of_nat)
  then show m: "(of_nat k :: u64) \<le> MaxSpanBatchElementCount" using assms by (simp add: word_le_nat_alt)
  show "rounds (of_nat k) = k" using rounds_small [OF m] u by simp
qed

section \<open>Variable-length integers\<close>

lemma unat_drop7: "unat (drop_bit 7 (x :: u64)) = unat x div 128"
  unfolding unat_drop_bit_eq by (simp add: drop_bit_eq_div)

function PutUvarint :: "u64 \<Rightarrow> bytes" where
  "PutUvarint x = (if x \<ge> 0x80 then (ucast x OR 0x80) # PutUvarint (drop_bit 7 x) else [ucast x])"
  by auto

termination
  by (relation "measure unat") (auto simp: unat_drop7 word_le_nat_alt)

declare PutUvarint.simps [simp del]

fun uvarint_loop :: "nat \<Rightarrow> u64 \<Rightarrow> u64 parser" where
  "uvarint_loop i x [] =
     (if i \<ge> 10 then Err ''binary: varint overflows a 64-bit integer''
      else if i = 0 then Err ''EOF'' else Err ''unexpected EOF'')"
| "uvarint_loop i x (b # bs) =
     (if i \<ge> 10 then Err ''binary: varint overflows a 64-bit integer''
      else if b < 0x80 then
        (if i = 9 \<and> b > 1 then Err ''binary: varint overflows a 64-bit integer''
         else Ok (x OR push_bit (7 * i) (ucast b), bs))
      else uvarint_loop (Suc i) (x OR push_bit (7 * i) (ucast (b AND 0x7F))) bs)"

definition ReadUvarint :: "u64 parser" where
  "ReadUvarint = uvarint_loop 0 0"

lemma varint_bits:
  "bit (0x7F :: int) m \<longleftrightarrow> m < 7" "bit (0x80 :: int) m \<longleftrightarrow> m = 7"
proof -
  have "(0x7F :: int) = mask 7" by (simp add: mask_eq_exp_minus_1)
  then show "bit (0x7F :: int) m \<longleftrightarrow> m < 7" by (simp only: bit_mask_iff) simp
  have "(0x80 :: int) = 2 ^ 7" by simp
  then show "bit (0x80 :: int) m \<longleftrightarrow> m = 7" by (simp only: bit_exp_iff) auto
qed

lemma uvarint_loop_put:
  "i < 10 \<Longrightarrow> unat x < 2 ^ (64 - 7 * i) \<Longrightarrow> uvarint_loop i acc (PutUvarint x @ rest) = Ok (acc OR push_bit (7 * i) x, rest)"
proof (induction x arbitrary: i acc rule: PutUvarint.induct)
  case (1 x)
  show ?case
  proof (cases "x \<ge> 0x80")
    case False
    then have x: "unat x < 128" by (simp add: word_le_nat_alt)
    then have tb: "take_bit 8 (unat x) = unat x" by (intro take_bit_nat_eq_self) simp
    then have b: "unat (ucast x :: byte) = unat x" unfolding unsigned_ucast_eq unsigned_take_bit_eq by simp
    have "unat (take_bit 8 x) = unat x" using tb by (simp only: unsigned_take_bit_eq)
    then have "take_bit 8 x = x" by (simp only: word_unat_eq_iff)
    then have w: "ucast (ucast x :: byte) = x" unfolding unsigned_ucast_eq by simp
    have "i = 9 \<Longrightarrow> unat x < 2" using 1(3) by simp
    then show ?thesis using 1(2) False b x w
      by (subst PutUvarint.simps) (auto simp: word_less_nat_alt)
  next
    case True
    then have x: "128 \<le> unat x" by (simp add: word_le_nat_alt)
    have i: "i < 9"
    proof (rule ccontr)
      assume "\<not> i < 9"
      then have "i = 9" using 1(2) by simp
      then show False using 1(3) x by simp
    qed
    have s: "unat (drop_bit 7 x) < 2 ^ (64 - 7 * Suc i)"
    proof -
      have "64 - 7 * i = 7 + (64 - 7 * Suc i)" using i by simp
      then have "unat x < 2 ^ 7 * 2 ^ (64 - 7 * Suc i)" using 1(3) by (simp only: power_add)
      then show ?thesis by (simp add: unat_drop7 div_less_iff_less_mult mult.commute)
    qed
    let ?b = "ucast x OR 0x80 :: byte"
    have b: "\<not> ?b < 0x80"
    proof
      assume "?b < 0x80"
      then have "take_bit 7 (unat ?b) = unat ?b" by (simp add: word_less_nat_alt take_bit_nat_eq_self)
      then have "\<not> bit (unat ?b) 7" using bit_take_bit_iff [of 7 "unat ?b" 7] by simp
      then show False by (simp add: bit_simps)
    qed
    have j: "(acc OR push_bit (7 * i) (ucast (?b AND 0x7F))) OR push_bit (7 * Suc i) (drop_bit 7 x) = acc OR push_bit (7 * i) x"
    proof (rule bit_eqI)
      fix n assume "possible_bit TYPE(u64) n"
      then have n: "n < 64" by simp
      show "bit ((acc OR push_bit (7 * i) (ucast (?b AND 0x7F))) OR push_bit (7 * Suc i) (drop_bit 7 x)) n \<longleftrightarrow> bit (acc OR push_bit (7 * i) x) n"
        using n i by (cases "n < 7 * i + 7") (auto simp: bit_simps varint_bits)
    qed
    show ?thesis using 1(1) [OF True _ s, of "acc OR push_bit (7 * i) (ucast (?b AND 0x7F))"] i b True j
      by (subst PutUvarint.simps) simp
  qed
qed

interpretation uvarint: codec PutUvarint ReadUvarint "\<lambda>_. True"
  by unfold_locales (simp add: ReadUvarint_def uvarint_loop_put unat_bounds [simplified])

declare uvarint.dec_enc [codec_simps]

lemma uvarint_no_panic: "\<not> is_panic (ReadUvarint bs)"
proof -
  have "\<not> is_panic (uvarint_loop i x bs)" for i x by (induction bs arbitrary: i x) simp_all
  then show ?thesis by (simp add: ReadUvarint_def)
qed

section \<open>Bit lists\<close>

text \<open>\<open>big.Int\<close>: \<open>Bit\<close>, \<open>SetBit\<close> and \<open>FillBytes\<close>.\<close>

type_synonym bitlist = "nat option"

definition nil_deref :: string where "nil_deref = ''nil pointer dereference''"

definition Bit :: "bitlist \<Rightarrow> nat \<Rightarrow> nat res" where
  "Bit bits i = (case bits of None \<Rightarrow> Panic nil_deref | Some b \<Rightarrow> Ok (of_bool (bit b i)))"

definition SetBit :: "bitlist \<Rightarrow> nat \<Rightarrow> u64 \<Rightarrow> bitlist res" where
  "SetBit bits i b = (case bits of None \<Rightarrow> Panic nil_deref
     | Some n \<Rightarrow> if b = 0 then Ok (Some (unset_bit i n)) else if b = 1 then Ok (Some (set_bit i n))
         else Panic ''set bit is not 0 or 1'')"

definition FillBytes :: "nat \<Rightarrow> nat \<Rightarrow> bytes res" where
  "FillBytes len n = guard_panic (n < 256 ^ len) ''math/big: buffer too small to fit value'' (Ok (be_encode len n))"

definition bits_buf :: "u64 \<Rightarrow> u64" where
  "bits_buf bitLength = (if bitLength mod 8 \<noteq> 0 then bitLength div 8 + 1 else bitLength div 8)"

definition decodeSpanBatchBits :: "u64 \<Rightarrow> bitlist parser" where
  "decodeSpanBatchBits bitLength r =
     bind_res (wrap_err (\<lambda>e. ''failed to read bits: '' @ e) (read_full (unat (bits_buf bitLength)) r)) (\<lambda>(buf, r).
     let out = be_decode buf in
     guard_err (of_nat (bits_len out) \<le> bitLength) ''bitfield has more bits than expected''
     (Ok (Some out, r)))"

definition encodeSpanBatchBits :: "u64 \<Rightarrow> bitlist \<Rightarrow> bytes res" where
  "encodeSpanBatchBits bitLength bits =
     (case bits of
        None \<Rightarrow> Panic nil_deref
      | Some b \<Rightarrow>
          guard_err (of_nat (bits_len b) \<le> bitLength) ''bitfield is larger than bitLength''
          (FillBytes (unat (bits_buf bitLength)) b))"

lemma bits_len_le_iff: "bits_len n \<le> d \<longleftrightarrow> n < 2 ^ d"
proof (cases "bits_len n")
  case (Suc k)
  then have k: "2 ^ k \<le> n" "n < 2 ^ Suc k" using bits_len_iff by blast+
  show ?thesis
  proof
    assume "bits_len n \<le> d"
    then have "(2 :: nat) ^ Suc k \<le> 2 ^ d" using Suc by (intro power_increasing) simp_all
    then show "n < 2 ^ d" using k(2) by linarith
  next
    assume "n < 2 ^ d"
    then have "(2 :: nat) ^ k < 2 ^ d" using k(1) by linarith
    then show "bits_len n \<le> d" using Suc by simp
  qed
qed simp

lemma unat_bits_buf: "unat (bits_buf n) = (unat n + 7) div 8"
proof -
  have m: "n mod 8 = 0 \<longleftrightarrow> unat n mod 8 = 0" by (simp add: word_unat_eq_iff unat_mod_distrib)
  have "unat n div 8 + 1 < 2 ^ 64" using unat_bounds(3) [of n] by simp
  then have "unat (n div 8 + 1) = unat n div 8 + 1" by (simp add: unat_word_ariths unat_div_distrib)
  then show ?thesis using m by (simp add: bits_buf_def unat_div_distrib) presburger
qed

lemma span_bits_roundtrip:
  assumes "b < 2 ^ unat n"
  obtains e where "encodeSpanBatchBits n (Some b) = Ok e" "decodeSpanBatchBits n (e @ rest) = Ok (Some b, rest)"
proof -
  let ?l = "(unat n + 7) div 8"
  have "bits_len b \<le> unat n" using assms by (simp add: bits_len_le_iff)
  then have l: "(of_nat (bits_len b) :: u64) \<le> n" using mod_less_eq_dividend [of "bits_len b" "2 ^ 64"]
    by (simp add: word_le_nat_alt unat_of_nat)
  have "(2 :: nat) ^ unat n \<le> 2 ^ (8 * ?l)" by (intro power_increasing) simp_all
  then have f: "b < 256 ^ ?l" using assms by (simp add: power_mult)
  show ?thesis
    by (rule that [of "be_encode ?l b"])
      (simp_all add: encodeSpanBatchBits_def decodeSpanBatchBits_def unat_bits_buf FillBytes_def f l read_full_append
        be_decode_encode Let_def)
qed

lemma decode_bits_Ok:
  assumes "decodeSpanBatchBits n bs = Ok (b, rest)"
  shows "\<exists>x. b = Some x"
  using assms by (auto simp: decodeSpanBatchBits_def res_simps Let_def)

lemma read_full_no_panic: "\<not> is_panic (read_full n bs)"
  by (simp add: read_full_def)

end
