(* ===== verification/DeriveSpanTx.thy ===== *)
theory DeriveSpanTx
  imports DeriveSpanBits BatchTypes
begin

text \<open>
  The transactions of a span batch, after \<open>op-node/rollup/derive/span_batch_tx.go\<close>: of each
  transaction the fields that are not stored in a column of their own. A \<open>types.Transaction\<close> of
  go-ethereum is given by the fields that the code sets and reads, integers of any size being
  natural numbers. What go-ethereum computes (RLP, the binary form of a transaction, the chain that
  a signature is for) is a parameter, the record \<open>geth\<close>.
\<close>

section \<open>Transactions\<close>

type_synonym access_list = "(address \<times> hash list) list"

record legacy_tx =
  ltx_Nonce :: u64
  ltx_GasPrice :: nat
  ltx_Gas :: u64
  ltx_To :: "address option"
  ltx_Value :: nat
  ltx_Data :: bytes
  ltx_V :: nat
  ltx_R :: nat
  ltx_S :: nat

record access_list_tx =
  atx_ChainID :: nat
  atx_Nonce :: u64
  atx_GasPrice :: nat
  atx_Gas :: u64
  atx_To :: "address option"
  atx_Value :: nat
  atx_Data :: bytes
  atx_AccessList :: access_list
  atx_V :: nat
  atx_R :: nat
  atx_S :: nat

record dynamic_fee_tx =
  dtx_ChainID :: nat
  dtx_Nonce :: u64
  dtx_GasTipCap :: nat
  dtx_GasFeeCap :: nat
  dtx_Gas :: u64
  dtx_To :: "address option"
  dtx_Value :: nat
  dtx_Data :: bytes
  dtx_AccessList :: access_list
  dtx_V :: nat
  dtx_R :: nat
  dtx_S :: nat

text \<open>Of the other types the code sees the type, the recipient and the signature.\<close>

datatype transaction =
    LegacyTx legacy_tx
  | AccessListTx access_list_tx
  | DynamicFeeTx dynamic_fee_tx
  | OtherTx u8 "address option" nat nat nat

definition LegacyTxType :: u8 where "LegacyTxType = 0"
definition AccessListTxType :: u8 where "AccessListTxType = 1"
definition DynamicFeeTxType :: u8 where "DynamicFeeTxType = 2"

lemmas tx_types [simp] = LegacyTxType_def AccessListTxType_def DynamicFeeTxType_def

fun tx_Type :: "transaction \<Rightarrow> u8" where
  "tx_Type (LegacyTx t) = LegacyTxType"
| "tx_Type (AccessListTx t) = AccessListTxType"
| "tx_Type (DynamicFeeTx t) = DynamicFeeTxType"
| "tx_Type (OtherTx k to v r s) = k"

fun tx_To :: "transaction \<Rightarrow> address option" where
  "tx_To (LegacyTx t) = ltx_To t"
| "tx_To (AccessListTx t) = atx_To t"
| "tx_To (DynamicFeeTx t) = dtx_To t"
| "tx_To (OtherTx k to v r s) = to"

fun tx_RawSignatureValues :: "transaction \<Rightarrow> nat \<times> nat \<times> nat" where
  "tx_RawSignatureValues (LegacyTx t) = (ltx_V t, ltx_R t, ltx_S t)"
| "tx_RawSignatureValues (AccessListTx t) = (atx_V t, atx_R t, atx_S t)"
| "tx_RawSignatureValues (DynamicFeeTx t) = (dtx_V t, dtx_R t, dtx_S t)"
| "tx_RawSignatureValues (OtherTx k to v r s) = (v, r, s)"

fun tx_Nonce :: "transaction \<Rightarrow> u64" where
  "tx_Nonce (LegacyTx t) = ltx_Nonce t"
| "tx_Nonce (AccessListTx t) = atx_Nonce t"
| "tx_Nonce (DynamicFeeTx t) = dtx_Nonce t"
| "tx_Nonce (OtherTx k to v r s) = 0"

fun tx_Gas :: "transaction \<Rightarrow> u64" where
  "tx_Gas (LegacyTx t) = ltx_Gas t"
| "tx_Gas (AccessListTx t) = atx_Gas t"
| "tx_Gas (DynamicFeeTx t) = dtx_Gas t"
| "tx_Gas (OtherTx k to v r s) = 0"

section \<open>The data of a transaction in a span batch\<close>

record spanBatchLegacyTxData =
  lg_Value :: nat
  lg_GasPrice :: nat
  lg_Data :: bytes

record spanBatchAccessListTxData =
  al_Value :: nat
  al_GasPrice :: nat
  al_Data :: bytes
  al_AccessList :: access_list

record spanBatchDynamicFeeTxData =
  df_Value :: nat
  df_GasTipCap :: nat
  df_GasFeeCap :: nat
  df_Data :: bytes
  df_AccessList :: access_list

datatype spanBatchTx =
    SpanLegacy spanBatchLegacyTxData
  | SpanAccessList spanBatchAccessListTxData
  | SpanDynamicFee spanBatchDynamicFeeTxData

fun txType :: "spanBatchTx \<Rightarrow> u8" where
  "txType (SpanLegacy d) = LegacyTxType"
| "txType (SpanAccessList d) = AccessListTxType"
| "txType (SpanDynamicFee d) = DynamicFeeTxType"

section \<open>go-ethereum\<close>

datatype rlp_kind = KindByte | KindString | KindList

record geth =
  rlp_Kind :: "u64 \<Rightarrow> bytes \<Rightarrow> rlp_kind res"
  rlp_Raw :: "u64 \<Rightarrow> bytes parser"
  rlp_Bytes :: "bytes parser"
  rlp_EncodeBytes :: "bytes \<Rightarrow> bytes res"
  rlp_EncodeLegacy :: "spanBatchLegacyTxData \<Rightarrow> bytes res"
  rlp_DecodeLegacy :: "bytes \<Rightarrow> spanBatchLegacyTxData res"
  rlp_EncodeAccessList :: "spanBatchAccessListTxData \<Rightarrow> bytes res"
  rlp_DecodeAccessList :: "bytes \<Rightarrow> spanBatchAccessListTxData res"
  rlp_EncodeDynamicFee :: "spanBatchDynamicFeeTxData \<Rightarrow> bytes res"
  rlp_DecodeDynamicFee :: "bytes \<Rightarrow> spanBatchDynamicFeeTxData res"
  rlp_EncodeSingular :: "singular_batch \<Rightarrow> bytes res"
  rlp_DecodeSingular :: "singular_batch parser"
  tx_UnmarshalBinary :: "bytes \<Rightarrow> transaction res"
  tx_MarshalBinary :: "transaction \<Rightarrow> bytes res"
  tx_Protected :: "transaction \<Rightarrow> bool"
  tx_ChainId :: "transaction \<Rightarrow> nat"

definition ErrValueTooLarge :: string where
  "ErrValueTooLarge = ''rlp: value size exceeds available input length''"

section \<open>Encoding and decoding\<close>

definition encodeTyped :: "geth \<Rightarrow> spanBatchTx \<Rightarrow> bytes res" where
  "encodeTyped G tx = bind_res
     (case tx of SpanLegacy d \<Rightarrow> rlp_EncodeLegacy G d | SpanAccessList d \<Rightarrow> rlp_EncodeAccessList G d
       | SpanDynamicFee d \<Rightarrow> rlp_EncodeDynamicFee G d) (\<lambda>e. Ok (txType tx # e))"

definition stx_MarshalBinary :: "geth \<Rightarrow> spanBatchTx \<Rightarrow> bytes res" where
  "stx_MarshalBinary G tx = (case tx of SpanLegacy d \<Rightarrow> rlp_EncodeLegacy G d | _ \<Rightarrow> encodeTyped G tx)"

definition decodeTyped :: "geth \<Rightarrow> bytes \<Rightarrow> spanBatchTx res" where
  "decodeTyped G b =
     (if length b \<le> 1 then Err ''failed to decode span batch: typed transaction too short''
      else if b ! 0 = AccessListTxType then
        bind_res (wrap_err (\<lambda>e. ''failed to decode spanBatchAccessListTxData: '' @ e) (rlp_DecodeAccessList G (drop 1 b)))
          (\<lambda>inner. Ok (SpanAccessList inner))
      else if b ! 0 = DynamicFeeTxType then
        bind_res (wrap_err (\<lambda>e. ''failed to decode spanBatchDynamicFeeTxData: '' @ e) (rlp_DecodeDynamicFee G (drop 1 b)))
          (\<lambda>inner. Ok (SpanDynamicFee inner))
      else Err ''transaction type not supported'')"

definition stx_UnmarshalBinary :: "geth \<Rightarrow> bytes \<Rightarrow> spanBatchTx res" where
  "stx_UnmarshalBinary G b =
     (if 0 < length b \<and> b ! 0 > 0x7F then
        bind_res (wrap_err (\<lambda>e. ''failed to decode spanBatchLegacyTxData: '' @ e) (rlp_DecodeLegacy G b)) (\<lambda>d. Ok (SpanLegacy d))
      else decodeTyped G b)"

fun convertToFullTx :: "spanBatchTx \<Rightarrow> u64 \<Rightarrow> u64 \<Rightarrow> address option \<Rightarrow> nat \<Rightarrow> nat \<Rightarrow> nat \<Rightarrow> nat \<Rightarrow> transaction" where
  "convertToFullTx (SpanLegacy d) nonce gas to chainID V R S = LegacyTx
     \<lparr>ltx_Nonce = nonce, ltx_GasPrice = lg_GasPrice d, ltx_Gas = gas, ltx_To = to, ltx_Value = lg_Value d,
      ltx_Data = lg_Data d, ltx_V = V, ltx_R = R, ltx_S = S\<rparr>"
| "convertToFullTx (SpanAccessList d) nonce gas to chainID V R S = AccessListTx
     \<lparr>atx_ChainID = chainID, atx_Nonce = nonce, atx_GasPrice = al_GasPrice d, atx_Gas = gas, atx_To = to,
      atx_Value = al_Value d, atx_Data = al_Data d, atx_AccessList = al_AccessList d, atx_V = V, atx_R = R, atx_S = S\<rparr>"
| "convertToFullTx (SpanDynamicFee d) nonce gas to chainID V R S = DynamicFeeTx
     \<lparr>dtx_ChainID = chainID, dtx_Nonce = nonce, dtx_GasTipCap = df_GasTipCap d, dtx_GasFeeCap = df_GasFeeCap d,
      dtx_Gas = gas, dtx_To = to, dtx_Value = df_Value d, dtx_Data = df_Data d, dtx_AccessList = df_AccessList d,
      dtx_V = V, dtx_R = R, dtx_S = S\<rparr>"

fun newSpanBatchTx :: "transaction \<Rightarrow> spanBatchTx res" where
  "newSpanBatchTx (LegacyTx t) = Ok (SpanLegacy \<lparr>lg_Value = ltx_Value t, lg_GasPrice = ltx_GasPrice t, lg_Data = ltx_Data t\<rparr>)"
| "newSpanBatchTx (AccessListTx t) = Ok (SpanAccessList
     \<lparr>al_Value = atx_Value t, al_GasPrice = atx_GasPrice t, al_Data = atx_Data t, al_AccessList = atx_AccessList t\<rparr>)"
| "newSpanBatchTx (DynamicFeeTx t) = Ok (SpanDynamicFee
     \<lparr>df_Value = dtx_Value t, df_GasTipCap = dtx_GasTipCap t, df_GasFeeCap = dtx_GasFeeCap t, df_Data = dtx_Data t,
      df_AccessList = dtx_AccessList t\<rparr>)"
| "newSpanBatchTx (OtherTx k to v r s) = Err ''invalid tx type''"

section \<open>The laws of go-ethereum that the batches rely on\<close>

text \<open>
  An RLP encoding of a struct starts with the prefix of a list, and a stream over it, in front of
  anything, has the kind of a list and reads it whole when it is within the limit. RLP and the
  binary form of transactions are canonical: what was encoded decodes to itself, and a transaction
  that was decoded encodes to the bytes it came from. Signatures name their chain by EIP-155.
\<close>

definition rlp_list_item :: "geth \<Rightarrow> bytes \<Rightarrow> bool" where
  "rlp_list_item G e \<longleftrightarrow> e \<noteq> [] \<and> hd e \<ge> 0xC0 \<and>
     (length e \<le> unat MaxSpanBatchElementCount \<longrightarrow>
       (\<forall>rest. rlp_Kind G MaxSpanBatchElementCount (e @ rest) = Ok KindList \<and>
         rlp_Raw G MaxSpanBatchElementCount (e @ rest) = Ok (e, rest)))"

definition rlp_laws :: "geth \<Rightarrow> bool" where
  "rlp_laws G \<longleftrightarrow>
     (\<forall>d. \<exists>e. rlp_EncodeLegacy G d = Ok e \<and> rlp_DecodeLegacy G e = Ok d \<and> rlp_list_item G e) \<and>
     (\<forall>d. \<exists>e. rlp_EncodeAccessList G d = Ok e \<and> rlp_DecodeAccessList G e = Ok d \<and> rlp_list_item G e) \<and>
     (\<forall>d. \<exists>e. rlp_EncodeDynamicFee G d = Ok e \<and> rlp_DecodeDynamicFee G e = Ok d \<and> rlp_list_item G e)"

definition protected_V :: "nat \<Rightarrow> bool" where
  "protected_V v \<longleftrightarrow> v \<noteq> 27 \<and> v \<noteq> 28 \<and> v \<noteq> 0 \<and> v \<noteq> 1"

fun tx_laws :: "geth \<Rightarrow> transaction \<Rightarrow> bool" where
  "tx_laws G (LegacyTx t) \<longleftrightarrow> tx_Protected G (LegacyTx t) = protected_V (ltx_V t) \<and>
     (\<forall>c y. y < 2 \<longrightarrow> ltx_V t = 2 * c + 35 + y \<longrightarrow> tx_ChainId G (LegacyTx t) = c)"
| "tx_laws G (AccessListTx t) \<longleftrightarrow> tx_ChainId G (AccessListTx t) = atx_ChainID t"
| "tx_laws G (DynamicFeeTx t) \<longleftrightarrow> tx_ChainId G (DynamicFeeTx t) = dtx_ChainID t"
| "tx_laws G (OtherTx k to v r s) \<longleftrightarrow> True"

definition geth_laws :: "geth \<Rightarrow> bool" where
  "geth_laws G \<longleftrightarrow> rlp_laws G \<and> (\<forall>t. tx_laws G t) \<and>
     (\<forall>raw t. tx_UnmarshalBinary G raw = Ok t \<longrightarrow> tx_MarshalBinary G t = Ok raw)"

lemma stx_roundtrip:
  assumes "geth_laws G"
  obtains e where "stx_MarshalBinary G tx = Ok e" "stx_UnmarshalBinary G e = Ok tx"
    "e \<noteq> []" "if txType tx = 0 then rlp_list_item G e else hd e = txType tx \<and> rlp_list_item G (tl e)"
proof (cases tx)
  case (SpanLegacy d)
  with assms obtain e where e: "rlp_EncodeLegacy G d = Ok e" "rlp_DecodeLegacy G e = Ok d" "rlp_list_item G e"
    unfolding geth_laws_def rlp_laws_def by blast
  have ne: "e \<noteq> []" and h: "hd e \<ge> 0xC0" using e(3) by (auto simp: rlp_list_item_def)
  have "hd e > 0x7F" by (rule less_le_trans [OF _ h]) simp
  then have "e ! 0 > 0x7F" using ne by (simp add: hd_conv_nth)
  with SpanLegacy e ne show ?thesis
    by (intro that [of e]) (simp_all add: stx_MarshalBinary_def stx_UnmarshalBinary_def)
next
  case (SpanAccessList d)
  with assms obtain e where e: "rlp_EncodeAccessList G d = Ok e" "rlp_DecodeAccessList G e = Ok d" "rlp_list_item G e"
    unfolding geth_laws_def rlp_laws_def by blast
  then have "e \<noteq> []" by (simp add: rlp_list_item_def)
  with SpanAccessList e show ?thesis
    by (intro that [of "1 # e"]) (simp_all add: stx_MarshalBinary_def stx_UnmarshalBinary_def encodeTyped_def decodeTyped_def)
next
  case (SpanDynamicFee d)
  with assms obtain e where e: "rlp_EncodeDynamicFee G d = Ok e" "rlp_DecodeDynamicFee G e = Ok d" "rlp_list_item G e"
    unfolding geth_laws_def rlp_laws_def by blast
  then have "e \<noteq> []" by (simp add: rlp_list_item_def)
  with SpanDynamicFee e show ?thesis
    by (intro that [of "2 # e"]) (simp_all add: stx_MarshalBinary_def stx_UnmarshalBinary_def encodeTyped_def decodeTyped_def)
qed

end
