(* ===== verification/DeriveSpanTxs.thy ===== *)
theory DeriveSpanTxs
  imports DeriveSpanTx
begin

unbundle bit_operations_syntax

text \<open>
  The columns that hold the transactions of a span batch, after
  \<open>op-node/rollup/derive/span_batch_txs.go\<close>, and \<open>ReadTxData\<close> of \<open>span_batch.go\<close>. A writer gives
  its bytes; a reader that fills a column takes the columns so far and the bytes left. An operation
  that can fail after it has changed the columns (\<open>AddTxs\<close>) gives them back with its outcome.
\<close>

section \<open>Columns\<close>

record spanBatchSignature =
  sig_v :: u64
  sig_r :: "256 word"
  sig_s :: "256 word"

record spanBatchTxs =
  st_totalBlockTxCount :: u64
  st_contractCreationBits :: bitlist
  st_yParityBits :: bitlist
  st_txSigs :: "spanBatchSignature list"
  st_txNonces :: "u64 list"
  st_txGases :: "u64 list"
  st_txTos :: "address list"
  st_txDatas :: "bytes list"
  st_protectedBits :: bitlist
  st_txTypes :: "u8 list"
  st_totalLegacyTxCount :: u64

definition zero_spanBatchTxs :: spanBatchTxs where
  "zero_spanBatchTxs = \<lparr>st_totalBlockTxCount = 0, st_contractCreationBits = None, st_yParityBits = None,
     st_txSigs = [], st_txNonces = [], st_txGases = [], st_txTos = [], st_txDatas = [], st_protectedBits = None,
     st_txTypes = [], st_totalLegacyTxCount = 0\<rparr>"

section \<open>Writing\<close>

definition encodeContractCreationBits :: "spanBatchTxs \<Rightarrow> bytes res" where
  "encodeContractCreationBits btx = wrap_err (\<lambda>e. ''failed to encode contract creation bits: '' @ e)
     (encodeSpanBatchBits (st_totalBlockTxCount btx) (st_contractCreationBits btx))"

definition encodeProtectedBits :: "spanBatchTxs \<Rightarrow> bytes res" where
  "encodeProtectedBits btx = wrap_err (\<lambda>e. ''failed to encode protected bits: '' @ e)
     (encodeSpanBatchBits (st_totalLegacyTxCount btx) (st_protectedBits btx))"

definition encodeYParityBits :: "spanBatchTxs \<Rightarrow> bytes res" where
  "encodeYParityBits btx = wrap_err (\<lambda>e. ''failed to encode y-parity bits: '' @ e)
     (encodeSpanBatchBits (st_totalBlockTxCount btx) (st_yParityBits btx))"

definition sig_bytes :: "spanBatchSignature \<Rightarrow> bytes" where
  "sig_bytes s = hash_bytes (sig_r s) @ hash_bytes (sig_s s)"

definition encodeTxSigsRS :: "spanBatchTxs \<Rightarrow> bytes" where
  "encodeTxSigsRS btx = concat (map sig_bytes (st_txSigs btx))"

definition encodeTxNonces :: "spanBatchTxs \<Rightarrow> bytes" where
  "encodeTxNonces btx = concat (map PutUvarint (st_txNonces btx))"

definition encodeTxGases :: "spanBatchTxs \<Rightarrow> bytes" where
  "encodeTxGases btx = concat (map PutUvarint (st_txGases btx))"

definition encodeTxTos :: "spanBatchTxs \<Rightarrow> bytes" where
  "encodeTxTos btx = concat (map address_bytes (st_txTos btx))"

definition encodeTxDatas :: "spanBatchTxs \<Rightarrow> bytes" where
  "encodeTxDatas btx = concat (st_txDatas btx)"

definition txs_encode :: "spanBatchTxs \<Rightarrow> bytes res" where
  "txs_encode btx =
     bind_res (encodeContractCreationBits btx) (\<lambda>cc.
     bind_res (encodeYParityBits btx) (\<lambda>yp.
     bind_res (encodeProtectedBits btx) (\<lambda>pb.
     Ok (cc @ yp @ encodeTxSigsRS btx @ encodeTxTos btx @ encodeTxDatas btx @ encodeTxNonces btx @
       encodeTxGases btx @ pb))))"

section \<open>Reading\<close>

definition decodeContractCreationBits :: "spanBatchTxs \<Rightarrow> spanBatchTxs parser" where
  "decodeContractCreationBits btx r =
     guard_err (st_totalBlockTxCount btx \<le> MaxSpanBatchElementCount) ErrTooBigSpanBatchSize
     (bind_res (wrap_err (\<lambda>e. ''failed to decode contract creation bits: '' @ e)
         (decodeSpanBatchBits (st_totalBlockTxCount btx) r)) (\<lambda>(bits, r).
      Ok (btx\<lparr>st_contractCreationBits := bits\<rparr>, r)))"

definition decodeProtectedBits :: "spanBatchTxs \<Rightarrow> spanBatchTxs parser" where
  "decodeProtectedBits btx r =
     guard_err (st_totalLegacyTxCount btx \<le> MaxSpanBatchElementCount) ErrTooBigSpanBatchSize
     (bind_res (wrap_err (\<lambda>e. ''failed to decode protected bits: '' @ e)
         (decodeSpanBatchBits (st_totalLegacyTxCount btx) r)) (\<lambda>(bits, r).
      Ok (btx\<lparr>st_protectedBits := bits\<rparr>, r)))"

definition decodeYParityBits :: "spanBatchTxs \<Rightarrow> spanBatchTxs parser" where
  "decodeYParityBits btx r =
     bind_res (wrap_err (\<lambda>e. ''failed to decode y-parity bits: '' @ e)
         (decodeSpanBatchBits (st_totalBlockTxCount btx) r)) (\<lambda>(bits, r).
     Ok (btx\<lparr>st_yParityBits := bits\<rparr>, r))"

fun count_bits :: "bitlist \<Rightarrow> nat \<Rightarrow> nat \<Rightarrow> u64 \<Rightarrow> u64 res" where
  "count_bits bits i 0 result = Ok result"
| "count_bits bits i (Suc n) result =
     bind_res (Bit bits i) (\<lambda>b. count_bits bits (Suc i) n (if b = 1 then result + 1 else result))"

definition contractCreationCount :: "spanBatchTxs \<Rightarrow> u64 res" where
  "contractCreationCount btx =
     guard_err (st_contractCreationBits btx \<noteq> None) ''dev error: contract creation bits not set''
     (count_bits (st_contractCreationBits btx) 0 (rounds (st_totalBlockTxCount btx)) 0)"

definition read_sig :: "spanBatchSignature parser" where
  "read_sig r =
     bind_res (wrap_err (\<lambda>e. ''failed to read tx sig r: '' @ e) (read_full 32 r)) (\<lambda>(rb, r).
     bind_res (wrap_err (\<lambda>e. ''failed to read tx sig s: '' @ e) (read_full 32 r)) (\<lambda>(sb, r).
     Ok (\<lparr>sig_v = 0, sig_r = of_nat (be_decode rb), sig_s = of_nat (be_decode sb)\<rparr>, r)))"

definition decodeTxSigsRS :: "spanBatchTxs \<Rightarrow> spanBatchTxs parser" where
  "decodeTxSigsRS btx r =
     bind_res (read_list read_sig (rounds (st_totalBlockTxCount btx)) r) (\<lambda>(sigs, r).
     Ok (btx\<lparr>st_txSigs := sigs\<rparr>, r))"

definition decodeTxNonces :: "spanBatchTxs \<Rightarrow> spanBatchTxs parser" where
  "decodeTxNonces btx r =
     bind_res (read_list (\<lambda>r. wrap_err (\<lambda>e. ''failed to read tx nonce: '' @ e) (ReadUvarint r))
         (rounds (st_totalBlockTxCount btx)) r) (\<lambda>(nonces, r).
     Ok (btx\<lparr>st_txNonces := nonces\<rparr>, r))"

definition decodeTxGases :: "spanBatchTxs \<Rightarrow> spanBatchTxs parser" where
  "decodeTxGases btx r =
     bind_res (read_list (\<lambda>r. wrap_err (\<lambda>e. ''failed to read tx gas: '' @ e) (ReadUvarint r))
         (rounds (st_totalBlockTxCount btx)) r) (\<lambda>(gases, r).
     Ok (btx\<lparr>st_txGases := gases\<rparr>, r))"

definition read_address :: "address parser" where
  "read_address r =
     bind_res (wrap_err (\<lambda>e. ''failed to read tx to address: '' @ e) (read_full 20 r)) (\<lambda>(b, r).
     Ok (BytesToAddress b, r))"

definition decodeTxTos :: "spanBatchTxs \<Rightarrow> spanBatchTxs parser" where
  "decodeTxTos btx r =
     bind_res (contractCreationCount btx) (\<lambda>count.
     bind_res (read_list read_address (rounds (st_totalBlockTxCount btx - count)) r) (\<lambda>(tos, r).
     Ok (btx\<lparr>st_txTos := tos\<rparr>, r)))"

definition ReadTxData :: "geth \<Rightarrow> (bytes \<times> u8) parser" where
  "ReadTxData G r = (case r of
       [] \<Rightarrow> Err ''failed to read tx initial byte: EOF''
     | b # r' \<Rightarrow>
         let (txType, txData, r) = (if unat b \<le> 0x7F then (b, [b], r') else (0, [], r)) in
         (case rlp_Kind G MaxSpanBatchElementCount r of
            Err e \<Rightarrow> if e = ErrValueTooLarge then Err ErrTooBigSpanBatchSize
                else Err (''failed to read tx RLP prefix: '' @ e)
          | Panic e \<Rightarrow> Panic e
          | Ok kind \<Rightarrow>
              if kind = KindList then
                bind_res (wrap_err (\<lambda>e. ''failed to read tx RLP payload: '' @ e) (rlp_Raw G MaxSpanBatchElementCount r))
                  (\<lambda>(txPayload, r). Ok ((txData @ txPayload, txType), r))
              else Err ''tx RLP prefix type must be list''))"

definition decodeTxDatas :: "geth \<Rightarrow> spanBatchTxs \<Rightarrow> spanBatchTxs parser" where
  "decodeTxDatas G btx r =
     bind_res (read_list (ReadTxData G) (rounds (st_totalBlockTxCount btx)) r) (\<lambda>(items, r).
     Ok (btx\<lparr>st_totalLegacyTxCount := st_totalLegacyTxCount btx + of_nat (length (filter (\<lambda>(d, k). k = LegacyTxType) items)),
       st_txDatas := map fst items, st_txTypes := map snd items\<rparr>, r))"

definition txs_decode :: "geth \<Rightarrow> spanBatchTxs \<Rightarrow> spanBatchTxs parser" where
  "txs_decode G btx r =
     bind_res (decodeContractCreationBits btx r) (\<lambda>(btx, r).
     bind_res (decodeYParityBits btx r) (\<lambda>(btx, r).
     bind_res (decodeTxSigsRS btx r) (\<lambda>(btx, r).
     bind_res (decodeTxTos btx r) (\<lambda>(btx, r).
     bind_res (decodeTxDatas G btx r) (\<lambda>(btx, r).
     bind_res (decodeTxNonces btx r) (\<lambda>(btx, r).
     bind_res (decodeTxGases btx r) (\<lambda>(btx, r).
     decodeProtectedBits btx r)))))))"

section \<open>The full transactions\<close>

text \<open>\<open>recoverV\<close>: the loop runs over the types, and the signatures are as many.\<close>

fun recover_loop :: "bitlist \<Rightarrow> bitlist \<Rightarrow> u64 \<Rightarrow> nat \<Rightarrow> nat \<Rightarrow> u8 list \<Rightarrow> spanBatchSignature list \<Rightarrow> spanBatchSignature list res" where
  "recover_loop yp pb c idx pidx [] sigs = Ok sigs"
| "recover_loop yp pb c idx pidx (t # ts) sigs =
     bind_res (Bit yp idx) (\<lambda>bit.
     bind_res
       (if t = LegacyTxType then bind_res (Bit pb pidx) (\<lambda>p.
          Ok (if p = 0 then 27 + of_nat bit else c * 2 + 35 + of_nat bit, Suc pidx))
        else if t = AccessListTxType then Ok (of_nat bit, pidx)
        else if t = DynamicFeeTxType then Ok (of_nat bit, pidx)
        else Err ''invalid tx type'') (\<lambda>(v, pidx).
     case sigs of [] \<Rightarrow> Panic ''index out of range''
     | s # sigs \<Rightarrow> bind_res (recover_loop yp pb c (Suc idx) pidx ts sigs) (\<lambda>sigs. Ok (s\<lparr>sig_v := v\<rparr> # sigs))))"

definition recoverV :: "spanBatchTxs \<Rightarrow> nat \<Rightarrow> spanBatchTxs res" where
  "recoverV btx chainID =
     guard_err (length (st_txTypes btx) = length (st_txSigs btx)) ''tx type length and tx sigs length mismatch''
     (guard_err (st_protectedBits btx \<noteq> None) ''dev error: protected bits not set''
     (bind_res (recover_loop (st_yParityBits btx) (st_protectedBits btx) (of_nat chainID) 0 0 (st_txTypes btx) (st_txSigs btx))
        (\<lambda>sigs. Ok (btx\<lparr>st_txSigs := sigs\<rparr>))))"

fun full_loop :: "geth \<Rightarrow> spanBatchTxs \<Rightarrow> nat \<Rightarrow> nat \<Rightarrow> nat \<Rightarrow> nat \<Rightarrow> bytes list res" where
  "full_loop G btx chainID 0 idx toIdx = Ok []"
| "full_loop G btx chainID (Suc n) idx toIdx =
     bind_res (index_res (st_txDatas btx) idx) (\<lambda>d.
     bind_res (stx_UnmarshalBinary G d) (\<lambda>stx.
     bind_res (index_res (st_txNonces btx) idx) (\<lambda>nonce.
     bind_res (index_res (st_txGases btx) idx) (\<lambda>gas.
     bind_res (Bit (st_contractCreationBits btx) idx) (\<lambda>bit.
     bind_res
       (if bit = 0 then guard_err (toIdx < length (st_txTos btx)) ''tx to not enough''
          (Ok (Some (st_txTos btx ! toIdx), Suc toIdx))
        else Ok (None, toIdx)) (\<lambda>(to, toIdx).
     bind_res (index_res (st_txSigs btx) idx) (\<lambda>s.
     bind_res (tx_MarshalBinary G
       (convertToFullTx stx nonce gas to chainID (unat (sig_v s)) (unat (sig_r s)) (unat (sig_s s)))) (\<lambda>encodedTx.
     bind_res (full_loop G btx chainID n (Suc idx) toIdx) (\<lambda>txs.
     Ok (encodedTx # txs))))))))))"

definition fullTxs :: "geth \<Rightarrow> spanBatchTxs \<Rightarrow> nat \<Rightarrow> bytes list res" where
  "fullTxs G btx chainID = full_loop G btx chainID (rounds (st_totalBlockTxCount btx)) 0 0"

section \<open>Adding transactions\<close>

definition isProtectedV :: "u64 \<Rightarrow> u8 \<Rightarrow> bool" where
  "isProtectedV v kind = (if kind = LegacyTxType then v \<noteq> 27 \<and> v \<noteq> 28 else True)"

definition convertVToYParity :: "u64 \<Rightarrow> u8 \<Rightarrow> u64 res" where
  "convertVToYParity v kind =
     (if kind = LegacyTxType then
        (if isProtectedV v kind then Ok ((v - 35) AND 1) else Ok (v - 27))
      else if kind = AccessListTxType then Ok v
      else if kind = DynamicFeeTxType then Ok v
      else Err ''invalid tx type'')"

text \<open>Go on with the state of a step that did not fail.\<close>

fun then_st :: "'s \<times> 'a res \<Rightarrow> ('s \<Rightarrow> 'a \<Rightarrow> 's \<times> 'b res) \<Rightarrow> 's \<times> 'b res" where
  "then_st (s, Ok x) f = f s x"
| "then_st (s, Err e) f = (s, Err e)"
| "then_st (s, Panic e) f = (s, Panic e)"

definition add_protected :: "geth \<Rightarrow> transaction \<Rightarrow> spanBatchTxs \<Rightarrow> spanBatchTxs \<times> unit res" where
  "add_protected G tx st =
     (if tx_Type tx = LegacyTxType then
        then_st (st, SetBit (st_protectedBits st) (unat (st_totalLegacyTxCount st)) (of_bool (tx_Protected G tx)))
          (\<lambda>st b. (st\<lparr>st_protectedBits := b, st_totalLegacyTxCount := st_totalLegacyTxCount st + 1\<rparr>, Ok ()))
      else (st, Ok ()))"

definition add_columns :: "geth \<Rightarrow> nat \<Rightarrow> transaction \<Rightarrow> spanBatchTxs \<Rightarrow> spanBatchTxs \<times> unit res" where
  "add_columns G i tx st =
     (let (v, r, s) = tx_RawSignatureValues tx;
          st = st\<lparr>st_txSigs := st_txSigs st @ [\<lparr>sig_v = of_nat v, sig_r = of_nat r, sig_s = of_nat s\<rparr>],
            st_txTos := st_txTos st @ (case tx_To tx of Some a \<Rightarrow> [a] | None \<Rightarrow> [])\<rparr> in
      then_st (st, SetBit (st_contractCreationBits st) i (case tx_To tx of Some a \<Rightarrow> 0 | None \<Rightarrow> 1)) (\<lambda>st b.
      then_st (st\<lparr>st_contractCreationBits := b\<rparr>, convertVToYParity (of_nat v) (tx_Type tx)) (\<lambda>st y.
      then_st (st, SetBit (st_yParityBits st) i y) (\<lambda>st b.
      then_st (st\<lparr>st_yParityBits := b, st_txNonces := st_txNonces st @ [tx_Nonce tx], st_txGases := st_txGases st @ [tx_Gas tx]\<rparr>,
          bind_res (newSpanBatchTx tx) (stx_MarshalBinary G)) (\<lambda>st d.
      (st\<lparr>st_txDatas := st_txDatas st @ [d], st_txTypes := st_txTypes st @ [tx_Type tx]\<rparr>, Ok ()))))))"

definition add_tx :: "geth \<Rightarrow> nat \<Rightarrow> nat \<Rightarrow> bytes \<Rightarrow> spanBatchTxs \<Rightarrow> spanBatchTxs \<times> unit res" where
  "add_tx G chainID i raw st =
     then_st (st, wrap_err (\<lambda>_. ''failed to decode tx'') (tx_UnmarshalBinary G raw)) (\<lambda>st tx.
     then_st (add_protected G tx st) (\<lambda>st _.
     if tx_Protected G tx \<and> tx_ChainId G tx \<noteq> chainID then (st, Err ''protected tx has an unexpected chain ID'')
     else add_columns G i tx st))"

fun add_loop :: "geth \<Rightarrow> nat \<Rightarrow> nat \<Rightarrow> bytes list \<Rightarrow> spanBatchTxs \<Rightarrow> spanBatchTxs \<times> unit res" where
  "add_loop G chainID i [] st = (st, Ok ())"
| "add_loop G chainID i (raw # raws) st = then_st (add_tx G chainID i raw st) (\<lambda>st _. add_loop G chainID (Suc i) raws st)"

definition AddTxs :: "geth \<Rightarrow> bytes list \<Rightarrow> nat \<Rightarrow> spanBatchTxs \<Rightarrow> spanBatchTxs \<times> unit res" where
  "AddTxs G txs chainID sbtx =
     then_st (add_loop G chainID (unat (st_totalBlockTxCount sbtx)) txs sbtx) (\<lambda>st _.
     (st\<lparr>st_totalBlockTxCount := st_totalBlockTxCount st + of_nat (length txs)\<rparr>, Ok ()))"

definition newSpanBatchTxs :: "geth \<Rightarrow> bytes list \<Rightarrow> nat \<Rightarrow> spanBatchTxs res" where
  "newSpanBatchTxs G txs chainID =
     (case AddTxs G txs chainID (zero_spanBatchTxs\<lparr>st_contractCreationBits := Some 0, st_yParityBits := Some 0, st_protectedBits := Some 0\<rparr>) of
        (st, Ok _) \<Rightarrow> Ok st
      | (st, Err e) \<Rightarrow> Err e
      | (st, Panic e) \<Rightarrow> Panic e)"

end
