(* ===== verification/DeriveSpanRaw.thy ===== *)
theory DeriveSpanRaw
  imports DeriveSpanTxs
begin

text \<open>
  Span batches in their binary form and as the batcher builds them, after
  \<open>op-node/rollup/derive/span_batch.go\<close>, and the typed envelope of batches, \<open>batch.go\<close>. The loops
  over the blocks of a batch run over lists; \<open>make\<close> of the block count is bounded by the decoder.
\<close>

section \<open>The binary form\<close>

record spanBatchPrefix =
  rs_relTimestamp :: u64
  rs_l1OriginNum :: u64
  rs_parentCheck :: bytes
  rs_l1OriginCheck :: bytes

record spanBatchPayload =
  rs_blockCount :: u64
  rs_originBits :: bitlist
  rs_blockTxCounts :: "u64 list"
  rs_txs :: "spanBatchTxs option"

record raw_span_batch =
  rs_prefix :: spanBatchPrefix
  rs_payload :: spanBatchPayload

definition decodePrefix :: "spanBatchPrefix parser" where
  "decodePrefix r =
     bind_res (wrap_err (\<lambda>e. ''failed to read rel timestamp: '' @ e) (ReadUvarint r)) (\<lambda>(relTimestamp, r).
     bind_res (wrap_err (\<lambda>e. ''failed to read l1 origin num: '' @ e) (ReadUvarint r)) (\<lambda>(l1OriginNum, r).
     bind_res (wrap_err (\<lambda>e. ''failed to read parent check: '' @ e) (read_full 20 r)) (\<lambda>(parentCheck, r).
     bind_res (wrap_err (\<lambda>e. ''failed to read l1 origin check: '' @ e) (read_full 20 r)) (\<lambda>(l1OriginCheck, r).
     Ok (\<lparr>rs_relTimestamp = relTimestamp, rs_l1OriginNum = l1OriginNum, rs_parentCheck = parentCheck,
       rs_l1OriginCheck = l1OriginCheck\<rparr>, r)))))"

definition decodeBlockCount :: "u64 parser" where
  "decodeBlockCount r =
     bind_res (wrap_err (\<lambda>e. ''failed to read block count: '' @ e) (ReadUvarint r)) (\<lambda>(blockCount, r).
     guard_err (blockCount \<le> MaxSpanBatchElementCount) ErrTooBigSpanBatchSize
     (guard_err (blockCount \<noteq> 0) ErrEmptySpanBatch
     (Ok (blockCount, r))))"

definition decodeOriginBits :: "u64 \<Rightarrow> bitlist parser" where
  "decodeOriginBits blockCount r =
     guard_err (blockCount \<le> MaxSpanBatchElementCount) ErrTooBigSpanBatchSize
     (wrap_err (\<lambda>e. ''failed to decode origin bits: '' @ e) (decodeSpanBatchBits blockCount r))"

definition read_tx_count :: "u64 parser" where
  "read_tx_count r =
     bind_res (wrap_err (\<lambda>e. ''failed to read block tx count: '' @ e) (ReadUvarint r)) (\<lambda>(blockTxCount, r).
     guard_err (blockTxCount \<le> MaxSpanBatchElementCount) ErrTooBigSpanBatchSize
     (Ok (blockTxCount, r)))"

definition decodeBlockTxCounts :: "u64 \<Rightarrow> u64 list parser" where
  "decodeBlockTxCounts blockCount r = read_list read_tx_count (rounds blockCount) r"

text \<open>The sum with \<open>math.SafeAdd\<close>.\<close>

fun sum_counts :: "u64 \<Rightarrow> u64 list \<Rightarrow> u64 res" where
  "sum_counts acc [] = Ok acc"
| "sum_counts acc (c # cs) = (if acc + c < acc then Err ErrTooBigSpanBatchSize else sum_counts (acc + c) cs)"

definition decodeTxs :: "geth \<Rightarrow> spanBatchTxs option \<Rightarrow> u64 list \<Rightarrow> spanBatchTxs parser" where
  "decodeTxs G txs blockTxCounts r =
     guard_err (blockTxCounts \<noteq> []) ''failed to read txs: blockTxCounts not set''
     (bind_res (sum_counts 0 blockTxCounts) (\<lambda>totalBlockTxCount.
      guard_err (totalBlockTxCount \<le> MaxSpanBatchElementCount) ErrTooBigSpanBatchSize
      (txs_decode G ((case txs of None \<Rightarrow> zero_spanBatchTxs | Some t \<Rightarrow> t)\<lparr>st_totalBlockTxCount := totalBlockTxCount\<rparr>) r)))"

definition decodePayload :: "geth \<Rightarrow> spanBatchPayload parser" where
  "decodePayload G r =
     bind_res (decodeBlockCount r) (\<lambda>(blockCount, r).
     bind_res (decodeOriginBits blockCount r) (\<lambda>(originBits, r).
     bind_res (decodeBlockTxCounts blockCount r) (\<lambda>(blockTxCounts, r).
     bind_res (decodeTxs G None blockTxCounts r) (\<lambda>(txs, r).
     Ok (\<lparr>rs_blockCount = blockCount, rs_originBits = originBits, rs_blockTxCounts = blockTxCounts, rs_txs = Some txs\<rparr>, r)))))"

definition raw_decode :: "geth \<Rightarrow> raw_span_batch parser" where
  "raw_decode G r =
     bind_res (wrap_err (\<lambda>e. ''failed to decode span batch prefix: '' @ e) (decodePrefix r)) (\<lambda>(prefix, r).
     bind_res (wrap_err (\<lambda>e. ''failed to decode span batch payload: '' @ e) (decodePayload G r)) (\<lambda>(payload, r).
     Ok (\<lparr>rs_prefix = prefix, rs_payload = payload\<rparr>, r)))"

definition encodePrefix :: "spanBatchPrefix \<Rightarrow> bytes" where
  "encodePrefix bp = PutUvarint (rs_relTimestamp bp) @ PutUvarint (rs_l1OriginNum bp) @ rs_parentCheck bp @ rs_l1OriginCheck bp"

definition encodeOriginBits :: "spanBatchPayload \<Rightarrow> bytes res" where
  "encodeOriginBits bp = wrap_err (\<lambda>e. ''failed to encode origin bits: '' @ e)
     (encodeSpanBatchBits (rs_blockCount bp) (rs_originBits bp))"

definition encodeBlockTxCounts :: "spanBatchPayload \<Rightarrow> bytes" where
  "encodeBlockTxCounts bp = concat (map PutUvarint (rs_blockTxCounts bp))"

definition encodeTxs :: "spanBatchPayload \<Rightarrow> bytes res" where
  "encodeTxs bp = (case rs_txs bp of None \<Rightarrow> Err ''cannot write txs: txs not set'' | Some txs \<Rightarrow> txs_encode txs)"

definition encodePayload :: "spanBatchPayload \<Rightarrow> bytes res" where
  "encodePayload bp =
     bind_res (encodeOriginBits bp) (\<lambda>origin.
     bind_res (encodeTxs bp) (\<lambda>txs.
     Ok (PutUvarint (rs_blockCount bp) @ origin @ encodeBlockTxCounts bp @ txs)))"

definition raw_encode :: "raw_span_batch \<Rightarrow> bytes res" where
  "raw_encode b = bind_res (encodePayload (rs_payload b)) (\<lambda>payload. Ok (encodePrefix (rs_prefix b) @ payload))"

section \<open>Deriving the blocks\<close>

text \<open>The loop from the last block down to the first; the result is in the order of the blocks.\<close>

fun origin_nums :: "bitlist \<Rightarrow> nat \<Rightarrow> u64 \<Rightarrow> u64 list res" where
  "origin_nums bits 0 l1OriginBlockNumber = Ok []"
| "origin_nums bits (Suc i) l1OriginBlockNumber =
     bind_res (Bit bits i) (\<lambda>b.
     bind_res (origin_nums bits i (if b = 1 \<and> i > 0 then l1OriginBlockNumber - 1 else l1OriginBlockNumber)) (\<lambda>nums.
     Ok (nums @ [l1OriginBlockNumber])))"

text \<open>The inner loop takes the transactions of one block.\<close>

fun take_txs :: "bytes list \<Rightarrow> nat \<Rightarrow> nat \<Rightarrow> bytes list res" where
  "take_txs full txIdx 0 = Ok []"
| "take_txs full txIdx (Suc n) =
     bind_res (index_res full txIdx) (\<lambda>tx. bind_res (take_txs full (Suc txIdx) n) (\<lambda>txs. Ok (tx # txs)))"

fun derive_loop :: "u64 \<Rightarrow> u64 \<Rightarrow> u64 list \<Rightarrow> u64 list \<Rightarrow> bytes list \<Rightarrow> nat \<Rightarrow> nat \<Rightarrow> nat \<Rightarrow> span_batch_element list res" where
  "derive_loop start blockTime nums counts full 0 i txIdx = Ok []"
| "derive_loop start blockTime nums counts full (Suc n) i txIdx =
     bind_res (index_res nums i) (\<lambda>num.
     bind_res (index_res counts i) (\<lambda>c.
     bind_res (take_txs full txIdx (rounds c)) (\<lambda>txs.
     bind_res (derive_loop start blockTime nums counts full n (Suc i) (txIdx + rounds c)) (\<lambda>batches.
     Ok (\<lparr>se_EpochNum = num, se_Timestamp = start + blockTime * of_nat i, se_Transactions = txs\<rparr> # batches)))))"

definition raw_derive :: "geth \<Rightarrow> u64 \<Rightarrow> u64 \<Rightarrow> nat \<Rightarrow> raw_span_batch \<Rightarrow> span_batch res" where
  "raw_derive G blockTime genesisTimestamp chainID b =
     (let p = rs_payload b in
      guard_err (rs_blockCount p \<noteq> 0) ErrEmptySpanBatch
      (bind_res (origin_nums (rs_originBits p) (rounds (rs_blockCount p)) (rs_l1OriginNum (rs_prefix b))) (\<lambda>blockOriginNums.
       case rs_txs p of None \<Rightarrow> Panic nil_deref
       | Some txs \<Rightarrow>
           bind_res (recoverV txs chainID) (\<lambda>txs.
           bind_res (fullTxs G txs chainID) (\<lambda>full.
           bind_res (derive_loop (genesisTimestamp + rs_relTimestamp (rs_prefix b)) blockTime blockOriginNums
               (rs_blockTxCounts p) full (rounds (rs_blockCount p)) 0 0) (\<lambda>batches.
           Ok \<lparr>sp_ParentCheck = rs_parentCheck (rs_prefix b), sp_L1OriginCheck = rs_l1OriginCheck (rs_prefix b),
             sp_Batches = batches\<rparr>))))))"

definition ToSpanBatch :: "geth \<Rightarrow> u64 \<Rightarrow> u64 \<Rightarrow> nat \<Rightarrow> raw_span_batch \<Rightarrow> span_batch res" where
  "ToSpanBatch G blockTime genesisTimestamp chainID b = raw_derive G blockTime genesisTimestamp chainID b"

section \<open>Building a span batch\<close>

text \<open>The fields of \<open>SpanBatch\<close> that only its builder sets.\<close>

record span_builder = span_batch +
  sp_GenesisTimestamp :: u64
  sp_ChainID :: nat
  sp_originBits :: bitlist
  sp_blockTxCounts :: "u64 list"
  sp_sbtxs :: spanBatchTxs

definition NewSpanBatch :: "geth \<Rightarrow> u64 \<Rightarrow> nat \<Rightarrow> span_builder" where
  "NewSpanBatch G genesisTimestamp chainID =
     \<lparr>sp_ParentCheck = replicate 20 0, sp_L1OriginCheck = replicate 20 0, sp_Batches = [],
      sp_GenesisTimestamp = genesisTimestamp, sp_ChainID = chainID, sp_originBits = Some 0, sp_blockTxCounts = [],
      sp_sbtxs = (case newSpanBatchTxs G [] chainID of Ok st \<Rightarrow> st | _ \<Rightarrow> zero_spanBatchTxs)\<rparr>"

definition TxCount :: "span_builder \<Rightarrow> u64" where
  "TxCount b = foldl (+) 0 (sp_blockTxCounts b)"

definition peek :: "'a span_batch_scheme \<Rightarrow> nat \<Rightarrow> span_batch_element res" where
  "peek b n = (if n < length (sp_Batches b) then Ok (sp_Batches b ! (length (sp_Batches b) - 1 - n))
     else Panic ''index out of range'')"

definition epoch_bit :: "span_builder \<Rightarrow> u64 \<Rightarrow> u64 res" where
  "epoch_bit b seqNum =
     (if length (sp_Batches b) = 1 then Ok (if seqNum = 0 then 1 else 0)
      else bind_res (peek b 1) (\<lambda>e1. bind_res (peek b 0) (\<lambda>e0. Ok (if se_EpochNum e1 < se_EpochNum e0 then 1 else 0))))"

definition AppendSingularBatch :: "geth \<Rightarrow> singular_batch \<Rightarrow> u64 \<Rightarrow> span_builder \<Rightarrow> span_builder \<times> unit res" where
  "AppendSingularBatch G sb seqNum b =
     (if sp_Batches b \<noteq> [] \<and> se_Timestamp (last (sp_Batches b)) > sb_Timestamp sb then (b, Panic ''span batch is not ordered'')
      else
        let b = b\<lparr>sp_Batches := sp_Batches b @ [singularBatchToElement sb],
                  sp_L1OriginCheck := take 20 (hash_bytes (sb_EpochHash sb))\<rparr>;
            b = (if length (sp_Batches b) = 1 then b\<lparr>sp_ParentCheck := take 20 (hash_bytes (sb_ParentHash sb))\<rparr> else b)
        in then_st (b, epoch_bit b seqNum) (\<lambda>b epochBit.
           then_st (b, SetBit (sp_originBits b) (length (sp_Batches b) - 1) epochBit) (\<lambda>b bits.
           let b = b\<lparr>sp_originBits := bits, sp_blockTxCounts := sp_blockTxCounts b @ [of_nat (length (sb_Transactions sb))]\<rparr>
           in case AddTxs G (sb_Transactions sb) (sp_ChainID b) (sp_sbtxs b) of
                (txs, r) \<Rightarrow> (b\<lparr>sp_sbtxs := txs\<rparr>, r))))"

definition ToRawSpanBatch :: "span_builder \<Rightarrow> raw_span_batch res" where
  "ToRawSpanBatch b =
     (if sp_Batches b = [] then Err ''cannot merge empty singularBatch list''
      else Ok \<lparr>rs_prefix = \<lparr>rs_relTimestamp = se_Timestamp (hd (sp_Batches b)) - sp_GenesisTimestamp b,
                 rs_l1OriginNum = se_EpochNum (last (sp_Batches b)), rs_parentCheck = sp_ParentCheck b,
                 rs_l1OriginCheck = sp_L1OriginCheck b\<rparr>,
               rs_payload = \<lparr>rs_blockCount = of_nat (length (sp_Batches b)), rs_originBits = sp_originBits b,
                 rs_blockTxCounts = sp_blockTxCounts b, rs_txs = Some (sp_sbtxs b)\<rparr>\<rparr>)"

section \<open>Typed batches\<close>

definition SingularBatchType :: byte where "SingularBatchType = 0"
definition SpanBatchType :: byte where "SpanBatchType = 1"

datatype inner_batch = SingularInner singular_batch | RawSpanInner raw_span_batch

fun GetBatchType :: "inner_batch \<Rightarrow> byte" where
  "GetBatchType (SingularInner b) = SingularBatchType"
| "GetBatchType (RawSpanInner b) = SpanBatchType"

fun inner_encode :: "geth \<Rightarrow> inner_batch \<Rightarrow> bytes res" where
  "inner_encode G (SingularInner b) = rlp_EncodeSingular G b"
| "inner_encode G (RawSpanInner b) = raw_encode b"

definition bd_encodeTyped :: "geth \<Rightarrow> inner_batch \<Rightarrow> bytes res" where
  "bd_encodeTyped G inner = bind_res (inner_encode G inner) (\<lambda>e. Ok (GetBatchType inner # e))"

definition bd_decodeTyped :: "geth \<Rightarrow> bytes \<Rightarrow> inner_batch res" where
  "bd_decodeTyped G dat = (case dat of
       [] \<Rightarrow> Err ''batch too short''
     | t # r \<Rightarrow>
         if t = SingularBatchType then bind_res (rlp_DecodeSingular G r) (\<lambda>(b, r). Ok (SingularInner b))
         else if t = SpanBatchType then bind_res (raw_decode G r) (\<lambda>(b, r). Ok (RawSpanInner b))
         else Err ''unrecognized batch type'')"

definition bd_MarshalBinary :: "geth \<Rightarrow> inner_batch \<Rightarrow> bytes res" where
  "bd_MarshalBinary G inner = bd_encodeTyped G inner"

definition bd_UnmarshalBinary :: "geth \<Rightarrow> bytes \<Rightarrow> inner_batch res" where
  "bd_UnmarshalBinary G dat = bd_decodeTyped G dat"

definition bd_EncodeRLP :: "geth \<Rightarrow> inner_batch \<Rightarrow> bytes res" where
  "bd_EncodeRLP G inner = bind_res (bd_encodeTyped G inner) (rlp_EncodeBytes G)"

definition bd_DecodeRLP :: "geth \<Rightarrow> inner_batch parser" where
  "bd_DecodeRLP G s = bind_res (rlp_Bytes G s) (\<lambda>(v, s). bind_res (bd_decodeTyped G v) (\<lambda>b. Ok (b, s)))"

definition DeriveSpanBatch :: "geth \<Rightarrow> inner_batch \<Rightarrow> u64 \<Rightarrow> u64 \<Rightarrow> nat \<Rightarrow> span_batch res" where
  "DeriveSpanBatch G inner blockTime genesisTimestamp chainID = (case inner of
       RawSpanInner b \<Rightarrow> ToSpanBatch G blockTime genesisTimestamp chainID b
     | SingularInner _ \<Rightarrow> Err ''failed type assertion to SpanBatch'')"

definition GetSingularBatch :: "inner_batch \<Rightarrow> singular_batch res" where
  "GetSingularBatch inner = (case inner of
       SingularInner b \<Rightarrow> Ok b
     | RawSpanInner _ \<Rightarrow> Err ''failed type assertion to SingularBatch'')"

end
