(* ===== verification/DeriveSpanColumns.thy ===== *)
theory DeriveSpanColumns
  imports DeriveSpanRaw
begin

text \<open>
  What the columns of a span batch hold: \<open>columns\<close> gives them for a list of transactions, in one
  equation per column. Adding transactions extends that list, the columns survive the binary form
  but for the signatures' \<open>v\<close>, \<open>recoverV\<close> puts these back, and the full transactions are the bytes
  that were added.
\<close>

section \<open>Bit lists of flags\<close>

definition bl :: "bool list \<Rightarrow> bitlist" where
  "bl bs = Some (horner_sum of_bool 2 bs)"

lemma bl_Nil: "bl [] = Some 0" by (simp add: bl_def)

lemma Bit_bl: "i < length bs \<Longrightarrow> Bit (bl bs) i = Ok (of_bool (bs ! i))"
  by (simp add: Bit_def bl_def bit_horner_sum_bit_iff)

lemma SetBit_bl: "length bs = n \<Longrightarrow> SetBit (bl bs) n (of_bool b) = Ok (bl (bs @ [b]))"
proof -
  assume n: "length bs = n"
  have "(if b then set_bit n else unset_bit n) (horner_sum of_bool 2 bs) = (horner_sum of_bool 2 (bs @ [b]) :: nat)"
    using n by (intro bit_eqI) (auto simp: bit_horner_sum_bit_iff bit_simps nth_append less_Suc_eq)
  then show ?thesis by (cases b) (simp_all add: SetBit_def bl_def)
qed

lemma bl_roundtrip:
  assumes "length bs = unat n"
  obtains e where "encodeSpanBatchBits n (bl bs) = Ok e" "\<And>rest. decodeSpanBatchBits n (e @ rest) = Ok (bl bs, rest)"
proof -
  have b: "horner_sum of_bool 2 bs < (2 :: nat) ^ unat n"
    using horner_sum_of_bool_2_less [of bs] assms by (simp flip: of_nat_less_iff)
  obtain e where e: "encodeSpanBatchBits n (bl bs) = Ok e" using span_bits_roundtrip [OF b] by (metis bl_def)
  show ?thesis
  proof (rule that [OF e])
    fix rest
    show "decodeSpanBatchBits n (e @ rest) = Ok (bl bs, rest)"
      using span_bits_roundtrip [OF b, of rest] e by (metis bl_def res.inject(1))
  qed
qed

lemma drop_ConsD:
  assumes "drop i xs = y # ys"
  shows "i < length xs" "xs ! i = y" "drop (Suc i) xs = ys"
proof -
  show i: "i < length xs" using assms by (metis drop_eq_Nil2 leI list.distinct(1))
  then show "xs ! i = y" "drop (Suc i) xs = ys" using assms by (simp_all add: Cons_nth_drop_Suc [symmetric])
qed

lemma count_bits_bl:
  "drop i bs = cs \<Longrightarrow> count_bits (bl bs) i (length cs) n = Ok (n + of_nat (length (filter (\<lambda>b. b) cs)))"
proof (induction cs arbitrary: i n)
  case (Cons c cs)
  note i = drop_ConsD [OF Cons.prems]
  show ?case using Cons.IH [OF i(3)] i(1,2) by (simp add: Bit_bl ac_simps)
qed simp

section \<open>The columns of a list of transactions\<close>

definition is_legacy :: "transaction \<Rightarrow> bool" where
  "is_legacy t \<longleftrightarrow> tx_Type t = LegacyTxType"

definition tx_V :: "transaction \<Rightarrow> nat" where "tx_V t = fst (tx_RawSignatureValues t)"
definition tx_R :: "transaction \<Rightarrow> nat" where "tx_R t = fst (snd (tx_RawSignatureValues t))"
definition tx_S :: "transaction \<Rightarrow> nat" where "tx_S t = snd (snd (tx_RawSignatureValues t))"

definition y_parity :: "transaction \<Rightarrow> bool" where
  "y_parity t \<longleftrightarrow> (if is_legacy t then even (tx_V t) else odd (tx_V t))"

definition sig_of :: "transaction \<Rightarrow> spanBatchSignature" where
  "sig_of t = \<lparr>sig_v = of_nat (tx_V t), sig_r = of_nat (tx_R t), sig_s = of_nat (tx_S t)\<rparr>"

definition tx_data :: "geth \<Rightarrow> transaction \<Rightarrow> bytes" where
  "tx_data G t = (case bind_res (newSpanBatchTx t) (stx_MarshalBinary G) of Ok e \<Rightarrow> e | _ \<Rightarrow> [])"

definition columns :: "geth \<Rightarrow> transaction list \<Rightarrow> spanBatchTxs" where
  "columns G ts = \<lparr>st_totalBlockTxCount = of_nat (length ts),
     st_contractCreationBits = bl (map (\<lambda>t. tx_To t = None) ts), st_yParityBits = bl (map y_parity ts),
     st_txSigs = map sig_of ts, st_txNonces = map tx_Nonce ts, st_txGases = map tx_Gas ts,
     st_txTos = List.map_filter tx_To ts, st_txDatas = map (tx_data G) ts,
     st_protectedBits = bl (map (\<lambda>t. protected_V (tx_V t)) (filter is_legacy ts)), st_txTypes = map tx_Type ts,
     st_totalLegacyTxCount = of_nat (length (filter is_legacy ts))\<rparr>"

text \<open>The transactions that a span batch can carry on chain \<open>c\<close>: signed for the chain, or not
  protected, of a known type, and within the size limit.\<close>

fun signed_for :: "nat \<Rightarrow> transaction \<Rightarrow> bool" where
  "signed_for c (LegacyTx t) \<longleftrightarrow> ltx_V t \<in> {27, 28, 2 * c + 35, 2 * c + 36}"
| "signed_for c (AccessListTx t) \<longleftrightarrow> atx_V t < 2 \<and> atx_ChainID t = c"
| "signed_for c (DynamicFeeTx t) \<longleftrightarrow> dtx_V t < 2 \<and> dtx_ChainID t = c"
| "signed_for c (OtherTx k to v r s) \<longleftrightarrow> False"

definition tx_ok :: "geth \<Rightarrow> nat \<Rightarrow> transaction \<Rightarrow> bool" where
  "tx_ok G c t \<longleftrightarrow> signed_for c t \<and> tx_R t < 2 ^ 256 \<and> tx_S t < 2 ^ 256 \<and> length (tx_data G t) \<le> unat MaxSpanBatchElementCount"

definition chain_ok :: "nat \<Rightarrow> bool" where
  "chain_ok c \<longleftrightarrow> 2 * c + 36 < 2 ^ 64"

lemma tx_data_roundtrip:
  assumes "geth_laws G" "signed_for c t"
  obtains s where "newSpanBatchTx t = Ok s" "stx_MarshalBinary G s = Ok (tx_data G t)"
    "stx_UnmarshalBinary G (tx_data G t) = Ok s" "txType s = tx_Type t" "tx_data G t \<noteq> []"
    "if tx_Type t = 0 then rlp_list_item G (tx_data G t) else hd (tx_data G t) = tx_Type t \<and> rlp_list_item G (tl (tx_data G t))"
proof -
  obtain s where s: "newSpanBatchTx t = Ok s" "txType s = tx_Type t" using assms(2) by (cases t) auto
  obtain e where e: "stx_MarshalBinary G s = Ok e" "stx_UnmarshalBinary G e = Ok s" "e \<noteq> []"
    "if txType s = 0 then rlp_list_item G e else hd e = txType s \<and> rlp_list_item G (tl e)"
    using stx_roundtrip [OF assms(1), of s] by blast
  have "tx_data G t = e" using s e by (simp add: tx_data_def)
  with s e show ?thesis by (intro that [of s]) simp_all
qed

lemma signed_V: "chain_ok c \<Longrightarrow> signed_for c t \<Longrightarrow> tx_V t < 2 ^ 64"
  by (cases t) (auto simp: chain_ok_def tx_V_def)

lemma unat_tx_V: "chain_ok c \<Longrightarrow> signed_for c t \<Longrightarrow> unat (of_nat (tx_V t) :: u64) = tx_V t"
  using signed_V [of c t] by (simp add: unat_of_nat)

lemma y_parity_converts:
  assumes "chain_ok c" "signed_for c t"
  shows "convertVToYParity (of_nat (tx_V t)) (tx_Type t) = Ok (of_bool (y_parity t))"
proof (cases t)
  case (LegacyTx l)
  have u: "(of_nat (ltx_V l) :: u64) = 27 \<longleftrightarrow> ltx_V l = 27" "(of_nat (ltx_V l) :: u64) = 28 \<longleftrightarrow> ltx_V l = 28"
    using unat_tx_V [OF assms] LegacyTx by (auto simp: tx_V_def word_unat_eq_iff)
  from assms(2) LegacyTx consider "ltx_V l = 27" | "ltx_V l = 28" | "ltx_V l = 2 * c + 35" | "ltx_V l = 2 * c + 36" by auto
  then show ?thesis
    by cases (use u LegacyTx in \<open>simp_all add: convertVToYParity_def isProtectedV_def tx_V_def y_parity_def is_legacy_def and_one_eq mod_2_eq_odd\<close>)
qed (use assms in \<open>auto simp: convertVToYParity_def tx_V_def y_parity_def is_legacy_def less_2_cases_iff\<close>)

lemma convert_back:
  assumes "chain_ok c" "tx_ok G c t" "newSpanBatchTx t = Ok s"
  shows "convertToFullTx s (tx_Nonce t) (tx_Gas t) (tx_To t) c (unat (sig_v (sig_of t))) (unat (sig_r (sig_of t))) (unat (sig_s (sig_of t))) = t"
proof -
  have "unat (sig_v (sig_of t)) = tx_V t" "unat (sig_r (sig_of t)) = tx_R t" "unat (sig_s (sig_of t)) = tx_S t"
    using unat_tx_V [OF assms(1)] assms(2) by (simp_all add: sig_of_def tx_ok_def unat_of_nat)
  then show ?thesis using assms(2,3) by (cases t) (auto simp: tx_ok_def tx_V_def tx_R_def tx_S_def)
qed

section \<open>Adding transactions\<close>

lemma add_protected_columns:
  assumes "geth_laws G" "chain_ok c" "signed_for c t" "length ts < 2 ^ 64"
  shows "add_protected G t ((columns G ts)\<lparr>st_totalBlockTxCount := n\<rparr>) =
    ((columns G ts)\<lparr>st_totalBlockTxCount := n, st_protectedBits := st_protectedBits (columns G (ts @ [t])),
       st_totalLegacyTxCount := st_totalLegacyTxCount (columns G (ts @ [t]))\<rparr>, Ok ())"
proof (cases "is_legacy t")
  case True
  have l: "length (filter is_legacy ts) < 2 ^ 64" using assms(4) length_filter_le [of is_legacy ts] by linarith
  have "tx_laws G t" using assms(1) by (simp add: geth_laws_def)
  then have p: "tx_Protected G t = protected_V (tx_V t)"
    using assms(3) True by (cases t) (simp_all add: is_legacy_def tx_V_def)
  show ?thesis using True l
    by (simp add: add_protected_def is_legacy_def columns_def p SetBit_bl unat_of_nat)
next
  case False
  then show ?thesis by (simp add: add_protected_def is_legacy_def columns_def)
qed

lemma chain_checked: "geth_laws G \<Longrightarrow> signed_for c t \<Longrightarrow> tx_Protected G t \<Longrightarrow> tx_ChainId G t = c"
proof -
  assume a: "geth_laws G" "signed_for c t" "tx_Protected G t"
  then have l: "tx_laws G t" by (simp add: geth_laws_def)
  show ?thesis
  proof (cases t)
    case (LegacyTx x)
    then have "ltx_V x = 2 * c + 35 + 0 \<or> ltx_V x = 2 * c + 35 + 1" using a l by (auto simp: protected_V_def)
    moreover have "\<And>y. y < 2 \<Longrightarrow> ltx_V x = 2 * c + 35 + y \<Longrightarrow> tx_ChainId G t = c" using l LegacyTx by auto
    ultimately show ?thesis by fastforce
  qed (use a l in auto)
qed

lemma add_tx_columns:
  assumes "geth_laws G" "chain_ok c" "tx_ok G c t" "length ts < 2 ^ 64" "tx_UnmarshalBinary G raw = Ok t"
  shows "add_tx G c (length ts) raw ((columns G ts)\<lparr>st_totalBlockTxCount := n\<rparr>) =
    ((columns G (ts @ [t]))\<lparr>st_totalBlockTxCount := n\<rparr>, Ok ())"
proof -
  have s: "signed_for c t" using assms(3) by (simp add: tx_ok_def)
  obtain d where d: "newSpanBatchTx t = Ok d" "stx_MarshalBinary G d = Ok (tx_data G t)"
    using tx_data_roundtrip [OF assms(1) s] by blast
  have y: "convertVToYParity (of_nat (fst (tx_RawSignatureValues t))) (tx_Type t) = Ok (of_bool (y_parity t))"
    using y_parity_converts [OF assms(2) s] by (simp add: tx_V_def)
  have cc: "(case tx_To t of None \<Rightarrow> 1 | Some a \<Rightarrow> 0) = (of_bool (tx_To t = None) :: u64)" by (simp split: option.splits)
  have tos: "List.map_filter tx_To (ts @ [t]) = List.map_filter tx_To ts @ (case tx_To t of Some a \<Rightarrow> [a] | None \<Rightarrow> [])"
    by (simp add: List.map_filter_def split: option.splits)
  obtain v r w where raw: "tx_RawSignatureValues t = (v, r, w)" by (cases "tx_RawSignatureValues t") auto
  have step: "add_columns G (length ts) t ((columns G ts)\<lparr>st_totalBlockTxCount := n, st_protectedBits := st_protectedBits (columns G (ts @ [t])),
       st_totalLegacyTxCount := st_totalLegacyTxCount (columns G (ts @ [t]))\<rparr>) = ((columns G (ts @ [t]))\<lparr>st_totalBlockTxCount := n\<rparr>, Ok ())"
    using y by (simp add: add_columns_def raw cc columns_def SetBit_bl d tos sig_of_def tx_V_def tx_R_def tx_S_def
      del: of_bool_eq_0_iff of_bool_eq_1_iff)
  have c: "\<not> (tx_Protected G t \<and> tx_ChainId G t \<noteq> c)" using chain_checked [OF assms(1) s] by blast
  show ?thesis unfolding add_tx_def assms(5) wrap_err.simps then_st.simps add_protected_columns [OF assms(1,2) s assms(4)]
    using c step by simp
qed

lemma add_loop_columns:
  assumes "geth_laws G" "chain_ok c"
  shows "list_all2 (\<lambda>raw t. tx_UnmarshalBinary G raw = Ok t \<and> tx_ok G c t) raws us \<Longrightarrow> length (ts @ us) \<le> unat MaxSpanBatchElementCount \<Longrightarrow>
    add_loop G c (length ts) raws ((columns G ts)\<lparr>st_totalBlockTxCount := n\<rparr>) = ((columns G (ts @ us))\<lparr>st_totalBlockTxCount := n\<rparr>, Ok ())"
proof (induction raws us arbitrary: ts rule: list_all2_induct)
  case (Cons raw raws t us)
  have l: "length ts < 2 ^ 64" using Cons.prems by (simp add: MaxSpanBatchElementCount_def)
  have "add_loop G c (length (ts @ [t])) raws ((columns G (ts @ [t]))\<lparr>st_totalBlockTxCount := n\<rparr>) =
      ((columns G ((ts @ [t]) @ us))\<lparr>st_totalBlockTxCount := n\<rparr>, Ok ())"
    using Cons.prems by (intro Cons.IH) simp
  then show ?case using add_tx_columns [OF assms, of t ts raw n] Cons.hyps l by simp
qed simp

lemma AddTxs_columns:
  assumes "geth_laws G" "chain_ok c" "list_all2 (\<lambda>raw t. tx_UnmarshalBinary G raw = Ok t \<and> tx_ok G c t) raws us"
    "length (ts @ us) \<le> unat MaxSpanBatchElementCount"
  shows "AddTxs G raws c (columns G ts) = (columns G (ts @ us), Ok ())"
proof -
  have s: "columns G ts = (columns G ts)\<lparr>st_totalBlockTxCount := of_nat (length ts)\<rparr>" by (simp add: columns_def)
  have l: "length raws = length us" using assms(3) by (rule list_all2_lengthD)
  have n: "unat (of_nat (length ts) :: u64) = length ts" using assms(4) by (simp add: MaxSpanBatchElementCount_def unat_of_nat)
  have "add_loop G c (length ts) raws (columns G ts) = ((columns G (ts @ us))\<lparr>st_totalBlockTxCount := of_nat (length ts)\<rparr>, Ok ())"
    using add_loop_columns [OF assms(1-4), of "of_nat (length ts)"] s by simp
  then show ?thesis using n l by (simp add: AddTxs_def columns_def)
qed

lemma newSpanBatchTxs_empty: "newSpanBatchTxs G [] c = Ok (columns G [])"
  by (simp add: newSpanBatchTxs_def AddTxs_def columns_def bl_Nil zero_spanBatchTxs_def List.map_filter_def)

end
