(* ===== verification/DeriveSpanDecode.thy ===== *)
theory DeriveSpanDecode
  imports DeriveSpanColumns
begin

text \<open>
  Reading back the columns of a span batch: every column is a list of items that are read one by
  one, so the locale \<open>codec\<close> gives the round trip of each.
\<close>

section \<open>Items\<close>

interpretation sig_item: codec sig_bytes read_sig "\<lambda>s. sig_v s = 0"
proof unfold_locales
  fix s :: spanBatchSignature and rest assume v: "sig_v s = 0"
  have d: "of_nat (be_decode (hash_bytes h)) = h" for h :: hash
    using unsigned_less [of h, where 'a = nat] by (simp add: hash_bytes_def be_decode_encode del: be_encode_numeral)
  have "length (hash_bytes h) = 32" for h by (simp add: hash_bytes_def del: be_encode_numeral)
  then show "read_sig (sig_bytes s @ rest) = Ok (s, rest)"
    using v by (simp add: read_sig_def sig_bytes_def read_full_append d)
qed

interpretation address_item: codec address_bytes read_address "\<lambda>_. True"
proof unfold_locales
  fix a :: address and rest
  have "of_nat (be_decode (be_encode 20 (unat a))) = a"
    using unsigned_less [of a, where 'a = nat] by (simp add: be_decode_encode del: be_encode_numeral)
  then show "read_address (address_bytes a @ rest) = Ok (a, rest)"
    by (simp add: read_address_def address_bytes_def BytesToAddress_def read_full_append del: be_encode_numeral)
qed

interpretation nonce_item: codec PutUvarint "\<lambda>r. wrap_err (\<lambda>e. ''failed to read tx nonce: '' @ e) (ReadUvarint r)" "\<lambda>_. True"
  by unfold_locales (simp add: uvarint.dec_enc)

interpretation gas_item: codec PutUvarint "\<lambda>r. wrap_err (\<lambda>e. ''failed to read tx gas: '' @ e) (ReadUvarint r)" "\<lambda>_. True"
  by unfold_locales (simp add: uvarint.dec_enc)

definition data_item :: "geth \<Rightarrow> bytes \<times> u8 \<Rightarrow> bool" where
  "data_item G = (\<lambda>(d, k). length d \<le> unat MaxSpanBatchElementCount \<and> d \<noteq> [] \<and>
     (if k = 0 then rlp_list_item G d else hd d = k \<and> unat k \<le> 0x7F \<and> rlp_list_item G (tl d)))"

interpretation tx_item: codec fst "ReadTxData G" "data_item G" for G
proof unfold_locales
  fix x :: "bytes \<times> u8" and rest assume a: "data_item G x"
  obtain d k where x: "x = (d, k)" by (cases x)
  obtain b e where d: "d = b # e" using a x by (cases d) (auto simp: data_item_def)
  show "ReadTxData G (fst x @ rest) = Ok (x, rest)"
  proof (cases "k = 0")
    case True
    with a x d have i: "rlp_list_item G (b # e)" "length (b # e) \<le> unat MaxSpanBatchElementCount" by (auto simp: data_item_def)
    then have "b \<ge> 0xC0" by (simp add: rlp_list_item_def)
    then have "\<not> unat b \<le> 127" by (simp add: word_le_nat_alt)
    moreover have "rlp_Kind G MaxSpanBatchElementCount ((b # e) @ rest) = Ok KindList"
      "rlp_Raw G MaxSpanBatchElementCount ((b # e) @ rest) = Ok (b # e, rest)" using i unfolding rlp_list_item_def by blast+
    ultimately show ?thesis using x d True by (simp add: ReadTxData_def)
  next
    case False
    with a x d have i: "b = k" "unat k \<le> 127" "rlp_list_item G e" "length e \<le> unat MaxSpanBatchElementCount" by (auto simp: data_item_def)
    then have "rlp_Kind G MaxSpanBatchElementCount (e @ rest) = Ok KindList"
      "rlp_Raw G MaxSpanBatchElementCount (e @ rest) = Ok (e, rest)" unfolding rlp_list_item_def by blast+
    then show ?thesis using x d i by (simp add: ReadTxData_def)
  qed
qed

section \<open>The columns\<close>

definition no_v :: "spanBatchSignature \<Rightarrow> spanBatchSignature" where "no_v s = s\<lparr>sig_v := 0\<rparr>"

lemma to_counts:
  "length (filter (\<lambda>t. tx_To t = None) ts) + length (List.map_filter tx_To ts) = length ts"
  by (induction ts) (auto simp: List.map_filter_simps split: option.splits)

lemma nonces_back:
  assumes "rounds (st_totalBlockTxCount x) = length ns"
  shows "decodeTxNonces x (concat (map PutUvarint ns) @ rest) = Ok (x\<lparr>st_txNonces := ns\<rparr>, rest)"
proof -
  have "\<forall>n \<in> set ns. True" by simp
  from nonce_item.list_roundtrip [OF this, of rest] show ?thesis
    unfolding decodeTxNonces_def assms by (simp only: bind_res.simps prod.case)
qed

lemma gases_back:
  assumes "rounds (st_totalBlockTxCount x) = length gs"
  shows "decodeTxGases x (concat (map PutUvarint gs) @ rest) = Ok (x\<lparr>st_txGases := gs\<rparr>, rest)"
proof -
  have "\<forall>g \<in> set gs. True" by simp
  from gas_item.list_roundtrip [OF this, of rest] show ?thesis
    unfolding decodeTxGases_def assms by (simp only: bind_res.simps prod.case)
qed

lemma item_of_tx:
  assumes "geth_laws G" "tx_ok G c t"
  shows "data_item G (tx_data G t, tx_Type t)"
proof -
  have s: "signed_for c t" using assms(2) by (simp add: tx_ok_def)
  then have "unat (tx_Type t) \<le> 127" by (cases t) simp_all
  moreover have "tx_data G t \<noteq> []"
    "if tx_Type t = 0 then rlp_list_item G (tx_data G t) else hd (tx_data G t) = tx_Type t \<and> rlp_list_item G (tl (tx_data G t))"
    using tx_data_roundtrip [OF assms(1) s] by blast+
  ultimately show ?thesis using assms(2) by (simp add: data_item_def tx_ok_def del: tx_types split: if_splits)
qed

lemma columns_roundtrip:
  assumes "geth_laws G" "\<forall>t \<in> set ts. tx_ok G c t" "length ts \<le> unat MaxSpanBatchElementCount"
  obtains e where "txs_encode (columns G ts) = Ok e"
    "\<And>rest. txs_decode G (zero_spanBatchTxs\<lparr>st_totalBlockTxCount := of_nat (length ts)\<rparr>) (e @ rest) =
       Ok ((columns G ts)\<lparr>st_txSigs := map no_v (map sig_of ts)\<rparr>, rest)"
proof -
  let ?n = "of_nat (length ts) :: u64" and ?l = "of_nat (length (filter is_legacy ts)) :: u64" and ?c = "columns G ts"
  have lf: "length (filter is_legacy ts) \<le> length ts" by (rule length_filter_le)
  then have lf': "length (filter is_legacy ts) \<le> unat MaxSpanBatchElementCount" using assms(3) by linarith
  note n = count_word(2) [OF assms(3)] count_word(2) [OF lf'] and r = count_word(3) [OF assms(3)]
    and u = count_word(1) [OF assms(3)] count_word(1) [OF lf']
  obtain cc where cc: "encodeSpanBatchBits ?n (st_contractCreationBits ?c) = Ok cc"
    "\<And>rest. decodeSpanBatchBits ?n (cc @ rest) = Ok (st_contractCreationBits ?c, rest)"
    using bl_roundtrip [of "map (\<lambda>t. tx_To t = None) ts" ?n] u by (auto simp: columns_def)
  obtain yp where yp: "encodeSpanBatchBits ?n (st_yParityBits ?c) = Ok yp"
    "\<And>rest. decodeSpanBatchBits ?n (yp @ rest) = Ok (st_yParityBits ?c, rest)"
    using bl_roundtrip [of "map y_parity ts" ?n] u by (auto simp: columns_def)
  obtain pb where pb: "encodeSpanBatchBits ?l (st_protectedBits ?c) = Ok pb"
    "\<And>rest. decodeSpanBatchBits ?l (pb @ rest) = Ok (st_protectedBits ?c, rest)"
    using bl_roundtrip [of "map (\<lambda>t. protected_V (tx_V t)) (filter is_legacy ts)" ?l] u by (auto simp: columns_def)
  let ?cn = "of_nat (length (filter (\<lambda>t. tx_To t = None) ts)) :: u64"
  have count: "count_bits (bl (map (\<lambda>t. tx_To t = None) ts)) 0 (length ts) 0 = Ok ?cn"
    using count_bits_bl [of 0 _ "map (\<lambda>t. tx_To t = None) ts" 0] by (simp add: filter_map comp_def)
  have some: "\<exists>y. bl bs = Some y" for bs by (simp add: bl_def)
  have "?n = ?cn + of_nat (length (List.map_filter tx_To ts))"
    unfolding to_counts [of ts, symmetric] by simp
  then have tos: "?n - ?cn = of_nat (length (List.map_filter tx_To ts))" by simp
  have "length (List.map_filter tx_To ts) \<le> unat MaxSpanBatchElementCount" using to_counts [of ts] assms(3) by linarith
  then have rt: "rounds (?n - ?cn) = length (List.map_filter tx_To ts)" unfolding tos by (rule count_word)
  have sigs: "read_list read_sig (length ts) (concat (map sig_bytes (map sig_of ts)) @ rest) = Ok (map no_v (map sig_of ts), rest)" for rest
  proof -
    have "sig_bytes (no_v s) = sig_bytes s" for s by (simp add: sig_bytes_def no_v_def)
    then have m: "map sig_bytes (map no_v (map sig_of ts)) = map sig_bytes (map sig_of ts)" by simp
    show ?thesis using sig_item.list_roundtrip [of "map no_v (map sig_of ts)" rest] unfolding m by (simp add: no_v_def)
  qed
  let ?items = "map (\<lambda>t. (tx_data G t, tx_Type t)) ts"
  have items: "read_list (ReadTxData G) (length ts) (concat (map (tx_data G) ts) @ rest) = Ok (?items, rest)" for rest
  proof -
    have m: "map fst ?items = map (tx_data G) ts" by simp
    show ?thesis using tx_item.list_roundtrip [of ?items G rest] assms(1,2) item_of_tx unfolding m by fastforce
  qed
  have legacy: "filter ((\<lambda>(d, k). k = 0) \<circ> (\<lambda>t. (tx_data G t, tx_Type t))) ts = filter is_legacy ts"
    by (simp add: comp_def is_legacy_def [abs_def])
  have fields: "map fst ?items = map (tx_data G) ts" "map snd ?items = map tx_Type ts" by simp_all
  note col = columns_def [of G ts]
  have enc: "txs_encode ?c = Ok (cc @ yp @ encodeTxSigsRS ?c @ encodeTxTos ?c @ encodeTxDatas ?c @ encodeTxNonces ?c @ encodeTxGases ?c @ pb)"
    using cc(1) yp(1) pb(1) by (simp add: txs_encode_def encodeContractCreationBits_def encodeYParityBits_def encodeProtectedBits_def col)
  show ?thesis
  proof (rule that [OF enc])
    fix rest
    show "txs_decode G (zero_spanBatchTxs\<lparr>st_totalBlockTxCount := ?n\<rparr>)
        ((cc @ yp @ encodeTxSigsRS ?c @ encodeTxTos ?c @ encodeTxDatas ?c @ encodeTxNonces ?c @ encodeTxGases ?c @ pb) @ rest) =
      Ok (?c\<lparr>st_txSigs := map no_v (map sig_of ts)\<rparr>, rest)"
      using n cc(2) yp(2) pb(2)
      unfolding txs_decode_def append_assoc
      by (simp add: decodeContractCreationBits_def decodeYParityBits_def decodeTxSigsRS_def decodeTxTos_def
        decodeTxDatas_def decodeProtectedBits_def contractCreationCount_def
        encodeTxSigsRS_def encodeTxTos_def encodeTxDatas_def encodeTxNonces_def encodeTxGases_def
        zero_spanBatchTxs_def col count some r rt sigs items filter_map legacy
        address_item.list_roundtrip nonces_back gases_back fields del: map_map)
  qed
qed

text \<open>
  From the columns of a span batch back to the transactions: \<open>recoverV\<close> restores what the columns
  do not store, and \<open>fullTxs\<close> gives the bytes of the transactions that were added.
\<close>

section \<open>Signatures\<close>

lemma recovered_V:
  assumes "signed_for c t" "is_legacy t"
  shows "(of_nat (tx_V t) :: u64) = (if protected_V (tx_V t) then of_nat c * 2 + 35 + of_bool (y_parity t) else 27 + of_bool (y_parity t))"
proof (cases t)
  case (LegacyTx l)
  with assms consider "ltx_V l = 27" | "ltx_V l = 28" | "ltx_V l = 2 * c + 35" | "ltx_V l = 2 * c + 36" by auto
  then show ?thesis
    by cases (use LegacyTx assms(2) in \<open>simp_all add: tx_V_def y_parity_def protected_V_def mult.commute\<close>)
qed (use assms in \<open>auto simp: is_legacy_def\<close>)

lemma recovered_V_typed:
  assumes "signed_for c t" "\<not> is_legacy t"
  shows "(of_nat (tx_V t) :: u64) = of_bool (y_parity t)" "tx_Type t = 1 \<or> tx_Type t = 2"
  using assms by (cases t; auto simp: is_legacy_def tx_V_def y_parity_def less_2_cases_iff)+

lemma recover_loop_columns:
  assumes "\<forall>t \<in> set ts. signed_for c t"
  shows "drop i ys = map y_parity ts \<Longrightarrow> drop j ps = map (\<lambda>t. protected_V (tx_V t)) (filter is_legacy ts) \<Longrightarrow>
    recover_loop (bl ys) (bl ps) (of_nat c) i j (map tx_Type ts) (map no_v (map sig_of ts)) = Ok (map sig_of ts)"
  using assms
proof (induction ts arbitrary: i j)
  case (Cons t ts)
  have y: "i < length ys" "ys ! i = y_parity t" "drop (Suc i) ys = map y_parity ts"
    using drop_ConsD [of i ys] Cons.prems(1) by auto
  have s: "signed_for c t" using Cons.prems(3) by simp
  have v: "no_v (sig_of t)\<lparr>sig_v := of_nat (tx_V t)\<rparr> = sig_of t" by (simp add: no_v_def sig_of_def)
  show ?case
  proof (cases "is_legacy t")
    case True
    then have p: "j < length ps" "ps ! j = protected_V (tx_V t)" "drop (Suc j) ps = map (\<lambda>t. protected_V (tx_V t)) (filter is_legacy ts)"
      using drop_ConsD [of j ps] Cons.prems(2) by auto
    have k: "tx_Type t = 0" using True by (simp add: is_legacy_def)
    show ?thesis using Cons.IH [OF y(3) p(3)] Cons.prems(3) y(1,2) p(1,2) v recovered_V [OF s True]
      by (cases "protected_V (tx_V t)") (simp_all add: Bit_bl k)
  next
    case False
    then have p: "drop j ps = map (\<lambda>t. protected_V (tx_V t)) (filter is_legacy ts)" using Cons.prems(2) by simp
    have r: "recover_loop (bl ys) (bl ps) (of_nat c) (Suc i) j (map tx_Type ts) (map no_v (map sig_of ts)) = Ok (map sig_of ts)"
      using Cons.prems(3) by (intro Cons.IH [OF y(3) p]) simp
    show ?thesis using recovered_V_typed [OF s False] r y(1,2) v by (elim disjE) (simp_all add: Bit_bl)
  qed
qed simp

lemma recoverV_columns:
  assumes "\<forall>t \<in> set ts. signed_for c t"
  shows "recoverV ((columns G ts)\<lparr>st_txSigs := map no_v (map sig_of ts)\<rparr>) c = Ok (columns G ts)"
proof -
  have "recover_loop (bl (map y_parity ts)) (bl (map (\<lambda>t. protected_V (tx_V t)) (filter is_legacy ts))) (of_nat c) 0 0
      (map tx_Type ts) (map no_v (map sig_of ts)) = Ok (map sig_of ts)"
    by (rule recover_loop_columns [OF assms]) simp_all
  moreover have "\<exists>y. bl bs = Some y" for bs by (simp add: bl_def)
  ultimately show ?thesis by (simp add: recoverV_def columns_def del: map_map)
qed

section \<open>Full transactions\<close>

definition decodes_to :: "geth \<Rightarrow> nat \<Rightarrow> bytes \<Rightarrow> transaction \<Rightarrow> bool" where
  "decodes_to G c raw t \<longleftrightarrow> tx_UnmarshalBinary G raw = Ok t \<and> tx_ok G c t"

lemma map_filter_Cons: "List.map_filter f (x # xs) = (case f x of Some y \<Rightarrow> y # List.map_filter f xs | None \<Rightarrow> List.map_filter f xs)"
  by (simp add: List.map_filter_def split: option.splits)

lemma full_loop_columns:
  assumes "geth_laws G" "chain_ok c"
  shows "list_all2 (decodes_to G c) raws us \<Longrightarrow> drop i ts = us \<Longrightarrow> drop j (List.map_filter tx_To ts) = List.map_filter tx_To us \<Longrightarrow>
    full_loop G (columns G ts) c (length us) i j = Ok raws"
proof (induction raws us arbitrary: i j rule: list_all2_induct)
  case (Cons raw raws t us)
  note i = drop_ConsD [OF Cons.prems(1)]
  have t: "tx_ok G c t" "tx_MarshalBinary G t = Ok raw"
    using Cons.hyps(1) assms(1) by (auto simp: decodes_to_def geth_laws_def)
  then have s: "signed_for c t" by (simp add: tx_ok_def)
  obtain d where d: "newSpanBatchTx t = Ok d" "stx_UnmarshalBinary G (tx_data G t) = Ok d"
    using tx_data_roundtrip [OF assms(1) s] by blast
  note whole = convert_back [OF assms(2) t(1) d(1)]
  let ?j = "if tx_To t = None then j else Suc j"
  have j': "drop ?j (List.map_filter tx_To ts) = List.map_filter tx_To us"
    using Cons.prems(2) drop_ConsD(3) [of j "List.map_filter tx_To ts"]
    by (auto simp: map_filter_Cons split: option.splits)
  have to: "(if (of_bool (tx_To t = None) :: nat) = 0 then guard_err (j < length (List.map_filter tx_To ts)) ''tx to not enough''
      (Ok (Some (List.map_filter tx_To ts ! j), Suc j)) else Ok (None, j)) = Ok (tx_To t, ?j)"
    using Cons.prems(2) drop_ConsD(1,2) [of j "List.map_filter tx_To ts"]
    by (auto simp: map_filter_Cons split: option.splits)
  have f: "st_txDatas (columns G ts) = map (tx_data G) ts" "st_txNonces (columns G ts) = map tx_Nonce ts"
    "st_txGases (columns G ts) = map tx_Gas ts" "st_txSigs (columns G ts) = map sig_of ts"
    "st_txTos (columns G ts) = List.map_filter tx_To ts" "st_contractCreationBits (columns G ts) = bl (map (\<lambda>t. tx_To t = None) ts)"
    by (simp_all add: columns_def)
  have b: "Bit (bl (map (\<lambda>t. tx_To t = None) ts)) i = Ok (of_bool (tx_To t = None))" using i by (simp add: Bit_bl)
  have ix: "index_res (map g ts) i = Ok (g t)" for g :: "transaction \<Rightarrow> 'b" using i by (simp add: index_res_def)
  show ?case
    unfolding list.size full_loop.simps add.right_neutral add_Suc_right f ix bind_res.simps d(2) b to prod.case whole t(2) Cons.IH [OF i(3) j'] ..
qed simp

lemma fullTxs_columns:
  assumes "geth_laws G" "chain_ok c" "list_all2 (decodes_to G c) raws ts" "length ts \<le> unat MaxSpanBatchElementCount"
  shows "fullTxs G (columns G ts) c = Ok raws"
  using full_loop_columns [OF assms(1-3), of 0 ts 0] count_word(3) [OF assms(4)]
  by (simp add: fullTxs_def columns_def)

end
