(* ===== verification/DeriveSpanRoundtrip.thy ===== *)
theory DeriveSpanRoundtrip
  imports DeriveSpanDecode
begin

text \<open>
  The round trip of span batches: the blocks that the batcher appended come out of the derivation.
\<close>

section \<open>Appending blocks\<close>

text \<open>What a span batch can carry on chain \<open>c\<close>: transactions that it can carry, at most
  \<open>MaxSpanBatchElementCount\<close> of them and of blocks, block times apart, each block in the epoch of
  the one before it or in the next.\<close>

definition carried :: "geth \<Rightarrow> nat \<Rightarrow> bytes \<Rightarrow> bool" where
  "carried G c raw \<longleftrightarrow> (case tx_UnmarshalBinary G raw of Ok t \<Rightarrow> tx_ok G c t | _ \<Rightarrow> False)"

definition decoded :: "geth \<Rightarrow> bytes \<Rightarrow> transaction" where
  "decoded G raw = (case tx_UnmarshalBinary G raw of Ok t \<Rightarrow> t | _ \<Rightarrow> OtherTx 0 None 0 0 0)"

definition next_block :: "u64 \<Rightarrow> singular_batch \<Rightarrow> singular_batch \<Rightarrow> bool" where
  "next_block blockTime a b \<longleftrightarrow> sb_Timestamp b = sb_Timestamp a + blockTime \<and> sb_Timestamp a \<le> sb_Timestamp b \<and>
     (sb_EpochNum b = sb_EpochNum a \<or> sb_EpochNum b = sb_EpochNum a + 1 \<and> sb_EpochNum a < sb_EpochNum b)"

definition span_ok :: "geth \<Rightarrow> nat \<Rightarrow> u64 \<Rightarrow> singular_batch list \<Rightarrow> bool" where
  "span_ok G c blockTime bs \<longleftrightarrow> bs \<noteq> [] \<and> length bs \<le> unat MaxSpanBatchElementCount \<and>
     length (concat (map sb_Transactions bs)) \<le> unat MaxSpanBatchElementCount \<and>
     list_all (\<lambda>b. list_all (carried G c) (sb_Transactions b)) bs \<and> successively (next_block blockTime) bs"

text \<open>The batcher's loop: each block with its sequence number.\<close>

fun append_all :: "geth \<Rightarrow> (singular_batch \<times> u64) list \<Rightarrow> span_builder \<Rightarrow> span_builder \<times> unit res" where
  "append_all G [] b = (b, Ok ())"
| "append_all G ((sb, seqNum) # bqs) b = then_st (AppendSingularBatch G sb seqNum b) (\<lambda>b _. append_all G bqs b)"

fun origin_flags :: "bool \<Rightarrow> singular_batch list \<Rightarrow> bool list" where
  "origin_flags f [] = []"
| "origin_flags f [b] = [f]"
| "origin_flags f (a # b # bs) = f # origin_flags (sb_EpochNum a < sb_EpochNum b) (b # bs)"

definition built :: "geth \<Rightarrow> u64 \<Rightarrow> nat \<Rightarrow> bool \<Rightarrow> singular_batch list \<Rightarrow> span_builder" where
  "built G genesis c f bs = \<lparr>sp_ParentCheck = take 20 (hash_bytes (sb_ParentHash (hd bs))),
     sp_L1OriginCheck = take 20 (hash_bytes (sb_EpochHash (last bs))), sp_Batches = map singularBatchToElement bs,
     sp_GenesisTimestamp = genesis, sp_ChainID = c, sp_originBits = bl (origin_flags f bs),
     sp_blockTxCounts = map (\<lambda>b. of_nat (length (sb_Transactions b))) bs,
     sp_sbtxs = columns G (map (decoded G) (concat (map sb_Transactions bs)))\<rparr>"

lemma decodes_carried: "list_all (carried G c) raws \<Longrightarrow> list_all2 (decodes_to G c) raws (map (decoded G) raws)"
  by (induction raws) (auto simp: carried_def decoded_def decodes_to_def split: res.splits)

lemma length_origin_flags [simp]: "length (origin_flags f bs) = length bs"
  by (induction f bs rule: origin_flags.induct) auto

lemma origin_flags_snoc: "bs \<noteq> [] \<Longrightarrow> origin_flags f (bs @ [b]) = origin_flags f bs @ [sb_EpochNum (last bs) < sb_EpochNum b]"
  by (induction f bs rule: origin_flags.induct) auto

lemma origin_flags_nth: "Suc i < length bs \<Longrightarrow> origin_flags f bs ! Suc i \<longleftrightarrow> sb_EpochNum (bs ! i) < sb_EpochNum (bs ! Suc i)"
proof (induction f bs arbitrary: i rule: origin_flags.induct)
  case (3 f a b bs)
  have "origin_flags g (b # bs) ! 0 = g" for g by (cases bs) simp_all
  then show ?case using 3 by (cases i) simp_all
qed simp_all

lemma element_fields [simp]:
  "se_Timestamp (singularBatchToElement b) = sb_Timestamp b" "se_EpochNum (singularBatchToElement b) = sb_EpochNum b"
  "se_Transactions (singularBatchToElement b) = sb_Transactions b"
  by (simp_all add: singularBatchToElement_def)

lemma add_txs_carried:
  assumes "geth_laws G" "chain_ok c" "list_all (carried G c) raws" "length (raws0 @ raws) \<le> unat MaxSpanBatchElementCount"
  shows "AddTxs G raws c (columns G (map (decoded G) raws0)) = (columns G (map (decoded G) (raws0 @ raws)), Ok ())"
  using AddTxs_columns [OF assms(1,2), of raws "map (decoded G) raws" "map (decoded G) raws0"] decodes_carried [OF assms(3)] assms(4)
  by (simp add: decodes_to_def [abs_def])

lemma append_first:
  assumes "geth_laws G" "chain_ok c" "list_all (carried G c) (sb_Transactions b)" "length (sb_Transactions b) \<le> unat MaxSpanBatchElementCount"
  shows "AppendSingularBatch G b seqNum (NewSpanBatch G genesis c) = (built G genesis c (seqNum = 0) [b], Ok ())"
proof -
  have e: "(if seqNum = 0 then 1 else 0) = (of_bool (seqNum = 0) :: u64)" by simp
  have s: "SetBit (Some 0) 0 (of_bool f) = Ok (bl [f])" for f using SetBit_bl [of "[]" 0 f] by (simp add: bl_Nil)
  show ?thesis using add_txs_carried [OF assms(1-3), of "[]"] assms(4)
    by (simp add: AppendSingularBatch_def NewSpanBatch_def newSpanBatchTxs_empty epoch_bit_def e s built_def
      del: of_bool_eq_0_iff of_bool_eq_1_iff)
qed

lemma append_next:
  assumes "geth_laws G" "chain_ok c" "bs \<noteq> []" "list_all (carried G c) (sb_Transactions b)"
    "length (concat (map sb_Transactions (bs @ [b]))) \<le> unat MaxSpanBatchElementCount"
    "sb_Timestamp (last bs) \<le> sb_Timestamp b"
  shows "AppendSingularBatch G b seqNum (built G genesis c f bs) = (built G genesis c f (bs @ [b]), Ok ())"
proof -
  have e: "(if sb_EpochNum (last bs) < sb_EpochNum b then 1 else 0) = (of_bool (sb_EpochNum (last bs) < sb_EpochNum b) :: u64)" by simp
  have p: "map singularBatchToElement bs ! (length bs - Suc 0) = singularBatchToElement (last bs)"
    using assms(3) by (simp add: last_conv_nth)
  have l: "last (map singularBatchToElement bs) = singularBatchToElement (last bs)" using assms(3) by (simp add: last_map)
  show ?thesis using assms(3,6) add_txs_carried [OF assms(1,2,4), of "concat (map sb_Transactions bs)"] assms(5)
    by (simp add: AppendSingularBatch_def built_def epoch_bit_def peek_def nth_append p l e SetBit_bl origin_flags_snoc not_less
      del: of_bool_eq_0_iff of_bool_eq_1_iff)
qed

lemma append_rest:
  assumes "geth_laws G" "chain_ok c"
  shows "bs \<noteq> [] \<Longrightarrow> list_all (\<lambda>b. list_all (carried G c) (sb_Transactions b)) (map fst bqs) \<Longrightarrow>
    length (concat (map sb_Transactions (bs @ map fst bqs))) \<le> unat MaxSpanBatchElementCount \<Longrightarrow>
    successively (next_block blockTime) (last bs # map fst bqs) \<Longrightarrow>
    append_all G bqs (built G genesis c f bs) = (built G genesis c f (bs @ map fst bqs), Ok ())"
proof (induction bqs arbitrary: bs)
  case (Cons bq bqs)
  obtain b q where bq: "bq = (b, q)" by (cases bq)
  have a: "AppendSingularBatch G b q (built G genesis c f bs) = (built G genesis c f (bs @ [b]), Ok ())"
    using Cons.prems bq by (intro append_next [OF assms Cons.prems(1)]) (auto simp: next_block_def)
  have "append_all G bqs (built G genesis c f (bs @ [b])) = (built G genesis c f ((bs @ [b]) @ map fst bqs), Ok ())"
    using Cons.prems bq by (intro Cons.IH) auto
  then show ?case using a bq by simp
qed simp

lemma append_all_built:
  assumes "geth_laws G" "chain_ok c" "span_ok G c blockTime (map fst bqs)"
  shows "append_all G bqs (NewSpanBatch G genesis c) = (built G genesis c (snd (hd bqs) = 0) (map fst bqs), Ok ())"
proof (cases bqs)
  case (Cons bq rest)
  obtain b q where bq: "bq = (b, q)" by (cases bq)
  have f: "AppendSingularBatch G b q (NewSpanBatch G genesis c) = (built G genesis c (q = 0) [b], Ok ())"
    using assms(3) Cons bq by (intro append_first [OF assms(1,2)]) (auto simp: span_ok_def)
  have "append_all G rest (built G genesis c (q = 0) [b]) = (built G genesis c (q = 0) ([b] @ map fst rest), Ok ())"
    using assms(3) Cons bq by (intro append_rest [OF assms(1,2)]) (auto simp: span_ok_def)
  then show ?thesis using f Cons bq by simp
qed (use assms(3) in \<open>simp add: span_ok_def\<close>)

section \<open>Reading a span batch back\<close>

interpretation count_item: codec PutUvarint read_tx_count "\<lambda>n. n \<le> MaxSpanBatchElementCount"
  by unfold_locales (simp add: read_tx_count_def uvarint.dec_enc)

lemma sum_counts_small:
  "unat acc + sum_list ns \<le> unat MaxSpanBatchElementCount \<Longrightarrow> sum_counts acc (map of_nat ns) = Ok (acc + of_nat (sum_list ns))"
proof (induction ns arbitrary: acc)
  case (Cons n ns)
  have u: "unat (of_nat n :: u64) = n" using Cons.prems by (intro count_word(1)) simp
  have "unat acc + n < 2 ^ 64" using Cons.prems by (simp add: MaxSpanBatchElementCount_def)
  then have a: "unat (acc + of_nat n) = unat acc + n" using u by (simp add: unat_word_ariths)
  then have "\<not> acc + of_nat n < acc" by (simp add: word_less_nat_alt)
  then show ?case using Cons.IH [of "acc + of_nat n"] Cons.prems a by (simp add: ac_simps)
qed simp

definition raw_of :: "geth \<Rightarrow> u64 \<Rightarrow> bool \<Rightarrow> singular_batch list \<Rightarrow> (spanBatchTxs \<Rightarrow> spanBatchTxs) \<Rightarrow> raw_span_batch" where
  "raw_of G genesis f bs h = \<lparr>rs_prefix = \<lparr>rs_relTimestamp = sb_Timestamp (hd bs) - genesis,
       rs_l1OriginNum = sb_EpochNum (last bs), rs_parentCheck = take 20 (hash_bytes (sb_ParentHash (hd bs))),
       rs_l1OriginCheck = take 20 (hash_bytes (sb_EpochHash (last bs)))\<rparr>,
     rs_payload = \<lparr>rs_blockCount = of_nat (length bs), rs_originBits = bl (origin_flags f bs),
       rs_blockTxCounts = map (\<lambda>b. of_nat (length (sb_Transactions b))) bs,
       rs_txs = Some (h (columns G (map (decoded G) (concat (map sb_Transactions bs)))))\<rparr>\<rparr>"

definition drop_v :: "spanBatchTxs \<Rightarrow> spanBatchTxs" where
  "drop_v st = st\<lparr>st_txSigs := map no_v (st_txSigs st)\<rparr>"

lemma ToRawSpanBatch_built: "bs \<noteq> [] \<Longrightarrow> ToRawSpanBatch (built G genesis c f bs) = Ok (raw_of G genesis f bs (\<lambda>st. st))"
  by (simp add: ToRawSpanBatch_def built_def raw_of_def hd_map last_map)

lemma carried_txs:
  assumes "span_ok G c blockTime bs"
  shows "list_all2 (decodes_to G c) (concat (map sb_Transactions bs)) (map (decoded G) (concat (map sb_Transactions bs)))"
    "\<forall>t \<in> set (map (decoded G) (concat (map sb_Transactions bs))). tx_ok G c t"
proof -
  have c: "list_all (carried G c) (concat (map sb_Transactions bs))" using assms by (auto simp: span_ok_def list_all_iff)
  show "list_all2 (decodes_to G c) (concat (map sb_Transactions bs)) (map (decoded G) (concat (map sb_Transactions bs)))"
    "\<forall>t \<in> set (map (decoded G) (concat (map sb_Transactions bs))). tx_ok G c t"
    using decodes_carried [OF c] c by (auto simp: list_all_iff carried_def decoded_def split: res.splits)
qed

lemma block_txs_bound:
  assumes "span_ok G c blockTime bs" "b \<in> set bs"
  shows "length (sb_Transactions b) \<le> unat MaxSpanBatchElementCount"
proof -
  have "length (sb_Transactions b) \<le> length (concat (map sb_Transactions bs))"
    using assms(2) by (simp add: length_concat member_le_sum_list comp_def)
  then show ?thesis using assms(1) by (simp add: span_ok_def)
qed

lemma raw_roundtrip:
  assumes "geth_laws G" "span_ok G c blockTime bs"
  obtains e where "raw_encode (raw_of G genesis f bs (\<lambda>st. st)) = Ok e"
    "\<And>rest. raw_decode G (e @ rest) = Ok (raw_of G genesis f bs drop_v, rest)"
proof -
  let ?ts = "map (decoded G) (concat (map sb_Transactions bs))" and ?n = "of_nat (length bs) :: u64"
  let ?counts = "map (\<lambda>b. of_nat (length (sb_Transactions b))) bs :: u64 list"
  have ne: "bs \<noteq> []" and ln: "length bs \<le> unat MaxSpanBatchElementCount" and lt: "length ?ts \<le> unat MaxSpanBatchElementCount"
    using assms(2) by (simp_all add: span_ok_def)
  note n = count_word [OF ln]
  have n0: "?n \<noteq> 0" using n(1) ne by (metis length_0_conv unat_0)
  obtain txs where txs: "txs_encode (columns G ?ts) = Ok txs"
    "\<And>rest. txs_decode G (zero_spanBatchTxs\<lparr>st_totalBlockTxCount := of_nat (length ?ts)\<rparr>) (txs @ rest) =
       Ok ((columns G ?ts)\<lparr>st_txSigs := map no_v (map sig_of ?ts)\<rparr>, rest)"
    using columns_roundtrip [OF assms(1) carried_txs(2) [OF assms(2)] lt] by blast
  have d: "(columns G ?ts)\<lparr>st_txSigs := map no_v (map sig_of ?ts)\<rparr> = drop_v (columns G ?ts)"
    by (simp add: drop_v_def columns_def)
  obtain ob where ob: "encodeSpanBatchBits ?n (bl (origin_flags f bs)) = Ok ob"
    "\<And>rest. decodeSpanBatchBits ?n (ob @ rest) = Ok (bl (origin_flags f bs), rest)"
    using bl_roundtrip [of "origin_flags f bs" ?n] n(1) by auto
  have small: "\<forall>k \<in> set ?counts. k \<le> MaxSpanBatchElementCount" using block_txs_bound [OF assms(2)] count_word(2) by auto
  have counts: "decodeBlockTxCounts ?n (concat (map PutUvarint ?counts) @ rest) = Ok (?counts, rest)" for rest
    using count_item.list_roundtrip [OF small, of rest] by (simp add: decodeBlockTxCounts_def n(3))
  have "sum_list (map (\<lambda>b. length (sb_Transactions b)) bs) = length ?ts" by (simp add: length_concat comp_def)
  then have total: "sum_counts 0 ?counts = Ok (of_nat (length ?ts))"
    using sum_counts_small [of 0 "map (\<lambda>b. length (sb_Transactions b)) bs"] lt by (simp add: comp_def)
  have tm: "of_nat (length ?ts) \<le> MaxSpanBatchElementCount" by (rule count_word [OF lt])
  have h: "read_full 20 (take 20 (hash_bytes x) @ rest) = Ok (take 20 (hash_bytes x), rest)" for x rest
    by (rule read_full_append) (simp add: hash_bytes_def del: be_encode_numeral)
  let ?r = "raw_of G genesis f bs (\<lambda>st. st)"
  have p: "decodePrefix (encodePrefix (rs_prefix ?r) @ rest) = Ok (rs_prefix ?r, rest)" for rest
    unfolding decodePrefix_def encodePrefix_def append_assoc uvarint.dec_enc [OF TrueI] wrap_err.simps bind_res.simps prod.case
    by (simp add: raw_of_def h)
  have enc: "encodePayload (rs_payload ?r) = Ok (PutUvarint ?n @ ob @ concat (map PutUvarint ?counts) @ txs)"
    using ob(1) txs(1) by (simp add: encodePayload_def encodeOriginBits_def encodeTxs_def encodeBlockTxCounts_def raw_of_def)
  have bc: "decodeBlockCount (PutUvarint ?n @ rest) = Ok (?n, rest)" for rest
    using n(2) n0 by (simp add: decodeBlockCount_def uvarint.dec_enc)
  have o: "decodeOriginBits ?n (ob @ rest) = Ok (bl (origin_flags f bs), rest)" for rest
    using n(2) ob(2) by (simp add: decodeOriginBits_def)
  have t: "decodeTxs G None ?counts (txs @ rest) = Ok (drop_v (columns G ?ts), rest)" for rest
    using ne total tm txs(2) d by (simp add: decodeTxs_def)
  have dec: "decodePayload G ((PutUvarint ?n @ ob @ concat (map PutUvarint ?counts) @ txs) @ rest) =
      Ok (rs_payload (raw_of G genesis f bs drop_v), rest)" for rest
    unfolding decodePayload_def append_assoc bc o counts t bind_res.simps prod.case by (simp add: raw_of_def)
  show ?thesis
  proof (rule that)
    show "raw_encode ?r = Ok (encodePrefix (rs_prefix ?r) @ PutUvarint ?n @ ob @ concat (map PutUvarint ?counts) @ txs)"
      unfolding raw_encode_def enc by simp
    fix rest
    have "raw_decode G ((encodePrefix (rs_prefix ?r) @ (PutUvarint ?n @ ob @ concat (map PutUvarint ?counts) @ txs)) @ rest) =
        Ok (\<lparr>rs_prefix = rs_prefix ?r, rs_payload = rs_payload (raw_of G genesis f bs drop_v)\<rparr>, rest)"
      unfolding raw_decode_def append_assoc p wrap_err.simps bind_res.simps prod.case
      using dec [of rest] by simp
    then show "raw_decode G ((encodePrefix (rs_prefix ?r) @ PutUvarint ?n @ ob @ concat (map PutUvarint ?counts) @ txs) @ rest) =
        Ok (raw_of G genesis f bs drop_v, rest)" by (simp add: raw_of_def)
  qed
qed

section \<open>Deriving the blocks\<close>

lemma take_txs_in: "i + n \<le> length full \<Longrightarrow> take_txs full i n = Ok (take n (drop i full))"
proof (induction n arbitrary: i)
  case (Suc n)
  then show ?case by (simp add: index_res_def take_Suc_conv_app_nth Cons_nth_drop_Suc [symmetric])
qed simp

lemma origin_nums_back:
  assumes "successively (next_block blockTime) bs"
  shows "i < length bs \<Longrightarrow> origin_nums (bl (origin_flags f bs)) (Suc i) (sb_EpochNum (bs ! i)) = Ok (map sb_EpochNum (take (Suc i) bs))"
proof (induction i)
  case 0
  then show ?case by (cases bs) (simp_all add: Bit_bl)
next
  case (Suc i)
  have "next_block blockTime (bs ! i) (bs ! Suc i)" using assms Suc.prems by (simp add: successively_conv_nth)
  then have "(if sb_EpochNum (bs ! i) < sb_EpochNum (bs ! Suc i) then sb_EpochNum (bs ! Suc i) - 1 else sb_EpochNum (bs ! Suc i)) = sb_EpochNum (bs ! i)"
    by (auto simp: next_block_def)
  then show ?case using Suc origin_flags_nth [OF Suc.prems, of f]
    by (subst origin_nums.simps) (simp add: Bit_bl take_Suc_conv_app_nth [of "Suc i"] split: if_splits del: origin_nums.simps)
qed

lemma derive_loop_back:
  "drop i nums = map sb_EpochNum bs \<Longrightarrow> drop i counts = map (\<lambda>b. of_nat (length (sb_Transactions b))) bs \<Longrightarrow>
   drop j full = concat (map sb_Transactions bs) \<Longrightarrow> \<forall>b \<in> set bs. length (sb_Transactions b) \<le> unat MaxSpanBatchElementCount \<Longrightarrow>
   successively (next_block blockTime) bs \<Longrightarrow> bs \<noteq> [] \<longrightarrow> sb_Timestamp (hd bs) = start + blockTime * of_nat i \<Longrightarrow>
   derive_loop start blockTime nums counts full (length bs) i j = Ok (map singularBatchToElement bs)"
proof (induction bs arbitrary: i j)
  case (Cons b bs)
  have n: "index_res nums i = Ok (sb_EpochNum b)" "drop (Suc i) nums = map sb_EpochNum bs"
    using drop_ConsD [of i nums] Cons.prems(1) by (auto simp: index_res_def)
  have c: "index_res counts i = Ok (of_nat (length (sb_Transactions b)))" "drop (Suc i) counts = map (\<lambda>b. of_nat (length (sb_Transactions b))) bs"
    using drop_ConsD [of i counts] Cons.prems(2) by (auto simp: index_res_def)
  have r: "rounds (of_nat (length (sb_Transactions b))) = length (sb_Transactions b)"
    using Cons.prems(4) by (intro count_word) simp
  have "length (drop j full) \<ge> length (sb_Transactions b)" using Cons.prems(3) by simp
  then have "sb_Transactions b = [] \<or> j + length (sb_Transactions b) \<le> length full" by (cases "sb_Transactions b") simp_all
  then have t: "take_txs full j (length (sb_Transactions b)) = Ok (sb_Transactions b)"
    using Cons.prems(3) by (auto simp: take_txs_in)
  have d: "drop (j + length (sb_Transactions b)) full = concat (map sb_Transactions bs)"
  proof -
    have "drop (j + length (sb_Transactions b)) full = drop (length (sb_Transactions b)) (drop j full)"
      by (simp add: add.commute)
    then show ?thesis unfolding Cons.prems(3) by simp
  qed
  have ts: "bs \<noteq> [] \<longrightarrow> sb_Timestamp (hd bs) = start + blockTime * of_nat (Suc i)"
    using Cons.prems(5,6) by (cases bs) (simp_all add: next_block_def algebra_simps)
  have s: "successively (next_block blockTime) bs" using Cons.prems(5) by (cases bs) simp_all
  have "derive_loop start blockTime nums counts full (length bs) (Suc i) (j + length (sb_Transactions b)) = Ok (map singularBatchToElement bs)"
    using Cons.prems(4) by (intro Cons.IH [OF n(2) c(2) d _ s ts]) simp
  then show ?case using n(1) c(1) r t Cons.prems(6) by (simp add: singularBatchToElement_def)
qed simp

lemma raw_derive_back:
  assumes "geth_laws G" "chain_ok c" "span_ok G c blockTime bs"
  shows "raw_derive G blockTime genesis c (raw_of G genesis f bs drop_v) =
    Ok \<lparr>sp_ParentCheck = take 20 (hash_bytes (sb_ParentHash (hd bs))), sp_L1OriginCheck = take 20 (hash_bytes (sb_EpochHash (last bs))),
      sp_Batches = map singularBatchToElement bs\<rparr>"
proof -
  let ?ts = "map (decoded G) (concat (map sb_Transactions bs))"
  have ne: "bs \<noteq> []" and ln: "length bs \<le> unat MaxSpanBatchElementCount" and lt: "length ?ts \<le> unat MaxSpanBatchElementCount"
    and succ: "successively (next_block blockTime) bs"
    using assms(3) by (simp_all add: span_ok_def)
  have n0: "(of_nat (length bs) :: u64) \<noteq> 0" using count_word(1) [OF ln] ne by (metis length_0_conv unat_0)
  have l: "length bs = Suc (length bs - 1)" "bs ! (length bs - 1) = last bs" using ne by (simp_all add: last_conv_nth)
  have nums: "origin_nums (bl (origin_flags f bs)) (length bs) (sb_EpochNum (last bs)) = Ok (map sb_EpochNum bs)"
    using origin_nums_back [OF succ, of "length bs - 1" f] l ne by simp
  have "\<forall>t \<in> set ?ts. signed_for c t" using carried_txs(2) [OF assms(3)] by (auto simp: tx_ok_def)
  from recoverV_columns [OF this, of G] have v: "recoverV (drop_v (columns G ?ts)) c = Ok (columns G ?ts)"
    by (simp add: drop_v_def columns_def)
  note full = fullTxs_columns [OF assms(1,2) carried_txs(1) [OF assms(3)] lt]
  have blocks: "derive_loop (genesis + (sb_Timestamp (hd bs) - genesis)) blockTime (map sb_EpochNum bs)
      (map (\<lambda>b. of_nat (length (sb_Transactions b))) bs) (concat (map sb_Transactions bs)) (length bs) 0 0 = Ok (map singularBatchToElement bs)"
    using block_txs_bound [OF assms(3)] by (intro derive_loop_back [OF _ _ _ _ succ]) simp_all
  show ?thesis using n0 nums v full blocks unfolding raw_derive_def raw_of_def
    by (simp add: count_word(3) [OF ln] del: derive_loop.simps)
qed

text \<open>
  The properties of the span batch codec, with a sample of go-ethereum's part: a self-delimiting
  format in the place of RLP, and two transactions.
\<close>

section \<open>A sample\<close>

text \<open>Numbers in unary, and what is built from them.\<close>

definition put_nat :: "nat \<Rightarrow> bytes" where "put_nat n = replicate n 1 @ [0]"

fun get_nat :: "nat parser" where
  "get_nat [] = Err ''EOF''"
| "get_nat (b # bs) = (if b = 0 then Ok (0, bs) else bind_res (get_nat bs) (\<lambda>(n, bs). Ok (Suc n, bs)))"

definition put_pair :: "('a \<Rightarrow> bytes) \<Rightarrow> ('b \<Rightarrow> bytes) \<Rightarrow> 'a \<times> 'b \<Rightarrow> bytes" where
  "put_pair f g p = f (fst p) @ g (snd p)"

definition get_pair :: "'a parser \<Rightarrow> 'b parser \<Rightarrow> ('a \<times> 'b) parser" where
  "get_pair f g bs = bind_res (f bs) (\<lambda>(x, bs). bind_res (g bs) (\<lambda>(y, bs). Ok ((x, y), bs)))"

definition put_list :: "('a \<Rightarrow> bytes) \<Rightarrow> 'a list \<Rightarrow> bytes" where
  "put_list f xs = put_nat (length xs) @ concat (map f xs)"

definition get_list :: "'a parser \<Rightarrow> 'a list parser" where
  "get_list f bs = bind_res (get_nat bs) (\<lambda>(n, bs). read_list f n bs)"

interpretation nat_codec: codec put_nat get_nat "\<lambda>_. True"
proof unfold_locales
  fix n rest show "get_nat (put_nat n @ rest) = Ok (n, rest)"
    by (induction n) (simp_all add: put_nat_def)
qed

lemma pair_codec: "codec f f' (\<lambda>_. True) \<Longrightarrow> codec g g' (\<lambda>_. True) \<Longrightarrow> codec (put_pair f g) (get_pair f' g') (\<lambda>_. True)"
  by (auto simp: codec_def put_pair_def get_pair_def)

lemma list_codec: "codec f f' (\<lambda>_. True) \<Longrightarrow> codec (put_list f) (get_list f') (\<lambda>_. True)"
  unfolding codec_def [of "put_list f"]
  by (simp add: put_list_def get_list_def nat_codec.dec_enc codec.list_roundtrip)

lemma byte_codec: "codec (\<lambda>b :: byte. [b]) read_uint8 (\<lambda>_. True)"
  by (rule uint8.codec_axioms)

type_synonym fields = "nat \<times> nat \<times> nat \<times> bytes \<times> (nat \<times> nat list) list"

definition put_fields :: "fields \<Rightarrow> bytes" where
  "put_fields = put_pair put_nat (put_pair put_nat (put_pair put_nat (put_pair (put_list (\<lambda>b. [b]))
     (put_list (put_pair put_nat (put_list put_nat))))))"

definition get_fields :: "fields parser" where
  "get_fields = get_pair get_nat (get_pair get_nat (get_pair get_nat (get_pair (get_list read_uint8)
     (get_list (get_pair get_nat (get_list get_nat))))))"

interpretation fields_codec: codec put_fields get_fields "\<lambda>_. True"
  unfolding put_fields_def get_fields_def
  by (intro pair_codec list_codec byte_codec nat_codec.codec_axioms)

definition put_struct :: "fields \<Rightarrow> bytes" where
  "put_struct x = 0xC0 # put_list (\<lambda>b. [b]) (put_fields x)"

definition get_struct :: "bytes \<Rightarrow> fields res" where
  "get_struct bs = bind_res (get_list read_uint8 (tl bs)) (\<lambda>(p, _). bind_res (get_fields p) (\<lambda>(x, _). Ok x))"

definition get_raw :: "bytes parser" where
  "get_raw bs = map_parser (\<lambda>p. 0xC0 # put_list (\<lambda>b. [b]) p) (get_list read_uint8) (tl bs)"

definition nats_of :: "access_list \<Rightarrow> (nat \<times> nat list) list" where
  "nats_of = map (\<lambda>(a, ks). (unat a, map unat ks))"

definition of_nats :: "(nat \<times> nat list) list \<Rightarrow> access_list" where
  "of_nats = map (\<lambda>(a, ks). (of_nat a, map of_nat ks))"

lemma of_nats_of: "of_nats (nats_of al) = al"
  by (simp add: of_nats_def nats_of_def comp_def case_prod_unfold)

definition sample_legacy :: transaction where
  "sample_legacy = LegacyTx \<lparr>ltx_Nonce = 7, ltx_GasPrice = 2, ltx_Gas = 21000, ltx_To = Some 5, ltx_Value = 3, ltx_Data = [],
     ltx_V = 56, ltx_R = 11, ltx_S = 12\<rparr>"

definition sample_dynamic :: transaction where
  "sample_dynamic = DynamicFeeTx \<lparr>dtx_ChainID = 10, dtx_Nonce = 8, dtx_GasTipCap = 1, dtx_GasFeeCap = 2, dtx_Gas = 50000, dtx_To = None,
     dtx_Value = 0, dtx_Data = [96, 0], dtx_AccessList = [], dtx_V = 1, dtx_R = 13, dtx_S = 14\<rparr>"

definition sample_geth :: geth where
  "sample_geth = \<lparr>rlp_Kind = (\<lambda>_ bs. if bs \<noteq> [] \<and> hd bs = 0xC0 then Ok KindList else Ok KindString), rlp_Raw = (\<lambda>_. get_raw),
     rlp_Bytes = get_list read_uint8, rlp_EncodeBytes = (\<lambda>bs. Ok (put_list (\<lambda>b. [b]) bs)),
     rlp_EncodeLegacy = (\<lambda>d. Ok (put_struct (lg_Value d, lg_GasPrice d, 0, lg_Data d, []))),
     rlp_DecodeLegacy = (\<lambda>bs. bind_res (get_struct bs) (\<lambda>(v, p, _, d, _). Ok \<lparr>lg_Value = v, lg_GasPrice = p, lg_Data = d\<rparr>)),
     rlp_EncodeAccessList = (\<lambda>d. Ok (put_struct (al_Value d, al_GasPrice d, 0, al_Data d, nats_of (al_AccessList d)))),
     rlp_DecodeAccessList = (\<lambda>bs. bind_res (get_struct bs) (\<lambda>(v, p, _, d, l).
       Ok \<lparr>al_Value = v, al_GasPrice = p, al_Data = d, al_AccessList = of_nats l\<rparr>)),
     rlp_EncodeDynamicFee = (\<lambda>d. Ok (put_struct (df_Value d, df_GasTipCap d, df_GasFeeCap d, df_Data d, nats_of (df_AccessList d)))),
     rlp_DecodeDynamicFee = (\<lambda>bs. bind_res (get_struct bs) (\<lambda>(v, t, f, d, l).
       Ok \<lparr>df_Value = v, df_GasTipCap = t, df_GasFeeCap = f, df_Data = d, df_AccessList = of_nats l\<rparr>)),
     rlp_EncodeSingular = (\<lambda>_. Err ''not in the sample''), rlp_DecodeSingular = (\<lambda>_. Err ''not in the sample''),
     tx_UnmarshalBinary = (\<lambda>bs. if bs = [1] then Ok sample_legacy else if bs = [2] then Ok sample_dynamic else Err ''not in the sample''),
     tx_MarshalBinary = (\<lambda>t. if t = sample_legacy then Ok [1] else if t = sample_dynamic then Ok [2] else Err ''not in the sample''),
     tx_Protected = (\<lambda>t. case t of LegacyTx l \<Rightarrow> protected_V (ltx_V l) | _ \<Rightarrow> True),
     tx_ChainId = (\<lambda>t. case t of LegacyTx l \<Rightarrow> (ltx_V l - 35) div 2 | AccessListTx a \<Rightarrow> atx_ChainID a | DynamicFeeTx d \<Rightarrow> dtx_ChainID d
       | OtherTx _ _ _ _ _ \<Rightarrow> 0)\<rparr>"

lemma struct_back: "get_struct (put_struct x) = Ok x"
  using codec.dec_enc_end [OF list_codec [OF byte_codec], of "put_fields x"] fields_codec.dec_enc_end [of x]
  by (simp add: get_struct_def put_struct_def)

lemma struct_item: "rlp_list_item sample_geth (put_struct x)"
proof -
  have "get_list read_uint8 (put_list (\<lambda>b. [b]) p @ rest) = Ok (p, rest)" for p rest
    using codec.dec_enc [OF list_codec [OF byte_codec], of p rest] by simp
  then show ?thesis by (simp add: rlp_list_item_def sample_geth_def put_struct_def get_raw_def map_parser_def)
qed

lemma sample_laws: "geth_laws sample_geth"
proof -
  have "rlp_laws sample_geth"
    using struct_item unfolding rlp_laws_def by (simp add: sample_geth_def struct_back of_nats_of)
  moreover have "tx_laws sample_geth t" for t
    by (cases t) (auto simp: sample_geth_def)
  moreover have "tx_UnmarshalBinary sample_geth raw = Ok t \<Longrightarrow> tx_MarshalBinary sample_geth t = Ok raw" for raw t
    by (auto simp: sample_geth_def sample_legacy_def sample_dynamic_def split: if_splits)
  ultimately show ?thesis by (simp add: geth_laws_def)
qed

definition sample_blocks :: "singular_batch list" where
  "sample_blocks =
     [\<lparr>sb_ParentHash = 1, sb_EpochNum = 50, sb_EpochHash = 2, sb_Timestamp = 102, sb_Transactions = [[1], [2]]\<rparr>,
      \<lparr>sb_ParentHash = 0, sb_EpochNum = 51, sb_EpochHash = 3, sb_Timestamp = 104, sb_Transactions = []\<rparr>,
      \<lparr>sb_ParentHash = 0, sb_EpochNum = 51, sb_EpochHash = 3, sb_Timestamp = 106, sb_Transactions = [[2]]\<rparr>]"

lemma sample_span_ok: "span_ok sample_geth 10 2 sample_blocks"
proof -
  have k: "tx_ok sample_geth 10 sample_legacy" "tx_ok sample_geth 10 sample_dynamic"
    by (simp_all add: tx_ok_def sample_legacy_def sample_dynamic_def tx_R_def tx_S_def tx_data_def sample_geth_def stx_MarshalBinary_def
      encodeTyped_def put_struct_def put_fields_def put_pair_def put_list_def put_nat_def nats_of_def MaxSpanBatchElementCount_def length_concat)
  have "carried sample_geth 10 [1]" "carried sample_geth 10 [2]"
    using k by (simp_all add: carried_def sample_geth_def)
  then show ?thesis by (simp add: span_ok_def sample_blocks_def MaxSpanBatchElementCount_def next_block_def)
qed

section \<open>The round trip\<close>

text \<open>C9: What the batcher puts into a span batch comes out of the derivation: blocks that are block
  times apart, each in the epoch of the one before it or in the next, with transactions of known
  types signed for the chain, at most ten million of either, are appended without an error, encode,
  and decode and derive to the same blocks, with the parent check of the first and the origin check
  of the last.\<close>

theorem span_batch_roundtrip:
  assumes "geth_laws G" "chain_ok c" "span_ok G c blockTime (map fst bqs)"
  shows "\<exists>sb raw bin. append_all G bqs (NewSpanBatch G genesis c) = (sb, Ok ()) \<and> ToRawSpanBatch sb = Ok raw \<and>
    bd_MarshalBinary G (RawSpanInner raw) = Ok bin \<and>
    bind_res (bd_UnmarshalBinary G bin) (\<lambda>inner. DeriveSpanBatch G inner blockTime genesis c) =
      Ok \<lparr>sp_ParentCheck = take 20 (hash_bytes (sb_ParentHash (fst (hd bqs)))),
        sp_L1OriginCheck = take 20 (hash_bytes (sb_EpochHash (fst (last bqs)))), sp_Batches = map (singularBatchToElement \<circ> fst) bqs\<rparr>"
proof -
  let ?bs = "map fst bqs" and ?f = "snd (hd bqs) = 0"
  have ne: "?bs \<noteq> []" using assms(3) by (simp add: span_ok_def)
  obtain e where e: "raw_encode (raw_of G genesis ?f ?bs (\<lambda>st. st)) = Ok e"
    "\<And>rest. raw_decode G (e @ rest) = Ok (raw_of G genesis ?f ?bs drop_v, rest)"
    using raw_roundtrip [OF assms(1,3)] by blast
  have m: "bd_MarshalBinary G (RawSpanInner (raw_of G genesis ?f ?bs (\<lambda>st. st))) = Ok (1 # e)"
    by (simp add: bd_MarshalBinary_def bd_encodeTyped_def e(1) SpanBatchType_def)
  have u: "bd_UnmarshalBinary G (1 # e) = Ok (RawSpanInner (raw_of G genesis ?f ?bs drop_v))"
    using e(2) [of "[]"] by (simp add: bd_UnmarshalBinary_def bd_decodeTyped_def SingularBatchType_def SpanBatchType_def)
  show ?thesis using append_all_built [OF assms] ToRawSpanBatch_built [OF ne] m u raw_derive_back [OF assms] ne
    by (simp add: DeriveSpanBatch_def ToSpanBatch_def hd_map last_map)
qed

theorem span_batch_roundtrip_witness:
  "\<exists>sb raw bin. append_all sample_geth (zip sample_blocks [0, 0, 1]) (NewSpanBatch sample_geth 100 10) = (sb, Ok ()) \<and>
    ToRawSpanBatch sb = Ok raw \<and> bd_MarshalBinary sample_geth (RawSpanInner raw) = Ok bin \<and>
    bind_res (bd_UnmarshalBinary sample_geth bin) (\<lambda>inner. DeriveSpanBatch sample_geth inner 2 100 10) =
      Ok \<lparr>sp_ParentCheck = take 20 (hash_bytes 1), sp_L1OriginCheck = take 20 (hash_bytes 3),
        sp_Batches = map singularBatchToElement sample_blocks\<rparr>"
proof -
  have z: "map fst (zip sample_blocks [0, 0, 1 :: u64]) = sample_blocks" by (simp add: sample_blocks_def)
  then have z': "map (singularBatchToElement \<circ> fst) (zip sample_blocks [0, 0, 1 :: u64]) = map singularBatchToElement sample_blocks"
    by (metis map_map)
  have b: "sb_ParentHash (fst (hd (zip sample_blocks [0, 0, 1 :: u64]))) = 1" "sb_EpochHash (fst (last (zip sample_blocks [0, 0, 1 :: u64]))) = 3"
    by (simp_all add: sample_blocks_def)
  have "chain_ok 10" by (simp add: chain_ok_def)
  from span_batch_roundtrip [OF sample_laws this, of 2 "zip sample_blocks [0, 0, 1]" 100, unfolded z z' b] sample_span_ok
  show ?thesis by blast
qed

end
