(* ===== verification/DeriveSpanSafe.thy ===== *)
theory DeriveSpanSafe
  imports DeriveSpanRoundtrip
begin

text \<open>
  Span batches come from L1, where anyone can write them: whatever the bytes, reading and deriving
  them returns, and what it returns is bounded. The proof carries the shape of the columns, which
  the decoder fixes before any of them is indexed.
\<close>

section \<open>Never a panic\<close>

named_theorems no_panic \<open>outcomes that are not panics\<close>

definition safe :: "'a res \<Rightarrow> bool" where
  "safe r = (case r of Panic e \<Rightarrow> False | _ \<Rightarrow> True)"

lemma safe_simps [simp]: "safe (Ok x)" "safe (Err e)" "\<not> safe (Panic e)"
  by (simp_all add: safe_def)

lemma safe_iff: "safe r \<longleftrightarrow> \<not> is_panic r"
  by (cases r) auto

lemma no_panic_bind [no_panic]:
  "safe m \<Longrightarrow> (\<And>x. m = Ok x \<Longrightarrow> safe (f x)) \<Longrightarrow> safe (bind_res m f)"
  by (cases m) auto

lemma no_panic_pair [no_panic]: "(\<And>x y. p = (x, y) \<Longrightarrow> safe (f x y)) \<Longrightarrow> safe (case p of (x, y) \<Rightarrow> f x y)"
  by (cases p) auto

lemma no_panic_guard [no_panic]: "(c \<Longrightarrow> safe k) \<Longrightarrow> safe (guard_err c e k)"
  by (cases c) auto

lemma no_panic_if [no_panic]: "(c \<Longrightarrow> safe a) \<Longrightarrow> (\<not> c \<Longrightarrow> safe b) \<Longrightarrow> safe (if c then a else b)"
  by simp

lemma no_panic_wrap [no_panic]: "safe r \<Longrightarrow> safe (wrap_err g r)"
  by (cases r) auto

lemma no_panic_values [no_panic]: "safe (Ok x)" "safe (Err e)" by simp_all

lemma no_panic_reads [no_panic]: "safe (ReadUvarint bs)" "safe (read_full n bs)"
  using uvarint_no_panic read_full_no_panic by (simp_all add: safe_iff)

lemma no_panic_list [no_panic]: "(\<And>bs. safe (p bs)) \<Longrightarrow> safe (read_list p n bs)"
  by (induction n arbitrary: bs) (auto intro!: no_panic)

lemma read_list_length: "read_list p n bs = Ok (xs, rest) \<Longrightarrow> length xs = n"
  by (induction n arbitrary: bs xs) (auto simp: res_simps)

lemma read_list_all: "read_list p n bs = Ok (xs, rest) \<Longrightarrow> (\<And>bs x r. p bs = Ok (x, r) \<Longrightarrow> Q x) \<Longrightarrow> \<forall>x \<in> set xs. Q x"
  by (induction n arbitrary: bs xs) (auto simp: res_simps)

lemma no_panic_bits [no_panic]: "safe (decodeSpanBatchBits n bs)"
  unfolding decodeSpanBatchBits_def Let_def by (intro no_panic)

lemma Bit_Some: "bits \<noteq> None \<Longrightarrow> \<exists>b. Bit bits i = Ok b"
  by (auto simp: Bit_def)

lemma no_panic_Bit [no_panic]: "bits \<noteq> None \<Longrightarrow> safe (Bit bits i)"
  using Bit_Some [of bits i] by auto

lemma no_panic_index [no_panic]: "i < length xs \<Longrightarrow> safe (index_res xs i)"
  by (simp add: index_res_def)

text \<open>go-ethereum's functions return.\<close>

definition geth_returns :: "geth \<Rightarrow> bool" where
  "geth_returns G \<longleftrightarrow> (\<forall>n bs. safe (rlp_Kind G n bs) \<and> safe (rlp_Raw G n bs)) \<and>
     (\<forall>bs. safe (rlp_DecodeLegacy G bs) \<and> safe (rlp_DecodeAccessList G bs) \<and>
       safe (rlp_DecodeDynamicFee G bs) \<and> safe (rlp_DecodeSingular G bs)) \<and>
     (\<forall>t. safe (tx_MarshalBinary G t))"

section \<open>The columns\<close>

definition txs_shape :: "u64 \<Rightarrow> spanBatchTxs \<Rightarrow> bool" where
  "txs_shape n st \<longleftrightarrow> st_totalBlockTxCount st = n \<and> n \<le> MaxSpanBatchElementCount \<and> st_contractCreationBits st \<noteq> None \<and>
     st_yParityBits st \<noteq> None \<and> st_protectedBits st \<noteq> None \<and> length (st_txSigs st) = unat n \<and> length (st_txNonces st) = unat n \<and>
     length (st_txGases st) = unat n \<and> length (st_txDatas st) = unat n \<and> length (st_txTypes st) = unat n"

lemma no_panic_count [no_panic]: "bits \<noteq> None \<Longrightarrow> safe (count_bits bits i n acc)"
  by (induction n arbitrary: i acc) (auto intro!: no_panic)

lemma no_panic_items [no_panic]: "safe (read_sig bs)" "safe (read_address bs)"
  unfolding read_sig_def read_address_def by (intro no_panic)+

lemma no_panic_data [no_panic]:
  assumes "geth_returns G"
  shows "safe (ReadTxData G bs)"
proof (cases bs)
  case (Cons b r)
  have k: "safe (rlp_Kind G n x)" "safe (rlp_Raw G n x)" for n x using assms by (simp_all add: geth_returns_def)
  have q: "safe (case rlp_Kind G n x of Err e \<Rightarrow> if e = ErrValueTooLarge then Err ErrTooBigSpanBatchSize else Err (f e)
      | Panic e \<Rightarrow> Panic e | Ok kind \<Rightarrow> if kind = KindList then bind_res (wrap_err g (rlp_Raw G n x)) (\<lambda>(p, r). Ok (h p, r)) else Err z)"
    for n x f g h z
    using k(1) [of n x] by (cases "rlp_Kind G n x") (auto intro!: no_panic k(2))
  show ?thesis unfolding Cons ReadTxData_def list.case by (cases "unat b \<le> 127") (simp_all only: if_True if_False Let_def prod.case q)
qed (simp add: ReadTxData_def)

lemma txs_decode_no_panic [no_panic]:
  assumes "geth_returns G"
  shows "safe (txs_decode G st bs)"
  unfolding txs_decode_def decodeContractCreationBits_def decodeYParityBits_def decodeTxSigsRS_def decodeTxTos_def
    contractCreationCount_def decodeTxDatas_def decodeTxNonces_def decodeTxGases_def decodeProtectedBits_def
  by (intro no_panic assms) simp_all

lemma txs_decode_shape:
  assumes "txs_decode G (zero_spanBatchTxs\<lparr>st_totalBlockTxCount := n\<rparr>) bs = Ok (st, rest)"
  shows "txs_shape n st"
proof -
  let ?s0 = "zero_spanBatchTxs\<lparr>st_totalBlockTxCount := n\<rparr>"
  obtain s1 r1 s2 r2 s3 r3 s4 r4 s5 r5 s6 r6 s7 r7 where s:
    "decodeContractCreationBits ?s0 bs = Ok (s1, r1)" "decodeYParityBits s1 r1 = Ok (s2, r2)" "decodeTxSigsRS s2 r2 = Ok (s3, r3)"
    "decodeTxTos s3 r3 = Ok (s4, r4)" "decodeTxDatas G s4 r4 = Ok (s5, r5)" "decodeTxNonces s5 r5 = Ok (s6, r6)"
    "decodeTxGases s6 r6 = Ok (s7, r7)" "decodeProtectedBits s7 r7 = Ok (st, rest)"
    using assms unfolding txs_decode_def by (elim bind_pairE) blast
  have 1: "st_totalBlockTxCount s1 = n" "n \<le> MaxSpanBatchElementCount" "st_contractCreationBits s1 \<noteq> None"
    using s(1) by (auto simp: decodeContractCreationBits_def res_simps dest: decode_bits_Ok)
  note n = rounds_small [OF 1(2)]
  have 2: "st_totalBlockTxCount s2 = n" "st_contractCreationBits s2 = st_contractCreationBits s1" "st_yParityBits s2 \<noteq> None"
    using s(2) 1 by (auto simp: decodeYParityBits_def res_simps dest: decode_bits_Ok)
  have 3: "st_totalBlockTxCount s3 = n" "st_contractCreationBits s3 = st_contractCreationBits s2" "st_yParityBits s3 = st_yParityBits s2"
    "length (st_txSigs s3) = unat n"
    using s(3) 2 n by (auto simp: decodeTxSigsRS_def res_simps dest: read_list_length)
  have 4: "st_totalBlockTxCount s4 = n" "st_contractCreationBits s4 = st_contractCreationBits s3" "st_yParityBits s4 = st_yParityBits s3"
    "st_txSigs s4 = st_txSigs s3"
    using s(4) 3 by (auto simp: decodeTxTos_def res_simps)
  have 5: "st_totalBlockTxCount s5 = n" "st_contractCreationBits s5 = st_contractCreationBits s4" "st_yParityBits s5 = st_yParityBits s4"
    "st_txSigs s5 = st_txSigs s4" "length (st_txDatas s5) = unat n" "length (st_txTypes s5) = unat n"
    using s(5) 4 n by (auto simp: decodeTxDatas_def res_simps dest: read_list_length)
  have 6: "st_totalBlockTxCount s6 = n" "st_contractCreationBits s6 = st_contractCreationBits s5" "st_yParityBits s6 = st_yParityBits s5"
    "st_txSigs s6 = st_txSigs s5" "st_txDatas s6 = st_txDatas s5" "st_txTypes s6 = st_txTypes s5" "length (st_txNonces s6) = unat n"
    using s(6) 5 n by (auto simp: decodeTxNonces_def res_simps dest: read_list_length)
  have 7: "st_totalBlockTxCount s7 = n" "st_contractCreationBits s7 = st_contractCreationBits s6" "st_yParityBits s7 = st_yParityBits s6"
    "st_txSigs s7 = st_txSigs s6" "st_txDatas s7 = st_txDatas s6" "st_txTypes s7 = st_txTypes s6" "st_txNonces s7 = st_txNonces s6"
    "length (st_txGases s7) = unat n"
    using s(7) 6 n by (auto simp: decodeTxGases_def res_simps dest: read_list_length)
  show ?thesis using s(8) 1 2 3 4 5 6 7 by (auto simp: txs_shape_def decodeProtectedBits_def res_simps dest: decode_bits_Ok)
qed

lemma recover_loop_length: "recover_loop yp pb c i j ts sigs = Ok sigs' \<Longrightarrow> length sigs' = length sigs"
proof (induction ts arbitrary: i j sigs sigs')
  case (Cons t ts)
  then show ?case by (cases sigs) (auto simp: res_simps)
qed simp

lemma no_panic_recover [no_panic]:
  assumes "yp \<noteq> None" "pb \<noteq> None"
  shows "length ts = length sigs \<Longrightarrow> safe (recover_loop yp pb c i j ts sigs)"
proof (induction ts arbitrary: i j sigs)
  case (Cons t ts)
  then obtain s ss where s: "sigs = s # ss" by (cases sigs) auto
  have r: "safe (recover_loop yp pb c i j ts ss)" for i j using Cons.prems s by (intro Cons.IH) simp
  show ?case unfolding recover_loop.simps s list.case by (intro no_panic assms r)
qed simp

lemma recoverV_shape:
  assumes "txs_shape n st"
  shows "safe (recoverV st c)" "recoverV st c = Ok st' \<Longrightarrow> txs_shape n st'"
  using assms by (auto simp: recoverV_def txs_shape_def res_simps dest: recover_loop_length intro!: no_panic)

lemma no_panic_stx [no_panic]: "geth_returns G \<Longrightarrow> safe (stx_UnmarshalBinary G d)"
  unfolding stx_UnmarshalBinary_def decodeTyped_def
  by (intro no_panic) (simp_all add: geth_returns_def)

lemma no_panic_full:
  assumes "geth_returns G" "txs_shape n st"
  shows "i + k \<le> unat n \<Longrightarrow> safe (full_loop G st c k i j)"
proof (induction k arbitrary: i j)
  case (Suc k)
  have l: "i < length (st_txDatas st)" "i < length (st_txNonces st)" "i < length (st_txGases st)" "i < length (st_txSigs st)"
    "st_contractCreationBits st \<noteq> None"
    using assms(2) Suc.prems by (simp_all add: txs_shape_def)
  have m: "safe (tx_MarshalBinary G t)" for t using assms(1) by (simp add: geth_returns_def)
  have r: "safe (full_loop G st c k (Suc i) j)" for j using Suc.prems by (intro Suc.IH) simp
  show ?case unfolding full_loop.simps by (intro no_panic assms(1) l m r)
qed simp

lemma full_loop_length: "full_loop G st c k i j = Ok txs \<Longrightarrow> length txs = k"
  by (induction k arbitrary: i j txs) (auto simp: res_simps)

section \<open>The blocks\<close>

lemma take_txs_total: "i + n \<le> length full \<Longrightarrow> \<exists>txs. take_txs full i n = Ok txs \<and> length txs = n"
  by (simp add: take_txs_in)

lemma origin_nums_total: "bits \<noteq> None \<Longrightarrow> \<exists>nums. origin_nums bits n l = Ok nums \<and> length nums = n"
proof (induction n arbitrary: l)
  case (Suc n)
  obtain b where b: "Bit bits n = Ok b" using Bit_Some [OF Suc.prems] by blast
  show ?case using Suc.IH [OF Suc.prems, of "if b = 1 \<and> n > 0 then l - 1 else l"] b by auto
qed simp

lemma derive_loop_total:
  "i + k = length nums \<Longrightarrow> i + k = length counts \<Longrightarrow> j + sum_list (map rounds (drop i counts)) \<le> length full \<Longrightarrow>
   \<exists>bs. derive_loop start blockTime nums counts full k i j = Ok bs \<and> length bs = k \<and>
     length (concat (map se_Transactions bs)) = sum_list (map rounds (drop i counts))"
proof (induction k arbitrary: i j)
  case (Suc k)
  have i: "i < length nums" "i < length counts" using Suc.prems(1,2) by simp_all
  then have d: "drop i counts = counts ! i # drop (Suc i) counts" by (simp add: Cons_nth_drop_Suc)
  obtain txs where t: "take_txs full j (rounds (counts ! i)) = Ok txs" "length txs = rounds (counts ! i)"
    using take_txs_total [of j "rounds (counts ! i)" full] Suc.prems(3) d by auto
  obtain bs where "derive_loop start blockTime nums counts full k (Suc i) (j + rounds (counts ! i)) = Ok bs" "length bs = k"
    "length (concat (map se_Transactions bs)) = sum_list (map rounds (drop (Suc i) counts))"
    using Suc.IH [of "Suc i" "j + rounds (counts ! i)"] Suc.prems d by auto
  then show ?case using i t d by (simp add: index_res_def)
qed simp

lemma sum_counts_Ok:
  "sum_counts acc cs = Ok n \<Longrightarrow> unat n = unat acc + sum_list (map unat cs)"
proof (induction cs arbitrary: acc)
  case (Cons c cs)
  then have o: "\<not> acc + c < acc" and r: "sum_counts (acc + c) cs = Ok n" by (auto split: if_splits)
  have "unat (acc + c) = unat acc + unat c"
  proof (rule ccontr)
    assume "unat (acc + c) \<noteq> unat acc + unat c"
    then have "unat (acc + c) = unat acc + unat c - 2 ^ 64" "unat acc + unat c \<ge> 2 ^ 64"
      using unat_bounds(3) [of acc] unat_bounds(3) [of c] by (auto simp: unat_word_ariths mod_if split: if_splits)
    then have "unat (acc + c) < unat acc" using unat_bounds(3) [of c] by linarith
    then show False using o by (simp add: word_less_nat_alt)
  qed
  then show ?case using Cons.IH [OF r] by simp
qed simp

definition raw_shape :: "raw_span_batch \<Rightarrow> bool" where
  "raw_shape b \<longleftrightarrow> (let p = rs_payload b in
     rs_blockCount p \<noteq> 0 \<and> rs_blockCount p \<le> MaxSpanBatchElementCount \<and> rs_originBits p \<noteq> None \<and>
     length (rs_blockTxCounts p) = unat (rs_blockCount p) \<and>
     (\<exists>st n. rs_txs p = Some st \<and> txs_shape n st \<and> (\<forall>c \<in> set (rs_blockTxCounts p). c \<le> MaxSpanBatchElementCount) \<and>
       unat n = sum_list (map unat (rs_blockTxCounts p))))"

lemma no_panic_sum [no_panic]: "safe (sum_counts acc cs)"
  by (induction cs arbitrary: acc) (auto intro!: no_panic)

lemma raw_decode_no_panic:
  assumes "geth_returns G"
  shows "safe (raw_decode G bs)"
proof -
  have "safe (read_tx_count bs)" for bs unfolding read_tx_count_def by (intro no_panic)
  then show ?thesis
    unfolding raw_decode_def decodePrefix_def decodePayload_def decodeBlockCount_def decodeOriginBits_def decodeBlockTxCounts_def decodeTxs_def
    by (intro no_panic assms) simp_all
qed

lemma raw_decode_shape:
  assumes "raw_decode G bs = Ok (b, rest)"
  shows "raw_shape b"
proof -
  obtain p r pre where d: "decodePayload G r = Ok (p, rest)" "b = \<lparr>rs_prefix = pre, rs_payload = p\<rparr>"
    using assms by (auto simp: raw_decode_def res_simps)
  obtain n r1 ob r2 cs r3 st where s: "decodeBlockCount r = Ok (n, r1)" "decodeOriginBits n r1 = Ok (ob, r2)"
    "decodeBlockTxCounts n r2 = Ok (cs, r3)" "decodeTxs G None cs r3 = Ok (st, rest)"
    "p = \<lparr>rs_blockCount = n, rs_originBits = ob, rs_blockTxCounts = cs, rs_txs = Some st\<rparr>"
    using d(1) unfolding decodePayload_def by (elim bind_pairE) (auto simp: res_simps)
  have n: "n \<le> MaxSpanBatchElementCount" "n \<noteq> 0" using s(1) by (auto simp: decodeBlockCount_def res_simps)
  have o: "ob \<noteq> None" using s(2) by (auto simp: decodeOriginBits_def res_simps dest: decode_bits_Ok)
  have l: "length cs = unat n" using s(3) rounds_small [OF n(1)] by (auto simp: decodeBlockTxCounts_def dest: read_list_length)
  have c: "\<forall>c \<in> set cs. c \<le> MaxSpanBatchElementCount"
    using s(3) unfolding decodeBlockTxCounts_def by (rule read_list_all) (auto simp: read_tx_count_def res_simps)
  obtain t where t: "sum_counts 0 cs = Ok t" "txs_decode G (zero_spanBatchTxs\<lparr>st_totalBlockTxCount := t\<rparr>) r3 = Ok (st, rest)"
    using s(4) by (auto simp: decodeTxs_def res_simps)
  show ?thesis using d(2) s(5) n o l c txs_decode_shape [OF t(2)] sum_counts_Ok [OF t(1)] by (auto simp: raw_shape_def)
qed

lemma raw_derive_shape:
  assumes "geth_returns G" "raw_shape b"
  shows "safe (raw_derive G blockTime genesis c b)"
    "raw_derive G blockTime genesis c b = Ok sb \<Longrightarrow> length (sp_Batches sb) = unat (rs_blockCount (rs_payload b)) \<and>
      length (concat (map se_Transactions (sp_Batches sb))) = sum_list (map unat (rs_blockTxCounts (rs_payload b)))"
proof -
  let ?p = "rs_payload b"
  obtain st n where s: "rs_blockCount ?p \<noteq> 0" "rs_blockCount ?p \<le> MaxSpanBatchElementCount" "rs_originBits ?p \<noteq> None"
    "length (rs_blockTxCounts ?p) = unat (rs_blockCount ?p)" "rs_txs ?p = Some st" "txs_shape n st"
    "\<forall>c \<in> set (rs_blockTxCounts ?p). c \<le> MaxSpanBatchElementCount" "unat n = sum_list (map unat (rs_blockTxCounts ?p))"
    using assms(2) by (auto simp: raw_shape_def Let_def)
  note r = rounds_small [OF s(2)]
  have m: "map rounds (rs_blockTxCounts ?p) = map unat (rs_blockTxCounts ?p)" using s(7) rounds_small by auto
  obtain nums where nums: "origin_nums (rs_originBits ?p) (rounds (rs_blockCount ?p)) (rs_l1OriginNum (rs_prefix b)) = Ok nums"
    "length nums = rounds (rs_blockCount ?p)"
    using origin_nums_total [OF s(3)] by blast
  have blocks: "\<exists>bs. derive_loop start blockTime nums (rs_blockTxCounts ?p) full (rounds (rs_blockCount ?p)) 0 0 = Ok bs \<and>
      length bs = rounds (rs_blockCount ?p) \<and> length (concat (map se_Transactions bs)) = sum_list (map unat (rs_blockTxCounts ?p))"
    if "length full = unat n" for full start
    using derive_loop_total [of 0 "rounds (rs_blockCount ?p)" nums "rs_blockTxCounts ?p" 0 full start blockTime] nums(2) s(4,8) r m that by simp
  have full: "safe (fullTxs G st' c)" "fullTxs G st' c = Ok full \<Longrightarrow> length full = unat n" if "txs_shape n st'" for st' full
  proof -
    have t: "rounds (st_totalBlockTxCount st') = unat n" using that by (auto simp: txs_shape_def rounds_small)
    show "safe (fullTxs G st' c)" using no_panic_full [OF assms(1) that, of 0 "unat n"] by (simp add: fullTxs_def t)
    show "length full = unat n" if "fullTxs G st' c = Ok full" using that full_loop_length by (auto simp: fullTxs_def t)
  qed
  have d: "raw_derive G blockTime genesis c b = bind_res (recoverV st c) (\<lambda>txs. bind_res (fullTxs G txs c) (\<lambda>full.
      bind_res (derive_loop (genesis + rs_relTimestamp (rs_prefix b)) blockTime nums (rs_blockTxCounts ?p) full (rounds (rs_blockCount ?p)) 0 0)
        (\<lambda>batches. Ok \<lparr>sp_ParentCheck = rs_parentCheck (rs_prefix b), sp_L1OriginCheck = rs_l1OriginCheck (rs_prefix b), sp_Batches = batches\<rparr>)))"
    using s(1,5) nums(1) by (simp add: raw_derive_def Let_def)
  show "safe (raw_derive G blockTime genesis c b)"
    unfolding d
  proof (intro no_panic recoverV_shape(1) [OF s(6)])
    fix txs full assume a: "recoverV st c = Ok txs" "fullTxs G txs c = Ok full"
    then have "length full = unat n" using full(2) recoverV_shape(2) [OF s(6)] by blast
    then show "safe (derive_loop (genesis + rs_relTimestamp (rs_prefix b)) blockTime nums (rs_blockTxCounts ?p) full (rounds (rs_blockCount ?p)) 0 0)"
      using blocks [of full "genesis + rs_relTimestamp (rs_prefix b)"] by auto
  next
    fix txs assume "recoverV st c = Ok txs"
    then show "safe (fullTxs G txs c)" by (intro full(1) recoverV_shape(2) [OF s(6)])
  qed
  assume o: "raw_derive G blockTime genesis c b = Ok sb"
  then obtain txs full bs where a: "recoverV st c = Ok txs" "fullTxs G txs c = Ok full"
    "derive_loop (genesis + rs_relTimestamp (rs_prefix b)) blockTime nums (rs_blockTxCounts ?p) full (rounds (rs_blockCount ?p)) 0 0 = Ok bs"
    "sp_Batches sb = bs"
    unfolding d by (auto simp: res_simps)
  have "length full = unat n" using a(1,2) full(2) recoverV_shape(2) [OF s(6)] by blast
  from blocks [OF this, of "genesis + rs_relTimestamp (rs_prefix b)"] a(3,4) r show "length (sp_Batches sb) = unat (rs_blockCount ?p) \<and>
      length (concat (map se_Transactions (sp_Batches sb))) = sum_list (map unat (rs_blockTxCounts ?p))" by auto
qed

section \<open>Bytes from L1\<close>

text \<open>C10: Whatever the bytes of a batch, decoding it and deriving a span batch from it does not panic,
  and a span batch that comes out has between one and ten million blocks and at most ten million
  transactions in all.\<close>

theorem span_decode_safe:
  assumes "geth_returns G"
  shows "(case bind_res (bd_UnmarshalBinary G dat) (\<lambda>inner. DeriveSpanBatch G inner blockTime genesis c) of
      Panic e \<Rightarrow> False
    | Err e \<Rightarrow> True
    | Ok sb \<Rightarrow> 0 < GetBlockCount sb \<and> GetBlockCount sb \<le> 10000000 \<and>
        length (concat (map se_Transactions (sp_Batches sb))) \<le> 10000000)"
proof -
  let ?r = "bind_res (bd_UnmarshalBinary G dat) (\<lambda>inner. DeriveSpanBatch G inner blockTime genesis c)"
  have s: "safe (rlp_DecodeSingular G r)" for r using assms by (simp add: geth_returns_def)
  have u: "safe (bd_UnmarshalBinary G dat)"
    by (cases dat) (auto simp: bd_UnmarshalBinary_def bd_decodeTyped_def intro!: no_panic s raw_decode_no_panic [OF assms])
  have shape: "raw_shape b" if "bd_UnmarshalBinary G dat = Ok (RawSpanInner b)" for b
    using that by (cases dat) (auto simp: bd_UnmarshalBinary_def bd_decodeTyped_def res_simps split: if_splits dest: raw_decode_shape)
  have p: "safe ?r"
  proof (intro no_panic u)
    fix inner assume "bd_UnmarshalBinary G dat = Ok inner"
    then show "safe (DeriveSpanBatch G inner blockTime genesis c)"
      using shape raw_derive_shape(1) [OF assms] by (cases inner) (auto simp: DeriveSpanBatch_def ToSpanBatch_def)
  qed
  have "0 < GetBlockCount sb \<and> GetBlockCount sb \<le> 10000000 \<and> length (concat (map se_Transactions (sp_Batches sb))) \<le> 10000000"
    if o: "?r = Ok sb" for sb
  proof -
    obtain b where b: "bd_UnmarshalBinary G dat = Ok (RawSpanInner b)" "raw_derive G blockTime genesis c b = Ok sb"
      using o by (elim bind_resE) (auto simp: DeriveSpanBatch_def ToSpanBatch_def split: inner_batch.splits)
    note k = shape [OF b(1)] and r = raw_derive_shape(2) [OF assms shape [OF b(1)] b(2)]
    then have "rs_blockCount (rs_payload b) \<noteq> 0" "unat (rs_blockCount (rs_payload b)) \<le> 10000000"
      "sum_list (map unat (rs_blockTxCounts (rs_payload b))) \<le> 10000000"
      by (auto simp: raw_shape_def Let_def txs_shape_def MaxSpanBatchElementCount_def word_le_nat_alt)
    then show ?thesis using r by (auto simp: GetBlockCount_def word_neq_0_conv word_less_nat_alt)
  qed
  then show ?thesis using p by (auto split: res.splits)
qed

theorem span_decode_safe_witness:
  "\<forall>dat. (case bind_res (bd_UnmarshalBinary sample_geth dat) (\<lambda>inner. DeriveSpanBatch sample_geth inner 2 100 10) of
      Panic e \<Rightarrow> False
    | Err e \<Rightarrow> True
    | Ok sb \<Rightarrow> 0 < GetBlockCount sb \<and> GetBlockCount sb \<le> 10000000 \<and>
        length (concat (map se_Transactions (sp_Batches sb))) \<le> 10000000)"
proof
  fix dat
  have n: "safe (get_nat bs)" for bs by (induction bs) (auto intro!: no_panic)
  have u: "safe (read_uint8 bs)" for bs by (simp add: read_uint8_def map_parser_def) (intro no_panic)
  have p: "safe (get_pair f g bs)" if "\<And>bs. safe (f bs)" "\<And>bs. safe (g bs)" for f g and bs :: bytes
    unfolding get_pair_def by (intro no_panic that)
  have l: "safe (get_list f bs)" if "\<And>bs. safe (f bs)" for f and bs :: bytes
    unfolding get_list_def by (intro no_panic that n)
  have f: "safe (get_fields bs)" for bs unfolding get_fields_def by (intro p l n u)
  have s: "safe (get_struct bs)" for bs unfolding get_struct_def by (intro no_panic l u f)
  have r: "safe (get_raw bs)" for bs unfolding get_raw_def map_parser_def by (intro no_panic l u)
  have "geth_returns sample_geth" unfolding geth_returns_def by (simp add: sample_geth_def r) (intro no_panic conjI allI s)
  from span_decode_safe [OF this] show "case bind_res (bd_UnmarshalBinary sample_geth dat) (\<lambda>inner. DeriveSpanBatch sample_geth inner 2 100 10) of
      Panic e \<Rightarrow> False
    | Err e \<Rightarrow> True
    | Ok sb \<Rightarrow> 0 < GetBlockCount sb \<and> GetBlockCount sb \<le> 10000000 \<and>
        length (concat (map se_Transactions (sp_Batches sb))) \<le> 10000000" .
qed

end
