(* ===== verification/DeriveSpanOut.thy ===== *)
theory DeriveSpanOut
  imports DeriveOut DeriveSpanRaw
begin

text \<open>
  The outgoing channel that carries span batches, after \<open>op-node/rollup/derive/span_channel_out.go\<close>.
  It keeps the RLP of its span batches in two buffers, the one without the block that was added last,
  and compresses a whole buffer when the size could have reached the target, so that a block that
  does not fit can be taken back. An operation that can fail gives the state it leaves.
\<close>

section \<open>State\<close>

record 'w span_channel_out =
  so_id :: bytes
  so_frame :: u64
  so_rlp0 :: bytes
  so_rlp1 :: bytes
  so_rlpIndex :: nat
  so_lastCompressedRLPSize :: nat
  so_compressor :: "'w channel_compressor"
  so_target :: u64
  so_closed :: bool
  so_full :: "string option"
  so_spanBatch :: span_builder
  so_maxBlocksPerSpanBatch :: nat
  so_sealedRLPBytes :: nat

definition NewSpanChannelOut ::
    "geth \<Rightarrow> (compression_algo \<Rightarrow> 'w writer) \<Rightarrow> bytes \<Rightarrow> u64 \<Rightarrow> nat \<Rightarrow> u64 \<Rightarrow> compression_algo \<Rightarrow> nat \<Rightarrow> 'w span_channel_out" where
  "NewSpanChannelOut G ws random genesisTimestamp chainID targetOutputSize algo maxBlocks =
     \<lparr>so_id = random, so_frame = 0, so_rlp0 = [], so_rlp1 = [], so_rlpIndex = 0, so_lastCompressedRLPSize = 0,
      so_compressor = NewChannelCompressor ws algo, so_target = targetOutputSize, so_closed = False, so_full = None,
      so_spanBatch = NewSpanBatch G genesisTimestamp chainID, so_maxBlocksPerSpanBatch = maxBlocks, so_sealedRLPBytes = 0\<rparr>"

definition resetSpanBatch :: "geth \<Rightarrow> 'w span_channel_out \<Rightarrow> 'w span_channel_out" where
  "resetSpanBatch G co = co\<lparr>so_spanBatch := NewSpanBatch G (sp_GenesisTimestamp (so_spanBatch co)) (sp_ChainID (so_spanBatch co))\<rparr>"

definition so_Reset :: "geth \<Rightarrow> (compression_algo \<Rightarrow> 'w writer) \<Rightarrow> bytes \<Rightarrow> 'w span_channel_out \<Rightarrow> 'w span_channel_out" where
  "so_Reset G ws random co = (resetSpanBatch G (co\<lparr>so_closed := False, so_full := None, so_frame := 0, so_sealedRLPBytes := 0,
     so_rlp0 := [], so_rlp1 := [], so_lastCompressedRLPSize := 0, so_compressor := cc_Reset ws (so_compressor co)\<rparr>))\<lparr>so_id := random\<rparr>"

section \<open>The two buffers\<close>

definition activeRLP :: "'w span_channel_out \<Rightarrow> bytes" where
  "activeRLP co = (if so_rlpIndex co = 0 then so_rlp0 co else so_rlp1 co)"

definition inactiveRLP :: "'w span_channel_out \<Rightarrow> bytes" where
  "inactiveRLP co = (if (so_rlpIndex co + 1) mod 2 = 0 then so_rlp0 co else so_rlp1 co)"

definition set_active :: "bytes \<Rightarrow> 'w span_channel_out \<Rightarrow> 'w span_channel_out" where
  "set_active bs co = (if so_rlpIndex co = 0 then co\<lparr>so_rlp0 := bs\<rparr> else co\<lparr>so_rlp1 := bs\<rparr>)"

definition set_inactive :: "bytes \<Rightarrow> 'w span_channel_out \<Rightarrow> 'w span_channel_out" where
  "set_inactive bs co = (if (so_rlpIndex co + 1) mod 2 = 0 then co\<lparr>so_rlp0 := bs\<rparr> else co\<lparr>so_rlp1 := bs\<rparr>)"

definition swapRLP :: "'w span_channel_out \<Rightarrow> 'w span_channel_out" where
  "swapRLP co = co\<lparr>so_rlpIndex := (so_rlpIndex co + 1) mod 2\<rparr>"

text \<open>\<open>bytes.Buffer.Truncate\<close>.\<close>

definition Truncate :: "nat \<Rightarrow> bytes \<Rightarrow> bytes res" where
  "Truncate n bs = guard_panic (n \<le> length bs) ''bytes.Buffer: truncation out of range'' (Ok (take n bs))"

section \<open>Operations\<close>

definition checkFull :: "'w span_channel_out \<Rightarrow> 'w span_channel_out" where
  "checkFull co = (if so_full co \<noteq> None then co
     else if of_nat (cc_Len (so_compressor co)) \<ge> so_target co then co\<lparr>so_full := Some ErrCompressorFull\<rparr> else co)"

definition so_compress :: "(compression_algo \<Rightarrow> 'w writer) \<Rightarrow> 'w span_channel_out \<Rightarrow> 'w span_channel_out" where
  "so_compress ws co =
     checkFull (co\<lparr>so_compressor := cc_Close ws (cc_Write ws (cc_Reset ws (so_compressor co)) (activeRLP co)),
                   so_lastCompressedRLPSize := length (activeRLP co)\<rparr>)"

definition ensureOpenSpanBatch :: "geth \<Rightarrow> 'w span_channel_out \<Rightarrow> 'w span_channel_out \<times> unit res" where
  "ensureOpenSpanBatch G co =
     (if so_maxBlocksPerSpanBatch co = 0 \<or> length (sp_Batches (so_spanBatch co)) < so_maxBlocksPerSpanBatch co then (co, Ok ())
      else if length (inactiveRLP co) > length (activeRLP co) then (co, Panic ''inactive rlp unexpectedly larger'')
      else (resetSpanBatch G (set_inactive (activeRLP co) (co\<lparr>so_sealedRLPBytes := length (activeRLP co)\<rparr>)), Ok ()))"

text \<open>The new span batch in the other buffer.\<close>

definition write_span :: "geth \<Rightarrow> raw_span_batch \<Rightarrow> 'w span_channel_out \<Rightarrow> 'w span_channel_out \<times> unit res" where
  "write_span G raw co =
     (let co = swapRLP co in
      then_st (co, Truncate (so_sealedRLPBytes co) (activeRLP co)) (\<lambda>co prefix.
      then_st (set_active prefix co, wrap_err (\<lambda>e. ''failed to encode RawSpanBatch into bytes: '' @ e) (bd_EncodeRLP G (RawSpanInner raw)))
        (\<lambda>co dat. (set_active (activeRLP co @ dat) co, Ok ()))))"

text \<open>Compress when the size could have reached the target, and take the block back when it has.\<close>

definition fit_span :: "(compression_algo \<Rightarrow> 'w writer) \<Rightarrow> 'w span_channel_out \<Rightarrow> 'w span_channel_out \<times> unit res" where
  "fit_span ws co =
     (let rlpGrowth = int (length (activeRLP co)) - int (so_lastCompressedRLPSize co) in
      if of_int (int (cc_Len (so_compressor co)) + rlpGrowth) < so_target co then (co, Ok ())
      else
        let co = so_compress ws co in
        case so_full co of
          None \<Rightarrow> (co, Ok ())
        | Some e \<Rightarrow>
            if so_sealedRLPBytes co = 0 \<and> length (sp_Batches (so_spanBatch co)) = 1 then (co, Ok ())
            else if of_nat (cc_Len (so_compressor co)) = so_target co then (co, Ok ())
            else (so_compress ws (swapRLP co), Err e))"

definition so_AddSingularBatch ::
    "geth \<Rightarrow> (compression_algo \<Rightarrow> 'w writer) \<Rightarrow> rollup_config \<Rightarrow> singular_batch \<Rightarrow> u64 \<Rightarrow> 'w span_channel_out \<Rightarrow>
     'w span_channel_out \<times> unit res" where
  "so_AddSingularBatch G ws cfg batch seqNum co =
     (if so_closed co then (co, Err ErrChannelOutAlreadyClosed)
      else case so_full co of Some e \<Rightarrow> (co, Err e)
      | None \<Rightarrow>
          then_st (ensureOpenSpanBatch G co) (\<lambda>co _.
          case AppendSingularBatch G batch seqNum (so_spanBatch co) of (sb, r) \<Rightarrow>
          then_st (co\<lparr>so_spanBatch := sb\<rparr>, wrap_err (\<lambda>e. ''failed to append SingularBatch to SpanBatch: '' @ e) r) (\<lambda>co _.
          then_st (co, wrap_err (\<lambda>e. ''failed to convert SpanBatch into RawSpanBatch: '' @ e) (ToRawSpanBatch (so_spanBatch co))) (\<lambda>co raw.
          then_st (write_span G raw co) (\<lambda>co _.
          if length (activeRLP co) > unat (MaxRLPBytesPerChannel cfg (sb_Timestamp batch)) then (co, Err ErrTooManyRLPBytes)
          else fit_span ws co)))))"

definition so_InputBytes :: "'w span_channel_out \<Rightarrow> nat" where
  "so_InputBytes co = length (activeRLP co)"

definition so_ReadyBytes :: "'w span_channel_out \<Rightarrow> nat" where
  "so_ReadyBytes co = (if so_closed co \<or> so_full co \<noteq> None then cc_Len (so_compressor co) else 0)"

definition so_Close :: "(compression_algo \<Rightarrow> 'w writer) \<Rightarrow> 'w span_channel_out \<Rightarrow> 'w span_channel_out res" where
  "so_Close ws co =
     guard_err (\<not> so_closed co) ErrChannelOutAlreadyClosed
       (let co = co\<lparr>so_closed := True\<rparr> in Ok (if so_full co \<noteq> None then co else so_compress ws co))"

definition so_OutputFrame :: "u64 \<Rightarrow> 'w span_channel_out \<Rightarrow> ('w span_channel_out \<times> bytes \<times> u16 \<times> bool) res" where
  "so_OutputFrame maxSize co =
     guard_err (\<not> maxSize < FrameV0OverHeadSize) ErrMaxFrameSizeTooSmall
     (case createEmptyFrame (so_id co) (so_frame co) (so_ReadyBytes co) (so_closed co) maxSize of (f, n) \<Rightarrow>
      bind_res (cc_Read (so_compressor co) n) (\<lambda>(c, dat).
      let f = f\<lparr>f_Data := dat\<rparr> in
      Ok (co\<lparr>so_compressor := c, so_frame := so_frame co + 1\<rparr>, MarshalBinary f, f_FrameNumber f, f_IsLast f)))"

end
