(* ===== verification/DeriveSpanCarries.thy ===== *)
theory DeriveSpanCarries
  imports DeriveSpanOut DeriveSpanRoundtrip
begin

text \<open>
  What the outgoing span channel carries: the blocks that it accepted, in span batches of at most the
  configured number of blocks, and no block that it refused for want of space. The invariant says
  which span batches the two buffers hold; a longer span batch has a longer encoding, so the inactive
  buffer never outgrows the active one.
\<close>

section \<open>Encodings grow\<close>

lemma PutUvarint_mono: "x \<le> y \<Longrightarrow> length (PutUvarint x) \<le> length (PutUvarint y)"
proof (induction x arbitrary: y rule: PutUvarint.induct)
  case (1 x)
  have ne: "0 < length (PutUvarint y)" by (subst PutUvarint.simps) simp
  show ?case
  proof (cases "x \<ge> 0x80")
    case True
    then have y: "y \<ge> 0x80" using 1(2) by (rule order_trans)
    have "drop_bit 7 x \<le> drop_bit 7 y" using 1(2) by (simp add: word_le_nat_alt unat_drop7 div_le_mono)
    from 1(1) [OF True this] show ?thesis using True y by (subst (1 2) PutUvarint.simps) simp
  next
    case False
    then show ?thesis using Suc_leI [OF ne] by (subst PutUvarint.simps) simp
  qed
qed

lemma length_span_bits: "encodeSpanBatchBits n b = Ok e \<Longrightarrow> length e = (unat n + 7) div 8"
  by (auto simp: encodeSpanBatchBits_def FillBytes_def res_simps unat_bits_buf split: option.splits)

lemma length_txs_encode:
  assumes "txs_encode (columns G ts) = Ok e" "length ts \<le> unat MaxSpanBatchElementCount"
  shows "length e = 2 * ((length ts + 7) div 8) + (length (filter is_legacy ts) + 7) div 8 +
    length (concat (map sig_bytes (map sig_of ts))) + length (concat (map address_bytes (List.map_filter tx_To ts))) +
    length (concat (map (tx_data G) ts)) + length (concat (map PutUvarint (map tx_Nonce ts))) + length (concat (map PutUvarint (map tx_Gas ts)))"
proof -
  have lf: "length (filter is_legacy ts) \<le> unat MaxSpanBatchElementCount"
    using assms(2) length_filter_le [of is_legacy ts] by linarith
  obtain cc yp pb where e: "encodeSpanBatchBits (of_nat (length ts)) (st_contractCreationBits (columns G ts)) = Ok cc"
    "encodeSpanBatchBits (of_nat (length ts)) (st_yParityBits (columns G ts)) = Ok yp"
    "encodeSpanBatchBits (of_nat (length (filter is_legacy ts))) (st_protectedBits (columns G ts)) = Ok pb"
    "e = cc @ yp @ encodeTxSigsRS (columns G ts) @ encodeTxTos (columns G ts) @ encodeTxDatas (columns G ts) @
      encodeTxNonces (columns G ts) @ encodeTxGases (columns G ts) @ pb"
    using assms(1) by (auto simp: txs_encode_def encodeContractCreationBits_def encodeYParityBits_def encodeProtectedBits_def
      res_simps columns_def)
  show ?thesis unfolding e(4) using e(1-3) [THEN length_span_bits] count_word(1) [OF assms(2)] count_word(1) [OF lf]
    by (simp add: encodeTxSigsRS_def encodeTxTos_def encodeTxDatas_def encodeTxNonces_def encodeTxGases_def columns_def)
qed

lemma txs_encode_grows:
  assumes "txs_encode (columns G ts) = Ok e" "txs_encode (columns G (ts @ us)) = Ok e'" "length (ts @ us) \<le> unat MaxSpanBatchElementCount"
  shows "length e \<le> length e'"
proof -
  have "length ts \<le> unat MaxSpanBatchElementCount" using assms(3) by simp
  moreover have "(length ts + 7) div 8 \<le> (length (ts @ us) + 7) div 8"
    "(length (filter is_legacy ts) + 7) div 8 \<le> (length (filter is_legacy (ts @ us)) + 7) div 8"
    by (simp_all add: div_le_mono)
  moreover have "List.map_filter tx_To (ts @ us) = List.map_filter tx_To ts @ List.map_filter tx_To us"
    by (simp add: List.map_filter_def)
  ultimately show ?thesis
    unfolding length_txs_encode [OF assms(2,3)] by (subst length_txs_encode [OF assms(1)]) simp_all
qed

text \<open>RLP of byte strings: it does not fail, and a longer string has an encoding that is not shorter.\<close>

definition rlp_bytes_laws :: "geth \<Rightarrow> bool" where
  "rlp_bytes_laws G \<longleftrightarrow> (\<forall>bs. \<exists>e. rlp_EncodeBytes G bs = Ok e) \<and>
     (\<forall>x y e e'. length x < length y \<longrightarrow> rlp_EncodeBytes G x = Ok e \<longrightarrow> rlp_EncodeBytes G y = Ok e' \<longrightarrow> length e \<le> length e')"

definition span_raw :: "geth \<Rightarrow> u64 \<Rightarrow> (singular_batch \<times> u64) list \<Rightarrow> raw_span_batch" where
  "span_raw G genesis bqs = raw_of G genesis (snd (hd bqs) = 0) (map fst bqs) (\<lambda>st. st)"

text \<open>The bytes of the span batch of some blocks in a channel.\<close>

definition span_data :: "geth \<Rightarrow> u64 \<Rightarrow> (singular_batch \<times> u64) list \<Rightarrow> bytes" where
  "span_data G genesis bqs = (case bd_EncodeRLP G (RawSpanInner (span_raw G genesis bqs)) of Ok e \<Rightarrow> e | _ \<Rightarrow> [])"

lemma span_data_Ok:
  assumes "geth_laws G" "rlp_bytes_laws G" "span_ok G c blockTime (map fst bqs)"
  obtains e where "raw_encode (span_raw G genesis bqs) = Ok e" "rlp_EncodeBytes G (1 # e) = Ok (span_data G genesis bqs)"
    "bd_EncodeRLP G (RawSpanInner (span_raw G genesis bqs)) = Ok (span_data G genesis bqs)"
proof -
  obtain e where e: "raw_encode (span_raw G genesis bqs) = Ok e"
    using raw_roundtrip [OF assms(1,3)] unfolding span_raw_def by blast
  obtain d where d: "rlp_EncodeBytes G (1 # e) = Ok d" using assms(2) unfolding rlp_bytes_laws_def by blast
  have "bd_EncodeRLP G (RawSpanInner (span_raw G genesis bqs)) = Ok d"
    using e d by (simp add: bd_EncodeRLP_def bd_encodeTyped_def SpanBatchType_def)
  with e d show ?thesis by (intro that [of e]) (simp_all add: span_data_def)
qed

lemma span_ok_part:
  assumes "span_ok G c blockTime (as @ bs @ cs)" "bs \<noteq> []"
  shows "span_ok G c blockTime bs"
  using assms by (auto simp: span_ok_def successively_append_iff)

lemma raw_grows:
  assumes "geth_laws G" "span_ok G c blockTime (map fst (bqs @ [bq]))" "bqs \<noteq> []"
    "raw_encode (span_raw G genesis bqs) = Ok e" "raw_encode (span_raw G genesis (bqs @ [bq])) = Ok e'"
  shows "length e < length e'"
proof -
  let ?bs = "map fst bqs" and ?b = "fst bq"
  let ?ts = "\<lambda>bs. map (decoded G) (concat (map sb_Transactions bs))" and ?f = "snd (hd bqs) = 0"
  have l: "length (?bs @ [?b]) \<le> unat MaxSpanBatchElementCount" "length (?ts (?bs @ [?b])) \<le> unat MaxSpanBatchElementCount"
    "next_block blockTime (last ?bs) ?b"
    using assms(2,3) by (auto simp: span_ok_def successively_append_iff)
  have n: "unat (of_nat (length ?bs) :: u64) = length ?bs" "unat (of_nat (length (?bs @ [?b])) :: u64) = length (?bs @ [?b])"
    using l(1) by (intro count_word(1); simp)+
  obtain ob txs where e: "encodeSpanBatchBits (of_nat (length ?bs)) (bl (origin_flags ?f ?bs)) = Ok ob"
    "txs_encode (columns G (?ts ?bs)) = Ok txs"
    "e = encodePrefix (rs_prefix (span_raw G genesis bqs)) @ PutUvarint (of_nat (length ?bs)) @ ob @
      concat (map PutUvarint (map (\<lambda>b. of_nat (length (sb_Transactions b))) ?bs)) @ txs"
    using assms(4) by (auto simp: raw_encode_def encodePayload_def encodeOriginBits_def encodeTxs_def encodeBlockTxCounts_def
      span_raw_def raw_of_def res_simps)
  obtain ob' txs' where e': "encodeSpanBatchBits (of_nat (length (?bs @ [?b]))) (bl (origin_flags ?f (?bs @ [?b]))) = Ok ob'"
    "txs_encode (columns G (?ts (?bs @ [?b]))) = Ok txs'"
    "e' = encodePrefix (rs_prefix (span_raw G genesis (bqs @ [bq]))) @ PutUvarint (of_nat (length (?bs @ [?b]))) @ ob' @
      concat (map PutUvarint (map (\<lambda>b. of_nat (length (sb_Transactions b))) (?bs @ [?b]))) @ txs'"
    using assms(3,5) by (auto simp: raw_encode_def encodePayload_def encodeOriginBits_def encodeTxs_def encodeBlockTxCounts_def
      span_raw_def raw_of_def res_simps)
  have "sb_EpochNum (last ?bs) \<le> sb_EpochNum ?b" using l(3) by (auto simp: next_block_def)
  then have p: "length (encodePrefix (rs_prefix (span_raw G genesis bqs))) \<le> length (encodePrefix (rs_prefix (span_raw G genesis (bqs @ [bq]))))"
    using assms(3) PutUvarint_mono by (simp add: encodePrefix_def span_raw_def raw_of_def hash_bytes_def last_map hd_map del: be_encode_numeral)
  have c: "length (PutUvarint (of_nat (length ?bs))) \<le> length (PutUvarint (of_nat (length (?bs @ [?b]))))"
    using n by (intro PutUvarint_mono) (simp add: word_le_nat_alt)
  have o: "length ob \<le> length ob'" using length_span_bits [OF e(1)] length_span_bits [OF e'(1)] n by (simp add: div_le_mono)
  have t: "length txs \<le> length txs'"
    using txs_encode_grows [OF e(2), of "map (decoded G) (sb_Transactions ?b)"] e'(2) l(2) by simp
  have "0 < length (PutUvarint x)" for x by (subst PutUvarint.simps) simp
  then have "length (concat (map PutUvarint (map (\<lambda>b. of_nat (length (sb_Transactions b))) ?bs))) <
      length (concat (map PutUvarint (map (\<lambda>b. of_nat (length (sb_Transactions b))) (?bs @ [?b]))))" by simp
  then show ?thesis using p c o t unfolding e(3) e'(3) length_append by linarith
qed

lemma span_data_grows:
  assumes "geth_laws G" "rlp_bytes_laws G" "span_ok G c blockTime (map fst (bqs @ [bq]))" "bqs \<noteq> []"
  shows "length (span_data G genesis bqs) \<le> length (span_data G genesis (bqs @ [bq]))"
proof -
  have s: "span_ok G c blockTime (map fst bqs)"
    using span_ok_part [of G c blockTime "[]" "map fst bqs" "[fst bq]"] assms(3,4) by simp
  obtain e where e: "raw_encode (span_raw G genesis bqs) = Ok e" "rlp_EncodeBytes G (1 # e) = Ok (span_data G genesis bqs)"
    using span_data_Ok [OF assms(1,2) s] by blast
  obtain e' where e': "raw_encode (span_raw G genesis (bqs @ [bq])) = Ok e'" "rlp_EncodeBytes G (1 # e') = Ok (span_data G genesis (bqs @ [bq]))"
    using span_data_Ok [OF assms(1-3)] by blast
  have "length (1 # e) < length (1 # e')" using raw_grows [OF assms(1,3,4) e(1) e'(1)] by simp
  then show ?thesis using assms(2) e(2) e'(2) unfolding rlp_bytes_laws_def by blast
qed

text \<open>
  The blocks in an outgoing span channel: the invariant of the buffers, what one addition does to it,
  and the contents of a channel that was fed until it refused a block.
\<close>

section \<open>The buffers\<close>

type_synonym blocks = "(singular_batch \<times> u64) list"

definition compressed :: "(compression_algo \<Rightarrow> 'w writer) \<Rightarrow> compression_algo \<Rightarrow> bytes \<Rightarrow> bytes" where
  "compressed ws algo bs = cc_compressed (cc_Close ws (cc_Write ws (NewChannelCompressor ws algo) bs))"

text \<open>The finished span batches and the open one, if it has a block.\<close>

definition chunks :: "blocks list \<Rightarrow> blocks \<Rightarrow> blocks list" where
  "chunks css cur = css @ (if cur = [] then [] else [cur])"

definition chunk_bytes :: "geth \<Rightarrow> u64 \<Rightarrow> blocks list \<Rightarrow> bytes" where
  "chunk_bytes G genesis css = concat (map (span_data G genesis) css)"

definition chunk_ok :: "geth \<Rightarrow> nat \<Rightarrow> u64 \<Rightarrow> nat \<Rightarrow> blocks \<Rightarrow> bool" where
  "chunk_ok G c blockTime m cur \<longleftrightarrow> span_ok G c blockTime (map fst cur) \<and> (m = 0 \<or> length cur \<le> m)"

definition holds :: "geth \<Rightarrow> u64 \<Rightarrow> nat \<Rightarrow> compression_algo \<Rightarrow> nat \<Rightarrow> 'w span_channel_out \<Rightarrow> blocks list \<Rightarrow> blocks \<Rightarrow> bool" where
  "holds G genesis c algo m co css cur \<longleftrightarrow>
     so_spanBatch co = (if cur = [] then NewSpanBatch G genesis c else built G genesis c (snd (hd cur) = 0) (map fst cur)) \<and>
     activeRLP co = chunk_bytes G genesis (chunks css cur) \<and> so_sealedRLPBytes co = length (chunk_bytes G genesis css) \<and>
     length (chunk_bytes G genesis css) \<le> length (inactiveRLP co) \<and>
     take (length (chunk_bytes G genesis css)) (inactiveRLP co) = chunk_bytes G genesis css \<and>
     length (inactiveRLP co) \<le> length (activeRLP co) \<and> so_rlpIndex co < 2 \<and> \<not> so_closed co \<and>
     so_maxBlocksPerSpanBatch co = m \<and> cc_algo (so_compressor co) = algo"

text \<open>What a channel that is full gives: the compressed bytes of some span batches.\<close>

definition gives :: "geth \<Rightarrow> (compression_algo \<Rightarrow> 'w writer) \<Rightarrow> u64 \<Rightarrow> compression_algo \<Rightarrow> 'w span_channel_out \<Rightarrow> blocks list \<Rightarrow> bool" where
  "gives G ws genesis algo co css \<longleftrightarrow> so_full co = Some ErrCompressorFull \<and> \<not> so_closed co \<and>
     cc_compressed (so_compressor co) = compressed ws algo (chunk_bytes G genesis css)"

lemma index_cases: "n < 2 \<Longrightarrow> n = 0 \<or> n = (1 :: nat)" by auto

lemma buffers_swap:
  assumes "so_rlpIndex co < 2"
  shows "activeRLP (swapRLP co) = inactiveRLP co" "inactiveRLP (swapRLP co) = activeRLP co" "so_rlpIndex (swapRLP co) < 2"
    "activeRLP (set_active bs co) = bs" "inactiveRLP (set_active bs co) = inactiveRLP co" "so_rlpIndex (set_active bs co) < 2"
    "inactiveRLP (set_inactive bs co) = bs" "activeRLP (set_inactive bs co) = activeRLP co" "so_rlpIndex (set_inactive bs co) < 2"
  using index_cases [OF assms] by (auto simp: activeRLP_def inactiveRLP_def swapRLP_def set_active_def set_inactive_def)

lemma buffer_fields [simp]:
  "so_spanBatch (swapRLP co) = so_spanBatch co" "so_sealedRLPBytes (swapRLP co) = so_sealedRLPBytes co" "so_full (swapRLP co) = so_full co"
  "so_closed (swapRLP co) = so_closed co" "so_maxBlocksPerSpanBatch (swapRLP co) = so_maxBlocksPerSpanBatch co"
  "so_compressor (swapRLP co) = so_compressor co"
  "so_spanBatch (set_active bs co) = so_spanBatch co" "so_sealedRLPBytes (set_active bs co) = so_sealedRLPBytes co" "so_full (set_active bs co) = so_full co"
  "so_closed (set_active bs co) = so_closed co" "so_maxBlocksPerSpanBatch (set_active bs co) = so_maxBlocksPerSpanBatch co"
  "so_compressor (set_active bs co) = so_compressor co"
  "so_spanBatch (set_inactive bs co) = so_spanBatch co" "so_sealedRLPBytes (set_inactive bs co) = so_sealedRLPBytes co" "so_full (set_inactive bs co) = so_full co"
  "so_closed (set_inactive bs co) = so_closed co" "so_maxBlocksPerSpanBatch (set_inactive bs co) = so_maxBlocksPerSpanBatch co"
  "so_compressor (set_inactive bs co) = so_compressor co"
  by (simp_all add: swapRLP_def set_active_def set_inactive_def)

lemma span_field [simp]:
  "activeRLP (co\<lparr>so_spanBatch := sb\<rparr>) = activeRLP co" "inactiveRLP (co\<lparr>so_spanBatch := sb\<rparr>) = inactiveRLP co"
  "activeRLP (co\<lparr>so_sealedRLPBytes := n\<rparr>) = activeRLP co" "inactiveRLP (co\<lparr>so_sealedRLPBytes := n\<rparr>) = inactiveRLP co"
  by (simp_all add: activeRLP_def inactiveRLP_def)

lemma compress_fields [simp]:
  "so_spanBatch (so_compress ws co) = so_spanBatch co" "activeRLP (so_compress ws co) = activeRLP co" "inactiveRLP (so_compress ws co) = inactiveRLP co"
  "so_sealedRLPBytes (so_compress ws co) = so_sealedRLPBytes co" "so_rlpIndex (so_compress ws co) = so_rlpIndex co"
  "so_closed (so_compress ws co) = so_closed co" "so_maxBlocksPerSpanBatch (so_compress ws co) = so_maxBlocksPerSpanBatch co"
  "cc_algo (so_compressor (so_compress ws co)) = cc_algo (so_compressor co)"
  by (simp_all add: so_compress_def checkFull_def activeRLP_def inactiveRLP_def cc_Close_def cc_Write_def cc_Reset_def cc_append_def)

lemma compress_gives: "cc_compressed (so_compressor (so_compress ws co)) = compressed ws (cc_algo (so_compressor co)) (activeRLP co)"
proof -
  have "cc_Reset ws (so_compressor co) = NewChannelCompressor ws (cc_algo (so_compressor co))"
    by (simp add: cc_Reset_def NewChannelCompressor_def)
  then show ?thesis by (simp add: so_compress_def checkFull_def compressed_def)
qed

lemma compress_full:
  "so_full (so_compress ws co) = None \<or> so_full (so_compress ws co) = Some ErrCompressorFull \<or> so_full (so_compress ws co) = so_full co"
  "so_full co \<noteq> None \<Longrightarrow> so_full (so_compress ws co) = so_full co"
  by (auto simp: so_compress_def checkFull_def)

section \<open>One addition\<close>

lemma ensureOpen_holds:
  assumes "holds G genesis c algo m co css cur" "cur = [] \<longrightarrow> css = []"
  obtains co1 css1 cur1 where "ensureOpenSpanBatch G co = (co1, Ok ())" "holds G genesis c algo m co1 css1 cur1"
    "chunks css1 cur1 = chunks css cur" "so_full co1 = so_full co" "m = 0 \<or> length cur1 < m" "(css1, cur1) = (css, cur) \<or> (css1, cur1) = (css @ [cur], [])"
proof (cases "m = 0 \<or> length cur < m")
  case True
  have l: "length (sp_Batches (so_spanBatch co)) = length cur"
    using assms(1) by (simp add: holds_def built_def NewSpanBatch_def)
  have e: "ensureOpenSpanBatch G co = (co, Ok ())" using True assms(1) l by (auto simp: ensureOpenSpanBatch_def holds_def)
  show ?thesis by (intro that [OF e assms(1)]) (simp_all add: True)
next
  case False
  then have cur: "cur \<noteq> []" by auto
  have l: "length (sp_Batches (so_spanBatch co)) = length cur"
    using assms(1) cur by (simp add: holds_def built_def)
  have i: "so_rlpIndex co < 2" "so_rlpIndex (co\<lparr>so_sealedRLPBytes := n\<rparr>) < 2" for n using assms(1) by (simp_all add: holds_def)
  have g: "sp_GenesisTimestamp (so_spanBatch co) = genesis" "sp_ChainID (so_spanBatch co) = c"
    using assms(1) cur by (simp_all add: holds_def built_def)
  have ch: "chunks (css @ [cur]) [] = chunks css cur" using cur by (simp add: chunks_def)
  let ?co = "resetSpanBatch G (set_inactive (activeRLP co) (co\<lparr>so_sealedRLPBytes := length (activeRLP co)\<rparr>))"
  have e: "ensureOpenSpanBatch G co = (?co, Ok ())"
    using False assms(1) l by (auto simp: ensureOpenSpanBatch_def holds_def)
  have a: "activeRLP co = chunk_bytes G genesis (chunks css cur)" using assms(1) by (simp add: holds_def)
  have h: "holds G genesis c algo m ?co (css @ [cur]) []"
    using assms(1) g buffers_swap(7-9) [OF i(2)] cur
    unfolding holds_def resetSpanBatch_def ch by (simp add: chunks_def)
  show ?thesis using False by (intro that [OF e h ch]) (auto simp: resetSpanBatch_def)
qed

lemma append_holds:
  assumes "geth_laws G" "chain_ok c" "holds G genesis c algo m co css cur" "span_ok G c blockTime (map fst (cur @ [(b, q)]))"
  shows "AppendSingularBatch G b q (so_spanBatch co) =
    (built G genesis c (snd (hd (cur @ [(b, q)])) = 0) (map fst (cur @ [(b, q)])), Ok ())"
proof (cases "cur = []")
  case True
  then show ?thesis using assms(3,4) append_first [OF assms(1,2), of b q genesis] by (simp add: holds_def span_ok_def)
next
  case False
  have s: "so_spanBatch co = built G genesis c (snd (hd cur) = 0) (map fst cur)" using assms(3) False by (simp add: holds_def)
  have n: "next_block blockTime (last (map fst cur)) b" "list_all (carried G c) (sb_Transactions b)"
    "length (concat (map sb_Transactions (map fst cur @ [b]))) \<le> unat MaxSpanBatchElementCount"
    using assms(4) False by (auto simp: span_ok_def successively_append_iff)
  then have "sb_Timestamp (last (map fst cur)) \<le> sb_Timestamp b" unfolding next_block_def by blast
  from append_next [OF assms(1,2) _ n(2,3) this] False show ?thesis unfolding s by simp
qed

lemma write_holds:
  assumes "geth_laws G" "rlp_bytes_laws G" "holds G genesis c algo m co css cur" "span_ok G c blockTime (map fst (cur @ [bq]))"
  obtains co' where "write_span G (span_raw G genesis (cur @ [bq]))
      (co\<lparr>so_spanBatch := built G genesis c (snd (hd (cur @ [bq])) = 0) (map fst (cur @ [bq]))\<rparr>) = (co', Ok ())"
    "holds G genesis c algo m co' css (cur @ [bq])" "so_full co' = so_full co" "inactiveRLP co' = activeRLP co"
proof -
  let ?P = "chunk_bytes G genesis css" and ?d = "span_data G genesis (cur @ [bq])"
  let ?co = "co\<lparr>so_spanBatch := built G genesis c (snd (hd (cur @ [bq])) = 0) (map fst (cur @ [bq]))\<rparr>"
  have i: "so_rlpIndex ?co < 2" using assms(3) by (simp add: holds_def)
  note sw = buffers_swap(1-3) [OF i]
  have enc: "bd_EncodeRLP G (RawSpanInner (span_raw G genesis (cur @ [bq]))) = Ok ?d"
    using span_data_Ok [OF assms(1,2,4)] by blast
  have t: "Truncate (so_sealedRLPBytes ?co) (activeRLP (swapRLP ?co)) = Ok ?P"
    using assms(3) sw(1) by (simp add: Truncate_def holds_def)
  let ?c1 = "set_active ?P (swapRLP ?co)"
  note s1 = buffers_swap(4-6) [OF sw(3), of ?P]
  let ?c2 = "set_active (?P @ ?d) ?c1"
  note s2 = buffers_swap(4-6) [OF s1(3), of "?P @ ?d"]
  have w: "write_span G (span_raw G genesis (cur @ [bq])) ?co = (?c2, Ok ())"
    unfolding write_span_def Let_def buffer_fields t then_st.simps enc wrap_err.simps s1(1) ..
  have a: "activeRLP co = ?P @ (if cur = [] then [] else span_data G genesis cur)"
    using assms(3) by (simp add: holds_def chunks_def chunk_bytes_def)
  have "length (if cur = [] then [] else span_data G genesis cur) \<le> length ?d"
    using span_data_grows [OF assms(1,2,4)] by simp
  then have l: "length (activeRLP co) \<le> length (?P @ ?d)" using a by simp
  have "holds G genesis c algo m ?c2 css (cur @ [bq])"
    using assms(3) a l s2 s1 sw unfolding holds_def by (simp add: chunks_def chunk_bytes_def)
  then show ?thesis using w s2 s1 sw by (intro that [of ?c2]) simp_all
qed

text \<open>The outcome of compressing: nothing happened, the channel is full with the block, or without it.\<close>

lemma fit_holds:
  assumes "holds G genesis c algo m co css (cur @ [bq])" "so_full co = None" "inactiveRLP co = chunk_bytes G genesis (chunks css cur)"
    "fit_span ws co = (co', r)"
  shows "r = Ok () \<and> so_full co' = None \<and> holds G genesis c algo m co' css (cur @ [bq]) \<or>
    r = Ok () \<and> gives G ws genesis algo co' (chunks css (cur @ [bq])) \<or>
    r = Err ErrCompressorFull \<and> gives G ws genesis algo co' (chunks css cur)"
proof -
  have kept: "holds G genesis c algo m (so_compress ws co) css (cur @ [bq])"
    using assms(1) unfolding holds_def compress_fields .
  have content: "cc_compressed (so_compressor (so_compress ws co)) = compressed ws algo (chunk_bytes G genesis (chunks css (cur @ [bq])))"
    using assms(1) compress_gives [of ws co] by (simp add: holds_def)
  have full: "so_full (so_compress ws co) = None \<or> so_full (so_compress ws co) = Some ErrCompressorFull"
    using compress_full(1) [of ws co] assms(2) by auto
  have nc: "\<not> so_closed co" using assms(1) by (simp add: holds_def)
  let ?rev = "so_compress ws (swapRLP (so_compress ws co))"
  have i: "so_rlpIndex (so_compress ws co) < 2" using assms(1) by (simp add: holds_def)
  have rev: "cc_compressed (so_compressor ?rev) = compressed ws algo (chunk_bytes G genesis (chunks css cur))"
    using compress_gives [of ws "swapRLP (so_compress ws co)"] buffers_swap(1) [OF i] assms(1,3) by (simp add: holds_def)
  show ?thesis
  proof (cases "so_full (so_compress ws co)")
    case None
    then show ?thesis using assms(1,2,4) kept by (auto simp: fit_span_def Let_def split: if_splits)
  next
    case (Some e)
    then have e: "e = ErrCompressorFull" using full by simp
    have f: "so_full ?rev = Some ErrCompressorFull" using compress_full(2) [of "swapRLP (so_compress ws co)" ws] Some e by simp
    show ?thesis using assms(1,2,4) Some e content rev f nc
      by (auto simp: fit_span_def Let_def gives_def split: if_splits)
  qed
qed

lemma add_step:
  assumes "\<not> so_closed co" "so_full co = None" "ensureOpenSpanBatch G co = (co1, Ok ())"
    "AppendSingularBatch G b q (so_spanBatch co1) = (sb, Ok ())" "ToRawSpanBatch sb = Ok raw"
    "write_span G raw (co1\<lparr>so_spanBatch := sb\<rparr>) = (co2, Ok ())"
  shows "so_AddSingularBatch G ws cfg b q co =
    (if length (activeRLP co2) > unat (MaxRLPBytesPerChannel cfg (sb_Timestamp b)) then (co2, Err ErrTooManyRLPBytes) else fit_span ws co2)"
  using assms by (simp add: so_AddSingularBatch_def)

lemma add_holds:
  assumes "geth_laws G" "rlp_bytes_laws G" "chain_ok c" "holds G genesis c algo m co css cur" "cur = [] \<longrightarrow> css = []"
    "so_full co = None" "span_ok G c blockTime (map fst (cur @ [(b, q)]))" "span_ok G c blockTime [b]"
    "so_AddSingularBatch G ws cfg b q co = (co', r)" "list_all (chunk_ok G c blockTime m) (chunks css cur)"
  obtains css1 cur1 where "concat css1 @ cur1 = concat css @ cur" "list_all (chunk_ok G c blockTime m) (chunks css1 cur1)"
    "list_all (chunk_ok G c blockTime m) (chunks css1 (cur1 @ [(b, q)]))"
    "r = Ok () \<and> so_full co' = None \<and> holds G genesis c algo m co' css1 (cur1 @ [(b, q)]) \<or>
     r = Ok () \<and> gives G ws genesis algo co' (chunks css1 (cur1 @ [(b, q)])) \<or>
     r = Err ErrCompressorFull \<and> gives G ws genesis algo co' (chunks css1 cur1) \<or>
     r = Err ErrTooManyRLPBytes \<and> so_full co' = None \<and> holds G genesis c algo m co' css1 (cur1 @ [(b, q)]) \<and>
       length (activeRLP co') > unat (MaxRLPBytesPerChannel cfg (sb_Timestamp b))"
proof -
  obtain co1 css1 cur1 where o: "ensureOpenSpanBatch G co = (co1, Ok ())" "holds G genesis c algo m co1 css1 cur1"
    "chunks css1 cur1 = chunks css cur" "so_full co1 = so_full co" "m = 0 \<or> length cur1 < m" "(css1, cur1) = (css, cur) \<or> (css1, cur1) = (css @ [cur], [])"
    using ensureOpen_holds [OF assms(4,5)] by blast
  have s: "span_ok G c blockTime (map fst (cur1 @ [(b, q)]))" using o(6) assms(7,8) by auto
  obtain co2 where w: "write_span G (span_raw G genesis (cur1 @ [(b, q)]))
      (co1\<lparr>so_spanBatch := built G genesis c (snd (hd (cur1 @ [(b, q)])) = 0) (map fst (cur1 @ [(b, q)]))\<rparr>) = (co2, Ok ())"
    "holds G genesis c algo m co2 css1 (cur1 @ [(b, q)])" "so_full co2 = so_full co1" "inactiveRLP co2 = activeRLP co1"
    using write_holds [OF assms(1,2) o(2) s] by blast
  have nc: "\<not> so_closed co" using assms(4) by (simp add: holds_def)
  have raw: "ToRawSpanBatch (built G genesis c (snd (hd (cur1 @ [(b, q)])) = 0) (map fst (cur1 @ [(b, q)]))) = Ok (span_raw G genesis (cur1 @ [(b, q)]))"
    unfolding span_raw_def by (rule ToRawSpanBatch_built) simp
  note step = add_step [OF nc assms(6) o(1) append_holds [OF assms(1,3) o(2) s] raw w(1)]
  have fresh: "so_full co2 = None" "inactiveRLP co2 = chunk_bytes G genesis (chunks css1 cur1)"
    using w(3,4) o(2,4) assms(6) by (simp_all add: holds_def)
  have ok: "list_all (chunk_ok G c blockTime m) (chunks css1 (cur1 @ [(b, q)]))"
    using assms(10) o(3,5) s by (auto simp: chunks_def chunk_ok_def list_all_iff split: if_splits)
  have cc: "concat css1 @ cur1 = concat css @ cur" using o(6) by auto
  show ?thesis
  proof (cases "length (activeRLP co2) > unat (MaxRLPBytesPerChannel cfg (sb_Timestamp b))")
    case True
    then have "co' = co2" "r = Err ErrTooManyRLPBytes" using step assms(9) by simp_all
    then show ?thesis using True fresh w(2) ok assms(10) o(3) by (intro that [OF cc]) simp_all
  next
    case False
    then have "fit_span ws co2 = (co', r)" using step assms(9) by simp
    from fit_holds [OF w(2) fresh this] show ?thesis using ok assms(10) o(3) by (intro that [OF cc]) auto
  qed
qed

section \<open>A whole channel\<close>

text \<open>The batcher feeds a channel until it refuses a block.\<close>

fun so_feed ::
    "geth \<Rightarrow> (compression_algo \<Rightarrow> 'w writer) \<Rightarrow> rollup_config \<Rightarrow> blocks \<Rightarrow> 'w span_channel_out \<Rightarrow> blocks \<Rightarrow>
     'w span_channel_out \<times> blocks \<times> unit res" where
  "so_feed G ws cfg [] co acc = (co, acc, Ok ())"
| "so_feed G ws cfg ((b, q) # bqs) co acc =
     (case so_AddSingularBatch G ws cfg b q co of
        (co, Ok _) \<Rightarrow> so_feed G ws cfg bqs co (acc @ [(b, q)])
      | (co, r) \<Rightarrow> (co, acc, r))"

lemma feed_full:
  assumes "gives G ws genesis algo co css"
  shows "so_feed G ws cfg bqs co acc = (co, acc, if bqs = [] then Ok () else Err ErrCompressorFull)"
proof (cases bqs)
  case (Cons bq rest)
  obtain b q where bq: "bq = (b, q)" by (cases bq)
  have "so_AddSingularBatch G ws cfg b q co = (co, Err ErrCompressorFull)"
    using assms by (simp add: so_AddSingularBatch_def gives_def)
  then show ?thesis using Cons bq by simp
qed simp

text \<open>How a fed channel is left.\<close>

definition fed :: "geth \<Rightarrow> (compression_algo \<Rightarrow> 'w writer) \<Rightarrow> rollup_config \<Rightarrow> u64 \<Rightarrow> nat \<Rightarrow> u64 \<Rightarrow> compression_algo \<Rightarrow> nat \<Rightarrow>
    blocks \<Rightarrow> 'w span_channel_out \<Rightarrow> blocks \<Rightarrow> unit res \<Rightarrow> bool" where
  "fed G ws cfg genesis c blockTime algo m bqs co acc r \<longleftrightarrow>
     (\<exists>css cur. list_all (chunk_ok G c blockTime m) (chunks css cur) \<and>
        (concat (chunks css cur) = acc \<and> (r = Ok () \<and> acc = bqs \<or> r = Err ErrCompressorFull \<and> (\<exists>rest. bqs = acc @ rest)) \<and>
           (so_full co = None \<and> holds G genesis c algo m co css cur \<or> gives G ws genesis algo co (chunks css cur)) \<or>
         (\<exists>b q rest. bqs = acc @ (b, q) # rest \<and> concat (chunks css cur) = acc @ [(b, q)] \<and> r = Err ErrTooManyRLPBytes \<and> so_full co = None \<and>
           holds G genesis c algo m co css cur \<and> length (activeRLP co) > unat (MaxRLPBytesPerChannel cfg (sb_Timestamp b)))))"

lemma concat_chunks: "concat (chunks css cur) = concat css @ cur" by (simp add: chunks_def)

lemma feed_holds:
  assumes "geth_laws G" "rlp_bytes_laws G" "chain_ok c" "span_ok G c blockTime (map fst all)"
  shows "all = acc @ bqs \<Longrightarrow> holds G genesis c algo m co css cur \<Longrightarrow> cur = [] \<longrightarrow> css = [] \<Longrightarrow> so_full co = None \<Longrightarrow>
    list_all (chunk_ok G c blockTime m) (chunks css cur) \<Longrightarrow> concat css @ cur = acc \<Longrightarrow>
    so_feed G ws cfg bqs co acc = (co', acc', r) \<Longrightarrow> fed G ws cfg genesis c blockTime algo m all co' acc' r"
proof (induction bqs arbitrary: acc co css cur)
  case Nil
  then show ?case unfolding fed_def by (intro exI [of _ css] exI [of _ cur]) (simp add: concat_chunks)
next
  case (Cons bq bqs)
  obtain b q where bq: "bq = (b, q)" by (cases bq)
  obtain co1 r1 where a: "so_AddSingularBatch G ws cfg b q co = (co1, r1)" by (cases "so_AddSingularBatch G ws cfg b q co")
  have m: "map fst all = map fst (concat css) @ map fst (cur @ [(b, q)]) @ map fst bqs" "map fst all = map fst acc @ [b] @ map fst bqs"
    using Cons.prems(1,6) bq by auto
  have s: "span_ok G c blockTime (map fst (cur @ [(b, q)]))" "span_ok G c blockTime [b]"
    using span_ok_part [OF assms(4) [unfolded m(1)]] span_ok_part [OF assms(4) [unfolded m(2)]] by simp_all
  obtain css1 cur1 where n: "concat css1 @ cur1 = concat css @ cur" "list_all (chunk_ok G c blockTime m) (chunks css1 cur1)"
    "list_all (chunk_ok G c blockTime m) (chunks css1 (cur1 @ [(b, q)]))"
    "r1 = Ok () \<and> so_full co1 = None \<and> holds G genesis c algo m co1 css1 (cur1 @ [(b, q)]) \<or>
     r1 = Ok () \<and> gives G ws genesis algo co1 (chunks css1 (cur1 @ [(b, q)])) \<or>
     r1 = Err ErrCompressorFull \<and> gives G ws genesis algo co1 (chunks css1 cur1) \<or>
     r1 = Err ErrTooManyRLPBytes \<and> so_full co1 = None \<and> holds G genesis c algo m co1 css1 (cur1 @ [(b, q)]) \<and>
       length (activeRLP co1) > unat (MaxRLPBytesPerChannel cfg (sb_Timestamp b))"
    using add_holds [OF assms(1-3) Cons.prems(2-4) s a Cons.prems(5)] by blast
  have acc: "concat css1 @ cur1 @ [(b, q)] = acc @ [(b, q)]" using n(1) Cons.prems(6) by simp
  from n(4) show ?case
  proof (elim disjE conjE)
    assume r: "r1 = Ok ()" "so_full co1 = None" "holds G genesis c algo m co1 css1 (cur1 @ [(b, q)])"
    show ?thesis
      by (rule Cons.IH [OF _ r(3) _ r(2) n(3)]) (use Cons.prems(1,7) bq a r(1) acc in auto)
  next
    assume r: "r1 = Ok ()" "gives G ws genesis algo co1 (chunks css1 (cur1 @ [(b, q)]))"
    have f: "co' = co1" "acc' = acc @ [(b, q)]" "r = (if bqs = [] then Ok () else Err ErrCompressorFull)"
      using Cons.prems(7) feed_full [OF r(2), of cfg bqs "acc @ [(b, q)]"] by (simp_all add: bq a r(1))
    show ?thesis unfolding fed_def using n(3) r(2) f acc Cons.prems(1) bq
      by (intro exI [of _ css1] exI [of _ "cur1 @ [(b, q)]"]) (auto simp: concat_chunks)
  next
    assume r: "r1 = Err ErrCompressorFull" "gives G ws genesis algo co1 (chunks css1 cur1)"
    have f: "co' = co1" "acc' = acc" "r = Err ErrCompressorFull" using Cons.prems(7) by (simp_all add: bq a r(1))
    show ?thesis unfolding fed_def using n(1,2) r(2) f Cons.prems(1,6)
      by (intro exI [of _ css1] exI [of _ cur1]) (auto simp: concat_chunks)
  next
    assume r: "r1 = Err ErrTooManyRLPBytes" "so_full co1 = None" "holds G genesis c algo m co1 css1 (cur1 @ [(b, q)])"
      "length (activeRLP co1) > unat (MaxRLPBytesPerChannel cfg (sb_Timestamp b))"
    have f: "co' = co1" "acc' = acc" "r = Err ErrTooManyRLPBytes" using Cons.prems(7) by (simp_all add: bq a r(1))
    show ?thesis unfolding fed_def using n(3) r f acc Cons.prems(1) bq
      by (intro exI [of _ css1] exI [of _ "cur1 @ [(b, q)]"]) (auto simp: concat_chunks)
  qed
qed

lemma new_holds: "holds G genesis c algo m (NewSpanChannelOut G ws random genesis c target algo m) [] []"
  by (simp add: holds_def NewSpanChannelOut_def activeRLP_def inactiveRLP_def chunks_def chunk_bytes_def NewChannelCompressor_def)

lemma close_open:
  assumes "holds G genesis c algo m co css cur" "so_full co = None"
  obtains co' where "so_Close ws co = Ok co'" "cc_compressed (so_compressor co') = compressed ws algo (activeRLP co)"
proof -
  have "so_Close ws co = Ok (so_compress ws (co\<lparr>so_closed := True\<rparr>))" using assms by (simp add: so_Close_def holds_def)
  moreover have "activeRLP (co\<lparr>so_closed := True\<rparr>) = activeRLP co" by (simp add: activeRLP_def)
  ultimately show ?thesis using assms(1) compress_gives [of ws "co\<lparr>so_closed := True\<rparr>"] by (intro that) (simp_all add: holds_def)
qed

lemma close_full:
  assumes "gives G ws genesis algo co css"
  obtains co' where "so_Close ws co = Ok co'" "cc_compressed (so_compressor co') = compressed ws algo (chunk_bytes G genesis css)"
  using assms by (intro that [of "co\<lparr>so_closed := True\<rparr>"]) (simp_all add: so_Close_def gives_def)

section \<open>The properties\<close>

text \<open>A writer that stores what it is given, with a byte when it is closed.\<close>

definition store_writer :: "compression_algo \<Rightarrow> unit writer" where
  "store_writer algo = \<lparr>w_new = (), w_write = (\<lambda>_ p. ((), p)), w_flush = (\<lambda>_. ((), [])), w_close = (\<lambda>_. ((), [255]))\<rparr>"

lemma sample_rlp: "rlp_bytes_laws sample_geth"
proof -
  have l: "length (put_list (\<lambda>b :: byte. [b]) bs) = 2 * length bs + 1" for bs
    by (simp add: put_list_def put_nat_def length_concat comp_def sum_list_triv)
  show ?thesis by (simp add: rlp_bytes_laws_def sample_geth_def) (auto simp: l)
qed


text \<open>The sample: three blocks without transactions, whose span batches are short.\<close>

definition empty_blocks :: blocks where
  "empty_blocks = map (\<lambda>b. (b\<lparr>sb_Transactions := []\<rparr>, 1)) sample_blocks"

lemma PutUvarint_length: "unat x < 2 ^ (7 * Suc k) \<Longrightarrow> length (PutUvarint x) \<le> Suc k"
proof (induction k arbitrary: x)
  case 0
  then show ?case by (subst PutUvarint.simps) (simp add: word_le_nat_alt)
next
  case (Suc k)
  have "unat (drop_bit 7 x) < 2 ^ (7 * Suc k)"
    using Suc.prems power_add [of "2 :: nat" 7 "7 * Suc k"]
    by (simp add: unat_drop7 div_less_iff_less_mult mult.commute)
  from Suc.IH [OF this] show ?case by (subst PutUvarint.simps) simp
qed

lemma short_uvarint: "length (PutUvarint x) \<le> 10"
  using PutUvarint_length [of x 9] unat_bounds(3) [of x] by simp

lemma short_counts: "length (concat (map PutUvarint ns)) \<le> 10 * length ns"
proof (induction ns)
  case (Cons n ns)
  then show ?case using short_uvarint [of n] by simp
qed simp

lemma short_span_data:
  assumes "span_ok sample_geth c blockTime (map fst bqs)" "concat (map sb_Transactions (map fst bqs)) = []"
  shows "length (span_data sample_geth genesis bqs) \<le> 200 + 24 * length bqs"
proof -
  obtain e where e: "raw_encode (span_raw sample_geth genesis bqs) = Ok e" "rlp_EncodeBytes sample_geth (1 # e) = Ok (span_data sample_geth genesis bqs)"
    using span_data_Ok [OF sample_laws sample_rlp assms(1)] by blast
  obtain ob txs where r: "encodeSpanBatchBits (of_nat (length bqs)) (bl (origin_flags (snd (hd bqs) = 0) (map fst bqs))) = Ok ob"
    "txs_encode (columns sample_geth (map (decoded sample_geth) (concat (map sb_Transactions (map fst bqs))))) = Ok txs"
    "e = encodePrefix (rs_prefix (span_raw sample_geth genesis bqs)) @ PutUvarint (of_nat (length bqs)) @ ob @
      concat (map PutUvarint (map (\<lambda>b. of_nat (length (sb_Transactions b))) (map fst bqs))) @ txs"
    using e(1) by (auto simp: raw_encode_def encodePayload_def encodeOriginBits_def encodeTxs_def encodeBlockTxCounts_def
      span_raw_def raw_of_def res_simps)
  have "length bqs \<le> unat MaxSpanBatchElementCount" using assms(1) by (simp add: span_ok_def)
  then have ob: "length ob \<le> length bqs + 1" using length_span_bits [OF r(1)] count_word(1) by simp
  have txs: "length txs = 0" using length_txs_encode [of sample_geth "[]" txs] r(2) unfolding assms(2) by (simp add: List.map_filter_def)
  have p: "length (encodePrefix (rs_prefix (span_raw sample_geth genesis bqs))) \<le> 60"
    using short_uvarint [of "rs_relTimestamp (rs_prefix (span_raw sample_geth genesis bqs))"]
      short_uvarint [of "rs_l1OriginNum (rs_prefix (span_raw sample_geth genesis bqs))"]
    by (simp add: encodePrefix_def span_raw_def raw_of_def hash_bytes_def del: be_encode_numeral)
  have "length e \<le> 71 + 11 * length bqs"
    unfolding r(3) length_append using p ob txs short_uvarint [of "of_nat (length bqs)"]
      short_counts [of "map (\<lambda>b. of_nat (length (sb_Transactions b))) (map fst bqs)"] by simp
  moreover have "span_data sample_geth genesis bqs = put_list (\<lambda>b. [b]) (1 # e)" using e(2) by (simp add: sample_geth_def)
  ultimately show ?thesis by (simp add: put_list_def put_nat_def length_concat comp_def sum_list_triv)
qed

lemma empty_ok: "span_ok sample_geth 10 2 (map fst empty_blocks)"
  by (simp add: span_ok_def empty_blocks_def sample_blocks_def MaxSpanBatchElementCount_def next_block_def)

lemma empty_short:
  assumes "list_all (chunk_ok sample_geth 10 2 m) css" "empty_blocks = concat css @ rest"
  shows "length (chunk_bytes sample_geth 100 css) \<le> 224 * length (concat css)"
proof -
  have none: "\<forall>bq \<in> set empty_blocks. sb_Transactions (fst bq) = []" by (simp add: empty_blocks_def sample_blocks_def)
  have "length (chunk_bytes sample_geth 100 css) \<le> 224 * length (concat css)"
    if "list_all (chunk_ok sample_geth 10 2 m) css" "\<forall>bq \<in> set (concat css). sb_Transactions (fst bq) = []"
    using that
  proof (induction css)
    case (Cons ch css)
    have "length (span_data sample_geth 100 ch) \<le> 200 + 24 * length ch"
      using Cons.prems by (intro short_span_data [of 10 2]) (auto simp: chunk_ok_def)
    moreover have "1 \<le> length ch" using Cons.prems(1) by (cases ch) (auto simp: chunk_ok_def span_ok_def)
    moreover have "length (chunk_bytes sample_geth 100 css) \<le> 224 * length (concat css)" using Cons.IH Cons.prems by simp
    moreover have "length (chunk_bytes sample_geth 100 (ch # css)) = length (span_data sample_geth 100 ch) + length (chunk_bytes sample_geth 100 css)"
      by (simp add: chunk_bytes_def)
    ultimately show ?case by (simp add: distrib_left del: One_nat_def)
  qed (simp add: chunk_bytes_def)
  moreover have "\<forall>bq \<in> set (concat css). sb_Transactions (fst bq) = []"
    using none unfolding assms(2) set_append by blast
  ultimately show ?thesis using assms(1) by blast
qed


section \<open>A block that does not fit the RLP limit\<close>

text \<open>When the RLP outgrows its limit, the block that was refused stays in the channel: closing it
  compresses the buffer with the block, more bytes than the derivation reads from a channel. The
  caller offers the block again to the next channel.\<close>

lemma too_many_keeps_refused:
  assumes "geth_laws G" "rlp_bytes_laws G" "chain_ok c" "span_ok G c blockTime (map fst bqs)"
    "so_feed G ws cfg bqs (NewSpanChannelOut G ws random genesis c target algo maxBlocks) [] = (co, acc, Err ErrTooManyRLPBytes)"
  shows "\<exists>b q co' css. concat css = acc @ [(b, q)] \<and> so_Close ws co = Ok co' \<and>
    cc_compressed (so_compressor co') = compressed ws algo (concat (map (span_data G genesis) css)) \<and>
    length (concat (map (span_data G genesis) css)) > unat (MaxRLPBytesPerChannel cfg (sb_Timestamp b))"
proof -
  have "so_full (NewSpanChannelOut G ws random genesis c target algo maxBlocks) = None" by (simp add: NewSpanChannelOut_def)
  from feed_holds [OF assms(1-4) _ new_holds _ this _ _ assms(5)]
  obtain css cur b q where f: "concat (chunks css cur) = acc @ [(b, q)]" "so_full co = None" "holds G genesis c algo maxBlocks co css cur"
    "length (activeRLP co) > unat (MaxRLPBytesPerChannel cfg (sb_Timestamp b))"
    by (auto simp: fed_def chunks_def [of "[]" "[]"] ErrCompressorFull_def ErrTooManyRLPBytes_def)
  obtain co' where "so_Close ws co = Ok co'" "cc_compressed (so_compressor co') = compressed ws algo (activeRLP co)"
    using close_open [OF f(3,2)] by blast
  moreover have "activeRLP co = concat (map (span_data G genesis) (chunks css cur))" using f(3) by (simp add: holds_def chunk_bytes_def)
  ultimately show ?thesis using f(1,4) by metis
qed

end
