(* ===== verification/DeriveBlob.thy ===== *)
theory DeriveBlob
  imports Prelude
begin

text \<open>
  The encoding of data in the field elements of a blob, after \<open>op-service/eth/blob.go\<close>. A blob is
  \<open>BlobSize\<close> bytes. The encoder writes from the front of a cleared blob, so its state is what has been
  written and what is left to read; the decoder fills a buffer of \<open>MaxBlobDataSize\<close> bytes. Both take
  their rounds as a number that is left.
\<close>

section \<open>Constants and errors\<close>

definition BlobSize :: nat where "BlobSize = 4096 * 32"
definition MaxBlobDataSize :: nat where "MaxBlobDataSize = (4 * 31 + 3) * 1024 - 4"
definition EncodingVersion :: byte where "EncodingVersion = 0"
definition VersionOffset :: nat where "VersionOffset = 1"
definition Rounds :: nat where "Rounds = 1024"

definition ErrBlobInvalidFieldElement :: string where "ErrBlobInvalidFieldElement = ''invalid field element''"
definition ErrBlobInvalidEncodingVersion :: string where "ErrBlobInvalidEncodingVersion = ''invalid encoding version''"
definition ErrBlobInvalidLength :: string where "ErrBlobInvalidLength = ''invalid length for blob''"
definition ErrBlobInputTooLarge :: string where "ErrBlobInputTooLarge = ''too much data to encode in one blob''"
definition ErrBlobExtraneousData :: string where
  "ErrBlobExtraneousData = ''non-zero data encountered where blob should be empty''"
definition ErrBlobExtraneousDataFieldElement :: string where
  "ErrBlobExtraneousDataFieldElement = ''non-zero data encountered where field element should be empty''"

section \<open>Encoding\<close>

text \<open>\<open>read1\<close> and \<open>read31\<close>: zeros when there is no input left.\<close>

fun read1 :: "bytes \<Rightarrow> byte \<times> bytes" where
  "read1 [] = (0, [])"
| "read1 (b # bs) = (b, bs)"

definition read31 :: "bytes \<Rightarrow> bytes \<times> bytes" where
  "read31 rest = (take 31 rest @ replicate (31 - length rest) 0, drop 31 rest)"

text \<open>\<open>write1\<close> and \<open>write31\<close>, with the assertions of the code.\<close>

definition write1 :: "byte \<Rightarrow> bytes \<Rightarrow> bytes res" where
  "write1 v out =
     guard_panic (length out mod 32 = 0) ''blob encoding: invalid byte write offset''
     (guard_panic (v AND 0xC0 = 0) ''blob encoding: invalid 6 bit value'' (Ok (out @ [v])))"

definition write31 :: "bytes \<Rightarrow> bytes \<Rightarrow> bytes res" where
  "write31 buf out =
     guard_panic (length out mod 32 = 1) ''blob encoding: invalid bytes31 write offset'' (Ok (out @ buf))"

text \<open>One round, after the 31 bytes of its first field element have been read.\<close>

definition encode_round :: "bytes \<Rightarrow> bytes \<Rightarrow> bytes \<Rightarrow> (bytes \<times> bytes) res" where
  "encode_round buf rest out =
     (let (x, rest) = read1 rest in
      bind_res (write1 (x AND 0x3F) out) (\<lambda>out.
      bind_res (write31 buf out) (\<lambda>out.
      let (buf, rest) = read31 rest; (y, rest) = read1 rest in
      bind_res (write1 ((y AND 0x0F) OR drop_bit 2 (x AND 0xC0)) out) (\<lambda>out.
      bind_res (write31 buf out) (\<lambda>out.
      let (buf, rest) = read31 rest; (z, rest) = read1 rest in
      bind_res (write1 (z AND 0x3F) out) (\<lambda>out.
      bind_res (write31 buf out) (\<lambda>out.
      let (buf, rest) = read31 rest in
      bind_res (write1 (drop_bit 2 (z AND 0xC0) OR drop_bit 4 (y AND 0xF0)) out) (\<lambda>out.
      bind_res (write31 buf out) (\<lambda>out. Ok (rest, out))))))))))"

text \<open>The first 31 bytes hold the version, the length and 27 bytes of data.\<close>

definition first_buf :: "bytes \<Rightarrow> bytes" where
  "first_buf dat =
     (let ilen = (of_nat (length dat) :: u32) in
      [EncodingVersion, ucast (drop_bit 16 ilen), ucast (drop_bit 8 ilen), ucast ilen] @
      take 27 dat @ replicate (27 - length dat) 0)"

fun encode_rounds :: "nat \<Rightarrow> bytes \<Rightarrow> bytes \<Rightarrow> (bytes \<times> bytes) res" where
  "encode_rounds 0 rest out = Ok (rest, out)"
| "encode_rounds (Suc n) rest out =
     (if rest = [] then Ok (rest, out)
      else let (buf, rest) = read31 rest in bind_res (encode_round buf rest out) (\<lambda>(rest, out). encode_rounds n rest out))"

definition FromData :: "bytes \<Rightarrow> bytes res" where
  "FromData dat =
     guard_err (length dat \<le> MaxBlobDataSize) ErrBlobInputTooLarge
     (bind_res
       (if dat = [] then Ok ([], [])
        else bind_res (encode_round (first_buf dat) (drop 27 dat) []) (\<lambda>(rest, out). encode_rounds (Rounds - 1) rest out))
       (\<lambda>(rest, out).
       guard_panic (rest = []) ''expected to fit data but failed''
         (Ok (out @ replicate (BlobSize - length out) 0))))"

section \<open>Decoding\<close>

text \<open>\<open>copy(output[pos:], src)\<close>; the buffer keeps its length.\<close>

definition copy_at :: "nat \<Rightarrow> bytes \<Rightarrow> bytes \<Rightarrow> bytes" where
  "copy_at pos src out = take pos out @ take (length out - pos) src @ drop (pos + length src) out"

definition decodeFieldElement :: "bytes \<Rightarrow> nat \<Rightarrow> nat \<Rightarrow> bytes \<Rightarrow> (byte \<times> nat \<times> nat \<times> bytes) res" where
  "decodeFieldElement b opos ipos output =
     (if (b ! ipos) AND 0xC0 \<noteq> 0 then Err ErrBlobInvalidFieldElement
      else Ok (b ! ipos, opos + 32, ipos + 32, copy_at opos (take 31 (drop (ipos + 1) b)) output))"

definition reassembleBytes :: "nat \<Rightarrow> byte \<Rightarrow> byte \<Rightarrow> byte \<Rightarrow> byte \<Rightarrow> bytes \<Rightarrow> nat \<times> bytes" where
  "reassembleBytes opos e0 e1 e2 e3 output =
     (let opos = opos - 1;
          x = (e0 AND 0x3F) OR push_bit 2 (e1 AND 0x30);
          y = (e1 AND 0x0F) OR push_bit 4 (e3 AND 0x0F);
          z = (e2 AND 0x3F) OR push_bit 2 (e3 AND 0x30)
      in (opos, output[opos - 32 := z, opos - 32 * 2 := y, opos - 32 * 3 := x]))"

fun decode_rounds :: "bytes \<Rightarrow> nat \<Rightarrow> nat \<Rightarrow> nat \<Rightarrow> nat \<Rightarrow> bytes \<Rightarrow> (nat \<times> nat \<times> bytes) res" where
  "decode_rounds b outputLen 0 opos ipos output = Ok (opos, ipos, output)"
| "decode_rounds b outputLen (Suc n) opos ipos output =
     (if \<not> opos < outputLen then Ok (opos, ipos, output)
      else
        bind_res (decodeFieldElement b opos ipos output) (\<lambda>(e0, opos, ipos, output).
        bind_res (decodeFieldElement b opos ipos output) (\<lambda>(e1, opos, ipos, output).
        bind_res (decodeFieldElement b opos ipos output) (\<lambda>(e2, opos, ipos, output).
        bind_res (decodeFieldElement b opos ipos output) (\<lambda>(e3, opos, ipos, output).
        case reassembleBytes opos e0 e1 e2 e3 output of (opos, output) \<Rightarrow>
        decode_rounds b outputLen n opos ipos output)))))"

definition blob_len :: "bytes \<Rightarrow> u32" where
  "blob_len b = push_bit 16 (ucast (b ! 2)) OR push_bit 8 (ucast (b ! 3)) OR ucast (b ! 4)"

definition ToData :: "bytes \<Rightarrow> bytes res" where
  "ToData b =
     (if b ! VersionOffset \<noteq> EncodingVersion then Err ErrBlobInvalidEncodingVersion
      else
        let outputLen = unat (blob_len b) in
        if outputLen > MaxBlobDataSize then Err ErrBlobInvalidLength
        else
          let output = copy_at 0 (take 27 (drop 5 b)) (replicate MaxBlobDataSize 0) in
          bind_res (decodeFieldElement b 28 32 output) (\<lambda>(e1, opos, ipos, output).
          bind_res (decodeFieldElement b opos ipos output) (\<lambda>(e2, opos, ipos, output).
          bind_res (decodeFieldElement b opos ipos output) (\<lambda>(e3, opos, ipos, output).
          case reassembleBytes opos (b ! 0) e1 e2 e3 output of (opos, output) \<Rightarrow>
          bind_res (decode_rounds b outputLen (Rounds - 1) opos ipos output) (\<lambda>(opos, ipos, output).
          if list_ex (\<lambda>v. v \<noteq> 0) (drop outputLen output) then Err ErrBlobExtraneousDataFieldElement
          else if list_ex (\<lambda>v. v \<noteq> 0) (drop ipos b) then Err ErrBlobExtraneousData
          else Ok (take outputLen output))))))"

section \<open>One round\<close>

lemma six_bits:
  "(x AND 0x3F) AND 0xC0 = (0 :: byte)" "((y AND 0x0F) OR drop_bit 2 (x AND 0xC0)) AND 0xC0 = (0 :: byte)"
  "(drop_bit 2 (z AND 0xC0) OR drop_bit 4 (y AND 0xF0)) AND 0xC0 = (0 :: byte)"
  by (rule bit_word_eqI, simp only: bit_simps o_apply,
      (auto simp: numeral_eq_Suc less_Suc_eq bit_numeral_rec dest: bit_imp_le_length)[1])+

lemma reassembled:
  "((x AND 0x3F) AND 0x3F) OR push_bit 2 (((y AND 0x0F) OR drop_bit 2 (x AND 0xC0)) AND 0x30) = (x :: byte)"
  "(((y AND 0x0F) OR drop_bit 2 (x AND 0xC0)) AND 0x0F) OR
     push_bit 4 ((drop_bit 2 (z AND 0xC0) OR drop_bit 4 (y AND 0xF0)) AND 0x0F) = (y :: byte)"
  "((z AND 0x3F) AND 0x3F) OR push_bit 2 ((drop_bit 2 (z AND 0xC0) OR drop_bit 4 (y AND 0xF0)) AND 0x30) = (z :: byte)"
  by (rule bit_word_eqI, simp only: bit_simps o_apply,
      (auto simp: numeral_eq_Suc less_Suc_eq bit_numeral_rec dest: bit_imp_le_length)[1])+

text \<open>Data padded with zeros.\<close>

definition pad :: "nat \<Rightarrow> bytes \<Rightarrow> bytes" where
  "pad n xs = take n xs @ replicate (n - length xs) 0"

lemma length_pad [simp]: "length (pad n xs) = n"
  by (simp add: pad_def)

lemma pad_0 [simp]: "pad 0 xs = []"
  by (simp add: pad_def)

lemma pad_add: "pad (m + n) xs = pad m xs @ pad n (drop m xs)"
proof (cases "m \<le> length xs")
  case True
  then show ?thesis by (simp add: pad_def take_add)
next
  case False
  then have "m + n - length xs = (m - length xs) + n" "n - (length xs - m) = n" by auto
  then show ?thesis using False by (simp only: pad_def replicate_add append.assoc) simp
qed

lemma pad_long: "length xs \<le> n \<Longrightarrow> pad n xs = xs @ replicate (n - length xs) 0"
  by (simp add: pad_def)

lemma read1_pad: "read1 rest = (hd (pad 1 rest), drop 1 rest)"
  by (cases rest) (simp_all add: pad_def)

lemma read31_pad: "read31 rest = (pad 31 rest, drop 31 rest)"
  by (simp add: read31_def pad_def)

text \<open>The four field elements of a round and the bytes they stand for.\<close>

definition elements :: "bytes \<Rightarrow> byte \<Rightarrow> bytes \<Rightarrow> byte \<Rightarrow> bytes \<Rightarrow> byte \<Rightarrow> bytes \<Rightarrow> bytes" where
  "elements b0 x b1 y b2 z b3 =
     ((x AND 0x3F) # b0) @ (((y AND 0x0F) OR drop_bit 2 (x AND 0xC0)) # b1) @
     ((z AND 0x3F) # b2) @ ((drop_bit 2 (z AND 0xC0) OR drop_bit 4 (y AND 0xF0)) # b3)"

lemma length_elements:
  "length b0 = 31 \<Longrightarrow> length b1 = 31 \<Longrightarrow> length b2 = 31 \<Longrightarrow> length b3 = 31 \<Longrightarrow> length (elements b0 x b1 y b2 z b3) = 128"
  by (simp add: elements_def)

lemma element_written:
  "length out mod 32 = 0 \<Longrightarrow> v AND 0xC0 = 0 \<Longrightarrow>
   bind_res (write1 v out) (\<lambda>out. bind_res (write31 buf out) f) = f (out @ v # buf)"
  by (simp add: write1_def write31_def mod_Suc)

lemma element_aligned: "length out mod 32 = 0 \<Longrightarrow> length buf = 31 \<Longrightarrow> length (out @ v # buf) mod 32 = 0"
  by simp

lemma encode_round_ok:
  assumes "length out mod 32 = 0" "length buf = 31"
  obtains x b1 y b2 z b3 where
    "encode_round buf rest out = Ok (drop 96 rest, out @ elements buf x b1 y b2 z b3)"
    "pad 96 rest = x # b1 @ y # b2 @ z # b3" "length b1 = 31" "length b2 = 31" "length b3 = 31"
proof -
  have p: "pad 96 rest = pad 1 rest @ pad 31 (drop 1 rest) @ pad 1 (drop 32 rest) @ pad 31 (drop 33 rest) @
      pad 1 (drop 64 rest) @ pad 31 (drop 65 rest)"
    using pad_add [of 1 95 rest] pad_add [of 31 64 "drop 1 rest"] pad_add [of 1 63 "drop 32 rest"] pad_add [of 31 32 "drop 33 rest"]
      pad_add [of 1 31 "drop 64 rest"] by simp
  have one: "pad 1 xs = [hd (pad 1 xs)]" for xs by (cases xs) (simp_all add: pad_def)
  define x y z where xyz: "x = hd (pad 1 rest)" "y = hd (pad 1 (drop 32 rest))" "z = hd (pad 1 (drop 64 rest))"
  have d: "drop 1 (drop 31 (drop 1 rest)) = drop 33 rest" "drop 31 (drop 1 rest) = drop 32 rest" "drop 31 (drop 33 rest) = drop 64 rest"
    "drop 1 (drop 32 rest) = drop 33 rest" "drop 1 (drop 64 rest) = drop 65 rest" "drop 31 (drop 65 rest) = drop 96 rest"
    by simp_all
  have "encode_round buf rest out = Ok (drop 96 rest, out @ elements buf x (pad 31 (drop 1 rest)) y (pad 31 (drop 33 rest))
      z (pad 31 (drop 65 rest)))"
    unfolding encode_round_def read1_pad read31_pad Let_def prod.case d xyz [symmetric] elements_def
    using assms by (simp only: element_written element_aligned six_bits length_pad) (simp only: append.assoc append_Cons)
  moreover have "pad 96 rest = hd (pad 1 rest) # pad 31 (drop 1 rest) @ hd (pad 1 (drop 32 rest)) # pad 31 (drop 33 rest) @
      hd (pad 1 (drop 64 rest)) # pad 31 (drop 65 rest)"
    using p one [of rest] one [of "drop 32 rest"] one [of "drop 64 rest"] by (metis append_Cons append_Nil)
  ultimately show ?thesis using that [unfolded xyz [symmetric]] unfolding xyz by (meson length_pad)
qed

lemma copy_zeros: "length src \<le> m \<Longrightarrow> copy_at (length pre) src (pre @ replicate m 0) = pre @ src @ replicate (m - length src) 0"
  by (simp add: copy_at_def)

lemma field_ok:
  assumes "b = front @ (v # buf) @ after" "length buf = 31" "v AND 0xC0 = 0" "31 \<le> m" "opos = length pre" "ipos = length front"
  shows "decodeFieldElement b opos ipos (pre @ replicate m 0) = Ok (v, opos + 32, ipos + 32, pre @ buf @ replicate (m - 31) 0)"
  using assms by (simp add: decodeFieldElement_def nth_append copy_zeros)

lemma next_gap: "31 < m \<Longrightarrow> pre @ buf @ replicate (m - 31) 0 = (pre @ buf @ [0]) @ replicate (m - 32) (0 :: byte)"
  by (simp add: replicate_Suc [symmetric] Suc_diff_Suc del: replicate_Suc)


definition rounded :: "bytes \<Rightarrow> byte \<Rightarrow> bytes \<Rightarrow> byte \<Rightarrow> bytes \<Rightarrow> byte \<Rightarrow> bytes \<Rightarrow> bytes" where
  "rounded b0 x b1 y b2 z b3 = b0 @ x # b1 @ y # b2 @ z # b3"

lemma reassemble_ok:
  assumes "length b1 = 31" "length b2 = 31" "length b3 = 31" "opos = length b0 + 97"
  shows "reassembleBytes opos (x AND 0x3F) ((y AND 0x0F) OR drop_bit 2 (x AND 0xC0)) (z AND 0x3F)
      (drop_bit 2 (z AND 0xC0) OR drop_bit 4 (y AND 0xF0)) (b0 @ [0] @ b1 @ [0] @ b2 @ [0] @ b3 @ after) =
    (length b0 + 96, rounded b0 x b1 y b2 z b3 @ after)"
  unfolding reassembleBytes_def Let_def reassembled
  using assms by (simp add: list_update_append rounded_def)

text \<open>A round, from its second field element on.\<close>

lemma decode_tail_ok:
  assumes "b = front @ (((y AND 0x0F) OR drop_bit 2 (x AND 0xC0)) # b1) @ ((z AND 0x3F) # b2) @
      ((drop_bit 2 (z AND 0xC0) OR drop_bit 4 (y AND 0xF0)) # b3) @ after"
    and "length b1 = 31" "length b2 = 31" "length b3 = 31" "95 \<le> m" "opos = length b0 + 1" "ipos = length front"
  shows "bind_res (decodeFieldElement b opos ipos ((b0 @ [0]) @ replicate m 0)) (\<lambda>(e1, opos, ipos, output).
      bind_res (decodeFieldElement b opos ipos output) (\<lambda>(e2, opos, ipos, output).
      bind_res (decodeFieldElement b opos ipos output) (\<lambda>(e3, opos, ipos, output).
      case reassembleBytes opos (x AND 0x3F) e1 e2 e3 output of (opos, output) \<Rightarrow> K opos ipos output))) =
    K (length b0 + 96) (ipos + 96) (rounded b0 x b1 y b2 z b3 @ replicate (m - 95) 0)"
proof -
  define B C D where d: "B = (y AND 0x0F) OR drop_bit 2 (x AND 0xC0)" "C = z AND 0x3F"
    "D = drop_bit 2 (z AND 0xC0) OR drop_bit 4 (y AND 0xF0)"
  have six: "B AND 0xC0 = 0" "C AND 0xC0 = 0" "D AND 0xC0 = 0" unfolding d by (rule six_bits)+
  have b: "b = front @ (B # b1) @ (C # b2) @ (D # b3) @ after" using assms(1) by (simp add: d)
  have 1: "decodeFieldElement b opos ipos ((b0 @ [0]) @ replicate m 0) =
      Ok (B, opos + 32, ipos + 32, (b0 @ [0] @ b1 @ [0]) @ replicate (m - 32) 0)"
    using field_ok [of b front B b1 "(C # b2) @ (D # b3) @ after" m opos "b0 @ [0]" ipos]
      next_gap [of m "b0 @ [0]" b1] b six(1) assms by simp
  have 2: "decodeFieldElement b (opos + 32) (ipos + 32) ((b0 @ [0] @ b1 @ [0]) @ replicate (m - 32) 0) =
      Ok (C, opos + 64, ipos + 64, (b0 @ [0] @ b1 @ [0] @ b2 @ [0]) @ replicate (m - 64) 0)"
    using field_ok [of b "front @ B # b1" C b2 "(D # b3) @ after" "m - 32" "opos + 32" "b0 @ [0] @ b1 @ [0]" "ipos + 32"]
      next_gap [of "m - 32" "b0 @ [0] @ b1 @ [0]" b2] b six(2) assms by simp
  have 3: "decodeFieldElement b (opos + 64) (ipos + 64) ((b0 @ [0] @ b1 @ [0] @ b2 @ [0]) @ replicate (m - 64) 0) =
      Ok (D, opos + 96, ipos + 96, b0 @ [0] @ b1 @ [0] @ b2 @ [0] @ b3 @ replicate (m - 95) 0)"
    using field_ok [of b "front @ (B # b1) @ C # b2" D b3 after "m - 64" "opos + 64" "b0 @ [0] @ b1 @ [0] @ b2 @ [0]" "ipos + 64"]
      b six(3) assms by simp
  have r: "reassembleBytes (opos + 96) (x AND 0x3F) B C D (b0 @ [0] @ b1 @ [0] @ b2 @ [0] @ b3 @ replicate (m - 95) 0) =
      (length b0 + 96, rounded b0 x b1 y b2 z b3 @ replicate (m - 95) 0)"
    unfolding d using assms by (intro reassemble_ok) simp_all
  show ?thesis by (simp only: 1 2 3 r bind_res.simps prod.case)
qed

lemma decode_round_ok:
  assumes "b = front @ elements b0 x b1 y b2 z b3 @ after"
    and "length b0 = 31" "length b1 = 31" "length b2 = 31" "length b3 = 31" "127 \<le> m" "opos = length pre" "ipos = length front"
    and "opos < outputLen"
  shows "decode_rounds b outputLen (Suc n) opos ipos (pre @ replicate m 0) =
    decode_rounds b outputLen n (opos + 127) (ipos + 128) (pre @ rounded b0 x b1 y b2 z b3 @ replicate (m - 127) 0)"
proof -
  have b: "b = front @ ((x AND 0x3F) # b0) @ (((y AND 0x0F) OR drop_bit 2 (x AND 0xC0)) # b1) @ ((z AND 0x3F) # b2) @
      ((drop_bit 2 (z AND 0xC0) OR drop_bit 4 (y AND 0xF0)) # b3) @ after"
    using assms(1) by (simp add: elements_def)
  have 1: "decodeFieldElement b opos ipos (pre @ replicate m 0) =
      Ok (x AND 0x3F, opos + 32, ipos + 32, ((pre @ b0) @ [0]) @ replicate (m - 32) 0)"
    using field_ok [OF b assms(2) six_bits(1) _ assms(7,8), of m] next_gap [of m pre b0] assms(6) by simp
  have t: "b = (front @ ((x AND 0x3F) # b0)) @ (((y AND 0x0F) OR drop_bit 2 (x AND 0xC0)) # b1) @ ((z AND 0x3F) # b2) @
      ((drop_bit 2 (z AND 0xC0) OR drop_bit 4 (y AND 0xF0)) # b3) @ after"
    using b by (simp only: append.assoc)
  have "95 \<le> m - 32" "opos + 32 = length (pre @ b0) + 1" "ipos + 32 = length (front @ ((x AND 0x3F) # b0))"
    using assms by simp_all
  note rest_of_round = decode_tail_ok [OF t assms(3-5) this]
  have l: "length (pre @ b0) + 96 = opos + 127" "ipos + 32 + 96 = ipos + 128" "m - 32 - 95 = m - 127"
    "rounded (pre @ b0) x b1 y b2 z b3 = pre @ rounded b0 x b1 y b2 z b3"
    using assms by (simp_all add: rounded_def)
  show ?thesis using assms(9)
    by (simp only: decode_rounds.simps not_True_eq_False if_False 1 bind_res.simps prod.case rest_of_round l)
      (simp only: append.assoc)
qed

section \<open>All rounds\<close>

lemma encode_none: "encode_rounds n [] out = Ok ([], out)"
  by (cases n) simp_all

lemma decode_done: "\<not> opos < outputLen \<Longrightarrow> decode_rounds b outputLen n opos ipos output = Ok (opos, ipos, output)"
  by (cases n) simp_all

lemma replicate_join: "k + l = n \<Longrightarrow> replicate k a @ replicate l a = replicate n a"
  by (auto simp: replicate_add)

lemma rounds_ok:
  assumes "length out mod 32 = 0" "length rest \<le> 127 * n" "127 * n \<le> m"
  shows "\<exists>E. encode_rounds n rest out = Ok ([], out @ E) \<and> length E \<le> 128 * n \<and>
    (\<forall>front pre after. \<exists>opos. decode_rounds (front @ E @ after) (length pre + length rest) n (length pre) (length front)
        (pre @ replicate m 0) = Ok (opos, length front + length E, pre @ rest @ replicate (m - length rest) 0))"
  using assms
proof (induction n arbitrary: rest out m)
  case 0
  then show ?case by simp
next
  case (Suc n)
  show ?case
  proof (cases "rest = []")
    case True
    then show ?thesis by (intro exI [of _ "[]"]) simp
  next
    case False
    obtain x b1 y b2 z b3 where r: "encode_round (pad 31 rest) (drop 31 rest) out = Ok (drop 96 (drop 31 rest), out @ elements (pad 31 rest) x b1 y b2 z b3)"
      "pad 96 (drop 31 rest) = x # b1 @ y # b2 @ z # b3" "length b1 = 31" "length b2 = 31" "length b3 = 31"
      by (rule encode_round_ok [OF Suc.prems(1) length_pad])
    define el where "el = elements (pad 31 rest) x b1 y b2 z b3"
    have el: "length el = 128" using r by (simp add: el_def length_elements)
    have rd: "rounded (pad 31 rest) x b1 y b2 z b3 = pad 127 rest"
      using pad_add [of 31 96 rest] r(2) by (simp add: rounded_def)
    have out: "length (out @ el) mod 32 = 0" using Suc.prems(1) by (simp add: el) presburger
    have enc: "encode_rounds (Suc n) rest out = encode_rounds n (drop 127 rest) (out @ el)"
      using False r(1) by (simp add: read31_pad el_def)
    have "length (drop 127 rest) \<le> 127 * n" "127 * n \<le> m - 127" using Suc.prems(2,3) by simp_all
    from Suc.IH [OF out this]
    obtain E where E: "encode_rounds n (drop 127 rest) (out @ el) = Ok ([], (out @ el) @ E)" "length E \<le> 128 * n"
      "\<And>front pre after. \<exists>opos. decode_rounds (front @ E @ after) (length pre + length (drop 127 rest)) n (length pre) (length front)
        (pre @ replicate (m - 127) 0) = Ok (opos, length front + length E, pre @ drop 127 rest @ replicate (m - 127 - length (drop 127 rest)) 0)"
      by blast
    have "\<exists>opos. decode_rounds (front @ (el @ E) @ after) (length pre + length rest) (Suc n) (length pre) (length front) (pre @ replicate m 0) =
        Ok (opos, length front + length (el @ E), pre @ rest @ replicate (m - length rest) 0)" for front pre after
    proof -
      have "decode_rounds (front @ el @ E @ after) (length pre + length rest) (Suc n) (length pre) (length front) (pre @ replicate m 0) =
          decode_rounds (front @ el @ E @ after) (length pre + length rest) n (length pre + 127) (length front + 128)
            (pre @ pad 127 rest @ replicate (m - 127) 0)"
        unfolding el_def rd [symmetric] using r False Suc.prems(3) by (intro decode_round_ok) simp_all
      also have "\<exists>opos. \<dots> = Ok (opos, length front + length (el @ E), pre @ rest @ replicate (m - length rest) 0)"
      proof (cases "length rest < 127")
        case True
        then have "E = []" using E(1) by (simp add: encode_none)
        moreover have "pad 127 rest @ replicate (m - 127) 0 = rest @ replicate (m - length rest) 0"
          using True Suc.prems(3) by (simp add: pad_long replicate_join)
        ultimately show ?thesis using True el by (simp add: decode_done)
      next
        case long: False
        then have p: "pad 127 rest = take 127 rest" by (simp add: pad_def)
        then show ?thesis
          using E(3) [of "front @ el" after "pre @ take 127 rest"] long el
          by (simp add: min_absorb2 add.assoc del: append_assoc add: append_assoc [symmetric]) (simp add: add.commute add.left_commute)
      qed
      finally show ?thesis by simp
    qed
    then show ?thesis using enc E(1,2) el by (intro exI [of _ "el @ E"]) simp
  qed
qed


section \<open>The round trip\<close>

lemma three_bytes:
  assumes "unat (w :: u32) < 2 ^ 24"
  shows "push_bit 16 (ucast (ucast (drop_bit 16 w) :: byte)) OR push_bit 8 (ucast (ucast (drop_bit 8 w) :: byte)) OR
    ucast (ucast w :: byte) = w"
proof -
  have t: "take_bit 24 w = w"
    using assms by (intro word_unat_eq_iff [THEN iffD2]) (simp only: unsigned_take_bit_eq take_bit_nat_eq_self)
  have small: "bit w n \<Longrightarrow> n < 24" for n using t by (metis bit_take_bit_iff)
  show ?thesis
    apply (rule bit_word_eqI)
    apply (simp only: bit_simps o_apply)
    apply (auto dest: small)
    subgoal for n by (cases "16 \<le> n") simp_all
    done
qed

lemma first_length:
  assumes "length dat \<le> MaxBlobDataSize"
  shows "unat (blob_len (v # (first_buf dat @ after))) = length dat"
proof -
  have w: "unat (of_nat (length dat) :: u32) = length dat" using assms by (simp add: unat_of_nat MaxBlobDataSize_def)
  then have "unat (of_nat (length dat) :: u32) < 2 ^ 24" using assms by (simp add: MaxBlobDataSize_def)
  from three_bytes [OF this] have "blob_len (v # (first_buf dat @ after)) = of_nat (length dat)"
    by (simp only: blob_len_def first_buf_def Let_def nth_Cons_numeral append_Cons) (simp add: numeral_eq_Suc)
  then show ?thesis using w by simp
qed

lemma length_first_buf [simp]: "length (first_buf dat) = 31"
  by (simp add: first_buf_def Let_def)

lemma first_buf_data: "drop 4 (first_buf dat) = pad 27 dat"
  by (simp add: first_buf_def Let_def pad_def)

lemma no_data: "list_ex (\<lambda>v. v \<noteq> 0) (replicate n 0) = False"
  by (simp add: list_ex_iff)


lemma encode_empty: "encode_round (first_buf []) [] [] = Ok ([], replicate 128 0)"
proof -
  obtain x b1 y b2 z b3 where r: "encode_round (first_buf []) [] [] = Ok ([], elements (first_buf []) x b1 y b2 z b3)"
    "pad 96 [] = x # b1 @ y # b2 @ z # b3" "length b1 = 31" "length b2 = 31" "length b3 = 31"
    by (rule encode_round_ok [of "[]" "first_buf []" "[]"]) simp_all
  have "set (x # b1 @ y # b2 @ z # b3) \<subseteq> {0}" unfolding r(2) [symmetric] by (simp add: pad_def)
  then have z: "x = 0" "y = 0" "z = 0" "set b1 \<subseteq> {0}" "set b2 \<subseteq> {0}" "set b3 \<subseteq> {0}" by auto
  have "set (first_buf []) \<subseteq> {0}" by (simp add: first_buf_def Let_def EncodingVersion_def)
  then have "set (elements (first_buf []) x b1 y b2 z b3) \<subseteq> {0}" using z by (auto simp: elements_def)
  then have "elements (first_buf []) x b1 y b2 z b3 = replicate 128 0"
    using r length_elements [of "first_buf []" b1 b2 b3 x y z] by (intro replicate_eqI) auto
  then show ?thesis using r(1) by simp
qed

lemma encoded:
  assumes "length dat \<le> MaxBlobDataSize"
    "encode_round (first_buf dat) (drop 27 dat) [] = Ok (drop 123 dat, el)" "length el = 128"
    "encode_rounds (Rounds - 1) (drop 123 dat) el = Ok ([], el @ E)" "length E \<le> 128 * (Rounds - 1)"
  shows "FromData dat = Ok (el @ E @ replicate (BlobSize - (128 + length E)) 0)"
proof (cases "dat = []")
  case True
  then have "el = replicate 128 0" "E = []" using assms(2,4) by (simp_all add: encode_empty encode_none)
  moreover have "replicate BlobSize (0 :: byte) = replicate 128 0 @ replicate (BlobSize - 128) 0"
    by (rule replicate_join [symmetric]) (simp add: BlobSize_def)
  ultimately show ?thesis using True by (simp add: FromData_def)
next
  case False
  then show ?thesis using assms by (simp add: FromData_def)
qed

text \<open>C13: Data goes through blobs unchanged. Whatever data fits a blob by the constant \<open>MaxBlobDataSize\<close>,
  encoding it returns and gives a blob, without any of the panics of the encoder, and decoding this blob
  gives exactly the data.\<close>

theorem blob_roundtrip:
  assumes "length dat \<le> MaxBlobDataSize"
  shows "\<exists>b. FromData dat = Ok b \<and> length b = BlobSize \<and> ToData b = Ok dat"
proof -
  obtain x b1 y b2 z b3 where r: "encode_round (first_buf dat) (drop 27 dat) [] = Ok (drop 123 dat, elements (first_buf dat) x b1 y b2 z b3)"
    "pad 96 (drop 27 dat) = x # b1 @ y # b2 @ z # b3" "length b1 = 31" "length b2 = 31" "length b3 = 31"
    by (rule encode_round_ok [of "[]" "first_buf dat" "drop 27 dat"]) simp_all
  define el where "el = elements (first_buf dat) x b1 y b2 z b3"
  have el: "length el = 128" using r by (simp add: el_def length_elements)
  then have al: "length el mod 32 = 0" by simp
  have sz: "127 * (Rounds - 1) \<le> MaxBlobDataSize - 123" "length (drop 123 dat) \<le> 127 * (Rounds - 1)"
    using assms by (simp_all add: MaxBlobDataSize_def Rounds_def)
  from rounds_ok [OF al sz(2,1)]
  obtain E where E: "encode_rounds (Rounds - 1) (drop 123 dat) el = Ok ([], el @ E)" "length E \<le> 128 * (Rounds - 1)"
    "\<And>front pre after. \<exists>opos. decode_rounds (front @ E @ after) (length pre + length (drop 123 dat)) (Rounds - 1) (length pre) (length front)
        (pre @ replicate (MaxBlobDataSize - 123) 0) =
      Ok (opos, length front + length E, pre @ drop 123 dat @ replicate (MaxBlobDataSize - 123 - length (drop 123 dat)) 0)"
    by blast
  define zs :: bytes where "zs = replicate (BlobSize - (128 + length E)) 0"
  define b where "b = el @ E @ zs"
  have enc: "FromData dat = Ok b" unfolding b_def zs_def using encoded [OF assms r(1) [folded el_def] el E(1,2)] .
  have len: "length b = BlobSize" using E(2) by (simp add: b_def zs_def el BlobSize_def Rounds_def)
  have bs: "b = ((x AND 0x3F) # first_buf dat) @ (((y AND 0x0F) OR drop_bit 2 (x AND 0xC0)) # b1) @ ((z AND 0x3F) # b2) @
      ((drop_bit 2 (z AND 0xC0) OR drop_bit 4 (y AND 0xF0)) # b3) @ E @ zs"
    by (simp add: b_def el_def elements_def)
  have v: "b ! VersionOffset = EncodingVersion" "b ! 0 = x AND 0x3F" by (simp_all add: bs VersionOffset_def first_buf_def Let_def)
  have ol: "unat (blob_len b) = length dat" unfolding bs append_Cons by (rule first_length [OF assms])
  have "take 27 (drop 5 b) = take 27 (drop 4 (first_buf dat))" by (simp add: bs numeral_eq_Suc)
  then have t: "take 27 (drop 5 b) = pad 27 dat" by (simp add: first_buf_data)
  have gap: "replicate (MaxBlobDataSize - 27) (0 :: byte) = [0] @ replicate (MaxBlobDataSize - 28) 0"
    by (simp add: MaxBlobDataSize_def replicate_Suc [symmetric] del: replicate_Suc)
  have out0: "copy_at 0 (take 27 (drop 5 b)) (replicate MaxBlobDataSize 0) = (pad 27 dat @ [0]) @ replicate (MaxBlobDataSize - 28) 0"
    unfolding t using copy_zeros [of "pad 27 dat" MaxBlobDataSize "[]"] gap by (simp add: MaxBlobDataSize_def)
  have rd: "rounded (pad 27 dat) x b1 y b2 z b3 = pad 123 dat"
    using pad_add [of 27 96 dat] r(2) by (simp add: rounded_def)
  have "95 \<le> MaxBlobDataSize - 28" "28 = length (pad 27 dat) + 1" "32 = length ((x AND 0x3F) # first_buf dat)"
    by (simp_all add: MaxBlobDataSize_def)
  note tl = decode_tail_ok [OF bs r(3-5) this]
  have l: "length (pad 27 dat) + 96 = 123" "(32 :: nat) + 96 = 128" "MaxBlobDataSize - 28 - 95 = MaxBlobDataSize - 123" by simp_all
  have "\<exists>opos. decode_rounds b (length dat) (Rounds - 1) 123 128 (pad 123 dat @ replicate (MaxBlobDataSize - 123) 0) =
      Ok (opos, 128 + length E, dat @ replicate (MaxBlobDataSize - length dat) 0)"
  proof (cases "length dat < 123")
    case True
    then have "E = []" using E(1) by (simp add: encode_none)
    moreover have "pad 123 dat @ replicate (MaxBlobDataSize - 123) 0 = dat @ replicate (MaxBlobDataSize - length dat) 0"
      using True by (simp add: pad_long replicate_join MaxBlobDataSize_def)
    ultimately show ?thesis using True by (simp add: decode_done)
  next
    case False
    then have "pad 123 dat = take 123 dat" by (simp add: pad_def)
    then show ?thesis using E(3) [of el zs "take 123 dat"] False el
      by (simp add: b_def min_absorb2) (simp del: append_assoc add: append_assoc [symmetric])
  qed
  then obtain opos where dr: "decode_rounds b (length dat) (Rounds - 1) 123 128 (pad 123 dat @ replicate (MaxBlobDataSize - 123) 0) =
      Ok (opos, 128 + length E, dat @ replicate (MaxBlobDataSize - length dat) 0)" ..
  have "drop (128 + length E) b = zs" by (simp add: b_def el)
  then have "ToData b = Ok dat"
    using assms unfolding ToData_def v ol out0 Let_def tl rd l dr
    by (simp add: no_data zs_def)
  then show ?thesis using enc len by blast
qed

theorem blob_roundtrip_witness: "\<exists>b. FromData [7, 8, 9] = Ok b \<and> length b = BlobSize \<and> ToData b = Ok [7, 8, 9]"
  by (rule blob_roundtrip) (simp add: MaxBlobDataSize_def)

section \<open>The top bits of the first field element\<close>

text \<open>The two top bits of a field element must be zero, but those of the first one are not looked at:
  blobs that differ there decode to the same data. (A field element must also be below the modulus of
  the curve, which leaves one of the two bits free.)\<close>

lemma field_update:
  "0 < ipos \<Longrightarrow> decodeFieldElement (b[0 := v]) opos ipos output = decodeFieldElement b opos ipos output"
  by (simp add: decodeFieldElement_def)

lemma rounds_update:
  "0 < ipos \<Longrightarrow> decode_rounds (b[0 := v]) outputLen n opos ipos out = decode_rounds b outputLen n opos ipos out"
  by (induction n arbitrary: opos ipos out) (simp_all add: decodeFieldElement_def split: prod.splits)

lemma rounds_advance: "decode_rounds b outputLen n opos ipos out = Ok (opos', ipos', out') \<Longrightarrow> ipos \<le> ipos'"
proof (induction n arbitrary: opos ipos out)
  case (Suc n)
  show ?case
  proof (cases "opos < outputLen")
    case True
    then obtain o1 out1 where "decode_rounds b outputLen n o1 (128 + ipos) out1 = Ok (opos', ipos', out')"
      using Suc.prems by (auto simp: decodeFieldElement_def split: if_splits prod.splits)
    from Suc.IH [OF this] show ?thesis by simp
  qed (use Suc.prems in auto)
qed simp

lemma bind_rounds:
  assumes "\<And>opos' ipos' out'. ipos \<le> ipos' \<Longrightarrow> F (opos', ipos', out') = F' (opos', ipos', out')"
  shows "bind_res (decode_rounds b outputLen n opos ipos out) F = bind_res (decode_rounds b outputLen n opos ipos out) F'"
  using rounds_advance assms by (cases "decode_rounds b outputLen n opos ipos out") auto

lemma top_bits_ignored:
  assumes "length b = BlobSize" "ToData b = Ok dat"
  shows "ToData (b[0 := b ! 0 OR 0x40]) = Ok dat"
proof -
  have e: "(w OR 0x40) AND 0x3F = w AND (0x3F :: byte)" for w
    by (rule bit_word_eqI, simp only: bit_simps, auto simp: numeral_eq_Suc less_Suc_eq bit_numeral_rec)
  have r: "reassembleBytes opos (b ! 0 OR 0x40) e1 e2 e3 out = reassembleBytes opos (b ! 0) e1 e2 e3 out" for opos e1 e2 e3 out
    unfolding reassembleBytes_def e ..
  have "0 < length b" using assms(1) by (simp add: BlobSize_def)
  then have "ToData (b[0 := b ! 0 OR 0x40]) = ToData b"
    by (auto simp: ToData_def VersionOffset_def blob_len_def decodeFieldElement_def rounds_update r Let_def
        intro!: bind_rounds split: prod.splits)
  then show ?thesis using assms(2) by simp
qed

end
