(* ===== verification/DeriveData.thy ===== *)
theory DeriveData
  imports DeriveBank DeriveBlob ElectionStore
begin

text \<open>
  Where the derivation reads batches from: the calldata and the blobs of the transactions that the
  election winner of an L1 block submitted through the batch inbox contract, after \<open>data_source.go\<close>,
  \<open>calldata_source.go\<close>, \<open>blob_data_source.go\<close> and \<open>l1_retrieval.go\<close> of \<open>op-node/rollup/derive\<close>. What is
  read from L1 and from the election is the record \<open>l1_view\<close>, an argument of every call, since it can
  change between calls. The ABI of the inbox contract is parsed by go-ethereum: its event identifier
  and the unpacking of the arguments of \<open>submitCalldata\<close> are the parameters \<open>inbox_abi\<close>. Alternative
  data availability is not modelled.
\<close>

section \<open>What is read from L1\<close>

record log_entry =
  lg_Address :: address
  lg_Topics :: "hash list"
  lg_Data :: bytes
  lg_BlockHash :: hash
  lg_Index :: nat

record receipt =
  rp_Status :: u64
  rp_Logs :: "log_entry list"

record l1_tx =
  lt_Type :: u8
  lt_Data :: bytes
  lt_BlobHashes :: "hash list"

type_synonym tx_with_receipt = "l1_tx \<times> receipt"

datatype 'a fetched = Fetched 'a | NotFound | FetchError string

record l1_view =
  v_Txs :: "hash \<Rightarrow> l1_tx list fetched"
  v_Receipts :: "hash \<Rightarrow> receipt list fetched"
  v_Blobs :: "l1_block_ref \<Rightarrow> (u64 \<times> hash) list \<Rightarrow> bytes option list fetched"
  v_Winner :: "u64 \<Rightarrow> election_winner"

record inbox_abi =
  ia_BatchSubmitted :: hash
  ia_Unpack :: "bytes \<Rightarrow> bytes option"

record data_source_config =
  ds_batchInboxAddress :: address

definition BlobTxType :: u8 where "BlobTxType = 3"

section \<open>Transactions of the election winner\<close>

definition addressFromTopic :: "hash \<Rightarrow> address" where
  "addressFromTopic topic = ucast topic"

fun isValidBatchTx :: "inbox_abi \<Rightarrow> address \<Rightarrow> data_source_config \<Rightarrow> log_entry list \<Rightarrow> bool res" where
  "isValidBatchTx abi winner cfg [] = Ok False"
| "isValidBatchTx abi winner cfg (l # logs) =
     (if lg_Address l \<noteq> ds_batchInboxAddress cfg then isValidBatchTx abi winner cfg logs
      else bind_res (index_res (lg_Topics l) 0) (\<lambda>topic0.
        if topic0 \<noteq> ia_BatchSubmitted abi then isValidBatchTx abi winner cfg logs
        else bind_res (index_res (lg_Topics l) 1) (\<lambda>topic1.
          if addressFromTopic topic1 \<noteq> winner then isValidBatchTx abi winner cfg logs else Ok True)))"

text \<open>\<open>ExtractPayload\<close>: \<open>None\<close> is an error, which its callers log and skip.\<close>

definition ExtractPayload :: "inbox_abi \<Rightarrow> l1_tx \<Rightarrow> bytes option res" where
  "ExtractPayload abi tx = guard_panic (4 \<le> length (lt_Data tx)) ''slice bounds out of range'' (Ok (ia_Unpack abi (drop 4 (lt_Data tx))))"

fun DataFromEVMTransactions :: "inbox_abi \<Rightarrow> data_source_config \<Rightarrow> address \<Rightarrow> tx_with_receipt list \<Rightarrow> bytes list res" where
  "DataFromEVMTransactions abi cfg winner [] = Ok []"
| "DataFromEVMTransactions abi cfg winner ((tx, rcp) # txs) =
     (if lt_Type tx = BlobTxType then DataFromEVMTransactions abi cfg winner txs
      else bind_res (isValidBatchTx abi winner cfg (rp_Logs rcp)) (\<lambda>valid.
        if \<not> valid then DataFromEVMTransactions abi cfg winner txs
        else bind_res (ExtractPayload abi tx) (\<lambda>payload.
          bind_res (DataFromEVMTransactions abi cfg winner txs) (\<lambda>out.
          Ok (case payload of None \<Rightarrow> out | Some p \<Rightarrow> p # out)))))"

text \<open>The transactions and receipts of a block: a receipt is looked up by the index of its transaction.\<close>

definition txs_with_receipts :: "l1_tx list \<Rightarrow> receipt list \<Rightarrow> tx_with_receipt list res" where
  "txs_with_receipts txs receipts =
     guard_panic (length txs \<le> length receipts) ''index out of range'' (Ok (zip txs receipts))"

definition fetch_txs :: "string \<Rightarrow> l1_view \<Rightarrow> hash \<Rightarrow> (derive_error + tx_with_receipt list) res" where
  "fetch_txs source v h =
     (case v_Txs v h of
        NotFound \<Rightarrow> Ok (Inl (ResetError (''failed to open '' @ source @ '' source'')))
      | FetchError e \<Rightarrow> Ok (Inl (Temporary (''failed to open '' @ source @ '' source: '' @ e)))
      | Fetched txs \<Rightarrow>
          (case v_Receipts v h of
             Fetched receipts \<Rightarrow> bind_res (txs_with_receipts txs receipts) (\<lambda>r. Ok (Inr r))
           | _ \<Rightarrow> Ok (Inl (Temporary ''failed to fetch tx receipts''))))"

section \<open>The calldata source\<close>

record calldata_source =
  cs_data :: "bytes list"
  cs_ref :: l1_block_ref

definition NewCalldataSource :: "l1_block_ref \<Rightarrow> calldata_source" where
  "NewCalldataSource ref = \<lparr>cs_data = [], cs_ref = ref\<rparr>"

definition cs_Next :: "inbox_abi \<Rightarrow> data_source_config \<Rightarrow> l1_view \<Rightarrow> calldata_source \<Rightarrow> (calldata_source, bytes) call res" where
  "cs_Next abi cfg v ds =
     (let electionWinner = v_Winner v (l1_time (cs_ref ds)) in
      if win_addr electionWinner = 0 then Ok (ds, Inl EOF)
      else bind_res (fetch_txs ''calldata'' v (l1_hash (cs_ref ds))) (\<lambda>r.
        case r of
          Inl e \<Rightarrow> Ok (ds, Inl e)
        | Inr txs \<Rightarrow>
            bind_res (DataFromEVMTransactions abi cfg (win_addr electionWinner) txs) (\<lambda>dat.
            case dat of
              [] \<Rightarrow> Ok (ds\<lparr>cs_data := []\<rparr>, Inl EOF)
            | d # rest \<Rightarrow> Ok (ds\<lparr>cs_data := rest\<rparr>, Inr d))))"

section \<open>The blob source\<close>

record blob_or_calldata =
  bc_blob :: "bytes option"
  bc_calldata :: "bytes option"

record blob_data_source =
  bs_data :: "blob_or_calldata list option"
  bs_ref :: l1_block_ref

definition NewBlobDataSource :: "l1_block_ref \<Rightarrow> blob_data_source" where
  "NewBlobDataSource ref = \<lparr>bs_data = None, bs_ref = ref\<rparr>"

text \<open>\<open>blobIndex\<close> counts the blobs of all transactions of the block.\<close>

fun dataAndHashesFromTxs ::
    "inbox_abi \<Rightarrow> data_source_config \<Rightarrow> address \<Rightarrow> u64 \<Rightarrow> tx_with_receipt list \<Rightarrow> (blob_or_calldata list \<times> (u64 \<times> hash) list) res" where
  "dataAndHashesFromTxs abi cfg winner blobIndex [] = Ok ([], [])"
| "dataAndHashesFromTxs abi cfg winner blobIndex ((tx, rcp) # txs) =
     bind_res (isValidBatchTx abi winner cfg (rp_Logs rcp)) (\<lambda>valid.
     let n = length (lt_BlobHashes tx) in
     if \<not> valid then dataAndHashesFromTxs abi cfg winner (blobIndex + of_nat n) txs
     else if lt_Type tx \<noteq> BlobTxType then
       bind_res (ExtractPayload abi tx) (\<lambda>payload.
       bind_res (dataAndHashesFromTxs abi cfg winner blobIndex txs) (\<lambda>(out, hashes).
       Ok (case payload of None \<Rightarrow> out | Some p \<Rightarrow> \<lparr>bc_blob = None, bc_calldata = Some p\<rparr> # out, hashes)))
     else
       bind_res (dataAndHashesFromTxs abi cfg winner (blobIndex + of_nat n) txs) (\<lambda>(out, hashes).
       Ok (replicate n \<lparr>bc_blob = None, bc_calldata = None\<rparr> @ out,
           map (\<lambda>i. (blobIndex + of_nat i, lt_BlobHashes tx ! i)) [0..<n] @ hashes)))"

text \<open>The placeholders are filled in order.\<close>

fun fillBlobPointers :: "blob_or_calldata list \<Rightarrow> bytes option list \<Rightarrow> (string + blob_or_calldata list)" where
  "fillBlobPointers [] blobs = (if blobs = [] then Inr [] else Inl ''got too many blobs'')"
| "fillBlobPointers (d # ds) blobs =
     (if bc_calldata d \<noteq> None then
        (case fillBlobPointers ds blobs of Inl e \<Rightarrow> Inl e | Inr out \<Rightarrow> Inr (d # out))
      else case blobs of
        [] \<Rightarrow> Inl ''didn't get enough blobs''
      | None # bs \<Rightarrow> Inl ''found a nil blob''
      | Some b # bs \<Rightarrow> (case fillBlobPointers ds bs of Inl e \<Rightarrow> Inl e | Inr out \<Rightarrow> Inr (d\<lparr>bc_blob := Some b\<rparr> # out)))"

definition bs_open :: "inbox_abi \<Rightarrow> data_source_config \<Rightarrow> l1_view \<Rightarrow> blob_data_source \<Rightarrow> (derive_error + blob_or_calldata list) res" where
  "bs_open abi cfg v ds =
     bind_res (fetch_txs ''blob data'' v (l1_hash (bs_ref ds))) (\<lambda>r.
     case r of
       Inl e \<Rightarrow> Ok (Inl e)
     | Inr txs \<Rightarrow>
         let electionWinner = v_Winner v (l1_time (bs_ref ds)) in
         bind_res (if electionWinner = zero_winner then Ok ([], [])
                   else dataAndHashesFromTxs abi cfg (win_addr electionWinner) 0 txs) (\<lambda>(dat, hashes).
         if hashes = [] then Ok (Inr dat)
         else Ok (case v_Blobs v (bs_ref ds) hashes of
           NotFound \<Rightarrow> Inl (ResetError ''failed to fetch blobs'')
         | FetchError e \<Rightarrow> Inl (Temporary (''failed to fetch blobs: '' @ e))
         | Fetched blobs \<Rightarrow>
             (case fillBlobPointers dat blobs of
                Inl e \<Rightarrow> Inl (ResetError (''failed to fill blob pointers: '' @ e))
              | Inr filled \<Rightarrow> Inr filled))))"

text \<open>\<open>Next\<close> on the data of an opened source: what cannot be decoded is skipped.\<close>

fun bs_take :: "blob_or_calldata list \<Rightarrow> (blob_or_calldata list \<times> (derive_error + bytes)) res" where
  "bs_take [] = Ok ([], Inl EOF)"
| "bs_take (d # ds) =
     (case bc_calldata d of
        Some c \<Rightarrow> Ok (ds, Inr c)
      | None \<Rightarrow>
          (case bc_blob d of
             None \<Rightarrow> Panic ''nil pointer dereference''
           | Some b \<Rightarrow> (case ToData b of Ok dat \<Rightarrow> Ok (ds, Inr dat) | Err e \<Rightarrow> bs_take ds | Panic e \<Rightarrow> Panic e)))"

definition bs_Next :: "inbox_abi \<Rightarrow> data_source_config \<Rightarrow> l1_view \<Rightarrow> blob_data_source \<Rightarrow> (blob_data_source, bytes) call res" where
  "bs_Next abi cfg v ds =
     bind_res (case bs_data ds of Some dat \<Rightarrow> Ok (Inr dat) | None \<Rightarrow> bs_open abi cfg v ds) (\<lambda>r.
     case r of
       Inl e \<Rightarrow> Ok (ds, Inl e)
     | Inr dat \<Rightarrow> bind_res (bs_take dat) (\<lambda>(rest, r). Ok (ds\<lparr>bs_data := Some rest\<rparr>, r)))"

section \<open>Opening a source, and the stage that reads from it\<close>

datatype data_iter = CalldataIter calldata_source | BlobIter blob_data_source

definition OpenData :: "u64 option \<Rightarrow> bool \<Rightarrow> l1_block_ref \<Rightarrow> string + data_iter" where
  "OpenData ecotoneTime hasBlobs ref =
     (if ecotoneTime \<noteq> None \<and> l1_time ref \<ge> the ecotoneTime then
        (if \<not> hasBlobs then Inl ''ecotone upgrade active but beacon endpoint not configured''
         else Inr (BlobIter (NewBlobDataSource ref)))
      else Inr (CalldataIter (NewCalldataSource ref)))"

fun iter_Next :: "inbox_abi \<Rightarrow> data_source_config \<Rightarrow> l1_view \<Rightarrow> data_iter \<Rightarrow> (data_iter, bytes) call res" where
  "iter_Next abi cfg v (CalldataIter ds) = bind_res (cs_Next abi cfg v ds) (\<lambda>(ds, r). Ok (CalldataIter ds, r))"
| "iter_Next abi cfg v (BlobIter ds) = bind_res (bs_Next abi cfg v ds) (\<lambda>(ds, r). Ok (BlobIter ds, r))"

record 'p l1_retrieval =
  lr_prev :: 'p
  lr_datas :: "data_iter option"

definition NewL1Retrieval :: "'p \<Rightarrow> 'p l1_retrieval" where
  "NewL1Retrieval p = \<lparr>lr_prev = p, lr_datas = None\<rparr>"

text \<open>\<open>next\<close> is \<open>NextL1Block\<close> of the stage before.\<close>

definition lr_NextData ::
    "(l1_block_ref \<Rightarrow> string + data_iter) \<Rightarrow> inbox_abi \<Rightarrow> data_source_config \<Rightarrow> l1_view \<Rightarrow> ('p \<Rightarrow> ('p, l1_block_ref) call) \<Rightarrow>
     'p l1_retrieval \<Rightarrow> ('p l1_retrieval, bytes) call res" where
  "lr_NextData opn abi cfg v next l1r =
     (let (l1r, r) =
        (case lr_datas l1r of
           Some it \<Rightarrow> (l1r, Inr it)
         | None \<Rightarrow>
             (case next (lr_prev l1r) of
                (p, Inl e) \<Rightarrow> (l1r\<lparr>lr_prev := p\<rparr>, Inl e)
              | (p, Inr ref) \<Rightarrow>
                  (case opn ref of
                     Inl e \<Rightarrow> (l1r\<lparr>lr_prev := p\<rparr>, Inl (OtherError (''failed to open data source: '' @ e)))
                   | Inr it \<Rightarrow> (l1r\<lparr>lr_prev := p, lr_datas := Some it\<rparr>, Inr it))))
      in case r of
        Inl e \<Rightarrow> Ok (l1r, Inl e)
      | Inr it \<Rightarrow>
          bind_res (iter_Next abi cfg v it) (\<lambda>(it, r).
          Ok (if r = Inl EOF then l1r\<lparr>lr_datas := None\<rparr> else l1r\<lparr>lr_datas := Some it\<rparr>, r)))"

definition lr_Reset :: "(l1_block_ref \<Rightarrow> string + data_iter) \<Rightarrow> l1_block_ref \<Rightarrow> 'p l1_retrieval \<Rightarrow> ('p l1_retrieval, unit) call" where
  "lr_Reset opn base l1r =
     (case opn base of
        Inl e \<Rightarrow> (l1r\<lparr>lr_datas := None\<rparr>, Inl (OtherError (''failed to open data source: '' @ e)))
      | Inr it \<Rightarrow> (l1r\<lparr>lr_datas := Some it\<rparr>, Inl EOF))"

end
