(* ===== verification/DeriveDataProps.thy ===== *)
theory DeriveDataProps
  imports DeriveData
begin

text \<open>
  What the data sources promise: the data of an L1 block are the calldata and the blobs that the
  election winner of the block submitted through the inbox, in the order of the block, and nothing
  else. And what they do not: the calldata source never comes to an end.
\<close>

section \<open>Transactions of the winner\<close>

text \<open>The events of the inbox contract have an indexed argument.\<close>

definition inbox_ok :: "data_source_config \<Rightarrow> receipt \<Rightarrow> bool" where
  "inbox_ok cfg rcp \<longleftrightarrow> list_all (\<lambda>l. lg_Address l \<noteq> ds_batchInboxAddress cfg \<or> 2 \<le> length (lg_Topics l)) (rp_Logs rcp)"

definition submitted :: "inbox_abi \<Rightarrow> data_source_config \<Rightarrow> address \<Rightarrow> receipt \<Rightarrow> bool" where
  "submitted abi cfg winner rcp \<longleftrightarrow>
     list_ex (\<lambda>l. lg_Address l = ds_batchInboxAddress cfg \<and> lg_Topics l ! 0 = ia_BatchSubmitted abi \<and>
       addressFromTopic (lg_Topics l ! 1) = winner) (rp_Logs rcp)"

lemma valid_submitted: "inbox_ok cfg rcp \<Longrightarrow> isValidBatchTx abi winner cfg (rp_Logs rcp) = Ok (submitted abi cfg winner rcp)"
proof -
  have "list_all (\<lambda>l. lg_Address l \<noteq> ds_batchInboxAddress cfg \<or> 2 \<le> length (lg_Topics l)) logs \<Longrightarrow>
    isValidBatchTx abi winner cfg logs = Ok (list_ex (\<lambda>l. lg_Address l = ds_batchInboxAddress cfg \<and>
      lg_Topics l ! 0 = ia_BatchSubmitted abi \<and> addressFromTopic (lg_Topics l ! 1) = winner) logs)" for logs
    by (induction logs) (auto simp: index_res_def)
  then show "inbox_ok cfg rcp \<Longrightarrow> ?thesis" by (simp add: inbox_ok_def submitted_def)
qed

text \<open>A transaction can be read: the logs of the inbox are its events, and a call of
  \<open>submitCalldata\<close> has a selector.\<close>

definition readable :: "inbox_abi \<Rightarrow> data_source_config \<Rightarrow> address \<Rightarrow> tx_with_receipt \<Rightarrow> bool" where
  "readable abi cfg winner t \<longleftrightarrow> inbox_ok cfg (snd t) \<and>
     (submitted abi cfg winner (snd t) \<and> lt_Type (fst t) \<noteq> BlobTxType \<longrightarrow> 4 \<le> length (lt_Data (fst t)))"

definition calldata_of :: "inbox_abi \<Rightarrow> l1_tx \<Rightarrow> bytes list" where
  "calldata_of abi tx = (case ia_Unpack abi (drop 4 (lt_Data tx)) of None \<Rightarrow> [] | Some p \<Rightarrow> [p])"

definition payloads_of_tx :: "inbox_abi \<Rightarrow> data_source_config \<Rightarrow> address \<Rightarrow> tx_with_receipt \<Rightarrow> bytes list" where
  "payloads_of_tx abi cfg winner t =
     (if submitted abi cfg winner (snd t) \<and> lt_Type (fst t) \<noteq> BlobTxType then calldata_of abi (fst t) else [])"

lemma ExtractPayload_ok: "4 \<le> length (lt_Data tx) \<Longrightarrow> ExtractPayload abi tx = Ok (ia_Unpack abi (drop 4 (lt_Data tx)))"
  by (simp add: ExtractPayload_def)

lemma calldata_payloads:
  "list_all (readable abi cfg winner) txs \<Longrightarrow>
   DataFromEVMTransactions abi cfg winner txs = Ok (concat (map (payloads_of_tx abi cfg winner) txs))"
proof (induction txs)
  case (Cons t txs)
  obtain tx rcp where t: "t = (tx, rcp)" by (cases t)
  show ?case using Cons
    by (auto simp: t readable_def payloads_of_tx_def calldata_of_def valid_submitted ExtractPayload_ok split: option.splits)
qed simp

section \<open>Reading a source to its end\<close>

text \<open>\<open>n\<close> calls, or fewer if one gives an error.\<close>

fun pull :: "('s \<Rightarrow> ('s, 'a) call res) \<Rightarrow> nat \<Rightarrow> 's \<Rightarrow> ('a list \<times> derive_error option) res" where
  "pull f 0 s = Ok ([], None)"
| "pull f (Suc n) s = bind_res (f s) (\<lambda>(s, r).
     case r of
       Inl e \<Rightarrow> Ok ([], Some e)
     | Inr a \<Rightarrow> bind_res (pull f n s) (\<lambda>(out, e). Ok (a # out, e)))"

lemma ToData_safe: "\<not> is_panic (ToData b)"
proof -
  have r: "\<not> is_panic (decode_rounds b outputLen n opos ipos out)" for outputLen n opos ipos out
    by (induction n arbitrary: opos ipos out) (auto simp: decodeFieldElement_def split: prod.splits)
  have f: "\<not> is_panic (decodeFieldElement b opos ipos out)" for opos ipos out by (simp add: decodeFieldElement_def)
  show ?thesis unfolding ToData_def Let_def
    by (auto simp: is_panic_bind f r split: prod.splits if_splits)
qed

text \<open>What the data of a blob source decode to.\<close>

definition decoded_data :: "blob_or_calldata \<Rightarrow> bytes list" where
  "decoded_data d = (case bc_calldata d of Some c \<Rightarrow> [c]
     | None \<Rightarrow> (case ToData (the (bc_blob d)) of Ok dat \<Rightarrow> [dat] | _ \<Rightarrow> []))"

definition filled :: "blob_or_calldata \<Rightarrow> bool" where
  "filled d \<longleftrightarrow> bc_calldata d \<noteq> None \<or> bc_blob d \<noteq> None"

lemma bs_take_spec:
  "list_all filled ds \<Longrightarrow>
   (concat (map decoded_data ds) = [] \<and> bs_take ds = Ok ([], Inl EOF)) \<or>
   (\<exists>d rest. bs_take ds = Ok (rest, Inr d) \<and> list_all filled rest \<and>
     concat (map decoded_data ds) = d # concat (map decoded_data rest))"
proof (induction ds)
  case (Cons d ds)
  then show ?case using ToData_safe [of "the (bc_blob d)"]
    by (auto simp: decoded_data_def filled_def split: option.splits res.splits)
qed simp

lemma bs_pull:
  assumes "list_all filled ds" "bs_data s = Some ds" "length (concat (map decoded_data ds)) < n"
  shows "pull (bs_Next abi cfg v) n s = Ok (concat (map decoded_data ds), Some EOF)"
  using assms
proof (induction n arbitrary: s ds)
  case (Suc n)
  from bs_take_spec [OF Suc.prems(1)] show ?case
  proof (elim disjE exE conjE)
    fix d rest
    assume a: "bs_take ds = Ok (rest, Inr d)" "list_all filled rest" "concat (map decoded_data ds) = d # concat (map decoded_data rest)"
    have "pull (bs_Next abi cfg v) n (s\<lparr>bs_data := Some rest\<rparr>) = Ok (concat (map decoded_data rest), Some EOF)"
      using Suc.prems(3) a by (intro Suc.IH) simp_all
    moreover have "bs_Next abi cfg v s = Ok (s\<lparr>bs_data := Some rest\<rparr>, Inr d)" using a(1) Suc.prems(2) by (simp add: bs_Next_def)
    ultimately show ?thesis using a(3) by simp
  qed (use Suc.prems in \<open>simp add: bs_Next_def\<close>)
qed simp

section \<open>The blobs of the transactions\<close>

text \<open>The transactions of a block with their blobs: the sidecar of the block is the blobs of all of them.\<close>

type_synonym tx_with_blobs = "tx_with_receipt \<times> bytes list"

definition item_of :: "inbox_abi \<Rightarrow> data_source_config \<Rightarrow> address \<Rightarrow> tx_with_blobs \<Rightarrow> blob_or_calldata list" where
  "item_of abi cfg winner t =
     (if \<not> submitted abi cfg winner (snd (fst t)) then []
      else if lt_Type (fst (fst t)) \<noteq> BlobTxType then map (\<lambda>p. \<lparr>bc_blob = None, bc_calldata = Some p\<rparr>) (calldata_of abi (fst (fst t)))
      else map (\<lambda>b. \<lparr>bc_blob = Some b, bc_calldata = None\<rparr>) (snd t))"

definition winner_data :: "inbox_abi \<Rightarrow> data_source_config \<Rightarrow> address \<Rightarrow> tx_with_blobs \<Rightarrow> bytes list" where
  "winner_data abi cfg winner t =
     (if \<not> submitted abi cfg winner (snd (fst t)) then []
      else if lt_Type (fst (fst t)) \<noteq> BlobTxType then calldata_of abi (fst (fst t))
      else List.map_filter (\<lambda>b. case ToData b of Ok dat \<Rightarrow> Some dat | _ \<Rightarrow> None) (snd t))"

lemma item_data: "concat (map decoded_data (item_of abi cfg winner t)) = winner_data abi cfg winner t" "list_all filled (item_of abi cfg winner t)"
proof -
  have "concat (map decoded_data (map (\<lambda>b. \<lparr>bc_blob = Some b, bc_calldata = None\<rparr>) bs)) =
      List.map_filter (\<lambda>b. case ToData b of Ok dat \<Rightarrow> Some dat | _ \<Rightarrow> None) bs" for bs
    by (induction bs) (auto simp: decoded_data_def map_filter_simps split: res.splits)
  moreover have "concat (map decoded_data (map (\<lambda>p. \<lparr>bc_blob = None, bc_calldata = Some p\<rparr>) ps)) = ps" for ps
    by (induction ps) (auto simp: decoded_data_def)
  ultimately show "concat (map decoded_data (item_of abi cfg winner t)) = winner_data abi cfg winner t"
    by (simp add: item_of_def winner_data_def)
  show "list_all filled (item_of abi cfg winner t)" by (auto simp: item_of_def filled_def list_all_iff)
qed

definition blobs_match :: "tx_with_blobs \<Rightarrow> bool" where
  "blobs_match t \<longleftrightarrow> length (snd t) = length (lt_BlobHashes (fst (fst t))) \<and>
     (lt_Type (fst (fst t)) = BlobTxType \<or> lt_BlobHashes (fst (fst t)) = [])"

lemma fill_calldata:
  "list_all (\<lambda>d. bc_calldata d \<noteq> None) cs \<Longrightarrow>
   fillBlobPointers (cs @ ds) bs = (case fillBlobPointers ds bs of Inl e \<Rightarrow> Inl e | Inr out \<Rightarrow> Inr (cs @ out))"
  by (induction cs) (auto split: sum.splits)

lemma fill_blobs:
  "fillBlobPointers (replicate (length bl) \<lparr>bc_blob = None, bc_calldata = None\<rparr> @ ds) (map Some bl @ bs) =
   (case fillBlobPointers ds bs of Inl e \<Rightarrow> Inl e | Inr out \<Rightarrow> Inr (map (\<lambda>b. \<lparr>bc_blob = Some b, bc_calldata = None\<rparr>) bl @ out))"
  by (induction bl) (auto split: sum.splits)

lemma item_pair:
  "item_of abi cfg winner ((tx, rcp), bl) =
     (if \<not> submitted abi cfg winner rcp then []
      else if lt_Type tx \<noteq> BlobTxType then map (\<lambda>p. \<lparr>bc_blob = None, bc_calldata = Some p\<rparr>) (calldata_of abi tx)
      else map (\<lambda>b. \<lparr>bc_blob = Some b, bc_calldata = None\<rparr>) bl)"
  by (simp add: item_of_def)

lemma items_filled:
  assumes "list_all (readable abi cfg winner \<circ> fst) ts" "list_all blobs_match ts"
    and "sidecar = pre @ concat (map snd ts)" "length sidecar < 2 ^ 64"
  shows "\<exists>dat hashes. dataAndHashesFromTxs abi cfg winner (of_nat (length pre)) (map fst ts) = Ok (dat, hashes) \<and>
    list_all (\<lambda>(i, h). unat i < length sidecar) hashes \<and> (hashes = [] \<longrightarrow> dat = concat (map (item_of abi cfg winner) ts)) \<and>
    fillBlobPointers dat (map (\<lambda>(i, h). Some (sidecar ! unat i)) hashes) = Inr (concat (map (item_of abi cfg winner) ts))"
  using assms
proof (induction ts arbitrary: pre)
  case (Cons t ts)
  obtain tx rcp bl where t: "t = ((tx, rcp), bl)" by (metis prod.exhaust)
  have side: "sidecar = (pre @ bl) @ concat (map snd ts)" using Cons.prems(3) by (simp add: t)
  obtain dat hashes where r: "dataAndHashesFromTxs abi cfg winner (of_nat (length (pre @ bl))) (map fst ts) = Ok (dat, hashes)"
    "list_all (\<lambda>(i, h). unat i < length sidecar) hashes" "hashes = [] \<longrightarrow> dat = concat (map (item_of abi cfg winner) ts)"
    "fillBlobPointers dat (map (\<lambda>(i, h). Some (sidecar ! unat i)) hashes) = Inr (concat (map (item_of abi cfg winner) ts))"
    using Cons.IH [OF _ _ side Cons.prems(4)] Cons.prems(1,2) by auto
  have bl: "length bl = length (lt_BlobHashes tx)" "lt_Type tx = BlobTxType \<or> bl = []" using Cons.prems(2) by (auto simp: t blobs_match_def)
  have v: "isValidBatchTx abi winner cfg (rp_Logs rcp) = Ok (submitted abi cfg winner rcp)"
    using Cons.prems(1) by (simp add: t readable_def valid_submitted)
  have nx: "of_nat (length pre) + of_nat (length (lt_BlobHashes tx)) = (of_nat (length (pre @ bl)) :: u64)" using bl(1) by simp
  show ?case
  proof (cases "submitted abi cfg winner rcp")
    case False
    then show ?thesis using r by (simp add: t v nx item_pair del: of_nat_add length_append)
  next
    case sub: True
    show ?thesis
    proof (cases "lt_Type tx = BlobTxType")
      case False
      then have "bl = []" using bl(2) by simp
      then show ?thesis using r False sub Cons.prems(1)
        by (cases "ia_Unpack abi (drop 4 (lt_Data tx))")
          (simp_all add: t v readable_def ExtractPayload_ok item_pair calldata_of_def)
    next
      case True
      define hs where "hs = map (\<lambda>i. (of_nat (length pre) + of_nat i :: u64, lt_BlobHashes tx ! i)) [0..<length bl]"
      have u: "unat (of_nat (length pre) + of_nat i :: u64) = length pre + i" if "i < length bl" for i
      proof -
        have "length pre + i < 2 ^ 64" using that Cons.prems(4) side by simp
        then have "unat (of_nat (length pre + i) :: u64) = length pre + i" by (simp add: unat_of_nat del: of_nat_add)
        then show ?thesis by (simp only: of_nat_add)
      qed
      have "map (\<lambda>(i, h). Some (sidecar ! unat i)) hs = map Some bl"
        by (rule nth_equalityI) (simp_all add: hs_def u side nth_append)
      moreover have "list_all (\<lambda>(i, h). unat i < length sidecar) hs"
        using side by (auto simp: hs_def u list_all_iff)
      moreover have "dataAndHashesFromTxs abi cfg winner (of_nat (length pre)) (map fst (t # ts)) =
          Ok (replicate (length bl) \<lparr>bc_blob = None, bc_calldata = None\<rparr> @ dat, hs @ hashes)"
        using r(1) True sub unfolding length_append of_nat_add by (simp add: t v bl(1) [symmetric] hs_def Let_def)
      moreover have "hs @ hashes = [] \<longrightarrow> bl = []" by (auto simp: hs_def)
      moreover have "concat (map (item_of abi cfg winner) (t # ts)) =
          map (\<lambda>b. \<lparr>bc_blob = Some b, bc_calldata = None\<rparr>) bl @ concat (map (item_of abi cfg winner) ts)"
        using True sub by (simp add: t item_pair)
      ultimately show ?thesis using r(2-4) by (intro exI conjI) (assumption | auto simp: fill_blobs)+
    qed
  qed
qed simp

section \<open>The data of a block\<close>

text \<open>\<open>GetBlobs\<close> gives the blobs of the block's sidecar at the indices it is asked for.\<close>

definition serves :: "l1_view \<Rightarrow> l1_block_ref \<Rightarrow> tx_with_blobs list \<Rightarrow> bool" where
  "serves v ref ts \<longleftrightarrow> v_Txs v (l1_hash ref) = Fetched (map (fst \<circ> fst) ts) \<and>
     v_Receipts v (l1_hash ref) = Fetched (map (snd \<circ> fst) ts) \<and> list_all blobs_match ts \<and>
     length (concat (map snd ts)) < 2 ^ 64 \<and>
     (\<forall>hashes. list_all (\<lambda>(i, h). unat i < length (concat (map snd ts))) hashes \<longrightarrow>
        v_Blobs v ref hashes = Fetched (map (\<lambda>(i, h). Some (concat (map snd ts) ! unat i)) hashes))"

lemma fetched_txs: "serves v ref ts \<Longrightarrow> fetch_txs source v (l1_hash ref) = Ok (Inr (map fst ts))"
  by (simp add: serves_def fetch_txs_def txs_with_receipts_def zip_map_fst_snd [of "map fst ts", simplified])

lemma opened:
  assumes "serves v ref ts" "v_Winner v (l1_time ref) = w" "w \<noteq> zero_winner"
    "list_all (readable abi cfg (win_addr w) \<circ> fst) ts"
  shows "bs_open abi cfg v (NewBlobDataSource ref) = Ok (Inr (concat (map (item_of abi cfg (win_addr w)) ts)))"
proof -
  have "list_all blobs_match ts" "length (concat (map snd ts)) < 2 ^ 64" using assms(1) by (simp_all add: serves_def)
  from items_filled [OF assms(4) this(1) _ this(2), of "[]"]
  obtain dat hashes where r: "dataAndHashesFromTxs abi cfg (win_addr w) 0 (map fst ts) = Ok (dat, hashes)"
    "list_all (\<lambda>(i, h). unat i < length (concat (map snd ts))) hashes"
    "hashes = [] \<longrightarrow> dat = concat (map (item_of abi cfg (win_addr w)) ts)"
    "fillBlobPointers dat (map (\<lambda>(i, h). Some (concat (map snd ts) ! unat i)) hashes) = Inr (concat (map (item_of abi cfg (win_addr w)) ts))"
    by auto
  have "v_Blobs v ref hashes = Fetched (map (\<lambda>(i, h). Some (concat (map snd ts) ! unat i)) hashes)"
    using assms(1) r(2) by (simp add: serves_def)
  then show ?thesis using r assms(2,3)
    by (simp add: bs_open_def NewBlobDataSource_def fetched_txs [OF assms(1)])
qed

lemma bs_Next_opened:
  "bs_data s = None \<Longrightarrow> bs_open abi cfg v s = Ok (Inr dat) \<Longrightarrow> bs_Next abi cfg v s = bs_Next abi cfg v (s\<lparr>bs_data := Some dat\<rparr>)"
  by (simp add: bs_Next_def)

lemma pull_first: "f s = f s' \<Longrightarrow> pull f (Suc n) s = pull f (Suc n) s'"
  by simp

lemma iter_pull: "pull (iter_Next abi cfg v) n (BlobIter s) = pull (bs_Next abi cfg v) n s"
proof (induction n arbitrary: s)
  case (Suc n)
  show ?case by (cases "bs_Next abi cfg v s") (auto simp: Suc split: sum.splits)
qed simp


section \<open>A sample\<close>

text \<open>An inbox, its winner, and a block with a blob transaction of somebody else, a call of the winner
  and a blob transaction of the winner. The arguments of \<open>submitCalldata\<close> are a time, the offset of the
  data, its length and the data.\<close>

definition sample_abi :: inbox_abi where
  "sample_abi = \<lparr>ia_BatchSubmitted = 77,
     ia_Unpack = (\<lambda>bs. let n = be_decode (take 32 (drop 64 bs)) in
        if 96 + n \<le> length bs then Some (take n (drop 96 bs)) else None)\<rparr>"

definition sample_inbox :: data_source_config where "sample_inbox = \<lparr>ds_batchInboxAddress = 5\<rparr>"

definition sample_receipt :: "address \<Rightarrow> receipt" where
  "sample_receipt sender = \<lparr>rp_Status = 1, rp_Logs = [\<lparr>lg_Address = 5, lg_Topics = [77, ucast sender], lg_Data = [],
     lg_BlockHash = 0, lg_Index = 0\<rparr>]\<rparr>"

definition sample_calldata :: bytes where
  "sample_calldata = [1, 2, 3, 4] @ be_encode 32 12 @ be_encode 32 64 @ be_encode 32 2 @ [8, 9]"

definition sample_blob :: bytes where "sample_blob = (case FromData [0, 42] of Ok b \<Rightarrow> b | _ \<Rightarrow> [])"

definition sample_txs :: "tx_with_blobs list" where
  "sample_txs =
     [((\<lparr>lt_Type = 3, lt_Data = [], lt_BlobHashes = [11]\<rparr>, sample_receipt 30), [replicate BlobSize 0]),
      ((\<lparr>lt_Type = 2, lt_Data = sample_calldata, lt_BlobHashes = []\<rparr>, sample_receipt 31), []),
      ((\<lparr>lt_Type = 3, lt_Data = [], lt_BlobHashes = [12]\<rparr>, sample_receipt 31), [sample_blob])]"

definition sample_view :: l1_view where
  "sample_view = \<lparr>v_Txs = (\<lambda>_. Fetched (map (fst \<circ> fst) sample_txs)), v_Receipts = (\<lambda>_. Fetched (map (snd \<circ> fst) sample_txs)),
     v_Blobs = (\<lambda>_ hashes. Fetched (map (\<lambda>(i, h). Some (concat (map snd sample_txs) ! unat i)) hashes)),
     v_Winner = (\<lambda>t. \<lparr>win_addr = 31, win_time = t\<rparr>)\<rparr>"

definition sample_ref :: l1_block_ref where "sample_ref = \<lparr>l1_hash = 1, l1_number = 100, l1_parentHash = 2, l1_time = 12\<rparr>"

lemma sample_blob_decodes: "ToData sample_blob = Ok [0, 42]" "length sample_blob = BlobSize"
  using blob_roundtrip [of "[0, 42]"] by (auto simp: sample_blob_def MaxBlobDataSize_def)

lemma sample_submitted: "submitted sample_abi sample_inbox w (sample_receipt a) \<longleftrightarrow> w = a"
proof -
  have "ucast (ucast a :: hash) = a" by (simp add: ucast_down_ucast_id is_down)
  then show ?thesis by (auto simp: submitted_def sample_receipt_def sample_abi_def sample_inbox_def addressFromTopic_def)
qed

lemma sample_unpack: "calldata_of sample_abi \<lparr>lt_Type = 2, lt_Data = sample_calldata, lt_BlobHashes = []\<rparr> = [[8, 9]]"
proof -
  have "be_decode (be_encode 32 2) = 2" unfolding be_decode_encode by simp
  then show ?thesis by (simp add: calldata_of_def sample_abi_def sample_calldata_def Let_def del: be_encode_numeral)
qed


section \<open>What the sources do not promise\<close>

text \<open>Every call of the calldata source reads the block again and gives its first datum again: a
  source with a datum never comes to its end, so the stage that reads it stays at this block.\<close>

lemma cs_Next_Inr:
  "cs_Next abi cfg v ds = Ok (ds', Inr d) \<longleftrightarrow> win_addr (v_Winner v (l1_time (cs_ref ds))) \<noteq> 0 \<and>
   (\<exists>txs rest. fetch_txs ''calldata'' v (l1_hash (cs_ref ds)) = Ok (Inr txs) \<and>
     DataFromEVMTransactions abi cfg (win_addr (v_Winner v (l1_time (cs_ref ds)))) txs = Ok (d # rest) \<and> ds' = ds\<lparr>cs_data := rest\<rparr>)"
proof (cases "fetch_txs ''calldata'' v (l1_hash (cs_ref ds))")
  case (Ok r)
  show ?thesis
  proof (cases r)
    case (Inr txs)
    show ?thesis
    proof (cases "DataFromEVMTransactions abi cfg (win_addr (v_Winner v (l1_time (cs_ref ds)))) txs")
      case (Ok dat)
      then show ?thesis using \<open>fetch_txs _ _ _ = _\<close> Inr by (cases dat) (auto simp: cs_Next_def Let_def)
    qed (auto simp: cs_Next_def Let_def Ok Inr)
  qed (auto simp: cs_Next_def Let_def Ok)
qed (auto simp: cs_Next_def Let_def)

lemma cs_Next_again:
  assumes "cs_Next abi cfg v ds = Ok (ds', Inr d)"
  shows "cs_Next abi cfg v ds' = Ok (ds', Inr d)"
  using assms by (auto simp: cs_Next_Inr)

lemma calldata_never_ends:
  assumes "cs_Next abi cfg v ds = Ok (ds', Inr d)" "lr_datas l1r = Some (CalldataIter ds)"
  shows "pull (lr_NextData opn abi cfg v nx) n l1r = Ok (replicate n d, None)"
  using assms
proof (induction n arbitrary: l1r ds)
  case (Suc n)
  have "lr_NextData opn abi cfg v nx l1r = Ok (l1r\<lparr>lr_datas := Some (CalldataIter ds')\<rparr>, Inr d)"
    using Suc.prems by (simp add: lr_NextData_def)
  then show ?case using Suc.IH [OF cs_Next_again [OF Suc.prems(1)]] by simp
qed simp

text \<open>A transaction that the inbox records without a selector in its own calldata, a call through
  another contract, makes the source panic.\<close>

lemma short_calldata_panics:
  assumes "v_Winner v (l1_time ref) = w" "w \<noteq> zero_winner" "serves v ref (((tx, rcp), []) # ts)"
    "inbox_ok cfg rcp" "submitted abi cfg (win_addr w) rcp" "lt_Type tx \<noteq> BlobTxType" "length (lt_Data tx) < 4"
  shows "is_panic (bs_Next abi cfg v (NewBlobDataSource ref))"
proof -
  have "dataAndHashesFromTxs abi cfg (win_addr w) 0 (map fst (((tx, rcp), []) # ts)) = Panic ''slice bounds out of range''"
    using assms(4-7) by (simp add: valid_submitted ExtractPayload_def)
  then show ?thesis using assms(1,2) fetched_txs [OF assms(3)] by (simp add: bs_Next_def bs_open_def NewBlobDataSource_def)
qed

end
