(* ===== verification/SolAbi.thy ===== *)
theory SolAbi
  imports BinCodec Eth
begin

text \<open>
  The readers and writers of Solidity ABI words, after \<open>op-service/solabi/util.go\<close>, each pair with its
  round trip in front of other bytes as an instance of the locale \<open>codec\<close>. Integers of any size are
  natural numbers.
\<close>

section \<open>Reading\<close>

definition ReadSignature :: "bytes parser" where "ReadSignature = read_full 4"

definition ReadAndValidateSignature :: "bytes \<Rightarrow> bytes parser" where
  "ReadAndValidateSignature expected bs =
     bind_res (read_full 4 bs) (\<lambda>(sig, rest).
     guard_err (sig = expected) ''invalid function signature'' (Ok (sig, rest)))"

definition ReadHashWord :: "hash parser" where "ReadHashWord = map_parser BytesToHash (read_full 32)"

definition ReadEthBytes32 :: "bytes parser" where "ReadEthBytes32 = read_full 32"

definition ReadAddressNoPadding :: "address parser" where "ReadAddressNoPadding = map_parser BytesToAddress (read_full 20)"

definition ReadAddress :: "address parser" where
  "ReadAddress bs =
     bind_res (read_full 12 bs) (\<lambda>(padding, rest).
     guard_err (padding = replicate 12 0) ''address padding was not empty'' (ReadAddressNoPadding rest))"

definition ReadUint64 :: "u64 parser" where
  "ReadUint64 bs =
     bind_res (read_full 24 bs) (\<lambda>(padding, rest).
     guard_err (padding = replicate 24 0) ''number padding was not empty''
       (wrap_err (\<lambda>_. ''expected number length to be 8 bytes'') (read_uint64 rest)))"

definition ReadUint256 :: "nat parser" where "ReadUint256 = map_parser be_decode (read_full 32)"

definition EmptyReader :: "bytes \<Rightarrow> bool" where "EmptyReader rest \<longleftrightarrow> rest = []"

section \<open>Writing\<close>

definition WriteSignature :: "bytes \<Rightarrow> bytes" where "WriteSignature sig = sig"
definition WriteHash :: "hash \<Rightarrow> bytes" where "WriteHash h = hash_bytes h"
definition WriteEthBytes32 :: "bytes \<Rightarrow> bytes" where "WriteEthBytes32 b = b"
definition WriteAddress :: "address \<Rightarrow> bytes" where "WriteAddress a = replicate 12 0 @ address_bytes a"
definition WriteAddressNoPadding :: "address \<Rightarrow> bytes" where "WriteAddressNoPadding a = address_bytes a"
definition WriteUint64 :: "u64 \<Rightarrow> bytes" where "WriteUint64 n = replicate 24 0 @ be64 n"

definition word256 :: "nat \<Rightarrow> bytes" where "word256 n = be_encode 32 n"

definition WriteUint256 :: "nat \<Rightarrow> bytes res" where
  "WriteUint256 n = guard_err (bits_len n \<le> 256) ''big int exceeds 256 bits'' (Ok (word256 n))"

section \<open>Round trips\<close>

lemma bits_len_iff_less: "bits_len n \<le> d \<longleftrightarrow> n < 2 ^ d"
proof (cases "n = 0")
  case False
  then obtain k where k: "bits_len n = Suc k" by (cases "bits_len n") auto
  then have "2 ^ k \<le> n" "n < 2 ^ Suc k" by (simp_all add: bits_len_iff)
  then show ?thesis using k bits_len_less [of n d] False
    by (metis Suc_leI leI le_less_trans not_less_eq_eq power_increasing_iff one_less_numeral_iff semiring_norm(76) order.strict_trans1 nat_power_less_imp_less numeral_2_eq_2 zero_less_Suc)
qed simp

lemma WriteUint256_Ok: "WriteUint256 n = Ok bs \<longleftrightarrow> n < 2 ^ 256 \<and> bs = word256 n"
  by (auto simp: WriteUint256_def guard_err_Ok bits_len_iff_less)

lemma length_word256 [simp]: "length (word256 n) = 32"
  unfolding word256_def by (rule length_be_encode)

lemma be_decode_word256: "n < 2 ^ 256 \<Longrightarrow> be_decode (word256 n) = n"
  unfolding word256_def be_decode_encode by simp

lemma map_read: "length xs = n \<Longrightarrow> map_parser f (read_full n) (xs @ rest) = Ok (f xs, rest)"
  by (simp add: map_parser_def read_full_append)

interpretation sol_hash: codec WriteHash ReadHashWord "\<lambda>_. True"
  by unfold_locales (simp add: WriteHash_def ReadHashWord_def map_read hash_bytes_length hash_roundtrip)

interpretation sol_bytes32: codec WriteEthBytes32 ReadEthBytes32 "\<lambda>b. length b = 32"
  by unfold_locales (simp add: WriteEthBytes32_def ReadEthBytes32_def read_full_append)

interpretation sol_short_address: codec WriteAddressNoPadding ReadAddressNoPadding "\<lambda>_. True"
  by unfold_locales (simp add: WriteAddressNoPadding_def ReadAddressNoPadding_def map_read address_bytes_length address_roundtrip)

interpretation sol_address: codec WriteAddress ReadAddress "\<lambda>_. True"
proof unfold_locales
  fix a rest
  show "ReadAddress (WriteAddress a @ rest) = Ok (a, rest)"
    using sol_short_address.dec_enc [of a rest] read_full_append [of "replicate 12 0" 12 "address_bytes a @ rest"]
    by (simp add: ReadAddress_def WriteAddress_def WriteAddressNoPadding_def)
qed

interpretation sol_uint64: codec WriteUint64 ReadUint64 "\<lambda>_. True"
proof unfold_locales
  fix n rest
  show "ReadUint64 (WriteUint64 n @ rest) = Ok (n, rest)"
    using uint64.dec_enc [of n rest] read_full_append [of "replicate 24 0" 24 "be64 n @ rest"]
    by (simp add: ReadUint64_def WriteUint64_def)
qed

interpretation sol_uint256: codec word256 ReadUint256 "\<lambda>n. n < 2 ^ 256"
  by unfold_locales (simp add: ReadUint256_def map_read be_decode_word256)

lemma signature_read: "length sig = 4 \<Longrightarrow> ReadAndValidateSignature sig (WriteSignature sig @ rest) = Ok (sig, rest)"
  by (simp add: ReadAndValidateSignature_def WriteSignature_def read_full_append)

lemma word_lengths [simp]:
  "length (WriteHash h) = 32" "length (WriteAddress a) = 32" "length (WriteAddressNoPadding a) = 20" "length (WriteUint64 n) = 32"
  by (simp_all add: WriteHash_def hash_bytes_length WriteAddress_def WriteAddressNoPadding_def address_bytes_length WriteUint64_def)

end
