(* ===== verification/DeriveL1Info.thy ===== *)
theory DeriveL1Info
  imports SolAbi RollupConfig
begin

text \<open>
  The deposit transaction that carries the L1 attributes into an L2 block, with the winner of the
  election, after \<open>op-node/rollup/derive/l1_block_info.go\<close>; the source hashes of deposits,
  \<open>deposit_source.go\<close>; and the system configuration with its versioned scalar, \<open>op-service/eth/types.go\<close>.
  \<open>kk\<close> is Keccak. An error drops the partially read record, which no caller looks at.
\<close>

section \<open>The system configuration\<close>

record system_config =
  sy_Overhead :: bytes
  sy_Scalar :: bytes
  sy_GasLimit :: u64

record ecotone_scalars =
  ec_BlobBaseFeeScalar :: u32
  ec_BaseFeeScalar :: u32

definition L1ScalarBedrock :: byte where "L1ScalarBedrock = 0"
definition L1ScalarEcotone :: byte where "L1ScalarEcotone = 1"

definition ErrBedrockScalarPaddingNotEmpty :: string where
  "ErrBedrockScalarPaddingNotEmpty = ''version 0 scalar value has non-empty padding''"

definition slice :: "nat \<Rightarrow> nat \<Rightarrow> bytes \<Rightarrow> bytes" where
  "slice a b bs = take (b - a) (drop a bs)"

definition CheckEcotoneL1SystemConfigScalar :: "bytes \<Rightarrow> unit res" where
  "CheckEcotoneL1SystemConfigScalar scalar =
     (if scalar ! 0 = L1ScalarBedrock then
        guard_err (slice 1 28 scalar = replicate 27 0) ErrBedrockScalarPaddingNotEmpty (Ok ())
      else if scalar ! 0 = L1ScalarEcotone then
        guard_err (slice 1 24 scalar = replicate 23 0) ''invalid version 1 scalar padding'' (Ok ())
      else Err ''unrecognized scalar version'')"

definition DecodeScalar :: "bytes \<Rightarrow> ecotone_scalars res" where
  "DecodeScalar scalar =
     (if scalar ! 0 = L1ScalarBedrock then
        Ok \<lparr>ec_BlobBaseFeeScalar = 0, ec_BaseFeeScalar = un32 (slice 28 32 scalar)\<rparr>
      else if scalar ! 0 = L1ScalarEcotone then
        Ok \<lparr>ec_BlobBaseFeeScalar = un32 (slice 24 28 scalar), ec_BaseFeeScalar = un32 (slice 28 32 scalar)\<rparr>
      else Err ''unexpected system config scalar'')"

definition EncodeScalar :: "ecotone_scalars \<Rightarrow> bytes" where
  "EncodeScalar s = [L1ScalarEcotone] @ replicate 23 0 @ be32 (ec_BlobBaseFeeScalar s) @ be32 (ec_BaseFeeScalar s)"

definition EcotoneScalars :: "system_config \<Rightarrow> ecotone_scalars res" where
  "EcotoneScalars sysCfg =
     (case CheckEcotoneL1SystemConfigScalar (sy_Scalar sysCfg) of
        Ok _ \<Rightarrow> DecodeScalar (sy_Scalar sysCfg)
      | Err e \<Rightarrow>
          if e = ErrBedrockScalarPaddingNotEmpty then Ok \<lparr>ec_BlobBaseFeeScalar = 0, ec_BaseFeeScalar = - 1\<rparr>
          else Err e
      | Panic e \<Rightarrow> Panic e)"

section \<open>Selectors\<close>

definition ascii :: "string \<Rightarrow> bytes" where "ascii s = map of_char s"

definition selector :: "(bytes \<Rightarrow> hash) \<Rightarrow> string \<Rightarrow> bytes" where
  "selector kk s = take 4 (hash_bytes (kk (ascii s)))"

definition L1InfoFuncBedrockBytes4 :: "(bytes \<Rightarrow> hash) \<Rightarrow> bytes" where
  "L1InfoFuncBedrockBytes4 kk = selector kk ''setL1BlockValues(uint64,uint64,uint256,bytes32,uint64,bytes32,uint256,uint256,address)''"
definition L1InfoFuncEcotoneBytes4 :: "(bytes \<Rightarrow> hash) \<Rightarrow> bytes" where
  "L1InfoFuncEcotoneBytes4 kk = selector kk ''setL1BlockValuesEcotone()''"
definition L1InfoFuncIsthmusBytes4 :: "(bytes \<Rightarrow> hash) \<Rightarrow> bytes" where
  "L1InfoFuncIsthmusBytes4 kk = selector kk ''setL1BlockValuesIsthmus()''"
definition DepositsCompleteBytes4 :: "(bytes \<Rightarrow> hash) \<Rightarrow> bytes" where
  "DepositsCompleteBytes4 kk = selector kk ''depositsComplete()''"

definition L1InfoBedrockLen :: nat where "L1InfoBedrockLen = 4 + 32 * 8"
definition L1InfoEcotoneLen :: nat where "L1InfoEcotoneLen = 4 + 32 * 4 + 20"

section \<open>The attributes of an L1 block\<close>

record l1_block_info =
  li_Number :: u64
  li_Time :: u64
  li_BaseFee :: nat
  li_BlockHash :: hash
  li_SequenceNumber :: u64
  li_L1FeeOverhead :: bytes
  li_L1FeeScalar :: bytes
  li_BlobBaseFee :: "nat option"
  li_BaseFeeScalar :: u32
  li_BlobBaseFeeScalar :: u32
  li_L1ElectionWinner :: address

definition zero_info :: l1_block_info where
  "zero_info = \<lparr>li_Number = 0, li_Time = 0, li_BaseFee = 0, li_BlockHash = 0, li_SequenceNumber = 0,
     li_L1FeeOverhead = replicate 32 0, li_L1FeeScalar = replicate 32 0, li_BlobBaseFee = None, li_BaseFeeScalar = 0,
     li_BlobBaseFeeScalar = 0, li_L1ElectionWinner = 0\<rparr>"

definition marshalBinaryBedrock :: "(bytes \<Rightarrow> hash) \<Rightarrow> l1_block_info \<Rightarrow> bytes res" where
  "marshalBinaryBedrock kk info =
     bind_res (WriteUint256 (li_BaseFee info)) (\<lambda>baseFee.
     Ok (WriteSignature (L1InfoFuncBedrockBytes4 kk) @ WriteUint64 (li_Number info) @ WriteUint64 (li_Time info) @ baseFee @
         WriteHash (li_BlockHash info) @ WriteUint64 (li_SequenceNumber info) @ WriteEthBytes32 (li_L1FeeOverhead info) @
         WriteEthBytes32 (li_L1FeeScalar info) @ WriteAddress (li_L1ElectionWinner info)))"

definition unmarshalBinaryBedrock :: "(bytes \<Rightarrow> hash) \<Rightarrow> bytes \<Rightarrow> l1_block_info res" where
  "unmarshalBinaryBedrock kk dat =
     guard_err (length dat = L1InfoBedrockLen) ''data is unexpected length''
     (bind_res (ReadAndValidateSignature (L1InfoFuncBedrockBytes4 kk) dat) (\<lambda>(_, r).
      bind_res (ReadUint64 r) (\<lambda>(number, r).
      bind_res (ReadUint64 r) (\<lambda>(time, r).
      bind_res (ReadUint256 r) (\<lambda>(baseFee, r).
      bind_res (ReadHashWord r) (\<lambda>(blockHash, r).
      bind_res (ReadUint64 r) (\<lambda>(sequenceNumber, r).
      bind_res (ReadEthBytes32 r) (\<lambda>(overhead, r).
      bind_res (ReadEthBytes32 r) (\<lambda>(scalar, r).
      bind_res (ReadAddress r) (\<lambda>(winner, r).
      guard_err (EmptyReader r) ''too many bytes''
        (Ok (zero_info\<lparr>li_Number := number, li_Time := time, li_BaseFee := baseFee, li_BlockHash := blockHash,
           li_SequenceNumber := sequenceNumber, li_L1FeeOverhead := overhead, li_L1FeeScalar := scalar,
           li_L1ElectionWinner := winner\<rparr>))))))))))))"

definition marshalBinaryWithSignature :: "bytes \<Rightarrow> l1_block_info \<Rightarrow> bytes res" where
  "marshalBinaryWithSignature signature info =
     bind_res (WriteUint256 (li_BaseFee info)) (\<lambda>baseFee.
     bind_res (WriteUint256 (case li_BlobBaseFee info of None \<Rightarrow> 1 | Some f \<Rightarrow> f)) (\<lambda>blobBaseFee.
     Ok (WriteSignature signature @ be32 (li_BaseFeeScalar info) @ be32 (li_BlobBaseFeeScalar info) @ be64 (li_SequenceNumber info) @
         be64 (li_Time info) @ be64 (li_Number info) @ baseFee @ blobBaseFee @ WriteHash (li_BlockHash info) @
         WriteAddressNoPadding (li_L1ElectionWinner info))))"

definition marshalBinaryEcotone :: "(bytes \<Rightarrow> hash) \<Rightarrow> l1_block_info \<Rightarrow> bytes res" where
  "marshalBinaryEcotone kk info =
     wrap_err (\<lambda>e. ''failed to marshal Ecotone l1 block info: '' @ e) (marshalBinaryWithSignature (L1InfoFuncEcotoneBytes4 kk) info)"

definition marshalBinaryIsthmus :: "(bytes \<Rightarrow> hash) \<Rightarrow> l1_block_info \<Rightarrow> bytes res" where
  "marshalBinaryIsthmus kk info =
     wrap_err (\<lambda>e. ''failed to marshal Isthmus l1 block info: '' @ e) (marshalBinaryWithSignature (L1InfoFuncIsthmusBytes4 kk) info)"

definition ErrInvalidFormat :: string where "ErrInvalidFormat = ''invalid ecotone l1 block info format''"

definition unmarshalBinaryWithSignatureAndData :: "bytes \<Rightarrow> bytes \<Rightarrow> l1_block_info res" where
  "unmarshalBinaryWithSignatureAndData signature dat =
     guard_err (length dat = L1InfoEcotoneLen) ''data is unexpected length''
     (bind_res (ReadAndValidateSignature signature dat) (\<lambda>(_, r).
      bind_res (wrap_err (\<lambda>_. ErrInvalidFormat) (read_uint32 r)) (\<lambda>(baseFeeScalar, r).
      bind_res (wrap_err (\<lambda>_. ErrInvalidFormat) (read_uint32 r)) (\<lambda>(blobBaseFeeScalar, r).
      bind_res (wrap_err (\<lambda>_. ErrInvalidFormat) (read_uint64 r)) (\<lambda>(sequenceNumber, r).
      bind_res (wrap_err (\<lambda>_. ErrInvalidFormat) (read_uint64 r)) (\<lambda>(time, r).
      bind_res (wrap_err (\<lambda>_. ErrInvalidFormat) (read_uint64 r)) (\<lambda>(number, r).
      bind_res (ReadUint256 r) (\<lambda>(baseFee, r).
      bind_res (ReadUint256 r) (\<lambda>(blobBaseFee, r).
      bind_res (ReadHashWord r) (\<lambda>(blockHash, r).
      bind_res (ReadAddressNoPadding r) (\<lambda>(winner, r).
      guard_err (EmptyReader r) ''too many bytes''
        (Ok (zero_info\<lparr>li_BaseFeeScalar := baseFeeScalar, li_BlobBaseFeeScalar := blobBaseFeeScalar,
           li_SequenceNumber := sequenceNumber, li_Time := time, li_Number := number, li_BaseFee := baseFee,
           li_BlobBaseFee := Some blobBaseFee, li_BlockHash := blockHash, li_L1ElectionWinner := winner\<rparr>)))))))))))))"

definition unmarshalBinaryEcotone :: "(bytes \<Rightarrow> hash) \<Rightarrow> bytes \<Rightarrow> l1_block_info res" where
  "unmarshalBinaryEcotone kk dat = unmarshalBinaryWithSignatureAndData (L1InfoFuncEcotoneBytes4 kk) dat"

definition unmarshalBinaryIsthmus :: "(bytes \<Rightarrow> hash) \<Rightarrow> bytes \<Rightarrow> l1_block_info res" where
  "unmarshalBinaryIsthmus kk dat = unmarshalBinaryWithSignatureAndData (L1InfoFuncIsthmusBytes4 kk) dat"

definition isEcotoneButNotFirstBlock :: "rollup_config \<Rightarrow> u64 \<Rightarrow> bool" where
  "isEcotoneButNotFirstBlock cfg t \<longleftrightarrow> IsEcotone cfg t \<and> \<not> IsEcotoneActivationBlock cfg t"

definition isInteropButNotFirstBlock :: "rollup_config \<Rightarrow> u64 \<Rightarrow> bool" where
  "isInteropButNotFirstBlock cfg t \<longleftrightarrow> IsInterop cfg t \<and> \<not> IsInteropActivationBlock cfg t"

definition L1BlockInfoFromBytes :: "(bytes \<Rightarrow> hash) \<Rightarrow> rollup_config \<Rightarrow> u64 \<Rightarrow> bytes \<Rightarrow> l1_block_info res" where
  "L1BlockInfoFromBytes kk cfg l2BlockTime dat =
     (if isInteropButNotFirstBlock cfg l2BlockTime then unmarshalBinaryIsthmus kk dat
      else if isEcotoneButNotFirstBlock cfg l2BlockTime then unmarshalBinaryEcotone kk dat
      else unmarshalBinaryBedrock kk dat)"

section \<open>Sources of deposits\<close>

text \<open>\<open>go-ethereum\<close> writes an address in hexadecimal with its checksum: \<open>hex\<close>.\<close>

datatype deposit_source =
    UserDepositSource hash u64
  | L1InfoDepositSource hash u64
  | UpgradeDepositSource string
  | AfterForceIncludeSource hash u64
  | BurnSource address

definition domain_hash :: "(bytes \<Rightarrow> hash) \<Rightarrow> u64 \<Rightarrow> hash \<Rightarrow> hash" where
  "domain_hash kk domain idHash = kk (replicate 24 0 @ be64 domain @ hash_bytes idHash)"

definition id_input :: "hash \<Rightarrow> u64 \<Rightarrow> bytes" where
  "id_input blockHash n = hash_bytes blockHash @ replicate 24 0 @ be64 n"

fun SourceHash :: "(bytes \<Rightarrow> hash) \<Rightarrow> (address \<Rightarrow> string) \<Rightarrow> deposit_source \<Rightarrow> hash" where
  "SourceHash kk hex (UserDepositSource blockHash logIndex) = domain_hash kk 0 (kk (id_input blockHash logIndex))"
| "SourceHash kk hex (L1InfoDepositSource blockHash seqNumber) = domain_hash kk 1 (kk (id_input blockHash seqNumber))"
| "SourceHash kk hex (UpgradeDepositSource intent) = domain_hash kk 2 (kk (ascii intent))"
| "SourceHash kk hex (AfterForceIncludeSource blockHash seqNumber) = domain_hash kk 3 (kk (id_input blockHash seqNumber))"
| "SourceHash kk hex (BurnSource winner) = domain_hash kk 4 (kk (ascii (hex winner)))"

section \<open>The deposit transactions of the protocol\<close>

record deposit_tx =
  dt_SourceHash :: hash
  dt_From :: address
  dt_To :: "address option"
  dt_Mint :: "nat option"
  dt_Value :: nat
  dt_Gas :: u64
  dt_IsSystemTransaction :: bool
  dt_Data :: bytes

definition L1InfoDepositerAddress :: address where "L1InfoDepositerAddress = 0xdeaddeaddeaddeaddeaddeaddeaddeaddead0001"
definition L1BlockAddress :: address where "L1BlockAddress = 0x4200000000000000000000000000000000000015"
definition RegolithSystemTxGas :: u64 where "RegolithSystemTxGas = 1000000"
definition DepositsCompleteGas :: u64 where "DepositsCompleteGas = 21000 + 15000"

text \<open>What is read of an L1 block's header.\<close>

record block_info =
  bi_Hash :: hash
  bi_ParentHash :: hash
  bi_Number :: u64
  bi_Time :: u64
  bi_BaseFee :: nat
  bi_BlobBaseFee :: "nat option"
  bi_MixDigest :: hash
  bi_ParentBeaconRoot :: "hash option"

definition info_of_block :: "block_info \<Rightarrow> u64 \<Rightarrow> address \<Rightarrow> l1_block_info" where
  "info_of_block block seqNumber winner = zero_info\<lparr>li_Number := bi_Number block, li_Time := bi_Time block,
     li_BaseFee := bi_BaseFee block, li_BlockHash := bi_Hash block, li_SequenceNumber := seqNumber, li_L1ElectionWinner := winner\<rparr>"

text \<open>The data of the deposit.\<close>

definition l1_info_data :: "(bytes \<Rightarrow> hash) \<Rightarrow> rollup_config \<Rightarrow> system_config \<Rightarrow> u64 \<Rightarrow> block_info \<Rightarrow> u64 \<Rightarrow> address \<Rightarrow> bytes res" where
  "l1_info_data kk cfg sysCfg seqNumber block l2Timestamp winner =
     (let info = info_of_block block seqNumber winner in
      if isEcotoneButNotFirstBlock cfg l2Timestamp then
        (let info = info\<lparr>li_BlobBaseFee := (case bi_BlobBaseFee block of None \<Rightarrow> Some 1 | Some f \<Rightarrow> Some f)\<rparr> in
         bind_res (EcotoneScalars sysCfg) (\<lambda>scalars.
         let info = info\<lparr>li_BlobBaseFeeScalar := ec_BlobBaseFeeScalar scalars, li_BaseFeeScalar := ec_BaseFeeScalar scalars\<rparr> in
         if isInteropButNotFirstBlock cfg l2Timestamp then
           wrap_err (\<lambda>e. ''failed to marshal Isthmus l1 block info: '' @ e) (marshalBinaryIsthmus kk info)
         else wrap_err (\<lambda>e. ''failed to marshal Ecotone l1 block info: '' @ e) (marshalBinaryEcotone kk info)))
      else
        wrap_err (\<lambda>e. ''failed to marshal Bedrock l1 block info: '' @ e)
          (marshalBinaryBedrock kk (info\<lparr>li_L1FeeOverhead := sy_Overhead sysCfg, li_L1FeeScalar := sy_Scalar sysCfg\<rparr>)))"

definition L1InfoDeposit ::
    "(bytes \<Rightarrow> hash) \<Rightarrow> (address \<Rightarrow> string) \<Rightarrow> rollup_config \<Rightarrow> system_config \<Rightarrow> u64 \<Rightarrow> block_info \<Rightarrow> u64 \<Rightarrow> address \<Rightarrow> deposit_tx res" where
  "L1InfoDeposit kk hex cfg sysCfg seqNumber block l2Timestamp winner =
     bind_res (l1_info_data kk cfg sysCfg seqNumber block l2Timestamp winner) (\<lambda>dat.
     let out = \<lparr>dt_SourceHash = SourceHash kk hex (L1InfoDepositSource (bi_Hash block) seqNumber), dt_From = L1InfoDepositerAddress,
       dt_To = Some L1BlockAddress, dt_Mint = None, dt_Value = 0, dt_Gas = 150000000, dt_IsSystemTransaction = True, dt_Data = dat\<rparr>
     in Ok (if IsRegolith cfg l2Timestamp then out\<lparr>dt_IsSystemTransaction := False, dt_Gas := RegolithSystemTxGas\<rparr> else out))"

definition DepositsCompleteDeposit :: "(bytes \<Rightarrow> hash) \<Rightarrow> (address \<Rightarrow> string) \<Rightarrow> u64 \<Rightarrow> block_info \<Rightarrow> deposit_tx" where
  "DepositsCompleteDeposit kk hex seqNumber block =
     \<lparr>dt_SourceHash = SourceHash kk hex (AfterForceIncludeSource (bi_Hash block) seqNumber), dt_From = L1InfoDepositerAddress,
      dt_To = Some L1BlockAddress, dt_Mint = None, dt_Value = 0, dt_Gas = DepositsCompleteGas, dt_IsSystemTransaction = False,
      dt_Data = DepositsCompleteBytes4 kk\<rparr>"

text \<open>The binary form of a deposit is go-ethereum's, \<open>enc\<close>.\<close>

definition L1InfoDepositBytes ::
    "(bytes \<Rightarrow> hash) \<Rightarrow> (address \<Rightarrow> string) \<Rightarrow> (deposit_tx \<Rightarrow> bytes res) \<Rightarrow> rollup_config \<Rightarrow> system_config \<Rightarrow> u64 \<Rightarrow> block_info \<Rightarrow> u64 \<Rightarrow> address \<Rightarrow> bytes res" where
  "L1InfoDepositBytes kk hex enc cfg sysCfg seqNumber l1Info l2Timestamp winner =
     bind_res (wrap_err (\<lambda>e. ''failed to create L1 info tx: '' @ e) (L1InfoDeposit kk hex cfg sysCfg seqNumber l1Info l2Timestamp winner)) (\<lambda>dep.
     wrap_err (\<lambda>e. ''failed to encode L1 info tx: '' @ e) (enc dep))"

definition DepositsCompleteBytes ::
    "(bytes \<Rightarrow> hash) \<Rightarrow> (address \<Rightarrow> string) \<Rightarrow> (deposit_tx \<Rightarrow> bytes res) \<Rightarrow> u64 \<Rightarrow> block_info \<Rightarrow> bytes res" where
  "DepositsCompleteBytes kk hex enc seqNumber l1Info =
     wrap_err (\<lambda>e. ''failed to encode DepositsComplete tx: '' @ e) (enc (DepositsCompleteDeposit kk hex seqNumber l1Info))"

end
