(* ===== verification/DeriveDeposits.thy ===== *)
theory DeriveDeposits
  imports DeriveL1Info DeriveData
begin

text \<open>
  Deposits and changes of the system configuration from the receipts of an L1 block, after
  \<open>deposit_log.go\<close>, \<open>deposits.go\<close> and \<open>system_config.go\<close> of \<open>op-node/rollup/derive\<close>; the transaction
  that burns the tickets of an election winner, \<open>burn.go\<close>; and the deposits of the network upgrades,
  \<open>ecotone_upgrade_transactions.go\<close> and \<open>fjord_upgrade_transactions.go\<close>. The binary form of a deposit is
  go-ethereum's, \<open>enc\<close>, and \<open>hex\<close> is its checksummed text form of an address. The compiled contracts that
  the upgrades deploy are the parameter \<open>upgrade_code\<close>.
\<close>

section \<open>The log of a deposit\<close>

definition DepositEventABIHash :: "(bytes \<Rightarrow> hash) \<Rightarrow> hash" where
  "DepositEventABIHash kk = kk (ascii ''TransactionDeposited(address,address,uint256,bytes)'')"

definition DepositEventVersion0 :: hash where "DepositEventVersion0 = 0"

definition AddressAsLeftPaddedHash :: "address \<Rightarrow> hash" where "AddressAsLeftPaddedHash a = ucast a"

definition unmarshalDepositVersion0 :: "address \<Rightarrow> bytes \<Rightarrow> deposit_tx \<Rightarrow> deposit_tx res" where
  "unmarshalDepositVersion0 to opaqueData dep =
     guard_err (\<not> length opaqueData < 32 + 32 + 8 + 1) ''unexpected opaqueData length''
     (let mint = be_decode (slice 0 32 opaqueData);
          value = be_decode (slice 32 64 opaqueData);
          gas = be_decode (slice 64 72 opaqueData)
      in guard_err (gas < 2 ^ 64) ''bad gas value''
        (Ok (dep\<lparr>dt_Mint := (if mint = 0 then None else Some mint), dt_Value := value, dt_Gas := of_nat gas,
           dt_To := (if opaqueData ! 72 = 0 then Some to else dt_To dep), dt_Data := drop 73 opaqueData\<rparr>)))"

text \<open>The opaque data within the data of the log: an offset, a length and the padded content.\<close>

definition opaque_content :: "bytes \<Rightarrow> bytes res" where
  "opaque_content dat =
     guard_err (\<not> length dat < 64) ''incomplate opaqueData slice header''
     (guard_err (length dat mod 32 = 0) ''expected log data to be multiple of 32 bytes''
     (guard_err (be_decode (slice 0 32 dat) < 2 ^ 64 \<and> be_decode (slice 0 32 dat) = 32) ''invalid opaqueData slice header offset''
     (let opaqueContentLength = be_decode (slice 32 64 dat);
          n = (of_nat opaqueContentLength :: u64);
          remaining = (of_nat (length dat - 64) :: u64)
      in guard_err (\<not> (\<not> opaqueContentLength < 2 ^ 64 \<or> n > remaining \<or> n + 32 \<le> remaining)) ''invalid opaqueData slice header length''
        (Ok (slice 64 (64 + unat n) dat)))))"

definition zero_deposit :: deposit_tx where
  "zero_deposit = \<lparr>dt_SourceHash = 0, dt_From = 0, dt_To = None, dt_Mint = None, dt_Value = 0, dt_Gas = 0,
     dt_IsSystemTransaction = False, dt_Data = []\<rparr>"

definition UnmarshalDepositLogEvent :: "(bytes \<Rightarrow> hash) \<Rightarrow> (address \<Rightarrow> string) \<Rightarrow> log_entry \<Rightarrow> deposit_tx res" where
  "UnmarshalDepositLogEvent kk hex ev =
     guard_err (length (lg_Topics ev) = 4) ''expected 4 event topics''
     (guard_err (lg_Topics ev ! 0 = DepositEventABIHash kk) ''invalid deposit event selector''
     (let from = ucast (lg_Topics ev ! 1);
          to = ucast (lg_Topics ev ! 2);
          version = lg_Topics ev ! 3
      in bind_res (opaque_content (lg_Data ev)) (\<lambda>opaqueData.
        let dep = zero_deposit\<lparr>dt_SourceHash := SourceHash kk hex (UserDepositSource (lg_BlockHash ev) (of_nat (lg_Index ev))),
              dt_From := from, dt_IsSystemTransaction := False\<rparr>
        in guard_err (version = DepositEventVersion0) ''invalid deposit version''
          (wrap_err (\<lambda>e. ''failed to decode deposit: '' @ e) (unmarshalDepositVersion0 to opaqueData dep)))))"

definition marshalDepositVersion0 :: "deposit_tx \<Rightarrow> bytes res" where
  "marshalDepositVersion0 deposit =
     guard_err (case dt_Mint deposit of None \<Rightarrow> True | Some m \<Rightarrow> \<not> bits_len m > 256) ''mint value exceeds 256 bits''
     (guard_err (\<not> bits_len (dt_Value deposit) > 256) ''value value exceeds 256 bits''
     (Ok (be_encode 32 (case dt_Mint deposit of None \<Rightarrow> 0 | Some m \<Rightarrow> m) @ be_encode 32 (dt_Value deposit) @ be64 (dt_Gas deposit) @
          [if dt_To deposit = None then 1 else 0] @ dt_Data deposit)))"

definition pad32 :: "bytes \<Rightarrow> bytes" where
  "pad32 dat = (if length dat mod 32 \<noteq> 0 then dat @ replicate (32 - length dat mod 32) 0 else dat)"

definition MarshalDepositLogEvent :: "(bytes \<Rightarrow> hash) \<Rightarrow> address \<Rightarrow> deposit_tx \<Rightarrow> log_entry res" where
  "MarshalDepositLogEvent kk depositContractAddr deposit =
     (let toBytes = (case dt_To deposit of None \<Rightarrow> 0 | Some to \<Rightarrow> AddressAsLeftPaddedHash to);
          topics = [DepositEventABIHash kk, AddressAsLeftPaddedHash (dt_From deposit), toBytes, DepositEventVersion0]
      in bind_res (marshalDepositVersion0 deposit) (\<lambda>opaqueData.
        Ok \<lparr>lg_Address = depositContractAddr, lg_Topics = topics,
            lg_Data = pad32 (WriteUint64 32 @ WriteUint64 (of_nat (length opaqueData)) @ opaqueData),
            lg_BlockHash = 0, lg_Index = 0\<rparr>))"

section \<open>The deposits of a block\<close>

definition ReceiptStatusSuccessful :: u64 where "ReceiptStatusSuccessful = 1"

definition has_event :: "address \<Rightarrow> hash \<Rightarrow> log_entry \<Rightarrow> bool" where
  "has_event addr event l \<longleftrightarrow> lg_Address l = addr \<and> length (lg_Topics l) > 0 \<and> lg_Topics l ! 0 = event"

text \<open>The errors are collected; what is found besides them is returned too.\<close>

fun log_deposits :: "(bytes \<Rightarrow> hash) \<Rightarrow> (address \<Rightarrow> string) \<Rightarrow> address \<Rightarrow> log_entry list \<Rightarrow> (deposit_tx list \<times> string list) res" where
  "log_deposits kk hex addr [] = Ok ([], [])"
| "log_deposits kk hex addr (l # logs) =
     (if has_event addr (DepositEventABIHash kk) l then
        (case UnmarshalDepositLogEvent kk hex l of
           Panic e \<Rightarrow> Panic e
         | Err e \<Rightarrow> bind_res (log_deposits kk hex addr logs) (\<lambda>(out, errs). Ok (out, (''malformatted L1 deposit log: '' @ e) # errs))
         | Ok dep \<Rightarrow> bind_res (log_deposits kk hex addr logs) (\<lambda>(out, errs). Ok (dep # out, errs)))
      else log_deposits kk hex addr logs)"

fun UserDeposits :: "(bytes \<Rightarrow> hash) \<Rightarrow> (address \<Rightarrow> string) \<Rightarrow> address \<Rightarrow> receipt list \<Rightarrow> (deposit_tx list \<times> string list) res" where
  "UserDeposits kk hex addr [] = Ok ([], [])"
| "UserDeposits kk hex addr (rec # receipts) =
     (if rp_Status rec \<noteq> ReceiptStatusSuccessful then UserDeposits kk hex addr receipts
      else bind_res (log_deposits kk hex addr (rp_Logs rec)) (\<lambda>(out1, errs1).
        bind_res (UserDeposits kk hex addr receipts) (\<lambda>(out2, errs2). Ok (out1 @ out2, errs1 @ errs2))))"

fun encode_deposits :: "(deposit_tx \<Rightarrow> bytes res) \<Rightarrow> deposit_tx list \<Rightarrow> (bytes list \<times> string list) res" where
  "encode_deposits enc [] = Ok ([], [])"
| "encode_deposits enc (tx # txs) =
     (case enc tx of
        Panic e \<Rightarrow> Panic e
      | Err e \<Rightarrow> bind_res (encode_deposits enc txs) (\<lambda>(out, errs). Ok (out, ''failed to encode user tx'' # errs))
      | Ok opaqueTx \<Rightarrow> bind_res (encode_deposits enc txs) (\<lambda>(out, errs). Ok (opaqueTx # out, errs)))"

definition DeriveDeposits ::
    "(bytes \<Rightarrow> hash) \<Rightarrow> (address \<Rightarrow> string) \<Rightarrow> (deposit_tx \<Rightarrow> bytes res) \<Rightarrow> address \<Rightarrow> receipt list \<Rightarrow> (bytes list \<times> string list) res" where
  "DeriveDeposits kk hex enc addr receipts =
     bind_res (UserDeposits kk hex addr receipts) (\<lambda>(userDeposits, errs).
     bind_res (encode_deposits enc userDeposits) (\<lambda>(encodedTxs, errs2). Ok (encodedTxs, errs @ errs2)))"

section \<open>Changes of the system configuration\<close>

definition ConfigUpdateEventABIHash :: "(bytes \<Rightarrow> hash) \<Rightarrow> hash" where
  "ConfigUpdateEventABIHash kk = kk (ascii ''ConfigUpdate(uint256,uint8,bytes)'')"

definition ConfigUpdateEventVersion0 :: hash where "ConfigUpdateEventVersion0 = 0"
definition SystemConfigUpdateGasConfig :: hash where "SystemConfigUpdateGasConfig = 1"
definition SystemConfigUpdateGasLimit :: hash where "SystemConfigUpdateGasLimit = 2"
definition SystemConfigUpdateUnsafeBlockSigner :: hash where "SystemConfigUpdateUnsafeBlockSigner = 3"

text \<open>\<open>if x, err := ReadUint64(reader); err != nil || x != want\<close>.\<close>

definition expect_word :: "u64 \<Rightarrow> string \<Rightarrow> bytes parser" where
  "expect_word want msg bs = bind_res (wrap_err (\<lambda>_. msg) (ReadUint64 bs)) (\<lambda>(x, rest). guard_err (x = want) msg (Ok ([], rest)))"

definition update_gas_config :: "rollup_config \<Rightarrow> u64 \<Rightarrow> bytes \<Rightarrow> system_config \<Rightarrow> system_config res" where
  "update_gas_config cfg l1Time dat sysCfg =
     bind_res (expect_word 32 ''invalid pointer field'' dat) (\<lambda>(_, r).
     bind_res (expect_word 64 ''invalid length field'' r) (\<lambda>(_, r).
     bind_res (wrap_err (\<lambda>_. ''could not read overhead'') (ReadEthBytes32 r)) (\<lambda>(overhead, r).
     bind_res (wrap_err (\<lambda>_. ''could not read scalar'') (ReadEthBytes32 r)) (\<lambda>(scalar, r).
     guard_err (EmptyReader r) ''too many bytes''
       (Ok (if IsEcotone cfg l1Time then
              (case CheckEcotoneL1SystemConfigScalar scalar of
                 Ok _ \<Rightarrow> sysCfg\<lparr>sy_Scalar := scalar, sy_Overhead := replicate 32 0\<rparr>
               | _ \<Rightarrow> sysCfg)
            else sysCfg\<lparr>sy_Overhead := overhead, sy_Scalar := scalar\<rparr>))))))"

definition update_gas_limit :: "bytes \<Rightarrow> system_config \<Rightarrow> system_config res" where
  "update_gas_limit dat sysCfg =
     bind_res (expect_word 32 ''invalid pointer field'' dat) (\<lambda>(_, r).
     bind_res (expect_word 32 ''invalid length field'' r) (\<lambda>(_, r).
     bind_res (wrap_err (\<lambda>_. ''could not read gas limit'') (ReadUint64 r)) (\<lambda>(gasLimit, r).
     guard_err (EmptyReader r) ''too many bytes'' (Ok (sysCfg\<lparr>sy_GasLimit := gasLimit\<rparr>)))))"

definition ProcessSystemConfigUpdateLogEvent ::
    "(bytes \<Rightarrow> hash) \<Rightarrow> rollup_config \<Rightarrow> u64 \<Rightarrow> log_entry \<Rightarrow> system_config \<Rightarrow> system_config res" where
  "ProcessSystemConfigUpdateLogEvent kk cfg l1Time ev destSysCfg =
     guard_err (length (lg_Topics ev) = 3) ''expected 3 event topics''
     (guard_err (lg_Topics ev ! 0 = ConfigUpdateEventABIHash kk) ''invalid SystemConfig update event''
     (guard_err (lg_Topics ev ! 1 = ConfigUpdateEventVersion0) ''unrecognized SystemConfig update event version''
     (let updateType = lg_Topics ev ! 2 in
      if updateType = SystemConfigUpdateGasConfig then update_gas_config cfg l1Time (lg_Data ev) destSysCfg
      else if updateType = SystemConfigUpdateGasLimit then update_gas_limit (lg_Data ev) destSysCfg
      else if updateType = SystemConfigUpdateUnsafeBlockSigner then Ok destSysCfg
      else Err ''unrecognized L1 sysCfg update type'')))"

text \<open>An update that fails leaves the configuration as it is, and the next one is tried.\<close>

fun log_updates ::
    "(bytes \<Rightarrow> hash) \<Rightarrow> rollup_config \<Rightarrow> address \<Rightarrow> u64 \<Rightarrow> log_entry list \<Rightarrow> system_config \<Rightarrow> (system_config \<times> string list) res" where
  "log_updates kk cfg addr l1Time [] sysCfg = Ok (sysCfg, [])"
| "log_updates kk cfg addr l1Time (l # logs) sysCfg =
     (if has_event addr (ConfigUpdateEventABIHash kk) l then
        (case ProcessSystemConfigUpdateLogEvent kk cfg l1Time l sysCfg of
           Panic e \<Rightarrow> Panic e
         | Err e \<Rightarrow> bind_res (log_updates kk cfg addr l1Time logs sysCfg) (\<lambda>(s, errs). Ok (s, (''malformatted L1 system sysCfg log: '' @ e) # errs))
         | Ok s1 \<Rightarrow> log_updates kk cfg addr l1Time logs s1)
      else log_updates kk cfg addr l1Time logs sysCfg)"

fun UpdateSystemConfigWithL1Receipts ::
    "(bytes \<Rightarrow> hash) \<Rightarrow> rollup_config \<Rightarrow> address \<Rightarrow> u64 \<Rightarrow> receipt list \<Rightarrow> system_config \<Rightarrow> (system_config \<times> string list) res" where
  "UpdateSystemConfigWithL1Receipts kk cfg addr l1Time [] sysCfg = Ok (sysCfg, [])"
| "UpdateSystemConfigWithL1Receipts kk cfg addr l1Time (rec # receipts) sysCfg =
     (if rp_Status rec \<noteq> ReceiptStatusSuccessful then UpdateSystemConfigWithL1Receipts kk cfg addr l1Time receipts sysCfg
      else bind_res (log_updates kk cfg addr l1Time (rp_Logs rec) sysCfg) (\<lambda>(s1, errs1).
        bind_res (UpdateSystemConfigWithL1Receipts kk cfg addr l1Time receipts s1) (\<lambda>(s2, errs2). Ok (s2, errs1 @ errs2))))"

section \<open>The burn of the winner's tickets\<close>

definition ElectionTickets :: address where "ElectionTickets = 0x4200000000000000000000000000000000000028"
definition BurnDepositorAddress :: address where "BurnDepositorAddress = 0xdeaddeaddeaddeaddeaddeaddeaddeaddead0001"

definition BurnSelector :: "(bytes \<Rightarrow> hash) \<Rightarrow> bytes" where "BurnSelector kk = selector kk ''burn(address)''"

definition marshsalBinaryBurnTx :: "(bytes \<Rightarrow> hash) \<Rightarrow> address \<Rightarrow> bytes" where
  "marshsalBinaryBurnTx kk a = WriteSignature (BurnSelector kk) @ WriteAddress a"

definition BuildBurnTx :: "(bytes \<Rightarrow> hash) \<Rightarrow> (address \<Rightarrow> string) \<Rightarrow> address \<Rightarrow> deposit_tx" where
  "BuildBurnTx kk hex a =
     \<lparr>dt_SourceHash = SourceHash kk hex (BurnSource a), dt_From = BurnDepositorAddress, dt_To = Some ElectionTickets, dt_Mint = None,
      dt_Value = 0, dt_Gas = 1000000, dt_IsSystemTransaction = False, dt_Data = marshsalBinaryBurnTx kk a\<rparr>"

definition BurnTxBytes :: "(bytes \<Rightarrow> hash) \<Rightarrow> (address \<Rightarrow> string) \<Rightarrow> (deposit_tx \<Rightarrow> bytes res) \<Rightarrow> address \<Rightarrow> bytes res" where
  "BurnTxBytes kk hex enc a = enc (BuildBurnTx kk hex a)"

section \<open>Network upgrades\<close>

record upgrade_code =
  uc_l1BlockDeploymentBytecode :: bytes
  uc_gasPriceOracleDeploymentBytecode :: bytes
  uc_eip4788CreationData :: bytes
  uc_gasPriceOracleFjordDeploymentBytecode :: bytes
  uc_newL1BlockAddress :: address
  uc_newGasPriceOracleAddress :: address

definition GasPriceOracleAddr :: address where "GasPriceOracleAddr = 0x420000000000000000000000000000000000000F"
definition L1BlockDeployerAddress :: address where "L1BlockDeployerAddress = 0x4210000000000000000000000000000000000000"
definition GasPriceOracleDeployerAddress :: address where "GasPriceOracleDeployerAddress = 0x4210000000000000000000000000000000000001"
definition EIP4788From :: address where "EIP4788From = 0x0B799C86a49DEeb90402691F1041aa3AF2d3C875"
definition GasPriceOracleFjordDeployerAddress :: address where "GasPriceOracleFjordDeployerAddress = 0x4210000000000000000000000000000000000002"
definition fjordGasPriceOracleAddress :: address where "fjordGasPriceOracleAddress = 0xa919894851548179A0750865e7974DA599C0Fac7"

definition upgradeToCalldata :: "(bytes \<Rightarrow> hash) \<Rightarrow> address \<Rightarrow> bytes" where
  "upgradeToCalldata kk addr = WriteSignature (selector kk ''upgradeTo(address)'') @ WriteAddress addr"

definition upgrade_deposit :: "(bytes \<Rightarrow> hash) \<Rightarrow> (address \<Rightarrow> string) \<Rightarrow> string \<Rightarrow> address \<Rightarrow> address option \<Rightarrow> u64 \<Rightarrow> bytes \<Rightarrow> deposit_tx" where
  "upgrade_deposit kk hex intent from to gas dat =
     \<lparr>dt_SourceHash = SourceHash kk hex (UpgradeDepositSource intent), dt_From = from, dt_To = to, dt_Mint = Some 0, dt_Value = 0,
      dt_Gas = gas, dt_IsSystemTransaction = False, dt_Data = dat\<rparr>"

fun encode_all :: "(deposit_tx \<Rightarrow> bytes res) \<Rightarrow> deposit_tx list \<Rightarrow> bytes list res" where
  "encode_all enc [] = Ok []"
| "encode_all enc (tx # txs) = bind_res (enc tx) (\<lambda>b. bind_res (encode_all enc txs) (\<lambda>bs. Ok (b # bs)))"

definition EcotoneNetworkUpgradeTransactions ::
    "(bytes \<Rightarrow> hash) \<Rightarrow> (address \<Rightarrow> string) \<Rightarrow> (deposit_tx \<Rightarrow> bytes res) \<Rightarrow> upgrade_code \<Rightarrow> bytes list res" where
  "EcotoneNetworkUpgradeTransactions kk hex enc uc = encode_all enc
     [upgrade_deposit kk hex ''Ecotone: L1 Block Deployment'' L1BlockDeployerAddress None 375000 (uc_l1BlockDeploymentBytecode uc),
      upgrade_deposit kk hex ''Ecotone: Gas Price Oracle Deployment'' GasPriceOracleDeployerAddress None 1000000
        (uc_gasPriceOracleDeploymentBytecode uc),
      upgrade_deposit kk hex ''Ecotone: L1 Block Proxy Update'' 0 (Some L1BlockAddress) 50000 (upgradeToCalldata kk (uc_newL1BlockAddress uc)),
      upgrade_deposit kk hex ''Ecotone: Gas Price Oracle Proxy Update'' 0 (Some GasPriceOracleAddr) 50000
        (upgradeToCalldata kk (uc_newGasPriceOracleAddress uc)),
      upgrade_deposit kk hex ''Ecotone: Gas Price Oracle Set Ecotone'' L1InfoDepositerAddress (Some GasPriceOracleAddr) 80000
        (selector kk ''setEcotone()''),
      upgrade_deposit kk hex ''Ecotone: beacon block roots contract deployment'' EIP4788From None 0x3d090 (uc_eip4788CreationData uc)]"

definition FjordNetworkUpgradeTransactions ::
    "(bytes \<Rightarrow> hash) \<Rightarrow> (address \<Rightarrow> string) \<Rightarrow> (deposit_tx \<Rightarrow> bytes res) \<Rightarrow> upgrade_code \<Rightarrow> bytes list res" where
  "FjordNetworkUpgradeTransactions kk hex enc uc = encode_all enc
     [upgrade_deposit kk hex ''Fjord: Gas Price Oracle Deployment'' GasPriceOracleFjordDeployerAddress None 1450000
        (uc_gasPriceOracleFjordDeploymentBytecode uc),
      upgrade_deposit kk hex ''Fjord: Gas Price Oracle Proxy Update'' 0 (Some GasPriceOracleAddr) 50000
        (upgradeToCalldata kk fjordGasPriceOracleAddress),
      upgrade_deposit kk hex ''Fjord: Gas Price Oracle Set Fjord'' L1InfoDepositerAddress (Some GasPriceOracleAddr) 90000
        (selector kk ''setFjord()'')]"

end
