(* ===== verification/DeriveBlocks.thy ===== *)
theory DeriveBlocks
  imports DeriveL1Info BatchTypes
begin

text \<open>
  Reading the L1 attributes back from L2 blocks: the reference of a block and its system configuration,
  after \<open>l2block_util.go\<close> and \<open>payload_util.go\<close> of \<open>op-node/rollup/derive\<close>, and the singular batch of a
  block, \<open>BlockToSingularBatch\<close> of \<open>channel_out.go\<close>. Of a transaction of go-ethereum the code sees the
  type, the data and the outcome of \<open>MarshalBinary\<close>; \<open>dec\<close> is \<open>UnmarshalBinary\<close>.
\<close>

section \<open>Blocks\<close>

definition DepositTxType :: u8 where "DepositTxType = 0x7E"

record l2_tx =
  ot_Type :: u8
  ot_Data :: bytes
  ot_MarshalBinary :: "bytes res"

record l2_block =
  lb_Hash :: hash
  lb_ParentHash :: hash
  lb_Number :: u64
  lb_Time :: u64
  lb_Transactions :: "l2_tx list"

record rollup_genesis =
  rg_L1 :: block_id
  rg_L2 :: block_id
  rg_SystemConfig :: system_config

record execution_payload =
  ep_ParentHash :: hash
  ep_BlockHash :: hash
  ep_BlockNumber :: u64
  ep_Timestamp :: u64
  ep_GasLimit :: u64
  ep_Transactions :: "bytes list"

definition genesis_mismatch :: string where
  "genesis_mismatch = ''expected L2 genesis hash to match L2 block at genesis block number''"

section \<open>References\<close>

definition L2BlockToBlockRef :: "(bytes \<Rightarrow> hash) \<Rightarrow> rollup_config \<Rightarrow> rollup_genesis \<Rightarrow> l2_block \<Rightarrow> l2_block_ref res" where
  "L2BlockToBlockRef kk cfg genesis block =
     bind_res
       (if lb_Number block = id_number (rg_L2 genesis) then
          guard_err (lb_Hash block = id_hash (rg_L2 genesis)) genesis_mismatch (Ok (rg_L1 genesis, 0))
        else case lb_Transactions block of
          [] \<Rightarrow> Err ''l2 block is missing L1 info deposit tx''
        | tx # _ \<Rightarrow>
            guard_err (ot_Type tx = DepositTxType) ''first payload tx has unexpected tx type''
            (bind_res (wrap_err (\<lambda>e. ''failed to parse L1 info deposit tx from L2 block: '' @ e)
               (L1BlockInfoFromBytes kk cfg (lb_Time block) (ot_Data tx))) (\<lambda>info.
             Ok (\<lparr>id_hash = li_BlockHash info, id_number = li_Number info\<rparr>, li_SequenceNumber info))))
       (\<lambda>(l1Origin, sequenceNumber).
        Ok \<lparr>l2_hash = lb_Hash block, l2_number = lb_Number block, l2_parentHash = lb_ParentHash block, l2_time = lb_Time block,
            l2_l1Origin = l1Origin, l2_sequenceNumber = sequenceNumber\<rparr>)"

text \<open>The L1 attributes in the first transaction of a payload.\<close>

definition payload_info ::
    "(bytes \<Rightarrow> hash) \<Rightarrow> (bytes \<Rightarrow> (u8 \<times> bytes) res) \<Rightarrow> rollup_config \<Rightarrow> execution_payload \<Rightarrow> l1_block_info res" where
  "payload_info kk dec cfg payload =
     (case ep_Transactions payload of
        [] \<Rightarrow> Err ''l2 block is missing L1 info deposit tx''
      | tx # _ \<Rightarrow>
          bind_res (wrap_err (\<lambda>e. ''failed to decode first tx to read l1 info from: '' @ e) (dec tx)) (\<lambda>(txType, dat).
          guard_err (txType = DepositTxType) ''first payload tx has unexpected tx type''
            (wrap_err (\<lambda>e. ''failed to parse L1 info deposit tx from L2 block: '' @ e)
               (L1BlockInfoFromBytes kk cfg (ep_Timestamp payload) dat))))"

definition PayloadToBlockRef ::
    "(bytes \<Rightarrow> hash) \<Rightarrow> (bytes \<Rightarrow> (u8 \<times> bytes) res) \<Rightarrow> rollup_config \<Rightarrow> rollup_genesis \<Rightarrow> execution_payload \<Rightarrow> l2_block_ref res" where
  "PayloadToBlockRef kk dec cfg genesis payload =
     bind_res
       (if ep_BlockNumber payload = id_number (rg_L2 genesis) then
          guard_err (ep_BlockHash payload = id_hash (rg_L2 genesis)) genesis_mismatch (Ok (rg_L1 genesis, 0))
        else bind_res (payload_info kk dec cfg payload) (\<lambda>info.
          Ok (\<lparr>id_hash = li_BlockHash info, id_number = li_Number info\<rparr>, li_SequenceNumber info)))
       (\<lambda>(l1Origin, sequenceNumber).
        Ok \<lparr>l2_hash = ep_BlockHash payload, l2_number = ep_BlockNumber payload, l2_parentHash = ep_ParentHash payload,
            l2_time = ep_Timestamp payload, l2_l1Origin = l1Origin, l2_sequenceNumber = sequenceNumber\<rparr>)"

text \<open>After Ecotone the scalars are put back into their encoded form.\<close>

definition put_at :: "nat \<Rightarrow> bytes \<Rightarrow> bytes \<Rightarrow> bytes" where
  "put_at i src bs = take i bs @ src @ drop (i + length src) bs"

definition PayloadToSystemConfig ::
    "(bytes \<Rightarrow> hash) \<Rightarrow> (bytes \<Rightarrow> (u8 \<times> bytes) res) \<Rightarrow> rollup_config \<Rightarrow> rollup_genesis \<Rightarrow> execution_payload \<Rightarrow> system_config res" where
  "PayloadToSystemConfig kk dec cfg genesis payload =
     (if ep_BlockNumber payload = id_number (rg_L2 genesis) then
        guard_err (ep_BlockHash payload = id_hash (rg_L2 genesis)) genesis_mismatch (Ok (rg_SystemConfig genesis))
      else bind_res (payload_info kk dec cfg payload) (\<lambda>info.
        let scalar = (if isEcotoneButNotFirstBlock cfg (ep_Timestamp payload) then
              put_at 28 (be32 (li_BaseFeeScalar info)) (put_at 24 (be32 (li_BlobBaseFeeScalar info)) ((li_L1FeeScalar info)[0 := 1]))
            else li_L1FeeScalar info)
        in Ok \<lparr>sy_Overhead = li_L1FeeOverhead info, sy_Scalar = scalar, sy_GasLimit = ep_GasLimit payload\<rparr>))"

section \<open>The batch of a block\<close>

fun opaque_txs :: "l2_tx list \<Rightarrow> bytes list res" where
  "opaque_txs [] = Ok []"
| "opaque_txs (tx # txs) =
     (if ot_Type tx = DepositTxType then opaque_txs txs
      else bind_res (wrap_err (\<lambda>e. ''could not encode tx: '' @ e) (ot_MarshalBinary tx)) (\<lambda>otx.
        bind_res (opaque_txs txs) (\<lambda>otxs. Ok (otx # otxs))))"

definition ErrNotDepositTx :: string where "ErrNotDepositTx = ''first transaction in block is not a deposit tx''"

definition BlockToSingularBatch ::
    "(bytes \<Rightarrow> hash) \<Rightarrow> rollup_config \<Rightarrow> l2_block \<Rightarrow> (singular_batch \<times> l1_block_info) res" where
  "BlockToSingularBatch kk cfg block =
     (case lb_Transactions block of
        [] \<Rightarrow> Err ''block has no transactions''
      | l1InfoTx # _ \<Rightarrow>
          bind_res (opaque_txs (lb_Transactions block)) (\<lambda>opaqueTxs.
          guard_err (ot_Type l1InfoTx = DepositTxType) ErrNotDepositTx
          (bind_res (wrap_err (\<lambda>e. ''could not parse the L1 Info deposit: '' @ e)
             (L1BlockInfoFromBytes kk cfg (lb_Time block) (ot_Data l1InfoTx))) (\<lambda>l1Info.
           Ok (\<lparr>sb_ParentHash = lb_ParentHash block, sb_EpochNum = li_Number l1Info, sb_EpochHash = li_BlockHash l1Info,
                sb_Timestamp = lb_Time block, sb_Transactions = opaqueTxs\<rparr>, l1Info)))))"

end
