(* ===== verification/DeriveAttributes.thy ===== *)
theory DeriveAttributes
  imports DeriveDeposits DeriveBlocks DeriveQueue
begin

text \<open>
  The last stage of the derivation: the payload attributes of the next L2 block from a batch, after
  \<open>attributes.go\<close> and \<open>attributes_queue.go\<close> of \<open>op-node/rollup/derive\<close>; and its first stage, the walk
  along L1, \<open>l1_traversal.go\<close>, with the check of a new origin, \<open>check_l1.go\<close>. What is fetched from L1, from the
  L2 engine and from the election is the record \<open>chain_view\<close> (\<open>None\<close> is an error of the fetcher); the fixed
  environment of a node is the record \<open>chain_env\<close>.
\<close>

section \<open>What the stage reads\<close>

record chain_env =
  ce_kk :: "bytes \<Rightarrow> hash"
  ce_hex :: "address \<Rightarrow> string"
  ce_enc :: "deposit_tx \<Rightarrow> bytes res"
  ce_code :: upgrade_code
  ce_DepositContractAddress :: address
  ce_L1SystemConfigAddress :: address

record chain_view =
  cv_SystemConfigByL2Hash :: "hash \<Rightarrow> system_config option"
  cv_FetchReceipts :: "hash \<Rightarrow> (block_info \<times> receipt list) option"
  cv_InfoByHash :: "hash \<Rightarrow> block_info option"
  cv_L1BlockRefByNumber :: "u64 \<Rightarrow> l1_block_ref fetched"
  cv_Winner :: "u64 \<Rightarrow> election_winner"

record payload_attributes =
  pa_Timestamp :: u64
  pa_PrevRandao :: hash
  pa_SuggestedFeeRecipient :: address
  pa_Withdrawals :: "bytes list option"
  pa_ParentBeaconBlockRoot :: "hash option"
  pa_Transactions :: "bytes list"
  pa_NoTxPool :: bool
  pa_GasLimit :: "u64 option"

definition SequencerFeeVaultAddr :: address where "SequencerFeeVaultAddr = 0x4200000000000000000000000000000000000011"

text \<open>An error of a callee that becomes a critical one.\<close>

fun critical :: "string \<Rightarrow> 'a res \<Rightarrow> ('a \<Rightarrow> (derive_error + 'b) res) \<Rightarrow> (derive_error + 'b) res" where
  "critical msg (Ok x) k = k x"
| "critical msg (Err e) k = Ok (Inl (Critical (msg @ e)))"
| "critical msg (Panic e) k = Panic e"

section \<open>Preparing the attributes\<close>

text \<open>The first block of an epoch brings the deposits and the changes of the configuration.\<close>

definition origin_inputs ::
    "chain_env \<Rightarrow> rollup_config \<Rightarrow> chain_view \<Rightarrow> l2_block_ref \<Rightarrow> block_id \<Rightarrow> system_config \<Rightarrow>
     (derive_error + block_info \<times> bytes list \<times> u64 \<times> system_config) res" where
  "origin_inputs env cfg v l2Parent epoch sysConfig =
     (if id_number (l2_l1Origin l2Parent) \<noteq> id_number epoch then
        (case cv_FetchReceipts v (id_hash epoch) of
           None \<Rightarrow> Ok (Inl (Temporary ''failed to fetch L1 block info and receipts''))
         | Some (info, receipts) \<Rightarrow>
             if id_hash (l2_l1Origin l2Parent) \<noteq> bi_ParentHash info then
               Ok (Inl (ResetError ''cannot create new block with L1 origin on top of L1 origin''))
             else
               bind_res (DeriveDeposits (ce_kk env) (ce_hex env) (ce_enc env) (ce_DepositContractAddress env) receipts) (\<lambda>(deposits, errs).
               if errs \<noteq> [] then Ok (Inl (Critical ''failed to derive some deposits''))
               else bind_res (UpdateSystemConfigWithL1Receipts (ce_kk env) cfg (ce_L1SystemConfigAddress env) (bi_Time info) receipts sysConfig)
                 (\<lambda>(sysConfig, errs).
                 if errs \<noteq> [] then Ok (Inl (Critical ''failed to apply derived L1 sysCfg updates''))
                 else Ok (Inr (info, deposits, 0, sysConfig)))))
      else if id_hash (l2_l1Origin l2Parent) \<noteq> id_hash epoch then
        Ok (Inl (ResetError ''cannot create new block with L1 origin in conflict with L1 origin''))
      else
        (case cv_InfoByHash v (id_hash epoch) of
           None \<Rightarrow> Ok (Inl (Temporary ''failed to fetch L1 block info''))
         | Some info \<Rightarrow> Ok (Inr (info, [], l2_sequenceNumber l2Parent + 1, sysConfig))))"

definition upgrade_txs :: "chain_env \<Rightarrow> rollup_config \<Rightarrow> u64 \<Rightarrow> (derive_error + bytes list) res" where
  "upgrade_txs env cfg nextL2Time =
     critical ''failed to build ecotone network upgrade txs: ''
       (if IsEcotoneActivationBlock cfg nextL2Time then
          EcotoneNetworkUpgradeTransactions (ce_kk env) (ce_hex env) (ce_enc env) (ce_code env) else Ok []) (\<lambda>upgradeTxs.
     critical ''failed to build fjord network upgrade txs: ''
       (if IsFjordActivationBlock cfg nextL2Time then
          FjordNetworkUpgradeTransactions (ce_kk env) (ce_hex env) (ce_enc env) (ce_code env) else Ok []) (\<lambda>fjord.
     Ok (Inr (upgradeTxs @ fjord))))"

text \<open>The transactions in their order.\<close>

definition block_txs ::
    "chain_env \<Rightarrow> rollup_config \<Rightarrow> u64 \<Rightarrow> block_info \<Rightarrow> bytes list \<Rightarrow> u64 \<Rightarrow> system_config \<Rightarrow> address \<Rightarrow> bytes list \<Rightarrow>
     (derive_error + bytes list) res" where
  "block_txs env cfg nextL2Time l1Info depositTxs seqNumber sysConfig winner upgradeTxs =
     critical ''failed to create l1InfoTx: ''
       (L1InfoDepositBytes (ce_kk env) (ce_hex env) (ce_enc env) cfg sysConfig seqNumber l1Info nextL2Time winner) (\<lambda>l1InfoTx.
     critical ''failed to create depositsCompleteTx: ''
       (if IsInterop cfg nextL2Time then
          bind_res (DepositsCompleteBytes (ce_kk env) (ce_hex env) (ce_enc env) seqNumber l1Info) (\<lambda>tx. Ok [tx]) else Ok []) (\<lambda>afterForceIncludeTxs.
     critical ''failed to create burnTx: ''
       (if winner \<noteq> 0 then bind_res (BurnTxBytes (ce_kk env) (ce_hex env) (ce_enc env) winner) (\<lambda>tx. Ok [tx]) else Ok []) (\<lambda>burnTxs.
     Ok (Inr (l1InfoTx # burnTxs @ depositTxs @ afterForceIncludeTxs @ upgradeTxs)))))"

definition PreparePayloadAttributes ::
    "chain_env \<Rightarrow> rollup_config \<Rightarrow> chain_view \<Rightarrow> l2_block_ref \<Rightarrow> block_id \<Rightarrow> (derive_error + payload_attributes) res" where
  "PreparePayloadAttributes env cfg v l2Parent epoch =
     (case cv_SystemConfigByL2Hash v (l2_hash l2Parent) of
        None \<Rightarrow> Ok (Inl (Temporary ''failed to retrieve L2 parent block''))
      | Some sysConfig \<Rightarrow>
          bind_res (origin_inputs env cfg v l2Parent epoch sysConfig) (\<lambda>r.
          case r of
            Inl e \<Rightarrow> Ok (Inl e)
          | Inr (l1Info, depositTxs, seqNumber, sysConfig) \<Rightarrow>
              let nextL2Time = l2_time l2Parent + rc_BlockTime cfg in
              if nextL2Time < bi_Time l1Info then Ok (Inl (ResetError ''cannot build L2 block for time before L1 origin''))
              else bind_res (upgrade_txs env cfg nextL2Time) (\<lambda>r.
                case r of
                  Inl e \<Rightarrow> Ok (Inl e)
                | Inr upgradeTxs \<Rightarrow>
                    bind_res (block_txs env cfg nextL2Time l1Info depositTxs seqNumber sysConfig (win_addr (cv_Winner v nextL2Time)) upgradeTxs) (\<lambda>r.
                    case r of
                      Inl e \<Rightarrow> Ok (Inl e)
                    | Inr txs \<Rightarrow>
                        Ok (Inr \<lparr>pa_Timestamp = nextL2Time, pa_PrevRandao = bi_MixDigest l1Info,
                          pa_SuggestedFeeRecipient = SequencerFeeVaultAddr,
                          pa_Withdrawals = (if IsCanyon cfg nextL2Time then Some [] else None),
                          pa_ParentBeaconBlockRoot = (if IsEcotone cfg nextL2Time then
                              (case bi_ParentBeaconRoot l1Info of None \<Rightarrow> Some 0 | Some r \<Rightarrow> Some r) else None),
                          pa_Transactions = txs, pa_NoTxPool = True, pa_GasLimit = Some (sy_GasLimit sysConfig)\<rparr>)))))"

section \<open>The attributes queue\<close>

record attributes_with_parent =
  ap_Attributes :: payload_attributes
  ap_Parent :: l2_block_ref
  ap_IsLastInSpan :: bool
  ap_DerivedFrom :: l1_block_ref

record 'p attributes_queue =
  aq_prev :: 'p
  aq_batch :: "singular_batch option"
  aq_isLastInSpan :: bool

definition NewAttributesQueue :: "'p \<Rightarrow> 'p attributes_queue" where
  "NewAttributesQueue p = \<lparr>aq_prev = p, aq_batch = None, aq_isLastInSpan = False\<rparr>"

definition singular_Epoch :: "singular_batch \<Rightarrow> block_id" where
  "singular_Epoch b = \<lparr>id_hash = sb_EpochHash b, id_number = sb_EpochNum b\<rparr>"

definition createNextAttributes ::
    "chain_env \<Rightarrow> rollup_config \<Rightarrow> chain_view \<Rightarrow> singular_batch \<Rightarrow> l2_block_ref \<Rightarrow> (derive_error + payload_attributes) res" where
  "createNextAttributes env cfg v batch l2SafeHead =
     (if sb_ParentHash batch \<noteq> l2_hash l2SafeHead then Ok (Inl (ResetError ''valid batch has bad parent hash''))
      else if l2_time l2SafeHead + rc_BlockTime cfg \<noteq> sb_Timestamp batch then Ok (Inl (ResetError ''valid batch has bad timestamp''))
      else bind_res (PreparePayloadAttributes env cfg v l2SafeHead (singular_Epoch batch)) (\<lambda>r.
        case r of
          Inl e \<Rightarrow> Ok (Inl e)
        | Inr attrs \<Rightarrow> Ok (Inr (attrs\<lparr>pa_NoTxPool := True, pa_Transactions := pa_Transactions attrs @ sb_Transactions batch\<rparr>))))"

text \<open>The stage before is a state with the functions \<open>next\<close> (\<open>NextBatch\<close>) and \<open>orig\<close> (\<open>Origin\<close>).\<close>

definition aq_NextAttributes ::
    "chain_env \<Rightarrow> rollup_config \<Rightarrow> chain_view \<Rightarrow> ('p \<Rightarrow> l1_block_ref) \<Rightarrow> (l2_block_ref \<Rightarrow> 'p \<Rightarrow> ('p, singular_batch \<times> bool) call res) \<Rightarrow>
     l2_block_ref \<Rightarrow> 'p attributes_queue \<Rightarrow> ('p attributes_queue, attributes_with_parent) call res" where
  "aq_NextAttributes env cfg v orig next parent aq =
     bind_res
       (case aq_batch aq of
          Some b \<Rightarrow> Ok (aq, Inr b)
        | None \<Rightarrow>
            bind_res (next parent (aq_prev aq)) (\<lambda>(p, r).
            case r of
              Inl e \<Rightarrow> Ok (aq\<lparr>aq_prev := p\<rparr>, Inl e)
            | Inr (b, isLast) \<Rightarrow> Ok (aq\<lparr>aq_prev := p, aq_batch := Some b, aq_isLastInSpan := isLast\<rparr>, Inr b)))
       (\<lambda>(aq, r).
        case r of
          Inl e \<Rightarrow> Ok (aq, Inl e)
        | Inr b \<Rightarrow>
            bind_res (createNextAttributes env cfg v b parent) (\<lambda>r.
            case r of
              Inl e \<Rightarrow> Ok (aq, Inl e)
            | Inr attrs \<Rightarrow>
                Ok (aq\<lparr>aq_batch := None, aq_isLastInSpan := False\<rparr>,
                    Inr \<lparr>ap_Attributes = attrs, ap_Parent = parent, ap_IsLastInSpan = aq_isLastInSpan aq,
                         ap_DerivedFrom = orig (aq_prev aq)\<rparr>)))"

definition aq_Reset :: "'p attributes_queue \<Rightarrow> ('p attributes_queue, unit) call" where
  "aq_Reset aq = (aq\<lparr>aq_batch := None, aq_isLastInSpan := False\<rparr>, Inl EOF)"

section \<open>The walk along L1\<close>

record l1_traversal =
  tr_block :: l1_block_ref
  tr_done :: bool
  tr_sysCfg :: system_config

definition NewL1Traversal :: l1_traversal where
  "NewL1Traversal = \<lparr>tr_block = zero_l1_ref, tr_done = False,
     tr_sysCfg = \<lparr>sy_Overhead = replicate 32 0, sy_Scalar = replicate 32 0, sy_GasLimit = 0\<rparr>\<rparr>"

definition tr_NextL1Block :: "l1_traversal \<Rightarrow> (l1_traversal, l1_block_ref) call" where
  "tr_NextL1Block t = (if \<not> tr_done t then (t\<lparr>tr_done := True\<rparr>, Inr (tr_block t)) else (t, Inl EOF))"

definition AdvanceL1Block :: "chain_env \<Rightarrow> rollup_config \<Rightarrow> chain_view \<Rightarrow> l1_traversal \<Rightarrow> (l1_traversal, unit) call res" where
  "AdvanceL1Block env cfg v t =
     (case cv_L1BlockRefByNumber v (l1_number (tr_block t) + 1) of
        NotFound \<Rightarrow> Ok (t, Inl EOF)
      | FetchError e \<Rightarrow> Ok (t, Inl (Temporary (''failed to find L1 block info by number: '' @ e)))
      | Fetched nextL1Origin \<Rightarrow>
          if l1_hash (tr_block t) \<noteq> l1_parentHash nextL1Origin then Ok (t, Inl (ResetError ''detected L1 reorg with conflicting parent''))
          else case cv_FetchReceipts v (l1_hash nextL1Origin) of
            None \<Rightarrow> Ok (t, Inl (Temporary ''failed to fetch receipts of L1 block for L1 sysCfg update''))
          | Some (_, receipts) \<Rightarrow>
              bind_res (UpdateSystemConfigWithL1Receipts (ce_kk env) cfg (ce_L1SystemConfigAddress env) (l1_time nextL1Origin) receipts (tr_sysCfg t))
                (\<lambda>(sysCfg, errs).
                if errs \<noteq> [] then Ok (t\<lparr>tr_sysCfg := sysCfg\<rparr>, Inl (Critical ''failed to update L1 sysCfg with receipts from block''))
                else Ok (t\<lparr>tr_sysCfg := sysCfg, tr_block := nextL1Origin, tr_done := False\<rparr>, Inr ())))"

definition tr_Reset :: "l1_block_ref \<Rightarrow> l1_traversal \<Rightarrow> (l1_traversal, unit) call" where
  "tr_Reset base t = (t\<lparr>tr_block := base, tr_done := False\<rparr>, Inl EOF)"

definition VerifyNewL1Origin :: "chain_view \<Rightarrow> l1_block_ref \<Rightarrow> l1_block_ref \<Rightarrow> derive_error + unit" where
  "VerifyNewL1Origin v unsafeOrigin newOrigin =
     (if l1_number newOrigin = l1_number unsafeOrigin \<and> newOrigin \<noteq> unsafeOrigin then
        Inl (ResetError ''l1 origin was inconsistent with l2 unsafe head origin'')
      else if l1_number newOrigin = l1_number unsafeOrigin + 1 \<and> l1_parentHash newOrigin \<noteq> l1_hash unsafeOrigin then
        Inl (ResetError ''l2 unsafe head origin is no longer canonical'')
      else if l1_number newOrigin > l1_number unsafeOrigin + 1 then
        (case cv_L1BlockRefByNumber v (l1_number unsafeOrigin) of
           Fetched canonical \<Rightarrow>
             if canonical \<noteq> unsafeOrigin then Inl (ResetError ''l2 unsafe head origin is no longer canonical'') else Inr ()
         | _ \<Rightarrow> Inl (Temporary ''failed to fetch canonical L1 block''))
      else Inr ())"

end
