(* ===== verification/DeriveBlocksProps.thy ===== *)
theory DeriveBlocksProps
  imports DeriveBlocks
begin

text \<open>
  What a block carries: the L1 attributes that the derivation puts into the first transaction of a
  block are read back from it, so the chain of L2 blocks alone gives the L1 origin, the position in the
  epoch and the fee parameters.
\<close>

section \<open>Round trips of the three formats\<close>

lemma selector_length [simp]: "length (selector kk s) = 4"
  by (simp add: selector_def hash_bytes_length)

lemma signature_lengths [simp]:
  "length (L1InfoFuncBedrockBytes4 kk) = 4" "length (L1InfoFuncEcotoneBytes4 kk) = 4" "length (L1InfoFuncIsthmusBytes4 kk) = 4"
  by (simp_all add: L1InfoFuncBedrockBytes4_def L1InfoFuncEcotoneBytes4_def L1InfoFuncIsthmusBytes4_def)

lemmas word_reads = sol_uint64.dec_enc [OF TrueI] sol_hash.dec_enc [OF TrueI] sol_address.dec_enc [OF TrueI] sol_address.dec_enc_end [OF TrueI]
  sol_short_address.dec_enc_end [OF TrueI] sol_bytes32.dec_enc sol_uint256.dec_enc uint32.dec_enc [OF TrueI] uint64.dec_enc [OF TrueI]
  signature_read

lemma bedrock_roundtrip:
  assumes "marshalBinaryBedrock kk info = Ok dat" "length (li_L1FeeOverhead info) = 32" "length (li_L1FeeScalar info) = 32"
  shows "length dat = L1InfoBedrockLen" "unmarshalBinaryBedrock kk dat = Ok (info\<lparr>li_BlobBaseFee := None, li_BaseFeeScalar := 0, li_BlobBaseFeeScalar := 0\<rparr>)"
proof -
  have b: "li_BaseFee info < 2 ^ 256" and d: "dat = WriteSignature (L1InfoFuncBedrockBytes4 kk) @ WriteUint64 (li_Number info) @
      WriteUint64 (li_Time info) @ word256 (li_BaseFee info) @ WriteHash (li_BlockHash info) @ WriteUint64 (li_SequenceNumber info) @
      WriteEthBytes32 (li_L1FeeOverhead info) @ WriteEthBytes32 (li_L1FeeScalar info) @ WriteAddress (li_L1ElectionWinner info)"
    using assms(1) by (auto simp: marshalBinaryBedrock_def res_simps WriteUint256_Ok)
  show l: "length dat = L1InfoBedrockLen"
    using assms(2,3) by (simp add: d L1InfoBedrockLen_def WriteSignature_def WriteEthBytes32_def)
  have "(length dat = L1InfoBedrockLen) = True" using l by simp
  then show "unmarshalBinaryBedrock kk dat = Ok (info\<lparr>li_BlobBaseFee := None, li_BaseFeeScalar := 0, li_BlobBaseFeeScalar := 0\<rparr>)"
    using b assms(2,3) unfolding unmarshalBinaryBedrock_def d
    by (simp add: word_reads EmptyReader_def zero_info_def)
qed

lemma signed_roundtrip:
  assumes "marshalBinaryWithSignature sig info = Ok dat" "length sig = 4"
  shows "length dat = L1InfoEcotoneLen"
    "unmarshalBinaryWithSignatureAndData sig dat = Ok (info\<lparr>li_L1FeeOverhead := replicate 32 0, li_L1FeeScalar := replicate 32 0,
       li_BlobBaseFee := Some (case li_BlobBaseFee info of None \<Rightarrow> 1 | Some f \<Rightarrow> f)\<rparr>)"
proof -
  define fee where "fee = (case li_BlobBaseFee info of None \<Rightarrow> 1 | Some f \<Rightarrow> f)"
  have b: "li_BaseFee info < 2 ^ 256" "fee < 2 ^ 256" and d: "dat = WriteSignature sig @ be32 (li_BaseFeeScalar info) @
      be32 (li_BlobBaseFeeScalar info) @ be64 (li_SequenceNumber info) @ be64 (li_Time info) @ be64 (li_Number info) @
      word256 (li_BaseFee info) @ word256 fee @ WriteHash (li_BlockHash info) @ WriteAddressNoPadding (li_L1ElectionWinner info)"
    using assms(1) by (auto simp: marshalBinaryWithSignature_def res_simps WriteUint256_Ok fee_def)
  show l: "length dat = L1InfoEcotoneLen"
    using assms(2) by (simp add: d L1InfoEcotoneLen_def WriteSignature_def)
  have "(length dat = L1InfoEcotoneLen) = True" using l by simp
  then show "unmarshalBinaryWithSignatureAndData sig dat = Ok (info\<lparr>li_L1FeeOverhead := replicate 32 0, li_L1FeeScalar := replicate 32 0,
       li_BlobBaseFee := Some (case li_BlobBaseFee info of None \<Rightarrow> 1 | Some f \<Rightarrow> f)\<rparr>)"
    using b assms(2) unfolding unmarshalBinaryWithSignatureAndData_def d fee_def [symmetric]
    by (simp add: word_reads EmptyReader_def zero_info_def)
qed

section \<open>The attributes of a block\<close>

text \<open>What \<open>Check\<close> guarantees between the other forks, for the two forks that change the format.\<close>

definition forks_ordered :: "rollup_config \<Rightarrow> bool" where
  "forks_ordered cfg \<longleftrightarrow> checkFork (rc_EcotoneTime cfg) (rc_InteropTime cfg)"

lemma interop_after_ecotone:
  assumes "forks_ordered cfg" "isInteropButNotFirstBlock cfg t"
  shows "isEcotoneButNotFirstBlock cfg t"
  using assms
  by (auto simp: forks_ordered_def checkFork_def isInteropButNotFirstBlock_def isEcotoneButNotFirstBlock_def IsInterop_def
      IsEcotone_def IsInteropActivationBlock_def IsEcotoneActivationBlock_def activation_block_def fork_active_def split: option.splits)

text \<open>The attributes that the data gives back.\<close>

definition read_info :: "rollup_config \<Rightarrow> system_config \<Rightarrow> u64 \<Rightarrow> block_info \<Rightarrow> u64 \<Rightarrow> address \<Rightarrow> l1_block_info" where
  "read_info cfg sysCfg seqNumber block t winner =
     (let info = info_of_block block seqNumber winner in
      if isEcotoneButNotFirstBlock cfg t then
        (case EcotoneScalars sysCfg of
           Ok scalars \<Rightarrow> info\<lparr>li_BlobBaseFee := Some (case bi_BlobBaseFee block of None \<Rightarrow> 1 | Some f \<Rightarrow> f),
             li_BlobBaseFeeScalar := ec_BlobBaseFeeScalar scalars, li_BaseFeeScalar := ec_BaseFeeScalar scalars\<rparr>
         | _ \<Rightarrow> info)
      else info\<lparr>li_L1FeeOverhead := sy_Overhead sysCfg, li_L1FeeScalar := sy_Scalar sysCfg\<rparr>)"

lemma read_info_fields [simp]:
  "li_BlockHash (read_info cfg sysCfg seqNumber block t winner) = bi_Hash block"
  "li_Number (read_info cfg sysCfg seqNumber block t winner) = bi_Number block"
  "li_SequenceNumber (read_info cfg sysCfg seqNumber block t winner) = seqNumber"
  "li_L1ElectionWinner (read_info cfg sysCfg seqNumber block t winner) = winner"
  by (simp_all add: read_info_def Let_def info_of_block_def split: res.split)

lemma signed_read:
  assumes "marshalBinaryWithSignature sig info = Ok dat" "length sig = 4"
    "li_L1FeeOverhead info = replicate 32 0" "li_L1FeeScalar info = replicate 32 0" "li_BlobBaseFee info = Some f"
  shows "unmarshalBinaryWithSignatureAndData sig dat = Ok info"
  using signed_roundtrip(2) [OF assms(1,2)] assms(3-5) by simp

lemma ecotone_data:
  assumes "isEcotoneButNotFirstBlock cfg t" "l1_info_data kk cfg sysCfg seqNumber block t winner = Ok dat"
  shows "marshalBinaryWithSignature (if isInteropButNotFirstBlock cfg t then L1InfoFuncIsthmusBytes4 kk else L1InfoFuncEcotoneBytes4 kk)
      (read_info cfg sysCfg seqNumber block t winner) = Ok dat"
    "\<exists>scalars. EcotoneScalars sysCfg = Ok scalars"
  using assms
  by (auto simp: l1_info_data_def read_info_def res_simps marshalBinaryIsthmus_def marshalBinaryEcotone_def Let_def
      split: if_splits option.splits)

lemma info_data_read:
  assumes data: "l1_info_data kk cfg sysCfg seqNumber block t winner = Ok dat" and forks: "forks_ordered cfg"
    and len: "length (sy_Overhead sysCfg) = 32" "length (sy_Scalar sysCfg) = 32"
  shows "L1BlockInfoFromBytes kk cfg t dat = Ok (read_info cfg sysCfg seqNumber block t winner)"
proof (cases "isEcotoneButNotFirstBlock cfg t")
  case True
  note m = ecotone_data [OF True data]
  obtain scalars where sc: "EcotoneScalars sysCfg = Ok scalars" using m(2) by blast
  have "unmarshalBinaryWithSignatureAndData (if isInteropButNotFirstBlock cfg t then L1InfoFuncIsthmusBytes4 kk else L1InfoFuncEcotoneBytes4 kk) dat
      = Ok (read_info cfg sysCfg seqNumber block t winner)"
    by (rule signed_read [OF m(1)]) (simp_all add: read_info_def Let_def True sc info_of_block_def zero_info_def)
  then show ?thesis
    using True by (simp add: L1BlockInfoFromBytes_def unmarshalBinaryIsthmus_def unmarshalBinaryEcotone_def split: if_splits)
next
  case False
  then have i: "\<not> isInteropButNotFirstBlock cfg t" using interop_after_ecotone forks by blast
  have m: "marshalBinaryBedrock kk (read_info cfg sysCfg seqNumber block t winner) = Ok dat"
    using data False by (simp add: l1_info_data_def read_info_def res_simps Let_def)
  have "unmarshalBinaryBedrock kk dat = Ok (read_info cfg sysCfg seqNumber block t winner)"
    using bedrock_roundtrip(2) [OF m] len False
    by (simp add: read_info_def Let_def info_of_block_def zero_info_def)
  then show ?thesis using False i by (simp add: L1BlockInfoFromBytes_def)
qed

text \<open>The scalars put back into the word are read again as the same scalars.\<close>

lemma scalars_encoded:
  "put_at 28 (be32 b) (put_at 24 (be32 a) ((replicate 32 0)[0 := 1])) =
     EncodeScalar \<lparr>ec_BlobBaseFeeScalar = a, ec_BaseFeeScalar = b\<rparr>"
  by (simp add: put_at_def EncodeScalar_def L1ScalarEcotone_def numeral_eq_Suc)

lemma encoded_scalars: "sy_Scalar sysCfg = EncodeScalar s \<Longrightarrow> EcotoneScalars sysCfg = Ok s"
  by (simp add: EcotoneScalars_def CheckEcotoneL1SystemConfigScalar_def DecodeScalar_def EncodeScalar_def L1ScalarBedrock_def
      L1ScalarEcotone_def slice_def numeral_eq_Suc guard_err_def)
section \<open>A block carries its origin\<close>

lemma L1InfoDeposit_data: "L1InfoDeposit kk hex cfg sysCfg seqNumber block t winner = Ok dep \<Longrightarrow>
    l1_info_data kk cfg sysCfg seqNumber block t winner = Ok (dt_Data dep)"
  by (auto simp: L1InfoDeposit_def res_simps Let_def split: if_splits)

lemma payload_reads:
  assumes "L1InfoDeposit kk hex cfg sysCfg seqNumber block (ep_Timestamp payload) winner = Ok dep" "forks_ordered cfg"
    "length (sy_Overhead sysCfg) = 32" "length (sy_Scalar sysCfg) = 32"
    "ep_Transactions payload = otx # txs" "dec otx = Ok (DepositTxType, dt_Data dep)"
  shows "payload_info kk dec cfg payload = Ok (read_info cfg sysCfg seqNumber block (ep_Timestamp payload) winner)"
  using info_data_read [OF L1InfoDeposit_data [OF assms(1)] assms(2-4)] assms(5,6)
  by (simp add: payload_info_def res_simps)

lemma scalar_kept:
  assumes "isEcotoneButNotFirstBlock cfg t" "EcotoneScalars sysCfg = Ok scalars"
    "sy_Scalar sc = put_at 28 (be32 (li_BaseFeeScalar (read_info cfg sysCfg seqNumber block t winner)))
       (put_at 24 (be32 (li_BlobBaseFeeScalar (read_info cfg sysCfg seqNumber block t winner)))
         ((li_L1FeeScalar (read_info cfg sysCfg seqNumber block t winner))[0 := 1]))"
  shows "EcotoneScalars sc = Ok scalars"
proof (rule encoded_scalars)
  show "sy_Scalar sc = EncodeScalar scalars"
    using assms scalars_encoded [of "ec_BaseFeeScalar scalars" "ec_BlobBaseFeeScalar scalars"]
    by (cases scalars) (simp add: read_info_def info_of_block_def zero_info_def Let_def)
qed

text \<open>C14: the L1 attributes survive their passage through an L2 block. When the first transaction of a
  block is the deposit that the derivation builds from the header of an L1 block, the place in the epoch,
  the winner of the election and the system configuration, then the reference that the node computes from
  the payload has that L1 block as its origin and that place as its sequence number, and the system
  configuration it computes has the gas limit of the payload and the same fee parameters: the same
  overhead and scalar before Ecotone, the same pair of scalars after it. This holds in all three formats, as
  long as Interop does not become active before Ecotone.\<close>

theorem block_carries_origin:
  assumes dep: "L1InfoDeposit kk hex cfg sysCfg seqNumber block (ep_Timestamp payload) winner = Ok dep"
    and forks: "forks_ordered cfg"
    and len: "length (sy_Overhead sysCfg) = 32" "length (sy_Scalar sysCfg) = 32"
    and tx: "ep_Transactions payload = otx # txs" "dec otx = Ok (DepositTxType, dt_Data dep)"
    and num: "ep_BlockNumber payload \<noteq> id_number (rg_L2 genesis)"
  shows "(\<exists>info. payload_info kk dec cfg payload = Ok info \<and> li_L1ElectionWinner info = winner) \<and>
    PayloadToBlockRef kk dec cfg genesis payload =
      Ok \<lparr>l2_hash = ep_BlockHash payload, l2_number = ep_BlockNumber payload, l2_parentHash = ep_ParentHash payload,
          l2_time = ep_Timestamp payload, l2_l1Origin = \<lparr>id_hash = bi_Hash block, id_number = bi_Number block\<rparr>,
          l2_sequenceNumber = seqNumber\<rparr> \<and>
    (\<exists>sc. PayloadToSystemConfig kk dec cfg genesis payload = Ok sc \<and> sy_GasLimit sc = ep_GasLimit payload \<and>
       (if isEcotoneButNotFirstBlock cfg (ep_Timestamp payload) then EcotoneScalars sc = EcotoneScalars sysCfg
        else sy_Overhead sc = sy_Overhead sysCfg \<and> sy_Scalar sc = sy_Scalar sysCfg))"
proof -
  let ?t = "ep_Timestamp payload"
  let ?info = "read_info cfg sysCfg seqNumber block ?t winner"
  have p: "payload_info kk dec cfg payload = Ok ?info"
    by (rule payload_reads) (rule dep forks len tx)+
  have "\<exists>sc. PayloadToSystemConfig kk dec cfg genesis payload = Ok sc \<and> sy_GasLimit sc = ep_GasLimit payload \<and>
       (if isEcotoneButNotFirstBlock cfg ?t then EcotoneScalars sc = EcotoneScalars sysCfg
        else sy_Overhead sc = sy_Overhead sysCfg \<and> sy_Scalar sc = sy_Scalar sysCfg)"
  proof (cases "isEcotoneButNotFirstBlock cfg ?t")
    case True
    obtain scalars where sc: "EcotoneScalars sysCfg = Ok scalars"
      using ecotone_data(2) [OF True L1InfoDeposit_data [OF dep]] by blast
    show ?thesis using p num True sc scalar_kept [OF True sc] by (simp add: PayloadToSystemConfig_def Let_def)
  next
    case False
    then show ?thesis using p num by (simp add: PayloadToSystemConfig_def Let_def read_info_def)
  qed
  then show ?thesis using p num by (simp add: PayloadToBlockRef_def)
qed

section \<open>An example\<close>

definition sample_sysCfg :: system_config where
  "sample_sysCfg = \<lparr>sy_Overhead = replicate 32 0, sy_Scalar = EncodeScalar \<lparr>ec_BlobBaseFeeScalar = 3, ec_BaseFeeScalar = 7\<rparr>, sy_GasLimit = 30\<rparr>"

definition sample_block_info :: block_info where
  "sample_block_info = \<lparr>bi_Hash = 11, bi_ParentHash = 10, bi_Number = 5, bi_Time = 60, bi_BaseFee = 8, bi_BlobBaseFee = Some 2,
     bi_MixDigest = 1, bi_ParentBeaconRoot = None\<rparr>"

definition ecotone_config :: rollup_config where
  "ecotone_config = sample_config\<lparr>rc_EcotoneTime := Some 0\<rparr>"

definition sample_genesis :: rollup_genesis where
  "sample_genesis = \<lparr>rg_L1 = \<lparr>id_hash = 1, id_number = 1\<rparr>, rg_L2 = \<lparr>id_hash = 2, id_number = 0\<rparr>, rg_SystemConfig = sample_sysCfg\<rparr>"

definition sample_payload :: execution_payload where
  "sample_payload = \<lparr>ep_ParentHash = 20, ep_BlockHash = 21, ep_BlockNumber = 9, ep_Timestamp = 62, ep_GasLimit = 40, ep_Transactions = [[1]]\<rparr>"

lemma sample_ecotone: "isEcotoneButNotFirstBlock ecotone_config 62" "\<not> isInteropButNotFirstBlock ecotone_config 62"
  by (simp_all add: isEcotoneButNotFirstBlock_def isInteropButNotFirstBlock_def IsEcotone_def IsInterop_def ecotone_config_def
      sample_config_def fork_active_def IsEcotoneActivationBlock_def activation_block_def)

lemma sample_scalars: "EcotoneScalars sample_sysCfg = Ok \<lparr>ec_BlobBaseFeeScalar = 3, ec_BaseFeeScalar = 7\<rparr>"
  by (rule encoded_scalars) (simp add: sample_sysCfg_def)

lemma sample_info_deposit: "\<exists>dep. L1InfoDeposit kk hex ecotone_config sample_sysCfg 4 sample_block_info 62 9 = Ok dep"
  by (auto simp: L1InfoDeposit_def l1_info_data_def sample_ecotone sample_scalars marshalBinaryEcotone_def Let_def
      marshalBinaryWithSignature_def res_simps WriteUint256_Ok sample_block_info_def info_of_block_def)

theorem block_carries_origin_witness:
  "\<exists>dep ref sc. L1InfoDeposit (\<lambda>_. 0) (\<lambda>_. []) ecotone_config sample_sysCfg 4 sample_block_info 62 9 = Ok dep \<and>
     PayloadToBlockRef (\<lambda>_. 0) (\<lambda>_. Ok (DepositTxType, dt_Data dep)) ecotone_config sample_genesis sample_payload = Ok ref \<and>
     l2_l1Origin ref = \<lparr>id_hash = 11, id_number = 5\<rparr> \<and> l2_sequenceNumber ref = 4 \<and>
     PayloadToSystemConfig (\<lambda>_. 0) (\<lambda>_. Ok (DepositTxType, dt_Data dep)) ecotone_config sample_genesis sample_payload = Ok sc \<and>
     EcotoneScalars sc = Ok \<lparr>ec_BlobBaseFeeScalar = 3, ec_BaseFeeScalar = 7\<rparr>"
proof -
  obtain dep where d: "L1InfoDeposit (\<lambda>_. 0) (\<lambda>_. []) ecotone_config sample_sysCfg 4 sample_block_info 62 9 = Ok dep"
    using sample_info_deposit by blast
  have e: "isEcotoneButNotFirstBlock ecotone_config (ep_Timestamp sample_payload)"
    using sample_ecotone(1) by (simp add: sample_payload_def)
  have d': "L1InfoDeposit (\<lambda>_. 0) (\<lambda>_. []) ecotone_config sample_sysCfg 4 sample_block_info (ep_Timestamp sample_payload) 9 = Ok dep"
    using d by (simp add: sample_payload_def)
  note w = block_carries_origin [where dec = "\<lambda>_. Ok (DepositTxType, dt_Data dep)" and genesis = sample_genesis and otx = "[1]" and txs = "[]", OF d']
  have "forks_ordered ecotone_config" by (simp add: forks_ordered_def ecotone_config_def sample_config_def checkFork_def)
  moreover have "length (sy_Overhead sample_sysCfg) = 32" "length (sy_Scalar sample_sysCfg) = 32"
    by (simp_all add: sample_sysCfg_def EncodeScalar_def)
  moreover have "ep_Transactions sample_payload = [1] # []" by (simp add: sample_payload_def)
  moreover have "ep_BlockNumber sample_payload \<noteq> id_number (rg_L2 sample_genesis)"
    by (simp add: sample_payload_def sample_genesis_def)
  ultimately show ?thesis using d w e sample_scalars by (auto simp: sample_block_info_def)
qed

section \<open>Interop before Ecotone\<close>

text \<open>
  The check of the configuration does not look at the activation time of Interop. Without Ecotone an
  active Interop makes the writer use the first format and the reader expect the third, so no block
  can be read back.
\<close>

lemma bedrock_data_length:
  assumes "\<not> isEcotoneButNotFirstBlock cfg t" "l1_info_data kk cfg sysCfg seqNumber block t winner = Ok dat"
    "length (sy_Overhead sysCfg) = 32" "length (sy_Scalar sysCfg) = 32"
  shows "length dat = L1InfoBedrockLen"
  using assms by (auto simp: l1_info_data_def res_simps Let_def intro!: bedrock_roundtrip(1))

lemma interop_unchecked:
  assumes "\<not> isEcotoneButNotFirstBlock cfg t" "isInteropButNotFirstBlock cfg t"
    "l1_info_data kk cfg sysCfg seqNumber block t winner = Ok dat" "length (sy_Overhead sysCfg) = 32" "length (sy_Scalar sysCfg) = 32"
  shows "L1BlockInfoFromBytes kk cfg t dat = Err ''data is unexpected length''"
  using assms(2) bedrock_data_length [OF assms(1,3-5)]
  by (simp add: L1BlockInfoFromBytes_def unmarshalBinaryIsthmus_def unmarshalBinaryWithSignatureAndData_def guard_err_def
      L1InfoBedrockLen_def L1InfoEcotoneLen_def)

lemma interop_passes_check:
  "check_forks (sample_config\<lparr>rc_InteropTime := Some 0\<rparr>)" "\<not> forks_ordered (sample_config\<lparr>rc_InteropTime := Some 0\<rparr>)"
  by (simp_all add: check_forks_def forks_ordered_def checkFork_def sample_config_def)

end
