(* ===== verification/DeriveDepositsProps.thy ===== *)
theory DeriveDepositsProps
  imports DeriveDeposits
begin

text \<open>
  Deposits reach L2 intact: the log of a deposit gives it back, the derivation skips no deposit of a block
  without an error, and two deposits have the same source hash only when they have the same source. The
  configuration that the updates of L1 change stays readable.
\<close>

section \<open>Round trip of the log\<close>

lemma slice_front: "length b = n \<Longrightarrow> slice 0 n (b @ c) = b"
  by (simp add: slice_def)

lemma slice_mid: "length a = i \<Longrightarrow> length b = j - i \<Longrightarrow> slice i j (a @ b @ c) = b"
  by (simp add: slice_def)

lemma be_decode_zero_prefix: "be_decode (replicate n 0 @ bs) = be_decode bs"
  by (induction bs rule: rev_induct) (simp_all flip: append_assoc)

lemma be_decode_be64: "be_decode (be64 n) = unat n"
proof -
  have "unat n < 256 ^ 8" using unat_bounds(3) [of n] by simp
  then show ?thesis unfolding be64_def be_decode_encode by simp
qed

lemma be_decode_word64: "be_decode (WriteUint64 n) = unat n"
  by (simp add: WriteUint64_def be_decode_zero_prefix be_decode_be64)

lemma unat_small: "k < 2 ^ 64 \<Longrightarrow> unat (of_nat k :: u64) = k"
  by (simp add: unat_of_nat)

lemma pad32_split:
  obtains zs where "pad32 dat = dat @ zs" "length zs < 32" "(length dat + length zs) mod 32 = 0"
proof (cases "length dat mod 32 = 0")
  case True
  then show ?thesis using that [of "[]"] by (simp add: pad32_def)
next
  case False
  have "(length dat + (32 - length dat mod 32)) mod 32 = 0"
    by (metis add.commute le_add_diff_inverse less_imp_le mod_add_left_eq mod_less_divisor mod_self zero_less_numeral)
  then show ?thesis using that [of "replicate (32 - length dat mod 32) 0"] False by (simp add: pad32_def)
qed

lemma opaque_content_pad:
  assumes "length opq < 2 ^ 63"
  shows "opaque_content (pad32 (WriteUint64 32 @ WriteUint64 (of_nat (length opq)) @ opq)) = Ok opq"
proof -
  let ?dat = "WriteUint64 32 @ WriteUint64 (of_nat (length opq)) @ opq"
  obtain zs where z: "pad32 ?dat = ?dat @ zs" "length zs < 32" "(length ?dat + length zs) mod 32 = 0"
    by (rule pad32_split)
  let ?full = "WriteUint64 32 @ WriteUint64 (of_nat (length opq)) @ opq @ zs"
  have p: "pad32 ?dat = ?full" using z(1) by simp
  have l: "length ?full = 64 + length opq + length zs" by simp
  have n: "unat (of_nat (length opq) :: u64) = length opq"
    using assms by (simp add: unat_of_nat)
  have k: "length ?full - 64 = length opq + length zs" using l by simp
  have r: "unat (of_nat (length ?full - 64) :: u64) = length opq + length zs"
    unfolding k using assms z(2) by (intro unat_small) simp
  have n32: "unat (of_nat (length opq) + 32 :: u64) = length opq + 32"
    using assms by (simp add: unat_word_ariths n)
  have s0: "be_decode (slice 0 32 ?full) = 32"
    by (simp only: slice_front [of "WriteUint64 32" 32] word_lengths be_decode_word64) simp
  have s1: "be_decode (slice 32 64 ?full) = length opq"
    by (simp add: slice_mid [of "WriteUint64 32" 32] be_decode_word64 n)
  have s2: "slice 64 (64 + length opq) ?full = opq"
    using slice_mid [of "WriteUint64 32 @ WriteUint64 (of_nat (length opq))" 64 opq "64 + length opq" zs] by simp
  have c: "\<not> (of_nat (length opq) :: u64) > of_nat (length ?full - 64)" "\<not> (of_nat (length opq) + 32 :: u64) \<le> of_nat (length ?full - 64)"
    unfolding word_less_nat_alt word_le_nat_alt n r n32 using z(2) by simp_all
  have g: "\<not> length ?full < 64" "length ?full mod 32 = 0" "length opq < 2 ^ 64" using z(3) assms by (simp_all add: l add.assoc)
  show ?thesis
    unfolding p opaque_content_def Let_def s0 s1 n s2 using c g by simp
qed

lemma address_hash: "ucast (AddressAsLeftPaddedHash a) = a"
  unfolding AddressAsLeftPaddedHash_def by (rule bit_word_eqI) (simp add: bit_simps)

lemma version0_roundtrip:
  assumes "marshalDepositVersion0 dep = Ok opq" "dt_Mint dep \<noteq> Some 0" "dt_To base = None"
  shows "unmarshalDepositVersion0 (case dt_To dep of None \<Rightarrow> 0 | Some t \<Rightarrow> t) opq base =
    Ok (base\<lparr>dt_Mint := dt_Mint dep, dt_Value := dt_Value dep, dt_Gas := dt_Gas dep, dt_To := dt_To dep, dt_Data := dt_Data dep\<rparr>)"
proof -
  define mint where "mint = (case dt_Mint dep of None \<Rightarrow> 0 | Some m \<Rightarrow> m)"
  let ?f = "[if dt_To dep = None then 1 else 0 :: byte]"
  have o: "opq = word256 mint @ word256 (dt_Value dep) @ be64 (dt_Gas dep) @ ?f @ dt_Data dep"
    and m: "mint < 2 ^ 256" "dt_Value dep < 2 ^ 256"
    using assms(1) by (auto simp: marshalDepositVersion0_def res_simps mint_def word256_def not_less bits_len_iff_less
        simp del: be_encode_numeral split: option.splits)
  have s: "slice 0 32 opq = word256 mint" "slice 32 64 opq = word256 (dt_Value dep)" "slice 64 72 opq = be64 (dt_Gas dep)"
    unfolding o
    using slice_mid [of "word256 mint" 32 "word256 (dt_Value dep)" 64] slice_mid [of "word256 mint @ word256 (dt_Value dep)" 64 "be64 (dt_Gas dep)" 72]
    by (simp_all add: slice_front)
  have f: "opq ! 72 = hd ?f" "drop 73 opq = dt_Data dep" unfolding o by (simp_all add: nth_append)
  have d: "be_decode (word256 mint) = mint" "be_decode (word256 (dt_Value dep)) = dt_Value dep" "be_decode (be64 (dt_Gas dep)) = unat (dt_Gas dep)"
    using m by (simp_all add: be_decode_word256 be_decode_be64)
  have mm: "(if mint = 0 then None else Some mint) = dt_Mint dep"
    using assms(2) by (auto simp: mint_def split: option.splits)
  have l: "\<not> length opq < 32 + 32 + 8 + 1" unfolding o by simp
  show ?thesis
    unfolding unmarshalDepositVersion0_def Let_def s d f mm
    using l unat_bounds(3) [of "dt_Gas dep"] assms(3) by (auto split: option.splits)
qed

text \<open>C39: deposits survive the log of L1. The event that \<open>MarshalDepositLogEvent\<close> writes for a deposit, in
  whatever block and at whatever index of it, is read by the derivation as the same deposit, with the
  source hash of that place: sender, receiver or creation, mint, value, gas and data, for every length of
  data.\<close>

theorem deposit_log_roundtrip:
  assumes "MarshalDepositLogEvent kk addr dep = Ok ev" "length (dt_Data dep) < 2 ^ 62" "dt_Mint dep \<noteq> Some 0"
    "\<not> dt_IsSystemTransaction dep"
  shows "UnmarshalDepositLogEvent kk hex (ev\<lparr>lg_BlockHash := h, lg_Index := i\<rparr>) =
    Ok (dep\<lparr>dt_SourceHash := SourceHash kk hex (UserDepositSource h (of_nat i))\<rparr>)"
proof -
  let ?to = "case dt_To dep of None \<Rightarrow> 0 | Some t \<Rightarrow> t"
  obtain opq where o: "marshalDepositVersion0 dep = Ok opq" and ev: "ev = \<lparr>lg_Address = addr,
      lg_Topics = [DepositEventABIHash kk, AddressAsLeftPaddedHash (dt_From dep), case dt_To dep of None \<Rightarrow> 0 | Some to \<Rightarrow> AddressAsLeftPaddedHash to,
        DepositEventVersion0],
      lg_Data = pad32 (WriteUint64 32 @ WriteUint64 (of_nat (length opq)) @ opq), lg_BlockHash = 0, lg_Index = 0\<rparr>"
    using assms(1) by (auto simp: MarshalDepositLogEvent_def res_simps Let_def)
  have "length opq = 73 + length (dt_Data dep)"
    using o by (auto simp: marshalDepositVersion0_def res_simps simp del: be_encode_numeral)
  then have c: "opaque_content (pad32 (WriteUint64 32 @ WriteUint64 (of_nat (length opq)) @ opq)) = Ok opq"
    using assms(2) by (intro opaque_content_pad) simp
  have t: "ucast (case dt_To dep of None \<Rightarrow> 0 | Some to \<Rightarrow> AddressAsLeftPaddedHash to) = ?to"
    by (simp add: address_hash split: option.split)
  show ?thesis
    using version0_roundtrip [OF o assms(3)] assms(4)
    by (simp add: UnmarshalDepositLogEvent_def ev c t address_hash zero_deposit_def Let_def)
qed

theorem deposit_log_roundtrip_witness:
  "\<exists>ev. MarshalDepositLogEvent (\<lambda>_. 5) 9 (zero_deposit\<lparr>dt_From := 3, dt_To := Some 4, dt_Mint := Some 7, dt_Data := [1, 2]\<rparr>) = Ok ev \<and>
     UnmarshalDepositLogEvent (\<lambda>_. 5) (\<lambda>_. []) (ev\<lparr>lg_BlockHash := 8, lg_Index := 2\<rparr>) =
       Ok (zero_deposit\<lparr>dt_From := 3, dt_To := Some 4, dt_Mint := Some 7, dt_Data := [1, 2],
           dt_SourceHash := SourceHash (\<lambda>_. 5) (\<lambda>_. []) (UserDepositSource 8 2)\<rparr>)"
proof -
  let ?dep = "zero_deposit\<lparr>dt_From := 3, dt_To := Some 4, dt_Mint := Some 7, dt_Data := [1, 2]\<rparr>"
  have "bits_len 7 \<le> 256" "bits_len 0 \<le> 256" unfolding bits_len_iff_less by simp_all
  then obtain ev where m: "MarshalDepositLogEvent (\<lambda>_. 5) 9 ?dep = Ok ev"
    by (simp add: MarshalDepositLogEvent_def marshalDepositVersion0_def zero_deposit_def Let_def not_less del: be_encode_numeral)
  show ?thesis
    using deposit_log_roundtrip [where hex = "\<lambda>_. []" and h = 8 and i = 2, OF m] m by (simp add: zero_deposit_def)
qed

section \<open>No deposit is skipped\<close>

definition deposit_logs :: "hash \<Rightarrow> address \<Rightarrow> receipt list \<Rightarrow> log_entry list" where
  "deposit_logs event addr receipts =
     filter (has_event addr event) (concat (map rp_Logs (filter (\<lambda>r. rp_Status r = ReceiptStatusSuccessful) receipts)))"

lemma list_all2_append_iff:
  "list_all2 R (a @ b) out \<longleftrightarrow> (\<exists>o1 o2. list_all2 R a o1 \<and> list_all2 R b o2 \<and> out = o1 @ o2)"
  by (auto simp: list_all2_append1 intro: list_all2_lengthD [symmetric])

lemma log_deposits_exact:
  "log_deposits kk hex addr logs = Ok (out, []) \<longleftrightarrow>
     list_all2 (\<lambda>l d. UnmarshalDepositLogEvent kk hex l = Ok d) (filter (has_event addr (DepositEventABIHash kk)) logs) out"
  by (induction logs arbitrary: out) (auto simp: res_simps list_all2_Cons1 split: res.splits)

lemma UserDeposits_exact:
  "UserDeposits kk hex addr receipts = Ok (out, []) \<longleftrightarrow>
     list_all2 (\<lambda>l d. UnmarshalDepositLogEvent kk hex l = Ok d) (deposit_logs (DepositEventABIHash kk) addr receipts) out"
proof (induction receipts arbitrary: out)
  case (Cons r rs)
  show ?case
  proof (cases "rp_Status r = ReceiptStatusSuccessful")
    case True
    have "UserDeposits kk hex addr (r # rs) = Ok (out, []) \<longleftrightarrow>
        (\<exists>o1 o2. log_deposits kk hex addr (rp_Logs r) = Ok (o1, []) \<and> UserDeposits kk hex addr rs = Ok (o2, []) \<and> out = o1 @ o2)"
      using True by (auto simp: res_simps)
    also have "\<dots> \<longleftrightarrow> (\<exists>o1 o2. list_all2 (\<lambda>l d. UnmarshalDepositLogEvent kk hex l = Ok d)
          (filter (has_event addr (DepositEventABIHash kk)) (rp_Logs r)) o1 \<and>
        list_all2 (\<lambda>l d. UnmarshalDepositLogEvent kk hex l = Ok d) (deposit_logs (DepositEventABIHash kk) addr rs) o2 \<and> out = o1 @ o2)"
      unfolding log_deposits_exact Cons.IH ..
    also have "\<dots> \<longleftrightarrow> list_all2 (\<lambda>l d. UnmarshalDepositLogEvent kk hex l = Ok d) (deposit_logs (DepositEventABIHash kk) addr (r # rs)) out"
      using True by (simp add: deposit_logs_def list_all2_append_iff)
    finally show ?thesis .
  qed (use Cons in \<open>simp add: deposit_logs_def\<close>)
qed (auto simp: deposit_logs_def)

lemma encode_exact: "encode_deposits enc ds = Ok (txs, []) \<longleftrightarrow> list_all2 (\<lambda>d tx. enc d = Ok tx) ds txs"
  by (induction ds arbitrary: txs) (auto simp: res_simps list_all2_Cons1 split: res.splits)

text \<open>C17: the deposits of an L1 block are taken in full and in order. The derivation of a block's deposits
  ends without an error exactly when every deposit event of the deposit contract, in the successful
  transactions of the block, is well formed and encodes; then the transactions are those of the
  events, one for each, in the order of the receipts and of the logs in them.\<close>

theorem deposits_exact:
  "DeriveDeposits kk hex enc addr receipts = Ok (txs, []) \<longleftrightarrow>
     list_all2 (\<lambda>l tx. \<exists>dep. UnmarshalDepositLogEvent kk hex l = Ok dep \<and> enc dep = Ok tx)
       (deposit_logs (DepositEventABIHash kk) addr receipts) txs"
proof -
  have "DeriveDeposits kk hex enc addr receipts = Ok (txs, []) \<longleftrightarrow>
      (\<exists>ds. UserDeposits kk hex addr receipts = Ok (ds, []) \<and> encode_deposits enc ds = Ok (txs, []))"
    by (auto simp: DeriveDeposits_def res_simps)
  also have "\<dots> \<longleftrightarrow> (list_all2 (\<lambda>l d. UnmarshalDepositLogEvent kk hex l = Ok d) OO list_all2 (\<lambda>d tx. enc d = Ok tx))
      (deposit_logs (DepositEventABIHash kk) addr receipts) txs"
    unfolding UserDeposits_exact encode_exact by (auto simp: relcompp_apply)
  also have "\<dots> \<longleftrightarrow> list_all2 ((\<lambda>l d. UnmarshalDepositLogEvent kk hex l = Ok d) OO (\<lambda>d tx. enc d = Ok tx))
      (deposit_logs (DepositEventABIHash kk) addr receipts) txs"
    unfolding list.rel_compp ..
  also have "\<dots> \<longleftrightarrow> list_all2 (\<lambda>l tx. \<exists>dep. UnmarshalDepositLogEvent kk hex l = Ok dep \<and> enc dep = Ok tx)
      (deposit_logs (DepositEventABIHash kk) addr receipts) txs"
    by (rule arg_cong [where f = "\<lambda>R. list_all2 R _ _"]) (auto simp: fun_eq_iff relcompp_apply)
  finally show ?thesis .
qed

section \<open>Sources and their hashes\<close>

fun source_input :: "(address \<Rightarrow> string) \<Rightarrow> deposit_source \<Rightarrow> bytes" where
  "source_input hex (UserDepositSource h n) = id_input h n"
| "source_input hex (L1InfoDepositSource h n) = id_input h n"
| "source_input hex (UpgradeDepositSource intent) = ascii intent"
| "source_input hex (AfterForceIncludeSource h n) = id_input h n"
| "source_input hex (BurnSource w) = ascii (hex w)"

fun source_domain :: "deposit_source \<Rightarrow> u64" where
  "source_domain (UserDepositSource h n) = 0"
| "source_domain (L1InfoDepositSource h n) = 1"
| "source_domain (UpgradeDepositSource intent) = 2"
| "source_domain (AfterForceIncludeSource h n) = 3"
| "source_domain (BurnSource w) = 4"

definition hashed :: "(bytes \<Rightarrow> hash) \<Rightarrow> (address \<Rightarrow> string) \<Rightarrow> deposit_source \<Rightarrow> bytes set" where
  "hashed kk hex s = {source_input hex s, replicate 24 0 @ be64 (source_domain s) @ hash_bytes (kk (source_input hex s))}"

lemma SourceHash_input: "SourceHash kk hex s = domain_hash kk (source_domain s) (kk (source_input hex s))"
  by (cases s) simp_all

lemma be64_eq: "be64 a = be64 b \<Longrightarrow> a = b"
  by (metis un64_be64)

lemma hash_bytes_inj: "hash_bytes a = hash_bytes b \<Longrightarrow> a = b"
  by (metis hash_roundtrip)

lemma id_input_inj: "id_input h n = id_input h' n' \<Longrightarrow> h = h' \<and> n = n'"
  by (auto simp: id_input_def hash_bytes_length dest: be64_eq hash_bytes_inj)

lemma ascii_inj: "ascii a = ascii b \<Longrightarrow> a = b"
proof -
  have "inj (of_char :: char \<Rightarrow> byte)"
  proof (rule injI)
    fix c d assume "of_char c = (of_char d :: byte)"
    then have "unat (of_nat (of_char c) :: byte) = unat (of_nat (of_char d) :: byte)" by (simp only: of_nat_of_char)
    then have "of_char c mod 256 = (of_char d mod 256 :: nat)" by (simp only: unat_of_nat_byte)
    then show "c = d" by simp
  qed
  then show "ascii a = ascii b \<Longrightarrow> a = b" unfolding ascii_def by (simp add: inj_map_eq_map)
qed

text \<open>two deposits that the protocol makes or forwards have the same source hash only when they have the
  same source: the same kind and, for a user deposit, the same log of the same L1 block; for the L1
  attributes and the end of the forced inclusions, the same block of the same epoch; for an upgrade, the
  same step. This holds as far as Keccak does not collide on the four inputs hashed, and different addresses
  have different texts.\<close>

theorem source_hash_distinct:
  assumes "inj_on kk (hashed kk hex s \<union> hashed kk hex s')" "inj hex" "SourceHash kk hex s = SourceHash kk hex s'"
  shows "s = s'"
proof -
  have "replicate 24 0 @ be64 (source_domain s) @ hash_bytes (kk (source_input hex s)) =
      replicate 24 0 @ be64 (source_domain s') @ hash_bytes (kk (source_input hex s'))"
    by (rule inj_onD [OF assms(1)]) (use assms(3) in \<open>simp_all add: SourceHash_input domain_hash_def hashed_def\<close>)
  then have d: "source_domain s = source_domain s'" and k: "kk (source_input hex s) = kk (source_input hex s')"
    using be64_eq hash_bytes_inj by auto
  have i: "source_input hex s = source_input hex s'"
    by (rule inj_onD [OF assms(1) k]) (simp_all add: hashed_def)
  show ?thesis using d i assms(2) by (cases s; cases s') (auto dest: id_input_inj ascii_inj injD)
qed

text \<open>The text of an address in hexadecimal, for the example.\<close>

definition plain_hex :: "address \<Rightarrow> string" where "plain_hex a = map (\<lambda>b. char_of (unat b)) (address_bytes a)"

lemma plain_hex_inj: "inj plain_hex"
proof (rule injI)
  fix a b assume "plain_hex a = plain_hex b"
  moreover have "inj (\<lambda>b :: byte. char_of (unat b))"
  proof (rule injI)
    fix x y :: byte assume "char_of (unat x) = char_of (unat y)"
    then have "unat x mod 256 = unat y mod 256" by (metis of_char_of)
    then show "x = y" using unat_bounds(1) [of x] unat_bounds(1) [of y] by (simp add: word_unat_eq_iff)
  qed
  ultimately have "address_bytes a = address_bytes b" unfolding plain_hex_def by (simp add: inj_map_eq_map)
  then show "a = b" by (metis address_roundtrip)
qed

theorem source_hash_distinct_witness:
  "SourceHash (\<lambda>bs. BytesToHash (take 32 bs)) plain_hex (UserDepositSource 5 2) \<noteq>
     SourceHash (\<lambda>bs. BytesToHash (take 32 bs)) plain_hex (L1InfoDepositSource 3 2)"
proof -
  let ?kk = "\<lambda>bs. BytesToHash (take 32 bs)"
  let ?s = "UserDepositSource 5 2" let ?s' = "L1InfoDepositSource 3 2"
  have i: "?kk (id_input h n) = h" for h n
    by (simp add: id_input_def hash_bytes_length hash_roundtrip)
  have "be_decode (replicate 24 0 @ be64 d) = unat d" for d
    by (simp only: be_decode_zero_prefix be_decode_be64)
  then have "BytesToHash (replicate 24 0 @ be64 d) = of_nat (unat d)" for d
    by (simp add: BytesToHash_def)
  then have o: "?kk (replicate 24 0 @ be64 0 @ hash_bytes x) = 0" "?kk (replicate 24 0 @ be64 1 @ hash_bytes x) = 1" for x
    by simp_all
  have "inj_on ?kk (hashed ?kk plain_hex ?s \<union> hashed ?kk plain_hex ?s')"
    unfolding hashed_def source_input.simps source_domain.simps by (simp add: inj_on_def i o [simplified])
  then show ?thesis using source_hash_distinct [OF _ plain_hex_inj, of ?kk ?s ?s'] by auto
qed

text \<open>A burn has no block in its source: those of the same winner in different L2 blocks have the same
  hash, and are the same transaction.\<close>

lemma burns_not_distinct:
  "dt_SourceHash (BuildBurnTx kk hex w) = SourceHash kk hex (BurnSource w)"
  by (simp add: BuildBurnTx_def)

section \<open>The configuration stays readable\<close>

lemma log_updates_keep:
  assumes "\<And>l s s'. P s \<Longrightarrow> ProcessSystemConfigUpdateLogEvent kk cfg l1Time l s = Ok s' \<Longrightarrow> P s'"
  shows "P s \<Longrightarrow> log_updates kk cfg addr l1Time logs s = Ok (s', errs) \<Longrightarrow> P s'"
  by (induction logs arbitrary: s errs) (auto simp: res_simps split: if_splits res.splits dest: assms)

lemma updates_keep:
  assumes "\<And>l s s'. P s \<Longrightarrow> ProcessSystemConfigUpdateLogEvent kk cfg l1Time l s = Ok s' \<Longrightarrow> P s'"
  shows "P s \<Longrightarrow> UpdateSystemConfigWithL1Receipts kk cfg addr l1Time receipts s = Ok (s', errs) \<Longrightarrow> P s'"
proof -
  have log: "log_updates kk cfg addr l1Time logs s = Ok (s', errs) \<Longrightarrow> P s \<Longrightarrow> P s'" for logs s s' errs
    using log_updates_keep [where P = P] assms by blast
  then show "P s \<Longrightarrow> UpdateSystemConfigWithL1Receipts kk cfg addr l1Time receipts s = Ok (s', errs) \<Longrightarrow> P s'"
  proof (induction receipts arbitrary: s errs)
    case (Cons r rs)
    show ?case
    proof (cases "rp_Status r = ReceiptStatusSuccessful")
      case True
      then obtain s1 e1 e2 where "log_updates kk cfg addr l1Time (rp_Logs r) s = Ok (s1, e1)"
          "UpdateSystemConfigWithL1Receipts kk cfg addr l1Time rs s1 = Ok (s', e2)"
        using Cons.prems(2) by (auto simp: res_simps)
      then show ?thesis using Cons.IH log Cons.prems(1) by blast
    qed (use Cons in auto)
  qed simp
qed

definition config_words :: "system_config \<Rightarrow> bool" where
  "config_words s \<longleftrightarrow> length (sy_Overhead s) = 32 \<and> length (sy_Scalar s) = 32"

lemma unit_res_Ok: "\<forall>e. r \<noteq> Err e \<Longrightarrow> \<forall>e. r \<noteq> Panic e \<Longrightarrow> r = Ok ()"
  by (cases r) auto

lemma read_bytes32_length: "ReadEthBytes32 bs = Ok (w, rest) \<Longrightarrow> length w = 32"
  by (auto simp: ReadEthBytes32_def read_full_def res_simps split: if_splits)

lemma update_keeps_words:
  "config_words s \<Longrightarrow> ProcessSystemConfigUpdateLogEvent kk cfg l1Time l s = Ok s' \<Longrightarrow> config_words s'"
  by (auto simp: ProcessSystemConfigUpdateLogEvent_def update_gas_config_def update_gas_limit_def res_simps Let_def config_words_def
      dest!: read_bytes32_length split: if_splits res.splits)

lemma config_words_kept:
  assumes "UpdateSystemConfigWithL1Receipts kk cfg addr l1Time receipts s = Ok (s', errs)" "config_words s"
  shows "config_words s'"
  by (rule updates_keep [where P = config_words, OF _ assms(2,1)]) (rule update_keeps_words)

text \<open>C40: after Ecotone the fee parameters of the chain stay readable, whatever the updates of L1 say: if the
  scalar of the system configuration is well formed before the receipts of a block are applied, it is
  well formed afterwards, even when some of the logs are malformed, and the scalars for the L1 attributes
  can be taken from it.\<close>

theorem scalars_stay_readable:
  assumes "IsEcotone cfg l1Time" "CheckEcotoneL1SystemConfigScalar (sy_Scalar s) = Ok ()"
    "UpdateSystemConfigWithL1Receipts kk cfg addr l1Time receipts s = Ok (s', errs)"
  shows "CheckEcotoneL1SystemConfigScalar (sy_Scalar s') = Ok () \<and> (\<exists>scalars. EcotoneScalars s' = Ok scalars)"
proof -
  let ?P = "\<lambda>s. CheckEcotoneL1SystemConfigScalar (sy_Scalar s) = Ok ()"
  have "?P s2" if "?P s1" "ProcessSystemConfigUpdateLogEvent kk cfg l1Time l s1 = Ok s2" for l s1 s2
    using that assms(1)
    by (auto simp: ProcessSystemConfigUpdateLogEvent_def update_gas_config_def update_gas_limit_def res_simps Let_def
        intro: unit_res_Ok split: if_splits res.splits)
  then have p: "?P s'" using updates_keep [where P = ?P] assms(2,3) by blast
  then have "\<exists>scalars. EcotoneScalars s' = Ok scalars"
    by (auto simp: EcotoneScalars_def CheckEcotoneL1SystemConfigScalar_def DecodeScalar_def res_simps split: if_splits)
  then show ?thesis using p by simp
qed

definition readable_config :: system_config where
  "readable_config = \<lparr>sy_Overhead = replicate 32 0, sy_Scalar = L1ScalarEcotone # replicate 31 0, sy_GasLimit = 1\<rparr>"

theorem scalars_stay_readable_witness:
  "\<exists>s'. UpdateSystemConfigWithL1Receipts (\<lambda>_. 5) (sample_config\<lparr>rc_EcotoneTime := Some 0\<rparr>) 9 7
       [\<lparr>rp_Status = 1, rp_Logs = [\<lparr>lg_Address = 9, lg_Topics = [5], lg_Data = [], lg_BlockHash = 0, lg_Index = 0\<rparr>]\<rparr>] readable_config =
         Ok (s', [''malformatted L1 system sysCfg log: expected 3 event topics'']) \<and>
     CheckEcotoneL1SystemConfigScalar (sy_Scalar s') = Ok () \<and> (\<exists>scalars. EcotoneScalars s' = Ok scalars)"
proof -
  let ?cfg = "sample_config\<lparr>rc_EcotoneTime := Some 0\<rparr>"
  let ?rs = "[\<lparr>rp_Status = 1, rp_Logs = [\<lparr>lg_Address = 9, lg_Topics = [5], lg_Data = [], lg_BlockHash = 0, lg_Index = 0\<rparr>]\<rparr>]"
  have u: "UpdateSystemConfigWithL1Receipts (\<lambda>_. 5) ?cfg 9 7 ?rs readable_config =
      Ok (readable_config, [''malformatted L1 system sysCfg log: expected 3 event topics''])"
    by (simp add: ReceiptStatusSuccessful_def has_event_def ConfigUpdateEventABIHash_def ProcessSystemConfigUpdateLogEvent_def)
  have e: "IsEcotone ?cfg 7" by (simp add: IsEcotone_def fork_active_def sample_config_def)
  have c: "CheckEcotoneL1SystemConfigScalar (sy_Scalar readable_config) = Ok ()"
    by (simp add: CheckEcotoneL1SystemConfigScalar_def readable_config_def L1ScalarBedrock_def L1ScalarEcotone_def slice_def numeral_eq_Suc)
  show ?thesis using scalars_stay_readable [OF e c u] u by blast
qed

end
