(* ===== verification/DeriveAttributesProps.thy ===== *)
theory DeriveAttributesProps
  imports DeriveAttributes DeriveBlocksProps DeriveDepositsProps DeriveQueueProps
begin

text \<open>
  What the last stage of the derivation guarantees of the block that is built from its attributes, and that
  it works on top of the batch queue without a panic or a mismatch.
\<close>

section \<open>The attributes of a block\<close>

lemma critical_Inr: "critical msg r k = Ok (Inr y) \<longleftrightarrow> (\<exists>x. r = Ok x \<and> k x = Ok (Inr y))"
  by (cases r) auto

lemma bind_sum_Inr:
  "bind_res m (\<lambda>r. case r of Inl e \<Rightarrow> Ok (Inl e) | Inr x \<Rightarrow> k x) = Ok (Inr y) \<longleftrightarrow> (\<exists>x. m = Ok (Inr x) \<and> k x = Ok (Inr y))"
proof (cases m)
  case (Ok x)
  then show ?thesis by (cases x) auto
qed auto

definition same_epoch :: "l2_block_ref \<Rightarrow> block_id \<Rightarrow> bool" where
  "same_epoch parent epoch \<longleftrightarrow> id_number (l2_l1Origin parent) = id_number epoch"

lemma origin_inputs_Inr:
  assumes "origin_inputs env cfg v parent epoch s = Ok (Inr (info, deposits, seq, s'))" "config_words s"
  shows "config_words s'"
    "if same_epoch parent epoch
     then id_hash (l2_l1Origin parent) = id_hash epoch \<and> cv_InfoByHash v (id_hash epoch) = Some info \<and> deposits = [] \<and>
          seq = l2_sequenceNumber parent + 1
     else \<exists>receipts. cv_FetchReceipts v (id_hash epoch) = Some (info, receipts) \<and> bi_ParentHash info = id_hash (l2_l1Origin parent) \<and>
          DeriveDeposits (ce_kk env) (ce_hex env) (ce_enc env) (ce_DepositContractAddress env) receipts = Ok (deposits, []) \<and> seq = 0"
  using assms
  by (auto simp: origin_inputs_def same_epoch_def res_simps split: if_splits option.splits dest: config_words_kept)

lemma all_encoded: "encode_all enc ds = Ok txs \<Longrightarrow> \<forall>tx\<in>set txs. \<exists>dep. enc dep = Ok tx"
  by (induction ds arbitrary: txs) (auto simp: res_simps)

lemma ecotone_encoded: "EcotoneNetworkUpgradeTransactions kk hex enc uc = Ok txs \<Longrightarrow> \<forall>tx\<in>set txs. \<exists>dep. enc dep = Ok tx"
  unfolding EcotoneNetworkUpgradeTransactions_def by (rule all_encoded)

lemma fjord_encoded: "FjordNetworkUpgradeTransactions kk hex enc uc = Ok txs \<Longrightarrow> \<forall>tx\<in>set txs. \<exists>dep. enc dep = Ok tx"
  unfolding FjordNetworkUpgradeTransactions_def by (rule all_encoded)

lemma upgrades_encoded:
  "upgrade_txs env cfg t = Ok (Inr txs) \<Longrightarrow> \<forall>tx\<in>set txs. \<exists>dep. ce_enc env dep = Ok tx"
  using ecotone_encoded fjord_encoded by (auto simp: upgrade_txs_def critical_Inr split: if_splits)

lemma deposits_encoded:
  "DeriveDeposits kk hex enc addr receipts = Ok (txs, []) \<Longrightarrow> \<forall>tx\<in>set txs. \<exists>dep. enc dep = Ok tx"
  by (fastforce simp: DeriveDeposits_def res_simps encode_exact list_all2_conv_all_nth in_set_conv_nth)

lemma block_txs_Inr:
  assumes "block_txs env cfg t info deposits seq s winner ups = Ok (Inr txs)"
  obtains dep l1tx burns completes where
    "L1InfoDeposit (ce_kk env) (ce_hex env) cfg s seq info t winner = Ok dep" "ce_enc env dep = Ok l1tx"
    "txs = l1tx # burns @ deposits @ completes @ ups"
    "if winner = 0 then burns = [] else \<exists>tx. BurnTxBytes (ce_kk env) (ce_hex env) (ce_enc env) winner = Ok tx \<and> burns = [tx]"
    "\<forall>tx\<in>set completes. \<exists>dep. ce_enc env dep = Ok tx"
proof -
  obtain l1tx completes burns where
      l: "L1InfoDepositBytes (ce_kk env) (ce_hex env) (ce_enc env) cfg s seq info t winner = Ok l1tx"
    and c: "(if IsInterop cfg t then bind_res (DepositsCompleteBytes (ce_kk env) (ce_hex env) (ce_enc env) seq info) (\<lambda>tx. Ok [tx]) else Ok []) = Ok completes"
    and b: "(if winner \<noteq> 0 then bind_res (BurnTxBytes (ce_kk env) (ce_hex env) (ce_enc env) winner) (\<lambda>tx. Ok [tx]) else Ok []) = Ok burns"
    and t: "txs = l1tx # burns @ deposits @ completes @ ups"
    using assms unfolding block_txs_def critical_Inr by auto
  obtain dep where "L1InfoDeposit (ce_kk env) (ce_hex env) cfg s seq info t winner = Ok dep" "ce_enc env dep = Ok l1tx"
    using l by (auto simp: L1InfoDepositBytes_def res_simps)
  then show thesis
  proof (rule that [OF _ _ t])
    show "if winner = 0 then burns = [] else \<exists>tx. BurnTxBytes (ce_kk env) (ce_hex env) (ce_enc env) winner = Ok tx \<and> burns = [tx]"
      using b by (auto simp: res_simps split: if_splits)
    show "\<forall>tx\<in>set completes. \<exists>dep. ce_enc env dep = Ok tx"
      using c by (auto simp: res_simps DepositsCompleteBytes_def split: if_splits)
  qed
qed

text \<open>What the fetchers are trusted with: the block of a hash has that hash, and the number of the epoch it is
  asked for; the words of a configuration have their length.\<close>

definition honest_view :: "chain_view \<Rightarrow> block_id \<Rightarrow> bool" where
  "honest_view v epoch \<longleftrightarrow>
     (\<forall>info rs. cv_FetchReceipts v (id_hash epoch) = Some (info, rs) \<longrightarrow> bi_Hash info = id_hash epoch \<and> bi_Number info = id_number epoch) \<and>
     (\<forall>info. cv_InfoByHash v (id_hash epoch) = Some info \<longrightarrow> bi_Hash info = id_hash epoch \<and> bi_Number info = id_number epoch) \<and>
     (\<forall>h s. cv_SystemConfigByL2Hash v h = Some s \<longrightarrow> config_words s)"

lemma prepared:
  assumes "PreparePayloadAttributes env cfg v parent epoch = Ok (Inr attrs)" "honest_view v epoch"
  obtains info seq s' dep l1tx burns deps where
    "L1InfoDeposit (ce_kk env) (ce_hex env) cfg s' seq info (l2_time parent + rc_BlockTime cfg)
       (win_addr (cv_Winner v (l2_time parent + rc_BlockTime cfg))) = Ok dep" "ce_enc env dep = Ok l1tx" "config_words s'"
    "pa_Transactions attrs = l1tx # burns @ deps" "pa_Timestamp attrs = l2_time parent + rc_BlockTime cfg"
    "if win_addr (cv_Winner v (l2_time parent + rc_BlockTime cfg)) = 0 then burns = []
     else \<exists>tx. BurnTxBytes (ce_kk env) (ce_hex env) (ce_enc env) (win_addr (cv_Winner v (l2_time parent + rc_BlockTime cfg))) = Ok tx \<and> burns = [tx]"
    "\<forall>tx\<in>set deps. \<exists>dep. ce_enc env dep = Ok tx" "bi_Time info \<le> l2_time parent + rc_BlockTime cfg"
    "bi_Hash info = id_hash epoch" "bi_Number info = id_number epoch"
    "if same_epoch parent epoch then id_hash (l2_l1Origin parent) = id_hash epoch \<and> seq = l2_sequenceNumber parent + 1
     else (\<exists>rs. cv_FetchReceipts v (id_hash epoch) = Some (info, rs)) \<and> bi_ParentHash info = id_hash (l2_l1Origin parent) \<and> seq = 0"
proof -
  let ?t = "l2_time parent + rc_BlockTime cfg"
  let ?w = "win_addr (cv_Winner v ?t)"
  obtain s where s: "cv_SystemConfigByL2Hash v (l2_hash parent) = Some s" "config_words s"
    using assms by (auto simp: PreparePayloadAttributes_def honest_view_def split: option.splits)
  obtain info deposits seq s' ups txs where oi: "origin_inputs env cfg v parent epoch s = Ok (Inr (info, deposits, seq, s'))"
    and t: "\<not> ?t < bi_Time info" and u: "upgrade_txs env cfg ?t = Ok (Inr ups)"
    and b: "block_txs env cfg ?t info deposits seq s' ?w ups = Ok (Inr txs)"
    and a: "pa_Transactions attrs = txs" "pa_Timestamp attrs = ?t"
    using assms(1) s by (auto simp: PreparePayloadAttributes_def bind_sum_Inr Let_def split: if_splits)
  note o = origin_inputs_Inr [OF oi s(2)]
  obtain dep l1tx burns completes where bt: "L1InfoDeposit (ce_kk env) (ce_hex env) cfg s' seq info ?t ?w = Ok dep" "ce_enc env dep = Ok l1tx"
      "txs = l1tx # burns @ deposits @ completes @ ups"
      "if ?w = 0 then burns = [] else \<exists>tx. BurnTxBytes (ce_kk env) (ce_hex env) (ce_enc env) ?w = Ok tx \<and> burns = [tx]"
      "\<forall>tx\<in>set completes. \<exists>dep. ce_enc env dep = Ok tx"
    by (rule block_txs_Inr [OF b])
  have d: "\<forall>tx\<in>set deposits. \<exists>dep. ce_enc env dep = Ok tx"
    using o(2) by (auto dest: deposits_encoded split: if_splits)
  show thesis
  proof (rule that [OF bt(1,2) o(1)])
    show "pa_Transactions attrs = l1tx # burns @ deposits @ completes @ ups" using a bt(3) by simp
    show "\<forall>tx\<in>set (deposits @ completes @ ups). \<exists>dep. ce_enc env dep = Ok tx" using d bt(5) upgrades_encoded [OF u] by auto
    show "bi_Hash info = id_hash epoch" "bi_Number info = id_number epoch"
      using o(2) assms(2) by (auto simp: honest_view_def split: if_splits)
    show "if same_epoch parent epoch then id_hash (l2_l1Origin parent) = id_hash epoch \<and> seq = l2_sequenceNumber parent + 1
     else (\<exists>rs. cv_FetchReceipts v (id_hash epoch) = Some (info, rs)) \<and> bi_ParentHash info = id_hash (l2_l1Origin parent) \<and> seq = 0" using o(2) by (auto split: if_splits)
  qed (use a t bt(4) in simp_all)
qed

section \<open>The block that is built\<close>

text \<open>The engine builds the block of the attributes on top of the parent.\<close>

definition built_from :: "payload_attributes \<Rightarrow> l2_block_ref \<Rightarrow> execution_payload \<Rightarrow> bool" where
  "built_from attrs parent payload \<longleftrightarrow> ep_ParentHash payload = l2_hash parent \<and> ep_BlockNumber payload = l2_number parent + 1 \<and>
     ep_Timestamp payload = pa_Timestamp attrs \<and> ep_Transactions payload = pa_Transactions attrs"

definition next_ref :: "l2_block_ref \<Rightarrow> singular_batch \<Rightarrow> hash \<Rightarrow> l2_block_ref" where
  "next_ref parent b h = \<lparr>l2_hash = h, l2_number = l2_number parent + 1, l2_parentHash = l2_hash parent, l2_time = sb_Timestamp b,
     l2_l1Origin = singular_Epoch b, l2_sequenceNumber = (if same_epoch parent (singular_Epoch b) then l2_sequenceNumber parent + 1 else 0)\<rparr>"

text \<open>C15: the block that is built from derived attributes is the block of the batch. When the attributes queue
  turns a batch into attributes and the engine builds them on the safe head, the reference that the node
  computes from the payload is the next one: the head as its parent, one block time later, the epoch of
  the batch as its L1 origin, and a sequence number that counts on within an epoch and starts at 0 in a
  new one. An origin that changes is a child of the head's origin and not later than the block. The
  transactions are the L1 attributes, with the election winner of the time of the block; right after them,
  exactly when there is a winner, the burn of its ticket; then deposits only; and at the end the
  transactions of the batch.\<close>

theorem derived_block_extends:
  assumes att: "createNextAttributes env cfg v b parent = Ok (Inr attrs)" and view: "honest_view v (singular_Epoch b)"
    and dec: "\<And>dep otx. ce_enc env dep = Ok otx \<Longrightarrow> dec otx = Ok (DepositTxType, dt_Data dep)"
    and forks: "forks_ordered cfg" and built: "built_from attrs parent payload"
    and num: "l2_number parent + 1 \<noteq> id_number (rg_L2 genesis)"
  shows "PayloadToBlockRef (ce_kk env) dec cfg genesis payload = Ok (next_ref parent b (ep_BlockHash payload)) \<and>
    (\<exists>info. payload_info (ce_kk env) dec cfg payload = Ok info \<and> li_L1ElectionWinner info = win_addr (cv_Winner v (sb_Timestamp b))) \<and>
    (if same_epoch parent (singular_Epoch b) then l2_l1Origin parent = singular_Epoch b
     else \<exists>info rs. cv_FetchReceipts v (sb_EpochHash b) = Some (info, rs) \<and> bi_ParentHash info = id_hash (l2_l1Origin parent) \<and>
       bi_Time info \<le> sb_Timestamp b) \<and>
    (\<exists>l1tx burns deps. ep_Transactions payload = l1tx # burns @ deps @ sb_Transactions b \<and>
       (if win_addr (cv_Winner v (sb_Timestamp b)) = 0 then burns = []
        else \<exists>tx. BurnTxBytes (ce_kk env) (ce_hex env) (ce_enc env) (win_addr (cv_Winner v (sb_Timestamp b))) = Ok tx \<and> burns = [tx]) \<and>
       (\<forall>tx\<in>set deps. \<exists>dep. ce_enc env dep = Ok tx))"
proof -
  let ?t = "l2_time parent + rc_BlockTime cfg" let ?e = "singular_Epoch b"
  let ?w = "win_addr (cv_Winner v ?t)"
  obtain attrs0 where p: "PreparePayloadAttributes env cfg v parent ?e = Ok (Inr attrs0)"
    and h: "sb_ParentHash b = l2_hash parent" "sb_Timestamp b = ?t"
    and a: "attrs = attrs0\<lparr>pa_NoTxPool := True, pa_Transactions := pa_Transactions attrs0 @ sb_Transactions b\<rparr>"
    using att by (auto simp: createNextAttributes_def bind_sum_Inr split: if_splits)
  obtain info seq s' dep l1tx burns deps where
      d: "L1InfoDeposit (ce_kk env) (ce_hex env) cfg s' seq info ?t ?w = Ok dep" "ce_enc env dep = Ok l1tx" "config_words s'"
    and t: "pa_Transactions attrs0 = l1tx # burns @ deps" "pa_Timestamp attrs0 = ?t"
    and bu: "if ?w = 0 then burns = [] else \<exists>tx. BurnTxBytes (ce_kk env) (ce_hex env) (ce_enc env) ?w = Ok tx \<and> burns = [tx]"
    and de: "\<forall>tx\<in>set deps. \<exists>dep. ce_enc env dep = Ok tx" and le: "bi_Time info \<le> ?t"
    and i: "bi_Hash info = id_hash ?e" "bi_Number info = id_number ?e"
    and o: "if same_epoch parent ?e then id_hash (l2_l1Origin parent) = id_hash ?e \<and> seq = l2_sequenceNumber parent + 1
      else (\<exists>rs. cv_FetchReceipts v (id_hash ?e) = Some (info, rs)) \<and> bi_ParentHash info = id_hash (l2_l1Origin parent) \<and> seq = 0"
    by (rule prepared [OF p view])
  have pt: "ep_Timestamp payload = ?t" "ep_Transactions payload = l1tx # burns @ deps @ sb_Transactions b"
    using built by (simp_all add: built_from_def a t)
  have d': "L1InfoDeposit (ce_kk env) (ce_hex env) cfg s' seq info (ep_Timestamp payload) ?w = Ok dep" using d(1) pt by simp
  have pi: "payload_info (ce_kk env) dec cfg payload = Ok (read_info cfg s' seq info (ep_Timestamp payload) ?w)"
    by (rule payload_reads) (use d' d dec forks pt in \<open>auto simp: config_words_def\<close>)
  have seq: "seq = (if same_epoch parent ?e then l2_sequenceNumber parent + 1 else 0)" using o by (auto split: if_splits)
  have "PayloadToBlockRef (ce_kk env) dec cfg genesis payload = Ok (next_ref parent b (ep_BlockHash payload))"
    using pi num built i h(2) pt(1)
    by (simp add: PayloadToBlockRef_def built_from_def next_ref_def seq singular_Epoch_def)
  moreover have "if same_epoch parent ?e then l2_l1Origin parent = ?e
     else \<exists>info rs. cv_FetchReceipts v (sb_EpochHash b) = Some (info, rs) \<and> bi_ParentHash info = id_hash (l2_l1Origin parent) \<and>
       bi_Time info \<le> sb_Timestamp b"
    using o le h(2) by (cases "l2_l1Origin parent") (auto simp: same_epoch_def singular_Epoch_def)
  moreover have "\<exists>l1tx burns deps. ep_Transactions payload = l1tx # burns @ deps @ sb_Transactions b \<and>
       (if ?w = 0 then burns = [] else \<exists>tx. BurnTxBytes (ce_kk env) (ce_hex env) (ce_enc env) ?w = Ok tx \<and> burns = [tx]) \<and>
       (\<forall>tx\<in>set deps. \<exists>dep. ce_enc env dep = Ok tx)"
    using pt(2) bu de by blast
  ultimately show ?thesis unfolding h(2) pi by simp
qed

definition sample_chain_env :: chain_env where
  "sample_chain_env = \<lparr>ce_kk = \<lambda>_. 0, ce_hex = \<lambda>_. [], ce_enc = \<lambda>dep. Ok (dt_Data dep),
     ce_code = \<lparr>uc_l1BlockDeploymentBytecode = [], uc_gasPriceOracleDeploymentBytecode = [], uc_eip4788CreationData = [],
       uc_gasPriceOracleFjordDeploymentBytecode = [], uc_newL1BlockAddress = 1, uc_newGasPriceOracleAddress = 2\<rparr>,
     ce_DepositContractAddress = 3, ce_L1SystemConfigAddress = 4\<rparr>"

definition sample_chain_view :: chain_view where
  "sample_chain_view = \<lparr>cv_SystemConfigByL2Hash = \<lambda>_. Some sample_sysCfg, cv_FetchReceipts = \<lambda>_. None,
     cv_InfoByHash = \<lambda>_. Some sample_block_info, cv_L1BlockRefByNumber = \<lambda>_. NotFound, cv_Winner = \<lambda>_. zero_winner\<lparr>win_addr := 9\<rparr>\<rparr>"

definition sample_parent :: l2_block_ref where
  "sample_parent = \<lparr>l2_hash = 20, l2_number = 8, l2_parentHash = 19, l2_time = 60,
     l2_l1Origin = \<lparr>id_hash = 11, id_number = 5\<rparr>, l2_sequenceNumber = 3\<rparr>"

definition sample_next_batch :: singular_batch where
  "sample_next_batch = \<lparr>sb_ParentHash = 20, sb_EpochNum = 5, sb_EpochHash = 11, sb_Timestamp = 62, sb_Transactions = [[7]]\<rparr>"

lemmas sample_chain = sample_chain_env_def sample_chain_view_def sample_parent_def sample_next_batch_def

lemma sample_times: "rc_BlockTime ecotone_config = 2" "\<not> IsInterop ecotone_config 62" "\<not> IsEcotoneActivationBlock ecotone_config 62"
    "\<not> IsFjordActivationBlock ecotone_config 62"
  by (simp_all add: ecotone_config_def sample_config_def IsInterop_def IsFjord_def IsEcotone_def fork_active_def IsEcotoneActivationBlock_def
      IsFjordActivationBlock_def activation_block_def)

lemma sample_attributes:
  "\<exists>attrs. createNextAttributes sample_chain_env ecotone_config sample_chain_view sample_next_batch sample_parent = Ok (Inr attrs)"
proof -
  obtain dep where d: "L1InfoDeposit (\<lambda>_. 0) (\<lambda>_. []) ecotone_config sample_sysCfg 4 sample_block_info 62 9 = Ok dep"
    using sample_info_deposit by blast
  have oi: "origin_inputs sample_chain_env ecotone_config sample_chain_view sample_parent (singular_Epoch sample_next_batch) sample_sysCfg =
      Ok (Inr (sample_block_info, [], 4, sample_sysCfg))"
    by (simp add: origin_inputs_def sample_chain singular_Epoch_def)
  have ut: "upgrade_txs sample_chain_env ecotone_config 62 = Ok (Inr [])"
    by (simp add: upgrade_txs_def sample_times)
  have "\<exists>txs. block_txs sample_chain_env ecotone_config 62 sample_block_info [] 4 sample_sysCfg 9 [] = Ok (Inr txs)"
    using d by (simp add: block_txs_def L1InfoDepositBytes_def BurnTxBytes_def sample_times sample_chain_env_def)
  then have "\<exists>attrs. PreparePayloadAttributes sample_chain_env ecotone_config sample_chain_view sample_parent (singular_Epoch sample_next_batch)
      = Ok (Inr attrs)"
    using oi ut by (auto simp: PreparePayloadAttributes_def sample_times sample_parent_def sample_chain_view_def sample_block_info_def)
  then show ?thesis by (auto simp: createNextAttributes_def sample_times sample_parent_def sample_next_batch_def)
qed

theorem derived_block_extends_witness:
  "\<exists>attrs. createNextAttributes sample_chain_env ecotone_config sample_chain_view sample_next_batch sample_parent = Ok (Inr attrs) \<and>
     PayloadToBlockRef (\<lambda>_. 0) (\<lambda>otx. Ok (DepositTxType, otx)) ecotone_config sample_genesis
       (sample_payload\<lparr>ep_Timestamp := pa_Timestamp attrs, ep_Transactions := pa_Transactions attrs\<rparr>) =
     Ok \<lparr>l2_hash = 21, l2_number = 9, l2_parentHash = 20, l2_time = 62, l2_l1Origin = \<lparr>id_hash = 11, id_number = 5\<rparr>, l2_sequenceNumber = 4\<rparr>"
proof -
  obtain attrs where a: "createNextAttributes sample_chain_env ecotone_config sample_chain_view sample_next_batch sample_parent = Ok (Inr attrs)"
    using sample_attributes by blast
  let ?p = "sample_payload\<lparr>ep_Timestamp := pa_Timestamp attrs, ep_Transactions := pa_Transactions attrs\<rparr>"
  have "honest_view sample_chain_view (singular_Epoch sample_next_batch)"
    by (simp add: honest_view_def sample_chain sample_block_info_def singular_Epoch_def config_words_def sample_sysCfg_def EncodeScalar_def)
  moreover have "forks_ordered ecotone_config" by (simp add: forks_ordered_def ecotone_config_def sample_config_def checkFork_def)
  moreover have "built_from attrs sample_parent ?p" by (simp add: built_from_def sample_payload_def sample_parent_def)
  ultimately have "PayloadToBlockRef (ce_kk sample_chain_env) (\<lambda>otx. Ok (DepositTxType, otx)) ecotone_config sample_genesis ?p =
      Ok (next_ref sample_parent sample_next_batch (ep_BlockHash ?p))"
    using derived_block_extends [where dec = "\<lambda>otx. Ok (DepositTxType, otx)" and genesis = sample_genesis, OF a]
    by (simp add: sample_chain_env_def sample_parent_def sample_genesis_def)
  then show ?thesis using a
    by (auto simp: next_ref_def sample_parent_def sample_next_batch_def sample_payload_def same_epoch_def singular_Epoch_def sample_chain_env_def)
qed

section \<open>No panics\<close>

definition enc_safe :: "(deposit_tx \<Rightarrow> bytes res) \<Rightarrow> bool" where
  "enc_safe enc \<longleftrightarrow> (\<forall>dep. \<not> is_panic (enc dep))"

lemmas panics = is_panic_bind is_panic_wrap is_panic_guard

lemma is_panic_critical: "is_panic (critical msg r k) \<longleftrightarrow> is_panic r \<or> (\<exists>x. r = Ok x \<and> is_panic (k x))"
  by (cases r) auto

lemma is_panic_sum: "is_panic (case r of Inl e \<Rightarrow> Ok (Inl e) | Inr x \<Rightarrow> k x) \<longleftrightarrow> (\<exists>x. r = Inr x \<and> is_panic (k x))"
  by (cases r) auto

lemma scalars_safe: "\<not> is_panic (EcotoneScalars s)" "\<not> is_panic (CheckEcotoneL1SystemConfigScalar w)"
  by (auto simp: EcotoneScalars_def CheckEcotoneL1SystemConfigScalar_def DecodeScalar_def guard_err_def split: res.split)

lemma WriteUint256_safe: "\<not> is_panic (WriteUint256 n)"
  by (simp add: WriteUint256_def panics)

lemma L1InfoDeposit_safe: "\<not> is_panic (L1InfoDeposit kk hex cfg s seq info t winner)"
  by (auto simp: L1InfoDeposit_def l1_info_data_def panics marshalBinaryIsthmus_def marshalBinaryEcotone_def marshalBinaryBedrock_def
      marshalBinaryWithSignature_def scalars_safe WriteUint256_safe Let_def)

lemma words_safe: "\<not> is_panic (ReadUint64 bs)" "\<not> is_panic (ReadEthBytes32 bs)"
  by (simp_all add: ReadUint64_def read_uint64_def ReadEthBytes32_def read_full_def map_parser_def panics split_def)

lemma update_safe: "\<not> is_panic (ProcessSystemConfigUpdateLogEvent kk cfg t ev s)"
  by (auto simp: ProcessSystemConfigUpdateLogEvent_def update_gas_config_def update_gas_limit_def expect_word_def panics words_safe split_def Let_def)

lemma log_updates_safe: "\<not> is_panic (log_updates kk cfg addr t logs s)"
proof (induction logs arbitrary: s)
  case (Cons l logs)
  then show ?case using update_safe [of kk cfg t l s] by (auto simp: panics split_def split: res.split)
qed simp

lemma updates_safe: "\<not> is_panic (UpdateSystemConfigWithL1Receipts kk cfg addr t receipts s)"
  by (induction receipts arbitrary: s) (auto simp: panics split_def log_updates_safe)

lemma unmarshal_safe: "\<not> is_panic (UnmarshalDepositLogEvent kk hex ev)"
  by (simp add: UnmarshalDepositLogEvent_def opaque_content_def unmarshalDepositVersion0_def panics Let_def)

lemma log_deposits_safe: "\<not> is_panic (log_deposits kk hex addr logs)"
proof (induction logs)
  case (Cons l logs)
  then show ?case using unmarshal_safe [of kk hex l] by (auto simp: panics split_def split: res.split)
qed simp

lemma UserDeposits_safe: "\<not> is_panic (UserDeposits kk hex addr receipts)"
  by (induction receipts) (auto simp: panics split_def log_deposits_safe)

lemma encode_deposits_safe: "enc_safe enc \<Longrightarrow> \<not> is_panic (encode_deposits enc ds)"
proof (induction ds)
  case (Cons d ds)
  then have "\<not> is_panic (enc d)" by (simp add: enc_safe_def)
  then show ?case using Cons by (auto simp: panics split_def split: res.split)
qed simp

lemma DeriveDeposits_safe: "enc_safe enc \<Longrightarrow> \<not> is_panic (DeriveDeposits kk hex enc addr receipts)"
  by (simp add: DeriveDeposits_def panics split_def UserDeposits_safe encode_deposits_safe)

lemma origin_inputs_safe: "enc_safe (ce_enc env) \<Longrightarrow> \<not> is_panic (origin_inputs env cfg v parent epoch s)"
  by (simp add: origin_inputs_def panics split_def DeriveDeposits_safe updates_safe split: option.split)

lemma encode_all_safe: "enc_safe enc \<Longrightarrow> \<not> is_panic (encode_all enc ds)"
  by (induction ds) (auto simp: panics enc_safe_def)

lemma upgrade_txs_safe: "enc_safe (ce_enc env) \<Longrightarrow> \<not> is_panic (upgrade_txs env cfg t)"
  by (simp add: upgrade_txs_def is_panic_critical encode_all_safe EcotoneNetworkUpgradeTransactions_def FjordNetworkUpgradeTransactions_def
      del: encode_all.simps)

lemma block_txs_safe: "enc_safe (ce_enc env) \<Longrightarrow> \<not> is_panic (block_txs env cfg t info deposits seq s winner ups)"
  using L1InfoDeposit_safe
  by (auto simp: block_txs_def is_panic_critical L1InfoDepositBytes_def DepositsCompleteBytes_def BurnTxBytes_def panics enc_safe_def
      split: if_splits)

lemma prepare_safe: "enc_safe (ce_enc env) \<Longrightarrow> \<not> is_panic (PreparePayloadAttributes env cfg v parent epoch)"
  by (auto simp: PreparePayloadAttributes_def panics is_panic_sum Let_def origin_inputs_safe upgrade_txs_safe block_txs_safe split: option.split if_splits)

lemma create_safe: "enc_safe (ce_enc env) \<Longrightarrow> \<not> is_panic (createNextAttributes env cfg v b parent)"
  by (auto simp: createNextAttributes_def panics is_panic_sum prepare_safe)

section \<open>On top of the stage before\<close>

lemma bind_Err: "bind_res m f = Err e \<longleftrightarrow> m = Err e \<or> (\<exists>x. m = Ok x \<and> f x = Err e)"
  by (cases m) auto

lemma critical_Err: "critical msg r k = Err e \<longleftrightarrow> (\<exists>x. r = Ok x \<and> k x = Err e)"
  by (cases r) auto

lemma sum_Err: "(case r of Inl e \<Rightarrow> Ok (Inl e) | Inr x \<Rightarrow> k x) = Err e \<longleftrightarrow> (\<exists>x. r = Inr x \<and> k x = Err e)"
  by (cases r) auto

lemma bind_sum_Inl:
  "bind_res m (\<lambda>r. case r of Inl e \<Rightarrow> Ok (Inl e) | Inr x \<Rightarrow> Ok (Inr (k x))) = Ok (Inl e) \<longleftrightarrow> m = Ok (Inl e)"
proof (cases m)
  case (Ok x)
  then show ?thesis by (cases x) auto
qed auto

lemma DeriveDeposits_no_err: "DeriveDeposits kk hex enc addr receipts \<noteq> Err e"
proof -
  have l: "log_deposits kk hex addr logs \<noteq> Err e" for logs
    by (induction logs) (auto simp: bind_Err split_def split: res.split)
  have "UserDeposits kk hex addr receipts \<noteq> Err e" by (induction receipts) (auto simp: bind_Err split_def l)
  moreover have "encode_deposits enc ds \<noteq> Err e" for ds
    by (induction ds) (auto simp: bind_Err split_def split: res.split)
  ultimately show ?thesis by (auto simp: DeriveDeposits_def bind_Err split_def)
qed

lemma updates_no_err: "UpdateSystemConfigWithL1Receipts kk cfg addr t receipts s \<noteq> Err e"
proof -
  have l: "log_updates kk cfg addr t logs s \<noteq> Err e" for logs s
    by (induction logs arbitrary: s) (auto simp: bind_Err split_def split: res.split)
  then show ?thesis by (induction receipts arbitrary: s) (auto simp: bind_Err split_def l)
qed

lemma create_no_err: "createNextAttributes env cfg v b parent \<noteq> Err e"
proof -
  have o: "origin_inputs env cfg v parent ep s \<noteq> Err e" for ep s
    by (auto simp: origin_inputs_def bind_Err split_def DeriveDeposits_no_err updates_no_err split: option.split)
  have u: "upgrade_txs env cfg t \<noteq> Err e" for t by (simp add: upgrade_txs_def critical_Err)
  have t: "block_txs env cfg t info deposits seq s winner ups \<noteq> Err e" for t info deposits seq s winner ups
    by (simp add: block_txs_def critical_Err)
  have "PreparePayloadAttributes env cfg v parent ep \<noteq> Err e" for ep
    by (auto simp: PreparePayloadAttributes_def Let_def bind_Err sum_Err o u t split: option.split if_splits)
  then show ?thesis by (auto simp: createNextAttributes_def bind_Err sum_Err)
qed

text \<open>
  What the attributes queue relies on: the stage before it, asked in a state that is \<open>ready\<close>, does not
  panic, and hands out only batches that extend the head it is asked for.
\<close>

locale batch_stage =
  fixes nextb :: "l2_block_ref \<Rightarrow> 'p \<Rightarrow> ('p, singular_batch \<times> bool) call res"
    and ready :: "l2_block_ref \<Rightarrow> 'p \<Rightarrow> bool"
    and cfg :: rollup_config
  assumes nextb_extends: "ready parent p \<Longrightarrow>
    \<exists>p' r. nextb parent p = Ok (p', r) \<and> (\<forall>b isLast. r = Inr (b, isLast) \<longrightarrow> extends_head cfg parent b)"
begin

lemma NextAttributes_stage:
  assumes enc: "enc_safe (ce_enc env)" and kept: "\<And>b. aq_batch aq = Some b \<Longrightarrow> extends_head cfg parent b"
    and fetch: "aq_batch aq = None \<Longrightarrow> ready parent (aq_prev aq)"
  shows "\<exists>aq' r. aq_NextAttributes env cfg v orig nextb parent aq = Ok (aq', r) \<and>
    (\<forall>b. aq_batch aq' = Some b \<longrightarrow> extends_head cfg parent b) \<and>
    (\<forall>ap. r = Inr ap \<longrightarrow> aq_batch aq' = None \<and> ap_Parent ap = parent \<and>
       (\<exists>b. extends_head cfg parent b \<and> createNextAttributes env cfg v b parent = Ok (Inr (ap_Attributes ap)))) \<and>
    (\<forall>e b. r = Inl e \<longrightarrow> aq_batch aq' = Some b \<longrightarrow> PreparePayloadAttributes env cfg v parent (singular_Epoch b) = Ok (Inl e))"
proof -
  have step: ?thesis if aq1: "aq_batch aq1 = Some b" and b: "extends_head cfg parent b"
    and n: "aq_NextAttributes env cfg v orig nextb parent aq = bind_res (createNextAttributes env cfg v b parent) (\<lambda>r. case r of
        Inl e \<Rightarrow> Ok (aq1, Inl e)
      | Inr attrs \<Rightarrow> Ok (aq1\<lparr>aq_batch := None, aq_isLastInSpan := False\<rparr>,
          Inr \<lparr>ap_Attributes = attrs, ap_Parent = parent, ap_IsLastInSpan = aq_isLastInSpan aq1, ap_DerivedFrom = orig (aq_prev aq1)\<rparr>))" for aq1 b
  proof -
    obtain r where r: "createNextAttributes env cfg v b parent = Ok r"
    proof (cases "createNextAttributes env cfg v b parent")
      case (Err e)
      then show ?thesis using create_no_err by blast
    qed (use create_safe [OF enc, of cfg v b parent] that in auto)
    show ?thesis
    proof (cases r)
      case (Inl e)
      then have "PreparePayloadAttributes env cfg v parent (singular_Epoch b) = Ok (Inl e)"
        using r b by (auto simp: createNextAttributes_def extends_head_def bind_sum_Inl)
      then show ?thesis using n r Inl aq1 b by auto
    next
      case (Inr attrs)
      then show ?thesis using n r b by auto
    qed
  qed
  show ?thesis
  proof (cases "aq_batch aq")
    case (Some b)
    then show ?thesis using kept by (intro step [of aq b]) (simp_all add: aq_NextAttributes_def)
  next
    case None
    then obtain p r where p: "nextb parent (aq_prev aq) = Ok (p, r)" "\<And>b isLast. r = Inr (b, isLast) \<Longrightarrow> extends_head cfg parent b"
      using nextb_extends fetch by blast
    show ?thesis
    proof (cases r)
      case (Inl e)
      then show ?thesis using None p(1) by (simp add: aq_NextAttributes_def)
    next
      case (Inr q)
      obtain b isLast where q: "q = (b, isLast)" by fastforce
      show ?thesis using None p Inr q
        by (intro step [of "aq\<lparr>aq_prev := p, aq_batch := Some b, aq_isLastInSpan := isLast\<rparr>" b]) (simp_all add: aq_NextAttributes_def cong: sum.case_cong)
    qed
  qed
qed

end

text \<open>The batch queue is such a stage.\<close>

definition queue_ready :: "rollup_config \<Rightarrow> 'pl batch_env \<Rightarrow> ('p \<Rightarrow> l1_block_ref) \<Rightarrow> ('p \<Rightarrow> ('p, batch) call) \<Rightarrow> l2_block_ref \<Rightarrow> 'p batch_queue \<Rightarrow> bool" where
  "queue_ready cfg benv orig nx parent bq \<longleftrightarrow> 0 < rc_BlockTime cfg \<and> unat (l2_time parent) + unat (rc_BlockTime cfg) < 2 ^ 64 \<and>
     good_payloads benv \<and> good_queue cfg bq \<and> (\<forall>p p' b. nx p = (p', Inr b) \<longrightarrow> good_batch cfg b) \<and>
     (bq_l1Blocks bq \<noteq> [] \<or> bq_origin bq \<noteq> orig (bq_prev bq))"

interpretation queue: batch_stage "bq_NextBatch cfg benv orig nx" "queue_ready cfg benv orig nx" cfg for cfg benv orig nx
proof unfold_locales
  fix parent bq assume "queue_ready cfg benv orig nx parent bq"
  then have "queue_result cfg parent (bq_NextBatch cfg benv orig nx parent bq)"
    unfolding queue_ready_def by (intro NextBatch_result) blast+
  then show "\<exists>p' r. bq_NextBatch cfg benv orig nx parent bq = Ok (p', r) \<and> (\<forall>b isLast. r = Inr (b, isLast) \<longrightarrow> extends_head cfg parent b)"
    by (auto simp: queue_result_def split: res.splits sum.splits)
qed



end
