(* ===== verification/Spec2Isabelle.thy ===== *)
theory Spec2Isabelle
  imports ElectionDeriverProps CannonSyscallProps CannonReserve DeriveOutProps DeriveBankProps DeriveQueueProps FaultChallenger FaultSplit DeriveSpanSafe DeriveSpanCarries DeriveDataProps DeriveAttributesProps
begin

text \<open>
  A verification library for the Based Stack node.
\<close>

end
